(* ===== verification/Base.thy ===== *)
theory Base
  imports Main "HOL-Library.Char_ord" "HOL-Library.List_Lexorder"
begin

text \<open>
  Prelude of the development: the types every component shares (identifiers, points in time,
  results of fallible operations), the relational operations the repositories are written with
  (SELECT, UPDATE, DELETE and COUNT with a WHERE clause over a table kept as a list of rows in
  insertion order), and the generic lemmas about them that carry the component proofs.
\<close>

section \<open>Shared types\<close>

text \<open>
  Identifiers are the values of \<open>str(uuid4())\<close>. The standard library draws them at random; the
  model draws them from a counter kept in the state of the repository, so a fresh identifier is
  one that was never handed out before. An identifier that a client sends is any number.
\<close>

type_synonym ident = nat

text \<open>
  A point in time is a number of microseconds of UTC, the resolution of \<open>datetime\<close>. The code
  reads every stored timestamp through \<open>aware\<close>, which makes it UTC.
\<close>

type_synonym time = int

definition timedelta_seconds :: "int \<Rightarrow> time" where
  "timedelta_seconds n = n * 1000000"

definition timedelta_hours :: "int \<Rightarrow> time" where
  "timedelta_hours n = n * 3600 * 1000000"

definition timedelta_days :: "int \<Rightarrow> time" where
  "timedelta_days n = n * 86400 * 1000000"

lemma timedelta_nonneg [simp]:
  "0 \<le> n \<Longrightarrow> 0 \<le> timedelta_seconds n"
  "0 \<le> n \<Longrightarrow> 0 \<le> timedelta_hours n"
  "0 \<le> n \<Longrightarrow> 0 \<le> timedelta_days n"
  by (simp_all add: timedelta_seconds_def timedelta_hours_def timedelta_days_def)

section \<open>Relational operations over a table\<close>

text \<open>
  \<open>upd_where\<close> is \<open>UPDATE t SET f WHERE P\<close>, \<open>del_where\<close> is \<open>DELETE FROM t WHERE P\<close>,
  \<open>first_where\<close> is \<open>session.scalar(select(t).where(P))\<close> and \<open>count_where\<close> is
  \<open>select(func.count()).where(P)\<close>.
\<close>

definition upd_where :: "('r \<Rightarrow> bool) \<Rightarrow> ('r \<Rightarrow> 'r) \<Rightarrow> 'r list \<Rightarrow> 'r list" where
  "upd_where P f xs = map (\<lambda>x. if P x then f x else x) xs"

definition del_where :: "('r \<Rightarrow> bool) \<Rightarrow> 'r list \<Rightarrow> 'r list" where
  "del_where P xs = filter (\<lambda>x. \<not> P x) xs"

definition first_where :: "('r \<Rightarrow> bool) \<Rightarrow> 'r list \<Rightarrow> 'r option" where
  "first_where P xs = List.find P xs"

definition count_where :: "('r \<Rightarrow> bool) \<Rightarrow> 'r list \<Rightarrow> nat" where
  "count_where P xs = length (filter P xs)"

definition exists_where :: "('r \<Rightarrow> bool) \<Rightarrow> 'r list \<Rightarrow> bool" where
  "exists_where P xs \<longleftrightarrow> (\<exists>x\<in>set xs. P x)"

text \<open>\<open>ORDER BY key DESC\<close>, with rows of equal key in insertion order.\<close>

definition sort_desc :: "('r \<Rightarrow> time) \<Rightarrow> 'r list \<Rightarrow> 'r list" where
  "sort_desc key xs = sort_key (\<lambda>x. - key x) xs"

text \<open>\<open>ORDER BY key DESC LIMIT 1\<close> over the rows that satisfy \<open>P\<close>.\<close>

definition latest_where :: "('r \<Rightarrow> bool) \<Rightarrow> ('r \<Rightarrow> time) \<Rightarrow> 'r list \<Rightarrow> 'r option" where
  "latest_where P key xs = (case sort_desc key (filter P xs) of [] \<Rightarrow> None | x # _ \<Rightarrow> Some x)"

definition earliest_where :: "('r \<Rightarrow> bool) \<Rightarrow> ('r \<Rightarrow> time) \<Rightarrow> 'r list \<Rightarrow> 'r option" where
  "earliest_where P key xs = (case sort_key key (filter P xs) of [] \<Rightarrow> None | x # _ \<Rightarrow> Some x)"

named_theorems table_simps \<open>how the relational operations act on sets of rows and keys\<close>

lemma set_upd_where [table_simps]:
  "set (upd_where P f xs) = (\<lambda>x. if P x then f x else x) ` set xs"
  by (simp add: upd_where_def)

lemma set_del_where [table_simps]: "set (del_where P xs) = {x \<in> set xs. \<not> P x}"
  by (simp add: del_where_def)

lemma ball_upd_where [table_simps]:
  "(\<forall>x\<in>set (upd_where P f xs). Q x) \<longleftrightarrow> (\<forall>x\<in>set xs. if P x then Q (f x) else Q x)"
  by (auto simp: set_upd_where)

lemma bex_upd_where [table_simps]:
  "(\<exists>x\<in>set (upd_where P f xs). Q x) \<longleftrightarrow> (\<exists>x\<in>set xs. if P x then Q (f x) else Q x)"
  by (auto simp: set_upd_where split: if_splits)

lemma image_upd_where: "(\<And>x. g (f x) = g x) \<Longrightarrow> g ` set (upd_where P f xs) = g ` set xs"
  unfolding set_upd_where image_image by (rule image_cong) auto

lemma map_upd_where: "(\<And>x. P x \<Longrightarrow> g (f x) = g x) \<Longrightarrow> map g (upd_where P f xs) = map g xs"
  by (simp add: upd_where_def)

lemma upd_where_Nil [simp]: "upd_where P f [] = []"
  by (simp add: upd_where_def)

lemma upd_where_append: "upd_where P f (xs @ ys) = upd_where P f xs @ upd_where P f ys"
  by (simp add: upd_where_def)

lemma upd_where_none: "(\<And>x. x \<in> set xs \<Longrightarrow> \<not> P x) \<Longrightarrow> upd_where P f xs = xs"
  by (simp add: upd_where_def map_idI)

lemma upd_where_cong:
  "(\<And>x. x \<in> set xs \<Longrightarrow> P x = Q x) \<Longrightarrow> upd_where P f xs = upd_where Q f xs"
  by (simp add: upd_where_def)

lemma length_upd_where [simp]: "length (upd_where P f xs) = length xs"
  by (simp add: upd_where_def)

lemma distinct_map_del_where: "distinct (map g xs) \<Longrightarrow> distinct (map g (del_where P xs))"
  by (simp add: del_where_def distinct_map_filter)

lemma first_where_Some:
  "first_where P xs = Some x \<Longrightarrow> x \<in> set xs \<and> P x"
  unfolding first_where_def by (induction xs) (auto split: if_splits)

lemma first_where_None: "first_where P xs = None \<longleftrightarrow> (\<forall>x\<in>set xs. \<not> P x)"
  by (auto simp: first_where_def find_None_iff)

lemma first_where_unique:
  assumes "x \<in> set xs" "P x" "\<And>y. y \<in> set xs \<Longrightarrow> P y \<Longrightarrow> y = x"
  shows "first_where P xs = Some x"
proof (cases "first_where P xs")
  case None
  then have "\<not> P x" using assms(1) first_where_None by metis
  with assms(2) show ?thesis by simp
next
  case (Some y)
  from first_where_Some [OF this] have "y = x" using assms(3) by simp
  with Some show ?thesis by simp
qed

lemma count_where_0: "count_where P xs = 0 \<longleftrightarrow> (\<forall>x\<in>set xs. \<not> P x)"
  by (simp add: count_where_def filter_empty_conv)

lemma count_where_Nil [simp]: "count_where P [] = 0"
  by (simp add: count_where_def)

lemma count_where_Cons [simp]:
  "count_where P (x # xs) = (if P x then Suc (count_where P xs) else count_where P xs)"
  by (simp add: count_where_def)

lemma count_where_append [simp]:
  "count_where P (xs @ ys) = count_where P xs + count_where P ys"
  by (simp add: count_where_def)

lemma count_where_pos: "0 < count_where P xs \<longleftrightarrow> (\<exists>x\<in>set xs. P x)"
  by (metis count_where_0 gr0I less_numeral_extra(3))

text \<open>At most one row satisfies the predicate, counted and as a statement about rows.\<close>

lemma count_where_le_1:
  assumes "distinct (map key xs)"
  shows "count_where P xs \<le> 1 \<longleftrightarrow> (\<forall>x\<in>set xs. \<forall>y\<in>set xs. P x \<longrightarrow> P y \<longrightarrow> key x = key y)"
  using assms
proof (induction xs)
  case Nil
  then show ?case by simp
next
  case (Cons a xs)
  show ?case
  proof (cases "P a")
    case True
    have "count_where P (a # xs) \<le> 1 \<longleftrightarrow> (\<forall>x\<in>set xs. \<not> P x)"
      using True by (simp add: count_where_0)
    also have "\<dots> \<longleftrightarrow> (\<forall>x\<in>set (a # xs). \<forall>y\<in>set (a # xs). P x \<longrightarrow> P y \<longrightarrow> key x = key y)"
      using Cons.prems True by (auto simp: image_iff)
    finally show ?thesis .
  next
    case False
    with Cons show ?thesis by auto
  qed
qed

text \<open>How counting interacts with the updates.\<close>

lemma count_where_cong:
  "(\<And>x. x \<in> set xs \<Longrightarrow> P x = Q x) \<Longrightarrow> count_where P xs = count_where Q xs"
  by (simp add: count_where_def cong: filter_cong)

lemma count_where_upd_same:
  "(\<And>x. x \<in> set xs \<Longrightarrow> Q x \<Longrightarrow> P (f x) = P x) \<Longrightarrow>
     count_where P (upd_where Q f xs) = count_where P xs"
  by (induction xs) (auto simp: upd_where_def)

lemma count_where_mono:
  "(\<And>x. P x \<Longrightarrow> Q x) \<Longrightarrow> count_where P xs \<le> count_where Q xs"
  by (induction xs) auto

lemma count_where_del:
  "count_where P (del_where Q xs) = count_where (\<lambda>x. P x \<and> \<not> Q x) xs"
  by (simp add: count_where_def del_where_def conj_commute)

lemma count_where_upd_key:
  assumes "distinct (map key xs)" and "x \<in> set xs" and "key x = k"
  shows "count_where P (upd_where (\<lambda>y. key y = k) f xs) + (if P x then 1 else 0)
       = count_where P xs + (if P (f x) then 1 else 0)"
  using assms
proof (induction xs)
  case Nil
  then show ?case by simp
next
  case (Cons a xs)
  show ?case
  proof (cases "a = x")
    case True
    have "upd_where (\<lambda>y. key y = k) f xs = xs"
      using Cons.prems True by (intro upd_where_none) (auto simp: image_iff)
    then show ?thesis using True Cons.prems by (simp add: upd_where_def)
  next
    case False
    then have "x \<in> set xs" "key a \<noteq> k" using Cons.prems by auto
    then show ?thesis using Cons by (simp add: upd_where_def)
  qed
qed

lemma distinct_key_eq:
  "distinct (map key xs) \<Longrightarrow> x \<in> set xs \<Longrightarrow> y \<in> set xs \<Longrightarrow> key x = key y \<Longrightarrow> x = y"
  by (meson distinct_map inj_onD)

text \<open>An update of the one row that has a given key.\<close>

lemma set_upd_key:
  assumes "distinct (map key xs)" and "x \<in> set xs" and "key x = k"
  shows "set (upd_where (\<lambda>y. key y = k) f xs) = insert (f x) {y \<in> set xs. key y \<noteq> k}"
proof -
  have "y = x" if "y \<in> set xs" "key y = k" for y
    using distinct_key_eq [OF assms(1)] that assms(2,3) by simp
  then have eq: "set xs \<inter> {y. key y = k} = {x}" using assms(2,3) by blast
  have "set (upd_where (\<lambda>y. key y = k) f xs)
      = f ` (set xs \<inter> {y. key y = k}) \<union> {y \<in> set xs. key y \<noteq> k}"
    unfolding set_upd_where by auto
  then show ?thesis unfolding eq by simp
qed

lemma exists_where_iff: "exists_where P xs \<longleftrightarrow> first_where P xs \<noteq> None"
  by (auto simp: exists_where_def first_where_None)

lemma set_sort_desc [simp]: "set (sort_desc key xs) = set xs"
  by (simp add: sort_desc_def)

lemma latest_where_Some: "latest_where P key xs = Some x \<Longrightarrow> x \<in> set xs \<and> P x"
proof -
  assume a: "latest_where P key xs = Some x"
  then obtain ys where "sort_desc key (filter P xs) = x # ys"
    by (auto simp: latest_where_def split: list.splits)
  then have "x \<in> set (sort_desc key (filter P xs))" by simp
  then show ?thesis by simp
qed

lemma latest_where_None: "latest_where P key xs = None \<longleftrightarrow> (\<forall>x\<in>set xs. \<not> P x)"
proof -
  have "latest_where P key xs = None \<longleftrightarrow> sort_desc key (filter P xs) = []"
    by (simp add: latest_where_def split: list.split)
  also have "\<dots> \<longleftrightarrow> set (sort_desc key (filter P xs)) = {}"
    by (simp only: set_empty)
  finally show ?thesis by auto
qed

lemma earliest_where_Some: "earliest_where P key xs = Some x \<Longrightarrow> x \<in> set xs \<and> P x"
proof -
  assume a: "earliest_where P key xs = Some x"
  then obtain ys where "sort_key key (filter P xs) = x # ys"
    by (auto simp: earliest_where_def split: list.splits)
  then have "x \<in> set (sort_key key (filter P xs))" by simp
  then show ?thesis by simp
qed

lemma earliest_where_None: "earliest_where P key xs = None \<longleftrightarrow> (\<forall>x\<in>set xs. \<not> P x)"
proof -
  have "earliest_where P key xs = None \<longleftrightarrow> sort_key key (filter P xs) = []"
    by (simp add: earliest_where_def split: list.split)
  also have "\<dots> \<longleftrightarrow> set (sort_key key (filter P xs)) = {}"
    by (simp only: set_empty)
  finally show ?thesis by auto
qed

lemma earliest_where_least:
  "earliest_where P key xs = Some x \<Longrightarrow> y \<in> set xs \<Longrightarrow> P y \<Longrightarrow> key x \<le> key y"
proof -
  assume a: "earliest_where P key xs = Some x" and y: "y \<in> set xs" "P y"
  then obtain ys where ys: "sort_key key (filter P xs) = x # ys"
    by (auto simp: earliest_where_def split: list.splits)
  have "sorted (map key (sort_key key (filter P xs)))" by (rule sorted_sort_key)
  then have "sorted (map key (x # ys))" by (simp only: ys)
  moreover have "y \<in> set (sort_key key (filter P xs))" using y by simp
  then have "y \<in> set (x # ys)" by (simp only: ys)
  ultimately show ?thesis by auto
qed

lemma count_where_del_key:
  assumes "distinct (map key xs)" "x \<in> set xs"
  shows "count_where P (del_where (\<lambda>y. key y = key x) xs) + (if P x then 1 else 0) = count_where P xs"
  using assms
proof (induction xs)
  case (Cons y ys)
  show ?case
  proof (cases "y = x")
    case True
    then have "\<forall>z\<in>set ys. key z \<noteq> key x" using Cons.prems(1) by (auto simp: image_iff)
    then have "del_where (\<lambda>z. key z = key x) ys = ys"
      by (induction ys) (auto simp: del_where_def)
    then show ?thesis by (simp add: True del_where_def)
  next
    case False
    with Cons.prems have "x \<in> set ys" "key y \<noteq> key x" by auto
    with Cons.IH Cons.prems(1) show ?thesis by (simp add: del_where_def)
  qed
qed simp

text \<open>A lookup by a key that is distinct in the table finds the row that has it.\<close>

lemma first_where_key:
  assumes "distinct (map key xs)" "x \<in> set xs" "key x = k"
  shows "first_where (\<lambda>y. key y = k) xs = Some x"
proof (rule first_where_unique [OF assms(2)])
  show "y = x" if "y \<in> set xs" "key y = k" for y
    using distinct_key_eq [OF assms(1) that(1) assms(2)] that(2) assms(3) by simp
qed (rule assms(3))

section \<open>Exactly one row\<close>

definition exactly_one :: "('r \<Rightarrow> bool) \<Rightarrow> 'r list \<Rightarrow> bool" where
  "exactly_one P xs \<longleftrightarrow> count_where P xs = 1"

lemma exactly_one_iff:
  assumes "distinct (map key xs)"
  shows "exactly_one P xs \<longleftrightarrow> (\<exists>x\<in>set xs. P x \<and> (\<forall>y\<in>set xs. P y \<longrightarrow> key y = key x))"
    (is "?l \<longleftrightarrow> ?r")
proof
  assume ?l
  then have "0 < count_where P xs" and "count_where P xs \<le> 1"
    by (simp_all add: exactly_one_def)
  then obtain x where "x \<in> set xs" "P x"
    and "\<forall>x\<in>set xs. \<forall>y\<in>set xs. P x \<longrightarrow> P y \<longrightarrow> key x = key y"
    by (auto simp only: count_where_pos count_where_le_1 [OF assms])
  then show ?r by blast
next
  assume ?r
  then obtain x where x: "x \<in> set xs" "P x" "\<forall>y\<in>set xs. P y \<longrightarrow> key y = key x"
    by blast
  then have "0 < count_where P xs" by (auto simp: count_where_pos)
  moreover have "count_where P xs \<le> 1"
    unfolding count_where_le_1 [OF assms] using x(3) by simp
  ultimately show ?l by (simp add: exactly_one_def)
qed

section \<open>Tables with drawn identifiers\<close>

text \<open>
  The identifiers of a table are distinct and below the counter they are drawn from.
\<close>

definition fresh_table :: "('r \<Rightarrow> ident) \<Rightarrow> 'r list \<Rightarrow> ident \<Rightarrow> bool" where
  "fresh_table key xs n \<longleftrightarrow> distinct (map key xs) \<and> (\<forall>x\<in>set xs. key x < n)"

lemma fresh_table_Nil [simp]: "fresh_table key [] n"
  by (simp add: fresh_table_def)

lemma fresh_table_distinct: "fresh_table key xs n \<Longrightarrow> distinct (map key xs)"
  by (simp add: fresh_table_def)

lemma fresh_table_less: "fresh_table key xs n \<Longrightarrow> x \<in> set xs \<Longrightarrow> key x < n"
  by (simp add: fresh_table_def)

lemma fresh_table_mono: "fresh_table key xs n \<Longrightarrow> n \<le> n' \<Longrightarrow> fresh_table key xs n'"
  by (fastforce simp: fresh_table_def)

lemma fresh_table_append:
  "fresh_table key xs n \<Longrightarrow> n \<le> key r \<Longrightarrow> key r < n' \<Longrightarrow> fresh_table key (xs @ [r]) n'"
  by (fastforce simp: fresh_table_def)

lemma fresh_table_upd:
  "(\<And>x. key (f x) = key x) \<Longrightarrow> fresh_table key (upd_where P f xs) n \<longleftrightarrow> fresh_table key xs n"
  by (simp add: fresh_table_def map_upd_where ball_upd_where)

lemma fresh_table_del: "fresh_table key xs n \<Longrightarrow> fresh_table key (del_where P xs) n"
  by (auto simp: fresh_table_def distinct_map_del_where set_del_where)

lemma fresh_table_eq:
  "fresh_table key xs n \<Longrightarrow> x \<in> set xs \<Longrightarrow> y \<in> set xs \<Longrightarrow> key x = key y \<Longrightarrow> x = y"
  by (auto simp: fresh_table_def intro: distinct_key_eq)

section \<open>Results of fallible operations\<close>

text \<open>
  An operation of a transactional repository returns \<open>Inl e\<close> when it raises (the transaction is
  rolled back, so there is no new state) and \<open>Inr (db', result)\<close> when it commits.
  \<open>state_after\<close> is the state a caller sees afterwards.
\<close>

type_synonym ('e, 's, 'a) outcome = "'e + ('s \<times> 'a)"

definition state_after :: "'s \<Rightarrow> ('e, 's, 'a) outcome \<Rightarrow> 's" where
  "state_after s r = (case r of Inl _ \<Rightarrow> s | Inr (s', _) \<Rightarrow> s')"

lemma state_after_simps [simp]:
  "state_after s (Inl e) = s"
  "state_after s (Inr (s', a)) = s'"
  by (simp_all add: state_after_def)

text \<open>A loop whose body may raise: the first error ends it.\<close>

fun fold_raise :: "('x \<Rightarrow> 's \<Rightarrow> 'e + 's) \<Rightarrow> 'x list \<Rightarrow> 's \<Rightarrow> 'e + 's" where
  "fold_raise f [] s = Inr s"
| "fold_raise f (x # xs) s = (case f x s of Inl e \<Rightarrow> Inl e | Inr s' \<Rightarrow> fold_raise f xs s')"

lemma fold_raise_invariant:
  assumes "fold_raise f xs s = Inr t" and "I s"
    and "\<And>x s t. x \<in> set xs \<Longrightarrow> I s \<Longrightarrow> f x s = Inr t \<Longrightarrow> I t"
  shows "I t"
  using assms
proof (induction xs arbitrary: s)
  case Nil
  then show ?case by simp
next
  case (Cons x xs)
  then obtain u where u: "f x s = Inr u" "fold_raise f xs u = Inr t"
    by (auto split: sum.splits)
  show ?case
  proof (rule Cons.IH [OF u(2)])
    show "I u" using Cons.prems(2,3) u(1) by auto
    show "\<And>y s t. y \<in> set xs \<Longrightarrow> I s \<Longrightarrow> f y s = Inr t \<Longrightarrow> I t"
      using Cons.prems(3) by auto
  qed
qed

lemma fold_invariant_state:
  assumes "I s" and "\<And>x s. x \<in> set xs \<Longrightarrow> I s \<Longrightarrow> I (f x s)"
  shows "I (fold f xs s)"
  using assms by (induction xs arbitrary: s) auto

lemma state_after_cases:
  "(\<And>s' a. r = Inr (s', a) \<Longrightarrow> P s') \<Longrightarrow> P s \<Longrightarrow> P (state_after s r)"
  by (auto simp: state_after_def split: sum.splits)

end
