(* ===== verification/Project_Rows.thy ===== *)
theory Project_Rows
  imports Base
begin

text \<open>
  The data model of the project registry (\<open>app/projects/repository.py\<close>): one record per
  mapped table with the columns of the class, the vocabularies of the string columns as
  datatypes (they are the \<open>Literal\<close> types of \<open>app/models/project.py\<close> and the strings the
  repository writes), the error classes, and the database as one record of tables. A foreign
  key is the identifier of the row it references.
\<close>

section \<open>Vocabularies\<close>

datatype project_state = Draft | Queued | Building | Ready | Failed | Archived

datatype build_status = BQueued | BBuilding | BReady | BFailed

datatype snapshot_status = Editable | Sealed | Active | Validated

datatype file_lifecycle =
  LUploaded | LQueued | LValidating | LConverting | LBuildingGraph | LIndexing | LReady | LFailed

datatype upload_state = UOpen | UFinalized | UExpired

datatype part_state = PPending | PUploaded

datatype project_role = Viewer | Contributor | Manager | Owner

datatype principal_type = User | Group

datatype request_status = RPending | RApproved | RDenied | RCancelled

text \<open>\<open>_ROLE_RANK\<close>.\<close>

fun role_rank :: "project_role \<Rightarrow> nat" where
  "role_rank Viewer = 1"
| "role_rank Contributor = 2"
| "role_rank Manager = 3"
| "role_rank Owner = 4"

fun role_name :: "project_role \<Rightarrow> string" where
  "role_name Viewer = ''viewer''"
| "role_name Contributor = ''contributor''"
| "role_name Manager = ''manager''"
| "role_name Owner = ''owner''"

fun request_status_name :: "request_status \<Rightarrow> string" where
  "request_status_name RPending = ''pending''"
| "request_status_name RApproved = ''approved''"
| "request_status_name RDenied = ''denied''"
| "request_status_name RCancelled = ''cancelled''"

lemma role_rank_inject [simp]: "role_rank a = role_rank b \<longleftrightarrow> a = b"
  by (cases a; cases b) auto

lemma role_rank_le_Owner [simp]: "role_rank r \<le> 4" "0 < role_rank r"
  by (cases r; simp)+

section \<open>Tables\<close>

record tenant_row =
  t_id :: string
  t_name :: string
  t_status :: string
  t_created_at :: time

record project_row =
  p_id :: ident
  p_tenant_id :: string
  p_name :: string
  p_description :: "string option"
  p_state :: project_state
  p_creator_subject :: string
  p_creator_name :: string
  p_created_at :: time
  p_updated_at :: time
  p_archived_at :: "time option"
  p_active_snapshot_id :: "ident option"
  p_active_graph_version :: "string option"
  p_active_document_count :: int
  p_generation :: int

record membership_row =
  m_id :: ident
  m_tenant_id :: string
  m_project_id :: ident
  m_principal_type :: principal_type
  m_principal_id :: string
  m_display_name :: string
  m_role :: project_role
  m_created_by :: string
  m_created_at :: time
  m_updated_at :: time

record access_request_row =
  r_id :: ident
  r_tenant_id :: string
  r_project_id :: ident
  r_requester_id :: string
  r_requester_name :: string
  r_note :: "string option"
  r_status :: request_status
  r_reviewed_by :: "string option"
  r_decided_role :: "project_role option"
  r_created_at :: time
  r_decided_at :: "time option"

record snapshot_row =
  s_id :: ident
  s_project_id :: ident
  s_status :: snapshot_status
  s_created_at :: time
  s_sealed_at :: "time option"

record blob_row =
  b_project_id :: ident
  b_sha256 :: string
  b_size :: int
  b_storage_path :: string
  b_created_at :: time

record snapshot_file_row =
  f_id :: ident
  f_snapshot_id :: ident
  f_project_id :: ident
  f_logical_filename :: string
  f_media_type :: string
  f_size :: int
  f_sha256 :: string
  f_lifecycle_status :: file_lifecycle
  f_progress_percent :: "int option"
  f_error_code :: "string option"
  f_uploaded_at :: "time option"

record upload_session_row =
  u_id :: ident
  u_project_id :: ident
  u_snapshot_id :: ident
  u_created_by :: string
  u_state :: upload_state
  u_created_at :: time
  u_expires_at :: time

record upload_part_row =
  up_id :: ident
  up_session_id :: ident
  up_logical_filename :: string
  up_media_type :: string
  up_expected_size :: int
  up_expected_sha256 :: string
  up_temp_path :: "string option"
  up_received_size :: "int option"
  up_state :: part_state

record build_job_row =
  j_id :: ident
  j_project_id :: ident
  j_snapshot_id :: ident
  j_status :: build_status
  j_requested_by :: string
  j_expected_generation :: int
  j_graph_version :: "string option"
  j_error_code :: "string option"
  j_created_at :: time
  j_started_at :: "time option"
  j_completed_at :: "time option"
  j_worker_id :: "string option"

text \<open>
  The \<open>operation\<close> column of an idempotency record is one of four strings, three of which end in
  an identifier (\<open>f"submit_build:{project_id}"\<close>); the datatype keeps prefix and identifier.
\<close>

datatype operation =
  OpCreateProject | OpCreateUploadSession ident | OpFinalizeUpload ident | OpSubmitBuild ident

record idempotency_row =
  i_id :: ident
  i_actor_subject :: string
  i_operation :: operation
  i_key :: string
  i_resource_id :: ident
  i_created_at :: time

type_synonym audit_details = "(string \<times> string option) list"

record audit_event_row =
  a_id :: ident
  a_project_id :: ident
  a_actor_subject :: string
  a_action :: string
  a_occurred_at :: time
  a_details :: audit_details

text \<open>The detached records handed to callers.\<close>

record part_record =
  pr_id :: ident
  pr_session_id :: ident
  pr_project_id :: ident
  pr_snapshot_id :: ident
  pr_filename :: string
  pr_media_type :: string
  pr_expected_size :: int
  pr_expected_sha256 :: string
  pr_state :: part_state
  pr_temp_path :: "string option"
  pr_expires_at :: time

record build_record =
  br_id :: ident
  br_project_id :: ident
  br_snapshot_id :: ident
  br_expected_generation :: int
  br_requested_by :: string

record access_decision =
  effective_role :: project_role
  origins :: "membership_row list"

record upload_file_declaration =
  d_filename :: string
  d_media_type :: string
  d_size :: int
  d_sha256 :: string

section \<open>Errors and the database\<close>

text \<open>
  The exception classes of the repository, the \<open>AuthorizationError\<close> of
  \<open>app/auth/dependencies.py\<close>, and the \<open>IntegrityError\<close> of the database for a violated
  UNIQUE constraint. Each is raised inside a transaction, which rolls back.
\<close>

datatype repo_error =
  ProjectNotFound ident
| ProjectConflict string
| UploadNotFound ident
| AuthorizationError string
| IntegrityError string

record repo_db =
  tenants :: "tenant_row list"
  projects :: "project_row list"
  memberships :: "membership_row list"
  access_requests :: "access_request_row list"
  snapshots :: "snapshot_row list"
  blobs :: "blob_row list"
  snapshot_files :: "snapshot_file_row list"
  upload_sessions :: "upload_session_row list"
  upload_parts :: "upload_part_row list"
  build_jobs :: "build_job_row list"
  idempotency :: "idempotency_row list"
  audit_events :: "audit_event_row list"
  next_id :: ident

definition empty_db :: repo_db where
  "empty_db = \<lparr>tenants = [], projects = [], memberships = [], access_requests = [],
     snapshots = [], blobs = [], snapshot_files = [], upload_sessions = [], upload_parts = [],
     build_jobs = [], idempotency = [], audit_events = [], next_id = 0\<rparr>"

type_synonym 'a repo_outcome = "(repo_error, repo_db, 'a) outcome"

section \<open>Shared private operations\<close>

text \<open>
  \<open>_idempotent_resource\<close>, \<open>_remember\<close>, \<open>_audit\<close> and \<open>_project_for_update\<close>. The table of
  idempotency records is UNIQUE in (actor, operation, key), so \<open>_remember\<close> fails on a key that
  is already recorded.
\<close>

definition idempotent_resource ::
  "repo_db \<Rightarrow> string \<Rightarrow> operation \<Rightarrow> string \<Rightarrow> ident option" where
  "idempotent_resource db actor op key =
     map_option i_resource_id
       (first_where (\<lambda>i. i_actor_subject i = actor \<and> i_operation i = op \<and> i_key i = key)
          (idempotency db))"

definition remember ::
  "string \<Rightarrow> operation \<Rightarrow> string \<Rightarrow> ident \<Rightarrow> time \<Rightarrow> repo_db \<Rightarrow> repo_db" where
  "remember actor op key resource now db =
     db\<lparr>idempotency := idempotency db @
          [\<lparr>i_id = next_id db, i_actor_subject = actor, i_operation = op, i_key = key,
            i_resource_id = resource, i_created_at = now\<rparr>],
        next_id := Suc (next_id db)\<rparr>"

definition audit ::
  "ident \<Rightarrow> string \<Rightarrow> string \<Rightarrow> time \<Rightarrow> audit_details \<Rightarrow> repo_db \<Rightarrow> repo_db" where
  "audit pid actor action now details db =
     db\<lparr>audit_events := audit_events db @
          [\<lparr>a_id = next_id db, a_project_id = pid, a_actor_subject = actor,
            a_action = action, a_occurred_at = now, a_details = details\<rparr>],
        next_id := Suc (next_id db)\<rparr>"

definition project_for_update :: "repo_db \<Rightarrow> ident \<Rightarrow> project_row option" where
  "project_for_update db pid = first_where (\<lambda>p. p_id p = pid) (projects db)"

text \<open>\<open>_draft\<close>: the newest editable snapshot of the project.\<close>

definition draft :: "repo_db \<Rightarrow> ident \<Rightarrow> snapshot_row option" where
  "draft db pid =
     latest_where (\<lambda>s. s_project_id s = pid \<and> s_status s = Editable) s_created_at (snapshots db)"

definition set_project :: "ident \<Rightarrow> (project_row \<Rightarrow> project_row) \<Rightarrow> repo_db \<Rightarrow> repo_db" where
  "set_project pid f db = db\<lparr>projects := upd_where (\<lambda>p. p_id p = pid) f (projects db)\<rparr>"

text \<open>
  \<open>get_project\<close>. The related rows that the code loads with the project are read from the same
  database state.
\<close>

definition get_project :: "repo_db \<Rightarrow> ident \<Rightarrow> bool \<Rightarrow> repo_error + project_row" where
  "get_project db pid include_archived =
     (case first_where
             (\<lambda>p. p_id p = pid \<and> (include_archived \<or> p_state p \<noteq> Archived)) (projects db) of
        None \<Rightarrow> Inl (ProjectNotFound pid)
      | Some p \<Rightarrow> Inr p)"

section \<open>Frames\<close>

text \<open>
  \<open>remember\<close> and \<open>audit\<close> change nothing but their own table and the counter.
\<close>

lemma remember_frame [simp]:
  "tenants (remember a op k r now db) = tenants db"
  "projects (remember a op k r now db) = projects db"
  "memberships (remember a op k r now db) = memberships db"
  "access_requests (remember a op k r now db) = access_requests db"
  "snapshots (remember a op k r now db) = snapshots db"
  "blobs (remember a op k r now db) = blobs db"
  "snapshot_files (remember a op k r now db) = snapshot_files db"
  "upload_sessions (remember a op k r now db) = upload_sessions db"
  "upload_parts (remember a op k r now db) = upload_parts db"
  "build_jobs (remember a op k r now db) = build_jobs db"
  "audit_events (remember a op k r now db) = audit_events db"
  "next_id (remember a op k r now db) = Suc (next_id db)"
  by (simp_all add: remember_def)

lemma audit_frame [simp]:
  "tenants (audit p a act now d db) = tenants db"
  "projects (audit p a act now d db) = projects db"
  "memberships (audit p a act now d db) = memberships db"
  "access_requests (audit p a act now d db) = access_requests db"
  "snapshots (audit p a act now d db) = snapshots db"
  "blobs (audit p a act now d db) = blobs db"
  "snapshot_files (audit p a act now d db) = snapshot_files db"
  "upload_sessions (audit p a act now d db) = upload_sessions db"
  "upload_parts (audit p a act now d db) = upload_parts db"
  "build_jobs (audit p a act now d db) = build_jobs db"
  "idempotency (audit p a act now d db) = idempotency db"
  "next_id (audit p a act now d db) = Suc (next_id db)"
  by (simp_all add: audit_def)

lemma set_project_frame [simp]:
  "tenants (set_project p f db) = tenants db"
  "projects (set_project p f db) = upd_where (\<lambda>x. p_id x = p) f (projects db)"
  "memberships (set_project p f db) = memberships db"
  "access_requests (set_project p f db) = access_requests db"
  "snapshots (set_project p f db) = snapshots db"
  "blobs (set_project p f db) = blobs db"
  "snapshot_files (set_project p f db) = snapshot_files db"
  "upload_sessions (set_project p f db) = upload_sessions db"
  "upload_parts (set_project p f db) = upload_parts db"
  "build_jobs (set_project p f db) = build_jobs db"
  "idempotency (set_project p f db) = idempotency db"
  "audit_events (set_project p f db) = audit_events db"
  "next_id (set_project p f db) = next_id db"
  by (simp_all add: set_project_def)

lemma project_for_update_Some:
  "project_for_update db pid = Some p \<Longrightarrow> p \<in> set (projects db) \<and> p_id p = pid"
  by (auto simp: project_for_update_def dest: first_where_Some)

lemma draft_Some:
  "draft db pid = Some s \<Longrightarrow>
     s \<in> set (snapshots db) \<and> s_project_id s = pid \<and> s_status s = Editable"
  by (auto simp: draft_def dest: latest_where_Some)

lemma get_project_Inr:
  "get_project db pid ia = Inr p \<Longrightarrow> p \<in> set (projects db) \<and> p_id p = pid"
  by (auto simp: get_project_def split: option.splits dest: first_where_Some)

end
