(* ===== verification/Project_Access.thy ===== *)
theory Project_Access
  imports Project_Rows
begin

text \<open>
  Membership and access-request operations of \<open>ProjectRepository\<close>
  (\<open>app/projects/repository.py\<close>). Every operation takes the database and the current time
  and returns an outcome: an error with the transaction rolled back, or the committed database
  and the value the method returns.
\<close>

section \<open>Reading the membership tables\<close>

text \<open>\<open>max(origins, key=rank)\<close>: the first row of greatest rank.\<close>

fun max_origin :: "membership_row \<Rightarrow> membership_row list \<Rightarrow> membership_row" where
  "max_origin best [] = best"
| "max_origin best (m # ms) =
     max_origin (if role_rank (m_role best) < role_rank (m_role m) then m else best) ms"

definition access_origins ::
  "repo_db \<Rightarrow> ident \<Rightarrow> string \<Rightarrow> string \<Rightarrow> string list \<Rightarrow> membership_row list" where
  "access_origins db pid tenant subject group_ids =
     filter (\<lambda>m. m_project_id m = pid \<and> m_tenant_id m = tenant \<and>
                 (m_principal_type m = User \<and> m_principal_id m = subject \<or>
                  m_principal_type m = Group \<and> m_principal_id m \<in> set group_ids))
       (memberships db)"

definition access_decision_of ::
  "repo_db \<Rightarrow> ident \<Rightarrow> string \<Rightarrow> string \<Rightarrow> string list \<Rightarrow> project_role \<Rightarrow>
     repo_error + access_decision" where
  "access_decision_of db pid tenant subject group_ids minimum =
     (case first_where (\<lambda>p. p_id p = pid \<and> p_tenant_id p = tenant) (projects db) of
        None \<Rightarrow> Inl (ProjectNotFound pid)
      | Some p \<Rightarrow>
          (case access_origins db pid tenant subject group_ids of
             [] \<Rightarrow> Inl (ProjectNotFound pid)
           | m # ms \<Rightarrow>
               let effective = m_role (max_origin m ms) in
               if role_rank effective < role_rank minimum
               then Inl (AuthorizationError ''The project role is insufficient'')
               else Inr \<lparr>effective_role = effective, origins = m # ms\<rparr>))"

text \<open>
  \<open>ORDER BY role DESC, display_name\<close>. The role column is a string, so DESC is the reverse
  alphabetical order of the names: viewer, owner, manager, contributor.
\<close>

fun role_desc_index :: "project_role \<Rightarrow> nat" where
  "role_desc_index Viewer = 0"
| "role_desc_index Owner = 1"
| "role_desc_index Manager = 2"
| "role_desc_index Contributor = 3"

definition list_memberships :: "repo_db \<Rightarrow> ident \<Rightarrow> string \<Rightarrow> membership_row list" where
  "list_memberships db pid tenant =
     take 500
       (sort_key (\<lambda>m. role_desc_index (m_role m))
         (sort_key m_display_name
           (filter (\<lambda>m. m_project_id m = pid \<and> m_tenant_id m = tenant) (memberships db))))"

text \<open>
  \<open>list_projects\<close>: the projects that are not archived, restricted to a tenant when one is
  given and to the memberships of a subject (or one of its groups) when one is given.
\<close>

definition list_projects ::
  "repo_db \<Rightarrow> string option \<Rightarrow> string option \<Rightarrow> string list \<Rightarrow> project_row list" where
  "list_projects db tenant subject group_ids =
     sort_desc p_updated_at
       (filter (\<lambda>p. p_state p \<noteq> Archived \<and>
                    (case tenant of None \<Rightarrow> True | Some t \<Rightarrow> p_tenant_id p = t) \<and>
                    (case subject of
                       None \<Rightarrow> True
                     | Some s \<Rightarrow>
                         exists_where
                           (\<lambda>m. m_project_id m = p_id p \<and>
                                m_principal_id m \<in> set (s # group_ids) \<and>
                                Some (m_tenant_id m) = tenant)
                           (memberships db)))
         (projects db))"

definition list_tenant_projects :: "repo_db \<Rightarrow> string \<Rightarrow> project_row list" where
  "list_tenant_projects db tenant =
     sort_desc p_updated_at (filter (\<lambda>p. p_tenant_id p = tenant) (projects db))"

section \<open>Changing memberships\<close>

definition find_membership ::
  "repo_db \<Rightarrow> ident \<Rightarrow> principal_type \<Rightarrow> string \<Rightarrow> membership_row option" where
  "find_membership db pid ptype prin =
     first_where (\<lambda>m. m_project_id m = pid \<and> m_principal_type m = ptype \<and>
                      m_principal_id m = prin) (memberships db)"

definition set_membership ::
  "ident \<Rightarrow> (membership_row \<Rightarrow> membership_row) \<Rightarrow> repo_db \<Rightarrow> repo_db" where
  "set_membership mid f db =
     db\<lparr>memberships := upd_where (\<lambda>m. m_id m = mid) f (memberships db)\<rparr>"

definition insert_membership ::
  "string \<Rightarrow> ident \<Rightarrow> principal_type \<Rightarrow> string \<Rightarrow> string \<Rightarrow> project_role \<Rightarrow> string \<Rightarrow> time \<Rightarrow>
     repo_db \<Rightarrow> repo_db" where
  "insert_membership tenant pid ptype prin name role actor now db =
     db\<lparr>memberships := memberships db @
          [\<lparr>m_id = next_id db, m_tenant_id = tenant, m_project_id = pid,
            m_principal_type = ptype, m_principal_id = prin, m_display_name = name,
            m_role = role, m_created_by = actor, m_created_at = now, m_updated_at = now\<rparr>],
        next_id := Suc (next_id db)\<rparr>"

text \<open>One round of the loop of \<open>add_memberships\<close>.\<close>

fun add_membership ::
  "string \<Rightarrow> ident \<Rightarrow> project_role \<Rightarrow> string \<Rightarrow> time \<Rightarrow> principal_type \<times> string \<times> string \<Rightarrow>
     repo_db \<Rightarrow> repo_db" where
  "add_membership tenant pid role actor now (ptype, prin, name) db =
     audit pid actor ''access.membership_added'' now
       [(''targetName'', Some name), (''role'', Some (role_name role))]
       (case find_membership db pid ptype prin of
          None \<Rightarrow> insert_membership tenant pid ptype prin name role actor now db
        | Some m \<Rightarrow>
            set_membership (m_id m) (\<lambda>m. m\<lparr>m_display_name := name, m_updated_at := now\<rparr>) db)"

definition add_memberships ::
  "repo_db \<Rightarrow> ident \<Rightarrow> string \<Rightarrow> (principal_type \<times> string \<times> string) list \<Rightarrow> project_role \<Rightarrow>
     string \<Rightarrow> time \<Rightarrow> membership_row list repo_outcome" where
  "add_memberships db pid tenant principals role actor now =
     (case project_for_update db pid of
        None \<Rightarrow> Inl (ProjectNotFound pid)
      | Some p \<Rightarrow>
          if p_tenant_id p \<noteq> tenant then Inl (ProjectNotFound pid)
          else
            let db' = fold (add_membership tenant pid role actor now) principals db
            in Inr (db', list_memberships db' pid tenant))"

definition owner_count :: "repo_db \<Rightarrow> ident \<Rightarrow> nat" where
  "owner_count db pid =
     count_where (\<lambda>m. m_project_id m = pid \<and> m_role m = Owner) (memberships db)"

definition membership_by_id ::
  "repo_db \<Rightarrow> ident \<Rightarrow> ident \<Rightarrow> string \<Rightarrow> membership_row option" where
  "membership_by_id db pid mid tenant =
     first_where (\<lambda>m. m_id m = mid \<and> m_project_id m = pid \<and> m_tenant_id m = tenant)
       (memberships db)"

definition update_membership ::
  "repo_db \<Rightarrow> ident \<Rightarrow> ident \<Rightarrow> string \<Rightarrow> project_role \<Rightarrow> string \<Rightarrow> time \<Rightarrow>
     membership_row repo_outcome" where
  "update_membership db pid mid tenant role actor now =
     (case membership_by_id db pid mid tenant of
        None \<Rightarrow> Inl (ProjectNotFound mid)
      | Some row \<Rightarrow>
          if role = Owner \<and> m_principal_type row \<noteq> User
          then Inl (ProjectConflict ''Groups cannot own projects'')
          else if m_role row = Owner \<and> role \<noteq> Owner \<and> owner_count db pid = 1
          then Inl (ProjectConflict ''The final owner cannot be demoted'')
          else
            let f = (\<lambda>m. m\<lparr>m_role := role, m_updated_at := now\<rparr>) in
            Inr (audit pid actor ''access.role_changed'' now
                   [(''targetName'', Some (m_display_name row)),
                    (''role'', Some (role_name role))]
                   (set_membership (m_id row) f db),
                 f row))"

definition remove_membership ::
  "repo_db \<Rightarrow> ident \<Rightarrow> ident \<Rightarrow> string \<Rightarrow> string \<Rightarrow> time \<Rightarrow> unit repo_outcome" where
  "remove_membership db pid mid tenant actor now =
     (case membership_by_id db pid mid tenant of
        None \<Rightarrow> Inl (ProjectNotFound mid)
      | Some row \<Rightarrow>
          if m_role row = Owner \<and> owner_count db pid = 1
          then Inl (ProjectConflict ''The final owner cannot be removed'')
          else
            Inr (audit pid actor ''access.membership_removed'' now
                   [(''targetName'', Some (m_display_name row)),
                    (''role'', Some (role_name (m_role row)))]
                   (db\<lparr>memberships :=
                         del_where (\<lambda>m. m_id m = m_id row) (memberships db)\<rparr>), ()))"

section \<open>Access requests\<close>

definition create_access_request ::
  "repo_db \<Rightarrow> ident \<Rightarrow> string \<Rightarrow> string \<Rightarrow> string \<Rightarrow> string option \<Rightarrow> time \<Rightarrow>
     access_request_row repo_outcome" where
  "create_access_request db pid tenant requester requester_name note now =
     (case first_where (\<lambda>p. p_id p = pid \<and> p_tenant_id p = tenant \<and> p_state p \<noteq> Archived)
             (projects db) of
        None \<Rightarrow> Inl (ProjectNotFound pid)
      | Some p \<Rightarrow>
          (case first_where (\<lambda>r. r_project_id r = pid \<and> r_requester_id r = requester \<and>
                                 r_status r = RPending) (access_requests db) of
             Some r \<Rightarrow> Inr (db, r)
           | None \<Rightarrow>
               let row = \<lparr>r_id = next_id db, r_tenant_id = tenant, r_project_id = pid,
                          r_requester_id = requester, r_requester_name = requester_name,
                          r_note = note, r_status = RPending, r_reviewed_by = None,
                          r_decided_role = None, r_created_at = now, r_decided_at = None\<rparr>
               in Inr (audit pid requester ''access.requested'' now
                         [(''targetName'', Some requester_name)]
                         (db\<lparr>access_requests := access_requests db @ [row],
                             next_id := Suc (next_id db)\<rparr>), row)))"

definition list_access_requests ::
  "repo_db \<Rightarrow> ident \<Rightarrow> string \<Rightarrow> string option \<Rightarrow> access_request_row list" where
  "list_access_requests db pid tenant requester =
     take 100
       (sort_desc r_created_at
         (filter (\<lambda>r. r_project_id r = pid \<and> r_tenant_id r = tenant \<and>
                      (case requester of None \<Rightarrow> True | Some s \<Rightarrow> r_requester_id r = s))
           (access_requests db)))"

definition set_request ::
  "ident \<Rightarrow> (access_request_row \<Rightarrow> access_request_row) \<Rightarrow> repo_db \<Rightarrow> repo_db" where
  "set_request rid f db =
     db\<lparr>access_requests := upd_where (\<lambda>r. r_id r = rid) f (access_requests db)\<rparr>"

text \<open>The membership that an approval grants.\<close>

definition grant_role ::
  "access_request_row \<Rightarrow> ident \<Rightarrow> string \<Rightarrow> project_role \<Rightarrow> string \<Rightarrow> time \<Rightarrow> repo_db \<Rightarrow> repo_db"
where
  "grant_role row pid tenant role actor now db =
     (case find_membership db pid User (r_requester_id row) of
        None \<Rightarrow> insert_membership tenant pid User (r_requester_id row) (r_requester_name row)
                  role actor now db
      | Some m \<Rightarrow>
          if m_role m \<noteq> Owner
          then set_membership (m_id m) (\<lambda>m. m\<lparr>m_role := role, m_updated_at := now\<rparr>) db
          else db)"

definition decide_access_request ::
  "repo_db \<Rightarrow> ident \<Rightarrow> ident \<Rightarrow> string \<Rightarrow> request_status \<Rightarrow> project_role option \<Rightarrow> string \<Rightarrow>
     time \<Rightarrow> access_request_row repo_outcome" where
  "decide_access_request db pid rid tenant decision role actor now =
     (case first_where (\<lambda>r. r_id r = rid \<and> r_project_id r = pid \<and> r_tenant_id r = tenant)
             (access_requests db) of
        None \<Rightarrow> Inl (ProjectNotFound rid)
      | Some row \<Rightarrow>
          let decided = (if decision = RApproved then role else None) in
          if r_status row \<noteq> RPending
          then (if r_status row = decision \<and> r_decided_role row = decided
                then Inr (db, row)
                else Inl (ProjectConflict ''The access request is already decided''))
          else
            let f = (\<lambda>r. r\<lparr>r_status := decision, r_reviewed_by := Some actor,
                           r_decided_role := decided, r_decided_at := Some now\<rparr>);
                db1 = set_request (r_id row) f db;
                db2 = (case decided of
                         None \<Rightarrow> db1
                       | Some new_role \<Rightarrow> grant_role row pid tenant new_role actor now db1)
            in Inr (audit pid actor (''access.request_'' @ request_status_name decision) now
                      [(''targetName'', Some (r_requester_name row)),
                       (''role'', map_option role_name role)] db2, f row))"

definition cancel_access_request ::
  "repo_db \<Rightarrow> ident \<Rightarrow> ident \<Rightarrow> string \<Rightarrow> string \<Rightarrow> time \<Rightarrow> unit repo_outcome" where
  "cancel_access_request db pid rid tenant requester now =
     (case first_where (\<lambda>r. r_id r = rid \<and> r_project_id r = pid \<and> r_tenant_id r = tenant \<and>
                            r_requester_id r = requester) (access_requests db) of
        None \<Rightarrow> Inl (ProjectNotFound rid)
      | Some row \<Rightarrow>
          if r_status row \<noteq> RPending
          then Inl (ProjectConflict ''Only pending requests can be cancelled'')
          else Inr (audit pid requester ''access.request_cancelled'' now
                      [(''targetName'', Some (r_requester_name row))]
                      (set_request (r_id row)
                         (\<lambda>r. r\<lparr>r_status := RCancelled, r_decided_at := Some now\<rparr>) db), ()))"

text \<open>\<open>action LIKE 'access.%'\<close>, newest first, at most 100.\<close>

definition access_activity ::
  "repo_db \<Rightarrow> ident \<Rightarrow> string \<Rightarrow> repo_error + audit_event_row list" where
  "access_activity db pid tenant =
     (if exists_where (\<lambda>p. p_id p = pid \<and> p_tenant_id p = tenant) (projects db)
      then Inr (take 100
             (sort_desc a_occurred_at
               (filter (\<lambda>a. a_project_id a = pid \<and> take 7 (a_action a) = ''access.'')
                 (audit_events db))))
      else Inl (ProjectNotFound pid))"

end
