(* ===== verification/Project_Drafts.thy ===== *)
theory Project_Drafts
  imports Project_Rows
begin

text \<open>
  Project lifecycle, uploads into the editable draft, and the build queue of
  \<open>ProjectRepository\<close> (\<open>app/projects/repository.py\<close>). Operations that accept an
  idempotency key are split as the code is: the lookup of a prior result, in a transaction of
  its own, and the transaction that does the work (suffix \<open>_txn\<close>), which fails with
  \<open>IntegrityError\<close> when another request recorded the same key in between.
\<close>

section \<open>Projects\<close>

definition key_taken :: "repo_db \<Rightarrow> string \<Rightarrow> operation \<Rightarrow> string \<Rightarrow> bool" where
  "key_taken db actor op key \<longleftrightarrow> idempotent_resource db actor op key \<noteq> None"

definition ensure_tenant :: "time \<Rightarrow> string \<Rightarrow> repo_db \<Rightarrow> repo_db" where
  "ensure_tenant now tid db =
     (if exists_where (\<lambda>t. t_id t = tid) (tenants db) then db
      else db\<lparr>tenants := tenants db @
                [\<lparr>t_id = tid, t_name = tid, t_status = ''active'', t_created_at = now\<rparr>]\<rparr>)"

definition ensure_tenants :: "repo_db \<Rightarrow> string list \<Rightarrow> time \<Rightarrow> repo_db" where
  "ensure_tenants db tids now = fold (ensure_tenant now) tids db"

text \<open>The rows that \<open>create_project\<close> inserts, in one transaction.\<close>

definition create_project_commit ::
  "repo_db \<Rightarrow> string \<Rightarrow> string option \<Rightarrow> string \<Rightarrow> string \<Rightarrow> string \<Rightarrow> string \<Rightarrow> time \<Rightarrow> repo_db"
where
  "create_project_commit db name description subject username tenant key now =
     (let pid = next_id db;
          project = \<lparr>p_id = pid, p_tenant_id = tenant, p_name = name,
            p_description = description, p_state = Draft, p_creator_subject = subject,
            p_creator_name = username, p_created_at = now, p_updated_at = now,
            p_archived_at = None, p_active_snapshot_id = None, p_active_graph_version = None,
            p_active_document_count = 0, p_generation = 0\<rparr>;
          snapshot = \<lparr>s_id = pid + 1, s_project_id = pid, s_status = Editable,
            s_created_at = now, s_sealed_at = None\<rparr>;
          membership = \<lparr>m_id = pid + 2, m_tenant_id = tenant, m_project_id = pid,
            m_principal_type = User, m_principal_id = subject, m_display_name = username,
            m_role = Owner, m_created_by = subject, m_created_at = now, m_updated_at = now\<rparr>
      in audit pid subject ''project.created'' now []
           (remember subject OpCreateProject key pid now
             (db\<lparr>projects := projects db @ [project],
                 memberships := memberships db @ [membership],
                 snapshots := snapshots db @ [snapshot],
                 next_id := pid + 3\<rparr>)))"

definition create_project_txn ::
  "repo_db \<Rightarrow> string \<Rightarrow> string option \<Rightarrow> string \<Rightarrow> string \<Rightarrow> string \<Rightarrow> string \<Rightarrow> time \<Rightarrow>
     project_row repo_outcome" where
  "create_project_txn db name description subject username tenant key now =
     (if key_taken db subject OpCreateProject key
      then Inl (IntegrityError ''idempotency_records'')
      else
        let db' = create_project_commit db name description subject username tenant key now
        in case get_project db' (next_id db) True of Inl e \<Rightarrow> Inl e | Inr p \<Rightarrow> Inr (db', p))"

definition create_project ::
  "repo_db \<Rightarrow> string \<Rightarrow> string option \<Rightarrow> string \<Rightarrow> string \<Rightarrow> string \<Rightarrow> string \<Rightarrow> time \<Rightarrow>
     project_row repo_outcome" where
  "create_project db name description subject username tenant key now =
     (case idempotent_resource db subject OpCreateProject key of
        Some prior \<Rightarrow>
          (case get_project db prior True of Inl e \<Rightarrow> Inl e | Inr p \<Rightarrow> Inr (db, p))
      | None \<Rightarrow> create_project_txn db name description subject username tenant key now)"

text \<open>The guard \<open>project.state in {"queued", "building", "archived"}\<close>.\<close>

definition not_editable :: "project_row \<Rightarrow> bool" where
  "not_editable p \<longleftrightarrow> p_state p \<in> {Queued, Building, Archived}"

definition archive_commit :: "repo_db \<Rightarrow> ident \<Rightarrow> string \<Rightarrow> time \<Rightarrow> repo_db" where
  "archive_commit db pid subject now =
     audit pid subject ''project.archived'' now []
       (set_project pid
         (\<lambda>p. p\<lparr>p_state := Archived, p_archived_at := Some now, p_updated_at := now\<rparr>) db)"

definition archive :: "repo_db \<Rightarrow> ident \<Rightarrow> string \<Rightarrow> time \<Rightarrow> project_row repo_outcome" where
  "archive db pid subject now =
     (case project_for_update db pid of
        None \<Rightarrow> Inl (ProjectNotFound pid)
      | Some p \<Rightarrow>
          if p_state p \<in> {Queued, Building}
          then Inl (ProjectConflict ''A building project cannot be archived'')
          else
            let db' = archive_commit db pid subject now
            in case get_project db' pid True of Inl e \<Rightarrow> Inl e | Inr p' \<Rightarrow> Inr (db', p'))"

definition restored_state :: "project_row \<Rightarrow> project_state" where
  "restored_state p = (if p_active_graph_version p \<notin> {None, Some []} then Ready else Draft)"

definition restore_commit :: "repo_db \<Rightarrow> ident \<Rightarrow> string \<Rightarrow> time \<Rightarrow> repo_db" where
  "restore_commit db pid subject now =
     audit pid subject ''project.restored'' now []
       (set_project pid
         (\<lambda>p. p\<lparr>p_state := restored_state p, p_archived_at := None, p_updated_at := now\<rparr>) db)"

definition restore ::
  "repo_db \<Rightarrow> ident \<Rightarrow> string \<Rightarrow> int \<Rightarrow> time \<Rightarrow> project_row repo_outcome" where
  "restore db pid subject retention_days now =
     (case project_for_update db pid of
        None \<Rightarrow> Inl (ProjectNotFound pid)
      | Some p \<Rightarrow>
          (case p_archived_at p of
             None \<Rightarrow> Inl (ProjectConflict ''The project is not archived'')
           | Some archived_at \<Rightarrow>
               if p_state p \<noteq> Archived
               then Inl (ProjectConflict ''The project is not archived'')
               else if archived_at < now - timedelta_days retention_days
               then Inl (ProjectConflict ''The project restore period expired'')
               else
                 let db' = restore_commit db pid subject now
                 in case get_project db' pid True of Inl e \<Rightarrow> Inl e | Inr p' \<Rightarrow> Inr (db', p')))"

text \<open>
  \<open>DELETE FROM projects\<close> with the declared \<open>ondelete="CASCADE"\<close> of every foreign key:
  memberships, access requests, snapshots with their files, upload sessions with their parts,
  and build jobs go with the project. Blobs have no foreign key and are deleted explicitly;
  idempotency records and audit events stay.
\<close>

definition project_snapshot_ids :: "repo_db \<Rightarrow> ident \<Rightarrow> ident list" where
  "project_snapshot_ids db pid =
     map s_id (filter (\<lambda>s. s_project_id s = pid) (snapshots db))"

definition project_session_ids :: "repo_db \<Rightarrow> ident \<Rightarrow> ident list" where
  "project_session_ids db pid =
     map u_id (filter (\<lambda>u. u_project_id u = pid \<or>
                           u_snapshot_id u \<in> set (project_snapshot_ids db pid))
       (upload_sessions db))"

definition delete_project_row :: "ident \<Rightarrow> repo_db \<Rightarrow> repo_db" where
  "delete_project_row pid db =
     (let snaps = set (project_snapshot_ids db pid);
          sessions = set (project_session_ids db pid)
      in db\<lparr>projects := del_where (\<lambda>p. p_id p = pid) (projects db),
            memberships := del_where (\<lambda>m. m_project_id m = pid) (memberships db),
            access_requests := del_where (\<lambda>r. r_project_id r = pid) (access_requests db),
            snapshots := del_where (\<lambda>s. s_project_id s = pid) (snapshots db),
            snapshot_files := del_where (\<lambda>f. f_snapshot_id f \<in> snaps) (snapshot_files db),
            upload_sessions := del_where (\<lambda>u. u_id u \<in> sessions) (upload_sessions db),
            upload_parts := del_where (\<lambda>u. up_session_id u \<in> sessions) (upload_parts db),
            build_jobs := del_where (\<lambda>j. j_project_id j = pid \<or> j_snapshot_id j \<in> snaps)
                            (build_jobs db)\<rparr>)"

definition purge_commit :: "repo_db \<Rightarrow> ident \<Rightarrow> string \<Rightarrow> time \<Rightarrow> repo_db" where
  "purge_commit db pid subject now =
     (let db1 = audit pid subject ''project.purged'' now [] db
      in delete_project_row pid
           (db1\<lparr>blobs := del_where (\<lambda>b. b_project_id b = pid) (blobs db1)\<rparr>))"

definition purge_expired ::
  "repo_db \<Rightarrow> ident \<Rightarrow> string \<Rightarrow> int \<Rightarrow> time \<Rightarrow> unit repo_outcome" where
  "purge_expired db pid subject retention_days now =
     (case project_for_update db pid of
        None \<Rightarrow> Inl (ProjectNotFound pid)
      | Some p \<Rightarrow>
          if p_state p \<noteq> Archived \<or>
             (case p_archived_at p of
                None \<Rightarrow> True
              | Some archived_at \<Rightarrow> archived_at > now - timedelta_days retention_days)
          then Inl (ProjectConflict ''The archived project is still retained'')
          else Inr (purge_commit db pid subject now, ()))"

definition expired_archives :: "repo_db \<Rightarrow> int \<Rightarrow> time \<Rightarrow> ident list" where
  "expired_archives db retention_days now =
     map p_id (filter (\<lambda>p. p_state p = Archived \<and>
         (case p_archived_at p of
            None \<Rightarrow> False
          | Some archived_at \<Rightarrow> archived_at \<le> now - timedelta_days retention_days))
       (projects db))"

section \<open>Uploads into the draft\<close>

definition get_upload_session :: "repo_db \<Rightarrow> ident \<Rightarrow> ident \<Rightarrow> repo_error + upload_session_row"
where
  "get_upload_session db pid sid =
     (case first_where (\<lambda>u. u_id u = sid \<and> u_project_id u = pid) (upload_sessions db) of
        None \<Rightarrow> Inl (UploadNotFound sid)
      | Some u \<Rightarrow> Inr u)"

definition session_parts :: "repo_db \<Rightarrow> ident \<Rightarrow> upload_part_row list" where
  "session_parts db sid = filter (\<lambda>u. up_session_id u = sid) (upload_parts db)"

definition insert_part :: "ident \<Rightarrow> upload_file_declaration \<Rightarrow> repo_db \<Rightarrow> repo_db" where
  "insert_part sid d db =
     db\<lparr>upload_parts := upload_parts db @
          [\<lparr>up_id = next_id db, up_session_id = sid, up_logical_filename = d_filename d,
            up_media_type = d_media_type d, up_expected_size = d_size d,
            up_expected_sha256 = d_sha256 d, up_temp_path = None, up_received_size = None,
            up_state = PPending\<rparr>],
        next_id := Suc (next_id db)\<rparr>"

definition create_upload_session_commit ::
  "repo_db \<Rightarrow> int \<Rightarrow> ident \<Rightarrow> snapshot_row \<Rightarrow> upload_file_declaration list \<Rightarrow> string \<Rightarrow> string \<Rightarrow>
     time \<Rightarrow> repo_db" where
  "create_upload_session_commit db ttl_hours pid d declarations subject key now =
     (let sid = next_id db;
          row = \<lparr>u_id = sid, u_project_id = pid, u_snapshot_id = s_id d,
            u_created_by = subject, u_state = UOpen, u_created_at = now,
            u_expires_at = now + timedelta_hours ttl_hours\<rparr>
      in audit pid subject ''upload.created'' now []
           (remember subject (OpCreateUploadSession pid) key sid now
             (fold (insert_part sid) declarations
               (db\<lparr>upload_sessions := upload_sessions db @ [row], next_id := Suc sid\<rparr>))))"

definition create_upload_session_txn ::
  "repo_db \<Rightarrow> int \<Rightarrow> ident \<Rightarrow> upload_file_declaration list \<Rightarrow> string \<Rightarrow> string \<Rightarrow> time \<Rightarrow>
     upload_session_row repo_outcome" where
  "create_upload_session_txn db ttl_hours pid declarations subject key now =
     (case project_for_update db pid of
        None \<Rightarrow> Inl (ProjectNotFound pid)
      | Some p \<Rightarrow>
          if not_editable p
          then Inl (ProjectConflict ''The project draft is not editable'')
          else
            (case draft db pid of
               None \<Rightarrow> Inl (ProjectConflict ''The project has no editable draft'')
             | Some d \<Rightarrow>
                 if key_taken db subject (OpCreateUploadSession pid) key
                 then Inl (IntegrityError ''idempotency_records'')
                 else
                   let db' = create_upload_session_commit db ttl_hours pid d declarations
                               subject key now
                   in case get_upload_session db' pid (next_id db) of
                        Inl e \<Rightarrow> Inl e | Inr u \<Rightarrow> Inr (db', u)))"

definition create_upload_session ::
  "repo_db \<Rightarrow> int \<Rightarrow> ident \<Rightarrow> upload_file_declaration list \<Rightarrow> string \<Rightarrow> string \<Rightarrow> time \<Rightarrow>
     upload_session_row repo_outcome" where
  "create_upload_session db ttl_hours pid declarations subject key now =
     (case idempotent_resource db subject (OpCreateUploadSession pid) key of
        Some prior \<Rightarrow>
          (case get_upload_session db pid prior of Inl e \<Rightarrow> Inl e | Inr u \<Rightarrow> Inr (db, u))
      | None \<Rightarrow> create_upload_session_txn db ttl_hours pid declarations subject key now)"

definition get_part :: "repo_db \<Rightarrow> ident \<Rightarrow> ident \<Rightarrow> ident \<Rightarrow> repo_error + part_record" where
  "get_part db pid sid part_id =
     (case get_upload_session db pid sid of
        Inl e \<Rightarrow> Inl e
      | Inr u \<Rightarrow>
          (case first_where (\<lambda>p. up_id p = part_id) (session_parts db sid) of
             None \<Rightarrow> Inl (UploadNotFound part_id)
           | Some part \<Rightarrow> Inr
               \<lparr>pr_id = up_id part, pr_session_id = u_id u, pr_project_id = u_project_id u,
                pr_snapshot_id = u_snapshot_id u, pr_filename = up_logical_filename part,
                pr_media_type = up_media_type part, pr_expected_size = up_expected_size part,
                pr_expected_sha256 = up_expected_sha256 part, pr_state = up_state part,
                pr_temp_path = up_temp_path part, pr_expires_at = u_expires_at u\<rparr>))"

definition mark_part_uploaded ::
  "repo_db \<Rightarrow> ident \<Rightarrow> string \<Rightarrow> int \<Rightarrow> unit repo_outcome" where
  "mark_part_uploaded db part_id path sz =
     (let P = (\<lambda>u. up_id u = part_id \<and> up_state u = PPending) in
      if count_where P (upload_parts db) = 0
      then Inl (ProjectConflict ''The upload part is no longer writable'')
      else Inr (db\<lparr>upload_parts := upd_where P
             (\<lambda>u. u\<lparr>up_state := PUploaded, up_temp_path := Some path,
                    up_received_size := Some sz\<rparr>) (upload_parts db)\<rparr>, ()))"

definition list_files :: "repo_db \<Rightarrow> ident \<Rightarrow> repo_error + snapshot_file_row list" where
  "list_files db pid =
     (case latest_where (\<lambda>s. s_project_id s = pid) s_created_at (snapshots db) of
        None \<Rightarrow> Inl (ProjectConflict ''The project has no visible file snapshot'')
      | Some s \<Rightarrow> Inr (sort_key f_logical_filename
                        (filter (\<lambda>f. f_snapshot_id f = s_id s) (snapshot_files db))))"

definition insert_blob ::
  "ident \<Rightarrow> string \<Rightarrow> int \<Rightarrow> string \<Rightarrow> time \<Rightarrow> repo_db \<Rightarrow> repo_db" where
  "insert_blob pid sha sz path now db =
     (if exists_where (\<lambda>b. b_project_id b = pid \<and> b_sha256 b = sha) (blobs db) then db
      else db\<lparr>blobs := blobs db @
                [\<lparr>b_project_id = pid, b_sha256 = sha, b_size = sz, b_storage_path = path,
                  b_created_at = now\<rparr>]\<rparr>)"

text \<open>One round of the loop of \<open>finalize_upload\<close>; \<open>paths\<close> is \<open>dict(blobs)\<close>.\<close>

definition finalize_part ::
  "ident \<Rightarrow> ident \<Rightarrow> (ident \<rightharpoonup> string) \<Rightarrow> time \<Rightarrow> upload_part_row \<Rightarrow> repo_db \<Rightarrow>
     repo_error + repo_db" where
  "finalize_part pid snap paths now part db =
     (case paths (up_id part) of
        None \<Rightarrow> Inl (ProjectConflict ''Upload validation is incomplete'')
      | Some path \<Rightarrow>
          let db1 = insert_blob pid (up_expected_sha256 part) (up_expected_size part) path now db
          in Inr (db1\<lparr>snapshot_files :=
                 del_where (\<lambda>f. f_snapshot_id f = snap \<and>
                                f_logical_filename f = up_logical_filename part)
                   (snapshot_files db1) @
                 [\<lparr>f_id = next_id db1, f_snapshot_id = snap, f_project_id = pid,
                   f_logical_filename = up_logical_filename part,
                   f_media_type = up_media_type part, f_size = up_expected_size part,
                   f_sha256 = up_expected_sha256 part, f_lifecycle_status = LUploaded,
                   f_progress_percent = Some 0, f_error_code = None,
                   f_uploaded_at = Some now\<rparr>],
               next_id := Suc (next_id db1)\<rparr>))"

definition finalize_commit ::
  "repo_db \<Rightarrow> ident \<Rightarrow> ident \<Rightarrow> string \<Rightarrow> string \<Rightarrow> time \<Rightarrow> repo_db" where
  "finalize_commit db pid sid subject key now =
     audit pid subject ''upload.finalized'' now []
       (remember subject (OpFinalizeUpload sid) key sid now
         (set_project pid (\<lambda>p. p\<lparr>p_updated_at := now\<rparr>)
           (db\<lparr>upload_sessions :=
                upd_where (\<lambda>u. u_id u = sid) (\<lambda>u. u\<lparr>u_state := UFinalized\<rparr>)
                  (upload_sessions db)\<rparr>)))"

definition finalize_upload_txn ::
  "repo_db \<Rightarrow> ident \<Rightarrow> ident \<Rightarrow> (ident \<times> string) list \<Rightarrow> string \<Rightarrow> string \<Rightarrow> time \<Rightarrow>
     repo_error + repo_db" where
  "finalize_upload_txn db pid sid stored subject key now =
     (case first_where (\<lambda>u. u_id u = sid \<and> u_project_id u = pid) (upload_sessions db) of
        None \<Rightarrow> Inl (UploadNotFound sid)
      | Some u \<Rightarrow>
          if u_state u \<noteq> UOpen \<or> u_expires_at u \<le> now
          then Inl (ProjectConflict ''The upload session is not open'')
          else
            (case project_for_update db pid of
               None \<Rightarrow> Inl (ProjectNotFound pid)
             | Some p \<Rightarrow>
                 if not_editable p
                 then Inl (ProjectConflict ''The project draft is not editable'')
                 else if exists_where (\<lambda>part. up_state part \<noteq> PUploaded) (session_parts db sid)
                 then Inl (ProjectConflict ''All upload parts must be uploaded'')
                 else
                   (case fold_raise (finalize_part pid (u_snapshot_id u) (map_of (rev stored)) now)
                           (session_parts db sid) db of
                      Inl e \<Rightarrow> Inl e
                    | Inr db1 \<Rightarrow>
                        if key_taken db1 subject (OpFinalizeUpload sid) key
                        then Inl (IntegrityError ''idempotency_records'')
                        else Inr (finalize_commit db1 pid sid subject key now))))"

definition finalize_upload ::
  "repo_db \<Rightarrow> ident \<Rightarrow> ident \<Rightarrow> (ident \<times> string) list \<Rightarrow> string \<Rightarrow> string \<Rightarrow> time \<Rightarrow>
     repo_db \<times> (repo_error + snapshot_file_row list)" where
  "finalize_upload db pid sid stored subject key now =
     (case idempotent_resource db subject (OpFinalizeUpload sid) key of
        Some prior \<Rightarrow> (db, list_files db pid)
      | None \<Rightarrow>
          (case finalize_upload_txn db pid sid stored subject key now of
             Inl e \<Rightarrow> (db, Inl e)
           | Inr db' \<Rightarrow> (db', list_files db' pid)))"

definition delete_file ::
  "repo_db \<Rightarrow> ident \<Rightarrow> ident \<Rightarrow> string \<Rightarrow> time \<Rightarrow> unit repo_outcome" where
  "delete_file db pid file_id subject now =
     (case project_for_update db pid of
        None \<Rightarrow> Inl (ProjectNotFound pid)
      | Some p \<Rightarrow>
          if not_editable p
          then Inl (ProjectConflict ''The project draft is not editable'')
          else
            (case draft db pid of
               None \<Rightarrow> Inl (ProjectConflict ''The project has no editable draft'')
             | Some d \<Rightarrow>
                 let P = (\<lambda>f. f_id f = file_id \<and> f_snapshot_id f = s_id d) in
                 if count_where P (snapshot_files db) = 0
                 then Inl (UploadNotFound file_id)
                 else Inr (audit pid subject ''draft.file_deleted'' now []
                        (set_project pid (\<lambda>p. p\<lparr>p_updated_at := now\<rparr>)
                          (db\<lparr>snapshot_files := del_where P (snapshot_files db)\<rparr>)), ())))"

definition cleanup_expired_uploads :: "repo_db \<Rightarrow> time \<Rightarrow> repo_db \<times> string list" where
  "cleanup_expired_uploads db now =
     (let P = (\<lambda>u. u_state u = UOpen \<and> u_expires_at u < now);
          ids = set (map u_id (filter P (upload_sessions db)))
      in (db\<lparr>upload_sessions :=
               upd_where P (\<lambda>u. u\<lparr>u_state := UExpired\<rparr>) (upload_sessions db)\<rparr>,
          List.map_filter up_temp_path
            (filter (\<lambda>u. up_session_id u \<in> ids \<and> up_temp_path u \<noteq> Some [])
              (upload_parts db))))"

end
