(* ===== verification/Project_Builds.thy ===== *)
theory Project_Builds
  imports Project_Drafts
begin

text \<open>
  The build queue of \<open>ProjectRepository\<close> (\<open>app/projects/repository.py\<close>): a draft is sealed
  and queued, one job at a time is claimed by the worker, and a finished job either activates
  its snapshot and opens the next draft or reopens the snapshot.
\<close>

section \<open>Shared updates\<close>

text \<open>\<open>UPDATE snapshot_files SET ... WHERE snapshot_id = snap\<close>.\<close>

definition set_snapshot_files ::
  "ident \<Rightarrow> (snapshot_file_row \<Rightarrow> snapshot_file_row) \<Rightarrow> repo_db \<Rightarrow> repo_db" where
  "set_snapshot_files snap f db =
     db\<lparr>snapshot_files := upd_where (\<lambda>x. f_snapshot_id x = snap) f (snapshot_files db)\<rparr>"

definition lifecycle_values ::
  "file_lifecycle \<Rightarrow> int \<Rightarrow> snapshot_file_row \<Rightarrow> snapshot_file_row" where
  "lifecycle_values status percent f =
     f\<lparr>f_lifecycle_status := status, f_progress_percent := Some percent, f_error_code := None\<rparr>"

definition set_snapshot :: "ident \<Rightarrow> (snapshot_row \<Rightarrow> snapshot_row) \<Rightarrow> repo_db \<Rightarrow> repo_db" where
  "set_snapshot sid f db =
     db\<lparr>snapshots := upd_where (\<lambda>s. s_id s = sid) f (snapshots db)\<rparr>"

definition set_job :: "ident \<Rightarrow> (build_job_row \<Rightarrow> build_job_row) \<Rightarrow> repo_db \<Rightarrow> repo_db" where
  "set_job jid f db = db\<lparr>build_jobs := upd_where (\<lambda>j. j_id j = jid) f (build_jobs db)\<rparr>"

definition get_snapshot :: "repo_db \<Rightarrow> ident \<Rightarrow> snapshot_row option" where
  "get_snapshot db sid = first_where (\<lambda>s. s_id s = sid) (snapshots db)"

definition get_job :: "repo_db \<Rightarrow> ident \<Rightarrow> build_job_row option" where
  "get_job db jid = first_where (\<lambda>j. j_id j = jid) (build_jobs db)"

section \<open>Submitting and reading builds\<close>

definition get_build :: "repo_db \<Rightarrow> ident \<Rightarrow> ident \<Rightarrow> repo_error + build_job_row" where
  "get_build db pid bid =
     (case first_where (\<lambda>j. j_id j = bid \<and> j_project_id j = pid) (build_jobs db) of
        None \<Rightarrow> Inl (ProjectNotFound bid)
      | Some j \<Rightarrow> Inr j)"

definition open_upload_count :: "repo_db \<Rightarrow> ident \<Rightarrow> ident \<Rightarrow> nat" where
  "open_upload_count db pid snap =
     count_where (\<lambda>u. u_project_id u = pid \<and> u_snapshot_id u = snap \<and> u_state u = UOpen)
       (upload_sessions db)"

definition submit_build_commit ::
  "repo_db \<Rightarrow> project_row \<Rightarrow> snapshot_row \<Rightarrow> string \<Rightarrow> string \<Rightarrow> time \<Rightarrow> repo_db" where
  "submit_build_commit db p d subject key now =
     (let bid = next_id db;
          row = \<lparr>j_id = bid, j_project_id = p_id p, j_snapshot_id = s_id d,
            j_status = BQueued, j_requested_by = subject,
            j_expected_generation = p_generation p, j_graph_version = None,
            j_error_code = None, j_created_at = now, j_started_at = None,
            j_completed_at = None, j_worker_id = None\<rparr>;
          db1 = db\<lparr>build_jobs := build_jobs db @ [row], next_id := Suc bid\<rparr>;
          db2 = set_snapshot_files (s_id d) (lifecycle_values LQueued 5) db1;
          db3 = set_snapshot (s_id d)
                  (\<lambda>s. s\<lparr>s_status := Sealed, s_sealed_at := Some now\<rparr>) db2;
          db4 = set_project (p_id p)
                  (\<lambda>p. p\<lparr>p_state := Queued, p_updated_at := now\<rparr>) db3
      in audit (p_id p) subject ''build.queued'' now []
           (remember subject (OpSubmitBuild (p_id p)) key bid now db4))"

definition submit_build_txn ::
  "repo_db \<Rightarrow> ident \<Rightarrow> string \<Rightarrow> string \<Rightarrow> time \<Rightarrow> build_job_row repo_outcome" where
  "submit_build_txn db pid subject key now =
     (case project_for_update db pid of
        None \<Rightarrow> Inl (ProjectNotFound pid)
      | Some p \<Rightarrow>
          if not_editable p then Inl (ProjectConflict ''A build cannot be started'')
          else
            (case draft db pid of
               None \<Rightarrow> Inl (ProjectConflict ''The project has no editable draft'')
             | Some d \<Rightarrow>
                 if open_upload_count db pid (s_id d) \<noteq> 0
                 then Inl (ProjectConflict ''Open upload sessions must be finalized first'')
                 else if count_where (\<lambda>f. f_snapshot_id f = s_id d) (snapshot_files db) = 0
                 then Inl (ProjectConflict ''At least one draft file is required'')
                 else if key_taken db subject (OpSubmitBuild pid) key
                 then Inl (IntegrityError ''idempotency_records'')
                 else
                   let db' = submit_build_commit db p d subject key now
                   in case get_build db' pid (next_id db) of
                        Inl e \<Rightarrow> Inl e | Inr j \<Rightarrow> Inr (db', j)))"

definition submit_build ::
  "repo_db \<Rightarrow> ident \<Rightarrow> string \<Rightarrow> string \<Rightarrow> time \<Rightarrow> build_job_row repo_outcome" where
  "submit_build db pid subject key now =
     (case idempotent_resource db subject (OpSubmitBuild pid) key of
        Some prior \<Rightarrow>
          (case get_build db pid prior of Inl e \<Rightarrow> Inl e | Inr j \<Rightarrow> Inr (db, j))
      | None \<Rightarrow> submit_build_txn db pid subject key now)"

section \<open>The worker's side of the queue\<close>

definition claim_commit ::
  "repo_db \<Rightarrow> build_job_row \<Rightarrow> string \<Rightarrow> time \<Rightarrow> repo_db" where
  "claim_commit db row worker now =
     (let db1 = db\<lparr>build_jobs :=
            upd_where (\<lambda>j. j_id j = j_id row \<and> j_status j = BQueued)
              (\<lambda>j. j\<lparr>j_status := BBuilding, j_started_at := Some now,
                     j_worker_id := Some worker\<rparr>) (build_jobs db)\<rparr>;
          db2 = set_project (j_project_id row)
                  (\<lambda>p. p\<lparr>p_state := Building, p_updated_at := now\<rparr>) db1
      in set_snapshot_files (j_snapshot_id row) (lifecycle_values LValidating 15) db2)"

definition build_record_of :: "build_job_row \<Rightarrow> build_record" where
  "build_record_of row =
     \<lparr>br_id = j_id row, br_project_id = j_project_id row, br_snapshot_id = j_snapshot_id row,
      br_expected_generation = j_expected_generation row,
      br_requested_by = j_requested_by row\<rparr>"

definition claim_build :: "repo_db \<Rightarrow> string \<Rightarrow> time \<Rightarrow> repo_db \<times> build_record option" where
  "claim_build db worker now =
     (if count_where (\<lambda>j. j_status j = BBuilding) (build_jobs db) \<noteq> 0 then (db, None)
      else
        (case earliest_where (\<lambda>j. j_status j = BQueued) j_created_at (build_jobs db) of
           None \<Rightarrow> (db, None)
         | Some row \<Rightarrow>
             if count_where (\<lambda>j. j_id j = j_id row \<and> j_status j = BQueued) (build_jobs db) = 0
             then (db, None)
             else (claim_commit db row worker now, Some (build_record_of row))))"

definition update_file_lifecycle ::
  "repo_db \<Rightarrow> ident \<Rightarrow> file_lifecycle \<Rightarrow> int \<Rightarrow> repo_db" where
  "update_file_lifecycle db snap status percent =
     set_snapshot_files snap (lifecycle_values status percent) db"

text \<open>The join of a snapshot's files with the blobs that hold their content.\<close>

definition snapshot_files_of :: "repo_db \<Rightarrow> ident \<Rightarrow> (snapshot_file_row \<times> string) list" where
  "snapshot_files_of db snap =
     sort_key (\<lambda>(f, path). f_logical_filename f)
       [(f, b_storage_path b).
          f \<leftarrow> filter (\<lambda>f. f_snapshot_id f = snap) (snapshot_files db),
          b \<leftarrow> filter (\<lambda>b. b_project_id b = f_project_id f \<and> b_sha256 b = f_sha256 f)
                 (blobs db)]"

definition copy_file :: "ident \<Rightarrow> ident \<Rightarrow> snapshot_file_row \<Rightarrow> repo_db \<Rightarrow> repo_db" where
  "copy_file new_draft pid f db =
     db\<lparr>snapshot_files := snapshot_files db @
          [f\<lparr>f_id := next_id db, f_snapshot_id := new_draft, f_project_id := pid,
             f_lifecycle_status := LReady, f_progress_percent := Some 100,
             f_error_code := None\<rparr>],
        next_id := Suc (next_id db)\<rparr>"

definition complete_build_commit ::
  "repo_db \<Rightarrow> project_row \<Rightarrow> build_job_row \<Rightarrow> snapshot_row \<Rightarrow> string \<Rightarrow> string \<Rightarrow> int \<Rightarrow>
     time \<Rightarrow> repo_db" where
  "complete_build_commit db p job snap requested_by graph_version document_count now =
     (let db1 = db\<lparr>snapshots :=
            upd_where (\<lambda>s. s_project_id s = p_id p \<and> s_status s = Active)
              (\<lambda>s. s\<lparr>s_status := Validated\<rparr>) (snapshots db)\<rparr>;
          db2 = set_snapshot (s_id snap) (\<lambda>s. s\<lparr>s_status := Active\<rparr>) db1;
          db3 = set_project (p_id p)
            (\<lambda>p. p\<lparr>p_active_snapshot_id := Some (s_id snap),
                   p_active_graph_version := Some graph_version,
                   p_active_document_count := document_count,
                   p_generation := p_generation p + 1,
                   p_state := Ready, p_updated_at := now\<rparr>) db2;
          db4 = set_job (j_id job)
            (\<lambda>j. j\<lparr>j_status := BReady, j_graph_version := Some graph_version,
                   j_completed_at := Some now\<rparr>) db3;
          new_draft = next_id db4;
          db5 = db4\<lparr>snapshots := snapshots db4 @
                  [\<lparr>s_id = new_draft, s_project_id = p_id p, s_status = Editable,
                    s_created_at = now, s_sealed_at = None\<rparr>],
                next_id := Suc new_draft\<rparr>;
          source = filter (\<lambda>f. f_snapshot_id f = s_id snap) (snapshot_files db5);
          db6 = fold (copy_file new_draft (p_id p)) source db5;
          db7 = set_snapshot_files (s_id snap) (lifecycle_values LReady 100) db6
      in audit (p_id p) requested_by ''build.activated'' now
           [(''graphVersion'', Some graph_version)] db7)"

definition complete_build ::
  "repo_db \<Rightarrow> build_record \<Rightarrow> string \<Rightarrow> int \<Rightarrow> time \<Rightarrow> repo_error + repo_db" where
  "complete_build db build graph_version document_count now =
     (case project_for_update db (br_project_id build) of
        None \<Rightarrow> Inl (ProjectNotFound (br_project_id build))
      | Some p \<Rightarrow>
          if p_generation p \<noteq> br_expected_generation build
          then Inl (ProjectConflict ''The active project generation changed'')
          else
            (case (get_job db (br_id build), get_snapshot db (br_snapshot_id build)) of
               (Some job, Some snap) \<Rightarrow>
                 if j_status job \<noteq> BBuilding
                 then Inl (ProjectConflict ''The build is no longer active'')
                 else Inr (complete_build_commit db p job snap (br_requested_by build)
                             graph_version document_count now)
             | _ \<Rightarrow> Inl (ProjectConflict ''The build is no longer active'')))"

definition failed_state :: "project_row \<Rightarrow> project_state" where
  "failed_state p = (if p_active_graph_version p \<notin> {None, Some []} then Ready else Failed)"

definition fail_build ::
  "repo_db \<Rightarrow> build_record \<Rightarrow> string \<Rightarrow> time \<Rightarrow> repo_error + repo_db" where
  "fail_build db build error_code now =
     (case project_for_update db (br_project_id build) of
        None \<Rightarrow> Inl (ProjectNotFound (br_project_id build))
      | Some p \<Rightarrow>
          let db1 = (case get_job db (br_id build) of
                       None \<Rightarrow> db
                     | Some job \<Rightarrow> set_job (j_id job)
                         (\<lambda>j. j\<lparr>j_status := BFailed, j_error_code := Some error_code,
                                j_completed_at := Some now\<rparr>) db);
              db2 = (case get_snapshot db (br_snapshot_id build) of
                       None \<Rightarrow> db1
                     | Some snap \<Rightarrow>
                         set_snapshot_files (s_id snap)
                           (\<lambda>f. f\<lparr>f_lifecycle_status := LFailed,
                                  f_error_code := Some error_code\<rparr>)
                           (set_snapshot (s_id snap)
                             (\<lambda>s. s\<lparr>s_status := Editable, s_sealed_at := None\<rparr>) db1));
              db3 = set_project (p_id p)
                      (\<lambda>p. p\<lparr>p_state := failed_state p, p_updated_at := now\<rparr>) db2
          in Inr (audit (p_id p) (br_requested_by build) ''build.failed'' now
               [(''errorCode'', Some error_code)] db3))"

text \<open>
  \<open>recover_builds\<close>: on start-up the jobs that a previous worker left in \<open>building\<close> go back
  to the queue, and so do the files of every queued snapshot and the projects of those jobs.
\<close>

definition recover_builds :: "repo_db \<Rightarrow> repo_db" where
  "recover_builds db =
     (let project_ids = map j_project_id
            (filter (\<lambda>j. j_status j = BBuilding) (build_jobs db));
          db1 = db\<lparr>build_jobs := upd_where (\<lambda>j. j_status j = BBuilding)
                  (\<lambda>j. j\<lparr>j_status := BQueued, j_started_at := None, j_worker_id := None\<rparr>)
                  (build_jobs db)\<rparr>;
          queued = map j_snapshot_id (filter (\<lambda>j. j_status j = BQueued) (build_jobs db1));
          db2 = db1\<lparr>snapshot_files :=
                  upd_where (\<lambda>f. f_snapshot_id f \<in> set queued) (lifecycle_values LQueued 5)
                    (snapshot_files db1)\<rparr>
      in db2\<lparr>projects := upd_where (\<lambda>p. p_id p \<in> set project_ids)
               (\<lambda>p. p\<lparr>p_state := Queued\<rparr>) (projects db2)\<rparr>)"

section \<open>Frames\<close>

lemma set_snapshot_files_frame [simp]:
  "tenants (set_snapshot_files i f db) = tenants db"
  "projects (set_snapshot_files i f db) = projects db"
  "memberships (set_snapshot_files i f db) = memberships db"
  "access_requests (set_snapshot_files i f db) = access_requests db"
  "snapshots (set_snapshot_files i f db) = snapshots db"
  "blobs (set_snapshot_files i f db) = blobs db"
  "snapshot_files (set_snapshot_files i f db) =
     upd_where (\<lambda>x. f_snapshot_id x = i) f (snapshot_files db)"
  "upload_sessions (set_snapshot_files i f db) = upload_sessions db"
  "upload_parts (set_snapshot_files i f db) = upload_parts db"
  "build_jobs (set_snapshot_files i f db) = build_jobs db"
  "idempotency (set_snapshot_files i f db) = idempotency db"
  "audit_events (set_snapshot_files i f db) = audit_events db"
  "next_id (set_snapshot_files i f db) = next_id db"
  by (simp_all add: set_snapshot_files_def)

lemma set_snapshot_frame [simp]:
  "tenants (set_snapshot i g db) = tenants db"
  "projects (set_snapshot i g db) = projects db"
  "memberships (set_snapshot i g db) = memberships db"
  "access_requests (set_snapshot i g db) = access_requests db"
  "snapshots (set_snapshot i g db) = upd_where (\<lambda>s. s_id s = i) g (snapshots db)"
  "blobs (set_snapshot i g db) = blobs db"
  "snapshot_files (set_snapshot i g db) = snapshot_files db"
  "upload_sessions (set_snapshot i g db) = upload_sessions db"
  "upload_parts (set_snapshot i g db) = upload_parts db"
  "build_jobs (set_snapshot i g db) = build_jobs db"
  "idempotency (set_snapshot i g db) = idempotency db"
  "audit_events (set_snapshot i g db) = audit_events db"
  "next_id (set_snapshot i g db) = next_id db"
  by (simp_all add: set_snapshot_def)

lemma set_job_frame [simp]:
  "tenants (set_job i h db) = tenants db"
  "projects (set_job i h db) = projects db"
  "memberships (set_job i h db) = memberships db"
  "access_requests (set_job i h db) = access_requests db"
  "snapshots (set_job i h db) = snapshots db"
  "blobs (set_job i h db) = blobs db"
  "snapshot_files (set_job i h db) = snapshot_files db"
  "upload_sessions (set_job i h db) = upload_sessions db"
  "upload_parts (set_job i h db) = upload_parts db"
  "build_jobs (set_job i h db) = upd_where (\<lambda>j. j_id j = i) h (build_jobs db)"
  "idempotency (set_job i h db) = idempotency db"
  "audit_events (set_job i h db) = audit_events db"
  "next_id (set_job i h db) = next_id db"
  by (simp_all add: set_job_def)

end
