(* ===== verification/Project_Invariant.thy ===== *)
theory Project_Invariant
  imports Project_Access Project_Builds
begin

text \<open>
  The consistency of the project registry, as invariants of the database: the draft protocol
  (one editable snapshot, or one active job with the snapshot sealed), the active snapshot, the
  content store, the uploads, and the ownership of projects. Each operation of
  \<open>Project_Drafts\<close>, \<open>Project_Builds\<close> and \<open>Project_Access\<close> is shown to keep them.
\<close>

section \<open>The invariants\<close>

named_theorems inv_defs \<open>definitions of the invariants\<close>

definition snapshots_in :: "snapshot_row list \<Rightarrow> ident \<Rightarrow> snapshot_status \<Rightarrow> nat" where
  "snapshots_in ss pid st = count_where (\<lambda>s. s_project_id s = pid \<and> s_status s = st) ss"

definition jobs_in :: "build_job_row list \<Rightarrow> ident \<Rightarrow> build_status \<Rightarrow> nat" where
  "jobs_in js pid st = count_where (\<lambda>j. j_project_id j = pid \<and> j_status j = st) js"

definition job_active :: "build_job_row \<Rightarrow> bool" where
  "job_active j \<longleftrightarrow> j_status j = BQueued \<or> j_status j = BBuilding"

text \<open>Identifiers are drawn once.\<close>

definition wf_ids :: "repo_db \<Rightarrow> bool" where [inv_defs]:
  "wf_ids db \<longleftrightarrow>
     fresh_table p_id (projects db) (next_id db) \<and>
     fresh_table m_id (memberships db) (next_id db) \<and>
     fresh_table r_id (access_requests db) (next_id db) \<and>
     fresh_table s_id (snapshots db) (next_id db) \<and>
     fresh_table u_id (upload_sessions db) (next_id db) \<and>
     fresh_table j_id (build_jobs db) (next_id db)"

text \<open>Foreign keys, with the project that the two ends share.\<close>

definition snapshot_keys :: "snapshot_row list \<Rightarrow> (ident \<times> ident) set" where
  "snapshot_keys ss = (\<lambda>s. (s_id s, s_project_id s)) ` set ss"

lemma snapshot_keys_append [simp]:
  "snapshot_keys (ss @ [s]) = insert (s_id s, s_project_id s) (snapshot_keys ss)"
  by (simp add: snapshot_keys_def)

lemma snapshot_keys_upd [simp]:
  "(\<And>s. s_id (f s) = s_id s) \<Longrightarrow> (\<And>s. s_project_id (f s) = s_project_id s) \<Longrightarrow>
     snapshot_keys (upd_where P f ss) = snapshot_keys ss"
  by (simp add: snapshot_keys_def image_upd_where)

lemma snapshot_keysI: "s \<in> set ss \<Longrightarrow> (s_id s, s_project_id s) \<in> snapshot_keys ss"
  by (auto simp: snapshot_keys_def)

definition wf_refs :: "repo_db \<Rightarrow> bool" where [inv_defs]:
  "wf_refs db \<longleftrightarrow>
     s_project_id ` set (snapshots db) \<subseteq> p_id ` set (projects db) \<and>
     (\<lambda>m. (m_project_id m, m_tenant_id m)) ` set (memberships db)
       \<subseteq> (\<lambda>p. (p_id p, p_tenant_id p)) ` set (projects db) \<and>
     (\<lambda>r. (r_project_id r, r_tenant_id r)) ` set (access_requests db)
       \<subseteq> (\<lambda>p. (p_id p, p_tenant_id p)) ` set (projects db) \<and>
     (\<lambda>j. (j_snapshot_id j, j_project_id j)) ` set (build_jobs db) \<subseteq> snapshot_keys (snapshots db) \<and>
     (\<lambda>u. (u_snapshot_id u, u_project_id u)) ` set (upload_sessions db) \<subseteq> snapshot_keys (snapshots db) \<and>
     (\<lambda>f. (f_snapshot_id f, f_project_id f)) ` set (snapshot_files db) \<subseteq> snapshot_keys (snapshots db)"

text \<open>
  The draft protocol. The state of a project fixes how many editable snapshots, queued jobs and
  running jobs it has.
\<close>

fun phase_counts :: "project_state \<Rightarrow> nat \<times> nat \<times> nat" where
  "phase_counts Queued = (0, 1, 0)"
| "phase_counts Building = (0, 0, 1)"
| "phase_counts _ = (1, 0, 0)"

definition phase_of :: "repo_db \<Rightarrow> ident \<Rightarrow> nat \<times> nat \<times> nat" where
  "phase_of db pid =
     (snapshots_in (snapshots db) pid Editable, jobs_in (build_jobs db) pid BQueued,
      jobs_in (build_jobs db) pid BBuilding)"

definition phase_ok :: "repo_db \<Rightarrow> bool" where [inv_defs]:
  "phase_ok db \<longleftrightarrow> (\<forall>p\<in>set (projects db). phase_of db (p_id p) = phase_counts (p_state p))"

text \<open>
  An active job builds a sealed snapshot and expects the generation its project has; at most
  one job is running, over all projects.
\<close>

definition jobs_ok :: "repo_db \<Rightarrow> bool" where [inv_defs]:
  "jobs_ok db \<longleftrightarrow>
     (\<forall>j\<in>set (build_jobs db). \<forall>s\<in>set (snapshots db).
        job_active j \<longrightarrow> s_id s = j_snapshot_id j \<longrightarrow> s_status s = Sealed) \<and>
     (\<forall>j\<in>set (build_jobs db). \<forall>p\<in>set (projects db).
        job_active j \<longrightarrow> p_id p = j_project_id j \<longrightarrow> j_expected_generation j = p_generation p) \<and>
     count_where (\<lambda>j. j_status j = BBuilding) (build_jobs db) \<le> 1"

text \<open>
  The active snapshot: the one the project points to, and it has a graph version exactly when
  there is one.
\<close>

definition active_ok :: "repo_db \<Rightarrow> bool" where [inv_defs]:
  "active_ok db \<longleftrightarrow>
     (\<forall>p\<in>set (projects db). \<forall>s\<in>set (snapshots db).
        s_project_id s = p_id p \<longrightarrow>
        (s_status s = Active) = (p_active_snapshot_id p = Some (s_id s))) \<and>
     (\<forall>p\<in>set (projects db).
        (p_active_graph_version p = None) = (p_active_snapshot_id p = None)) \<and>
     (\<forall>p\<in>set (projects db). \<forall>sid.
        p_active_snapshot_id p = Some sid \<longrightarrow> (sid, p_id p) \<in> snapshot_keys (snapshots db))"

text \<open>An open upload session writes to a snapshot that is still editable.\<close>

definition uploads_ok :: "repo_db \<Rightarrow> bool" where [inv_defs]:
  "uploads_ok db \<longleftrightarrow>
     (\<forall>u\<in>set (upload_sessions db). \<forall>s\<in>set (snapshots db).
        u_state u = UOpen \<longrightarrow> s_id s = u_snapshot_id u \<longrightarrow> s_status s = Editable)"

text \<open>
  The content store: blobs are unique per project and digest, file names are unique per
  snapshot, and every file has its blob.
\<close>

definition blob_key :: "blob_row \<Rightarrow> ident \<times> string" where
  "blob_key b = (b_project_id b, b_sha256 b)"

definition file_key :: "snapshot_file_row \<Rightarrow> ident \<times> string" where
  "file_key f = (f_snapshot_id f, f_logical_filename f)"

definition content_key :: "snapshot_file_row \<Rightarrow> ident \<times> string" where
  "content_key f = (f_project_id f, f_sha256 f)"

definition files_ok :: "repo_db \<Rightarrow> bool" where [inv_defs]:
  "files_ok db \<longleftrightarrow>
     distinct (map blob_key (blobs db)) \<and>
     distinct (map file_key (snapshot_files db)) \<and>
     content_key ` set (snapshot_files db) \<subseteq> blob_key ` set (blobs db)"

text \<open>Archived projects, and only those, carry the time they were archived at.\<close>

definition archive_ok :: "repo_db \<Rightarrow> bool" where [inv_defs]:
  "archive_ok db \<longleftrightarrow>
     (\<forall>p\<in>set (projects db). (p_state p = Archived) = (p_archived_at p \<noteq> None))"

text \<open>
  Ownership: a principal is a member of a project once, only users own projects, and every
  project has an owner.
\<close>

definition member_key :: "membership_row \<Rightarrow> ident \<times> principal_type \<times> string" where
  "member_key m = (m_project_id m, m_principal_type m, m_principal_id m)"

definition owners_ok :: "repo_db \<Rightarrow> bool" where [inv_defs]:
  "owners_ok db \<longleftrightarrow>
     distinct (map member_key (memberships db)) \<and>
     (\<forall>m\<in>set (memberships db). m_role m = Owner \<longrightarrow> m_principal_type m = User) \<and>
     (\<forall>p\<in>set (projects db). 0 < owner_count db (p_id p))"

definition db_inv :: "repo_db \<Rightarrow> bool" where
  "db_inv db \<longleftrightarrow> wf_ids db \<and> wf_refs db \<and> phase_ok db \<and> jobs_ok db \<and> active_ok db \<and>
     uploads_ok db \<and> files_ok db \<and> archive_ok db \<and> owners_ok db"

lemma db_invI:
  "\<lbrakk>wf_ids db; wf_refs db; phase_ok db; jobs_ok db; active_ok db; uploads_ok db; files_ok db;
    archive_ok db; owners_ok db\<rbrakk> \<Longrightarrow> db_inv db"
  by (simp add: db_inv_def)

lemma db_invD:
  assumes "db_inv db"
  shows "wf_ids db" "wf_refs db" "phase_ok db" "jobs_ok db" "active_ok db" "uploads_ok db"
    "files_ok db" "archive_ok db" "owners_ok db"
  using assms by (simp_all add: db_inv_def)

lemma db_inv_empty: "db_inv empty_db"
  by (rule db_invI) (simp_all add: inv_defs empty_db_def)

section \<open>Consequences for the rows an operation reads\<close>

lemma snapshots_in_pos: "s \<in> set ss \<Longrightarrow> 0 < snapshots_in ss (s_project_id s) (s_status s)"
  by (auto simp: snapshots_in_def count_where_pos)

lemma jobs_in_pos: "j \<in> set js \<Longrightarrow> 0 < jobs_in js (j_project_id j) (j_status j)"
  by (auto simp: jobs_in_def count_where_pos)

lemma phase_okD:
  "phase_ok db \<Longrightarrow> p \<in> set (projects db) \<Longrightarrow> phase_of db (p_id p) = phase_counts (p_state p)"
  by (simp add: phase_ok_def)

lemma jobs_okD:
  assumes "jobs_ok db" "j \<in> set (build_jobs db)" "job_active j"
  shows "s \<in> set (snapshots db) \<Longrightarrow> s_id s = j_snapshot_id j \<Longrightarrow> s_status s = Sealed"
    "p \<in> set (projects db) \<Longrightarrow> p_id p = j_project_id j \<Longrightarrow> j_expected_generation j = p_generation p"
  using assms by (simp_all add: jobs_ok_def)

lemma active_okD:
  assumes "active_ok db" "p \<in> set (projects db)"
  shows "s \<in> set (snapshots db) \<Longrightarrow> s_project_id s = p_id p \<Longrightarrow>
           (s_status s = Active) = (p_active_snapshot_id p = Some (s_id s))"
    "(p_active_graph_version p = None) = (p_active_snapshot_id p = None)"
    "p_active_snapshot_id p = Some sid \<Longrightarrow> (sid, p_id p) \<in> snapshot_keys (snapshots db)"
  using assms by (simp_all add: active_ok_def)

lemma uploads_okD:
  "uploads_ok db \<Longrightarrow> u \<in> set (upload_sessions db) \<Longrightarrow> u_state u = UOpen \<Longrightarrow>
     s \<in> set (snapshots db) \<Longrightarrow> s_id s = u_snapshot_id u \<Longrightarrow> s_status s = Editable"
  by (simp add: uploads_ok_def)

text \<open>A job's project exists, and its state follows the job's.\<close>

lemma job_project:
  assumes "wf_refs db" and "j \<in> set (build_jobs db)"
  obtains p where "p \<in> set (projects db)" "p_id p = j_project_id j"
proof -
  have "(j_snapshot_id j, j_project_id j) \<in> snapshot_keys (snapshots db)"
    using assms by (auto simp: wf_refs_def)
  then obtain s where "s \<in> set (snapshots db)" "s_project_id s = j_project_id j"
    by (auto simp: snapshot_keys_def)
  then have "j_project_id j \<in> p_id ` set (projects db)"
    using assms(1) unfolding wf_refs_def by (metis image_eqI subsetD)
  then show ?thesis using that by auto
qed

lemma job_snapshot:
  assumes "wf_refs db" and "j \<in> set (build_jobs db)"
  obtains s where "s \<in> set (snapshots db)" "s_id s = j_snapshot_id j"
    "s_project_id s = j_project_id j"
proof -
  have "(j_snapshot_id j, j_project_id j) \<in> snapshot_keys (snapshots db)"
    using assms by (auto simp: wf_refs_def)
  then show ?thesis using that by (auto simp: snapshot_keys_def)
qed

lemma queued_job_state:
  assumes "phase_ok db" "j \<in> set (build_jobs db)" "j_status j = BQueued"
    "p \<in> set (projects db)" "p_id p = j_project_id j"
  shows "p_state p = Queued"
proof -
  have "0 < jobs_in (build_jobs db) (p_id p) BQueued" using jobs_in_pos [OF assms(2)] assms by simp
  then show ?thesis using phase_okD [OF assms(1,4)]
    by (cases "p_state p") (auto simp: phase_of_def)
qed

lemma building_job_state:
  assumes "phase_ok db" "j \<in> set (build_jobs db)" "j_status j = BBuilding"
    "p \<in> set (projects db)" "p_id p = j_project_id j"
  shows "p_state p = Building"
proof -
  have "0 < jobs_in (build_jobs db) (p_id p) BBuilding" using jobs_in_pos [OF assms(2)] assms by simp
  then show ?thesis using phase_okD [OF assms(1,4)]
    by (cases "p_state p") (auto simp: phase_of_def)
qed

text \<open>A project that is not queued or building has exactly one editable snapshot.\<close>

lemma draft_exists:
  assumes "phase_ok db" "p \<in> set (projects db)" "p_state p \<notin> {Queued, Building}"
  shows "\<exists>d. draft db (p_id p) = Some d"
proof -
  have "snapshots_in (snapshots db) (p_id p) Editable = 1"
    using phase_okD [OF assms(1,2)] assms(3) by (cases "p_state p") (auto simp: phase_of_def)
  then have "0 < count_where (\<lambda>s. s_project_id s = p_id p \<and> s_status s = Editable) (snapshots db)"
    by (simp add: snapshots_in_def)
  then have "draft db (p_id p) \<noteq> None"
    unfolding draft_def latest_where_None count_where_pos by blast
  then show ?thesis by simp
qed

section \<open>Counting after an update\<close>

lemma snapshots_in_append [simp]:
  "snapshots_in (ss @ [s]) q st =
     snapshots_in ss q st + (if s_project_id s = q \<and> s_status s = st then 1 else 0)"
  by (simp add: snapshots_in_def)

lemma jobs_in_append [simp]:
  "jobs_in (js @ [j]) q st =
     jobs_in js q st + (if j_project_id j = q \<and> j_status j = st then 1 else 0)"
  by (simp add: jobs_in_def)

lemma snapshots_in_upd_key:
  assumes "distinct (map s_id ss)" "s \<in> set ss" "s_id s = k" "s_project_id (f s) = s_project_id s"
  shows "snapshots_in (upd_where (\<lambda>x. s_id x = k) f ss) q st
           + (if s_project_id s = q \<and> s_status s = st then 1 else 0)
       = snapshots_in ss q st + (if s_project_id s = q \<and> s_status (f s) = st then 1 else 0)"
  using count_where_upd_key [OF assms(1-3),
      where P = "\<lambda>s. s_project_id s = q \<and> s_status s = st" and f = f] assms(4)
  by (simp only: snapshots_in_def)

lemma jobs_in_upd_key:
  assumes "distinct (map j_id js)" "j \<in> set js" "j_id j = k" "j_project_id (f j) = j_project_id j"
  shows "jobs_in (upd_where (\<lambda>x. j_id x = k) f js) q st
           + (if j_project_id j = q \<and> j_status j = st then 1 else 0)
       = jobs_in js q st + (if j_project_id j = q \<and> j_status (f j) = st then 1 else 0)"
  using count_where_upd_key [OF assms(1-3),
      where P = "\<lambda>j. j_project_id j = q \<and> j_status j = st" and f = f] assms(4)
  by (simp only: jobs_in_def)

lemma wf_idsD:
  assumes "wf_ids db"
  shows "distinct (map p_id (projects db))" "distinct (map m_id (memberships db))"
    "distinct (map r_id (access_requests db))" "distinct (map s_id (snapshots db))"
    "distinct (map u_id (upload_sessions db))" "distinct (map j_id (build_jobs db))"
  using assms by (simp_all add: wf_ids_def fresh_table_def)

lemma project_eq:
  "wf_ids db \<Longrightarrow> p \<in> set (projects db) \<Longrightarrow> q \<in> set (projects db) \<Longrightarrow> p_id p = p_id q \<Longrightarrow> p = q"
  using distinct_key_eq [OF wf_idsD(1)] .

lemma snapshot_eq:
  "wf_ids db \<Longrightarrow> s \<in> set (snapshots db) \<Longrightarrow> t \<in> set (snapshots db) \<Longrightarrow> s_id s = s_id t \<Longrightarrow> s = t"
  using distinct_key_eq [OF wf_idsD(4)] .

lemma job_eq:
  "wf_ids db \<Longrightarrow> i \<in> set (build_jobs db) \<Longrightarrow> j \<in> set (build_jobs db) \<Longrightarrow> j_id i = j_id j \<Longrightarrow> i = j"
  using distinct_key_eq [OF wf_idsD(6)] .

lemma snapshot_keys_project:
  assumes "wf_ids db" "(s_id s, q) \<in> snapshot_keys (snapshots db)" "s \<in> set (snapshots db)"
  shows "s_project_id s = q"
proof -
  obtain t where t: "t \<in> set (snapshots db)" "s_id t = s_id s" "s_project_id t = q"
    using assms(2) by (auto simp: snapshot_keys_def)
  with snapshot_eq [OF assms(1) t(1) assms(3)] show ?thesis by simp
qed

text \<open>Sessions and jobs belong to the project of the snapshot they name.\<close>

lemma session_project:
  assumes "wf_ids db" "wf_refs db" "u \<in> set (upload_sessions db)" "s \<in> set (snapshots db)"
    "s_id s = u_snapshot_id u"
  shows "u_project_id u = s_project_id s"
proof -
  have "(u_snapshot_id u, u_project_id u) \<in> snapshot_keys (snapshots db)"
    using assms(2,3) by (auto simp: wf_refs_def)
  with snapshot_keys_project [OF assms(1) _ assms(4)] assms(5) show ?thesis by simp
qed

lemma job_snapshot_project:
  assumes "wf_ids db" "wf_refs db" "j \<in> set (build_jobs db)" "s \<in> set (snapshots db)"
    "s_id s = j_snapshot_id j"
  shows "j_project_id j = s_project_id s"
proof -
  have "(j_snapshot_id j, j_project_id j) \<in> snapshot_keys (snapshots db)"
    using assms(2,3) by (auto simp: wf_refs_def)
  with snapshot_keys_project [OF assms(1) _ assms(4)] assms(5) show ?thesis by simp
qed

lemma file_project:
  assumes "wf_ids db" "wf_refs db" "f \<in> set (snapshot_files db)" "s \<in> set (snapshots db)"
    "s_id s = f_snapshot_id f"
  shows "f_project_id f = s_project_id s"
proof -
  have "(f_snapshot_id f, f_project_id f) \<in> snapshot_keys (snapshots db)"
    using assms(2,3) by (auto simp: wf_refs_def)
  with snapshot_keys_project [OF assms(1) _ assms(4)] assms(5) show ?thesis by simp
qed

text \<open>A project has at most one active job.\<close>

lemma active_job_unique:
  assumes ids: "wf_ids db" and ph: "phase_ok db" and p: "p \<in> set (projects db)"
    and i: "i \<in> set (build_jobs db)" "job_active i" "j_project_id i = p_id p"
    and j: "j \<in> set (build_jobs db)" "job_active j" "j_project_id j = p_id p"
  shows "i = j"
proof -
  have "p_state p = (if j_status k = BQueued then Queued else Building)"
    if "k \<in> set (build_jobs db)" "job_active k" "j_project_id k = p_id p" for k
    using that(2) queued_job_state [OF ph that(1) _ p that(3) [symmetric]]
      building_job_state [OF ph that(1) _ p that(3) [symmetric]]
    unfolding job_active_def by fastforce
  from this [OF i] this [OF j] have "(j_status i = BQueued) = (j_status j = BQueued)"
    by (simp split: if_splits)
  then have same: "j_status i = j_status j"
    using i(2) j(2) unfolding job_active_def by fastforce
  have "jobs_in (build_jobs db) (p_id p) st \<le> 1" if "st = BQueued \<or> st = BBuilding" for st
    using phase_okD [OF ph p] that unfolding phase_of_def by (cases "p_state p") auto
  with i(2) have "jobs_in (build_jobs db) (p_id p) (j_status i) \<le> 1"
    unfolding job_active_def by blast
  then have all: "\<forall>x\<in>set (build_jobs db). \<forall>y\<in>set (build_jobs db).
      j_project_id x = p_id p \<and> j_status x = j_status i \<longrightarrow>
      j_project_id y = p_id p \<and> j_status y = j_status i \<longrightarrow> j_id x = j_id y"
    unfolding jobs_in_def count_where_le_1 [OF wf_idsD(6) [OF ids]] .
  have "j_id i = j_id j"
    by (rule all [THEN bspec, OF i(1), THEN bspec, OF j(1), THEN mp, THEN mp])
       (simp_all only: i(3) j(3) same)
  then show ?thesis by (rule job_eq [OF ids i(1) j(1)])
qed

text \<open>The phase of one project moves, every other project keeps its phase.\<close>

lemma phase_ok_step:
  assumes "phase_ok db"
    and "\<And>q. q \<in> set (projects db') \<Longrightarrow> p_id q = pid \<Longrightarrow>
           phase_of db' pid = phase_counts (p_state q)"
    and "\<And>q. q \<in> set (projects db') \<Longrightarrow> p_id q \<noteq> pid \<Longrightarrow>
           \<exists>q0\<in>set (projects db). p_id q0 = p_id q \<and> p_state q0 = p_state q"
    and "\<And>k. k \<noteq> pid \<Longrightarrow> phase_of db' k = phase_of db k"
  shows "phase_ok db'"
  unfolding phase_ok_def
proof
  fix q assume q: "q \<in> set (projects db')"
  show "phase_of db' (p_id q) = phase_counts (p_state q)"
  proof (cases "p_id q = pid")
    case True
    with assms(2) [OF q] show ?thesis by simp
  next
    case False
    with assms(3) [OF q] obtain q0
      where "q0 \<in> set (projects db)" "p_id q0 = p_id q" "p_state q0 = p_state q" by auto
    then show ?thesis using phase_okD [OF assms(1)] assms(4) False by metis
  qed
qed

end
