(* ===== verification/Build_Preserve.thy ===== *)
theory Build_Preserve
  imports Project_Invariant
begin

text \<open>
  The operations of the build queue keep the invariants of the registry. Each operation has a
  lemma that reads its committed database table by table, and a lemma that the invariants hold
  there under the guard of the operation.
\<close>

section \<open>Submitting a build\<close>

lemma submit_build_tables [simp]:
  fixes db p d subject key now defines "db' \<equiv> submit_build_commit db p d subject key now"
  shows "projects db' = upd_where (\<lambda>x. p_id x = p_id p)
          (\<lambda>p. p\<lparr>p_state := Queued, p_updated_at := now\<rparr>) (projects db)"
    "snapshots db' = upd_where (\<lambda>s. s_id s = s_id d)
          (\<lambda>s. s\<lparr>s_status := Sealed, s_sealed_at := Some now\<rparr>) (snapshots db)"
    "snapshot_files db' = upd_where (\<lambda>f. f_snapshot_id f = s_id d) (lifecycle_values LQueued 5)
          (snapshot_files db)"
    "build_jobs db' = build_jobs db @
       [\<lparr>j_id = next_id db, j_project_id = p_id p, j_snapshot_id = s_id d, j_status = BQueued,
         j_requested_by = subject, j_expected_generation = p_generation p,
         j_graph_version = None, j_error_code = None, j_created_at = now,
         j_started_at = None, j_completed_at = None, j_worker_id = None\<rparr>]"
    "memberships db' = memberships db" "access_requests db' = access_requests db"
    "upload_sessions db' = upload_sessions db" "blobs db' = blobs db"
    "next_id db' = Suc (Suc (Suc (next_id db)))"
  by (simp_all add: db'_def submit_build_commit_def Let_def)

lemma lifecycle_values_keys [simp]:
  "file_key (lifecycle_values st n f) = file_key f"
  "content_key (lifecycle_values st n f) = content_key f"
  "f_snapshot_id (lifecycle_values st n f) = f_snapshot_id f"
  "f_project_id (lifecycle_values st n f) = f_project_id f"
  by (simp_all add: lifecycle_values_def file_key_def content_key_def)

lemma submit_build_commit_inv:
  assumes inv: "db_inv db" and p: "p \<in> set (projects db)" and ne: "\<not> not_editable p"
    and d: "d \<in> set (snapshots db)" "s_project_id d = p_id p" "s_status d = Editable"
    and no_open: "open_upload_count db (p_id p) (s_id d) = 0"
  shows "db_inv (submit_build_commit db p d subject key now)" (is "db_inv ?db")
proof (rule db_invI)
  note ids = db_invD(1) [OF inv]
  note dist = wf_idsD [OF ids]
  note P = set_upd_key [OF dist(1) p refl] and S = set_upd_key [OF dist(4) d(1) refl]
  note J = snapshots_in_upd_key [OF dist(4) d(1) refl]
  show "wf_ids ?db" using ids
    by (auto simp: wf_ids_def fresh_table_upd elim: fresh_table_mono intro: fresh_table_append)
  have key: "(s_id d, p_id p) \<in> snapshot_keys (snapshots db)"
    using snapshot_keysI [OF d(1)] d(2) by simp
  show "wf_refs ?db" using db_invD(2) [OF inv] key
    by (auto simp: wf_refs_def image_upd_where)
  show "phase_ok ?db"
  proof (rule phase_ok_step [OF db_invD(3) [OF inv], where pid = "p_id p"])
    show "phase_of ?db (p_id p) = phase_counts (p_state q)"
      if "q \<in> set (projects ?db)" "p_id q = p_id p" for q
      using that phase_okD [OF db_invD(3) [OF inv] p] d ne J [where q = "p_id p" and st = Editable]
      by (cases "p_state p") (auto simp: P phase_of_def not_editable_def)
    show "phase_of ?db k = phase_of db k" if "k \<noteq> p_id p" for k
      using that J [where q = k and st = Editable] d by (simp add: phase_of_def)
    show "\<exists>q0\<in>set (projects db). p_id q0 = p_id q \<and> p_state q0 = p_state q"
      if "q \<in> set (projects ?db)" "p_id q \<noteq> p_id p" for q using that by (auto simp: P)
  qed
  have na: "p_active_snapshot_id p \<noteq> Some (s_id d)"
    using db_invD(5) [OF inv] p d unfolding active_ok_def by fastforce
  show "active_ok ?db" using db_invD(5) [OF inv] p d na
    by (auto simp: active_ok_def P S)
  show "files_ok ?db" using db_invD(7) [OF inv]
    by (simp add: files_ok_def map_upd_where image_upd_where)
  show "archive_ok ?db" using db_invD(8) [OF inv] p ne
    by (auto simp: archive_ok_def P not_editable_def)
  show "owners_ok ?db" using db_invD(9) [OF inv] p
    by (auto simp: owners_ok_def P owner_count_def)
  have "\<forall>u\<in>set (upload_sessions db). u_state u = UOpen \<longrightarrow> s_id d \<noteq> u_snapshot_id u"
    using no_open session_project [OF ids db_invD(2) [OF inv] _ d(1)] d(2)
    by (auto simp: open_upload_count_def count_where_0)
  then show "uploads_ok ?db" using db_invD(6) [OF inv]
    by (auto simp: uploads_ok_def S)
  show "jobs_ok ?db" 
    using db_invD(4) [OF inv] p by (auto simp: jobs_ok_def S P)
qed

section \<open>Claiming a build\<close>

lemma claim_tables [simp]:
  fixes db row worker now defines "db' \<equiv> claim_commit db row worker now"
  shows "projects db' = upd_where (\<lambda>x. p_id x = j_project_id row)
          (\<lambda>p. p\<lparr>p_state := Building, p_updated_at := now\<rparr>) (projects db)"
    "snapshots db' = snapshots db"
    "snapshot_files db' = upd_where (\<lambda>f. f_snapshot_id f = j_snapshot_id row)
          (lifecycle_values LValidating 15) (snapshot_files db)"
    "build_jobs db' = upd_where (\<lambda>j. j_id j = j_id row \<and> j_status j = BQueued)
          (\<lambda>j. j\<lparr>j_status := BBuilding, j_started_at := Some now, j_worker_id := Some worker\<rparr>)
          (build_jobs db)"
    "memberships db' = memberships db" "access_requests db' = access_requests db"
    "upload_sessions db' = upload_sessions db" "blobs db' = blobs db"
    "next_id db' = next_id db"
  by (simp_all add: db'_def claim_commit_def Let_def)

lemma claim_commit_inv:
  assumes inv: "db_inv db" and row: "row \<in> set (build_jobs db)" "j_status row = BQueued"
    and idle: "count_where (\<lambda>j. j_status j = BBuilding) (build_jobs db) = 0"
  shows "db_inv (claim_commit db row worker now)" (is "db_inv ?db")
proof (rule db_invI)
  note ids = db_invD(1) [OF inv]
  note dist = wf_idsD [OF ids]
  obtain p where p: "p \<in> set (projects db)" "p_id p = j_project_id row"
    using job_project [OF db_invD(2) [OF inv] row(1)] .
  have st: "p_state p = Queued" using queued_job_state [OF db_invD(3) [OF inv] row p] .
  let ?f = "\<lambda>j. j\<lparr>j_status := BBuilding, j_started_at := Some now, j_worker_id := Some worker\<rparr>"
  have jobs: "build_jobs ?db = upd_where (\<lambda>j. j_id j = j_id row) ?f (build_jobs db)"
    using job_eq [OF ids _ row(1)] row(2) by (auto intro!: upd_where_cong)
  note P = set_upd_key [OF dist(1) p] and J = set_upd_key [OF dist(6) row(1) refl]
  note C = jobs_in_upd_key [OF dist(6) row(1) refl, where f = ?f]
  show "wf_ids ?db" using ids by (simp add: wf_ids_def fresh_table_upd)
  show "wf_refs ?db" using db_invD(2) [OF inv] by (simp add: wf_refs_def image_upd_where)
  show "phase_ok ?db"
  proof (rule phase_ok_step [OF db_invD(3) [OF inv], where pid = "p_id p"])
    show "phase_of ?db (p_id p) = phase_counts (p_state q)"
      if "q \<in> set (projects ?db)" "p_id q = p_id p" for q
      using that phase_okD [OF db_invD(3) [OF inv] p(1)] st row p
        C [where q = "p_id p" and st = BQueued] C [where q = "p_id p" and st = BBuilding]
      by (auto simp: P phase_of_def jobs simp del: claim_tables(4))
    show "phase_of ?db k = phase_of db k" if "k \<noteq> p_id p" for k
      using that C [where q = k and st = BQueued] C [where q = k and st = BBuilding] p
      by (simp add: phase_of_def jobs del: claim_tables(4))
    show "\<exists>q0\<in>set (projects db). p_id q0 = p_id q \<and> p_state q0 = p_state q"
      if "q \<in> set (projects ?db)" "p_id q \<noteq> p_id p" for q using that p by (auto simp: P)
  qed
  show "active_ok ?db" using db_invD(5) [OF inv] p by (auto simp: active_ok_def P)
  show "files_ok ?db" using db_invD(7) [OF inv]
    by (simp add: files_ok_def map_upd_where image_upd_where)
  show "archive_ok ?db" using db_invD(8) [OF inv] p st by (auto simp: archive_ok_def P)
  show "owners_ok ?db" using db_invD(9) [OF inv] p by (auto simp: owners_ok_def P owner_count_def)
  show "uploads_ok ?db" using db_invD(6) [OF inv] by (simp add: uploads_ok_def)
  have one: "count_where (\<lambda>j. j_status j = BBuilding) (build_jobs ?db) = 1"
    using count_where_upd_key [OF dist(6) row(1) refl, where P = "\<lambda>j. j_status j = BBuilding"
        and f = ?f] idle row by (simp add: jobs del: claim_tables(4))
  have act: "job_active row" using row by (simp add: job_active_def)
  show "jobs_ok ?db" using db_invD(4) [OF inv] one row act p
    by (auto simp: jobs_ok_def jobs J P job_active_def simp del: claim_tables(4))
qed

section \<open>Completing a build\<close>

text \<open>The files copied into the next draft.\<close>

lemma copy_files_frame [simp]:
  "projects (fold (copy_file nd pid) src db) = projects db"
  "memberships (fold (copy_file nd pid) src db) = memberships db"
  "access_requests (fold (copy_file nd pid) src db) = access_requests db"
  "snapshots (fold (copy_file nd pid) src db) = snapshots db"
  "blobs (fold (copy_file nd pid) src db) = blobs db"
  "upload_sessions (fold (copy_file nd pid) src db) = upload_sessions db"
  "build_jobs (fold (copy_file nd pid) src db) = build_jobs db"
  "next_id (fold (copy_file nd pid) src db) = next_id db + length src"
  by (induction src arbitrary: db) (simp_all add: copy_file_def)

lemma copy_files_maps [simp]:
  "map file_key (snapshot_files (fold (copy_file nd pid) src db)) =
     map file_key (snapshot_files db) @ map (\<lambda>f. (nd, f_logical_filename f)) src"
  "map content_key (snapshot_files (fold (copy_file nd pid) src db)) =
     map content_key (snapshot_files db) @ map (\<lambda>f. (pid, f_sha256 f)) src"
  "map (\<lambda>f. (f_snapshot_id f, f_project_id f))
       (snapshot_files (fold (copy_file nd pid) src db)) =
     map (\<lambda>f. (f_snapshot_id f, f_project_id f)) (snapshot_files db)
       @ map (\<lambda>f. (nd, pid)) src"
  by (induction src arbitrary: db) (simp_all add: copy_file_def file_key_def content_key_def)

lemma complete_tables [simp]:
  fixes db p job snap usr gv n now
  defines "db' \<equiv> complete_build_commit db p job snap usr gv n now"
  shows "projects db' = upd_where (\<lambda>x. p_id x = p_id p)
          (\<lambda>p. p\<lparr>p_active_snapshot_id := Some (s_id snap), p_active_graph_version := Some gv,
                 p_active_document_count := n, p_generation := p_generation p + 1,
                 p_state := Ready, p_updated_at := now\<rparr>) (projects db)"
    "snapshots db' =
        upd_where (\<lambda>s. s_id s = s_id snap) (\<lambda>s. s\<lparr>s_status := Active\<rparr>)
          (upd_where (\<lambda>s. s_project_id s = p_id p \<and> s_status s = Active)
            (\<lambda>s. s\<lparr>s_status := Validated\<rparr>) (snapshots db))
        @ [\<lparr>s_id = next_id db, s_project_id = p_id p, s_status = Editable, s_created_at = now,
            s_sealed_at = None\<rparr>]"
    "build_jobs db' = upd_where (\<lambda>j. j_id j = j_id job)
          (\<lambda>j. j\<lparr>j_status := BReady, j_graph_version := Some gv, j_completed_at := Some now\<rparr>)
          (build_jobs db)"
    "memberships db' = memberships db" "access_requests db' = access_requests db"
    "upload_sessions db' = upload_sessions db" "blobs db' = blobs db"
    "next_id db' = next_id db + 2 +
       length (filter (\<lambda>f. f_snapshot_id f = s_id snap) (snapshot_files db))"
    "map file_key (snapshot_files db') = map file_key (snapshot_files db)
       @ map (\<lambda>f. (next_id db, f_logical_filename f))
           (filter (\<lambda>f. f_snapshot_id f = s_id snap) (snapshot_files db))"
    "map content_key (snapshot_files db') = map content_key (snapshot_files db)
       @ map (\<lambda>f. (p_id p, f_sha256 f))
           (filter (\<lambda>f. f_snapshot_id f = s_id snap) (snapshot_files db))"
    "map (\<lambda>f. (f_snapshot_id f, f_project_id f)) (snapshot_files db') =
       map (\<lambda>f. (f_snapshot_id f, f_project_id f)) (snapshot_files db)
       @ map (\<lambda>f. (next_id db, p_id p))
           (filter (\<lambda>f. f_snapshot_id f = s_id snap) (snapshot_files db))"
  by (simp_all add: db'_def complete_build_commit_def Let_def map_upd_where)

text \<open>Every snapshot afterwards is the new draft or a former snapshot with its new status.\<close>

lemma complete_snapshot_cases:
  assumes "s \<in> set (snapshots (complete_build_commit db p job snap usr gv n now))"
  obtains (new) "s_id s = next_id db" "s_project_id s = p_id p" "s_status s = Editable"
  | (old) t where "t \<in> set (snapshots db)" "s_id s = s_id t" "s_project_id s = s_project_id t"
      "s_status s = (if s_id t = s_id snap then Active
         else if s_project_id t = p_id p \<and> s_status t = Active then Validated else s_status t)"
  using assms by (auto simp: set_upd_where split: if_splits)

lemma complete_editable:
  assumes "distinct (map s_id (snapshots db))" "snap \<in> set (snapshots db)" "s_status snap = Sealed"
  shows "snapshots_in (snapshots (complete_build_commit db p job snap usr gv n now)) k Editable
       = snapshots_in (snapshots db) k Editable + (if k = p_id p then 1 else 0)"
proof -
  let ?P = "\<lambda>s. s_project_id s = k \<and> s_status s = Editable"
  let ?ss = "upd_where (\<lambda>s. s_project_id s = p_id p \<and> s_status s = Active)
               (\<lambda>s. s\<lparr>s_status := Validated\<rparr>) (snapshots db)"
  have "count_where ?P (upd_where (\<lambda>s. s_id s = s_id snap) (\<lambda>s. s\<lparr>s_status := Active\<rparr>) ?ss)
      = count_where ?P ?ss"
  proof (rule count_where_upd_same)
    fix x assume "x \<in> set ?ss" "s_id x = s_id snap"
    then obtain t where "t \<in> set (snapshots db)" "s_id t = s_id snap"
      "s_status x = (if s_project_id t = p_id p \<and> s_status t = Active then Validated else s_status t)"
      by (auto simp: set_upd_where split: if_splits)
    moreover from this have "t = snap" using distinct_key_eq [OF assms(1) _ assms(2)] by simp
    ultimately have "s_status x = Sealed" using assms(3) by simp
    then show "?P (x\<lparr>s_status := Active\<rparr>) = ?P x" by simp
  qed
  also have "\<dots> = count_where ?P (snapshots db)"
    by (rule count_where_upd_same) auto
  finally show ?thesis by (simp add: snapshots_in_def)
qed

lemma complete_build_commit_inv:
  assumes inv: "db_inv db" and p: "p \<in> set (projects db)"
    and job: "job \<in> set (build_jobs db)" "j_status job = BBuilding" "j_project_id job = p_id p"
    and snap: "snap \<in> set (snapshots db)" "s_id snap = j_snapshot_id job"
  shows "db_inv (complete_build_commit db p job snap usr gv n now)" (is "db_inv ?db")
proof (rule db_invI)
  note ids = db_invD(1) [OF inv] and refs = db_invD(2) [OF inv]
  note dist = wf_idsD [OF ids]
  have sp: "s_project_id snap = p_id p"
    using job_snapshot_project [OF ids refs job(1) snap] job(3) by simp
  have act: "job_active job" using job(2) by (simp add: job_active_def)
  have sealed: "s_status snap = Sealed"
    using db_invD(4) [OF inv] job(1) snap act by (auto simp: jobs_ok_def)
  have st: "p_state p = Building"
    using building_job_state [OF db_invD(3) [OF inv] job(1,2) p] job(3) by simp
  note P = set_upd_key [OF dist(1) p refl] and J = set_upd_key [OF dist(6) job(1) refl]
  let ?g = "\<lambda>j. j\<lparr>j_status := BReady, j_graph_version := Some gv, j_completed_at := Some now\<rparr>"
  note C = jobs_in_upd_key [OF dist(6) job(1) refl, where f = ?g]
  have new: "(next_id db, q) \<notin> snapshot_keys (snapshots db)" for q
    using ids by (auto simp: snapshot_keys_def wf_ids_def fresh_table_def)
  have lt: "s_id snap < next_id db" using ids snap(1) by (auto simp: wf_ids_def fresh_table_def)
  have only: "j = job" if "j \<in> set (build_jobs db)" "job_active j" "j_project_id j = p_id p" for j
    using active_job_unique [OF ids db_invD(3) [OF inv] p that job(1) act job(3)] .
  show "wf_ids ?db" using ids
    by (auto simp: wf_ids_def fresh_table_upd elim: fresh_table_mono intro!: fresh_table_append)
  show "wf_refs ?db"
  proof -
    have "set (map (\<lambda>f. (f_snapshot_id f, f_project_id f)) (snapshot_files ?db))
        \<subseteq> snapshot_keys (snapshots ?db)"
      using refs unfolding complete_tables by (auto simp: wf_refs_def)
    then have "(\<lambda>f. (f_snapshot_id f, f_project_id f)) ` set (snapshot_files ?db)
        \<subseteq> snapshot_keys (snapshots ?db)"
      by (simp only: list.set_map)
    moreover have "s_project_id ` set (snapshots ?db) \<subseteq> p_id ` set (projects ?db)"
      using refs p by (auto simp: wf_refs_def image_upd_where)
    ultimately show ?thesis using refs
      by (simp add: wf_refs_def image_upd_where subset_insertI2)
  qed
  show "phase_ok ?db"
  proof (rule phase_ok_step [OF db_invD(3) [OF inv], where pid = "p_id p"])
    show "phase_of ?db (p_id p) = phase_counts (p_state q)"
      if "q \<in> set (projects ?db)" "p_id q = p_id p" for q
      using that phase_okD [OF db_invD(3) [OF inv] p] st job
        C [where q = "p_id p" and st = BQueued] C [where q = "p_id p" and st = BBuilding]
      by (auto simp: P phase_of_def complete_editable [OF dist(4) snap(1) sealed]
          simp del: complete_tables(2))
    show "phase_of ?db k = phase_of db k" if "k \<noteq> p_id p" for k
      using that C [where q = k and st = BQueued] C [where q = k and st = BBuilding] job
      by (simp add: phase_of_def complete_editable [OF dist(4) snap(1) sealed]
          del: complete_tables(2))
    show "\<exists>q0\<in>set (projects db). p_id q0 = p_id q \<and> p_state q0 = p_state q"
      if "q \<in> set (projects ?db)" "p_id q \<noteq> p_id p" for q using that by (auto simp: P)
  qed
  show "active_ok ?db"
    unfolding active_ok_def
  proof (intro conjI ballI allI impI)
    fix q s assume q: "q \<in> set (projects ?db)" and s: "s \<in> set (snapshots ?db)"
      and eq: "s_project_id s = p_id q"
    from s show "(s_status s = Active) = (p_active_snapshot_id q = Some (s_id s))"
    proof (cases rule: complete_snapshot_cases)
      case new
      then show ?thesis using q eq lt db_invD(5) [OF inv] \<open>\<And>q. (next_id db, q) \<notin> _\<close>
        by (auto simp: P active_ok_def)
    next
      case (old t)
      show ?thesis
      proof (cases "p_id q = p_id p")
        case True
        then have "p_active_snapshot_id q = Some (s_id snap)" using q by (auto simp: P)
        then show ?thesis using old(2-4) eq True by auto
      next
        case False
        then have "q \<in> set (projects db)" "s_id t \<noteq> s_id snap"
          using q old eq sp snapshot_eq [OF ids old(1) snap(1)] by (auto simp: P)
        then show ?thesis
          using active_okD(1) [OF db_invD(5) [OF inv] _ old(1)] old(2-4) eq False by simp
      qed
    qed
  next
    fix q assume "q \<in> set (projects ?db)"
    then show "(p_active_graph_version q = None) = (p_active_snapshot_id q = None)"
      using db_invD(5) [OF inv] by (auto simp: P active_ok_def)
  next
    fix q sid assume "q \<in> set (projects ?db)" "p_active_snapshot_id q = Some sid"
    then show "(sid, p_id q) \<in> snapshot_keys (snapshots ?db)"
      using db_invD(5) [OF inv] snapshot_keysI [OF snap(1)] sp by (auto simp: P active_ok_def)
  qed
  show "files_ok ?db"
  proof -
    have "distinct (map (\<lambda>f. (next_id db, f_logical_filename f))
            (filter (\<lambda>f. f_snapshot_id f = s_id snap) (snapshot_files db)))"
      using db_invD(7) [OF inv]
      by (auto simp: files_ok_def file_key_def distinct_map inj_on_def)
    moreover have "f_snapshot_id f \<noteq> next_id db" if "f \<in> set (snapshot_files db)" for f
      using refs new that by (auto simp: wf_refs_def)
    ultimately have "distinct (map file_key (snapshot_files ?db))"
      using db_invD(7) [OF inv] unfolding complete_tables
      by (auto simp: files_ok_def file_key_def)
    moreover have "f_project_id f = p_id p"
      if "f \<in> set (snapshot_files db)" "f_snapshot_id f = s_id snap" for f
      using file_project [OF ids refs that(1) snap(1)] that(2) sp by simp
    then have "set (map content_key (snapshot_files ?db)) \<subseteq> set (map content_key (snapshot_files db))"
      unfolding complete_tables by (force simp: content_key_def)
    then have "content_key ` set (snapshot_files ?db) \<subseteq> content_key ` set (snapshot_files db)"
      by (simp only: list.set_map)
    ultimately show ?thesis using db_invD(7) [OF inv]
      unfolding files_ok_def complete_tables(7) by blast
  qed
  show "archive_ok ?db" using db_invD(8) [OF inv] p st by (auto simp: archive_ok_def P)
  show "owners_ok ?db" using db_invD(9) [OF inv] p by (auto simp: owners_ok_def P owner_count_def)
  show "uploads_ok ?db"
    unfolding uploads_ok_def
  proof (intro ballI impI)
    fix u s assume u: "u \<in> set (upload_sessions ?db)" "u_state u = UOpen"
      and s: "s \<in> set (snapshots ?db)" "s_id s = u_snapshot_id u"
    have "(u_snapshot_id u, u_project_id u) \<in> snapshot_keys (snapshots db)"
      using refs u by (auto simp: wf_refs_def)
    then have k: "s_id s \<noteq> next_id db" using new s(2) by metis
    from s(1) show "s_status s = Editable"
    proof (cases rule: complete_snapshot_cases)
      case (old t)
      have ed: "s_status t = Editable"
        using uploads_okD [OF db_invD(6) [OF inv] _ u(2) old(1)] u(1) old(2) s(2) by simp
      then have "t \<noteq> snap" using sealed by auto
      then have "s_id t \<noteq> s_id snap" using snapshot_eq [OF ids old(1) snap(1)] by blast
      then show ?thesis using old(4) ed by simp
    qed (use k in simp)
  qed
  have b: "count_where (\<lambda>j. j_status j = BBuilding) (build_jobs ?db) \<le> 1"
    using count_where_upd_key [OF dist(6) job(1) refl, where P = "\<lambda>j. j_status j = BBuilding"
        and f = ?g] db_invD(4) [OF inv] job by (simp add: jobs_ok_def)
  show "jobs_ok ?db"
    unfolding jobs_ok_def
  proof (intro conjI ballI impI b)
    fix j s assume j: "j \<in> set (build_jobs ?db)" "job_active j"
      and s: "s \<in> set (snapshots ?db)" "s_id s = j_snapshot_id j"
    have j': "j \<in> set (build_jobs db)" "j_id j \<noteq> j_id job"
      using j by (auto simp: J job_active_def)
    have "(j_snapshot_id j, j_project_id j) \<in> snapshot_keys (snapshots db)"
      using refs j' by (auto simp: wf_refs_def)
    with s(1) show "s_status s = Sealed"
    proof (cases rule: complete_snapshot_cases)
      case (old t)
      have "j_project_id j = s_project_id t"
        using job_snapshot_project [OF ids refs j'(1) old(1)] s(2) old(2) by simp
      moreover have "s_status t = Sealed"
        using db_invD(4) [OF inv] j' j(2) old s(2) by (auto simp: jobs_ok_def)
      moreover have "j_project_id j \<noteq> p_id p" using only [OF j'(1) j(2)] j'(2) by auto
      ultimately show ?thesis using old sp snapshot_eq [OF ids old(1) snap(1)] by auto
    qed (use new s in auto)
  next
    fix j q assume j: "j \<in> set (build_jobs ?db)" "job_active j"
      and q: "q \<in> set (projects ?db)" "p_id q = j_project_id j"
    have j': "j \<in> set (build_jobs db)" "j_id j \<noteq> j_id job"
      using j by (auto simp: J job_active_def)
    moreover have "j_project_id j \<noteq> p_id p" using only [OF j'(1) j(2)] j'(2) by auto
    ultimately show "j_expected_generation j = p_generation q"
      using q j(2) db_invD(4) [OF inv] by (auto simp: P jobs_ok_def)
  qed
qed

section \<open>Failing a build\<close>

text \<open>The committed state of \<open>fail_build\<close> when the job and its snapshot exist.\<close>

definition failed_db ::
  "repo_db \<Rightarrow> project_row \<Rightarrow> build_job_row \<Rightarrow> snapshot_row \<Rightarrow> string \<Rightarrow> string \<Rightarrow> time \<Rightarrow> repo_db"
where
  "failed_db db p job snap usr code now =
     audit (p_id p) usr ''build.failed'' now [(''errorCode'', Some code)]
       (set_project (p_id p) (\<lambda>p. p\<lparr>p_state := failed_state p, p_updated_at := now\<rparr>)
         (set_snapshot_files (s_id snap)
           (\<lambda>f. f\<lparr>f_lifecycle_status := LFailed, f_error_code := Some code\<rparr>)
           (set_snapshot (s_id snap) (\<lambda>s. s\<lparr>s_status := Editable, s_sealed_at := None\<rparr>)
             (set_job (j_id job)
               (\<lambda>j. j\<lparr>j_status := BFailed, j_error_code := Some code,
                      j_completed_at := Some now\<rparr>) db))))"

lemma fail_build_failed_db:
  assumes "project_for_update db (br_project_id b) = Some p"
    and "get_job db (br_id b) = Some job" and "get_snapshot db (br_snapshot_id b) = Some snap"
  shows "fail_build db b code now = Inr (failed_db db p job snap (br_requested_by b) code now)"
  using assms by (simp add: fail_build_def failed_db_def Let_def failed_state_def)

lemma failed_db_inv:
  assumes inv: "db_inv db" and p: "p \<in> set (projects db)"
    and job: "job \<in> set (build_jobs db)" "job_active job" "j_project_id job = p_id p"
    and snap: "snap \<in> set (snapshots db)" "s_id snap = j_snapshot_id job"
  shows "db_inv (failed_db db p job snap usr code now)" (is "db_inv ?db")
proof (rule db_invI)
  note ids = db_invD(1) [OF inv] and refs = db_invD(2) [OF inv]
  note dist = wf_idsD [OF ids]
  have sp: "s_project_id snap = p_id p"
    using job_snapshot_project [OF ids refs job(1) snap] job(3) by simp
  have sealed: "s_status snap = Sealed"
    using jobs_okD(1) [OF db_invD(4) [OF inv] job(1,2) snap] .
  have st: "p_state p = (if j_status job = BQueued then Queued else Building)"
    using queued_job_state [OF db_invD(3) [OF inv] job(1) _ p job(3) [symmetric]]
      building_job_state [OF db_invD(3) [OF inv] job(1) _ p job(3) [symmetric]] job(2)
    unfolding job_active_def by fastforce
  let ?g = "\<lambda>j. j\<lparr>j_status := BFailed, j_error_code := Some code, j_completed_at := Some now\<rparr>"
  let ?h = "\<lambda>s. s\<lparr>s_status := Editable, s_sealed_at := None\<rparr>"
  note P = set_upd_key [OF dist(1) p refl] and J = set_upd_key [OF dist(6) job(1) refl]
  note S = set_upd_key [OF dist(4) snap(1) refl]
  note C = jobs_in_upd_key [OF dist(6) job(1) refl, where f = ?g]
  note E = snapshots_in_upd_key [OF dist(4) snap(1) refl, where f = ?h and st = Editable]
  have only: "j = job" if "j \<in> set (build_jobs db)" "job_active j" "j_project_id j = p_id p" for j
    using active_job_unique [OF ids db_invD(3) [OF inv] p that job] .
  show "wf_ids ?db" using ids
    by (auto simp: failed_db_def wf_ids_def fresh_table_upd elim: fresh_table_mono)
  show "wf_refs ?db" using refs
    by (simp add: failed_db_def wf_refs_def image_upd_where)
  show "phase_ok ?db"
  proof (rule phase_ok_step [OF db_invD(3) [OF inv], where pid = "p_id p"])
    show "phase_of ?db (p_id p) = phase_counts (p_state q)"
      if "q \<in> set (projects ?db)" "p_id q = p_id p" for q
      using that phase_okD [OF db_invD(3) [OF inv] p] st job sp sealed E [where q = "p_id p"]
        C [where q = "p_id p" and st = BQueued] C [where q = "p_id p" and st = BBuilding]
      by (auto simp: failed_db_def P phase_of_def failed_state_def job_active_def split: if_splits)
    show "phase_of ?db k = phase_of db k" if "k \<noteq> p_id p" for k
      using that C [where q = k and st = BQueued] C [where q = k and st = BBuilding] job sp
        E [where q = k] by (simp add: failed_db_def phase_of_def)
    show "\<exists>q0\<in>set (projects db). p_id q0 = p_id q \<and> p_state q0 = p_state q"
      if "q \<in> set (projects ?db)" "p_id q \<noteq> p_id p" for q
      using that by (auto simp: failed_db_def P)
  qed
  have na: "p_active_snapshot_id p \<noteq> Some (s_id snap)"
    using active_okD(1) [OF db_invD(5) [OF inv] p snap(1)] sp sealed by simp
  show "active_ok ?db" using db_invD(5) [OF inv] p snap(1) sp na
    by (auto simp: failed_db_def active_ok_def P S)
  show "files_ok ?db" using db_invD(7) [OF inv]
    by (simp add: failed_db_def files_ok_def map_upd_where image_upd_where file_key_def
        content_key_def)
  show "archive_ok ?db" using db_invD(8) [OF inv] p st
    by (auto simp: failed_db_def archive_ok_def P failed_state_def split: if_splits)
  show "owners_ok ?db" using db_invD(9) [OF inv] p
    by (auto simp: failed_db_def owners_ok_def P owner_count_def)
  show "uploads_ok ?db" using db_invD(6) [OF inv] by (auto simp: failed_db_def uploads_ok_def S)
  have b: "count_where (\<lambda>j. j_status j = BBuilding) (build_jobs ?db) \<le> 1"
    using count_where_upd_key [OF dist(6) job(1) refl, where P = "\<lambda>j. j_status j = BBuilding"
        and f = ?g] db_invD(4) [OF inv] by (simp add: failed_db_def jobs_ok_def)
  show "jobs_ok ?db"
    unfolding jobs_ok_def
  proof (intro conjI ballI impI b)
    fix j s assume j: "j \<in> set (build_jobs ?db)" "job_active j"
      and s: "s \<in> set (snapshots ?db)" "s_id s = j_snapshot_id j"
    have j': "j \<in> set (build_jobs db)" "j_id j \<noteq> j_id job"
      using j by (auto simp: failed_db_def J job_active_def)
    then have "s_id s \<noteq> s_id snap"
      using job_snapshot_project [OF ids refs j'(1) snap(1)] only [OF j'(1) j(2)] s(2) sp by auto
    then show "s_status s = Sealed"
      using s jobs_okD(1) [OF db_invD(4) [OF inv] j'(1) j(2)] by (auto simp: failed_db_def S)
  next
    fix j q assume j: "j \<in> set (build_jobs ?db)" "job_active j"
      and q: "q \<in> set (projects ?db)" "p_id q = j_project_id j"
    have "j \<in> set (build_jobs db)" using j by (auto simp: failed_db_def J job_active_def)
    from jobs_okD(2) [OF db_invD(4) [OF inv] this j(2)] q p
    show "j_expected_generation j = p_generation q" by (auto simp: failed_db_def P)
  qed
qed

section \<open>Recovery on start-up\<close>

lemma recover_tables [simp]:
  fixes db defines "db' \<equiv> recover_builds db"
  shows "build_jobs db' = upd_where (\<lambda>j. j_status j = BBuilding)
          (\<lambda>j. j\<lparr>j_status := BQueued, j_started_at := None, j_worker_id := None\<rparr>) (build_jobs db)"
    "projects db' = upd_where (\<lambda>p. \<exists>j\<in>set (build_jobs db). j_status j = BBuilding \<and>
          j_project_id j = p_id p) (\<lambda>p. p\<lparr>p_state := Queued\<rparr>) (projects db)"
    "snapshots db' = snapshots db" "memberships db' = memberships db"
    "access_requests db' = access_requests db" "upload_sessions db' = upload_sessions db"
    "blobs db' = blobs db" "next_id db' = next_id db"
    "map file_key (snapshot_files db') = map file_key (snapshot_files db)"
    "map content_key (snapshot_files db') = map content_key (snapshot_files db)"
    "map (\<lambda>f. (f_snapshot_id f, f_project_id f)) (snapshot_files db') =
       map (\<lambda>f. (f_snapshot_id f, f_project_id f)) (snapshot_files db)"
  by (auto simp: db'_def recover_builds_def Let_def map_upd_where image_iff
      intro!: upd_where_cong)

lemma jobs_in_recover:
  fixes js
  defines "js' \<equiv> upd_where (\<lambda>j. j_status j = BBuilding)
    (\<lambda>j. j\<lparr>j_status := BQueued, j_started_at := None, j_worker_id := None\<rparr>) js"
  shows "jobs_in js' k BQueued = jobs_in js k BQueued + jobs_in js k BBuilding"
    "jobs_in js' k BBuilding = 0"
  unfolding js'_def by (induction js) (auto simp: jobs_in_def upd_where_def)

lemma recover_builds_inv:
  assumes inv: "db_inv db"
  shows "db_inv (recover_builds db)" (is "db_inv ?db")
proof (rule db_invI)
  note ids = db_invD(1) [OF inv] and refs = db_invD(2) [OF inv]
  have bs: "p_state p = Building"
    if "p \<in> set (projects db)" "j \<in> set (build_jobs db)" "j_status j = BBuilding"
      "j_project_id j = p_id p" for p j
    using building_job_state [OF db_invD(3) [OF inv] that(2,3,1)] that(4) by simp
  show "wf_ids ?db" using ids by (simp add: wf_ids_def fresh_table_upd)
  have "set (map (\<lambda>f. (f_snapshot_id f, f_project_id f)) (snapshot_files ?db))
      = set (map (\<lambda>f. (f_snapshot_id f, f_project_id f)) (snapshot_files db))"
    by simp
  then show "wf_refs ?db" using refs
    by (simp only: list.set_map) (simp add: wf_refs_def image_upd_where)
  show "phase_ok ?db"
    unfolding phase_ok_def
  proof
    fix q assume "q \<in> set (projects ?db)"
    then obtain p where p0: "p \<in> set (projects db)"
      "q = (if \<exists>j\<in>set (build_jobs db). j_status j = BBuilding \<and> j_project_id j = p_id p
            then p\<lparr>p_state := Queued\<rparr> else p)"
      unfolding recover_tables set_upd_where by blast
    then have p: "p \<in> set (projects db)" "p_id q = p_id p"
      "p_state q = (if \<exists>j\<in>set (build_jobs db). j_status j = BBuilding \<and> j_project_id j = p_id p
                    then Queued else p_state p)"
      by auto
    show "phase_of ?db (p_id q) = phase_counts (p_state q)"
    proof (cases "\<exists>j\<in>set (build_jobs db). j_status j = BBuilding \<and> j_project_id j = p_id p")
      case True
      then show ?thesis using p bs phase_okD [OF db_invD(3) [OF inv] p(1)]
        by (auto simp: phase_of_def jobs_in_recover)
    next
      case False
      then have "jobs_in (build_jobs db) (p_id p) BBuilding = 0"
        by (auto simp: jobs_in_def count_where_0)
      then show ?thesis using p False phase_okD [OF db_invD(3) [OF inv] p(1)]
        by (auto simp: phase_of_def jobs_in_recover)
    qed
  qed
  show "active_ok ?db" using db_invD(5) [OF inv]
    by (simp add: active_ok_def ball_upd_where)
  have "set (map content_key (snapshot_files ?db)) = set (map content_key (snapshot_files db))"
    by simp
  then show "files_ok ?db" using db_invD(7) [OF inv]
    by (simp only: list.set_map) (simp add: files_ok_def)
  show "archive_ok ?db" using db_invD(8) [OF inv] bs
    by (fastforce simp: archive_ok_def ball_upd_where)
  show "owners_ok ?db" using db_invD(9) [OF inv]
    by (simp add: owners_ok_def ball_upd_where owner_count_def)
  show "uploads_ok ?db" using db_invD(6) [OF inv] by (simp add: uploads_ok_def)
  have "count_where (\<lambda>j. j_status j = BBuilding) (build_jobs ?db) = 0"
    by (auto simp: count_where_0 set_upd_where)
  then show "jobs_ok ?db" using db_invD(4) [OF inv]
    by (auto simp: jobs_ok_def ball_upd_where job_active_def simp del: recover_tables(1)
        simp: recover_tables(1))
qed

end
