(* ===== verification/Draft_Preserve.thy ===== *)
theory Draft_Preserve
  imports Build_Preserve
begin

text \<open>
  The project lifecycle and the upload operations keep the invariants of the registry.
\<close>

section \<open>Operations that leave the registry tables alone\<close>

lemma db_inv_frame:
  assumes "db_inv db"
    and "projects db' = projects db" "memberships db' = memberships db"
    "access_requests db' = access_requests db" "snapshots db' = snapshots db"
    "blobs db' = blobs db" "snapshot_files db' = snapshot_files db"
    "upload_sessions db' = upload_sessions db" "build_jobs db' = build_jobs db"
    "next_id db \<le> next_id db'"
  shows "db_inv db'"
proof (rule db_invI)
  show "wf_ids db'" using db_invD(1) [OF assms(1)] assms(2-)
    by (auto simp: wf_ids_def elim: fresh_table_mono)
  show "phase_ok db'" using db_invD(3) [OF assms(1)] assms(2-) by (simp add: phase_ok_def phase_of_def)
  show "owners_ok db'" using db_invD(9) [OF assms(1)] assms(2-)
    by (simp add: owners_ok_def owner_count_def)
qed (use db_invD [OF assms(1)] assms(2-) in \<open>simp_all add: inv_defs\<close>)

lemma ensure_tenants_inv: "db_inv db \<Longrightarrow> db_inv (ensure_tenants db tids now)"
  unfolding ensure_tenants_def
  by (erule fold_invariant_state) (erule db_inv_frame, simp_all add: ensure_tenant_def)

lemma mark_part_uploaded_inv:
  "db_inv db \<Longrightarrow> mark_part_uploaded db part path sz = Inr (db', x) \<Longrightarrow> db_inv db'"
  by (erule db_inv_frame) (auto simp: mark_part_uploaded_def Let_def split: if_splits)

lemma insert_parts_frame [simp]:
  "projects (fold (insert_part sid) ds db) = projects db"
  "memberships (fold (insert_part sid) ds db) = memberships db"
  "access_requests (fold (insert_part sid) ds db) = access_requests db"
  "snapshots (fold (insert_part sid) ds db) = snapshots db"
  "blobs (fold (insert_part sid) ds db) = blobs db"
  "snapshot_files (fold (insert_part sid) ds db) = snapshot_files db"
  "upload_sessions (fold (insert_part sid) ds db) = upload_sessions db"
  "build_jobs (fold (insert_part sid) ds db) = build_jobs db"
  "next_id (fold (insert_part sid) ds db) = next_id db + length ds"
  by (induction ds arbitrary: db) (simp_all add: insert_part_def)

section \<open>Creating a project\<close>

lemma create_project_tables [simp]:
  fixes db name description subject username tenant key now
  defines "db' \<equiv> create_project_commit db name description subject username tenant key now"
  shows "projects db' = projects db @ [\<lparr>p_id = next_id db, p_tenant_id = tenant, p_name = name,
            p_description = description, p_state = Draft, p_creator_subject = subject,
            p_creator_name = username, p_created_at = now, p_updated_at = now,
            p_archived_at = None, p_active_snapshot_id = None, p_active_graph_version = None,
            p_active_document_count = 0, p_generation = 0\<rparr>]"
    "snapshots db' = snapshots db @ [\<lparr>s_id = next_id db + 1, s_project_id = next_id db,
            s_status = Editable, s_created_at = now, s_sealed_at = None\<rparr>]"
    "memberships db' = memberships db @ [\<lparr>m_id = next_id db + 2, m_tenant_id = tenant,
            m_project_id = next_id db, m_principal_type = User, m_principal_id = subject,
            m_display_name = username, m_role = Owner, m_created_by = subject,
            m_created_at = now, m_updated_at = now\<rparr>]"
    "access_requests db' = access_requests db" "blobs db' = blobs db"
    "snapshot_files db' = snapshot_files db" "upload_sessions db' = upload_sessions db"
    "build_jobs db' = build_jobs db" "next_id db' = next_id db + 5"
  by (simp_all add: db'_def create_project_commit_def Let_def)

lemma create_project_commit_inv:
  assumes inv: "db_inv db"
  shows "db_inv (create_project_commit db name description subject username tenant key now)"
    (is "db_inv ?db")
proof (rule db_invI)
  note ids = db_invD(1) [OF inv] and refs = db_invD(2) [OF inv]
  let ?n = "next_id db"
  have p: "p_id p \<noteq> ?n" if "p \<in> set (projects db)" for p
    using ids that by (auto simp: wf_ids_def fresh_table_def)
  have s: "s_project_id s \<noteq> ?n" if "s \<in> set (snapshots db)" for s
  proof -
    have "s_project_id s \<in> p_id ` set (projects db)" using refs that by (auto simp: wf_refs_def)
    then show ?thesis using p by (metis imageE)
  qed
  have s': "s_id s \<noteq> Suc ?n" if "s \<in> set (snapshots db)" for s
    using ids that by (fastforce simp: wf_ids_def fresh_table_def)
  have k: "(Suc ?n, q) \<notin> snapshot_keys (snapshots db)" "(q, ?n) \<notin> snapshot_keys (snapshots db)" for q
    unfolding snapshot_keys_def by (auto dest: s s')
  have m: "m_project_id m \<noteq> ?n" if "m \<in> set (memberships db)" for m
  proof -
    have "(m_project_id m, m_tenant_id m) \<in> (\<lambda>p. (p_id p, p_tenant_id p)) ` set (projects db)"
      using refs that by (auto simp: wf_refs_def)
    then show ?thesis by (auto dest: p)
  qed
  have u: "u_snapshot_id u \<noteq> Suc ?n" if "u \<in> set (upload_sessions db)" for u
  proof -
    have "(u_snapshot_id u, u_project_id u) \<in> snapshot_keys (snapshots db)"
      using refs that by (auto simp: wf_refs_def)
    then show ?thesis using k by metis
  qed
  have j: "j_snapshot_id j \<noteq> Suc ?n" "j_project_id j \<noteq> ?n" if "j \<in> set (build_jobs db)" for j
  proof -
    have "(j_snapshot_id j, j_project_id j) \<in> snapshot_keys (snapshots db)"
      using refs that by (auto simp: wf_refs_def)
    then show "j_snapshot_id j \<noteq> Suc ?n" "j_project_id j \<noteq> ?n" using k by metis+
  qed
  show "wf_ids ?db" using ids
    by (auto simp: wf_ids_def elim: fresh_table_mono intro!: fresh_table_append)
  show "wf_refs ?db" using refs
    by (simp add: wf_refs_def subset_insertI2)
  show "phase_ok ?db"
    unfolding phase_ok_def
  proof
    fix q assume "q \<in> set (projects ?db)"
    then consider "p_id q = ?n" "p_state q = Draft" | "q \<in> set (projects db)" by auto
    then show "phase_of ?db (p_id q) = phase_counts (p_state q)"
    proof cases
      case 1
      then show ?thesis using s j(2)
        by (auto simp: phase_of_def snapshots_in_def jobs_in_def count_where_0)
    next
      case 2
      then show ?thesis using p [OF 2] phase_okD [OF db_invD(3) [OF inv] 2]
        by (simp add: phase_of_def)
    qed
  qed
  show "active_ok ?db" using db_invD(5) [OF inv]
    by (auto simp: active_ok_def dest: p s)
  show "uploads_ok ?db" using db_invD(6) [OF inv] u by (auto simp: uploads_ok_def)
  show "files_ok ?db" using db_invD(7) [OF inv] by (simp add: files_ok_def)
  show "archive_ok ?db" using db_invD(8) [OF inv] by (auto simp: archive_ok_def)
  show "jobs_ok ?db" using db_invD(4) [OF inv]
    by (auto simp: jobs_ok_def dest: j)
  show "owners_ok ?db" using db_invD(9) [OF inv] m p
    by (fastforce simp: owners_ok_def owner_count_def member_key_def)
qed

section \<open>Updates of one project that keep its phase\<close>

text \<open>
  An update of a project that changes its state only between states of the same phase, and
  keeps its identity and its active snapshot.
\<close>

lemma set_project_inv:
  assumes inv: "db_inv db" and p: "p \<in> set (projects db)"
    and same: "\<And>p. p_id (f p) = p_id p" "\<And>p. p_tenant_id (f p) = p_tenant_id p"
      "\<And>p. p_generation (f p) = p_generation p"
      "\<And>p. p_active_snapshot_id (f p) = p_active_snapshot_id p"
      "\<And>p. p_active_graph_version (f p) = p_active_graph_version p"
    and phase: "phase_counts (p_state (f p)) = phase_counts (p_state p)"
    and arch: "(p_state (f p) = Archived) = (p_archived_at (f p) \<noteq> None)"
  shows "db_inv (set_project (p_id p) f db)" (is "db_inv ?db")
proof (rule db_invI)
  note ids = db_invD(1) [OF inv]
  note P = set_upd_key [OF wf_idsD(1) [OF ids] p refl]
  show "wf_ids ?db" using ids by (simp add: wf_ids_def fresh_table_upd same)
  show "wf_refs ?db" using db_invD(2) [OF inv]
    by (simp add: wf_refs_def image_upd_where same)
  show "phase_ok ?db"
  proof (rule phase_ok_step [OF db_invD(3) [OF inv], where pid = "p_id p"])
    show "phase_of ?db (p_id p) = phase_counts (p_state q)"
      if "q \<in> set (projects ?db)" "p_id q = p_id p" for q
      using that phase_okD [OF db_invD(3) [OF inv] p] phase by (auto simp: P phase_of_def)
    show "\<exists>q0\<in>set (projects db). p_id q0 = p_id q \<and> p_state q0 = p_state q"
      if "q \<in> set (projects ?db)" "p_id q \<noteq> p_id p" for q using that by (auto simp: P same)
  qed (simp add: phase_of_def)
  show "jobs_ok ?db" using db_invD(4) [OF inv] by (simp add: jobs_ok_def ball_upd_where same)
  show "active_ok ?db" using db_invD(5) [OF inv] using p by (auto simp: active_ok_def P same)
  show "uploads_ok ?db" using db_invD(6) [OF inv] by (simp add: uploads_ok_def)
  show "files_ok ?db" using db_invD(7) [OF inv] by (simp add: files_ok_def)
  show "archive_ok ?db" using db_invD(8) [OF inv] arch by (auto simp: archive_ok_def P)
  show "owners_ok ?db" using db_invD(9) [OF inv] p
    by (auto simp: owners_ok_def P same owner_count_def)
qed

lemma audit_inv: "db_inv db \<Longrightarrow> db_inv (audit p a act now d db)"
  by (erule db_inv_frame) simp_all

lemma remember_inv: "db_inv db \<Longrightarrow> db_inv (remember a op k r now db)"
  by (erule db_inv_frame) simp_all

lemma idle_phase: "p_state p \<notin> {Queued, Building} \<Longrightarrow> phase_counts (p_state p) = (1, 0, 0)"
  by (cases "p_state p") auto

lemma archive_commit_inv:
  assumes "db_inv db" "p \<in> set (projects db)" "p_state p \<notin> {Queued, Building}"
  shows "db_inv (archive_commit db (p_id p) subject now)"
  unfolding archive_commit_def
  by (intro audit_inv set_project_inv [OF assms(1,2)]) (simp_all add: idle_phase [OF assms(3)])

lemma restore_commit_inv:
  assumes "db_inv db" "p \<in> set (projects db)" "p_state p = Archived"
  shows "db_inv (restore_commit db (p_id p) subject now)"
  unfolding restore_commit_def
  by (intro audit_inv set_project_inv [OF assms(1,2)]) (simp_all add: assms(3) restored_state_def)

lemma touch_project_inv:
  assumes "db_inv db" "p \<in> set (projects db)"
  shows "db_inv (set_project (p_id p) (\<lambda>p. p\<lparr>p_updated_at := now\<rparr>) db)"
  using db_invD(8) [OF assms(1)] assms(2)
  by (intro set_project_inv [OF assms]) (simp_all add: archive_ok_def)

section \<open>Uploads\<close>

lemma create_upload_session_commit_inv:
  assumes inv: "db_inv db"
    and d: "d \<in> set (snapshots db)" "s_project_id d = pid" "s_status d = Editable"
  shows "db_inv (create_upload_session_commit db ttl pid d ds subject key now)"
proof -
  let ?u = "\<lparr>u_id = next_id db, u_project_id = pid, u_snapshot_id = s_id d,
     u_created_by = subject, u_state = UOpen, u_created_at = now,
     u_expires_at = now + timedelta_hours ttl\<rparr>"
  let ?db = "db\<lparr>upload_sessions := upload_sessions db @ [?u], next_id := Suc (next_id db)\<rparr>"
  note ids = db_invD(1) [OF inv] and refs = db_invD(2) [OF inv]
  have key: "(s_id d, pid) \<in> snapshot_keys (snapshots db)"
    using snapshot_keysI [OF d(1)] d(2) by simp
  have "db_inv ?db"
  proof (rule db_invI)
    show "wf_ids ?db" using ids
      by (auto simp: wf_ids_def elim: fresh_table_mono intro: fresh_table_append)
    show "wf_refs ?db" using refs key by (simp add: wf_refs_def)
    show "phase_ok ?db" using db_invD(3) [OF inv] by (simp add: phase_ok_def phase_of_def)
    have "s_status s = Editable" if "s \<in> set (snapshots db)" "s_id s = s_id d" for s
      using snapshot_eq [OF ids that(1) d(1) that(2)] d(3) by simp
    then show "uploads_ok ?db" using db_invD(6) [OF inv] by (auto simp: uploads_ok_def)
    show "owners_ok ?db" using db_invD(9) [OF inv] by (simp add: owners_ok_def owner_count_def)
  qed (use db_invD [OF inv] in \<open>simp_all add: inv_defs\<close>)
  then show ?thesis
    by (rule db_inv_frame) (simp_all add: create_upload_session_commit_def Let_def)
qed

lemma cleanup_expired_uploads_inv:
  assumes inv: "db_inv db"
  shows "db_inv (fst (cleanup_expired_uploads db now))" (is "db_inv ?db")
proof (rule db_invI)
  show "wf_ids ?db" using db_invD(1) [OF inv]
    by (simp add: wf_ids_def cleanup_expired_uploads_def Let_def fresh_table_upd)
  show "wf_refs ?db" using db_invD(2) [OF inv]
    by (simp add: wf_refs_def cleanup_expired_uploads_def Let_def image_upd_where)
  show "phase_ok ?db" using db_invD(3) [OF inv]
    by (simp add: phase_ok_def phase_of_def cleanup_expired_uploads_def Let_def)
  show "uploads_ok ?db" using db_invD(6) [OF inv]
    by (simp add: uploads_ok_def cleanup_expired_uploads_def Let_def ball_upd_where)
  show "owners_ok ?db" using db_invD(9) [OF inv]
    by (simp add: owners_ok_def owner_count_def cleanup_expired_uploads_def Let_def)
qed (use db_invD [OF inv] in \<open>simp_all add: inv_defs cleanup_expired_uploads_def Let_def\<close>)

text \<open>A change of the file and blob tables that keeps the files of known snapshots.\<close>

lemma files_inv:
  assumes inv: "db_inv db"
    and same: "projects db' = projects db" "memberships db' = memberships db"
      "access_requests db' = access_requests db" "snapshots db' = snapshots db"
      "upload_sessions db' = upload_sessions db" "build_jobs db' = build_jobs db"
      "next_id db \<le> next_id db'"
    and refs: "\<And>f. f \<in> set (snapshot_files db') \<Longrightarrow>
      (f_snapshot_id f, f_project_id f) \<in> snapshot_keys (snapshots db)"
    and files: "files_ok db'"
  shows "db_inv db'"
proof (rule db_invI)
  show "wf_ids db'" using db_invD(1) [OF inv] same by (auto simp: wf_ids_def elim: fresh_table_mono)
  show "wf_refs db'" using db_invD(2) [OF inv] same refs by (auto simp: wf_refs_def)
  show "phase_ok db'" using db_invD(3) [OF inv] same by (simp add: phase_ok_def phase_of_def)
  show "owners_ok db'" using db_invD(9) [OF inv] same by (simp add: owners_ok_def owner_count_def)
qed (use db_invD [OF inv] same files in \<open>simp_all add: inv_defs\<close>)

lemma file_refsD:
  "db_inv db \<Longrightarrow> f \<in> set (snapshot_files db) \<Longrightarrow>
     (f_snapshot_id f, f_project_id f) \<in> snapshot_keys (snapshots db)"
  by (drule db_invD(2)) (simp add: wf_refs_def image_subset_iff)

lemma delete_files_inv:
  assumes "db_inv db"
  shows "db_inv (db\<lparr>snapshot_files := del_where P (snapshot_files db)\<rparr>)"
proof (rule files_inv [OF assms])
  show "files_ok (db\<lparr>snapshot_files := del_where P (snapshot_files db)\<rparr>)"
    using db_invD(7) [OF assms] by (auto simp: files_ok_def distinct_map_del_where set_del_where)
qed (auto simp: set_del_where intro: file_refsD [OF assms])

lemma update_file_lifecycle_inv:
  assumes "db_inv db"
  shows "db_inv (update_file_lifecycle db snap st n)"
proof (rule files_inv [OF assms])
  show "files_ok (update_file_lifecycle db snap st n)"
    using db_invD(7) [OF assms]
    by (simp add: files_ok_def update_file_lifecycle_def map_upd_where image_upd_where)
qed (auto simp: update_file_lifecycle_def set_upd_where intro: file_refsD [OF assms])

text \<open>One file of an upload: the blob is there afterwards, the old file of that name is gone.\<close>

lemma insert_blob_tables [simp]:
  "projects (insert_blob pid sha sz path now db) = projects db"
  "memberships (insert_blob pid sha sz path now db) = memberships db"
  "access_requests (insert_blob pid sha sz path now db) = access_requests db"
  "snapshots (insert_blob pid sha sz path now db) = snapshots db"
  "snapshot_files (insert_blob pid sha sz path now db) = snapshot_files db"
  "upload_sessions (insert_blob pid sha sz path now db) = upload_sessions db"
  "upload_parts (insert_blob pid sha sz path now db) = upload_parts db"
  "build_jobs (insert_blob pid sha sz path now db) = build_jobs db"
  "idempotency (insert_blob pid sha sz path now db) = idempotency db"
  "next_id (insert_blob pid sha sz path now db) = next_id db"
  by (simp_all add: insert_blob_def)

lemma insert_blob_keys:
  "blob_key ` set (blobs (insert_blob pid sha sz path now db)) =
     insert (pid, sha) (blob_key ` set (blobs db))"
  by (auto simp: insert_blob_def exists_where_def blob_key_def)

lemma insert_blob_distinct:
  "distinct (map blob_key (blobs db)) \<Longrightarrow>
     distinct (map blob_key (blobs (insert_blob pid sha sz path now db)))"
  by (auto simp: insert_blob_def exists_where_def blob_key_def)

lemma finalize_part_inv:
  assumes inv: "db_inv db" and snap: "(snap, pid) \<in> snapshot_keys (snapshots db)"
    and ok: "finalize_part pid snap paths now part db = Inr db'"
  shows "db_inv db'"
proof -
  obtain path where "paths (up_id part) = Some path"
    using ok by (auto simp: finalize_part_def split: option.splits)
  define db1 where
    "db1 = insert_blob pid (up_expected_sha256 part) (up_expected_size part) path now db"
  define new where "new = \<lparr>f_id = next_id db1, f_snapshot_id = snap, f_project_id = pid,
     f_logical_filename = up_logical_filename part, f_media_type = up_media_type part,
     f_size = up_expected_size part, f_sha256 = up_expected_sha256 part,
     f_lifecycle_status = LUploaded, f_progress_percent = Some 0, f_error_code = None,
     f_uploaded_at = Some now\<rparr>"
  let ?P = "\<lambda>f. f_snapshot_id f = snap \<and> f_logical_filename f = up_logical_filename part"
  have db': "db' = db1\<lparr>snapshot_files := del_where ?P (snapshot_files db1) @ [new],
      next_id := Suc (next_id db1)\<rparr>"
    using ok \<open>paths (up_id part) = Some path\<close>
    by (simp add: finalize_part_def db1_def new_def Let_def)
  show ?thesis
  proof (rule files_inv [OF inv])
    show "files_ok db'"
      using db_invD(7) [OF inv]
      by (auto simp: files_ok_def db' db1_def new_def insert_blob_distinct insert_blob_keys
          distinct_map_del_where set_del_where file_key_def content_key_def)
    show "(f_snapshot_id f, f_project_id f) \<in> snapshot_keys (snapshots db)"
      if "f \<in> set (snapshot_files db')" for f
      using that snap file_refsD [OF inv]
      by (auto simp: db' db1_def new_def set_del_where)
  qed (simp_all add: db' db1_def)
qed

lemma finalize_part_tables:
  assumes "finalize_part pid snap paths now part db = Inr db'"
  shows "snapshots db' = snapshots db" "projects db' = projects db"
    "upload_sessions db' = upload_sessions db" "idempotency db' = idempotency db"
  using assms by (auto simp: finalize_part_def Let_def split: option.splits)

lemma finalize_parts_inv:
  assumes "db_inv db" "(snap, pid) \<in> snapshot_keys (snapshots db)"
    and "fold_raise (finalize_part pid snap paths now) parts db = Inr db'"
  shows "db_inv db' \<and> snapshots db' = snapshots db \<and> projects db' = projects db \<and>
    upload_sessions db' = upload_sessions db"
  by (rule fold_raise_invariant [OF assms(3), where
        I = "\<lambda>x. db_inv x \<and> snapshots x = snapshots db \<and> projects x = projects db \<and>
               upload_sessions x = upload_sessions db"])
     (use assms(1,2) finalize_part_inv finalize_part_tables in \<open>auto simp: finalize_part_tables\<close>)

lemma finalize_commit_inv:
  assumes inv: "db_inv db" and p: "p \<in> set (projects db)"
  shows "db_inv (finalize_commit db (p_id p) sid subject key now)"
proof -
  let ?db = "db\<lparr>upload_sessions := upd_where (\<lambda>u. u_id u = sid) (\<lambda>u. u\<lparr>u_state := UFinalized\<rparr>)
     (upload_sessions db)\<rparr>"
  have "db_inv ?db"
  proof (rule db_invI)
    show "wf_ids ?db" using db_invD(1) [OF inv] by (simp add: wf_ids_def fresh_table_upd)
    show "wf_refs ?db" using db_invD(2) [OF inv] by (simp add: wf_refs_def image_upd_where)
    show "phase_ok ?db" using db_invD(3) [OF inv] by (simp add: phase_ok_def phase_of_def)
    show "uploads_ok ?db" using db_invD(6) [OF inv] by (simp add: uploads_ok_def ball_upd_where)
    show "owners_ok ?db" using db_invD(9) [OF inv] by (simp add: owners_ok_def owner_count_def)
  qed (use db_invD [OF inv] in \<open>simp_all add: inv_defs\<close>)
  then show ?thesis unfolding finalize_commit_def
    by (intro audit_inv remember_inv touch_project_inv) (simp_all add: p)
qed

section \<open>Purging an archived project\<close>

lemma purge_tables:
  fixes db pid subject now defines "db' \<equiv> purge_commit db pid subject now"
  shows "projects db' = del_where (\<lambda>p. p_id p = pid) (projects db)"
    "memberships db' = del_where (\<lambda>m. m_project_id m = pid) (memberships db)"
    "access_requests db' = del_where (\<lambda>r. r_project_id r = pid) (access_requests db)"
    "snapshots db' = del_where (\<lambda>s. s_project_id s = pid) (snapshots db)"
    "blobs db' = del_where (\<lambda>b. b_project_id b = pid) (blobs db)"
    "snapshot_files db' = del_where (\<lambda>f. f_snapshot_id f \<in> set (project_snapshot_ids db pid))
       (snapshot_files db)"
    "upload_sessions db' = del_where (\<lambda>u. u_id u \<in> set (project_session_ids db pid))
       (upload_sessions db)"
    "build_jobs db' = del_where (\<lambda>j. j_project_id j = pid \<or>
       j_snapshot_id j \<in> set (project_snapshot_ids db pid)) (build_jobs db)"
    "next_id db' = Suc (next_id db)"
  by (simp_all add: db'_def purge_commit_def delete_project_row_def Let_def
      project_snapshot_ids_def project_session_ids_def)

lemma project_snapshot_ids_iff:
  assumes ids: "wf_ids db" and key: "(k, q) \<in> snapshot_keys (snapshots db)"
  shows "k \<in> set (project_snapshot_ids db pid) \<longleftrightarrow> q = pid"
proof -
  obtain s where s: "s \<in> set (snapshots db)" "s_id s = k" "s_project_id s = q"
    using key by (auto simp: snapshot_keys_def)
  have "s_project_id t = q" if "t \<in> set (snapshots db)" "s_id t = k" for t
    using snapshot_eq [OF ids that(1) s(1)] that(2) s by simp
  then show ?thesis using s by (auto simp: project_snapshot_ids_def image_iff)
qed

lemma purge_commit_inv:
  assumes inv: "db_inv db"
  shows "db_inv (purge_commit db pid subject now)" (is "db_inv ?db")
proof (rule db_invI)
  note ids = db_invD(1) [OF inv] and refs = db_invD(2) [OF inv]
  note T = purge_tables table_simps
  have jobs: "build_jobs ?db = del_where (\<lambda>j. j_project_id j = pid) (build_jobs db)"
  proof -
    have "(j_snapshot_id j, j_project_id j) \<in> snapshot_keys (snapshots db)"
      if "j \<in> set (build_jobs db)" for j using refs that by (simp add: wf_refs_def image_subset_iff)
    then have "(j_snapshot_id j \<in> set (project_snapshot_ids db pid)) = (j_project_id j = pid)"
      if "j \<in> set (build_jobs db)" for j
      using project_snapshot_ids_iff [OF ids] that by metis
    then show ?thesis by (simp add: purge_tables(8) del_where_def cong: filter_cong)
  qed
  have files: "snapshot_files ?db = del_where (\<lambda>f. f_project_id f = pid) (snapshot_files db)"
  proof -
    have "(f_snapshot_id f \<in> set (project_snapshot_ids db pid)) = (f_project_id f = pid)"
      if "f \<in> set (snapshot_files db)" for f
      using project_snapshot_ids_iff [OF ids file_refsD [OF inv that]] .
    then show ?thesis by (simp add: purge_tables(6) del_where_def cong: filter_cong)
  qed
  have sess: "set (upload_sessions ?db) = {u \<in> set (upload_sessions db). u_project_id u \<noteq> pid}"
  proof -
    have "(u_snapshot_id u, u_project_id u) \<in> snapshot_keys (snapshots db)"
      if "u \<in> set (upload_sessions db)" for u
      using refs that by (simp add: wf_refs_def image_subset_iff)
    then have snap: "(u_snapshot_id u \<in> set (project_snapshot_ids db pid)) = (u_project_id u = pid)"
      if "u \<in> set (upload_sessions db)" for u
      using project_snapshot_ids_iff [OF ids] that by metis
    have "(u_id u \<in> set (project_session_ids db pid)) = (u_project_id u = pid)"
      if u: "u \<in> set (upload_sessions db)" for u
    proof
      assume "u_id u \<in> set (project_session_ids db pid)"
      then obtain v where v: "v \<in> set (upload_sessions db)" "u_id v = u_id u" "u_project_id v = pid"
        using snap by (auto simp: project_session_ids_def)
      then show "u_project_id u = pid"
        using distinct_key_eq [OF wf_idsD(5) [OF ids] v(1) u v(2)] by simp
    qed (use u in \<open>auto simp: project_session_ids_def\<close>)
    then show ?thesis by (auto simp: purge_tables(7) set_del_where)
  qed
  have keys: "snapshot_keys (snapshots ?db) = {(k, q) \<in> snapshot_keys (snapshots db). q \<noteq> pid}"
    by (auto simp: purge_tables snapshot_keys_def set_del_where)
  show "wf_ids ?db" using ids
    by (auto simp: wf_ids_def purge_tables intro!: fresh_table_del elim: fresh_table_mono)
  show "wf_refs ?db" using refs
    unfolding wf_refs_def keys jobs files sess
    by (simp add: purge_tables set_del_where image_subset_iff) blast
  show "phase_ok ?db"
  proof (rule phase_ok_step [OF db_invD(3) [OF inv], where pid = pid])
    show "phase_of ?db k = phase_of db k" if "k \<noteq> pid" for k
      using that
      by (auto simp: phase_of_def jobs purge_tables(4) snapshots_in_def jobs_in_def count_where_del
          intro!: count_where_cong)
  qed (auto simp: purge_tables set_del_where)
  show "jobs_ok ?db"
  proof -
    have "count_where (\<lambda>j. j_status j = BBuilding \<and> j_project_id j \<noteq> pid) (build_jobs db)
        \<le> count_where (\<lambda>j. j_status j = BBuilding) (build_jobs db)"
      by (rule count_where_mono) simp
    then show ?thesis using db_invD(4) [OF inv]
      by (auto simp: jobs_ok_def jobs purge_tables(1,4) set_del_where count_where_del)
  qed
  show "active_ok ?db" using db_invD(5) [OF inv]
    by (auto simp: active_ok_def keys [unfolded purge_tables(4)] purge_tables(1,4) set_del_where)
  show "uploads_ok ?db" using db_invD(6) [OF inv]
    by (auto simp: uploads_ok_def sess purge_tables(4) set_del_where)
  show "files_ok ?db" using db_invD(7) [OF inv]
    by (auto simp: files_ok_def files purge_tables(5) set_del_where distinct_map_del_where
        content_key_def blob_key_def image_subset_iff)
  show "archive_ok ?db" using db_invD(8) [OF inv]
    by (simp add: archive_ok_def purge_tables(1) set_del_where)
  have "owner_count ?db k = owner_count db k" if "k \<noteq> pid" for k
    using that by (auto simp: owner_count_def purge_tables(2) count_where_del intro!: count_where_cong)
  then show "owners_ok ?db" using db_invD(9) [OF inv]
    by (simp add: owners_ok_def purge_tables(1,2) set_del_where distinct_map_del_where)
qed

end
