(* ===== verification/Access_Preserve.thy ===== *)
theory Access_Preserve
  imports Draft_Preserve
begin

text \<open>
  The membership and access-request operations keep the invariants of the registry. The ones
  that grant a role need the role not to be owner, as the request models of the API guarantee.
\<close>

section \<open>A change of the membership and request tables\<close>

lemma members_inv:
  assumes inv: "db_inv db"
    and same: "projects db' = projects db" "snapshots db' = snapshots db" "blobs db' = blobs db"
      "snapshot_files db' = snapshot_files db" "upload_sessions db' = upload_sessions db"
      "build_jobs db' = build_jobs db" "next_id db \<le> next_id db'"
    and ids: "fresh_table m_id (memberships db') (next_id db')"
      "fresh_table r_id (access_requests db') (next_id db')"
    and refs: "(\<lambda>m. (m_project_id m, m_tenant_id m)) ` set (memberships db')
                 \<subseteq> (\<lambda>p. (p_id p, p_tenant_id p)) ` set (projects db)"
      "(\<lambda>r. (r_project_id r, r_tenant_id r)) ` set (access_requests db')
                 \<subseteq> (\<lambda>p. (p_id p, p_tenant_id p)) ` set (projects db)"
    and own: "owners_ok db'"
  shows "db_inv db'"
proof (rule db_invI)
  show "wf_ids db'" using db_invD(1) [OF inv] same ids
    by (auto simp: wf_ids_def elim: fresh_table_mono)
  show "wf_refs db'" using db_invD(2) [OF inv] same refs by (simp add: wf_refs_def)
  show "phase_ok db'" using db_invD(3) [OF inv] same by (simp add: phase_ok_def phase_of_def)
qed (use db_invD [OF inv] same own in \<open>simp_all add: inv_defs\<close>)

text \<open>The memberships without the rows of the other tables.\<close>

lemma requests_inv:
  assumes "db_inv db" "fresh_table r_id rs n" "next_id db \<le> n"
    "(\<lambda>r. (r_project_id r, r_tenant_id r)) ` set rs
       \<subseteq> (\<lambda>p. (p_id p, p_tenant_id p)) ` set (projects db)"
  shows "db_inv (db\<lparr>access_requests := rs, next_id := n\<rparr>)"
  by (rule members_inv [OF assms(1)])
     (use db_invD(1,2,9) [OF assms(1)] assms(2-) in
       \<open>auto simp: wf_ids_def wf_refs_def owners_ok_def owner_count_def elim: fresh_table_mono\<close>)

lemma set_request_inv:
  assumes "db_inv db" "\<And>r. r_id (f r) = r_id r" "\<And>r. r_project_id (f r) = r_project_id r"
    "\<And>r. r_tenant_id (f r) = r_tenant_id r"
  shows "db_inv (set_request rid f db)"
proof -
  have "fresh_table r_id (upd_where (\<lambda>r. r_id r = rid) f (access_requests db)) (next_id db)"
    using db_invD(1) [OF assms(1)] by (simp add: fresh_table_upd assms(2) wf_ids_def)
  from requests_inv [OF assms(1) this order_refl] show ?thesis
    using db_invD(2) [OF assms(1)]
    by (simp add: set_request_def image_upd_where assms(3,4) wf_refs_def)
qed

lemma find_membership_None:
  "find_membership db pid pt k = None \<Longrightarrow> (pid, pt, k) \<notin> member_key ` set (memberships db)"
  by (auto simp: find_membership_def first_where_None member_key_def)

lemma find_membership_Some:
  "find_membership db pid pt k = Some m \<Longrightarrow> m \<in> set (memberships db) \<and> member_key m = (pid, pt, k)"
  by (auto simp: find_membership_def member_key_def dest: first_where_Some)

lemma insert_membership_inv:
  assumes inv: "db_inv db" and p: "p \<in> set (projects db)" "p_id p = pid" "p_tenant_id p = tenant"
    and new: "find_membership db pid pt k = None" and role: "role = Owner \<Longrightarrow> pt = User"
  shows "db_inv (insert_membership tenant pid pt k name role actor now db)"
proof (rule members_inv [OF inv])
  let ?db = "insert_membership tenant pid pt k name role actor now db"
  show "fresh_table m_id (memberships ?db) (next_id ?db)"
    using db_invD(1) [OF inv]
    by (auto simp: insert_membership_def wf_ids_def intro: fresh_table_append)
  show "fresh_table r_id (access_requests ?db) (next_id ?db)"
    using db_invD(1) [OF inv]
    by (auto simp: insert_membership_def wf_ids_def elim: fresh_table_mono)
  show "(\<lambda>m. (m_project_id m, m_tenant_id m)) ` set (memberships ?db)
      \<subseteq> (\<lambda>p. (p_id p, p_tenant_id p)) ` set (projects db)"
    using db_invD(2) [OF inv] p by (auto simp: insert_membership_def wf_refs_def)
  have "owner_count db q \<le> owner_count ?db q" for q
    by (simp add: owner_count_def insert_membership_def)
  then show "owners_ok ?db"
    using db_invD(9) [OF inv] find_membership_None [OF new] role
    by (fastforce simp: owners_ok_def insert_membership_def member_key_def intro: less_le_trans)
qed (use db_invD(2) [OF inv] in \<open>simp_all add: insert_membership_def wf_refs_def\<close>)

text \<open>
  An update of one membership that keeps its key, and leaves the project an owner.
\<close>

lemma set_membership_inv:
  assumes inv: "db_inv db"
    and f: "\<And>m. m_id (f m) = m_id m" "\<And>m. member_key (f m) = member_key m"
      "\<And>m. m_tenant_id (f m) = m_tenant_id m"
    and user: "\<And>m. m \<in> set (memberships db) \<Longrightarrow> m_id m = mid \<Longrightarrow> m_role (f m) = Owner \<Longrightarrow>
                 m_principal_type m = User"
    and own: "\<And>p. p \<in> set (projects db) \<Longrightarrow> 0 < owner_count (set_membership mid f db) (p_id p)"
  shows "db_inv (set_membership mid f db)"
proof (rule members_inv [OF inv])
  let ?db = "set_membership mid f db"
  have proj: "m_project_id (f m) = m_project_id m" "m_principal_type (f m) = m_principal_type m" for m
    using f(2) [of m] by (simp_all add: member_key_def)
  show "fresh_table m_id (memberships ?db) (next_id ?db)"
    using db_invD(1) [OF inv] by (simp add: set_membership_def wf_ids_def fresh_table_upd f)
  show "fresh_table r_id (access_requests ?db) (next_id ?db)"
    using db_invD(1) [OF inv] by (simp add: set_membership_def wf_ids_def)
  show "(\<lambda>m. (m_project_id m, m_tenant_id m)) ` set (memberships ?db)
      \<subseteq> (\<lambda>p. (p_id p, p_tenant_id p)) ` set (projects db)"
    using db_invD(2) [OF inv] by (simp add: set_membership_def image_upd_where proj f wf_refs_def)
  show "owners_ok ?db" using db_invD(9) [OF inv] own user
    by (simp add: owners_ok_def set_membership_def map_upd_where f ball_upd_where proj)
qed (use db_invD(2) [OF inv] in \<open>simp_all add: set_membership_def wf_refs_def\<close>)

text \<open>Updates that only ever leave the role of an owner alone keep every owner.\<close>

lemma owner_count_set_membership_same:
  assumes "\<And>m. m_project_id (f m) = m_project_id m"
    and "\<And>m. m \<in> set (memberships db) \<Longrightarrow> m_id m = mid \<Longrightarrow> (m_role (f m) = Owner) = (m_role m = Owner)"
  shows "owner_count (set_membership mid f db) q = owner_count db q"
  unfolding owner_count_def set_membership_def
  by (simp add: assms count_where_upd_same)

section \<open>Adding members\<close>

lemma add_membership_inv:
  assumes inv: "db_inv db" and p: "p \<in> set (projects db)" "p_id p = pid" "p_tenant_id p = tenant"
    and role: "role \<noteq> Owner"
  shows "db_inv (add_membership tenant pid role actor now x db)"
proof -
  obtain pt k name where x: "x = (pt, k, name)" by (cases x)
  have own: "0 < owner_count db (p_id q)" if "q \<in> set (projects db)" for q
    using db_invD(9) [OF inv] that by (simp add: owners_ok_def)
  have users: "m_role m = Owner \<Longrightarrow> m_principal_type m = User" if "m \<in> set (memberships db)" for m
    using db_invD(9) [OF inv] that by (simp add: owners_ok_def)
  show ?thesis
  proof (cases "find_membership db pid pt k")
    case None
    show ?thesis
      using insert_membership_inv [OF inv p None, of role name actor now] role
      by (simp add: x None audit_inv)
  next
    case (Some m)
    have "db_inv (set_membership (m_id m) (\<lambda>m. m\<lparr>m_display_name := name, m_updated_at := now\<rparr>) db)"
      by (rule set_membership_inv [OF inv])
         (auto simp: member_key_def owner_count_set_membership_same own users)
    then show ?thesis by (simp add: x Some audit_inv)
  qed
qed

lemma add_membership_projects [simp]:
  "projects (add_membership tenant pid role actor now x db) = projects db"
  by (cases x) (auto simp: insert_membership_def set_membership_def split: option.split)

lemma add_memberships_inv:
  assumes "db_inv db" "p \<in> set (projects db)" "p_id p = pid" "p_tenant_id p = tenant"
    "role \<noteq> Owner"
  shows "db_inv (fold (add_membership tenant pid role actor now) xs db)"
proof -
  have "db_inv (fold (add_membership tenant pid role actor now) xs db) \<and>
        projects (fold (add_membership tenant pid role actor now) xs db) = projects db"
    by (rule fold_invariant_state)
       (use assms in \<open>auto intro!: add_membership_inv [where p = p]\<close>)
  then show ?thesis ..
qed

section \<open>Changing and removing members\<close>

lemma membership_by_id_Some:
  "membership_by_id db pid mid tenant = Some row \<Longrightarrow>
     row \<in> set (memberships db) \<and> m_id row = mid \<and> m_project_id row = pid \<and> m_tenant_id row = tenant"
  by (auto simp: membership_by_id_def dest: first_where_Some)

lemma member_eq:
  "db_inv db \<Longrightarrow> m \<in> set (memberships db) \<Longrightarrow> k \<in> set (memberships db) \<Longrightarrow> m_id m = m_id k \<Longrightarrow> m = k"
  using distinct_key_eq [OF wf_idsD(2) [OF db_invD(1)]] .

text \<open>The owners of a project after one of its members got another role.\<close>

lemma owner_count_set_role:
  assumes inv: "db_inv db" and row: "row \<in> set (memberships db)"
  shows "owner_count (set_membership (m_id row) (\<lambda>m. m\<lparr>m_role := role, m_updated_at := now\<rparr>) db) q
           + (if m_project_id row = q \<and> m_role row = Owner then 1 else 0)
       = owner_count db q + (if m_project_id row = q \<and> role = Owner then 1 else 0)"
  using count_where_upd_key [OF wf_idsD(2) [OF db_invD(1) [OF inv]] row refl,
      where P = "\<lambda>m. m_project_id m = q \<and> m_role m = Owner" and
        f = "\<lambda>m. m\<lparr>m_role := role, m_updated_at := now\<rparr>"]
  by (simp add: owner_count_def set_membership_def)

lemma set_role_inv:
  assumes inv: "db_inv db" and row: "row \<in> set (memberships db)"
    and user: "role = Owner \<Longrightarrow> m_principal_type row = User"
    and last: "m_role row = Owner \<Longrightarrow> role \<noteq> Owner \<Longrightarrow> owner_count db (m_project_id row) \<noteq> 1"
  shows "db_inv (set_membership (m_id row) (\<lambda>m. m\<lparr>m_role := role, m_updated_at := now\<rparr>) db)"
    (is "db_inv ?db")
proof (rule set_membership_inv [OF inv])
  show "m_principal_type m = User"
    if "m \<in> set (memberships db)" "m_id m = m_id row"
      "m_role (m\<lparr>m_role := role, m_updated_at := now\<rparr>) = Owner" for m
    using member_eq [OF inv that(1) row that(2)] that(3) user by simp
  show "0 < owner_count ?db (p_id p)" if "p \<in> set (projects db)" for p
  proof -
    have "0 < owner_count db (p_id p)"
      using db_invD(9) [OF inv] that by (simp add: owners_ok_def)
    then show ?thesis using owner_count_set_role [OF inv row, of now role "p_id p"] last
      by (auto split: if_splits)
  qed
qed (simp_all add: member_key_def)

lemma update_membership_inv:
  assumes "db_inv db" "update_membership db pid mid tenant role actor now = Inr (db', x)"
  shows "db_inv db'"
  using assms(2)
  by (auto simp: update_membership_def Let_def split: option.splits if_splits
      intro!: audit_inv set_role_inv [OF assms(1)] dest: membership_by_id_Some)

lemma remove_membership_inv:
  assumes inv: "db_inv db" and r: "remove_membership db pid mid tenant actor now = Inr (db', x)"
  shows "db_inv db'"
proof -
  from r obtain row where row: "row \<in> set (memberships db)" "m_project_id row = pid"
    and last: "m_role row = Owner \<Longrightarrow> owner_count db pid \<noteq> 1"
    and db': "db' = audit pid actor ''access.membership_removed'' now
       [(''targetName'', Some (m_display_name row)), (''role'', Some (role_name (m_role row)))]
       (db\<lparr>memberships := del_where (\<lambda>m. m_id m = m_id row) (memberships db)\<rparr>)"
    by (auto simp: remove_membership_def split: option.splits if_splits dest: membership_by_id_Some)
  let ?db = "db\<lparr>memberships := del_where (\<lambda>m. m_id m = m_id row) (memberships db)\<rparr>"
  have "db_inv ?db"
  proof (rule members_inv [OF inv])
    have count: "owner_count ?db q + (if m_project_id row = q \<and> m_role row = Owner then 1 else 0)
        = owner_count db q" for q
      using count_where_del_key [OF wf_idsD(2) [OF db_invD(1) [OF inv]] row(1),
          where P = "\<lambda>m. m_project_id m = q \<and> m_role m = Owner"]
      by (simp add: owner_count_def)
    have "0 < owner_count ?db (p_id p)" if "p \<in> set (projects db)" for p
    proof -
      have "0 < owner_count db (p_id p)" using db_invD(9) [OF inv] that by (simp add: owners_ok_def)
      then show ?thesis using count [of "p_id p"] last row(2) by (auto split: if_splits)
    qed
    then show "owners_ok ?db" using db_invD(9) [OF inv]
      by (simp add: owners_ok_def set_del_where distinct_map_del_where)
  qed (use db_invD(1,2) [OF inv] in \<open>auto simp: wf_ids_def wf_refs_def set_del_where intro: fresh_table_del\<close>)
  then show ?thesis by (simp add: db' audit_inv)
qed

section \<open>Access requests\<close>

lemma create_access_request_inv:
  assumes inv: "db_inv db"
    and r: "create_access_request db pid tenant requester name note now = Inr (db', x)"
  shows "db_inv db'"
proof -
  have new: "db_inv (db\<lparr>access_requests := access_requests db @ [row], next_id := Suc (next_id db)\<rparr>)"
    if "r_id row = next_id db" "p \<in> set (projects db)" "p_id p = r_project_id row"
      "p_tenant_id p = r_tenant_id row" for row p
  proof (rule requests_inv [OF inv])
    show "fresh_table r_id (access_requests db @ [row]) (Suc (next_id db))"
      using db_invD(1) [OF inv] by (auto simp: wf_ids_def that(1) intro: fresh_table_append)
    have "(r_project_id row, r_tenant_id row) \<in> (\<lambda>p. (p_id p, p_tenant_id p)) ` set (projects db)"
      using that(2-) by (metis (mono_tags, lifting) image_eqI)
    then show "(\<lambda>r. (r_project_id r, r_tenant_id r)) ` set (access_requests db @ [row])
        \<subseteq> (\<lambda>p. (p_id p, p_tenant_id p)) ` set (projects db)"
      using db_invD(2) [OF inv] by (simp add: wf_refs_def)
  qed simp
  show ?thesis using r inv
    by (auto simp: create_access_request_def Let_def split: option.splits
        dest!: first_where_Some intro!: audit_inv new)
qed

lemma grant_role_inv:
  assumes inv: "db_inv db" and p: "p \<in> set (projects db)" "p_id p = pid" "p_tenant_id p = tenant"
    and role: "role \<noteq> Owner"
  shows "db_inv (grant_role row pid tenant role actor now db)"
  using inv role
  by (auto simp: grant_role_def split: option.split
      intro!: set_role_inv insert_membership_inv [OF inv p] dest: find_membership_Some)

lemma set_request_frame [simp]:
  "projects (set_request rid f db) = projects db"
  "memberships (set_request rid f db) = memberships db"
  by (simp_all add: set_request_def)

lemma decide_access_request_inv:
  assumes inv: "db_inv db" and p: "p \<in> set (projects db)" "p_id p = pid" "p_tenant_id p = tenant"
    and role: "role \<noteq> Some Owner"
    and r: "decide_access_request db pid rid tenant decision role actor now = Inr (db', x)"
  shows "db_inv db'"
proof -
  have "db_inv (grant_role row pid tenant new_role actor now (set_request k f db))"
    if "new_role \<noteq> Owner" "\<And>r. r_id (f r) = r_id r" "\<And>r. r_project_id (f r) = r_project_id r"
      "\<And>r. r_tenant_id (f r) = r_tenant_id r" for row new_role k f
    by (rule grant_role_inv [where p = p]) (simp_all add: p that set_request_inv [OF inv])
  then show ?thesis using r inv role
    by (auto simp: decide_access_request_def Let_def split: option.splits if_splits
        intro!: audit_inv set_request_inv)
qed

lemma cancel_access_request_inv:
  "db_inv db \<Longrightarrow> cancel_access_request db pid rid tenant requester now = Inr (db', x) \<Longrightarrow> db_inv db'"
  by (auto simp: cancel_access_request_def split: option.splits if_splits
      intro!: audit_inv set_request_inv)

end
