(* ===== verification/Registry_Steps.thy ===== *)
theory Registry_Steps
  imports Access_Preserve
begin

text \<open>
  The registry as a transition system: one rule per operation that the API runs in a committed
  transaction. An operation that raises rolls its transaction back and makes no step. The
  invariants hold after every step, and no step touches a running job or the content of a
  snapshot that is not editable.
\<close>

section \<open>The steps of the API\<close>

text \<open>
  The roles that \<open>AddMembershipsRequest\<close> and \<open>DecideAccessRequest\<close> accept are
  viewer, contributor and manager (\<open>app/models/project.py\<close>), hence the side conditions.
\<close>

inductive api_step :: "repo_db \<Rightarrow> repo_db \<Rightarrow> bool" where
  tenants: "api_step db (ensure_tenants db tids now)"
| create_project: "create_project db name description subject username tenant key now = Inr (db', p)
    \<Longrightarrow> api_step db db'"
| archive: "archive db pid subject now = Inr (db', p) \<Longrightarrow> api_step db db'"
| restore: "restore db pid subject days now = Inr (db', p) \<Longrightarrow> api_step db db'"
| purge: "purge_expired db pid subject days now = Inr (db', u) \<Longrightarrow> api_step db db'"
| open_upload: "create_upload_session db ttl pid ds subject key now = Inr (db', u)
    \<Longrightarrow> api_step db db'"
| upload_part: "mark_part_uploaded db part_id path sz = Inr (db', u) \<Longrightarrow> api_step db db'"
| finalize: "finalize_upload db pid sid stored subject key now = (db', r) \<Longrightarrow> api_step db db'"
| delete_file: "delete_file db pid fid subject now = Inr (db', u) \<Longrightarrow> api_step db db'"
| expire_uploads: "cleanup_expired_uploads db now = (db', paths) \<Longrightarrow> api_step db db'"
| submit: "submit_build db pid subject key now = Inr (db', j) \<Longrightarrow> api_step db db'"
| add_members: "add_memberships db pid tenant prins role actor now = Inr (db', ms) \<Longrightarrow>
    role \<noteq> Owner \<Longrightarrow> api_step db db'"
| change_role: "update_membership db pid mid tenant role actor now = Inr (db', m) \<Longrightarrow> api_step db db'"
| remove_member: "remove_membership db pid mid tenant actor now = Inr (db', u) \<Longrightarrow> api_step db db'"
| request_access: "create_access_request db pid tenant requester rname note now = Inr (db', r) \<Longrightarrow>
    api_step db db'"
| decide: "decide_access_request db pid rid tenant decision role actor now = Inr (db', r) \<Longrightarrow>
    role \<noteq> Some Owner \<Longrightarrow> api_step db db'"
| cancel: "cancel_access_request db pid rid tenant requester now = Inr (db', u) \<Longrightarrow> api_step db db'"

section \<open>Each operation keeps the invariants\<close>

lemma create_project_inv:
  "create_project db name description subject username tenant key now = Inr (db', p) \<Longrightarrow>
     db_inv db \<Longrightarrow> db_inv db'"
  by (auto simp: create_project_def create_project_txn_def Let_def create_project_commit_inv
      split: option.splits sum.splits if_splits)

lemma archive_inv: "archive db pid subject now = Inr (db', p) \<Longrightarrow> db_inv db \<Longrightarrow> db_inv db'"
  by (auto simp: archive_def Let_def split: option.splits sum.splits if_splits
      dest!: project_for_update_Some intro: archive_commit_inv)

lemma restore_inv: "restore db pid subject days now = Inr (db', p) \<Longrightarrow> db_inv db \<Longrightarrow> db_inv db'"
  by (auto simp: restore_def Let_def split: option.splits sum.splits if_splits
      dest!: project_for_update_Some intro: restore_commit_inv)

lemma purge_expired_inv:
  "purge_expired db pid subject days now = Inr (db', u) \<Longrightarrow> db_inv db \<Longrightarrow> db_inv db'"
  by (auto simp: purge_expired_def split: option.splits if_splits intro: purge_commit_inv)

lemma create_upload_session_inv:
  "create_upload_session db ttl pid ds subject key now = Inr (db', u) \<Longrightarrow> db_inv db \<Longrightarrow> db_inv db'"
  by (auto simp: create_upload_session_def create_upload_session_txn_def Let_def
      split: option.splits sum.splits if_splits dest!: draft_Some
      intro: create_upload_session_commit_inv)

lemma finalize_upload_txn_inv:
  assumes ok: "finalize_upload_txn db pid sid stored subject key now = Inr db'" and inv: "db_inv db"
  shows "db_inv db'"
proof -
  from ok obtain u p db1 where
    u: "u \<in> set (upload_sessions db)" "u_project_id u = pid"
    and p: "p \<in> set (projects db)" "p_id p = pid"
    and loop: "fold_raise (finalize_part pid (u_snapshot_id u) (map_of (rev stored)) now)
      (session_parts db sid) db = Inr db1"
    and db': "db' = finalize_commit db1 pid sid subject key now"
    by (auto simp: finalize_upload_txn_def split: option.splits sum.splits if_splits
        dest!: project_for_update_Some dest: first_where_Some)
  have "(u_snapshot_id u, pid) \<in> snapshot_keys (snapshots db)"
    using db_invD(2) [OF inv] u by (auto simp: wf_refs_def)
  from finalize_parts_inv [OF inv this loop] have "db_inv db1" "projects db1 = projects db" by auto
  with finalize_commit_inv [of db1 p] show ?thesis by (simp add: db' p)
qed

lemma finalize_upload_inv:
  "finalize_upload db pid sid stored subject key now = (db', r) \<Longrightarrow> db_inv db \<Longrightarrow> db_inv db'"
  by (auto simp: finalize_upload_def split: option.splits sum.splits intro: finalize_upload_txn_inv)

lemma delete_file_inv:
  assumes "delete_file db pid fid subject now = Inr (db', u)" "db_inv db"
  shows "db_inv db'"
proof -
  from assms(1) obtain p P where p: "p \<in> set (projects db)" "p_id p = pid"
    and db': "db' = audit pid subject ''draft.file_deleted'' now []
      (set_project pid (\<lambda>p. p\<lparr>p_updated_at := now\<rparr>)
        (db\<lparr>snapshot_files := del_where P (snapshot_files db)\<rparr>))"
    by (auto simp: delete_file_def Let_def split: option.splits if_splits
        dest!: project_for_update_Some)
  from delete_files_inv [OF assms(2), of P] p(1) show ?thesis
    unfolding db' p(2) [symmetric] by (intro audit_inv touch_project_inv) simp_all
qed

lemma submit_build_inv:
  "submit_build db pid subject key now = Inr (db', j) \<Longrightarrow> db_inv db \<Longrightarrow> db_inv db'"
  by (auto simp: submit_build_def submit_build_txn_def Let_def
      split: option.splits sum.splits if_splits dest!: draft_Some project_for_update_Some
      intro!: submit_build_commit_inv)

lemma add_memberships_op_inv:
  "add_memberships db pid tenant prins role actor now = Inr (db', ms) \<Longrightarrow> role \<noteq> Owner \<Longrightarrow>
     db_inv db \<Longrightarrow> db_inv db'"
  by (auto simp: add_memberships_def Let_def split: option.splits if_splits
      dest!: project_for_update_Some intro!: add_memberships_inv)

lemma decide_access_request_op_inv:
  assumes ok: "decide_access_request db pid rid tenant decision role actor now = Inr (db', r)"
    and role: "role \<noteq> Some Owner" and inv: "db_inv db"
  shows "db_inv db'"
proof -
  from ok obtain row where row: "row \<in> set (access_requests db)" "r_project_id row = pid"
      "r_tenant_id row = tenant"
    by (auto simp: decide_access_request_def split: option.splits dest: first_where_Some)
  then have "(pid, tenant) \<in> (\<lambda>p. (p_id p, p_tenant_id p)) ` set (projects db)"
    using db_invD(2) [OF inv] by (auto simp: wf_refs_def)
  then obtain p where "p \<in> set (projects db)" "p_id p = pid" "p_tenant_id p = tenant"
    by blast
  from decide_access_request_inv [OF inv this role ok] show ?thesis .
qed

theorem api_step_inv: "api_step db db' \<Longrightarrow> db_inv db \<Longrightarrow> db_inv db'"
proof (induction rule: api_step.induct)
  case (upload_part db part_id path sz db' u)
  then show ?case by (blast intro: mark_part_uploaded_inv)
next
  case (expire_uploads db now db' paths)
  then show ?case using cleanup_expired_uploads_inv [of db now] by simp
next
  case (change_role db pid mid tenant role actor now db' m)
  then show ?case by (blast intro: update_membership_inv)
next
  case (remove_member db pid mid tenant actor now db' u)
  then show ?case by (blast intro: remove_membership_inv)
next
  case (request_access db pid tenant requester rname memo now db' r)
  then show ?case by (blast intro: create_access_request_inv)
next
  case (cancel db pid rid tenant requester now db' u)
  then show ?case by (blast intro: cancel_access_request_inv)
qed (blast intro: ensure_tenants_inv create_project_inv archive_inv restore_inv purge_expired_inv
    create_upload_session_inv finalize_upload_inv delete_file_inv submit_build_inv
    add_memberships_op_inv decide_access_request_op_inv)+

section \<open>Running jobs belong to the worker\<close>

definition building_jobs :: "repo_db \<Rightarrow> build_job_row list" where
  "building_jobs db = filter (\<lambda>j. j_status j = BBuilding) (build_jobs db)"

lemma ensure_tenants_frame [simp]:
  "build_jobs (ensure_tenants db tids now) = build_jobs db"
  "snapshots (ensure_tenants db tids now) = snapshots db"
  "snapshot_files (ensure_tenants db tids now) = snapshot_files db"
  unfolding ensure_tenants_def by (induction tids arbitrary: db) (simp_all add: ensure_tenant_def)

lemma add_memberships_frame [simp]:
  "build_jobs (fold (add_membership tenant pid role actor now) xs db) = build_jobs db"
  "snapshots (fold (add_membership tenant pid role actor now) xs db) = snapshots db"
  "snapshot_files (fold (add_membership tenant pid role actor now) xs db) = snapshot_files db"
  by (induction xs arbitrary: db)
     (auto simp: insert_membership_def set_membership_def split: option.split)

lemma grant_role_frame [simp]:
  "build_jobs (grant_role row pid tenant role actor now db) = build_jobs db"
  "snapshots (grant_role row pid tenant role actor now db) = snapshots db"
  "snapshot_files (grant_role row pid tenant role actor now db) = snapshot_files db"
  by (auto simp: grant_role_def insert_membership_def set_membership_def split: option.split)

lemma set_request_tables [simp]:
  "build_jobs (set_request rid f db) = build_jobs db"
  "snapshots (set_request rid f db) = snapshots db"
  "snapshot_files (set_request rid f db) = snapshot_files db"
  by (simp_all add: set_request_def)

lemma set_membership_tables [simp]:
  "build_jobs (set_membership mid f db) = build_jobs db"
  "snapshots (set_membership mid f db) = snapshots db"
  "snapshot_files (set_membership mid f db) = snapshot_files db"
  by (simp_all add: set_membership_def)

lemma finalize_loop_tables:
  assumes "fold_raise (finalize_part pid snap paths now) parts db = Inr db'"
  shows "build_jobs db' = build_jobs db \<and> snapshots db' = snapshots db"
  by (rule fold_raise_invariant [OF assms, where
        I = "\<lambda>x. build_jobs x = build_jobs db \<and> snapshots x = snapshots db"])
     (auto simp: finalize_part_def insert_blob_def Let_def split: option.splits if_splits)

text \<open>The operations that touch neither jobs, nor snapshots, nor the files of snapshots.\<close>

lemmas quiet_defs = archive_def archive_commit_def restore_def restore_commit_def
  mark_part_uploaded_def cleanup_expired_uploads_def
  add_memberships_def update_membership_def remove_membership_def create_access_request_def
  decide_access_request_def cancel_access_request_def

lemma quiet_tables:
  "archive db pid subject now = Inr (db', p) \<Longrightarrow> build_jobs db' = build_jobs db \<and>
     snapshots db' = snapshots db \<and> snapshot_files db' = snapshot_files db"
  "restore db pid subject days now = Inr (db', p) \<Longrightarrow> build_jobs db' = build_jobs db \<and>
     snapshots db' = snapshots db \<and> snapshot_files db' = snapshot_files db"
  "mark_part_uploaded db part_id path sz = Inr (db', u) \<Longrightarrow> build_jobs db' = build_jobs db \<and>
     snapshots db' = snapshots db \<and> snapshot_files db' = snapshot_files db"
  "cleanup_expired_uploads db now = (db', paths) \<Longrightarrow> build_jobs db' = build_jobs db \<and>
     snapshots db' = snapshots db \<and> snapshot_files db' = snapshot_files db"
  "create_upload_session db ttl pid ds subject key now = Inr (db', us) \<Longrightarrow>
     build_jobs db' = build_jobs db \<and>
     snapshots db' = snapshots db \<and> snapshot_files db' = snapshot_files db"
  "add_memberships db pid tenant prins role actor now = Inr (db', ms) \<Longrightarrow>
     build_jobs db' = build_jobs db \<and>
     snapshots db' = snapshots db \<and> snapshot_files db' = snapshot_files db"
  "update_membership db pid mid tenant role actor now = Inr (db', m) \<Longrightarrow>
     build_jobs db' = build_jobs db \<and>
     snapshots db' = snapshots db \<and> snapshot_files db' = snapshot_files db"
  "remove_membership db pid mid tenant actor now = Inr (db', u) \<Longrightarrow> build_jobs db' = build_jobs db \<and>
     snapshots db' = snapshots db \<and> snapshot_files db' = snapshot_files db"
  "create_access_request db pid tenant requester rname note now = Inr (db', r) \<Longrightarrow>
     build_jobs db' = build_jobs db \<and>
     snapshots db' = snapshots db \<and> snapshot_files db' = snapshot_files db"
  "decide_access_request db pid rid tenant decision drole actor now = Inr (db', r) \<Longrightarrow>
     build_jobs db' = build_jobs db \<and>
     snapshots db' = snapshots db \<and> snapshot_files db' = snapshot_files db"
  "cancel_access_request db pid rid tenant requester now = Inr (db', u) \<Longrightarrow>
     build_jobs db' = build_jobs db \<and>
     snapshots db' = snapshots db \<and> snapshot_files db' = snapshot_files db"
  by (auto simp: quiet_defs create_upload_session_def create_upload_session_txn_def
      create_upload_session_commit_def Let_def split: option.splits sum.splits if_splits)


lemma submit_build_cases:
  assumes "submit_build db pid subject key now = Inr (db', j)"
  obtains (replay) "db' = db"
  | (new) p d where "p \<in> set (projects db)" "p_id p = pid" "\<not> not_editable p"
      "d \<in> set (snapshots db)" "s_project_id d = pid" "s_status d = Editable"
      "open_upload_count db pid (s_id d) = 0"
      "db' = submit_build_commit db p d subject key now"
proof (cases "idempotent_resource db subject (OpSubmitBuild pid) key")
  case None
  with assms have "submit_build_txn db pid subject key now = Inr (db', j)"
    by (simp add: submit_build_def)
  note txn = this [unfolded submit_build_txn_def Let_def]
  obtain p where p: "project_for_update db pid = Some p"
    using txn by (cases "project_for_update db pid") simp_all
  have ne: "\<not> not_editable p" using txn by (cases "not_editable p") (simp_all add: p)
  obtain d where d: "draft db pid = Some d"
    using txn by (cases "draft db pid") (simp_all add: p ne)
  have none_open: "open_upload_count db pid (s_id d) = 0"
    using txn by (cases "open_upload_count db pid (s_id d) = 0") (simp_all add: p ne d)
  have "db' = submit_build_commit db p d subject key now"
    using txn
    by (simp add: p ne d none_open split: if_split_asm sum.split_asm)
  with p ne d none_open show ?thesis
    by (meson new draft_Some project_for_update_Some)
next
  case (Some prior)
  with assms replay show ?thesis by (auto simp: submit_build_def split: sum.splits)
qed

lemma purge_expired_cases:
  assumes "purge_expired db pid subject days now = Inr (db', u)"
  obtains p where "p \<in> set (projects db)" "p_id p = pid" "p_state p = Archived"
    "db' = purge_commit db pid subject now"
  using assms
  by (auto simp: purge_expired_def split: option.splits if_splits dest!: project_for_update_Some)

lemma finalize_upload_cases:
  assumes "finalize_upload db pid sid stored subject key now = (db', r)"
  obtains (same) "db' = db"
  | (new) u p db1 where "u \<in> set (upload_sessions db)" "u_id u = sid" "u_project_id u = pid"
      "u_state u = UOpen" "now < u_expires_at u" "p \<in> set (projects db)" "p_id p = pid"
      "\<not> not_editable p"
      "fold_raise (finalize_part pid (u_snapshot_id u) (map_of (rev stored)) now)
         (session_parts db sid) db = Inr db1"
      "db' = finalize_commit db1 pid sid subject key now"
  using assms
  by (auto simp: finalize_upload_def finalize_upload_txn_def
      split: option.splits sum.splits if_splits
      dest!: project_for_update_Some first_where_Some)

lemma finalize_commit_frame [simp]:
  "build_jobs (finalize_commit db pid sid subject key now) = build_jobs db"
  "snapshots (finalize_commit db pid sid subject key now) = snapshots db"
  "snapshot_files (finalize_commit db pid sid subject key now) = snapshot_files db"
  by (simp_all add: finalize_commit_def)

text \<open>No job of an archived project is active.\<close>

lemma archived_idle:
  assumes inv: "db_inv db" and p: "p \<in> set (projects db)" "p_state p = Archived"
    and j: "j \<in> set (build_jobs db)" "j_project_id j = p_id p"
  shows "\<not> job_active j"
proof
  assume "job_active j"
  then show False
    using queued_job_state [OF db_invD(3) [OF inv] j(1) _ p(1)]
      building_job_state [OF db_invD(3) [OF inv] j(1) _ p(1)] j(2) p(2)
    by (auto simp: job_active_def)
qed

lemma create_project_cases:
  assumes "create_project db name description subject username tenant key now = Inr (db', p)"
  obtains (replay) "db' = db"
  | (new) "db' = create_project_commit db name description subject username tenant key now"
  using assms
  by (auto simp: create_project_def create_project_txn_def Let_def
      split: option.splits sum.splits if_splits)

lemma delete_file_cases:
  assumes "delete_file db pid fid subject now = Inr (db', u)"
  obtains d where "d \<in> set (snapshots db)" "s_project_id d = pid" "s_status d = Editable"
    "build_jobs db' = build_jobs db" "snapshots db' = snapshots db"
    "snapshot_files db' =
       del_where (\<lambda>f. f_id f = fid \<and> f_snapshot_id f = s_id d) (snapshot_files db)"
  using assms
  by (auto simp: delete_file_def Let_def split: option.splits if_splits dest!: draft_Some)

lemma api_step_building:
  "api_step db db' \<Longrightarrow> db_inv db \<Longrightarrow> building_jobs db' = building_jobs db"
proof (induction rule: api_step.induct)
  case (create_project db name description subject username tenant key now db' p)
  then show ?case by (auto simp: building_jobs_def elim: create_project_cases)
next
  case (purge db pid subject days now db' u)
  from purge.hyps obtain p where p: "p \<in> set (projects db)" "p_id p = pid" "p_state p = Archived"
    "db' = purge_commit db pid subject now"
    by (rule purge_expired_cases)
  have "(j_snapshot_id j \<in> set (project_snapshot_ids db pid)) = (j_project_id j = pid)"
    if "j \<in> set (build_jobs db)" for j
  proof -
    have "(j_snapshot_id j, j_project_id j) \<in> snapshot_keys (snapshots db)"
      using db_invD(2) [OF purge.prems] that by (auto simp: wf_refs_def)
    then show ?thesis by (rule project_snapshot_ids_iff [OF db_invD(1) [OF purge.prems]])
  qed
  moreover have "j_status j \<noteq> BBuilding" if "j \<in> set (build_jobs db)" "j_project_id j = pid" for j
    using archived_idle [OF purge.prems p(1,3) that(1)] that(2) p(2) by (auto simp: job_active_def)
  ultimately show ?case
    by (auto simp: building_jobs_def p(4) purge_tables(8) del_where_def intro!: filter_cong)
next
  case (finalize db pid sid stored subject key now db' r)
  from finalize.hyps show ?case
    by (cases rule: finalize_upload_cases)
       (auto simp: building_jobs_def dest!: finalize_loop_tables)
next
  case (delete_file db pid fid subject now db' u)
  then show ?case by (auto simp: building_jobs_def elim: delete_file_cases)
next
  case (submit db pid subject key now db' j)
  from submit.hyps show ?case by (cases rule: submit_build_cases) (auto simp: building_jobs_def)
qed (auto simp: building_jobs_def dest!: quiet_tables)

section \<open>The content of a snapshot that is not editable\<close>

definition file_content :: "snapshot_file_row \<Rightarrow> string \<times> string \<times> int \<times> string" where
  "file_content f = (f_logical_filename f, f_media_type f, f_size f, f_sha256 f)"

definition content_of :: "snapshot_file_row list \<Rightarrow> ident \<Rightarrow> (string \<times> string \<times> int \<times> string) list"
where
  "content_of fs sid = map file_content (filter (\<lambda>f. f_snapshot_id f = sid) fs)"

lemma content_of_upd:
  assumes "\<And>f. file_content (g f) = file_content f" "\<And>f. f_snapshot_id (g f) = f_snapshot_id f"
  shows "content_of (upd_where P g fs) sid = content_of fs sid"
  by (induction fs) (simp_all add: content_of_def upd_where_def assms)

lemma content_of_del:
  assumes "\<And>f. f \<in> set fs \<Longrightarrow> P f \<Longrightarrow> f_snapshot_id f \<noteq> sid"
  shows "content_of (del_where P fs) sid = content_of fs sid"
  using assms by (induction fs) (auto simp: content_of_def del_where_def)

lemma content_of_append [simp]:
  "content_of (fs @ gs) sid = content_of fs sid @ content_of gs sid"
  by (simp add: content_of_def)

lemma lifecycle_content [simp]: "file_content (lifecycle_values st n f) = file_content f"
  by (simp add: file_content_def lifecycle_values_def)

text \<open>The loop of \<open>finalize_upload\<close> writes to the files of its snapshot only.\<close>

lemma finalize_loop_content:
  assumes "fold_raise (finalize_part pid snap paths now) parts db = Inr db'" "sid \<noteq> snap"
  shows "content_of (snapshot_files db') sid = content_of (snapshot_files db) sid"
proof (rule fold_raise_invariant [OF assms(1), where
      I = "\<lambda>x. content_of (snapshot_files x) sid = content_of (snapshot_files db) sid"])
  fix part d d'
  assume d: "content_of (snapshot_files d) sid = content_of (snapshot_files db) sid"
    and step: "finalize_part pid snap paths now part d = Inr d'"
  have "content_of (del_where (\<lambda>f. f_snapshot_id f = snap \<and> f_logical_filename f = name) fs) sid
      = content_of fs sid" for name fs
    by (rule content_of_del) (use assms(2) in auto)
  then show "content_of (snapshot_files d') sid = content_of (snapshot_files db) sid"
    using d step assms(2)
    by (auto simp: finalize_part_def Let_def insert_blob_def content_of_def
        split: option.splits if_splits)
qed simp

theorem api_step_content:
  assumes "api_step db db'" "db_inv db" "s \<in> set (snapshots db)" "s_status s \<noteq> Editable"
    and "s_id s \<in> s_id ` set (snapshots db')"
  shows "content_of (snapshot_files db') (s_id s) = content_of (snapshot_files db) (s_id s)"
  using assms
proof (induction rule: api_step.induct)
  case (create_project db name description subject username tenant key now db' p)
  from create_project.hyps show ?case by (cases rule: create_project_cases) auto
next
  case (purge db pid subject days now db' u)
  from purge.hyps obtain p where p: "p \<in> set (projects db)" "p_id p = pid" "p_state p = Archived"
    "db' = purge_commit db pid subject now"
    by (rule purge_expired_cases)
  note ids = db_invD(1) [OF purge.prems(1)]
  obtain t where t: "t \<in> set (snapshots db)" "s_id t = s_id s" "s_project_id t \<noteq> pid"
    using purge.prems(4) by (auto simp: p(4) purge_tables(4) set_del_where)
  have "s_project_id s \<noteq> pid" using snapshot_eq [OF ids t(1) purge.prems(2) t(2)] t(3) by simp
  then have "s_id s \<notin> set (project_snapshot_ids db pid)"
    using project_snapshot_ids_iff [OF ids snapshot_keysI [OF purge.prems(2)]] by simp
  then show ?case by (auto simp: p(4) purge_tables(6) intro!: content_of_del)
next
  case (finalize db pid sid stored subject key now db' r)
  from finalize.hyps show ?case
  proof (cases rule: finalize_upload_cases)
    case (new u p db1)
    have "s_id s \<noteq> u_snapshot_id u"
      using uploads_okD [OF db_invD(6) [OF finalize.prems(1)] new(1,4) finalize.prems(2)]
        finalize.prems(3) by blast
    then show ?thesis using finalize_loop_content [OF new(9)] new(10) by simp
  qed simp
next
  case (delete_file db pid fid subject now db' u)
  from delete_file.hyps obtain d where d: "d \<in> set (snapshots db)" "s_status d = Editable"
    "snapshot_files db' =
       del_where (\<lambda>f. f_id f = fid \<and> f_snapshot_id f = s_id d) (snapshot_files db)"
    by (rule delete_file_cases)
  have "s_id s \<noteq> s_id d"
    using snapshot_eq [OF db_invD(1) [OF delete_file.prems(1)] delete_file.prems(2) d(1)]
      d(2) delete_file.prems(3) by auto
  then show ?case by (auto simp: d(3) intro!: content_of_del)
next
  case (submit db pid subject key now db' j)
  from submit.hyps show ?case
  proof (cases rule: submit_build_cases)
    case (new p d)
    then show ?thesis by (simp add: content_of_upd lifecycle_values_def file_content_def)
  qed simp
qed (auto dest!: quiet_tables)

end
