(* ===== verification/Build_Worker.thy ===== *)
theory Build_Worker
  imports Registry_Steps
begin

text \<open>
  The build worker (\<open>KnowledgeWorker\<close> in \<open>app/projects/worker.py\<close>): one process that claims
  a job, copies the files of its snapshot into a build directory, hands them to the graph
  builder, publishes the version directory and completes the job, or fails it with an error
  code. The graph builder (\<open>KnowledgeIngestionService\<close>, \<open>SourceIndex\<close>) is a parameter.
\<close>

section \<open>Error codes\<close>

text \<open>\<open>needle in message\<close>.\<close>

definition has_substring :: "string \<Rightarrow> string \<Rightarrow> bool" where
  "has_substring needle message \<longleftrightarrow>
     list_ex (\<lambda>n. take (length needle) (drop n message) = needle) [0..<length message + 1]"

definition passthrough_error_codes :: "string list" where
  "passthrough_error_codes =
     [''graphify_build_timeout'', ''graphify_build_failed'',
      ''graphify_provider_authentication_failed'', ''graphify_provider_credential_missing'',
      ''graphify_provider_quota_or_rate_limit'',
      ''graphify_provider_model_or_endpoint_not_found'', ''graphify_provider_base_url_invalid'',
      ''graphify_provider_timeout'', ''graphify_provider_connection_failed'',
      ''graph_artifact_missing'', ''graph_artifact_invalid'', ''source_index_build_failed'']"

text \<open>An exception is its message and whether it is a \<open>ValueError\<close>.\<close>

record worker_exception =
  exc_message :: string
  exc_value_error :: bool

definition error_code :: "worker_exception \<Rightarrow> string" where
  "error_code exc =
     (let message = exc_message exc in
      if message \<in> set passthrough_error_codes \<or> take 9 message = ''graphify_'' then message
      else if has_substring ''limit'' message then ''limit_exceeded''
      else if has_substring ''source'' message \<or> has_substring ''document'' message \<or>
              exc_value_error exc then ''source_invalid''
      else ''build_failed'')"

section \<open>The project storage tree\<close>

text \<open>
  What the worker sees of \<open>project_storage_root\<close>: the build directories that exist, with the
  files of \<open>source\<close> when it was made, the published version directories, and the blobs by
  their storage path.
\<close>

record storage_tree =
  build_roots :: "(ident \<times> ident) \<rightharpoonup> (string \<times> string) list"
  version_dirs :: "(ident \<times> string) list"
  blob_files :: "string \<rightharpoonup> string"

text \<open>\<open>shutil.copyfile\<close> of every file of the snapshot; a missing blob raises.\<close>

fun copy_sources ::
  "(string \<rightharpoonup> string) \<Rightarrow> (snapshot_file_row \<times> string) list \<Rightarrow>
     worker_exception + (string \<times> string) list" where
  "copy_sources blob_at [] = Inr []"
| "copy_sources blob_at ((f, path) # items) =
     (case blob_at path of
        None \<Rightarrow> Inl \<lparr>exc_message = ''[Errno 2] No such file or directory: '' @ path, exc_value_error = False\<rparr>
      | Some content \<Rightarrow>
          (case copy_sources blob_at items of
             Inl e \<Rightarrow> Inl e
           | Inr rest \<Rightarrow> Inr ((f_logical_filename f, content) # rest)))"

text \<open>
  \<open>_build\<close>. The builder gets the build and the sources and returns the graph version and the
  number of documents, or raises. The result carries the storage tree, since a raised exception
  leaves the build directory behind.
\<close>

type_synonym graph_builder =
  "build_record \<Rightarrow> (string \<times> string) list \<Rightarrow> worker_exception + string \<times> int"

definition build_version ::
  "graph_builder \<Rightarrow> repo_db \<Rightarrow> storage_tree \<Rightarrow> build_record \<Rightarrow>
     storage_tree \<times> (worker_exception + string \<times> int)" where
  "build_version builder db fs build =
     (let files = snapshot_files_of db (br_snapshot_id build);
          root = (br_project_id build, br_id build)
      in
      if files = []
      then (fs, Inl \<lparr>exc_message = ''empty_snapshot'', exc_value_error = True\<rparr>)
      else if build_roots fs root \<noteq> None
      then (fs, Inl \<lparr>exc_message = ''[Errno 17] File exists: source'', exc_value_error = False\<rparr>)
      else
        (case copy_sources (blob_files fs) files of
           Inl e \<Rightarrow> (fs\<lparr>build_roots := (build_roots fs)(root \<mapsto> [])\<rparr>, Inl e)
         | Inr sources \<Rightarrow>
             let fs1 = fs\<lparr>build_roots := (build_roots fs)(root \<mapsto> sources)\<rparr> in
             (case builder build sources of
                Inl e \<Rightarrow> (fs1, Inl e)
              | Inr (graph_version, count) \<Rightarrow>
                  if (br_project_id build, graph_version) \<in> set (version_dirs fs1)
                  then (fs1, Inl \<lparr>exc_message = ''version_collision'', exc_value_error = False\<rparr>)
                  else
                    (fs1\<lparr>version_dirs := (br_project_id build, graph_version) # version_dirs fs1,
                         build_roots := (build_roots fs1)(root := None)\<rparr>,
                     Inr (graph_version, count)))))"

text \<open>
  The error of \<open>complete_build\<close> as the exception that \<open>_process\<close> catches. The message of a
  \<open>KeyError\<close> is the quoted identifier, a UUID, in which no word of the classification occurs.
\<close>

fun repo_exception :: "repo_error \<Rightarrow> worker_exception" where
  "repo_exception (ProjectConflict m) = \<lparr>exc_message = m, exc_value_error = False\<rparr>"
| "repo_exception (AuthorizationError m) = \<lparr>exc_message = m, exc_value_error = False\<rparr>"
| "repo_exception (IntegrityError m) = \<lparr>exc_message = m, exc_value_error = False\<rparr>"
| "repo_exception (ProjectNotFound _) = \<lparr>exc_message = '''', exc_value_error = False\<rparr>"
| "repo_exception (UploadNotFound _) = \<lparr>exc_message = '''', exc_value_error = False\<rparr>"

text \<open>
  The end of \<open>_process\<close>: \<open>complete_build\<close> on a result, \<open>fail_build\<close> on an exception of the build or of
  \<open>complete_build\<close>. An error of \<open>fail_build\<close> itself is the \<open>Inl\<close> of the result.
\<close>

definition process_result ::
  "repo_db \<Rightarrow> build_record \<Rightarrow> worker_exception + string \<times> int \<Rightarrow> time \<Rightarrow> repo_error + repo_db" where
  "process_result db build r now =
     (case r of
        Inl e \<Rightarrow> fail_build db build (error_code e) now
      | Inr (graph_version, count) \<Rightarrow>
          (case complete_build db build graph_version count now of
             Inr db' \<Rightarrow> Inr db'
           | Inl e \<Rightarrow> fail_build db build (error_code (repo_exception e)) now))"

text \<open>\<open>_process\<close>: after a failure the build directory is removed.\<close>

definition process_build ::
  "graph_builder \<Rightarrow> repo_db \<Rightarrow> storage_tree \<Rightarrow> build_record \<Rightarrow> time \<Rightarrow>
     repo_error + repo_db \<times> storage_tree" where
  "process_build builder db fs build now =
     (let (fs1, r) = build_version builder db fs build;
          cleaned = fs1\<lparr>build_roots := (build_roots fs1)((br_project_id build, br_id build) := None)\<rparr>
      in case process_result db build r now of
           Inl e \<Rightarrow> Inl e
         | Inr db' \<Rightarrow>
             (case r of
                Inl _ \<Rightarrow> Inr (db', cleaned)
              | Inr (graph_version, count) \<Rightarrow>
                  (case complete_build db build graph_version count now of
                     Inr _ \<Rightarrow> Inr (db', fs1)
                   | Inl _ \<Rightarrow> Inr (db', cleaned))))"

section \<open>The system of API and worker\<close>

text \<open>
  The database and the job that the single worker is processing. Between the claim and the end
  of a job the API keeps running; a crash of the worker is its restart, which recovers the
  queue before it claims again.
\<close>

record system =
  sys_db :: repo_db
  sys_worker :: "build_record option"

inductive sys_step :: "system \<Rightarrow> system \<Rightarrow> bool" where
  api: "api_step (sys_db s) db' \<Longrightarrow> sys_step s (s\<lparr>sys_db := db'\<rparr>)"
| claim: "sys_worker s = None \<Longrightarrow> claim_build (sys_db s) worker now = (db', r) \<Longrightarrow>
    sys_step s \<lparr>sys_db = db', sys_worker = r\<rparr>"
| progress: "sys_worker s = Some b \<Longrightarrow>
    sys_step s (s\<lparr>sys_db := update_file_lifecycle (sys_db s) (br_snapshot_id b) phase percent\<rparr>)"
| finish: "sys_worker s = Some b \<Longrightarrow> process_result (sys_db s) b r now = Inr db' \<Longrightarrow>
    sys_step s \<lparr>sys_db = db', sys_worker = None\<rparr>"
| restart: "sys_step s \<lparr>sys_db = recover_builds (sys_db s), sys_worker = None\<rparr>"

inductive_cases sys_stepE: "sys_step s t"

definition initial :: system where
  "initial = \<lparr>sys_db = empty_db, sys_worker = None\<rparr>"

definition reachable :: "system \<Rightarrow> bool" where
  "reachable s \<longleftrightarrow> sys_step\<^sup>*\<^sup>* initial s"

text \<open>The running jobs are exactly the one the worker holds.\<close>

definition worker_ok :: "system \<Rightarrow> bool" where
  "worker_ok s \<longleftrightarrow> map build_record_of (building_jobs (sys_db s)) =
     (case sys_worker s of None \<Rightarrow> [] | Some b \<Rightarrow> [b])"

definition sys_inv :: "system \<Rightarrow> bool" where
  "sys_inv s \<longleftrightarrow> db_inv (sys_db s) \<and> worker_ok s"

section \<open>The invariant of the system\<close>

lemma building_jobs_count:
  "count_where (\<lambda>j. j_status j = BBuilding) (build_jobs db) = length (building_jobs db)"
  by (simp add: building_jobs_def count_where_def)

lemma claim_building_jobs:
  assumes "building_jobs db = []" "row \<in> set (build_jobs db)" "j_status row = BQueued"
    "distinct (map j_id (build_jobs db))"
  shows "map build_record_of (building_jobs (claim_commit db row worker now)) = [build_record_of row]"
proof -
  have "map build_record_of (filter (\<lambda>j. j_status j = BBuilding)
          (upd_where (\<lambda>j. j_id j = j_id row \<and> j_status j = BQueued)
            (\<lambda>j. j\<lparr>j_status := BBuilding, j_started_at := Some now, j_worker_id := Some worker\<rparr>) js))
      = map build_record_of (filter (\<lambda>j. j = row) js)"
    if "set js \<subseteq> set (build_jobs db)" for js
    using that
  proof (induction js)
    case (Cons j js)
    have "j_status j \<noteq> BBuilding" using Cons.prems assms(1)
      by (auto simp: building_jobs_def filter_empty_conv)
    moreover have "j_id j = j_id row \<longleftrightarrow> j = row"
      using distinct_key_eq [OF assms(4) _ assms(2), of j] Cons.prems by auto
    ultimately show ?case using Cons assms(3)
      by (auto simp: upd_where_def build_record_of_def)
  qed (simp add: upd_where_def)
  from this [of "build_jobs db"]
  have "map build_record_of (building_jobs (claim_commit db row worker now))
      = map build_record_of (filter (\<lambda>j. j = row) (build_jobs db))"
    by (simp add: building_jobs_def)
  moreover have "filter (\<lambda>j. j = row) js = (if row \<in> set js then [row] else [])"
    if "distinct js" for js :: "build_job_row list"
    using that by (induction js) auto
  ultimately show ?thesis using assms(2,4) by (simp add: distinct_map)
qed

lemma claim_build_cases:
  assumes "claim_build db worker now = (db', r)"
  obtains (none) "db' = db" "r = None"
  | (claimed) row where "building_jobs db = []" "row \<in> set (build_jobs db)" "j_status row = BQueued"
      "earliest_where (\<lambda>j. j_status j = BQueued) j_created_at (build_jobs db) = Some row"
      "db' = claim_commit db row worker now" "r = Some (build_record_of row)"
proof (cases "building_jobs db = []")
  case idle: True
  show ?thesis
  proof (cases "earliest_where (\<lambda>j. j_status j = BQueued) j_created_at (build_jobs db)")
    case None
    have "db' = db" "r = None"
      using assms by (simp_all add: claim_build_def building_jobs_count idle None)
    then show ?thesis by (rule none)
  next
    case (Some row)
    note row = earliest_where_Some [OF Some]
    then have "count_where (\<lambda>j. j_id j = j_id row \<and> j_status j = BQueued) (build_jobs db) \<noteq> 0"
      by (auto simp: count_where_0)
    then have "db' = claim_commit db row worker now" "r = Some (build_record_of row)"
      using assms by (simp_all add: claim_build_def building_jobs_count idle Some)
    with claimed [OF idle _ _ Some] row show ?thesis by blast
  qed
next
  case False
  have "db' = db" "r = None"
    using assms by (simp_all add: claim_build_def building_jobs_count False)
  then show ?thesis by (rule none)
qed

text \<open>The job of the worker and the rows that \<open>complete_build\<close> and \<open>fail_build\<close> read.\<close>

lemma worker_rows:
  assumes inv: "db_inv db" and ok: "map build_record_of (building_jobs db) = [b]"
  obtains job p snap where "job \<in> set (build_jobs db)" "j_status job = BBuilding"
    "b = build_record_of job" "building_jobs db = [job]"
    "p \<in> set (projects db)" "p_id p = j_project_id job" "p_state p = Building"
    "p_generation p = j_expected_generation job"
    "snap \<in> set (snapshots db)" "s_id snap = j_snapshot_id job" "s_status snap = Sealed"
    "project_for_update db (br_project_id b) = Some p" "get_job db (br_id b) = Some job"
    "get_snapshot db (br_snapshot_id b) = Some snap"
proof -
  note ids = db_invD(1) [OF inv] and refs = db_invD(2) [OF inv]
  from ok obtain job where bj: "building_jobs db = [job]" and b: "b = build_record_of job" by auto
  then have "job \<in> set (building_jobs db)" by simp
  then have job: "job \<in> set (build_jobs db)" "j_status job = BBuilding"
    by (simp_all add: building_jobs_def)
  then have act: "job_active job" by (simp add: job_active_def)
  obtain p where p: "p \<in> set (projects db)" "p_id p = j_project_id job"
    using job_project [OF refs job(1)] .
  obtain s where s: "s \<in> set (snapshots db)" "s_id s = j_snapshot_id job"
    using job_snapshot [OF refs job(1)] by blast
  note dist = wf_idsD [OF ids]
  have 1: "p_state p = Building" using building_job_state [OF db_invD(3) [OF inv] job p] .
  have 2: "p_generation p = j_expected_generation job" "s_status s = Sealed"
    using jobs_okD [OF db_invD(4) [OF inv] job(1) act] p s by simp_all
  have 3: "project_for_update db (br_project_id b) = Some p"
    unfolding project_for_update_def b build_record_of_def
    using first_where_key [OF dist(1) p] by simp
  have 4: "get_job db (br_id b) = Some job"
    unfolding get_job_def b build_record_of_def
    using first_where_key [OF dist(6) job(1)] by simp
  have 5: "get_snapshot db (br_snapshot_id b) = Some s"
    unfolding get_snapshot_def b build_record_of_def
    using first_where_key [OF dist(4) s] by simp
  show ?thesis by (rule that [OF job b bj p 1 2(1) s 2(2) 3 4 5])
qed

text \<open>The worker's completion is never refused.\<close>

lemma complete_build_ok:
  assumes inv: "db_inv db" and ok: "map build_record_of (building_jobs db) = [b]"
  obtains job p snap where "job \<in> set (build_jobs db)" "j_status job = BBuilding"
    "b = build_record_of job" "building_jobs db = [job]"
    "p \<in> set (projects db)" "p_id p = j_project_id job"
    "snap \<in> set (snapshots db)" "s_id snap = j_snapshot_id job" "s_status snap = Sealed"
    "complete_build db b gv n now =
       Inr (complete_build_commit db p job snap (br_requested_by b) gv n now)"
proof (rule worker_rows [OF inv ok])
  fix job p snap
  assume job: "job \<in> set (build_jobs db)" "j_status job = BBuilding" and b: "b = build_record_of job"
    and bj: "building_jobs db = [job]" and p: "p \<in> set (projects db)" "p_id p = j_project_id job"
    and gen: "p_generation p = j_expected_generation job"
    and snap: "snap \<in> set (snapshots db)" "s_id snap = j_snapshot_id job" "s_status snap = Sealed"
    and rows: "project_for_update db (br_project_id b) = Some p" "get_job db (br_id b) = Some job"
      "get_snapshot db (br_snapshot_id b) = Some snap"
  have "complete_build db b gv n now =
      Inr (complete_build_commit db p job snap (br_requested_by b) gv n now)"
    using rows gen job(2) by (simp add: complete_build_def b build_record_of_def)
  with job b bj p snap show ?thesis by (rule that)
qed

lemma fail_build_ok:
  assumes inv: "db_inv db" and ok: "map build_record_of (building_jobs db) = [b]"
  obtains job p snap where "job \<in> set (build_jobs db)" "j_status job = BBuilding"
    "building_jobs db = [job]" "p \<in> set (projects db)" "p_id p = j_project_id job"
    "snap \<in> set (snapshots db)" "s_id snap = j_snapshot_id job"
    "fail_build db b code now = Inr (failed_db db p job snap (br_requested_by b) code now)"
  by (rule worker_rows [OF inv ok]) (use that fail_build_failed_db in blast)

text \<open>After either end no job is running.\<close>

lemma no_building_after:
  assumes "building_jobs db = [job]" "distinct (map j_id (build_jobs db))"
    "build_jobs db' = upd_where (\<lambda>j. j_id j = j_id job) f (build_jobs db)"
    "\<And>j. j_status (f j) \<noteq> BBuilding"
  shows "building_jobs db' = []"
proof -
  have "j_id j = j_id job" if "j \<in> set (build_jobs db)" "j_status j = BBuilding" for j
  proof -
    have "j \<in> set (building_jobs db)" using that by (simp add: building_jobs_def)
    then show ?thesis using assms(1) by simp
  qed
  then show ?thesis
    using assms(4) by (auto simp: building_jobs_def assms(3) filter_empty_conv set_upd_where)
qed

lemma process_result_inv:
  assumes inv: "db_inv db" and ok: "map build_record_of (building_jobs db) = [b]"
    and step: "process_result db b r now = Inr db'"
  shows "db_inv db' \<and> building_jobs db' = []"
proof -
  have fail: ?thesis if "fail_build db b code now = Inr db'" for code
  proof (rule fail_build_ok [OF inv ok, of code now])
    fix job p snap
    assume job: "job \<in> set (build_jobs db)" "j_status job = BBuilding" "building_jobs db = [job]"
      and p: "p \<in> set (projects db)" "p_id p = j_project_id job"
      and snap: "snap \<in> set (snapshots db)" "s_id snap = j_snapshot_id job"
      and res: "fail_build db b code now = Inr (failed_db db p job snap (br_requested_by b) code now)"
    from res that have db': "db' = failed_db db p job snap (br_requested_by b) code now" by simp
    have "db_inv db'"
      unfolding db' using job p snap by (intro failed_db_inv [OF inv]) (simp_all add: job_active_def)
    moreover have "building_jobs db' = []"
      by (rule no_building_after [OF job(3) wf_idsD(6) [OF db_invD(1) [OF inv]]])
         (auto simp: db' failed_db_def)
    ultimately show ?thesis ..
  qed
  show ?thesis
  proof (cases r)
    case (Inl e)
    with step fail show ?thesis by (auto simp: process_result_def)
  next
    case (Inr x)
    obtain gv n where r: "r = Inr (gv, n)" using Inr by (cases x) auto
    show ?thesis
    proof (rule complete_build_ok [OF inv ok, of gv n now])
      fix job p snap
      assume job: "job \<in> set (build_jobs db)" "j_status job = BBuilding" "building_jobs db = [job]"
        and p: "p \<in> set (projects db)" "p_id p = j_project_id job"
        and snap: "snap \<in> set (snapshots db)" "s_id snap = j_snapshot_id job"
        and res: "complete_build db b gv n now =
          Inr (complete_build_commit db p job snap (br_requested_by b) gv n now)"
      from res step have db': "db' = complete_build_commit db p job snap (br_requested_by b) gv n now"
        by (simp add: process_result_def r)
      have "db_inv db'"
        unfolding db' by (rule complete_build_commit_inv [OF inv p(1) job(1,2) p(2) [symmetric] snap])
      moreover have "building_jobs db' = []"
        by (rule no_building_after [OF job(3) wf_idsD(6) [OF db_invD(1) [OF inv]]])
           (auto simp: db')
      ultimately show ?thesis ..
    qed
  qed
qed

theorem sys_step_inv: "sys_step s t \<Longrightarrow> sys_inv s \<Longrightarrow> sys_inv t"
proof (induction rule: sys_step.induct)
  case (api s db')
  then show ?case
    using api_step_inv [OF api.hyps] api_step_building [OF api.hyps]
    by (simp add: sys_inv_def worker_ok_def)
next
  case (claim s worker now db' r)
  then have inv: "db_inv (sys_db s)" and bj: "building_jobs (sys_db s) = []"
    by (simp_all add: sys_inv_def worker_ok_def)
  from claim.hyps(2) show ?case
  proof (cases rule: claim_build_cases)
    case none
    then show ?thesis using inv bj by (simp add: sys_inv_def worker_ok_def)
  next
    case (claimed row)
    have "db_inv db'" unfolding claimed(5)
      using claim_commit_inv [OF inv claimed(2,3)] bj by (simp add: building_jobs_count)
    then show ?thesis
      using claim_building_jobs [OF bj claimed(2,3) wf_idsD(6) [OF db_invD(1) [OF inv]]]
      by (simp add: sys_inv_def worker_ok_def claimed(5,6))
  qed
next
  case (progress s b phase percent)
  then show ?case
    by (simp add: sys_inv_def worker_ok_def update_file_lifecycle_inv)
       (simp add: building_jobs_def update_file_lifecycle_def)
next
  case (finish s b r now db')
  then show ?case
    using process_result_inv [of "sys_db s" b r now db'] by (simp add: sys_inv_def worker_ok_def)
next
  case (restart s)
  then show ?case
    using recover_builds_inv [of "sys_db s"]
    by (auto simp: sys_inv_def worker_ok_def building_jobs_def filter_empty_conv set_upd_where)
qed

theorem reachable_inv: "reachable s \<Longrightarrow> sys_inv s"
  unfolding reachable_def
proof (induction rule: rtranclp_induct)
  case base
  then show ?case
    by (simp add: sys_inv_def worker_ok_def initial_def db_inv_empty)
       (simp add: building_jobs_def empty_db_def)
next
  case (step s t)
  then show ?case by (simp add: sys_step_inv)
qed

end
