(* ===== verification/Registry_Samples.thy ===== *)
theory Registry_Samples
  imports Build_Worker
begin

text \<open>
  A run of the registry from the empty database to a running build, for the concrete instances
  of the properties: a project is created, one file is uploaded and finalized, a build is
  submitted and claimed by the worker.
\<close>

definition is_ok :: "('e, 's, 'a) outcome \<Rightarrow> bool" where
  "is_ok r = (case r of Inl _ \<Rightarrow> False | Inr _ \<Rightarrow> True)"

lemma is_okD: "is_ok r \<Longrightarrow> \<exists>x. r = Inr (state_after s r, x)"
  by (auto simp: is_ok_def state_after_def split: sum.splits)

definition created_db :: repo_db where
  "created_db =
     state_after empty_db (create_project empty_db ''Docs'' None ''ann'' ''Ann'' ''acme'' ''k1'' 10)"

definition declared_db :: repo_db where
  "declared_db = state_after created_db
     (create_upload_session created_db 24 0
        [\<lparr>d_filename = ''a.md'', d_media_type = ''text/markdown'', d_size = 3, d_sha256 = ''d1''\<rparr>]
        ''ann'' ''k2'' 20)"

definition uploaded_db :: repo_db where
  "uploaded_db = state_after declared_db (mark_part_uploaded declared_db 6 ''tmp/6'' 3)"

definition finalized_db :: repo_db where
  "finalized_db = fst (finalize_upload uploaded_db 0 5 [(6, ''blobs/d1'')] ''ann'' ''k3'' 30)"

definition submitted_db :: repo_db where
  "submitted_db = state_after finalized_db (submit_build finalized_db 0 ''ann'' ''k4'' 40)"

definition building_system :: system where
  "building_system = (case claim_build submitted_db ''host-1'' 50 of
     (db, r) \<Rightarrow> \<lparr>sys_db = db, sys_worker = r\<rparr>)"

lemma samples_ok:
  "is_ok (create_project empty_db ''Docs'' None ''ann'' ''Ann'' ''acme'' ''k1'' 10)"
  "is_ok (create_upload_session created_db 24 0
     [\<lparr>d_filename = ''a.md'', d_media_type = ''text/markdown'', d_size = 3, d_sha256 = ''d1''\<rparr>]
     ''ann'' ''k2'' 20)"
  "is_ok (mark_part_uploaded declared_db 6 ''tmp/6'' 3)"
  "is_ok (submit_build finalized_db 0 ''ann'' ''k4'' 40)"
  by code_simp+

text \<open>The build that the worker runs, with its job, project and files.\<close>

definition sample_build :: build_record where
  "sample_build = \<lparr>br_id = 12, br_project_id = 0, br_snapshot_id = 1,
     br_expected_generation = 0, br_requested_by = ''ann''\<rparr>"

lemma building_system_rows:
  "sys_worker building_system = Some sample_build"
  "map p_state (projects (sys_db building_system)) = [Building]"
  "map s_status (snapshots (sys_db building_system)) = [Sealed]"
  "map (\<lambda>f. (f_id f, f_snapshot_id f, f_logical_filename f))
     (snapshot_files (sys_db building_system)) = [(9, 1, ''a.md'')]"
  by code_simp+

lemma reachable_step: "reachable s \<Longrightarrow> sys_step s t \<Longrightarrow> reachable t"
  by (auto simp: reachable_def)

lemma reachable_api: "reachable \<lparr>sys_db = db, sys_worker = w\<rparr> \<Longrightarrow> api_step db db' \<Longrightarrow>
    reachable \<lparr>sys_db = db', sys_worker = w\<rparr>"
  using reachable_step sys_step.api [of "\<lparr>sys_db = db, sys_worker = w\<rparr>" db'] by simp

lemma created_reachable: "reachable \<lparr>sys_db = created_db, sys_worker = None\<rparr>"
proof -
  have "reachable \<lparr>sys_db = empty_db, sys_worker = None\<rparr>"
    by (simp add: reachable_def initial_def)
  then show ?thesis
    using is_okD [OF samples_ok(1), of empty_db] unfolding created_db_def
    by (blast intro: reachable_api create_project)
qed

lemma finalized_reachable: "reachable \<lparr>sys_db = finalized_db, sys_worker = None\<rparr>"
proof -
  have "api_step created_db declared_db"
    using is_okD [OF samples_ok(2), of created_db] unfolding declared_db_def by (blast intro: open_upload)
  moreover have "api_step declared_db uploaded_db"
    using is_okD [OF samples_ok(3), of declared_db] unfolding uploaded_db_def by (blast intro: upload_part)
  moreover have "api_step uploaded_db finalized_db"
    unfolding finalized_db_def by (rule finalize) (rule prod.collapse [symmetric])
  ultimately show ?thesis using created_reachable by (blast intro: reachable_api)
qed

lemma building_reachable: "reachable building_system"
proof -
  have "api_step finalized_db submitted_db"
    using is_okD [OF samples_ok(4), of finalized_db] unfolding submitted_db_def by (blast intro: submit)
  then have "reachable \<lparr>sys_db = submitted_db, sys_worker = None\<rparr>"
    using finalized_reachable by (blast intro: reachable_api)
  moreover have "sys_step \<lparr>sys_db = submitted_db, sys_worker = None\<rparr> building_system"
    by (auto simp: building_system_def intro!: sys_step.claim split: prod.split)
  ultimately show ?thesis by (rule reachable_step)
qed

end
