(* ===== verification/Registry_Properties.thy ===== *)
theory Registry_Properties
  imports Registry_Samples
begin

text \<open>
  The properties of the project registry and its build queue, over all reachable systems of
  API and worker, each with an instance at a concrete run.
\<close>

lemma reachableD:
  assumes "reachable s"
  shows "db_inv (sys_db s)" "worker_ok s"
  using reachable_inv [OF assms] by (simp_all add: sys_inv_def)

lemma worker_running:
  assumes "reachable s" "sys_worker s = Some b"
  shows "map build_record_of (building_jobs (sys_db s)) = [b]"
  using reachableD(2) [OF assms(1)] assms(2) by (simp add: worker_ok_def)

lemma worker_idle:
  assumes "reachable s" "sys_worker s = None"
  shows "building_jobs (sys_db s) = []"
  using reachableD(2) [OF assms(1)] assms(2) by (simp add: worker_ok_def)

section \<open>The draft protocol\<close>

lemma phase_idle_iff:
  "phase_counts st = (1, 0, 0) \<longleftrightarrow> st \<notin> {Queued, Building}"
  by (cases st) auto

lemma no_active_job:
  assumes "phase_of db q = (n, 0, 0)" "j \<in> set (build_jobs db)" "j_project_id j = q"
  shows "\<not> job_active j"
  using assms by (auto simp: phase_of_def jobs_in_def count_where_0 job_active_def)

lemma active_job_exists:
  assumes "phase_of db q = phase_counts st" "st \<in> {Queued, Building}"
  shows "\<exists>j\<in>set (build_jobs db). j_project_id j = q \<and> job_active j"
    "\<And>d. d \<in> set (snapshots db) \<Longrightarrow> s_project_id d = q \<Longrightarrow> s_status d \<noteq> Editable"
proof -
  from assms have "0 < jobs_in (build_jobs db) q (if st = Queued then BQueued else BBuilding)"
    by (auto simp: phase_of_def)
  then show "\<exists>j\<in>set (build_jobs db). j_project_id j = q \<and> job_active j"
    by (auto simp: jobs_in_def count_where_pos job_active_def split: if_splits)
  from assms have "snapshots_in (snapshots db) q Editable = 0" by (auto simp: phase_of_def)
  then show "s_status d \<noteq> Editable" if "d \<in> set (snapshots db)" "s_project_id d = q" for d
    using that by (auto simp: snapshots_in_def count_where_0)
qed

text \<open>
  C1. In every reachable state of the registry a project follows the draft protocol. While it
  is not queued or building it has exactly one editable snapshot and no active build job. While
  it is queued or building it has no editable snapshot, and exactly one active job, whose
  snapshot is a sealed snapshot of the project and whose expected generation is the current one.
\<close>

theorem draft_protocol:
  assumes "reachable s" and "p \<in> set (projects (sys_db s))"
  shows "if p_state p \<in> {Queued, Building}
    then (\<forall>d\<in>set (snapshots (sys_db s)). s_project_id d = p_id p \<longrightarrow> s_status d \<noteq> Editable) \<and>
      (\<exists>!j. j \<in> set (build_jobs (sys_db s)) \<and> j_project_id j = p_id p \<and> job_active j) \<and>
      (\<exists>j\<in>set (build_jobs (sys_db s)). \<exists>d\<in>set (snapshots (sys_db s)).
         j_project_id j = p_id p \<and> job_active j \<and> j_expected_generation j = p_generation p \<and>
         s_id d = j_snapshot_id j \<and> s_project_id d = p_id p \<and> s_status d = Sealed)
    else exactly_one (\<lambda>d. s_project_id d = p_id p \<and> s_status d = Editable) (snapshots (sys_db s)) \<and>
      (\<forall>j\<in>set (build_jobs (sys_db s)). j_project_id j = p_id p \<longrightarrow> \<not> job_active j)"
proof -
  note inv = reachableD(1) [OF assms(1)]
  note ids = db_invD(1) [OF inv] and refs = db_invD(2) [OF inv] and ph = db_invD(3) [OF inv]
  note phase = phase_okD [OF ph assms(2)]
  show ?thesis
  proof (cases "p_state p \<in> {Queued, Building}")
    case True
    obtain j where j: "j \<in> set (build_jobs (sys_db s))" "j_project_id j = p_id p" "job_active j"
      using active_job_exists(1) [OF phase True] by blast
    obtain d where d: "d \<in> set (snapshots (sys_db s))" "s_id d = j_snapshot_id j"
      "s_project_id d = j_project_id j"
      using job_snapshot [OF refs j(1)] .
    have "j_expected_generation j = p_generation p" "s_status d = Sealed"
      using jobs_okD [OF db_invD(4) [OF inv] j(1,3)] assms(2) d j(2) by simp_all
    moreover have "\<exists>!j. j \<in> set (build_jobs (sys_db s)) \<and> j_project_id j = p_id p \<and> job_active j"
      using active_job_unique [OF ids ph assms(2)] j by blast
    ultimately show ?thesis
      using active_job_exists(2) [OF phase True] True j d by auto
  next
    case False
    then have "phase_of (sys_db s) (p_id p) = (1, 0, 0)" using phase phase_idle_iff by simp
    then show ?thesis using False no_active_job [of "sys_db s" "p_id p" 1]
      by (simp add: exactly_one_def phase_of_def snapshots_in_def)
  qed
qed

lemma draft_protocol_witness:
  "(\<exists>j\<in>set (build_jobs (sys_db building_system)). \<exists>d\<in>set (snapshots (sys_db building_system)).
      job_active j \<and> s_id d = j_snapshot_id j \<and> s_status d = Sealed)"
proof -
  have st: "map p_state (projects (sys_db building_system)) = [Building]"
    by (rule building_system_rows)
  then obtain p where p: "p \<in> set (projects (sys_db building_system))" "p_state p = Building"
    by (cases "projects (sys_db building_system)") auto
  from draft_protocol [OF building_reachable p(1)] p(2) show ?thesis by (simp, blast)
qed

text \<open>
  C5. At most one build job is running in a reachable state, over all projects; there is none
  when the worker is idle, and when it is processing a build the running job is the one it
  claimed.
\<close>

theorem single_running_build:
  assumes "reachable s"
  shows "length (building_jobs (sys_db s)) \<le> 1 \<and>
    map build_record_of (building_jobs (sys_db s)) =
      (case sys_worker s of None \<Rightarrow> [] | Some b \<Rightarrow> [b])"
proof -
  have "map build_record_of (building_jobs (sys_db s)) =
      (case sys_worker s of None \<Rightarrow> [] | Some b \<Rightarrow> [b])"
    using reachableD(2) [OF assms] by (simp add: worker_ok_def)
  moreover from arg_cong [OF this, of length] have "length (building_jobs (sys_db s)) \<le> 1"
    by (simp split: option.splits)
  ultimately show ?thesis by simp
qed

lemma single_running_build_witness:
  "map build_record_of (building_jobs (sys_db building_system)) = [sample_build]"
  using single_running_build [OF building_reachable] building_system_rows(1) by simp

section \<open>Completion and failure\<close>

lemma copy_files_content:
  "content_of (snapshot_files (fold (copy_file nd pid) src db)) sid =
     content_of (snapshot_files db) sid @ (if sid = nd then map file_content src else [])"
  by (induction src arbitrary: db) (auto simp: copy_file_def content_of_def file_content_def)

text \<open>The new draft has the content of the snapshot that was built.\<close>

lemma complete_content:
  assumes new: "content_of (snapshot_files db) (next_id db) = []"
    and ne: "s_id snap \<noteq> next_id db"
  shows "content_of (snapshot_files (complete_build_commit db p job snap usr gv n now)) sid =
    (if sid = next_id db then content_of (snapshot_files db) (s_id snap)
     else content_of (snapshot_files db) sid)"
  using assms
  by (simp add: complete_build_commit_def Let_def content_of_upd copy_files_content)
     (simp add: content_of_def)

lemma fresh_snapshot_empty:
  assumes inv: "db_inv db"
  shows "content_of (snapshot_files db) (next_id db) = []"
    "s \<in> set (snapshots db) \<Longrightarrow> s_id s \<noteq> next_id db"
proof -
  have ids: "s_id s < next_id db" if "s \<in> set (snapshots db)" for s
    using db_invD(1) [OF inv] that by (simp add: wf_ids_def fresh_table_def)
  show "s_id s \<noteq> next_id db" if "s \<in> set (snapshots db)" using ids [OF that] by simp
  have "f_snapshot_id f \<noteq> next_id db" if "f \<in> set (snapshot_files db)" for f
  proof -
    have "(f_snapshot_id f, f_project_id f) \<in> snapshot_keys (snapshots db)"
      by (rule file_refsD [OF inv that])
    then show ?thesis using ids by (fastforce simp: snapshot_keys_def)
  qed
  then show "content_of (snapshot_files db) (next_id db) = []"
    by (auto simp: content_of_def filter_empty_conv)
qed

lemma exactly_one_draft:
  assumes inv: "db_inv db" and d: "d \<in> set (snapshots db)" "s_project_id d = q" "s_status d = Editable"
    and p: "p \<in> set (projects db)" "p_id p = q"
  shows "draft db q = Some d"
proof -
  have "0 < snapshots_in (snapshots db) q Editable"
    using snapshots_in_pos [OF d(1)] d(2,3) by simp
  then have "snapshots_in (snapshots db) q Editable = 1"
    using phase_okD [OF db_invD(3) [OF inv] p(1)] p(2) by (cases "p_state p") (auto simp: phase_of_def)
  then have one: "count_where (\<lambda>s. s_project_id s = q \<and> s_status s = Editable) (snapshots db) \<le> 1"
    by (simp add: snapshots_in_def)
  obtain e where e: "draft db q = Some e"
    using d by (cases "draft db q") (auto simp: draft_def latest_where_None)
  have "s_id e = s_id d"
    using one draft_Some [OF e] d
    unfolding count_where_le_1 [OF wf_idsD(4) [OF db_invD(1) [OF inv]]] by blast
  then have "e = d" using snapshot_eq [OF db_invD(1) [OF inv]] draft_Some [OF e] d(1) by blast
  then show ?thesis using e by simp
qed

text \<open>
  C2. A build that the worker has claimed is never refused at its end. In every reachable
  state, whatever the API did since the claim, completing it commits: the project is ready,
  points to the built snapshot and the new graph version, its generation is one more, and the
  new draft holds exactly the files of the snapshot that was built.
\<close>

theorem build_completes:
  assumes r: "reachable s" and w: "sys_worker s = Some b"
  shows "\<exists>db' p d. process_result (sys_db s) b (Inr (gv, n)) now = Inr db' \<and>
    p \<in> set (projects db') \<and> p_id p = br_project_id b \<and> p_state p = Ready \<and>
    p_active_snapshot_id p = Some (br_snapshot_id b) \<and> p_active_graph_version p = Some gv \<and>
    p_active_document_count p = n \<and> p_generation p = br_expected_generation b + 1 \<and>
    draft db' (p_id p) = Some d \<and>
    content_of (snapshot_files db') (s_id d) =
      content_of (snapshot_files (sys_db s)) (br_snapshot_id b)"
proof -
  let ?db = "sys_db s"
  note inv = reachableD(1) [OF r] and run = worker_running [OF r w]
  show ?thesis
  proof (rule worker_rows [OF inv run])
    fix job p snap
    assume job: "job \<in> set (build_jobs ?db)" "j_status job = BBuilding" and b: "b = build_record_of job"
      and p: "p \<in> set (projects ?db)" "p_id p = j_project_id job"
      and gen: "p_generation p = j_expected_generation job"
      and snap: "snap \<in> set (snapshots ?db)" "s_id snap = j_snapshot_id job" "s_status snap = Sealed"
      and rows: "project_for_update ?db (br_project_id b) = Some p"
        "get_job ?db (br_id b) = Some job" "get_snapshot ?db (br_snapshot_id b) = Some snap"
    let ?db' = "complete_build_commit ?db p job snap (br_requested_by b) gv n now"
    let ?p = "p\<lparr>p_active_snapshot_id := Some (s_id snap), p_active_graph_version := Some gv,
                p_active_document_count := n, p_generation := p_generation p + 1,
                p_state := Ready, p_updated_at := now\<rparr>"
    let ?d = "\<lparr>s_id = next_id ?db, s_project_id = p_id p, s_status = Editable, s_created_at = now,
            s_sealed_at = None\<rparr>"
    have res: "process_result ?db b (Inr (gv, n)) now = Inr ?db'"
      using rows gen job(2) by (simp add: process_result_def complete_build_def b build_record_of_def)
    have inv': "db_inv ?db'"
      by (rule complete_build_commit_inv [OF inv p(1) job p(2) [symmetric] snap(1,2)])
    have p': "?p \<in> set (projects ?db')" using p(1) by (auto simp: set_upd_where)
    have d: "draft ?db' (p_id p) = Some ?d"
      by (rule exactly_one_draft [OF inv' _ _ _ p']) simp_all
    have "content_of (snapshot_files ?db') (s_id ?d) = content_of (snapshot_files ?db) (s_id snap)"
      using complete_content [OF fresh_snapshot_empty(1) [OF inv] fresh_snapshot_empty(2) [OF inv snap(1)]]
      by simp
    then show ?thesis
      using res p' d p(2) gen snap(2) by (intro exI [of _ ?db'] exI [of _ ?p] exI [of _ ?d])
        (simp add: b build_record_of_def)
  qed
qed

lemma build_completes_witness:
  "\<exists>db' p d. process_result (sys_db building_system) sample_build (Inr (''v1'', 1)) 60 = Inr db' \<and>
    p \<in> set (projects db') \<and> p_state p = Ready \<and> p_generation p = 1 \<and>
    draft db' (p_id p) = Some d \<and>
    content_of (snapshot_files db') (s_id d) = [(''a.md'', ''text/markdown'', 3, ''d1'')]"
proof -
  have "content_of (snapshot_files (sys_db building_system)) (br_snapshot_id sample_build) =
      [(''a.md'', ''text/markdown'', 3, ''d1'')]" by code_simp
  moreover have "br_expected_generation sample_build + 1 = 1" by (simp add: sample_build_def)
  ultimately show ?thesis
    using build_completes [OF building_reachable building_system_rows(1), of "''v1''" 1 60] by metis
qed

text \<open>The project and snapshot that a failed build leaves behind.\<close>

lemma failed_content:
  "content_of (snapshot_files (failed_db db p job snap usr code now)) sid =
     content_of (snapshot_files db) sid"
  by (simp add: failed_db_def content_of_upd file_content_def)

text \<open>
  C6. A failed build loses nothing. Failing the claimed build commits in every reachable state:
  its snapshot is the editable draft again with the same files, no other snapshot changes its
  files, and the project keeps its active snapshot, graph version and generation; it is ready
  when it names an active graph, else failed.
\<close>

theorem build_fails_safely:
  assumes r: "reachable s" and w: "sys_worker s = Some b"
  shows "\<exists>db' p p' d. process_result (sys_db s) b (Inl e) now = Inr db' \<and>
    p \<in> set (projects (sys_db s)) \<and> p' \<in> set (projects db') \<and>
    p_id p = br_project_id b \<and> p_id p' = br_project_id b \<and>
    p_state p' = (if p_active_graph_version p \<notin> {None, Some []} then Ready else Failed) \<and>
    p_active_snapshot_id p' = p_active_snapshot_id p \<and>
    p_active_graph_version p' = p_active_graph_version p \<and> p_generation p' = p_generation p \<and>
    draft db' (br_project_id b) = Some d \<and> s_id d = br_snapshot_id b \<and>
    (\<forall>sid. content_of (snapshot_files db') sid = content_of (snapshot_files (sys_db s)) sid)"
proof -
  let ?db = "sys_db s"
  note inv = reachableD(1) [OF r] and run = worker_running [OF r w]
  show ?thesis
  proof (rule worker_rows [OF inv run])
    fix job p snap
    assume job: "job \<in> set (build_jobs ?db)" "j_status job = BBuilding" and b: "b = build_record_of job"
      and p: "p \<in> set (projects ?db)" "p_id p = j_project_id job"
      and snap: "snap \<in> set (snapshots ?db)" "s_id snap = j_snapshot_id job"
      and rows: "project_for_update ?db (br_project_id b) = Some p"
        "get_job ?db (br_id b) = Some job" "get_snapshot ?db (br_snapshot_id b) = Some snap"
    let ?db' = "failed_db ?db p job snap (br_requested_by b) (error_code e) now"
    let ?p = "p\<lparr>p_state := failed_state p, p_updated_at := now\<rparr>"
    let ?d = "snap\<lparr>s_status := Editable, s_sealed_at := None\<rparr>"
    have res: "process_result ?db b (Inl e) now = Inr ?db'"
      using fail_build_failed_db [OF rows] by (simp add: process_result_def)
    have inv': "db_inv ?db'"
      by (rule failed_db_inv [OF inv p(1) job(1) _ p(2) [symmetric] snap])
         (simp add: job_active_def job(2))
    have p': "?p \<in> set (projects ?db')" using p(1) by (auto simp: failed_db_def set_upd_where)
    have sp: "s_project_id snap = p_id p"
      using job_snapshot_project [OF db_invD(1,2) [OF inv] job(1) snap] p(2) by simp
    have "?d \<in> set (snapshots ?db')" using snap(1) by (auto simp: failed_db_def set_upd_where)
    then have "draft ?db' (p_id p) = Some ?d"
      by (rule exactly_one_draft [OF inv' _ _ _ p']) (simp_all add: sp)
    then show ?thesis
      using res p p' snap(2) failed_content
      by (intro exI [of _ ?db'] exI [of _ p] exI [of _ ?p] exI [of _ ?d])
         (simp add: b build_record_of_def failed_state_def)
  qed
qed

lemma build_fails_safely_witness:
  "\<exists>db' p d. process_result (sys_db building_system) sample_build
        (Inl \<lparr>exc_message = ''graphify_build_timeout'', exc_value_error = False\<rparr>) 60 = Inr db' \<and>
    p \<in> set (projects db') \<and> draft db' 0 = Some d \<and> s_id d = 1"
proof -
  have "br_project_id sample_build = 0" "br_snapshot_id sample_build = 1"
    by (simp_all add: sample_build_def)
  then show ?thesis
    using build_fails_safely [OF building_reachable building_system_rows(1),
        of "\<lparr>exc_message = ''graphify_build_timeout'', exc_value_error = False\<rparr>" 60] by metis
qed

section \<open>Frozen content\<close>

lemma process_result_content:
  assumes inv: "db_inv db" and run: "map build_record_of (building_jobs db) = [b]"
    and step: "process_result db b r now = Inr db'" and t: "t \<in> set (snapshots db)"
  shows "content_of (snapshot_files db') (s_id t) = content_of (snapshot_files db) (s_id t)"
proof -
  have fail: ?thesis if f: "fail_build db b code now = Inr db'" for code
    by (rule fail_build_ok [OF inv run, of code now]) (use f failed_content in auto)
  show ?thesis
  proof (cases r)
    case (Inl e)
    with step fail show ?thesis by (auto simp: process_result_def)
  next
    case (Inr x)
    obtain gv n where r: "r = Inr (gv, n)" using Inr by (cases x) auto
    show ?thesis
    proof (rule complete_build_ok [OF inv run, of gv n now])
      fix job p snap
      assume snap: "snap \<in> set (snapshots db)"
        and "complete_build db b gv n now =
          Inr (complete_build_commit db p job snap (br_requested_by b) gv n now)"
      with step have "db' = complete_build_commit db p job snap (br_requested_by b) gv n now"
        by (simp add: process_result_def r)
      then show ?thesis
        using complete_content [OF fresh_snapshot_empty(1) [OF inv]
            fresh_snapshot_empty(2) [OF inv snap]] fresh_snapshot_empty(2) [OF inv t] by simp
    qed
  qed
qed

text \<open>
  C3. The content of a snapshot is frozen once it is sealed. No step of the API, of the worker
  or of a restart changes the files (name, media type, size, digest) of a snapshot that is
  sealed, active or validated; they only go when the project is purged with the snapshot.
\<close>

theorem sealed_content_frozen:
  assumes r: "reachable s" and step: "sys_step s s'"
    and t: "t \<in> set (snapshots (sys_db s))" "s_status t \<noteq> Editable"
    and kept: "s_id t \<in> s_id ` set (snapshots (sys_db s'))"
  shows "content_of (snapshot_files (sys_db s')) (s_id t) =
    content_of (snapshot_files (sys_db s)) (s_id t)"
  using step
proof (cases rule: sys_step.cases)
  case (api db')
  then show ?thesis using api_step_content [OF api(2) reachableD(1) [OF r] t] kept by simp
next
  case (claim worker now db' w)
  from claim(3) show ?thesis
  proof (cases rule: claim_build_cases)
    case none
    then show ?thesis by (simp add: claim)
  next
    case (claimed row)
    then show ?thesis
      by (simp add: claim content_of_upd lifecycle_values_def file_content_def)
  qed
next
  case (progress b phase percent)
  show ?thesis
    by (simp add: progress update_file_lifecycle_def content_of_upd lifecycle_values_def file_content_def)
next
  case (finish b res now db')
  then show ?thesis
    using process_result_content [OF reachableD(1) [OF r] worker_running [OF r finish(2)] finish(3) t(1)]
    by simp
next
  case restart
  then show ?thesis
    by (simp add: recover_builds_def Let_def content_of_upd lifecycle_values_def file_content_def)
qed

lemma sealed_content_frozen_witness:
  "content_of (snapshot_files (recover_builds (sys_db building_system))) 1 =
     content_of (snapshot_files (sys_db building_system)) 1"
proof -
  let ?s = building_system and ?t = "\<lparr>sys_db = recover_builds (sys_db building_system), sys_worker = None\<rparr>"
  have "map (\<lambda>d. (s_id d, s_status d)) (snapshots (sys_db ?s)) = [(1, Sealed)]" by code_simp
  then obtain d where d: "snapshots (sys_db ?s) = [d]" "s_id d = 1" "s_status d = Sealed"
    by (cases "snapshots (sys_db ?s)") auto
  from sealed_content_frozen [OF building_reachable restart, of d] d show ?thesis by simp
qed

section \<open>Ownership and roles\<close>

text \<open>
  C4. Every project of a reachable registry has an owner, every owner is a user and not a
  group, and a principal is a member of a project at most once.
\<close>

theorem projects_owned:
  assumes "reachable s"
  shows "(\<forall>p\<in>set (projects (sys_db s)). \<exists>m\<in>set (memberships (sys_db s)).
      m_project_id m = p_id p \<and> m_role m = Owner \<and> m_principal_type m = User) \<and>
    (\<forall>m\<in>set (memberships (sys_db s)). m_role m = Owner \<longrightarrow> m_principal_type m = User) \<and>
    distinct (map member_key (memberships (sys_db s)))"
proof -
  have own: "owners_ok (sys_db s)" by (rule db_invD(9) [OF reachableD(1) [OF assms]])
  have "\<exists>m\<in>set (memberships (sys_db s)). m_project_id m = p_id p \<and> m_role m = Owner"
    if "p \<in> set (projects (sys_db s))" for p
  proof -
    have "0 < owner_count (sys_db s) (p_id p)" using own that by (simp add: owners_ok_def)
    then show ?thesis by (simp add: owner_count_def count_where_pos)
  qed
  then show ?thesis using own by (fastforce simp: owners_ok_def)
qed

lemma projects_owned_witness:
  "\<exists>m\<in>set (memberships (sys_db building_system)). m_role m = Owner \<and> m_principal_type m = User"
proof -
  have "map p_state (projects (sys_db building_system)) = [Building]"
    by (rule building_system_rows)
  then obtain p where "p \<in> set (projects (sys_db building_system))"
    by (cases "projects (sys_db building_system)") auto
  then show ?thesis using projects_owned [OF building_reachable] by blast
qed

lemma max_origin_mem: "max_origin b ms \<in> set (b # ms)"
  by (induction b ms rule: max_origin.induct) auto

lemma max_origin_max: "m \<in> set (b # ms) \<Longrightarrow> role_rank (m_role m) \<le> role_rank (m_role (max_origin b ms))"
proof (induction b ms arbitrary: m rule: max_origin.induct)
  case (2 best k ms)
  let ?b = "if role_rank (m_role best) < role_rank (m_role k) then k else best"
  have top: "role_rank (m_role x) \<le> role_rank (m_role (max_origin ?b ms))" if "x \<in> set (?b # ms)" for x
    using "2.IH" that by blast
  have "role_rank (m_role best) \<le> role_rank (m_role ?b)" "role_rank (m_role k) \<le> role_rank (m_role ?b)"
    by auto
  moreover have "role_rank (m_role ?b) \<le> role_rank (m_role (max_origin ?b ms))" by (rule top) simp
  ultimately show ?case using "2.prems" top by (auto simp del: if_split intro: order_trans)
qed simp

lemma access_origins_rows:
  "set (access_origins db pid tenant subject groups) =
     {m \<in> set (memberships db). m_project_id m = pid \<and> m_tenant_id m = tenant \<and>
        (m_principal_type m = User \<and> m_principal_id m = subject \<or>
         m_principal_type m = Group \<and> m_principal_id m \<in> set groups)}"
  by (auto simp: access_origins_def)

text \<open>
  C7. The access decision is the highest role of the principal. It is granted exactly when the
  project exists in the tenant and the user, or one of its groups, has a membership row there
  whose rank reaches the minimum: the origins are exactly those rows of the membership table
  (user rows with the subject as principal, group rows whose principal is one of the groups, of
  this project and this tenant), and the effective role is one of their roles and ranks above all
  of them. A principal without such a row gets the same error as for a project that does not exist.
\<close>

theorem access_decision_correct:
  "(case access_decision_of db pid tenant subject groups minimum of
      Inr d \<Rightarrow>
        (\<exists>p\<in>set (projects db). p_id p = pid \<and> p_tenant_id p = tenant) \<and>
        set (origins d) =
          {m \<in> set (memberships db). m_project_id m = pid \<and> m_tenant_id m = tenant \<and>
             (m_principal_type m = User \<and> m_principal_id m = subject \<or>
              m_principal_type m = Group \<and> m_principal_id m \<in> set groups)} \<and>
        effective_role d \<in> m_role ` set (origins d) \<and>
        (\<forall>m\<in>set (origins d). role_rank (m_role m) \<le> role_rank (effective_role d)) \<and>
        role_rank minimum \<le> role_rank (effective_role d)
    | Inl (ProjectNotFound k) \<Rightarrow>
        k = pid \<and>
        ((\<exists>p\<in>set (projects db). p_id p = pid \<and> p_tenant_id p = tenant) \<longrightarrow>
         (\<forall>m\<in>set (memberships db). m_project_id m = pid \<and> m_tenant_id m = tenant \<longrightarrow>
            (m_principal_type m = User \<longrightarrow> m_principal_id m \<noteq> subject) \<and>
            (m_principal_type m = Group \<longrightarrow> m_principal_id m \<notin> set groups)))
    | Inl (AuthorizationError msg) \<Rightarrow>
        (\<exists>p\<in>set (projects db). p_id p = pid \<and> p_tenant_id p = tenant) \<and>
        (\<exists>m\<in>set (memberships db). m_project_id m = pid \<and> m_tenant_id m = tenant \<and>
           (m_principal_type m = User \<and> m_principal_id m = subject \<or>
            m_principal_type m = Group \<and> m_principal_id m \<in> set groups)) \<and>
        (\<forall>m\<in>set (memberships db). m_project_id m = pid \<and> m_tenant_id m = tenant \<and>
           (m_principal_type m = User \<and> m_principal_id m = subject \<or>
            m_principal_type m = Group \<and> m_principal_id m \<in> set groups) \<longrightarrow>
           role_rank (m_role m) < role_rank minimum)
    | Inl _ \<Rightarrow> False)"
proof (cases "first_where (\<lambda>p. p_id p = pid \<and> p_tenant_id p = tenant) (projects db)")
  case None
  then have "\<not> (\<exists>p\<in>set (projects db). p_id p = pid \<and> p_tenant_id p = tenant)"
    by (auto simp: first_where_None)
  then show ?thesis by (auto simp: access_decision_of_def None)
next
  case (Some p)
  then have ex: "\<exists>p\<in>set (projects db). p_id p = pid \<and> p_tenant_id p = tenant"
    using first_where_Some [OF Some] by blast
  note rows = access_origins_rows [of db pid tenant subject groups]
  show ?thesis
  proof (cases "access_origins db pid tenant subject groups")
    case Nil
    then have none: "\<nexists>m. m \<in> set (access_origins db pid tenant subject groups)" by simp
    have "access_decision_of db pid tenant subject groups minimum = Inl (ProjectNotFound pid)"
      using Nil by (simp add: access_decision_of_def Some)
    then show ?thesis using none unfolding rows by auto
  next
    case (Cons m ms)
    have top: "m_role (max_origin m ms) \<in> m_role ` set (m # ms)"
        "\<forall>k\<in>set (m # ms). role_rank (m_role k) \<le> role_rank (m_role (max_origin m ms))"
      using max_origin_mem max_origin_max by blast+
    show ?thesis
    proof (cases "role_rank (m_role (max_origin m ms)) < role_rank minimum")
      case True
      then have low: "\<forall>k\<in>set (access_origins db pid tenant subject groups).
          role_rank (m_role k) < role_rank minimum"
        using top(2) Cons by (metis le_less_trans)
      have some: "\<exists>m. m \<in> set (access_origins db pid tenant subject groups)"
        using Cons by (metis list.set_intros(1))
      have "access_decision_of db pid tenant subject groups minimum =
          Inl (AuthorizationError ''The project role is insufficient'')"
        using True by (simp add: access_decision_of_def Some Cons Let_def)
      then show ?thesis using ex some low unfolding rows by auto
    next
      case False
      then have "access_decision_of db pid tenant subject groups minimum =
          Inr \<lparr>effective_role = m_role (max_origin m ms), origins = m # ms\<rparr>"
        by (simp add: access_decision_of_def Some Cons Let_def)
      moreover have "set (m # ms) = {m \<in> set (memberships db). m_project_id m = pid \<and>
          m_tenant_id m = tenant \<and> (m_principal_type m = User \<and> m_principal_id m = subject \<or>
            m_principal_type m = Group \<and> m_principal_id m \<in> set groups)}"
        using rows Cons by simp
      ultimately show ?thesis using ex top False by (simp del: list.set)
    qed
  qed
qed

lemma access_decision_correct_witness:
  "\<exists>d. access_decision_of created_db 0 ''acme'' ''ann'' [] Manager = Inr d \<and> effective_role d = Owner"
proof -
  have ms: "map (\<lambda>m. (m_role m, m_principal_type m, m_principal_id m, m_project_id m, m_tenant_id m))
      (memberships created_db) = [(Owner, User, ''ann'', 0, ''acme'')]" by code_simp
  then obtain m where m: "memberships created_db = [m]" "m_role m = Owner" "m_principal_type m = User"
      "m_principal_id m = ''ann''" "m_project_id m = 0" "m_tenant_id m = ''acme''"
    by auto
  have "list_ex (\<lambda>p. p_id p = 0 \<and> p_tenant_id p = ''acme'') (projects created_db)" by code_simp
  then have "\<exists>p\<in>set (projects created_db). p_id p = 0 \<and> p_tenant_id p = ''acme''"
    by (simp add: list_ex_iff)
  with access_decision_correct [where db = created_db and pid = 0 and
      tenant = "''acme''" and subject = "''ann''" and groups = "[]" and minimum = Manager] m
  show ?thesis by (auto split: sum.splits repo_error.splits)
qed

text \<open>
  The final owner stays. Changing the role of, or removing, a membership of the project in
  the tenant commits exactly when it does not take the role of the only owner away (and makes
  no group an owner), and then changes that membership and no other.
\<close>

theorem final_owner_guard:
  assumes "membership_by_id db pid mid tenant = Some row"
  shows "((\<exists>db' m. update_membership db pid mid tenant role actor now = Inr (db', m)) \<longleftrightarrow>
      \<not> (role = Owner \<and> m_principal_type row = Group) \<and>
      \<not> (m_role row = Owner \<and> role \<noteq> Owner \<and> owner_count db pid = 1)) \<and>
    ((\<exists>db'. remove_membership db pid mid tenant actor now = Inr (db', ())) \<longleftrightarrow>
      \<not> (m_role row = Owner \<and> owner_count db pid = 1)) \<and>
    (\<forall>db' m. update_membership db pid mid tenant role actor now = Inr (db', m) \<longrightarrow>
       filter (\<lambda>k. m_id k \<noteq> mid) (memberships db') = filter (\<lambda>k. m_id k \<noteq> mid) (memberships db) \<and>
       m = row\<lparr>m_role := role, m_updated_at := now\<rparr>) \<and>
    (\<forall>db'. remove_membership db pid mid tenant actor now = Inr (db', ()) \<longrightarrow>
       memberships db' = filter (\<lambda>k. m_id k \<noteq> mid) (memberships db))"
proof -
  have pt: "(m_principal_type row \<noteq> User) = (m_principal_type row = Group)"
    by (cases "m_principal_type row") auto
  have id: "m_id row = mid" using membership_by_id_Some [OF assms] by simp
  have upd: "filter (\<lambda>k. m_id k \<noteq> mid) (upd_where (\<lambda>k. m_id k = mid)
        (\<lambda>m. m\<lparr>m_role := r, m_updated_at := now\<rparr>) ms) =
      filter (\<lambda>k. m_id k \<noteq> mid) ms" for r and ms :: "membership_row list"
    by (induction ms) (auto simp: upd_where_def)
  have "(\<exists>db' m. update_membership db pid mid tenant role actor now = Inr (db', m)) \<longleftrightarrow>
      \<not> (role = Owner \<and> m_principal_type row = Group) \<and>
      \<not> (m_role row = Owner \<and> role \<noteq> Owner \<and> owner_count db pid = 1)"
    by (simp add: update_membership_def assms Let_def pt)
  moreover have "(\<exists>db'. remove_membership db pid mid tenant actor now = Inr (db', ())) \<longleftrightarrow>
      \<not> (m_role row = Owner \<and> owner_count db pid = 1)"
    by (simp add: remove_membership_def assms)
  moreover have "filter (\<lambda>k. m_id k \<noteq> mid) (memberships db') = filter (\<lambda>k. m_id k \<noteq> mid) (memberships db) \<and>
       m = row\<lparr>m_role := role, m_updated_at := now\<rparr>"
    if "update_membership db pid mid tenant role actor now = Inr (db', m)" for db' m
    using that
    by (auto simp: update_membership_def assms Let_def set_membership_def id upd split: if_split_asm)
  moreover have "memberships db' = filter (\<lambda>k. m_id k \<noteq> mid) (memberships db)"
    if "remove_membership db pid mid tenant actor now = Inr (db', ())" for db'
    using that by (auto simp: remove_membership_def assms id del_where_def split: if_split_asm)
  ultimately show ?thesis by blast
qed

lemma final_owner_guard_witness:
  "\<not> (\<exists>db'. remove_membership created_db 0 2 ''acme'' ''ann'' 20 = Inr (db', ()))"
proof -
  have "map_option m_role (membership_by_id created_db 0 2 ''acme'') = Some Owner"
    "owner_count created_db 0 = 1" by code_simp+
  then show ?thesis using final_owner_guard [of created_db 0 2 "''acme''" _ Owner "''ann''" 20] by auto
qed

end
