(* ===== verification/Queue_Properties.thy ===== *)
theory Queue_Properties
  imports Registry_Properties
begin

text \<open>
  Further properties of the registry and of its build queue: replays of requests, the retention
  of archived projects, the join that feeds a build, the order of the queue, and what a crash
  of the worker leaves behind.
\<close>

section \<open>Replayed requests\<close>

lemma idempotent_after_remember:
  assumes "idempotent_resource db actor op key = None"
    and "idempotency db' = idempotency db @ [r]"
    and "i_actor_subject r = actor" "i_operation r = op" "i_key r = key"
  shows "idempotent_resource db' actor op key = Some (i_resource_id r)"
proof -
  have "first_where P (xs @ [r]) = Some r" if "first_where P xs = None" "P r"
    for P and xs :: "idempotency_row list"
    using that by (induction xs) (auto simp: first_where_def split: if_splits)
  then show ?thesis using assms by (simp add: idempotent_resource_def)
qed

lemma create_project_replay:
  assumes ok: "create_project db name description subject username tenant key now = Inr (db', p)"
  shows "create_project db' name2 description2 subject username2 tenant2 key now2 = Inr (db', p)"
proof (cases "idempotent_resource db subject OpCreateProject key")
  case (Some prior)
  then show ?thesis using ok by (auto simp: create_project_def split: sum.splits)
next
  case None
  have db': "db' = create_project_commit db name description subject username tenant key now"
    and p: "get_project db' (next_id db) True = Inr p"
    using ok
    by (auto simp: create_project_def create_project_txn_def key_taken_def None Let_def
        split: sum.split_asm)
  have "idempotent_resource db' subject OpCreateProject key = Some (next_id db)"
    using idempotent_after_remember [OF None] unfolding db'
    by (simp add: create_project_commit_def Let_def remember_def)
  then show ?thesis using p by (simp add: create_project_def)
qed

lemma insert_parts_idempotency [simp]:
  "idempotency (fold (insert_part sid) ds db) = idempotency db"
  by (induction ds arbitrary: db) (simp_all add: insert_part_def)

lemma create_upload_session_replay:
  assumes ok: "create_upload_session db ttl pid ds subject key now = Inr (db', u)"
  shows "create_upload_session db' ttl2 pid ds2 subject key now2 = Inr (db', u)"
proof (cases "idempotent_resource db subject (OpCreateUploadSession pid) key")
  case (Some prior)
  then show ?thesis using ok by (auto simp: create_upload_session_def split: sum.splits)
next
  case None
  obtain d where db': "db' = create_upload_session_commit db ttl pid d ds subject key now"
    and u: "get_upload_session db' pid (next_id db) = Inr u"
    using ok
    by (auto simp: create_upload_session_def create_upload_session_txn_def key_taken_def None Let_def
        split: sum.split_asm option.split_asm if_split_asm)
  have "idempotent_resource db' subject (OpCreateUploadSession pid) key = Some (next_id db)"
    using idempotent_after_remember [OF None] unfolding db'
    by (simp add: create_upload_session_commit_def Let_def remember_def)
  then show ?thesis using u by (simp add: create_upload_session_def)
qed

lemma submit_build_replay:
  assumes ok: "submit_build db pid subject key now = Inr (db', j)"
  shows "submit_build db' pid subject key now2 = Inr (db', j)"
proof (cases "idempotent_resource db subject (OpSubmitBuild pid) key")
  case (Some prior)
  then show ?thesis using ok by (auto simp: submit_build_def split: sum.splits)
next
  case None
  have txn: "submit_build_txn db pid subject key now = Inr (db', j)"
    using ok by (simp add: submit_build_def None)
  obtain p where p: "project_for_update db pid = Some p"
    using txn by (cases "project_for_update db pid") (simp_all add: submit_build_txn_def)
  have ne: "\<not> not_editable p"
    using txn by (cases "not_editable p") (simp_all add: submit_build_txn_def p)
  obtain d where d: "draft db pid = Some d"
    using txn by (cases "draft db pid") (simp_all add: submit_build_txn_def p ne)
  have db': "db' = submit_build_commit db p d subject key now"
    and j: "get_build db' pid (next_id db) = Inr j"
    using txn
    by (auto simp: submit_build_txn_def p ne d Let_def key_taken_def None
        split: sum.split_asm if_split_asm)
  have "p_id p = pid" using project_for_update_Some [OF p] by simp
  then have "idempotent_resource db' subject (OpSubmitBuild pid) key = Some (next_id db)"
    using idempotent_after_remember [OF None] unfolding db'
    by (simp add: submit_build_commit_def Let_def remember_def set_snapshot_files_def
        set_snapshot_def set_project_def)
  then show ?thesis using j by (simp add: submit_build_def)
qed

text \<open>
  Replaying a request changes nothing. When creating a project, opening an upload session
  or submitting a build succeeded, a request of the same user with the same key afterwards,
  whatever its body, returns the same row and leaves the database as it is.
\<close>

theorem replay_is_stable:
  "(create_project db name description subject username tenant key now = Inr (db1, p) \<longrightarrow>
      create_project db1 name2 description2 subject username2 tenant2 key now2 = Inr (db1, p)) \<and>
   (create_upload_session db ttl pid ds subject key now = Inr (db2, u) \<longrightarrow>
      create_upload_session db2 ttl2 pid ds2 subject key now2 = Inr (db2, u)) \<and>
   (submit_build db pid subject key now = Inr (db3, j) \<longrightarrow>
      submit_build db3 pid subject key now2 = Inr (db3, j))"
  using create_project_replay create_upload_session_replay submit_build_replay by metis

lemma replay_is_stable_witness:
  "\<exists>j. submit_build finalized_db 0 ''ann'' ''k4'' 40 = Inr (submitted_db, j) \<and>
       submit_build submitted_db 0 ''ann'' ''k4'' 99 = Inr (submitted_db, j)"
proof -
  obtain j where j: "submit_build finalized_db 0 ''ann'' ''k4'' 40 = Inr (submitted_db, j)"
    using is_okD [OF samples_ok(4), of finalized_db] unfolding submitted_db_def by blast
  from replay_is_stable [THEN conjunct2, THEN conjunct2, THEN mp, OF j] j show ?thesis by blast
qed

section \<open>Archives\<close>

lemma archived_at:
  assumes "db_inv db" "p \<in> set (projects db)" "p_state p = Archived"
  obtains t where "p_archived_at p = Some t"
  using db_invD(8) [OF assms(1)] assms(2,3) by (auto simp: archive_ok_def)

text \<open>
  An archived project can be restored up to the end of the retention period and purged from
  that end on: restoring commits exactly when it was archived at or after now minus the
  retention, purging exactly when it was archived at or before that time. So at every time one
  of the two is possible, and both only at that very microsecond.
\<close>

theorem retention_window:
  assumes "reachable s" "p \<in> set (projects (sys_db s))" "p_state p = Archived"
  shows "\<exists>t. p_archived_at p = Some t \<and>
    ((\<exists>db' q. restore (sys_db s) (p_id p) subject days now = Inr (db', q)) \<longleftrightarrow>
       now - timedelta_days days \<le> t) \<and>
    ((\<exists>db'. purge_expired (sys_db s) (p_id p) subject days now = Inr (db', ())) \<longleftrightarrow>
       t \<le> now - timedelta_days days)"
proof -
  note inv = reachableD(1) [OF assms(1)]
  obtain t where t: "p_archived_at p = Some t" using archived_at [OF inv assms(2,3)] .
  note dist = wf_idsD(1) [OF db_invD(1) [OF inv]]
  have p: "project_for_update (sys_db s) (p_id p) = Some p"
    unfolding project_for_update_def by (rule first_where_key [OF dist assms(2) refl])
  have "\<exists>q. get_project (restore_commit (sys_db s) (p_id p) subject now) (p_id p) True = Inr q"
  proof -
    have "first_where (\<lambda>q. p_id q = p_id p)
        (projects (restore_commit (sys_db s) (p_id p) subject now)) \<noteq> None"
      using assms(2) by (auto simp: first_where_None restore_commit_def bex_upd_where)
    then show ?thesis by (auto simp: get_project_def)
  qed
  then have "(\<exists>db' q. restore (sys_db s) (p_id p) subject days now = Inr (db', q)) \<longleftrightarrow>
      now - timedelta_days days \<le> t"
    by (auto simp: restore_def p t assms(3) Let_def)
  moreover have "(\<exists>db'. purge_expired (sys_db s) (p_id p) subject days now = Inr (db', ())) \<longleftrightarrow>
      t \<le> now - timedelta_days days"
    by (auto simp: purge_expired_def p t assms(3))
  ultimately show ?thesis using t by blast
qed

definition archived_db :: repo_db where
  "archived_db = state_after created_db (archive created_db 0 ''ann'' 15)"

lemma archived_reachable: "reachable \<lparr>sys_db = archived_db, sys_worker = None\<rparr>"
proof -
  have "is_ok (archive created_db 0 ''ann'' 15)" by code_simp
  from is_okD [OF this, of created_db] have "api_step created_db archived_db"
    unfolding archived_db_def by (blast intro: api_step.archive)
  then show ?thesis using created_reachable by (blast intro: reachable_api)
qed

lemma retention_window_witness:
  "\<exists>db' q. restore archived_db 0 ''ann'' 30 20 = Inr (db', q)"
proof -
  have "map (\<lambda>p. (p_id p, p_state p, p_archived_at p)) (projects archived_db) =
      [(0, Archived, Some 15)]" by code_simp
  then obtain p where p: "p \<in> set (projects archived_db)" "p_id p = 0" "p_state p = Archived"
    "p_archived_at p = Some 15"
    by (cases "projects archived_db") auto
  have "(20::int) - timedelta_days 30 \<le> 15" by code_simp
  with retention_window [OF archived_reachable, of p "''ann''" 30 20] p show ?thesis by simp
qed

text \<open>
  Purging removes every row of the project and no row of another: afterwards no project,
  membership, access request, snapshot, file, blob, upload session or build job refers to it,
  and the rows of every other project are untouched.
\<close>

theorem purge_is_exact:
  assumes r: "reachable s" and ok: "purge_expired (sys_db s) pid subject days now = Inr (db', ())"
  shows "projects db' = filter (\<lambda>p. p_id p \<noteq> pid) (projects (sys_db s)) \<and>
    memberships db' = filter (\<lambda>m. m_project_id m \<noteq> pid) (memberships (sys_db s)) \<and>
    access_requests db' = filter (\<lambda>r. r_project_id r \<noteq> pid) (access_requests (sys_db s)) \<and>
    snapshots db' = filter (\<lambda>d. s_project_id d \<noteq> pid) (snapshots (sys_db s)) \<and>
    blobs db' = filter (\<lambda>b. b_project_id b \<noteq> pid) (blobs (sys_db s)) \<and>
    snapshot_files db' = filter (\<lambda>f. f_project_id f \<noteq> pid) (snapshot_files (sys_db s)) \<and>
    build_jobs db' = filter (\<lambda>j. j_project_id j \<noteq> pid) (build_jobs (sys_db s)) \<and>
    (\<forall>u\<in>set (upload_sessions db'). u_project_id u \<noteq> pid)"
proof -
  note inv = reachableD(1) [OF r]
  note ids = db_invD(1) [OF inv] and refs = db_invD(2) [OF inv]
  have db': "db' = purge_commit (sys_db s) pid subject now"
    using ok by (auto elim: purge_expired_cases)
  have files: "(f_snapshot_id f \<in> set (project_snapshot_ids (sys_db s) pid)) = (f_project_id f = pid)"
    if "f \<in> set (snapshot_files (sys_db s))" for f
    by (rule project_snapshot_ids_iff [OF ids file_refsD [OF inv that]])
  have jobs: "(j_snapshot_id j \<in> set (project_snapshot_ids (sys_db s) pid)) = (j_project_id j = pid)"
    if "j \<in> set (build_jobs (sys_db s))" for j
  proof (rule project_snapshot_ids_iff [OF ids])
    show "(j_snapshot_id j, j_project_id j) \<in> snapshot_keys (snapshots (sys_db s))"
      using refs that by (auto simp: wf_refs_def)
  qed
  have "u_project_id u \<noteq> pid" if "u \<in> set (upload_sessions db')" for u
    using that by (auto simp: db' purge_tables(7) set_del_where project_session_ids_def)
  then show ?thesis
    unfolding db' purge_tables del_where_def using files jobs
    by (auto intro!: filter_cong)
qed

lemma purge_is_exact_witness:
  "\<exists>db'. purge_expired archived_db 0 ''root'' 30 9000000000000 = Inr (db', ()) \<and> snapshots db' = []"
proof -
  have "is_ok (purge_expired archived_db 0 ''root'' 30 9000000000000)" by code_simp
  then obtain db' where db': "purge_expired archived_db 0 ''root'' 30 9000000000000 = Inr (db', ())"
    using is_okD by fastforce
  have "map s_project_id (snapshots archived_db) = [0]" by code_simp
  then have "filter (\<lambda>d. s_project_id d \<noteq> 0) (snapshots archived_db) = []"
    by (auto simp: filter_empty_conv)
  then show ?thesis using db' purge_is_exact [OF archived_reachable, of 0 "''root''" 30 9000000000000 db']
    by simp
qed

section \<open>The files of a build\<close>

lemma sort_key_map: "sort_key k (map h xs) = map h (sort_key (\<lambda>x. k (h x)) xs)"
proof -
  have "insort_key k (h x) (map h ys) = map h (insort_key (\<lambda>x. k (h x)) x ys)" for x ys
    by (induction ys) auto
  then show ?thesis by (induction xs) (simp_all add: sort_key_def)
qed

definition blob_path :: "repo_db \<Rightarrow> snapshot_file_row \<Rightarrow> string" where
  "blob_path db f =
     b_storage_path (hd (filter (\<lambda>b. blob_key b = content_key f) (blobs db)))"

lemma content_blob:
  assumes "db_inv db" "f \<in> set (snapshot_files db)"
  shows "\<exists>b\<in>set (blobs db). blob_key b = content_key f"
proof -
  have "content_key f \<in> blob_key ` set (blobs db)"
    using db_invD(7) [OF assms(1)] imageI [OF assms(2), of content_key] unfolding files_ok_def by blast
  then show ?thesis by (auto simp: image_iff)
qed

text \<open>The join has one row for every file.\<close>

lemma snapshot_files_join:
  assumes inv: "db_inv db"
  shows "snapshot_files_of db snap = map (\<lambda>f. (f, blob_path db f))
    (sort_key f_logical_filename (filter (\<lambda>f. f_snapshot_id f = snap) (snapshot_files db)))"
proof -
  note files = db_invD(7) [OF inv]
  have one: "filter (\<lambda>b. b_project_id b = f_project_id f \<and> b_sha256 b = f_sha256 f) (blobs db) =
      [hd (filter (\<lambda>b. blob_key b = content_key f) (blobs db))]"
    if "f \<in> set (snapshot_files db)" for f
  proof -
    have eq: "(\<lambda>b. b_project_id b = f_project_id f \<and> b_sha256 b = f_sha256 f) =
        (\<lambda>b. blob_key b = content_key f)"
      by (auto simp: blob_key_def content_key_def)
    have "filter (\<lambda>b. blob_key b = content_key f) (blobs db) \<noteq> []"
      using content_blob [OF inv that] by (auto simp: filter_empty_conv)
    moreover have "length (filter (\<lambda>b. blob_key b = k) bs) \<le> 1" if "distinct (map blob_key bs)"
      for k and bs :: "blob_row list"
      using that by (induction bs) (auto simp: filter_empty_conv image_iff)
    then have "length (filter (\<lambda>b. blob_key b = content_key f) (blobs db)) \<le> 1"
      using files by (simp add: files_ok_def)
    ultimately show ?thesis unfolding eq
      by (cases "filter (\<lambda>b. blob_key b = content_key f) (blobs db)") auto
  qed
  have "[(f, b_storage_path b). f \<leftarrow> fs,
          b \<leftarrow> filter (\<lambda>b. b_project_id b = f_project_id f \<and> b_sha256 b = f_sha256 f) (blobs db)]
      = map (\<lambda>f. (f, blob_path db f)) fs" if "set fs \<subseteq> set (snapshot_files db)" for fs
    using that by (induction fs) (auto simp: one blob_path_def)
  then show ?thesis by (simp add: snapshot_files_of_def sort_key_map)
qed

text \<open>
  The worker builds the whole snapshot. In every reachable state the join of the files of a
  snapshot with the blobs has each file exactly once, in the order of the names, and with each
  the storage path of a blob of its own project with its digest.
\<close>

theorem build_files_complete:
  assumes "reachable s"
  shows "map fst (snapshot_files_of (sys_db s) snap) =
      sort_key f_logical_filename (filter (\<lambda>f. f_snapshot_id f = snap) (snapshot_files (sys_db s))) \<and>
    (\<forall>(f, path)\<in>set (snapshot_files_of (sys_db s) snap). \<exists>b\<in>set (blobs (sys_db s)).
       b_storage_path b = path \<and> b_project_id b = f_project_id f \<and> b_sha256 b = f_sha256 f)"
proof -
  let ?db = "sys_db s"
  note inv = reachableD(1) [OF assms]
  have "\<exists>b\<in>set (blobs ?db). b_storage_path b = blob_path ?db f \<and> b_project_id b = f_project_id f \<and>
      b_sha256 b = f_sha256 f" if "f \<in> set (snapshot_files ?db)" for f
  proof -
    let ?bs = "filter (\<lambda>b. blob_key b = content_key f) (blobs ?db)"
    have "?bs \<noteq> []" using content_blob [OF inv that] by (auto simp: filter_empty_conv)
    then have "hd ?bs \<in> set ?bs" by (rule hd_in_set)
    then show ?thesis
      by (auto simp: blob_path_def blob_key_def content_key_def intro!: bexI [of _ "hd ?bs"])
  qed
  then show ?thesis unfolding snapshot_files_join [OF inv] by (auto simp: comp_def)
qed

lemma build_files_complete_witness:
  "map (f_logical_filename \<circ> fst) (snapshot_files_of (sys_db building_system) 1) = [''a.md'']"
proof -
  have "map fst (snapshot_files_of (sys_db building_system) 1) =
      sort_key f_logical_filename
        (filter (\<lambda>f. f_snapshot_id f = 1) (snapshot_files (sys_db building_system)))"
    using build_files_complete [OF building_reachable] by blast
  moreover have "map f_logical_filename (sort_key f_logical_filename
        (filter (\<lambda>f. f_snapshot_id f = 1) (snapshot_files (sys_db building_system)))) = [''a.md'']"
    by code_simp
  ultimately show ?thesis by (metis map_map)
qed

section \<open>The order of the queue\<close>

text \<open>
  The queue is served one at a time and oldest first. A claim returns a build exactly when
  no job is running and one is queued; then it is a queued job none of the others was created
  before, and the claim changes no database otherwise.
\<close>

theorem claim_oldest_queued:
  "case claim_build db worker now of
     (db', None) \<Rightarrow> db' = db \<and>
       (building_jobs db \<noteq> [] \<or> (\<forall>j\<in>set (build_jobs db). j_status j \<noteq> BQueued))
   | (db', Some b) \<Rightarrow> building_jobs db = [] \<and>
       (\<exists>row\<in>set (build_jobs db). j_status row = BQueued \<and> b = build_record_of row \<and>
          db' = claim_commit db row worker now \<and>
          (\<forall>j\<in>set (build_jobs db). j_status j = BQueued \<longrightarrow> j_created_at row \<le> j_created_at j))"
proof -
  obtain db' r where c: "claim_build db worker now = (db', r)" by (cases "claim_build db worker now")
  from c show ?thesis
  proof (cases rule: claim_build_cases)
    case none
    have "building_jobs db \<noteq> [] \<or> (\<forall>j\<in>set (build_jobs db). j_status j \<noteq> BQueued)"
    proof (rule ccontr)
      assume "\<not> ?thesis"
      then have idle: "building_jobs db = []" and q: "\<exists>j\<in>set (build_jobs db). j_status j = BQueued"
        by auto
      then obtain row where row:
        "earliest_where (\<lambda>j. j_status j = BQueued) j_created_at (build_jobs db) = Some row"
        using earliest_where_None [of "\<lambda>j. j_status j = BQueued" j_created_at "build_jobs db"]
        by (cases "earliest_where (\<lambda>j. j_status j = BQueued) j_created_at (build_jobs db)") auto
      then have "count_where (\<lambda>j. j_id j = j_id row \<and> j_status j = BQueued) (build_jobs db) \<noteq> 0"
        using earliest_where_Some [OF row] by (auto simp: count_where_0)
      with c idle row none(2) show False by (simp add: claim_build_def building_jobs_count)
    qed
    then show ?thesis using c none by simp
  next
    case (claimed row)
    then show ?thesis using c earliest_where_least [OF claimed(4)] by auto
  qed
qed

lemma claim_oldest_queued_witness:
  "\<exists>row. row \<in> set (build_jobs submitted_db) \<and>
     claim_build submitted_db ''host-1'' 50 = (claim_commit submitted_db row ''host-1'' 50, Some sample_build)"
proof -
  have b: "snd (claim_build submitted_db ''host-1'' 50) = Some sample_build" by code_simp
  obtain d where c: "claim_build submitted_db ''host-1'' 50 = (d, Some sample_build)"
    using b by (cases "claim_build submitted_db ''host-1'' 50") simp
  show ?thesis
    using claim_oldest_queued [of submitted_db "''host-1''" 50] unfolding c by auto
qed

text \<open>
  A restart loses no build. When the worker restarts in a reachable state with a running
  job, the job is queued again with its snapshot, requester and expected generation, its project
  is queued, the files of every snapshot are as they were, and the queue has a build to claim.
\<close>

theorem restart_requeues:
  assumes r: "reachable s" and w: "sys_worker s = Some b"
  shows "\<exists>job\<in>set (build_jobs (recover_builds (sys_db s))).
      j_status job = BQueued \<and> j_worker_id job = None \<and> build_record_of job = b \<and>
      (\<exists>p\<in>set (projects (recover_builds (sys_db s))).
         p_id p = br_project_id b \<and> p_state p = Queued) \<and>
      (\<forall>sid. content_of (snapshot_files (recover_builds (sys_db s))) sid =
             content_of (snapshot_files (sys_db s)) sid) \<and>
      snd (claim_build (recover_builds (sys_db s)) worker now) \<noteq> None"
proof (rule worker_rows [OF reachableD(1) [OF r] worker_running [OF r w]])
  fix job p
  assume job: "job \<in> set (build_jobs (sys_db s))" "j_status job = BBuilding" "b = build_record_of job"
    and p: "p \<in> set (projects (sys_db s))" "p_id p = j_project_id job"
  let ?db = "recover_builds (sys_db s)"
  let ?job = "job\<lparr>j_status := BQueued, j_started_at := None, j_worker_id := None\<rparr>"
  have in_q: "?job \<in> set (build_jobs ?db)" using job(1,2) by (auto simp: set_upd_where)
  have "p \<in> set (projects (sys_db s)) \<inter> {p. \<exists>j\<in>set (build_jobs (sys_db s)).
      j_status j = BBuilding \<and> j_project_id j = p_id p}"
    using p job(1,2) by auto
  then have "p\<lparr>p_state := Queued\<rparr> \<in> set (projects ?db)"
    by (simp only: recover_tables set_upd_where Un_iff imageI Int_iff mem_Collect_eq) simp
  moreover have idle: "building_jobs ?db = []"
    by (auto simp: building_jobs_def filter_empty_conv set_upd_where)
  moreover have "content_of (snapshot_files ?db) sid = content_of (snapshot_files (sys_db s)) sid"
    for sid
    by (simp add: recover_builds_def Let_def content_of_upd lifecycle_values_def file_content_def)
  moreover have "snd (claim_build ?db worker now) \<noteq> None"
  proof
    assume "snd (claim_build ?db worker now) = None"
    with claim_oldest_queued [of ?db worker now]
    have "building_jobs ?db \<noteq> [] \<or> (\<forall>j\<in>set (build_jobs ?db). j_status j \<noteq> BQueued)"
      by (auto split: prod.splits option.splits)
    then have "j_status ?job \<noteq> BQueued" using in_q idle by blast
    then show False by simp
  qed
  ultimately show ?thesis
    using in_q p(2) job(3)
    by (intro bexI [OF _ in_q]) (auto simp: build_record_of_def intro!: bexI [of _ "p\<lparr>p_state := Queued\<rparr>"])
qed

lemma restart_requeues_witness:
  "snd (claim_build (recover_builds (sys_db building_system)) ''host-2'' 70) \<noteq> None"
  using restart_requeues [OF building_reachable building_system_rows(1), of "''host-2''" 70] by blast

section \<open>The build directory\<close>

text \<open>
  A build publishes its snapshot. When the build directory does not exist, the blobs of the
  snapshot are stored and the graph builder makes a version that is not published yet, the
  worker hands the builder exactly the files of the snapshot with the content of their blobs,
  completes the job, publishes the version and removes the build directory.
\<close>

theorem build_publishes:
  assumes r: "reachable s" and w: "sys_worker s = Some b"
    and files: "snapshot_files_of (sys_db s) (br_snapshot_id b) \<noteq> []"
    and fresh: "build_roots fs (br_project_id b, br_id b) = None"
    and stored: "copy_sources (blob_files fs) (snapshot_files_of (sys_db s) (br_snapshot_id b)) = Inr sources"
    and made: "builder b sources = Inr (gv, n)"
    and new: "(br_project_id b, gv) \<notin> set (version_dirs fs)"
  shows "\<exists>db' fs'. process_build builder (sys_db s) fs b now = Inr (db', fs') \<and>
    complete_build (sys_db s) b gv n now = Inr db' \<and>
    set (version_dirs fs') = insert (br_project_id b, gv) (set (version_dirs fs)) \<and>
    build_roots fs' = build_roots fs \<and> blob_files fs' = blob_files fs"
proof (rule complete_build_ok [OF reachableD(1) [OF r] worker_running [OF r w], of gv n now])
  fix job p snap
  assume ok: "complete_build (sys_db s) b gv n now =
    Inr (complete_build_commit (sys_db s) p job snap (br_requested_by b) gv n now)"
  have same: "(build_roots fs)((br_project_id b, br_id b) := None) = build_roots fs"
    using fresh by auto
  show ?thesis
    by (simp add: process_build_def build_version_def Let_def files fresh stored made new ok
        process_result_def same)
qed

lemma build_publishes_witness:
  "\<exists>db' fs'. process_build (\<lambda>b sources. Inr (''v1'', int (length sources))) (sys_db building_system)
      \<lparr>build_roots = Map.empty, version_dirs = [], blob_files = [''blobs/d1'' \<mapsto> ''abc'']\<rparr>
      sample_build 60 = Inr (db', fs') \<and> set (version_dirs fs') = {(0, ''v1'')}"
proof -
  let ?fs = "\<lparr>build_roots = Map.empty, version_dirs = [], blob_files = [''blobs/d1'' \<mapsto> ''abc'']\<rparr>"
  have "map (\<lambda>(f, path). (f_logical_filename f, path))
      (snapshot_files_of (sys_db building_system) (br_snapshot_id sample_build)) = [(''a.md'', ''blobs/d1'')]"
    by code_simp
  then obtain f where f: "snapshot_files_of (sys_db building_system) (br_snapshot_id sample_build)
      = [(f, ''blobs/d1'')]" "f_logical_filename f = ''a.md''"
    by (auto simp: map_eq_Cons_conv)
  have pid: "br_project_id sample_build = 0" by (simp add: sample_build_def)
  have "copy_sources (blob_files ?fs)
      (snapshot_files_of (sys_db building_system) (br_snapshot_id sample_build)) = Inr [(''a.md'', ''abc'')]"
    by (simp add: f)
  from build_publishes [OF building_reachable building_system_rows(1) _ _ this,
      of "\<lambda>b sources. Inr (''v1'', int (length sources))" "''v1''" 1 60]
  show ?thesis by (simp add: f pid) blast
qed

text \<open>
  A build directory that a crash left behind makes the retry fail. Recovery puts the job
  back into the queue, but nothing removes its build directory; when the worker claims it again
  the build raises on the existing directory, and the job fails as \<open>source_invalid\<close> whatever the
  snapshot and the graph builder are. Only that failure removes the directory.
\<close>

theorem crashed_build_fails:
  assumes "snapshot_files_of db (br_snapshot_id b) \<noteq> []"
    and "build_roots fs (br_project_id b, br_id b) \<noteq> None"
  shows "process_build builder db fs b now =
    (case fail_build db b ''source_invalid'' now of
       Inl e \<Rightarrow> Inl e
     | Inr db' \<Rightarrow>
         Inr (db', fs\<lparr>build_roots := (build_roots fs)((br_project_id b, br_id b) := None)\<rparr>))"
proof -
  have "error_code \<lparr>exc_message = ''[Errno 17] File exists: source'', exc_value_error = False\<rparr> =
      ''source_invalid''" by code_simp
  then show ?thesis using assms
    by (auto simp: process_build_def build_version_def Let_def process_result_def split: sum.split)
qed

lemma crashed_build_fails_witness:
  "\<exists>db' fs'. process_build (\<lambda>b sources. Inr (''v1'', 1)) (sys_db building_system)
      \<lparr>build_roots = [(0, 12) \<mapsto> []], version_dirs = [], blob_files = Map.empty\<rparr>
      sample_build 60 = Inr (db', fs') \<and> map j_status (build_jobs db') = [BFailed]"
proof -
  have files: "snapshot_files_of (sys_db building_system) (br_snapshot_id sample_build) \<noteq> []"
    by code_simp
  have root: "(br_project_id sample_build, br_id sample_build) = (0, 12)"
    by (simp add: sample_build_def)
  have "(case fail_build (sys_db building_system) sample_build ''source_invalid'' 60 of
      Inl _ \<Rightarrow> [] | Inr db' \<Rightarrow> map j_status (build_jobs db')) = [BFailed]" by code_simp
  then show ?thesis
    using crashed_build_fails [OF files, of
        "\<lparr>build_roots = [(0, 12) \<mapsto> []], version_dirs = [], blob_files = Map.empty\<rparr>"
        "\<lambda>b sources. Inr (''v1'', 1)" 60] root
    by (auto split: sum.splits)
qed

end
