(* ===== verification/Project_Storage.thy ===== *)
theory Project_Storage
  imports Queue_Properties
begin

text \<open>
  Upload storage (\<open>app/projects/storage.py\<close>): the temporary files of upload parts and the
  content-addressed blobs of a project. The hash, the conversion of a document
  (\<open>convert_document\<close>) and the character properties of Unicode are parameters.
\<close>

section \<open>File names\<close>

text \<open>The properties of \<open>unicodedata\<close> and of the encoding that the validation uses.\<close>

record text_props =
  nfc :: "string \<Rightarrow> string"
  control_char :: "char \<Rightarrow> bool"
  space_char :: "char \<Rightarrow> bool"
  utf8_length :: "string \<Rightarrow> nat"
  lower :: "string \<Rightarrow> string"

text \<open>\<open>str.strip\<close>.\<close>

definition strip :: "(char \<Rightarrow> bool) \<Rightarrow> string \<Rightarrow> string" where
  "strip space xs = rev (dropWhile space (rev (dropWhile space xs)))"

text \<open>
  \<open>Path(filename).suffix\<close> of a name without separators: from the last dot on, unless that dot
  is the first or the last character.
\<close>

definition path_suffix :: "string \<Rightarrow> string" where
  "path_suffix name =
     (let tail = takeWhile (\<lambda>c. c \<noteq> CHR ''.'') (rev name) in
      if length tail = length name \<or> length tail + 1 = length name \<or> tail = [] then []
      else CHR ''.'' # rev tail)"

definition media_types :: "(string \<times> string) list" where
  "media_types =
     [(''.md'', ''text/markdown''), (''.txt'', ''text/plain''), (''.html'', ''text/html''),
      (''.htm'', ''text/html''), (''.pdf'', ''application/pdf''),
      (''.docx'', ''application/vnd.openxmlformats-officedocument.wordprocessingml.document'')]"

datatype storage_error =
  UploadInvalid string
| RepositoryError repo_error
| FileMissing string

definition validate_filename :: "text_props \<Rightarrow> string \<Rightarrow> storage_error + string" where
  "validate_filename tp name =
     (if name = [] \<or> name \<in> {''.'', ''..''} \<or> name \<noteq> strip (space_char tp) name \<or>
         CHR ''/'' \<in> set name \<or> CHR 0x5C \<in> set name \<or> 255 < utf8_length tp name \<or>
         nfc tp name \<noteq> name \<or> list_ex (control_char tp) name
      then Inl (UploadInvalid ''The filename is invalid'')
      else if lower tp (path_suffix name) \<notin> fst ` set media_types
      then Inl (UploadInvalid ''The file format is unsupported'')
      else Inr name)"

section \<open>The files of the storage root\<close>

text \<open>
  The two subtrees \<open>uploads\<close> and \<open>blobs\<close> of the project directories, as maps from paths to
  content.
\<close>

record upload_store =
  temps :: "string \<rightharpoonup> string"
  blob_store :: "string \<rightharpoonup> string"

text \<open>The text of an identifier in a path, and the path of a blob below the storage root.\<close>

fun id_text :: "ident \<Rightarrow> string" where
  "id_text n =
     (if n < 10 then [''0123456789'' ! n] else id_text (n div 10) @ [''0123456789'' ! (n mod 10)])"

declare id_text.simps [simp del]

definition blob_target :: "ident \<Rightarrow> string \<Rightarrow> string" where
  "blob_target pid digest = id_text pid @ ''/blobs/'' @ digest"

record storage_limits =
  max_file_bytes :: int
  max_files :: nat
  max_total_bytes :: int

text \<open>
  The loop of \<open>receive_part\<close> over the chunks of the request body: \<open>Inl\<close> when the size check
  raises, with what was written so far.
\<close>

fun receive_chunks :: "int \<Rightarrow> int \<Rightarrow> string list \<Rightarrow> string \<Rightarrow> string + string" where
  "receive_chunks expected limit [] written = Inr written"
| "receive_chunks expected limit (chunk # chunks) written =
     (if chunk = [] then receive_chunks expected limit chunks written
      else
        let received = int (length written + length chunk) in
        if expected < received \<or> limit < received then Inl written
        else receive_chunks expected limit chunks (written @ chunk))"

text \<open>
  \<open>receive_part\<close>. \<open>path\<close> is the name that \<open>mkstemp\<close> gave, \<open>sha\<close> the hexadecimal SHA-256. The
  store comes back in every case: a raised error before the last step removes the temporary
  file, an error of \<open>mark_part_uploaded\<close> does not.
\<close>

definition receive_part ::
  "(string \<Rightarrow> string) \<Rightarrow> storage_limits \<Rightarrow> repo_db \<Rightarrow> upload_store \<Rightarrow> part_record \<Rightarrow> string \<Rightarrow>
     string list \<Rightarrow> time \<Rightarrow> upload_store \<times> (storage_error + repo_db)" where
  "receive_part sha limits db st part path chunks now =
     (if pr_state part \<noteq> PPending
      then (st, Inl (RepositoryError (ProjectConflict ''The upload part is no longer writable'')))
      else if pr_expires_at part \<le> now
      then (st, Inl (RepositoryError (ProjectConflict ''The upload session expired'')))
      else if max_file_bytes limits < pr_expected_size part
      then (st, Inl (UploadInvalid ''The file exceeds the configured size limit''))
      else
        (case receive_chunks (pr_expected_size part) (max_file_bytes limits) chunks [] of
           Inl _ \<Rightarrow> (st, Inl (UploadInvalid ''The uploaded byte size is invalid''))
         | Inr content \<Rightarrow>
             if int (length content) \<noteq> pr_expected_size part \<or> sha content \<noteq> pr_expected_sha256 part
             then (st, Inl (UploadInvalid ''The uploaded checksum or byte size does not match''))
             else
               let st' = st\<lparr>temps := (temps st)(path \<mapsto> content)\<rparr> in
               (case mark_part_uploaded db (pr_id part) path (int (length content)) of
                  Inl e \<Rightarrow> (st', Inl (RepositoryError e))
                | Inr (db', _) \<Rightarrow> (st', Inr db'))))"

section \<open>Validation and storage of an upload\<close>

text \<open>\<open>{item.logical_filename: item for item in existing}\<close>: the last file of a name.\<close>

definition by_name :: "snapshot_file_row list \<Rightarrow> (string \<times> snapshot_file_row) list" where
  "by_name existing =
     map (\<lambda>n. (n, the (find (\<lambda>f. f_logical_filename f = n) (rev existing))))
       (remdups (map f_logical_filename existing))"

definition final_count :: "snapshot_file_row list \<Rightarrow> upload_part_row list \<Rightarrow> nat" where
  "final_count existing parts =
     (let names = fst ` set (by_name existing); declared = up_logical_filename ` set parts
      in card ((names - declared) \<union> declared))"

definition final_total :: "snapshot_file_row list \<Rightarrow> upload_part_row list \<Rightarrow> int" where
  "final_total existing parts =
     sum_list (map (\<lambda>(_, f). f_size f)
       (filter (\<lambda>(n, _). n \<notin> up_logical_filename ` set parts) (by_name existing)))
     + sum_list (map up_expected_size parts)"

text \<open>
  One round of the loop over the parts: the bytes of the temporary file are verified and
  converted, then moved to the blob, or removed when the blob is there already.
\<close>

definition store_part ::
  "text_props \<Rightarrow> (string \<Rightarrow> string) \<Rightarrow> (string \<Rightarrow> string \<Rightarrow> bool) \<Rightarrow> ident \<Rightarrow> upload_part_row \<Rightarrow>
     upload_store \<Rightarrow> storage_error + upload_store" where
  "store_part tp sha convertible pid part st =
     (case validate_filename tp (up_logical_filename part) of
        Inl e \<Rightarrow> Inl e
      | Inr _ \<Rightarrow>
          (case (up_state part, up_temp_path part) of
             (PUploaded, Some path) \<Rightarrow>
               if path = [] then Inl (RepositoryError (ProjectConflict ''All upload parts must be uploaded''))
               else
               (case temps st path of
                  None \<Rightarrow> Inl (FileMissing path)
                | Some raw \<Rightarrow>
                    if int (length raw) \<noteq> up_expected_size part \<or> sha raw \<noteq> up_expected_sha256 part
                    then Inl (UploadInvalid ''An uploaded part failed final verification'')
                    else if \<not> convertible (up_logical_filename part) raw
                    then Inl (UploadInvalid ''The uploaded document is invalid'')
                    else
                      let target = blob_target pid (up_expected_sha256 part) in
                      Inr (st\<lparr>temps := (temps st)(path := None),
                              blob_store :=
                                (if blob_store st target \<noteq> None then blob_store st
                                 else (blob_store st)(target \<mapsto> raw))\<rparr>))
           | _ \<Rightarrow> Inl (RepositoryError (ProjectConflict ''All upload parts must be uploaded''))))"

text \<open>
  The loop: the store as the parts before an error left it, and the list of stored parts with
  their targets.
\<close>

fun store_parts ::
  "text_props \<Rightarrow> (string \<Rightarrow> string) \<Rightarrow> (string \<Rightarrow> string \<Rightarrow> bool) \<Rightarrow> ident \<Rightarrow> upload_part_row list \<Rightarrow>
     upload_store \<Rightarrow> upload_store \<times> (storage_error + (ident \<times> string) list)" where
  "store_parts tp sha convertible pid [] st = (st, Inr [])"
| "store_parts tp sha convertible pid (part # parts) st =
     (case store_part tp sha convertible pid part st of
        Inl e \<Rightarrow> (st, Inl e)
      | Inr st1 \<Rightarrow>
          (case store_parts tp sha convertible pid parts st1 of
             (st2, Inl e) \<Rightarrow> (st2, Inl e)
           | (st2, Inr stored) \<Rightarrow>
               (st2, Inr ((up_id part, blob_target pid (up_expected_sha256 part)) # stored))))"

definition validate_and_store ::
  "text_props \<Rightarrow> (string \<Rightarrow> string) \<Rightarrow> (string \<Rightarrow> string \<Rightarrow> bool) \<Rightarrow> storage_limits \<Rightarrow> repo_db \<Rightarrow>
     upload_store \<Rightarrow> ident \<Rightarrow> ident \<Rightarrow> time \<Rightarrow>
     upload_store \<times> (storage_error + (ident \<times> string) list)" where
  "validate_and_store tp sha convertible limits db st pid sid now =
     (case get_upload_session db pid sid of
        Inl e \<Rightarrow> (st, Inl (RepositoryError e))
      | Inr u \<Rightarrow>
          if u_state u = UFinalized then (st, Inr [])
          else if u_state u \<noteq> UOpen \<or> u_expires_at u \<le> now
          then (st, Inl (RepositoryError (ProjectConflict ''The upload session is not open'')))
          else
            (case list_files db pid of
               Inl e \<Rightarrow> (st, Inl (RepositoryError e))
             | Inr existing \<Rightarrow>
                 let parts = session_parts db sid in
                 if max_files limits < final_count existing parts
                 then (st, Inl (UploadInvalid ''The project exceeds the configured file-count limit''))
                 else if max_total_bytes limits < final_total existing parts
                 then (st, Inl (UploadInvalid ''The project exceeds the configured aggregate-size limit''))
                 else store_parts tp sha convertible pid parts st))"

text \<open>\<open>cleanup_paths\<close> and \<open>purge_project\<close>.\<close>

definition cleanup_paths :: "string list \<Rightarrow> upload_store \<Rightarrow> upload_store" where
  "cleanup_paths paths st = st\<lparr>temps := (\<lambda>p. if p \<in> set paths then None else temps st p)\<rparr>"

definition purge_storage :: "ident \<Rightarrow> upload_store \<Rightarrow> upload_store" where
  "purge_storage pid st =
     (let below = (\<lambda>path. take (length (id_text pid) + 1) path = id_text pid @ ''/'') in
      st\<lparr>temps := (\<lambda>p. if below p then None else temps st p),
         blob_store := (\<lambda>p. if below p then None else blob_store st p)\<rparr>)"

section \<open>Receiving\<close>

lemma receive_chunks_Inr:
  "receive_chunks expected limit chunks written = Inr content \<Longrightarrow> content = written @ concat chunks"
proof (induction chunks arbitrary: written)
  case (Cons chunk chunks)
  show ?case
  proof (cases "chunk = []")
    case False
    with Cons.prems have "receive_chunks expected limit chunks (written @ chunk) = Inr content"
      by (auto simp: Let_def split: if_splits)
    from Cons.IH [OF this] show ?thesis by simp
  qed (use Cons in simp)
qed simp

text \<open>No more bytes than allowed are ever written.\<close>

lemma receive_chunks_bound:
  "int (length written) \<le> min expected limit \<Longrightarrow>
     (case receive_chunks expected limit chunks written of
        Inl w \<Rightarrow> int (length w) \<le> min expected limit
      | Inr w \<Rightarrow> int (length w) \<le> min expected limit)"
proof (induction chunks arbitrary: written)
  case (Cons chunk chunks)
  then show ?case by (auto simp: Let_def)
qed simp

text \<open>
  A received part is complete or leaves no trace. When receiving succeeds, the request body
  has the declared size and digest, the temporary file holds exactly that body and the part is
  marked uploaded with that file; when it fails for any reason but the last database step, the
  stored files are as before. The bytes written never exceed the declared size.
\<close>

theorem receive_part_correct:
  assumes nonneg: "0 \<le> pr_expected_size part"
  shows "case receive_part sha limits db st part path chunks now of
      (st', Inr db') \<Rightarrow>
        st' = st\<lparr>temps := (temps st)(path \<mapsto> concat chunks)\<rparr> \<and>
        int (length (concat chunks)) = pr_expected_size part \<and>
        pr_expected_size part \<le> max_file_bytes limits \<and>
        sha (concat chunks) = pr_expected_sha256 part \<and> now < pr_expires_at part \<and>
        mark_part_uploaded db (pr_id part) path (pr_expected_size part) = Inr (db', ())
    | (st', Inl e) \<Rightarrow>
        st' = st \<or> (\<exists>m. e = RepositoryError m \<and>
          mark_part_uploaded db (pr_id part) path (pr_expected_size part) = Inl m)"
proof (cases "receive_chunks (pr_expected_size part) (max_file_bytes limits) chunks []")
  case (Inl w)
  then show ?thesis by (auto simp: receive_part_def)
next
  case (Inr content)
  have "content = concat chunks" using receive_chunks_Inr [OF Inr] by simp
  with Inr show ?thesis
    by (auto simp: receive_part_def Let_def split: sum.splits)
qed


lemma receive_part_correct_witness:
  "case receive_part (\<lambda>x. x) \<lparr>max_file_bytes = 9, max_files = 5, max_total_bytes = 20\<rparr> declared_db
      \<lparr>temps = Map.empty, blob_store = Map.empty\<rparr>
      \<lparr>pr_id = 6, pr_session_id = 5, pr_project_id = 0, pr_snapshot_id = 1, pr_filename = ''a.md'',
       pr_media_type = ''text/markdown'', pr_expected_size = 3, pr_expected_sha256 = ''abc'',
       pr_state = PPending, pr_temp_path = None, pr_expires_at = 100\<rparr>
      ''tmp/6'' [''ab'', ''c''] 30 of
      (st', Inr db') \<Rightarrow> temps st' ''tmp/6'' = Some ''abc'' | (st', Inl e) \<Rightarrow> False"
proof -
  let ?part = "\<lparr>pr_id = 6, pr_session_id = 5, pr_project_id = 0, pr_snapshot_id = 1, pr_filename = ''a.md'',
       pr_media_type = ''text/markdown'', pr_expected_size = 3, pr_expected_sha256 = ''abc'',
       pr_state = PPending, pr_temp_path = None, pr_expires_at = 100\<rparr>"
  let ?st = "\<lparr>temps = Map.empty, blob_store = Map.empty\<rparr>"
  let ?r = "receive_part (\<lambda>x. x) \<lparr>max_file_bytes = 9, max_files = 5, max_total_bytes = 20\<rparr> declared_db
      ?st ?part ''tmp/6'' [''ab'', ''c''] 30"
  have "(case snd ?r of Inr _ \<Rightarrow> True | Inl _ \<Rightarrow> False)" by code_simp
  then obtain st' db' where r: "?r = (st', Inr db')" by (cases ?r) (auto split: sum.splits)
  from receive_part_correct [where part = ?part and sha = "\<lambda>x. x" and
      limits = "\<lparr>max_file_bytes = 9, max_files = 5, max_total_bytes = 20\<rparr>" and db = declared_db and
      st = ?st and path = "''tmp/6''" and chunks = "[''ab'', ''c'']" and now = 30]
  show ?thesis unfolding r by simp
qed

section \<open>Storing\<close>

text \<open>The blobs are addressed by their content: a blob of a project has the digest in its path.\<close>

definition content_addressed :: "(string \<Rightarrow> string) \<Rightarrow> upload_store \<Rightarrow> bool" where
  "content_addressed sha st \<longleftrightarrow>
     (\<forall>pid digest content. blob_store st (blob_target pid digest) = Some content \<longrightarrow> sha content = digest)"

lemma id_text_no_slash: "CHR ''/'' \<notin> set (id_text n)"
proof (induction n rule: id_text.induct)
  case (1 n)
  have d: "''0123456789'' ! k \<noteq> CHR ''/''" if "k < 10" for k :: nat
  proof -
    have "''0123456789'' ! k \<in> set ''0123456789''" by (rule nth_mem) (use that in simp)
    then show ?thesis by auto
  qed
  show ?case using 1 d [of n] d [of "n mod 10"] by (subst id_text.simps) auto
qed

lemma blob_target_inject: "blob_target p d = blob_target q e \<Longrightarrow> d = e"
proof -
  assume eq: "blob_target p d = blob_target q e"
  have split: "takeWhile (\<lambda>c. c \<noteq> CHR ''/'') (id_text r @ CHR ''/'' # xs) = id_text r" for r xs
    using id_text_no_slash [of r] by (subst takeWhile_append2) auto
  have "id_text p = id_text q"
    using arg_cong [OF eq, of "takeWhile (\<lambda>c. c \<noteq> CHR ''/'')"] split
    by (simp add: blob_target_def)
  then show ?thesis using eq by (simp add: blob_target_def)
qed

lemma store_part_Inr:
  assumes "store_part tp sha convertible pid part st = Inr st'"
  obtains path raw where "up_state part = PUploaded" "up_temp_path part = Some path" "path \<noteq> []"
    "temps st path = Some raw" "sha raw = up_expected_sha256 part"
    "int (length raw) = up_expected_size part" "convertible (up_logical_filename part) raw"
    "\<exists>n. validate_filename tp (up_logical_filename part) = Inr n"
    "temps st' = (temps st)(path := None)"
    "blob_store st' = (if blob_store st (blob_target pid (up_expected_sha256 part)) \<noteq> None
       then blob_store st else (blob_store st)(blob_target pid (up_expected_sha256 part) \<mapsto> raw))"
  using assms
  by (auto simp: store_part_def Let_def split: sum.splits part_state.splits option.splits if_split_asm)

text \<open>What every part does to the store.\<close>

definition store_grows :: "(string \<Rightarrow> string) \<Rightarrow> upload_store \<Rightarrow> upload_store \<Rightarrow> bool" where
  "store_grows sha st st' \<longleftrightarrow>
     (content_addressed sha st \<longrightarrow> content_addressed sha st') \<and>
     blob_store st \<subseteq>\<^sub>m blob_store st' \<and> temps st' \<subseteq>\<^sub>m temps st"

lemma store_grows_refl [simp]: "store_grows sha st st"
  by (simp add: store_grows_def)

lemma store_grows_trans: "store_grows sha a b \<Longrightarrow> store_grows sha b c \<Longrightarrow> store_grows sha a c"
  by (auto simp: store_grows_def intro: map_le_trans)

lemma store_part_grows:
  assumes "store_part tp sha convertible pid part st = Inr st'"
  shows "store_grows sha st st'"
  using assms
proof (cases rule: store_part_Inr)
  case (1 path raw)
  then show ?thesis
    by (auto simp: store_grows_def content_addressed_def map_le_def dom_def
        dest: blob_target_inject split: if_splits)
qed

lemma store_parts_spec:
  "case store_parts tp sha convertible pid parts st of
     (st', r) \<Rightarrow> store_grows sha st st' \<and>
       (\<forall>stored. r = Inr stored \<longrightarrow>
          stored = map (\<lambda>part. (up_id part, blob_target pid (up_expected_sha256 part))) parts \<and>
          (\<forall>part\<in>set parts.
             blob_store st' (blob_target pid (up_expected_sha256 part)) \<noteq> None \<and>
             (\<exists>n. validate_filename tp (up_logical_filename part) = Inr n) \<and>
             (\<exists>path. up_temp_path part = Some path \<and> temps st' path = None)))"
proof (induction parts arbitrary: st)
  case (Cons part parts)
  show ?case
  proof (cases "store_part tp sha convertible pid part st")
    case (Inr st1)
    note grow = store_part_grows [OF Inr]
    obtain st2 r where rest: "store_parts tp sha convertible pid parts st1 = (st2, r)"
      by (cases "store_parts tp sha convertible pid parts st1")
    have IH: "store_grows sha st1 st2" using Cons.IH [of st1] by (simp add: rest)
    have b: "blob_store st1 k \<noteq> None \<Longrightarrow> blob_store st2 k \<noteq> None" for k
      using IH by (auto simp: store_grows_def map_le_def dom_def)
    have t: "temps st1 k = None \<Longrightarrow> temps st2 k = None" for k
      using IH by (fastforce simp: store_grows_def map_le_def dom_def)
    from Inr obtain path where "up_temp_path part = Some path" "temps st1 path = None"
      "blob_store st1 (blob_target pid (up_expected_sha256 part)) \<noteq> None"
      "\<exists>n. validate_filename tp (up_logical_filename part) = Inr n"
      by (cases rule: store_part_Inr) auto
    then show ?thesis
      using Cons.IH [of st1] store_grows_trans [OF grow IH] b t
      by (auto simp: Inr rest split: sum.splits)
  qed simp
qed simp

lemma validate_and_store_cases:
  assumes "validate_and_store tp sha convertible limits db st pid sid now = (st', r)"
  obtains (error) e where "st' = st" "r = Inl e"
  | (finished) u where "get_upload_session db pid sid = Inr u" "u_state u = UFinalized" "st' = st" "r = Inr []"
  | (parts) u existing where "get_upload_session db pid sid = Inr u" "u_state u = UOpen"
      "now < u_expires_at u" "list_files db pid = Inr existing"
      "final_count existing (session_parts db sid) \<le> max_files limits"
      "final_total existing (session_parts db sid) \<le> max_total_bytes limits"
      "store_parts tp sha convertible pid (session_parts db sid) st = (st', r)"
  using assms
  by (auto simp: validate_and_store_def Let_def split: sum.splits if_split_asm)

text \<open>
  C8. Storing an upload is safe at every point and complete on success. Whatever happens, blobs
  stay content-addressed, no stored blob changes or goes, and no temporary file appears. When
  it succeeds on an open session, the limits on the number and the total size of the project's
  files hold with the upload merged in, every file name is valid, and for every part, in
  order, the result names a blob that exists and has the digest declared for the part.
\<close>

theorem validate_and_store_correct:
  assumes ca: "content_addressed sha st"
    and run: "validate_and_store tp sha convertible limits db st pid sid now = (st', r)"
  shows "content_addressed sha st' \<and> blob_store st \<subseteq>\<^sub>m blob_store st' \<and> temps st' \<subseteq>\<^sub>m temps st \<and>
    (\<forall>stored u. r = Inr stored \<longrightarrow> get_upload_session db pid sid = Inr u \<longrightarrow> u_state u = UOpen \<longrightarrow>
       (\<exists>existing. list_files db pid = Inr existing \<and>
          final_count existing (session_parts db sid) \<le> max_files limits \<and>
          final_total existing (session_parts db sid) \<le> max_total_bytes limits) \<and>
       stored = map (\<lambda>part. (up_id part, blob_target pid (up_expected_sha256 part))) (session_parts db sid) \<and>
       (\<forall>part\<in>set (session_parts db sid).
          (\<exists>n. validate_filename tp (up_logical_filename part) = Inr n) \<and>
          (\<exists>content. blob_store st' (blob_target pid (up_expected_sha256 part)) = Some content \<and>
                     sha content = up_expected_sha256 part)))"
  using run
proof (cases rule: validate_and_store_cases)
  case (error e)
  then show ?thesis using ca by simp
next
  case (finished u)
  then show ?thesis using ca by simp
next
  case (parts u existing)
  have spec: "store_grows sha st st'" "\<And>stored. r = Inr stored \<Longrightarrow>
      stored = map (\<lambda>part. (up_id part, blob_target pid (up_expected_sha256 part))) (session_parts db sid) \<and>
      (\<forall>part\<in>set (session_parts db sid).
         blob_store st' (blob_target pid (up_expected_sha256 part)) \<noteq> None \<and>
         (\<exists>n. validate_filename tp (up_logical_filename part) = Inr n))"
    using store_parts_spec [where tp = tp and sha = sha and convertible = convertible and pid = pid and
        parts = "session_parts db sid" and st = st] parts(7) by auto
  then have ca': "content_addressed sha st'" using ca by (simp add: store_grows_def)
  then have "\<exists>content. blob_store st' (blob_target pid d) = Some content \<and> sha content = d"
    if "blob_store st' (blob_target pid d) \<noteq> None" for d
    using that by (auto simp: content_addressed_def)
  then show ?thesis using spec ca' parts by (fastforce simp: store_grows_def)
qed

definition ascii_props :: text_props where
  "ascii_props = \<lparr>nfc = (\<lambda>x. x), control_char = (\<lambda>c. (of_char c :: nat) < 32),
     space_char = (\<lambda>c. c = CHR '' ''), utf8_length = length, lower = (\<lambda>x. x)\<rparr>"

definition sample_limits :: storage_limits where
  "sample_limits = \<lparr>max_file_bytes = 9, max_files = 5, max_total_bytes = 20\<rparr>"

definition sample_store :: upload_store where
  "sample_store = \<lparr>temps = [''tmp/6'' \<mapsto> ''abc''], blob_store = Map.empty\<rparr>"

lemma sample_stored:
  "snd (validate_and_store ascii_props (\<lambda>_. ''d1'') (\<lambda>_ _. True) sample_limits uploaded_db sample_store 0 5 30)
     = Inr [(6, ''0/blobs/d1'')]"
  by code_simp

lemma sample_upload_open:
  "\<exists>u. get_upload_session uploaded_db 0 5 = Inr u \<and> u_state u = UOpen"
proof -
  have "(case get_upload_session uploaded_db 0 5 of Inr u \<Rightarrow> u_state u = UOpen | Inl _ \<Rightarrow> False)"
    by code_simp
  then show ?thesis by (auto split: sum.splits)
qed

lemma validate_and_store_correct_witness:
  "\<exists>st'. content_addressed (\<lambda>_. ''d1'') st' \<and>
     validate_and_store ascii_props (\<lambda>_. ''d1'') (\<lambda>_ _. True) sample_limits uploaded_db sample_store 0 5 30
       = (st', Inr [(6, ''0/blobs/d1'')])"
proof -
  obtain st' where run: "validate_and_store ascii_props (\<lambda>_. ''d1'') (\<lambda>_ _. True) sample_limits uploaded_db
      sample_store 0 5 30 = (st', Inr [(6, ''0/blobs/d1'')])"
    using sample_stored by (metis prod.collapse)
  have "content_addressed (\<lambda>_. ''d1'') sample_store"
    by (simp add: content_addressed_def sample_store_def)
  from validate_and_store_correct [OF this run] run show ?thesis by blast
qed

text \<open>
  Storing an upload cannot be repeated. Once it succeeded on an open session with parts, the
  temporary files are gone, and a second attempt on the same session, as a client makes it when
  the database refused the finalization in between, stops at the first part with a missing file.
\<close>

theorem second_store_fails:
  assumes run: "validate_and_store tp sha convertible limits db st pid sid now = (st', Inr stored)"
    and session: "get_upload_session db pid sid = Inr u" "u_state u = UOpen" "now2 < u_expires_at u"
    and parts: "session_parts db sid = part # rest"
  shows "\<exists>path. up_temp_path part = Some path \<and>
    validate_and_store tp sha convertible limits db st' pid sid now2 = (st', Inl (FileMissing path))"
  using run
proof (cases rule: validate_and_store_cases)
  case (parts v existing)
  from parts(7) obtain st1 where first: "store_part tp sha convertible pid part st = Inr st1"
    by (auto simp: assms(5) split: sum.splits prod.splits)
  from first obtain path where path: "up_state part = PUploaded" "up_temp_path part = Some path" "path \<noteq> []"
    "\<exists>n. validate_filename tp (up_logical_filename part) = Inr n"
    by (cases rule: store_part_Inr) auto
  have gone: "temps st' path = None"
    using store_parts_spec [where tp = tp and sha = sha and convertible = convertible and pid = pid and
        parts = "session_parts db sid" and st = st] parts(7) assms(5) path(2)
    by auto
  have "store_part tp sha convertible pid part st' = Inl (FileMissing path)"
    using path gone by (auto simp: store_part_def)
  then have "validate_and_store tp sha convertible limits db st' pid sid now2 = (st', Inl (FileMissing path))"
    using parts(4-6) session by (simp add: validate_and_store_def Let_def assms(5))
  with path(2) show ?thesis by blast
qed (use session in auto)

lemma second_store_fails_witness:
  "\<exists>st'. fst (validate_and_store ascii_props (\<lambda>_. ''d1'') (\<lambda>_ _. True) sample_limits uploaded_db sample_store 0 5 30) = st' \<and>
     validate_and_store ascii_props (\<lambda>_. ''d1'') (\<lambda>_ _. True) sample_limits uploaded_db st' 0 5 31
       = (st', Inl (FileMissing ''tmp/6''))"
proof -
  let ?run = "validate_and_store ascii_props (\<lambda>_. ''d1'') (\<lambda>_ _. True) sample_limits uploaded_db sample_store 0 5 30"
  have run: "?run = (fst ?run, Inr [(6, ''0/blobs/d1'')])" using sample_stored by (metis prod.collapse)
  have e: "(case get_upload_session uploaded_db 0 5 of Inr u \<Rightarrow> u_state u = UOpen \<and> 31 < u_expires_at u | Inl _ \<Rightarrow> False)"
    by code_simp
  then obtain u where u: "get_upload_session uploaded_db 0 5 = Inr u" "u_state u = UOpen" "31 < u_expires_at u"
    by (auto split: sum.splits)
  have "map up_temp_path (session_parts uploaded_db 5) = [Some ''tmp/6'']" by code_simp
  then obtain part where part: "session_parts uploaded_db 5 = [part]" "up_temp_path part = Some ''tmp/6''"
    by auto
  from second_store_fails [OF run u part(1)] part(2) show ?thesis by simp
qed

text \<open>Purging the storage of a project leaves the blobs of the others.\<close>

lemma id_text_inject: "id_text m @ CHR ''/'' # xs = id_text n @ CHR ''/'' # ys \<Longrightarrow> id_text m = id_text n"
proof -
  assume eq: "id_text m @ CHR ''/'' # xs = id_text n @ CHR ''/'' # ys"
  have split: "takeWhile (\<lambda>c. c \<noteq> CHR ''/'') (id_text r @ CHR ''/'' # xs) = id_text r" for r xs
    using id_text_no_slash [of r] by (subst takeWhile_append2) auto
  show ?thesis using arg_cong [OF eq, of "takeWhile (\<lambda>c. c \<noteq> CHR ''/'')"] split by simp
qed

lemma purge_storage_blobs:
  "blob_store (purge_storage pid st) (blob_target q d) =
     (if id_text q = id_text pid then None else blob_store st (blob_target q d))"
proof -
  have "take (length (id_text pid) + 1) (blob_target q d) = id_text pid @ ''/'' \<longleftrightarrow> id_text q = id_text pid"
  proof
    assume t: "take (length (id_text pid) + 1) (blob_target q d) = id_text pid @ ''/''"
    then have "id_text q @ CHR ''/'' # ''blobs/'' @ d
        = id_text pid @ CHR ''/'' # drop (length (id_text pid) + 1) (blob_target q d)"
      by (metis append_take_drop_id append.assoc append_Cons append_Nil blob_target_def)
    then show "id_text q = id_text pid" by (rule id_text_inject)
  qed (simp add: blob_target_def)
  then show ?thesis by (simp add: purge_storage_def Let_def)
qed

end
