(* ===== verification/Text_Points.thy ===== *)
theory Text_Points
  imports Base
begin

text \<open>
  Python strings as lists of code points, with the operations of \<open>str\<close> that the services use:
  \<open>strip\<close>, \<open>split\<close> without arguments, \<open>join\<close> and slices; and dictionaries filled in order.
\<close>

type_synonym ustring = "nat list"

definition ascii :: "string \<Rightarrow> ustring" where
  "ascii s = map of_char s"

text \<open>\<open>str.isspace\<close> of one character.\<close>

definition is_space :: "nat \<Rightarrow> bool" where
  "is_space c \<longleftrightarrow> 9 \<le> c \<and> c \<le> 13 \<or> 28 \<le> c \<and> c \<le> 32 \<or> c = 133 \<or> c = 160 \<or> c = 5760 \<or>
     8192 \<le> c \<and> c \<le> 8202 \<or> c = 8232 \<or> c = 8233 \<or> c = 8239 \<or> c = 8287 \<or> c = 12288"

lemma is_space_32 [simp]: "is_space 32"
  by (simp add: is_space_def)

definition lstrip :: "ustring \<Rightarrow> ustring" where
  "lstrip xs = dropWhile is_space xs"

definition rstrip :: "ustring \<Rightarrow> ustring" where
  "rstrip xs = rev (dropWhile is_space (rev xs))"

definition strip_text :: "ustring \<Rightarrow> ustring" where
  "strip_text xs = rstrip (lstrip xs)"

text \<open>\<open>xs.split()\<close>.\<close>

function split_words :: "ustring \<Rightarrow> ustring list" where
  "split_words xs =
     (case dropWhile is_space xs of
        [] \<Rightarrow> []
      | c # cs \<Rightarrow>
          takeWhile (\<lambda>d. \<not> is_space d) (c # cs) #
          split_words (dropWhile (\<lambda>d. \<not> is_space d) (c # cs)))"
  by pat_completeness auto
termination
proof (relation "measure length")
  fix xs :: ustring and c cs assume a: "dropWhile is_space xs = c # cs"
  then have c: "\<not> is_space c" using hd_dropWhile [of is_space xs] by simp
  have "length (dropWhile (\<lambda>d. \<not> is_space d) (c # cs)) \<le> length cs"
    using c length_dropWhile_le [of "\<lambda>d. \<not> is_space d" cs] by simp
  also have "\<dots> < length xs" using length_dropWhile_le [of is_space xs] a by simp
  finally show "(dropWhile (\<lambda>d. \<not> is_space d) (c # cs), xs) \<in> measure length" by simp
qed simp

declare split_words.simps [simp del]

fun join_text :: "ustring \<Rightarrow> ustring list \<Rightarrow> ustring" where
  "join_text sep [] = []"
| "join_text sep [w] = w"
| "join_text sep (w # v # ws) = w @ sep @ join_text sep (v # ws)"

text \<open>The first character that is no space.\<close>

lemma dropWhile_space_Cons:
  "dropWhile is_space xs = c # cs \<Longrightarrow> c \<in> set xs \<and> \<not> is_space c"
  using hd_dropWhile [of is_space xs] set_dropWhileD [of c is_space xs] by simp

lemma split_words_word: "w \<in> set (split_words xs) \<Longrightarrow> w \<noteq> [] \<and> (\<forall>c\<in>set w. \<not> is_space c)"
proof (induction xs rule: split_words.induct)
  case (1 xs)
  show ?case
  proof (cases "dropWhile is_space xs")
    case Nil
    then have "split_words xs = []" by (subst split_words.simps) (simp only: list.case)
    then show ?thesis using "1.prems" by simp
  next
    case (Cons c cs)
    have c: "\<not> is_space c" using hd_dropWhile [of is_space xs] Cons by simp
    from "1.prems" consider "w = takeWhile (\<lambda>d. \<not> is_space d) (c # cs)"
      | "w \<in> set (split_words (dropWhile (\<lambda>d. \<not> is_space d) (c # cs)))"
      by (auto simp: split_words.simps [of xs] Cons)
    then show ?thesis
    proof cases
      case 1
      then show ?thesis using c by (auto dest: set_takeWhileD)
    next
      case 2
      then show ?thesis using "1.IH" [OF Cons] by blast
    qed
  qed
qed

lemma split_words_Nil: "split_words xs = [] \<longleftrightarrow> (\<forall>c\<in>set xs. is_space c)"
  by (subst split_words.simps)
     (auto simp: dropWhile_eq_Nil_conv split: list.split dest: dropWhile_space_Cons)

lemma length_rstrip [simp]: "length (rstrip xs) \<le> length xs"
  using length_dropWhile_le [of is_space "rev xs"] by (simp add: rstrip_def)

lemma length_strip_text: "length (strip_text xs) \<le> length xs"
  using length_rstrip [of "lstrip xs"] length_dropWhile_le [of is_space xs]
  unfolding strip_text_def lstrip_def by (rule le_trans)

lemma set_rstrip: "set (rstrip xs) \<subseteq> set xs"
  by (auto simp: rstrip_def dest: set_dropWhileD)

lemma set_strip_text: "set (strip_text xs) \<subseteq> set xs"
  using set_rstrip by (fastforce simp: strip_text_def lstrip_def dest: set_dropWhileD)

text \<open>A ustring with a character that is no space stays non-empty.\<close>

lemma strip_text_Nil: "strip_text xs = [] \<longleftrightarrow> (\<forall>c\<in>set xs. is_space c)"
proof -
  have "strip_text xs = [] \<longleftrightarrow> (\<forall>c\<in>set (dropWhile is_space xs). is_space c)"
    by (simp add: strip_text_def rstrip_def lstrip_def)
  also have "\<dots> \<longleftrightarrow> (\<forall>c\<in>set xs. is_space c)"
    by (cases "dropWhile is_space xs") (auto simp: dropWhile_eq_Nil_conv dest: dropWhile_space_Cons set_dropWhileD)
  finally show ?thesis .
qed

lemma rstrip_prefix: "\<exists>ys. xs = rstrip xs @ ys"
  by (metis rev_append rev_rev_ident rstrip_def takeWhile_dropWhile_id)

section \<open>Dictionaries\<close>

text \<open>
  The values of a dictionary filled with \<open>setdefault\<close>: the first of each key, in order;
  \<open>unique\<close> is \<open>list(dict.fromkeys(xs))\<close>.
\<close>

fun first_by :: "('a \<Rightarrow> 'k) \<Rightarrow> 'a list \<Rightarrow> 'a list" where
  "first_by f [] = []"
| "first_by f (x # xs) = x # filter (\<lambda>y. f y \<noteq> f x) (first_by f xs)"

definition unique :: "'a list \<Rightarrow> 'a list" where
  "unique xs = first_by (\<lambda>x. x) xs"

lemma first_by_set: "set (first_by f xs) \<subseteq> set xs"
  by (induction xs) auto

lemma first_by_image [simp]: "f ` set (first_by f xs) = f ` set xs"
proof (induction xs)
  case (Cons x xs)
  have "f ` set (first_by f (x # xs)) = insert (f x) {k \<in> f ` set (first_by f xs). k \<noteq> f x}"
    by auto
  then show ?case by (auto simp: Cons.IH)
qed simp

lemma first_by_distinct: "distinct (map f (first_by f xs))"
proof (induction xs)
  case (Cons x xs)
  then show ?case by (auto simp: distinct_map_filter)
qed simp

lemma set_unique [simp]: "set (unique xs) = set xs"
  using first_by_image [of "\<lambda>x. x" xs] by (simp add: unique_def)

lemma distinct_unique: "distinct (unique xs)"
  using first_by_distinct [of "\<lambda>x. x" xs] by (simp add: unique_def)

section \<open>Slices\<close>

text \<open>\<open>xs[:n]\<close> for an integer.\<close>

definition py_take :: "int \<Rightarrow> 'a list \<Rightarrow> 'a list" where
  "py_take n xs = (if 0 \<le> n then take (nat n) xs else take (nat (int (length xs) + n)) xs)"

end
