(* ===== verification/Conversation_Model.thy ===== *)
theory Conversation_Model
  imports Text_Points
begin

text \<open>
  What the two conversation stores share (\<open>app/store/protocol.py\<close>, \<open>app/models/conversation.py\<close>
  and the module-level functions that \<open>conversations.py\<close> and \<open>sqlalchemy.py\<close> both define):
  messages and conversations, the pairing of messages into exchanges, the selection of the
  history, the pruning of old exchanges and the name derived from the first message.
\<close>

section \<open>Data\<close>

datatype message_role = RoleUser | RoleAssistant

datatype message_status = MPending | MCompleted | MFailed

text \<open>The \<open>result\<close> is stored and returned as it is; it stands here as its JSON text.\<close>

record message =
  msg_id :: ident
  msg_role :: message_role
  msg_content :: ustring
  msg_status :: message_status
  msg_created_at :: time
  msg_result :: "string option"

record conversation =
  c_id :: ident
  c_project_id :: string
  c_name :: ustring
  c_created_at :: time
  c_updated_at :: time
  c_archived_at :: "time option"
  c_messages :: "message list"

record conversation_scope =
  scope_project_id :: string
  scope_graph_version :: "string option"

datatype store_error =
  ConversationNotFound ident
| ConversationRequestConflict ident string
| ConversationStateConflict ident
| InvalidCursor

section \<open>Exchanges\<close>

fun exchanges_from :: "message option \<Rightarrow> message list \<Rightarrow> (message \<times> message) list" where
  "exchanges_from pending [] = []"
| "exchanges_from pending (m # ms) =
     (if msg_role m = RoleUser \<and> msg_status m = MCompleted then exchanges_from (Some m) ms
      else if msg_role m = RoleAssistant \<and> msg_status m = MCompleted
      then (case pending of
              None \<Rightarrow> exchanges_from None ms
            | Some u \<Rightarrow> (u, m) # exchanges_from None ms)
      else exchanges_from pending ms)"

definition complete_exchanges :: "message list \<Rightarrow> (message \<times> message) list" where
  "complete_exchanges ms = exchanges_from None ms"

definition exchange_chars :: "message \<times> message \<Rightarrow> nat" where
  "exchange_chars e = length (msg_content (fst e)) + length (msg_content (snd e))"

section \<open>History\<close>

text \<open>\<open>exchanges[-n:]\<close>: the last \<open>n\<close>, and all of them when \<open>n\<close> is zero.\<close>

definition py_last :: "nat \<Rightarrow> 'a list \<Rightarrow> 'a list" where
  "py_last n xs = (if n = 0 then xs else drop (length xs - n) xs)"

text \<open>The loop of \<open>get_history\<close>, newest exchange first, with the selection in order of time.\<close>

fun pick_history ::
  "nat \<Rightarrow> nat \<Rightarrow> (message \<times> message) list \<Rightarrow> (message \<times> message) list \<Rightarrow> (message \<times> message) list"
where
  "pick_history limit used selected [] = selected"
| "pick_history limit used selected (e # es) =
     (if selected \<noteq> [] \<and> limit < used + exchange_chars e then selected
      else if limit < exchange_chars e then pick_history limit used selected es
      else pick_history limit (used + exchange_chars e) (e # selected) es)"

definition selected_exchanges :: "nat \<Rightarrow> nat \<Rightarrow> message list \<Rightarrow> (message \<times> message) list" where
  "selected_exchanges max_turns max_chars ms =
     pick_history max_chars 0 [] (rev (py_last max_turns (complete_exchanges ms)))"

definition history_of :: "nat \<Rightarrow> nat \<Rightarrow> message list \<Rightarrow> message list" where
  "history_of max_turns max_chars ms =
     concat (map (\<lambda>(u, a). [u, a]) (selected_exchanges max_turns max_chars ms))"

section \<open>Pruning\<close>

definition prune_messages :: "nat \<Rightarrow> message list \<Rightarrow> message list" where
  "prune_messages max_turns ms =
     (let es = complete_exchanges ms; excess = length es - max_turns in
      if excess = 0 then ms
      else
        let remove_ids = concat (map (\<lambda>(u, a). [msg_id u, msg_id a]) (take excess es))
        in filter (\<lambda>m. msg_id m \<notin> set remove_ids) ms)"

section \<open>Names\<close>

text \<open>\<open>re.search(r"[.!?;:](?:\s|$)", xs)\<close>: the end of the first match.\<close>

definition sentence_mark :: "nat \<Rightarrow> bool" where
  "sentence_mark c \<longleftrightarrow> c \<in> {46, 33, 63, 59, 58}"

fun sentence_end :: "ustring \<Rightarrow> nat option" where
  "sentence_end [] = None"
| "sentence_end [c] = (if sentence_mark c then Some 1 else None)"
| "sentence_end (c # d # cs) =
     (if sentence_mark c \<and> is_space d then Some 2 else map_option Suc (sentence_end (d # cs)))"

text \<open>\<open>xs.rfind(" ")\<close>.\<close>

fun rfind_space :: "ustring \<Rightarrow> nat option" where
  "rfind_space [] = None"
| "rfind_space (c # cs) =
     (case rfind_space cs of Some n \<Rightarrow> Some (Suc n) | None \<Rightarrow> if c = 32 then Some 0 else None)"

definition derive_name :: "ustring \<Rightarrow> ustring" where
  "derive_name content =
     (let normalized = join_text [32] (split_words content);
          candidate = (case sentence_end normalized of
                         Some n \<Rightarrow> strip_text (take n normalized) | None \<Rightarrow> normalized)
      in if length candidate \<le> 80 then candidate
         else
           let prefix = rstrip (take 79 candidate);
               cut = (case rfind_space prefix of
                        Some b \<Rightarrow> if 0 < b then take b prefix else prefix | None \<Rightarrow> prefix)
           in rstrip cut @ [8230])"

definition default_name :: ustring where
  "default_name = ascii ''New conversation''"

section \<open>Lemmas on exchanges\<close>

lemma exchanges_completed:
  "(u, a) \<in> set (exchanges_from pending ms) \<Longrightarrow>
     (case pending of None \<Rightarrow> True | Some p \<Rightarrow> msg_role p = RoleUser \<and> msg_status p = MCompleted) \<Longrightarrow>
     msg_role u = RoleUser \<and> msg_status u = MCompleted \<and>
     msg_role a = RoleAssistant \<and> msg_status a = MCompleted \<and> a \<in> set ms \<and>
     (u \<in> set ms \<or> pending = Some u)"
  by (induction pending ms rule: exchanges_from.induct) (auto split: if_splits option.splits)

lemma length_py_last: "0 < n \<Longrightarrow> length (py_last n xs) \<le> n"
  by (simp add: py_last_def)

lemma py_last_suffix: "\<exists>ys. xs = ys @ py_last n xs"
  by (metis append_Nil append_take_drop_id py_last_def)

text \<open>
  The selection: a contiguous block that fits, behind it only exchanges too long by themselves,
  before it an exchange that would not fit any more.
\<close>

lemma pick_started:
  "selected \<noteq> [] \<Longrightarrow> \<exists>older mid. rev es = older @ mid \<and>
     pick_history limit used selected es = mid @ selected \<and>
     (used \<le> limit \<longrightarrow> used + sum_list (map exchange_chars mid) \<le> limit) \<and>
     (older \<noteq> [] \<longrightarrow> limit < exchange_chars (last older) + (used + sum_list (map exchange_chars mid)))"
proof (induction es arbitrary: used selected)
  case (Cons e es)
  show ?case
  proof (cases "limit < used + exchange_chars e")
    case True
    then show ?thesis using Cons.prems
      by (intro exI [of _ "rev es @ [e]"] exI [of _ "[]"]) (simp add: add.commute)
  next
    case False
    from Cons.IH [of "e # selected" "used + exchange_chars e"] obtain older mid
      where "rev es = older @ mid"
        "pick_history limit (used + exchange_chars e) (e # selected) es = mid @ e # selected"
        "used + exchange_chars e + sum_list (map exchange_chars mid) \<le> limit"
        "older \<noteq> [] \<longrightarrow> limit < exchange_chars (last older) +
           (used + exchange_chars e + sum_list (map exchange_chars mid))"
      using False by auto
    then show ?thesis using False Cons.prems
      by (intro exI [of _ older] exI [of _ "mid @ [e]"]) (auto simp: algebra_simps)
  qed
qed simp

lemma pick_fresh:
  "\<exists>older newer. rev es = older @ pick_history limit 0 [] es @ newer \<and>
     (\<forall>e\<in>set newer. limit < exchange_chars e) \<and>
     sum_list (map exchange_chars (pick_history limit 0 [] es)) \<le> limit \<and>
     (pick_history limit 0 [] es = [] \<longrightarrow> older = []) \<and>
     (older \<noteq> [] \<longrightarrow> limit < exchange_chars (last older) +
        sum_list (map exchange_chars (pick_history limit 0 [] es)))"
proof (induction es)
  case (Cons e es)
  show ?case
  proof (cases "limit < exchange_chars e")
    case True
    from Cons obtain older newer where "rev es = older @ pick_history limit 0 [] es @ newer"
      "\<forall>e\<in>set newer. limit < exchange_chars e"
      "sum_list (map exchange_chars (pick_history limit 0 [] es)) \<le> limit"
      "pick_history limit 0 [] es = [] \<longrightarrow> older = []"
      "older \<noteq> [] \<longrightarrow> limit < exchange_chars (last older) +
         sum_list (map exchange_chars (pick_history limit 0 [] es))" by blast
    then show ?thesis using True by (intro exI [of _ older] exI [of _ "newer @ [e]"]) auto
  next
    case False
    from pick_started [of "[e]" es limit "exchange_chars e"] False obtain older mid
      where "rev es = older @ mid" "pick_history limit (exchange_chars e) [e] es = mid @ [e]"
        "exchange_chars e + sum_list (map exchange_chars mid) \<le> limit"
        "older \<noteq> [] \<longrightarrow> limit < exchange_chars (last older) +
           (exchange_chars e + sum_list (map exchange_chars mid))" by auto
    then show ?thesis using False
      by (intro exI [of _ older] exI [of _ "[]"]) (simp add: algebra_simps)
  qed
qed simp

lemma history_chars:
  "sum_list (map (\<lambda>m. length (msg_content m)) (concat (map (\<lambda>(u, a). [u, a]) es))) =
     sum_list (map exchange_chars es)"
  by (induction es) (auto simp: exchange_chars_def)

text \<open>
  C13. The history of a conversation is the newest block of complete exchanges that fits. It is
  a contiguous part of the last \<open>max_turns\<close> exchanges with at most \<open>max_chars\<close> characters in
  total, the exchanges after it are too long by themselves, and the one before it would exceed
  the limit; the messages alternate between completed messages of the user and the assistant.
\<close>

theorem history_newest_fitting:
  assumes "0 < max_turns"
  shows "\<exists>older newer es. complete_exchanges ms = es @ older @ selected_exchanges max_turns max_chars ms @ newer \<and>
    length (older @ selected_exchanges max_turns max_chars ms @ newer) \<le> max_turns \<and>
    (es \<noteq> [] \<longrightarrow> length (older @ selected_exchanges max_turns max_chars ms @ newer) = max_turns) \<and>
    (\<forall>e\<in>set newer. max_chars < exchange_chars e) \<and>
    sum_list (map (\<lambda>m. length (msg_content m)) (history_of max_turns max_chars ms)) \<le> max_chars \<and>
    (older \<noteq> [] \<longrightarrow> selected_exchanges max_turns max_chars ms \<noteq> [] \<and>
       max_chars < exchange_chars (last older) +
         sum_list (map (\<lambda>m. length (msg_content m)) (history_of max_turns max_chars ms))) \<and>
    history_of max_turns max_chars ms =
      concat (map (\<lambda>(u, a). [u, a]) (selected_exchanges max_turns max_chars ms)) \<and>
    (\<forall>(u, a)\<in>set (selected_exchanges max_turns max_chars ms). u \<in> set ms \<and> a \<in> set ms \<and>
       msg_role u = RoleUser \<and> msg_role a = RoleAssistant \<and>
       msg_status u = MCompleted \<and> msg_status a = MCompleted)"
proof -
  let ?sel = "selected_exchanges max_turns max_chars ms"
  let ?last = "py_last max_turns (complete_exchanges ms)"
  from pick_fresh [of "rev ?last" max_chars] obtain older newer where
    sel: "?last = older @ ?sel @ newer" "\<forall>e\<in>set newer. max_chars < exchange_chars e"
      "sum_list (map exchange_chars ?sel) \<le> max_chars" "?sel = [] \<longrightarrow> older = []"
      "older \<noteq> [] \<longrightarrow> max_chars < exchange_chars (last older) + sum_list (map exchange_chars ?sel)"
    by (auto simp: selected_exchanges_def)
  have chars: "sum_list (map (\<lambda>m. length (msg_content m)) (history_of max_turns max_chars ms)) =
      sum_list (map exchange_chars ?sel)"
    unfolding history_of_def by (rule history_chars)
  have split: "complete_exchanges ms = take (length (complete_exchanges ms) - max_turns) (complete_exchanges ms) @ ?last"
    using assms by (simp add: py_last_def)
  have len: "length ?last = min max_turns (length (complete_exchanges ms))"
    using assms by (simp add: py_last_def)
  have mem: "u \<in> set ms \<and> a \<in> set ms \<and> msg_role u = RoleUser \<and> msg_role a = RoleAssistant \<and>
       msg_status u = MCompleted \<and> msg_status a = MCompleted" if "(u, a) \<in> set ?sel" for u a
  proof -
    have "(u, a) \<in> set ?last" using that sel(1) by simp
    then have "(u, a) \<in> set (exchanges_from None ms)"
      using split unfolding complete_exchanges_def by (metis Un_iff set_append)
    from exchanges_completed [OF this] show ?thesis by simp
  qed
  show ?thesis
    using sel split len mem unfolding chars
    by (intro exI [of _ older] exI [of _ newer]
        exI [of _ "take (length (complete_exchanges ms) - max_turns) (complete_exchanges ms)"])
      (auto simp: history_of_def simp flip: sel(1))
qed

text \<open>A message with identifier \<open>i\<close> and content \<open>s\<close>, for the examples.\<close>

definition sample_message :: "ident \<Rightarrow> message_role \<Rightarrow> string \<Rightarrow> message" where
  "sample_message i r s = \<lparr>msg_id = i, msg_role = r, msg_content = ascii s, msg_status = MCompleted,
     msg_created_at = 0, msg_result = None\<rparr>"

definition sample_messages :: "message list" where
  "sample_messages = [sample_message 1 RoleUser ''one'', sample_message 2 RoleAssistant ''first'',
     sample_message 3 RoleUser ''two'', sample_message 4 RoleAssistant ''second'']"

lemma history_newest_fitting_witness:
  "(\<exists>older newer es. complete_exchanges sample_messages =
      es @ older @ selected_exchanges 2 10 sample_messages @ newer) \<and>
    map msg_id (history_of 2 10 sample_messages) = [3, 4]"
proof
  show "\<exists>older newer es. complete_exchanges sample_messages =
      es @ older @ selected_exchanges 2 10 sample_messages @ newer"
    using history_newest_fitting [of 2 sample_messages 10] by (simp, blast)
  show "map msg_id (history_of 2 10 sample_messages) = [3, 4]" by code_simp
qed

section \<open>Lemmas on names\<close>

lemma set_join_text: "c \<in> set (join_text sep ws) \<Longrightarrow> c \<in> set sep \<or> (\<exists>w\<in>set ws. c \<in> set w)"
  by (induction sep ws rule: join_text.induct) auto

lemma normalized_space:
  "c \<in> set (join_text [32] (split_words xs)) \<Longrightarrow> is_space c \<Longrightarrow> c = 32"
  using set_join_text [of c "[32]" "split_words xs"] split_words_word by fastforce

lemma normalized_head:
  "join_text [32] (split_words xs) = [] \<and> (\<forall>c\<in>set xs. is_space c) \<or>
     (\<exists>c cs. join_text [32] (split_words xs) = c # cs \<and> \<not> is_space c)"
proof (cases "split_words xs")
  case Nil
  then show ?thesis using split_words_Nil [of xs] by simp
next
  case (Cons w ws)
  then have w: "w \<noteq> []" "\<forall>c\<in>set w. \<not> is_space c" using split_words_word [of w xs] by auto
  then obtain c cs where "w = c # cs" "\<not> is_space c" by (cases w) auto
  then show ?thesis unfolding Cons by (cases ws) auto
qed

lemma sentence_end_pos: "sentence_end xs = Some n \<Longrightarrow> 0 < n"
  by (induction xs arbitrary: n rule: sentence_end.induct) (auto split: if_splits)

lemma rstrip_take: "\<exists>n. rstrip (take k xs) = take n xs"
proof -
  obtain ys where "take k xs = rstrip (take k xs) @ ys" using rstrip_prefix by metis
  then have "rstrip (take k xs) = take (length (rstrip (take k xs))) (take k xs)"
    by (metis append_eq_conv_conj)
  then show ?thesis by (metis take_take)
qed

text \<open>
  A derived name is a short line from the beginning of the first message: at most 80
  characters, no white space but single blanks of the normalized message, a prefix of the
  message (with an ellipsis when it was cut), and empty only for a blank message.
\<close>

theorem derive_name_line:
  "length (derive_name content) \<le> 80 \<and>
   (\<forall>c\<in>set (derive_name content). is_space c \<longrightarrow> c = 32) \<and>
   (derive_name content = [] \<longleftrightarrow> (\<forall>c\<in>set content. is_space c)) \<and>
   (\<exists>n. derive_name content = take n (join_text [32] (split_words content)) \<or>
        derive_name content = take n (join_text [32] (split_words content)) @ [8230])"
proof -
  define norm where "norm = join_text [32] (split_words content)"
  define cand where "cand = (case sentence_end norm of Some n \<Rightarrow> strip_text (take n norm) | None \<Rightarrow> norm)"
  define prefix where "prefix = rstrip (take 79 cand)"
  define cut where "cut = (case rfind_space prefix of
      Some b \<Rightarrow> if 0 < b then take b prefix else prefix | None \<Rightarrow> prefix)"
  have dn: "derive_name content = (if length cand \<le> 80 then cand else rstrip cut @ [8230])"
    unfolding derive_name_def Let_def cut_def prefix_def cand_def norm_def ..
  have lead: "lstrip (take n norm) = take n norm" for n
    using normalized_head [of content] by (cases n) (auto simp: lstrip_def norm_def)
  obtain k where k: "cand = take k norm"
  proof (cases "sentence_end norm")
    case None
    then show ?thesis using that [of "length norm"] by (simp add: cand_def)
  next
    case (Some n)
    then show ?thesis using that rstrip_take [of n norm] by (auto simp: cand_def strip_text_def lead)
  qed
  obtain j where j: "prefix = take j norm"
    unfolding prefix_def k by (metis rstrip_take take_take)
  have "cut = prefix \<or> (\<exists>b. cut = take b prefix)" by (auto simp: cut_def split: option.split)
  then obtain i where i: "cut = take i norm" using j by (metis take_take)
  then obtain h where h: "rstrip cut = take h norm" using rstrip_take by metis
  have "length prefix \<le> 79" using length_rstrip [of "take 79 cand"] by (simp add: prefix_def)
  then have "length cut \<le> 79" by (auto simp: cut_def split: option.split)
  then have "length (rstrip cut) \<le> 79" using le_trans [OF length_rstrip] by blast
  then have len: "length (derive_name content) \<le> 80" by (simp add: dn)
  have space: "c = 32" if "c \<in> set (derive_name content)" "is_space c" for c
  proof -
    have "c \<in> set norm \<or> c = 8230" using that(1) k h by (auto simp: dn dest: in_set_takeD split: if_splits)
    moreover have "\<not> is_space 8230" by (simp add: is_space_def)
    ultimately show ?thesis using normalized_space that(2) unfolding norm_def by blast
  qed
  have "cand = [] \<longleftrightarrow> norm = []"
  proof (cases "sentence_end norm")
    case (Some n)
    have "norm \<noteq> []" using Some by auto
    then obtain c cs where c: "norm = c # cs" "\<not> is_space c"
      using normalized_head [of content] by (auto simp: norm_def)
    then have "c \<in> set (take n norm)" using sentence_end_pos [OF Some] by (cases n) auto
    then have "strip_text (take n norm) \<noteq> []" using c(2) strip_text_Nil by blast
    then show ?thesis using Some c by (simp add: cand_def)
  qed (simp add: cand_def)
  moreover have "norm = [] \<longleftrightarrow> (\<forall>c\<in>set content. is_space c)"
    using split_words_Nil [of content] normalized_head [of content] unfolding norm_def by auto
  moreover have "derive_name content = [] \<longleftrightarrow> cand = []" by (auto simp: dn)
  ultimately have blank: "derive_name content = [] \<longleftrightarrow> (\<forall>c\<in>set content. is_space c)" by blast
  have "\<exists>n. derive_name content = take n norm \<or> derive_name content = take n norm @ [8230]"
    using k h dn by auto
  with len space blank show ?thesis unfolding norm_def by blast
qed

lemma derive_name_line_witness: "length (derive_name (ascii ''Hello world. And more'')) \<le> 80 \<and>
    derive_name (ascii ''Hello world. And more'') = ascii ''Hello world.''"
proof
  show "length (derive_name (ascii ''Hello world. And more'')) \<le> 80" using derive_name_line by blast
  have "split_words (ascii ''Hello world. And more'') = map ascii [''Hello'', ''world.'', ''And'', ''more'']"
    by (simp add: split_words.simps ascii_def is_space_def)
  then show "derive_name (ascii ''Hello world. And more'') = ascii ''Hello world.''"
    by (simp add: derive_name_def ascii_def sentence_mark_def is_space_def strip_text_def lstrip_def rstrip_def)
qed

section \<open>Pruning\<close>

text \<open>No completed answer is left without its question.\<close>

fun answers_paired :: "bool \<Rightarrow> message list \<Rightarrow> bool" where
  "answers_paired pending [] = True"
| "answers_paired pending (m # ms) =
     (if msg_role m = RoleUser \<and> msg_status m = MCompleted then answers_paired True ms
      else if msg_role m = RoleAssistant \<and> msg_status m = MCompleted
      then pending \<and> answers_paired False ms
      else answers_paired pending ms)"

lemma exchanges_members:
  "(u, a) \<in> set (exchanges_from pending ms) \<Longrightarrow> a \<in> set ms \<and> (u \<in> set ms \<or> pending = Some u)"
  by (induction pending ms rule: exchanges_from.induct) (auto split: if_splits option.splits)

lemma answered_pending:
  "answers_paired False ms \<Longrightarrow> exchanges_from q ms = exchanges_from None ms"
proof (induction ms arbitrary: q)
  case (Cons m ms)
  show ?case using Cons.prems Cons.IH [of q]
    by (cases "msg_role m"; cases "msg_status m") simp_all
qed simp

definition exchange_ids :: "(message \<times> message) list \<Rightarrow> ident set" where
  "exchange_ids es = set (concat (map (\<lambda>(u, a). [msg_id u, msg_id a]) es))"

lemma exchange_ids_Cons [simp]:
  "exchange_ids [] = {}" "exchange_ids ((u, a) # es) = insert (msg_id u) (insert (msg_id a) (exchange_ids es))"
  by (auto simp: exchange_ids_def)

lemma exchange_ids_sub:
  "exchange_ids (take k (exchanges_from pending ms)) \<subseteq>
     msg_id ` (set ms \<union> (case pending of None \<Rightarrow> {} | Some u \<Rightarrow> {u}))"
proof
  fix i assume "i \<in> exchange_ids (take k (exchanges_from pending ms))"
  then obtain u a where "(u, a) \<in> set (exchanges_from pending ms)" "i = msg_id u \<or> i = msg_id a"
    by (fastforce simp: exchange_ids_def dest: in_set_takeD)
  with exchanges_members [OF this(1)]
  show "i \<in> msg_id ` (set ms \<union> (case pending of None \<Rightarrow> {} | Some u \<Rightarrow> {u}))" by auto
qed

text \<open>Without the first \<open>k\<close> exchanges the others are still the exchanges.\<close>

lemma exchanges_after_removal:
  assumes "answers_paired (pending \<noteq> None) ms"
    and "distinct (map msg_id ms)" "\<And>u. pending = Some u \<Longrightarrow> msg_id u \<notin> msg_id ` set ms"
    and "k = 0 \<Longrightarrow> q = pending"
  shows "exchanges_from q (filter (\<lambda>m. msg_id m \<notin> exchange_ids (take k (exchanges_from pending ms))) ms)
    = drop k (exchanges_from pending ms)"
  using assms
proof (induction ms arbitrary: pending k q)
  case (Cons m ms)
  show ?case
  proof (cases k)
    case 0
    then show ?thesis using Cons.prems(4) by simp
  next
    case (Suc k')
    consider (user) "msg_role m = RoleUser" "msg_status m = MCompleted"
      | (answer) "msg_role m = RoleAssistant" "msg_status m = MCompleted"
      | (other) "msg_status m \<noteq> MCompleted"
      by (cases "msg_role m"; cases "msg_status m") auto
    then show ?thesis
    proof cases
      case user
      then have es: "exchanges_from pending (m # ms) = exchanges_from (Some m) ms" by simp
      let ?R = "exchange_ids (take k (exchanges_from (Some m) ms))"
      have IH: "exchanges_from p (filter (\<lambda>m. msg_id m \<notin> ?R) ms) = drop k (exchanges_from (Some m) ms)" for p
        by (rule Cons.IH) (use Cons.prems user Suc in auto)
      show ?thesis
      proof (cases "msg_id m \<in> ?R")
        case True
        then show ?thesis unfolding es using IH by simp
      next
        case False
        then have "exchanges_from q (filter (\<lambda>m. msg_id m \<notin> ?R) (m # ms)) =
            exchanges_from (Some m) (filter (\<lambda>m. msg_id m \<notin> ?R) ms)" using user by simp
        then show ?thesis unfolding es using IH by simp
      qed
    next
      case answer
      with Cons.prems obtain u where u: "pending = Some u" and rest: "answers_paired False ms"
        by (cases pending) auto
      let ?es = "exchanges_from None ms"
      have "filter (\<lambda>x. msg_id x \<notin> exchange_ids (take k (exchanges_from pending (m # ms)))) (m # ms)
          = filter (\<lambda>x. msg_id x \<notin> exchange_ids (take k' ?es)) ms"
      proof -
        have "msg_id x \<noteq> msg_id u \<and> msg_id x \<noteq> msg_id m" if "x \<in> set ms" for x
          using Cons.prems(2) Cons.prems(3) [OF u] imageI [OF that, of msg_id] by auto
        then have "filter (\<lambda>x. msg_id x \<notin> exchange_ids ((u, m) # take k' ?es)) ms =
            filter (\<lambda>x. msg_id x \<notin> exchange_ids (take k' ?es)) ms"
          by (intro filter_cong) auto
        then show ?thesis using answer Suc u by simp
      qed
      moreover have "exchanges_from q (filter (\<lambda>x. msg_id x \<notin> exchange_ids (take k' ?es)) ms) = drop k' ?es"
      proof (cases k')
        case 0
        then show ?thesis using answered_pending [OF rest] by simp
      next
        case (Suc n)
        then show ?thesis using Cons.IH [of None k' q] rest Cons.prems(2) by simp
      qed
      ultimately show ?thesis using answer Suc u by simp
    next
      case other
      have "msg_id m \<notin> exchange_ids (take k (exchanges_from pending ms))"
        using exchange_ids_sub [of k pending ms] Cons.prems(2,3) by (auto split: option.splits)
      moreover have "exchanges_from q
          (filter (\<lambda>m. msg_id m \<notin> exchange_ids (take k (exchanges_from pending ms))) ms) =
          drop k (exchanges_from pending ms)"
        using Cons.prems other by (intro Cons.IH) auto
      ultimately show ?thesis using other by simp
    qed
  qed
qed simp

text \<open>
  Pruning keeps the newest exchanges. When message identifiers are distinct and every
  completed answer has its question, the exchanges after pruning are the last \<open>max_turns\<close> of the
  exchanges before, and messages outside the removed exchanges stay where they are.
\<close>

theorem prune_keeps_newest:
  assumes "distinct (map msg_id ms)" "answers_paired False ms"
  shows "complete_exchanges (prune_messages max_turns ms) =
      drop (length (complete_exchanges ms) - max_turns) (complete_exchanges ms) \<and>
    length (complete_exchanges (prune_messages max_turns ms)) \<le> max_turns \<and>
    (\<exists>removed. prune_messages max_turns ms = filter (\<lambda>m. msg_id m \<notin> removed) ms)"
proof -
  let ?k = "length (complete_exchanges ms) - max_turns"
  have "prune_messages max_turns ms = filter (\<lambda>m. msg_id m \<notin> exchange_ids (take ?k (complete_exchanges ms))) ms"
    by (auto simp: prune_messages_def Let_def exchange_ids_def)
  moreover have "exchanges_from None
      (filter (\<lambda>m. msg_id m \<notin> exchange_ids (take ?k (exchanges_from None ms))) ms) =
      drop ?k (exchanges_from None ms)"
    by (rule exchanges_after_removal) (use assms in auto)
  ultimately show ?thesis by (auto simp: complete_exchanges_def)
qed

lemma prune_keeps_newest_witness:
  "length (complete_exchanges (prune_messages 1 sample_messages)) \<le> 1 \<and>
   map msg_id (prune_messages 1 sample_messages) = [3, 4]"
proof
  have "distinct (map msg_id sample_messages)" "answers_paired False sample_messages"
    by code_simp+
  then show "length (complete_exchanges (prune_messages 1 sample_messages)) \<le> 1"
    using prune_keeps_newest [of sample_messages 1] by blast
  show "map msg_id (prune_messages 1 sample_messages) = [3, 4]" by code_simp
qed

end
