(* ===== verification/Api_Errors.thy ===== *)
theory Api_Errors
  imports Project_Storage Conversation_Model
begin

text \<open>
  The exceptions that reach the application and the responses its handlers make of them
  (\<open>app/api/errors.py\<close>): every kind of exception has one status code, one problem code and one
  message, none of which carries the arguments of the exception. The logging of the handlers is
  left out.
\<close>

section \<open>Exceptions and responses\<close>

datatype api_exception =
  AuthenticationFailed string
| AuthorizationFailed
| ProjectMissing ident
| UploadMissing ident
| ProjectConflicting string
| UploadRejected string
| RequestInvalid
| BodyInvalid
| ConversationMissing ident
| ConversationBusy ident string
| ConversationState ident
| AnalysisNotConfigured
| AnalysisNotFound string
| AnalysisFailed string
| Unhandled string

record problem =
  pb_status :: nat
  pb_request_id :: string
  pb_code :: string
  pb_message :: string
  pb_headers :: "(string \<times> string) list"

definition problem_response :: "string \<Rightarrow> nat \<Rightarrow> string \<Rightarrow> string \<Rightarrow> problem" where
  "problem_response request_id status code message =
     \<lparr>pb_status = status, pb_request_id = request_id, pb_code = code, pb_message = message, pb_headers = []\<rparr>"

fun handle_exception :: "string \<Rightarrow> api_exception \<Rightarrow> problem" where
  "handle_exception rid (AuthenticationFailed reason) =
     (problem_response rid 401 ''unauthorized'' ''Authentication is required.'')
       \<lparr>pb_headers := [(''WWW-Authenticate'', ''Bearer'')]\<rparr>"
| "handle_exception rid AuthorizationFailed =
     problem_response rid 403 ''forbidden'' ''You are not allowed to perform this action.''"
| "handle_exception rid (ProjectMissing _) =
     problem_response rid 404 ''project_not_found'' ''The project resource was not found.''"
| "handle_exception rid (UploadMissing _) =
     problem_response rid 404 ''project_not_found'' ''The project resource was not found.''"
| "handle_exception rid (ProjectConflicting _) =
     problem_response rid 409 ''project_conflict'' ''The project state does not allow this action.''"
| "handle_exception rid (UploadRejected _) =
     problem_response rid 422 ''upload_invalid'' ''The upload is invalid.''"
| "handle_exception rid RequestInvalid =
     problem_response rid 422 ''invalid_request'' ''The request is invalid.''"
| "handle_exception rid BodyInvalid =
     problem_response rid 422 ''invalid_request'' ''The request is invalid.''"
| "handle_exception rid (ConversationMissing _) =
     problem_response rid 404 ''conversation_not_found'' ''The conversation was not found.''"
| "handle_exception rid (ConversationBusy _ _) =
     problem_response rid 409 ''conversation_busy'' ''This conversation is already processing another request.''"
| "handle_exception rid (ConversationState _) =
     problem_response rid 409 ''conversation_state_conflict'' ''The conversation state does not allow this action.''"
| "handle_exception rid AnalysisNotConfigured =
     problem_response rid 503 ''analysis_not_configured'' ''The analysis feature is not configured.''"
| "handle_exception rid (AnalysisNotFound _) =
     problem_response rid 404 ''analysis_not_found'' ''The requested PL/SQL object was not found.''"
| "handle_exception rid (AnalysisFailed category) =
     problem_response rid 503 category ''The analysis service is unavailable.''"
| "handle_exception rid (Unhandled _) =
     problem_response rid 500 ''internal_error'' ''The request could not be completed.''"

text \<open>The exceptions of the repository, of the upload storage and of the conversation stores.\<close>

fun of_repo_error :: "repo_error \<Rightarrow> api_exception" where
  "of_repo_error (ProjectNotFound i) = ProjectMissing i"
| "of_repo_error (ProjectConflict m) = ProjectConflicting m"
| "of_repo_error (UploadNotFound i) = UploadMissing i"
| "of_repo_error (AuthorizationError m) = AuthorizationFailed"
| "of_repo_error (IntegrityError m) = Unhandled m"

fun of_storage_error :: "storage_error \<Rightarrow> api_exception" where
  "of_storage_error (UploadInvalid m) = UploadRejected m"
| "of_storage_error (RepositoryError e) = of_repo_error e"
| "of_storage_error (FileMissing path) = Unhandled path"

fun of_store_error :: "store_error \<Rightarrow> api_exception" where
  "of_store_error (ConversationNotFound i) = ConversationMissing i"
| "of_store_error (ConversationRequestConflict i r) = ConversationBusy i r"
| "of_store_error (ConversationStateConflict i) = ConversationState i"
| "of_store_error InvalidCursor = RequestInvalid"

section \<open>Lemmas\<close>

lemma handle_request_id [simp]: "pb_request_id (handle_exception rid e) = rid"
  by (cases e) (simp_all add: problem_response_def)

lemma handle_client_or_server:
  "pb_status (handle_exception rid e) \<in> {401, 403, 404, 409, 422, 500, 503}"
  by (cases e) (simp_all add: problem_response_def)

end
