(* ===== verification/Auth.thy ===== *)
theory Auth
  imports Api_Errors
begin

text \<open>
  Authentication: the token verifier with its cache of signing keys (\<open>app/auth/verifier.py\<close>) and
  the principal of a request (\<open>app/auth/dependencies.py\<close>). What the JWT library and the identity
  provider compute is a parameter: the header of a token, the check of its signature and claims
  with a given key, and the answer of the key endpoint.
\<close>

section \<open>Tokens and keys\<close>

text \<open>The values of claims as far as the code looks at them.\<close>

datatype claim = CText string | CList "claim list" | CObject "(string \<times> claim) list" | COther

type_synonym claims = "(string \<times> claim) list"

record token_header =
  th_kid :: "string option"
  th_alg :: string

text \<open>An entry of the key set: its fields, and the key when the library accepts the entry.\<close>

record 'k jwk =
  jwk_is_object :: bool
  jwk_kid :: "string option"
  jwk_use :: "string option"
  jwk_alg :: "string option"
  jwk_key :: "'k option"

record 'k verifier =
  v_keys :: "(string \<times> 'k) list"
  v_expires_at :: int
  v_cache_seconds :: int

record verified_token =
  vt_subject :: string
  vt_username :: string
  vt_roles :: "string list"
  vt_claims :: claims

text \<open>The environment: one answer of the key endpoint for each request made to it.\<close>

record ('t, 'k) jwt_env =
  jwt_header :: "'t \<Rightarrow> token_header option"
  jwt_decode :: "'t \<Rightarrow> 'k \<Rightarrow> claims option"

text \<open>The loop over the entries of the key set; a later entry replaces an earlier one of its id.\<close>

definition usable_key :: "'k jwk \<Rightarrow> bool" where
  "usable_key item \<longleftrightarrow> jwk_is_object item \<and> jwk_kid item \<noteq> None \<and>
     (jwk_use item = None \<or> jwk_use item = Some ''sig'') \<and>
     (jwk_alg item = None \<or> jwk_alg item = Some ''RS256'') \<and> jwk_key item \<noteq> None"

definition parse_keys :: "'k jwk list \<Rightarrow> (string \<times> 'k) list" where
  "parse_keys items = rev (map (\<lambda>item. (the (jwk_kid item), the (jwk_key item))) (filter usable_key items))"

text \<open>
  \<open>_key\<close>. \<open>fetched\<close> is what the endpoint answers if it is asked; the first component says whether
  it was.
\<close>

definition find_key ::
  "string \<Rightarrow> bool \<Rightarrow> int \<Rightarrow> 'k jwk list option \<Rightarrow> 'k verifier \<Rightarrow> bool \<times> 'k verifier \<times> (api_exception + 'k option)"
where
  "find_key kid force now fetched v =
     (if \<not> force \<and> now < v_expires_at v then (False, v, Inr (map_of (v_keys v) kid))
      else case fetched of
             None \<Rightarrow> (True, v, Inl (AuthenticationFailed ''jwks_unavailable''))
           | Some items \<Rightarrow>
               let keys = parse_keys items
               in (True, v\<lparr>v_keys := keys, v_expires_at := now + v_cache_seconds v\<rparr>, Inr (map_of keys kid)))"

text \<open>The claims of a verified token: subject, username and realm roles with what they imply.\<close>

definition expand_roles :: "string list \<Rightarrow> string list" where
  "expand_roles roles =
     (let r1 = (if ''admin'' \<in> set roles then ''editor'' # ''viewer'' # roles else roles)
      in if ''editor'' \<in> set r1 then ''viewer'' # r1 else r1)"

definition texts :: "claim list \<Rightarrow> string list" where
  "texts cs = concat (map (\<lambda>c. case c of CText s \<Rightarrow> [s] | _ \<Rightarrow> []) cs)"

text \<open>Iterating over a text gives its characters, over an object its keys; other values raise.\<close>

definition realm_roles :: "claims \<Rightarrow> string list option" where
  "realm_roles cs =
     (case map_of cs ''realm_access'' of
        Some (CObject access) \<Rightarrow>
          (case map_of access ''roles'' of
             None \<Rightarrow> Some []
           | Some (CList rs) \<Rightarrow> Some (texts rs)
           | Some (CText s) \<Rightarrow> Some (map (\<lambda>c. [c]) s)
           | Some (CObject entries) \<Rightarrow> Some (map fst entries)
           | Some COther \<Rightarrow> None)
      | _ \<Rightarrow> Some [])"

definition token_of_claims :: "claims \<Rightarrow> api_exception + verified_token" where
  "token_of_claims cs =
     (case map_of cs ''sub'' of
        Some (CText subject) \<Rightarrow>
          if subject = [] then Inl (AuthenticationFailed ''subject_missing'')
          else (case realm_roles cs of
                  None \<Rightarrow> Inl (Unhandled ''TypeError'')
                | Some roles \<Rightarrow> Inr \<lparr>vt_subject = subject,
                 vt_username = (case map_of cs ''preferred_username'' of Some (CText u) \<Rightarrow> u | _ \<Rightarrow> subject),
                 vt_roles = expand_roles roles, vt_claims = cs\<rparr>)
      | _ \<Rightarrow> Inl (AuthenticationFailed ''subject_missing''))"

text \<open>\<open>verify\<close>: an exception or the token, and how often the keys were fetched.\<close>

definition verify ::
  "('t, 'k) jwt_env \<Rightarrow> 't \<Rightarrow> int \<Rightarrow> 'k jwk list option \<Rightarrow> 'k jwk list option \<Rightarrow> 'k verifier \<Rightarrow>
     nat \<times> 'k verifier \<times> (api_exception + verified_token)"
where
  "verify env token now fetched1 fetched2 v =
     (case jwt_header env token of
        None \<Rightarrow> (0, v, Inl (AuthenticationFailed ''malformed_token''))
      | Some header \<Rightarrow>
          (case th_kid header of
             None \<Rightarrow> (0, v, Inl (AuthenticationFailed ''invalid_header''))
           | Some kid \<Rightarrow>
               if th_alg header \<noteq> ''RS256'' then (0, v, Inl (AuthenticationFailed ''invalid_header''))
               else
                 let use_key = (\<lambda>n v' key.
                       case jwt_decode env token key of
                         None \<Rightarrow> (n, v', Inl (AuthenticationFailed ''invalid_claims''))
                       | Some cs \<Rightarrow> (n, v', token_of_claims cs))
                 in case find_key kid False now fetched1 v of
                      (asked, v1, Inl e) \<Rightarrow> (of_bool asked, v1, Inl e)
                    | (asked, v1, Inr (Some key)) \<Rightarrow> use_key (of_bool asked) v1 key
                    | (asked, v1, Inr None) \<Rightarrow>
                        (case find_key kid True now fetched2 v1 of
                           (_, v2, Inl e) \<Rightarrow> (of_bool asked + 1, v2, Inl e)
                         | (_, v2, Inr (Some key)) \<Rightarrow> use_key (of_bool asked + 1) v2 key
                         | (_, v2, Inr None) \<Rightarrow> (of_bool asked + 1, v2, Inl (AuthenticationFailed ''signing_key_not_found'')))))"

section \<open>Principals\<close>

record auth_settings =
  as_auth_enabled :: bool
  as_tenancy_by_claim :: bool
  as_tenant_id :: string
  as_tenant_claim :: string
  as_groups_claim :: string
  as_allowed_tenant_ids :: "string list"

record auth_principal =
  ap_subject :: string
  ap_username :: string
  ap_roles :: "string list"
  ap_tenant_id :: string
  ap_group_ids :: "string list"

definition development_principal :: "string \<Rightarrow> auth_principal" where
  "development_principal tenant =
     \<lparr>ap_subject = ''development-user'', ap_username = ''development-user'',
      ap_roles = [''admin'', ''editor'', ''viewer''], ap_tenant_id = tenant, ap_group_ids = []\<rparr>"

text \<open>The tenant and the groups of a verified token.\<close>

definition token_tenant :: "(char \<Rightarrow> bool) \<Rightarrow> auth_settings \<Rightarrow> verified_token \<Rightarrow> api_exception + string" where
  "token_tenant space st token =
     (if as_tenancy_by_claim st
      then case map_of (vt_claims token) (as_tenant_claim st) of
             Some (CText t) \<Rightarrow> if strip space t = [] then Inl (AuthenticationFailed ''tenant_missing'') else Inr (strip space t)
           | _ \<Rightarrow> Inl (AuthenticationFailed ''tenant_missing'')
      else Inr (as_tenant_id st))"

definition token_groups :: "auth_settings \<Rightarrow> verified_token \<Rightarrow> string list" where
  "token_groups st token =
     (case map_of (vt_claims token) (as_groups_claim st) of
        Some (CList gs) \<Rightarrow> filter (\<lambda>g. g \<noteq> []) (texts gs)
      | _ \<Rightarrow> [])"

text \<open>
  \<open>current_principal\<close>: \<open>credentials\<close> are the lower-cased scheme and the token of the header,
  \<open>verified\<close> is the outcome of the verifier on that token.
\<close>

definition current_principal ::
  "(char \<Rightarrow> bool) \<Rightarrow> auth_settings \<Rightarrow> (string \<times> 't) option \<Rightarrow> ('t \<Rightarrow> api_exception + verified_token) \<Rightarrow>
     api_exception + auth_principal"
where
  "current_principal space st credentials verified =
     (if \<not> as_auth_enabled st then Inr (development_principal (as_tenant_id st))
      else case credentials of
             None \<Rightarrow> Inl (AuthenticationFailed ''bearer_missing'')
           | Some (scheme, token) \<Rightarrow>
               if scheme \<noteq> ''bearer'' then Inl (AuthenticationFailed ''bearer_missing'')
               else
                 (case verified token of
                    Inl e \<Rightarrow> Inl e
                  | Inr vt \<Rightarrow>
                      (case token_tenant space st vt of
                         Inl e \<Rightarrow> Inl e
                       | Inr tenant \<Rightarrow>
                           if tenant \<notin> set (as_allowed_tenant_ids st)
                           then Inl (AuthenticationFailed ''tenant_not_allowed'')
                           else Inr \<lparr>ap_subject = vt_subject vt, ap_username = vt_username vt,
                                  ap_roles = vt_roles vt, ap_tenant_id = tenant,
                                  ap_group_ids = token_groups st vt\<rparr>)))"

definition require_role :: "string \<Rightarrow> auth_principal \<Rightarrow> api_exception + auth_principal" where
  "require_role role user =
     (if role \<notin> set (ap_roles user) then Inl AuthorizationFailed else Inr user)"

section \<open>Lemmas\<close>

lemma expand_roles_closed:
  "''admin'' \<in> set (expand_roles rs) \<Longrightarrow> ''editor'' \<in> set (expand_roles rs)"
  "''editor'' \<in> set (expand_roles rs) \<Longrightarrow> ''viewer'' \<in> set (expand_roles rs)"
  "set rs \<subseteq> set (expand_roles rs)" "set (expand_roles rs) \<subseteq> set rs \<union> {''editor'', ''viewer''}"
  by (auto simp: expand_roles_def Let_def split: if_splits)

lemma parse_keys_usable:
  assumes "map_of (parse_keys items) kid = Some key"
  shows "\<exists>item\<in>set items. usable_key item \<and> jwk_kid item = Some kid \<and> jwk_key item = Some key"
proof -
  from map_of_SomeD [OF assms] obtain item where "item \<in> set items" "usable_key item"
    "kid = the (jwk_kid item)" "key = the (jwk_key item)"
    by (auto simp: parse_keys_def)
  then show ?thesis by (intro bexI [of _ item]) (auto simp: usable_key_def)
qed

text \<open>The keys of the cache come from entries that may sign.\<close>

definition trusted_keys :: "'k jwk set \<Rightarrow> 'k verifier \<Rightarrow> bool" where
  "trusted_keys seen v \<longleftrightarrow> (\<forall>kid key. map_of (v_keys v) kid = Some key \<longrightarrow>
     (\<exists>item\<in>seen. usable_key item \<and> jwk_kid item = Some kid \<and> jwk_key item = Some key))"

lemma find_key_trusted:
  assumes "trusted_keys seen v" "find_key kid force now fetched v = (asked, v', r)"
    and "\<And>items. fetched = Some items \<Longrightarrow> set items \<subseteq> seen"
  shows "trusted_keys seen v'"
    "r = Inr (Some key) \<Longrightarrow> \<exists>item\<in>seen. usable_key item \<and> jwk_kid item = Some kid \<and> jwk_key item = Some key"
  using assms parse_keys_usable
  by (fastforce simp: find_key_def trusted_keys_def Let_def split: if_splits option.splits)+

text \<open>
  C20. A verified token was signed with a published signing key. When the verifier accepts a
  token, its header asks for RS256 with a key identifier, the library accepted it with the key of an
  entry of that identifier that the provider published for signing with RS256, its subject is not
  empty and its roles are closed under admin, editor, viewer; the provider was asked at most twice,
  and the cache holds published keys again.
\<close>

theorem verified_by_published_key:
  assumes "trusted_keys seen v" "\<And>items. fetched1 = Some items \<or> fetched2 = Some items \<Longrightarrow> set items \<subseteq> seen"
    and "verify env token now fetched1 fetched2 v = (n, v', r)"
  shows "n \<le> 2 \<and> trusted_keys seen v' \<and>
    (\<forall>vt. r = Inr vt \<longrightarrow>
      (\<exists>header item kid cs key. jwt_header env token = Some header \<and> th_kid header = Some kid \<and> th_alg header = ''RS256'' \<and>
         item \<in> seen \<and> usable_key item \<and> jwk_kid item = Some kid \<and> jwk_key item = Some key \<and>
         jwt_decode env token key = Some cs \<and>
         map_of cs ''sub'' = Some (CText (vt_subject vt)) \<and> vt_subject vt \<noteq> [] \<and>
         (''admin'' \<in> set (vt_roles vt) \<longrightarrow> ''editor'' \<in> set (vt_roles vt)) \<and>
         (''editor'' \<in> set (vt_roles vt) \<longrightarrow> ''viewer'' \<in> set (vt_roles vt))))"
proof -
  have claims: "map_of cs ''sub'' = Some (CText (vt_subject vt)) \<and> vt_subject vt \<noteq> [] \<and>
      (''admin'' \<in> set (vt_roles vt) \<longrightarrow> ''editor'' \<in> set (vt_roles vt)) \<and>
      (''editor'' \<in> set (vt_roles vt) \<longrightarrow> ''viewer'' \<in> set (vt_roles vt))"
    if "token_of_claims cs = Inr vt" for cs vt
    using that expand_roles_closed(1,2) by (auto simp: token_of_claims_def split: option.splits claim.splits if_splits)
  show ?thesis
  proof (cases "\<exists>header kid. jwt_header env token = Some header \<and> th_kid header = Some kid \<and> th_alg header = ''RS256''")
    case False
    then show ?thesis using assms by (auto simp: verify_def split: option.splits if_splits)
  next
    case True
    then obtain header kid where h: "jwt_header env token = Some header" "th_kid header = Some kid"
      "th_alg header = ''RS256''" by blast
    have ok: "\<exists>header item kid cs key. jwt_header env token = Some header \<and> th_kid header = Some kid \<and> th_alg header = ''RS256'' \<and>
         item \<in> seen \<and> usable_key item \<and> jwk_kid item = Some kid \<and> jwk_key item = Some key \<and>
         jwt_decode env token key = Some cs \<and>
         map_of cs ''sub'' = Some (CText (vt_subject vt)) \<and> vt_subject vt \<noteq> [] \<and>
         (''admin'' \<in> set (vt_roles vt) \<longrightarrow> ''editor'' \<in> set (vt_roles vt)) \<and>
         (''editor'' \<in> set (vt_roles vt) \<longrightarrow> ''viewer'' \<in> set (vt_roles vt))"
      if "item \<in> seen" "usable_key item" "jwk_kid item = Some kid" "jwk_key item = Some key"
        "jwt_decode env token key = Some cs" "token_of_claims cs = Inr vt" for vt item key cs
      using that h claims [OF that(6)] by blast
    obtain asked v1 r1 where one: "find_key kid False now fetched1 v = (asked, v1, r1)" by (metis prod_cases3)
    note t1 = find_key_trusted [OF assms(1) one assms(2)]
    obtain asked2 v2 r2 where two: "find_key kid True now fetched2 v1 = (asked2, v2, r2)" by (metis prod_cases3)
    note t2 = find_key_trusted [OF t1(1) two assms(2)]
    have trusted: "trusted_keys seen v1" "trusted_keys seen v2" using t1(1) t2(1) by blast+
    show ?thesis
    proof (cases r1)
      case (Inl e)
      then show ?thesis using assms(3) h one trusted by (auto simp: verify_def)
    next
      case (Inr k1)
      show ?thesis
      proof (cases k1)
        case (Some key)
        then obtain item where item: "item \<in> seen" "usable_key item" "jwk_kid item = Some kid" "jwk_key item = Some key"
          using t1(2) [of key] Inr by auto
        show ?thesis
        proof (cases "jwt_decode env token key")
          case None
          then show ?thesis using assms(3) h one trusted Inr Some by (auto simp: verify_def)
        next
          case (Some cs)
          have "n = of_bool asked" "v' = v1" "r = token_of_claims cs"
            using assms(3) h one Inr \<open>k1 = Some key\<close> Some by (auto simp: verify_def)
          then show ?thesis using trusted ok [OF item Some] by simp
        qed
      next
        case None
        show ?thesis
        proof (cases r2)
          case (Inl e)
          then show ?thesis using assms(3) h one two trusted Inr None by (auto simp: verify_def)
        next
          case (Inr k2)
          show ?thesis
          proof (cases k2)
            case (Some key)
            then obtain item where item: "item \<in> seen" "usable_key item" "jwk_kid item = Some kid" "jwk_key item = Some key"
              using t2(2) [of key] Inr by auto
            show ?thesis
            proof (cases "jwt_decode env token key")
              case None
              then show ?thesis using assms(3) h one two trusted Inr Some \<open>r1 = Inr k1\<close> \<open>k1 = None\<close>
                by (auto simp: verify_def)
            next
              case (Some cs)
              have "n = of_bool asked + 1" "v' = v2" "r = token_of_claims cs"
                using assms(3) h one two Inr \<open>k2 = Some key\<close> \<open>r1 = Inr k1\<close> \<open>k1 = None\<close> Some
                by (auto simp: verify_def)
              then show ?thesis using trusted ok [OF item Some] by simp
            qed
          next
            case None
            then show ?thesis using assms(3) h one two trusted Inr \<open>r1 = Inr k1\<close> \<open>k1 = None\<close>
              by (auto simp: verify_def)
          qed
        qed
      qed
    qed
  qed
qed

lemma verified_by_published_key_witness:
  "let env = \<lparr>jwt_header = (\<lambda>t. Some \<lparr>th_kid = Some ''k1'', th_alg = ''RS256''\<rparr>),
         jwt_decode = (\<lambda>t key. if key = (7 :: nat) then Some [(''sub'', CText ''ann''),
           (''realm_access'', CObject [(''roles'', CList [CText ''admin''])])] else None)\<rparr>;
       item = \<lparr>jwk_is_object = True, jwk_kid = Some ''k1'', jwk_use = None, jwk_alg = Some ''RS256'', jwk_key = Some 7\<rparr>;
       v = \<lparr>v_keys = [], v_expires_at = 0, v_cache_seconds = 300\<rparr>;
       run = verify env (0 :: nat) 5 (Some []) (Some [item]) v
   in fst run \<le> 2 \<and> trusted_keys {item} (fst (snd run)) \<and>
      (\<exists>vt. snd (snd run) = Inr vt \<and> vt_roles vt = [''viewer'', ''editor'', ''viewer'', ''admin''])"
proof -
  let ?env = "\<lparr>jwt_header = (\<lambda>t. Some \<lparr>th_kid = Some ''k1'', th_alg = ''RS256''\<rparr>),
         jwt_decode = (\<lambda>t key. if key = (7 :: nat) then Some [(''sub'', CText ''ann''),
           (''realm_access'', CObject [(''roles'', CList [CText ''admin''])])] else None)\<rparr> :: (nat, nat) jwt_env"
  let ?item = "\<lparr>jwk_is_object = True, jwk_kid = Some ''k1'', jwk_use = None, jwk_alg = Some ''RS256'', jwk_key = Some 7\<rparr> :: nat jwk"
  let ?v = "\<lparr>v_keys = [], v_expires_at = 0, v_cache_seconds = 300\<rparr> :: nat verifier"
  obtain n v' r where run: "verify ?env 0 5 (Some []) (Some [?item]) ?v = (n, v', r)" by (metis prod_cases3)
  have "trusted_keys {?item} ?v" by (simp add: trusted_keys_def)
  moreover have "set items \<subseteq> {?item}" if "Some [] = Some items \<or> Some [?item] = Some items" for items
    using that by auto
  ultimately have "n \<le> 2 \<and> trusted_keys {?item} v'"
    using verified_by_published_key [OF _ _ run] by blast
  moreover have "\<exists>vt. snd (snd (verify ?env 0 5 (Some []) (Some [?item]) ?v)) = Inr vt \<and>
      vt_roles vt = [''viewer'', ''editor'', ''viewer'', ''admin'']"
    by (simp add: verify_def find_key_def parse_keys_def usable_key_def token_of_claims_def realm_roles_def
        texts_def expand_roles_def)
  ultimately show ?thesis unfolding Let_def run by simp
qed

end
