(* ===== verification/Json.thy ===== *)
theory Json
  imports Base
begin

text \<open>
  JSON values, as the decoder of the standard library returns them, over the characters of a text
  type (\<open>char\<close> in the registry, code points in the agent); what the code does with values of
  unknown shape, and the compact encoding that \<open>json.dumps\<close> makes of them.
\<close>

section \<open>Values\<close>

text \<open>
  \<open>JReal n d\<close> is the number n / 10 ^ d, as it is written with a decimal point or an exponent; the decoder
  also takes \<open>NaN\<close> and \<open>Infinity\<close>, with a sign.
\<close>

datatype 'c json =
  JNull | JBool bool | JInt int | JReal int nat | JNaN | JInfinity bool | JText "'c list" | JList "'c json list"
| JObject "('c list \<times> 'c json) list"

text \<open>A member of an object; the parser keeps the last of two members of one name.\<close>

definition member :: "('c list \<times> 'c json) list \<Rightarrow> 'c list \<Rightarrow> 'c json option" where
  "member fs name = map_of (rev fs) name"

definition json_text :: "'c json option \<Rightarrow> 'c list option" where
  "json_text v = (case v of Some (JText s) \<Rightarrow> Some s | _ \<Rightarrow> None)"

text \<open>The values that a \<open>for\<close> loop over a JSON value goes through; other values raise.\<close>

fun json_items :: "'c json \<Rightarrow> 'c json list option" where
  "json_items (JList xs) = Some xs"
| "json_items (JObject fs) = Some (map (\<lambda>(name, _). JText name) fs)"
| "json_items (JText s) = Some (map (\<lambda>c. JText [c]) s)"
| "json_items _ = None"

section \<open>Encoding\<close>

text \<open>
  \<open>json.dumps(value, separators=(",", ":"))\<close> over code points: everything outside of the printable
  ASCII characters is escaped, beyond the basic plane as a surrogate pair. The text of a number with
  a fraction is a parameter.
\<close>

definition hex_digit :: "nat \<Rightarrow> nat" where
  "hex_digit n = (if n < 10 then 48 + n else 87 + n)"

definition unicode_escape :: "nat \<Rightarrow> nat list" where
  "unicode_escape n =
     [92, 117, hex_digit (n div 4096 mod 16), hex_digit (n div 256 mod 16), hex_digit (n div 16 mod 16),
      hex_digit (n mod 16)]"

definition escape_char :: "nat \<Rightarrow> nat list" where
  "escape_char c =
     (if c = 34 \<or> c = 92 then [92, c]
      else if c = 10 then [92, 110] else if c = 13 then [92, 114] else if c = 9 then [92, 116]
      else if c = 8 then [92, 98] else if c = 12 then [92, 102]
      else if 32 \<le> c \<and> c \<le> 126 then [c]
      else if c < 65536 then unicode_escape c
      else unicode_escape (55296 + (c - 65536) div 1024) @ unicode_escape (56320 + (c - 65536) mod 1024))"

definition dump_text :: "nat list \<Rightarrow> nat list" where
  "dump_text s = 34 # concat (map escape_char s) @ [34]"

fun nat_digits :: "nat \<Rightarrow> nat list" where
  "nat_digits n = (if n < 10 then [48 + n] else nat_digits (n div 10) @ [48 + n mod 10])"

declare nat_digits.simps [simp del]

definition int_digits :: "int \<Rightarrow> nat list" where
  "int_digits n = (if n < 0 then 45 # nat_digits (nat (- n)) else nat_digits (nat n))"

fun separated :: "nat list list \<Rightarrow> nat list" where
  "separated [] = []"
| "separated [x] = x"
| "separated (x # y # xs) = x @ 44 # separated (y # xs)"

fun dumps :: "(int \<Rightarrow> nat \<Rightarrow> nat list) \<Rightarrow> nat json \<Rightarrow> nat list" where
  "dumps real JNull = [110, 117, 108, 108]"
| "dumps real (JBool b) = (if b then [116, 114, 117, 101] else [102, 97, 108, 115, 101])"
| "dumps real (JInt n) = int_digits n"
| "dumps real (JReal n d) = real n d"
| "dumps real JNaN = [78, 97, 78]"
| "dumps real (JInfinity negative) = (if negative then [45] else []) @ [73, 110, 102, 105, 110, 105, 116, 121]"
| "dumps real (JText s) = dump_text s"
| "dumps real (JList xs) = 91 # separated (map (dumps real) xs) @ [93]"
| "dumps real (JObject fs) =
     123 # separated (map (\<lambda>f. dump_text (fst f) @ 58 # dumps real (snd f)) fs) @ [125]"

section \<open>Lemmas\<close>

text \<open>The encoding is ASCII, so its length in bytes is its length.\<close>

lemma hex_digit_ascii: "n < 16 \<Longrightarrow> hex_digit n < 128"
  by (simp add: hex_digit_def)

lemma escape_char_ascii: "b \<in> set (escape_char c) \<Longrightarrow> b < 128"
  by (auto simp: escape_char_def unicode_escape_def hex_digit_ascii split: if_splits)

lemma dump_text_ascii: "b \<in> set (dump_text s) \<Longrightarrow> b < 128"
  by (auto simp: dump_text_def dest: escape_char_ascii)

lemma nat_digits_ascii: "b \<in> set (nat_digits n) \<Longrightarrow> b < 128"
proof (induction n rule: nat_digits.induct)
  case (1 n)
  then show ?case by (subst (asm) (2) nat_digits.simps) (auto split: if_splits)
qed

lemma separated_set: "b \<in> set (separated xs) \<Longrightarrow> b = 44 \<or> (\<exists>x\<in>set xs. b \<in> set x)"
  by (induction xs rule: separated.induct) auto

lemma dumps_ascii:
  "(\<And>n d b. b \<in> set (real n d) \<Longrightarrow> b < 128) \<Longrightarrow> b \<in> set (dumps real v) \<Longrightarrow> b < 128"
proof (induction real v arbitrary: b rule: dumps.induct)
  case (9 real fs)
  from "9.prems"(2) consider "b \<in> {44, 123, 125}"
    | f where "f \<in> set fs" "b \<in> set (dump_text (fst f)) \<or> b = 58 \<or> b \<in> set (dumps real (snd f))"
    by (auto dest!: separated_set)
  then show ?case
  proof cases
    case 2
    then show ?thesis using "9.IH" [OF 2(1) "9.prems"(1)] dump_text_ascii by fastforce
  qed auto
qed (auto simp: int_digits_def split: if_splits dest!: separated_set
       dest: nat_digits_ascii dump_text_ascii)

end
