(* ===== verification/Directory.thy ===== *)
theory Directory
  imports Api_Errors Json "HOL-Library.AList"
begin

text \<open>
  The directory of an enterprise (\<open>app/integrations/directory/keycloak.py\<close>): the search of users
  and groups of a tenant and the groups of a user, with the cache of the service token and of the
  groups. The answers of the identity provider are a parameter: a JSON value, or nothing when the
  request fails or has an error status.
\<close>

section \<open>Numbers of an answer\<close>

text \<open>\<open>int(value)\<close>: a number loses its fraction, a text is a signed numeral, other values raise.\<close>

definition digit_of :: "char \<Rightarrow> int option" where
  "digit_of c = (if CHR ''0'' \<le> c \<and> c \<le> CHR ''9'' then Some (of_char c - 48) else None)"

fun digits_value :: "int \<Rightarrow> string \<Rightarrow> int option" where
  "digits_value n [] = Some n"
| "digits_value n (c # cs) =
     (case digit_of c of None \<Rightarrow> None | Some d \<Rightarrow> digits_value (10 * n + d) cs)"

definition numeral_value :: "string \<Rightarrow> int option" where
  "numeral_value s =
     (case s of
        [] \<Rightarrow> None
      | c # cs \<Rightarrow>
          if c = CHR ''-'' then (if cs = [] then None else map_option uminus (digits_value 0 cs))
          else if c = CHR ''+'' then (if cs = [] then None else digits_value 0 cs)
          else digits_value 0 s)"

fun json_int :: "char json \<Rightarrow> int option" where
  "json_int (JInt n) = Some n"
| "json_int (JBool b) = Some (of_bool b)"
| "json_int (JReal n d) = Some (sgn n * (\<bar>n\<bar> div 10 ^ d))"
| "json_int (JText s) = numeral_value s"
| "json_int _ = None"

section \<open>The client\<close>

record directory_entry =
  de_id :: string
  de_type :: principal_type
  de_display_name :: string
  de_secondary_text :: "string option"

record directory_client =
  dc_admin_url :: "string option"
  dc_token_url :: "string option"
  dc_client_id :: "string option"
  dc_client_secret :: "string option"
  dc_token :: "string option"
  dc_expires_at :: time
  dc_group_cache :: "(string \<times> time \<times> string set) list"

text \<open>The answers: to the token request, to the two searches and to the request for groups.\<close>

record directory_env =
  da_token :: "char json option"
  da_users :: "string \<Rightarrow> string \<Rightarrow> string \<Rightarrow> nat \<Rightarrow> char json option"
  da_groups :: "string \<Rightarrow> string \<Rightarrow> string \<Rightarrow> nat \<Rightarrow> char json option"
  da_user_groups :: "string \<Rightarrow> string \<Rightarrow> char json option"

definition configured :: "directory_client \<Rightarrow> bool" where
  "configured dc \<longleftrightarrow>
     (\<forall>v\<in>set [dc_admin_url dc, dc_token_url dc, dc_client_id dc, dc_client_secret dc].
        v \<noteq> None \<and> v \<noteq> Some [])"

text \<open>The request for a token; the cached token stays when it fails.\<close>

definition fetch_token ::
  "directory_env \<Rightarrow> time \<Rightarrow> directory_client \<Rightarrow> directory_client \<times> (api_exception + string)" where
  "fetch_token env now dc =
     (case da_token env of
        None \<Rightarrow> (dc, Inl (Unhandled ''HTTPStatusError''))
      | Some payload \<Rightarrow>
          (case (case payload of JObject fs \<Rightarrow> json_text (member fs ''access_token'') | _ \<Rightarrow> None) of
             None \<Rightarrow> (dc, Inl (Unhandled ''ValueError''))
           | Some token \<Rightarrow>
               if token = [] then (dc, Inl (Unhandled ''ValueError''))
               else
                 let expires = (case payload of
                       JObject fs \<Rightarrow> (case member fs ''expires_in'' of None \<Rightarrow> JInt 60 | Some v \<Rightarrow> v)
                     | _ \<Rightarrow> JInt 60)
                 in (case json_int expires of
                       None \<Rightarrow> (dc\<lparr>dc_token := Some token\<rparr>, Inl (Unhandled ''ValueError''))
                     | Some n \<Rightarrow>
                         (dc\<lparr>dc_token := Some token,
                             dc_expires_at := now + timedelta_seconds (max (n - 15) 15)\<rparr>, Inr token))))"

definition access_token ::
  "directory_env \<Rightarrow> time \<Rightarrow> directory_client \<Rightarrow> directory_client \<times> (api_exception + string)" where
  "access_token env now dc =
     (case dc_token dc of
        Some t \<Rightarrow> if t \<noteq> [] \<and> now < dc_expires_at dc then (dc, Inr t) else fetch_token env now dc
      | None \<Rightarrow> fetch_token env now dc)"

text \<open>The entry of one item of an answer; items without an identifier are skipped.\<close>

definition user_entry :: "char json \<Rightarrow> directory_entry option" where
  "user_entry item =
     (case item of
        JObject fs \<Rightarrow>
          (case json_text (member fs ''id'') of
             None \<Rightarrow> None
           | Some i \<Rightarrow>
               let username = json_text (member fs ''username'');
                   names = filter (\<lambda>p. p \<noteq> []) (List.map_filter json_text
                             [member fs ''firstName'', member fs ''lastName'']);
                   display = (case names of [] \<Rightarrow> [] | [n] \<Rightarrow> n | n # m # _ \<Rightarrow> n @ '' '' @ m)
               in Some \<lparr>de_id = i, de_type = User,
                    de_display_name = (if display \<noteq> [] then display
                      else case username of Some u \<Rightarrow> u | None \<Rightarrow> i),
                    de_secondary_text = (case json_text (member fs ''email'') of
                      Some e \<Rightarrow> Some e | None \<Rightarrow> username)\<rparr>)
      | _ \<Rightarrow> None)"

definition group_entry :: "char json \<Rightarrow> directory_entry option" where
  "group_entry item =
     (case item of
        JObject fs \<Rightarrow>
          (case json_text (member fs ''id'') of
             None \<Rightarrow> None
           | Some i \<Rightarrow> Some \<lparr>de_id = i, de_type = Group,
               de_display_name = (case json_text (member fs ''name'') of Some n \<Rightarrow> n | None \<Rightarrow> i),
               de_secondary_text = Some ''Directory group''\<rparr>)
      | _ \<Rightarrow> None)"

text \<open>\<open>search\<close>. A search term with an unfetched token leaves the client with the token.\<close>

definition search ::
  "directory_env \<Rightarrow> time \<Rightarrow> directory_client \<Rightarrow> string \<Rightarrow> string \<Rightarrow> nat \<Rightarrow>
     directory_client \<times> (api_exception + directory_entry list)"
where
  "search env now dc query tenant limit =
     (if \<not> configured dc then (dc, Inr [])
      else
        (case access_token env now dc of
           (dc', Inl e) \<Rightarrow> (dc', Inl e)
         | (dc', Inr token) \<Rightarrow>
             (case (da_users env token query tenant limit, da_groups env token query tenant limit) of
                (Some users, Some groups) \<Rightarrow>
                  (case (json_items users, json_items groups) of
                     (Some us, Some gs) \<Rightarrow>
                       (dc', Inr (take limit (List.map_filter user_entry us @ List.map_filter group_entry gs)))
                   | _ \<Rightarrow> (dc', Inl (Unhandled ''TypeError'')))
              | _ \<Rightarrow> (dc', Inl (Unhandled ''HTTPStatusError'')))))"

text \<open>\<open>groups_for_user\<close>, whose answer is kept for a minute.\<close>

definition group_ids_of :: "char json list \<Rightarrow> string set" where
  "group_ids_of items = set (List.map_filter (\<lambda>item. map_option de_id (group_entry item)) items)"

definition request_groups ::
  "directory_env \<Rightarrow> time \<Rightarrow> directory_client \<Rightarrow> string \<Rightarrow>
     directory_client \<times> (api_exception + string set)"
where
  "request_groups env now dc subject =
     (case access_token env now dc of
        (dc', Inl e) \<Rightarrow> (dc', Inl e)
      | (dc', Inr token) \<Rightarrow>
          (case da_user_groups env token subject of
             None \<Rightarrow> (dc', Inl (Unhandled ''HTTPStatusError''))
           | Some payload \<Rightarrow>
               (case json_items payload of
                  None \<Rightarrow> (dc', Inl (Unhandled ''TypeError''))
                | Some items \<Rightarrow>
                    (dc'\<lparr>dc_group_cache := AList.update subject
                           (now + timedelta_seconds 60, group_ids_of items) (dc_group_cache dc')\<rparr>,
                     Inr (group_ids_of items)))))"

definition groups_for_user ::
  "directory_env \<Rightarrow> time \<Rightarrow> directory_client \<Rightarrow> string \<Rightarrow>
     directory_client \<times> (api_exception + string set)"
where
  "groups_for_user env now dc subject =
     (if \<not> configured dc then (dc, Inr {})
      else
        (case map_of (dc_group_cache dc) subject of
           Some (until, groups) \<Rightarrow>
             if now < until then (dc, Inr groups) else request_groups env now dc subject
         | None \<Rightarrow> request_groups env now dc subject))"

section \<open>Lemmas\<close>

text \<open>Two answers of a search: at most as many entries as asked for, users before groups.\<close>

lemma search_bounded: "search env now dc query tenant limit = (dc', Inr entries) \<Longrightarrow> length entries \<le> limit"
  by (auto simp: search_def split: if_splits prod.splits sum.splits option.splits)

lemma search_unconfigured: "\<not> configured dc \<Longrightarrow> search env now dc query tenant limit = (dc, Inr [])"
  by (simp add: search_def)

lemma access_token_cached:
  assumes "access_token env now dc = (dc', Inr t)" "now \<le> now'" "now' < dc_expires_at dc'"
  shows "access_token env' now' dc' = (dc', Inr t)"
  using assms by (auto simp: access_token_def fetch_token_def Let_def split: option.splits if_splits)

end
