(* ===== verification/Conversation_Protocol.thy ===== *)
theory Conversation_Protocol
  imports Conversation_Model "HOL-Library.Product_Lexorder"
begin

text \<open>
  The interface of the conversation stores (\<open>ConversationStore\<close> of \<open>app/store/protocol.py\<close>): the
  operations as a record of functions over the state of the store, which \<open>Conv_Memory\<close> and
  \<open>Conv_Sql\<close> both fill, the calls as data, and the pages of the conversation list. A call reads
  the clock once and gets that reading as its argument.
\<close>

section \<open>Configuration, summaries and pages\<close>

record store_config =
  cfg_retention_days :: int
  cfg_max_turns :: nat
  cfg_lease_seconds :: int

record conversation_summary =
  su_id :: ident
  su_project_id :: string
  su_name :: ustring
  su_created_at :: time
  su_updated_at :: time
  su_archived_at :: "time option"

definition summary_of :: "conversation \<Rightarrow> conversation_summary" where
  "summary_of c = \<lparr>su_id = c_id c, su_project_id = c_project_id c, su_name = c_name c,
     su_created_at = c_created_at c, su_updated_at = c_updated_at c, su_archived_at = c_archived_at c\<rparr>"

datatype list_state = ListActive | ListArchived

text \<open>A cursor is the pair of \<open>updated_at\<close> and \<open>id\<close> that \<open>_decode_cursor\<close> returns.\<close>

type_synonym cursor = "time \<times> ident"

record conversation_list =
  cl_items :: "conversation_summary list"
  cl_next_cursor :: "cursor option"

definition cursor_of :: "conversation \<Rightarrow> cursor" where
  "cursor_of c = (c_updated_at c, c_id c)"

text \<open>\<open>rows.sort(key=..., reverse=True)\<close> keeps the order of equal keys, as \<open>ORDER BY ... DESC\<close> may.\<close>

definition sort_newest :: "conversation list \<Rightarrow> conversation list" where
  "sort_newest cs = rev (sort_key cursor_of (rev cs))"

text \<open>From the first \<open>limit + 1\<close> rows to the page and the cursor of the next one.\<close>

definition page_of :: "nat \<Rightarrow> conversation list \<Rightarrow> conversation_list" where
  "page_of limit rows =
     (let has_more = limit < length rows; page = take limit rows in
      \<lparr>cl_items = map summary_of page,
       cl_next_cursor = (if has_more \<and> page \<noteq> [] then Some (cursor_of (last page)) else None)\<rparr>)"

section \<open>The operations\<close>

record 's store_ops =
  st_cleanup :: "time \<Rightarrow> 's \<Rightarrow> (store_error, 's, nat) outcome"
  st_create :: "string \<Rightarrow> string option \<Rightarrow> string \<Rightarrow> time \<Rightarrow> 's \<Rightarrow> (store_error, 's, conversation) outcome"
  st_get :: "ident \<Rightarrow> string \<Rightarrow> 's \<Rightarrow> (store_error, 's, conversation) outcome"
  st_list :: "string \<Rightarrow> string \<Rightarrow> list_state \<Rightarrow> nat \<Rightarrow> cursor option \<Rightarrow> 's \<Rightarrow> (store_error, 's, conversation_list) outcome"
  st_get_scope :: "ident \<Rightarrow> string \<Rightarrow> bool \<Rightarrow> 's \<Rightarrow> (store_error, 's, conversation_scope) outcome"
  st_rename :: "ident \<Rightarrow> ustring \<Rightarrow> string \<Rightarrow> time \<Rightarrow> 's \<Rightarrow> (store_error, 's, conversation) outcome"
  st_archive :: "ident \<Rightarrow> string \<Rightarrow> time \<Rightarrow> 's \<Rightarrow> (store_error, 's, unit) outcome"
  st_restore :: "ident \<Rightarrow> string \<Rightarrow> time \<Rightarrow> 's \<Rightarrow> (store_error, 's, conversation) outcome"
  st_purge :: "ident \<Rightarrow> string \<Rightarrow> time \<Rightarrow> 's \<Rightarrow> (store_error, 's, unit) outcome"
  st_delete_project :: "string \<Rightarrow> 's \<Rightarrow> (store_error, 's, nat) outcome"
  st_add_user :: "ident \<Rightarrow> ustring \<Rightarrow> string \<Rightarrow> time \<Rightarrow> 's \<Rightarrow> (store_error, 's, message) outcome"
  st_add_assistant :: "ident \<Rightarrow> ustring \<Rightarrow> message_status \<Rightarrow> string option \<Rightarrow> string \<Rightarrow> time \<Rightarrow> 's \<Rightarrow> (store_error, 's, message) outcome"
  st_acquire :: "ident \<Rightarrow> string \<Rightarrow> string \<Rightarrow> time \<Rightarrow> 's \<Rightarrow> (store_error, 's, unit) outcome"
  st_release :: "ident \<Rightarrow> string \<Rightarrow> string \<Rightarrow> 's \<Rightarrow> (store_error, 's, unit) outcome"
  st_get_history :: "ident \<Rightarrow> nat \<Rightarrow> nat \<Rightarrow> string \<Rightarrow> 's \<Rightarrow> (store_error, 's, message list) outcome"

section \<open>Calls as data\<close>

datatype store_call =
  CallCleanup
| CallCreate string "string option" string
| CallGet ident string
| CallList string string list_state nat "cursor option"
| CallScope ident string bool
| CallRename ident ustring string
| CallArchive ident string
| CallRestore ident string
| CallPurge ident string
| CallDeleteProject string
| CallAddUser ident ustring string
| CallAddAssistant ident ustring message_status "string option" string
| CallAcquire ident string string
| CallRelease ident string string
| CallHistory ident nat nat string

datatype reply =
  Done
| Count nat
| AConversation conversation
| AList conversation_list
| AScope conversation_scope
| AMessage message
| Messages "message list"

definition map_reply :: "('a \<Rightarrow> 'b) \<Rightarrow> ('e, 's, 'a) outcome \<Rightarrow> ('e, 's, 'b) outcome" where
  "map_reply f r = map_sum id (map_prod id f) r"

fun run_call :: "'s store_ops \<Rightarrow> store_call \<Rightarrow> time \<Rightarrow> 's \<Rightarrow> (store_error, 's, reply) outcome" where
  "run_call ops CallCleanup now s = map_reply Count (st_cleanup ops now s)"
| "run_call ops (CallCreate p v o') now s = map_reply AConversation (st_create ops p v o' now s)"
| "run_call ops (CallGet i o') now s = map_reply AConversation (st_get ops i o' s)"
| "run_call ops (CallList p o' st n c) now s = map_reply AList (st_list ops p o' st n c s)"
| "run_call ops (CallScope i o' a) now s = map_reply AScope (st_get_scope ops i o' a s)"
| "run_call ops (CallRename i n o') now s = map_reply AConversation (st_rename ops i n o' now s)"
| "run_call ops (CallArchive i o') now s = map_reply (\<lambda>_. Done) (st_archive ops i o' now s)"
| "run_call ops (CallRestore i o') now s = map_reply AConversation (st_restore ops i o' now s)"
| "run_call ops (CallPurge i o') now s = map_reply (\<lambda>_. Done) (st_purge ops i o' now s)"
| "run_call ops (CallDeleteProject p) now s = map_reply Count (st_delete_project ops p s)"
| "run_call ops (CallAddUser i c o') now s = map_reply AMessage (st_add_user ops i c o' now s)"
| "run_call ops (CallAddAssistant i c st r o') now s = map_reply AMessage (st_add_assistant ops i c st r o' now s)"
| "run_call ops (CallAcquire i r o') now s = map_reply (\<lambda>_. Done) (st_acquire ops i r o' now s)"
| "run_call ops (CallRelease i r o') now s = map_reply (\<lambda>_. Done) (st_release ops i r o' s)"
| "run_call ops (CallHistory i n k o') now s = map_reply Messages (st_get_history ops i n k o' s)"

text \<open>A sequence of calls with the time of each: the answers and the last state.\<close>

fun run_calls ::
  "'s store_ops \<Rightarrow> (store_call \<times> time) list \<Rightarrow> 's \<Rightarrow> (store_error + reply) list \<times> 's"
where
  "run_calls ops [] s = ([], s)"
| "run_calls ops ((c, now) # cs) s =
     (let r = run_call ops c now s; (answers, t) = run_calls ops cs (state_after s r)
      in (map_sum id snd r # answers, t))"

lemma map_reply_simps [simp]:
  "map_reply f (Inl e) = Inl e"
  "map_reply f (Inr (s, a)) = Inr (s, f a)"
  by (simp_all add: map_reply_def)

lemma map_reply_Inr: "map_reply f r = Inr (s, b) \<longleftrightarrow> (\<exists>a. r = Inr (s, a) \<and> b = f a)"
  by (cases r) (auto simp: map_reply_def)

lemma state_after_map_reply [simp]: "state_after s (map_reply f r) = state_after s r"
  by (cases r) (auto simp: map_reply_def)

section \<open>Simulation of one store by another\<close>

text \<open>The answer of an operation with its state seen through \<open>f\<close>.\<close>

definition map_state :: "('s \<Rightarrow> 't) \<Rightarrow> ('e, 's, 'a) outcome \<Rightarrow> ('e, 't, 'a) outcome" where
  "map_state f r = map_sum id (map_prod f id) r"

lemma map_state_simps [simp]:
  "map_state f (Inl e) = Inl e"
  "map_state f (Inr (s, a)) = Inr (f s, a)"
  by (simp_all add: map_state_def)

lemma map_state_map_reply: "map_state f (map_reply g r) = map_reply g (map_state f r)"
  by (cases r) (auto simp: map_reply_def map_state_def)

lemma state_after_map_state: "state_after (f s) (map_state f r) = f (state_after s r)"
  by (cases r) auto

lemma answer_map_state: "map_sum id snd (map_state f r) = map_sum id snd r"
  by (cases r) auto

lemma run_calls_simulation:
  assumes "\<And>c now s. c \<in> fst ` set cs \<Longrightarrow> I s \<Longrightarrow>
      map_state f (run_call ops c now s) = run_call ops' c now (f s) \<and> I (state_after s (run_call ops c now s))"
    and "I s"
  shows "fst (run_calls ops cs s) = fst (run_calls ops' cs (f s)) \<and>
    f (snd (run_calls ops cs s)) = snd (run_calls ops' cs (f s)) \<and> I (snd (run_calls ops cs s))"
  using assms
proof (induction cs arbitrary: s)
  case (Cons p cs)
  obtain c now where p: "p = (c, now)" by force
  let ?r = "run_call ops c now s" and ?r' = "run_call ops' c now (f s)"
  have sim: "map_state f ?r = ?r'" and inv: "I (state_after s ?r)"
    using Cons.prems(1) [of c s now] Cons.prems(2) by (auto simp: p)
  have after: "state_after (f s) ?r' = f (state_after s ?r)" and ans: "map_sum id snd ?r' = map_sum id snd ?r"
    by (simp_all add: state_after_map_state answer_map_state flip: sim)
  have IH: "fst (run_calls ops cs (state_after s ?r)) = fst (run_calls ops' cs (f (state_after s ?r))) \<and>
      f (snd (run_calls ops cs (state_after s ?r))) = snd (run_calls ops' cs (f (state_after s ?r))) \<and>
      I (snd (run_calls ops cs (state_after s ?r)))"
    by (rule Cons.IH) (use Cons.prems(1) inv in auto)
  then show ?case by (simp add: p Let_def after ans case_prod_beta)
qed simp

section \<open>Pages\<close>

lemma set_sort_newest [simp]: "set (sort_newest cs) = set cs"
  by (simp add: sort_newest_def)

lemma sorted_newest: "sorted (map cursor_of (rev (sort_newest cs)))"
  by (simp add: sort_newest_def)

end
