(* ===== verification/Conv_Sql.thy ===== *)
theory Conv_Sql
  imports Conversation_Protocol
begin

text \<open>
  The durable store (\<open>SQLAlchemyConversationStore\<close> of \<open>app/store/sqlalchemy.py\<close>): two tables, each
  operation one transaction. \<open>cascade\<close> says whether the database enforces \<open>ON DELETE CASCADE\<close> on
  the connection of a bulk delete: PostgreSQL does, SQLite only where \<open>PRAGMA foreign_keys\<close> is on,
  and \<open>initialize\<close> sets it on its own connection.
\<close>

section \<open>Tables\<close>

record conversation_row =
  cr_id :: ident
  cr_project_id :: string
  cr_graph_version :: "string option"
  cr_created_by :: string
  cr_name :: "ustring option"
  cr_created_at :: time
  cr_updated_at :: time
  cr_archived_at :: "time option"
  cr_active_request_id :: "string option"
  cr_lease_expires_at :: "time option"

record message_row =
  mr_row_id :: nat
  mr_id :: ident
  mr_conversation_id :: ident
  mr_ordinal :: nat
  mr_role :: message_role
  mr_content :: ustring
  mr_status :: message_status
  mr_created_at :: time
  mr_result :: "string option"

record sql_store =
  ss_conversations :: "conversation_row list"
  ss_messages :: "message_row list"
  ss_next :: ident
  ss_next_row :: nat

definition sql_init :: sql_store where
  "sql_init = \<lparr>ss_conversations = [], ss_messages = [], ss_next = 0, ss_next_row = 1\<rparr>"

definition upd_row :: "ident \<Rightarrow> (conversation_row \<Rightarrow> conversation_row) \<Rightarrow> sql_store \<Rightarrow> sql_store" where
  "upd_row i f s = s\<lparr>ss_conversations := upd_where (\<lambda>r. cr_id r = i) f (ss_conversations s)\<rparr>"

text \<open>The relationship \<open>row.messages\<close>, ordered by \<open>ordinal\<close>.\<close>

definition rows_of :: "sql_store \<Rightarrow> ident \<Rightarrow> message_row list" where
  "rows_of s i = sort_key mr_ordinal (filter (\<lambda>m. mr_conversation_id m = i) (ss_messages s))"

definition message_model :: "message_row \<Rightarrow> message" where
  "message_model m = \<lparr>msg_id = mr_id m, msg_role = mr_role m, msg_content = mr_content m,
     msg_status = mr_status m, msg_created_at = mr_created_at m, msg_result = mr_result m\<rparr>"

text \<open>\<open>row.name or "New conversation"\<close>: a missing and an empty name both give the default.\<close>

definition shown_name :: "ustring option \<Rightarrow> ustring" where
  "shown_name n = (case n of None \<Rightarrow> default_name | Some xs \<Rightarrow> if xs = [] then default_name else xs)"

definition conversation_model :: "conversation_row \<Rightarrow> message_row list \<Rightarrow> conversation" where
  "conversation_model r ms = \<lparr>c_id = cr_id r, c_project_id = cr_project_id r, c_name = shown_name (cr_name r),
     c_created_at = cr_created_at r, c_updated_at = cr_updated_at r, c_archived_at = cr_archived_at r,
     c_messages = map message_model ms\<rparr>"

definition get_row :: "sql_store \<Rightarrow> ident \<Rightarrow> string \<Rightarrow> bool \<Rightarrow> store_error + conversation_row" where
  "get_row s i created_by active_only =
     (case first_where (\<lambda>r. cr_id r = i \<and> cr_created_by r = created_by \<and>
             (active_only \<longrightarrow> cr_archived_at r = None)) (ss_conversations s) of
        None \<Rightarrow> Inl (ConversationNotFound i) | Some r \<Rightarrow> Inr r)"

definition reject_active_lease :: "conversation_row \<Rightarrow> time \<Rightarrow> store_error option" where
  "reject_active_lease r now =
     (case (cr_active_request_id r, cr_lease_expires_at r) of
        (Some a, Some e) \<Rightarrow> if now < e then Some (ConversationRequestConflict (cr_id r) a) else None
      | _ \<Rightarrow> None)"

text \<open>\<open>DELETE FROM conversations WHERE P\<close> with the number of rows.\<close>

definition delete_rows :: "bool \<Rightarrow> (conversation_row \<Rightarrow> bool) \<Rightarrow> sql_store \<Rightarrow> sql_store" where
  "delete_rows cascade P s =
     (let gone = map cr_id (filter P (ss_conversations s)) in
      s\<lparr>ss_conversations := del_where P (ss_conversations s),
        ss_messages := (if cascade then del_where (\<lambda>m. mr_conversation_id m \<in> set gone) (ss_messages s)
                        else ss_messages s)\<rparr>)"

section \<open>Operations\<close>

definition sql_cleanup :: "store_config \<Rightarrow> bool \<Rightarrow> time \<Rightarrow> sql_store \<Rightarrow> (store_error, sql_store, nat) outcome" where
  "sql_cleanup cfg cascade now s =
     (let cutoff = now - timedelta_days (cfg_retention_days cfg);
          P = (\<lambda>r. case cr_archived_at r of None \<Rightarrow> False | Some t \<Rightarrow> t < cutoff)
      in Inr (delete_rows cascade P s, count_where P (ss_conversations s)))"

definition sql_create ::
  "string \<Rightarrow> string option \<Rightarrow> string \<Rightarrow> time \<Rightarrow> sql_store \<Rightarrow> (store_error, sql_store, conversation) outcome"
where
  "sql_create project_id graph_version created_by now s =
     (let r = \<lparr>cr_id = ss_next s, cr_project_id = project_id, cr_graph_version = graph_version,
               cr_created_by = created_by, cr_name = None, cr_created_at = now, cr_updated_at = now,
               cr_archived_at = None, cr_active_request_id = None, cr_lease_expires_at = None\<rparr>
      in Inr (s\<lparr>ss_conversations := ss_conversations s @ [r], ss_next := Suc (ss_next s)\<rparr>,
              conversation_model r []))"

definition sql_get :: "ident \<Rightarrow> string \<Rightarrow> sql_store \<Rightarrow> (store_error, sql_store, conversation) outcome" where
  "sql_get i created_by s =
     (case get_row s i created_by True of
        Inl e \<Rightarrow> Inl e | Inr r \<Rightarrow> Inr (s, conversation_model r (rows_of s (cr_id r))))"

text \<open>\<open>ORDER BY updated_at DESC, id DESC LIMIT limit + 1\<close>.\<close>

definition row_key :: "conversation_row \<Rightarrow> cursor" where
  "row_key r = (cr_updated_at r, cr_id r)"

definition sql_list ::
  "string \<Rightarrow> string \<Rightarrow> list_state \<Rightarrow> nat \<Rightarrow> cursor option \<Rightarrow> sql_store \<Rightarrow> (store_error, sql_store, conversation_list) outcome"
where
  "sql_list project_id created_by state limit boundary s =
     (let matching = filter (\<lambda>r. cr_project_id r = project_id \<and> cr_created_by r = created_by \<and>
            (if state = ListActive then cr_archived_at r = None else cr_archived_at r \<noteq> None) \<and>
            (case boundary of None \<Rightarrow> True
             | Some (updated_at, identifier) \<Rightarrow> cr_updated_at r < updated_at \<or>
                 (cr_updated_at r = updated_at \<and> cr_id r < identifier))) (ss_conversations s);
          rows = take (limit + 1) (rev (sort_key row_key matching))
      in Inr (s, page_of limit (map (\<lambda>r. conversation_model r []) rows)))"

definition sql_get_scope ::
  "ident \<Rightarrow> string \<Rightarrow> bool \<Rightarrow> sql_store \<Rightarrow> (store_error, sql_store, conversation_scope) outcome"
where
  "sql_get_scope i created_by include_archived s =
     (case get_row s i created_by (\<not> include_archived) of
        Inl e \<Rightarrow> Inl e
      | Inr r \<Rightarrow> Inr (s, \<lparr>scope_project_id = cr_project_id r, scope_graph_version = cr_graph_version r\<rparr>))"

definition sql_rename ::
  "ident \<Rightarrow> ustring \<Rightarrow> string \<Rightarrow> time \<Rightarrow> sql_store \<Rightarrow> (store_error, sql_store, conversation) outcome"
where
  "sql_rename i name created_by now s =
     (case get_row s i created_by True of
        Inl e \<Rightarrow> Inl e
      | Inr r \<Rightarrow>
          (case reject_active_lease r now of
             Some e \<Rightarrow> Inl e
           | None \<Rightarrow>
               let f = (\<lambda>r. r\<lparr>cr_name := Some (strip_text name), cr_updated_at := now\<rparr>)
               in Inr (upd_row (cr_id r) f s, conversation_model (f r) (rows_of s (cr_id r)))))"

definition sql_archive :: "ident \<Rightarrow> string \<Rightarrow> time \<Rightarrow> sql_store \<Rightarrow> (store_error, sql_store, unit) outcome" where
  "sql_archive i created_by now s =
     (case get_row s i created_by True of
        Inl e \<Rightarrow> Inl e
      | Inr r \<Rightarrow>
          (case reject_active_lease r now of
             Some e \<Rightarrow> Inl e
           | None \<Rightarrow> Inr (upd_row (cr_id r) (\<lambda>r. r\<lparr>cr_archived_at := Some now, cr_updated_at := now\<rparr>) s, ())))"

definition sql_restore ::
  "ident \<Rightarrow> string \<Rightarrow> time \<Rightarrow> sql_store \<Rightarrow> (store_error, sql_store, conversation) outcome"
where
  "sql_restore i created_by now s =
     (case get_row s i created_by False of
        Inl e \<Rightarrow> Inl e
      | Inr r \<Rightarrow>
          if cr_archived_at r = None then Inl (ConversationNotFound i)
          else (case reject_active_lease r now of
             Some e \<Rightarrow> Inl e
           | None \<Rightarrow>
               let f = (\<lambda>r. r\<lparr>cr_archived_at := None, cr_updated_at := now\<rparr>)
               in Inr (upd_row (cr_id r) f s, conversation_model (f r) (rows_of s (cr_id r)))))"

text \<open>\<open>session.delete(row)\<close> deletes the messages itself (\<open>cascade="all, delete-orphan"\<close>).\<close>

definition sql_purge :: "ident \<Rightarrow> string \<Rightarrow> time \<Rightarrow> sql_store \<Rightarrow> (store_error, sql_store, unit) outcome" where
  "sql_purge i created_by now s =
     (case get_row s i created_by False of
        Inl e \<Rightarrow> Inl e
      | Inr r \<Rightarrow>
          if cr_archived_at r = None then Inl (ConversationStateConflict i)
          else (case reject_active_lease r now of
             Some e \<Rightarrow> Inl e
           | None \<Rightarrow> Inr (delete_rows True (\<lambda>r'. cr_id r' = cr_id r) s, ())))"

definition sql_delete_project :: "bool \<Rightarrow> string \<Rightarrow> sql_store \<Rightarrow> (store_error, sql_store, nat) outcome" where
  "sql_delete_project cascade project_id s =
     (let P = (\<lambda>r. cr_project_id r = project_id)
      in Inr (delete_rows cascade P s, count_where P (ss_conversations s)))"

text \<open>\<open>coalesce(max(ordinal), 0)\<close> over the messages of the conversation.\<close>

definition max_ordinal :: "sql_store \<Rightarrow> ident \<Rightarrow> nat" where
  "max_ordinal s i =
     fold max (map mr_ordinal (filter (\<lambda>m. mr_conversation_id m = i) (ss_messages s))) 0"

definition sql_append ::
  "ident \<Rightarrow> message_role \<Rightarrow> ustring \<Rightarrow> message_status \<Rightarrow> string option \<Rightarrow> string \<Rightarrow> time \<Rightarrow>
     sql_store \<Rightarrow> (store_error, sql_store, message) outcome"
where
  "sql_append i role content status result created_by now s =
     (case get_row s i created_by True of
        Inl e \<Rightarrow> Inl e
      | Inr r \<Rightarrow>
          let m = \<lparr>mr_row_id = ss_next_row s, mr_id = ss_next s, mr_conversation_id = i,
                   mr_ordinal = max_ordinal s i + 1, mr_role = role, mr_content = content,
                   mr_status = status, mr_created_at = now, mr_result = result\<rparr>;
              f = (\<lambda>r. r\<lparr>cr_updated_at := now,
                     cr_name := (if role = RoleUser \<and> cr_name r = None then Some (derive_name content)
                                 else cr_name r)\<rparr>)
          in Inr ((upd_row (cr_id r) f s)\<lparr>ss_messages := ss_messages s @ [m], ss_next := Suc (ss_next s),
                   ss_next_row := Suc (ss_next_row s)\<rparr>, message_model m))"

fun exchange_row_ids :: "message_row option \<Rightarrow> message_row list \<Rightarrow> (nat \<times> nat) list" where
  "exchange_row_ids pending [] = []"
| "exchange_row_ids pending (m # ms) =
     (if mr_role m = RoleUser \<and> mr_status m = MCompleted then exchange_row_ids (Some m) ms
      else if mr_role m = RoleAssistant \<and> mr_status m = MCompleted
      then (case pending of
              None \<Rightarrow> exchange_row_ids None ms
            | Some u \<Rightarrow> (mr_row_id u, mr_row_id m) # exchange_row_ids None ms)
      else exchange_row_ids pending ms)"

definition sql_prune :: "store_config \<Rightarrow> ident \<Rightarrow> sql_store \<Rightarrow> (store_error, sql_store, unit) outcome" where
  "sql_prune cfg i s =
     (let ids = exchange_row_ids None (rows_of s i); excess = length ids - cfg_max_turns cfg in
      if excess = 0 then Inr (s, ())
      else
        let remove_ids = concat (map (\<lambda>(u, a). [u, a]) (take excess ids))
        in Inr (s\<lparr>ss_messages := del_where (\<lambda>m. mr_row_id m \<in> set remove_ids) (ss_messages s)\<rparr>, ()))"

definition sql_add_user ::
  "ident \<Rightarrow> ustring \<Rightarrow> string \<Rightarrow> time \<Rightarrow> sql_store \<Rightarrow> (store_error, sql_store, message) outcome"
where
  "sql_add_user i content created_by now s = sql_append i RoleUser content MCompleted None created_by now s"

definition sql_add_assistant ::
  "store_config \<Rightarrow> ident \<Rightarrow> ustring \<Rightarrow> message_status \<Rightarrow> string option \<Rightarrow> string \<Rightarrow> time \<Rightarrow>
     sql_store \<Rightarrow> (store_error, sql_store, message) outcome"
where
  "sql_add_assistant cfg i content status result created_by now s =
     (case sql_append i RoleAssistant content status result created_by now s of
        Inl e \<Rightarrow> Inl e
      | Inr (s1, m) \<Rightarrow> (case sql_prune cfg i s1 of Inl e \<Rightarrow> Inl e | Inr (s2, _) \<Rightarrow> Inr (s2, m)))"

text \<open>The conditional update, and the query for the reason when it matched no row.\<close>

definition acquirable :: "ident \<Rightarrow> string \<Rightarrow> string \<Rightarrow> time \<Rightarrow> conversation_row \<Rightarrow> bool" where
  "acquirable i request_id created_by now r \<longleftrightarrow>
     cr_id r = i \<and> cr_created_by r = created_by \<and> cr_archived_at r = None \<and>
     (cr_active_request_id r = None \<or> cr_lease_expires_at r = None \<or>
      (case cr_lease_expires_at r of None \<Rightarrow> False | Some e \<Rightarrow> e \<le> now) \<or>
      cr_active_request_id r = Some request_id)"

definition sql_acquire ::
  "store_config \<Rightarrow> ident \<Rightarrow> string \<Rightarrow> string \<Rightarrow> time \<Rightarrow> sql_store \<Rightarrow> (store_error, sql_store, unit) outcome"
where
  "sql_acquire cfg i request_id created_by now s =
     (let expires_at = now + timedelta_seconds (cfg_lease_seconds cfg);
          P = acquirable i request_id created_by now
      in if 0 < count_where P (ss_conversations s)
         then Inr (s\<lparr>ss_conversations := upd_where P
               (\<lambda>r. r\<lparr>cr_active_request_id := Some request_id, cr_lease_expires_at := Some expires_at\<rparr>)
               (ss_conversations s)\<rparr>, ())
         else case first_where (\<lambda>r. cr_id r = i \<and> cr_created_by r = created_by \<and> cr_archived_at r = None)
                     (ss_conversations s) of
                None \<Rightarrow> Inl (ConversationNotFound i)
              | Some r \<Rightarrow>
                  (case cr_active_request_id r of
                     None \<Rightarrow> Inl (ConversationNotFound i)
                   | Some a \<Rightarrow> Inl (ConversationRequestConflict i a)))"

definition sql_release ::
  "ident \<Rightarrow> string \<Rightarrow> string \<Rightarrow> sql_store \<Rightarrow> (store_error, sql_store, unit) outcome"
where
  "sql_release i request_id created_by s =
     (let P = (\<lambda>r. cr_id r = i \<and> cr_created_by r = created_by \<and> cr_active_request_id r = Some request_id)
      in if 0 < count_where P (ss_conversations s)
         then Inr (s\<lparr>ss_conversations := upd_where P
               (\<lambda>r. r\<lparr>cr_active_request_id := None, cr_lease_expires_at := None\<rparr>) (ss_conversations s)\<rparr>, ())
         else if exists_where (\<lambda>r. cr_id r = i \<and> cr_created_by r = created_by) (ss_conversations s)
         then Inr (s, ())
         else Inl (ConversationNotFound i))"

definition sql_get_history ::
  "ident \<Rightarrow> nat \<Rightarrow> nat \<Rightarrow> string \<Rightarrow> sql_store \<Rightarrow> (store_error, sql_store, message list) outcome"
where
  "sql_get_history i max_turns max_chars created_by s =
     (case sql_get i created_by s of
        Inl e \<Rightarrow> Inl e | Inr (s', c) \<Rightarrow> Inr (s', history_of max_turns max_chars (c_messages c)))"

definition sql_ops :: "store_config \<Rightarrow> bool \<Rightarrow> sql_store store_ops" where
  "sql_ops cfg cascade = \<lparr>st_cleanup = sql_cleanup cfg cascade, st_create = sql_create, st_get = sql_get,
     st_list = sql_list, st_get_scope = sql_get_scope, st_rename = sql_rename, st_archive = sql_archive,
     st_restore = sql_restore, st_purge = sql_purge, st_delete_project = sql_delete_project cascade,
     st_add_user = sql_add_user, st_add_assistant = sql_add_assistant cfg, st_acquire = sql_acquire cfg,
     st_release = sql_release, st_get_history = sql_get_history\<rparr>"

end
