(* ===== verification/Project_Routes.thy ===== *)
theory Project_Routes
  imports Auth Directory Project_Builds Conv_Sql
begin

text \<open>
  The project routes (\<open>app/api/routes/projects/router.py\<close>) over the state of the application:
  the project registry, the upload storage, the conversation store and the directory client. One
  definition per route, with its guards in the order of the code, and a dispatcher over all of
  them. A request is handled at one point in time. Idempotency keys that a route deletes unread
  are not arguments of its definition.
\<close>

section \<open>The application\<close>

record app_state =
  app_db :: repo_db
  app_files :: upload_store
  app_conversations :: sql_store
  app_directory :: directory_client

record app_config =
  cf_text :: text_props
  cf_sha :: "string \<Rightarrow> string"
  cf_convertible :: "string \<Rightarrow> string \<Rightarrow> bool"
  cf_limits :: storage_limits
  cf_retention_days :: int
  cf_upload_ttl_hours :: int
  cf_auth_enabled :: bool
  cf_cascade :: bool
  cf_casefold :: "string \<Rightarrow> string"
  cf_directory :: directory_env

type_synonym 'a route = "app_state \<times> (api_exception + 'a)"

text \<open>A route whose guard raises changes nothing; a commit of the registry replaces its tables.\<close>

definition guarded :: "app_state \<Rightarrow> (repo_error + 'a) \<Rightarrow> ('a \<Rightarrow> 'b route) \<Rightarrow> 'b route" where
  "guarded st r f = (case r of Inl e \<Rightarrow> (st, Inl (of_repo_error e)) | Inr x \<Rightarrow> f x)"

definition committed :: "app_state \<Rightarrow> 'a repo_outcome \<Rightarrow> ('a \<Rightarrow> 'b) \<Rightarrow> 'b route" where
  "committed st r f =
     (case r of
        Inl e \<Rightarrow> (st, Inl (of_repo_error e))
      | Inr (db, x) \<Rightarrow> (st\<lparr>app_db := db\<rparr>, Inr (f x)))"

section \<open>Authorization\<close>

definition authorize ::
  "repo_db \<Rightarrow> ident \<Rightarrow> auth_principal \<Rightarrow> project_role \<Rightarrow> repo_error + access_decision" where
  "authorize db pid user minimum =
     access_decision_of db pid (ap_tenant_id user) (ap_subject user) (ap_group_ids user) minimum"

definition tenant_project :: "repo_db \<Rightarrow> ident \<Rightarrow> string \<Rightarrow> repo_error + project_row" where
  "tenant_project db pid tenant =
     (case get_project db pid True of
        Inl e \<Rightarrow> Inl e
      | Inr p \<Rightarrow> if p_tenant_id p \<noteq> tenant then Inl (ProjectNotFound pid) else Inr p)"

definition is_admin :: "auth_principal \<Rightarrow> bool" where
  "is_admin user \<longleftrightarrow> ''admin'' \<in> set (ap_roles user)"

definition govern_access ::
  "repo_db \<Rightarrow> ident \<Rightarrow> auth_principal \<Rightarrow> bool \<Rightarrow> repo_error + access_decision" where
  "govern_access db pid user view_only =
     (if is_admin user
      then (case tenant_project db pid (ap_tenant_id user) of
              Inl e \<Rightarrow> Inl e
            | Inr _ \<Rightarrow> Inr \<lparr>effective_role = Owner, origins = []\<rparr>)
      else authorize db pid user (if view_only then Viewer else Manager))"

text \<open>The decision of \<open>archive_project\<close> and \<open>restore_project\<close>.\<close>

definition owner_or_admin :: "repo_db \<Rightarrow> ident \<Rightarrow> auth_principal \<Rightarrow> repo_error + access_decision" where
  "owner_or_admin db pid user =
     (if is_admin user
      then (case tenant_project db pid (ap_tenant_id user) of
              Inl e \<Rightarrow> Inl e
            | Inr _ \<Rightarrow> Inr \<lparr>effective_role = Viewer, origins = []\<rparr>)
      else authorize db pid user Owner)"

section \<open>Views\<close>

record allowed_actions =
  may_create_conversation :: bool
  may_edit_draft :: bool
  may_build :: bool
  may_archive :: bool
  may_restore :: bool
  may_purge :: bool
  may_manage_access :: bool
  may_view_access_activity :: bool
  may_request_access :: bool

record access_origin =
  ao_membership_id :: ident
  ao_principal_type :: principal_type
  ao_principal_id :: string
  ao_display_name :: string
  ao_role :: project_role

record project_view =
  pv_id :: ident
  pv_name :: string
  pv_description :: "string option"
  pv_state :: project_state
  pv_creator :: string
  pv_created_at :: time
  pv_updated_at :: time
  pv_archived_at :: "time option"
  pv_active_graph_version :: "string option"
  pv_draft_file_count :: nat
  pv_active_document_count :: int
  pv_current_build :: "build_job_row option"
  pv_last_build :: "build_job_row option"
  pv_allowed :: allowed_actions
  pv_effective_role :: project_role
  pv_origins :: "access_origin list"

definition origin_view :: "membership_row \<Rightarrow> access_origin" where
  "origin_view m =
     \<lparr>ao_membership_id = m_id m, ao_principal_type = m_principal_type m,
      ao_principal_id = m_principal_id m, ao_display_name = m_display_name m, ao_role = m_role m\<rparr>"

text \<open>The related rows of a project as \<open>_project\<close> looks at them.\<close>

definition project_builds :: "repo_db \<Rightarrow> ident \<Rightarrow> build_job_row list" where
  "project_builds db pid = sort_desc j_created_at (filter (\<lambda>j. j_project_id j = pid) (build_jobs db))"

definition view_draft :: "repo_db \<Rightarrow> ident \<Rightarrow> snapshot_row option" where
  "view_draft db pid =
     first_where (\<lambda>s. s_project_id s = pid \<and> s_status s = Editable) (snapshots db)"

definition draft_file_count :: "repo_db \<Rightarrow> ident \<Rightarrow> nat" where
  "draft_file_count db pid =
     (case view_draft db pid of
        None \<Rightarrow> 0
      | Some d \<Rightarrow> count_where (\<lambda>f. f_snapshot_id f = s_id d) (snapshot_files db))"

definition actions_of :: "repo_db \<Rightarrow> project_row \<Rightarrow> auth_principal \<Rightarrow> access_decision \<Rightarrow> allowed_actions" where
  "actions_of db p user access =
     (let rank = role_rank (effective_role access);
          editor = role_rank Contributor \<le> rank \<and> p_state p \<noteq> Archived;
          manager = role_rank Manager \<le> rank;
          owner = (effective_role access = Owner);
          idle = p_state p \<notin> {Queued, Building}
      in \<lparr>may_create_conversation = p_state p = Ready,
          may_edit_draft = editor \<and> idle,
          may_build = editor \<and> idle \<and> draft_file_count db (p_id p) \<noteq> 0,
          may_archive = owner \<and> p_state p \<notin> {Archived, Queued, Building},
          may_restore = (owner \<or> is_admin user) \<and> p_state p = Archived,
          may_purge = is_admin user \<and> p_state p = Archived,
          may_manage_access = manager,
          may_view_access_activity = manager,
          may_request_access = False\<rparr>)"

definition project_view_of :: "repo_db \<Rightarrow> project_row \<Rightarrow> auth_principal \<Rightarrow> access_decision \<Rightarrow> project_view" where
  "project_view_of db p user access =
     (let builds = project_builds db (p_id p) in
      \<lparr>pv_id = p_id p, pv_name = p_name p, pv_description = p_description p, pv_state = p_state p,
       pv_creator = p_creator_name p, pv_created_at = p_created_at p, pv_updated_at = p_updated_at p,
       pv_archived_at = p_archived_at p, pv_active_graph_version = p_active_graph_version p,
       pv_draft_file_count = draft_file_count db (p_id p),
       pv_active_document_count = p_active_document_count p,
       pv_current_build = first_where (\<lambda>j. j_status j \<in> {BQueued, BBuilding}) builds,
       pv_last_build = first_where (\<lambda>j. j_status j \<in> {BReady, BFailed}) builds,
       pv_allowed = actions_of db p user access,
       pv_effective_role = effective_role access,
       pv_origins = map origin_view (origins access)\<rparr>)"

record context_view =
  cv_project_id :: ident
  cv_project_name :: string
  cv_status :: string
  cv_request_id :: "ident option"

record governance_view =
  gv_id :: ident
  gv_name :: string
  gv_state :: project_state
  gv_owner_count :: nat
  gv_updated_at :: time

record part_view =
  pa_id :: ident
  pa_filename :: string
  pa_upload_url :: string

record session_view =
  sv_id :: ident
  sv_expires_at :: time
  sv_parts :: "part_view list"

record activity_view =
  av_id :: ident
  av_actor_id :: string
  av_action :: string
  av_target_name :: "string option"
  av_occurred_at :: time

text \<open>The answers of the routes; memberships, requests, files and builds are shown as their rows.\<close>

datatype response =
  RProject project_view
| RProjects "project_view list"
| RGovernance "governance_view list"
| RContext context_view
| RSession session_view
| RFiles "snapshot_file_row list"
| RAccepted ident
| RBuild build_job_row
| RMembers "membership_row list"
| RMember membership_row
| RRequest access_request_row
| RRequests "access_request_row list"
| RActivity "activity_view list"
| RDirectory "directory_entry list"
| RNoContent

section \<open>Request bodies\<close>

text \<open>The validation of the bodies and of the idempotency key by the models of the contract.\<close>

definition text_between :: "nat \<Rightarrow> nat \<Rightarrow> string \<Rightarrow> bool" where
  "text_between lo hi s \<longleftrightarrow> lo \<le> length s \<and> length s \<le> hi"

definition optional_text :: "nat \<Rightarrow> string option \<Rightarrow> bool" where
  "optional_text hi v = (case v of None \<Rightarrow> True | Some s \<Rightarrow> length s \<le> hi)"

definition valid_declaration :: "upload_file_declaration \<Rightarrow> bool" where
  "valid_declaration d \<longleftrightarrow>
     text_between 1 255 (d_filename d) \<and> text_between 1 255 (d_media_type d) \<and> 0 < d_size d \<and>
     length (d_sha256 d) = 64 \<and> set (d_sha256 d) \<subseteq> set ''abcdef0123456789''"

definition valid_project_body :: "(char \<Rightarrow> bool) \<Rightarrow> string \<Rightarrow> string option \<Rightarrow> bool" where
  "valid_project_body space name description \<longleftrightarrow>
     text_between 1 120 name \<and> strip space name \<noteq> [] \<and> optional_text 1000 description"

definition valid_members_body :: "(principal_type \<times> string \<times> string) list \<Rightarrow> project_role \<Rightarrow> bool" where
  "valid_members_body items role \<longleftrightarrow>
     1 \<le> length items \<and> length items \<le> 50 \<and> role \<noteq> Owner \<and>
     (\<forall>(t, i, n)\<in>set items. text_between 1 255 i \<and> text_between 1 255 n)"

text \<open>\<open>x.strip() if x else None\<close>.\<close>

definition stripped :: "(char \<Rightarrow> bool) \<Rightarrow> string option \<Rightarrow> string option" where
  "stripped space v = (case v of None \<Rightarrow> None | Some s \<Rightarrow> if s = [] then None else Some (strip space s))"

section \<open>Routes without a project\<close>

definition governance_projects :: "app_state \<Rightarrow> auth_principal \<Rightarrow> governance_view list" where
  "governance_projects st user =
     map (\<lambda>p. \<lparr>gv_id = p_id p, gv_name = p_name p, gv_state = p_state p,
               gv_owner_count = owner_count (app_db st) (p_id p), gv_updated_at = p_updated_at p\<rparr>)
       (list_tenant_projects (app_db st) (ap_tenant_id user))"

text \<open>Raises when the access decision of a listed project does.\<close>

fun project_views ::
  "repo_db \<Rightarrow> auth_principal \<Rightarrow> project_row list \<Rightarrow> repo_error + project_view list" where
  "project_views db user [] = Inr []"
| "project_views db user (p # ps) =
     (case authorize db (p_id p) user Viewer of
        Inl e \<Rightarrow> Inl e
      | Inr access \<Rightarrow>
          (case project_views db user ps of
             Inl e \<Rightarrow> Inl e
           | Inr views \<Rightarrow> Inr (project_view_of db p user access # views)))"

definition list_projects_route :: "app_state \<Rightarrow> auth_principal \<Rightarrow> repo_error + project_view list" where
  "list_projects_route st user =
     project_views (app_db st) user
       (list_projects (app_db st) (Some (ap_tenant_id user)) (Some (ap_subject user)) (ap_group_ids user))"

definition create_project_route ::
  "app_config \<Rightarrow> time \<Rightarrow> string \<Rightarrow> string option \<Rightarrow> string \<Rightarrow> auth_principal \<Rightarrow> app_state \<Rightarrow> project_view route"
where
  "create_project_route cf now name description key user st =
     (let space = space_char (cf_text cf) in
      case create_project (app_db st) (strip space name) (stripped space description)
             (ap_subject user) (ap_username user) (ap_tenant_id user) key now of
        Inl e \<Rightarrow> (st, Inl (of_repo_error e))
      | Inr (db, p) \<Rightarrow>
          let st' = st\<lparr>app_db := db\<rparr> in
          guarded st' (access_decision_of db (p_id p) (ap_tenant_id user) (ap_subject user) [] Viewer)
            (\<lambda>access. (st', Inr (project_view_of db p user access))))"

section \<open>The life of a project\<close>

definition purge_project ::
  "app_config \<Rightarrow> time \<Rightarrow> ident \<Rightarrow> auth_principal \<Rightarrow> app_state \<Rightarrow> response route" where
  "purge_project cf now pid user st =
     guarded st (tenant_project (app_db st) pid (ap_tenant_id user)) (\<lambda>_.
       case purge_expired (app_db st) pid (ap_subject user) (cf_retention_days cf) now of
         Inl e \<Rightarrow> (st, Inl (of_repo_error e))
       | Inr (db, _) \<Rightarrow>
           let st1 = st\<lparr>app_db := db\<rparr> in
           (case sql_delete_project (cf_cascade cf) (id_text pid) (app_conversations st1) of
              Inl e \<Rightarrow> (st1, Inl (of_store_error e))
            | Inr (convs, _) \<Rightarrow>
                (st1\<lparr>app_conversations := convs, app_files := purge_storage pid (app_files st1)\<rparr>,
                 Inr RNoContent)))"

definition get_project_route :: "ident \<Rightarrow> auth_principal \<Rightarrow> app_state \<Rightarrow> response route" where
  "get_project_route pid user st =
     guarded st (authorize (app_db st) pid user Viewer) (\<lambda>access.
     guarded st (get_project (app_db st) pid False) (\<lambda>p.
       (st, Inr (RProject (project_view_of (app_db st) p user access)))))"

definition access_request_context :: "ident \<Rightarrow> auth_principal \<Rightarrow> app_state \<Rightarrow> response route" where
  "access_request_context pid user st =
     guarded st (tenant_project (app_db st) pid (ap_tenant_id user)) (\<lambda>p.
       if p_state p = Archived then (st, Inl (ProjectMissing pid))
       else
         let requests = list_access_requests (app_db st) pid (ap_tenant_id user) (Some (ap_subject user));
             latest = (case requests of [] \<Rightarrow> None | r # _ \<Rightarrow> Some r)
         in (st, Inr (RContext \<lparr>cv_project_id = p_id p, cv_project_name = p_name p,
               cv_status = (case map_option r_status latest of
                   Some RPending \<Rightarrow> ''pending'' | Some RDenied \<Rightarrow> ''denied'' | _ \<Rightarrow> ''available''),
               cv_request_id = (case latest of
                   Some r \<Rightarrow> if r_status r = RPending then Some (r_id r) else None | None \<Rightarrow> None)\<rparr>)))"

definition archive_project :: "time \<Rightarrow> ident \<Rightarrow> auth_principal \<Rightarrow> app_state \<Rightarrow> response route" where
  "archive_project now pid user st =
     guarded st (owner_or_admin (app_db st) pid user) (\<lambda>access.
       case archive (app_db st) pid (ap_subject user) now of
         Inl e \<Rightarrow> (st, Inl (of_repo_error e))
       | Inr (db, p) \<Rightarrow> (st\<lparr>app_db := db\<rparr>, Inr (RProject (project_view_of db p user access))))"

definition restore_project ::
  "app_config \<Rightarrow> time \<Rightarrow> ident \<Rightarrow> auth_principal \<Rightarrow> app_state \<Rightarrow> response route" where
  "restore_project cf now pid user st =
     guarded st (owner_or_admin (app_db st) pid user) (\<lambda>access.
       case restore (app_db st) pid (ap_subject user) (cf_retention_days cf) now of
         Inl e \<Rightarrow> (st, Inl (of_repo_error e))
       | Inr (db, p) \<Rightarrow> (st\<lparr>app_db := db\<rparr>, Inr (RProject (project_view_of db p user access))))"

section \<open>Uploads and builds\<close>

fun validate_filenames :: "text_props \<Rightarrow> upload_file_declaration list \<Rightarrow> storage_error + string list" where
  "validate_filenames tp [] = Inr []"
| "validate_filenames tp (d # ds) =
     (case validate_filename tp (d_filename d) of
        Inl e \<Rightarrow> Inl e
      | Inr n \<Rightarrow> (case validate_filenames tp ds of Inl e \<Rightarrow> Inl e | Inr ns \<Rightarrow> Inr (n # ns)))"

definition check_declarations ::
  "text_props \<Rightarrow> storage_limits \<Rightarrow> upload_file_declaration list \<Rightarrow> storage_error + unit" where
  "check_declarations tp limits files =
     (case validate_filenames tp files of
        Inl e \<Rightarrow> Inl e
      | Inr names \<Rightarrow>
          if \<not> distinct names then Inl (UploadInvalid ''Filenames in an upload session must be unique'')
          else if max_files limits < length files
          then Inl (UploadInvalid ''The upload exceeds the configured file-count limit'')
          else if \<exists>d\<in>set files. max_file_bytes limits < d_size d
          then Inl (UploadInvalid ''A file exceeds the configured size limit'')
          else if max_total_bytes limits < sum_list (map d_size files)
          then Inl (UploadInvalid ''The upload exceeds the configured aggregate-size limit'')
          else Inr ())"

definition upload_url :: "ident \<Rightarrow> ident \<Rightarrow> ident \<Rightarrow> string" where
  "upload_url pid sid part =
     ''/api/backend/api/v1/projects/'' @ id_text pid @ ''/upload-sessions/'' @ id_text sid @ ''/parts/'' @ id_text part"

definition session_view_of :: "repo_db \<Rightarrow> ident \<Rightarrow> upload_session_row \<Rightarrow> session_view" where
  "session_view_of db pid u =
     \<lparr>sv_id = u_id u, sv_expires_at = u_expires_at u,
      sv_parts = map (\<lambda>part. \<lparr>pa_id = up_id part, pa_filename = up_logical_filename part,
                              pa_upload_url = upload_url pid (u_id u) (up_id part)\<rparr>)
                   (session_parts db (u_id u))\<rparr>"

definition create_upload_session_route ::
  "app_config \<Rightarrow> time \<Rightarrow> ident \<Rightarrow> upload_file_declaration list \<Rightarrow> string \<Rightarrow> auth_principal \<Rightarrow> app_state \<Rightarrow>
     response route" where
  "create_upload_session_route cf now pid files key user st =
     guarded st (authorize (app_db st) pid user Contributor) (\<lambda>_.
       case check_declarations (cf_text cf) (cf_limits cf) files of
         Inl e \<Rightarrow> (st, Inl (of_storage_error e))
       | Inr _ \<Rightarrow>
           (case create_upload_session (app_db st) (cf_upload_ttl_hours cf) pid files (ap_subject user) key now of
              Inl e \<Rightarrow> (st, Inl (of_repo_error e))
            | Inr (db, u) \<Rightarrow> (st\<lparr>app_db := db\<rparr>, Inr (RSession (session_view_of db pid u)))))"

definition upload_part ::
  "app_config \<Rightarrow> time \<Rightarrow> ident \<Rightarrow> ident \<Rightarrow> ident \<Rightarrow> string \<Rightarrow> string list \<Rightarrow> auth_principal \<Rightarrow> app_state \<Rightarrow>
     response route" where
  "upload_part cf now pid sid part_id path chunks user st =
     guarded st (authorize (app_db st) pid user Contributor) (\<lambda>_.
     guarded st (get_part (app_db st) pid sid part_id) (\<lambda>part.
       case receive_part (cf_sha cf) (cf_limits cf) (app_db st) (app_files st) part path chunks now of
         (files, Inl e) \<Rightarrow> (st\<lparr>app_files := files\<rparr>, Inl (of_storage_error e))
       | (files, Inr db) \<Rightarrow> (st\<lparr>app_files := files, app_db := db\<rparr>, Inr RNoContent)))"

definition finalize_upload_route ::
  "app_config \<Rightarrow> time \<Rightarrow> ident \<Rightarrow> ident \<Rightarrow> string \<Rightarrow> auth_principal \<Rightarrow> app_state \<Rightarrow> response route" where
  "finalize_upload_route cf now pid sid key user st =
     guarded st (authorize (app_db st) pid user Contributor) (\<lambda>_.
       case validate_and_store (cf_text cf) (cf_sha cf) (cf_convertible cf) (cf_limits cf) (app_db st)
              (app_files st) pid sid now of
         (files, Inl e) \<Rightarrow> (st\<lparr>app_files := files\<rparr>, Inl (of_storage_error e))
       | (files, Inr stored) \<Rightarrow>
           (case finalize_upload (app_db st) pid sid stored (ap_subject user) key now of
              (db, Inl e) \<Rightarrow> (st\<lparr>app_files := files, app_db := db\<rparr>, Inl (of_repo_error e))
            | (db, Inr rows) \<Rightarrow> (st\<lparr>app_files := files, app_db := db\<rparr>, Inr (RFiles rows))))"

definition list_files_route :: "ident \<Rightarrow> auth_principal \<Rightarrow> app_state \<Rightarrow> response route" where
  "list_files_route pid user st =
     guarded st (authorize (app_db st) pid user Viewer) (\<lambda>_.
     guarded st (get_project (app_db st) pid False) (\<lambda>_.
     guarded st (list_files (app_db st) pid) (\<lambda>rows. (st, Inr (RFiles rows)))))"

definition delete_file_route :: "time \<Rightarrow> ident \<Rightarrow> ident \<Rightarrow> auth_principal \<Rightarrow> app_state \<Rightarrow> response route" where
  "delete_file_route now pid file_id user st =
     guarded st (authorize (app_db st) pid user Contributor) (\<lambda>_.
       committed st (delete_file (app_db st) pid file_id (ap_subject user) now) (\<lambda>_. RNoContent))"

definition create_build :: "time \<Rightarrow> ident \<Rightarrow> string \<Rightarrow> auth_principal \<Rightarrow> app_state \<Rightarrow> response route" where
  "create_build now pid key user st =
     guarded st (authorize (app_db st) pid user Contributor) (\<lambda>_.
       committed st (submit_build (app_db st) pid (ap_subject user) key now) (\<lambda>j. RAccepted (j_id j)))"

definition get_build_route :: "ident \<Rightarrow> ident \<Rightarrow> auth_principal \<Rightarrow> app_state \<Rightarrow> response route" where
  "get_build_route pid bid user st =
     guarded st (authorize (app_db st) pid user Viewer) (\<lambda>_.
     guarded st (get_build (app_db st) pid bid) (\<lambda>j. (st, Inr (RBuild j))))"

section \<open>Members and access requests\<close>

definition list_members :: "ident \<Rightarrow> auth_principal \<Rightarrow> app_state \<Rightarrow> response route" where
  "list_members pid user st =
     guarded st (govern_access (app_db st) pid user True) (\<lambda>_.
       (st, Inr (RMembers (list_memberships (app_db st) pid (ap_tenant_id user)))))"

text \<open>The loop of \<open>add_members\<close> over the directory, which threads the client.\<close>

fun resolve_principals ::
  "directory_env \<Rightarrow> time \<Rightarrow> string \<Rightarrow> (principal_type \<times> string \<times> string) list \<Rightarrow> directory_client \<Rightarrow>
     directory_client \<times> (api_exception + directory_entry list)" where
  "resolve_principals env now tenant [] dc = (dc, Inr [])"
| "resolve_principals env now tenant ((t, i, name) # items) dc =
     (case search env now dc name tenant 50 of
        (dc1, Inl e) \<Rightarrow> (dc1, Inl e)
      | (dc1, Inr found) \<Rightarrow>
          (case resolve_principals env now tenant items dc1 of
             (dc2, Inl e) \<Rightarrow> (dc2, Inl e)
           | (dc2, Inr rest) \<Rightarrow> (dc2, Inr (found @ rest))))"

definition check_principals ::
  "app_config \<Rightarrow> time \<Rightarrow> auth_principal \<Rightarrow> (principal_type \<times> string \<times> string) list \<Rightarrow> directory_client \<Rightarrow>
     directory_client \<times> (api_exception + unit)" where
  "check_principals cf now user items dc =
     (if \<not> cf_auth_enabled cf then (dc, Inr ())
      else
        let own = (User, ap_subject user) # map (\<lambda>g. (Group, g)) (ap_group_ids user);
            check = (\<lambda>dc' found.
              if \<exists>(t, i, n)\<in>set items. (t, i) \<notin> set (own @ map (\<lambda>e. (de_type e, de_id e)) found)
              then (dc', Inl RequestInvalid) else (dc', Inr ()))
        in if configured dc
           then (case resolve_principals (cf_directory cf) now (ap_tenant_id user) items dc of
                   (dc', Inl e) \<Rightarrow> (dc', Inl e)
                 | (dc', Inr found) \<Rightarrow> check dc' found)
           else check dc [])"

definition add_members ::
  "app_config \<Rightarrow> time \<Rightarrow> ident \<Rightarrow> (principal_type \<times> string \<times> string) list \<Rightarrow> project_role \<Rightarrow>
     auth_principal \<Rightarrow> app_state \<Rightarrow> response route" where
  "add_members cf now pid items role user st =
     guarded st (govern_access (app_db st) pid user False) (\<lambda>_.
       case check_principals cf now user items (app_directory st) of
         (dc, Inl e) \<Rightarrow> (st\<lparr>app_directory := dc\<rparr>, Inl e)
       | (dc, Inr _) \<Rightarrow>
           let st1 = st\<lparr>app_directory := dc\<rparr> in
           committed st1
             (add_memberships (app_db st1) pid (ap_tenant_id user) items role (ap_subject user) now) RMembers)"

definition change_member_role ::
  "time \<Rightarrow> ident \<Rightarrow> ident \<Rightarrow> project_role \<Rightarrow> auth_principal \<Rightarrow> app_state \<Rightarrow> response route" where
  "change_member_role now pid mid role user st =
     guarded st (govern_access (app_db st) pid user False) (\<lambda>access.
       if role = Owner \<and> effective_role access \<noteq> Owner then (st, Inl AuthorizationFailed)
       else committed st
              (update_membership (app_db st) pid mid (ap_tenant_id user) role (ap_subject user) now) RMember)"

definition remove_member ::
  "time \<Rightarrow> ident \<Rightarrow> ident \<Rightarrow> auth_principal \<Rightarrow> app_state \<Rightarrow> response route" where
  "remove_member now pid mid user st =
     guarded st (govern_access (app_db st) pid user False) (\<lambda>access.
       let rows = list_memberships (app_db st) pid (ap_tenant_id user);
           target = first_where (\<lambda>m. m_id m = mid) rows
       in if (case target of None \<Rightarrow> False | Some m \<Rightarrow> m_role m = Owner) \<and> effective_role access \<noteq> Owner
          then (st, Inl AuthorizationFailed)
          else committed st
                 (remove_membership (app_db st) pid mid (ap_tenant_id user) (ap_subject user) now) (\<lambda>_. RNoContent))"

definition request_access ::
  "app_config \<Rightarrow> time \<Rightarrow> ident \<Rightarrow> string option \<Rightarrow> auth_principal \<Rightarrow> app_state \<Rightarrow> response route" where
  "request_access cf now pid note_text user st =
     (case authorize (app_db st) pid user Viewer of
        Inr _ \<Rightarrow> (st, Inl (ProjectConflicting ''Project members cannot request access''))
      | Inl (ProjectNotFound _) \<Rightarrow>
          committed st
            (create_access_request (app_db st) pid (ap_tenant_id user) (ap_subject user) (ap_username user)
               (stripped (space_char (cf_text cf)) note_text) now) RRequest
      | Inl e \<Rightarrow> (st, Inl (of_repo_error e)))"

definition list_access_requests_route :: "ident \<Rightarrow> auth_principal \<Rightarrow> app_state \<Rightarrow> response route" where
  "list_access_requests_route pid user st =
     (let listed = (\<lambda>requester. (st, Inr (RRequests
            (list_access_requests (app_db st) pid (ap_tenant_id user) requester))))
      in case govern_access (app_db st) pid user False of
           Inr _ \<Rightarrow> listed None
         | Inl e \<Rightarrow>
             if (case e of ProjectNotFound _ \<Rightarrow> True | AuthorizationError _ \<Rightarrow> True | _ \<Rightarrow> False)
             then guarded st (tenant_project (app_db st) pid (ap_tenant_id user)) (\<lambda>_. listed (Some (ap_subject user)))
             else (st, Inl (of_repo_error e)))"

definition decide_access_request_route ::
  "time \<Rightarrow> ident \<Rightarrow> ident \<Rightarrow> bool \<Rightarrow> project_role option \<Rightarrow> auth_principal \<Rightarrow> app_state \<Rightarrow> response route" where
  "decide_access_request_route now pid rid approve role user st =
     guarded st (govern_access (app_db st) pid user False) (\<lambda>_.
       if approve \<and> role = None then (st, Inl RequestInvalid)
       else committed st
              (decide_access_request (app_db st) pid rid (ap_tenant_id user)
                 (if approve then RApproved else RDenied) role (ap_subject user) now) RRequest)"

definition cancel_access_request_route ::
  "time \<Rightarrow> ident \<Rightarrow> ident \<Rightarrow> auth_principal \<Rightarrow> app_state \<Rightarrow> response route" where
  "cancel_access_request_route now pid rid user st =
     committed st
       (cancel_access_request (app_db st) pid rid (ap_tenant_id user) (ap_subject user) now) (\<lambda>_. RNoContent)"

definition activity_view_of :: "audit_event_row \<Rightarrow> activity_view" where
  "activity_view_of a =
     \<lparr>av_id = a_id a, av_actor_id = a_actor_subject a, av_action = a_action a,
      av_target_name = (case map_of (rev (a_details a)) ''targetName'' of Some v \<Rightarrow> v | None \<Rightarrow> None),
      av_occurred_at = a_occurred_at a\<rparr>"

definition access_activity_route :: "ident \<Rightarrow> auth_principal \<Rightarrow> app_state \<Rightarrow> response route" where
  "access_activity_route pid user st =
     guarded st (govern_access (app_db st) pid user False) (\<lambda>_.
     guarded st (access_activity (app_db st) pid (ap_tenant_id user)) (\<lambda>rows.
       (st, Inr (RActivity (map activity_view_of rows)))))"

text \<open>The user and its groups stand in for a directory that finds nobody.\<close>

definition own_candidates :: "auth_principal \<Rightarrow> directory_entry list" where
  "own_candidates user =
     \<lparr>de_id = ap_subject user, de_type = User, de_display_name = ap_username user,
      de_secondary_text = Some ''Current user''\<rparr>
     # map (\<lambda>g. \<lparr>de_id = g, de_type = Group, de_display_name = g,
                  de_secondary_text = Some ''Directory group''\<rparr>) (sort (remdups (ap_group_ids user)))"

definition occurs_in :: "string \<Rightarrow> string \<Rightarrow> bool" where
  "occurs_in needle hay \<longleftrightarrow> (\<exists>n\<in>{0..length hay}. take (length needle) (drop n hay) = needle)"

definition search_directory ::
  "app_config \<Rightarrow> time \<Rightarrow> ident \<Rightarrow> string \<Rightarrow> auth_principal \<Rightarrow> app_state \<Rightarrow> response route" where
  "search_directory cf now pid query user st =
     guarded st (govern_access (app_db st) pid user False) (\<lambda>_.
       let space = space_char (cf_text cf) in
       case search (cf_directory cf) now (app_directory st) (strip space query) (ap_tenant_id user) 20 of
         (dc, Inl e) \<Rightarrow> (st\<lparr>app_directory := dc\<rparr>, Inl e)
       | (dc, Inr found) \<Rightarrow>
           let candidates = (if found = [] then own_candidates user else found);
               folded = strip space (cf_casefold cf query)
           in (st\<lparr>app_directory := dc\<rparr>, Inr (RDirectory
                 (filter (\<lambda>e. folded = [] \<or> occurs_in folded (cf_casefold cf (de_display_name e))) candidates))))"

section \<open>The dispatcher\<close>

text \<open>The requests below one project, with what the client sends.\<close>

datatype project_call =
  Purge
| GetProject
| AccessContext
| Archive
| Restore
| CreateSession "upload_file_declaration list" string
| UploadPart ident ident string "string list"
| Finalize ident string
| ListFiles
| DeleteFile ident
| CreateBuild string
| GetBuild ident
| ListMembers
| AddMembers "(principal_type \<times> string \<times> string) list" project_role string
| ChangeRole ident project_role
| RemoveMember ident
| RequestAccess "string option" string
| ListRequests
| DecideRequest ident bool "project_role option" string
| CancelRequest ident
| Activity
| SearchDirectory string

text \<open>The role that the route depends on, and the validation of its body and its key.\<close>

definition required_role :: "project_call \<Rightarrow> string" where
  "required_role call = (if call = Purge then ''admin'' else ''viewer'')"

fun valid_call :: "project_call \<Rightarrow> bool" where
  "valid_call (CreateSession files key) \<longleftrightarrow>
     1 \<le> length files \<and> length files \<le> 100 \<and> list_all valid_declaration files \<and> text_between 1 255 key"
| "valid_call (Finalize sid key) \<longleftrightarrow> text_between 1 255 key"
| "valid_call (CreateBuild key) \<longleftrightarrow> text_between 1 255 key"
| "valid_call (AddMembers items role key) \<longleftrightarrow> valid_members_body items role \<and> text_between 1 255 key"
| "valid_call (RequestAccess note_text key) \<longleftrightarrow> optional_text 500 note_text \<and> text_between 1 255 key"
| "valid_call (DecideRequest rid approve role key) \<longleftrightarrow> role \<noteq> Some Owner \<and> text_between 1 255 key"
| "valid_call _ \<longleftrightarrow> True"

fun run_route :: "app_config \<Rightarrow> time \<Rightarrow> ident \<Rightarrow> project_call \<Rightarrow> auth_principal \<Rightarrow> app_state \<Rightarrow> response route" where
  "run_route cf now pid Purge user st = purge_project cf now pid user st"
| "run_route cf now pid GetProject user st = get_project_route pid user st"
| "run_route cf now pid AccessContext user st = access_request_context pid user st"
| "run_route cf now pid Archive user st = archive_project now pid user st"
| "run_route cf now pid Restore user st = restore_project cf now pid user st"
| "run_route cf now pid (CreateSession files key) user st = create_upload_session_route cf now pid files key user st"
| "run_route cf now pid (UploadPart sid part path chunks) user st = upload_part cf now pid sid part path chunks user st"
| "run_route cf now pid (Finalize sid key) user st = finalize_upload_route cf now pid sid key user st"
| "run_route cf now pid ListFiles user st = list_files_route pid user st"
| "run_route cf now pid (DeleteFile fid) user st = delete_file_route now pid fid user st"
| "run_route cf now pid (CreateBuild key) user st = create_build now pid key user st"
| "run_route cf now pid (GetBuild bid) user st = get_build_route pid bid user st"
| "run_route cf now pid ListMembers user st = list_members pid user st"
| "run_route cf now pid (AddMembers items role key) user st = add_members cf now pid items role user st"
| "run_route cf now pid (ChangeRole mid role) user st = change_member_role now pid mid role user st"
| "run_route cf now pid (RemoveMember mid) user st = remove_member now pid mid user st"
| "run_route cf now pid (RequestAccess note_text key) user st = request_access cf now pid note_text user st"
| "run_route cf now pid ListRequests user st = list_access_requests_route pid user st"
| "run_route cf now pid (DecideRequest rid approve role key) user st = decide_access_request_route now pid rid approve role user st"
| "run_route cf now pid (CancelRequest rid) user st = cancel_access_request_route now pid rid user st"
| "run_route cf now pid Activity user st = access_activity_route pid user st"
| "run_route cf now pid (SearchDirectory query) user st = search_directory cf now pid query user st"

definition handle ::
  "app_config \<Rightarrow> time \<Rightarrow> ident \<Rightarrow> project_call \<Rightarrow> (api_exception + auth_principal) \<Rightarrow> app_state \<Rightarrow> response route" where
  "handle cf now pid call login st =
     (case login of
        Inl e \<Rightarrow> (st, Inl e)
      | Inr user \<Rightarrow>
          (case require_role (required_role call) user of
             Inl e \<Rightarrow> (st, Inl e)
           | Inr _ \<Rightarrow> if \<not> valid_call call then (st, Inl BodyInvalid) else run_route cf now pid call user st))"

text \<open>What the client sees: the problem of an exception, or the answer.\<close>

definition client_sees :: "string \<Rightarrow> api_exception + response \<Rightarrow> problem + response" where
  "client_sees rid r = (case r of Inl e \<Rightarrow> Inl (handle_exception rid e) | Inr x \<Rightarrow> Inr x)"

end
