(* ===== verification/Route_Properties.thy ===== *)
theory Route_Properties
  imports Project_Routes Registry_Properties
begin

text \<open>
  Properties of the project routes: they drive the registry only through its steps, keep tenants
  and outsiders apart, never let anyone but an owner or an administrator appoint owners, and offer
  the actions that then succeed.
\<close>

section \<open>The registry under the routes\<close>

named_theorems route_defs \<open>the routes and their guards\<close>

lemmas [route_defs] =
  purge_project_def get_project_route_def access_request_context_def archive_project_def
  restore_project_def create_upload_session_route_def upload_part_def finalize_upload_route_def
  list_files_route_def delete_file_route_def create_build_def get_build_route_def list_members_def
  add_members_def change_member_role_def remove_member_def request_access_def
  list_access_requests_route_def decide_access_request_route_def cancel_access_request_route_def
  access_activity_route_def search_directory_def

lemma guarded_step:
  "(\<And>x. r = Inr x \<Longrightarrow> Q (fst (f x))) \<Longrightarrow> Q st \<Longrightarrow> Q (fst (guarded st r f))"
  by (simp add: guarded_def split: sum.splits)

lemma committed_db:
  "app_db (fst (committed st r f)) = app_db st \<or> (\<exists>x. r = Inr (app_db (fst (committed st r f)), x))"
  by (auto simp: committed_def split: sum.splits)

lemma receive_part_db:
  "receive_part sha limits db st part path chunks now = (st', Inr db') \<Longrightarrow>
     \<exists>sz u. mark_part_uploaded db (pr_id part) path sz = Inr (db', u)"
  by (fastforce simp: receive_part_def Let_def split: if_splits sum.splits prod.splits)

definition db_step :: "app_state \<Rightarrow> app_state \<Rightarrow> bool" where
  "db_step st st' \<longleftrightarrow> app_db st' = app_db st \<or> api_step (app_db st) (app_db st')"

lemma db_step_refl [simp]: "db_step st st" "app_db st' = app_db st \<Longrightarrow> db_step st st'"
  by (simp_all add: db_step_def)

lemma db_step_api: "api_step (app_db st) (app_db st') \<Longrightarrow> db_step st st'"
  by (simp add: db_step_def)

lemma db_step_committed:
  assumes "\<And>db x. r = Inr (db, x) \<Longrightarrow> api_step (app_db st) db"
  shows "db_step st (fst (committed st r f))"
  using assms by (auto simp: committed_def db_step_def split: sum.splits)

lemma run_route_step:
  assumes "valid_call call"
  shows "db_step st (fst (run_route cf now pid call user st))"
proof (cases call)
  case Purge
  then show ?thesis
    by (auto simp: purge_project_def sql_delete_project_def guarded_def db_step_def Let_def split: sum.splits
        intro: api_step.purge)
next
  case Archive
  then show ?thesis
    by (auto simp: archive_project_def guarded_def db_step_def split: sum.splits intro: api_step.archive)
next
  case Restore
  then show ?thesis
    by (auto simp: restore_project_def guarded_def db_step_def split: sum.splits intro: api_step.restore)
next
  case (CreateSession files key)
  then show ?thesis
    by (auto simp: create_upload_session_route_def guarded_def db_step_def split: sum.splits
        intro: api_step.open_upload)
next
  case (UploadPart sid part path chunks)
  then show ?thesis
    by (auto simp: upload_part_def guarded_def db_step_def split: sum.splits prod.splits
        dest!: receive_part_db intro: api_step.upload_part)
next
  case (Finalize sid key)
  then show ?thesis
    by (auto simp: finalize_upload_route_def guarded_def db_step_def split: sum.splits prod.splits
        intro: api_step.finalize)
next
  case (DeleteFile fid)
  then show ?thesis
    by (auto simp: delete_file_route_def intro!: guarded_step [where Q = "db_step st"] db_step_committed api_step.delete_file)
next
  case (CreateBuild key)
  then show ?thesis
    by (auto simp: create_build_def intro!: guarded_step [where Q = "db_step st"] db_step_committed api_step.submit)
next
  case (AddMembers items role key)
  with assms have "role \<noteq> Owner" by (simp add: valid_members_body_def)
  with AddMembers show ?thesis
    by (auto simp: add_members_def guarded_def committed_def db_step_def Let_def split: sum.splits prod.splits
        intro: api_step.add_members)
next
  case (ChangeRole mid role)
  then show ?thesis
    by (auto simp: change_member_role_def intro!: guarded_step [where Q = "db_step st"] db_step_committed api_step.change_role)
next
  case (RemoveMember mid)
  then show ?thesis
    by (auto simp: remove_member_def Let_def intro!: guarded_step [where Q = "db_step st"] db_step_committed api_step.remove_member)
next
  case (RequestAccess note_text key)
  then show ?thesis
    by (auto simp: request_access_def split: sum.splits repo_error.splits intro!: db_step_committed api_step.request_access)
next
  case (DecideRequest rid approve role key)
  with assms show ?thesis
    by (auto simp: decide_access_request_route_def intro!: guarded_step [where Q = "db_step st"] db_step_committed api_step.decide)
next
  case (CancelRequest rid)
  then show ?thesis
    by (auto simp: cancel_access_request_route_def intro!: db_step_committed api_step.cancel)
next
  case (SearchDirectory query)
  then show ?thesis
    by (auto simp: search_directory_def guarded_def Let_def split: sum.splits prod.splits)
qed (auto simp: route_defs guarded_def Let_def split: sum.splits prod.splits)

lemma handle_step: "db_step st (fst (handle cf now pid call login st))"
  by (auto simp: handle_def run_route_step split: sum.splits)

lemma handle_inv: "db_inv (app_db st) \<Longrightarrow> db_inv (app_db (fst (handle cf now pid call login st)))"
  using handle_step [of st cf now pid call login] by (auto simp: db_step_def intro: api_step_inv)

text \<open>
  C18. The project routes refine the registry. Whatever a client sends, with or without a valid
  login, the tables of the registry afterwards are as before or the result of one of its steps, so
  every invariant of the registry survives.
\<close>

theorem routes_refine_registry:
  assumes "db_inv (app_db st)"
  shows "(app_db (fst (handle cf now pid call login st)) = app_db st \<or>
          api_step (app_db st) (app_db (fst (handle cf now pid call login st)))) \<and>
         db_inv (app_db (fst (handle cf now pid call login st)))"
  using handle_step [of st cf now pid call login] handle_inv [OF assms] by (simp add: db_step_def)

section \<open>Tenants and outsiders\<close>

text \<open>No project of the tenant has the identifier.\<close>

definition absent :: "repo_db \<Rightarrow> ident \<Rightarrow> string \<Rightarrow> bool" where
  "absent db pid tenant \<longleftrightarrow> (\<forall>p\<in>set (projects db). p_id p = pid \<longrightarrow> p_tenant_id p \<noteq> tenant)"

lemma absent_tenant_project: "absent db pid tenant \<Longrightarrow> tenant_project db pid tenant = Inl (ProjectNotFound pid)"
  by (fastforce simp: absent_def tenant_project_def get_project_def split: option.splits dest: first_where_Some)

lemma absent_first: "absent db pid tenant \<Longrightarrow> first_where (\<lambda>p. p_id p = pid \<and> p_tenant_id p = tenant) (projects db) = None"
  by (auto simp: absent_def first_where_None)

lemma absent_authorize: "absent db pid (ap_tenant_id user) \<Longrightarrow> authorize db pid user r = Inl (ProjectNotFound pid)"
  by (simp add: authorize_def access_decision_of_def absent_first)

lemma absent_govern: "absent db pid (ap_tenant_id user) \<Longrightarrow> govern_access db pid user v = Inl (ProjectNotFound pid)"
  "absent db pid (ap_tenant_id user) \<Longrightarrow> owner_or_admin db pid user = Inl (ProjectNotFound pid)"
  by (simp_all add: govern_access_def owner_or_admin_def absent_tenant_project absent_authorize)

lemma absent_create_request:
  "absent db pid tenant \<Longrightarrow> create_access_request db pid tenant req name note_text now = Inl (ProjectNotFound pid)"
  by (auto simp: create_access_request_def absent_def first_where_None split: option.splits dest!: first_where_Some)

lemma absent_requests:
  "db_inv db \<Longrightarrow> absent db pid tenant \<Longrightarrow> r \<in> set (access_requests db) \<Longrightarrow> r_project_id r = pid \<Longrightarrow> r_tenant_id r \<noteq> tenant"
proof
  assume a: "db_inv db" "absent db pid tenant" "r \<in> set (access_requests db)" "r_project_id r = pid" "r_tenant_id r = tenant"
  have "(\<lambda>r. (r_project_id r, r_tenant_id r)) ` set (access_requests db)
      \<subseteq> (\<lambda>p. (p_id p, p_tenant_id p)) ` set (projects db)"
    using db_invD(2) [OF a(1)] by (simp add: wf_refs_def)
  then have "(r_project_id r, r_tenant_id r) \<in> (\<lambda>p. (p_id p, p_tenant_id p)) ` set (projects db)"
    using a(3) by (rule subsetD [OF _ imageI])
  then obtain p where "p \<in> set (projects db)" "p_id p = pid" "p_tenant_id p = tenant" using a(4,5) by auto
  then show False using a(2) by (simp add: absent_def)
qed

lemma absent_cancel:
  "db_inv db \<Longrightarrow> absent db pid tenant \<Longrightarrow> cancel_access_request db pid rid tenant req now = Inl (ProjectNotFound rid)"
proof -
  assume "db_inv db" "absent db pid tenant"
  then have "\<And>r. r \<in> set (access_requests db) \<Longrightarrow>
      \<not> (r_id r = rid \<and> r_project_id r = pid \<and> r_tenant_id r = tenant \<and> r_requester_id r = req)"
    using absent_requests by blast
  then have "first_where (\<lambda>r. r_id r = rid \<and> r_project_id r = pid \<and> r_tenant_id r = tenant \<and> r_requester_id r = req)
      (access_requests db) = None"
    unfolding first_where_None by blast
  then show ?thesis by (simp add: cancel_access_request_def)
qed

lemma absent_route:
  assumes "db_inv (app_db st)" "absent (app_db st) pid (ap_tenant_id user)"
  shows "\<exists>i. run_route cf now pid call user st = (st, Inl (ProjectMissing i))"
  by (cases call) (simp_all add: route_defs guarded_def committed_def Let_def
      absent_tenant_project [OF assms(2)] absent_authorize [OF assms(2)] absent_govern [OF assms(2)]
      absent_create_request [OF assms(2)] absent_cancel [OF assms])

text \<open>
  C14. Tenants are isolated. A request for a project that another tenant owns changes nothing, and
  the client gets exactly the answer it would get from an empty registry: 404 unless its role or its
  body is refused first.
\<close>

theorem tenant_isolation:
  assumes "db_inv (app_db st)"
    and "\<forall>p\<in>set (projects (app_db st)). p_id p = pid \<longrightarrow> p_tenant_id p \<noteq> ap_tenant_id user"
  shows "fst (handle cf now pid call (Inr user) st) = st \<and>
    client_sees rid (snd (handle cf now pid call (Inr user) st)) =
      client_sees rid (snd (handle cf now pid call (Inr user) (st\<lparr>app_db := empty_db\<rparr>))) \<and>
    (required_role call \<in> set (ap_roles user) \<longrightarrow> valid_call call \<longrightarrow>
      client_sees rid (snd (handle cf now pid call (Inr user) st)) =
        Inl (problem_response rid 404 ''project_not_found'' ''The project resource was not found.''))"
proof -
  have "absent (app_db st) pid (ap_tenant_id user)" using assms(2) by (simp add: absent_def)
  from absent_route [OF assms(1) this, of cf now call] obtain i
    where here: "run_route cf now pid call user st = (st, Inl (ProjectMissing i))" by blast
  have "db_inv (app_db (st\<lparr>app_db := empty_db\<rparr>))" "absent (app_db (st\<lparr>app_db := empty_db\<rparr>)) pid (ap_tenant_id user)"
    by (simp add: db_inv_empty) (simp add: absent_def empty_db_def)
  from absent_route [OF this, of cf now call] obtain j
    where there: "run_route cf now pid call user (st\<lparr>app_db := empty_db\<rparr>) = (st\<lparr>app_db := empty_db\<rparr>, Inl (ProjectMissing j))"
    by blast
  show ?thesis by (auto simp: handle_def require_role_def here there client_sees_def)
qed

text \<open>The calls that a tenant member may make on a project it does not belong to.\<close>

definition open_to_tenant :: "project_call \<Rightarrow> bool" where
  "open_to_tenant call \<longleftrightarrow>
     (case call of AccessContext \<Rightarrow> True | RequestAccess _ _ \<Rightarrow> True | ListRequests \<Rightarrow> True
        | CancelRequest _ \<Rightarrow> True | _ \<Rightarrow> False)"

lemma outsider_authorize:
  "access_origins db pid (ap_tenant_id user) (ap_subject user) (ap_group_ids user) = [] \<Longrightarrow>
     authorize db pid user r = Inl (ProjectNotFound pid)"
  by (simp add: authorize_def access_decision_of_def split: option.splits)

lemma outsider_route:
  assumes "access_origins (app_db st) pid (ap_tenant_id user) (ap_subject user) (ap_group_ids user) = []"
    and "\<not> is_admin user" "\<not> open_to_tenant call" "call \<noteq> Purge"
  shows "run_route cf now pid call user st = (st, Inl (ProjectMissing pid))"
  using assms(2-) by (cases call) (simp_all add: route_defs guarded_def committed_def Let_def open_to_tenant_def
      govern_access_def owner_or_admin_def outsider_authorize [OF assms(1)])

text \<open>
  C15. Outsiders learn nothing. A user who is no administrator and whose user and groups have no
  membership in a project gets for it, except for the four calls by which access is requested, the
  answer of an empty registry, and changes nothing.
\<close>

theorem outsiders_see_nothing:
  assumes "access_origins (app_db st) pid (ap_tenant_id user) (ap_subject user) (ap_group_ids user) = []"
    and "''admin'' \<notin> set (ap_roles user)" "\<not> open_to_tenant call"
  shows "fst (handle cf now pid call (Inr user) st) = st \<and>
    client_sees rid (snd (handle cf now pid call (Inr user) st)) =
      client_sees rid (snd (handle cf now pid call (Inr user) (st\<lparr>app_db := empty_db\<rparr>)))"
proof -
  have admin: "\<not> is_admin user" using assms(2) by (simp add: is_admin_def)
  have empty: "access_origins (app_db (st\<lparr>app_db := empty_db\<rparr>)) pid (ap_tenant_id user) (ap_subject user) (ap_group_ids user) = []"
    by (simp add: access_origins_def empty_db_def)
  show ?thesis
  proof (cases "call = Purge")
    case True
    then show ?thesis using assms(2) by (simp add: handle_def require_role_def required_role_def client_sees_def)
  next
    case False
    from outsider_route [OF assms(1) admin assms(3) False] outsider_route [OF empty admin assms(3) False]
    show ?thesis by (simp add: handle_def require_role_def)
  qed
qed

section \<open>Owners\<close>

definition owner_keys :: "repo_db \<Rightarrow> (ident \<times> principal_type \<times> string) set" where
  "owner_keys db = member_key ` {m \<in> set (memberships db). m_role m = Owner}"

lemma owner_keys_memberships: "memberships db' = memberships db \<Longrightarrow> owner_keys db' = owner_keys db"
  by (simp add: owner_keys_def)

lemma owner_keys_audit [simp]: "owner_keys (audit p a act now d db) = owner_keys db"
  by (simp add: owner_keys_def)

lemma owner_keys_set_membership:
  assumes "\<And>m. member_key (f m) = member_key m" "\<And>m. m_role (f m) = Owner \<Longrightarrow> m_role m = Owner"
  shows "owner_keys (set_membership i f db) \<subseteq> owner_keys db"
proof
  fix k assume "k \<in> owner_keys (set_membership i f db)"
  then obtain m where m: "m \<in> set (memberships db)" "m_role (if m_id m = i then f m else m) = Owner"
      "k = member_key (if m_id m = i then f m else m)"
    by (auto simp: owner_keys_def set_membership_def set_upd_where)
  then have "m_role m = Owner" "k = member_key m" using assms by (auto split: if_splits)
  then show "k \<in> owner_keys db" using m(1) by (auto simp: owner_keys_def)
qed

lemma owner_keys_insert [simp]:
  "role \<noteq> Owner \<Longrightarrow> owner_keys (insert_membership tenant pid t i name role actor now db) = owner_keys db"
  by (auto simp: owner_keys_def insert_membership_def)

lemma owner_keys_add:
  assumes "role \<noteq> Owner"
  shows "owner_keys (add_membership tenant pid role actor now item db) \<subseteq> owner_keys db"
proof -
  obtain t i name where item: "item = (t, i, name)" by (metis prod_cases3)
  show ?thesis
  proof (cases "find_membership db pid t i")
    case None
    then show ?thesis using assms by (simp add: item)
  next
    case (Some m)
    have "owner_keys (set_membership (m_id m) (\<lambda>m. m\<lparr>m_display_name := name, m_updated_at := now\<rparr>) db) \<subseteq> owner_keys db"
      by (rule owner_keys_set_membership) (simp_all add: member_key_def)
    then show ?thesis using Some by (simp add: item)
  qed
qed

lemma owner_keys_add_fold:
  "role \<noteq> Owner \<Longrightarrow> owner_keys (fold (add_membership tenant pid role actor now) items db) \<subseteq> owner_keys db"
proof (induction items arbitrary: db)
  case (Cons item items)
  show ?case using Cons.IH [OF Cons.prems, of "add_membership tenant pid role actor now item db"]
      owner_keys_add [OF Cons.prems, of tenant pid actor now item db] by simp
qed simp

lemma owner_keys_grant:
  assumes "role \<noteq> Owner"
  shows "owner_keys (grant_role row pid tenant role actor now db) \<subseteq> owner_keys db"
proof (cases "find_membership db pid User (r_requester_id row)")
  case None
  then show ?thesis using assms by (simp add: grant_role_def)
next
  case (Some m)
  have "owner_keys (set_membership (m_id m) (\<lambda>m. m\<lparr>m_role := role, m_updated_at := now\<rparr>) db) \<subseteq> owner_keys db"
    by (rule owner_keys_set_membership) (simp_all add: member_key_def assms)
  then show ?thesis using Some by (simp add: grant_role_def)
qed

lemma owner_keys_decide:
  assumes "decide_access_request db pid rid tenant decision role actor now = Inr (db', r)" "role \<noteq> Some Owner"
  shows "owner_keys db' \<subseteq> owner_keys db"
proof -
  have set_request: "owner_keys (set_request i f d) = owner_keys d" for i f d
    by (simp add: owner_keys_def set_request_def)
  have "k \<in> owner_keys db"
    if "k \<in> owner_keys (grant_role row pid tenant new_role actor now (set_request i f db))" "new_role \<noteq> Owner"
    for k row i f new_role
    using owner_keys_grant [OF that(2), of row pid tenant actor now "set_request i f db"] set_request that(1) by auto
  then show ?thesis using assms
    by (auto simp: decide_access_request_def Let_def set_request split: option.splits if_splits)
qed

lemma owner_keys_update:
  assumes "update_membership db pid mid tenant role actor now = Inr (db', m)" "role \<noteq> Owner"
  shows "owner_keys db' \<subseteq> owner_keys db"
proof -
  let ?f = "\<lambda>m. m\<lparr>m_role := role, m_updated_at := now\<rparr>"
  have "owner_keys (set_membership i ?f db) \<subseteq> owner_keys db" for i
    by (rule owner_keys_set_membership) (simp_all add: member_key_def assms(2))
  moreover have "\<exists>i details. db' = audit pid actor ''access.role_changed'' now details (set_membership i ?f db)"
    using assms(1) by (fastforce simp: update_membership_def Let_def split: option.splits if_splits)
  ultimately show ?thesis by (elim exE) simp
qed

lemma owner_keys_remove:
  "remove_membership db pid mid tenant actor now = Inr (db', u) \<Longrightarrow> owner_keys db' \<subseteq> owner_keys db"
  by (auto simp: remove_membership_def owner_keys_def del_where_def split: option.splits if_splits)

text \<open>The other operations do not touch the memberships.\<close>

lemma fold_insert_part_memberships [simp]: "memberships (fold (insert_part sid) ds db) = memberships db"
  by (induction ds arbitrary: db) (simp_all add: insert_part_def)

lemma finalize_part_memberships: "finalize_part pid snap paths now part db = Inr db' \<Longrightarrow> memberships db' = memberships db"
  by (auto simp: finalize_part_def insert_blob_def Let_def split: option.splits)

lemma fold_finalize_memberships:
  "fold_raise (finalize_part pid snap paths now) parts db = Inr db' \<Longrightarrow> memberships db' = memberships db"
  by (induction parts arbitrary: db) (auto split: sum.splits dest: finalize_part_memberships)

lemma memberships_frames:
  "archive db pid subject now = Inr (db', p) \<Longrightarrow> memberships db' = memberships db"
  "restore db pid subject days now = Inr (db', p) \<Longrightarrow> memberships db' = memberships db"
  "create_upload_session db ttl pid ds subject key now = Inr (db', u) \<Longrightarrow> memberships db' = memberships db"
  "mark_part_uploaded db part path sz = Inr (db', v) \<Longrightarrow> memberships db' = memberships db"
  "finalize_upload db pid sid stored subject key now = (db', r) \<Longrightarrow> memberships db' = memberships db"
  "delete_file db pid fid subject now = Inr (db', v) \<Longrightarrow> memberships db' = memberships db"
  "submit_build db pid subject key now = Inr (db', j) \<Longrightarrow> memberships db' = memberships db"
  "create_access_request db pid tenant req name note_text now = Inr (db', rq) \<Longrightarrow> memberships db' = memberships db"
  "cancel_access_request db pid rid tenant req now = Inr (db', v) \<Longrightarrow> memberships db' = memberships db"
proof -
  show "archive db pid subject now = Inr (db', p) \<Longrightarrow> memberships db' = memberships db"
    by (auto simp: archive_def archive_commit_def Let_def split: option.splits sum.splits if_splits)
  show "restore db pid subject days now = Inr (db', p) \<Longrightarrow> memberships db' = memberships db"
    by (auto simp: restore_def restore_commit_def Let_def split: option.splits sum.splits if_splits)
  show "create_upload_session db ttl pid ds subject key now = Inr (db', u) \<Longrightarrow> memberships db' = memberships db"
    by (auto simp: create_upload_session_def create_upload_session_txn_def create_upload_session_commit_def Let_def
        split: option.splits sum.splits if_splits)
  show "mark_part_uploaded db part path sz = Inr (db', v) \<Longrightarrow> memberships db' = memberships db"
    by (auto simp: mark_part_uploaded_def Let_def split: if_splits)
  show "finalize_upload db pid sid stored subject key now = (db', r) \<Longrightarrow> memberships db' = memberships db"
    by (auto simp: finalize_upload_def finalize_upload_txn_def finalize_commit_def Let_def
        split: option.splits sum.splits if_splits dest: fold_finalize_memberships)
  show "delete_file db pid fid subject now = Inr (db', v) \<Longrightarrow> memberships db' = memberships db"
    by (auto simp: delete_file_def Let_def split: option.splits if_splits)
  show "submit_build db pid subject key now = Inr (db', j) \<Longrightarrow> memberships db' = memberships db"
    by (auto simp: submit_build_def submit_build_txn_def submit_build_commit_def set_snapshot_files_def set_snapshot_def Let_def
        split: option.splits sum.splits if_splits)
  show "create_access_request db pid tenant req name note_text now = Inr (db', rq) \<Longrightarrow> memberships db' = memberships db"
    by (auto simp: create_access_request_def Let_def split: option.splits)
  show "cancel_access_request db pid rid tenant req now = Inr (db', v) \<Longrightarrow> memberships db' = memberships db"
    by (auto simp: cancel_access_request_def set_request_def split: option.splits if_splits)
qed

lemma run_route_owners:
  assumes "valid_call call" "\<not> is_admin user" "call \<noteq> Purge"
    and "\<And>d. authorize (app_db st) pid user Manager = Inr d \<Longrightarrow> effective_role d \<noteq> Owner"
  shows "owner_keys (app_db (fst (run_route cf now pid call user st))) \<subseteq> owner_keys (app_db st)"
proof -
  let ?Q = "\<lambda>st'. owner_keys (app_db st') \<subseteq> owner_keys (app_db st)"
  have gov: "effective_role d \<noteq> Owner" if "govern_access (app_db st) pid user False = Inr d" for d
    using that assms(2,4) by (simp add: govern_access_def)
  have upd: "?Q (fst (committed st' r f))"
    if "app_db st' = app_db st" "\<And>db x. r = Inr (db, x) \<Longrightarrow> owner_keys db \<subseteq> owner_keys (app_db st)"
    for st' and r :: "'r repo_outcome" and f :: "'r \<Rightarrow> response"
    using that by (auto simp: committed_def split: sum.splits)
  note frames = memberships_frames [THEN owner_keys_memberships]
  show ?thesis
  proof (cases call)
    case (AddMembers items role key)
    with assms(1) have role: "role \<noteq> Owner" by (simp add: valid_members_body_def)
    have "owner_keys db \<subseteq> owner_keys (app_db st)"
      if "add_memberships (app_db st) pid tenant items role actor now = Inr (db, ms)" for tenant actor db ms
      using that by (auto simp: add_memberships_def Let_def split: option.splits if_splits
          dest: owner_keys_add_fold [OF role, THEN subsetD])
    then have added: "?Q (fst (committed (st\<lparr>app_directory := dc\<rparr>)
        (add_memberships (app_db st) pid tenant items role actor now) RMembers))" for dc tenant actor
      by (intro upd) simp_all
    have "?Q (fst (case check_principals cf now user items (app_directory st) of
         (dc, Inl e) \<Rightarrow> (st\<lparr>app_directory := dc\<rparr>, Inl e)
       | (dc, Inr _) \<Rightarrow>
           let st1 = st\<lparr>app_directory := dc\<rparr> in
           committed st1
             (add_memberships (app_db st1) pid (ap_tenant_id user) items role (ap_subject user) now) RMembers))"
      using added by (simp add: Let_def split: prod.split sum.split)
    then show ?thesis unfolding AddMembers run_route.simps add_members_def
      by (intro guarded_step [where Q = ?Q]) (assumption, simp)
  next
    case (ChangeRole mid role)
    have "?Q (fst (committed st (update_membership (app_db st) pid mid (ap_tenant_id user) role (ap_subject user) now) RMember))"
      if "role \<noteq> Owner" using owner_keys_update [OF _ that] by (intro upd) simp_all
    then have "?Q (fst (if role = Owner \<and> effective_role d \<noteq> Owner then (st, Inl AuthorizationFailed)
        else committed st (update_membership (app_db st) pid mid (ap_tenant_id user) role (ap_subject user) now) RMember))"
      if "govern_access (app_db st) pid user False = Inr d" for d
      using gov [OF that] by (simp split: if_split)
    then show ?thesis unfolding ChangeRole run_route.simps change_member_role_def
      by (intro guarded_step [where Q = ?Q]) (assumption, simp)
  next
    case (RemoveMember mid)
    have "?Q (fst (committed st (remove_membership (app_db st) pid mid (ap_tenant_id user) (ap_subject user) now) (\<lambda>_. RNoContent)))"
      using owner_keys_remove by (intro upd) simp_all
    then show ?thesis unfolding RemoveMember run_route.simps remove_member_def Let_def
      by (intro guarded_step [where Q = ?Q]) (simp_all split: if_split)
  next
    case (DecideRequest rid approve role key)
    then have role: "role \<noteq> Some Owner" using assms(1) by simp
    have "?Q (fst (committed st (decide_access_request (app_db st) pid rid (ap_tenant_id user)
                 (if approve then RApproved else RDenied) role (ap_subject user) now) RRequest))"
      using owner_keys_decide [OF _ role] by (intro upd) simp_all
    then show ?thesis unfolding DecideRequest run_route.simps decide_access_request_route_def
      by (intro guarded_step [where Q = ?Q]) (simp_all split: if_split)
  next
    case (UploadPart sid part path chunks)
    then show ?thesis
      by (auto simp: upload_part_def guarded_def split: sum.splits prod.splits dest!: receive_part_db frames(4))
  next
    case (SearchDirectory query)
    then show ?thesis
      by (auto simp: search_directory_def guarded_def Let_def split: sum.splits prod.splits)
  qed (use assms(3) in \<open>auto simp: route_defs guarded_def committed_def Let_def dest!: frames
        split: sum.splits prod.splits repo_error.splits\<close>)
qed

text \<open>
  C16. Only owners and administrators appoint owners. After any request of a user that is neither
  an administrator nor an owner of the project, everyone who owns a project owned it before.
\<close>

theorem owners_not_appointed:
  assumes "''admin'' \<notin> set (ap_roles user)"
    and "\<forall>m\<in>set (access_origins (app_db st) pid (ap_tenant_id user) (ap_subject user) (ap_group_ids user)).
           m_role m \<noteq> Owner"
    and "m \<in> set (memberships (app_db (fst (handle cf now pid call (Inr user) st))))" "m_role m = Owner"
  shows "\<exists>m0\<in>set (memberships (app_db st)). m_role m0 = Owner \<and> m_project_id m0 = m_project_id m \<and>
    m_principal_type m0 = m_principal_type m \<and> m_principal_id m0 = m_principal_id m"
proof -
  have admin: "\<not> is_admin user" using assms(1) by (simp add: is_admin_def)
  have role: "effective_role d \<noteq> Owner" if "authorize (app_db st) pid user Manager = Inr d" for d
  proof -
    from that obtain o1 os where "access_origins (app_db st) pid (ap_tenant_id user) (ap_subject user) (ap_group_ids user) = o1 # os"
        "effective_role d = m_role (max_origin o1 os)"
      by (auto simp: authorize_def access_decision_of_def Let_def split: option.splits list.splits if_splits)
    then show ?thesis using assms(2) max_origin_mem [of o1 os] by metis
  qed
  have "owner_keys (app_db (fst (handle cf now pid call (Inr user) st))) \<subseteq> owner_keys (app_db st)"
    using run_route_owners [OF _ admin _ role] assms(1)
    by (cases "call = Purge") (auto simp: handle_def require_role_def required_role_def)
  moreover have "member_key m \<in> owner_keys (app_db (fst (handle cf now pid call (Inr user) st)))"
    using assms(3,4) by (auto simp: owner_keys_def)
  ultimately have "member_key m \<in> owner_keys (app_db st)" by blast
  then show ?thesis by (auto simp: owner_keys_def member_key_def)
qed

section \<open>Offered actions\<close>

lemma project_read:
  assumes "db_inv db" "p \<in> set (projects db)" "p_id p = pid"
  shows "project_for_update db pid = Some p" "get_project db pid True = Inr p"
proof -
  have uniq: "q = p" if "q \<in> set (projects db)" "p_id q = pid" for q
    using project_eq [OF db_invD(1) [OF assms(1)] that(1) assms(2)] that(2) assms(3) by simp
  show "project_for_update db pid = Some p"
    unfolding project_for_update_def by (rule first_where_unique [OF assms(2)]) (rule assms(3), rule uniq)
  have "first_where (\<lambda>q. p_id q = pid \<and> (True \<or> p_state q \<noteq> Archived)) (projects db) = Some p"
    by (rule first_where_unique [OF assms(2)]) (simp add: assms(3), simp add: uniq)
  then show "get_project db pid True = Inr p" by (simp add: get_project_def)
qed

lemma get_build_committed:
  assumes "p_id p = pid"
  shows "\<exists>j. get_build (submit_build_commit db p d subject key now) pid (next_id db) = Inr j"
proof -
  have "\<exists>j\<in>set (build_jobs (submit_build_commit db p d subject key now)). j_id j = next_id db \<and> j_project_id j = pid"
    using assms by (auto simp: submit_build_commit_def set_snapshot_files_def set_snapshot_def Let_def)
  then have "first_where (\<lambda>j. j_id j = next_id db \<and> j_project_id j = pid)
      (build_jobs (submit_build_commit db p d subject key now)) \<noteq> None"
    unfolding first_where_None by blast
  then show ?thesis by (auto simp: get_build_def split: option.split)
qed

lemma fold_insert_part_sessions [simp]: "upload_sessions (fold (insert_part sid) ds db) = upload_sessions db"
  by (induction ds arbitrary: db) (simp_all add: insert_part_def)

lemma get_session_committed:
  "\<exists>u. get_upload_session (create_upload_session_commit db ttl pid d ds subject key now) pid (next_id db) = Inr u"
proof -
  have "\<exists>u\<in>set (upload_sessions (create_upload_session_commit db ttl pid d ds subject key now)).
      u_id u = next_id db \<and> u_project_id u = pid"
    by (auto simp: create_upload_session_commit_def Let_def)
  then have "first_where (\<lambda>u. u_id u = next_id db \<and> u_project_id u = pid)
      (upload_sessions (create_upload_session_commit db ttl pid d ds subject key now)) \<noteq> None"
    unfolding first_where_None by blast
  then show ?thesis by (auto simp: get_upload_session_def split: option.split)
qed

text \<open>What a shown project says about the registry and the role of the user.\<close>

lemma shown_project:
  assumes inv: "db_inv (app_db st)" and shown: "snd (handle cf now pid GetProject (Inr user) st) = Inr (RProject v)"
  obtains p access where "p \<in> set (projects (app_db st))" "p_id p = pid" "p_tenant_id p = ap_tenant_id user"
    "p_state p \<noteq> Archived" "get_project (app_db st) pid False = Inr p"
    "v = project_view_of (app_db st) p user access" "''viewer'' \<in> set (ap_roles user)"
    "\<forall>r. role_rank r \<le> role_rank (effective_role access) \<longrightarrow> authorize (app_db st) pid user r = Inr access"
proof -
  from shown obtain p access where v: "authorize (app_db st) pid user Viewer = Inr access"
      "get_project (app_db st) pid False = Inr p" "v = project_view_of (app_db st) p user access"
      "''viewer'' \<in> set (ap_roles user)"
    by (auto simp: handle_def require_role_def required_role_def get_project_route_def guarded_def split: if_splits sum.splits)
  obtain q where q: "q \<in> set (projects (app_db st))" "p_id q = pid" "p_tenant_id q = ap_tenant_id user"
    using v(1) by (auto simp: authorize_def access_decision_of_def split: option.splits dest!: first_where_Some)
  have p: "p \<in> set (projects (app_db st))" "p_id p = pid" "p_state p \<noteq> Archived"
    using v(2) by (auto simp: get_project_def split: option.splits dest: first_where_Some)
  have "p = q" using project_eq [OF db_invD(1) [OF inv] p(1) q(1)] p(2) q(2) by simp
  have "authorize (app_db st) pid user r = Inr access" if "role_rank r \<le> role_rank (effective_role access)" for r
    using v(1) that by (auto simp: authorize_def access_decision_of_def Let_def split: option.splits list.splits if_splits)
  with that p q \<open>p = q\<close> v show ?thesis by blast
qed

lemma editable_draft:
  assumes "db_inv db" "p \<in> set (projects db)" "p_id p = pid" "p_state p \<notin> {Queued, Building}"
  obtains d where "draft db pid = Some d" "view_draft db pid = Some d"
proof -
  obtain d where d: "draft db pid = Some d" using draft_exists [OF db_invD(3) [OF assms(1)] assms(2,4)] assms(3) by auto
  have "view_draft db pid \<noteq> None"
    using draft_Some [OF d] unfolding view_draft_def first_where_None by blast
  then obtain e where e: "view_draft db pid = Some e" by auto
  then have "e \<in> set (snapshots db)" "s_project_id e = pid" "s_status e = Editable"
    by (auto simp: view_draft_def dest: first_where_Some)
  from exactly_one_draft [OF assms(1) this assms(2,3)] d e have "view_draft db pid = Some d" by simp
  with d that show ?thesis by blast
qed

text \<open>What an archived project offers: the answer of archiving it, and what follows from it.\<close>

lemma archive_step:
  assumes inv: "db_inv (app_db st)" and p: "p \<in> set (projects (app_db st))" "p_id p = pid"
    and own: "owner_or_admin (app_db st) pid user = Inr d" "p_state p \<notin> {Archived, Queued, Building}"
    and viewer: "''viewer'' \<in> set (ap_roles user)"
  shows "handle cf now pid Archive (Inr user) st =
    (st\<lparr>app_db := archive_commit (app_db st) pid (ap_subject user) now\<rparr>,
     Inr (RProject (project_view_of (archive_commit (app_db st) pid (ap_subject user) now)
       (p\<lparr>p_state := Archived, p_archived_at := Some now, p_updated_at := now\<rparr>) user d)))"
    (is "_ = (?st, Inr (RProject (project_view_of ?db ?p user d)))")
  and "db_inv (archive_commit (app_db st) pid (ap_subject user) now)"
  and "p\<lparr>p_state := Archived, p_archived_at := Some now, p_updated_at := now\<rparr>
    \<in> set (projects (archive_commit (app_db st) pid (ap_subject user) now))"
proof -
  show mem: "?p \<in> set (projects ?db)"
    using p by (auto simp: archive_commit_def set_upd_where intro!: image_eqI [of _ _ p])
  show inv': "db_inv ?db" using archive_commit_inv [OF inv p(1)] own(2) p(2) by simp
  have "get_project ?db pid True = Inr ?p" using project_read(2) [OF inv' mem] p(2) by simp
  then have "archive (app_db st) pid (ap_subject user) now = Inr (?db, ?p)"
    using own(2) project_read(1) [OF inv p] by (simp add: archive_def)
  then show "handle cf now pid Archive (Inr user) st = (?st, Inr (RProject (project_view_of ?db ?p user d)))"
    using own(1) viewer
    by (simp add: handle_def require_role_def required_role_def archive_project_def guarded_def)
qed

lemma archived_rows:
  "memberships (archive_commit db pid subject now) = memberships db"
  "map p_id (projects (archive_commit db pid subject now)) = map p_id (projects db)"
  by (simp_all add: archive_commit_def upd_where_def)

lemma archived_owner:
  fixes st :: app_state
  assumes inv: "db_inv (app_db st)" and p: "p \<in> set (projects (app_db st))" "p_id p = pid"
    "p_tenant_id p = ap_tenant_id user"
    and own: "owner_or_admin (app_db st) pid user = Inr d" "p_state p \<notin> {Archived, Queued, Building}"
    and viewer: "''viewer'' \<in> set (ap_roles user)"
  shows "\<exists>d'. owner_or_admin (archive_commit (app_db st) pid (ap_subject user) now) pid user = Inr d'"
proof -
  let ?db = "archive_commit (app_db st) pid (ap_subject user) now"
  let ?p = "p\<lparr>p_state := Archived, p_archived_at := Some now, p_updated_at := now\<rparr>"
  note step = archive_step(2,3) [OF inv p(1,2) own viewer, where now = now]
  have same: "access_origins ?db pid t s g = access_origins (app_db st) pid t s g" for t s g
    by (simp add: access_origins_def archived_rows)
  have "\<exists>q. first_where (\<lambda>q. p_id q = pid \<and> p_tenant_id q = ap_tenant_id user) (projects ?db) = Some q"
  proof -
    have "first_where (\<lambda>q. p_id q = pid \<and> p_tenant_id q = ap_tenant_id user) (projects ?db) \<noteq> None"
      using step(2) p(2,3) by (auto simp: first_where_None intro!: bexI [of _ ?p])
    then show ?thesis by simp
  qed
  moreover have "tenant_project ?db pid (ap_tenant_id user) = Inr ?p"
    using project_read(2) [OF step] p by (simp add: tenant_project_def)
  ultimately show ?thesis using own(1)
    by (auto simp: owner_or_admin_def authorize_def access_decision_of_def same Let_def
        split: if_splits option.splits list.splits)
qed

lemma restore_after_archive:
  assumes inv: "db_inv (app_db st)" and p: "p \<in> set (projects (app_db st))" "p_id p = pid"
    "p_tenant_id p = ap_tenant_id user"
    and own: "owner_or_admin (app_db st) pid user = Inr d" "p_state p \<notin> {Archived, Queued, Building}"
    and viewer: "''viewer'' \<in> set (ap_roles user)"
    and kept: "now' - timedelta_days (cf_retention_days cf) \<le> now"
  shows "\<exists>v. snd (handle cf now' pid Restore (Inr user) (fst (handle cf now pid Archive (Inr user) st))) =
    Inr (RProject v) \<and> pv_state v \<noteq> Archived"
proof -
  let ?db = "archive_commit (app_db st) pid (ap_subject user) now"
  let ?p = "p\<lparr>p_state := Archived, p_archived_at := Some now, p_updated_at := now\<rparr>"
  let ?db2 = "restore_commit ?db pid (ap_subject user) now'"
  let ?q = "?p\<lparr>p_state := restored_state ?p, p_archived_at := None, p_updated_at := now'\<rparr>"
  note step = archive_step [OF inv p(1,2) own viewer, where now = now]
  have id: "p_id ?p = pid" by (simp add: p(2))
  have "db_inv ?db2" using restore_commit_inv [OF step(2) step(3)] id by simp
  moreover have "?q \<in> set (projects ?db2)"
    using step(3) id by (auto simp: restore_commit_def set_upd_where intro!: image_eqI [of _ _ ?p])
  ultimately have "get_project ?db2 pid True = Inr ?q" by (rule project_read(2)) (simp add: p(2))
  then have "restore ?db pid (ap_subject user) (cf_retention_days cf) now' = Inr (?db2, ?q)"
    using project_read(1) [OF step(2,3) id] kept by (simp add: restore_def)
  moreover obtain d' where "owner_or_admin ?db pid user = Inr d'"
    using archived_owner [OF inv p own viewer] by blast
  ultimately show ?thesis unfolding step(1) fst_conv using viewer
    by (auto simp: handle_def require_role_def required_role_def restore_project_def guarded_def
        project_view_of_def restored_state_def Let_def)
qed

lemma purge_after_archive:
  assumes inv: "db_inv (app_db st)" and p: "p \<in> set (projects (app_db st))" "p_id p = pid"
    "p_tenant_id p = ap_tenant_id user"
    and own: "owner_or_admin (app_db st) pid user = Inr d" "p_state p \<notin> {Archived, Queued, Building}"
    and roles: "''viewer'' \<in> set (ap_roles user)" "is_admin user"
    and over: "now \<le> now' - timedelta_days (cf_retention_days cf)"
  shows "snd (handle cf now' pid Purge (Inr user) (fst (handle cf now pid Archive (Inr user) st))) = Inr RNoContent"
proof -
  let ?db = "archive_commit (app_db st) pid (ap_subject user) now"
  let ?p = "p\<lparr>p_state := Archived, p_archived_at := Some now, p_updated_at := now\<rparr>"
  note step = archive_step [OF inv p(1,2) own roles(1), where now = now]
  have id: "p_id ?p = pid" by (simp add: p(2))
  have "tenant_project ?db pid (ap_tenant_id user) = Inr ?p"
    using project_read(2) [OF step(2,3) id] p(3) by (simp add: tenant_project_def)
  moreover have "purge_expired ?db pid (ap_subject user) (cf_retention_days cf) now' =
      Inr (purge_commit ?db pid (ap_subject user) now', ())"
    using project_read(1) [OF step(2,3) id] over by (simp add: purge_expired_def)
  ultimately show ?thesis unfolding step(1) fst_conv using roles
    by (simp add: handle_def require_role_def required_role_def is_admin_def purge_project_def guarded_def
        sql_delete_project_def Let_def)
qed

text \<open>The actions that the project view offers, but the creation of a conversation.\<close>

lemma offered_steps:
  assumes inv: "db_inv (app_db st)"
    and shown: "snd (handle cf now pid GetProject (Inr user) st) = Inr (RProject v)"
  shows "(may_archive (pv_allowed v) \<longrightarrow>
       (\<exists>v'. snd (handle cf now' pid Archive (Inr user) st) = Inr (RProject v') \<and> pv_state v' = Archived \<and>
          (may_restore (pv_allowed v') \<longrightarrow> now'' - timedelta_days (cf_retention_days cf) \<le> now' \<longrightarrow>
             (\<exists>w. snd (handle cf now'' pid Restore (Inr user) (fst (handle cf now' pid Archive (Inr user) st))) =
                Inr (RProject w) \<and> pv_state w \<noteq> Archived)) \<and>
          (may_purge (pv_allowed v') \<longrightarrow> now' \<le> now'' - timedelta_days (cf_retention_days cf) \<longrightarrow>
             snd (handle cf now'' pid Purge (Inr user) (fst (handle cf now' pid Archive (Inr user) st))) =
               Inr RNoContent))) \<and>
     (may_edit_draft (pv_allowed v) \<longrightarrow> valid_call (CreateSession files key) \<longrightarrow>
       check_declarations (cf_text cf) (cf_limits cf) files = Inr () \<longrightarrow>
       idempotent_resource (app_db st) (ap_subject user) (OpCreateUploadSession pid) key = None \<longrightarrow>
       (\<exists>s. snd (handle cf now' pid (CreateSession files key) (Inr user) st) = Inr (RSession s))) \<and>
     (may_build (pv_allowed v) \<longrightarrow> text_between 1 255 key \<longrightarrow>
       (\<forall>u\<in>set (upload_sessions (app_db st)). u_project_id u = pid \<longrightarrow> u_state u \<noteq> UOpen) \<longrightarrow>
       idempotent_resource (app_db st) (ap_subject user) (OpSubmitBuild pid) key = None \<longrightarrow>
       (\<exists>b. snd (handle cf now' pid (CreateBuild key) (Inr user) st) = Inr (RAccepted b))) \<and>
     (may_manage_access (pv_allowed v) \<longrightarrow>
       (\<exists>ms rs. snd (handle cf now' pid ListMembers (Inr user) st) = Inr (RMembers ms) \<and>
          snd (handle cf now' pid ListRequests (Inr user) st) = Inr (RRequests rs))) \<and>
     (may_view_access_activity (pv_allowed v) \<longrightarrow>
       (\<exists>as. snd (handle cf now' pid Activity (Inr user) st) = Inr (RActivity as))) \<and>
     \<not> may_restore (pv_allowed v) \<and> \<not> may_purge (pv_allowed v) \<and> \<not> may_request_access (pv_allowed v)"
proof -
  from shown_project [OF inv shown] obtain p access where p: "p \<in> set (projects (app_db st))" "p_id p = pid"
      "p_tenant_id p = ap_tenant_id user" and active: "p_state p \<noteq> Archived"
      and v: "v = project_view_of (app_db st) p user access"
      and viewer: "''viewer'' \<in> set (ap_roles user)"
      and roles: "\<forall>r. role_rank r \<le> role_rank (effective_role access) \<longrightarrow> authorize (app_db st) pid user r = Inr access" .
  note role = roles [rule_format]
  note read = project_read [OF inv p(1,2)]
  have tenant: "tenant_project (app_db st) pid (ap_tenant_id user) = Inr p"
    by (simp add: tenant_project_def read p(3))
  have "\<exists>v'. snd (handle cf now' pid Archive (Inr user) st) = Inr (RProject v') \<and> pv_state v' = Archived \<and>
          (may_restore (pv_allowed v') \<longrightarrow> now'' - timedelta_days (cf_retention_days cf) \<le> now' \<longrightarrow>
             (\<exists>w. snd (handle cf now'' pid Restore (Inr user) (fst (handle cf now' pid Archive (Inr user) st))) =
                Inr (RProject w) \<and> pv_state w \<noteq> Archived)) \<and>
          (may_purge (pv_allowed v') \<longrightarrow> now' \<le> now'' - timedelta_days (cf_retention_days cf) \<longrightarrow>
             snd (handle cf now'' pid Purge (Inr user) (fst (handle cf now' pid Archive (Inr user) st))) =
               Inr RNoContent)"
    if a: "may_archive (pv_allowed v)"
  proof -
    have own: "effective_role access = Owner" "p_state p \<notin> {Archived, Queued, Building}"
      using a by (auto simp: v project_view_of_def actions_of_def Let_def)
    have "\<exists>d. owner_or_admin (app_db st) pid user = Inr d"
      using role [of Owner] own(1) by (simp add: owner_or_admin_def tenant)
    then obtain d where d: "owner_or_admin (app_db st) pid user = Inr d" by blast
    let ?v = "project_view_of (archive_commit (app_db st) pid (ap_subject user) now')
       (p\<lparr>p_state := Archived, p_archived_at := Some now', p_updated_at := now'\<rparr>) user d"
    have "snd (handle cf now' pid Archive (Inr user) st) = Inr (RProject ?v)"
      using archive_step(1) [OF inv p(1,2) d own(2) viewer] by simp
    moreover have "pv_state ?v = Archived" "may_purge (pv_allowed ?v) \<Longrightarrow> is_admin user"
      by (simp_all add: project_view_of_def actions_of_def Let_def)
    ultimately show ?thesis
      using restore_after_archive [OF inv p d own(2) viewer] purge_after_archive [OF inv p d own(2) viewer] by blast
  qed
  moreover have "\<exists>s. snd (handle cf now' pid (CreateSession files key) (Inr user) st) = Inr (RSession s)"
    if a: "may_edit_draft (pv_allowed v)" "valid_call (CreateSession files key)"
      "check_declarations (cf_text cf) (cf_limits cf) files = Inr ()"
      "idempotent_resource (app_db st) (ap_subject user) (OpCreateUploadSession pid) key = None"
  proof -
    have idle: "role_rank Contributor \<le> role_rank (effective_role access)" "p_state p \<notin> {Queued, Building, Archived}"
      using a(1) by (auto simp: v project_view_of_def actions_of_def Let_def)
    obtain d where d: "draft (app_db st) pid = Some d" using editable_draft [OF inv p(1,2)] idle(2) by auto
    obtain u where u: "get_upload_session (create_upload_session_commit (app_db st) (cf_upload_ttl_hours cf) pid d files
        (ap_subject user) key now') pid (next_id (app_db st)) = Inr u"
      using get_session_committed by blast
    have "create_upload_session (app_db st) (cf_upload_ttl_hours cf) pid files (ap_subject user) key now' =
        Inr (create_upload_session_commit (app_db st) (cf_upload_ttl_hours cf) pid d files (ap_subject user) key now', u)"
      using idle(2) by (simp add: create_upload_session_def create_upload_session_txn_def a(4) key_taken_def read not_editable_def d u)
    then show ?thesis using viewer a(2,3) role [OF idle(1)]
      by (simp add: handle_def require_role_def required_role_def create_upload_session_route_def guarded_def)
  qed
  moreover have "\<exists>b. snd (handle cf now' pid (CreateBuild key) (Inr user) st) = Inr (RAccepted b)"
    if a: "may_build (pv_allowed v)" "text_between 1 255 key"
      "\<forall>u\<in>set (upload_sessions (app_db st)). u_project_id u = pid \<longrightarrow> u_state u \<noteq> UOpen"
      "idempotent_resource (app_db st) (ap_subject user) (OpSubmitBuild pid) key = None"
  proof -
    have idle: "role_rank Contributor \<le> role_rank (effective_role access)" "p_state p \<notin> {Queued, Building, Archived}"
        "draft_file_count (app_db st) pid \<noteq> 0"
      using a(1) p(2) by (auto simp: v project_view_of_def actions_of_def Let_def)
    obtain d where d: "draft (app_db st) pid = Some d" "view_draft (app_db st) pid = Some d"
      using editable_draft [OF inv p(1,2)] idle(2) by auto
    have files: "count_where (\<lambda>f. f_snapshot_id f = s_id d) (snapshot_files (app_db st)) \<noteq> 0"
      using idle(3) by (simp add: draft_file_count_def d(2))
    have none: "open_upload_count (app_db st) pid (s_id d) = 0"
      using a(3) by (auto simp: open_upload_count_def count_where_def filter_empty_conv)
    obtain j where j: "get_build (submit_build_commit (app_db st) p d (ap_subject user) key now') pid (next_id (app_db st)) = Inr j"
      using get_build_committed [OF p(2)] by blast
    have "submit_build (app_db st) pid (ap_subject user) key now' =
        Inr (submit_build_commit (app_db st) p d (ap_subject user) key now', j)"
      using idle(2) files by (simp add: submit_build_def submit_build_txn_def a(4) key_taken_def read not_editable_def d none j)
    then show ?thesis using viewer a(2) role [OF idle(1)]
      by (simp add: handle_def require_role_def required_role_def create_build_def guarded_def committed_def)
  qed
  moreover have "\<exists>ms rs as. snd (handle cf now' pid ListMembers (Inr user) st) = Inr (RMembers ms) \<and>
          snd (handle cf now' pid ListRequests (Inr user) st) = Inr (RRequests rs) \<and>
          snd (handle cf now' pid Activity (Inr user) st) = Inr (RActivity as)"
    if a: "may_manage_access (pv_allowed v)"
  proof -
    have rank: "role_rank Manager \<le> role_rank (effective_role access)"
      using a by (simp add: v project_view_of_def actions_of_def Let_def)
    then have "role_rank Viewer \<le> role_rank (effective_role access)" by simp
    then have gov: "\<exists>d. govern_access (app_db st) pid user b = Inr d" for b
      using role [OF rank] role [of Viewer] by (simp add: govern_access_def tenant)
    have exists: "exists_where (\<lambda>q. p_id q = pid \<and> p_tenant_id q = ap_tenant_id user) (projects (app_db st))"
      using p by (auto simp: exists_where_def)
    obtain d1 d2 where "govern_access (app_db st) pid user True = Inr d1" "govern_access (app_db st) pid user False = Inr d2"
      using gov by blast
    then show ?thesis using viewer exists
      by (simp add: handle_def require_role_def required_role_def list_members_def list_access_requests_route_def
          access_activity_route_def access_activity_def guarded_def)
  qed
  moreover have "may_view_access_activity (pv_allowed v) = may_manage_access (pv_allowed v)"
      "\<not> may_restore (pv_allowed v)" "\<not> may_purge (pv_allowed v)" "\<not> may_request_access (pv_allowed v)"
    using active by (simp_all add: v project_view_of_def actions_of_def Let_def)
  ultimately show ?thesis by (intro conjI) (blast+)
qed

section \<open>Demoting an owner\<close>

text \<open>
  The guard against removing owners is not a guard against demoting them. A manager of a
  project with another owner is refused when it removes an owner from the members, but the same
  manager turns that owner into a viewer.
\<close>

theorem manager_demotes_owner:
  assumes inv: "db_inv (app_db st)" and user: "''viewer'' \<in> set (ap_roles user)" "''admin'' \<notin> set (ap_roles user)"
    and access: "access_decision_of (app_db st) pid (ap_tenant_id user) (ap_subject user) (ap_group_ids user) Manager = Inr d"
      "effective_role d = Manager"
    and target: "row \<in> set (list_memberships (app_db st) pid (ap_tenant_id user))" "m_role row = Owner"
    and others: "1 < owner_count (app_db st) pid"
  shows "snd (handle cf now pid (RemoveMember (m_id row)) (Inr user) st) = Inl AuthorizationFailed \<and>
    snd (handle cf now pid (ChangeRole (m_id row) Viewer) (Inr user) st) =
      Inr (RMember (row\<lparr>m_role := Viewer, m_updated_at := now\<rparr>))"
proof -
  let ?db = "app_db st" and ?rows = "list_memberships (app_db st) pid (ap_tenant_id user)"
  have rows: "set ?rows \<subseteq> {m \<in> set (memberships ?db). m_project_id m = pid \<and> m_tenant_id m = ap_tenant_id user}"
    using set_take_subset by (fastforce simp: list_memberships_def)
  have uniq: "m = row" if "m \<in> set (memberships ?db)" "m_id m = m_id row" for m
    using distinct_key_eq [OF wf_idsD(2) [OF db_invD(1) [OF inv]] that(1) _ that(2)] rows target(1) by blast
  have found: "first_where (\<lambda>m. m_id m = m_id row) ?rows = Some row"
    by (rule first_where_unique [OF target(1)]) (simp, rule uniq, use rows in blast)
  have by_id: "membership_by_id ?db pid (m_id row) (ap_tenant_id user) = Some row"
    unfolding membership_by_id_def
    by (rule first_where_unique) (use rows target(1) uniq in \<open>blast+\<close>)
  have gov: "govern_access ?db pid user False = Inr d"
    using user(2) access(1) by (simp add: govern_access_def is_admin_def authorize_def)
  show ?thesis
    using user(1) others
    by (simp add: handle_def require_role_def required_role_def remove_member_def change_member_role_def gov guarded_def
        found access(2) target(2) by_id update_membership_def committed_def)
qed

section \<open>Instances\<close>

definition sample_state :: "repo_db \<Rightarrow> app_state" where
  "sample_state db = \<lparr>app_db = db, app_files = \<lparr>temps = Map.empty, blob_store = Map.empty\<rparr>,
     app_conversations = sql_init,
     app_directory = \<lparr>dc_admin_url = None, dc_token_url = None, dc_client_id = None, dc_client_secret = None,
       dc_token = None, dc_expires_at = 0, dc_group_cache = []\<rparr>\<rparr>"

definition sample_user :: "string \<Rightarrow> string \<Rightarrow> auth_principal" where
  "sample_user name tenant = \<lparr>ap_subject = name, ap_username = name, ap_roles = [''viewer''],
     ap_tenant_id = tenant, ap_group_ids = []\<rparr>"

definition sample_config :: app_config where
  "sample_config = \<lparr>cf_text = \<lparr>nfc = (\<lambda>s. s), control_char = (\<lambda>c. c < CHR '' ''), space_char = (\<lambda>c. c = CHR '' ''),
       utf8_length = length, lower = (\<lambda>s. s)\<rparr>, cf_sha = (\<lambda>s. s), cf_convertible = (\<lambda>_ _. True),
     cf_limits = \<lparr>max_file_bytes = 1000, max_files = 10, max_total_bytes = 5000\<rparr>, cf_retention_days = 30,
     cf_upload_ttl_hours = 24, cf_auth_enabled = True, cf_cascade = True, cf_casefold = (\<lambda>s. s),
     cf_directory = \<lparr>da_token = None, da_users = (\<lambda>_ _ _ _. None), da_groups = (\<lambda>_ _ _ _. None),
       da_user_groups = (\<lambda>_ _. None)\<rparr>\<rparr>"

text \<open>The finished upload with a manager and a second owner.\<close>

definition managed_db :: repo_db where
  "managed_db = state_after finalized_db
     (add_memberships finalized_db 0 ''acme'' [(User, ''max'', ''Max''), (User, ''eve'', ''Eve'')] Manager ''ann'' 45)"

definition shared_db :: repo_db where
  "shared_db = state_after managed_db (update_membership managed_db 0 14 ''acme'' Owner ''ann'' 46)"

lemma sample_state_db [simp]: "app_db (sample_state db) = db"
  by (simp add: sample_state_def)

lemma managed_ok: "is_ok (add_memberships finalized_db 0 ''acme'' [(User, ''max'', ''Max''), (User, ''eve'', ''Eve'')] Manager ''ann'' 45)"
  "is_ok (update_membership managed_db 0 14 ''acme'' Owner ''ann'' 46)"
  by code_simp+

lemma finalized_inv: "db_inv finalized_db"
  using reachableD [OF finalized_reachable] by simp

lemma shared_inv: "db_inv shared_db"
proof -
  have "db_inv managed_db"
    using is_okD [OF managed_ok(1), of finalized_db] finalized_inv add_memberships_op_inv
    unfolding managed_db_def by (metis project_role.distinct(11))
  then show ?thesis
    using is_okD [OF managed_ok(2), of managed_db] update_membership_inv unfolding shared_db_def by metis
qed

lemma routes_refine_registry_witness:
  "db_inv (app_db (fst (handle sample_config 60 0 ListFiles (Inr (sample_user ''ann'' ''acme'')) (sample_state shared_db))))"
  using routes_refine_registry [of "sample_state shared_db"] shared_inv by simp

lemma tenant_isolation_witness:
  "client_sees ''r1'' (snd (handle sample_config 60 0 Archive (Inr (sample_user ''ann'' ''other'')) (sample_state shared_db))) =
     Inl (problem_response ''r1'' 404 ''project_not_found'' ''The project resource was not found.'')"
proof -
  have "list_all (\<lambda>p. p_tenant_id p \<noteq> ''other'') (projects shared_db)" by code_simp
  then have "\<forall>p\<in>set (projects shared_db). p_tenant_id p \<noteq> ''other''" by (simp add: list_all_iff)
  then show ?thesis
    using tenant_isolation [of "sample_state shared_db" 0 "sample_user ''ann'' ''other''" sample_config 60 Archive "''r1''",
        THEN conjunct2, THEN conjunct2] shared_inv
    by (simp add: sample_user_def required_role_def)
qed

lemma outsiders_see_nothing_witness:
  "fst (handle sample_config 60 0 ListMembers (Inr (sample_user ''zoe'' ''acme'')) (sample_state shared_db)) = sample_state shared_db"
proof -
  have "access_origins shared_db 0 ''acme'' ''zoe'' [] = []" by code_simp
  then show ?thesis
    using outsiders_see_nothing [of "sample_state shared_db" 0 "sample_user ''zoe'' ''acme''" ListMembers sample_config 60]
    by (simp add: sample_user_def open_to_tenant_def)
qed

lemma owners_not_appointed_witness:
  "\<exists>m0\<in>set (memberships shared_db). m_role m0 = Owner \<and> m_principal_id m0 = ''ann''"
proof -
  let ?st = "sample_state shared_db" and ?max = "sample_user ''max'' ''acme''"
  have same: "fst (handle sample_config 60 0 ListFiles (Inr ?max) ?st) = ?st"
    by (simp add: handle_def require_role_def required_role_def sample_user_def list_files_route_def guarded_def
        split: sum.split)
  have "list_all (\<lambda>m. m_role m \<noteq> Owner) (access_origins shared_db 0 ''acme'' ''max'' [])" by code_simp
  moreover have "list_ex (\<lambda>m. m_role m = Owner \<and> m_principal_id m = ''ann'') (memberships shared_db)" by code_simp
  then obtain m where "m \<in> set (memberships shared_db)" "m_role m = Owner" "m_principal_id m = ''ann''"
    by (auto simp: list_ex_iff)
  ultimately show ?thesis
    using owners_not_appointed [of ?max ?st 0 m sample_config 60 ListFiles] same
    by (auto simp: sample_user_def list_all_iff)
qed

lemma manager_demotes_owner_witness:
  "\<exists>row. m_principal_id row = ''eve'' \<and> m_role row = Owner \<and>
     snd (handle sample_config 60 0 (RemoveMember (m_id row)) (Inr (sample_user ''max'' ''acme'')) (sample_state shared_db)) =
       Inl AuthorizationFailed \<and>
     snd (handle sample_config 60 0 (ChangeRole (m_id row) Viewer) (Inr (sample_user ''max'' ''acme'')) (sample_state shared_db)) =
       Inr (RMember (row\<lparr>m_role := Viewer, m_updated_at := 60\<rparr>))"
proof -
  have "list_ex (\<lambda>m. m_role m = Owner \<and> m_principal_id m = ''eve'') (list_memberships shared_db 0 ''acme'')" by code_simp
  then obtain row where row: "row \<in> set (list_memberships shared_db 0 ''acme'')" "m_role row = Owner" "m_principal_id row = ''eve''"
    by (auto simp: list_ex_iff)
  have "(case access_decision_of shared_db 0 ''acme'' ''max'' [] Manager of Inr d \<Rightarrow> effective_role d = Manager | Inl _ \<Rightarrow> False)"
    by code_simp
  then obtain d where d: "access_decision_of shared_db 0 ''acme'' ''max'' [] Manager = Inr d" "effective_role d = Manager"
    by (auto split: sum.splits)
  have "1 < owner_count shared_db 0" by code_simp
  with row d show ?thesis
    using manager_demotes_owner [of "sample_state shared_db" "sample_user ''max'' ''acme''" 0 d row sample_config 60] shared_inv
    by (auto simp: sample_user_def)
qed

end
