(* ===== verification/Retention.thy ===== *)
theory Retention
  imports Route_Properties Queue_Properties
begin

text \<open>
  The background task of the application (\<open>_cleanup_conversations\<close> of \<open>app/main.py\<close>): one round
  removes archived conversations, expires uploads with their files, and purges the archived projects
  whose retention is over, from the registry, the conversations and the files. Every store commits
  on its own, so other requests run in between: \<open>others k\<close> is what they do to the application
  before the \<open>k\<close>-th access of the round, and \<open>clock k\<close> is the time of it. An exception ends the task.
\<close>

section \<open>One round\<close>

fun purge_each ::
  "app_config \<Rightarrow> (nat \<Rightarrow> app_state \<Rightarrow> app_state) \<Rightarrow> (nat \<Rightarrow> time) \<Rightarrow> nat \<Rightarrow> ident list \<Rightarrow> app_state \<Rightarrow>
     app_state \<times> api_exception option"
where
  "purge_each cf others clock k [] st = (st, None)"
| "purge_each cf others clock k (pid # pids) st =
     (let s1 = others k st in
      case purge_expired (app_db s1) pid ''system-retention'' (cf_retention_days cf) (clock k) of
        Inl e \<Rightarrow> (s1, Some (of_repo_error e))
      | Inr (db, _) \<Rightarrow>
          let s2 = others (k + 1) (s1\<lparr>app_db := db\<rparr>) in
          (case sql_delete_project (cf_cascade cf) (id_text pid) (app_conversations s2) of
             Inl e \<Rightarrow> (s2, Some (of_store_error e))
           | Inr (convs, _) \<Rightarrow>
               let s3 = others (k + 2) (s2\<lparr>app_conversations := convs\<rparr>) in
               purge_each cf others clock (k + 3) pids (s3\<lparr>app_files := purge_storage pid (app_files s3)\<rparr>)))"

definition cleanup_round ::
  "app_config \<Rightarrow> store_config \<Rightarrow> (nat \<Rightarrow> app_state \<Rightarrow> app_state) \<Rightarrow> (nat \<Rightarrow> time) \<Rightarrow> app_state \<Rightarrow>
     app_state \<times> api_exception option"
where
  "cleanup_round cf scfg others clock st =
     (let s0 = others 0 st in
      case sql_cleanup scfg (cf_cascade cf) (clock 0) (app_conversations s0) of
        Inl e \<Rightarrow> (s0, Some (of_store_error e))
      | Inr (convs, _) \<Rightarrow>
          let s1 = others 1 (s0\<lparr>app_conversations := convs\<rparr>) in
          (case cleanup_expired_uploads (app_db s1) (clock 1) of
             (db, paths) \<Rightarrow>
               let s2 = others 2 (s1\<lparr>app_db := db\<rparr>);
                   s3 = others 3 (s2\<lparr>app_files := cleanup_paths paths (app_files s2)\<rparr>)
               in purge_each cf others clock 4 (expired_archives (app_db s3) (cf_retention_days cf) (clock 3)) s3))"

definition undisturbed :: "nat \<Rightarrow> app_state \<Rightarrow> app_state" where
  "undisturbed k st = st"

section \<open>What a round leaves\<close>

definition retired :: "app_config \<Rightarrow> time \<Rightarrow> project_row \<Rightarrow> bool" where
  "retired cf now p \<longleftrightarrow> p_state p = Archived \<and>
     (case p_archived_at p of None \<Rightarrow> False | Some t \<Rightarrow> t \<le> now - timedelta_days (cf_retention_days cf))"

definition below :: "ident \<Rightarrow> string \<Rightarrow> bool" where
  "below pid path \<longleftrightarrow> take (length (id_text pid) + 1) path = id_text pid @ ''/''"

lemma purge_expired_retired:
  assumes "db_inv db" "p \<in> set (projects db)" "p_id p = pid" "retired cf now p"
  shows "purge_expired db pid subject (cf_retention_days cf) now = Inr (purge_commit db pid subject now, ())"
  using assms(4) by (auto simp: purge_expired_def project_read [OF assms(1-3)] retired_def split: option.splits)

lemma purge_each_ok:
  assumes "db_inv (app_db st)" "distinct pids"
    and "\<forall>pid\<in>set pids. \<exists>p\<in>set (projects (app_db st)). p_id p = pid \<and> retired cf now p"
  shows "\<exists>st'. purge_each cf undisturbed (\<lambda>_. now) k pids st = (st', None) \<and> db_inv (app_db st') \<and>
    projects (app_db st') = filter (\<lambda>p. p_id p \<notin> set pids) (projects (app_db st)) \<and>
    set (upload_sessions (app_db st')) \<subseteq> set (upload_sessions (app_db st)) \<and>
    ss_conversations (app_conversations st') =
      filter (\<lambda>r. cr_project_id r \<notin> id_text ` set pids) (ss_conversations (app_conversations st)) \<and>
    (\<forall>path. temps (app_files st') path = (if \<exists>pid\<in>set pids. below pid path then None else temps (app_files st) path) \<and>
       blob_store (app_files st') path =
         (if \<exists>pid\<in>set pids. below pid path then None else blob_store (app_files st) path))"
  using assms
proof (induction pids arbitrary: st k)
  case (Cons pid pids)
  obtain p where p: "p \<in> set (projects (app_db st))" "p_id p = pid" "retired cf now p" using Cons.prems(3) by auto
  note purged = purge_expired_retired [OF Cons.prems(1) p, of "''system-retention''"]
  let ?db = "purge_commit (app_db st) pid ''system-retention'' now"
  let ?st = "st\<lparr>app_db := ?db, app_conversations := delete_rows (cf_cascade cf) (\<lambda>r. cr_project_id r = id_text pid) (app_conversations st),
      app_files := purge_storage pid (app_files st)\<rparr>"
  have inv: "db_inv ?db" using purge_expired_inv [OF purged Cons.prems(1)] .
  have step: "purge_each cf undisturbed (\<lambda>_. now) k (pid # pids) st = purge_each cf undisturbed (\<lambda>_. now) (k + 3) pids ?st"
    by (simp add: purged sql_delete_project_def undisturbed_def Let_def)
  have "\<forall>i\<in>set pids. \<exists>p\<in>set (projects (app_db ?st)). p_id p = i \<and> retired cf now p"
  proof
    fix i assume i: "i \<in> set pids"
    then obtain q where q: "q \<in> set (projects (app_db st))" "p_id q = i" "retired cf now q" using Cons.prems(3) by auto
    moreover have "i \<noteq> pid" using i Cons.prems(2) by auto
    ultimately show "\<exists>p\<in>set (projects (app_db ?st)). p_id p = i \<and> retired cf now p"
      by (intro bexI [of _ q]) (simp_all add: purge_tables set_del_where)
  qed
  with Cons.IH [of ?st "k + 3"] inv Cons.prems(2) obtain st' where st': "purge_each cf undisturbed (\<lambda>_. now) (k + 3) pids ?st = (st', None)" "db_inv (app_db st')"
      "projects (app_db st') = filter (\<lambda>p. p_id p \<notin> set pids) (projects ?db)"
      "set (upload_sessions (app_db st')) \<subseteq> set (upload_sessions ?db)"
      "ss_conversations (app_conversations st') = filter (\<lambda>r. cr_project_id r \<notin> id_text ` set pids)
         (ss_conversations (delete_rows (cf_cascade cf) (\<lambda>r. cr_project_id r = id_text pid) (app_conversations st)))"
      "\<forall>path. temps (app_files st') path =
         (if \<exists>pid\<in>set pids. below pid path then None else temps (purge_storage pid (app_files st)) path) \<and>
       blob_store (app_files st') path =
         (if \<exists>pid\<in>set pids. below pid path then None else blob_store (purge_storage pid (app_files st)) path)"
    by auto
  have "projects (app_db st') = filter (\<lambda>p. p_id p \<notin> set (pid # pids)) (projects (app_db st))"
    by (simp add: st'(3) purge_tables del_where_def conj_commute)
  moreover have "set (upload_sessions (app_db st')) \<subseteq> set (upload_sessions (app_db st))"
    using st'(4) by (auto simp: purge_tables set_del_where)
  moreover have "ss_conversations (app_conversations st') =
      filter (\<lambda>r. cr_project_id r \<notin> id_text ` set (pid # pids)) (ss_conversations (app_conversations st))"
    unfolding st'(5) by (auto simp: delete_rows_def del_where_def Let_def intro: filter_cong)
  moreover have "temps (app_files st') path = (if \<exists>i\<in>set (pid # pids). below i path then None else temps (app_files st) path) \<and>
       blob_store (app_files st') path =
         (if \<exists>i\<in>set (pid # pids). below i path then None else blob_store (app_files st) path)" for path
    using st'(6) by (simp add: purge_storage_def below_def Let_def)
  ultimately show ?case using step st'(1,2) by auto
qed simp

text \<open>With other requests in between: what an exception of the round means.\<close>

lemma purge_each_raises:
  assumes "db_inv (app_db st)" "\<And>k s. db_inv (app_db s) \<Longrightarrow> db_inv (app_db (others k s))"
  shows "case purge_each cf others clock k pids st of
      (st', None) \<Rightarrow> db_inv (app_db st')
    | (st', Some e) \<Rightarrow> db_inv (app_db st') \<and> (\<exists>pid\<in>set pids. \<exists>i.
        \<not> (\<exists>p\<in>set (projects (app_db st')). p_id p = pid \<and> retired cf (clock i) p) \<and>
        e = (if pid \<in> p_id ` set (projects (app_db st'))
             then ProjectConflicting ''The archived project is still retained'' else ProjectMissing pid))"
  using assms(1)
proof (induction pids arbitrary: st k)
  case (Cons pid pids)
  let ?s1 = "others k st"
  have inv1: "db_inv (app_db ?s1)" using assms(2) Cons.prems by blast
  show ?case
  proof (cases "purge_expired (app_db ?s1) pid ''system-retention'' (cf_retention_days cf) (clock k)")
    case (Inl e)
    have "\<not> (\<exists>p\<in>set (projects (app_db ?s1)). p_id p = pid \<and> retired cf (clock k) p) \<and>
        of_repo_error e = (if pid \<in> p_id ` set (projects (app_db ?s1))
             then ProjectConflicting ''The archived project is still retained'' else ProjectMissing pid)"
    proof (cases "\<exists>p\<in>set (projects (app_db ?s1)). p_id p = pid")
      case True
      then obtain p where p: "p \<in> set (projects (app_db ?s1))" "p_id p = pid" by blast
      have only: "q = p" if "q \<in> set (projects (app_db ?s1))" "p_id q = pid" for q
        using project_eq [OF db_invD(1) [OF inv1] that(1) p(1)] that(2) p(2) by simp
      have "\<not> retired cf (clock k) p \<and> e = ProjectConflict ''The archived project is still retained''"
        using Inl by (auto simp: purge_expired_def project_read [OF inv1 p] retired_def not_le split: option.splits if_splits)
      moreover have "pid \<in> p_id ` set (projects (app_db ?s1))" using p by blast
      ultimately show ?thesis using only by (simp only: if_True of_repo_error.simps) blast
    next
      case False
      then have "project_for_update (app_db ?s1) pid = None"
        by (auto simp: project_for_update_def first_where_None)
      then show ?thesis using Inl False by (auto simp: purge_expired_def)
    qed
    then show ?thesis using Inl inv1 by (auto simp: Let_def)
  next
    case (Inr x)
    obtain db where db: "purge_expired (app_db ?s1) pid ''system-retention'' (cf_retention_days cf) (clock k) = Inr (db, ())"
      using Inr by (cases x) auto
    let ?s2 = "others (k + 1) (?s1\<lparr>app_db := db\<rparr>)"
    let ?convs = "delete_rows (cf_cascade cf) (\<lambda>r. cr_project_id r = id_text pid) (app_conversations ?s2)"
    let ?s3 = "others (k + 2) (?s2\<lparr>app_conversations := ?convs\<rparr>)"
    let ?s4 = "?s3\<lparr>app_files := purge_storage pid (app_files ?s3)\<rparr>"
    have step: "purge_each cf others clock k (pid # pids) st = purge_each cf others clock (k + 3) pids ?s4"
      by (simp add: db sql_delete_project_def Let_def)
    have "db_inv (app_db (?s1\<lparr>app_db := db\<rparr>))" using purge_expired_inv [OF db inv1] by simp
    then have "db_inv (app_db ?s4)" using assms(2) by simp
    note IH = Cons.IH [OF this, of "k + 3"]
    obtain st' r where r: "purge_each cf others clock (k + 3) pids ?s4 = (st', r)" by fastforce
    show ?thesis using IH unfolding step r by (cases r) simp_all
  qed
qed simp

lemma retired_mono: "retired cf t p \<Longrightarrow> t \<le> t' \<Longrightarrow> retired cf t' p"
  by (auto simp: retired_def split: option.splits)

text \<open>And that it does not come unless somebody takes a project away that is due.\<close>

definition leaves_retired :: "app_config \<Rightarrow> (nat \<Rightarrow> app_state \<Rightarrow> app_state) \<Rightarrow> (nat \<Rightarrow> time) \<Rightarrow> bool" where
  "leaves_retired cf others clock \<longleftrightarrow>
     (\<forall>k s. \<forall>p\<in>set (projects (app_db s)). retired cf (clock k) p \<longrightarrow>
        (\<exists>p'\<in>set (projects (app_db (others k s))). p_id p' = p_id p \<and> retired cf (clock k) p'))"

definition due :: "app_config \<Rightarrow> time \<Rightarrow> app_state \<Rightarrow> ident \<Rightarrow> bool" where
  "due cf now s pid \<longleftrightarrow> (\<exists>p\<in>set (projects (app_db s)). p_id p = pid \<and> retired cf now p)"

lemma due_others:
  "leaves_retired cf others clock \<Longrightarrow> due cf (clock k) s pid \<Longrightarrow> due cf (clock k) (others k s) pid"
  unfolding leaves_retired_def due_def by metis

lemma due_mono: "due cf t s pid \<Longrightarrow> t \<le> t' \<Longrightarrow> due cf t' s pid"
  unfolding due_def using retired_mono by blast

lemma purge_each_undisturbed_due:
  assumes "leaves_retired cf others clock" "\<And>k. clock k \<le> clock (Suc k)"
    and "\<And>k s. db_inv (app_db s) \<Longrightarrow> db_inv (app_db (others k s))"
    and "db_inv (app_db st)" "distinct pids" "\<forall>pid\<in>set pids. due cf (clock k) st pid"
  shows "snd (purge_each cf others clock k pids st) = None"
  using assms(4-6)
proof (induction pids arbitrary: st k)
  case (Cons pid pids)
  let ?s1 = "others k st"
  have inv1: "db_inv (app_db ?s1)" using assms(3) Cons.prems(1) by blast
  have due1: "\<forall>i\<in>set (pid # pids). due cf (clock k) ?s1 i" using due_others [OF assms(1)] Cons.prems(3) by blast
  then obtain p where p: "p \<in> set (projects (app_db ?s1))" "p_id p = pid" "retired cf (clock k) p"
    by (auto simp: due_def)
  note purged = purge_expired_retired [OF inv1 p, of "''system-retention''"]
  let ?db = "purge_commit (app_db ?s1) pid ''system-retention'' (clock k)"
  let ?s2 = "others (k + 1) (?s1\<lparr>app_db := ?db\<rparr>)"
  let ?convs = "delete_rows (cf_cascade cf) (\<lambda>r. cr_project_id r = id_text pid) (app_conversations ?s2)"
  let ?s3 = "others (k + 2) (?s2\<lparr>app_conversations := ?convs\<rparr>)"
  let ?s4 = "?s3\<lparr>app_files := purge_storage pid (app_files ?s3)\<rparr>"
  have step: "purge_each cf others clock k (pid # pids) st = purge_each cf others clock (k + 3) pids ?s4"
    by (simp add: purged sql_delete_project_def Let_def)
  have t: "clock k \<le> clock (k + 1)" "clock (k + 1) \<le> clock (k + 2)" "clock (k + 2) \<le> clock (k + 3)"
    using assms(2) [of k] assms(2) [of "k + 1"] assms(2) [of "k + 2"] by (simp_all add: eval_nat_numeral)
  have "due cf (clock (k + 3)) ?s4 i" if i: "i \<in> set pids" for i
  proof -
    have "i \<noteq> pid" using i Cons.prems(2) by auto
    moreover have "due cf (clock k) ?s1 i" using due1 i by simp
    ultimately have "due cf (clock k) (?s1\<lparr>app_db := ?db\<rparr>) i"
      by (auto simp: due_def purge_tables set_del_where)
    then have "due cf (clock (k + 1)) ?s2 i" using due_mono t(1) due_others [OF assms(1)] by blast
    then have "due cf (clock (k + 1)) (?s2\<lparr>app_conversations := ?convs\<rparr>) i" by (simp add: due_def)
    then have "due cf (clock (k + 2)) ?s3 i" using due_mono t(2) due_others [OF assms(1)] by blast
    then show ?thesis using due_mono [OF _ t(3)] by (simp add: due_def)
  qed
  moreover have "db_inv (app_db ?s4)"
    using purge_expired_inv [OF purged inv1] assms(3) by simp
  ultimately show ?case unfolding step using Cons.IH [of ?s4 "k + 3"] Cons.prems(2) by simp
qed simp

text \<open>The temporary files of the uploads that a round expires.\<close>

definition expired_temp :: "repo_db \<Rightarrow> time \<Rightarrow> string \<Rightarrow> bool" where
  "expired_temp db now path \<longleftrightarrow> path \<noteq> [] \<and>
     (\<exists>u\<in>set (upload_sessions db). u_state u = UOpen \<and> u_expires_at u < now \<and>
        (\<exists>part\<in>set (upload_parts db). up_session_id part = u_id u \<and> up_temp_path part = Some path))"

lemma in_map_filter: "y \<in> set (List.map_filter f xs) \<longleftrightarrow> (\<exists>x\<in>set xs. f x = Some y)"
  by (induction xs) (auto simp: List.map_filter_simps split: option.split)

lemma expired_paths:
  assumes "cleanup_expired_uploads db now = (db', paths)"
  shows "path \<in> set paths \<longleftrightarrow> expired_temp db now path"
proof -
  have paths: "paths = List.map_filter up_temp_path (filter (\<lambda>part. up_session_id part \<in>
      set (map u_id (filter (\<lambda>u. u_state u = UOpen \<and> u_expires_at u < now) (upload_sessions db))) \<and>
      up_temp_path part \<noteq> Some []) (upload_parts db))"
    using assms by (simp add: cleanup_expired_uploads_def Let_def)
  have "path \<in> set paths \<longleftrightarrow> path \<noteq> [] \<and> (\<exists>part\<in>set (upload_parts db). up_temp_path part = Some path \<and>
      (\<exists>u\<in>set (upload_sessions db). u_state u = UOpen \<and> u_expires_at u < now \<and> up_session_id part = u_id u))"
    unfolding paths in_map_filter by auto
  then show ?thesis unfolding expired_temp_def by blast
qed

text \<open>A round that nobody disturbs.\<close>

lemma undisturbed_round:
  assumes "db_inv (app_db st)"
  shows "\<exists>st'. cleanup_round cf scfg undisturbed (\<lambda>_. now) st = (st', None) \<and> db_inv (app_db st') \<and>
    projects (app_db st') = filter (\<lambda>p. \<not> retired cf now p) (projects (app_db st)) \<and>
    (\<forall>u\<in>set (upload_sessions (app_db st')). u_state u = UOpen \<longrightarrow> now \<le> u_expires_at u) \<and>
    ss_conversations (app_conversations st') =
      filter (\<lambda>r. (case cr_archived_at r of None \<Rightarrow> True | Some t \<Rightarrow> now - timedelta_days (cfg_retention_days scfg) \<le> t) \<and>
                  (\<forall>p\<in>set (projects (app_db st)). retired cf now p \<longrightarrow> cr_project_id r \<noteq> id_text (p_id p)))
        (ss_conversations (app_conversations st)) \<and>
    (\<forall>path. blob_store (app_files st') path =
         (if \<exists>p\<in>set (projects (app_db st)). retired cf now p \<and> below (p_id p) path then None
          else blob_store (app_files st) path) \<and>
       temps (app_files st') path =
         (if expired_temp (app_db st) now path \<or>
             (\<exists>p\<in>set (projects (app_db st)). retired cf now p \<and> below (p_id p) path) then None
          else temps (app_files st) path))"
proof -
  obtain db paths where up: "cleanup_expired_uploads (app_db st) now = (db, paths)" by fastforce
  have inv: "db_inv db" using cleanup_expired_uploads_inv [OF assms, of now] up by simp
  have db: "projects db = projects (app_db st)"
      "\<forall>u\<in>set (upload_sessions db). u_state u = UOpen \<longrightarrow> now \<le> u_expires_at u"
    using up by (auto simp: cleanup_expired_uploads_def Let_def set_upd_where split: if_splits)
  let ?convs = "delete_rows (cf_cascade cf)
    (\<lambda>r. case cr_archived_at r of None \<Rightarrow> False | Some t \<Rightarrow> t < now - timedelta_days (cfg_retention_days scfg)) (app_conversations st)"
  let ?st = "st\<lparr>app_conversations := ?convs, app_db := db, app_files := cleanup_paths paths (app_files st)\<rparr>"
  let ?ids = "expired_archives db (cf_retention_days cf) now"
  have ids: "set ?ids = p_id ` {p \<in> set (projects (app_db st)). retired cf now p}"
    by (auto simp: expired_archives_def retired_def db(1) split: option.splits)
  have "distinct ?ids"
    unfolding expired_archives_def using wf_idsD(1) [OF db_invD(1) [OF inv]] by (rule distinct_map_filter)
  moreover have "\<forall>pid\<in>set ?ids. \<exists>p\<in>set (projects (app_db ?st)). p_id p = pid \<and> retired cf now p"
    unfolding ids using db(1) by auto
  moreover have "db_inv (app_db ?st)" using inv by simp
  ultimately obtain st' where st': "purge_each cf undisturbed (\<lambda>_. now) 4 ?ids ?st = (st', None)" "db_inv (app_db st')"
      "projects (app_db st') = filter (\<lambda>p. p_id p \<notin> set ?ids) (projects db)"
      "set (upload_sessions (app_db st')) \<subseteq> set (upload_sessions db)"
      "ss_conversations (app_conversations st') = filter (\<lambda>r. cr_project_id r \<notin> id_text ` set ?ids) (ss_conversations ?convs)"
      "\<forall>path. temps (app_files st') path =
         (if \<exists>pid\<in>set ?ids. below pid path then None else temps (cleanup_paths paths (app_files st)) path) \<and>
       blob_store (app_files st') path =
         (if \<exists>pid\<in>set ?ids. below pid path then None else blob_store (cleanup_paths paths (app_files st)) path)"
    using purge_each_ok [of ?st ?ids cf now 4] by auto
  have round: "cleanup_round cf scfg undisturbed (\<lambda>_. now) st = (st', None)"
    using st'(1) by (simp add: cleanup_round_def sql_cleanup_def undisturbed_def Let_def up)
  have "p_id p \<notin> set ?ids \<longleftrightarrow> \<not> retired cf now p" if "p \<in> set (projects (app_db st))" for p
    using project_eq [OF db_invD(1) [OF assms] that] that unfolding ids by blast
  then have "projects (app_db st') = filter (\<lambda>p. \<not> retired cf now p) (projects (app_db st))"
    unfolding st'(3) db(1) by (intro filter_cong) simp_all
  moreover have "ss_conversations (app_conversations st') =
      filter (\<lambda>r. (case cr_archived_at r of None \<Rightarrow> True | Some t \<Rightarrow> now - timedelta_days (cfg_retention_days scfg) \<le> t) \<and>
                  (\<forall>p\<in>set (projects (app_db st)). retired cf now p \<longrightarrow> cr_project_id r \<noteq> id_text (p_id p)))
        (ss_conversations (app_conversations st))"
    unfolding st'(5) ids by (simp add: delete_rows_def del_where_def Let_def) (rule filter_cong, auto split: option.splits)
  moreover have "blob_store (app_files st') path =
         (if \<exists>p\<in>set (projects (app_db st)). retired cf now p \<and> below (p_id p) path then None
          else blob_store (app_files st) path) \<and>
       temps (app_files st') path =
         (if expired_temp (app_db st) now path \<or>
             (\<exists>p\<in>set (projects (app_db st)). retired cf now p \<and> below (p_id p) path) then None
          else temps (app_files st) path)" for path
    using st'(6) unfolding ids by (auto simp: cleanup_paths_def expired_paths [OF up])
  ultimately show ?thesis using round st'(2,4) db(2) by blast
qed

text \<open>
  C19. A round of the background task finishes what retention asks for. Undisturbed it raises
  nothing: it removes from the registry exactly the projects whose retention is over, every
  conversation of theirs and every conversation archived for too long, all files below their
  directories and the temporary files of the uploads that expired, no other file, and no expired
  upload is left open. Whatever other requests do between its accesses, as long as they keep the
  invariant of the registry, it can raise in one way only: a project that it had listed is gone, or
  is not due any more, when it comes to purge it; and if the others leave every project that is due,
  it raises nothing.
\<close>

theorem retention_round_complete:
  assumes "db_inv (app_db st)"
    and "\<forall>k s. db_inv (app_db s) \<longrightarrow> db_inv (app_db (others k s))" and "\<forall>k. clock k \<le> clock (Suc k)"
  shows "(\<exists>st'. cleanup_round cf scfg undisturbed (\<lambda>_. now) st = (st', None) \<and> db_inv (app_db st') \<and>
      projects (app_db st') = filter (\<lambda>p. \<not> retired cf now p) (projects (app_db st)) \<and>
      (\<forall>u\<in>set (upload_sessions (app_db st')). u_state u = UOpen \<longrightarrow> now \<le> u_expires_at u) \<and>
      ss_conversations (app_conversations st') =
        filter (\<lambda>r. (case cr_archived_at r of None \<Rightarrow> True | Some t \<Rightarrow> now - timedelta_days (cfg_retention_days scfg) \<le> t) \<and>
                    (\<forall>p\<in>set (projects (app_db st)). retired cf now p \<longrightarrow> cr_project_id r \<noteq> id_text (p_id p)))
          (ss_conversations (app_conversations st)) \<and>
      (\<forall>path. blob_store (app_files st') path =
           (if \<exists>p\<in>set (projects (app_db st)). retired cf now p \<and> below (p_id p) path then None
            else blob_store (app_files st) path) \<and>
         temps (app_files st') path =
           (if expired_temp (app_db st) now path \<or>
               (\<exists>p\<in>set (projects (app_db st)). retired cf now p \<and> below (p_id p) path) then None
            else temps (app_files st) path))) \<and>
    (case cleanup_round cf scfg others clock st of
        (st', None) \<Rightarrow> db_inv (app_db st')
      | (st', Some e) \<Rightarrow> db_inv (app_db st') \<and> (\<exists>pid i.
          \<not> (\<exists>p\<in>set (projects (app_db st')). p_id p = pid \<and> retired cf (clock i) p) \<and>
          e = (if pid \<in> p_id ` set (projects (app_db st'))
               then ProjectConflicting ''The archived project is still retained'' else ProjectMissing pid))) \<and>
    (leaves_retired cf others clock \<longrightarrow> snd (cleanup_round cf scfg others clock st) = None)"
proof -
  let ?s0 = "others 0 st"
  let ?convs = "delete_rows (cf_cascade cf)
    (\<lambda>r. case cr_archived_at r of None \<Rightarrow> False | Some t \<Rightarrow> t < clock 0 - timedelta_days (cfg_retention_days scfg)) (app_conversations ?s0)"
  let ?s1 = "others 1 (?s0\<lparr>app_conversations := ?convs\<rparr>)"
  obtain db paths where up: "cleanup_expired_uploads (app_db ?s1) (clock 1) = (db, paths)" by fastforce
  let ?s2 = "others 2 (?s1\<lparr>app_db := db\<rparr>)"
  let ?s3 = "others 3 (?s2\<lparr>app_files := cleanup_paths paths (app_files ?s2)\<rparr>)"
  let ?ids = "expired_archives (app_db ?s3) (cf_retention_days cf) (clock 3)"
  have round: "cleanup_round cf scfg others clock st = purge_each cf others clock 4 ?ids ?s3"
    by (simp add: cleanup_round_def sql_cleanup_def Let_def up del: One_nat_def)
  have keep: "db_inv (app_db s) \<Longrightarrow> db_inv (app_db (others k s))" for k s using assms(2) by blast
  have "db_inv (app_db ?s1)" using assms(1) keep by simp
  then have "db_inv db" using cleanup_expired_uploads_inv [of "app_db ?s1" "clock 1"] up by simp
  then have inv3: "db_inv (app_db ?s3)" using keep by simp
  have "snd (cleanup_round cf scfg others clock st) = None" if rely: "leaves_retired cf others clock"
    unfolding round
  proof (rule purge_each_undisturbed_due [OF rely _ keep inv3])
    show "distinct ?ids"
      unfolding expired_archives_def using wf_idsD(1) [OF db_invD(1) [OF inv3]] by (rule distinct_map_filter)
    have "due cf (clock 3) ?s3 pid" if "pid \<in> set ?ids" for pid
      using that by (auto simp: expired_archives_def due_def retired_def split: option.splits)
    moreover have "clock 3 \<le> clock 4" using assms(3) [rule_format, of 3] by simp
    ultimately show "\<forall>pid\<in>set ?ids. due cf (clock 4) ?s3 pid" using due_mono by blast
  qed (use assms(3) in blast)
  moreover have "case cleanup_round cf scfg others clock st of
        (st', None) \<Rightarrow> db_inv (app_db st')
      | (st', Some e) \<Rightarrow> db_inv (app_db st') \<and> (\<exists>pid i.
          \<not> (\<exists>p\<in>set (projects (app_db st')). p_id p = pid \<and> retired cf (clock i) p) \<and>
          e = (if pid \<in> p_id ` set (projects (app_db st'))
               then ProjectConflicting ''The archived project is still retained'' else ProjectMissing pid))"
  proof -
    obtain st' r where r: "purge_each cf others clock 4 ?ids ?s3 = (st', r)" by fastforce
    have "case (st', r) of
        (st', None) \<Rightarrow> db_inv (app_db st')
      | (st', Some e) \<Rightarrow> db_inv (app_db st') \<and> (\<exists>pid\<in>set ?ids. \<exists>i.
          \<not> (\<exists>p\<in>set (projects (app_db st')). p_id p = pid \<and> retired cf (clock i) p) \<and>
          e = (if pid \<in> p_id ` set (projects (app_db st'))
               then ProjectConflicting ''The archived project is still retained'' else ProjectMissing pid))"
      using purge_each_raises [where others = others and cf = cf and clock = clock and k = 4 and pids = ?ids,
          OF inv3 keep] unfolding r .
    then show ?thesis unfolding round r by (cases r) (simp_all only: prod.case option.case, blast+)
  qed
  ultimately show ?thesis using undisturbed_round [OF assms(1), of cf scfg now] by blast
qed

text \<open>The same task in a second process, which has purged the project in between.\<close>

definition second_process :: "nat \<Rightarrow> app_state \<Rightarrow> app_state" where
  "second_process k s =
     (if k = 4
      then (case purge_expired (app_db s) 0 ''system-retention'' (cf_retention_days sample_config) 9000000000000 of
              Inl e \<Rightarrow> s | Inr (db, _) \<Rightarrow> s\<lparr>app_db := db\<rparr>)
      else s)"

lemma second_process_inv: "db_inv (app_db s) \<Longrightarrow> db_inv (app_db (second_process k s))"
  by (auto simp: second_process_def split: sum.splits intro: purge_expired_inv)

lemma retention_round_complete_witness:
  "(\<exists>st'. cleanup_round sample_config \<lparr>cfg_retention_days = 30, cfg_max_turns = 10, cfg_lease_seconds = 60\<rparr>
      undisturbed (\<lambda>_. 9000000000000) (sample_state archived_db) = (st', None) \<and> projects (app_db st') = []) \<and>
   snd (cleanup_round sample_config \<lparr>cfg_retention_days = 30, cfg_max_turns = 10, cfg_lease_seconds = 60\<rparr>
      second_process (\<lambda>_. 9000000000000) (sample_state archived_db)) = Some (ProjectMissing 0) \<and>
   \<not> leaves_retired sample_config second_process (\<lambda>_. 9000000000000)"
proof -
  let ?cfg = "\<lparr>cfg_retention_days = 30, cfg_max_turns = 10, cfg_lease_seconds = 60\<rparr>"
  have "db_inv archived_db" using reachableD(1) [OF archived_reachable] by simp
  then have "db_inv (app_db (sample_state archived_db))" by simp
  note all = retention_round_complete [OF this, of second_process "\<lambda>_. 9000000000000" sample_config ?cfg 9000000000000]
  have "list_all (\<lambda>p. retired sample_config 9000000000000 p) (projects archived_db)" by code_simp
  then have "filter (\<lambda>p. \<not> retired sample_config 9000000000000 p) (projects archived_db) = []"
    by (auto simp: list_all_iff filter_empty_conv)
  moreover have "snd (cleanup_round sample_config ?cfg second_process (\<lambda>_. 9000000000000) (sample_state archived_db)) =
      Some (ProjectMissing 0)" by code_simp
  ultimately show ?thesis using all second_process_inv by auto
qed

end
