(* ===== verification/Readiness.thy ===== *)
theory Readiness
  imports Base
begin

text \<open>
  The readiness probe (\<open>readiness\<close> of \<open>app/api/router.py\<close>) and the composition of the analysis client
  (\<open>build_analysis_client\<close> of \<open>app/api/dependencies.py\<close>). What the adapters answer to a probe is part of
  the state the route looks at.
\<close>

section \<open>What the probe looks at\<close>

datatype plsql_adapter = PlsqlDisabled | PlsqlSynthetic | PlsqlNeo4j

record probe_settings =
  ps_runtime_mode :: string
  ps_auth_enabled :: bool
  ps_graphify_adapter :: string
  ps_llm_adapter :: string
  ps_llm_model :: string
  ps_plsql_adapter :: plsql_adapter
  ps_neo4j_uri :: string

text \<open>A client for the graph database knows whether it reaches it.\<close>

datatype probed_client = SyntheticClient | Neo4jClient bool

text \<open>What \<open>check_compatibility\<close> of a Graphify client does.\<close>

datatype compatibility = Compatible | ConfigurationProblem | OtherProblem string

record app_probe =
  ap_initialized :: bool
  ap_store_initialized :: bool
  ap_settings :: "probe_settings option"
  ap_graph_status :: "string option"
  ap_analysis :: "probed_client option"
  ap_graphify :: compatibility

section \<open>Composition of the analysis client\<close>

text \<open>\<open>None\<close> is no client; \<open>usable\<close> says whether the constructor accepts the configuration.\<close>

definition build_analysis_client :: "probe_settings \<Rightarrow> bool \<Rightarrow> bool \<Rightarrow> probed_client option" where
  "build_analysis_client s usable reachable =
     (case ps_plsql_adapter s of
        PlsqlSynthetic \<Rightarrow> Some SyntheticClient
      | PlsqlNeo4j \<Rightarrow>
          if ps_neo4j_uri s = [] then None else if usable then Some (Neo4jClient reachable) else None
      | PlsqlDisabled \<Rightarrow> None)"

section \<open>The probe\<close>

definition analysis_readiness :: "probe_settings option \<Rightarrow> probed_client option \<Rightarrow> string" where
  "analysis_readiness s client =
     (let adapter = (case s of Some s' \<Rightarrow> ps_plsql_adapter s' | None \<Rightarrow> PlsqlDisabled) in
      case client of
        None \<Rightarrow> if adapter = PlsqlNeo4j then ''unavailable'' else ''disabled''
      | Some SyntheticClient \<Rightarrow> ''synthetic''
      | Some (Neo4jClient reachable) \<Rightarrow> if reachable then ''connected'' else ''unavailable'')"

definition graphify_readiness :: "app_probe \<Rightarrow> bool \<Rightarrow> string" where
  "graphify_readiness p graph_ready =
     (case ap_settings p of
        None \<Rightarrow> ''waiting''
      | Some s \<Rightarrow>
          if \<not> ap_initialized p then ''waiting''
          else if ps_graphify_adapter s = ''mock'' then ''mock''
          else if ps_runtime_mode s = ''real'' \<and> \<not> graph_ready then ''waiting''
          else case ap_graphify p of
                 Compatible \<Rightarrow> ''available''
               | ConfigurationProblem \<Rightarrow> ''incompatible''
               | OtherProblem _ \<Rightarrow> ''unavailable'')"

record readiness_view =
  rv_ready :: bool
  rv_status_code :: nat
  rv_components :: "(string \<times> string) list"

definition readiness :: "app_probe \<Rightarrow> readiness_view" where
  "readiness p =
     (let graph = (case ap_graph_status p of None \<Rightarrow> ''unavailable'' | Some g \<Rightarrow> g);
          deterministic = (case ap_settings p of None \<Rightarrow> False | Some s \<Rightarrow> ps_runtime_mode s = ''synthetic'');
          multi_project = (case ap_settings p of None \<Rightarrow> False | Some s \<Rightarrow> ps_auth_enabled s);
          graph_ready = (graph = ''ready'' \<or> deterministic \<or> multi_project);
          graphify = graphify_readiness p graph_ready;
          analysis = analysis_readiness (ap_settings p) (ap_analysis p);
          ready = (ap_initialized p \<and> graph_ready \<and> graphify \<in> {''available'', ''mock''} \<and> analysis \<noteq> ''unavailable'');
          llm = (case ap_settings p of
                   None \<Rightarrow> ''unconfigured''
                 | Some s \<Rightarrow> if ps_llm_adapter s = ''mock'' then ''mock''
                            else if ps_llm_model s \<noteq> [] then ''configured'' else ''unconfigured'')
      in \<lparr>rv_ready = ready, rv_status_code = (if ready then 200 else 503),
          rv_components =
            [(''api'', if ap_initialized p then ''running'' else ''starting''),
             (''conversationStore'', if ap_store_initialized p then ''available'' else ''unavailable''),
             (''knowledgeGraph'', if deterministic then ''synthetic'' else if multi_project then ''project-registry'' else graph),
             (''graphifyMcp'', graphify), (''analysis'', analysis), (''llm'', llm)]\<rparr>)"

section \<open>Lemmas\<close>

text \<open>An adapter that is configured and cannot be used keeps the service from reporting ready.\<close>

lemma readiness_503: "rv_status_code (readiness p) = 503 \<longleftrightarrow> \<not> rv_ready (readiness p)"
proof -
  have "rv_status_code (readiness p) = (if rv_ready (readiness p) then 200 else 503)"
    by (simp only: readiness_def Let_def readiness_view.simps)
  then show ?thesis by simp
qed

lemma unusable_analysis_not_ready:
  assumes "ap_settings p = Some s" "ps_plsql_adapter s = PlsqlNeo4j"
    and "ap_analysis p = build_analysis_client s usable reachable"
    and "\<not> (ps_neo4j_uri s \<noteq> [] \<and> usable \<and> reachable)"
  shows "\<not> rv_ready (readiness p) \<and> map_of (rv_components (readiness p)) ''analysis'' = Some ''unavailable''"
  using assms by (auto simp: readiness_def Let_def analysis_readiness_def build_analysis_client_def)

text \<open>A service without the adapter is not held back by it.\<close>

lemma analysis_never_blocks_when_disabled:
  assumes "ap_settings p = Some s" "ps_plsql_adapter s \<noteq> PlsqlNeo4j"
    and "ap_analysis p = build_analysis_client s usable reachable"
  shows "map_of (rv_components (readiness p)) ''analysis'' \<noteq> Some ''unavailable''"
  using assms by (cases "ps_plsql_adapter s") (auto simp: readiness_def Let_def analysis_readiness_def build_analysis_client_def)

end
