(* ===== verification/Conversation_Requests.thy ===== *)
theory Conversation_Requests
  imports Conversation_Protocol
begin

text \<open>
  The message request (\<open>send_message\<close> of \<open>app/api/router.py\<close>) as a client of a conversation store,
  and the contract it relies on: the locale \<open>conversation_store\<close> says what acquiring and releasing
  the lease, reading the history and appending messages promise, and the lemmas in it say what a
  request leaves behind and that a lease excludes other requests.
\<close>

section \<open>The request\<close>

datatype event_type =
  MessageStarted | ToolStarted | ToolCompleted | AnswerDelta | CitationAvailable
| MessageCompleted | MessageFailed

text \<open>The fields the request reads: the text and the JSON of the result, the message of the error.\<close>

record lifecycle_event =
  le_type :: event_type
  le_result :: "(ustring \<times> string) option"
  le_error :: "ustring option"

record conversation_turn =
  turn_id :: ident
  turn_role :: message_role
  turn_content :: ustring

datatype request_error = StoreError store_error | InvalidTurn

text \<open>\<open>ConversationTurn\<close> strips its content and wants 1 to 100000 characters.\<close>

fun history_turns :: "message list \<Rightarrow> request_error + conversation_turn list" where
  "history_turns [] = Inr []"
| "history_turns (m # ms) =
     (let content = strip_text (msg_content m) in
      if length content < 1 \<or> 100000 < length content then Inl InvalidTurn
      else case history_turns ms of
             Inl e \<Rightarrow> Inl e
           | Inr ts \<Rightarrow> Inr (\<lparr>turn_id = msg_id m, turn_role = msg_role m, turn_content = content\<rparr> # ts))"

definition release_after ::
  "'s store_ops \<Rightarrow> ident \<Rightarrow> string \<Rightarrow> string \<Rightarrow> 's \<Rightarrow> request_error \<Rightarrow> 's \<times> (request_error + 'a)"
where
  "release_after ops i request_id owner s e =
     (case st_release ops i request_id owner s of
        Inl e' \<Rightarrow> (s, Inl (StoreError e')) | Inr (s', _) \<Rightarrow> (s', Inl e))"

text \<open>From \<open>acquire_request\<close> to the end of the \<open>try\<close> block: the turns for the workflow.\<close>

definition open_request ::
  "'s store_ops \<Rightarrow> nat \<Rightarrow> nat \<Rightarrow> ident \<Rightarrow> string \<Rightarrow> string \<Rightarrow> ustring \<Rightarrow> time \<Rightarrow> 's \<Rightarrow>
     's \<times> (request_error + conversation_turn list)"
where
  "open_request ops max_turns max_chars i request_id owner msg now s =
     (case st_acquire ops i request_id owner now s of
        Inl e \<Rightarrow> (s, Inl (StoreError e))
      | Inr (s1, _) \<Rightarrow>
          (case st_get_history ops i max_turns max_chars owner s1 of
             Inl e \<Rightarrow> release_after ops i request_id owner s1 (StoreError e)
           | Inr (s2, history) \<Rightarrow>
               (case history_turns history of
                  Inl e \<Rightarrow> release_after ops i request_id owner s2 e
                | Inr turns \<Rightarrow>
                    (case st_add_user ops i (strip_text msg) owner now s2 of
                       Inl e \<Rightarrow> release_after ops i request_id owner s2 (StoreError e)
                     | Inr (s3, _) \<Rightarrow> (s3, Inr turns)))))"

definition failed_message :: ustring where
  "failed_message = ascii ''The request could not be completed.''"

definition persist_terminal ::
  "'s store_ops \<Rightarrow> ident \<Rightarrow> lifecycle_event \<Rightarrow> string \<Rightarrow> time \<Rightarrow> 's \<Rightarrow> (store_error, 's, unit) outcome"
where
  "persist_terminal ops i ev owner now s =
     (if le_type ev = MessageCompleted \<and> le_result ev \<noteq> None
      then map_reply (\<lambda>_. ()) (st_add_assistant ops i (fst (the (le_result ev))) MCompleted
             (Some (snd (the (le_result ev)))) owner now s)
      else if le_type ev = MessageFailed
      then map_reply (\<lambda>_. ()) (st_add_assistant ops i
             (case le_error ev of Some m \<Rightarrow> m | None \<Rightarrow> failed_message) MFailed None owner now s)
      else Inr (s, ()))"

definition terminal_type :: "event_type \<Rightarrow> bool" where
  "terminal_type t \<longleftrightarrow> t = MessageCompleted \<or> t = MessageFailed"

text \<open>
  The loop of \<open>events()\<close> over the events of the workflow, each with the answer of
  \<open>is_disconnected\<close> and the time. A client that goes away at a \<open>yield\<close> ends the list there. The
  second component is the flag \<open>terminal\<close>, the last one an exception of the store.
\<close>

fun stream_events ::
  "'s store_ops \<Rightarrow> ident \<Rightarrow> string \<Rightarrow> (lifecycle_event \<times> bool \<times> time) list \<Rightarrow> bool \<Rightarrow> 's \<Rightarrow>
     's \<times> bool \<times> store_error option"
where
  "stream_events ops i owner [] terminal s = (s, terminal, None)"
| "stream_events ops i owner ((ev, gone, now) # es) terminal s =
     (if gone then (s, terminal, None)
      else case persist_terminal ops i ev owner now s of
             Inl e \<Rightarrow> (s, terminal, Some e)
           | Inr (s', _) \<Rightarrow> stream_events ops i owner es (terminal_type (le_type ev)) s')"

definition interrupted_message :: ustring where
  "interrupted_message = ascii ''The response stream was interrupted.''"

text \<open>The \<open>finally\<close> block.\<close>

definition finish_request ::
  "'s store_ops \<Rightarrow> ident \<Rightarrow> string \<Rightarrow> string \<Rightarrow> bool \<Rightarrow> time \<Rightarrow> 's \<Rightarrow> 's \<times> store_error option"
where
  "finish_request ops i request_id owner terminal now s =
     (case (if terminal then Inr (s, ())
            else map_reply (\<lambda>_. ()) (st_add_assistant ops i interrupted_message MFailed None owner now s)) of
        Inl e \<Rightarrow> (s, Some e)
      | Inr (s1, _) \<Rightarrow>
          (case st_release ops i request_id owner s1 of
             Inl e \<Rightarrow> (s1, Some e) | Inr (s2, _) \<Rightarrow> (s2, None)))"

definition answer_request ::
  "'s store_ops \<Rightarrow> ident \<Rightarrow> string \<Rightarrow> string \<Rightarrow> (lifecycle_event \<times> bool \<times> time) list \<Rightarrow> time \<Rightarrow> 's \<Rightarrow> 's"
where
  "answer_request ops i request_id owner es now s =
     (case stream_events ops i owner es False s of
        (s1, terminal, _) \<Rightarrow> fst (finish_request ops i request_id owner terminal now s1))"

text \<open>The workflow gives every \<open>message.completed\<close> its result.\<close>

definition results_present :: "(lifecycle_event \<times> bool \<times> time) list \<Rightarrow> bool" where
  "results_present es \<longleftrightarrow> (\<forall>(ev, _)\<in>set es. le_type ev = MessageCompleted \<longrightarrow> le_result ev \<noteq> None)"

text \<open>Messages appended one by one, with the pruning after each.\<close>

definition append_answers :: "nat \<Rightarrow> message list \<Rightarrow> message list \<Rightarrow> message list" where
  "append_answers n xs ms = foldl (\<lambda>xs m. prune_messages n (xs @ [m])) xs ms"

lemma append_answers_simps [simp]:
  "append_answers n xs [] = xs"
  "append_answers n xs (m # ms) = append_answers n (prune_messages n (xs @ [m])) ms"
  "append_answers n xs (ms @ ms') = append_answers n (append_answers n xs ms) ms'"
  by (simp_all add: append_answers_def)

section \<open>The contract of a store\<close>

text \<open>A call in the name of the request itself, which may release or renew its lease.\<close>

definition own_lease_call :: "ident \<Rightarrow> string \<Rightarrow> store_call \<Rightarrow> bool" where
  "own_lease_call i q c \<longleftrightarrow> (\<exists>o'. c = CallRelease i q o' \<or> c = CallAcquire i q o')"

locale conversation_store =
  fixes ops :: "'s store_ops"
    and valid :: "'s \<Rightarrow> bool"
    and view :: "'s \<Rightarrow> ident \<Rightarrow> (string \<times> conversation) option"
    and holder :: "'s \<Rightarrow> ident \<Rightarrow> (string \<times> time) option"
    and taken :: "'s \<Rightarrow> ident \<Rightarrow> bool"
    and lease_time :: time
    and max_turns :: nat
  assumes acquire_free:
    "valid s \<Longrightarrow> view s i = Some (owner, c) \<Longrightarrow> c_archived_at c = None \<Longrightarrow>
     (\<And>q' e. holder s i = Some (q', e) \<Longrightarrow> q' = q \<or> e \<le> now) \<Longrightarrow>
     \<exists>s'. st_acquire ops i q owner now s = Inr (s', ()) \<and> valid s' \<and> view s' = view s \<and>
       holder s' = (holder s)(i \<mapsto> (q, now + lease_time))"
  and acquire_busy:
    "valid s \<Longrightarrow> view s i = Some (owner, c) \<Longrightarrow> c_archived_at c = None \<Longrightarrow>
     holder s i = Some (q', e) \<Longrightarrow> q' \<noteq> q \<Longrightarrow> now < e \<Longrightarrow>
     st_acquire ops i q owner' now s =
       Inl (if owner' = owner then ConversationRequestConflict i q' else ConversationNotFound i)"
  and release_held:
    "valid s \<Longrightarrow> view s i = Some (owner, c) \<Longrightarrow>
     \<exists>s'. st_release ops i q owner s = Inr (s', ()) \<and> valid s' \<and> view s' = view s \<and>
       holder s' = (if \<exists>e. holder s i = Some (q, e) then (holder s)(i := None) else holder s)"
  and history:
    "valid s \<Longrightarrow> view s i = Some (owner, c) \<Longrightarrow> c_archived_at c = None \<Longrightarrow>
     st_get_history ops i n k owner s = Inr (s, history_of n k (c_messages c))"
  and add_user:
    "valid s \<Longrightarrow> view s i = Some (owner, c) \<Longrightarrow> c_archived_at c = None \<Longrightarrow>
     \<exists>s' m c'. st_add_user ops i content owner now s = Inr (s', m) \<and> valid s' \<and> holder s' = holder s \<and>
       view s' = (view s)(i \<mapsto> (owner, c')) \<and> c_archived_at c' = None \<and> c_project_id c' = c_project_id c \<and>
       c_messages c' = c_messages c @ [m] \<and>
       msg_role m = RoleUser \<and> msg_content m = content \<and> msg_status m = MCompleted"
  and add_assistant:
    "valid s \<Longrightarrow> view s i = Some (owner, c) \<Longrightarrow> c_archived_at c = None \<Longrightarrow>
     \<exists>s' m c'. st_add_assistant ops i content status result owner now s = Inr (s', m) \<and> valid s' \<and>
       holder s' = holder s \<and> view s' = (view s)(i \<mapsto> (owner, c')) \<and> c_archived_at c' = None \<and>
       c_project_id c' = c_project_id c \<and>
       c_messages c' = prune_messages max_turns (c_messages c @ [m]) \<and>
       msg_role m = RoleAssistant \<and> msg_content m = content \<and> msg_status m = status \<and> msg_result m = result"
  and call_valid: "valid s \<Longrightarrow> run_call ops call now s = Inr (s', r) \<Longrightarrow> valid s'"
  and acquire_gone:
    "valid s \<Longrightarrow> view s i = None \<Longrightarrow> st_acquire ops i q owner now s = Inl (ConversationNotFound i)"
  and view_taken: "valid s \<Longrightarrow> view s i \<noteq> None \<Longrightarrow> taken s i"
  and gone_stays:
    "valid s \<Longrightarrow> view s i = None \<Longrightarrow> taken s i \<Longrightarrow> run_call ops call now s = Inr (s', r) \<Longrightarrow>
     view s' i = None \<and> taken s' i"
  and call_taken: "valid s \<Longrightarrow> taken s i \<Longrightarrow> run_call ops call now s = Inr (s', r) \<Longrightarrow> taken s' i"
  and lease_kept:
    "valid s \<Longrightarrow> view s i = Some (owner, c) \<Longrightarrow> c_archived_at c = None \<Longrightarrow> holder s i = Some (q, e) \<Longrightarrow>
     now < e \<Longrightarrow> \<not> own_lease_call i q call \<Longrightarrow> run_call ops call now s = Inr (s', r) \<Longrightarrow>
     holder s' i = Some (q, e) \<and>
       (\<exists>c'. view s' i = Some (owner, c') \<and> c_archived_at c' = None \<and> c_project_id c' = c_project_id c) \<or>
     view s' i = None \<and> call = CallDeleteProject (c_project_id c)"
begin

text \<open>One call and the state after it, whether it fails or commits.\<close>

lemma call_step:
  assumes "valid s"
  shows "valid (state_after s (run_call ops call now s))"
    "taken s i \<Longrightarrow> taken (state_after s (run_call ops call now s)) i"
  using assms call_valid [OF assms] call_taken [OF assms]
  by (cases "run_call ops call now s"; force)+

lemma gone_step:
  assumes "valid s" "view s i = None" "taken s i"
  shows "view (state_after s (run_call ops call now s)) i = None"
  using assms(2) gone_stays [OF assms] by (cases "run_call ops call now s"; force)

lemma lease_step:
  assumes "valid s" "view s i = Some (owner, c)" "c_archived_at c = None" "holder s i = Some (q, e)"
    and "now < e" "\<not> own_lease_call i q call"
  shows "holder (state_after s (run_call ops call now s)) i = Some (q, e) \<and>
      (\<exists>c'. view (state_after s (run_call ops call now s)) i = Some (owner, c') \<and>
         c_archived_at c' = None \<and> c_project_id c' = c_project_id c) \<or>
    view (state_after s (run_call ops call now s)) i = None \<and> call = CallDeleteProject (c_project_id c)"
proof (cases "run_call ops call now s")
  case (Inr x)
  then show ?thesis using lease_kept [OF assms, of "fst x" "snd x"] by (cases x) simp
qed (use assms(2-4) in simp)

text \<open>A conversation that was removed stays away, and nobody acquires it.\<close>

lemma gone_excludes:
  assumes "valid s" "view s i = None" "taken s i"
  shows "view (snd (run_calls ops calls s)) i = None \<and>
    (\<forall>(call, answer)\<in>set (zip (map fst calls) (fst (run_calls ops calls s))).
       \<forall>q owner. call = CallAcquire i q owner \<longrightarrow> answer = Inl (ConversationNotFound i))"
  using assms
proof (induction calls arbitrary: s)
  case (Cons p calls)
  obtain call now where p: "p = (call, now)" by force
  have "map_sum id snd (run_call ops call now s) = Inl (ConversationNotFound i)"
    if "call = CallAcquire i q owner" for q owner
    using acquire_gone [OF Cons.prems(1,2)] that by simp
  then show ?case
    using Cons.IH [OF call_step(1) gone_step call_step(2), OF Cons.prems(1) Cons.prems Cons.prems(1,3), of call now]
    by (auto simp: p Let_def case_prod_beta')
qed simp

text \<open>
  While the lease of a request runs, no other request gets it, and the conversation goes only with
  its project.
\<close>

lemma lease_excludes:
  assumes "valid s" "view s i = Some (owner, c)" "c_archived_at c = None" "holder s i = Some (q, e)"
    and "\<And>call now. (call, now) \<in> set calls \<Longrightarrow> now < e \<and> \<not> own_lease_call i q call"
  shows "(holder (snd (run_calls ops calls s)) i = Some (q, e) \<and>
        (\<exists>c'. view (snd (run_calls ops calls s)) i = Some (owner, c') \<and> c_archived_at c' = None) \<or>
      view (snd (run_calls ops calls s)) i = None \<and>
        CallDeleteProject (c_project_id c) \<in> fst ` set calls) \<and>
    (\<forall>(call, answer)\<in>set (zip (map fst calls) (fst (run_calls ops calls s))).
       \<forall>q' owner'. call = CallAcquire i q' owner' \<longrightarrow>
         answer = Inl (ConversationRequestConflict i q) \<and> owner' = owner \<or>
         answer = Inl (ConversationNotFound i) \<and>
           (owner' = owner \<longrightarrow> CallDeleteProject (c_project_id c) \<in> fst ` set calls))"
  using assms
proof (induction calls arbitrary: s c)
  case (Cons p calls)
  obtain call now where p: "p = (call, now)" by force
  have now: "now < e" "\<not> own_lease_call i q call" using Cons.prems(5) [of call now] p by auto
  let ?r = "run_call ops call now s"
  let ?s = "state_after s ?r"
  have busy: "map_sum id snd ?r =
      Inl (if owner' = owner then ConversationRequestConflict i q else ConversationNotFound i)"
    if "call = CallAcquire i q' owner'" for q' owner'
  proof -
    have "q \<noteq> q'" using now(2) that by (auto simp: own_lease_call_def)
    then show ?thesis using acquire_busy [OF Cons.prems(1-4) _ now(1)] that by simp
  qed
  from lease_step [OF Cons.prems(1-4) now] consider
    (kept) c' where "holder ?s i = Some (q, e)" "view ?s i = Some (owner, c')"
      "c_archived_at c' = None" "c_project_id c' = c_project_id c"
    | (gone) "view ?s i = None" "call = CallDeleteProject (c_project_id c)" by metis
  then show ?case
  proof cases
    case kept
    have rest: "now < e \<and> \<not> own_lease_call i q call" if "(call, now) \<in> set calls" for call now
      using Cons.prems(5) [of call now] that by simp
    show ?thesis
      using Cons.IH [OF call_step(1) [OF Cons.prems(1)] kept(2,3,1) rest] busy
      by (auto simp: p Let_def case_prod_beta' kept(4))
  next
    case gone
    have "taken ?s i" using call_step(2) [OF Cons.prems(1)] view_taken [OF Cons.prems(1)] Cons.prems(2) by simp
    then show ?thesis
      using gone_excludes [OF call_step(1) [OF Cons.prems(1)] gone(1), where calls = calls] gone(2)
      by (auto simp: p Let_def case_prod_beta')
  qed
qed simp

text \<open>What is recorded by the loop: one assistant message for each terminal event with content.\<close>

lemma persist_ok:
  assumes "valid s" "view s i = Some (owner, c)" "c_archived_at c = None"
  shows "\<exists>s' c' ms. persist_terminal ops i ev owner now s = Inr (s', ()) \<and> valid s' \<and> holder s' = holder s \<and>
    view s' = (view s)(i \<mapsto> (owner, c')) \<and> c_archived_at c' = None \<and>
    c_messages c' = append_answers max_turns (c_messages c) ms \<and>
    (\<forall>m\<in>set ms. msg_role m = RoleAssistant) \<and>
    length ms = (if le_type ev = MessageCompleted \<and> le_result ev \<noteq> None \<or> le_type ev = MessageFailed then 1 else 0)"
proof -
  consider (completed) "le_type ev = MessageCompleted" "le_result ev \<noteq> None"
    | (failed) "le_type ev = MessageFailed"
    | (none) "\<not> (le_type ev = MessageCompleted \<and> le_result ev \<noteq> None)" "le_type ev \<noteq> MessageFailed" by blast
  then show ?thesis
  proof cases
    case completed
    from add_assistant [OF assms, of "fst (the (le_result ev))" MCompleted "Some (snd (the (le_result ev)))" now]
    obtain s' m c' where "st_add_assistant ops i (fst (the (le_result ev))) MCompleted
        (Some (snd (the (le_result ev)))) owner now s = Inr (s', m)" "valid s'" "holder s' = holder s"
      "view s' = (view s)(i \<mapsto> (owner, c'))" "c_archived_at c' = None" "msg_role m = RoleAssistant"
      "c_messages c' = prune_messages max_turns (c_messages c @ [m])" by blast
    then show ?thesis using completed
      by (intro exI [of _ s'] exI [of _ c'] exI [of _ "[m]"]) (simp add: persist_terminal_def)
  next
    case failed
    from add_assistant [OF assms, of "case le_error ev of Some m \<Rightarrow> m | None \<Rightarrow> failed_message" MFailed None now]
    obtain s' m c' where "st_add_assistant ops i (case le_error ev of Some m \<Rightarrow> m | None \<Rightarrow> failed_message) MFailed
        None owner now s = Inr (s', m)" "valid s'" "holder s' = holder s"
      "view s' = (view s)(i \<mapsto> (owner, c'))" "c_archived_at c' = None" "msg_role m = RoleAssistant"
      "c_messages c' = prune_messages max_turns (c_messages c @ [m])" by blast
    then show ?thesis using failed
      by (intro exI [of _ s'] exI [of _ c'] exI [of _ "[m]"]) (simp add: persist_terminal_def)
  next
    case none
    then show ?thesis using assms
      by (intro exI [of _ s] exI [of _ c] exI [of _ "[]"])
        (auto simp: persist_terminal_def map_upd_triv)
  qed
qed

lemma stream_ok:
  assumes "valid s" "view s i = Some (owner, c)" "c_archived_at c = None"
  shows "\<exists>s' c' ms t. stream_events ops i owner es terminal s = (s', t, None) \<and> valid s' \<and> holder s' = holder s \<and>
    view s' = (view s)(i \<mapsto> (owner, c')) \<and> c_archived_at c' = None \<and>
    c_messages c' = append_answers max_turns (c_messages c) ms \<and>
    (\<forall>m\<in>set ms. msg_role m = RoleAssistant) \<and>
    (t \<and> results_present es \<longrightarrow> terminal \<or> ms \<noteq> [])"
  using assms
proof (induction es arbitrary: s c terminal)
  case Nil
  then show ?case by (intro exI [of _ s] exI [of _ c] exI [of _ "[]"] exI [of _ terminal]) (auto simp: map_upd_triv)
next
  case (Cons p es)
  obtain ev gone now where p: "p = (ev, gone, now)" by (cases p) auto
  show ?case
  proof (cases gone)
    case True
    then show ?thesis using Cons.prems
      by (intro exI [of _ s] exI [of _ c] exI [of _ "[]"] exI [of _ terminal]) (auto simp: p map_upd_triv)
  next
    case False
    from persist_ok [OF Cons.prems, of ev now] obtain s1 c1 ms1 where
      one: "persist_terminal ops i ev owner now s = Inr (s1, ())" "valid s1" "holder s1 = holder s"
        "view s1 = (view s)(i \<mapsto> (owner, c1))" "c_archived_at c1 = None"
        "c_messages c1 = append_answers max_turns (c_messages c) ms1"
        "\<forall>m\<in>set ms1. msg_role m = RoleAssistant"
        "length ms1 = (if le_type ev = MessageCompleted \<and> le_result ev \<noteq> None \<or> le_type ev = MessageFailed then 1 else 0)"
      by blast
    have v: "view s1 i = Some (owner, c1)" by (simp add: one(4))
    from Cons.IH [OF one(2) v one(5), of "terminal_type (le_type ev)"] obtain s2 c2 ms2 t where
      two: "stream_events ops i owner es (terminal_type (le_type ev)) s1 = (s2, t, None)" "valid s2"
        "holder s2 = holder s1" "view s2 = (view s1)(i \<mapsto> (owner, c2))" "c_archived_at c2 = None"
        "c_messages c2 = append_answers max_turns (c_messages c1) ms2"
        "\<forall>m\<in>set ms2. msg_role m = RoleAssistant"
        "t \<and> results_present es \<longrightarrow> terminal_type (le_type ev) \<or> ms2 \<noteq> []"
      by blast
    have "t \<and> results_present (p # es) \<longrightarrow> ms1 @ ms2 \<noteq> []"
      using two(8) one(8) by (auto simp: p terminal_type_def results_present_def split: if_splits)
    then show ?thesis using False one two
      by (intro exI [of _ s2] exI [of _ c2] exI [of _ "ms1 @ ms2"] exI [of _ t]) (auto simp: p)
  qed
qed

text \<open>The \<open>finally\<close> block always frees the lease, and adds a message when the stream broke off.\<close>

lemma finish_ok:
  assumes "valid s" "view s i = Some (owner, c)" "c_archived_at c = None" "holder s i = Some (q, e)"
  shows "\<exists>s' c' ms. finish_request ops i q owner terminal now s = (s', None) \<and> valid s' \<and>
    holder s' = (holder s)(i := None) \<and> view s' = (view s)(i \<mapsto> (owner, c')) \<and> c_archived_at c' = None \<and>
    c_messages c' = append_answers max_turns (c_messages c) ms \<and>
    (\<forall>m\<in>set ms. msg_role m = RoleAssistant) \<and> (ms = [] \<longleftrightarrow> terminal)"
proof -
  have "\<exists>s1 c1 ms. (if terminal then Inr (s, ())
      else map_reply (\<lambda>_. ()) (st_add_assistant ops i interrupted_message MFailed None owner now s)) = Inr (s1, ()) \<and>
    valid s1 \<and> holder s1 = holder s \<and> view s1 = (view s)(i \<mapsto> (owner, c1)) \<and> c_archived_at c1 = None \<and>
    c_messages c1 = append_answers max_turns (c_messages c) ms \<and>
    (\<forall>m\<in>set ms. msg_role m = RoleAssistant) \<and> (ms = [] \<longleftrightarrow> terminal)"
  proof (cases terminal)
    case True
    then show ?thesis using assms
      by (intro exI [of _ s] exI [of _ c] exI [of _ "[]"]) (simp add: map_upd_triv)
  next
    case False
    from add_assistant [OF assms(1-3), of interrupted_message MFailed None now] obtain s' m c' where
      "st_add_assistant ops i interrupted_message MFailed None owner now s = Inr (s', m)" "valid s'"
      "holder s' = holder s" "view s' = (view s)(i \<mapsto> (owner, c'))" "c_archived_at c' = None"
      "c_messages c' = prune_messages max_turns (c_messages c @ [m])" "msg_role m = RoleAssistant" by blast
    then show ?thesis using False
      by (intro exI [of _ s'] exI [of _ c'] exI [of _ "[m]"]) simp
  qed
  then obtain s1 c1 ms where one: "(if terminal then Inr (s, ())
      else map_reply (\<lambda>_. ()) (st_add_assistant ops i interrupted_message MFailed None owner now s)) = Inr (s1, ())"
    "valid s1" "holder s1 = holder s" "view s1 = (view s)(i \<mapsto> (owner, c1))" "c_archived_at c1 = None"
    "c_messages c1 = append_answers max_turns (c_messages c) ms"
    "\<forall>m\<in>set ms. msg_role m = RoleAssistant" "ms = [] \<longleftrightarrow> terminal" by blast
  have "view s1 i = Some (owner, c1)" by (simp add: one(4))
  from release_held [OF one(2) this, of q] obtain s2 where "st_release ops i q owner s1 = Inr (s2, ())"
    "valid s2" "view s2 = view s1" "holder s2 = (holder s1)(i := None)"
    using one(3) assms(4) by auto
  then show ?thesis using one
    by (intro exI [of _ s2] exI [of _ c1] exI [of _ ms]) (simp add: finish_request_def)
qed

text \<open>A request that opens, streams and ends.\<close>

lemma open_ok:
  assumes "valid s" "view s i = Some (owner, c)" "c_archived_at c = None"
    "\<And>q' e. holder s i = Some (q', e) \<Longrightarrow> q' = q \<or> e \<le> now"
  shows "case history_turns (history_of n k (c_messages c)) of
      Inl e \<Rightarrow> \<exists>s'. open_request ops n k i q owner msg now s = (s', Inl e) \<and> valid s' \<and>
        view s' = view s \<and> holder s' = (holder s)(i := None)
    | Inr turns \<Rightarrow> \<exists>s' c' u. open_request ops n k i q owner msg now s = (s', Inr turns) \<and> valid s' \<and>
        view s' = (view s)(i \<mapsto> (owner, c')) \<and> holder s' = (holder s)(i \<mapsto> (q, now + lease_time)) \<and>
        c_archived_at c' = None \<and> c_messages c' = c_messages c @ [u] \<and>
        msg_role u = RoleUser \<and> msg_content u = strip_text msg \<and> msg_status u = MCompleted"
proof -
  from acquire_free [OF assms(1-3), of q now] assms(4) obtain s1 where
    one: "st_acquire ops i q owner now s = Inr (s1, ())" "valid s1" "view s1 = view s"
      "holder s1 = (holder s)(i \<mapsto> (q, now + lease_time))" by blast
  have v: "view s1 i = Some (owner, c)" using one(3) assms(2) by simp
  have h: "st_get_history ops i n k owner s1 = Inr (s1, history_of n k (c_messages c))"
    by (rule history [OF one(2) v assms(3)])
  show ?thesis
  proof (cases "history_turns (history_of n k (c_messages c))")
    case (Inl e)
    from release_held [OF one(2) v, of q] one obtain s2 where "st_release ops i q owner s1 = Inr (s2, ())"
      "valid s2" "view s2 = view s" "holder s2 = (holder s)(i := None)" by auto
    then show ?thesis using one h Inl by (simp add: open_request_def release_after_def)
  next
    case (Inr turns)
    from add_user [OF one(2) v assms(3), of "strip_text msg" now] one obtain s2 m c' where
      "st_add_user ops i (strip_text msg) owner now s1 = Inr (s2, m)" "valid s2" "holder s2 = holder s1"
      "view s2 = (view s)(i \<mapsto> (owner, c'))" "c_archived_at c' = None" "c_messages c' = c_messages c @ [m]"
      "msg_role m = RoleUser" "msg_content m = strip_text msg" "msg_status m = MCompleted" by auto
    then show ?thesis using one h Inr by (simp add: open_request_def) blast
  qed
qed

lemma request_recorded:
  assumes "valid s" "view s i = Some (owner, c)" "c_archived_at c = None"
    "\<And>q' e. holder s i = Some (q', e) \<Longrightarrow> q' = q \<or> e \<le> now"
    and "open_request ops n k i q owner msg now s = (s1, Inr turns)" "results_present es"
  shows "valid (answer_request ops i q owner es now' s1) \<and>
    holder (answer_request ops i q owner es now' s1) = (holder s)(i := None) \<and>
    (\<exists>c' u ms. view (answer_request ops i q owner es now' s1) = (view s)(i \<mapsto> (owner, c')) \<and>
       c_archived_at c' = None \<and> c_messages c' = append_answers max_turns (c_messages c @ [u]) ms \<and>
       msg_role u = RoleUser \<and> msg_content u = strip_text msg \<and> msg_status u = MCompleted \<and>
       ms \<noteq> [] \<and> (\<forall>m\<in>set ms. msg_role m = RoleAssistant))"
proof -
  from open_ok [OF assms(1-4), of n k msg] assms(5) obtain c1 u where
    one: "valid s1" "view s1 = (view s)(i \<mapsto> (owner, c1))" "holder s1 = (holder s)(i \<mapsto> (q, now + lease_time))"
      "c_archived_at c1 = None" "c_messages c1 = c_messages c @ [u]" "msg_role u = RoleUser"
      "msg_content u = strip_text msg" "msg_status u = MCompleted"
    by (auto split: sum.splits)
  have v1: "view s1 i = Some (owner, c1)" by (simp add: one(2))
  from stream_ok [OF one(1) v1 one(4), of es False] obtain s2 c2 ms t where
    two: "stream_events ops i owner es False s1 = (s2, t, None)" "valid s2" "holder s2 = holder s1"
      "view s2 = (view s1)(i \<mapsto> (owner, c2))" "c_archived_at c2 = None"
      "c_messages c2 = append_answers max_turns (c_messages c1) ms" "\<forall>m\<in>set ms. msg_role m = RoleAssistant"
      "t \<and> results_present es \<longrightarrow> False \<or> ms \<noteq> []" by blast
  have v2: "view s2 i = Some (owner, c2)" by (simp add: two(4))
  have h2: "holder s2 i = Some (q, now + lease_time)" by (simp add: two(3) one(3))
  from finish_ok [OF two(2) v2 two(5) h2, of t now'] obtain s3 c3 ms' where
    three: "finish_request ops i q owner t now' s2 = (s3, None)" "valid s3" "holder s3 = (holder s2)(i := None)"
      "view s3 = (view s2)(i \<mapsto> (owner, c3))" "c_archived_at c3 = None"
      "c_messages c3 = append_answers max_turns (c_messages c2) ms'" "\<forall>m\<in>set ms'. msg_role m = RoleAssistant"
      "ms' = [] \<longleftrightarrow> t" by blast
  have run: "answer_request ops i q owner es now' s1 = s3"
    by (simp add: answer_request_def two(1) three(1))
  have "ms @ ms' \<noteq> []" using two(8) three(8) assms(6) by auto
  then show ?thesis unfolding run using one two three
    by (intro conjI exI [of _ c3] exI [of _ u] exI [of _ "ms @ ms'"]) auto
qed

end

end
