(* ===== verification/Conv_Memory.thy ===== *)
theory Conv_Memory
  imports Conversation_Requests
begin

text \<open>
  The process-local store (\<open>InMemoryConversationStore\<close> of \<open>app/store/conversations.py\<close>): four
  dictionaries, with the conversations in insertion order. The lock makes every operation atomic;
  \<open>add_assistant_message\<close> takes it twice.
\<close>

section \<open>State\<close>

record mem_store =
  ms_items :: "(ident \<times> conversation) list"
  ms_leases :: "ident \<rightharpoonup> string \<times> time"
  ms_versions :: "ident \<rightharpoonup> string option"
  ms_owners :: "ident \<rightharpoonup> string"
  ms_next :: ident

definition mem_init :: mem_store where
  "mem_init = \<lparr>ms_items = [], ms_leases = Map.empty, ms_versions = Map.empty, ms_owners = Map.empty, ms_next = 0\<rparr>"

text \<open>\<open>self._items.get(i)\<close>, mutation of the stored conversation, and removal from all dictionaries.\<close>

definition item_of :: "mem_store \<Rightarrow> ident \<Rightarrow> conversation option" where
  "item_of s i = map_of (ms_items s) i"

definition put_item :: "ident \<Rightarrow> conversation \<Rightarrow> (ident \<times> conversation) list \<Rightarrow> (ident \<times> conversation) list" where
  "put_item i c items =
     (if exists_where (\<lambda>p. fst p = i) items then upd_where (\<lambda>p. fst p = i) (\<lambda>p. (i, c)) items
      else items @ [(i, c)])"

definition drop_item :: "ident \<Rightarrow> mem_store \<Rightarrow> mem_store" where
  "drop_item i s = s\<lparr>ms_items := del_where (\<lambda>p. fst p = i) (ms_items s),
     ms_leases := (ms_leases s)(i := None), ms_versions := (ms_versions s)(i := None),
     ms_owners := (ms_owners s)(i := None)\<rparr>"

definition mutate_item :: "ident \<Rightarrow> (conversation \<Rightarrow> conversation) \<Rightarrow> mem_store \<Rightarrow> mem_store" where
  "mutate_item i f s = s\<lparr>ms_items := upd_where (\<lambda>p. fst p = i) (\<lambda>p. (fst p, f (snd p))) (ms_items s)\<rparr>"

definition owned :: "mem_store \<Rightarrow> ident \<Rightarrow> string \<Rightarrow> bool \<Rightarrow> store_error + conversation" where
  "owned s i created_by active_only =
     (case item_of s i of
        None \<Rightarrow> Inl (ConversationNotFound i)
      | Some item \<Rightarrow>
          if ms_owners s i \<noteq> Some created_by \<or> (active_only \<and> c_archived_at item \<noteq> None)
          then Inl (ConversationNotFound i) else Inr item)"

definition leased :: "mem_store \<Rightarrow> ident \<Rightarrow> time \<Rightarrow> store_error option" where
  "leased s i now =
     (case ms_leases s i of
        None \<Rightarrow> None
      | Some (r, expires) \<Rightarrow> if now < expires then Some (ConversationRequestConflict i r) else None)"

section \<open>Operations\<close>

definition mem_cleanup :: "store_config \<Rightarrow> time \<Rightarrow> mem_store \<Rightarrow> (store_error, mem_store, nat) outcome" where
  "mem_cleanup cfg now s =
     (let cutoff = now - timedelta_days (cfg_retention_days cfg);
          expired = map fst (filter (\<lambda>p. case c_archived_at (snd p) of None \<Rightarrow> False | Some t \<Rightarrow> t < cutoff) (ms_items s))
      in Inr (fold drop_item expired s, length expired))"

definition mem_create ::
  "string \<Rightarrow> string option \<Rightarrow> string \<Rightarrow> time \<Rightarrow> mem_store \<Rightarrow> (store_error, mem_store, conversation) outcome"
where
  "mem_create project_id graph_version created_by now s =
     (let i = ms_next s;
          c = \<lparr>c_id = i, c_project_id = project_id, c_name = default_name, c_created_at = now,
               c_updated_at = now, c_archived_at = None, c_messages = []\<rparr>
      in Inr (s\<lparr>ms_items := put_item i c (ms_items s), ms_versions := (ms_versions s)(i \<mapsto> graph_version),
                ms_owners := (ms_owners s)(i \<mapsto> created_by), ms_next := Suc i\<rparr>, c))"

definition mem_get :: "ident \<Rightarrow> string \<Rightarrow> mem_store \<Rightarrow> (store_error, mem_store, conversation) outcome" where
  "mem_get i created_by s =
     (case owned s i created_by True of Inl e \<Rightarrow> Inl e | Inr item \<Rightarrow> Inr (s, item))"

definition mem_list ::
  "string \<Rightarrow> string \<Rightarrow> list_state \<Rightarrow> nat \<Rightarrow> cursor option \<Rightarrow> mem_store \<Rightarrow> (store_error, mem_store, conversation_list) outcome"
where
  "mem_list project_id created_by state limit boundary s =
     (let rows = map snd (filter (\<lambda>(i, item).
            c_project_id item = project_id \<and> ms_owners s i = Some created_by \<and>
            (c_archived_at item = None) = (state = ListActive) \<and>
            (case boundary of None \<Rightarrow> True | Some b \<Rightarrow> cursor_of item < b)) (ms_items s))
      in Inr (s, page_of limit (take (limit + 1) (sort_newest rows))))"

definition mem_get_scope ::
  "ident \<Rightarrow> string \<Rightarrow> bool \<Rightarrow> mem_store \<Rightarrow> (store_error, mem_store, conversation_scope) outcome"
where
  "mem_get_scope i created_by include_archived s =
     (case owned s i created_by (\<not> include_archived) of
        Inl e \<Rightarrow> Inl e
      | Inr item \<Rightarrow> Inr (s, \<lparr>scope_project_id = c_project_id item,
          scope_graph_version = (case ms_versions s i of None \<Rightarrow> None | Some v \<Rightarrow> v)\<rparr>))"

text \<open>The answer of a mutation is the stored conversation after it.\<close>

definition mem_rename ::
  "ident \<Rightarrow> ustring \<Rightarrow> string \<Rightarrow> time \<Rightarrow> mem_store \<Rightarrow> (store_error, mem_store, conversation) outcome"
where
  "mem_rename i name created_by now s =
     (case owned s i created_by True of
        Inl e \<Rightarrow> Inl e
      | Inr item \<Rightarrow>
          (case leased s i now of
             Some e \<Rightarrow> Inl e
           | None \<Rightarrow>
               let f = (\<lambda>c. c\<lparr>c_name := strip_text name, c_updated_at := now\<rparr>)
               in Inr (mutate_item i f s, f item)))"

definition mem_archive :: "ident \<Rightarrow> string \<Rightarrow> time \<Rightarrow> mem_store \<Rightarrow> (store_error, mem_store, unit) outcome" where
  "mem_archive i created_by now s =
     (case owned s i created_by True of
        Inl e \<Rightarrow> Inl e
      | Inr item \<Rightarrow>
          (case leased s i now of
             Some e \<Rightarrow> Inl e
           | None \<Rightarrow> Inr (mutate_item i (\<lambda>c. c\<lparr>c_archived_at := Some now, c_updated_at := now\<rparr>) s, ())))"

definition mem_restore ::
  "ident \<Rightarrow> string \<Rightarrow> time \<Rightarrow> mem_store \<Rightarrow> (store_error, mem_store, conversation) outcome"
where
  "mem_restore i created_by now s =
     (case owned s i created_by False of
        Inl e \<Rightarrow> Inl e
      | Inr item \<Rightarrow>
          if c_archived_at item = None then Inl (ConversationNotFound i)
          else (case leased s i now of
             Some e \<Rightarrow> Inl e
           | None \<Rightarrow>
               let f = (\<lambda>c. c\<lparr>c_archived_at := None, c_updated_at := now\<rparr>)
               in Inr (mutate_item i f s, f item)))"

definition mem_purge :: "ident \<Rightarrow> string \<Rightarrow> time \<Rightarrow> mem_store \<Rightarrow> (store_error, mem_store, unit) outcome" where
  "mem_purge i created_by now s =
     (case owned s i created_by False of
        Inl e \<Rightarrow> Inl e
      | Inr item \<Rightarrow>
          if c_archived_at item = None then Inl (ConversationStateConflict i)
          else (case leased s i now of Some e \<Rightarrow> Inl e | None \<Rightarrow> Inr (drop_item i s, ())))"

definition mem_delete_project :: "string \<Rightarrow> mem_store \<Rightarrow> (store_error, mem_store, nat) outcome" where
  "mem_delete_project project_id s =
     (let identifiers = map fst (filter (\<lambda>p. c_project_id (snd p) = project_id) (ms_items s))
      in Inr (fold drop_item identifiers s, length identifiers))"

definition mem_append ::
  "ident \<Rightarrow> message_role \<Rightarrow> ustring \<Rightarrow> message_status \<Rightarrow> string option \<Rightarrow> string \<Rightarrow> time \<Rightarrow>
     mem_store \<Rightarrow> (store_error, mem_store, message) outcome"
where
  "mem_append i role content status result created_by now s =
     (let m = \<lparr>msg_id = ms_next s, msg_role = role, msg_content = content, msg_status = status,
               msg_created_at = now, msg_result = result\<rparr>
      in case owned s i created_by True of
           Inl e \<Rightarrow> Inl e
         | Inr item \<Rightarrow>
             Inr ((mutate_item i (\<lambda>c. c\<lparr>c_messages := c_messages c @ [m], c_updated_at := now,
                     c_name := (if role = RoleUser \<and> c_name c = default_name then derive_name content
                                else c_name c)\<rparr>) s)\<lparr>ms_next := Suc (ms_next s)\<rparr>, m))"

definition mem_prune :: "store_config \<Rightarrow> ident \<Rightarrow> mem_store \<Rightarrow> (store_error, mem_store, unit) outcome" where
  "mem_prune cfg i s =
     (case item_of s i of
        None \<Rightarrow> Inl (ConversationNotFound i)
      | Some item \<Rightarrow>
          Inr (mutate_item i (\<lambda>c. c\<lparr>c_messages := prune_messages (cfg_max_turns cfg) (c_messages c)\<rparr>) s, ()))"

definition mem_add_user ::
  "ident \<Rightarrow> ustring \<Rightarrow> string \<Rightarrow> time \<Rightarrow> mem_store \<Rightarrow> (store_error, mem_store, message) outcome"
where
  "mem_add_user i content created_by now s = mem_append i RoleUser content MCompleted None created_by now s"

definition mem_add_assistant ::
  "store_config \<Rightarrow> ident \<Rightarrow> ustring \<Rightarrow> message_status \<Rightarrow> string option \<Rightarrow> string \<Rightarrow> time \<Rightarrow>
     mem_store \<Rightarrow> (store_error, mem_store, message) outcome"
where
  "mem_add_assistant cfg i content status result created_by now s =
     (case mem_append i RoleAssistant content status result created_by now s of
        Inl e \<Rightarrow> Inl e
      | Inr (s1, m) \<Rightarrow> (case mem_prune cfg i s1 of Inl e \<Rightarrow> Inl e | Inr (s2, _) \<Rightarrow> Inr (s2, m)))"

definition mem_acquire ::
  "store_config \<Rightarrow> ident \<Rightarrow> string \<Rightarrow> string \<Rightarrow> time \<Rightarrow> mem_store \<Rightarrow> (store_error, mem_store, unit) outcome"
where
  "mem_acquire cfg i request_id created_by now s =
     (case owned s i created_by True of
        Inl e \<Rightarrow> Inl e
      | Inr item \<Rightarrow>
          (case ms_leases s i of
             Some (r, expires) \<Rightarrow>
               if r \<noteq> request_id \<and> now < expires then Inl (ConversationRequestConflict i r)
               else Inr (s\<lparr>ms_leases := (ms_leases s)(i \<mapsto> (request_id, now + timedelta_seconds (cfg_lease_seconds cfg)))\<rparr>, ())
           | None \<Rightarrow> Inr (s\<lparr>ms_leases := (ms_leases s)(i \<mapsto> (request_id, now + timedelta_seconds (cfg_lease_seconds cfg)))\<rparr>, ())))"

definition mem_release ::
  "ident \<Rightarrow> string \<Rightarrow> string \<Rightarrow> mem_store \<Rightarrow> (store_error, mem_store, unit) outcome"
where
  "mem_release i request_id created_by s =
     (if item_of s i = None \<or> ms_owners s i \<noteq> Some created_by then Inl (ConversationNotFound i)
      else case ms_leases s i of
             Some (r, expires) \<Rightarrow> if r = request_id then Inr (s\<lparr>ms_leases := (ms_leases s)(i := None)\<rparr>, ()) else Inr (s, ())
           | None \<Rightarrow> Inr (s, ()))"

definition mem_get_history ::
  "ident \<Rightarrow> nat \<Rightarrow> nat \<Rightarrow> string \<Rightarrow> mem_store \<Rightarrow> (store_error, mem_store, message list) outcome"
where
  "mem_get_history i max_turns max_chars created_by s =
     (case mem_get i created_by s of
        Inl e \<Rightarrow> Inl e | Inr (s', c) \<Rightarrow> Inr (s', history_of max_turns max_chars (c_messages c)))"

definition mem_ops :: "store_config \<Rightarrow> mem_store store_ops" where
  "mem_ops cfg = \<lparr>st_cleanup = mem_cleanup cfg, st_create = mem_create, st_get = mem_get, st_list = mem_list,
     st_get_scope = mem_get_scope, st_rename = mem_rename, st_archive = mem_archive, st_restore = mem_restore,
     st_purge = mem_purge, st_delete_project = mem_delete_project, st_add_user = mem_add_user,
     st_add_assistant = mem_add_assistant cfg, st_acquire = mem_acquire cfg, st_release = mem_release,
     st_get_history = mem_get_history\<rparr>"

section \<open>Lemmas\<close>

lemma drop_items:
  "fold drop_item ids s = s\<lparr>ms_items := del_where (\<lambda>p. fst p \<in> set ids) (ms_items s),
     ms_leases := (\<lambda>i. if i \<in> set ids then None else ms_leases s i),
     ms_versions := (\<lambda>i. if i \<in> set ids then None else ms_versions s i),
     ms_owners := (\<lambda>i. if i \<in> set ids then None else ms_owners s i)\<rparr>"
  by (induction ids arbitrary: s)
    (auto simp: drop_item_def del_where_def fun_eq_iff intro!: mem_store.equality arg_cong2 [where f = filter])

lemma map_of_upd_where:
  "map_of (upd_where (\<lambda>p. fst p = i) (\<lambda>p. (fst p, f (snd p))) xs) j =
     (if j = i then map_option f (map_of xs i) else map_of xs j)"
  by (induction xs) (auto simp: upd_where_def)

lemma item_of_mutate [simp]:
  "item_of (mutate_item i f s) j = (if j = i then map_option f (item_of s i) else item_of s j)"
  by (simp add: item_of_def mutate_item_def map_of_upd_where)

lemma mutate_item_simps [simp]:
  "ms_leases (mutate_item i f s) = ms_leases s" "ms_versions (mutate_item i f s) = ms_versions s"
  "ms_owners (mutate_item i f s) = ms_owners s" "ms_next (mutate_item i f s) = ms_next s"
  by (simp_all add: mutate_item_def)

lemma item_of_update [simp]:
  "item_of (s\<lparr>ms_leases := l\<rparr>) = item_of s" "item_of (s\<lparr>ms_next := n\<rparr>) = item_of s"
  by (simp_all add: item_of_def fun_eq_iff)

lemma owned_Inr:
  "owned s i o' a = Inr item \<longleftrightarrow>
     item_of s i = Some item \<and> ms_owners s i = Some o' \<and> (a \<longrightarrow> c_archived_at item = None)"
  by (auto simp: owned_def split: option.splits if_splits)

text \<open>The second half of \<open>add_assistant_message\<close> cannot fail after the first.\<close>

lemma prune_after_append:
  "mem_append i role content status result o' now s = Inr (s1, m) \<Longrightarrow>
     \<exists>s2. mem_prune cfg i s1 = Inr (s2, ())"
  by (auto simp: mem_append_def mem_prune_def Let_def owned_Inr split: sum.splits)

section \<open>The contract\<close>

text \<open>Identifiers of conversations are drawn once; a conversation with its owner.\<close>

definition mem_valid :: "mem_store \<Rightarrow> bool" where
  "mem_valid s \<longleftrightarrow> fresh_table fst (ms_items s) (ms_next s)"

definition mem_view :: "mem_store \<Rightarrow> ident \<Rightarrow> (string \<times> conversation) option" where
  "mem_view s i = (case (ms_owners s i, item_of s i) of (Some owner, Some c) \<Rightarrow> Some (owner, c) | _ \<Rightarrow> None)"

lemma mem_view_Some:
  "mem_view s i = Some (owner, c) \<longleftrightarrow> ms_owners s i = Some owner \<and> item_of s i = Some c"
  by (auto simp: mem_view_def split: option.splits)

lemma owned_view:
  "mem_view s i = Some (owner, c) \<Longrightarrow> owned s i owner' a =
     (if owner' = owner \<and> (a \<longrightarrow> c_archived_at c = None) then Inr c else Inl (ConversationNotFound i))"
  by (auto simp: mem_view_Some owned_def)

lemma mem_view_update [simp]:
  "mem_view (s\<lparr>ms_leases := l\<rparr>) = mem_view s" "mem_view (s\<lparr>ms_next := n\<rparr>) = mem_view s"
  by (simp_all add: mem_view_def fun_eq_iff)

lemma mem_view_mutate:
  "mem_view (mutate_item i f s) j =
     (if j = i then map_option (map_prod id f) (mem_view s i) else mem_view s j)"
  by (auto simp: mem_view_def split: option.split)

lemma mem_view_drop: "mem_view (drop_item i s) j = (if j = i then None else mem_view s j)"
proof -
  have "map_of (del_where (\<lambda>p. fst p = i) xs) j = map_of xs j" if "j \<noteq> i" for xs :: "(ident \<times> conversation) list"
    using that by (induction xs) (auto simp: del_where_def)
  then show ?thesis by (auto simp: mem_view_def drop_item_def item_of_def split: option.split)
qed

lemma mem_view_drops: "mem_view (fold drop_item ids s) j = (if j \<in> set ids then None else mem_view s j)"
  by (induction ids arbitrary: s) (auto simp: mem_view_drop)

lemma mem_valid_updates [simp]:
  "mem_valid (mutate_item i f s) = mem_valid s" "mem_valid (s\<lparr>ms_leases := l\<rparr>) = mem_valid s"
  "mem_valid s \<Longrightarrow> mem_valid (s\<lparr>ms_next := Suc (ms_next s)\<rparr>)"
  "mem_valid s \<Longrightarrow> mem_valid (mutate_item i f s\<lparr>ms_next := Suc (ms_next s)\<rparr>)"
  by (simp_all add: mem_valid_def mutate_item_def fresh_table_upd fresh_table_mono [OF _ le_SucI])

lemma mem_valid_drops: "mem_valid s \<Longrightarrow> mem_valid (fold drop_item ids s)"
  by (simp add: mem_valid_def drop_items fresh_table_del)

lemma mem_valid_init: "mem_valid mem_init"
  by (simp add: mem_valid_def mem_init_def)

lemma item_of_fresh: "mem_valid s \<Longrightarrow> item_of s (ms_next s) = None"
  by (auto simp: mem_valid_def fresh_table_def item_of_def map_of_eq_None_iff)

lemma mem_create_eq:
  assumes "mem_valid s" "mem_create p v owner now s = Inr (s', c)"
  shows "mem_valid s'" "i \<noteq> ms_next s \<Longrightarrow> mem_view s' i = mem_view s i" "ms_leases s' = ms_leases s"
proof -
  have new: "\<not> exists_where (\<lambda>p. fst p = ms_next s) (ms_items s)"
    using assms(1) by (auto simp: exists_where_def mem_valid_def fresh_table_def)
  show "mem_valid s'" "i \<noteq> ms_next s \<Longrightarrow> mem_view s' i = mem_view s i" "ms_leases s' = ms_leases s"
    using assms new
    by (auto simp: mem_create_def Let_def put_item_def mem_valid_def mem_view_def item_of_def map_add_def
        intro!: fresh_table_append split: option.splits)
qed

lemmas mem_defs = mem_cleanup_def mem_get_def mem_list_def mem_get_scope_def mem_rename_def mem_archive_def
  mem_restore_def mem_purge_def mem_delete_project_def mem_append_def mem_prune_def mem_add_user_def
  mem_add_assistant_def mem_acquire_def mem_release_def mem_get_history_def

lemmas outcome_splits = sum.splits option.splits if_splits prod.splits

lemma mem_call_valid:
  assumes "mem_valid s" "run_call (mem_ops cfg) call now s = Inr (s', r)"
  shows "mem_valid s'"
proof (cases call)
  case (CallCreate p v owner)
  then show ?thesis using assms mem_create_eq(1) by (auto simp: mem_ops_def map_reply_Inr)
qed (use assms in \<open>auto simp: mem_ops_def map_reply_Inr mem_defs Let_def mem_valid_drops
    mem_valid_drops [of _ "[i]" for i, simplified] split: outcome_splits\<close>)

text \<open>Identifiers are not given out twice.\<close>

definition mem_taken :: "mem_store \<Rightarrow> ident \<Rightarrow> bool" where
  "mem_taken s i \<longleftrightarrow> i < ms_next s"

lemma mem_drops_next [simp]: "ms_next (fold drop_item ids s) = ms_next s"
  by (simp add: drop_items)

lemma mem_view_taken: "mem_valid s \<Longrightarrow> mem_view s i \<noteq> None \<Longrightarrow> mem_taken s i"
  by (auto simp: mem_view_Some mem_taken_def mem_valid_def fresh_table_def item_of_def dest: map_of_SomeD)

lemma mem_call_taken:
  assumes "mem_taken s i" "run_call (mem_ops cfg) call now s = Inr (s', r)"
  shows "mem_taken s' i"
proof -
  have "ms_next s \<le> ms_next s'"
    using assms(2) by (cases call) (auto simp: mem_ops_def map_reply_Inr mem_defs mem_create_def put_item_def
      mutate_item_def drop_item_def Let_def split: outcome_splits)
  then show ?thesis using assms(1) by (simp add: mem_taken_def)
qed

lemma mem_gone_stays:
  assumes v: "mem_valid s" and "mem_view s i = None" "mem_taken s i"
    and run: "run_call (mem_ops cfg) call now s = Inr (s', r)"
  shows "mem_view s' i = None"
proof (cases call)
  case (CallCreate p v owner)
  then show ?thesis using assms mem_create_eq(2) [OF v]
    by (auto simp: mem_ops_def map_reply_Inr mem_taken_def)
qed (use assms in \<open>auto simp: mem_ops_def map_reply_Inr mem_defs Let_def mem_view_mutate mem_view_drops
    mem_view_drop split: outcome_splits\<close>)

lemma mem_acquire_gone:
  "mem_view s i = None \<Longrightarrow> mem_acquire cfg i q owner now s = Inl (ConversationNotFound i)"
  by (auto simp: mem_acquire_def owned_def mem_view_def split: option.splits)

text \<open>
  A conversation in use is not archived or handed to another request, and it is removed with its
  project only.
\<close>

lemma mem_lease_kept:
  assumes "mem_valid s" and view: "mem_view s i = Some (owner, c)" "c_archived_at c = None"
    and lease: "ms_leases s i = Some (q, e)" "now < e" and other: "\<not> own_lease_call i q call"
    and run: "run_call (mem_ops cfg) call now s = Inr (s', r)"
  shows "ms_leases s' i = Some (q, e) \<and>
      (\<exists>c'. mem_view s' i = Some (owner, c') \<and> c_archived_at c' = None \<and> c_project_id c' = c_project_id c) \<or>
    mem_view s' i = None \<and> call = CallDeleteProject (c_project_id c)"
proof -
  have item: "item_of s i = Some c" "ms_owners s i = Some owner" using view(1) by (auto simp: mem_view_Some)
  have mem: "(i, c) \<in> set (ms_items s)" using item(1) by (auto simp: item_of_def dest: map_of_SomeD)
  have uniq: "c' = c" if "(i, c') \<in> set (ms_items s)" for c'
    using that mem assms(1) fresh_table_eq [of fst "ms_items s" "ms_next s" "(i, c)" "(i, c')"]
    by (auto simp: mem_valid_def)
  have keep: ?thesis if "ms_leases s' i = ms_leases s i" "mem_view s' i = mem_view s i"
    using that assms by simp
  have drop: ?thesis if "s' = fold drop_item ids s" "i \<notin> set ids" for ids
    using that keep by (simp add: mem_view_drops) (simp add: drop_items)
  show ?thesis
  proof (cases call)
    case CallCleanup
    then have "s' = fold drop_item (map fst (filter (\<lambda>p. case c_archived_at (snd p) of None \<Rightarrow> False
        | Some t \<Rightarrow> t < now - timedelta_days (cfg_retention_days cfg)) (ms_items s))) s"
      using run by (auto simp: mem_ops_def map_reply_Inr mem_cleanup_def Let_def)
    then show ?thesis by (rule drop) (use uniq view in \<open>auto split: option.splits\<close>)
  next
    case (CallDeleteProject p)
    then have s': "s' = fold drop_item (map fst (filter (\<lambda>x. c_project_id (snd x) = p) (ms_items s))) s"
      using run by (auto simp: mem_ops_def map_reply_Inr mem_delete_project_def Let_def)
    show ?thesis
    proof (cases "p = c_project_id c")
      case True
      have "mem_view s' i = None" using mem True unfolding s' mem_view_drops by force
      then show ?thesis using CallDeleteProject True by simp
    next
      case False
      show ?thesis by (rule drop [OF s']) (use uniq False in auto)
    qed
  next
    case (CallCreate p v owner')
    have "i \<noteq> ms_next s" using item_of_fresh [OF assms(1)] item(1) by auto
    then show ?thesis using CallCreate run mem_create_eq [OF assms(1)]
      by (intro keep) (auto simp: mem_ops_def map_reply_Inr)
  next
    case (CallRename j n owner')
    have "j \<noteq> i" if "leased s j now = None" using that lease by (auto simp: leased_def)
    then show ?thesis using CallRename run view lease
      by (auto simp: mem_ops_def map_reply_Inr mem_defs Let_def mem_view_mutate split: outcome_splits)
  next
    case (CallArchive j owner')
    have "j \<noteq> i" if "leased s j now = None" using that lease by (auto simp: leased_def)
    then show ?thesis using CallArchive run view lease
      by (auto simp: mem_ops_def map_reply_Inr mem_defs Let_def mem_view_mutate split: outcome_splits)
  next
    case (CallRestore j owner')
    have "j \<noteq> i" if "leased s j now = None" using that lease by (auto simp: leased_def)
    then show ?thesis using CallRestore run view lease
      by (auto simp: mem_ops_def map_reply_Inr mem_defs Let_def mem_view_mutate split: outcome_splits)
  next
    case (CallPurge j owner')
    have "j \<noteq> i" if "leased s j now = None" using that lease by (auto simp: leased_def)
    then show ?thesis using CallPurge run
      by (intro drop [where ids = "[j]"]) (auto simp: mem_ops_def map_reply_Inr mem_defs Let_def split: outcome_splits)
  next
    case (CallAddUser j content owner')
    then show ?thesis using run view lease
      by (cases "j = i") (auto simp: mem_ops_def map_reply_Inr mem_defs Let_def mem_view_mutate split: outcome_splits)
  next
    case (CallAddAssistant j content st res owner')
    then show ?thesis using run view lease
      by (cases "j = i") (auto simp: mem_ops_def map_reply_Inr mem_defs Let_def mem_view_mutate split: outcome_splits)
  next
    case (CallAcquire j q' owner')
    have "\<not> (j = i \<and> q' = q)" using other CallAcquire by (auto simp: own_lease_call_def)
    then have "ms_leases s' i = ms_leases s i" "mem_view s' = mem_view s"
      using run CallAcquire lease
      by (auto simp: mem_ops_def map_reply_Inr mem_acquire_def split: outcome_splits)
    then show ?thesis by (intro keep) auto
  next
    case (CallRelease j q' owner')
    have "\<not> (j = i \<and> q' = q)" using other CallRelease by (auto simp: own_lease_call_def)
    then have "ms_leases s' i = ms_leases s i" "mem_view s' = mem_view s"
      using run CallRelease lease
      by (auto simp: mem_ops_def map_reply_Inr mem_release_def split: outcome_splits)
    then show ?thesis by (intro keep) auto
  qed (use run keep in \<open>auto simp: mem_ops_def map_reply_Inr mem_defs Let_def split: outcome_splits\<close>)
qed

interpretation mem: conversation_store "mem_ops cfg" mem_valid mem_view ms_leases mem_taken
  "timedelta_seconds (cfg_lease_seconds cfg)" "cfg_max_turns cfg" for cfg
proof
  fix s :: mem_store and i owner c q now content status n k result call s' r
  fix q' :: string and e :: time and owner' :: string
  assume v: "mem_valid s"
  show "mem_valid s'" if "run_call (mem_ops cfg) call now s = Inr (s', r)"
    by (rule mem_call_valid [OF v that])
  show "st_acquire (mem_ops cfg) i q owner now s = Inl (ConversationNotFound i)" if "mem_view s i = None"
    using mem_acquire_gone [OF that] by (simp add: mem_ops_def)
  show "mem_taken s i" if "mem_view s i \<noteq> None" by (rule mem_view_taken [OF v that])
  show taken: "mem_taken s' i" if "mem_taken s i" "run_call (mem_ops cfg) call now s = Inr (s', r)"
    by (rule mem_call_taken [OF that])
  show "mem_view s' i = None \<and> mem_taken s' i"
    if "mem_view s i = None" "mem_taken s i" "run_call (mem_ops cfg) call now s = Inr (s', r)"
    using mem_gone_stays [OF v that] taken [OF that(2,3)] by blast
  assume view: "mem_view s i = Some (owner, c)"
  show "\<exists>s'. st_release (mem_ops cfg) i q owner s = Inr (s', ()) \<and> mem_valid s' \<and> mem_view s' = mem_view s \<and>
      ms_leases s' = (if \<exists>e. ms_leases s i = Some (q, e) then (ms_leases s)(i := None) else ms_leases s)"
    using view v by (auto simp: mem_ops_def mem_release_def mem_view_Some split: option.split)
  assume arch: "c_archived_at c = None"
  note own = owned_view [OF view]
  show "\<exists>s'. st_acquire (mem_ops cfg) i q owner now s = Inr (s', ()) \<and> mem_valid s' \<and> mem_view s' = mem_view s \<and>
      ms_leases s' = (ms_leases s)(i \<mapsto> (q, now + timedelta_seconds (cfg_lease_seconds cfg)))"
    if "\<And>q' e. ms_leases s i = Some (q', e) \<Longrightarrow> q' = q \<or> e \<le> now"
    using that v arch by (fastforce simp: mem_ops_def mem_acquire_def own split: option.split)
  show "st_acquire (mem_ops cfg) i q owner' now s =
      Inl (if owner' = owner then ConversationRequestConflict i q' else ConversationNotFound i)"
    if "ms_leases s i = Some (q', e)" "q' \<noteq> q" "now < e"
    using that arch by (simp add: mem_ops_def mem_acquire_def own)
  show "st_get_history (mem_ops cfg) i n k owner s = Inr (s, history_of n k (c_messages c))"
    using arch by (simp add: mem_ops_def mem_get_history_def mem_get_def own)
  show "\<exists>s' m c'. st_add_user (mem_ops cfg) i content owner now s = Inr (s', m) \<and> mem_valid s' \<and>
      ms_leases s' = ms_leases s \<and> mem_view s' = (mem_view s)(i \<mapsto> (owner, c')) \<and> c_archived_at c' = None \<and>
      c_project_id c' = c_project_id c \<and> c_messages c' = c_messages c @ [m] \<and>
      msg_role m = RoleUser \<and> msg_content m = content \<and> msg_status m = MCompleted"
    using arch v view
    by (simp add: mem_ops_def mem_add_user_def mem_append_def own Let_def fun_eq_iff mem_view_mutate)
  show "\<exists>s' m c'. st_add_assistant (mem_ops cfg) i content status result owner now s = Inr (s', m) \<and> mem_valid s' \<and>
      ms_leases s' = ms_leases s \<and> mem_view s' = (mem_view s)(i \<mapsto> (owner, c')) \<and> c_archived_at c' = None \<and>
      c_project_id c' = c_project_id c \<and>
      c_messages c' = prune_messages (cfg_max_turns cfg) (c_messages c @ [m]) \<and>
      msg_role m = RoleAssistant \<and> msg_content m = content \<and> msg_status m = status \<and> msg_result m = result"
    using arch v view
    by (simp add: mem_ops_def mem_add_assistant_def mem_append_def mem_prune_def own Let_def fun_eq_iff
        mem_view_mutate mem_view_Some)
  show "ms_leases s' i = Some (q, e) \<and>
      (\<exists>c'. mem_view s' i = Some (owner, c') \<and> c_archived_at c' = None \<and> c_project_id c' = c_project_id c) \<or>
      mem_view s' i = None \<and> call = CallDeleteProject (c_project_id c)"
    if "ms_leases s i = Some (q, e)" "now < e" "\<not> own_lease_call i q call"
      "run_call (mem_ops cfg) call now s = Inr (s', r)"
    by (rule mem_lease_kept [OF v view arch that])
qed

end
