(* ===== verification/Conv_Refinement.thy ===== *)
theory Conv_Refinement
  imports Conv_Memory Conv_Sql
begin

text \<open>
  The durable store implements the process-local one. \<open>sql_abs\<close> reads the dictionaries of the
  memory store off the two tables; every operation of \<open>Conv_Sql\<close> commutes with it and keeps the
  invariant of the tables, so that any sequence of calls gets the same answers from both.
\<close>

section \<open>Abstraction and invariant\<close>

definition row_of :: "sql_store \<Rightarrow> ident \<Rightarrow> conversation_row option" where
  "row_of s i = first_where (\<lambda>r. cr_id r = i) (ss_conversations s)"

definition lease_of :: "conversation_row \<Rightarrow> (string \<times> time) option" where
  "lease_of r = (case (cr_active_request_id r, cr_lease_expires_at r) of
     (Some a, Some e) \<Rightarrow> Some (a, e) | _ \<Rightarrow> None)"

definition model_of :: "sql_store \<Rightarrow> conversation_row \<Rightarrow> conversation" where
  "model_of s r = conversation_model r (rows_of s (cr_id r))"

definition sql_abs :: "sql_store \<Rightarrow> mem_store" where
  "sql_abs s = \<lparr>ms_items = map (\<lambda>r. (cr_id r, model_of s r)) (ss_conversations s),
     ms_leases = (\<lambda>i. Option.bind (row_of s i) lease_of),
     ms_versions = (\<lambda>i. map_option cr_graph_version (row_of s i)),
     ms_owners = (\<lambda>i. map_option cr_created_by (row_of s i)),
     ms_next = ss_next s\<rparr>"

definition sql_inv :: "sql_store \<Rightarrow> bool" where
  "sql_inv s \<longleftrightarrow> fresh_table cr_id (ss_conversations s) (ss_next s) \<and>
     fresh_table mr_id (ss_messages s) (ss_next s) \<and>
     fresh_table mr_row_id (ss_messages s) (ss_next_row s) \<and>
     (\<forall>m\<in>set (ss_messages s). mr_conversation_id m < ss_next s) \<and>
     (\<forall>r\<in>set (ss_conversations s). (cr_active_request_id r = None) = (cr_lease_expires_at r = None))"

text \<open>No stored name is shown as the default, so that only a missing name is.\<close>

definition names_ok :: "sql_store \<Rightarrow> bool" where
  "names_ok s \<longleftrightarrow> (\<forall>r\<in>set (ss_conversations s). \<forall>n. cr_name r = Some n \<longrightarrow> n \<noteq> [] \<and> n \<noteq> default_name)"

lemma sql_invD:
  assumes "sql_inv s"
  shows "fresh_table cr_id (ss_conversations s) (ss_next s)"
    "distinct (map cr_id (ss_conversations s))"
    "fresh_table mr_id (ss_messages s) (ss_next s)"
    "fresh_table mr_row_id (ss_messages s) (ss_next_row s)"
    "\<And>m. m \<in> set (ss_messages s) \<Longrightarrow> mr_conversation_id m < ss_next s"
    "\<And>r. r \<in> set (ss_conversations s) \<Longrightarrow> (cr_active_request_id r = None) = (cr_lease_expires_at r = None)"
  using assms by (auto simp: sql_inv_def fresh_table_def)

lemma sql_inv_init [simp]: "sql_inv sql_init" "names_ok sql_init"
  by (simp_all add: sql_inv_def names_ok_def sql_init_def)

lemma sql_abs_init [simp]: "sql_abs sql_init = mem_init"
  by (simp add: sql_abs_def sql_init_def mem_init_def row_of_def first_where_def fun_eq_iff)

lemma sql_abs_simps [simp]:
  "ms_next (sql_abs s) = ss_next s"
  "ms_owners (sql_abs s) i = map_option cr_created_by (row_of s i)"
  "ms_versions (sql_abs s) i = map_option cr_graph_version (row_of s i)"
  "ms_leases (sql_abs s) i = Option.bind (row_of s i) lease_of"
  by (simp_all add: sql_abs_def)

section \<open>Lookups\<close>

lemma first_where_conj:
  assumes "distinct (map key xs)"
  shows "first_where (\<lambda>r. key r = i \<and> Q r) xs =
    (case first_where (\<lambda>r. key r = i) xs of None \<Rightarrow> None | Some r \<Rightarrow> if Q r then Some r else None)"
proof (cases "first_where (\<lambda>r. key r = i) xs")
  case None
  then have "\<forall>x\<in>set xs. key x \<noteq> i" by (simp add: first_where_None)
  then have "first_where (\<lambda>r. key r = i \<and> Q r) xs = None" by (auto simp: first_where_None)
  with None show ?thesis by simp
next
  case (Some r)
  then have r: "r \<in> set xs" "key r = i" by (auto dest: first_where_Some)
  have uniq: "y = r" if "y \<in> set xs" "key y = i" for y
    using distinct_key_eq [OF assms that(1) r(1)] that(2) r(2) by simp
  show ?thesis
  proof (cases "Q r")
    case True
    have "first_where (\<lambda>r. key r = i \<and> Q r) xs = Some r"
    proof (rule first_where_unique [OF r(1)])
      show "key r = i \<and> Q r" using r(2) True by blast
      show "y = r" if "y \<in> set xs" "key y = i \<and> Q y" for y using uniq that by blast
    qed
    with Some True show ?thesis by simp
  next
    case False
    then have "first_where (\<lambda>r. key r = i \<and> Q r) xs = None"
      unfolding first_where_None using uniq by blast
    with Some False show ?thesis by simp
  qed
qed

lemma row_of_Some: "row_of s i = Some r \<Longrightarrow> r \<in> set (ss_conversations s) \<and> cr_id r = i"
  by (auto simp: row_of_def dest: first_where_Some)

lemma row_of_mem: "sql_inv s \<Longrightarrow> r \<in> set (ss_conversations s) \<Longrightarrow> row_of s (cr_id r) = Some r"
  unfolding row_of_def by (rule first_where_key [OF sql_invD(2)]) auto

lemma map_of_rows:
  "map_of (map (\<lambda>r. (key r, f r)) xs) i = map_option f (first_where (\<lambda>r. key r = i) xs)"
  by (induction xs) (auto simp: first_where_def)

lemma item_of_abs: "item_of (sql_abs s) i = map_option (model_of s) (row_of s i)"
  by (simp add: item_of_def sql_abs_def map_of_rows row_of_def)

lemma get_row_eq:
  "sql_inv s \<Longrightarrow> get_row s i o' a =
     (case row_of s i of None \<Rightarrow> Inl (ConversationNotFound i)
      | Some r \<Rightarrow> if cr_created_by r = o' \<and> (a \<longrightarrow> cr_archived_at r = None) then Inr r
                 else Inl (ConversationNotFound i))"
  unfolding get_row_def row_of_def
  by (subst first_where_conj [OF sql_invD(2)]) (auto split: option.splits)

lemma get_row_Inr:
  assumes "sql_inv s" "get_row s i o' a = Inr r"
  shows "row_of s i = Some r" "r \<in> set (ss_conversations s)" "cr_id r = i" "cr_created_by r = o'"
    "a \<Longrightarrow> cr_archived_at r = None"
  using assms by (auto simp: get_row_eq split: option.splits if_splits dest: row_of_Some)

lemma archived_model [simp]: "c_archived_at (model_of s r) = cr_archived_at r"
  by (simp add: model_of_def conversation_model_def)

lemma owned_abs:
  "sql_inv s \<Longrightarrow> owned (sql_abs s) i o' a = map_sum id (model_of s) (get_row s i o' a)"
  by (auto simp: owned_def item_of_abs get_row_eq split: option.split)

lemma leased_abs:
  assumes "row_of s i = Some r"
  shows "leased (sql_abs s) i now = reject_active_lease r now"
  using row_of_Some [OF assms] assms
  by (auto simp: leased_def reject_active_lease_def lease_of_def split: option.split)

section \<open>Updates\<close>

lemma row_of_upd_row:
  assumes "\<And>r. cr_id (f r) = cr_id r"
  shows "row_of (upd_row i f s) j = (if j = i then map_option f (row_of s i) else row_of s j)"
proof -
  have "first_where (\<lambda>r. cr_id r = j) (upd_where (\<lambda>r. cr_id r = i) f xs) =
      (if j = i then map_option f (first_where (\<lambda>r. cr_id r = i) xs) else first_where (\<lambda>r. cr_id r = j) xs)" for xs
    by (induction xs) (auto simp: upd_where_def first_where_def assms)
  then show ?thesis by (simp add: row_of_def upd_row_def)
qed

lemma rows_of_simps [simp]:
  "rows_of (upd_row i f s) = rows_of s"
  "rows_of (s\<lparr>ss_conversations := cs\<rparr>) = rows_of s"
  "rows_of (s\<lparr>ss_next := n\<rparr>) = rows_of s" "rows_of (s\<lparr>ss_next_row := n\<rparr>) = rows_of s"
  by (simp_all add: rows_of_def upd_row_def fun_eq_iff)

lemma upd_row_simps [simp]:
  "ss_messages (upd_row i f s) = ss_messages s" "ss_next (upd_row i f s) = ss_next s"
  "ss_next_row (upd_row i f s) = ss_next_row s"
  by (simp_all add: upd_row_def)

lemma abs_upd_row:
  assumes "\<And>r. cr_id (f r) = cr_id r" "\<And>r. cr_created_by (f r) = cr_created_by r"
    "\<And>r. cr_graph_version (f r) = cr_graph_version r" "\<And>r. lease_of (f r) = lease_of r"
    and g: "\<And>r ms. r \<in> set (ss_conversations s) \<Longrightarrow> cr_id r = i \<Longrightarrow>
      conversation_model (f r) ms = g (conversation_model r ms)"
  shows "sql_abs (upd_row i f s) = mutate_item i g (sql_abs s)"
proof -
  have "ms_items (sql_abs (upd_row i f s)) = ms_items (mutate_item i g (sql_abs s))"
    using g by (auto simp: sql_abs_def mutate_item_def upd_row_def upd_where_def model_of_def assms(1))
  then show ?thesis
    by (intro mem_store.equality)
      (auto simp: sql_abs_def mutate_item_def row_of_upd_row assms fun_eq_iff option.map_comp
          comp_def split: bind_split)
qed

lemma inv_upd_row:
  assumes "sql_inv s" "\<And>r. cr_id (f r) = cr_id r"
    and "\<And>r. (cr_active_request_id r = None) = (cr_lease_expires_at r = None) \<Longrightarrow>
      (cr_active_request_id (f r) = None) = (cr_lease_expires_at (f r) = None)"
  shows "sql_inv (upd_row i f s)"
  using assms by (auto simp: sql_inv_def upd_row_def fresh_table_upd set_upd_where)

lemma abs_delete_rows:
  assumes inv: "sql_inv s"
  shows "sql_abs (delete_rows cascade P s) = fold drop_item (map cr_id (filter P (ss_conversations s))) (sql_abs s)"
proof -
  let ?gone = "cr_id ` set (filter P (ss_conversations s))"
  have gone: "cr_id r \<in> ?gone \<longleftrightarrow> P r" if "r \<in> set (ss_conversations s)" for r
    using that distinct_key_eq [OF sql_invD(2) [OF inv]] by auto
  have row: "row_of (delete_rows cascade P s) i = (if i \<in> ?gone then None else row_of s i)" for i
  proof (cases "i \<in> ?gone")
    case True
    then have "\<forall>r\<in>set (del_where P (ss_conversations s)). cr_id r \<noteq> i"
      using distinct_key_eq [OF sql_invD(2) [OF inv]] by (auto simp: set_del_where)
    then show ?thesis using True by (simp add: row_of_def delete_rows_def Let_def first_where_None)
  next
    case False
    then have keep: "\<not> P r" if "r \<in> set (ss_conversations s)" "cr_id r = i" for r using that by auto
    have "first_where (\<lambda>r. cr_id r = i) (del_where P xs) = first_where (\<lambda>r. cr_id r = i) xs"
      if "\<And>r. r \<in> set xs \<Longrightarrow> cr_id r = i \<Longrightarrow> \<not> P r" for xs
      using that by (induction xs) (auto simp: del_where_def first_where_def)
    then show ?thesis using False keep by (simp add: row_of_def delete_rows_def Let_def)
  qed
  have rows: "rows_of (delete_rows cascade P s) i = rows_of s i" if "i \<notin> ?gone" for i
    using that by (auto simp: rows_of_def delete_rows_def Let_def del_where_def
        intro!: arg_cong [where f = "sort_key mr_ordinal"] filter_cong)
  have "ms_items (sql_abs (delete_rows cascade P s)) =
      del_where (\<lambda>p. fst p \<in> ?gone) (ms_items (sql_abs s))"
  proof -
    have "ms_items (sql_abs (delete_rows cascade P s)) =
        map (\<lambda>r. (cr_id r, model_of s r)) (filter (\<lambda>r. \<not> P r) (ss_conversations s))"
      using rows gone by (auto simp: sql_abs_def model_of_def delete_rows_def Let_def del_where_def)
    also have "filter (\<lambda>r. \<not> P r) (ss_conversations s) = filter (\<lambda>r. cr_id r \<notin> ?gone) (ss_conversations s)"
      using gone by (intro filter_cong) auto
    finally show ?thesis by (simp add: sql_abs_def del_where_def filter_map comp_def)
  qed
  moreover have "ss_next (delete_rows cascade P s) = ss_next s" by (simp add: delete_rows_def Let_def)
  ultimately show ?thesis
    unfolding drop_items by (intro mem_store.equality) (auto simp: sql_abs_def row fun_eq_iff)
qed

lemma inv_delete_rows: "sql_inv s \<Longrightarrow> sql_inv (delete_rows cascade P s)"
  by (auto simp: sql_inv_def delete_rows_def Let_def fresh_table_del set_del_where)

section \<open>Messages\<close>

lemma sort_key_snoc:
  "(\<And>y. y \<in> set xs \<Longrightarrow> k y \<le> k x) \<Longrightarrow> sort_key k (xs @ [x]) = sort_key k xs @ [x]"
proof (induction xs)
  case (Cons a xs)
  have "insort_key k a (ys @ [x]) = insort_key k a ys @ [x]" if "k a \<le> k x" for ys
    using that by (induction ys) auto
  with Cons show ?case by simp
qed simp

lemma max_ordinal_ge:
  assumes "m \<in> set (ss_messages s)" "mr_conversation_id m = i"
  shows "mr_ordinal m \<le> max_ordinal s i"
proof -
  have "x \<le> fold max xs a" if "x \<in> set xs \<or> x \<le> a" for x a :: nat and xs
    using that by (induction xs arbitrary: a) (auto simp: max.coboundedI2 max.coboundedI1)
  then show ?thesis unfolding max_ordinal_def using assms by auto
qed

lemma rows_of_append:
  assumes "mr_ordinal m = max_ordinal s i + 1" "mr_conversation_id m = i"
  shows "rows_of (s\<lparr>ss_messages := ss_messages s @ [m]\<rparr>) j = (if j = i then rows_of s i @ [m] else rows_of s j)"
  using assms max_ordinal_ge [of _ s i]
  by (auto simp: rows_of_def intro!: sort_key_snoc le_SucI)

text \<open>What an append does to the tables, seen through the abstraction; the name it leaves is \<open>n\<close>.\<close>

definition appended :: "ident \<Rightarrow> message \<Rightarrow> time \<Rightarrow> (conversation \<Rightarrow> ustring) \<Rightarrow> mem_store \<Rightarrow> mem_store" where
  "appended i m now n s = (mutate_item i (\<lambda>c. c\<lparr>c_messages := c_messages c @ [m], c_updated_at := now,
     c_name := n c\<rparr>) s)\<lparr>ms_next := Suc (ms_next s)\<rparr>"

lemma sql_append_spec:
  assumes inv: "sql_inv s" and run: "sql_append i role content status result o' now s = Inr (s', m)"
  shows "sql_inv s'" "msg_id m = ss_next s" "msg_role m = role" "msg_content m = content"
    "msg_status m = status" "msg_created_at m = now" "msg_result m = result"
    "\<exists>r. get_row s i o' True = Inr r \<and> sql_abs s' = appended i m now
       (\<lambda>_. shown_name (if role = RoleUser \<and> cr_name r = None then Some (derive_name content) else cr_name r))
       (sql_abs s)"
    "names_ok s \<Longrightarrow> (role = RoleUser \<Longrightarrow> derive_name content \<noteq> [] \<and> derive_name content \<noteq> default_name) \<Longrightarrow> names_ok s'"
proof -
  from run obtain r where r: "get_row s i o' True = Inr r" by (auto simp: sql_append_def split: sum.splits)
  note row = get_row_Inr [OF inv r]
  define mr where "mr = \<lparr>mr_row_id = ss_next_row s, mr_id = ss_next s, mr_conversation_id = i,
    mr_ordinal = max_ordinal s i + 1, mr_role = role, mr_content = content, mr_status = status,
    mr_created_at = now, mr_result = result\<rparr>"
  let ?f = "\<lambda>r. r\<lparr>cr_updated_at := now, cr_name :=
    (if role = RoleUser \<and> cr_name r = None then Some (derive_name content) else cr_name r)\<rparr>"
  define s1 where "s1 = s\<lparr>ss_messages := ss_messages s @ [mr], ss_next := Suc (ss_next s), ss_next_row := Suc (ss_next_row s)\<rparr>"
  have s': "s' = upd_row i ?f s1" and m: "m = message_model mr"
    using run r row(3) by (auto simp: sql_append_def Let_def upd_row_def mr_def s1_def)
  show "msg_id m = ss_next s" "msg_role m = role" "msg_content m = content"
    "msg_status m = status" "msg_created_at m = now" "msg_result m = result"
    by (simp_all add: m message_model_def mr_def)
  have "i < ss_next s" using sql_invD(1) [OF inv] row(2,3) by (auto simp: fresh_table_def)
  then have inv1: "sql_inv s1"
    using inv by (auto simp: sql_inv_def s1_def mr_def less_Suc_eq intro!: fresh_table_append elim: fresh_table_mono)
  show "sql_inv s'" unfolding s' by (rule inv_upd_row [OF inv1]) auto
  have rows1: "rows_of s1 j = (if j = i then rows_of s i @ [mr] else rows_of s j)" for j
    using rows_of_append [of mr s i j] by (simp add: rows_of_def s1_def mr_def)
  have s1: "ss_conversations s1 = ss_conversations s" "ss_next s1 = Suc (ss_next s)" by (simp_all add: s1_def)
  have row1: "row_of s1 j = row_of s j" for j by (simp add: row_of_def s1)
  have only: "r' = r" if "r' \<in> set (ss_conversations s)" "cr_id r' = i" for r'
    using distinct_key_eq [OF sql_invD(2) [OF inv] that(1) row(2)] that(2) row(3) by simp
  let ?n = "shown_name (if role = RoleUser \<and> cr_name r = None then Some (derive_name content) else cr_name r)"
  have "sql_abs s' = appended i m now (\<lambda>_. ?n) (sql_abs s)"
  proof (rule mem_store.equality)
    show "ms_items (sql_abs s') = ms_items (appended i m now (\<lambda>_. ?n) (sql_abs s))"
      using only by (auto simp: sql_abs_def appended_def s' upd_row_def upd_where_def mutate_item_def
          model_of_def rows1 m conversation_model_def s1)
  qed (auto simp: sql_abs_def appended_def s' row_of_upd_row row1 s1 fun_eq_iff lease_of_def
      option.map_comp comp_def split: bind_split)
  then show "\<exists>r. get_row s i o' True = Inr r \<and> sql_abs s' = appended i m now
       (\<lambda>_. shown_name (if role = RoleUser \<and> cr_name r = None then Some (derive_name content) else cr_name r))
       (sql_abs s)" using r by blast
  show "names_ok s'" if "names_ok s"
    "role = RoleUser \<Longrightarrow> derive_name content \<noteq> [] \<and> derive_name content \<noteq> default_name"
    using that by (auto simp: names_ok_def s' upd_row_def set_upd_where s1 split: if_splits)
qed


text \<open>Pruning by row ids and by message ids.\<close>

fun row_pairs :: "message_row option \<Rightarrow> message_row list \<Rightarrow> (message_row \<times> message_row) list" where
  "row_pairs pending [] = []"
| "row_pairs pending (m # ms) =
     (if mr_role m = RoleUser \<and> mr_status m = MCompleted then row_pairs (Some m) ms
      else if mr_role m = RoleAssistant \<and> mr_status m = MCompleted
      then (case pending of None \<Rightarrow> row_pairs None ms | Some u \<Rightarrow> (u, m) # row_pairs None ms)
      else row_pairs pending ms)"

lemma exchange_row_ids_pairs:
  "exchange_row_ids p ms = map (\<lambda>(u, a). (mr_row_id u, mr_row_id a)) (row_pairs p ms)"
  by (induction p ms rule: row_pairs.induct) (auto split: option.split)

lemma exchanges_pairs:
  "exchanges_from (map_option message_model p) (map message_model ms) =
     map (\<lambda>(u, a). (message_model u, message_model a)) (row_pairs p ms)"
proof (induction p ms rule: row_pairs.induct)
  case (2 pending m ms)
  then show ?case by (cases pending) (auto simp: message_model_def)
qed simp

lemma row_pairs_members:
  "(u, a) \<in> set (row_pairs p ms) \<Longrightarrow> a \<in> set ms \<and> (u \<in> set ms \<or> p = Some u)"
  by (induction p ms rule: row_pairs.induct) (auto split: if_splits option.splits)

definition pair_rows :: "(message_row \<times> message_row) list \<Rightarrow> message_row set" where
  "pair_rows ps = (\<Union>(u, a)\<in>set ps. {u, a})"

lemma set_pair_keys: "set (concat (map (\<lambda>(u, a). [f u, f a]) ps)) = f ` pair_rows ps"
  by (induction ps) (auto simp: pair_rows_def)

lemma rows_of_filter:
  "rows_of (s\<lparr>ss_messages := filter P (ss_messages s)\<rparr>) j = filter P (rows_of s j)"
  by (simp add: rows_of_def filter_sort conj_commute)

lemma set_rows_of: "m \<in> set (rows_of s i) \<longleftrightarrow> m \<in> set (ss_messages s) \<and> mr_conversation_id m = i"
  by (auto simp: rows_of_def)

lemma row_pairs_sub: "pair_rows (take k (row_pairs None (rows_of s i))) \<subseteq> set (rows_of s i)"
  by (auto simp: pair_rows_def dest!: in_set_takeD row_pairs_members)

lemma sql_prune_spec:
  assumes inv: "sql_inv s"
  shows "\<exists>s'. sql_prune cfg i s = Inr (s', ()) \<and> sql_inv s' \<and> (names_ok s \<longrightarrow> names_ok s') \<and>
    sql_abs s' = mutate_item i
      (\<lambda>c. c\<lparr>c_messages := prune_messages (cfg_max_turns cfg) (c_messages c)\<rparr>) (sql_abs s)"
proof -
  let ?pairs = "row_pairs None (rows_of s i)"
  let ?k = "length ?pairs - cfg_max_turns cfg"
  define R where "R = pair_rows (take ?k ?pairs)"
  have sub: "R \<subseteq> set (rows_of s i)" unfolding R_def by (rule row_pairs_sub)
  then have subm: "R \<subseteq> set (ss_messages s)" by (auto simp: set_rows_of)
  have inj: "x \<in> R \<longleftrightarrow> f x \<in> f ` R" if "x \<in> set (ss_messages s)" "fresh_table f (ss_messages s) n" for x f n
    using that subm by (auto dest: fresh_table_eq)
  define s' where "s' = s\<lparr>ss_messages := filter (\<lambda>m. m \<notin> R) (ss_messages s)\<rparr>"
  have Rk: "R = {}" if "?k = 0" using that by (simp add: R_def pair_rows_def)
  have rows: "mr_row_id ` R = set (concat (map (\<lambda>(u, a). [u, a]) (take ?k (exchange_row_ids None (rows_of s i)))))"
    unfolding exchange_row_ids_pairs take_map R_def set_pair_keys [symmetric] by (simp add: comp_def case_prod_beta')
  have "sql_prune cfg i s = Inr (s', ())"
  proof (cases "?k = 0")
    case True
    then show ?thesis using Rk by (simp add: sql_prune_def exchange_row_ids_pairs s'_def)
  next
    case False
    have "del_where (\<lambda>m. mr_row_id m \<in> mr_row_id ` R) (ss_messages s) = filter (\<lambda>m. m \<notin> R) (ss_messages s)"
      unfolding del_where_def using inj [OF _ sql_invD(4) [OF inv]] by (intro filter_cong) auto
    then show ?thesis using False rows
      by (simp add: sql_prune_def Let_def s'_def exchange_row_ids_pairs)
  qed
  moreover have "sql_inv s'"
    using inv fresh_table_del [of mr_id _ _ "\<lambda>m. m \<in> R"] fresh_table_del [of mr_row_id _ _ "\<lambda>m. m \<in> R"]
    by (auto simp: sql_inv_def s'_def del_where_def)
  moreover have "names_ok s \<longrightarrow> names_ok s'" by (simp add: names_ok_def s'_def)
  moreover have "sql_abs s' = mutate_item i
      (\<lambda>c. c\<lparr>c_messages := prune_messages (cfg_max_turns cfg) (c_messages c)\<rparr>) (sql_abs s)"
  proof -
    let ?ms = "map message_model (rows_of s i)"
    have es: "complete_exchanges ?ms = map (\<lambda>(u, a). (message_model u, message_model a)) ?pairs"
      using exchanges_pairs [of None] by (simp add: complete_exchanges_def)
    have ids: "set (concat (map (\<lambda>(u, a). [msg_id u, msg_id a]) (take ?k (complete_exchanges ?ms)))) = mr_id ` R"
      unfolding es take_map R_def set_pair_keys [symmetric]
      by (simp add: comp_def case_prod_beta' message_model_def)
    have "prune_messages (cfg_max_turns cfg) ?ms = filter (\<lambda>m. msg_id m \<notin> mr_id ` R) ?ms"
      using Rk ids by (auto simp: prune_messages_def Let_def es)
    also have "\<dots> = map message_model (filter (\<lambda>m. mr_id m \<notin> mr_id ` R) (rows_of s i))"
      by (simp add: filter_map comp_def message_model_def)
    also have "filter (\<lambda>m. mr_id m \<notin> mr_id ` R) (rows_of s i) = filter (\<lambda>m. m \<notin> R) (rows_of s i)"
      using inj [OF _ sql_invD(3) [OF inv]] by (intro filter_cong) (auto simp: set_rows_of)
    finally have pruned: "prune_messages (cfg_max_turns cfg) ?ms = map message_model (filter (\<lambda>m. m \<notin> R) (rows_of s i))" .
    have other: "filter (\<lambda>m. m \<notin> R) (rows_of s j) = rows_of s j" if "j \<noteq> i" for j
      using that sub by (auto simp: filter_id_conv set_rows_of)
    have rows': "rows_of s' j = filter (\<lambda>m. m \<notin> R) (rows_of s j)" for j
      unfolding s'_def by (rule rows_of_filter)
    have conv: "ss_conversations s' = ss_conversations s" "ss_next s' = ss_next s" by (simp_all add: s'_def)
    have row: "row_of s' j = row_of s j" for j by (simp add: row_of_def conv)
    have "model_of s' r = (if cr_id r = i
        then (model_of s r)\<lparr>c_messages := prune_messages (cfg_max_turns cfg) (c_messages (model_of s r))\<rparr>
        else model_of s r)" for r
      using pruned other [of "cr_id r"] by (auto simp: model_of_def conversation_model_def rows')
    then show ?thesis
      by (intro mem_store.equality)
        (auto simp: sql_abs_def mutate_item_def conv row upd_where_def)
  qed
  ultimately show ?thesis by blast
qed

end
