(* ===== verification/Conv_Simulation.thy ===== *)
theory Conv_Simulation
  imports Conv_Refinement "HOL-Library.Multiset"
begin

text \<open>
  Every call of the durable store against the same call of the process-local one, and the theorem
  for sequences of calls.
\<close>

section \<open>The calls one by one\<close>

definition simulates ::
  "sql_store \<Rightarrow> (store_error, sql_store, 'a) outcome \<Rightarrow> (store_error, mem_store, 'a) outcome \<Rightarrow> bool"
where
  "simulates s r r' \<longleftrightarrow> map_state sql_abs r = r' \<and> sql_inv (state_after s r) \<and>
     (names_ok s \<longrightarrow> names_ok (state_after s r))"

lemma simulates_Inl: "sql_inv s \<Longrightarrow> simulates s (Inl e) (Inl e)"
  by (simp add: simulates_def)

lemma names_upd_row:
  assumes "names_ok s" "\<And>r n. r \<in> set (ss_conversations s) \<Longrightarrow> cr_name (f r) = Some n \<Longrightarrow>
     (\<forall>m. cr_name r = Some m \<longrightarrow> m \<noteq> [] \<and> m \<noteq> default_name) \<Longrightarrow> n \<noteq> [] \<and> n \<noteq> default_name"
  shows "names_ok (upd_row i f s)"
  using assms by (auto simp: names_ok_def upd_row_def set_upd_where)

lemma names_delete_rows: "names_ok s \<Longrightarrow> names_ok (delete_rows cascade P s)"
  by (auto simp: names_ok_def delete_rows_def Let_def set_del_where)

lemma sim_create:
  assumes "sql_inv s"
  shows "simulates s (sql_create p v o' now s) (mem_create p v o' now (sql_abs s))"
proof -
  let ?r = "\<lparr>cr_id = ss_next s, cr_project_id = p, cr_graph_version = v, cr_created_by = o', cr_name = None,
    cr_created_at = now, cr_updated_at = now, cr_archived_at = None, cr_active_request_id = None,
    cr_lease_expires_at = None\<rparr>"
  define s' where "s' = s\<lparr>ss_conversations := ss_conversations s @ [?r], ss_next := Suc (ss_next s)\<rparr>"
  have run: "sql_create p v o' now s = Inr (s', conversation_model ?r [])"
    by (simp add: sql_create_def Let_def s'_def)
  have inv: "sql_inv s'" using assms(1)
    by (auto simp: sql_inv_def s'_def less_Suc_eq intro!: fresh_table_append elim: fresh_table_mono)
  have names: "names_ok s \<longrightarrow> names_ok s'" by (auto simp: names_ok_def s'_def)
  have new: "\<forall>r\<in>set (ss_conversations s). cr_id r \<noteq> ss_next s"
    using sql_invD(1) [OF assms(1)] by (auto simp: fresh_table_def)
  have none: "row_of s (ss_next s) = None" using new by (simp add: row_of_def first_where_None)
  have row: "row_of s' i = (if i = ss_next s then Some ?r else row_of s i)" for i
  proof -
    have "first_where Q (xs @ [x]) = (case first_where Q xs of None \<Rightarrow> if Q x then Some x else None | Some y \<Rightarrow> Some y)"
      for Q and xs :: "conversation_row list" and x
      by (induction xs) (auto simp: first_where_def)
    then show ?thesis using none by (auto simp: row_of_def s'_def split: option.split)
  qed
  have rows: "rows_of s' = rows_of s" by (simp add: rows_of_def s'_def fun_eq_iff)
  have "filter (\<lambda>m. mr_conversation_id m = ss_next s) (ss_messages s) = []"
    by (auto simp: filter_empty_conv dest: sql_invD(5) [OF assms(1)])
  then have fresh: "rows_of s (ss_next s) = []" by (simp add: rows_of_def)
  have "exists_where (\<lambda>p. fst p = ss_next s) (ms_items (sql_abs s)) = False"
    using new by (auto simp: exists_where_def sql_abs_def)
  then have items: "ms_items (sql_abs s') = put_item (ss_next s) (conversation_model ?r []) (ms_items (sql_abs s))"
    using fresh by (simp add: put_item_def sql_abs_def model_of_def rows) (simp add: s'_def)
  have c: "conversation_model ?r [] = \<lparr>c_id = ss_next s, c_project_id = p, c_name = default_name,
      c_created_at = now, c_updated_at = now, c_archived_at = None, c_messages = []\<rparr>"
    by (simp add: conversation_model_def shown_name_def)
  have "mem_create p v o' now (sql_abs s) = Inr (sql_abs s', conversation_model ?r [])"
    using items by (auto simp: mem_create_def Let_def c sql_abs_def row fun_eq_iff lease_of_def none
        intro!: mem_store.equality) (simp_all add: s'_def none)
  then show ?thesis unfolding run simulates_def using inv names by simp
qed

lemma sim_get:
  assumes "sql_inv s"
  shows "simulates s (sql_get i o' s) (mem_get i o' (sql_abs s))"
  using assms by (cases "get_row s i o' True")
    (auto simp: sql_get_def mem_get_def owned_abs simulates_def model_of_def)

lemma sim_get_scope:
  assumes "sql_inv s"
  shows "simulates s (sql_get_scope i o' a s) (mem_get_scope i o' a (sql_abs s))"
proof (cases "get_row s i o' (\<not> a)")
  case (Inl e)
  then show ?thesis using assms by (simp add: sql_get_scope_def mem_get_scope_def owned_abs simulates_def)
next
  case (Inr r)
  then show ?thesis using assms get_row_Inr(1) [OF assms(1) Inr]
    by (simp add: sql_get_scope_def mem_get_scope_def owned_abs simulates_def model_of_def conversation_model_def)
qed

text \<open>The mutations of one row that need a lookup and no lease share one pattern.\<close>

lemma get_row_model:
  assumes "sql_inv s" "get_row s i o' a = Inr r"
  shows "owned (sql_abs s) i o' a = Inr (model_of s r)" "leased (sql_abs s) i now = reject_active_lease r now"
    "cr_id r = i"
  using assms get_row_Inr [OF assms] by (simp_all add: owned_abs leased_abs)

lemma sim_rename:
  assumes "sql_inv s" "strip_text n \<noteq> []" "strip_text n \<noteq> default_name"
  shows "simulates s (sql_rename i n o' now s) (mem_rename i n o' now (sql_abs s))"
proof (cases "get_row s i o' True")
  case (Inl e)
  then show ?thesis using assms by (simp add: sql_rename_def mem_rename_def owned_abs simulates_Inl)
next
  case (Inr r)
  let ?f = "\<lambda>r. r\<lparr>cr_name := Some (strip_text n), cr_updated_at := now\<rparr>"
  let ?g = "\<lambda>c. c\<lparr>c_name := strip_text n, c_updated_at := now\<rparr>"
  have abs: "sql_abs (upd_row i ?f s) = mutate_item i ?g (sql_abs s)"
    by (rule abs_upd_row) (use assms(2) in \<open>auto simp: lease_of_def conversation_model_def shown_name_def\<close>)
  have ok: "sql_inv (upd_row i ?f s)" "names_ok s \<longrightarrow> names_ok (upd_row i ?f s)"
    using assms by (auto intro!: inv_upd_row names_upd_row)
  have m: "conversation_model (?f r) (rows_of s i) = ?g (model_of s r)"
    using assms(2) get_row_Inr(3) [OF assms(1) Inr] by (simp add: conversation_model_def model_of_def shown_name_def)
  show ?thesis using abs ok assms(1) get_row_model [OF assms(1) Inr]
    by (cases "reject_active_lease r now") (simp_all add: sql_rename_def mem_rename_def Inr m simulates_def)
qed

lemma sim_archive:
  assumes "sql_inv s"
  shows "simulates s (sql_archive i o' now s) (mem_archive i o' now (sql_abs s))"
proof (cases "get_row s i o' True")
  case (Inl e)
  then show ?thesis using assms by (simp add: sql_archive_def mem_archive_def owned_abs simulates_Inl)
next
  case (Inr r)
  let ?f = "\<lambda>r. r\<lparr>cr_archived_at := Some now, cr_updated_at := now\<rparr>"
  have "sql_abs (upd_row i ?f s) = mutate_item i (\<lambda>c. c\<lparr>c_archived_at := Some now, c_updated_at := now\<rparr>) (sql_abs s)"
    by (rule abs_upd_row) (auto simp: lease_of_def conversation_model_def)
  moreover have "sql_inv (upd_row i ?f s)" "names_ok s \<longrightarrow> names_ok (upd_row i ?f s)"
    using assms by (auto intro!: inv_upd_row names_upd_row)
  ultimately show ?thesis using assms get_row_model [OF assms(1) Inr]
    by (cases "reject_active_lease r now") (simp_all add: sql_archive_def mem_archive_def Inr simulates_def)
qed

lemma sim_restore:
  assumes "sql_inv s"
  shows "simulates s (sql_restore i o' now s) (mem_restore i o' now (sql_abs s))"
proof (cases "get_row s i o' False")
  case (Inl e)
  then show ?thesis using assms by (simp add: sql_restore_def mem_restore_def owned_abs simulates_Inl)
next
  case (Inr r)
  let ?f = "\<lambda>r. r\<lparr>cr_archived_at := None, cr_updated_at := now\<rparr>"
  have "sql_abs (upd_row i ?f s) = mutate_item i (\<lambda>c. c\<lparr>c_archived_at := None, c_updated_at := now\<rparr>) (sql_abs s)"
    by (rule abs_upd_row) (auto simp: lease_of_def conversation_model_def)
  moreover have "sql_inv (upd_row i ?f s)" "names_ok s \<longrightarrow> names_ok (upd_row i ?f s)"
    using assms by (auto intro!: inv_upd_row names_upd_row)
  moreover have "conversation_model (?f r) (rows_of s (cr_id r)) =
      (model_of s r)\<lparr>c_archived_at := None, c_updated_at := now\<rparr>"
    by (simp add: conversation_model_def model_of_def)
  ultimately show ?thesis using assms get_row_model [OF assms(1) Inr]
    by (cases "reject_active_lease r now"; cases "cr_archived_at r")
      (simp_all add: sql_restore_def mem_restore_def Inr simulates_def)
qed

lemma sim_purge:
  assumes "sql_inv s"
  shows "simulates s (sql_purge i o' now s) (mem_purge i o' now (sql_abs s))"
proof (cases "get_row s i o' False")
  case (Inl e)
  then show ?thesis using assms by (simp add: sql_purge_def mem_purge_def owned_abs simulates_Inl)
next
  case (Inr r)
  note row = get_row_Inr [OF assms(1) Inr]
  have "map cr_id (filter (\<lambda>x. cr_id x = i) (ss_conversations s)) = [i]"
  proof -
    have "distinct (map cr_id xs) \<Longrightarrow> r \<in> set xs \<Longrightarrow> map cr_id (filter (\<lambda>x. cr_id x = i) xs) = [i]" for xs
    proof (induction xs)
      case (Cons x xs)
      then show ?case using row(3) by (cases "x = r") (auto simp: filter_empty_conv image_iff)
    qed simp
    then show ?thesis using sql_invD(2) [OF assms(1)] row(2) by simp
  qed
  then have "sql_abs (delete_rows True (\<lambda>x. cr_id x = i) s) = drop_item i (sql_abs s)"
    using abs_delete_rows [OF assms(1), of True "\<lambda>x. cr_id x = i"] by simp
  moreover have "sql_inv (delete_rows True (\<lambda>x. cr_id x = i) s)" "names_ok s \<longrightarrow> names_ok (delete_rows True (\<lambda>x. cr_id x = i) s)"
    using assms by (auto intro!: inv_delete_rows names_delete_rows)
  ultimately show ?thesis using assms get_row_model [OF assms(1) Inr]
    by (cases "reject_active_lease r now"; cases "cr_archived_at r")
      (simp_all add: sql_purge_def mem_purge_def Inr simulates_def)
qed

text \<open>Bulk deletions.\<close>

lemma abs_items_filter:
  assumes "\<And>r. r \<in> set (ss_conversations s) \<Longrightarrow> Q (model_of s r) = P r"
  shows "map fst (filter (\<lambda>p. Q (snd p)) (ms_items (sql_abs s))) = map cr_id (filter P (ss_conversations s))"
  using assms by (auto simp: sql_abs_def filter_map comp_def intro!: arg_cong [where f = "map cr_id"] filter_cong)

lemma sim_cleanup:
  assumes "sql_inv s"
  shows "simulates s (sql_cleanup cfg cascade now s) (mem_cleanup cfg now (sql_abs s))"
proof -
  let ?P = "\<lambda>a. case a of None \<Rightarrow> False | Some t \<Rightarrow> t < now - timedelta_days (cfg_retention_days cfg)"
  have ids: "map fst (filter (\<lambda>p. ?P (c_archived_at (snd p))) (ms_items (sql_abs s))) =
      map cr_id (filter (\<lambda>r. ?P (cr_archived_at r)) (ss_conversations s))"
    by (rule abs_items_filter) simp
  note len = arg_cong [OF ids, of length, simplified]
  show ?thesis using ids len assms abs_delete_rows [OF assms(1), of cascade "\<lambda>r. ?P (cr_archived_at r)"]
    by (simp add: sql_cleanup_def mem_cleanup_def Let_def simulates_def inv_delete_rows names_delete_rows count_where_def)
qed

lemma sim_delete_project:
  assumes "sql_inv s"
  shows "simulates s (sql_delete_project cascade p s) (mem_delete_project p (sql_abs s))"
proof -
  have ids: "map fst (filter (\<lambda>x. c_project_id (snd x) = p) (ms_items (sql_abs s))) =
      map cr_id (filter (\<lambda>r. cr_project_id r = p) (ss_conversations s))"
    by (rule abs_items_filter) (simp add: model_of_def conversation_model_def)
  note len = arg_cong [OF ids, of length, simplified]
  show ?thesis using ids len assms abs_delete_rows [OF assms(1), of cascade "\<lambda>r. cr_project_id r = p"]
    by (simp add: sql_delete_project_def mem_delete_project_def Let_def simulates_def inv_delete_rows
        names_delete_rows count_where_def)
qed


section \<open>Lists\<close>

lemma cursor_of_summary: "cursor_of c = (su_updated_at (summary_of c), su_id (summary_of c))"
  by (simp add: cursor_of_def summary_of_def)

lemma page_of_cong:
  assumes "map summary_of xs = map summary_of ys"
  shows "page_of n xs = page_of n ys"
proof -
  have len: "length xs = length ys" using assms by (metis length_map)
  have pg: "map summary_of (take n xs) = map summary_of (take n ys)" using assms by (metis take_map)
  then have Nil: "take n xs = [] \<longleftrightarrow> take n ys = []" by (metis map_is_Nil_conv)
  have last: "cursor_of (last (take n xs)) = cursor_of (last (take n ys))" if "take n xs \<noteq> []"
    using that Nil pg unfolding cursor_of_summary by (metis last_map)
  show ?thesis using len pg Nil last by (simp add: page_of_def Let_def)
qed

lemma sort_key_map_list: "sort_key k (map f xs) = map f (sort_key (\<lambda>x. k (f x)) xs)"
proof (induction xs)
  case (Cons x xs)
  have "insort_key k (f x) (map f ys) = map f (insort_key (\<lambda>x. k (f x)) x ys)" for ys
    by (induction ys) auto
  with Cons show ?case by simp
qed simp

lemma sort_key_rev: "inj_on k (set xs) \<Longrightarrow> sort_key k (rev xs) = sort_key k xs"
  by (rule sort_key_inj_key_eq) auto

lemma sort_newest_rows:
  assumes "sql_inv s" "set rows \<subseteq> set (ss_conversations s)"
  shows "sort_newest (map (model_of s) rows) = map (model_of s) (rev (sort_key row_key rows))"
proof -
  have key: "cursor_of (model_of s r) = row_key r" for r
    by (simp add: cursor_of_def model_of_def conversation_model_def row_key_def)
  have "inj_on row_key (set rows)"
    using distinct_key_eq [OF sql_invD(2) [OF assms(1)]] assms(2) by (auto simp: inj_on_def row_key_def)
  then have "sort_key row_key (rev rows) = sort_key row_key rows" by (rule sort_key_rev)
  then show ?thesis by (simp add: sort_newest_def sort_key_map_list key rev_map)
qed

lemma filter_map_rows:
  "(\<And>r. r \<in> set xs \<Longrightarrow> N (h r) = Q r) \<Longrightarrow> filter N (map h xs) = map h (filter Q xs)"
  by (induction xs) auto

lemma sim_list:
  assumes "sql_inv s"
  shows "simulates s (sql_list p o' st n b s) (mem_list p o' st n b (sql_abs s))"
proof -
  let ?Q = "\<lambda>r. cr_project_id r = p \<and> cr_created_by r = o' \<and>
      (if st = ListActive then cr_archived_at r = None else cr_archived_at r \<noteq> None) \<and>
      (case b of None \<Rightarrow> True
       | Some (updated_at, identifier) \<Rightarrow> cr_updated_at r < updated_at \<or>
           (cr_updated_at r = updated_at \<and> cr_id r < identifier))"
  let ?rows = "filter ?Q (ss_conversations s)"
  let ?N = "\<lambda>(i, item). c_project_id item = p \<and> ms_owners (sql_abs s) i = Some o' \<and>
      (c_archived_at item = None) = (st = ListActive) \<and>
      (case b of None \<Rightarrow> True | Some b \<Rightarrow> cursor_of item < b)"
  have "?N (cr_id r, model_of s r) = ?Q r" if "r \<in> set (ss_conversations s)" for r
    using row_of_mem [OF assms(1) that]
    by (auto simp: model_of_def conversation_model_def cursor_of_def less_prod_def split: option.splits)
  then have "filter ?N (map (\<lambda>r. (cr_id r, model_of s r)) (ss_conversations s)) =
      map (\<lambda>r. (cr_id r, model_of s r)) ?rows"
    by (rule filter_map_rows)
  then have "filter ?N (ms_items (sql_abs s)) = map (\<lambda>r. (cr_id r, model_of s r)) ?rows"
    by (simp only: sql_abs_def mem_store.simps)
  then have "sort_newest (map snd (filter ?N (ms_items (sql_abs s)))) = map (model_of s) (rev (sort_key row_key ?rows))"
    using sort_newest_rows [OF assms(1), of ?rows] by (simp add: comp_def)
  then have mem: "mem_list p o' st n b (sql_abs s) =
      Inr (sql_abs s, page_of n (map (model_of s) (take (n + 1) (rev (sort_key row_key ?rows)))))"
    by (simp add: mem_list_def Let_def take_map)
  have "page_of n (map (\<lambda>r. conversation_model r []) rs) = page_of n (map (model_of s) rs)" for rs
    by (rule page_of_cong) (simp add: summary_of_def model_of_def conversation_model_def)
  then show ?thesis unfolding mem simulates_def sql_list_def Let_def using assms by simp
qed

section \<open>Messages\<close>

lemma mutate_cong:
  assumes "item_of t i = Some c" "f c = g c" "distinct (map fst (ms_items t))"
  shows "mutate_item i f t = mutate_item i g t"
proof -
  have "x = (i, c)" if "x \<in> set (ms_items t)" "fst x = i" for x
    using that assms(1) map_of_eq_Some_iff [OF assms(3)] map_of_is_SomeI [OF assms(3), of "fst x" "snd x"]
    by (cases x) (auto simp: item_of_def)
  then have "map (\<lambda>x. if fst x = i then (fst x, f (snd x)) else x) (ms_items t) =
      map (\<lambda>x. if fst x = i then (fst x, g (snd x)) else x) (ms_items t)"
    using assms(2) by (intro map_cong) auto
  then show ?thesis by (simp add: mutate_item_def upd_where_def)
qed

lemma abs_distinct: "sql_inv s \<Longrightarrow> distinct (map fst (ms_items (sql_abs s)))"
  using sql_invD(2) by (simp add: sql_abs_def comp_def)

lemma sim_append:
  assumes "sql_inv s"
    and names: "role = RoleUser \<Longrightarrow> names_ok s"
    and content: "role = RoleUser \<Longrightarrow> derive_name content \<noteq> [] \<and> derive_name content \<noteq> default_name"
  shows "simulates s (sql_append i role content status result o' now s)
    (mem_append i role content status result o' now (sql_abs s))"
proof (cases "get_row s i o' True")
  case (Inl e)
  then show ?thesis using assms(1)
    by (simp add: sql_append_def mem_append_def owned_abs simulates_Inl Let_def)
next
  case (Inr r)
  note row = get_row_Inr [OF assms(1) Inr]
  obtain s' m where run: "sql_append i role content status result o' now s = Inr (s', m)"
    by (simp add: sql_append_def Inr Let_def)
  note spec = sql_append_spec [OF assms(1) run]
  have m: "m = \<lparr>msg_id = ss_next s, msg_role = role, msg_content = content, msg_status = status,
      msg_created_at = now, msg_result = result\<rparr>"
    using spec by (intro message.equality) auto
  let ?n = "shown_name (if role = RoleUser \<and> cr_name r = None then Some (derive_name content) else cr_name r)"
  let ?n' = "\<lambda>c. if role = RoleUser \<and> c_name c = default_name then derive_name content else c_name c"
  have abs: "sql_abs s' = appended i m now (\<lambda>_. ?n) (sql_abs s)" using spec(8) Inr by auto
  have "cr_name r = None \<longleftrightarrow> c_name (model_of s r) = default_name" if "role = RoleUser"
    using names [OF that] row(2) by (auto simp: names_ok_def model_of_def conversation_model_def shown_name_def split: option.splits)
  then have "?n = ?n' (model_of s r)"
    using content by (auto simp: shown_name_def model_of_def conversation_model_def)
  then have "appended i m now (\<lambda>_. ?n) (sql_abs s) = appended i m now ?n' (sql_abs s)"
    unfolding appended_def using row(1)
    by (intro arg_cong [where f = "\<lambda>t. t\<lparr>ms_next := _\<rparr>"] mutate_cong [where c = "model_of s r"])
      (auto simp: item_of_abs abs_distinct [OF assms(1)])
  with abs have "sql_abs s' = appended i m now ?n' (sql_abs s)" by simp
  then have "mem_append i role content status result o' now (sql_abs s) = Inr (sql_abs s', m)"
    using get_row_model [OF assms(1) Inr] by (simp add: mem_append_def Let_def appended_def m)
  then show ?thesis unfolding run simulates_def using spec(1,9) content by auto
qed

lemma sim_add_user:
  assumes "sql_inv s" "names_ok s" "derive_name content \<noteq> []" "derive_name content \<noteq> default_name"
  shows "simulates s (sql_add_user i content o' now s) (mem_add_user i content o' now (sql_abs s))"
  unfolding sql_add_user_def mem_add_user_def by (rule sim_append) (use assms in auto)

lemma sim_add_assistant:
  assumes "sql_inv s"
  shows "simulates s (sql_add_assistant cfg i content status result o' now s)
    (mem_add_assistant cfg i content status result o' now (sql_abs s))"
proof -
  have sim: "simulates s (sql_append i RoleAssistant content status result o' now s)
      (mem_append i RoleAssistant content status result o' now (sql_abs s))"
    by (rule sim_append) (use assms in auto)
  show ?thesis
  proof (cases "sql_append i RoleAssistant content status result o' now s")
    case (Inl e)
    with sim have mem: "mem_append i RoleAssistant content status result o' now (sql_abs s) = Inl e"
      by (simp add: simulates_def)
    show ?thesis using assms by (simp add: simulates_def sql_add_assistant_def mem_add_assistant_def Inl mem)
  next
    case (Inr p)
    obtain s1 m where p: "p = (s1, m)" by (cases p)
    have mem: "mem_append i RoleAssistant content status result o' now (sql_abs s) = Inr (sql_abs s1, m)"
      and ok: "sql_inv s1" "names_ok s \<longrightarrow> names_ok s1" using sim by (auto simp: simulates_def Inr p)
    obtain s2 where s2: "sql_prune cfg i s1 = Inr (s2, ())" "sql_inv s2" "names_ok s \<longrightarrow> names_ok s2"
      "sql_abs s2 = mutate_item i (\<lambda>c. c\<lparr>c_messages := prune_messages (cfg_max_turns cfg) (c_messages c)\<rparr>) (sql_abs s1)"
      using sql_prune_spec [OF ok(1), of cfg i] ok(2) by auto
    obtain t where "mem_prune cfg i (sql_abs s1) = Inr (t, ())" using prune_after_append [OF mem] by blast
    then have "mem_prune cfg i (sql_abs s1) = Inr (sql_abs s2, ())"
      using s2(4) by (auto simp: mem_prune_def split: option.splits)
    then show ?thesis using s2
      by (simp add: simulates_def sql_add_assistant_def mem_add_assistant_def Inr p mem)
  qed
qed

lemma sim_get_history:
  assumes "sql_inv s"
  shows "simulates s (sql_get_history i n k o' s) (mem_get_history i n k o' (sql_abs s))"
proof (cases "sql_get i o' s")
  case (Inl e)
  then have "mem_get i o' (sql_abs s) = Inl e" using sim_get [OF assms, of i o'] by (simp add: simulates_def)
  then show ?thesis using assms by (simp add: simulates_def sql_get_history_def mem_get_history_def Inl)
next
  case (Inr p)
  obtain s' c where p: "p = (s', c)" by (cases p)
  have "mem_get i o' (sql_abs s) = Inr (sql_abs s', c)" and "sql_inv s'" "names_ok s \<longrightarrow> names_ok s'"
    using sim_get [OF assms, of i o'] by (simp_all add: simulates_def Inr p)
  then show ?thesis by (simp add: simulates_def sql_get_history_def mem_get_history_def Inr p)
qed

section \<open>Leases\<close>

lemma upd_where_row:
  assumes "sql_inv s" "row_of s i = Some r" "P r" "\<And>x. P x \<Longrightarrow> cr_id x = i"
  shows "s\<lparr>ss_conversations := upd_where P f (ss_conversations s)\<rparr> = upd_row i f s"
proof -
  have "P x \<longleftrightarrow> cr_id x = i" if "x \<in> set (ss_conversations s)" for x
  proof
    assume "cr_id x = i"
    with row_of_mem [OF assms(1) that] assms(2) have "x = r" by simp
    with assms(3) show "P x" by simp
  qed (rule assms(4))
  then have "upd_where P f (ss_conversations s) = upd_where (\<lambda>x. cr_id x = i) f (ss_conversations s)"
    by (rule upd_where_cong)
  then show ?thesis by (simp add: upd_row_def)
qed

lemma count_where_row:
  assumes "sql_inv s" "\<And>x. P x \<Longrightarrow> cr_id x = i"
  shows "0 < count_where P (ss_conversations s) \<longleftrightarrow> (\<exists>r. row_of s i = Some r \<and> P r)"
  unfolding count_where_pos
proof
  assume "\<exists>x\<in>set (ss_conversations s). P x"
  then obtain x where x: "x \<in> set (ss_conversations s)" "P x" by blast
  with row_of_mem [OF assms(1) x(1)] assms(2) [OF x(2)] show "\<exists>r. row_of s i = Some r \<and> P r" by simp
next
  assume "\<exists>r. row_of s i = Some r \<and> P r"
  then obtain r where "row_of s i = Some r" "P r" by blast
  with row_of_Some [OF this(1)] show "\<exists>x\<in>set (ss_conversations s). P x" by blast
qed

lemma abs_upd_lease:
  assumes "\<And>r. cr_id (f r) = cr_id r" "\<And>r. cr_created_by (f r) = cr_created_by r"
    "\<And>r. cr_graph_version (f r) = cr_graph_version r" "\<And>r ms. conversation_model (f r) ms = conversation_model r ms"
    "\<And>r. lease_of (f r) = l" "row_of s i = Some r0"
  shows "sql_abs (upd_row i f s) = (sql_abs s)\<lparr>ms_leases := (ms_leases (sql_abs s))(i := l)\<rparr>"
proof -
  have "ms_items (sql_abs (upd_row i f s)) = ms_items (sql_abs s)"
    by (auto simp: sql_abs_def upd_row_def upd_where_def model_of_def assms)
  then show ?thesis using assms(6)
    by (intro mem_store.equality)
      (auto simp: sql_abs_def row_of_upd_row assms fun_eq_iff option.map_comp comp_def)
qed

lemma sim_acquire:
  assumes "sql_inv s"
  shows "simulates s (sql_acquire cfg i q o' now s) (mem_acquire cfg i q o' now (sql_abs s))"
proof (cases "get_row s i o' True")
  case (Inl e)
  let ?P = "acquirable i q o' now"
  have none: "\<not> (cr_created_by r = o' \<and> cr_archived_at r = None)" if "row_of s i = Some r" for r
    using Inl that by (auto simp: get_row_eq [OF assms(1)] split: if_splits)
  then have "\<not> 0 < count_where ?P (ss_conversations s)"
    using count_where_row [OF assms(1), of ?P i] by (auto simp: acquirable_def)
  moreover have "first_where (\<lambda>r. cr_id r = i \<and> cr_created_by r = o' \<and> cr_archived_at r = None) (ss_conversations s) = None"
    using Inl by (auto simp: get_row_def split: option.splits)
  ultimately show ?thesis using assms Inl
    by (auto simp: sql_acquire_def mem_acquire_def owned_abs simulates_Inl get_row_def split: option.splits)
next
  case (Inr r)
  note row = get_row_Inr [OF assms(1) Inr]
  let ?P = "acquirable i q o' now"
  let ?e = "now + timedelta_seconds (cfg_lease_seconds cfg)"
  let ?f = "\<lambda>r. r\<lparr>cr_active_request_id := Some q, cr_lease_expires_at := Some ?e\<rparr>"
  have lease: "ms_leases (sql_abs s) i = lease_of r" by (simp add: row(1))
  have both: "(cr_active_request_id r = None) = (cr_lease_expires_at r = None)"
    using sql_invD(6) [OF assms(1) row(2)] .
  have P: "?P r \<longleftrightarrow> (\<forall>a e. lease_of r = Some (a, e) \<longrightarrow> a = q \<or> e \<le> now)"
    using row both by (auto simp: acquirable_def lease_of_def split: option.splits)
  have pos: "0 < count_where ?P (ss_conversations s) \<longleftrightarrow> ?P r"
    using count_where_row [OF assms(1), of ?P i] row(1) by (auto simp: acquirable_def)
  show ?thesis
  proof (cases "?P r")
    case True
    have upd: "s\<lparr>ss_conversations := upd_where ?P ?f (ss_conversations s)\<rparr> = upd_row i ?f s"
      by (rule upd_where_row [OF assms(1) row(1)], rule True) (simp add: acquirable_def)
    have "sql_abs (upd_row i ?f s) = (sql_abs s)\<lparr>ms_leases := (ms_leases (sql_abs s))(i \<mapsto> (q, ?e))\<rparr>"
      by (rule abs_upd_lease [OF _ _ _ _ _ row(1)]) (simp_all add: conversation_model_def lease_of_def)
    moreover have "sql_inv (upd_row i ?f s)" "names_ok s \<longrightarrow> names_ok (upd_row i ?f s)"
      using assms by (auto intro!: inv_upd_row names_upd_row)
    moreover have "sql_acquire cfg i q o' now s = Inr (upd_row i ?f s, ())"
      using True pos upd by (simp add: sql_acquire_def Let_def)
    moreover have "mem_acquire cfg i q o' now (sql_abs s) =
        Inr ((sql_abs s)\<lparr>ms_leases := (ms_leases (sql_abs s))(i \<mapsto> (q, ?e))\<rparr>, ())"
      using P True get_row_model(1) [OF assms(1) Inr] lease
      by (fastforce simp: mem_acquire_def split: option.split)
    ultimately show ?thesis by (simp add: simulates_def)
  next
    case False
    then obtain a e where l: "lease_of r = Some (a, e)" "a \<noteq> q" "now < e" using P by fastforce
    then have a: "cr_active_request_id r = Some a" by (auto simp: lease_of_def split: option.splits)
    have "first_where (\<lambda>r. cr_id r = i \<and> cr_created_by r = o' \<and> cr_archived_at r = None) (ss_conversations s) = Some r"
      using Inr by (auto simp: get_row_def split: option.splits)
    then have "sql_acquire cfg i q o' now s = Inl (ConversationRequestConflict i a)"
      using False pos a by (simp add: sql_acquire_def Let_def)
    moreover have "mem_acquire cfg i q o' now (sql_abs s) = Inl (ConversationRequestConflict i a)"
      using l lease get_row_model(1) [OF assms(1) Inr] by (simp add: mem_acquire_def)
    ultimately show ?thesis using assms by (simp add: simulates_Inl)
  qed
qed

lemma sim_release:
  assumes "sql_inv s"
  shows "simulates s (sql_release i q o' s) (mem_release i q o' (sql_abs s))"
proof -
  let ?P = "\<lambda>r. cr_id r = i \<and> cr_created_by r = o' \<and> cr_active_request_id r = Some q"
  let ?f = "\<lambda>r. r\<lparr>cr_active_request_id := None, cr_lease_expires_at := None\<rparr>"
  have pos: "0 < count_where ?P (ss_conversations s) \<longleftrightarrow> (\<exists>r. row_of s i = Some r \<and> ?P r)"
    by (rule count_where_row [OF assms(1)]) simp
  have ex: "exists_where (\<lambda>r. cr_id r = i \<and> cr_created_by r = o') (ss_conversations s) \<longleftrightarrow>
      (\<exists>r. row_of s i = Some r \<and> cr_created_by r = o')"
    using row_of_mem [OF assms(1)] by (fastforce simp: exists_where_def dest: row_of_Some)
  show ?thesis
  proof (cases "row_of s i")
    case None
    then show ?thesis using assms pos ex
      by (simp add: sql_release_def mem_release_def item_of_abs simulates_Inl)
  next
    case (Some r)
    have r: "r \<in> set (ss_conversations s)" "cr_id r = i" using row_of_Some [OF Some] by auto
    show ?thesis
    proof (cases "?P r")
      case True
      have upd: "s\<lparr>ss_conversations := upd_where ?P ?f (ss_conversations s)\<rparr> = upd_row i ?f s"
        by (rule upd_where_row [OF assms(1) Some], rule True) simp
      have "sql_abs (upd_row i ?f s) = (sql_abs s)\<lparr>ms_leases := (ms_leases (sql_abs s))(i := None)\<rparr>"
        by (rule abs_upd_lease [OF _ _ _ _ _ Some]) (simp_all add: conversation_model_def lease_of_def)
      moreover have "sql_inv (upd_row i ?f s)" "names_ok s \<longrightarrow> names_ok (upd_row i ?f s)"
        using assms by (auto intro!: inv_upd_row names_upd_row)
      moreover have "sql_release i q o' s = Inr (upd_row i ?f s, ())"
        using True pos upd Some by (simp add: sql_release_def Let_def)
      moreover obtain e where "lease_of r = Some (q, e)"
        using True sql_invD(6) [OF assms(1) r(1)] by (auto simp: lease_of_def split: option.splits)
      then have "mem_release i q o' (sql_abs s) =
          Inr ((sql_abs s)\<lparr>ms_leases := (ms_leases (sql_abs s))(i := None)\<rparr>, ())"
        using True Some by (simp add: mem_release_def item_of_abs)
      ultimately show ?thesis by (simp add: simulates_def)
    next
      case False
      then have not: "\<not> 0 < count_where ?P (ss_conversations s)" using pos Some by auto
      have other: "a \<noteq> q" if "lease_of r = Some (a, e)" "cr_created_by r = o'" for a e
        using that False r(2) by (auto simp: lease_of_def split: option.splits)
      show ?thesis using assms not other ex Some
        by (cases "lease_of r"; cases "cr_created_by r = o'")
          (auto simp: sql_release_def mem_release_def item_of_abs simulates_def Let_def split: option.splits)
    qed
  qed
qed

section \<open>All calls\<close>

text \<open>A name that is neither empty nor the default name, where a call sets one.\<close>

fun distinctive_name :: "store_call \<Rightarrow> bool" where
  "distinctive_name (CallRename i n owner) = (strip_text n \<noteq> [] \<and> strip_text n \<noteq> default_name)"
| "distinctive_name (CallAddUser i c owner) = (derive_name c \<noteq> [] \<and> derive_name c \<noteq> default_name)"
| "distinctive_name _ = True"

lemma simulates_map_reply: "simulates s r r' \<Longrightarrow> simulates s (map_reply f r) (map_reply f r')"
  unfolding simulates_def by (simp add: map_state_map_reply)

lemmas sims = sim_cleanup sim_create sim_get sim_list sim_get_scope sim_archive sim_restore sim_purge
  sim_delete_project sim_add_assistant sim_acquire sim_release sim_get_history

lemma sim_call:
  assumes "sql_inv s" "distinctive_name call"
    and "\<And>i c owner. call = CallAddUser i c owner \<Longrightarrow> names_ok s"
  shows "simulates s (run_call (sql_ops cfg cascade) call now s) (run_call (mem_ops cfg) call now (sql_abs s))"
  using assms
  by (cases call) (auto simp: sql_ops_def mem_ops_def intro!: simulates_map_reply sims sim_rename sim_add_user)

section \<open>The contract\<close>

declare sql_abs_simps(4) [simp del]

lemma sql_append_Inl:
  "sql_inv s \<Longrightarrow> get_row s i owner True = Inl e \<Longrightarrow>
     sql_append i role content status result owner now s = Inl e"
  by (simp add: sql_append_def)

lemma mem_valid_abs: "sql_inv s \<Longrightarrow> mem_valid (sql_abs s)"
  using sql_invD(1) [of s] by (auto simp: mem_valid_def fresh_table_def sql_abs_def comp_def)

lemma simulates_Inr_iff:
  "simulates s (Inr (s', a)) r' \<Longrightarrow> r' = Inr (sql_abs s', a) \<and> sql_inv s'"
  by (auto simp: simulates_def)

text \<open>The two calls that set a name: what holds whatever the name is.\<close>

lemma rename_leased:
  assumes "sql_inv s" "ms_leases (sql_abs s) i = Some (q, e)" "now < e"
  shows "\<exists>err. sql_rename i n owner now s = Inl err"
proof (cases "get_row s i owner True")
  case (Inr r)
  then have eq: "leased (sql_abs s) i now = reject_active_lease r now" by (rule get_row_model(2) [OF assms(1)])
  have "leased (sql_abs s) i now \<noteq> None" using assms(2,3) by (simp add: leased_def)
  with eq have "reject_active_lease r now \<noteq> None" by simp
  then show ?thesis using Inr by (auto simp: sql_rename_def)
qed (simp add: sql_rename_def)

lemma rename_other:
  assumes "sql_inv s" "sql_rename j n owner now s = Inr (s', c)"
  shows "sql_inv s'" "ms_leases (sql_abs s') = ms_leases (sql_abs s)"
    "i \<noteq> j \<Longrightarrow> mem_view (sql_abs s') i = mem_view (sql_abs s) i"
proof -
  let ?f = "\<lambda>r. r\<lparr>cr_name := Some (strip_text n), cr_updated_at := now\<rparr>"
  have s': "s' = upd_row j ?f s"
    using assms get_row_Inr(3) [OF assms(1)] by (auto simp: sql_rename_def Let_def split: sum.splits option.splits)
  have abs: "sql_abs s' = mutate_item j (\<lambda>c. c\<lparr>c_name := shown_name (Some (strip_text n)), c_updated_at := now\<rparr>) (sql_abs s)"
    unfolding s' by (rule abs_upd_row) (auto simp: lease_of_def conversation_model_def)
  show "sql_inv s'" unfolding s' using assms(1) by (intro inv_upd_row) auto
  show "ms_leases (sql_abs s') = ms_leases (sql_abs s)" by (simp add: abs)
  show "i \<noteq> j \<Longrightarrow> mem_view (sql_abs s') i = mem_view (sql_abs s) i" by (simp add: abs mem_view_mutate)
qed

lemma add_user_spec:
  assumes "sql_inv s" "sql_add_user j content owner now s = Inr (s', m)"
  shows "sql_inv s'" "msg_role m = RoleUser" "msg_content m = content" "msg_status m = MCompleted"
    "\<exists>n. sql_abs s' = appended j m now n (sql_abs s)"
  using sql_append_spec [OF assms(1), of j RoleUser content MCompleted None owner now s' m] assms(2)
  by (auto simp: sql_add_user_def)

lemma appended_view:
  "mem_view (appended j m now n s) i =
     (if i = j then map_option (map_prod id (\<lambda>c. c\<lparr>c_messages := c_messages c @ [m], c_updated_at := now,
        c_name := n c\<rparr>)) (mem_view s i) else mem_view s i)"
  "ms_leases (appended j m now n s) = ms_leases s"
  by (simp_all add: appended_def mem_view_mutate)

lemma sql_call_valid:
  assumes "sql_inv s" "run_call (sql_ops cfg cascade) call now s = Inr (s', r)"
  shows "sql_inv s'"
proof -
  consider (rename) i n owner where "call = CallRename i n owner" | (user) i c owner where "call = CallAddUser i c owner"
    | (other) "distinctive_name call" "\<And>i c owner. call \<noteq> CallAddUser i c owner"
    by (cases call) auto
  then show ?thesis
  proof cases
    case rename
    then show ?thesis using assms rename_other(1) by (auto simp: sql_ops_def map_reply_Inr)
  next
    case user
    then show ?thesis using assms add_user_spec(1) by (auto simp: sql_ops_def map_reply_Inr)
  next
    case other
    with sim_call [OF assms(1), of call cfg cascade now] assms(2) show ?thesis by (auto dest: simulates_Inr_iff)
  qed
qed

text \<open>Every call of the durable store, but the two that set a name, runs as in the memory.\<close>

lemma sql_call_cases:
  assumes inv: "sql_inv s" and run: "run_call (sql_ops cfg cascade) call now s = Inr (s', r)"
  obtains (rename) j n o' x where "call = CallRename j n o'" "sql_rename j n o' now s = Inr (s', x)"
  | (user) j x o' m n where "call = CallAddUser j x o'" "sql_add_user j x o' now s = Inr (s', m)"
      "sql_abs s' = appended j m now n (sql_abs s)"
  | (rest) "run_call (mem_ops cfg) call now (sql_abs s) = Inr (sql_abs s', r)"
proof -
  consider (r) j n o' where "call = CallRename j n o'" | (u) j x o' where "call = CallAddUser j x o'"
    | (o) "distinctive_name call" "\<And>i c owner. call \<noteq> CallAddUser i c owner"
    by (cases call) auto
  then show thesis
  proof cases
    case r
    with run rename show thesis by (auto simp: sql_ops_def map_reply_Inr)
  next
    case u
    then obtain m where run': "sql_add_user j x o' now s = Inr (s', m)"
      using run by (auto simp: sql_ops_def map_reply_Inr)
    from add_user_spec(5) [OF inv run'] u run' user show thesis by blast
  next
    case o
    from sim_call [OF inv o(1), of cfg cascade now] o(2) run rest show thesis
      by (auto dest: simulates_Inr_iff)
  qed
qed

definition sql_taken :: "sql_store \<Rightarrow> ident \<Rightarrow> bool" where
  "sql_taken s i \<longleftrightarrow> mem_taken (sql_abs s) i"

lemma rename_next: "sql_rename j n owner now s = Inr (s', x) \<Longrightarrow> ms_next (sql_abs s') = ms_next (sql_abs s)"
  by (auto simp: sql_rename_def Let_def upd_row_def sql_abs_def split: sum.splits option.splits)

lemma rename_view_None:
  assumes "sql_inv s" "mem_view (sql_abs s) i = None" "sql_rename j n owner now s = Inr (s', x)"
  shows "mem_view (sql_abs s') i = None"
proof (cases "i = j")
  case True
  then have "owned (sql_abs s) j owner True = Inl (ConversationNotFound j)"
    using assms(2) by (auto simp: owned_def mem_view_def split: option.splits)
  then show ?thesis using assms(3) by (auto simp: sql_rename_def owned_abs [OF assms(1)] split: sum.splits)
qed (use rename_other(3) [OF assms(1,3)] assms(2) in simp)

lemma sql_gone_stays:
  assumes inv: "sql_inv s" and gone: "mem_view (sql_abs s) i = None" "sql_taken s i"
    and run: "run_call (sql_ops cfg cascade) call now s = Inr (s', r)"
  shows "mem_view (sql_abs s') i = None"
  using inv run
proof (cases rule: sql_call_cases)
  case (rename j n o' x)
  with rename_view_None [OF inv gone(1)] show ?thesis by blast
next
  case (user j x o' m n)
  with gone show ?thesis by (cases "i = j") (simp_all add: appended_view)
next
  case rest
  show ?thesis by (rule mem_gone_stays [OF mem_valid_abs [OF inv] gone(1) gone(2) [unfolded sql_taken_def] rest])
qed

lemma sql_call_taken:
  assumes inv: "sql_inv s" and "sql_taken s i" and run: "run_call (sql_ops cfg cascade) call now s = Inr (s', r)"
  shows "sql_taken s' i"
  using inv run
proof (cases rule: sql_call_cases)
  case (rename j n o' x)
  then show ?thesis using assms(2) rename_next [OF rename(2)] by (simp add: sql_taken_def mem_taken_def)
next
  case (user j x o' m n)
  then show ?thesis using assms(2) by (simp add: sql_taken_def mem_taken_def appended_def)
next
  case rest
  show ?thesis using mem_call_taken [OF assms(2) [unfolded sql_taken_def] rest] by (simp add: sql_taken_def)
qed

lemma sql_lease_kept:
  assumes inv: "sql_inv s" and view: "mem_view (sql_abs s) i = Some (owner, c)" "c_archived_at c = None"
    and lease: "ms_leases (sql_abs s) i = Some (q, e)" "now < e" and other: "\<not> own_lease_call i q call"
    and run: "run_call (sql_ops cfg cascade) call now s = Inr (s', r)"
  shows "ms_leases (sql_abs s') i = Some (q, e) \<and> (\<exists>c'. mem_view (sql_abs s') i = Some (owner, c') \<and>
      c_archived_at c' = None \<and> c_project_id c' = c_project_id c) \<or>
    mem_view (sql_abs s') i = None \<and> call = CallDeleteProject (c_project_id c)"
  using inv run
proof (cases rule: sql_call_cases)
  case (rename j n o' x)
  with rename_leased [OF inv lease(1,2), of n o'] have "i \<noteq> j" by auto
  with rename_other [OF inv rename(2)] show ?thesis using view lease by simp
next
  case (user j x o' m n)
  then show ?thesis using view lease by (cases "i = j") (simp_all add: appended_view)
next
  case rest
  then show ?thesis by (rule mem_lease_kept [OF mem_valid_abs [OF inv] view lease other])
qed

lemma simulates_obtain:
  "simulates s r (Inr (t, a)) \<Longrightarrow> \<exists>s'. r = Inr (s', a) \<and> sql_abs s' = t \<and> sql_inv s'"
  by (cases r) (auto simp: simulates_def)

interpretation sql: conversation_store "sql_ops cfg cascade" sql_inv "\<lambda>s. mem_view (sql_abs s)"
  "\<lambda>s. ms_leases (sql_abs s)" sql_taken "timedelta_seconds (cfg_lease_seconds cfg)" "cfg_max_turns cfg" for cfg cascade
proof
  fix s :: sql_store and i owner c q now content status n k result call s' r
  fix q' :: string and e :: time and owner' :: string
  assume v: "sql_inv s"
  note valid = mem_valid_abs [OF v]
  show "sql_inv s'" if "run_call (sql_ops cfg cascade) call now s = Inr (s', r)"
    by (rule sql_call_valid [OF v that])
  show "st_acquire (sql_ops cfg cascade) i q owner now s = Inl (ConversationNotFound i)"
    if "mem_view (sql_abs s) i = None"
    using mem_acquire_gone [OF that, of cfg q owner now] sim_acquire [OF v, of cfg i q owner now]
    by (cases "sql_acquire cfg i q owner now s") (auto simp: sql_ops_def simulates_def)
  show "sql_taken s i" if "mem_view (sql_abs s) i \<noteq> None"
    using mem_view_taken [OF valid that] by (simp add: sql_taken_def)
  show taken: "sql_taken s' i" if "sql_taken s i" "run_call (sql_ops cfg cascade) call now s = Inr (s', r)"
    by (rule sql_call_taken [OF v that])
  show "mem_view (sql_abs s') i = None \<and> sql_taken s' i"
    if "mem_view (sql_abs s) i = None" "sql_taken s i" "run_call (sql_ops cfg cascade) call now s = Inr (s', r)"
    using sql_gone_stays [OF v that] taken [OF that(2,3)] by blast
  assume view: "mem_view (sql_abs s) i = Some (owner, c)"
  from mem.release_held [OF valid view, where q = q and cfg = cfg] sim_release [OF v, of i q owner]
  show "\<exists>s'. st_release (sql_ops cfg cascade) i q owner s = Inr (s', ()) \<and> sql_inv s' \<and>
      mem_view (sql_abs s') = mem_view (sql_abs s) \<and> ms_leases (sql_abs s') =
        (if \<exists>e. ms_leases (sql_abs s) i = Some (q, e) then (ms_leases (sql_abs s))(i := None) else ms_leases (sql_abs s))"
    by (auto simp: sql_ops_def mem_ops_def dest!: simulates_obtain)
  assume arch: "c_archived_at c = None"
  show "\<exists>s'. st_acquire (sql_ops cfg cascade) i q owner now s = Inr (s', ()) \<and> sql_inv s' \<and>
      mem_view (sql_abs s') = mem_view (sql_abs s) \<and> ms_leases (sql_abs s') =
        (ms_leases (sql_abs s))(i \<mapsto> (q, now + timedelta_seconds (cfg_lease_seconds cfg)))"
    if free: "\<And>q' e. ms_leases (sql_abs s) i = Some (q', e) \<Longrightarrow> q' = q \<or> e \<le> now"
    using mem.acquire_free [OF valid view arch, where q = q and now = now and cfg = cfg] free sim_acquire [OF v, of cfg i q owner now]
    by (auto simp: sql_ops_def mem_ops_def dest!: simulates_obtain)
  show "st_acquire (sql_ops cfg cascade) i q owner' now s =
      Inl (if owner' = owner then ConversationRequestConflict i q' else ConversationNotFound i)"
    if busy: "ms_leases (sql_abs s) i = Some (q', e)" "q' \<noteq> q" "now < e"
    using mem.acquire_busy [OF valid view arch busy, where owner' = owner' and cfg = cfg]
      sim_acquire [OF v, of cfg i q owner' now]
    by (cases "sql_acquire cfg i q owner' now s") (auto simp: sql_ops_def mem_ops_def simulates_def)
  show "st_get_history (sql_ops cfg cascade) i n k owner s = Inr (s, history_of n k (c_messages c))"
  proof -
    have "owned (sql_abs s) i owner True = Inr c" using owned_view [OF view] arch by simp
    then obtain x where "get_row s i owner True = Inr x" "model_of s x = c"
      by (cases "get_row s i owner True") (auto simp: owned_abs [OF v])
    then show ?thesis by (simp add: sql_ops_def sql_get_history_def sql_get_def model_of_def)
  qed
  show "\<exists>s' m c'. st_add_user (sql_ops cfg cascade) i content owner now s = Inr (s', m) \<and> sql_inv s' \<and>
      ms_leases (sql_abs s') = ms_leases (sql_abs s) \<and>
      mem_view (sql_abs s') = (mem_view (sql_abs s))(i \<mapsto> (owner, c')) \<and> c_archived_at c' = None \<and>
      c_project_id c' = c_project_id c \<and> c_messages c' = c_messages c @ [m] \<and>
      msg_role m = RoleUser \<and> msg_content m = content \<and> msg_status m = MCompleted"
  proof -
    have "owned (sql_abs s) i owner True = Inr c" using owned_view [OF view] arch by simp
    then obtain x where "get_row s i owner True = Inr x"
      by (cases "get_row s i owner True") (auto simp: owned_abs [OF v])
    then obtain s1 m where run: "sql_add_user i content owner now s = Inr (s1, m)"
      by (simp add: sql_add_user_def sql_append_def Let_def)
    note spec = add_user_spec [OF v run]
    from spec(5) obtain nm where abs: "sql_abs s1 = appended i m now nm (sql_abs s)" by blast
    let ?c = "c\<lparr>c_messages := c_messages c @ [m], c_updated_at := now, c_name := nm c\<rparr>"
    have "mem_view (sql_abs s1) = (mem_view (sql_abs s))(i \<mapsto> (owner, ?c))"
      by (simp add: fun_eq_iff abs appended_view view)
    then show ?thesis using run spec arch
      by (intro exI [of _ s1] exI [of _ m] exI [of _ ?c]) (simp add: sql_ops_def abs appended_view(2))
  qed
  from mem.add_assistant [OF valid view arch, where cfg = cfg and content = content and status = status and
      result = result and now = now]
    sim_add_assistant [OF v, of cfg i content status result owner now]
  show "\<exists>s' m c'. st_add_assistant (sql_ops cfg cascade) i content status result owner now s = Inr (s', m) \<and>
      sql_inv s' \<and> ms_leases (sql_abs s') = ms_leases (sql_abs s) \<and>
      mem_view (sql_abs s') = (mem_view (sql_abs s))(i \<mapsto> (owner, c')) \<and> c_archived_at c' = None \<and>
      c_project_id c' = c_project_id c \<and>
      c_messages c' = prune_messages (cfg_max_turns cfg) (c_messages c @ [m]) \<and>
      msg_role m = RoleAssistant \<and> msg_content m = content \<and> msg_status m = status \<and> msg_result m = result"
    by (fastforce simp: sql_ops_def mem_ops_def dest!: simulates_obtain)
  show "ms_leases (sql_abs s') i = Some (q, e) \<and> (\<exists>c'. mem_view (sql_abs s') i = Some (owner, c') \<and>
      c_archived_at c' = None \<and> c_project_id c' = c_project_id c) \<or>
      mem_view (sql_abs s') i = None \<and> call = CallDeleteProject (c_project_id c)"
    if "ms_leases (sql_abs s) i = Some (q, e)" "now < e" "\<not> own_lease_call i q call"
      "run_call (sql_ops cfg cascade) call now s = Inr (s', r)"
    by (rule sql_lease_kept [OF v view arch that])
qed

end
