(* ===== verification/Conversation_Properties.thy ===== *)
theory Conversation_Properties
  imports Conv_Simulation
begin

text \<open>
  What the conversation stores guarantee: the two give the same answers, a lease excludes other
  requests, a message request leaves a consistent conversation, and following the cursors lists
  every conversation once.
\<close>

section \<open>The stores agree\<close>

text \<open>
  C9. The durable and the process-local store are interchangeable. Any sequence of calls in which
  no name is blank or equal to the default name gets the same answers, errors included, from both,
  starting from the empty stores; the final tables represent the final dictionaries.
\<close>

theorem stores_agree:
  assumes "\<forall>(call, now)\<in>set calls. distinctive_name call"
  shows "fst (run_calls (sql_ops cfg cascade) calls sql_init) = fst (run_calls (mem_ops cfg) calls mem_init) \<and>
    sql_abs (snd (run_calls (sql_ops cfg cascade) calls sql_init)) = snd (run_calls (mem_ops cfg) calls mem_init)"
proof -
  have step: "map_state sql_abs (run_call (sql_ops cfg cascade) c now s) = run_call (mem_ops cfg) c now (sql_abs s) \<and>
      sql_inv (state_after s (run_call (sql_ops cfg cascade) c now s)) \<and>
      names_ok (state_after s (run_call (sql_ops cfg cascade) c now s))"
    if "c \<in> fst ` set calls" "sql_inv s \<and> names_ok s" for c now s
    using sim_call [of s c cfg cascade now] that assms by (auto simp: simulates_def)
  show ?thesis
    using run_calls_simulation [where I = "\<lambda>s. sql_inv s \<and> names_ok s" and f = sql_abs and
        ops = "sql_ops cfg cascade" and ops' = "mem_ops cfg" and cs = calls and s = sql_init] step
    by simp
qed

definition sample_config :: store_config where
  "sample_config = \<lparr>cfg_retention_days = 30, cfg_max_turns = 100, cfg_lease_seconds = 120\<rparr>"

definition sample_calls :: "(store_call \<times> time) list" where
  "sample_calls = [(CallCreate ''p'' None ''ann'', 1), (CallAcquire 0 ''r1'' ''ann'', 2),
     (CallAcquire 0 ''r2'' ''ann'', 3), (CallArchive 0 ''ann'', 4),
     (CallAddAssistant 0 [72, 105] MCompleted None ''ann'', 5), (CallRelease 0 ''r1'' ''ann'', 6),
     (CallHistory 0 3 100 ''ann'', 7), (CallArchive 0 ''ann'', 8), (CallGet 0 ''ann'', 9)]"

lemma sample_distinctive: "\<forall>(call, now)\<in>set sample_calls. distinctive_name call"
  by (simp add: sample_calls_def)

lemma stores_agree_witness:
  "fst (run_calls (sql_ops sample_config False) sample_calls sql_init) =
     fst (run_calls (mem_ops sample_config) sample_calls mem_init) \<and>
   fst (run_calls (mem_ops sample_config) sample_calls mem_init) ! 3 = Inl (ConversationRequestConflict 0 ''r1'') \<and>
   fst (run_calls (mem_ops sample_config) sample_calls mem_init) ! 8 = Inl (ConversationNotFound 0)"
proof -
  have "fst (run_calls (mem_ops sample_config) sample_calls mem_init) ! 3 = Inl (ConversationRequestConflict 0 ''r1'')"
    "fst (run_calls (mem_ops sample_config) sample_calls mem_init) ! 8 = Inl (ConversationNotFound 0)"
    by code_simp+
  then show ?thesis using stores_agree [OF sample_distinctive, of sample_config False] by blast
qed

text \<open>
  Without that condition they differ: after a first message "New conversation", the next message
  renames the conversation in the process-local store only.
\<close>

lemma default_name_diverges:
  "let calls = [(CallCreate ''p'' None ''ann'', 1), (CallAddUser 0 default_name ''ann'', 2),
       (CallAddUser 0 [72, 105] ''ann'', 3), (CallGet 0 ''ann'', 4)];
     name = (\<lambda>answers. case last answers of Inr (AConversation c) \<Rightarrow> Some (c_name c) | _ \<Rightarrow> None)
   in name (fst (run_calls (mem_ops sample_config) calls mem_init)) = Some [72, 105] \<and>
      name (fst (run_calls (sql_ops sample_config True) calls sql_init)) = Some default_name"
proof -
  have eval: "split_words xs = (case dropWhile is_space xs of [] \<Rightarrow> []
      | c # cs \<Rightarrow> takeWhile (\<lambda>d. \<not> is_space d) (c # cs) # split_words (dropWhile (\<lambda>d. \<not> is_space d) (c # cs)))" for xs
    by (rule split_words.simps)
  have "derive_name default_name = default_name"
    by (simp add: derive_name_def eval default_name_def ascii_def sentence_mark_def is_space_def)
  moreover have "derive_name [72, 105] = [72, 105]"
    by (simp add: derive_name_def eval sentence_mark_def is_space_def)
  moreover have "default_name \<noteq> []" by (simp add: default_name_def ascii_def)
  ultimately show ?thesis
    by (simp add: Let_def mem_ops_def sql_ops_def mem_create_def mem_init_def put_item_def exists_where_def
        mem_add_user_def mem_append_def owned_def item_of_def mutate_item_def upd_where_def mem_get_def
        sql_create_def sql_init_def sql_add_user_def sql_append_def get_row_def first_where_def upd_row_def
        sql_get_def conversation_model_def shown_name_def)
qed

section \<open>Leases\<close>

text \<open>
  C10. A lease excludes other requests. While the lease of request \<open>q\<close> on a conversation runs, any
  sequence of calls that the request itself does not make (it neither renews nor releases the
  lease) gives the conversation to nobody else: every acquisition is refused, for the owner with the
  conflict that names the holder. Afterwards the conversation is still there, not archived and leased
  to \<open>q\<close> until the same time, or it has gone with its project: only the deletion of its project
  removes a conversation in use, and without one its owner always gets the conflict.
\<close>

theorem lease_excludes_others:
  assumes "sql_inv s" "row_of s i = Some r" "cr_archived_at r = None" "lease_of r = Some (q, e)"
    and "\<forall>(call, now)\<in>set calls. now < e \<and> \<not> own_lease_call i q call"
  shows "(case row_of (snd (run_calls (sql_ops cfg cascade) calls s)) i of
        Some r' \<Rightarrow> lease_of r' = Some (q, e) \<and> cr_archived_at r' = None \<and> cr_created_by r' = cr_created_by r
      | None \<Rightarrow> CallDeleteProject (cr_project_id r) \<in> fst ` set calls) \<and>
    (\<forall>(call, answer)\<in>set (zip (map fst calls) (fst (run_calls (sql_ops cfg cascade) calls s))).
       \<forall>q' owner. call = CallAcquire i q' owner \<longrightarrow>
         answer = Inl (ConversationRequestConflict i q) \<and> owner = cr_created_by r \<or>
         answer = Inl (ConversationNotFound i) \<and>
           (owner = cr_created_by r \<longrightarrow> CallDeleteProject (cr_project_id r) \<in> fst ` set calls))"
proof -
  let ?s = "snd (run_calls (sql_ops cfg cascade) calls s)"
  have view: "mem_view (sql_abs s) i = Some (cr_created_by r, model_of s r)"
    using assms(2) by (simp add: mem_view_def item_of_abs)
  have holder: "ms_leases (sql_abs s) i = Some (q, e)" using assms(2,4) by (simp add: sql_abs_def)
  have project: "c_project_id (model_of s r) = cr_project_id r" by (simp add: model_of_def conversation_model_def)
  have arch: "c_archived_at (model_of s r) = None" by (simp add: assms(3))
  have calls: "now < e \<and> \<not> own_lease_call i q call" if "(call, now) \<in> set calls" for call now
    using assms(5) that by blast
  have rows: "mem_view (sql_abs t) i = map_option (\<lambda>r. (cr_created_by r, model_of t r)) (row_of t i)"
      "ms_leases (sql_abs t) i = Option.bind (row_of t i) lease_of" for t
    by (simp add: mem_view_def item_of_abs split: option.split) (simp add: sql_abs_def)
  have ex: "(ms_leases (sql_abs ?s) i = Some (q, e) \<and>
        (\<exists>c'. mem_view (sql_abs ?s) i = Some (cr_created_by r, c') \<and> c_archived_at c' = None) \<or>
      mem_view (sql_abs ?s) i = None \<and> CallDeleteProject (cr_project_id r) \<in> fst ` set calls) \<and>
    (\<forall>(call, answer)\<in>set (zip (map fst calls) (fst (run_calls (sql_ops cfg cascade) calls s))).
       \<forall>q' owner. call = CallAcquire i q' owner \<longrightarrow>
         answer = Inl (ConversationRequestConflict i q) \<and> owner = cr_created_by r \<or>
         answer = Inl (ConversationNotFound i) \<and>
           (owner = cr_created_by r \<longrightarrow> CallDeleteProject (cr_project_id r) \<in> fst ` set calls))"
    using sql.lease_excludes [OF assms(1) view arch holder, where calls = calls] calls
    unfolding project by blast
  from conjunct1 [OF ex] have "case row_of ?s i of
        Some r' \<Rightarrow> lease_of r' = Some (q, e) \<and> cr_archived_at r' = None \<and> cr_created_by r' = cr_created_by r
      | None \<Rightarrow> CallDeleteProject (cr_project_id r) \<in> fst ` set calls"
    unfolding rows by (cases "row_of ?s i") auto
  with conjunct2 [OF ex] show ?thesis by blast
qed

definition leased_store :: sql_store where
  "leased_store = snd (run_calls (sql_ops sample_config True)
     [(CallCreate ''p'' None ''ann'', 1), (CallAcquire 0 ''r1'' ''ann'', 2)] sql_init)"

lemma leased_store_row:
  "row_of leased_store 0 = Some \<lparr>cr_id = 0, cr_project_id = ''p'', cr_graph_version = None, cr_created_by = ''ann'',
     cr_name = None, cr_created_at = 1, cr_updated_at = 1, cr_archived_at = None,
     cr_active_request_id = Some ''r1'', cr_lease_expires_at = Some 120000002\<rparr>"
  by code_simp

lemma leased_store_inv: "sql_inv leased_store"
proof -
  have "sql_inv (snd (run_calls (sql_ops cfg cascade) cs s))" if "sql_inv s" for cfg cascade cs s
    using that
  proof (induction cs arbitrary: s)
    case (Cons p cs)
    then show ?case using sql_call_valid [OF Cons.prems]
      by (cases p; cases "run_call (sql_ops cfg cascade) (fst p) (snd p) s") (auto simp: Let_def case_prod_beta)
  qed simp
  then show ?thesis unfolding leased_store_def using sql_inv_init(1) by blast
qed

lemma lease_excludes_others_witness:
  "(case row_of (snd (run_calls (sql_ops sample_config True)
      [(CallAcquire 0 ''r2'' ''ann'', 3), (CallArchive 0 ''ann'', 4)] leased_store)) 0 of
      Some r' \<Rightarrow> lease_of r' = Some (''r1'', 120000002) | None \<Rightarrow> False)"
  using lease_excludes_others [OF leased_store_inv leased_store_row, of "''r1''" 120000002
      "[(CallAcquire 0 ''r2'' ''ann'', 3), (CallArchive 0 ''ann'', 4)]" sample_config True]
  by (auto simp: lease_of_def own_lease_call_def split: option.splits)

section \<open>Message requests\<close>

text \<open>
  C11. A message request leaves its conversation complete. When the request was opened on an active
  conversation of its owner, then however the stream of the workflow ends (a result, a failure, a
  client that goes away, several terminal events), the conversation gets the question and at least
  one answer after it, pruned to the limit, the lease is free afterwards, and no other conversation
  or lease changes.
\<close>

theorem request_leaves_answer:
  assumes "sql_inv s" "row_of s i = Some r" "cr_archived_at r = None"
    and "\<forall>q' e. lease_of r = Some (q', e) \<longrightarrow> q' = q \<or> e \<le> now"
    and "open_request (sql_ops cfg cascade) n k i q (cr_created_by r) msg now s = (s1, Inr turns)" "results_present es"
  shows "\<exists>r' u ms. let s2 = answer_request (sql_ops cfg cascade) i q (cr_created_by r) es now' s1 in
    sql_inv s2 \<and> row_of s2 i = Some r' \<and> lease_of r' = None \<and> cr_archived_at r' = None \<and>
    map message_model (rows_of s2 i) =
      append_answers (cfg_max_turns cfg) (map message_model (rows_of s i) @ [u]) ms \<and>
    msg_role u = RoleUser \<and> msg_content u = strip_text msg \<and> ms \<noteq> [] \<and> (\<forall>m\<in>set ms. msg_role m = RoleAssistant) \<and>
    (\<forall>j. j \<noteq> i \<longrightarrow> mem_view (sql_abs s2) j = mem_view (sql_abs s) j \<and>
                ms_leases (sql_abs s2) j = ms_leases (sql_abs s) j)"
proof -
  let ?s2 = "answer_request (sql_ops cfg cascade) i q (cr_created_by r) es now' s1"
  have view: "mem_view (sql_abs s) i = Some (cr_created_by r, model_of s r)"
    using assms(2) by (simp add: mem_view_def item_of_abs)
  have free: "q' = q \<or> e \<le> now" if "ms_leases (sql_abs s) i = Some (q', e)" for q' e
    using that assms(2,4) by (simp add: sql_abs_def)
  from sql.request_recorded [OF assms(1) view _ free assms(5,6), where now' = now'] assms(3)
  obtain c' u ms where fin: "sql_inv ?s2" "ms_leases (sql_abs ?s2) = (ms_leases (sql_abs s))(i := None)"
    "mem_view (sql_abs ?s2) = (mem_view (sql_abs s))(i \<mapsto> (cr_created_by r, c'))" "c_archived_at c' = None"
    "c_messages c' = append_answers (cfg_max_turns cfg) (c_messages (model_of s r) @ [u]) ms"
    "msg_role u = RoleUser" "msg_content u = strip_text msg" "ms \<noteq> []" "\<forall>m\<in>set ms. msg_role m = RoleAssistant"
    by auto
  have "mem_view (sql_abs ?s2) i = Some (cr_created_by r, c')" by (simp add: fin(3))
  then obtain r' where r': "row_of ?s2 i = Some r'" "model_of ?s2 r' = c'"
    by (auto simp: mem_view_def item_of_abs split: option.splits)
  have id: "cr_id r' = i" "cr_id r = i" using row_of_Some [OF r'(1)] row_of_Some [OF assms(2)] by auto
  have "ms_leases (sql_abs ?s2) i = None" by (simp add: fin(2))
  then have "lease_of r' = None" using r'(1) by (simp add: sql_abs_def)
  moreover have "cr_archived_at r' = None" using r'(2) fin(4) by auto
  moreover have "map message_model (rows_of ?s2 i) =
      append_answers (cfg_max_turns cfg) (map message_model (rows_of s i) @ [u]) ms"
    using r'(2) fin(5) id by (auto simp: model_of_def conversation_model_def)
  ultimately show ?thesis using fin(1-3,6-9) r'(1)
    by (intro exI [of _ r'] exI [of _ u] exI [of _ ms]) (simp add: Let_def)
qed

lemma request_leaves_answer_witness:
  "\<exists>r'. row_of (answer_request (sql_ops sample_config True) 0 ''r1'' ''ann''
      [(\<lparr>le_type = MessageFailed, le_result = None, le_error = None\<rparr>, False, 5)] 6
      (fst (open_request (sql_ops sample_config True) 3 100 0 ''r1'' ''ann'' [72, 105] 4 leased_store))) 0 = Some r' \<and>
     lease_of r' = None"
proof -
  let ?r = "\<lparr>cr_id = 0, cr_project_id = ''p'', cr_graph_version = None, cr_created_by = ''ann'',
     cr_name = None, cr_created_at = 1, cr_updated_at = 1, cr_archived_at = None,
     cr_active_request_id = Some ''r1'', cr_lease_expires_at = Some 120000002\<rparr>"
  let ?o = "open_request (sql_ops sample_config True) 3 100 0 ''r1'' ''ann'' [72, 105] 4 leased_store"
  let ?es = "[(\<lparr>le_type = MessageFailed, le_result = None, le_error = None\<rparr>, False, 5)] :: (lifecycle_event \<times> bool \<times> time) list"
  have "rows_of leased_store 0 = []" by code_simp
  then have "c_messages (model_of leased_store ?r) = []" by (simp add: model_of_def conversation_model_def)
  then have none: "history_turns (history_of 3 100 (c_messages (model_of leased_store ?r))) = Inr []"
    by (simp add: history_of_def selected_exchanges_def complete_exchanges_def py_last_def)
  have view: "mem_view (sql_abs leased_store) 0 = Some (''ann'', model_of leased_store ?r)"
    by (simp add: mem_view_def item_of_abs leased_store_row)
  have held: "ms_leases (sql_abs leased_store) 0 = Some (''r1'', 120000002)"
    by (simp add: sql_abs_def leased_store_row lease_of_def)
  from sql.open_ok [OF leased_store_inv view, where q = "''r1''" and now = 4 and n = 3 and k = 100 and
      cfg = sample_config and cascade = True and msg = "[72, 105]"] none held
  have "snd ?o = Inr []" by auto
  then have o: "?o = (fst ?o, Inr [])" by (metis prod.collapse)
  have "\<forall>q' e. lease_of ?r = Some (q', e) \<longrightarrow> q' = ''r1'' \<or> e \<le> 4" by (simp add: lease_of_def)
  from request_leaves_answer [OF leased_store_inv leased_store_row _ this, simplified, OF o, of ?es 6]
  show ?thesis by (auto simp: results_present_def Let_def)
qed

section \<open>Pages\<close>

text \<open>A client that follows the cursors, for at most \<open>fuel\<close> pages.\<close>

fun list_pages ::
  "nat \<Rightarrow> 's store_ops \<Rightarrow> string \<Rightarrow> string \<Rightarrow> list_state \<Rightarrow> nat \<Rightarrow> cursor option \<Rightarrow> 's \<Rightarrow> conversation_summary list"
where
  "list_pages 0 ops p owner st limit c s = []"
| "list_pages (Suc fuel) ops p owner st limit c s =
     (case st_list ops p owner st limit c s of
        Inl e \<Rightarrow> []
      | Inr (s', l) \<Rightarrow> cl_items l @
          (case cl_next_cursor l of None \<Rightarrow> [] | Some c' \<Rightarrow> list_pages fuel ops p owner st limit (Some c') s'))"

definition listed :: "string \<Rightarrow> string \<Rightarrow> list_state \<Rightarrow> conversation_row \<Rightarrow> bool" where
  "listed p owner st r \<longleftrightarrow> cr_project_id r = p \<and> cr_created_by r = owner \<and>
     (if st = ListActive then cr_archived_at r = None else cr_archived_at r \<noteq> None)"

definition before_cursor :: "cursor option \<Rightarrow> conversation_row \<Rightarrow> bool" where
  "before_cursor c r \<longleftrightarrow> (case c of None \<Rightarrow> True | Some b \<Rightarrow> row_key r < b)"

definition newest_rows :: "string \<Rightarrow> string \<Rightarrow> list_state \<Rightarrow> sql_store \<Rightarrow> conversation_row list" where
  "newest_rows p owner st s = rev (sort_key row_key (filter (listed p owner st) (ss_conversations s)))"

lemma sql_list_rows:
  "sql_list p owner st limit c s = Inr (s, page_of limit (map (\<lambda>r. conversation_model r [])
     (take (limit + 1) (filter (before_cursor c) (newest_rows p owner st s)))))"
proof -
  have "filter (before_cursor c) (newest_rows p owner st s) =
      rev (sort_key row_key (filter (\<lambda>r. listed p owner st r \<and> before_cursor c r) (ss_conversations s)))"
    by (simp add: newest_rows_def filter_sort flip: rev_filter)
  moreover have "(case c of None \<Rightarrow> True
       | Some (u, i) \<Rightarrow> cr_updated_at r < u \<or> (cr_updated_at r = u \<and> cr_id r < i)) = before_cursor c r" for r
    by (auto simp: before_cursor_def row_key_def less_prod_def split: option.split)
  ultimately show ?thesis by (simp add: sql_list_def Let_def listed_def conj_assoc)
qed

lemma newest_rows_sorted:
  assumes "sql_inv s"
  shows "sorted_wrt (\<lambda>a b. row_key b < row_key a) (newest_rows p owner st s)"
proof -
  let ?xs = "sort_key row_key (filter (listed p owner st) (ss_conversations s))"
  have "distinct (map cr_id (filter (listed p owner st) (ss_conversations s)))"
    using sql_invD(2) [OF assms] by (rule distinct_map_filter)
  then have "distinct (map row_key (filter (listed p owner st) (ss_conversations s)))"
    by (auto simp: distinct_map inj_on_def row_key_def)
  then have "distinct (map row_key ?xs)" by (simp add: distinct_map)
  then have "sorted_wrt (<) (map row_key ?xs)"
    using sorted_sort_key [of row_key] by (simp add: strict_sorted_iff)
  then show ?thesis by (simp add: newest_rows_def sorted_wrt_rev sorted_wrt_map)
qed

lemma next_rows:
  assumes "sorted_wrt (\<lambda>a b. row_key b < row_key a) ys" "0 < n" "n < length ys"
  shows "filter (\<lambda>r. row_key r < row_key (last (take n ys))) ys = drop n ys"
proof -
  obtain x xs where x: "take n ys = xs @ [x]" using assms(2,3) by (metis append_butlast_last_id take_eq_Nil length_0_conv not_less0 neq0_conv)
  then have ys: "ys = (xs @ [x]) @ drop n ys" by (metis append_take_drop_id)
  from assms(1) have "sorted_wrt (\<lambda>a b. row_key b < row_key a) ((xs @ [x]) @ drop n ys)" using ys by simp
  then have "filter (\<lambda>r. row_key r < row_key x) ((xs @ [x]) @ drop n ys) = drop n ys"
    by (fastforce simp: sorted_wrt_append filter_empty_conv filter_id_conv)
  then have "filter (\<lambda>r. row_key r < row_key x) ys = drop n ys" by (subst ys)
  then show ?thesis by (simp add: x)
qed

lemma list_pages_rows:
  assumes inv: "sql_inv s" and limit: "0 < limit"
  shows "length (filter (before_cursor c) (newest_rows p owner st s)) < fuel \<Longrightarrow>
    list_pages fuel (sql_ops cfg cascade) p owner st limit c s =
      map (\<lambda>r. summary_of (conversation_model r [])) (filter (before_cursor c) (newest_rows p owner st s))"
proof (induction fuel arbitrary: c)
  case (Suc fuel)
  define ys where "ys = filter (before_cursor c) (newest_rows p owner st s)"
  have sorted: "sorted_wrt (\<lambda>a b. row_key b < row_key a) ys"
    unfolding ys_def by (rule sorted_wrt_filter [OF newest_rows_sorted [OF inv]])
  have step: "st_list (sql_ops cfg cascade) p owner st limit c s =
      Inr (s, page_of limit (map (\<lambda>r. conversation_model r []) (take (limit + 1) ys)))"
    by (simp add: sql_ops_def sql_list_rows ys_def)
  show ?case
  proof (cases "limit < length ys")
    case False
    then show ?thesis using step by (simp add: page_of_def Let_def min_def flip: ys_def)
  next
    case True
    define b where "b = row_key (last (take limit ys))"
    have ne: "take limit ys \<noteq> []" using limit True by auto
    have "last (take limit ys) \<in> set ys" using ne by (metis last_in_set in_set_takeD)
    then have below: "before_cursor c (last (take limit ys))" by (simp add: ys_def)
    have "filter (before_cursor (Some b)) (newest_rows p owner st s) =
        filter (\<lambda>r. row_key r < b) ys"
      unfolding ys_def filter_filter using below
      by (intro filter_cong) (auto simp: before_cursor_def b_def split: option.splits)
    also have "\<dots> = drop limit ys" unfolding b_def by (rule next_rows [OF sorted limit True])
    finally have rest: "filter (before_cursor (Some b)) (newest_rows p owner st s) = drop limit ys" .
    have "list_pages fuel (sql_ops cfg cascade) p owner st limit (Some b) s =
        map (\<lambda>r. summary_of (conversation_model r [])) (drop limit ys)"
      using Suc.IH [of "Some b"] Suc.prems limit True unfolding rest by (simp add: ys_def)
    moreover have "cursor_of (conversation_model (last (take limit ys)) []) = b"
      by (simp add: b_def cursor_of_def conversation_model_def row_key_def)
    then have "cl_next_cursor (page_of limit (map (\<lambda>r. conversation_model r []) (take (limit + 1) ys))) = Some b"
      using True ne by (simp add: page_of_def Let_def take_map min_def last_map)
    moreover have "cl_items (page_of limit (map (\<lambda>r. conversation_model r []) (take (limit + 1) ys))) =
        map (\<lambda>r. summary_of (conversation_model r [])) (take limit ys)"
      by (simp add: page_of_def Let_def take_map min_def comp_def)
    ultimately have "list_pages (Suc fuel) (sql_ops cfg cascade) p owner st limit c s =
        map (\<lambda>r. summary_of (conversation_model r [])) (take limit ys @ drop limit ys)"
      using step by (simp del: append_take_drop_id)
    then show ?thesis by (simp flip: ys_def)
  qed
qed simp

text \<open>
  C12. Following the cursors lists every conversation once. With any positive limit, the pages of the
  durable store together hold exactly the conversations of the owner in the project in the asked
  state, strictly newest first, after at most one page per conversation and one more.
\<close>

theorem pages_complete:
  assumes "sql_inv s" "0 < limit" "length (ss_conversations s) < fuel"
  shows "set (map su_id (list_pages fuel (sql_ops cfg cascade) p owner st limit None s)) =
      {cr_id r | r. r \<in> set (ss_conversations s) \<and> listed p owner st r} \<and>
    sorted_wrt (\<lambda>a b. (su_updated_at b, su_id b) < (su_updated_at a, su_id a))
      (list_pages fuel (sql_ops cfg cascade) p owner st limit None s)"
proof -
  have all: "filter (before_cursor None) xs = xs" for xs by (simp add: before_cursor_def)
  have "length (newest_rows p owner st s) \<le> length (ss_conversations s)" by (simp add: newest_rows_def)
  then have pages: "list_pages fuel (sql_ops cfg cascade) p owner st limit None s =
      map (\<lambda>r. summary_of (conversation_model r [])) (newest_rows p owner st s)"
    using list_pages_rows [OF assms(1,2), of None p owner st fuel] assms(3) by (simp add: all)
  have "sorted_wrt (\<lambda>a b. row_key b < row_key a) (newest_rows p owner st s)"
    by (rule newest_rows_sorted [OF assms(1)])
  then show ?thesis unfolding pages
    by (auto simp: sorted_wrt_map summary_of_def conversation_model_def row_key_def newest_rows_def)
qed

lemma pages_complete_witness:
  "set (map su_id (list_pages 4 (sql_ops sample_config True) ''p'' ''ann'' ListActive 1 None leased_store)) = {0}"
proof -
  have len: "map cr_id (ss_conversations leased_store) = [0]" by code_simp
  then obtain x where x: "ss_conversations leased_store = [x]" "cr_id x = 0" by auto
  have "row_of leased_store 0 = Some x" using x by (simp add: row_of_def first_where_def)
  then have "listed ''p'' ''ann'' ListActive x" using leased_store_row by (auto simp: listed_def)
  then have "{cr_id r | r. r \<in> set (ss_conversations leased_store) \<and> listed ''p'' ''ann'' ListActive r} = {0}"
    using x by auto
  then show ?thesis
    using pages_complete [OF leased_store_inv, of 1 4 sample_config True "''p''" "''ann''" ListActive] x by simp
qed

end
