(* ===== verification/Encodings.thy ===== *)
theory Encodings
  imports Text_Points
begin

text \<open>
  The encodings of identifiers and cursors, as the standard library has them: UTF-8, base64 over the
  URL-safe alphabet, and the split of a text at the last occurrence of a separator. Bytes are numbers
  below 256; a text is a list of code points.
\<close>

section \<open>UTF-8\<close>

text \<open>The code points a text can hold that comes from a decoder: no surrogates.\<close>

definition scalar :: "nat \<Rightarrow> bool" where
  "scalar c \<longleftrightarrow> c < 55296 \<or> 57344 \<le> c \<and> c < 1114112"

definition utf8_char :: "nat \<Rightarrow> nat list" where
  "utf8_char c =
     (if c < 128 then [c]
      else if c < 2048 then [192 + c div 64, 128 + c mod 64]
      else if c < 65536 then [224 + c div 4096, 128 + c div 64 mod 64, 128 + c mod 64]
      else [240 + c div 262144, 128 + c div 4096 mod 64, 128 + c div 64 mod 64, 128 + c mod 64])"

definition utf8_encode :: "ustring \<Rightarrow> nat list" where
  "utf8_encode s = concat (map utf8_char s)"

definition tail_byte :: "nat \<Rightarrow> bool" where
  "tail_byte b \<longleftrightarrow> 128 \<le> b \<and> b < 192"

text \<open>
  The strict decoder: the first character and the rest. It refuses overlong forms, surrogates and
  numbers above the last code point.
\<close>

fun utf8_next :: "nat list \<Rightarrow> (nat \<times> nat list) option" where
  "utf8_next [] = None"
| "utf8_next (a # bs) =
     (if a < 128 then Some (a, bs)
      else if 194 \<le> a \<and> a < 224 then
        (case bs of
           b # cs \<Rightarrow> if tail_byte b then Some ((a - 192) * 64 + (b - 128), cs) else None
         | [] \<Rightarrow> None)
      else if 224 \<le> a \<and> a < 240 then
        (case bs of
           b # c # cs \<Rightarrow>
             let n = (a - 224) * 4096 + (b - 128) * 64 + (c - 128)
             in if tail_byte b \<and> tail_byte c \<and> 2048 \<le> n \<and> scalar n then Some (n, cs) else None
         | _ \<Rightarrow> None)
      else if 240 \<le> a \<and> a < 245 then
        (case bs of
           b # c # d # cs \<Rightarrow>
             let n = (a - 240) * 262144 + (b - 128) * 4096 + (c - 128) * 64 + (d - 128)
             in if tail_byte b \<and> tail_byte c \<and> tail_byte d \<and> 65536 \<le> n \<and> scalar n then Some (n, cs) else None
         | _ \<Rightarrow> None)
      else None)"

lemma utf8_next_shorter: "utf8_next bs = Some (c, rest) \<Longrightarrow> length rest < length bs"
  by (cases bs) (auto simp: Let_def split: if_splits list.splits)

function utf8_decode :: "nat list \<Rightarrow> ustring option" where
  "utf8_decode bs =
     (if bs = [] then Some []
      else case utf8_next bs of
             None \<Rightarrow> None
           | Some (c, rest) \<Rightarrow> (case utf8_decode rest of None \<Rightarrow> None | Some s \<Rightarrow> Some (c # s)))"
  by pat_completeness auto
termination by (relation "measure length") (auto dest: utf8_next_shorter)

declare utf8_decode.simps [simp del]

lemma scalar_bound: "scalar c \<Longrightarrow> c < 1114112"
  by (auto simp: scalar_def)

lemma div_mod_join: "(c :: nat) div (m * k) * (m * k) + c div m mod k * m = c div m * m"
proof -
  have "(c div m div k * k + c div m mod k) * m = c div m * m" by simp
  then show ?thesis by (simp only: div_mult2_eq distrib_right mult.assoc mult.commute [of k m])
qed

lemma utf8_next_char:
  assumes "scalar c"
  shows "utf8_next (utf8_char c @ rest) = Some (c, rest)"
proof -
  note bound = scalar_bound [OF assms]
  consider "c < 128" | "128 \<le> c" "c < 2048" | "2048 \<le> c" "c < 65536" | "65536 \<le> c" by linarith
  then show ?thesis
  proof cases
    case 1
    then show ?thesis by (simp add: utf8_char_def)
  next
    case 2
    have "194 \<le> 192 + c div 64" using 2(1) by (simp add: div_le_mono [of 128 c 64, simplified])
    moreover have "192 + c div 64 < 224" using 2(2) by (simp add: less_mult_imp_div_less)
    moreover have "c div 64 * 64 + c mod 64 = c" by simp
    ultimately show ?thesis using 2 by (simp add: utf8_char_def tail_byte_def)
  next
    case 3
    have a: "c div 4096 < 16" using 3(2) by (simp add: less_mult_imp_div_less)
    have n: "c div 4096 * 4096 + c div 64 mod 64 * 64 + c mod 64 = c"
      using div_mod_join [of c 64 64] by simp
    show ?thesis using 3 a n assms by (simp add: utf8_char_def tail_byte_def Let_def)
  next
    case 4
    have a: "c div 262144 < 5" using bound by (simp add: less_mult_imp_div_less)
    have n: "c div 262144 * 262144 + c div 4096 mod 64 * 4096 + c div 64 mod 64 * 64 + c mod 64 = c"
      using div_mod_join [of c 64 64] div_mod_join [of c 4096 64] by simp
    show ?thesis using 4 a n assms by (simp add: utf8_char_def tail_byte_def Let_def)
  qed
qed

lemma utf8_char_bytes: "scalar c \<Longrightarrow> b \<in> set (utf8_char c) \<Longrightarrow> b < 256"
  by (auto simp: utf8_char_def less_mult_imp_div_less dest!: scalar_bound split: if_splits)

lemma utf8_encode_bytes: "list_all scalar s \<Longrightarrow> b \<in> set (utf8_encode s) \<Longrightarrow> b < 256"
  by (auto simp: utf8_encode_def list_all_iff dest: utf8_char_bytes)

text \<open>Decoding gives back every text without surrogates.\<close>

lemma utf8_decode_encode [simp]: "list_all scalar s \<Longrightarrow> utf8_decode (utf8_encode s) = Some s"
proof (induction s)
  case Nil
  then show ?case by (simp add: utf8_encode_def utf8_decode.simps)
next
  case (Cons c s)
  have "utf8_char c @ utf8_encode s \<noteq> []" by (auto simp: utf8_char_def)
  moreover have "utf8_next (utf8_char c @ utf8_encode s) = Some (c, utf8_encode s)"
    using Cons.prems by (intro utf8_next_char) simp
  moreover have "utf8_encode (c # s) = utf8_char c @ utf8_encode s" by (simp add: utf8_encode_def)
  ultimately show ?case using Cons by (simp add: utf8_decode.simps [of "utf8_char c @ utf8_encode s"])
qed

section \<open>Base64\<close>

text \<open>The digits of the URL-safe alphabet; the decoder also takes those of the standard alphabet.\<close>

definition b64_digit :: "nat \<Rightarrow> nat" where
  "b64_digit n =
     (if n < 26 then 65 + n else if n < 52 then 71 + n else if n < 62 then n - 4 else if n = 62 then 45 else 95)"

definition b64_value :: "nat \<Rightarrow> nat option" where
  "b64_value c =
     (if 65 \<le> c \<and> c \<le> 90 then Some (c - 65)
      else if 97 \<le> c \<and> c \<le> 122 then Some (c - 71)
      else if 48 \<le> c \<and> c \<le> 57 then Some (c + 4)
      else if c = 45 \<or> c = 43 then Some 62
      else if c = 95 \<or> c = 47 then Some 63
      else None)"

fun b64_encode :: "nat list \<Rightarrow> ustring" where
  "b64_encode [] = []"
| "b64_encode [a] = [b64_digit (a div 4), b64_digit (a mod 4 * 16), 61, 61]"
| "b64_encode [a, b] =
     [b64_digit (a div 4), b64_digit (a mod 4 * 16 + b div 16), b64_digit (b mod 16 * 4), 61]"
| "b64_encode (a # b # c # bs) =
     b64_digit (a div 4) # b64_digit (a mod 4 * 16 + b div 16) # b64_digit (b mod 16 * 4 + c div 64) #
     b64_digit (c mod 64) # b64_encode bs"

text \<open>
  The decoder reads digit by digit: \<open>quad\<close> is the position in the current group of four and \<open>left\<close>
  the bits that are left over. The lenient one skips characters that are no digits; a padding that
  completes a group ends the input. The strict one raises for both kinds of leftovers.
\<close>

fun b64_scan :: "bool \<Rightarrow> bool \<Rightarrow> nat \<Rightarrow> nat \<Rightarrow> nat \<Rightarrow> ustring \<Rightarrow> nat list option" where
  "b64_scan strict padded quad pads left [] = (if quad = 0 then Some [] else None)"
| "b64_scan strict padded quad pads left (c # cs) =
     (if c = 61 then
        (if strict \<and> quad = 0 then None
         else if 2 \<le> quad \<and> 4 \<le> quad + (pads + 1) then (if strict \<and> cs \<noteq> [] then None else Some [])
         else b64_scan strict True quad (if 2 \<le> quad then pads + 1 else pads) left cs)
      else case b64_value c of
             None \<Rightarrow> if strict then None else b64_scan strict padded quad pads left cs
           | Some v \<Rightarrow>
               if strict \<and> padded then None
               else if quad = 0 then b64_scan strict padded 1 0 v cs
               else if quad = 1 then map_option ((#) (left * 4 + v div 16)) (b64_scan strict padded 2 0 (v mod 16) cs)
               else if quad = 2 then map_option ((#) (left * 16 + v div 4)) (b64_scan strict padded 3 0 (v mod 4) cs)
               else map_option ((#) (left * 64 + v)) (b64_scan strict padded 0 0 0 cs))"

definition b64_decode :: "bool \<Rightarrow> ustring \<Rightarrow> nat list option" where
  "b64_decode strict s = b64_scan strict False 0 0 0 s"

text \<open>\<open>text.rstrip("=")\<close>, and the padding that is put back: \<open>"=" * (-len(text) % 4)\<close>.\<close>

definition strip_padding :: "ustring \<Rightarrow> ustring" where
  "strip_padding s = rev (dropWhile (\<lambda>c. c = 61) (rev s))"

definition put_padding :: "ustring \<Rightarrow> ustring" where
  "put_padding s = s @ replicate (nat ((- int (length s)) mod 4)) 61"

lemma b64_digit_value [simp]: "n < 64 \<Longrightarrow> b64_value (b64_digit n) = Some n"
  by (auto simp: b64_value_def b64_digit_def)

lemma b64_digit_pad [simp]: "n < 64 \<Longrightarrow> b64_digit n \<noteq> 61"
  by (auto simp: b64_digit_def)

lemma byte_parts:
  assumes "(a :: nat) < 256"
  shows "a div 4 < 64" "a mod 4 * 16 < 64" "a mod 16 * 4 < 64" "a div 16 < 16" "a div 64 < 4" "a mod 64 < 64"
    "a mod 4 < 4" "a mod 16 < 16"
  using assms by (simp_all add: less_mult_imp_div_less)

lemma b64_first: "x < 4 \<Longrightarrow> y < 16 \<Longrightarrow> (x * 16 + y :: nat) < 64 \<and> (x * 16 + y) div 16 = x \<and> (x * 16 + y) mod 16 = y"
  by simp

lemma b64_second: "x < 16 \<Longrightarrow> y < 4 \<Longrightarrow> (x * 4 + y :: nat) < 64 \<and> (x * 4 + y) div 4 = x \<and> (x * 4 + y) mod 4 = y"
  by simp

lemma b64_scan_digit:
  "n < 64 \<Longrightarrow> b64_scan strict False quad pads left (b64_digit n # cs) =
     (if quad = 0 then b64_scan strict False 1 0 n cs
      else if quad = 1 then map_option ((#) (left * 4 + n div 16)) (b64_scan strict False 2 0 (n mod 16) cs)
      else if quad = 2 then map_option ((#) (left * 16 + n div 4)) (b64_scan strict False 3 0 (n mod 4) cs)
      else map_option ((#) (left * 64 + n)) (b64_scan strict False 0 0 0 cs))"
  by simp

lemma b64_scan_encode:
  "list_all (\<lambda>b. b < 256) bs \<Longrightarrow> b64_scan strict False 0 0 0 (b64_encode bs) = Some bs"
proof (induction bs rule: b64_encode.induct)
  case (2 a)
  then show ?case
    by (simp add: b64_scan_digit byte_parts b64_first [where y = 0, simplified] del: b64_scan.simps(2))
       (simp add: b64_first [where y = 0, simplified] byte_parts)
next
  case (3 a b)
  have f: "a mod 4 * 16 + b div 16 < 64" "(a mod 4 * 16 + b div 16) div 16 = a mod 4" "(a mod 4 * 16 + b div 16) mod 16 = b div 16"
    using b64_first [of "a mod 4" "b div 16"] byte_parts [of b] 3 by simp_all
  show ?case using 3 byte_parts [of a] byte_parts [of b]
    by (simp add: b64_scan_digit f del: b64_scan.simps(2)) simp
next
  case (4 a b c bs)
  have f: "a mod 4 * 16 + b div 16 < 64" "(a mod 4 * 16 + b div 16) div 16 = a mod 4" "(a mod 4 * 16 + b div 16) mod 16 = b div 16"
    using b64_first [of "a mod 4" "b div 16"] byte_parts [of b] 4 by simp_all
  have g: "b mod 16 * 4 + c div 64 < 64" "(b mod 16 * 4 + c div 64) div 4 = b mod 16" "(b mod 16 * 4 + c div 64) mod 4 = c div 64"
    using b64_second [of "b mod 16" "c div 64"] byte_parts [of c] 4 by simp_all
  show ?case using 4 byte_parts [of a] byte_parts [of b] byte_parts [of c]
    by (simp add: b64_scan_digit f g del: b64_scan.simps(2))
qed simp

text \<open>What an encoding looks like: digits and at most two paddings, in groups of four.\<close>

definition b64_char :: "nat \<Rightarrow> bool" where
  "b64_char c \<longleftrightarrow> (\<exists>n<64. c = b64_digit n)"

lemma b64_char_plain: "b64_char c \<Longrightarrow> c \<noteq> 61 \<and> c \<noteq> 47 \<and> c < 128"
  by (auto simp: b64_char_def b64_digit_def split: if_splits)

lemma b64_char_digit [simp]: "n < 64 \<Longrightarrow> b64_char (b64_digit n)"
  by (auto simp: b64_char_def)

lemma four_dvd [simp]: "4 dvd Suc (Suc (Suc (Suc n))) \<longleftrightarrow> 4 dvd n"
  by (simp add: dvd_def) presburger

lemma b64_encode_shape:
  "list_all (\<lambda>b. b < 256) bs \<Longrightarrow>
     \<exists>body k. b64_encode bs = body @ replicate k 61 \<and> list_all b64_char body \<and> k < 4 \<and> 4 dvd length body + k"
proof (induction bs rule: b64_encode.induct)
  case 1
  then show ?case by (intro exI [of _ "[]"] exI [of _ 0]) simp
next
  case (2 a)
  have four: "4 dvd length [b64_digit (a div 4), b64_digit (a mod 4 * 16)] + 2" by (simp add: numeral_2_eq_2)
  have "list_all b64_char [b64_digit (a div 4), b64_digit (a mod 4 * 16)]" using byte_parts [of a] 2 by simp
  moreover have "b64_encode [a] = [b64_digit (a div 4), b64_digit (a mod 4 * 16)] @ replicate 2 61"
    by (simp add: numeral_2_eq_2)
  ultimately show ?case using four by (intro exI [of _ "[b64_digit (a div 4), b64_digit (a mod 4 * 16)]"] exI [of _ 2]) auto
next
  case (3 a b)
  then show ?case using byte_parts [of a] byte_parts [of b] b64_first [of "a mod 4" "b div 16"]
    by (intro exI [of _ "[b64_digit (a div 4), b64_digit (a mod 4 * 16 + b div 16), b64_digit (b mod 16 * 4)]"] exI [of _ 1])
       simp
next
  case (4 a b c bs)
  then obtain body k where ih: "b64_encode bs = body @ replicate k 61" "list_all b64_char body" "k < 4" "4 dvd length body + k"
    by auto
  let ?four = "[b64_digit (a div 4), b64_digit (a mod 4 * 16 + b div 16), b64_digit (b mod 16 * 4 + c div 64), b64_digit (c mod 64)]"
  have "list_all b64_char ?four"
    using 4 byte_parts [of a] byte_parts [of b] byte_parts [of c] b64_first [of "a mod 4" "b div 16"] b64_second [of "b mod 16" "c div 64"]
    by simp
  moreover have "4 dvd length (?four @ body) + k" using ih(4) by simp
  ultimately show ?case using ih by (intro exI [of _ "?four @ body"] exI [of _ k]) simp
qed

lemma padding_restored:
  assumes "list_all (\<lambda>b. b < 256) bs"
  shows "put_padding (strip_padding (b64_encode bs)) = b64_encode bs"
    "c \<in> set (strip_padding (b64_encode bs)) \<Longrightarrow> b64_char c"
proof -
  obtain body k where enc: "b64_encode bs = body @ replicate k 61" "list_all b64_char body" "k < 4" "4 dvd length body + k"
    using b64_encode_shape [OF assms] by blast
  have "dropWhile (\<lambda>c. c = 61) (replicate k 61 @ rev body) = rev body"
  proof (cases "rev body")
    case (Cons c cs)
    then have "c \<noteq> 61" using enc(2) b64_char_plain by (metis list_all_iff list.set_intros(1) set_rev)
    then show ?thesis by (subst dropWhile_append2) (auto simp: Cons)
  qed (simp add: dropWhile_append2)
  then have strip: "strip_padding (b64_encode bs) = body" by (simp add: strip_padding_def enc(1))
  have "(- int (length body)) mod 4 = int k"
  proof -
    obtain j where "length body + k = 4 * j" using enc(4) by (auto simp: dvd_def)
    then have "- int (length body) = int k + 4 * (- int j)" by linarith
    then show ?thesis using enc(3) by (simp only: mod_mult_self2) simp
  qed
  then show "put_padding (strip_padding (b64_encode bs)) = b64_encode bs"
    by (simp only: strip) (simp add: put_padding_def enc(1))
  show "b64_char c" if "c \<in> set (strip_padding (b64_encode bs))"
    using that enc(2) by (simp only: strip list_all_iff)
qed

lemma b64_round_trip:
  "list_all (\<lambda>b. b < 256) bs \<Longrightarrow> b64_decode strict (put_padding (strip_padding (b64_encode bs))) = Some bs"
  by (simp add: padding_restored b64_decode_def b64_scan_encode)

section \<open>Splitting\<close>

text \<open>\<open>text.rsplit(sep, 1)\<close>, nothing when \<open>sep\<close> does not occur.\<close>

fun rsplit_once :: "ustring \<Rightarrow> ustring \<Rightarrow> (ustring \<times> ustring) option" where
  "rsplit_once sep [] = None"
| "rsplit_once sep (c # cs) =
     (case rsplit_once sep cs of
        Some (a, b) \<Rightarrow> Some (c # a, b)
      | None \<Rightarrow> if take (length sep) (c # cs) = sep then Some ([], drop (length sep) (c # cs)) else None)"

lemma rsplit_once_prefix: "rsplit_once sep s = Some (a, b) \<Longrightarrow> rsplit_once sep (p @ s) = Some (p @ a, b)"
  by (induction p) simp_all

lemma rsplit_once_none: "47 \<notin> set s \<Longrightarrow> rsplit_once [47, c, 47] s = None"
proof (induction s)
  case (Cons a s)
  then show ?case by (cases s) auto
qed simp

lemma rsplit_once_last:
  assumes "47 \<notin> set s" "c \<noteq> 47"
  shows "rsplit_once [47, c, 47] (p @ [47, c, 47] @ s) = Some (p, s)"
proof -
  have "rsplit_once [47, c, 47] (47 # s) = None"
  proof -
    have "take (length [47, c, 47]) (47 # s) \<noteq> [47, c, 47]" using assms by (cases s; cases "tl s") auto
    then show ?thesis using rsplit_once_none [OF assms(1), of c] by (simp del: take_Suc_Cons list.size)
  qed
  then have "rsplit_once [47, c, 47] ([47, c, 47] @ s) = Some ([], s)" using assms(2) by simp
  from rsplit_once_prefix [OF this, of p] show ?thesis by simp
qed

text \<open>\<open>text.split(c)\<close> with one character.\<close>

fun split_char :: "nat \<Rightarrow> ustring \<Rightarrow> ustring list" where
  "split_char c [] = [[]]"
| "split_char c (x # xs) =
     (if x = c then [] # split_char c xs else (x # hd (split_char c xs)) # tl (split_char c xs))"

lemma split_char_nonempty [simp]: "split_char c s \<noteq> []"
  by (cases s) simp_all

lemma split_char_plain: "c \<notin> set s \<Longrightarrow> split_char c s = [s]"
  by (induction s) auto

lemma split_char_join: "c \<notin> set s \<Longrightarrow> split_char c (s @ c # t) = s # split_char c t"
  by (induction s) auto

end
