(* ===== verification/Json_Parser.thy ===== *)
theory Json_Parser
  imports Json Encodings
begin

text \<open>
  \<open>json.loads\<close> over the code points of a text, as the scanner of the standard library reads it: strict
  strings, numbers of ASCII digits, \<open>NaN\<close> and \<open>Infinity\<close>, and blanks between the tokens. A value that was
  encoded with \<open>json.dumps\<close> is read back. The first argument of the readers bounds their recursion; twice
  the length of the text is enough, because every second call reads a character (lemma \<open>fuel_enough\<close>).
\<close>

section \<open>Tokens\<close>

definition blank_char :: "nat \<Rightarrow> bool" where
  "blank_char c \<longleftrightarrow> c = 32 \<or> c = 9 \<or> c = 10 \<or> c = 13"

definition skip_blanks :: "nat list \<Rightarrow> nat list" where
  "skip_blanks s = dropWhile blank_char s"

definition digit_char :: "nat \<Rightarrow> bool" where
  "digit_char c \<longleftrightarrow> 48 \<le> c \<and> c \<le> 57"

definition hex_value :: "nat \<Rightarrow> nat option" where
  "hex_value c =
     (if 48 \<le> c \<and> c \<le> 57 then Some (c - 48)
      else if 97 \<le> c \<and> c \<le> 102 then Some (c - 87)
      else if 65 \<le> c \<and> c \<le> 70 then Some (c - 55)
      else None)"

definition hex_four :: "nat list \<Rightarrow> (nat \<times> nat list) option" where
  "hex_four s =
     (case s of
        a # b # c # d # rest \<Rightarrow>
          (case (hex_value a, hex_value b, hex_value c, hex_value d) of
             (Some w, Some x, Some y, Some z) \<Rightarrow> Some (((w * 16 + x) * 16 + y) * 16 + z, rest)
           | _ \<Rightarrow> None)
      | _ \<Rightarrow> None)"

text \<open>A code unit after \<open>\u\<close>: a high surrogate is joined with a low one that follows as an escape.\<close>

definition escaped_unit :: "nat list \<Rightarrow> (nat \<times> nat list) option" where
  "escaped_unit s =
     (case hex_four s of
        None \<Rightarrow> None
      | Some (u, rest) \<Rightarrow>
          if 55296 \<le> u \<and> u \<le> 56319 \<and> take 2 rest = [92, 117]
          then (case hex_four (drop 2 rest) of
                  None \<Rightarrow> None
                | Some (v, rest') \<Rightarrow>
                    if 56320 \<le> v \<and> v \<le> 57343 then Some (65536 + (u - 55296) * 1024 + (v - 56320), rest')
                    else Some (u, rest))
          else Some (u, rest))"

definition simple_escape :: "nat \<Rightarrow> nat option" where
  "simple_escape c = map_of [(34, 34), (92, 92), (47, 47), (98, 8), (102, 12), (110, 10), (114, 13), (116, 9)] c"

text \<open>The characters up to the closing quote, and what follows it.\<close>

fun read_chars :: "nat \<Rightarrow> nat list \<Rightarrow> (nat list \<times> nat list) option" where
  "read_chars 0 s = None"
| "read_chars (Suc n) s =
     (case s of
        [] \<Rightarrow> None
      | c # cs \<Rightarrow>
          if c = 34 then Some ([], cs)
          else if c < 32 then None
          else if c \<noteq> 92 then map_option (\<lambda>(t, r). (c # t, r)) (read_chars n cs)
          else (case cs of
                  [] \<Rightarrow> None
                | d # ds \<Rightarrow>
                    if d = 117
                    then (case escaped_unit ds of None \<Rightarrow> None | Some (u, r) \<Rightarrow> map_option (\<lambda>(t, r'). (u # t, r')) (read_chars n r))
                    else (case simple_escape d of None \<Rightarrow> None | Some e \<Rightarrow> map_option (\<lambda>(t, r). (e # t, r)) (read_chars n ds))))"

definition read_text :: "nat list \<Rightarrow> (nat list \<times> nat list) option" where
  "read_text s = read_chars (Suc (length s)) s"

definition digits_number :: "nat list \<Rightarrow> nat" where
  "digits_number ds = fold (\<lambda>d n. 10 * n + (d - 48)) ds 0"

text \<open>A number: a sign, \<open>0\<close> or digits that do not begin with it, a fraction and an exponent.\<close>

definition scan_whole :: "nat list \<Rightarrow> nat list \<times> nat list" where
  "scan_whole s = (if take 1 s = [48] then ([48], drop 1 s) else (takeWhile digit_char s, dropWhile digit_char s))"

definition scan_decimals :: "nat list \<Rightarrow> nat list \<times> nat list" where
  "scan_decimals s =
     (if take 1 s = [46] \<and> takeWhile digit_char (drop 1 s) \<noteq> []
      then (takeWhile digit_char (drop 1 s), dropWhile digit_char (drop 1 s)) else ([], s))"

definition scan_power :: "nat list \<Rightarrow> int option \<times> nat list" where
  "scan_power s =
     (let sign = take 1 (drop 1 s); t = drop (if sign = [43] \<or> sign = [45] then 2 else 1) s; ds = takeWhile digit_char t;
          k = int (digits_number ds)
      in if (take 1 s = [101] \<or> take 1 s = [69]) \<and> ds \<noteq> []
         then (Some (if sign = [45] then - k else k), dropWhile digit_char t) else (None, s))"

definition read_number :: "nat list \<Rightarrow> (nat json \<times> nat list) option" where
  "read_number s =
     (let negative = (take 1 s = [45]);
          (whole, s1) = scan_whole (if negative then drop 1 s else s);
          (decimals, s2) = scan_decimals s1;
          (power, s3) = scan_power s2;
          mantissa = int (digits_number (whole @ decimals)); m = (if negative then - mantissa else mantissa);
          e = (case power of None \<Rightarrow> 0 | Some k \<Rightarrow> k) - int (length decimals)
      in if whole = [] then None
         else if decimals = [] \<and> power = None then Some (JInt m, s3)
         else Some (if 0 \<le> e then JReal (m * 10 ^ nat e) 0 else JReal m (nat (- e)), s3))"

definition read_word :: "string \<Rightarrow> nat json \<Rightarrow> nat list \<Rightarrow> (nat json \<times> nat list) option" where
  "read_word w v s = (if take (length w) s = ascii w then Some (v, drop (length w) s) else None)"

definition read_atom :: "nat list \<Rightarrow> (nat json \<times> nat list) option" where
  "read_atom s =
     (case s of
        [] \<Rightarrow> None
      | c # cs \<Rightarrow>
          if c = 34 then map_option (\<lambda>(t, r). (JText t, r)) (read_text cs)
          else if c = 110 then read_word ''null'' JNull s
          else if c = 116 then read_word ''true'' (JBool True) s
          else if c = 102 then read_word ''false'' (JBool False) s
          else case read_number s of
                 Some r \<Rightarrow> Some r
               | None \<Rightarrow>
                   if c = 78 then read_word ''NaN'' JNaN s
                   else if c = 73 then read_word ''Infinity'' (JInfinity False) s
                   else if c = 45 then read_word ''-Infinity'' (JInfinity True) s
                   else None)"

section \<open>Values\<close>

fun read_value :: "nat \<Rightarrow> nat list \<Rightarrow> (nat json \<times> nat list) option"
  and read_items :: "nat \<Rightarrow> nat list \<Rightarrow> (nat json list \<times> nat list) option"
  and read_members :: "nat \<Rightarrow> nat list \<Rightarrow> ((nat list \<times> nat json) list \<times> nat list) option"
where
  "read_value 0 s = None"
| "read_value (Suc n) s =
     (if take 1 s = [91] then
        (let r = skip_blanks (drop 1 s) in
         if take 1 r = [93] then Some (JList [], drop 1 r) else map_option (\<lambda>(xs, t). (JList xs, t)) (read_items n r))
      else if take 1 s = [123] then
        (let r = skip_blanks (drop 1 s) in
         if take 1 r = [125] then Some (JObject [], drop 1 r) else map_option (\<lambda>(fs, t). (JObject fs, t)) (read_members n r))
      else read_atom s)"
| "read_items 0 s = None"
| "read_items (Suc n) s =
     (case read_value n s of
        None \<Rightarrow> None
      | Some (v, r) \<Rightarrow>
          (let t = skip_blanks r in
           if take 1 t = [93] then Some ([v], drop 1 t)
           else if take 1 t = [44] then map_option (\<lambda>(vs, t). (v # vs, t)) (read_items n (skip_blanks (drop 1 t)))
           else None))"
| "read_members 0 s = None"
| "read_members (Suc n) s =
     (if take 1 s \<noteq> [34] then None
      else case read_text (drop 1 s) of
        None \<Rightarrow> None
      | Some (name, r) \<Rightarrow>
          (let t = skip_blanks r in
           if take 1 t \<noteq> [58] then None
           else case read_value n (skip_blanks (drop 1 t)) of
             None \<Rightarrow> None
           | Some (v, r) \<Rightarrow>
               (let t = skip_blanks r in
                if take 1 t = [125] then Some ([(name, v)], drop 1 t)
                else if take 1 t = [44] then map_option (\<lambda>(fs, t). ((name, v) # fs, t)) (read_members n (skip_blanks (drop 1 t)))
                else None)))"

text \<open>
  \<open>JSONDecoder.raw_decode(text)\<close>, and \<open>json.loads(text)\<close>, which allows blanks around the value only.
\<close>

definition raw_decode :: "nat list \<Rightarrow> (nat json \<times> nat list) option" where
  "raw_decode s = read_value (2 * length s + 1) s"

definition loads :: "nat list \<Rightarrow> nat json option" where
  "loads s =
     (case raw_decode (skip_blanks s) of
        None \<Rightarrow> None
      | Some (v, r) \<Rightarrow> if skip_blanks r = [] then Some v else None)"

section \<open>The bound of the recursion\<close>

lemma skip_blanks_length: "length (skip_blanks s) \<le> length s"
  by (simp add: skip_blanks_def length_dropWhile_le)

lemma hex_four_shorter: "hex_four s = Some (u, r) \<Longrightarrow> length r < length s"
  by (auto simp: hex_four_def split: list.splits option.splits)

lemma escaped_unit_shorter:
  assumes "escaped_unit s = Some (u, r)"
  shows "length r < length s"
proof -
  obtain w t where h: "hex_four s = Some (w, t)" using assms by (auto simp: escaped_unit_def split: option.splits)
  have "r = t \<or> (\<exists>v. hex_four (drop 2 t) = Some (v, r))"
    using assms h by (auto simp: escaped_unit_def split: if_splits option.splits)
  then show ?thesis using hex_four_shorter [OF h] hex_four_shorter by fastforce
qed

lemma read_chars_shorter: "read_chars n s = Some (t, r) \<Longrightarrow> length r < length s"
proof (induction n arbitrary: s t r)
  case (Suc n)
  then obtain c cs where s: "s = c # cs" by (cases s) auto
  consider "c = 34" | "c \<noteq> 34" "c \<noteq> 92" | d ds where "c = 92" "cs = d # ds" | "c = 92" "cs = []" by (cases cs) auto
  then show ?case
  proof cases
    case 2
    with Suc.prems s obtain t' where "read_chars n cs = Some (t', r)" by (auto split: if_splits)
    from Suc.IH [OF this] show ?thesis by (simp add: s)
  next
    case 3
    show ?thesis
    proof (cases "d = 117")
      case True
      with Suc.prems s 3 obtain u r' t' where "escaped_unit ds = Some (u, r')" "read_chars n r' = Some (t', r)"
        by (auto split: option.splits)
      from escaped_unit_shorter [OF this(1)] Suc.IH [OF this(2)] show ?thesis by (simp add: s 3)
    next
      case False
      with Suc.prems s 3 obtain t' where "read_chars n ds = Some (t', r)" by (auto split: option.splits)
      from Suc.IH [OF this] show ?thesis by (simp add: s 3)
    qed
  qed (use Suc.prems s in \<open>auto split: if_splits\<close>)
qed simp

lemma read_text_shorter: "read_text s = Some (t, r) \<Longrightarrow> length r < length s"
  unfolding read_text_def by (rule read_chars_shorter)

lemma read_word_shorter: "read_word w v s = Some (x, r) \<Longrightarrow> w \<noteq> [] \<Longrightarrow> length r < length s"
  by (cases s) (auto simp: read_word_def ascii_def split: if_splits)

lemma scan_whole_shorter: "scan_whole s = (w, r) \<Longrightarrow> w \<noteq> [] \<Longrightarrow> length r < length s"
proof (cases s)
  case (Cons c cs)
  assume "scan_whole s = (w, r)" "w \<noteq> []"
  then have "r = cs \<or> digit_char c \<and> r = dropWhile digit_char cs" by (auto simp: scan_whole_def Cons split: if_splits)
  then show ?thesis using length_dropWhile_le [of digit_char cs] Cons by auto
qed (auto simp: scan_whole_def split: if_splits)

lemma scan_decimals_length: "scan_decimals s = (w, r) \<Longrightarrow> length r \<le> length s"
  using length_dropWhile_le [of digit_char "drop 1 s"] by (auto simp: scan_decimals_def split: if_splits)

lemma scan_power_length: "scan_power s = (w, r) \<Longrightarrow> length r \<le> length s"
  using length_dropWhile_le [of digit_char "drop 1 s"] length_dropWhile_le [of digit_char "drop 2 s"]
  by (auto simp: scan_power_def Let_def split: if_splits)

lemma read_number_shorter:
  assumes "read_number s = Some (x, r)"
  shows "length r < length s"
proof -
  define u where "u = (if take 1 s = [45] then drop 1 s else s)"
  obtain w s1 where w: "scan_whole u = (w, s1)" by (cases "scan_whole u")
  obtain d s2 where d: "scan_decimals s1 = (d, s2)" by (cases "scan_decimals s1")
  obtain p s3 where p: "scan_power s2 = (p, s3)" by (cases "scan_power s2")
  have "w \<noteq> []" "r = s3" using assms unfolding read_number_def Let_def u_def [symmetric] by (auto simp: w d p split: if_splits)
  moreover have "length u \<le> length s" by (simp add: u_def)
  ultimately show ?thesis
    using scan_whole_shorter [OF w] scan_decimals_length [OF d] scan_power_length [OF p] by simp
qed

lemma read_atom_shorter: "read_atom s = Some (x, r) \<Longrightarrow> length r < length s"
  unfolding read_atom_def
  by (auto split: list.splits if_splits option.splits dest: read_text_shorter read_word_shorter read_number_shorter)

lemma first_char: "take 1 s = [c] \<Longrightarrow> length (skip_blanks (drop 1 s)) < length s"
  using skip_blanks_length [of "drop 1 s"] by (cases s) auto

lemma values_shorter:
  "(\<forall>s v r. read_value n s = Some (v, r) \<longrightarrow> length r < length s) \<and>
   (\<forall>s vs r. read_items n s = Some (vs, r) \<longrightarrow> length r < length s) \<and>
   (\<forall>s fs r. read_members n s = Some (fs, r) \<longrightarrow> length r < length s)"
proof (induction n)
  case (Suc n)
  have value_n: "read_value n s = Some (v, r) \<Longrightarrow> length r < length s"
    and items_n: "read_items n s = Some (vs, r) \<Longrightarrow> length r < length s"
    and members_n: "read_members n s = Some (fs, r) \<Longrightarrow> length r < length s" for s v vs fs r
    using Suc.IH by blast+
  have "length r < length s" if "read_value (Suc n) s = Some (v, r)" for s v r
  proof -
    let ?b = "skip_blanks (drop 1 s)"
    consider (items) vs where "take 1 s = [91]" "read_items n ?b = Some (vs, r)"
      | (members) fs where "take 1 s = [123]" "read_members n ?b = Some (fs, r)"
      | (empty) c where "take 1 s = [c]" "r = drop 1 ?b"
      | (atom) "read_atom s = Some (v, r)"
      using \<open>read_value (Suc n) s = Some (v, r)\<close> by (auto simp: Let_def split: if_splits)
    then show ?thesis
    proof cases
      case items
      with items_n [OF items(2)] first_char [OF items(1)] show ?thesis by simp
    next
      case members
      with members_n [OF members(2)] first_char [OF members(1)] show ?thesis by simp
    next
      case empty
      with first_char [OF empty(1)] show ?thesis by simp
    qed (rule read_atom_shorter)
  qed
  moreover have "length r < length s" if "read_items (Suc n) s = Some (vs, r)" for s vs r
  proof -
    from that obtain v t where v: "read_value n s = Some (v, t)" by (auto split: option.splits)
    let ?t = "skip_blanks t"
    have "r = drop 1 ?t \<or> (\<exists>ws. take 1 ?t = [44] \<and> read_items n (skip_blanks (drop 1 ?t)) = Some (ws, r))"
      using that v by (auto simp: Let_def split: if_splits)
    then have "length r \<le> length ?t" using items_n first_char [of ?t 44] by fastforce
    with value_n [OF v] skip_blanks_length [of t] show ?thesis by simp
  qed
  moreover have "length r < length s" if "read_members (Suc n) s = Some (fs, r)" for s fs r
  proof -
    from that obtain name u where u: "take 1 s = [34]" "read_text (drop 1 s) = Some (name, u)" by (auto split: if_splits option.splits)
    let ?u = "skip_blanks u"
    from that u obtain v t where v: "take 1 ?u = [58]" "read_value n (skip_blanks (drop 1 ?u)) = Some (v, t)"
      by (auto simp: Let_def split: if_splits option.splits)
    let ?t = "skip_blanks t"
    have "r = drop 1 ?t \<or> (\<exists>ws. take 1 ?t = [44] \<and> read_members n (skip_blanks (drop 1 ?t)) = Some (ws, r))"
      using that u v by (auto simp: Let_def split: if_splits)
    then have "length r \<le> length ?t" using members_n first_char [of ?t 44] by fastforce
    moreover have "length ?t \<le> length t" "length ?u \<le> length u" by (rule skip_blanks_length)+
    ultimately show ?thesis
      using value_n [OF v(2)] first_char [OF v(1)] read_text_shorter [OF u(2)] by (simp del: One_nat_def)
  qed
  ultimately show ?case by blast
qed simp

text \<open>Above the bound, the result does not depend on it.\<close>

lemma fuel_enough:
  "(\<forall>s m. 2 * length s + 1 \<le> n \<longrightarrow> 2 * length s + 1 \<le> m \<longrightarrow> read_value n s = read_value m s) \<and>
   (\<forall>s m. 2 * length s + 2 \<le> n \<longrightarrow> 2 * length s + 2 \<le> m \<longrightarrow> read_items n s = read_items m s \<and> read_members n s = read_members m s)"
proof (induction n)
  case (Suc n)
  have value_n: "read_value n s = read_value m s" if "2 * length s + 1 \<le> n" "2 * length s + 1 \<le> m" for s m
    using Suc.IH that by blast
  have items_n: "read_items n s = read_items m s" "read_members n s = read_members m s" if "2 * length s + 2 \<le> n" "2 * length s + 2 \<le> m" for s m
    using Suc.IH that by blast+
  have "read_value (Suc n) s = read_value m s" if "2 * length s + 1 \<le> Suc n" "2 * length s + 1 \<le> m" for s m
  proof -
    obtain k where m: "m = Suc k" using \<open>2 * length s + 1 \<le> m\<close> by (cases m) simp_all
    let ?b = "skip_blanks (drop 1 s)"
    have "read_items n ?b = read_items k ?b" "read_members n ?b = read_members k ?b" if "take 1 s = [c]" for c
      using items_n [of ?b k] first_char [OF that] \<open>2 * length s + 1 \<le> Suc n\<close> \<open>2 * length s + 1 \<le> m\<close> m by simp_all
    then show ?thesis unfolding m by (simp add: Let_def del: One_nat_def)
  qed
  moreover have "read_items (Suc n) s = read_items m s" if "2 * length s + 2 \<le> Suc n" "2 * length s + 2 \<le> m" for s m
  proof -
    obtain k where m: "m = Suc k" using \<open>2 * length s + 2 \<le> m\<close> by (cases m) simp_all
    have v: "read_value n s = read_value k s" using that m by (intro value_n) simp_all
    have "read_items n (skip_blanks (drop 1 (skip_blanks r))) = read_items k (skip_blanks (drop 1 (skip_blanks r)))"
      if "read_value k s = Some (x, r)" "take 1 (skip_blanks r) = [44]" for x r
    proof (rule items_n)
      have "length (skip_blanks (drop 1 (skip_blanks r))) < length s"
        using values_shorter [of k] that first_char [OF that(2)] skip_blanks_length [of r] by fastforce
      then show "2 * length (skip_blanks (drop 1 (skip_blanks r))) + 2 \<le> n" "2 * length (skip_blanks (drop 1 (skip_blanks r))) + 2 \<le> k"
        using \<open>2 * length s + 2 \<le> Suc n\<close> \<open>2 * length s + 2 \<le> m\<close> m by simp_all
    qed
    then show ?thesis unfolding m by (simp add: v Let_def del: One_nat_def split: option.split)
  qed
  moreover have "read_members (Suc n) s = read_members m s" if "2 * length s + 2 \<le> Suc n" "2 * length s + 2 \<le> m" for s m
  proof -
    obtain k where m: "m = Suc k" using \<open>2 * length s + 2 \<le> m\<close> by (cases m) simp_all
    have v: "read_value n (skip_blanks (drop 1 (skip_blanks u))) = read_value k (skip_blanks (drop 1 (skip_blanks u)))"
      and w: "read_value k (skip_blanks (drop 1 (skip_blanks u))) = Some (x, r) \<Longrightarrow> take 1 (skip_blanks r) = [44] \<Longrightarrow>
        read_members n (skip_blanks (drop 1 (skip_blanks r))) = read_members k (skip_blanks (drop 1 (skip_blanks r)))"
      if "take 1 s = [34]" "read_text (drop 1 s) = Some (name, u)" "take 1 (skip_blanks u) = [58]" for name u x r
    proof -
      have l: "length (skip_blanks (drop 1 (skip_blanks u))) < length s"
        using read_text_shorter [OF that(2)] first_char [OF that(3)] skip_blanks_length [of u] by simp
      then show "read_value n (skip_blanks (drop 1 (skip_blanks u))) = read_value k (skip_blanks (drop 1 (skip_blanks u)))"
        using \<open>2 * length s + 2 \<le> Suc n\<close> \<open>2 * length s + 2 \<le> m\<close> m by (intro value_n) simp_all
      assume r: "read_value k (skip_blanks (drop 1 (skip_blanks u))) = Some (x, r)" "take 1 (skip_blanks r) = [44]"
      have "length (skip_blanks (drop 1 (skip_blanks r))) < length s"
        using values_shorter [of k] r l first_char [OF r(2)] skip_blanks_length [of r] by fastforce
      then show "read_members n (skip_blanks (drop 1 (skip_blanks r))) = read_members k (skip_blanks (drop 1 (skip_blanks r)))"
        using \<open>2 * length s + 2 \<le> Suc n\<close> \<open>2 * length s + 2 \<le> m\<close> m by (intro items_n) simp_all
    qed
    show ?thesis
    proof (cases "take 1 s = [34]")
      case q: True
      show ?thesis
      proof (cases "read_text (drop 1 s)")
        case (Some x)
        obtain name u where x: "x = (name, u)" by (cases x)
        show ?thesis
        proof (cases "take 1 (skip_blanks u) = [58]")
          case True
          show ?thesis
            using v [OF q Some [unfolded x] True] w [OF q Some [unfolded x] True] q Some x True unfolding m
            by (simp add: Let_def del: One_nat_def split: option.split)
        qed (use q Some x m in \<open>simp add: Let_def del: One_nat_def\<close>)
      qed (use q m in simp)
    qed (use m in simp)
  qed
  ultimately show ?case by blast
qed simp

section \<open>Reading back\<close>

lemma hex_value_digit: "n < 16 \<Longrightarrow> hex_value (hex_digit n) = Some n"
  by (simp add: hex_value_def hex_digit_def)

lemma hex_four_escape:
  assumes "n < 65536"
  shows "hex_four (drop 2 (unicode_escape n) @ rest) = Some (n, rest)"
proof -
  have "((n div 4096 * 16 + n div 256 mod 16) * 16 + n div 16 mod 16) * 16 + n mod 16 = n"
  proof -
    have "n div 4096 = n div 256 div 16" "n div 256 = n div 16 div 16" by (simp_all add: div_mult2_eq [symmetric])
    moreover have "n div 256 div 16 * 16 + n div 256 mod 16 = n div 256" "n div 16 div 16 * 16 + n div 16 mod 16 = n div 16" "n div 16 * 16 + n mod 16 = n"
      by simp_all
    ultimately show ?thesis by metis
  qed
  moreover have "n div 4096 < 16" using assms by (simp add: less_mult_imp_div_less)
  ultimately show ?thesis by (simp add: unicode_escape_def hex_four_def hex_value_digit)
qed

lemma escaped_char:
  assumes "scalar c"
  shows "c < 65536 \<Longrightarrow> escaped_unit (drop 2 (unicode_escape c) @ rest) = Some (c, rest)"
    and "65536 \<le> c \<Longrightarrow> escaped_unit (drop 2 (unicode_escape (55296 + (c - 65536) div 1024)) @
      unicode_escape (56320 + (c - 65536) mod 1024) @ rest) = Some (c, rest)"
proof -
  have c: "c \<le> 1114111" "c < 55296 \<or> 57343 < c" using assms by (auto simp: scalar_def)
  have low: "\<not> (55296 \<le> c \<and> c \<le> 56319 \<and> q)" for q using c(2) by auto
  show "escaped_unit (drop 2 (unicode_escape c) @ rest) = Some (c, rest)" if "c < 65536"
    unfolding escaped_unit_def hex_four_escape [OF that] option.case prod.case if_not_P [OF low] by (rule refl)
  assume big: "65536 \<le> c"
  let ?u = "55296 + (c - 65536) div 1024" and ?v = "56320 + (c - 65536) mod 1024"
  have "(c - 65536) div 1024 < 1024" using c(1) big by (simp add: less_mult_imp_div_less)
  then have u: "?u < 65536" "55296 \<le> ?u" "?u \<le> 56319" by simp_all
  have v: "?v < 65536" "56320 \<le> ?v" "?v \<le> 57343" using mod_less_divisor [of 1024 "c - 65536"] by simp_all
  have "65536 + (?u - 55296) * 1024 + (?v - 56320) = c" using big by simp
  moreover have "escaped_unit (drop 2 (unicode_escape u) @ unicode_escape v @ rest) = Some (65536 + (u - 55296) * 1024 + (v - 56320), rest)"
    if "u < 65536" "55296 \<le> u" "u \<le> 56319" "v < 65536" "56320 \<le> v" "v \<le> 57343" for u v
  proof -
    have "take 2 (unicode_escape v @ rest) = [92, 117]" "drop 2 (unicode_escape v @ rest) = drop 2 (unicode_escape v) @ rest"
      by (simp_all add: unicode_escape_def)
    then show ?thesis using that
      by (simp add: escaped_unit_def hex_four_escape [OF that(1)] hex_four_escape [OF that(4)] del: take_append drop_append)
  qed
  ultimately show "escaped_unit (drop 2 (unicode_escape ?u) @ unicode_escape ?v @ rest) = Some (c, rest)"
    using u v by presburger
qed

lemma read_chars_dump:
  "list_all scalar s \<Longrightarrow> length (concat (map escape_char s)) < n \<Longrightarrow>
    read_chars n (concat (map escape_char s) @ 34 # rest) = Some (s, rest)"
proof (induction s arbitrary: n)
  case Nil
  then show ?case by (cases n) simp_all
next
  case (Cons c s)
  obtain k where n: "n = Suc k" using Cons.prems(2) by (cases n) simp_all
  let ?tail = "concat (map escape_char s) @ 34 # rest"
  have len: "length (escape_char c) + length (concat (map escape_char s)) \<le> k" using Cons.prems(2) n by simp
  have c: "scalar c" "list_all scalar s" using Cons.prems(1) by simp_all
  have ih: "length (concat (map escape_char s)) < k \<Longrightarrow> read_chars k ?tail = Some (s, rest)" by (rule Cons.IH [OF c(2)])
  have pos: "0 < length (escape_char c)" by (simp add: escape_char_def unicode_escape_def)
  have tail: "read_chars k ?tail = Some (s, rest)" using ih len pos by simp
  consider "c \<in> {34, 92, 10, 13, 9, 8, 12}" | "c \<notin> {34, 92, 10, 13, 9, 8, 12}" "32 \<le> c" "c \<le> 126"
    | "c \<notin> {34, 92, 10, 13, 9, 8, 12}" "\<not> (32 \<le> c \<and> c \<le> 126)" "c < 65536" | "65536 \<le> c" by force
  then show ?case
  proof cases
    case 1
    then obtain e where "escape_char c = [92, e]" "simple_escape e = Some c" "e \<noteq> 117"
      unfolding escape_char_def simple_escape_def by auto
    then show ?thesis using tail by (simp add: n)
  next
    case 2
    then have "escape_char c = [c]" by (simp add: escape_char_def)
    then show ?thesis using 2 tail by (simp add: n)
  next
    case 3
    have split: "unicode_escape c = 92 # 117 # drop 2 (unicode_escape c)" by (simp add: unicode_escape_def)
    have "escape_char c = 92 # 117 # drop 2 (unicode_escape c)" using 3 split by (auto simp: escape_char_def)
    then show ?thesis using tail escaped_char(1) [OF c(1) 3(3), of ?tail] by (simp add: n)
  next
    case 4
    let ?u = "55296 + (c - 65536) div 1024" and ?v = "56320 + (c - 65536) mod 1024"
    have split: "unicode_escape ?u = 92 # 117 # drop 2 (unicode_escape ?u)" by (simp add: unicode_escape_def)
    have "escape_char c = 92 # 117 # drop 2 (unicode_escape ?u) @ unicode_escape ?v"
      using 4 split by (auto simp: escape_char_def)
    then show ?thesis using tail escaped_char(2) [OF c(1) 4, of ?tail] by (simp add: n)
  qed
qed

lemma read_dump_text: "list_all scalar s \<Longrightarrow> read_text (drop 1 (dump_text s) @ rest) = Some (s, rest)"
  unfolding read_text_def dump_text_def using read_chars_dump [of s "Suc (length (concat (map escape_char s) @ 34 # rest))" rest]
  by simp

text \<open>Numbers.\<close>

lemma digits_number_snoc: "digits_number (ds @ [d]) = 10 * digits_number ds + (d - 48)"
  by (simp add: digits_number_def)

lemma nat_digits_number: "digits_number (nat_digits n) = n \<and> nat_digits n \<noteq> [] \<and> list_all digit_char (nat_digits n) \<and>
    (hd (nat_digits n) = 48 \<longrightarrow> n = 0)"
proof (induction n rule: nat_digits.induct)
  case (1 n)
  show ?case
  proof (cases "n < 10")
    case True
    then show ?thesis by (subst (1 2 3 4) nat_digits.simps) (simp add: digits_number_def digit_char_def)
  next
    case False
    then have eq: "nat_digits n = nat_digits (n div 10) @ [48 + n mod 10]" by (subst nat_digits.simps) simp
    have "n mod 10 < 10" by simp
    then have "digit_char (48 + n mod 10)" by (simp add: digit_char_def)
    moreover from 1 [OF False] have ih: "digits_number (nat_digits (n div 10)) = n div 10" "nat_digits (n div 10) \<noteq> []"
        "list_all digit_char (nat_digits (n div 10))" "hd (nat_digits (n div 10)) = 48 \<longrightarrow> n div 10 = 0" by simp_all
    moreover have "n div 10 \<noteq> 0" using False by simp
    ultimately show ?thesis unfolding eq by (simp add: digits_number_snoc)
  qed
qed

definition ends_number :: "nat list \<Rightarrow> bool" where
  "ends_number rest \<longleftrightarrow> (\<forall>c\<in>set (take 1 rest). \<not> digit_char c \<and> c \<noteq> 46 \<and> c \<noteq> 101 \<and> c \<noteq> 69)"

lemma read_nat:
  assumes "ends_number rest"
  shows "scan_whole (nat_digits n @ rest) = (nat_digits n, rest)" "scan_decimals rest = ([], rest)" "scan_power rest = (None, rest)"
proof -
  note d = nat_digits_number [of n]
  have stop: "takeWhile digit_char rest = []" "dropWhile digit_char rest = rest"
    using assms by (cases rest; simp add: ends_number_def)+
  show "scan_whole (nat_digits n @ rest) = (nat_digits n, rest)"
  proof (cases "hd (nat_digits n) = 48")
    case True
    then have "nat_digits n = [48]" using d by (subst nat_digits.simps) simp
    then show ?thesis by (simp add: scan_whole_def)
  next
    case False
    then have "take 1 (nat_digits n @ rest) \<noteq> [48]" using d by (cases "nat_digits n") simp_all
    then show ?thesis using d stop by (simp add: scan_whole_def takeWhile_append dropWhile_append list_all_iff)
  qed
  show "scan_decimals rest = ([], rest)" "scan_power rest = (None, rest)"
    using assms by (cases rest; simp add: scan_decimals_def scan_power_def ends_number_def Let_def)+
qed

lemma read_dump_int: "ends_number rest \<Longrightarrow> read_number (int_digits i @ rest) = Some (JInt i, rest)"
proof -
  assume rest: "ends_number rest"
  note n = read_nat [OF rest]
  show ?thesis
  proof (cases "i < 0")
    case True
    then show ?thesis using nat_digits_number [of "nat (- i)"] by (simp add: int_digits_def read_number_def n)
  next
    case False
    have "take 1 (nat_digits (nat i) @ rest) \<noteq> [45]"
      using nat_digits_number [of "nat i"] by (cases "nat_digits (nat i)") (auto simp: digit_char_def)
    then show ?thesis using False nat_digits_number [of "nat i"] by (simp add: int_digits_def read_number_def n)
  qed
qed

lemma one_char: "take 1 (c # t) = [c]" "drop 1 (c # t) = t"
  by simp_all

text \<open>Values without a fraction or exponent, whose texts have no lone surrogate.\<close>

fun readable :: "nat json \<Rightarrow> bool" where
  "readable (JReal n d) = False"
| "readable (JText s) = list_all scalar s"
| "readable (JList xs) = list_all readable xs"
| "readable (JObject fs) = list_all (\<lambda>f. list_all scalar (fst f) \<and> readable (snd f)) fs"
| "readable _ = True"

text \<open>What may follow a value: the end, a comma or a closing bracket.\<close>

definition closes :: "nat list \<Rightarrow> bool" where
  "closes rest \<longleftrightarrow> set (take 1 rest) \<subseteq> {44, 93, 125}"

lemma closes_simps [simp]: "closes []" "closes (44 # r)" "closes (93 # r)" "closes (125 # r)"
  by (simp_all add: closes_def)

lemma closes_number: "closes rest \<Longrightarrow> ends_number rest"
  by (auto simp: closes_def ends_number_def digit_char_def)

lemma closes_blanks: "closes rest \<Longrightarrow> skip_blanks rest = rest"
  by (cases rest) (auto simp: closes_def skip_blanks_def blank_char_def)

text \<open>The first character of an encoded value.\<close>

definition value_start :: "nat \<Rightarrow> bool" where
  "value_start c \<longleftrightarrow> c \<in> {34, 45, 73, 78, 91, 102, 110, 116, 123} \<or> digit_char c"

lemma int_start:
  obtains c t where "int_digits i = c # t" "c = 45 \<or> digit_char c"
proof (cases "i < 0")
  case True
  with that show ?thesis by (simp add: int_digits_def)
next
  case False
  moreover obtain c t where "nat_digits (nat i) = c # t" "digit_char c"
    using nat_digits_number [of "nat i"] by (cases "nat_digits (nat i)") simp_all
  ultimately show ?thesis using that [of c t] by (simp add: int_digits_def)
qed

lemma dump_start:
  assumes "readable v"
  obtains c t where "dumps real v = c # t" "value_start c"
proof (cases v)
  case (JInt i)
  obtain c t where "int_digits i = c # t" "c = 45 \<or> digit_char c" by (rule int_start)
  then show ?thesis using that JInt by (auto simp: value_start_def)
next
  case (JBool b)
  then show ?thesis using that [of 116] that [of 102] by (cases b) (simp_all add: value_start_def)
next
  case (JInfinity b)
  then show ?thesis using that [of 45] that [of 73] by (cases b) (simp_all add: value_start_def)
qed (use assms that in \<open>auto simp: dump_text_def value_start_def\<close>)

lemma dump_blanks: "readable v \<Longrightarrow> skip_blanks (dumps real v @ r) = dumps real v @ r"
  by (erule dump_start [of v real]) (auto simp: skip_blanks_def value_start_def blank_char_def digit_char_def)

lemma read_dump_atom:
  assumes "closes rest"
  shows "read_atom (110 # 117 # 108 # 108 # rest) = Some (JNull, rest)" "read_atom (116 # 114 # 117 # 101 # rest) = Some (JBool True, rest)"
    "read_atom (102 # 97 # 108 # 115 # 101 # rest) = Some (JBool False, rest)" "read_atom (78 # 97 # 78 # rest) = Some (JNaN, rest)"
    "read_atom (73 # 110 # 102 # 105 # 110 # 105 # 116 # 121 # rest) = Some (JInfinity False, rest)"
    "read_atom (45 # 73 # 110 # 102 # 105 # 110 # 105 # 116 # 121 # rest) = Some (JInfinity True, rest)"
    "list_all scalar s \<Longrightarrow> read_atom (dump_text s @ rest) = Some (JText s, rest)"
    "read_atom (int_digits i @ rest) = Some (JInt i, rest)"
proof -
  show "read_atom (dump_text s @ rest) = Some (JText s, rest)" if "list_all scalar s"
    using read_dump_text [OF that, of rest] by (simp add: read_atom_def dump_text_def)
  obtain c t where c: "int_digits i = c # t" "c = 45 \<or> digit_char c" by (rule int_start)
  then have "c \<noteq> 34 \<and> c \<noteq> 110 \<and> c \<noteq> 116 \<and> c \<noteq> 102" by (auto simp: digit_char_def)
  then show "read_atom (int_digits i @ rest) = Some (JInt i, rest)"
    using read_dump_int [OF closes_number [OF assms], of i] c(1) by (simp add: read_atom_def)
qed (simp_all add: read_atom_def read_word_def ascii_def read_number_def scan_whole_def digit_char_def Let_def split: prod.split)

definition reads_back :: "(int \<Rightarrow> nat \<Rightarrow> nat list) \<Rightarrow> nat json \<Rightarrow> bool" where
  "reads_back real v \<longleftrightarrow> (\<forall>n rest. closes rest \<longrightarrow> 2 * length (dumps real v @ rest) + 1 \<le> n \<longrightarrow>
     read_value n (dumps real v @ rest) = Some (v, rest))"

lemma reads_atom:
  assumes "dumps real v = c # t" "c \<noteq> 91" "c \<noteq> 123" "\<And>rest. closes rest \<Longrightarrow> read_atom (dumps real v @ rest) = Some (v, rest)"
  shows "reads_back real v"
  unfolding reads_back_def
proof (intro allI impI)
  fix n rest assume "closes rest" "2 * length (dumps real v @ rest) + 1 \<le> n"
  then obtain k where "n = Suc k" by (cases n) simp_all
  then show "read_value n (dumps real v @ rest) = Some (v, rest)" using assms(1-3) assms(4) [OF \<open>closes rest\<close>] by simp
qed

lemma reads_items:
  assumes "xs \<noteq> []" "\<And>x. x \<in> set xs \<Longrightarrow> readable x \<and> reads_back real x"
    "2 * length (separated (map (dumps real) xs) @ 93 # rest) + 2 \<le> n"
  shows "read_items n (separated (map (dumps real) xs) @ 93 # rest) = Some (xs, rest)"
  using assms
proof (induction xs arbitrary: n rule: induct_list012)
  case (2 x)
  then obtain k where n: "n = Suc k" by (cases n) simp_all
  have "read_value k (dumps real x @ 93 # rest) = Some (x, 93 # rest)"
    using 2 by (auto simp: reads_back_def n)
  then show ?case by (simp add: n closes_blanks)
next
  case (3 x y xs)
  let ?r = "separated (map (dumps real) (y # xs)) @ 93 # rest"
  obtain k where n: "n = Suc k" using "3.prems"(3) by (cases n) simp_all
  have "read_value k (dumps real x @ 44 # ?r) = Some (x, 44 # ?r)"
    using "3.prems"(2) [of x] "3.prems"(3) by (simp add: reads_back_def n)
  moreover have "read_items k ?r = Some (y # xs, rest)"
    using "3.prems"(2,3) by (intro "3.IH"(2)) (simp_all add: n)
  moreover have "skip_blanks ?r = ?r"
  proof -
    have y: "readable y" using "3.prems"(2) [of y] by simp
    obtain t where "?r = dumps real y @ t" by (cases xs) simp_all
    then show ?thesis using dump_blanks [OF y] by simp
  qed
  ultimately show ?case by (simp add: n closes_blanks)
qed simp

definition dump_field :: "(int \<Rightarrow> nat \<Rightarrow> nat list) \<Rightarrow> nat list \<times> nat json \<Rightarrow> nat list" where
  "dump_field real f = dump_text (fst f) @ 58 # dumps real (snd f)"

lemma reads_field:
  assumes "list_all scalar name" "readable v" "reads_back real v" "closes r"
    "2 * length (dump_field real (name, v) @ r) + 2 \<le> Suc k"
  shows "read_members (Suc k) (dump_field real (name, v) @ r) =
    (if take 1 r = [125] then Some ([(name, v)], drop 1 r)
     else if take 1 r = [44] then map_option (\<lambda>(fs, t). ((name, v) # fs, t)) (read_members k (skip_blanks (drop 1 r)))
     else None)"
proof -
  let ?v = "dumps real v @ r"
  have name: "read_text (drop 1 (dump_text name @ 58 # ?v)) = Some (name, 58 # ?v)" using read_dump_text [OF assms(1), of "58 # ?v"] by (simp add: dump_text_def)
  have quote: "take 1 (dump_text name @ t) = [34]" for t by (simp add: dump_text_def)
  have colon: "skip_blanks (58 # t) = 58 # t" for t
    by (simp add: skip_blanks_def blank_char_def)
  have "read_value k ?v = Some (v, r)"
    using assms(3-5) by (simp add: reads_back_def dump_field_def dump_text_def)
  then show ?thesis
    using name quote by (simp add: dump_field_def colon dump_blanks [OF assms(2)] closes_blanks [OF assms(4)] Let_def one_char del: One_nat_def take_append drop_append)
qed

lemma reads_members:
  assumes "fs \<noteq> []" "\<And>f. f \<in> set fs \<Longrightarrow> list_all scalar (fst f) \<and> readable (snd f) \<and> reads_back real (snd f)"
    "2 * length (separated (map (dump_field real) fs) @ 125 # rest) + 2 \<le> n"
  shows "read_members n (separated (map (dump_field real) fs) @ 125 # rest) = Some (fs, rest)"
  using assms
proof (induction fs arbitrary: n rule: induct_list012)
  case (2 f)
  obtain name v where f: "f = (name, v)" by (cases f)
  obtain k where n: "n = Suc k" using "2.prems"(3) by (cases n) simp_all
  show ?case using "2.prems" reads_field [of name v real "125 # rest" k] by (simp add: n f)
next
  case (3 f g fs)
  obtain name v where f: "f = (name, v)" by (cases f)
  let ?r = "separated (map (dump_field real) (g # fs)) @ 125 # rest"
  obtain k where n: "n = Suc k" using "3.prems"(3) by (cases n) simp_all
  have "read_members n (dump_field real (name, v) @ 44 # ?r) = map_option (\<lambda>(fs, t). ((name, v) # fs, t)) (read_members k (skip_blanks ?r))"
    using "3.prems"(2) [of f] "3.prems"(3) reads_field [of name v real "44 # ?r" k] by (simp add: n f)
  moreover have "read_members k ?r = Some (g # fs, rest)"
    using "3.prems"(2,3) by (intro "3.IH"(2)) (simp_all add: n)
  moreover have "skip_blanks ?r = ?r"
  proof -
    obtain t where "?r = 34 # t" by (cases fs) (simp_all add: dump_field_def dump_text_def)
    then show ?thesis by (simp add: skip_blanks_def blank_char_def)
  qed
  ultimately show ?case by (simp add: f)
qed simp

lemma dumps_read_back: "readable v \<Longrightarrow> reads_back real v"
proof (induction v)
  case (JInt i)
  obtain c t where c: "int_digits i = c # t" "c = 45 \<or> digit_char c" by (rule int_start)
  show ?case
  proof (rule reads_atom)
    show "dumps real (JInt i) = c # t" using c by simp
    show "c \<noteq> 91" "c \<noteq> 123" using c(2) by (auto simp: digit_char_def)
  qed (simp add: read_dump_atom)
next
  case (JText s)
  show ?case
  proof (rule reads_atom)
    show "dumps real (JText s) = 34 # concat (map escape_char s) @ [34]" by (simp add: dump_text_def)
  qed (use JText in \<open>simp_all add: read_dump_atom\<close>)
next
  case (JList xs)
  have items: "readable x \<and> reads_back real x" if "x \<in> set xs" for x using JList that by (simp add: list_all_iff)
  show ?case
    unfolding reads_back_def
  proof (intro allI impI)
    fix n rest assume n: "closes rest" "2 * length (dumps real (JList xs) @ rest) + 1 \<le> n"
    then obtain k where k: "n = Suc k" by (cases n) simp_all
    show "read_value n (dumps real (JList xs) @ rest) = Some (JList xs, rest)"
    proof (cases xs)
      case Nil
      then show ?thesis by (simp add: k skip_blanks_def blank_char_def)
    next
      case (Cons y ys)
      let ?r = "separated (map (dumps real) xs) @ 93 # rest"
      obtain t where t: "?r = dumps real y @ t" unfolding Cons by (cases ys) simp_all
      obtain c u where c: "dumps real y = c # u" "value_start c" using dump_start items Cons by (metis list.set_intros(1))
      have "skip_blanks ?r = ?r" unfolding t using dump_blanks items Cons by simp
      moreover have "take 1 ?r \<noteq> [93]" unfolding t using c by (auto simp: value_start_def digit_char_def)
      moreover have "read_items k ?r = Some (xs, rest)" using n(2) Cons items by (intro reads_items) (simp_all add: k)
      ultimately show ?thesis by (simp add: k Let_def one_char del: One_nat_def take_append drop_append)
    qed
  qed
next
  case (JObject fs)
  have items: "list_all scalar (fst f) \<and> readable (snd f) \<and> reads_back real (snd f)" if "f \<in> set fs" for f
    using JObject that by (cases f) (force simp: list_all_iff)
  have dump: "dumps real (JObject fs) = 123 # separated (map (dump_field real) fs) @ [125]" by (simp add: dump_field_def [abs_def])
  show ?case
    unfolding reads_back_def dump
  proof (intro allI impI)
    fix n rest assume n: "closes rest" "2 * length ((123 # separated (map (dump_field real) fs) @ [125]) @ rest) + 1 \<le> n"
    then obtain k where k: "n = Suc k" by (cases n) simp_all
    show "read_value n ((123 # separated (map (dump_field real) fs) @ [125]) @ rest) = Some (JObject fs, rest)"
    proof (cases fs)
      case Nil
      then show ?thesis by (simp add: k skip_blanks_def blank_char_def)
    next
      case (Cons g gs)
      let ?r = "separated (map (dump_field real) fs) @ 125 # rest"
      obtain t where t: "?r = 34 # t" unfolding Cons by (cases gs) (simp_all add: dump_field_def dump_text_def)
      then have "skip_blanks ?r = ?r" "take 1 ?r \<noteq> [125]" by (simp_all add: skip_blanks_def blank_char_def)
      moreover have "read_members k ?r = Some (fs, rest)" using n(2) Cons items by (intro reads_members) (simp_all add: k)
      ultimately show ?thesis by (simp add: k Let_def one_char del: One_nat_def take_append drop_append)
    qed
  qed
next
  case JNull
  show ?case by (rule reads_atom [where c = 110 and t = "[117, 108, 108]"]) (simp_all add: read_dump_atom)
next
  case (JBool b)
  show ?case
  proof (cases b)
    case True
    then show ?thesis
      by (intro reads_atom [where c = 116 and t = "[114, 117, 101]"]) (simp_all add: read_dump_atom)
  next
    case False
    then show ?thesis
      by (intro reads_atom [where c = 102 and t = "[97, 108, 115, 101]"]) (simp_all add: read_dump_atom)
  qed
next
  case JNaN
  show ?case by (rule reads_atom [where c = 78 and t = "[97, 78]"]) (simp_all add: read_dump_atom)
next
  case (JInfinity b)
  show ?case
  proof (cases b)
    case True
    then show ?thesis
      by (intro reads_atom [where c = 45 and t = "[73, 110, 102, 105, 110, 105, 116, 121]"]) (simp_all add: read_dump_atom)
  next
    case False
    then show ?thesis
      by (intro reads_atom [where c = 73 and t = "[110, 102, 105, 110, 105, 116, 121]"]) (simp_all add: read_dump_atom)
  qed
qed simp

lemma loads_dumps:
  assumes "readable v"
  shows "loads (dumps real v) = Some v"
proof -
  have "read_value (2 * length (dumps real v) + 1) (dumps real v @ []) = Some (v, [])"
    using dumps_read_back [OF assms, of real, unfolded reads_back_def, rule_format, of "[]" "2 * length (dumps real v) + 1"] by simp
  then have "raw_decode (dumps real v) = Some (v, [])" unfolding raw_decode_def append_Nil2 .
  then show ?thesis using dump_blanks [OF assms, of real "[]"] by (simp add: loads_def skip_blanks_def)
qed

end
