(* ===== verification/Page_Cursors.thy ===== *)
theory Page_Cursors
  imports Json_Parser "HOL-Library.List_Lexorder"
begin

text \<open>
  The cursors of the paginated PL/SQL routes (\<open>app/api/routes/plsql/router.py\<close>): a cursor holds the digest of
  the query it belongs to and the offset of the next page as JSON in base64. The SHA-256 digest is a parameter.
\<close>

section \<open>JSON from bytes\<close>

text \<open>
  \<open>json.loads(bytes)\<close> finds the encoding from the first bytes and decodes with \<open>surrogatepass\<close>, which lets
  single surrogates through.
\<close>

datatype json_encoding = Utf8 | Utf8_Sig | Utf16 bool | Utf16_Bom bool | Utf32 bool | Utf32_Bom bool

definition detect_encoding :: "nat list \<Rightarrow> json_encoding" where
  "detect_encoding b =
     (if take 4 b = [0, 0, 254, 255] then Utf32_Bom True
      else if take 4 b = [255, 254, 0, 0] then Utf32_Bom False
      else if take 2 b = [254, 255] then Utf16_Bom True
      else if take 2 b = [255, 254] then Utf16_Bom False
      else if take 3 b = [239, 187, 191] then Utf8_Sig
      else if 4 \<le> length b then
        (if b ! 0 = 0 then (if b ! 1 \<noteq> 0 then Utf16 True else Utf32 True)
         else if b ! 1 = 0 then (if b ! 2 \<noteq> 0 \<or> b ! 3 \<noteq> 0 then Utf16 False else Utf32 False)
         else Utf8)
      else if length b = 2 then (if b ! 0 = 0 then Utf16 True else if b ! 1 = 0 then Utf16 False else Utf8)
      else Utf8)"

text \<open>The code units of two or four bytes; \<open>True\<close> stands for the most significant byte first.\<close>

fun units16 :: "bool \<Rightarrow> nat list \<Rightarrow> nat list option" where
  "units16 big [] = Some []"
| "units16 big [a] = None"
| "units16 big (a # b # bs) = map_option ((#) (if big then a * 256 + b else b * 256 + a)) (units16 big bs)"

fun join_surrogates :: "nat list \<Rightarrow> nat list" where
  "join_surrogates (u # v # us) =
     (if 55296 \<le> u \<and> u \<le> 56319 \<and> 56320 \<le> v \<and> v \<le> 57343
      then (65536 + (u - 55296) * 1024 + (v - 56320)) # join_surrogates us
      else u # join_surrogates (v # us))"
| "join_surrogates us = us"

fun units32 :: "bool \<Rightarrow> nat list \<Rightarrow> nat list option" where
  "units32 big [] = Some []"
| "units32 big (a # b # c # d # bs) =
     (let n = (if big then ((a * 256 + b) * 256 + c) * 256 + d else ((d * 256 + c) * 256 + b) * 256 + a)
      in if n < 1114112 then map_option ((#) n) (units32 big bs) else None)"
| "units32 big _ = None"

definition pass_next :: "nat list \<Rightarrow> (nat \<times> nat list) option" where
  "pass_next bs =
     (case utf8_next bs of
        Some r \<Rightarrow> Some r
      | None \<Rightarrow>
          (case bs of
             a # b # c # rest \<Rightarrow>
               if a = 237 \<and> 160 \<le> b \<and> b < 192 \<and> tail_byte c
               then Some ((a - 224) * 4096 + (b - 128) * 64 + (c - 128), rest) else None
           | _ \<Rightarrow> None))"

lemma pass_next_shorter: "pass_next bs = Some (c, rest) \<Longrightarrow> length rest < length bs"
  by (auto simp: pass_next_def dest: utf8_next_shorter split: option.splits list.splits if_splits)

function pass_decode :: "nat list \<Rightarrow> ustring option" where
  "pass_decode bs =
     (if bs = [] then Some []
      else case pass_next bs of
             None \<Rightarrow> None
           | Some (c, rest) \<Rightarrow> map_option ((#) c) (pass_decode rest))"
  by pat_completeness auto
termination by (relation "measure length") (auto dest: pass_next_shorter)

declare pass_decode.simps [simp del]

definition decode_json_bytes :: "nat list \<Rightarrow> ustring option" where
  "decode_json_bytes b =
     (case detect_encoding b of
        Utf8 \<Rightarrow> pass_decode b
      | Utf8_Sig \<Rightarrow> pass_decode (drop 3 b)
      | Utf16 big \<Rightarrow> map_option join_surrogates (units16 big b)
      | Utf16_Bom big \<Rightarrow> map_option join_surrogates (units16 big (drop 2 b))
      | Utf32 big \<Rightarrow> units32 big b
      | Utf32_Bom big \<Rightarrow> units32 big (drop 4 b))"

definition loads_bytes :: "nat list \<Rightarrow> nat json option" where
  "loads_bytes b =
     (case decode_json_bytes b of
        None \<Rightarrow> None
      | Some s \<Rightarrow> loads s)"

section \<open>Scopes and cursors\<close>

definition no_real :: "int \<Rightarrow> nat \<Rightarrow> nat list" where
  "no_real m d = []"

definition pagination_scope :: "(nat list \<Rightarrow> ustring) \<Rightarrow> ustring \<Rightarrow> (ustring \<times> nat json) list \<Rightarrow> ustring" where
  "pagination_scope sha256 kind values =
     sha256 (utf8_encode (dumps no_real (JObject (sort_key fst ((ascii ''kind'', JText kind) # values)))))"

definition cursor_payload :: "ustring \<Rightarrow> nat \<Rightarrow> nat json" where
  "cursor_payload scope offset = JObject [(ascii ''v'', JInt 1), (ascii ''scope'', JText scope), (ascii ''offset'', JInt (int offset))]"

definition encode_page_cursor :: "ustring \<Rightarrow> nat \<Rightarrow> ustring" where
  "encode_page_cursor scope offset = strip_padding (b64_encode (utf8_encode (dumps no_real (cursor_payload scope offset))))"

text \<open>\<open>None\<close> stands for \<open>InvalidRequest\<close>, which every failure of the decoding ends in.\<close>

definition decode_page_cursor :: "ustring option \<Rightarrow> ustring \<Rightarrow> nat option" where
  "decode_page_cursor cursor scope =
     (case cursor of
        None \<Rightarrow> Some 0
      | Some c \<Rightarrow>
          if \<exists>x\<in>set c. 128 \<le> x then None
          else case b64_decode True (put_padding c) of
            None \<Rightarrow> None
          | Some b \<Rightarrow>
              (case loads_bytes b of
                 Some (JObject fs) \<Rightarrow>
                   if member fs (ascii ''v'') = Some (JInt 1) \<and> member fs (ascii ''scope'') = Some (JText scope)
                   then (case member fs (ascii ''offset'') of
                           Some (JInt n) \<Rightarrow> if n < 0 then None else Some (nat n)
                         | _ \<Rightarrow> None)
                   else None
               | _ \<Rightarrow> None))"

section \<open>Reading cursors back\<close>

lemma pass_decode_ascii: "\<forall>b\<in>set s. b < 128 \<Longrightarrow> pass_decode s = Some s"
  by (induction s) (simp_all add: pass_decode.simps pass_next_def)

lemma utf8_ascii: "\<forall>b\<in>set s. b < 128 \<Longrightarrow> utf8_encode s = s"
  by (induction s) (simp_all add: utf8_encode_def utf8_char_def)

lemma dumps_plain: "b \<in> set (dumps no_real v) \<Longrightarrow> b < 128"
  by (erule dumps_ascii [rotated]) (simp add: no_real_def)

lemma loads_bytes_dumps:
  assumes "readable (JObject (f # fs))"
  shows "loads_bytes (utf8_encode (dumps no_real (JObject (f # fs)))) = Some (JObject (f # fs))"
proof -
  let ?s = "dumps no_real (JObject (f # fs))"
  have plain: "\<forall>b\<in>set ?s. b < 128" using dumps_plain by blast
  obtain t where t: "?s = 123 # 34 # t" by (cases fs) (simp_all add: dump_text_def)
  then have "detect_encoding ?s = Utf8" by (simp add: detect_encoding_def)
  then have "decode_json_bytes ?s = Some ?s" using pass_decode_ascii [OF plain] by (simp add: decode_json_bytes_def)
  then show ?thesis using loads_dumps [OF assms] utf8_ascii [OF plain] by (simp only: loads_bytes_def option.case)
qed

lemma cursor_fields: "member [(ascii ''v'', a), (ascii ''scope'', b), (ascii ''offset'', c)] (ascii ''v'') = Some a"
    "member [(ascii ''v'', a), (ascii ''scope'', b), (ascii ''offset'', c)] (ascii ''scope'') = Some b"
    "member [(ascii ''v'', a), (ascii ''scope'', b), (ascii ''offset'', c)] (ascii ''offset'') = Some c"
  by (simp_all add: member_def ascii_def)

lemma cursor_decodes:
  assumes "list_all scalar scope"
  shows "decode_page_cursor (Some (encode_page_cursor scope offset)) scope' = (if scope' = scope then Some offset else None)"
proof -
  let ?b = "utf8_encode (dumps no_real (cursor_payload scope offset))"
  have plain: "\<forall>b\<in>set ?b. b < 128" using dumps_plain utf8_ascii by (metis (no_types, lifting))
  then have bytes: "list_all (\<lambda>b. b < 256) ?b" by (auto simp: list_all_iff)
  have "\<not> (\<exists>x\<in>set (encode_page_cursor scope offset). 128 \<le> x)"
    using padding_restored(2) [OF bytes] b64_char_plain unfolding encode_page_cursor_def by fastforce
  moreover have "b64_decode True (put_padding (encode_page_cursor scope offset)) = Some ?b"
    unfolding encode_page_cursor_def by (rule b64_round_trip [OF bytes])
  moreover have "readable (cursor_payload scope offset)"
    using assms by (simp add: cursor_payload_def ascii_def scalar_def)
  then have "loads_bytes ?b = Some (cursor_payload scope offset)"
    unfolding cursor_payload_def by (rule loads_bytes_dumps)
  ultimately show ?thesis by (simp add: decode_page_cursor_def cursor_payload_def cursor_fields)
qed

end
