(* ===== verification/Conversation_Routes.thy ===== *)
theory Conversation_Routes
  imports Project_Routes Conversation_Requests Page_Cursors
begin

text \<open>
  The conversation routes (\<open>app/api/router.py\<close>) over any conversation store, with the registry they
  read, and what \<open>get_workflow\<close> (\<open>app/api/dependencies.py\<close>) makes of a conversation. One definition
  per route and a dispatcher, as for the project routes. The registry is never changed by them.
\<close>

section \<open>Settings and identifiers\<close>

text \<open>
  The settings, the registry, what the knowledge service reports, and the two functions of \<open>datetime\<close>
  that cursors use; a text without a time zone is none of a time.
\<close>

record chat_env =
  ch_auth_enabled :: bool
  ch_project_id :: string
  ch_project_path :: string
  ch_storage_root :: string
  ch_max_turns :: nat
  ch_max_chars :: nat
  ch_registry :: repo_db
  ch_active_version :: "string option"
  ch_source_index :: string
  ch_isoformat :: "time \<Rightarrow> ustring"
  ch_fromisoformat :: "ustring \<Rightarrow> time option"

text \<open>
  Identifiers are texts for the code and numbers in the tables of the model. \<open>read_ident\<close> takes the
  number back from its text; a text that is none of an identifier names no row.
\<close>

definition read_ident :: "string \<Rightarrow> ident" where
  "read_ident text = foldl (\<lambda>n c. 10 * n + (of_char c - 48)) 0 text"

definition named_ident :: "string \<Rightarrow> repo_error + ident" where
  "named_ident text =
     (if id_text (read_ident text) = text then Inr (read_ident text) else Inl (ProjectNotFound (read_ident text)))"

definition lookup_project :: "repo_db \<Rightarrow> string \<Rightarrow> bool \<Rightarrow> repo_error + project_row" where
  "lookup_project db text include_archived =
     (case named_ident text of Inl e \<Rightarrow> Inl e | Inr pid \<Rightarrow> get_project db pid include_archived)"

definition decide_access :: "repo_db \<Rightarrow> string \<Rightarrow> auth_principal \<Rightarrow> repo_error + access_decision" where
  "decide_access db text user =
     (case named_ident text of Inl e \<Rightarrow> Inl e | Inr pid \<Rightarrow> authorize db pid user Viewer)"

text \<open>\<open>x or None\<close> for a text: the empty one counts as missing.\<close>

definition present :: "string option \<Rightarrow> string option" where
  "present v = (case v of Some [] \<Rightarrow> None | _ \<Rightarrow> v)"

section \<open>Cursors\<close>

text \<open>
  \<open>_encode_cursor\<close> and \<open>_decode_cursor\<close> of the stores. An identifier that a client makes up is
  compared with the identifiers as the number its characters read as.
\<close>

definition encode_cursor :: "chat_env \<Rightarrow> cursor \<Rightarrow> ustring" where
  "encode_cursor env c =
     strip_padding (b64_encode (utf8_encode (dumps no_real
       (JList [JText (ch_isoformat env (fst c)), JText (ascii (id_text (snd c)))]))))"

definition decode_cursor :: "chat_env \<Rightarrow> ustring \<Rightarrow> cursor option" where
  "decode_cursor env text =
     (if \<exists>x\<in>set text. 128 \<le> x then None
      else case b64_decode False (put_padding text) of
        None \<Rightarrow> None
      | Some b \<Rightarrow>
          (case loads_bytes b of
             Some (JList [JText timestamp, JText identifier]) \<Rightarrow>
               (case ch_fromisoformat env timestamp of
                  None \<Rightarrow> None
                | Some t \<Rightarrow> if identifier = [] then None else Some (t, read_ident (map char_of identifier)))
           | _ \<Rightarrow> None))"

section \<open>Steps of a route\<close>

text \<open>A route takes the state of the store to the state after it and an exception or the answer.\<close>

type_synonym ('s, 'a) chat_route = "'s \<Rightarrow> 's \<times> (api_exception + 'a)"

definition reply_error :: "api_exception \<Rightarrow> ('s, 'a) chat_route" where
  "reply_error e s = (s, Inl e)"

definition reply_value :: "'a \<Rightarrow> ('s, 'a) chat_route" where
  "reply_value x s = (s, Inr x)"

definition check_registry :: "(repo_error + 'a) \<Rightarrow> ('s, 'a) chat_route" where
  "check_registry r s = (s, map_sum of_repo_error id r)"

definition on_store :: "('s \<Rightarrow> (store_error, 's, 'a) outcome) \<Rightarrow> ('s, 'a) chat_route" where
  "on_store f s = (case f s of Inl e \<Rightarrow> (s, Inl (of_store_error e)) | Inr (s', x) \<Rightarrow> (s', Inr x))"

definition and_then :: "('s, 'a) chat_route \<Rightarrow> ('a \<Rightarrow> ('s, 'b) chat_route) \<Rightarrow> ('s, 'b) chat_route" where
  "and_then f g s = (case f s of (s', Inl e) \<Rightarrow> (s', Inl e) | (s', Inr x) \<Rightarrow> g x s')"

section \<open>Authorization\<close>

definition authorize_project_request :: "chat_env \<Rightarrow> string \<Rightarrow> auth_principal \<Rightarrow> ('s, unit) chat_route" where
  "authorize_project_request env pid user =
     (if \<not> ch_auth_enabled env then reply_value ()
      else and_then (check_registry (decide_access (ch_registry env) pid user)) (\<lambda>_. reply_value ()))"

definition authorize_conversation ::
  "'s store_ops \<Rightarrow> chat_env \<Rightarrow> ident \<Rightarrow> auth_principal \<Rightarrow> bool \<Rightarrow> ('s, unit) chat_route" where
  "authorize_conversation ops env i user include_archived =
     and_then (on_store (st_get_scope ops i (ap_subject user) include_archived))
       (\<lambda>scope. authorize_project_request env (scope_project_id scope) user)"

section \<open>Conversations\<close>

datatype chat_reply =
  RConversation conversation
| RConversations "conversation_summary list" "ustring option"
| RDeleted
| RStream "conversation_turn list"

definition reply_with ::
  "('s \<Rightarrow> (store_error, 's, 'a) outcome) \<Rightarrow> ('a \<Rightarrow> chat_reply) \<Rightarrow> ('s, chat_reply) chat_route" where
  "reply_with f g = and_then (on_store f) (\<lambda>x. reply_value (g x))"

text \<open>\<open>project.state != "ready" or not project.active_graph_version\<close>, and the creation in a ready project.\<close>

definition create_in ::
  "'s store_ops \<Rightarrow> project_row \<Rightarrow> auth_principal \<Rightarrow> time \<Rightarrow> ('s, chat_reply) chat_route" where
  "create_in ops p user now =
     (case present (p_active_graph_version p) of
        Some v \<Rightarrow>
          if p_state p \<noteq> Ready then reply_error (ProjectConflicting ''The project is not ready'')
          else reply_with (st_create ops (id_text (p_id p)) (Some v) (ap_subject user) now) RConversation
      | None \<Rightarrow> reply_error (ProjectConflicting ''The project is not ready''))"

definition create_conversation ::
  "'s store_ops \<Rightarrow> chat_env \<Rightarrow> string option \<Rightarrow> auth_principal \<Rightarrow> time \<Rightarrow> ('s, chat_reply) chat_route" where
  "create_conversation ops env requested user now =
     (if \<not> ch_auth_enabled env
      then (if requested \<noteq> None \<and> requested \<noteq> Some (ch_project_id env)
            then (case lookup_project (ch_registry env) (the requested) False of
                    Inl _ \<Rightarrow> reply_error RequestInvalid
                  | Inr p \<Rightarrow> create_in ops p user now)
            else reply_with (st_create ops (case present requested of Some t \<Rightarrow> t | None \<Rightarrow> ch_project_id env) None
                   (ap_subject user) now) RConversation)
      else case requested of
        None \<Rightarrow> reply_error RequestInvalid
      | Some text \<Rightarrow>
          and_then (check_registry (lookup_project (ch_registry env) text False)) (\<lambda>p.
          and_then (check_registry (decide_access (ch_registry env) text user)) (\<lambda>_.
            create_in ops p user now)))"

definition list_conversations ::
  "'s store_ops \<Rightarrow> chat_env \<Rightarrow> string \<Rightarrow> list_state \<Rightarrow> nat \<Rightarrow> ustring option \<Rightarrow> auth_principal \<Rightarrow>
     ('s, chat_reply) chat_route" where
  "list_conversations ops env pid state limit cursor user =
     and_then (authorize_project_request env pid user) (\<lambda>_.
       let listed = (\<lambda>boundary. reply_with (st_list ops pid (ap_subject user) state limit boundary)
             (\<lambda>l. RConversations (cl_items l) (map_option (encode_cursor env) (cl_next_cursor l))))
       in case cursor of
            None \<Rightarrow> listed None
          | Some text \<Rightarrow>
              (case decode_cursor env text of None \<Rightarrow> reply_error RequestInvalid | Some b \<Rightarrow> listed (Some b)))"

definition get_conversation ::
  "'s store_ops \<Rightarrow> chat_env \<Rightarrow> ident \<Rightarrow> auth_principal \<Rightarrow> ('s, chat_reply) chat_route" where
  "get_conversation ops env i user =
     and_then (authorize_conversation ops env i user False)
       (\<lambda>_. reply_with (st_get ops i (ap_subject user)) RConversation)"

definition rename_conversation ::
  "'s store_ops \<Rightarrow> chat_env \<Rightarrow> ident \<Rightarrow> ustring \<Rightarrow> auth_principal \<Rightarrow> time \<Rightarrow> ('s, chat_reply) chat_route" where
  "rename_conversation ops env i name user now =
     and_then (authorize_conversation ops env i user False) (\<lambda>_.
       if strip_text name = [] then reply_error RequestInvalid
       else reply_with (st_rename ops i (strip_text name) (ap_subject user) now) RConversation)"

definition delete_conversation ::
  "'s store_ops \<Rightarrow> chat_env \<Rightarrow> ident \<Rightarrow> auth_principal \<Rightarrow> time \<Rightarrow> ('s, chat_reply) chat_route" where
  "delete_conversation ops env i user now =
     and_then (authorize_conversation ops env i user False)
       (\<lambda>_. reply_with (st_archive ops i (ap_subject user) now) (\<lambda>_. RDeleted))"

definition restore_conversation ::
  "'s store_ops \<Rightarrow> chat_env \<Rightarrow> ident \<Rightarrow> auth_principal \<Rightarrow> time \<Rightarrow> ('s, chat_reply) chat_route" where
  "restore_conversation ops env i user now =
     and_then (authorize_conversation ops env i user True)
       (\<lambda>_. reply_with (st_restore ops i (ap_subject user) now) RConversation)"

definition purge_conversation ::
  "'s store_ops \<Rightarrow> chat_env \<Rightarrow> ident \<Rightarrow> auth_principal \<Rightarrow> time \<Rightarrow> ('s, chat_reply) chat_route" where
  "purge_conversation ops env i user now =
     and_then (authorize_conversation ops env i user True)
       (\<lambda>_. reply_with (st_purge ops i (ap_subject user) now) (\<lambda>_. RDeleted))"

section \<open>Messages\<close>

text \<open>What the workflow of a request is composed of: the project, its directory, the graph version and the index.\<close>

record workflow_inputs =
  wi_project_id :: string
  wi_project_path :: string
  wi_graph_version :: "string option"
  wi_source_index :: "string option"

definition version_inputs :: "chat_env \<Rightarrow> string \<Rightarrow> string \<Rightarrow> workflow_inputs" where
  "version_inputs env pid v =
     (let path = ch_storage_root env @ ''/'' @ pid @ ''/versions/'' @ v in
      \<lparr>wi_project_id = pid, wi_project_path = path, wi_graph_version = Some v,
       wi_source_index = Some (path @ ''/source-index.sqlite'')\<rparr>)"

definition get_workflow ::
  "'s store_ops \<Rightarrow> chat_env \<Rightarrow> ident \<Rightarrow> auth_principal \<Rightarrow> ('s, workflow_inputs) chat_route" where
  "get_workflow ops env i user =
     and_then (on_store (st_get_scope ops i (ap_subject user) False)) (\<lambda>scope.
       if ch_auth_enabled env
       then and_then (check_registry (lookup_project (ch_registry env) (scope_project_id scope) True)) (\<lambda>p.
              case present (p_active_graph_version p) of
                None \<Rightarrow> reply_error (ProjectConflicting ''The project has no active version'')
              | Some v \<Rightarrow> reply_value (version_inputs env (scope_project_id scope) v))
       else case present (scope_graph_version scope) of
         Some v \<Rightarrow> reply_value (version_inputs env (scope_project_id scope) v)
       | None \<Rightarrow>
           reply_value \<lparr>wi_project_id = scope_project_id scope, wi_project_path = ch_project_path env,
             wi_graph_version = ch_active_version env,
             wi_source_index = map_option (\<lambda>_. ch_source_index env) (present (ch_active_version env))\<rparr>)"

fun of_request_error :: "request_error \<Rightarrow> api_exception" where
  "of_request_error (StoreError e) = of_store_error e"
| "of_request_error InvalidTurn = Unhandled ''ValidationError''"

text \<open>The route up to the response, whose stream runs afterwards.\<close>

definition send_message ::
  "'s store_ops \<Rightarrow> chat_env \<Rightarrow> ident \<Rightarrow> ustring \<Rightarrow> string \<Rightarrow> auth_principal \<Rightarrow> time \<Rightarrow>
     ('s, conversation_turn list) chat_route" where
  "send_message ops env i msg request_id user now =
     and_then (on_store (st_get_scope ops i (ap_subject user) False)) (\<lambda>scope.
     and_then
       (if \<not> ch_auth_enabled env then reply_value ()
        else and_then (check_registry (decide_access (ch_registry env) (scope_project_id scope) user)) (\<lambda>_.
             and_then (check_registry (lookup_project (ch_registry env) (scope_project_id scope) True)) (\<lambda>p.
               if p_state p = Archived then reply_error (ProjectConflicting ''Archived projects cannot receive messages'')
               else reply_value ()))) (\<lambda>_ s.
       case open_request ops (ch_max_turns env) (ch_max_chars env) i request_id (ap_subject user) msg now s of
         (s', r) \<Rightarrow> (s', map_sum of_request_error id r)))"

section \<open>The dispatcher\<close>

text \<open>
  A message comes with the identifier of its request, and with the events its workflow answers the
  composed inputs and the history with, and the time at which the stream ends.
\<close>

datatype chat_call =
  CreateConversation "string option"
| ListConversations string list_state nat "ustring option"
| GetConversation ident
| RenameConversation ident ustring
| DeleteConversation ident
| RestoreConversation ident
| PurgeConversation ident
| SendMessage ident ustring string
    "workflow_inputs \<Rightarrow> conversation_turn list \<Rightarrow> (lifecycle_event \<times> bool \<times> time) list" time

fun valid_chat_call :: "chat_call \<Rightarrow> bool" where
  "valid_chat_call (CreateConversation requested) \<longleftrightarrow>
     (case requested of None \<Rightarrow> True | Some t \<Rightarrow> text_between 1 128 t)"
| "valid_chat_call (ListConversations pid state limit cursor) \<longleftrightarrow>
     1 \<le> limit \<and> limit \<le> 100 \<and>
     (case cursor of None \<Rightarrow> True | Some c \<Rightarrow> 1 \<le> length c \<and> length c \<le> 1024)"
| "valid_chat_call (RenameConversation i name) \<longleftrightarrow> 1 \<le> length name \<and> length name \<le> 120"
| "valid_chat_call (SendMessage i msg request_id events later) \<longleftrightarrow> 1 \<le> length msg \<and> length msg \<le> 4000"
| "valid_chat_call _ \<longleftrightarrow> True"

text \<open>The dependencies are resolved in the order of the parameters, the body is validated after them.\<close>

definition admitted :: "chat_call \<Rightarrow> auth_principal \<Rightarrow> ('s, 'a) chat_route \<Rightarrow> ('s, 'a) chat_route" where
  "admitted call user f =
     (case require_role ''viewer'' user of
        Inl e \<Rightarrow> reply_error e
      | Inr _ \<Rightarrow> if \<not> valid_chat_call call then reply_error BodyInvalid else f)"

fun run_chat :: "'s store_ops \<Rightarrow> chat_env \<Rightarrow> time \<Rightarrow> chat_call \<Rightarrow> auth_principal \<Rightarrow> ('s, chat_reply) chat_route" where
  "run_chat ops env now (CreateConversation requested) user =
     admitted (CreateConversation requested) user (create_conversation ops env requested user now)"
| "run_chat ops env now (ListConversations pid state limit cursor) user =
     admitted (ListConversations pid state limit cursor) user
       (list_conversations ops env pid state limit cursor user)"
| "run_chat ops env now (GetConversation i) user =
     admitted (GetConversation i) user (get_conversation ops env i user)"
| "run_chat ops env now (RenameConversation i name) user =
     admitted (RenameConversation i name) user (rename_conversation ops env i name user now)"
| "run_chat ops env now (DeleteConversation i) user =
     admitted (DeleteConversation i) user (delete_conversation ops env i user now)"
| "run_chat ops env now (RestoreConversation i) user =
     admitted (RestoreConversation i) user (restore_conversation ops env i user now)"
| "run_chat ops env now (PurgeConversation i) user =
     admitted (PurgeConversation i) user (purge_conversation ops env i user now)"
| "run_chat ops env now (SendMessage i msg request_id events later) user =
     and_then (get_workflow ops env i user) (\<lambda>inputs.
     and_then (admitted (SendMessage i msg request_id events later) user
       (send_message ops env i msg request_id user now)) (\<lambda>turns s.
         (answer_request ops i request_id (ap_subject user) (events inputs turns) later s, Inr (RStream turns))))"

definition handle_chat ::
  "'s store_ops \<Rightarrow> chat_env \<Rightarrow> time \<Rightarrow> chat_call \<Rightarrow> (api_exception + auth_principal) \<Rightarrow> ('s, chat_reply) chat_route"
where
  "handle_chat ops env now call login =
     (case login of Inl e \<Rightarrow> reply_error e | Inr user \<Rightarrow> run_chat ops env now call user)"

section \<open>Lemmas\<close>

lemma digit_read: "n < 10 \<Longrightarrow> of_char (''0123456789'' ! n) - 48 = n"
proof -
  have "\<forall>n\<in>set [0..<10]. of_char (''0123456789'' ! n) - 48 = n" by code_simp
  then show "n < 10 \<Longrightarrow> ?thesis" by simp
qed

lemma read_id_text [simp]: "read_ident (id_text n) = n"
proof (induction n rule: id_text.induct)
  case (1 n)
  show ?case
  proof (cases "n < 10")
    case True
    then show ?thesis using digit_read [of n] by (subst id_text.simps) (simp add: read_ident_def)
  next
    case False
    have "id_text n = id_text (n div 10) @ [''0123456789'' ! (n mod 10)]"
      using False by (subst id_text.simps) simp
    moreover have "foldl (\<lambda>n c. 10 * n + (of_char c - 48)) 0 (id_text (n div 10)) = n div 10"
      using 1 [OF False] by (simp add: read_ident_def)
    ultimately show ?thesis using digit_read [of "n mod 10"] by (simp add: read_ident_def)
  qed
qed

lemma named_id_text [simp]: "named_ident (id_text n) = Inr n"
  by (simp add: named_ident_def)

text \<open>A cursor decodes to the pair it was made of.\<close>

lemma loads_bytes_texts:
  assumes "list_all scalar a" "list_all scalar b"
  shows "loads_bytes (utf8_encode (dumps no_real (JList [JText a, JText b]))) = Some (JList [JText a, JText b])"
proof -
  let ?s = "dumps no_real (JList [JText a, JText b])"
  have plain: "\<forall>b\<in>set ?s. b < 128" using dumps_plain by blast
  obtain t where t: "?s = 91 # 34 # t" by (simp add: dump_text_def)
  then have "detect_encoding ?s = Utf8" by (simp add: detect_encoding_def)
  then have "decode_json_bytes ?s = Some ?s" using pass_decode_ascii [OF plain] by (simp add: decode_json_bytes_def)
  moreover have "readable (JList [JText a, JText b])" using assms by simp
  ultimately show ?thesis
    using loads_dumps [of "JList [JText a, JText b]"] utf8_ascii [OF plain] by (simp only: loads_bytes_def option.case)
qed

lemma chars_of_ascii [simp]: "map char_of (ascii s) = s"
  by (induction s) (simp_all add: ascii_def)

lemma ascii_eq_Nil [simp]: "ascii s = [] \<longleftrightarrow> s = []"
  by (simp add: ascii_def)

lemma scalar_ascii: "list_all scalar (ascii s)"
  by (auto simp: list_all_iff ascii_def scalar_def of_char_def dest: order.strict_trans2)

lemma id_text_nonempty [simp]: "id_text n \<noteq> []"
  by (subst id_text.simps) simp

lemma chat_cursor_round_trip:
  assumes "ch_fromisoformat env (ch_isoformat env (fst c)) = Some (fst c)" "list_all scalar (ch_isoformat env (fst c))"
  shows "decode_cursor env (encode_cursor env c) = Some c"
proof -
  let ?v = "JList [JText (ch_isoformat env (fst c)), JText (ascii (id_text (snd c)))]"
  let ?b = "utf8_encode (dumps no_real ?v)"
  have plain: "\<forall>b\<in>set ?b. b < 128" using dumps_plain utf8_ascii by (metis (no_types, lifting))
  then have bytes: "list_all (\<lambda>b. b < 256) ?b" by (auto simp: list_all_iff)
  have "\<not> (\<exists>x\<in>set (encode_cursor env c). 128 \<le> x)"
    using padding_restored(2) [OF bytes] b64_char_plain unfolding encode_cursor_def by fastforce
  moreover have "b64_decode False (put_padding (encode_cursor env c)) = Some ?b"
    unfolding encode_cursor_def by (rule b64_round_trip [OF bytes])
  moreover have "loads_bytes ?b = Some ?v" by (rule loads_bytes_texts [OF assms(2) scalar_ascii])
  ultimately show ?thesis using assms(1) by (simp add: decode_cursor_def)
qed

end
