(* ===== verification/Conversation_Privacy.thy ===== *)
theory Conversation_Privacy
  imports Conversation_Routes Conv_Simulation
begin

text \<open>
  Conversations are private. The locale \<open>private_store\<close> says what a store must promise so that a user's
  calls depend on and change nothing but the user's own conversations; every route is shown to inherit it
  from its calls, and the durable store is shown to keep the promise.
\<close>

section \<open>Confined routes\<close>

text \<open>The user in whose name a call is made; the calls of the background task and of a purge have none.\<close>

fun caller :: "store_call \<Rightarrow> string option" where
  "caller CallCleanup = None"
| "caller (CallCreate p v o') = Some o'"
| "caller (CallGet i o') = Some o'"
| "caller (CallList p o' st n c) = Some o'"
| "caller (CallScope i o' a) = Some o'"
| "caller (CallRename i n o') = Some o'"
| "caller (CallArchive i o') = Some o'"
| "caller (CallRestore i o') = Some o'"
| "caller (CallPurge i o') = Some o'"
| "caller (CallDeleteProject p) = None"
| "caller (CallAddUser i c o') = Some o'"
| "caller (CallAddAssistant i c st r o') = Some o'"
| "caller (CallAcquire i r o') = Some o'"
| "caller (CallRelease i r o') = Some o'"
| "caller (CallHistory i n k o') = Some o'"

text \<open>
  \<open>own u\<close> cuts a store down to the conversations of \<open>u\<close>, \<open>others u\<close> is what it cuts away. A function on
  stores is confined to \<open>u\<close> when it commutes with the cut, which makes its answers a function of \<open>u\<close>'s own
  conversations, and keeps the rest.
\<close>

locale private_store =
  fixes ops :: "'s store_ops"
    and valid :: "'s \<Rightarrow> bool"
    and own :: "string \<Rightarrow> 's \<Rightarrow> 's"
    and others :: "string \<Rightarrow> 's \<Rightarrow> 'o"
  assumes own_call:
    "valid s \<Longrightarrow> caller call = Some u \<Longrightarrow>
       run_call ops call now (own u s) = map_state (own u) (run_call ops call now s)"
  and others_call:
    "valid s \<Longrightarrow> caller call = Some u \<Longrightarrow> run_call ops call now s = Inr (s', r) \<Longrightarrow> others u s' = others u s"
  and valid_call: "valid s \<Longrightarrow> run_call ops call now s = Inr (s', r) \<Longrightarrow> valid s'"
begin

definition confined :: "string \<Rightarrow> ('s \<Rightarrow> 's \<times> 'r) \<Rightarrow> bool" where
  "confined u f \<longleftrightarrow> (\<forall>s. valid s \<longrightarrow>
     valid (fst (f s)) \<and> others u (fst (f s)) = others u s \<and> f (own u s) = (own u (fst (f s)), snd (f s)))"

lemma confinedI:
  "(\<And>s. valid s \<Longrightarrow> valid (fst (f s)) \<and> others u (fst (f s)) = others u s \<and>
     f (own u s) = (own u (fst (f s)), snd (f s))) \<Longrightarrow> confined u f"
  by (simp add: confined_def)

lemma confinedD:
  assumes "confined u f" "valid s" "f s = (s', r)"
  shows "valid s'" "others u s' = others u s" "f (own u s) = (own u s', r)"
  using assms by (auto simp: confined_def)

lemma confined_const [intro]: "confined u (\<lambda>s. (s, r))"
  by (simp add: confined_def)

lemma confined_bind:
  assumes "confined u f" "\<And>x. confined u (g x)"
  shows "confined u (\<lambda>s. case f s of (s', x) \<Rightarrow> g x s')"
proof (rule confinedI)
  fix s assume v: "valid s"
  obtain s' x where f: "f s = (s', x)" by force
  obtain t y where g: "g x s' = (t, y)" by force
  note a = confinedD [OF assms(1) v f]
  from confinedD [OF assms(2) a(1) g] a
  show "valid (fst (case f s of (s', x) \<Rightarrow> g x s')) \<and>
      others u (fst (case f s of (s', x) \<Rightarrow> g x s')) = others u s \<and>
      (case f (own u s) of (s', x) \<Rightarrow> g x s') =
        (own u (fst (case f s of (s', x) \<Rightarrow> g x s')), snd (case f s of (s', x) \<Rightarrow> g x s'))"
    by (simp add: f g)
qed

lemma confined_if [intro]: "(b \<Longrightarrow> confined u f) \<Longrightarrow> (\<not> b \<Longrightarrow> confined u g) \<Longrightarrow> confined u (if b then f else g)"
  by simp

text \<open>A call of the store, as a function that keeps the state when it fails.\<close>

definition attempt :: "('s \<Rightarrow> (store_error, 's, 'a) outcome) \<Rightarrow> 's \<Rightarrow> 's \<times> (store_error + 'a)" where
  "attempt f s = (case f s of Inl e \<Rightarrow> (s, Inl e) | Inr (s', x) \<Rightarrow> (s', Inr x))"

lemma confined_call:
  assumes "caller call = Some u" "\<And>s. run_call ops call now s = map_reply k (f s)" "inj k"
  shows "confined u (attempt f)"
proof (rule confinedI)
  fix s assume v: "valid s"
  have "map_reply k (f (own u s)) = map_reply k (map_state (own u) (f s))"
    using own_call [OF v assms(1), of now] by (simp add: assms(2) map_state_map_reply)
  then have own: "f (own u s) = map_state (own u) (f s)"
    by (cases "f (own u s)"; cases "f s") (auto simp: inj_eq [OF assms(3)])
  show "valid (fst (attempt f s)) \<and> others u (fst (attempt f s)) = others u s \<and>
      attempt f (own u s) = (own u (fst (attempt f s)), snd (attempt f s))"
  proof (cases "f s")
    case (Inl e)
    then show ?thesis using v own by (simp add: attempt_def)
  next
    case (Inr p)
    then obtain s' x where "f s = Inr (s', x)" by (cases p) auto
    then have f: "f s = Inr (s', x)" "run_call ops call now s = Inr (s', k x)" by (simp_all add: assms(2))
    then show ?thesis using others_call [OF v assms(1) f(2)] valid_call [OF v f(2)] own by (simp add: attempt_def)
  qed
qed

lemma confined_calls [intro]:
  "confined u (attempt (st_create ops p v u now))"
  "confined u (attempt (st_get ops i u))"
  "confined u (attempt (st_list ops p u st n c))"
  "confined u (attempt (st_get_scope ops i u a))"
  "confined u (attempt (st_rename ops i name u now))"
  "confined u (attempt (st_restore ops i u now))"
  "confined u (attempt (st_add_user ops i content u now))"
  "confined u (attempt (st_add_assistant ops i content status result u now))"
  "confined u (attempt (st_get_history ops i n k u))"
  "confined u (attempt (st_archive ops i u now))"
  "confined u (attempt (st_purge ops i u now))"
  "confined u (attempt (st_acquire ops i q u now))"
  "confined u (attempt (st_release ops i q u))"
  using confined_call [of "CallCreate p v u" u now "AConversation" "st_create ops p v u now"]
    confined_call [of "CallGet i u" u now "AConversation" "st_get ops i u"]
    confined_call [of "CallList p u st n c" u now "AList" "st_list ops p u st n c"]
    confined_call [of "CallScope i u a" u now "AScope" "st_get_scope ops i u a"]
    confined_call [of "CallRename i name u" u now "AConversation" "st_rename ops i name u now"]
    confined_call [of "CallRestore i u" u now "AConversation" "st_restore ops i u now"]
    confined_call [of "CallAddUser i content u" u now "AMessage" "st_add_user ops i content u now"]
    confined_call [of "CallAddAssistant i content status result u" u now "AMessage" "st_add_assistant ops i content status result u now"]
    confined_call [of "CallHistory i n k u" u now "Messages" "st_get_history ops i n k u"]
    confined_call [of "CallArchive i u" u now "\<lambda>_. Done" "st_archive ops i u now"]
    confined_call [of "CallPurge i u" u now "\<lambda>_. Done" "st_purge ops i u now"]
    confined_call [of "CallAcquire i q u" u now "\<lambda>_. Done" "st_acquire ops i q u now"]
    confined_call [of "CallRelease i q u" u now "\<lambda>_. Done" "st_release ops i q u"]
  by (simp_all add: inj_def)

text \<open>Routes are made of such calls, so they are confined.\<close>

lemma confined_map: "confined u f \<Longrightarrow> confined u (\<lambda>s. map_prod id k (f s))"
  by (auto simp: confined_def)

lemma confined_and_then [intro]:
  assumes "confined u f" "\<And>x. confined u (g x)"
  shows "confined u (and_then f g)"
proof -
  have "confined u (\<lambda>s. case f s of (s', r) \<Rightarrow> (\<lambda>r s. case r of Inl e \<Rightarrow> (s, Inl e) | Inr x \<Rightarrow> g x s) r s')"
    using assms(2) by (intro confined_bind [OF assms(1)]) (auto simp: confined_def split: sum.split)
  moreover have "and_then f g = (\<lambda>s. case f s of (s', r) \<Rightarrow> (\<lambda>r s. case r of Inl e \<Rightarrow> (s, Inl e) | Inr x \<Rightarrow> g x s) r s')"
    by (auto simp: and_then_def fun_eq_iff split: prod.split sum.split)
  ultimately show ?thesis by simp
qed

lemma confined_steps [intro]:
  "confined u (reply_error e)" "confined u (reply_value x)" "confined u (check_registry r)"
  by (simp_all add: confined_def reply_error_def reply_value_def check_registry_def)

lemma confined_on_store [intro]:
  assumes "confined u (attempt f)" shows "confined u (on_store f)"
proof -
  have "on_store f = (\<lambda>s. map_prod id (map_sum of_store_error id) (attempt f s))"
    by (auto simp: on_store_def attempt_def fun_eq_iff split: sum.split)
  then show ?thesis using confined_map [OF assms] by simp
qed

lemma confined_reply_with [intro]: "confined u (attempt f) \<Longrightarrow> confined u (reply_with f g)"
  unfolding reply_with_def by blast

text \<open>The same for the requests of messages, whose stream is a sequence of calls.\<close>

lemma confined_case:
  assumes "confined u (attempt f)" "\<And>e. confined u (g e)" "\<And>x. confined u (h x)"
  shows "confined u (\<lambda>s. case f s of Inl e \<Rightarrow> g e s | Inr (s', x) \<Rightarrow> h x s')"
proof -
  have "confined u (\<lambda>s. case attempt f s of (s', r) \<Rightarrow> (case r of Inl e \<Rightarrow> g e | Inr x \<Rightarrow> h x) s')"
    by (rule confined_bind [OF assms(1)]) (auto split: sum.split intro: assms(2,3))
  moreover have "(\<lambda>s. case f s of Inl e \<Rightarrow> g e s | Inr (s', x) \<Rightarrow> h x s') =
      (\<lambda>s. case attempt f s of (s', r) \<Rightarrow> (case r of Inl e \<Rightarrow> g e | Inr x \<Rightarrow> h x) s')"
    by (auto simp: attempt_def fun_eq_iff split: sum.split prod.split)
  ultimately show ?thesis by simp
qed

lemma confined_release_after: "confined u (\<lambda>s. release_after ops i q u s e)"
  unfolding release_after_def by (intro confined_case confined_calls confined_const)

lemma confined_open_request: "confined u (open_request ops n k i q u msg now)"
proof -
  have add: "confined u (\<lambda>s. case history_turns h of
      Inl e \<Rightarrow> release_after ops i q u s e
    | Inr turns \<Rightarrow>
        (case st_add_user ops i (strip_text msg) u now s of
           Inl e \<Rightarrow> release_after ops i q u s (StoreError e)
         | Inr (s3, _) \<Rightarrow> (s3, Inr turns)))" for h
    by (cases "history_turns h")
      (simp_all add: confined_release_after confined_case [OF confined_calls(7)] confined_const)
  show ?thesis unfolding open_request_def
    by (intro confined_case confined_calls confined_const confined_release_after add)
qed

lemma attempt_unit [simp]: "confined u (attempt (\<lambda>s. Inr (s, ())))"
  by (simp add: confined_def attempt_def)

lemma attempt_if:
  "confined u (attempt f) \<Longrightarrow> confined u (attempt g) \<Longrightarrow> confined u (attempt (\<lambda>s. if b then f s else g s))"
  by (cases b) simp_all

lemma attempt_map_reply: "confined u (attempt f) \<Longrightarrow> confined u (attempt (\<lambda>s. map_reply k (f s)))"
proof -
  assume "confined u (attempt f)"
  moreover have "attempt (\<lambda>s. map_reply k (f s)) = (\<lambda>s. map_prod id (map_sum id k) (attempt f s))"
    by (auto simp: attempt_def fun_eq_iff map_reply_def split: sum.split)
  ultimately show ?thesis by (simp add: confined_map)
qed

lemma confined_persist_terminal: "confined u (attempt (persist_terminal ops i ev u now))"
  unfolding persist_terminal_def by (intro attempt_if attempt_map_reply confined_calls attempt_unit)

lemma confined_stream_events: "confined u (stream_events ops i u es terminal)"
proof (induction es arbitrary: terminal)
  case Nil
  have "stream_events ops i u [] terminal = (\<lambda>s. (s, terminal, None))" by (simp add: fun_eq_iff)
  then show ?case by (simp add: confined_const)
next
  case (Cons p es)
  obtain ev gone now where p: "p = (ev, gone, now)" by (cases p) auto
  have "stream_events ops i u (p # es) terminal = (\<lambda>s. if gone then (s, terminal, None)
      else case persist_terminal ops i ev u now s of
             Inl e \<Rightarrow> (s, terminal, Some e)
           | Inr (s', _) \<Rightarrow> stream_events ops i u es (terminal_type (le_type ev)) s')"
    by (simp add: p fun_eq_iff)
  moreover have "confined u (\<lambda>s. case persist_terminal ops i ev u now s of
             Inl e \<Rightarrow> (s, terminal, Some e)
           | Inr (s', _) \<Rightarrow> stream_events ops i u es (terminal_type (le_type ev)) s')"
    by (intro confined_case confined_persist_terminal confined_const Cons.IH)
  ultimately show ?case by (cases gone) (simp_all add: confined_const)
qed

lemma confined_finish_request: "confined u (finish_request ops i q u terminal now)"
proof -
  have "confined u (attempt (\<lambda>s. if terminal then Inr (s, ())
      else map_reply (\<lambda>_. ()) (st_add_assistant ops i interrupted_message MFailed None u now s)))"
    by (cases terminal) (simp_all add: attempt_map_reply confined_calls)
  then show ?thesis unfolding finish_request_def
    by (intro confined_case confined_calls confined_const)
qed

lemma confined_answer_request: "confined u (\<lambda>s. (answer_request ops i q u es now s, r))"
proof -
  have "confined u (\<lambda>s. case stream_events ops i u es False s of (s1, t) \<Rightarrow> finish_request ops i q u (fst t) now s1)"
    by (rule confined_bind [OF confined_stream_events confined_finish_request])
  from confined_map [OF this, of "\<lambda>_. r"] show ?thesis
    by (rule back_subst [where P = "confined u"])
      (auto simp: answer_request_def fun_eq_iff map_prod_def split: prod.split)
qed

text \<open>Every route in the name of a user is confined to the user.\<close>

lemma confined_authorize_project [intro]: "confined u (authorize_project_request env pid user)"
  unfolding authorize_project_request_def by (intro confined_if confined_and_then confined_steps)

lemma confined_authorize [intro]: "confined (ap_subject user) (authorize_conversation ops env i user a)"
  unfolding authorize_conversation_def
  by (intro confined_and_then confined_on_store confined_calls confined_authorize_project)

lemma confined_create_in: "confined (ap_subject user) (create_in ops p user now)"
  by (cases "present (p_active_graph_version p)")
    (auto simp: create_in_def intro!: confined_steps confined_reply_with confined_calls)

lemma confined_create: "confined (ap_subject user) (create_conversation ops env requested user now)"
proof -
  have auth: "confined (ap_subject user) (case requested of
        None \<Rightarrow> reply_error RequestInvalid
      | Some text \<Rightarrow>
          and_then (check_registry (lookup_project (ch_registry env) text False)) (\<lambda>p.
          and_then (check_registry (decide_access (ch_registry env) text user)) (\<lambda>_.
            create_in ops p user now)))"
    by (cases requested) (auto intro!: confined_steps confined_and_then confined_create_in)
  have dev: "confined (ap_subject user) (case lookup_project (ch_registry env) (the requested) False of
                    Inl _ \<Rightarrow> reply_error RequestInvalid
                  | Inr p \<Rightarrow> create_in ops p user now)"
    by (cases "lookup_project (ch_registry env) (the requested) False")
      (auto intro!: confined_steps confined_create_in)
  show ?thesis unfolding create_conversation_def
    by (intro confined_if auth dev confined_reply_with confined_calls)
qed

lemma confined_list: "confined (ap_subject user) (list_conversations ops env pid state limit cursor user)"
  unfolding list_conversations_def Let_def
  by (intro confined_and_then confined_authorize_project)
    (auto intro!: confined_reply_with confined_calls confined_steps split: option.split)

lemma confined_by_id:
  "confined (ap_subject user) (get_conversation ops env i user)"
  "confined (ap_subject user) (rename_conversation ops env i name user now)"
  "confined (ap_subject user) (delete_conversation ops env i user now)"
  "confined (ap_subject user) (restore_conversation ops env i user now)"
  "confined (ap_subject user) (purge_conversation ops env i user now)"
  unfolding get_conversation_def rename_conversation_def delete_conversation_def restore_conversation_def
    purge_conversation_def
  by (intro confined_and_then confined_authorize confined_if confined_reply_with confined_calls confined_steps)+

lemma confined_get_workflow: "confined (ap_subject user) (get_workflow ops env i user)"
proof -
  have version: "confined (ap_subject user) (case v of None \<Rightarrow> f | Some x \<Rightarrow> reply_value (g x))"
    if "confined (ap_subject user) f" for v f and g :: "_ \<Rightarrow> 'b"
    using that by (cases v) auto
  show ?thesis unfolding get_workflow_def
    by (intro confined_and_then confined_on_store confined_calls confined_if confined_steps version)
qed

lemma confined_send: "confined (ap_subject user) (send_message ops env i msg q user now)"
proof -
  have open_request: "confined u (\<lambda>s. case open_request ops n k i q u msg now s of (s', r) \<Rightarrow> (s', f r))" for u n k and f :: "_ \<Rightarrow> 'b"
    using confined_map [OF confined_open_request [of u n k i q msg now], of f] by (simp add: map_prod_def)
  show ?thesis unfolding send_message_def
    by (intro confined_and_then confined_on_store confined_calls confined_if confined_steps open_request)
qed

lemma confined_admitted [intro]: "confined u f \<Longrightarrow> confined u (admitted call user f)"
  by (cases "require_role ''viewer'' user") (auto simp: admitted_def)

lemma confined_chat_route: "confined (ap_subject user) (run_chat ops env now call user)"
  by (cases call) (simp_all add: confined_admitted confined_create confined_list confined_by_id
      confined_and_then confined_get_workflow confined_send confined_answer_request)

lemma confined_handle: "confined (ap_subject user) (handle_chat ops env now call (Inr user))"
  by (simp add: handle_chat_def confined_chat_route)

end

section \<open>The durable store keeps the promise\<close>

definition mine :: "string \<Rightarrow> sql_store \<Rightarrow> ident \<Rightarrow> bool" where
  "mine u s i \<longleftrightarrow> (\<exists>r\<in>set (ss_conversations s). cr_id r = i \<and> cr_created_by r = u)"

definition own_rows :: "string \<Rightarrow> sql_store \<Rightarrow> sql_store" where
  "own_rows u s = s\<lparr>ss_conversations := filter (\<lambda>r. cr_created_by r = u) (ss_conversations s),
     ss_messages := filter (\<lambda>m. mine u s (mr_conversation_id m)) (ss_messages s)\<rparr>"

definition other_rows :: "string \<Rightarrow> sql_store \<Rightarrow> conversation_row list \<times> message_row list" where
  "other_rows u s = (filter (\<lambda>r. cr_created_by r \<noteq> u) (ss_conversations s),
     filter (\<lambda>m. \<not> mine u s (mr_conversation_id m)) (ss_messages s))"

lemma first_where_filter: "(\<And>x. x \<in> set xs \<Longrightarrow> P x \<Longrightarrow> Q x) \<Longrightarrow> first_where P (filter Q xs) = first_where P xs"
  by (induction xs) (auto simp: first_where_def)

lemma own_simps [simp]:
  "ss_conversations (own_rows u s) = filter (\<lambda>r. cr_created_by r = u) (ss_conversations s)"
  "ss_next (own_rows u s) = ss_next s" "ss_next_row (own_rows u s) = ss_next_row s"
  by (simp_all add: own_rows_def)

lemma own_get_row [simp]: "get_row (own_rows u s) i u a = get_row s i u a"
  unfolding get_row_def own_simps by (subst first_where_filter) auto

lemma get_row_mine: "get_row s i u a = Inr r \<Longrightarrow> cr_id r = i \<and> cr_created_by r = u \<and> r \<in> set (ss_conversations s) \<and> mine u s i"
  by (auto simp: get_row_def mine_def split: option.splits dest!: first_where_Some)

lemma own_rows_of: "mine u s i \<Longrightarrow> rows_of (own_rows u s) i = rows_of s i"
  by (auto simp: rows_of_def own_rows_def intro!: arg_cong [where f = "sort_key mr_ordinal"] filter_cong)

lemma own_max_ordinal: "mine u s i \<Longrightarrow> max_ordinal (own_rows u s) i = max_ordinal s i"
  by (auto simp: max_ordinal_def own_rows_def intro!: arg_cong [where f = "\<lambda>xs. fold max (map mr_ordinal xs) 0"] filter_cong)

text \<open>Updates of rows that the user owns.\<close>

lemma mine_upd_where:
  "(\<And>r. cr_id (f r) = cr_id r) \<Longrightarrow> (\<And>r. cr_created_by (f r) = cr_created_by r) \<Longrightarrow>
     mine u (s\<lparr>ss_conversations := upd_where P f (ss_conversations s)\<rparr>) i = mine u s i"
  unfolding mine_def by (simp add: bex_upd_where)

lemma filter_upd_where:
  "(\<And>r. Q (f r) = Q r) \<Longrightarrow> filter Q (upd_where P f xs) = upd_where P f (filter Q xs)"
  by (induction xs) (auto simp: upd_where_def)

lemma own_upd_where:
  assumes "\<And>r. cr_id (f r) = cr_id r" "\<And>r. cr_created_by (f r) = cr_created_by r"
  shows "own_rows u (s\<lparr>ss_conversations := upd_where P f (ss_conversations s)\<rparr>) =
    (own_rows u s)\<lparr>ss_conversations := upd_where P f (ss_conversations (own_rows u s))\<rparr>"
  by (simp add: own_rows_def mine_upd_where assms filter_upd_where)

lemma others_upd_where:
  assumes "\<And>r. cr_id (f r) = cr_id r" "\<And>r. cr_created_by (f r) = cr_created_by r"
    and "\<And>r. r \<in> set (ss_conversations s) \<Longrightarrow> P r \<Longrightarrow> cr_created_by r = u"
  shows "other_rows u (s\<lparr>ss_conversations := upd_where P f (ss_conversations s)\<rparr>) = other_rows u s"
  using assms(3) by (auto simp: other_rows_def mine_upd_where assms(1,2) filter_upd_where intro!: upd_where_none)

lemma own_upd_row:
  assumes "\<And>r. cr_id (f r) = cr_id r" "\<And>r. cr_created_by (f r) = cr_created_by r"
  shows "own_rows u (upd_row i f s) = upd_row i f (own_rows u s)"
  using own_upd_where [OF assms] by (simp add: upd_row_def)

lemma others_upd_row:
  assumes "sql_inv s" "mine u s i" "\<And>r. cr_id (f r) = cr_id r" "\<And>r. cr_created_by (f r) = cr_created_by r"
  shows "other_rows u (upd_row i f s) = other_rows u s"
proof -
  obtain r0 where r0: "r0 \<in> set (ss_conversations s)" "cr_id r0 = i" "cr_created_by r0 = u"
    using assms(2) unfolding mine_def by blast
  have "cr_created_by r = u" if "r \<in> set (ss_conversations s)" "cr_id r = i" for r
    using distinct_key_eq [OF sql_invD(2) [OF assms(1)] that(1) r0(1)] that(2) r0(2,3) by simp
  then show ?thesis unfolding upd_row_def by (rule others_upd_where [OF assms(3,4)])
qed

text \<open>What a call keeps.\<close>

definition keeps :: "string \<Rightarrow> (sql_store \<Rightarrow> (store_error, sql_store, 'a) outcome) \<Rightarrow> bool" where
  "keeps u f \<longleftrightarrow> (\<forall>s. sql_inv s \<longrightarrow> f (own_rows u s) = map_state (own_rows u) (f s) \<and>
     (\<forall>s' r. f s = Inr (s', r) \<longrightarrow> other_rows u s' = other_rows u s))"

lemma keepsI:
  "(\<And>s. sql_inv s \<Longrightarrow> f (own_rows u s) = map_state (own_rows u) (f s)) \<Longrightarrow>
   (\<And>s s' r. sql_inv s \<Longrightarrow> f s = Inr (s', r) \<Longrightarrow> other_rows u s' = other_rows u s) \<Longrightarrow> keeps u f"
  by (auto simp: keeps_def)

text \<open>Calls that look up the row of the user and then read or update it.\<close>

lemma keeps_row:
  assumes "\<And>s r. sql_inv s \<Longrightarrow> r \<in> set (ss_conversations s) \<Longrightarrow> cr_created_by r = u \<Longrightarrow> mine u s (cr_id r) \<Longrightarrow>
      g r (own_rows u s) = map_state (own_rows u) (g r s) \<and>
      (\<forall>s' x. g r s = Inr (s', x) \<longrightarrow> other_rows u s' = other_rows u s)"
  shows "keeps u (\<lambda>s. case get_row s i u a of Inl e \<Rightarrow> Inl e | Inr r \<Rightarrow> g r s)"
proof (rule keepsI)
  fix s assume inv: "sql_inv s"
  show "(case get_row (own_rows u s) i u a of Inl e \<Rightarrow> Inl e | Inr r \<Rightarrow> g r (own_rows u s)) =
      map_state (own_rows u) (case get_row s i u a of Inl e \<Rightarrow> Inl e | Inr r \<Rightarrow> g r s)"
    using assms [OF inv] by (cases "get_row s i u a") (auto dest!: get_row_mine)
next
  fix s s' r assume inv: "sql_inv s"
    and run: "(case get_row s i u a of Inl e \<Rightarrow> Inl e | Inr r \<Rightarrow> g r s) = Inr (s', r)"
  then obtain x where x: "get_row s i u a = Inr x" "g x s = Inr (s', r)" by (cases "get_row s i u a") auto
  then show "other_rows u s' = other_rows u s" using assms [OF inv, of x] get_row_mine [OF x(1)] by auto
qed

lemma keeps_lease:
  assumes "keeps u g" shows "keeps u (\<lambda>s. case reject_active_lease r now of Some e \<Rightarrow> Inl e | None \<Rightarrow> g s)"
  using assms by (cases "reject_active_lease r now") (auto simp: keeps_def)

lemma keeps_get: "keeps u (sql_get i u)"
  unfolding sql_get_def by (rule keeps_row) (auto simp: own_rows_of)

lemma keeps_scope: "keeps u (sql_get_scope i u a)"
  unfolding sql_get_scope_def by (rule keeps_row) auto

lemma keeps_list: "keeps u (sql_list p u st n c)"
proof -
  have "filter (\<lambda>r. P r \<and> cr_created_by r = u \<and> Q r) (filter (\<lambda>r. cr_created_by r = u) rows) =
      filter (\<lambda>r. P r \<and> cr_created_by r = u \<and> Q r) rows" for P Q and rows :: "conversation_row list"
    by (auto intro: filter_cong)
  then show ?thesis by (auto simp: keeps_def sql_list_def Let_def)
qed

lemma keeps_rename: "keeps u (sql_rename i name u now)"
  unfolding sql_rename_def Let_def
  by (rule keeps_row) (auto simp: own_rows_of own_upd_row others_upd_row split: option.split)

lemma keeps_archive: "keeps u (sql_archive i u now)"
  unfolding sql_archive_def
  by (rule keeps_row) (auto simp: own_upd_row others_upd_row split: option.split)

lemma keeps_restore: "keeps u (sql_restore i u now)"
  unfolding sql_restore_def Let_def
  by (rule keeps_row) (auto simp: own_rows_of own_upd_row others_upd_row split: option.split)

lemma keeps_history: "keeps u (sql_get_history i n k u)"
proof -
  have "sql_get_history i n k u = (\<lambda>s. case get_row s i u True of Inl e \<Rightarrow> Inl e
      | Inr r \<Rightarrow> Inr (s, history_of n k (c_messages (conversation_model r (rows_of s (cr_id r))))))"
    by (auto simp: sql_get_history_def sql_get_def fun_eq_iff split: sum.split)
  then show ?thesis by (simp only:) (rule keeps_row, auto simp: own_rows_of)
qed

text \<open>A row that is purged takes its messages along, which are all of the user.\<close>

lemma mine_purged:
  "mine u (s\<lparr>ss_conversations := filter (\<lambda>r. cr_id r \<noteq> i) (ss_conversations s), ss_messages := ms\<rparr>) j \<longleftrightarrow>
     mine u s j \<and> j \<noteq> i"
  by (auto simp: mine_def)

lemma delete_one:
  assumes "mine u s i"
  shows "delete_rows True (\<lambda>r. cr_id r = i) s = s\<lparr>ss_conversations := filter (\<lambda>r. cr_id r \<noteq> i) (ss_conversations s),
      ss_messages := filter (\<lambda>m. mr_conversation_id m \<noteq> i) (ss_messages s)\<rparr>"
proof -
  have "set (map cr_id (filter (\<lambda>r. cr_id r = i) (ss_conversations s))) = {i}"
    using assms by (auto simp: mine_def)
  then show ?thesis unfolding delete_rows_def Let_def by (simp add: del_where_def)
qed

lemma keeps_purge: "keeps u (sql_purge i u now)"
proof -
  have own: "delete_rows True (\<lambda>r'. cr_id r' = i) (own_rows u s) = own_rows u (delete_rows True (\<lambda>r'. cr_id r' = i) s)"
    if m: "mine u s i" for s i
  proof -
    have m': "mine u (own_rows u s) i" using m by (auto simp: mine_def)
    show ?thesis unfolding delete_one [OF m] delete_one [OF m']
      by (simp add: own_rows_def mine_purged conj_ac conj_absorb cong: filter_cong)
  qed
  have others: "other_rows u (delete_rows True (\<lambda>r'. cr_id r' = i) s) = other_rows u s"
    if inv: "sql_inv s" and m: "mine u s i" for s i
  proof -
    obtain r where r: "r \<in> set (ss_conversations s)" "cr_id r = i" "cr_created_by r = u" using m unfolding mine_def by blast
    have uniq: "cr_created_by r' = u" if "r' \<in> set (ss_conversations s)" "cr_id r' = i" for r'
      using distinct_key_eq [OF sql_invD(2) [OF inv] that(1) r(1)] that(2) r(2,3) by simp
    show ?thesis unfolding delete_one [OF m] using m uniq
      by (auto simp: other_rows_def mine_purged intro!: filter_cong)
  qed
  show ?thesis unfolding sql_purge_def
    by (rule keeps_row) (auto simp: own others split: option.split)
qed

text \<open>A new conversation gets an identifier that no message refers to yet.\<close>

lemma keeps_create: "keeps u (sql_create p v u now)"
proof (rule keepsI)
  fix s assume inv: "sql_inv s"
  define r where "r = \<lparr>cr_id = ss_next s, cr_project_id = p, cr_graph_version = v, cr_created_by = u, cr_name = None,
    cr_created_at = now, cr_updated_at = now, cr_archived_at = None, cr_active_request_id = None,
    cr_lease_expires_at = None\<rparr>"
  define t where "t = s\<lparr>ss_conversations := ss_conversations s @ [r], ss_next := Suc (ss_next s)\<rparr>"
  have r: "cr_id r = ss_next s" "cr_created_by r = u" by (simp_all add: r_def)
  have run: "sql_create p v u now s = Inr (t, conversation_model r [])" by (simp add: sql_create_def Let_def r_def t_def)
  have mine: "mine u t (mr_conversation_id m) \<longleftrightarrow> mine u s (mr_conversation_id m)" if "m \<in> set (ss_messages s)" for m
    using sql_invD(5) [OF inv that] by (auto simp: mine_def t_def r)
  have kept: "filter (\<lambda>m. mine u t (mr_conversation_id m)) (ss_messages s) = filter (\<lambda>m. mine u s (mr_conversation_id m)) (ss_messages s)"
    by (rule filter_cong [OF refl mine])
  have "ss_messages t = ss_messages s" by (simp add: t_def)
  then have "own_rows u t = (own_rows u s)\<lparr>ss_conversations := ss_conversations (own_rows u s) @ [r], ss_next := Suc (ss_next s)\<rparr>"
    using kept by (simp add: own_rows_def) (simp add: t_def r)
  then show "sql_create p v u now (own_rows u s) = map_state (own_rows u) (sql_create p v u now s)"
    unfolding run by (simp add: sql_create_def Let_def r_def)
  show "other_rows u s' = other_rows u s" if "sql_create p v u now s = Inr (s', x)" for s' x
  proof -
    have "s' = t" using that unfolding run by simp
    moreover have "filter (\<lambda>m. \<not> mine u t (mr_conversation_id m)) (ss_messages s) = filter (\<lambda>m. \<not> mine u s (mr_conversation_id m)) (ss_messages s)"
      by (rule filter_cong [OF refl]) (simp add: mine)
    moreover have "ss_messages t = ss_messages s" by (simp add: t_def)
    ultimately show ?thesis by (simp add: other_rows_def) (simp add: t_def r)
  qed
qed

lemma mine_messages [simp]:
  "mine u (s\<lparr>ss_messages := ms\<rparr>) = mine u s" "mine u (s\<lparr>ss_next := n\<rparr>) = mine u s" "mine u (s\<lparr>ss_next_row := n\<rparr>) = mine u s"
  by (simp_all add: mine_def fun_eq_iff)

lemma mine_upd_row:
  "(\<And>r. cr_id (f r) = cr_id r) \<Longrightarrow> (\<And>r. cr_created_by (f r) = cr_created_by r) \<Longrightarrow> mine u (upd_row i f s) = mine u s"
  unfolding upd_row_def by (rule ext) (rule mine_upd_where)

lemma keeps_append: "keeps u (sql_append i role content status result u now)"
proof -
  define f :: "conversation_row \<Rightarrow> conversation_row" where "f = (\<lambda>r. r\<lparr>cr_updated_at := now,
                     cr_name := (if role = RoleUser \<and> cr_name r = None then Some (derive_name content)
                                 else cr_name r)\<rparr>)"
  define m where "m = (\<lambda>s. \<lparr>mr_row_id = ss_next_row s, mr_id = ss_next s, mr_conversation_id = i,
                   mr_ordinal = max_ordinal s i + 1, mr_role = role, mr_content = content,
                   mr_status = status, mr_created_at = now, mr_result = result\<rparr>)"
  define g where "g = (\<lambda>s. (upd_row i f s)\<lparr>ss_messages := ss_messages s @ [m s], ss_next := Suc (ss_next s),
                   ss_next_row := Suc (ss_next_row s)\<rparr>)"
  have f: "cr_id (f r) = cr_id r" "cr_created_by (f r) = cr_created_by r" for r by (simp_all add: f_def)
  have row: "sql_append i role content status result u now =
      (\<lambda>s. case get_row s i u True of Inl e \<Rightarrow> Inl e | Inr r \<Rightarrow> Inr (g s, message_model (m s)))"
    by (auto simp: sql_append_def Let_def fun_eq_iff g_def f_def m_def split: sum.split dest: get_row_mine)
  have id: "mr_conversation_id (m s) = i" for s by (simp add: m_def)
  have mine: "mine u (g s) = mine u s" for s by (simp add: g_def mine_upd_row f)
  have same: "m (own_rows u s) = m s" if "mine u s i" for s using that by (simp add: m_def own_max_ordinal)
  have own: "g (own_rows u s) = own_rows u (g s)" if i: "mine u s i" for s
  proof -
    have "own_rows u (g s) = (own_rows u (upd_row i f s))\<lparr>ss_messages := ss_messages (own_rows u s) @ [m s],
        ss_next := Suc (ss_next s), ss_next_row := Suc (ss_next_row s)\<rparr>"
      using i unfolding own_rows_def mine by (simp add: g_def id)
    then show ?thesis using i by (simp add: g_def own_upd_row f same)
  qed
  have others: "other_rows u (g s) = other_rows u s" if "sql_inv s" and i: "mine u s i" for s
  proof -
    have "other_rows u (g s) = (fst (other_rows u (upd_row i f s)), snd (other_rows u s))"
      using i unfolding other_rows_def mine by (simp add: g_def id)
    then show ?thesis using others_upd_row [of s u i f] that f by simp
  qed
  show ?thesis unfolding row
  proof (rule keepsI)
    fix s assume inv: "sql_inv s"
    show "(case get_row (own_rows u s) i u True of Inl e \<Rightarrow> Inl e | Inr r \<Rightarrow> Inr (g (own_rows u s), message_model (m (own_rows u s)))) =
        map_state (own_rows u) (case get_row s i u True of Inl e \<Rightarrow> Inl e | Inr r \<Rightarrow> Inr (g s, message_model (m s)))"
      using own [of s] same [of s] get_row_mine [of s i u True] by (cases "get_row s i u True") auto
    show "other_rows u s' = other_rows u s"
      if "(case get_row s i u True of Inl e \<Rightarrow> Inl e | Inr r \<Rightarrow> Inr (g s, message_model (m s))) = Inr (s', x)" for s' x
      using that others [OF inv] get_row_mine [of s i u True] by (cases "get_row s i u True") auto
  qed
qed

lemma keeps_add_user: "keeps u (sql_add_user i content u now)"
  unfolding sql_add_user_def by (rule keeps_append)

text \<open>Pruning deletes messages of the conversation only.\<close>

lemma exchange_row_ids_of:
  "(a, b) \<in> set (exchange_row_ids p ms) \<Longrightarrow>
     a \<in> mr_row_id ` (set ms \<union> set_option p) \<and> b \<in> mr_row_id ` set ms"
  by (induction p ms rule: exchange_row_ids.induct) (auto split: if_splits option.splits)

lemma prune_kept:
  assumes inv: "sql_inv s" and i: "mine u s i"
  shows "sql_prune cfg i (own_rows u s) = map_state (own_rows u) (sql_prune cfg i s)"
    "sql_prune cfg i s = Inr (s', x) \<Longrightarrow> other_rows u s' = other_rows u s \<and> mine u s' = mine u s"
proof -
  let ?ids = "exchange_row_ids None (rows_of s i)"
  let ?gone = "set (concat (map (\<lambda>(u, a). [u, a]) (take (length ?ids - cfg_max_turns cfg) ?ids)))"
  have in_i: "mr_conversation_id m = i" if "m \<in> set (ss_messages s)" "mr_row_id m \<in> ?gone" for m
  proof -
    from that(2) obtain a b where ab: "(a, b) \<in> set ?ids" "mr_row_id m = a \<or> mr_row_id m = b"
      by (auto dest: in_set_takeD)
    then have "mr_row_id m \<in> mr_row_id ` set (rows_of s i)" using exchange_row_ids_of [OF ab(1)] by auto
    then obtain m' where m': "m' \<in> set (ss_messages s)" "mr_row_id m' = mr_row_id m" "mr_conversation_id m' = i"
      by (auto simp: rows_of_def)
    have "distinct (map mr_row_id (ss_messages s))" using sql_invD(4) [OF inv] by (simp add: fresh_table_def)
    then have "m = m'" using distinct_key_eq that(1) m'(1,2) by metis
    then show ?thesis using m'(3) by simp
  qed
  have swap: "filter Q (del_where P xs) = del_where P (filter Q xs)" for P Q and xs :: "message_row list"
    by (auto simp: del_where_def conj_commute)
  show "sql_prune cfg i (own_rows u s) = map_state (own_rows u) (sql_prune cfg i s)"
    using i by (simp add: sql_prune_def Let_def own_rows_of) (simp add: own_rows_def swap)
  assume run: "sql_prune cfg i s = Inr (s', x)"
  have "del_where (\<lambda>m. mr_row_id m \<in> ?gone) (filter (\<lambda>m. \<not> mine u s (mr_conversation_id m)) (ss_messages s)) =
      filter (\<lambda>m. \<not> mine u s (mr_conversation_id m)) (ss_messages s)"
    unfolding del_where_def filter_filter by (rule filter_cong) (use in_i i in auto)
  then show "other_rows u s' = other_rows u s \<and> mine u s' = mine u s"
    using run unfolding sql_prune_def Let_def
    by (auto simp: other_rows_def swap split: if_splits)
qed

lemma keeps_add_assistant: "keeps u (sql_add_assistant cfg i content status result u now)"
proof (rule keepsI)
  fix s assume inv: "sql_inv s"
  let ?add = "sql_append i RoleAssistant content status result u now"
  note add = keeps_append [of u i RoleAssistant content status result now, unfolded keeps_def, rule_format, OF inv]
  have i: "mine u t i \<and> sql_inv t" if "?add s = Inr (t, m)" for t m
  proof
    show "sql_inv t" by (rule sql_append_spec(1) [OF inv that])
    from that obtain r where r: "get_row s i u True = Inr r"
      by (cases "get_row s i u True") (auto simp: sql_append_def)
    have "ss_conversations t = upd_where (\<lambda>x. cr_id x = i)
        (\<lambda>r. r\<lparr>cr_updated_at := now, cr_name := cr_name r\<rparr>) (ss_conversations s)"
      using that get_row_mine [OF r] by (auto simp: sql_append_def r Let_def upd_row_def)
    then show "mine u t i"
      using get_row_mine [OF r] unfolding mine_def by (auto simp: bex_upd_where)
  qed
  show "sql_add_assistant cfg i content status result u now (own_rows u s) =
      map_state (own_rows u) (sql_add_assistant cfg i content status result u now s)"
  proof (cases "?add s")
    case (Inl e)
    then show ?thesis using add by (simp add: sql_add_assistant_def)
  next
    case (Inr p)
    then obtain t m where t: "?add s = Inr (t, m)" by (cases p) auto
    then have "?add (own_rows u s) = Inr (own_rows u t, m)" using add by simp
    then show ?thesis using prune_kept(1) [of t u i cfg] i [OF t] t
      by (cases "sql_prune cfg i t") (auto simp: sql_add_assistant_def)
  qed
  show "other_rows u s' = other_rows u s" if "sql_add_assistant cfg i content status result u now s = Inr (s', x)" for s' x
  proof -
    from that obtain t m where t: "?add s = Inr (t, m)" by (cases "?add s") (auto simp: sql_add_assistant_def)
    with that obtain y where "sql_prune cfg i t = Inr (s', y)"
      by (cases "sql_prune cfg i t") (auto simp: sql_add_assistant_def)
    then show ?thesis using prune_kept(2) [of t u i cfg] i [OF t] add t by simp
  qed
qed

text \<open>The lease is taken and freed by conditional updates whose condition names the user.\<close>

lemma count_where_filter: "(\<And>x. P x \<Longrightarrow> Q x) \<Longrightarrow> count_where P (filter Q xs) = count_where P xs"
  by (induction xs) (auto simp: count_where_def)

lemma keeps_acquire: "keeps u (sql_acquire cfg i q u now)"
proof (rule keepsI)
  fix s :: sql_store
  let ?P = "acquirable i q u now"
  let ?f = "\<lambda>r. r\<lparr>cr_active_request_id := Some q, cr_lease_expires_at := Some (now + timedelta_seconds (cfg_lease_seconds cfg))\<rparr>"
  have P: "?P r \<Longrightarrow> cr_created_by r = u" for r by (simp add: acquirable_def)
  have row: "first_where (\<lambda>r. cr_id r = i \<and> cr_created_by r = u \<and> cr_archived_at r = None)
      (filter (\<lambda>r. cr_created_by r = u) rows) =
    first_where (\<lambda>r. cr_id r = i \<and> cr_created_by r = u \<and> cr_archived_at r = None) rows" for rows
    by (rule first_where_filter) simp
  have count: "count_where ?P (filter (\<lambda>r. cr_created_by r = u) rows) = count_where ?P rows" for rows
    by (rule count_where_filter) (rule P)
  show "sql_acquire cfg i q u now (own_rows u s) = map_state (own_rows u) (sql_acquire cfg i q u now s)"
    unfolding sql_acquire_def Let_def own_simps row count by (simp add: own_upd_where split: option.split)
  show "other_rows u s' = other_rows u s" if "sql_acquire cfg i q u now s = Inr (s', x)" for s' x
  proof -
    have "s' = s\<lparr>ss_conversations := upd_where ?P ?f (ss_conversations s)\<rparr>"
      using that by (auto simp: sql_acquire_def Let_def split: if_splits option.splits)
    then show ?thesis by (auto intro: others_upd_where P)
  qed
qed

lemma keeps_release: "keeps u (sql_release i q u)"
proof (rule keepsI)
  fix s :: sql_store
  let ?P = "\<lambda>r. cr_id r = i \<and> cr_created_by r = u \<and> cr_active_request_id r = Some q"
  let ?f = "\<lambda>r. r\<lparr>cr_active_request_id := None, cr_lease_expires_at := None\<rparr>"
  have count: "count_where ?P (filter (\<lambda>r. cr_created_by r = u) rows) = count_where ?P rows" for rows
    by (rule count_where_filter) simp
  have there: "exists_where (\<lambda>r. cr_id r = i \<and> cr_created_by r = u) (filter (\<lambda>r. cr_created_by r = u) rows) =
      exists_where (\<lambda>r. cr_id r = i \<and> cr_created_by r = u) rows" for rows
    by (auto simp: exists_where_def)
  show "sql_release i q u (own_rows u s) = map_state (own_rows u) (sql_release i q u s)"
    unfolding sql_release_def Let_def own_simps count there by (simp add: own_upd_where)
  show "other_rows u s' = other_rows u s" if "sql_release i q u s = Inr (s', x)" for s' x
  proof -
    have "s' = s \<or> s' = s\<lparr>ss_conversations := upd_where ?P ?f (ss_conversations s)\<rparr>"
      using that by (auto simp: sql_release_def Let_def split: if_splits)
    then show ?thesis by (auto intro: others_upd_where)
  qed
qed

lemmas keeps_calls = keeps_create keeps_get keeps_list keeps_scope keeps_rename keeps_archive keeps_restore
  keeps_purge keeps_add_user keeps_add_assistant keeps_acquire keeps_release keeps_history

lemma keeps_reply: "keeps u f \<Longrightarrow> (\<And>s. g s = map_reply k (f s)) \<Longrightarrow> keeps u g"
  by (auto simp: keeps_def map_state_map_reply map_reply_Inr)

lemma keeps_run:
  assumes "caller call = Some u"
  shows "keeps u (run_call (sql_ops cfg cascade) call now)"
  using assms by (cases call) (auto simp: sql_ops_def intro: keeps_calls [THEN keeps_reply])

interpretation sql_private: private_store "sql_ops cfg cascade" sql_inv own_rows other_rows for cfg cascade
proof
  fix s s' :: sql_store and u call now r
  assume inv: "sql_inv s"
  show "run_call (sql_ops cfg cascade) call now s = Inr (s', r) \<Longrightarrow> sql_inv s'"
    by (rule sql.call_valid [OF inv])
  assume "caller call = Some u"
  note keeps = keeps_run [OF this, of cfg cascade now, unfolded keeps_def, rule_format, OF inv]
  show "run_call (sql_ops cfg cascade) call now (own_rows u s) = map_state (own_rows u) (run_call (sql_ops cfg cascade) call now s)"
    using keeps by simp
  show "run_call (sql_ops cfg cascade) call now s = Inr (s', r) \<Longrightarrow> other_rows u s' = other_rows u s"
    using keeps by simp
qed

end
