(* ===== verification/Chat_Properties.thy ===== *)
theory Chat_Properties
  imports Conversation_Privacy Route_Properties Registry_Samples
begin

text \<open>
  Properties of the conversation routes: what a request can see and change, and that membership of the
  project is needed for every one of them.
\<close>

section \<open>Privacy\<close>

text \<open>
  C40. Conversations are private. Whatever request a user sends to the conversation routes, the
  conversations and messages of everybody else stay as they are, and the answer is the one the user
  would get if the store held nothing but the user's own conversations. No answer, not even an error,
  tells whether somebody else's conversation exists.
\<close>

theorem conversations_private:
  assumes "sql_inv s"
  shows "other_rows (ap_subject user) (fst (handle_chat (sql_ops cfg cascade) env now call (Inr user) s)) =
      other_rows (ap_subject user) s \<and>
    handle_chat (sql_ops cfg cascade) env now call (Inr user) (own_rows (ap_subject user) s) =
      (own_rows (ap_subject user) (fst (handle_chat (sql_ops cfg cascade) env now call (Inr user) s)),
       snd (handle_chat (sql_ops cfg cascade) env now call (Inr user) s))"
  using sql_private.confinedD [OF sql_private.confined_handle assms surjective_pairing]
  by (simp add: sql_private.confined_def)

definition chat_sample_config :: store_config where
  "chat_sample_config = \<lparr>cfg_retention_days = 30, cfg_max_turns = 5, cfg_lease_seconds = 60\<rparr>"

definition chat_sample_env :: chat_env where
  "chat_sample_env = \<lparr>ch_auth_enabled = True, ch_project_id = ''main'', ch_project_path = ''/graph'',
     ch_storage_root = ''/projects'', ch_max_turns = 5, ch_max_chars = 1000, ch_registry = created_db,
     ch_active_version = None, ch_source_index = ''/index'', ch_isoformat = (\<lambda>t. ascii (id_text (nat t))),
     ch_fromisoformat = (\<lambda>x. Some (int (read_ident (map char_of x))))\<rparr>"

definition chat_user :: "string \<Rightarrow> auth_principal" where
  "chat_user name = \<lparr>ap_subject = name, ap_username = name, ap_roles = [''viewer''], ap_tenant_id = ''acme'',
     ap_group_ids = []\<rparr>"

text \<open>Conversation 0 of ann and conversation 1 of bob, both in project 0, which is ann's.\<close>

definition sample_conversation :: "ident \<Rightarrow> string \<Rightarrow> conversation_row" where
  "sample_conversation i name = \<lparr>cr_id = i, cr_project_id = ''0'', cr_graph_version = Some ''v1'', cr_created_by = name,
     cr_name = None, cr_created_at = 1, cr_updated_at = 1, cr_archived_at = None, cr_active_request_id = None,
     cr_lease_expires_at = None\<rparr>"

definition shared_store :: sql_store where
  "shared_store = \<lparr>ss_conversations = [sample_conversation 0 ''ann'', sample_conversation 1 ''bob''], ss_messages = [],
     ss_next = 2, ss_next_row = 1\<rparr>"

lemma shared_store_inv: "sql_inv shared_store"
  by (simp add: sql_inv_def shared_store_def sample_conversation_def fresh_table_def)

text \<open>Ann asks for bob's conversation, and then archives her own.\<close>

lemma conversations_private_witness:
  "map cr_created_by (fst (other_rows ''ann'' (fst (handle_chat (sql_ops chat_sample_config True) chat_sample_env 9
       (DeleteConversation 0) (Inr (chat_user ''ann'')) shared_store)))) = [''bob''] \<and>
   snd (handle_chat (sql_ops chat_sample_config True) chat_sample_env 9 (GetConversation 1)
     (Inr (chat_user ''ann'')) (own_rows ''ann'' shared_store)) = Inl (ConversationMissing 1)"
proof -
  have ann: "ap_subject (chat_user ''ann'') = ''ann''" by (simp add: chat_user_def)
  have "map cr_created_by (fst (other_rows ''ann'' shared_store)) = [''bob'']" by code_simp
  moreover have "snd (handle_chat (sql_ops chat_sample_config True) chat_sample_env 9 (GetConversation 1)
      (Inr (chat_user ''ann'')) shared_store) = Inl (ConversationMissing 1)" by code_simp
  moreover note conversations_private [OF shared_store_inv, of "chat_user ''ann''" chat_sample_config True
      chat_sample_env 9 "DeleteConversation 0", THEN conjunct1, unfolded ann]
    conversations_private [OF shared_store_inv, of "chat_user ''ann''" chat_sample_config True
      chat_sample_env 9 "GetConversation 1", THEN conjunct2, unfolded ann]
  ultimately show ?thesis by (simp only: snd_conv simp_thms)
qed

section \<open>Membership\<close>

text \<open>The project a request is about: the one named, or the one of the user's conversation.\<close>

definition own_project :: "string \<Rightarrow> sql_store \<Rightarrow> ident \<Rightarrow> string option" where
  "own_project u s i =
     map_option cr_project_id (first_where (\<lambda>r. cr_id r = i \<and> cr_created_by r = u) (ss_conversations s))"

fun call_project :: "string \<Rightarrow> sql_store \<Rightarrow> chat_call \<Rightarrow> string option" where
  "call_project u s (CreateConversation requested) = requested"
| "call_project u s (ListConversations pid state limit cursor) = Some pid"
| "call_project u s (GetConversation i) = own_project u s i"
| "call_project u s (RenameConversation i name) = own_project u s i"
| "call_project u s (DeleteConversation i) = own_project u s i"
| "call_project u s (RestoreConversation i) = own_project u s i"
| "call_project u s (PurgeConversation i) = own_project u s i"
| "call_project u s (SendMessage i msg q events later) = own_project u s i"

definition refused :: "'s \<Rightarrow> 's \<times> (api_exception + 'a) \<Rightarrow> bool" where
  "refused s r \<longleftrightarrow> fst r = s \<and> (\<exists>e. snd r = Inl e)"

lemma refused_simps [simp]:
  "refused s (reply_error e s)" "refused s (reply_value x s) = False"
  "refused s (check_registry r s) \<longleftrightarrow> (\<exists>e. r = Inl e)" "refused s (s, Inl e)"
  by (cases r; simp add: refused_def reply_error_def reply_value_def check_registry_def)+

lemma refused_and_then:
  "refused s (f s) \<Longrightarrow> refused s (and_then f g s)"
  by (cases "f s") (auto simp: refused_def and_then_def split: sum.split)

lemma refused_then:
  "fst (f s) = s \<Longrightarrow> (\<And>x. refused s (g x s)) \<Longrightarrow> refused s (and_then f g s)"
  by (cases "f s") (auto simp: refused_def and_then_def split: sum.split)

lemma and_then_state: "fst (f s) = s \<Longrightarrow> (\<And>x. fst (g x s) = s) \<Longrightarrow> fst (and_then f g s) = s"
  by (cases "f s") (auto simp: and_then_def split: sum.split)

lemma steps_state [simp]: "fst (reply_error e s) = s" "fst (reply_value x s) = s" "fst (check_registry r s) = s"
  by (simp_all add: reply_error_def reply_value_def check_registry_def)

lemma get_workflow_state: "fst (get_workflow (sql_ops cfg cascade) env i user s) = s"
  unfolding get_workflow_def
  by (intro and_then_state)
    (auto simp: on_store_def sql_ops_def sql_get_scope_def intro!: and_then_state split: sum.split option.split)

lemma refused_checked: "(\<And>x. r = Inr x \<Longrightarrow> refused s (g x s)) \<Longrightarrow> refused s (and_then (check_registry r) g s)"
  by (cases r) (auto simp: and_then_def check_registry_def refused_def)

lemma refused_scope:
  assumes "sql_inv s" "own_project u s i = Some text" "\<And>scope. scope_project_id scope = text \<Longrightarrow> refused s (g scope s)"
  shows "refused s (and_then (on_store (st_get_scope (sql_ops cfg cascade) i u a)) g s)"
proof -
  have "st_get_scope (sql_ops cfg cascade) i u a s = Inr (s, \<lparr>scope_project_id = text, scope_graph_version = cr_graph_version r\<rparr>)"
    if "get_row s i u (\<not> a) = Inr r" for r
  proof -
    from get_row_Inr [OF assms(1) that] have "first_where (\<lambda>r. cr_id r = i \<and> cr_created_by r = u) (ss_conversations s) = Some r"
      unfolding row_of_def by (subst first_where_conj [OF sql_invD(2) [OF assms(1)]]) simp
    then have "cr_project_id r = text" using assms(2) by (simp add: own_project_def)
    then show ?thesis using that by (simp add: sql_ops_def sql_get_scope_def)
  qed
  then show ?thesis using assms(3)
    by (cases "get_row s i u (\<not> a)")
      (auto simp: and_then_def on_store_def sql_ops_def sql_get_scope_def refused_def)
qed

lemma refused_admitted: "refused s (f s) \<Longrightarrow> refused s (admitted call user f s)"
  by (auto simp: admitted_def split: sum.split)

text \<open>
  C39. Every conversation request needs membership. With authentication on, a request about a project in
  which neither the user nor one of the user's groups is a member changes nothing and is answered with an
  error, also for the conversations the user started there while being a member.
\<close>

theorem members_only:
  assumes "sql_inv s" "ch_auth_enabled env"
    and "call_project (ap_subject user) s call = Some (id_text pid)"
    and "access_origins (ch_registry env) pid (ap_tenant_id user) (ap_subject user) (ap_group_ids user) = []"
  shows "fst (handle_chat (sql_ops cfg cascade) env now call (Inr user) s) = s \<and>
    (\<exists>e. snd (handle_chat (sql_ops cfg cascade) env now call (Inr user) s) = Inl e)"
proof -
  have deny: "decide_access (ch_registry env) (id_text pid) user = Inl (ProjectNotFound pid)"
    using outsider_authorize [OF assms(4)] by (simp add: decide_access_def)
  have project: "refused s (and_then (authorize_project_request env (id_text pid) user) g s)" for g :: "unit \<Rightarrow> (sql_store, chat_reply) chat_route"
    using assms(2) by (auto simp: authorize_project_request_def deny intro!: refused_and_then)
  have scope: "refused s (and_then (authorize_conversation (sql_ops cfg cascade) env i user a) g s)"
    if "own_project (ap_subject user) s i = Some (id_text pid)" for i a and g :: "unit \<Rightarrow> (sql_store, chat_reply) chat_route"
    using assms(2) by (auto simp: authorize_conversation_def authorize_project_request_def deny
        intro!: refused_and_then refused_scope [OF assms(1) that])
  have send: "refused s (send_message (sql_ops cfg cascade) env i msg q user now s)"
    if "own_project (ap_subject user) s i = Some (id_text pid)" for i msg q
    using assms(2) unfolding send_message_def
    by (intro refused_scope [OF assms(1) that]) (auto simp: deny intro!: refused_and_then)
  have "refused s (run_chat (sql_ops cfg cascade) env now call user s)"
  proof (cases call)
    case (CreateConversation requested)
    then show ?thesis using assms(2,3)
      by (auto simp: create_conversation_def deny intro!: refused_admitted refused_checked)
  next
    case (SendMessage i msg q events later)
    then have "own_project (ap_subject user) s i = Some (id_text pid)" using assms(3) by simp
    then show ?thesis unfolding SendMessage run_chat.simps
      by (intro refused_then get_workflow_state refused_and_then refused_admitted send)
  qed (use assms(3) in \<open>auto simp: list_conversations_def get_conversation_def rename_conversation_def
      delete_conversation_def restore_conversation_def purge_conversation_def intro!: refused_admitted project scope\<close>)
  then show ?thesis by (simp add: refused_def handle_chat_def)
qed

text \<open>Bob is no member of project 0, so conversation 1, which is his, is closed to him.\<close>

lemma members_only_witness:
  "fst (handle_chat (sql_ops chat_sample_config True) chat_sample_env 9 (DeleteConversation 1)
     (Inr (chat_user ''bob'')) shared_store) = shared_store"
proof -
  have "call_project (ap_subject (chat_user ''bob'')) shared_store (DeleteConversation 1) = Some (id_text 0)"
    by (subst id_text.simps) (simp, code_simp)
  moreover have "access_origins (ch_registry chat_sample_env) 0 (ap_tenant_id (chat_user ''bob''))
      (ap_subject (chat_user ''bob'')) (ap_group_ids (chat_user ''bob'')) = []" by code_simp
  moreover have "ch_auth_enabled chat_sample_env" by (simp add: chat_sample_env_def)
  ultimately show ?thesis using members_only [OF shared_store_inv] by blast
qed

section \<open>Offered actions\<close>

lemma id_text_not_empty: "id_text n \<noteq> []"
  by (subst id_text.simps) simp

text \<open>A conversation in a project that is shown as ready and has its graph.\<close>

lemma create_conversation_offered:
  assumes inv: "db_inv (app_db st)"
    and shown: "snd (handle cf now pid GetProject (Inr user) st) = Inr (RProject v)"
    and offered: "may_create_conversation (pv_allowed v)" "pv_active_graph_version v \<notin> {None, Some []}"
    and env: "ch_auth_enabled env" "ch_registry env = app_db st" "length (id_text pid) \<le> 128"
  shows "\<exists>s' c. handle_chat (sql_ops scfg cascade) env now' (CreateConversation (Some (id_text pid))) (Inr user) s =
    (s', Inr (RConversation c))"
proof -
  from shown_project [OF inv shown] obtain p access where p: "get_project (app_db st) pid False = Inr p"
      and v: "v = project_view_of (app_db st) p user access" and viewer: "''viewer'' \<in> set (ap_roles user)"
      and role: "\<forall>r. role_rank r \<le> role_rank (effective_role access) \<longrightarrow> authorize (app_db st) pid user r = Inr access" .
  have "role_rank Viewer \<le> role_rank (effective_role access)" by (cases "effective_role access") simp_all
  then have "authorize (app_db st) pid user Viewer = Inr access" using role by blast
  moreover have "p_state p = Ready" "present (p_active_graph_version p) = p_active_graph_version p"
      "p_active_graph_version p \<noteq> None"
    using offered by (auto simp: v project_view_of_def actions_of_def Let_def present_def split: option.split list.split)
  ultimately show ?thesis
    using viewer env p id_text_not_empty [of pid]
    by (auto simp: handle_chat_def admitted_def require_role_def create_conversation_def and_then_def check_registry_def
        lookup_project_def decide_access_def named_ident_def create_in_def reply_with_def on_store_def reply_value_def
        sql_ops_def sql_create_def text_between_def Let_def Suc_le_eq)
qed

text \<open>
  C17. What the project view offers succeeds. When a project is shown to a user: archiving it
  succeeds if it is offered, and then restoring it succeeds if the answer offers it and the
  retention is not over, and purging it if the answer offers it and the retention is over; opening
  an upload session succeeds if editing is offered, the declarations are acceptable and the
  idempotency key is not used; starting a build succeeds if it is offered, the key is valid and not
  used and no upload of the project is open; the members and the requests are listed if managing
  access is offered, and the activity if viewing it is; a conversation is created if that is offered
  and the project has an active graph version. A shown project never offers to be restored, purged
  or requested.
\<close>

theorem offered_actions_succeed:
  assumes inv: "db_inv (app_db st)"
    and shown: "snd (handle cf now pid GetProject (Inr user) st) = Inr (RProject v)"
  shows "(may_archive (pv_allowed v) \<longrightarrow>
       (\<exists>v'. snd (handle cf now' pid Archive (Inr user) st) = Inr (RProject v') \<and> pv_state v' = Archived \<and>
          (may_restore (pv_allowed v') \<longrightarrow> now'' - timedelta_days (cf_retention_days cf) \<le> now' \<longrightarrow>
             (\<exists>w. snd (handle cf now'' pid Restore (Inr user) (fst (handle cf now' pid Archive (Inr user) st))) =
                Inr (RProject w) \<and> pv_state w \<noteq> Archived)) \<and>
          (may_purge (pv_allowed v') \<longrightarrow> now' \<le> now'' - timedelta_days (cf_retention_days cf) \<longrightarrow>
             snd (handle cf now'' pid Purge (Inr user) (fst (handle cf now' pid Archive (Inr user) st))) =
               Inr RNoContent))) \<and>
     (may_edit_draft (pv_allowed v) \<longrightarrow> valid_call (CreateSession files key) \<longrightarrow>
       check_declarations (cf_text cf) (cf_limits cf) files = Inr () \<longrightarrow>
       idempotent_resource (app_db st) (ap_subject user) (OpCreateUploadSession pid) key = None \<longrightarrow>
       (\<exists>s. snd (handle cf now' pid (CreateSession files key) (Inr user) st) = Inr (RSession s))) \<and>
     (may_build (pv_allowed v) \<longrightarrow> text_between 1 255 key \<longrightarrow>
       (\<forall>u\<in>set (upload_sessions (app_db st)). u_project_id u = pid \<longrightarrow> u_state u \<noteq> UOpen) \<longrightarrow>
       idempotent_resource (app_db st) (ap_subject user) (OpSubmitBuild pid) key = None \<longrightarrow>
       (\<exists>b. snd (handle cf now' pid (CreateBuild key) (Inr user) st) = Inr (RAccepted b))) \<and>
     (may_manage_access (pv_allowed v) \<longrightarrow>
       (\<exists>ms rs. snd (handle cf now' pid ListMembers (Inr user) st) = Inr (RMembers ms) \<and>
          snd (handle cf now' pid ListRequests (Inr user) st) = Inr (RRequests rs))) \<and>
     (may_view_access_activity (pv_allowed v) \<longrightarrow>
       (\<exists>as. snd (handle cf now' pid Activity (Inr user) st) = Inr (RActivity as))) \<and>
     (may_create_conversation (pv_allowed v) \<longrightarrow> pv_active_graph_version v \<notin> {None, Some []} \<longrightarrow>
       ch_auth_enabled env \<longrightarrow> ch_registry env = app_db st \<longrightarrow> length (id_text pid) \<le> 128 \<longrightarrow>
       (\<exists>s' c. handle_chat (sql_ops scfg cascade) env now' (CreateConversation (Some (id_text pid))) (Inr user) s =
          (s', Inr (RConversation c)))) \<and>
     \<not> may_restore (pv_allowed v) \<and> \<not> may_purge (pv_allowed v) \<and> \<not> may_request_access (pv_allowed v)"
  using offered_steps [OF inv shown, of now' now'' files key] create_conversation_offered [OF inv shown]
  by blast

lemma offered_actions_succeed_witness:
  "\<exists>b. snd (handle sample_config 70 0 (CreateBuild ''k9'') (Inr (sample_user ''ann'' ''acme'')) (sample_state shared_db)) = Inr (RAccepted b)"
proof -
  let ?st = "sample_state shared_db" and ?ann = "sample_user ''ann'' ''acme''"
  obtain d where d: "access_decision_of shared_db 0 ''acme'' ''ann'' [] Viewer = Inr d" "effective_role d = Owner"
  proof -
    have "(case access_decision_of shared_db 0 ''acme'' ''ann'' [] Viewer of Inr d \<Rightarrow> effective_role d = Owner | Inl _ \<Rightarrow> False)"
      by code_simp
    then show ?thesis using that by (auto split: sum.splits)
  qed
  obtain p where p: "get_project shared_db 0 False = Inr p" "p_state p = Draft" "p_id p = 0"
  proof -
    have "(case get_project shared_db 0 False of Inr p \<Rightarrow> p_state p = Draft \<and> p_id p = 0 | Inl _ \<Rightarrow> False)" by code_simp
    then show ?thesis using that by (auto split: sum.splits)
  qed
  have files: "draft_file_count shared_db 0 = 1" by code_simp
  have key: "idempotent_resource shared_db ''ann'' (OpSubmitBuild 0) ''k9'' = None" by code_simp
  have "list_all (\<lambda>u. u_state u \<noteq> UOpen) (upload_sessions shared_db)" by code_simp
  then have closed: "\<forall>u\<in>set (upload_sessions shared_db). u_state u \<noteq> UOpen" by (simp add: list_all_iff)
  have shown: "snd (handle sample_config 60 0 GetProject (Inr ?ann) ?st) = Inr (RProject (project_view_of shared_db p ?ann d))"
    using d p by (simp add: handle_def require_role_def required_role_def get_project_route_def guarded_def authorize_def
        sample_user_def)
  have "may_build (pv_allowed (project_view_of shared_db p ?ann d))"
    using d(2) p files by (simp add: project_view_of_def actions_of_def Let_def)
  then show ?thesis
    using offered_actions_succeed [OF _ shown, where now' = 70 and files = "[]" and key = "''k9''"] shared_inv key closed
    by (simp add: sample_user_def text_between_def)
qed

end
