(* ===== verification/Evidence.thy ===== *)
theory Evidence
  imports Json Text_Points
begin

text \<open>
  The evidence of an answer (\<open>app/agent/models.py\<close> and \<open>_merge_evidence\<close> of
  \<open>app/agent/workflow.py\<close>): graph nodes, edges and paths from several normalized results of the
  graph client are merged, cut to the configured limits and given citations. The results are those
  of the two adapters, \<open>GraphSearchResult\<close> and \<open>GraphSubgraph\<close>
  (\<open>app/integrations/graphify/models.py\<close>), which have their items at the top level.
\<close>

section \<open>Data\<close>

datatype provenance = Explicit | Extracted | Inferred | Unknown

fun provenance_text :: "provenance \<Rightarrow> ustring" where
  "provenance_text Explicit = ascii ''explicit''"
| "provenance_text Extracted = ascii ''extracted''"
| "provenance_text Inferred = ascii ''inferred''"
| "provenance_text Unknown = ascii ''unknown''"

record graph_node =
  gn_id :: ustring
  gn_label :: ustring
  gn_type :: ustring
  gn_properties :: "(ustring \<times> nat json) list"
  gn_source :: "ustring option"
  gn_excerpt :: "ustring option"
  gn_provenance :: provenance

record graph_edge =
  ge_id :: ustring
  ge_source :: ustring
  ge_target :: ustring
  ge_relationship :: ustring
  ge_properties :: "(ustring \<times> nat json) list"
  ge_provenance :: provenance

record graph_path =
  gp_id :: ustring
  gp_node_ids :: "ustring list"
  gp_edge_ids :: "ustring list"

record citation =
  ct_id :: ustring
  ct_title :: ustring
  ct_source :: ustring
  ct_node_id :: "ustring option"
  ct_relationship :: "ustring option"
  ct_provenance :: provenance
  ct_excerpt :: "ustring option"
  ct_document :: "ustring option"
  ct_article :: "ustring option"
  ct_paragraph :: "ustring option"
  ct_start_line :: "int option"
  ct_end_line :: "int option"
  ct_page_number :: "int option"
  ct_section_path :: "ustring list option"

record evidence =
  ev_nodes :: "graph_node list"
  ev_edges :: "graph_edge list"
  ev_paths :: "graph_path list"

record graph_result =
  gr_nodes :: "graph_node list"
  gr_edges :: "graph_edge list"
  gr_paths :: "graph_path list"
  gr_citations :: "citation list"
  gr_warnings :: "ustring list"
  gr_version :: "ustring option"

record workflow_limits =
  max_tool_calls :: nat
  max_traversal_depth :: nat
  max_nodes :: nat
  max_edges :: nat
  max_evidence_bytes :: nat
  max_model_iterations :: nat
  max_history_turns :: nat
  max_history_characters :: nat

definition no_evidence :: evidence where
  "no_evidence = \<lparr>ev_nodes = [], ev_edges = [], ev_paths = []\<rparr>"

definition bare_citation :: "ustring \<Rightarrow> ustring \<Rightarrow> ustring \<Rightarrow> citation" where
  "bare_citation i title source =
     \<lparr>ct_id = i, ct_title = title, ct_source = source, ct_node_id = None, ct_relationship = None,
      ct_provenance = Unknown, ct_excerpt = None, ct_document = None, ct_article = None, ct_paragraph = None,
      ct_start_line = None, ct_end_line = None, ct_page_number = None, ct_section_path = None\<rparr>"

section \<open>Citations of a dictionary\<close>

text \<open>\<open>citations.setdefault(c.id, c)\<close> and \<open>citations[c.id] = c\<close>.\<close>

definition add_citation :: "citation \<Rightarrow> citation list \<Rightarrow> citation list" where
  "add_citation c cs = (if ct_id c \<in> ct_id ` set cs then cs else cs @ [c])"

definition put_citation :: "citation \<Rightarrow> citation list \<Rightarrow> citation list" where
  "put_citation c cs =
     (if ct_id c \<in> ct_id ` set cs then map (\<lambda>x. if ct_id x = ct_id c then c else x) cs else cs @ [c])"

section \<open>The encoded size\<close>

definition json_opt :: "ustring option \<Rightarrow> nat json" where
  "json_opt v = (case v of None \<Rightarrow> JNull | Some s \<Rightarrow> JText s)"

definition node_json :: "graph_node \<Rightarrow> nat json" where
  "node_json n = JObject
     [(ascii ''id'', JText (gn_id n)), (ascii ''label'', JText (gn_label n)), (ascii ''type'', JText (gn_type n)),
      (ascii ''properties'', JObject (gn_properties n)), (ascii ''source'', json_opt (gn_source n)),
      (ascii ''excerpt'', json_opt (gn_excerpt n)),
      (ascii ''provenance'', JText (provenance_text (gn_provenance n)))]"

definition edge_json :: "graph_edge \<Rightarrow> nat json" where
  "edge_json e = JObject
     [(ascii ''id'', JText (ge_id e)), (ascii ''sourceNodeId'', JText (ge_source e)),
      (ascii ''targetNodeId'', JText (ge_target e)), (ascii ''relationship'', JText (ge_relationship e)),
      (ascii ''properties'', JObject (ge_properties e)),
      (ascii ''provenance'', JText (provenance_text (ge_provenance e)))]"

definition path_json :: "graph_path \<Rightarrow> nat json" where
  "path_json p = JObject
     [(ascii ''id'', JText (gp_id p)), (ascii ''nodeIds'', JList (map JText (gp_node_ids p))),
      (ascii ''edgeIds'', JList (map JText (gp_edge_ids p)))]"

definition evidence_json :: "evidence \<Rightarrow> nat json" where
  "evidence_json ev = JObject
     [(ascii ''nodes'', JList (map node_json (ev_nodes ev))), (ascii ''edges'', JList (map edge_json (ev_edges ev))),
      (ascii ''paths'', JList (map path_json (ev_paths ev)))]"

type_synonym real_text = "int \<Rightarrow> nat \<Rightarrow> ustring"

definition encoded_size :: "real_text \<Rightarrow> evidence \<Rightarrow> nat" where
  "encoded_size real ev = length (dumps real (evidence_json ev))"

section \<open>Merging\<close>

fun merged_version :: "ustring option \<Rightarrow> graph_result list \<Rightarrow> ustring option" where
  "merged_version v [] = v"
| "merged_version v (r # rs) =
     merged_version (if v \<noteq> None \<and> v \<noteq> Some [] then v
                     else if gr_version r \<noteq> Some [] then gr_version r else None) rs"

definition limited_edges :: "nat \<Rightarrow> ustring set \<Rightarrow> graph_edge list \<Rightarrow> graph_edge list" where
  "limited_edges n allowed es = take n (filter (\<lambda>e. ge_source e \<in> allowed \<and> ge_target e \<in> allowed) es)"

definition limited_paths :: "ustring set \<Rightarrow> ustring set \<Rightarrow> graph_path list \<Rightarrow> graph_path list" where
  "limited_paths nodes edges ps =
     filter (\<lambda>p. set (gp_node_ids p) \<subseteq> nodes \<and> set (gp_edge_ids p) \<subseteq> edges) ps"

text \<open>The loop that gives a citation to each node without one.\<close>

definition node_citation :: "graph_node \<Rightarrow> citation" where
  "node_citation n =
     (bare_citation (ascii ''node:'' @ gn_id n) (gn_label n)
        (case gn_source n of Some s \<Rightarrow> if s = [] then ascii ''Graphify knowledge graph'' else s
           | None \<Rightarrow> ascii ''Graphify knowledge graph''))
      \<lparr>ct_node_id := Some (gn_id n), ct_provenance := gn_provenance n, ct_excerpt := gn_excerpt n\<rparr>"

definition cite_node :: "graph_node \<Rightarrow> citation list \<Rightarrow> citation list" where
  "cite_node n cs =
     (if \<exists>c\<in>set cs. ct_node_id c = Some (gn_id n) then cs else add_citation (node_citation n) cs)"

lemma node_citation_simps [simp]:
  "ct_id (node_citation n) = ascii ''node:'' @ gn_id n" "ct_node_id (node_citation n) = Some (gn_id n)"
  by (simp_all add: node_citation_def bare_citation_def)

text \<open>One round of the loop that drops nodes from the end, and the loop.\<close>

definition drop_node :: "graph_node \<Rightarrow> evidence \<Rightarrow> evidence" where
  "drop_node n ev =
     \<lparr>ev_nodes = butlast (ev_nodes ev),
      ev_edges = filter (\<lambda>e. ge_source e \<noteq> gn_id n \<and> ge_target e \<noteq> gn_id n) (ev_edges ev),
      ev_paths = filter (\<lambda>p. gn_id n \<notin> set (gp_node_ids p)) (ev_paths ev)\<rparr>"

function shrink :: "real_text \<Rightarrow> nat \<Rightarrow> evidence \<Rightarrow> citation list \<Rightarrow> evidence \<times> citation list" where
  "shrink real limit ev cs =
     (if limit < encoded_size real ev \<and> ev_nodes ev \<noteq> [] then
        let removed = last (ev_nodes ev)
        in shrink real limit (drop_node removed ev) (filter (\<lambda>c. ct_node_id c \<noteq> Some (gn_id removed)) cs)
      else (ev, cs))"
  by pat_completeness auto
termination
  by (relation "measure (\<lambda>(real, limit, ev, cs). length (ev_nodes ev))") (auto simp: drop_node_def)

declare shrink.simps [simp del]

text \<open>Looking up a label raises for a node that is not there.\<close>

definition node_label :: "evidence \<Rightarrow> ustring \<Rightarrow> ustring option" where
  "node_label ev i = map_of (rev (map (\<lambda>n. (gn_id n, gn_label n)) (ev_nodes ev))) i"

definition edge_citation :: "evidence \<Rightarrow> graph_edge \<Rightarrow> citation option" where
  "edge_citation ev e =
     (case (node_label ev (ge_source e), node_label ev (ge_target e)) of
        (Some s, Some t) \<Rightarrow> Some
          ((bare_citation (ascii ''edge:'' @ ge_id e) (s @ [32, 8212] @ ge_relationship e @ [8594, 32] @ t)
              (ascii ''Graphify knowledge graph''))
            \<lparr>ct_relationship := Some (ge_relationship e), ct_provenance := ge_provenance e,
             ct_excerpt := json_text (member (ge_properties e) (ascii ''context''))\<rparr>)
      | _ \<Rightarrow> None)"

definition path_citation :: "evidence \<Rightarrow> graph_path \<Rightarrow> citation option" where
  "path_citation ev p =
     (case those (map (node_label ev) (gp_node_ids p)) of
        None \<Rightarrow> None
      | Some labels \<Rightarrow> Some
          ((bare_citation (ascii ''path:'' @ gp_id p) (join_text [32, 8594, 32] labels)
              (ascii ''Graphify knowledge graph''))
            \<lparr>ct_relationship := Some (ascii ''graph_path'')\<rparr>))"

fun put_all :: "citation option list \<Rightarrow> citation list \<Rightarrow> citation list option" where
  "put_all [] cs = Some cs"
| "put_all (None # os) cs = None"
| "put_all (Some c # os) cs = put_all os (put_citation c cs)"

definition merged_nodes :: "graph_result list \<Rightarrow> graph_node list" where
  "merged_nodes rs = first_by gn_id (concat (map gr_nodes rs))"

definition merged_edges :: "graph_result list \<Rightarrow> graph_edge list" where
  "merged_edges rs = first_by ge_id (concat (map gr_edges rs))"

text \<open>The evidence within the limits on nodes and edges, and the citations of its nodes.\<close>

definition bounded_evidence :: "workflow_limits \<Rightarrow> graph_result list \<Rightarrow> evidence" where
  "bounded_evidence limits rs =
     (let nodes = take (max_nodes limits) (merged_nodes rs);
          edges = limited_edges (max_edges limits) (gn_id ` set nodes) (merged_edges rs)
      in \<lparr>ev_nodes = nodes, ev_edges = edges,
          ev_paths = limited_paths (gn_id ` set nodes) (ge_id ` set edges)
            (first_by gp_id (concat (map gr_paths rs)))\<rparr>)"

definition bounded_citations :: "evidence \<Rightarrow> graph_result list \<Rightarrow> citation list" where
  "bounded_citations ev rs =
     fold cite_node (ev_nodes ev)
       (filter (\<lambda>c. case ct_node_id c of None \<Rightarrow> False | Some i \<Rightarrow> i \<in> gn_id ` set (ev_nodes ev))
         (first_by ct_id (concat (map gr_citations rs))))"

definition merge_warnings :: "evidence \<Rightarrow> graph_result list \<Rightarrow> ustring list" where
  "merge_warnings ev rs =
     concat (map gr_warnings rs) @
     (if length (ev_nodes ev) < length (merged_nodes rs) \<or> length (ev_edges ev) < length (merged_edges rs)
      then [ascii ''Graph evidence was truncated to configured limits.''] else [])"

definition fitted :: "real_text \<Rightarrow> workflow_limits \<Rightarrow> graph_result list \<Rightarrow> evidence \<times> citation list" where
  "fitted real limits rs =
     (let ev0 = bounded_evidence limits rs;
          (ev, cs) = shrink real (max_evidence_bytes limits) ev0 (bounded_citations ev0 rs)
      in if max_evidence_bytes limits < encoded_size real ev then (no_evidence, []) else (ev, cs))"

definition merge_evidence ::
  "real_text \<Rightarrow> workflow_limits \<Rightarrow> graph_result list \<Rightarrow>
     (evidence \<times> citation list \<times> ustring option \<times> ustring list) option"
where
  "merge_evidence real limits rs =
     (case fitted real limits rs of
        (ev, cs) \<Rightarrow>
          (case put_all (map (edge_citation ev) (ev_edges ev) @ map (path_citation ev) (ev_paths ev)) cs of
             None \<Rightarrow> None
           | Some cs' \<Rightarrow> Some (ev, cs', merged_version None rs,
               unique (merge_warnings (bounded_evidence limits rs) rs))))"

section \<open>Lemmas\<close>

text \<open>Closed evidence: its edges and paths run between its own nodes.\<close>

definition closed :: "evidence \<Rightarrow> bool" where
  "closed ev \<longleftrightarrow> distinct (map gn_id (ev_nodes ev)) \<and>
     (\<forall>e\<in>set (ev_edges ev). ge_source e \<in> gn_id ` set (ev_nodes ev) \<and> ge_target e \<in> gn_id ` set (ev_nodes ev)) \<and>
     (\<forall>p\<in>set (ev_paths ev). set (gp_node_ids p) \<subseteq> gn_id ` set (ev_nodes ev))"

text \<open>Citations of nodes are of nodes in the evidence, and identifiers are not used twice.\<close>

definition cites :: "evidence \<Rightarrow> citation list \<Rightarrow> bool" where
  "cites ev cs \<longleftrightarrow> distinct (map ct_id cs) \<and>
     (\<forall>c\<in>set cs. case ct_node_id c of None \<Rightarrow> True | Some i \<Rightarrow> i \<in> gn_id ` set (ev_nodes ev))"

lemma closed_bounded: "closed (bounded_evidence limits rs)"
proof -
  have "distinct (map gn_id (take n (merged_nodes rs)))" for n
    unfolding take_map [symmetric] merged_nodes_def by (rule distinct_take) (rule first_by_distinct)
  then show ?thesis
    by (auto simp: closed_def bounded_evidence_def Let_def limited_edges_def limited_paths_def dest: in_set_takeD)
qed

lemma last_not_butlast:
  "distinct (map f xs) \<Longrightarrow> xs \<noteq> [] \<Longrightarrow> f ` set (butlast xs) = f ` set xs - {f (last xs)}"
  by (induction xs rule: rev_induct) auto

lemma closed_drop:
  assumes "closed ev" "ev_nodes ev \<noteq> []"
  shows "closed (drop_node (last (ev_nodes ev)) ev)"
proof -
  have "distinct (map gn_id (butlast (ev_nodes ev)))"
    using assms distinct_butlast [of "map gn_id (ev_nodes ev)"] by (simp add: closed_def map_butlast)
  then show ?thesis
    using assms by (auto simp: closed_def drop_node_def last_not_butlast)
qed

lemma cites_drop:
  assumes "closed ev" "cites ev cs" "ev_nodes ev \<noteq> []"
  shows "cites (drop_node (last (ev_nodes ev)) ev) (filter (\<lambda>c. ct_node_id c \<noteq> Some (gn_id (last (ev_nodes ev)))) cs)"
  using assms
  by (auto simp: cites_def drop_node_def closed_def last_not_butlast distinct_map_filter split: option.splits)

lemma cites_add:
  assumes "cites ev cs" "case ct_node_id c of None \<Rightarrow> True | Some i \<Rightarrow> i \<in> gn_id ` set (ev_nodes ev)"
  shows "cites ev (add_citation c cs)"
  using assms by (auto simp: cites_def add_citation_def)

lemma cites_put:
  assumes "cites ev cs" "ct_node_id c = None"
  shows "cites ev (put_citation c cs)"
proof -
  have "map ct_id (map (\<lambda>x. if ct_id x = ct_id c then c else x) cs) = map ct_id cs" by simp
  then have "distinct (map ct_id (map (\<lambda>x. if ct_id x = ct_id c then c else x) cs))"
    using assms(1) by (simp only: cites_def)
  then show ?thesis using assms by (auto simp: cites_def put_citation_def split: option.splits)
qed

lemma cites_fold:
  "cites ev cs \<Longrightarrow> set ns \<subseteq> set (ev_nodes ev) \<Longrightarrow> cites ev (fold cite_node ns cs)"
proof (induction ns arbitrary: cs)
  case (Cons n ns)
  have "cites ev (cite_node n cs)"
    using Cons.prems by (auto simp: cite_node_def intro!: cites_add)
  then show ?case using Cons by simp
qed simp

lemma cites_bounded: "cites ev (bounded_citations ev rs)"
proof -
  let ?P = "\<lambda>c. case ct_node_id c of None \<Rightarrow> False | Some i \<Rightarrow> i \<in> gn_id ` set (ev_nodes ev)"
  have "distinct (map ct_id (filter ?P (first_by ct_id (concat (map gr_citations rs)))))"
    by (rule distinct_map_filter) (rule first_by_distinct)
  then have "cites ev (filter ?P (first_by ct_id (concat (map gr_citations rs))))"
    by (auto simp: cites_def split: option.splits)
  then show ?thesis unfolding bounded_citations_def by (rule cites_fold) simp
qed

lemma shrink_result:
  "shrink real limit ev cs = (ev', cs') \<Longrightarrow> closed ev \<Longrightarrow> cites ev cs \<Longrightarrow>
     closed ev' \<and> cites ev' cs' \<and> (\<exists>k. ev_nodes ev' = take k (ev_nodes ev)) \<and>
     set (ev_edges ev') \<subseteq> set (ev_edges ev) \<and> length (ev_edges ev') \<le> length (ev_edges ev) \<and>
     (encoded_size real ev' \<le> limit \<or> ev_nodes ev' = [])"
proof (induction real limit ev cs rule: shrink.induct)
  case (1 real limit ev cs)
  show ?case
  proof (cases "limit < encoded_size real ev \<and> ev_nodes ev \<noteq> []")
    case True
    let ?n = "last (ev_nodes ev)"
    let ?ev = "drop_node ?n ev"
    let ?cs = "filter (\<lambda>c. ct_node_id c \<noteq> Some (gn_id ?n)) cs"
    have "shrink real limit ?ev ?cs = (ev', cs')"
      using "1.prems"(1) True by (subst (asm) shrink.simps) (simp add: Let_def)
    from "1.IH" [OF True refl this closed_drop cites_drop] "1.prems"(2,3) True
    have ih: "closed ev' \<and> cites ev' cs' \<and> (\<exists>k. ev_nodes ev' = take k (ev_nodes ?ev)) \<and>
      set (ev_edges ev') \<subseteq> set (ev_edges ?ev) \<and> length (ev_edges ev') \<le> length (ev_edges ?ev) \<and>
      (encoded_size real ev' \<le> limit \<or> ev_nodes ev' = [])" by blast
    have "ev_nodes ?ev = take (length (ev_nodes ev) - 1) (ev_nodes ev)" by (simp add: drop_node_def butlast_conv_take)
    moreover have "length (ev_edges ?ev) \<le> length (ev_edges ev)" "set (ev_edges ?ev) \<subseteq> set (ev_edges ev)"
      by (auto simp: drop_node_def)
    ultimately show ?thesis using ih by (metis le_trans subset_trans take_take)
  next
    case False
    then have "shrink real limit ev cs = (ev, cs)" by (subst shrink.simps) auto
    then have "ev' = ev" "cs' = cs" using "1.prems"(1) by auto
    moreover have "\<exists>k. ev_nodes ev = take k (ev_nodes ev)" by (rule exI [of _ "length (ev_nodes ev)"]) simp
    ultimately show ?thesis using "1.prems" False by auto
  qed
qed

lemma closed_empty [simp]: "closed no_evidence" "cites no_evidence []"
  by (simp_all add: closed_def cites_def no_evidence_def)

lemma node_label_ex:
  "i \<in> gn_id ` set (ev_nodes ev) \<Longrightarrow> \<exists>l. node_label ev i = Some l"
proof -
  assume i: "i \<in> gn_id ` set (ev_nodes ev)"
  have "fst ` set (rev (map (\<lambda>n. (gn_id n, gn_label n)) (ev_nodes ev))) = gn_id ` set (ev_nodes ev)"
    by (simp add: image_image)
  with i have "node_label ev i \<noteq> None" unfolding node_label_def map_of_eq_None_iff by simp
  then show ?thesis by simp
qed

lemma edge_citation_ex:
  assumes "closed ev" "e \<in> set (ev_edges ev)"
  shows "\<exists>c. edge_citation ev e = Some c \<and> ct_node_id c = None \<and> ct_id c = ascii ''edge:'' @ ge_id e"
proof -
  obtain s t where "node_label ev (ge_source e) = Some s" "node_label ev (ge_target e) = Some t"
    using assms node_label_ex by (metis closed_def)
  then show ?thesis by (simp add: edge_citation_def bare_citation_def)
qed

lemma those_ex: "(\<And>x. x \<in> set xs \<Longrightarrow> \<exists>y. f x = Some y) \<Longrightarrow> \<exists>ys. those (map f xs) = Some ys"
  by (induction xs) (simp, fastforce)

lemma path_citation_ex:
  assumes "closed ev" "p \<in> set (ev_paths ev)"
  shows "\<exists>c. path_citation ev p = Some c \<and> ct_node_id c = None \<and> ct_id c = ascii ''path:'' @ gp_id p"
proof -
  have "\<exists>l. node_label ev i = Some l" if "i \<in> set (gp_node_ids p)" for i
    using that assms by (intro node_label_ex) (auto simp: closed_def)
  from those_ex [where f = "node_label ev" and xs = "gp_node_ids p", OF this] obtain ls where "those (map (node_label ev) (gp_node_ids p)) = Some ls" by blast
  then show ?thesis by (simp add: path_citation_def bare_citation_def)
qed

lemma put_all_ok:
  assumes "cites ev cs" "\<forall>x\<in>set os. \<exists>c. x = Some c \<and> ct_node_id c = None"
  shows "\<exists>cs'. put_all os cs = Some cs' \<and> cites ev cs' \<and> ct_id ` set cs \<subseteq> ct_id ` set cs' \<and>
    (\<forall>c. Some c \<in> set os \<longrightarrow> ct_id c \<in> ct_id ` set cs')"
  using assms
proof (induction os arbitrary: cs)
  case (Cons x os)
  then obtain c where x: "x = Some c" "ct_node_id c = None" by auto
  have ids: "ct_id ` set (put_citation c cs) = insert (ct_id c) (ct_id ` set cs)"
    by (auto simp: put_citation_def image_iff split: if_splits)
  from Cons.IH [OF cites_put [OF Cons.prems(1) x(2)]] Cons.prems(2) obtain cs'
    where "put_all os (put_citation c cs) = Some cs'" "cites ev cs'"
      "ct_id ` set (put_citation c cs) \<subseteq> ct_id ` set cs'" "\<forall>c. Some c \<in> set os \<longrightarrow> ct_id c \<in> ct_id ` set cs'"
    by auto
  then show ?case using ids x by auto
qed auto

lemma fitted_ok:
  assumes "fitted real limits rs = (ev, cs)"
  shows "closed ev \<and> cites ev cs \<and> (\<exists>k\<le>max_nodes limits. ev_nodes ev = take k (merged_nodes rs)) \<and>
    length (ev_edges ev) \<le> max_edges limits \<and> set (ev_edges ev) \<subseteq> set (merged_edges rs) \<and>
    (encoded_size real ev \<le> max_evidence_bytes limits \<or> ev = no_evidence)"
proof -
  let ?ev0 = "bounded_evidence limits rs"
  obtain ev1 cs1 where shrunk: "shrink real (max_evidence_bytes limits) ?ev0 (bounded_citations ?ev0 rs) = (ev1, cs1)"
    by fastforce
  note res = shrink_result [OF shrunk closed_bounded cites_bounded]
  have edges: "length (ev_edges ?ev0) \<le> max_edges limits" "set (ev_edges ?ev0) \<subseteq> set (merged_edges rs)"
    by (auto simp: bounded_evidence_def Let_def limited_edges_def dest: in_set_takeD)
  have nodes: "\<exists>k\<le>max_nodes limits. ev_nodes ev1 = take k (merged_nodes rs)"
  proof -
    obtain k where "ev_nodes ev1 = take k (ev_nodes ?ev0)" using res by blast
    then have "ev_nodes ev1 = take (min k (max_nodes limits)) (merged_nodes rs)"
      by (simp add: bounded_evidence_def Let_def)
    then show ?thesis by (intro exI [of _ "min k (max_nodes limits)"]) simp
  qed
  show ?thesis
  proof (cases "max_evidence_bytes limits < encoded_size real ev1")
    case True
    then have "ev = no_evidence" "cs = []" using assms shrunk by (auto simp: fitted_def Let_def)
    then show ?thesis by (simp add: no_evidence_def [symmetric]) (simp add: no_evidence_def, rule exI [of _ 0], simp)
  next
    case False
    then have "ev = ev1" "cs = cs1" using assms shrunk by (auto simp: fitted_def Let_def)
    then show ?thesis using res nodes edges False by auto
  qed
qed

text \<open>
  Where citations come from and which nodes have one. \<open>supplied\<close> are the citations of the results.
\<close>

definition supplied :: "graph_result list \<Rightarrow> citation set" where
  "supplied rs = {c. \<exists>r\<in>set rs. c \<in> set (gr_citations r)}"

definition node_sourced :: "graph_result list \<Rightarrow> evidence \<Rightarrow> citation list \<Rightarrow> bool" where
  "node_sourced rs ev cs \<longleftrightarrow>
     (\<forall>c\<in>set cs. (\<exists>n\<in>set (ev_nodes ev). ct_node_id c = Some (gn_id n)) \<and>
        (c \<in> supplied rs \<or> (\<exists>n\<in>set (ev_nodes ev). c = node_citation n)))"

text \<open>The identifier of the citation that a node would get is in use for another node.\<close>

definition id_taken :: "graph_result list \<Rightarrow> graph_node \<Rightarrow> bool" where
  "id_taken rs n \<longleftrightarrow> (\<exists>c\<in>supplied rs. ct_id c = ascii ''node:'' @ gn_id n \<and> ct_node_id c \<noteq> Some (gn_id n))"

definition nodes_cited :: "graph_result list \<Rightarrow> graph_node list \<Rightarrow> citation list \<Rightarrow> bool" where
  "nodes_cited rs ns cs \<longleftrightarrow> (\<forall>n\<in>set ns. (\<exists>c\<in>set cs. ct_node_id c = Some (gn_id n)) \<or> id_taken rs n)"

lemma nodes_cited_mono: "nodes_cited rs ns cs \<Longrightarrow> set cs \<subseteq> set cs' \<Longrightarrow> nodes_cited rs ns cs'"
  by (fastforce simp: nodes_cited_def)

lemma cite_node_sourced:
  "node_sourced rs ev cs \<Longrightarrow> n \<in> set (ev_nodes ev) \<Longrightarrow> node_sourced rs ev (cite_node n cs)"
  by (auto simp: node_sourced_def cite_node_def add_citation_def)

lemma cite_node_cites:
  assumes "node_sourced rs ev cs"
  shows "nodes_cited rs [n] (cite_node n cs)" "set cs \<subseteq> set (cite_node n cs)"
proof -
  show "set cs \<subseteq> set (cite_node n cs)" by (auto simp: cite_node_def add_citation_def)
  have "id_taken rs n" if c: "c \<in> set cs" "ct_id c = ascii ''node:'' @ gn_id n" "ct_node_id c \<noteq> Some (gn_id n)" for c
  proof -
    have "c \<noteq> node_citation m" for m using c(2,3) by (auto simp: ascii_def)
    then have "c \<in> supplied rs" using assms c(1) by (auto simp: node_sourced_def)
    with c show ?thesis by (auto simp: id_taken_def)
  qed
  then show "nodes_cited rs [n] (cite_node n cs)"
    by (auto simp: nodes_cited_def cite_node_def add_citation_def)
qed

lemma fold_cite_node:
  "node_sourced rs ev cs \<Longrightarrow> set ns \<subseteq> set (ev_nodes ev) \<Longrightarrow>
     node_sourced rs ev (fold cite_node ns cs) \<and> nodes_cited rs ns (fold cite_node ns cs) \<and>
     set cs \<subseteq> set (fold cite_node ns cs)"
proof (induction ns arbitrary: cs)
  case (Cons n ns)
  have s: "node_sourced rs ev (cite_node n cs)" using cite_node_sourced Cons.prems by simp
  note ih = Cons.IH [OF s] and one = cite_node_cites [OF Cons.prems(1), of n]
  have "nodes_cited rs [n] (fold cite_node ns (cite_node n cs))"
    by (rule nodes_cited_mono [OF one(1)]) (use ih Cons.prems in simp)
  then show ?case using ih one(2) Cons.prems by (fastforce simp: nodes_cited_def)
qed (simp add: nodes_cited_def)

lemma bounded_cited:
  "node_sourced rs ev (bounded_citations ev rs) \<and> nodes_cited rs (ev_nodes ev) (bounded_citations ev rs)"
proof -
  have "node_sourced rs ev (filter (\<lambda>c. case ct_node_id c of None \<Rightarrow> False | Some i \<Rightarrow> i \<in> gn_id ` set (ev_nodes ev))
      (first_by ct_id (concat (map gr_citations rs))))"
    using first_by_set [of ct_id "concat (map gr_citations rs)"]
    by (auto simp: node_sourced_def supplied_def split: option.splits)
  from fold_cite_node [OF this, of "ev_nodes ev"] show ?thesis by (simp add: bounded_citations_def)
qed

lemma shrink_cited:
  "shrink real limit ev cs = (ev', cs') \<Longrightarrow> closed ev \<Longrightarrow> node_sourced rs ev cs \<Longrightarrow>
     nodes_cited rs (ev_nodes ev) cs \<Longrightarrow> node_sourced rs ev' cs' \<and> nodes_cited rs (ev_nodes ev') cs'"
proof (induction real limit ev cs rule: shrink.induct)
  case (1 real limit ev cs)
  show ?case
  proof (cases "limit < encoded_size real ev \<and> ev_nodes ev \<noteq> []")
    case True
    let ?n = "last (ev_nodes ev)"
    let ?ev = "drop_node ?n ev"
    let ?cs = "filter (\<lambda>c. ct_node_id c \<noteq> Some (gn_id ?n)) cs"
    have step: "shrink real limit ?ev ?cs = (ev', cs')"
      using "1.prems"(1) True by (subst (asm) shrink.simps) (simp add: Let_def)
    have d: "distinct (map gn_id (ev_nodes ev))" "ev_nodes ev \<noteq> []" using "1.prems"(2) True by (simp_all add: closed_def)
    have kept: "m \<in> set (ev_nodes ?ev) \<longleftrightarrow> m \<in> set (ev_nodes ev) \<and> gn_id m \<noteq> gn_id ?n" for m
    proof -
      have split: "ev_nodes ev = butlast (ev_nodes ev) @ [?n]" using d(2) by simp
      have "gn_id ?n \<notin> gn_id ` set (butlast (ev_nodes ev))"
        using d(1) by (subst (asm) split) simp
      moreover have "set (ev_nodes ev) = insert ?n (set (butlast (ev_nodes ev)))"
        using arg_cong [OF split, of set] by simp
      ultimately show ?thesis unfolding drop_node_def evidence.simps by (metis image_eqI insert_iff)
    qed
    have "node_sourced rs ?ev ?cs" using "1.prems"(3) by (fastforce simp: node_sourced_def kept)
    moreover have "nodes_cited rs (ev_nodes ?ev) ?cs" using "1.prems"(4) by (fastforce simp: nodes_cited_def kept)
    ultimately show ?thesis using "1.IH" [OF True refl step closed_drop] "1.prems"(2) True by blast
  next
    case False
    then have "shrink real limit ev cs = (ev, cs)" by (subst shrink.simps) auto
    then show ?thesis using "1.prems" by auto
  qed
qed

lemma fitted_cited:
  assumes "fitted real limits rs = (ev, cs)"
  shows "node_sourced rs ev cs \<and> nodes_cited rs (ev_nodes ev) cs"
proof -
  let ?ev0 = "bounded_evidence limits rs"
  obtain ev1 cs1 where shrunk: "shrink real (max_evidence_bytes limits) ?ev0 (bounded_citations ?ev0 rs) = (ev1, cs1)"
    by fastforce
  have "node_sourced rs ev1 cs1 \<and> nodes_cited rs (ev_nodes ev1) cs1"
    using shrink_cited [OF shrunk closed_bounded] bounded_cited by blast
  then show ?thesis using assms shrunk
    by (auto simp: fitted_def Let_def no_evidence_def node_sourced_def nodes_cited_def split: if_splits)
qed

text \<open>A citation of an edge or a path takes the place of one with the same identifier.\<close>

lemma put_all_members:
  "put_all os cs = Some cs' \<Longrightarrow>
     set cs' \<subseteq> set cs \<union> {c. Some c \<in> set os} \<and>
     (\<forall>c\<in>set cs. c \<in> set cs' \<or> (\<exists>d. Some d \<in> set os \<and> ct_id d = ct_id c))"
proof (induction os arbitrary: cs)
  case (Cons x os)
  then obtain c where x: "x = Some c" by (cases x) auto
  have ih: "set cs' \<subseteq> set (put_citation c cs) \<union> {c. Some c \<in> set os} \<and>
     (\<forall>b\<in>set (put_citation c cs). b \<in> set cs' \<or> (\<exists>d. Some d \<in> set os \<and> ct_id d = ct_id b))"
    using Cons x by simp
  have "set (put_citation c cs) \<subseteq> insert c (set cs)" "\<forall>b\<in>set cs. b \<in> set (put_citation c cs) \<or> ct_id b = ct_id c"
    by (auto simp: put_citation_def)
  with ih x show ?case by (auto simp: subset_iff) metis+
qed simp

lemma merge_cited:
  assumes "merge_evidence real limits rs = Some (ev, cs, v, ws)" "n \<in> set (ev_nodes ev)"
  shows "(\<exists>c\<in>set cs. ct_node_id c = Some (gn_id n)) \<or>
    (\<exists>r\<in>set rs. \<exists>c\<in>set (gr_citations r).
       ct_id c = ascii ''node:'' @ gn_id n \<and> ct_node_id c \<noteq> Some (gn_id n) \<or>
       ct_node_id c = Some (gn_id n) \<and>
         (\<exists>e\<in>set (ev_edges ev). ct_id c = ascii ''edge:'' @ ge_id e) \<or>
       ct_node_id c = Some (gn_id n) \<and>
         (\<exists>p\<in>set (ev_paths ev). ct_id c = ascii ''path:'' @ gp_id p))"
proof -
  obtain ev0 cs0 where fit: "fitted real limits rs = (ev0, cs0)" by fastforce
  let ?os = "map (edge_citation ev) (ev_edges ev) @ map (path_citation ev) (ev_paths ev)"
  have ev: "ev0 = ev" and put: "put_all ?os cs0 = Some cs"
    using assms(1) by (auto simp: merge_evidence_def fit split: option.splits)
  have closed: "closed ev" using fitted_ok [OF fit] ev by blast
  note cited = fitted_cited [OF fit, unfolded ev]
  note kept = conjunct2 [OF put_all_members [OF put]]
  consider c where "c \<in> set cs0" "ct_node_id c = Some (gn_id n)" | "id_taken rs n"
    using cited assms(2) by (auto simp: nodes_cited_def)
  then show ?thesis
  proof cases
    case (1 c)
    show ?thesis
    proof (cases "c \<in> set cs")
      case False
      then obtain d where d: "Some d \<in> set ?os" "ct_id d = ct_id c" using kept 1 by blast
      have ids: "(\<exists>e\<in>set (ev_edges ev). ct_id c = ascii ''edge:'' @ ge_id e) \<or>
          (\<exists>p\<in>set (ev_paths ev). ct_id c = ascii ''path:'' @ gp_id p)"
      proof -
        from d(1) consider e where "e \<in> set (ev_edges ev)" "edge_citation ev e = Some d"
          | p where "p \<in> set (ev_paths ev)" "path_citation ev p = Some d" by auto
        then show ?thesis
        proof cases
          case (1 e)
          with edge_citation_ex [OF closed 1(1)] d(2) show ?thesis by auto
        next
          case (2 p)
          with path_citation_ex [OF closed 2(1)] d(2) show ?thesis by auto
        qed
      qed
      then have "c \<noteq> node_citation m" for m by (auto simp: ascii_def)
      then have "c \<in> supplied rs" using cited 1 by (auto simp: node_sourced_def)
      then show ?thesis using ids 1 by (auto simp: supplied_def)
    qed (use 1 in auto)
  qed (auto simp: id_taken_def supplied_def)
qed

lemma merge_sources:
  assumes "merge_evidence real limits rs = Some (ev, cs, v, ws)" "c \<in> set cs"
  shows "(\<exists>r\<in>set rs. c \<in> set (gr_citations r) \<and> (\<exists>n\<in>set (ev_nodes ev). ct_node_id c = Some (gn_id n))) \<or>
    (\<exists>n\<in>set (ev_nodes ev). c = node_citation n) \<or>
    (\<exists>e\<in>set (ev_edges ev). edge_citation ev e = Some c) \<or>
    (\<exists>p\<in>set (ev_paths ev). path_citation ev p = Some c)"
proof -
  obtain ev0 cs0 where fit: "fitted real limits rs = (ev0, cs0)" by fastforce
  let ?os = "map (edge_citation ev) (ev_edges ev) @ map (path_citation ev) (ev_paths ev)"
  have ev: "ev0 = ev" and put: "put_all ?os cs0 = Some cs"
    using assms(1) by (auto simp: merge_evidence_def fit split: option.splits)
  have "c \<in> set cs0 \<or> Some c \<in> set ?os" using put_all_members [OF put] assms(2) by auto
  moreover have "(\<exists>n\<in>set (ev_nodes ev). ct_node_id c = Some (gn_id n)) \<and>
      (c \<in> supplied rs \<or> (\<exists>n\<in>set (ev_nodes ev). c = node_citation n))" if "c \<in> set cs0"
    using fitted_cited [OF fit] that ev by (auto simp: node_sourced_def)
  ultimately show ?thesis unfolding supplied_def by (auto simp: image_iff)
qed

text \<open>
  C21. The evidence of an answer is closed, bounded and cited. Merging never raises: it keeps a
  prefix of the nodes in their order of appearance within the limits on nodes, edges and bytes;
  every edge and every path runs between nodes that are kept; no identifier is cited twice; every
  citation is one that a result gave for a kept node, or the citation made of a kept node, edge or
  path; every kept edge and path has its citation, and every kept node has one that names it, unless
  a result used its identifier \<open>node:<id>\<close> for something else or gave the citation of the node the
  identifier of an edge or a path.
\<close>

theorem evidence_closed:
  "\<exists>ev cs v ws. merge_evidence real limits rs = Some (ev, cs, v, ws) \<and>
     (\<exists>k\<le>max_nodes limits. ev_nodes ev = take k (merged_nodes rs)) \<and>
     length (ev_edges ev) \<le> max_edges limits \<and>
     (encoded_size real ev \<le> max_evidence_bytes limits \<or> ev = no_evidence) \<and>
     distinct (map gn_id (ev_nodes ev)) \<and>
     list_all (\<lambda>e. ge_source e \<in> gn_id ` set (ev_nodes ev) \<and> ge_target e \<in> gn_id ` set (ev_nodes ev)) (ev_edges ev) \<and>
     list_all (\<lambda>p. set (gp_node_ids p) \<subseteq> gn_id ` set (ev_nodes ev)) (ev_paths ev) \<and>
     distinct (map ct_id cs) \<and>
     list_all (\<lambda>c. case ct_node_id c of None \<Rightarrow> True | Some i \<Rightarrow> i \<in> gn_id ` set (ev_nodes ev)) cs \<and>
     list_all (\<lambda>c.
       (\<exists>r\<in>set rs. c \<in> set (gr_citations r) \<and> (\<exists>n\<in>set (ev_nodes ev). ct_node_id c = Some (gn_id n))) \<or>
       (\<exists>n\<in>set (ev_nodes ev). c = node_citation n) \<or>
       (\<exists>e\<in>set (ev_edges ev). edge_citation ev e = Some c) \<or>
       (\<exists>p\<in>set (ev_paths ev). path_citation ev p = Some c)) cs \<and>
     list_all (\<lambda>e. ascii ''edge:'' @ ge_id e \<in> ct_id ` set cs) (ev_edges ev) \<and>
     list_all (\<lambda>p. ascii ''path:'' @ gp_id p \<in> ct_id ` set cs) (ev_paths ev) \<and>
     list_all (\<lambda>n. (\<exists>c\<in>set cs. ct_node_id c = Some (gn_id n)) \<or>
       (\<exists>r\<in>set rs. \<exists>c\<in>set (gr_citations r).
          ct_id c = ascii ''node:'' @ gn_id n \<and> ct_node_id c \<noteq> Some (gn_id n) \<or>
          ct_node_id c = Some (gn_id n) \<and>
            (\<exists>e\<in>set (ev_edges ev). ct_id c = ascii ''edge:'' @ ge_id e) \<or>
          ct_node_id c = Some (gn_id n) \<and>
            (\<exists>p\<in>set (ev_paths ev). ct_id c = ascii ''path:'' @ gp_id p))) (ev_nodes ev)"
proof -
  obtain ev cs where fit: "fitted real limits rs = (ev, cs)" by fastforce
  note ok = fitted_ok [OF fit]
  let ?os = "map (edge_citation ev) (ev_edges ev) @ map (path_citation ev) (ev_paths ev)"
  have closed: "closed ev" and cited: "cites ev cs" using ok by blast+
  have "\<forall>x\<in>set ?os. \<exists>c. x = Some c \<and> ct_node_id c = None"
    using edge_citation_ex [OF closed] path_citation_ex [OF closed] by fastforce
  from put_all_ok [OF cited this] obtain cs' where put: "put_all ?os cs = Some cs'" "cites ev cs'"
      "\<forall>c. Some c \<in> set ?os \<longrightarrow> ct_id c \<in> ct_id ` set cs'" by blast
  have edges: "\<forall>e\<in>set (ev_edges ev). ascii ''edge:'' @ ge_id e \<in> ct_id ` set cs'"
  proof
    fix e assume e: "e \<in> set (ev_edges ev)"
    then obtain c where c: "edge_citation ev e = Some c" "ct_id c = ascii ''edge:'' @ ge_id e"
      using edge_citation_ex [OF closed] by blast
    have "Some c \<in> set ?os" using e c(1) by (auto simp: image_iff intro: bexI [of _ e])
    then show "ascii ''edge:'' @ ge_id e \<in> ct_id ` set cs'" using put(3) c(2) by metis
  qed
  have paths: "\<forall>p\<in>set (ev_paths ev). ascii ''path:'' @ gp_id p \<in> ct_id ` set cs'"
  proof
    fix p assume p: "p \<in> set (ev_paths ev)"
    then obtain c where c: "path_citation ev p = Some c" "ct_id c = ascii ''path:'' @ gp_id p"
      using path_citation_ex [OF closed] by blast
    have "Some c \<in> set ?os" using p c(1) by (auto simp: image_iff intro: bexI [of _ p])
    then show "ascii ''path:'' @ gp_id p \<in> ct_id ` set cs'" using put(3) c(2) by metis
  qed
  let ?ws = "unique (merge_warnings (bounded_evidence limits rs) rs)"
  have merged: "merge_evidence real limits rs = Some (ev, cs', merged_version None rs, ?ws)"
    by (simp add: merge_evidence_def fit put(1))
  note facts = ok put(2) closed edges paths
  show ?thesis
    unfolding list_all_iff
    by (rule exI [of _ ev], rule exI [of _ cs'], rule exI [of _ "merged_version None rs"], rule exI [of _ ?ws],
        intro conjI ballI merged merge_cited [OF merged] merge_sources [OF merged])
      (use facts in \<open>simp_all add: closed_def cites_def\<close>)
qed

end
