(* ===== verification/Agent_Text.thy ===== *)
theory Agent_Text
  imports Evidence Conversation_Requests "HOL-Library.Sublist"
begin

text \<open>
  The text operations of the agent (\<open>app/agent/workflow.py\<close>): the language of a question, the
  queries for retrieval, the sanitized history and the numbering of citations. The character tables
  of Unicode and the matches of the two regular expressions for legal identifiers are parameters.
\<close>

record text_env =
  te_control :: "nat \<Rightarrow> bool"
  te_nfkd :: "ustring \<Rightarrow> ustring"
  te_combining :: "nat \<Rightarrow> bool"
  te_lower :: "ustring \<Rightarrow> ustring"
  te_upper :: "ustring \<Rightarrow> ustring"
  te_legal :: "ustring \<Rightarrow> (nat \<times> nat) list"
  te_articles :: "ustring \<Rightarrow> ustring list"

section \<open>Language and queries\<close>

definition strip_diacritics :: "text_env \<Rightarrow> ustring \<Rightarrow> ustring" where
  "strip_diacritics te v = filter (\<lambda>c. \<not> te_combining te c) (te_nfkd te v)"

text \<open>\<open>re.findall("[a-z]+", text)\<close>.\<close>

definition az :: "nat \<Rightarrow> bool" where
  "az c \<longleftrightarrow> 97 \<le> c \<and> c \<le> 122"

function az_words :: "ustring \<Rightarrow> ustring list" where
  "az_words xs =
     (case dropWhile (\<lambda>c. \<not> az c) xs of
        [] \<Rightarrow> []
      | c # cs \<Rightarrow> takeWhile az (c # cs) # az_words (dropWhile az cs))"
  by pat_completeness auto
termination
proof (relation "measure length")
  fix xs :: ustring and c cs assume "dropWhile (\<lambda>c. \<not> az c) xs = c # cs"
  then have "length (c # cs) \<le> length xs" using length_dropWhile_le [of "\<lambda>c. \<not> az c" xs] by simp
  then show "(dropWhile az cs, xs) \<in> measure length"
    using length_dropWhile_le [of az cs] by simp
qed simp

declare az_words.simps [simp del]

definition spanish_words :: "ustring list" where
  "spanish_words = map ascii
     [''cual'', ''como'', ''cuando'', ''dice'', ''donde'', ''derechos'', ''establece'', ''explica'', ''ley'',
      ''los'', ''las'', ''para'', ''pension'', ''pensiones'', ''por'', ''que'', ''quien'', ''norma'', ''normas'',
      ''segun'', ''sobre'', ''una'', ''del'']"

definition english_words :: "ustring list" where
  "english_words = map ascii
     [''what'', ''which'', ''how'', ''does'', ''the'', ''about'', ''explain'', ''according'']"

definition spanish_marks :: "nat list" where
  "spanish_marks = [191, 161, 241, 225, 233, 237, 243, 250, 252]"

datatype language = English | Spanish

definition detect_response_language :: "text_env \<Rightarrow> ustring \<Rightarrow> language" where
  "detect_response_language te question =
     (let found = set (az_words (te_lower te (strip_diacritics te question)));
          score = card (found \<inter> set spanish_words);
          english_score = card (found \<inter> set english_words);
          marks = (\<exists>c\<in>set (te_lower te question). c \<in> set spanish_marks);
          identifier = (te_legal te question \<noteq> [])
      in if (2 \<le> score \<and> english_score < score) \<or>
            (marks \<and> 1 \<le> score \<and> english_score \<le> score) \<or>
            (identifier \<and> english_score = 0)
         then Spanish else English)"

definition slice :: "nat \<Rightarrow> nat \<Rightarrow> 'a list \<Rightarrow> 'a list" where
  "slice a b xs = take (b - a) (drop a xs)"

text \<open>The loop over the matches; \<open>start\<close> is where the last one ended.\<close>

fun normalize_from :: "text_env \<Rightarrow> ustring \<Rightarrow> nat \<Rightarrow> (nat \<times> nat) list \<Rightarrow> ustring" where
  "normalize_from te q start [] = strip_diacritics te (drop start q)"
| "normalize_from te q start ((a, b) # ms) =
     strip_diacritics te (slice start a q) @ slice a b q @ normalize_from te q b ms"

definition normalize_retrieval_query :: "text_env \<Rightarrow> ustring \<Rightarrow> ustring" where
  "normalize_retrieval_query te q = normalize_from te q 0 (te_legal te q)"

definition add_variant :: "ustring \<Rightarrow> ustring list \<Rightarrow> ustring list" where
  "add_variant v vs = (if v \<noteq> [] \<and> v \<notin> set vs then vs @ [v] else vs)"

definition retrieval_query_variants :: "text_env \<Rightarrow> ustring \<Rightarrow> ustring list" where
  "retrieval_query_variants te q =
     (let primary = strip_text (normalize_retrieval_query te q);
          identifiers = map (\<lambda>(a, b). strip_text (slice a b q)) (te_legal te q);
          v1 = add_variant primary [];
          v2 = (if identifiers = [] then v1 else add_variant (join_text [32] (unique identifiers)) v1)
      in take 3 (add_variant (strip_text (strip_diacritics te q)) v2))"

section \<open>History\<close>

text \<open>Control characters other than line breaks and tabs become spaces.\<close>

definition safe_content :: "text_env \<Rightarrow> ustring \<Rightarrow> ustring" where
  "safe_content te s = strip_text (map (\<lambda>c. if c \<in> {10, 9} \<or> \<not> te_control te c then c else 32) s)"

text \<open>The loop over the turns, newest first, with the characters that remain.\<close>

fun bounded_turns :: "text_env \<Rightarrow> nat \<Rightarrow> conversation_turn list \<Rightarrow> conversation_turn list" where
  "bounded_turns te remaining [] = []"
| "bounded_turns te remaining (t # ts) =
     (let content = safe_content te (turn_content t) in
      if content = [] then bounded_turns te remaining ts
      else
        let cut = take remaining content in
        if cut = [] then []
        else t\<lparr>turn_content := cut\<rparr> #
          (if remaining - length cut = 0 then [] else bounded_turns te (remaining - length cut) ts))"

definition sanitize_history :: "text_env \<Rightarrow> nat \<Rightarrow> nat \<Rightarrow> conversation_turn list \<Rightarrow> conversation_turn list" where
  "sanitize_history te max_turns max_characters history =
     (if history = [] \<or> max_turns = 0 \<or> max_characters = 0 then []
      else rev (bounded_turns te max_characters (rev (py_last (max_turns * 2) history))))"

section \<open>Rendering citations\<close>

text \<open>
  \<open>re.sub\<close> of a citation identifier in brackets, in parentheses or bare, by its number, in one
  pass; then of every other internal source identifier by a phrase.
\<close>

definition starts_with :: "ustring \<Rightarrow> ustring \<Rightarrow> bool" where
  "starts_with p xs \<longleftrightarrow> take (length p) xs = p"

definition first_prefix :: "ustring list \<Rightarrow> ustring \<Rightarrow> ustring option" where
  "first_prefix ps xs = List.find (\<lambda>p. starts_with p xs) ps"

function substitute :: "ustring list \<Rightarrow> ustring \<Rightarrow> ustring \<Rightarrow> ustring" where
  "substitute ps r xs =
     (case xs of
        [] \<Rightarrow> (case first_prefix ps [] of None \<Rightarrow> [] | Some _ \<Rightarrow> r)
      | x # ys \<Rightarrow>
          (case first_prefix ps xs of
             None \<Rightarrow> x # substitute ps r ys
           | Some p \<Rightarrow>
               if p = [] then r @ x # substitute ps r ys else r @ substitute ps r (drop (length p) xs)))"
  by pat_completeness auto
termination
  by (relation "measure (\<lambda>(ps, r, xs). length xs)") auto

declare substitute.simps [simp del]

definition source_prefix :: ustring where
  "source_prefix = ascii ''source:''"

definition source_char :: "nat \<Rightarrow> bool" where
  "source_char c \<longleftrightarrow> 65 \<le> c \<and> c \<le> 90 \<or> 97 \<le> c \<and> c \<le> 122 \<or> 48 \<le> c \<and> c \<le> 57 \<or> c \<in> {46, 95, 58, 45}"

text \<open>The text after a match at the start, if there is one.\<close>

definition source_match :: "ustring \<Rightarrow> ustring option" where
  "source_match xs =
     (let opened = (case xs of c # cs \<Rightarrow> if c \<in> {91, 40} then cs else xs | [] \<Rightarrow> xs)
      in if starts_with source_prefix opened
         then let after = drop 7 opened; rest = dropWhile source_char after
              in if rest = after then None
                 else Some (case rest of c # cs \<Rightarrow> if c \<in> {93, 41} then cs else rest | [] \<Rightarrow> rest)
         else None)"

lemma source_match_shorter: "source_match xs = Some rest \<Longrightarrow> length rest < length xs"
proof -
  assume m: "source_match xs = Some rest"
  define opened where "opened = (case xs of c # cs \<Rightarrow> if c \<in> {91, 40} then cs else xs | [] \<Rightarrow> xs)"
  have "length opened \<le> length xs" by (simp add: opened_def split: list.split)
  moreover obtain r where r: "starts_with source_prefix opened" "r = dropWhile source_char (drop 7 opened)"
      "r \<noteq> drop 7 opened" "length rest \<le> length r"
    using m by (auto simp: source_match_def Let_def opened_def [symmetric] split: if_splits list.splits)
  moreover have "length r \<le> length (drop 7 opened)" unfolding r(2) by (rule length_dropWhile_le)
  moreover have "length source_prefix = 7" by (simp add: source_prefix_def ascii_def)
  then have "7 \<le> length opened" using r(1) by (auto simp: starts_with_def dest: arg_cong [where f = length])
  ultimately show ?thesis by simp
qed

function hide_sources :: "ustring \<Rightarrow> ustring \<Rightarrow> ustring" where
  "hide_sources phrase xs =
     (case source_match xs of
        Some rest \<Rightarrow> phrase @ hide_sources phrase rest
      | None \<Rightarrow> (case xs of [] \<Rightarrow> [] | x # ys \<Rightarrow> x # hide_sources phrase ys))"
  by pat_completeness auto
termination
  by (relation "measure (\<lambda>(phrase, xs). length xs)") (auto dest: source_match_shorter)

declare hide_sources.simps [simp del]

definition supporting_source :: "language \<Rightarrow> ustring" where
  "supporting_source lang =
     (if lang = Spanish then ascii ''fuente de respaldo'' else ascii ''supporting source'')"

definition citation_number :: "citation list \<Rightarrow> ustring \<Rightarrow> nat" where
  "citation_number cs i = the (map_of (rev (zip (map ct_id cs) [1..<length cs + 1])) i)"

definition number_one :: "citation list \<Rightarrow> ustring \<Rightarrow> ustring \<Rightarrow> ustring" where
  "number_one cs i text =
     substitute [91 # i @ [93], 40 # i @ [41], i] (91 # nat_digits (citation_number cs i) @ [93]) text"

definition numbered_citation_answer :: "ustring \<Rightarrow> citation list \<Rightarrow> language \<Rightarrow> ustring" where
  "numbered_citation_answer answer cs lang =
     hide_sources (supporting_source lang)
       (fold (number_one cs) (sort_key (\<lambda>i. - int (length i)) (unique (map ct_id cs))) answer)"

section \<open>Lemmas\<close>

lemma bounded_turns_chars: "sum_list (map (\<lambda>t. length (turn_content t)) (bounded_turns te n ts)) \<le> n"
proof (induction te n ts rule: bounded_turns.induct)
  case (2 te n t ts)
  define c where "c = safe_content te (turn_content t)"
  show ?case
  proof (cases "c = [] \<or> take n c = []")
    case True
    then show ?thesis using "2.IH"(1) by (auto simp: Let_def c_def [symmetric])
  next
    case False
    have "length (take n c) \<le> n" by simp
    moreover have "sum_list (map (\<lambda>t. length (turn_content t)) (bounded_turns te (n - length (take n c)) ts))
        \<le> n - length (take n c)" if "n - length (take n c) \<noteq> 0"
      using "2.IH"(2) [OF c_def _ refl _ that] False by blast
    ultimately show ?thesis using False by (auto simp: Let_def c_def [symmetric])
  qed
qed simp

text \<open>What a bounded turn keeps of the turn it comes from.\<close>

definition cut_of :: "text_env \<Rightarrow> conversation_turn \<Rightarrow> conversation_turn \<Rightarrow> bool" where
  "cut_of te t' t \<longleftrightarrow> turn_id t' = turn_id t \<and> turn_role t' = turn_role t \<and> turn_content t' \<noteq> [] \<and>
     prefix (turn_content t') (safe_content te (turn_content t))"

lemma bounded_turns_cut: "\<exists>kept. subseq kept ts \<and> list_all2 (cut_of te) (bounded_turns te n ts) kept"
proof (induction te n ts rule: bounded_turns.induct)
  case (1 te n)
  then show ?case by (intro exI [of _ "[]"]) simp
next
  case (2 te n t ts)
  define c where "c = safe_content te (turn_content t)"
  show ?case
  proof (cases "c = []")
    case True
    then obtain kept where "subseq kept ts" "list_all2 (cut_of te) (bounded_turns te n ts) kept"
      using "2.IH"(1) c_def by blast
    then show ?thesis using True by (auto simp: Let_def c_def [symmetric])
  next
    case False
    show ?thesis
    proof (cases "take n c = []")
      case True
      then show ?thesis using False by (intro exI [of _ "[]"]) (auto simp: Let_def c_def [symmetric])
    next
      case cut: False
      have head: "cut_of te (t\<lparr>turn_content := take n c\<rparr>) t"
        using cut by (simp add: cut_of_def c_def [symmetric] take_is_prefix)
      show ?thesis
      proof (cases "n - length (take n c) = 0")
        case True
        then have "bounded_turns te n (t # ts) = [t\<lparr>turn_content := take n c\<rparr>]"
          using False cut by (simp add: Let_def c_def [symmetric])
        then show ?thesis using head by (intro exI [of _ "[t]"]) auto
      next
        case more: False
        obtain kept where "subseq kept ts" "list_all2 (cut_of te) (bounded_turns te (n - length (take n c)) ts) kept"
          using "2.IH"(2) [OF c_def False refl cut more] by blast
        moreover have "bounded_turns te n (t # ts) =
            t\<lparr>turn_content := take n c\<rparr> # bounded_turns te (n - length (take n c)) ts"
          using False cut more by (simp add: Let_def c_def [symmetric])
        ultimately show ?thesis using head by (intro exI [of _ "t # kept"]) auto
      qed
    qed
  qed
qed

lemma safe_content_clean:
  "c \<in> set (safe_content te s) \<Longrightarrow> c \<in> {9, 10, 32} \<or> \<not> te_control te c"
  using set_strip_text by (fastforce simp: safe_content_def split: if_splits)

lemma subseq_rev_iff: "subseq (rev xs) (rev ys) \<longleftrightarrow> subseq xs ys"
proof -
  have one: "subseq (rev xs) (rev ys)" if "subseq xs ys" for xs ys :: "'a list"
    using that
  proof (induction rule: list_emb.induct)
    case (list_emb_Nil ys)
    then show ?case by simp
  next
    case (list_emb_Cons xs ys y)
    then show ?case using list_emb_append_mono [of "(=)" "rev xs" "rev ys" "[]" "[y]"] by simp
  next
    case (list_emb_Cons2 x y xs ys)
    then show ?case by (simp add: list_emb_append_mono)
  qed
  show ?thesis using one [of xs ys] one [of "rev xs" "rev ys"] by auto
qed

text \<open>
  The history that reaches the model is bounded and clean. At most twice the allowed exchanges
  and at most the allowed characters remain; the turns are turns from the end of the history in
  their order, each cut to a non-empty prefix of its cleaned content, which has no control character
  but line breaks and tabs.
\<close>

theorem history_bounded:
  "\<exists>kept. subseq kept (drop (length history - 2 * max_turns) history) \<and>
     list_all2 (cut_of te) (sanitize_history te max_turns max_characters history) kept \<and>
     length (sanitize_history te max_turns max_characters history) \<le> 2 * max_turns \<and>
     sum_list (map (\<lambda>t. length (turn_content t)) (sanitize_history te max_turns max_characters history)) \<le> max_characters \<and>
     list_all (\<lambda>t. set (turn_content t) \<inter> Collect (te_control te) \<subseteq> {9, 10, 32})
       (sanitize_history te max_turns max_characters history)"
proof (cases "history = [] \<or> max_turns = 0 \<or> max_characters = 0")
  case True
  then have "sanitize_history te max_turns max_characters history = []" by (simp add: sanitize_history_def)
  then show ?thesis by (intro exI [of _ "[]"]) simp
next
  case False
  let ?last = "drop (length history - 2 * max_turns) history"
  let ?res = "bounded_turns te max_characters (rev ?last)"
  have res: "sanitize_history te max_turns max_characters history = rev ?res"
    using False by (simp add: sanitize_history_def py_last_def mult.commute)
  obtain kept where kept: "subseq kept (rev ?last)" "list_all2 (cut_of te) ?res kept"
    using bounded_turns_cut by blast
  have "subseq (rev kept) ?last" using kept(1) subseq_rev_iff [of "rev kept" ?last] by simp
  moreover have cut: "list_all2 (cut_of te) (rev ?res) (rev kept)" using kept(2) by (simp add: list_all2_rev)
  moreover have "length ?res \<le> 2 * max_turns"
    using list_all2_lengthD [OF kept(2)] list_emb_length [OF kept(1)] by simp
  moreover have "sum_list (map (\<lambda>t. length (turn_content t)) (rev ?res)) \<le> max_characters"
    using bounded_turns_chars [of te max_characters "rev ?last"] by (simp add: rev_map [symmetric] sum_list_rev)
  moreover have "list_all (\<lambda>t. set (turn_content t) \<inter> Collect (te_control te) \<subseteq> {9, 10, 32}) (rev ?res)"
  proof -
    have "set (turn_content t') \<inter> Collect (te_control te) \<subseteq> {9, 10, 32}" if t': "t' \<in> set (rev ?res)" for t'
    proof -
      from t' obtain i where "i < length ?res" "t' = ?res ! i" by (auto simp: in_set_conv_nth simp del: length_rev)
      then obtain t where "cut_of te t' t" using list_all2_nthD [OF kept(2)] by blast
      then have "set (turn_content t') \<subseteq> set (safe_content te (turn_content t))"
        by (auto simp: cut_of_def dest: set_mono_prefix)
      then show ?thesis using safe_content_clean by fastforce
    qed
    then show ?thesis by (simp add: list_all_iff)
  qed
  ultimately show ?thesis unfolding res by (intro exI [of _ "rev kept"]) simp
qed

end
