(* ===== verification/Agent_Workflow.thy ===== *)
theory Agent_Workflow
  imports Agent_Text
begin

text \<open>
  The workflow that answers a question (\<open>app/agent/workflow.py\<close>): its state, one definition per
  node of the graph, the edges between the nodes, and the run. The graph client, the language model
  and the retriever of source passages are the environment; a call of the graph client may depend on
  all calls before it. An exception that the runtime raises between two nodes, a timeout for
  instance, is the environment's too. The prompts around the texts handed to the model are left out.
\<close>

section \<open>Data\<close>

datatype confidence = High | Medium | Low | Insufficient

datatype response_type = AnswerType | ClarificationType | InsufficientType

datatype follow_up_kind = Standalone | ResolvedFollowUp | ClarificationNeeded

text \<open>Exceptions by what \<open>_safe_error\<close> looks at; the last one is the class name in lower case.\<close>

datatype exn =
  TimeoutExn
| ValueExn
| ModelUnavailable bool string
| ModelResponseExn
| ModelExn bool
| OtherExn string

record follow_up =
  fo_kind :: follow_up_kind
  fo_query :: "ustring option"
  fo_question :: "ustring option"
  fo_turn_ids :: "ident list"

record answer_draft =
  ad_answer :: ustring
  ad_confidence :: confidence
  ad_citation_ids :: "ustring list"
  ad_warnings :: "ustring list"

record source_passage =
  sp_id :: ustring
  sp_document :: ustring
  sp_article :: "ustring option"
  sp_paragraph :: "ustring option"
  sp_text :: ustring
  sp_start_line :: int
  sp_end_line :: int
  sp_page_number :: "int option"
  sp_section_path :: "ustring list"

record retrieval_scope =
  rs_documents :: "ustring list"
  rs_articles :: "ustring list"

record answer =
  an_answer :: ustring
  an_type :: response_type
  an_confidence :: confidence
  an_version :: "ustring option"
  an_citations :: "citation list"
  an_evidence :: evidence
  an_warnings :: "ustring list"

datatype graph_call = CallSearch ustring | CallNeighbors ustring nat

text \<open>The two requests made to the language model, with what the prompt is made of.\<close>

datatype model_call =
  is_follow_up: CallFollowUp ustring "conversation_turn list" language
| CallGenerate ustring "nat json" "conversation_turn list" language

record agent_env =
  ae_text :: text_env
  ae_real :: real_text
  ae_limits :: workflow_limits
  ae_graph :: "graph_call list \<Rightarrow> graph_call \<Rightarrow> exn + graph_result"
  ae_follow_up :: "ustring \<Rightarrow> conversation_turn list \<Rightarrow> language \<Rightarrow> exn + follow_up"
  ae_generate :: "ustring \<Rightarrow> nat json \<Rightarrow> conversation_turn list \<Rightarrow> language \<Rightarrow> exn + answer_draft"
  ae_retrieve :: "(ustring \<Rightarrow> retrieval_scope \<Rightarrow> exn + source_passage list) option"

text \<open>
  The state; \<open>ws_calls\<close> and \<open>ws_model_calls\<close> are not fields of the code: they record the calls made to
  the graph client and to the model, so that the counters of the code can be compared with them.
\<close>

record workflow_state =
  ws_question :: ustring
  ws_history :: "conversation_turn list"
  ws_language :: language
  ws_follow_up :: follow_up
  ws_resolved :: ustring
  ws_response_type :: "response_type option"
  ws_category :: "string option"
  ws_planned :: ustring
  ws_search :: graph_result
  ws_scope :: retrieval_scope
  ws_passages :: "source_passage list"
  ws_source_available :: bool
  ws_evidence :: evidence
  ws_citations :: "citation list"
  ws_version :: "ustring option"
  ws_context :: "nat json"
  ws_draft :: ustring
  ws_confidence :: confidence
  ws_draft_ids :: "ustring list"
  ws_warnings :: "ustring list"
  ws_tool_calls :: nat
  ws_iterations :: nat
  ws_answer :: "answer option"
  ws_calls :: "graph_call list"
  ws_model_calls :: "model_call list"

definition initial_state :: "ustring \<Rightarrow> conversation_turn list \<Rightarrow> workflow_state" where
  "initial_state question history =
     \<lparr>ws_question = question, ws_history = history, ws_language = English,
      ws_follow_up = \<lparr>fo_kind = Standalone, fo_query = None, fo_question = None, fo_turn_ids = []\<rparr>,
      ws_resolved = question, ws_response_type = None, ws_category = None, ws_planned = [],
      ws_search = \<lparr>gr_nodes = [], gr_edges = [], gr_paths = [], gr_citations = [], gr_warnings = [], gr_version = None\<rparr>,
      ws_scope = \<lparr>rs_documents = [], rs_articles = []\<rparr>, ws_passages = [], ws_source_available = False,
      ws_evidence = no_evidence, ws_citations = [], ws_version = None, ws_context = JNull, ws_draft = [],
      ws_confidence = Insufficient, ws_draft_ids = [], ws_warnings = [], ws_tool_calls = 0, ws_iterations = 0,
      ws_answer = None, ws_calls = [], ws_model_calls = []\<rparr>"

section \<open>Texts\<close>

definition insufficient_answer :: "language \<Rightarrow> ustring" where
  "insufficient_answer lang =
     (if lang = Spanish
      then ascii ''El grafo de conocimiento no contiene evidencia suficiente para responder esta pregunta.''
      else ascii ''The knowledge graph does not contain sufficient evidence to answer this question.'')"

definition unsupported_warning :: "language \<Rightarrow> ustring" where
  "unsupported_warning lang =
     (if lang = Spanish then ascii ''El modelo devolvi'' @ [243] @ ascii '' identificadores de citas sin respaldo.''
      else ascii ''The model returned unsupported citation identifiers.'')"

definition passages_missing_warning :: "language \<Rightarrow> ustring" where
  "passages_missing_warning lang =
     (if lang = Spanish
      then ascii ''Graphify identific'' @ [243] @ ascii '' el art'' @ [237]
        @ ascii ''culo solicitado, pero no se encontr'' @ [243]
        @ ascii '' un pasaje de la fuente; su contenido no se infiri'' @ [243]
        @ ascii '' a partir de etiquetas del grafo.''
      else ascii ''Graphify identified the requested article, but no matching source passage ''
        @ ascii ''was available; article contents were not inferred from graph labels.'')"

definition retrieval_warning :: ustring where
  "retrieval_warning = ascii ''Source-text retrieval was unavailable; only graph evidence could be used.''"

definition focused_warning :: ustring where
  "focused_warning = ascii ''Graphify returned no nodes for the primary query; a focused retrieval query was used.''"

definition occurs :: "ustring \<Rightarrow> ustring \<Rightarrow> bool" where
  "occurs needle hay \<longleftrightarrow> (\<exists>n\<in>set [0..<length hay + 1]. starts_with needle (drop n hay))"

section \<open>Scope and source citations\<close>

fun split_on :: "nat \<Rightarrow> ustring \<Rightarrow> ustring list" where
  "split_on c [] = [[]]"
| "split_on c (x # xs) =
     (if x = c then [] # split_on c xs
      else case split_on c xs of [] \<Rightarrow> [[x]] | w # ws \<Rightarrow> (x # w) # ws)"

text \<open>\<open>PurePosixPath(source).name\<close>.\<close>

definition posix_name :: "ustring \<Rightarrow> ustring" where
  "posix_name s =
     (case filter (\<lambda>w. w \<noteq> [] \<and> w \<noteq> [46]) (split_on 47 s) of [] \<Rightarrow> [] | ws \<Rightarrow> last ws)"

definition ends_with :: "ustring \<Rightarrow> ustring \<Rightarrow> bool" where
  "ends_with p xs \<longleftrightarrow> length p \<le> length xs \<and> drop (length xs - length p) xs = p"

definition default_limits :: workflow_limits where
  "default_limits = \<lparr>max_tool_calls = 4, max_traversal_depth = 2, max_nodes = 100, max_edges = 200,
     max_evidence_bytes = 65536, max_model_iterations = 1, max_history_turns = 6, max_history_characters = 8000\<rparr>"

text \<open>\<open>str(value)\<close> of a scalar.\<close>

fun scalar_text :: "real_text \<Rightarrow> nat json \<Rightarrow> ustring" where
  "scalar_text real (JText s) = s"
| "scalar_text real (JBool b) = (if b then ascii ''True'' else ascii ''False'')"
| "scalar_text real JNull = ascii ''None''"
| "scalar_text real v = dumps real v"

definition scope_documents :: "text_env \<Rightarrow> evidence \<Rightarrow> citation list \<Rightarrow> ustring list" where
  "scope_documents te ev cs =
     unique (filter (\<lambda>n. ends_with (ascii ''.md'') (te_lower te n) \<and> n \<notin> {[46], [46, 46]})
       (map posix_name (filter (\<lambda>s. s \<noteq> []) (List.map_filter gn_source (ev_nodes ev) @ map ct_source cs))))"

definition scope_articles :: "text_env \<Rightarrow> real_text \<Rightarrow> evidence \<Rightarrow> ustring list" where
  "scope_articles te real ev =
     unique (concat (map (\<lambda>n. concat (map (\<lambda>v. map (te_upper te) (te_articles te v))
         (gn_label n # map (\<lambda>p. scalar_text real (snd p)) (gn_properties n)))) (ev_nodes ev)))"

definition source_scope :: "agent_env \<Rightarrow> graph_result \<Rightarrow> ustring \<Rightarrow> exn + retrieval_scope" where
  "source_scope env result question =
     (case merge_evidence (ae_real env) default_limits [result] of
        None \<Rightarrow> Inl (OtherExn ''keyerror'')
      | Some (ev, cs, _, _) \<Rightarrow>
          let te = ae_text env;
              articles = scope_articles te (ae_real env) ev;
              requested = map (te_upper te) (te_articles te question)
          in Inr \<lparr>rs_documents = scope_documents te ev cs,
                 rs_articles = (if requested \<noteq> [] then filter (\<lambda>a. a \<in> set articles) requested else articles)\<rparr>)"

definition article_detail :: "agent_env \<Rightarrow> workflow_state \<Rightarrow> bool" where
  "article_detail env st \<longleftrightarrow> te_articles (ae_text env) (ws_resolved st) \<noteq> []"

definition source_citation :: "source_passage \<Rightarrow> citation" where
  "source_citation p =
     (let place = (case sp_article p of
            Some a \<Rightarrow> if a = [] then ascii ''pasaje documental'' else ascii ''Art'' @ [237] @ ascii ''culo '' @ a
          | None \<Rightarrow> ascii ''pasaje documental'');
          location = (case sp_paragraph p of Some q \<Rightarrow> if q = [] then place else place @ ascii '', '' @ q | None \<Rightarrow> place)
      in (bare_citation (sp_id p) (sp_document p @ [32, 8212, 32] @ location) (sp_document p))
         \<lparr>ct_document := Some (sp_document p), ct_article := sp_article p, ct_paragraph := sp_paragraph p,
          ct_start_line := Some (sp_start_line p), ct_end_line := Some (sp_end_line p),
          ct_page_number := sp_page_number p,
          ct_section_path := (if sp_section_path p = [] then None else Some (sp_section_path p)),
          ct_excerpt := Some (sp_text p), ct_provenance := Explicit\<rparr>)"

section \<open>The nodes\<close>

definition validate_request :: "agent_env \<Rightarrow> workflow_state \<Rightarrow> exn + workflow_state" where
  "validate_request env st =
     (let question = strip_text (ws_question st) in
      if question = [] \<or> 4000 < length question then Inl ValueExn
      else Inr (st\<lparr>ws_question := question,
             ws_history := sanitize_history (ae_text env) (max_history_turns (ae_limits env))
               (max_history_characters (ae_limits env)) (ws_history st),
             ws_language := detect_response_language (ae_text env) question,
             ws_resolved := question, ws_tool_calls := 0, ws_iterations := 0\<rparr>))"

definition text_or_empty :: "ustring option \<Rightarrow> ustring" where
  "text_or_empty v = (case v of None \<Rightarrow> [] | Some s \<Rightarrow> s)"

definition resolve_follow_up :: "agent_env \<Rightarrow> workflow_state \<Rightarrow> exn + workflow_state" where
  "resolve_follow_up env st =
     (if ws_history st = []
      then Inr (st\<lparr>ws_follow_up := \<lparr>fo_kind = Standalone, fo_query = Some (ws_question st),
                     fo_question = None, fo_turn_ids = []\<rparr>,
                   ws_resolved := ws_question st\<rparr>)
      else case ae_follow_up env (ws_question st) (ws_history st) (ws_language st) of
             Inl e \<Rightarrow> Inl e
           | Inr out \<Rightarrow>
               let made = ws_model_calls st @ [CallFollowUp (ws_question st) (ws_history st) (ws_language st)] in
               if \<not> set (fo_turn_ids out) \<subseteq> turn_id ` set (ws_history st) then Inl ModelResponseExn
               else if fo_kind out = ClarificationNeeded then
                 let question = strip_text (text_or_empty (fo_question out)) in
                 if question = [] then Inl ModelResponseExn
                 else Inr (st\<lparr>ws_follow_up := \<lparr>fo_kind = ClarificationNeeded, fo_query = None,
                            fo_question = Some question, fo_turn_ids = fo_turn_ids out\<rparr>,
                          ws_resolved := ws_question st, ws_model_calls := made\<rparr>)
               else
                 let query = strip_text (text_or_empty (fo_query out)) in
                 if query = [] then Inl ModelResponseExn
                 else Inr (st\<lparr>ws_follow_up := \<lparr>fo_kind = fo_kind out, fo_query = Some query,
                            fo_question = None, fo_turn_ids = fo_turn_ids out\<rparr>,
                          ws_resolved := query, ws_model_calls := made\<rparr>))"

definition prepare_clarification :: "workflow_state \<Rightarrow> exn + workflow_state" where
  "prepare_clarification st =
     Inr (st\<lparr>ws_draft := text_or_empty (fo_question (ws_follow_up st)), ws_confidence := Insufficient,
             ws_draft_ids := [], ws_evidence := no_evidence, ws_citations := [], ws_version := None,
             ws_warnings := [], ws_response_type := Some ClarificationType\<rparr>)"

definition relation_tokens :: "ustring list" where
  "relation_tokens =
     map ascii [''relationship'', ''related'', ''connect'', ''path'', ''relacion''] @
     [ascii ''relaci'' @ [243] @ ascii ''n''] @ map ascii [''conecta'', ''vincula'']"

definition classify_question :: "agent_env \<Rightarrow> workflow_state \<Rightarrow> exn + workflow_state" where
  "classify_question env st =
     (let text = te_lower (ae_text env) (ws_resolved st)
      in Inr (st\<lparr>ws_category := Some (if \<exists>t\<in>set relation_tokens. occurs t text
                                      then ''relationship'' else ''knowledge'')\<rparr>))"

definition plan_graph_query :: "agent_env \<Rightarrow> workflow_state \<Rightarrow> exn + workflow_state" where
  "plan_graph_query env st =
     Inr (st\<lparr>ws_planned := normalize_retrieval_query (ae_text env) (ws_resolved st)\<rparr>)"

text \<open>A call of the graph client, recorded in the state.\<close>

definition graph_request :: "agent_env \<Rightarrow> graph_call \<Rightarrow> graph_call list \<Rightarrow> (exn + graph_result) \<times> graph_call list" where
  "graph_request env c done_calls = (ae_graph env done_calls c, done_calls @ [c])"

text \<open>The loop over the focused queries: the result, if one was found, the calls and their number.\<close>

fun focused_search ::
  "agent_env \<Rightarrow> ustring list \<Rightarrow> nat \<Rightarrow> graph_call list \<Rightarrow> exn + (graph_result option \<times> nat \<times> graph_call list)"
where
  "focused_search env [] calls made = Inr (None, calls, made)"
| "focused_search env (q # qs) calls made =
     (if max_tool_calls (ae_limits env) \<le> calls then Inr (None, calls, made)
      else case graph_request env (CallSearch q) made of
             (Inl e, _) \<Rightarrow> Inl e
           | (Inr retry, made') \<Rightarrow>
               if gr_nodes retry \<noteq> [] then Inr (Some retry, calls + 1, made')
               else focused_search env qs (calls + 1) made')"

definition query_graphify :: "agent_env \<Rightarrow> workflow_state \<Rightarrow> exn + workflow_state" where
  "query_graphify env st =
     (if max_tool_calls (ae_limits env) \<le> ws_tool_calls st then Inl (OtherExn ''runtimeerror'')
      else case graph_request env (CallSearch (ws_planned st)) (ws_calls st) of
             (Inl e, _) \<Rightarrow> Inl e
           | (Inr result, made) \<Rightarrow>
               let calls = ws_tool_calls st + 1 in
               if gr_nodes result \<noteq> []
               then Inr (st\<lparr>ws_search := result, ws_tool_calls := calls, ws_warnings := [], ws_calls := made\<rparr>)
               else case focused_search env (tl (retrieval_query_variants (ae_text env) (ws_resolved st))) calls made of
                      Inl e \<Rightarrow> Inl e
                    | Inr (found, calls', made') \<Rightarrow>
                        Inr (st\<lparr>ws_search := (case found of None \<Rightarrow> result | Some r \<Rightarrow> r), ws_tool_calls := calls',
                               ws_warnings := (case found of None \<Rightarrow> [] | Some _ \<Rightarrow> [focused_warning]),
                               ws_calls := made'\<rparr>))"

definition scope_text_retrieval :: "agent_env \<Rightarrow> workflow_state \<Rightarrow> exn + workflow_state" where
  "scope_text_retrieval env st =
     (case source_scope env (ws_search st) (ws_resolved st) of
        Inl e \<Rightarrow> Inl e
      | Inr scope \<Rightarrow> Inr (st\<lparr>ws_scope := scope\<rparr>))"

definition retrieve_source_passages :: "agent_env \<Rightarrow> workflow_state \<Rightarrow> exn + workflow_state" where
  "retrieve_source_passages env st =
     (let scope = ws_scope st; detail = article_detail env st;
          missing = (if detail then [passages_missing_warning (ws_language st)] else []) in
      case ae_retrieve env of
        None \<Rightarrow> Inr (st\<lparr>ws_passages := [], ws_source_available := False\<rparr>)
      | Some retrieve \<Rightarrow>
          if rs_documents scope = [] \<or> (detail \<and> rs_articles scope = [])
          then Inr (st\<lparr>ws_passages := [], ws_source_available := (rs_documents scope \<noteq> []),
                      ws_warnings := unique (ws_warnings st @ missing)\<rparr>)
          else case retrieve (ws_planned st) scope of
                 Inl _ \<Rightarrow> Inr (st\<lparr>ws_passages := [], ws_source_available := False,
                          ws_warnings := unique (ws_warnings st @ [retrieval_warning])\<rparr>)
               | Inr passages \<Rightarrow>
                   Inr (st\<lparr>ws_passages := passages, ws_source_available := True,
                          ws_warnings := unique (ws_warnings st @ (if passages = [] then missing else []))\<rparr>))"

fun neighbor_results ::
  "agent_env \<Rightarrow> graph_node list \<Rightarrow> graph_call list \<Rightarrow> exn + (graph_result list \<times> graph_call list)"
where
  "neighbor_results env [] made = Inr ([], made)"
| "neighbor_results env (n # ns) made =
     (case graph_request env (CallNeighbors (gn_id n) (max_traversal_depth (ae_limits env))) made of
        (Inl e, _) \<Rightarrow> Inl e
      | (Inr r, made') \<Rightarrow>
          (case neighbor_results env ns made' of
             Inl e \<Rightarrow> Inl e | Inr (rs, made'') \<Rightarrow> Inr (r # rs, made'')))"

definition expand_graph_evidence :: "agent_env \<Rightarrow> workflow_state \<Rightarrow> exn + workflow_state" where
  "expand_graph_evidence env st =
     (case merge_evidence (ae_real env) (ae_limits env) [ws_search st] of
        None \<Rightarrow> Inl (OtherExn ''keyerror'')
      | Some (ev0, _, _, _) \<Rightarrow>
          let remaining = int (max_tool_calls (ae_limits env)) - int (ws_tool_calls st) in
          (case neighbor_results env (py_take remaining (ev_nodes ev0)) (ws_calls st) of
             Inl e \<Rightarrow> Inl e
           | Inr (rs, made) \<Rightarrow>
               (case merge_evidence (ae_real env) (ae_limits env) (ws_search st # rs) of
                  None \<Rightarrow> Inl (OtherExn ''keyerror'')
                | Some (ev, cs, version, warnings) \<Rightarrow>
                    Inr (st\<lparr>ws_evidence := ev, ws_citations := cs, ws_version := version,
                           ws_warnings := unique (ws_warnings st @ warnings),
                           ws_tool_calls := ws_tool_calls st + length rs, ws_calls := made\<rparr>))))"

definition merge_graph_and_text_evidence :: "workflow_state \<Rightarrow> exn + workflow_state" where
  "merge_graph_and_text_evidence st =
     Inr (st\<lparr>ws_citations := fold put_citation (ws_citations st @ map source_citation (ws_passages st)) []\<rparr>)"

definition optional_member :: "string \<Rightarrow> ustring option \<Rightarrow> ustring \<times> nat json" where
  "optional_member name v = (ascii name, json_opt v)"

definition node_context :: "citation list \<Rightarrow> graph_node \<Rightarrow> nat json" where
  "node_context cs n =
     (let cited = map_of (rev (List.map_filter (\<lambda>c. case ct_node_id c of
              Some i \<Rightarrow> if i = [] then None else Some (i, ct_id c) | None \<Rightarrow> None) cs)) (gn_id n)
      in JObject
        [(ascii ''kind'', JText (ascii ''node'')),
         (ascii ''evidenceId'', JText (case cited of Some i \<Rightarrow> i | None \<Rightarrow> ascii ''node:'' @ gn_id n)),
         (ascii ''label'', JText (gn_label n)), (ascii ''type'', JText (gn_type n)),
         (ascii ''properties'', JObject (gn_properties n)), optional_member ''source'' (gn_source n),
         optional_member ''excerpt'' (gn_excerpt n),
         (ascii ''provenance'', JText (provenance_text (gn_provenance n)))])"

definition edge_context :: "evidence \<Rightarrow> graph_edge \<Rightarrow> nat json option" where
  "edge_context ev e =
     (case (node_label ev (ge_source e), node_label ev (ge_target e)) of
        (Some s, Some t) \<Rightarrow> Some (JObject
          [(ascii ''kind'', JText (ascii ''relationship'')), (ascii ''evidenceId'', JText (ascii ''edge:'' @ ge_id e)),
           (ascii ''sourceLabel'', JText s), (ascii ''targetLabel'', JText t),
           (ascii ''relationship'', JText (ge_relationship e)), (ascii ''properties'', JObject (ge_properties e)),
           (ascii ''provenance'', JText (provenance_text (ge_provenance e)))])
      | _ \<Rightarrow> None)"

definition path_context :: "evidence \<Rightarrow> graph_path \<Rightarrow> nat json option" where
  "path_context ev p =
     (case those (map (node_label ev) (gp_node_ids p)) of
        None \<Rightarrow> None
      | Some labels \<Rightarrow> Some (JObject
          [(ascii ''kind'', JText (ascii ''path'')), (ascii ''evidenceId'', JText (ascii ''path:'' @ gp_id p)),
           (ascii ''nodeLabels'', JList (map JText labels))]))"

definition json_int_opt :: "int option \<Rightarrow> nat json" where
  "json_int_opt v = (case v of None \<Rightarrow> JNull | Some n \<Rightarrow> JInt n)"

definition passage_context :: "source_passage \<Rightarrow> nat json" where
  "passage_context p = JObject
     [(ascii ''kind'', JText (ascii ''source_passage'')), (ascii ''evidenceId'', JText (sp_id p)),
      (ascii ''label'', JText (case sp_article p of
          Some a \<Rightarrow> if a = [] then sp_document p
            else sp_document p @ [32, 8212, 32] @ ascii ''Art'' @ [237] @ ascii ''culo '' @ a
        | None \<Rightarrow> sp_document p)),
      (ascii ''document'', JText (sp_document p)), optional_member ''article'' (sp_article p),
      optional_member ''paragraph'' (sp_paragraph p), (ascii ''startLine'', JInt (sp_start_line p)),
      (ascii ''endLine'', JInt (sp_end_line p)), (ascii ''pageNumber'', json_int_opt (sp_page_number p)),
      (ascii ''sectionPath'', if sp_section_path p = [] then JNull else JList (map JText (sp_section_path p))),
      (ascii ''excerpt'', JText (sp_text p)), (ascii ''provenance'', JText (ascii ''explicit''))]"

definition prepare_context :: "workflow_state \<Rightarrow> exn + workflow_state" where
  "prepare_context st =
     (let ev = ws_evidence st; cs = ws_citations st in
      case (those (map (edge_context ev) (ev_edges ev)), those (map (path_context ev) (ev_paths ev))) of
        (Some edges, Some paths) \<Rightarrow>
          Inr (st\<lparr>ws_context := JObject
            [(ascii ''questionCategory'', JText (ascii (case ws_category st of None \<Rightarrow> ''knowledge'' | Some c \<Rightarrow> c))),
             (ascii ''citationIdAllowlist'', JList (map (\<lambda>c. JText (ct_id c)) cs)),
             (ascii ''sourcePassages'', JList (map passage_context (ws_passages st))),
             (ascii ''nodes'', JList (map (node_context cs) (ev_nodes ev))),
             (ascii ''edges'', JList edges), (ascii ''paths'', JList paths)]\<rparr>)
      | _ \<Rightarrow> Inl (OtherExn ''keyerror''))"

definition no_draft :: "workflow_state \<Rightarrow> workflow_state" where
  "no_draft st = st\<lparr>ws_draft := insufficient_answer (ws_language st), ws_confidence := Insufficient, ws_draft_ids := []\<rparr>"

definition generate_answer :: "agent_env \<Rightarrow> workflow_state \<Rightarrow> exn + workflow_state" where
  "generate_answer env st =
     (if ev_nodes (ws_evidence st) = [] \<or> ws_citations st = [] then Inr (no_draft st)
      else if ae_retrieve env \<noteq> None \<and> article_detail env st \<and> ws_passages st = [] then Inr (no_draft st)
      else if max_model_iterations (ae_limits env) \<le> ws_iterations st then Inl (OtherExn ''runtimeerror'')
      else case ae_generate env (ws_question st) (ws_context st) (ws_history st) (ws_language st) of
             Inl e \<Rightarrow> Inl e
           | Inr d \<Rightarrow> Inr (st\<lparr>ws_draft := ad_answer d, ws_confidence := ad_confidence d,
                            ws_draft_ids := unique (ad_citation_ids d),
                            ws_warnings := unique (ws_warnings st @ ad_warnings d),
                            ws_iterations := ws_iterations st + 1,
                            ws_model_calls := ws_model_calls st @
                              [CallGenerate (ws_question st) (ws_context st) (ws_history st) (ws_language st)]\<rparr>))"

text \<open>The condition under which a draft is not grounded.\<close>

definition cites_source :: "ustring list \<Rightarrow> bool" where
  "cites_source ids \<longleftrightarrow> (\<exists>i\<in>set ids. starts_with source_prefix i)"

definition ungrounded :: "agent_env \<Rightarrow> workflow_state \<Rightarrow> bool" where
  "ungrounded env st \<longleftrightarrow>
     ws_confidence st = Insufficient \<or> ws_draft_ids st = [] \<or>
     \<not> set (ws_draft_ids st) \<subseteq> ct_id ` set (ws_citations st) \<or>
     (ae_retrieve env \<noteq> None \<and> article_detail env st \<and> \<not> cites_source (ws_draft_ids st)) \<or>
     (ws_category st \<noteq> Some ''relationship'' \<and> ws_passages st \<noteq> [] \<and> \<not> cites_source (ws_draft_ids st))"

definition validate_grounding :: "agent_env \<Rightarrow> workflow_state \<Rightarrow> exn + workflow_state" where
  "validate_grounding env st =
     (if ungrounded env st
      then Inr ((no_draft st)\<lparr>ws_response_type := Some InsufficientType,
             ws_warnings := unique (ws_warnings st @
               (if ws_draft_ids st \<noteq> [] \<and> \<not> set (ws_draft_ids st) \<subseteq> ct_id ` set (ws_citations st)
                then [unsupported_warning (ws_language st)] else []))\<rparr>)
      else Inr (st\<lparr>ws_response_type := Some AnswerType\<rparr>))"

definition format_response :: "workflow_state \<Rightarrow> exn + workflow_state" where
  "format_response st =
     (let cs = filter (\<lambda>c. ct_id c \<in> set (ws_draft_ids st)) (ws_citations st)
      in Inr (st\<lparr>ws_answer := Some
           \<lparr>an_answer = numbered_citation_answer (ws_draft st) cs (ws_language st),
            an_type = (case ws_response_type st of Some t \<Rightarrow> t
              | None \<Rightarrow> if ws_confidence st = Insufficient then InsufficientType else AnswerType),
            an_confidence = ws_confidence st, an_version = ws_version st, an_citations = cs,
            an_evidence = ws_evidence st, an_warnings = ws_warnings st\<rparr>\<rparr>))"

section \<open>The graph\<close>

datatype workflow_node =
  ValidateRequest | ResolveFollowUp | PrepareClarification | ClassifyQuestion | PlanGraphQuery | QueryGraphify
| ScopeTextRetrieval | RetrieveSourcePassages | ExpandGraphEvidence | MergeEvidence | PrepareContext
| GenerateAnswer | ValidateGrounding | FormatResponse

fun node_step :: "agent_env \<Rightarrow> workflow_node \<Rightarrow> workflow_state \<Rightarrow> exn + workflow_state" where
  "node_step env ValidateRequest st = validate_request env st"
| "node_step env ResolveFollowUp st = resolve_follow_up env st"
| "node_step env PrepareClarification st = prepare_clarification st"
| "node_step env ClassifyQuestion st = classify_question env st"
| "node_step env PlanGraphQuery st = plan_graph_query env st"
| "node_step env QueryGraphify st = query_graphify env st"
| "node_step env ScopeTextRetrieval st = scope_text_retrieval env st"
| "node_step env RetrieveSourcePassages st = retrieve_source_passages env st"
| "node_step env ExpandGraphEvidence st = expand_graph_evidence env st"
| "node_step env MergeEvidence st = merge_graph_and_text_evidence st"
| "node_step env PrepareContext st = prepare_context st"
| "node_step env GenerateAnswer st = generate_answer env st"
| "node_step env ValidateGrounding st = validate_grounding env st"
| "node_step env FormatResponse st = format_response st"

text \<open>The edges, of which one looks at the state.\<close>

fun next_node :: "workflow_node \<Rightarrow> workflow_state \<Rightarrow> workflow_node option" where
  "next_node ValidateRequest st = Some ResolveFollowUp"
| "next_node ResolveFollowUp st =
     Some (if fo_kind (ws_follow_up st) = ClarificationNeeded then PrepareClarification else ClassifyQuestion)"
| "next_node PrepareClarification st = Some FormatResponse"
| "next_node ClassifyQuestion st = Some PlanGraphQuery"
| "next_node PlanGraphQuery st = Some QueryGraphify"
| "next_node QueryGraphify st = Some ScopeTextRetrieval"
| "next_node ScopeTextRetrieval st = Some RetrieveSourcePassages"
| "next_node RetrieveSourcePassages st = Some ExpandGraphEvidence"
| "next_node ExpandGraphEvidence st = Some MergeEvidence"
| "next_node MergeEvidence st = Some PrepareContext"
| "next_node PrepareContext st = Some GenerateAnswer"
| "next_node GenerateAnswer st = Some ValidateGrounding"
| "next_node ValidateGrounding st = Some FormatResponse"
| "next_node FormatResponse st = None"

fun node_rank :: "workflow_node \<Rightarrow> nat" where
  "node_rank ValidateRequest = 13" | "node_rank ResolveFollowUp = 12" | "node_rank PrepareClarification = 1"
| "node_rank ClassifyQuestion = 11" | "node_rank PlanGraphQuery = 10" | "node_rank QueryGraphify = 9"
| "node_rank ScopeTextRetrieval = 8" | "node_rank RetrieveSourcePassages = 7" | "node_rank ExpandGraphEvidence = 6"
| "node_rank MergeEvidence = 5" | "node_rank PrepareContext = 4" | "node_rank GenerateAnswer = 3"
| "node_rank ValidateGrounding = 2" | "node_rank FormatResponse = 0"

lemma next_node_rank: "next_node n st = Some m \<Longrightarrow> node_rank m < node_rank n"
  by (cases n) (auto split: if_splits)

text \<open>
  A run: the updates in order, each the node and the state after it, and how it ended. \<open>interrupt\<close>
  is what the runtime raises before a node or, for no node, at the end.
\<close>

function run_from ::
  "agent_env \<Rightarrow> (workflow_node option \<Rightarrow> exn option) \<Rightarrow> workflow_node option \<Rightarrow> workflow_state \<Rightarrow>
     (workflow_node \<times> workflow_state) list \<times> (exn + workflow_state)"
where
  "run_from env interrupt node st =
     (case interrupt node of
        Some e \<Rightarrow> ([], Inl e)
      | None \<Rightarrow>
          (case node of
             None \<Rightarrow> ([], Inr st)
           | Some n \<Rightarrow>
               (case node_step env n st of
                  Inl e \<Rightarrow> ([], Inl e)
                | Inr st' \<Rightarrow>
                    (case run_from env interrupt (next_node n st') st' of
                       (updates, r) \<Rightarrow> ((n, st') # updates, r)))))"
  by pat_completeness auto
termination
  by (relation "measure (\<lambda>(env, interrupt, node, st). case node of None \<Rightarrow> 0 | Some n \<Rightarrow> Suc (node_rank n))")
     (auto split: option.split dest: next_node_rank)

declare run_from.simps [simp del]

definition run_workflow ::
  "agent_env \<Rightarrow> (workflow_node option \<Rightarrow> exn option) \<Rightarrow> ustring \<Rightarrow> conversation_turn list \<Rightarrow>
     (workflow_node \<times> workflow_state) list \<times> (exn + workflow_state)"
where
  "run_workflow env interrupt question history =
     run_from env interrupt (Some ValidateRequest) (initial_state question history)"

definition invoke ::
  "agent_env \<Rightarrow> (workflow_node option \<Rightarrow> exn option) \<Rightarrow> ustring \<Rightarrow> conversation_turn list \<Rightarrow> exn + answer" where
  "invoke env interrupt question history =
     (case snd (run_workflow env interrupt question history) of
        Inl e \<Rightarrow> Inl e
      | Inr st \<Rightarrow> (case ws_answer st of None \<Rightarrow> Inl (OtherExn ''keyerror'') | Some a \<Rightarrow> Inr a))"

section \<open>Errors and events\<close>

definition name_has :: "string \<Rightarrow> string \<Rightarrow> bool" where
  "name_has needle name \<longleftrightarrow> (\<exists>n\<in>set [0..<length name + 1]. take (length needle) (drop n name) = needle)"

fun safe_error :: "exn \<Rightarrow> string \<times> bool" where
  "safe_error TimeoutExn = (''request_timeout'', True)"
| "safe_error ValueExn = (''invalid_request'', False)"
| "safe_error (ModelUnavailable retryable kind) =
     ((case map_of [(''authentication'', ''llm_authentication_failed''), (''quota'', ''llm_quota_exceeded''),
              (''model_access'', ''llm_model_access_failed''), (''permission'', ''llm_permission_denied''),
              (''invalid_request'', ''llm_invalid_request''), (''rate_limit'', ''llm_rate_limited'')] kind of
         Some code \<Rightarrow> code | None \<Rightarrow> ''llm_unavailable''), retryable)"
| "safe_error ModelResponseExn = (''invalid_model_response'', False)"
| "safe_error (ModelExn retryable) = (''llm_unavailable'', retryable)"
| "safe_error (OtherExn name) =
     (if name_has ''timeout'' name then (''mcp_timeout'', True)
      else if name_has ''model'' name \<or> name_has ''llm'' name
      then (if name_has ''response'' name then ''invalid_model_response'' else ''llm_unavailable'', True)
      else if name_has ''graph'' name \<or> name_has ''mcp'' name then (''graphify_unavailable'', True)
      else (''internal_error'', False))"

text \<open>The table of messages; a code outside of it raises.\<close>

definition error_message :: "string \<Rightarrow> string option" where
  "error_message code = map_of
     [(''request_timeout'', ''The request exceeded its configured time limit.''),
      (''invalid_request'', ''The question is invalid.''),
      (''mcp_timeout'', ''Graphify did not respond in time.''),
      (''llm_unavailable'', ''The language model is temporarily unavailable.''),
      (''llm_authentication_failed'', ''The language model provider rejected its credentials.''),
      (''llm_quota_exceeded'', ''The language model provider quota is exhausted.''),
      (''llm_model_access_failed'', ''The configured language model is unavailable or not authorized.''),
      (''llm_permission_denied'', ''The language model provider denied access to this request.''),
      (''llm_invalid_request'', ''The language model provider rejected the request configuration.''),
      (''llm_rate_limited'', ''The language model provider is rate limiting requests.''),
      (''invalid_model_response'', ''The language model returned an invalid response.''),
      (''graphify_unavailable'', ''Graphify is temporarily unavailable.''),
      (''internal_error'', ''The request could not be completed.'')] code"

datatype agent_event =
  EvStarted
| EvToolStarted
| EvToolCompleted nat nat bool
| EvDelta ustring
| EvCitation citation
| EvCompleted answer
| EvFailed string string bool

text \<open>\<open>text[start : start + 80]\<close> for every start.\<close>

function chunks :: "ustring \<Rightarrow> ustring list" where
  "chunks xs = (if xs = [] then [] else take 80 xs # chunks (drop 80 xs))"
  by pat_completeness auto
termination by (relation "measure length") auto

declare chunks.simps [simp del]

definition answer_events :: "answer \<Rightarrow> agent_event list" where
  "answer_events a = map EvDelta (chunks (an_answer a)) @ map EvCitation (an_citations a) @ [EvCompleted a]"

definition update_events :: "agent_env \<Rightarrow> workflow_node \<times> workflow_state \<Rightarrow> agent_event list" where
  "update_events env u =
     (case u of (n, st) \<Rightarrow>
        if n = PlanGraphQuery then [EvToolStarted]
        else if n = ExpandGraphEvidence
        then [EvToolCompleted (length (ev_nodes (ws_evidence st))) (length (ev_edges (ws_evidence st)))
               (\<exists>w\<in>set (ws_warnings st). occurs (ascii ''truncated'') (te_lower (ae_text env) w))]
        else if n = FormatResponse
        then (case ws_answer st of None \<Rightarrow> [] | Some a \<Rightarrow> answer_events a)
        else [])"

definition failure_event :: "exn \<Rightarrow> agent_event list" where
  "failure_event e =
     (case safe_error e of (code, retryable) \<Rightarrow>
        (case error_message code of None \<Rightarrow> [] | Some m \<Rightarrow> [EvFailed code m retryable]))"

definition stream ::
  "agent_env \<Rightarrow> (workflow_node option \<Rightarrow> exn option) \<Rightarrow> ustring \<Rightarrow> conversation_turn list \<Rightarrow> agent_event list" where
  "stream env interrupt question history =
     (case run_workflow env interrupt question history of
        (updates, r) \<Rightarrow>
          EvStarted # concat (map (update_events env) updates) @
            (case r of Inl e \<Rightarrow> failure_event e | Inr _ \<Rightarrow> []))"

end
