(* ===== verification/Agent_Properties.thy ===== *)
theory Agent_Properties
  imports Agent_Workflow
begin

text \<open>
  Properties of the agent: what it answers is grounded in the evidence, the calls it makes are
  bounded, and the stream of a request ends with exactly one terminal event.
\<close>

section \<open>Runs\<close>

text \<open>
  An invariant of the states before each node holds along a run, and at its end.
\<close>

lemma run_from_inv:
  "(\<forall>n st st'. J (Some n) st \<longrightarrow> node_step env n st = Inr st' \<longrightarrow> J (next_node n st') st') \<Longrightarrow>
   J node st \<Longrightarrow> run_from env interrupt node st = (us, r) \<Longrightarrow>
    (\<forall>(n, st')\<in>set us. J (next_node n st') st') \<and> (case r of Inl e \<Rightarrow> True | Inr st' \<Rightarrow> J None st')"
proof (induction env interrupt node st arbitrary: us r rule: run_from.induct)
  case (1 env interrupt node st)
  show ?case
  proof (cases "interrupt node")
    case (Some e)
    then have "us = []" "r = Inl e" using "1.prems"(3) by (simp_all add: run_from.simps)
    then show ?thesis by simp
  next
    case free: None
    show ?thesis
    proof (cases node)
      case None
      then have "us = []" "r = Inr st" using "1.prems"(3) free by (auto simp: run_from.simps)
      then show ?thesis using "1.prems"(2) None by simp
    next
      case (Some n)
      show ?thesis
      proof (cases "node_step env n st")
        case (Inl e)
        then have "us = []" "r = Inl e" using "1.prems"(3) free Some by (auto simp: run_from.simps [of env interrupt "Some n"])
        then show ?thesis by simp
      next
        case (Inr st')
        obtain us' where us': "run_from env interrupt (next_node n st') st' = (us', r)" "us = (n, st') # us'"
          using "1.prems"(3) free Some Inr
          by (cases "run_from env interrupt (next_node n st') st'") (auto simp: run_from.simps [of env interrupt "Some n"])
        have "J (next_node n st') st'" using "1.prems"(1,2) Some Inr by blast
        from "1.IH" [OF free Some Inr "1.prems"(1) this us'(1)] this show ?thesis by (simp add: us'(2))
      qed
    qed
  qed
qed

text \<open>The update of the response node is the last one, and then only the end is left.\<close>

lemma run_from_shape:
  "run_from env interrupt node st = (us, r) \<Longrightarrow> node \<noteq> None \<Longrightarrow>
     (\<exists>e. r = Inl e \<and> (\<forall>u\<in>set us. fst u \<noteq> FormatResponse)) \<or>
     (\<exists>us' st'. us = us' @ [(FormatResponse, st')] \<and> (\<forall>u\<in>set us'. fst u \<noteq> FormatResponse) \<and>
        ws_answer st' \<noteq> None \<and> r = (case interrupt None of None \<Rightarrow> Inr st' | Some e \<Rightarrow> Inl e))"
proof (induction env interrupt node st arbitrary: us r rule: run_from.induct)
  case (1 env interrupt node st)
  from "1.prems"(2) obtain n where n: "node = Some n" by auto
  show ?case
  proof (cases "interrupt node")
    case (Some e)
    then have "us = []" "r = Inl e" using "1.prems"(1) by (simp_all add: run_from.simps)
    then show ?thesis by simp
  next
    case free: None
    show ?thesis
    proof (cases "node_step env n st")
      case (Inl e)
      then have "us = []" "r = Inl e" using "1.prems"(1) free n by (auto simp: run_from.simps [of env interrupt "Some n"])
      then show ?thesis by simp
    next
      case (Inr st')
      obtain us' where us': "run_from env interrupt (next_node n st') st' = (us', r)" "us = (n, st') # us'"
        using "1.prems"(1) free n Inr
        by (cases "run_from env interrupt (next_node n st') st'") (auto simp: run_from.simps [of env interrupt "Some n"])
      show ?thesis
      proof (cases "n = FormatResponse")
        case True
        then have last: "us' = []" "r = (case interrupt None of None \<Rightarrow> Inr st' | Some e \<Rightarrow> Inl e)"
          using us'(1) by (auto simp: run_from.simps [of env interrupt None] split: option.splits)
        have "ws_answer st' \<noteq> None" using Inr True by (auto simp: format_response_def Let_def)
        then show ?thesis using True us'(2) last by (intro disjI2 exI [of _ "[]"] exI [of _ st']) simp
      next
        case False
        then have "next_node n st' \<noteq> None" by (cases n) simp_all
        from "1.IH" [OF free n Inr us'(1) this] show ?thesis
        proof (elim disjE exE conjE)
          fix us2 st2
          assume *: "us' = us2 @ [(FormatResponse, st2)]" "\<forall>u\<in>set us2. fst u \<noteq> FormatResponse"
            "ws_answer st2 \<noteq> None" "r = (case interrupt None of None \<Rightarrow> Inr st2 | Some e \<Rightarrow> Inl e)"
          then show ?thesis using False us'(2)
            by (intro disjI2 exI [of _ "(n, st') # us2"] exI [of _ st2]) simp
        qed (use False us'(2) in auto)
      qed
    qed
  qed
qed

section \<open>Grounded answers\<close>

text \<open>The draft before it is validated: the fixed text, or an output of the model.\<close>

definition drafted :: "agent_env \<Rightarrow> workflow_state \<Rightarrow> bool" where
  "drafted env st \<longleftrightarrow> (ws_confidence st = Insufficient \<and> ws_draft_ids st = []) \<or>
     (\<exists>made q ctx turns lang d. ws_model_calls st = made @ [CallGenerate q ctx turns lang] \<and>
        ae_generate env q ctx turns lang = Inr d \<and>
        ws_draft st = ad_answer d \<and> ws_confidence st = ad_confidence d \<and> ws_draft_ids st = unique (ad_citation_ids d))"

definition validated :: "agent_env \<Rightarrow> workflow_state \<Rightarrow> bool" where
  "validated env st \<longleftrightarrow>
     (case ws_response_type st of
        None \<Rightarrow> False
      | Some AnswerType \<Rightarrow> drafted env st \<and> \<not> ungrounded env st
      | Some InsufficientType \<Rightarrow> ws_draft_ids st = [] \<and> ws_confidence st = Insufficient \<and>
          ws_draft st = insufficient_answer (ws_language st)
      | Some ClarificationType \<Rightarrow> ws_draft_ids st = [] \<and> ws_confidence st = Insufficient \<and> ws_evidence st = no_evidence)"

definition answered :: "agent_env \<Rightarrow> workflow_state \<Rightarrow> bool" where
  "answered env st \<longleftrightarrow> validated env st \<and>
     ws_answer st = Some
       \<lparr>an_answer = numbered_citation_answer (ws_draft st)
          (filter (\<lambda>c. ct_id c \<in> set (ws_draft_ids st)) (ws_citations st)) (ws_language st),
        an_type = the (ws_response_type st), an_confidence = ws_confidence st, an_version = ws_version st,
        an_citations = filter (\<lambda>c. ct_id c \<in> set (ws_draft_ids st)) (ws_citations st),
        an_evidence = ws_evidence st, an_warnings = ws_warnings st\<rparr>"

fun grounding_inv :: "agent_env \<Rightarrow> workflow_node option \<Rightarrow> workflow_state \<Rightarrow> bool" where
  "grounding_inv env None st = answered env st"
| "grounding_inv env (Some ValidateGrounding) st = drafted env st"
| "grounding_inv env (Some FormatResponse) st = validated env st"
| "grounding_inv env (Some _) st = True"

lemma response_type_frame [simp]:
  "drafted env (st\<lparr>ws_response_type := x\<rparr>) = drafted env st"
  "ungrounded env (st\<lparr>ws_response_type := x\<rparr>) = ungrounded env st"
  by (simp_all add: drafted_def ungrounded_def article_detail_def)

lemma answer_frame [simp]: "validated env (st\<lparr>ws_answer := x\<rparr>) = validated env st"
proof -
  have "drafted env (st\<lparr>ws_answer := x\<rparr>) = drafted env st" "ungrounded env (st\<lparr>ws_answer := x\<rparr>) = ungrounded env st"
    by (simp_all add: drafted_def ungrounded_def article_detail_def)
  then show ?thesis unfolding validated_def by (simp cong: option.case_cong response_type.case_cong)
qed

lemma grounding_step:
  assumes "grounding_inv env (Some n) st" "node_step env n st = Inr st'"
  shows "grounding_inv env (next_node n st') st'"
proof (cases n)
  case PrepareClarification
  then have "st' = st\<lparr>ws_draft := text_or_empty (fo_question (ws_follow_up st)), ws_confidence := Insufficient,
             ws_draft_ids := [], ws_evidence := no_evidence, ws_citations := [], ws_version := None,
             ws_warnings := [], ws_response_type := Some ClarificationType\<rparr>"
    using assms(2) by (simp add: prepare_clarification_def)
  then show ?thesis using PrepareClarification by (simp add: validated_def)
next
  case GenerateAnswer
  show ?thesis
  proof (cases "ws_confidence st' = Insufficient \<and> ws_draft_ids st' = []")
    case True
    then show ?thesis using GenerateAnswer by (simp add: drafted_def)
  next
    case False
    then have "st' \<noteq> no_draft st" by (auto simp: no_draft_def)
    then obtain d where d: "ae_generate env (ws_question st) (ws_context st) (ws_history st) (ws_language st) = Inr d"
        "st' = st\<lparr>ws_draft := ad_answer d, ws_confidence := ad_confidence d, ws_draft_ids := unique (ad_citation_ids d),
           ws_warnings := unique (ws_warnings st @ ad_warnings d), ws_iterations := ws_iterations st + 1,
           ws_model_calls := ws_model_calls st @
             [CallGenerate (ws_question st) (ws_context st) (ws_history st) (ws_language st)]\<rparr>"
      using assms(2) GenerateAnswer by (auto simp: generate_answer_def split: if_splits sum.splits)
    then show ?thesis using GenerateAnswer by (simp add: drafted_def)
  qed
next
  case ValidateGrounding
  show ?thesis
  proof (cases "ungrounded env st")
    case True
    then have "st' = (no_draft st)\<lparr>ws_response_type := Some InsufficientType, ws_warnings := unique (ws_warnings st @
               (if ws_draft_ids st \<noteq> [] \<and> \<not> set (ws_draft_ids st) \<subseteq> ct_id ` set (ws_citations st)
                then [unsupported_warning (ws_language st)] else []))\<rparr>"
      using assms(2) ValidateGrounding by (simp add: validate_grounding_def)
    then show ?thesis using ValidateGrounding by (simp add: validated_def no_draft_def)
  next
    case False
    then have "st' = st\<lparr>ws_response_type := Some AnswerType\<rparr>"
      using assms(2) ValidateGrounding by (simp add: validate_grounding_def)
    then show ?thesis using ValidateGrounding False assms(1) by (simp add: validated_def)
  qed
next
  case FormatResponse
  then have v: "validated env st" using assms(1) by simp
  then obtain t where "ws_response_type st = Some t" by (auto simp: validated_def split: option.splits)
  then show ?thesis using v FormatResponse assms(2) by (auto simp: format_response_def answered_def Let_def)
qed (use assms in auto)

text \<open>
  The results that the graph client gave to the calls of a log, and the passages that the retriever
  gave for the query and the scope of the state.
\<close>

definition run_results :: "agent_env \<Rightarrow> graph_call list \<Rightarrow> graph_result set" where
  "run_results env calls = {r. \<exists>k<length calls. ae_graph env (take k calls) (calls ! k) = Inr r}"

definition retrieved :: "agent_env \<Rightarrow> workflow_state \<Rightarrow> source_passage set" where
  "retrieved env st =
     {p. \<exists>retrieve ps. ae_retrieve env = Some retrieve \<and> retrieve (ws_planned st) (ws_scope st) = Inr ps \<and>
        p \<in> set ps}"

lemma run_results_append: "run_results env made \<subseteq> run_results env (made @ later)"
  by (fastforce simp: run_results_def nth_append)

lemma run_results_new: "ae_graph env made c = Inr r \<Longrightarrow> r \<in> run_results env (made @ [c])"
  unfolding run_results_def by (intro CollectI exI [of _ "length made"]) simp

lemma focused_search_results:
  "focused_search env qs calls made = Inr (found, calls', made') \<Longrightarrow>
     (\<exists>later. made' = made @ later) \<and> (\<forall>r. found = Some r \<longrightarrow> r \<in> run_results env made')"
proof (induction env qs calls made arbitrary: found calls' made' rule: focused_search.induct)
  case (2 env q qs calls made)
  show ?case
  proof (cases "max_tool_calls (ae_limits env) \<le> calls")
    case False
    then obtain retry where r: "ae_graph env made (CallSearch q) = Inr retry"
      using "2.prems" by (auto simp: graph_request_def split: sum.splits)
    show ?thesis
    proof (cases "gr_nodes retry = []")
      case True
      have "focused_search env qs (calls + 1) (made @ [CallSearch q]) = Inr (found, calls', made')"
        using "2.prems" False r True by (simp add: graph_request_def)
      from "2.IH" [OF False _ _ _ this] r True show ?thesis by (auto simp: graph_request_def)
    next
      case f: False
      then show ?thesis using "2.prems" False r run_results_new [OF r] by (auto simp: graph_request_def)
    qed
  qed (use "2.prems" in simp)
qed simp

lemma neighbor_results_results:
  "neighbor_results env ns made = Inr (rs, made') \<Longrightarrow>
     (\<exists>later. made' = made @ later) \<and> set rs \<subseteq> run_results env made'"
proof (induction env ns made arbitrary: rs made' rule: neighbor_results.induct)
  case (2 env n ns made)
  let ?c = "CallNeighbors (gn_id n) (max_traversal_depth (ae_limits env))"
  obtain r rs' where r: "ae_graph env made ?c = Inr r" "rs = r # rs'"
      "neighbor_results env ns (made @ [?c]) = Inr (rs', made')"
    using "2.prems" by (auto simp: graph_request_def split: sum.splits)
  from "2.IH" [OF _ _ r(3)] r(1) obtain later where
    later: "made' = (made @ [?c]) @ later" "set rs' \<subseteq> run_results env made'"
    by (auto simp: graph_request_def)
  then show ?case using r(2) run_results_new [OF r(1)] run_results_append [of env "made @ [?c]" later] by auto
qed simp

text \<open>What the nodes build the evidence and its citations from.\<close>

definition sourced :: "agent_env \<Rightarrow> workflow_state \<Rightarrow> bool" where
  "sourced env st \<longleftrightarrow>
     (\<exists>rs cs ws. set rs \<subseteq> run_results env (ws_calls st) \<and>
        merge_evidence (ae_real env) (ae_limits env) rs = Some (ws_evidence st, cs, ws_version st, ws) \<and>
        set (ws_citations st) \<subseteq> set cs \<union> source_citation ` retrieved env st)"

definition searched :: "agent_env \<Rightarrow> workflow_state \<Rightarrow> bool" where
  "searched env st \<longleftrightarrow> ws_search st \<in> run_results env (ws_calls st)"

fun sourcing_inv :: "agent_env \<Rightarrow> workflow_node option \<Rightarrow> workflow_state \<Rightarrow> bool" where
  "sourcing_inv env (Some ScopeTextRetrieval) st = searched env st"
| "sourcing_inv env (Some RetrieveSourcePassages) st = searched env st"
| "sourcing_inv env (Some ExpandGraphEvidence) st = (searched env st \<and> set (ws_passages st) \<subseteq> retrieved env st)"
| "sourcing_inv env (Some MergeEvidence) st = (sourced env st \<and> set (ws_passages st) \<subseteq> retrieved env st)"
| "sourcing_inv env (Some PrepareContext) st = sourced env st"
| "sourcing_inv env (Some GenerateAnswer) st = sourced env st"
| "sourcing_inv env (Some ValidateGrounding) st = sourced env st"
| "sourcing_inv env (Some FormatResponse) st = sourced env st"
| "sourcing_inv env None st = sourced env st"
| "sourcing_inv env (Some _) st = True"

lemma merge_nothing: "merge_evidence real limits [] = Some (no_evidence, [], None, [])"
  by (simp add: merge_evidence_def fitted_def bounded_evidence_def merged_nodes_def merged_edges_def
      limited_edges_def limited_paths_def bounded_citations_def merge_warnings_def no_evidence_def
      shrink.simps Let_def unique_def)

lemma query_searched:
  assumes "query_graphify env st = Inr st'"
  shows "searched env st'"
proof -
  have room: "\<not> max_tool_calls (ae_limits env) \<le> ws_tool_calls st" using assms by (auto simp: query_graphify_def)
  obtain r where r: "ae_graph env (ws_calls st) (CallSearch (ws_planned st)) = Inr r"
    using assms room by (auto simp: query_graphify_def graph_request_def split: sum.splits)
  let ?made = "ws_calls st @ [CallSearch (ws_planned st)]"
  note first = run_results_new [OF r]
  show ?thesis
  proof (cases "gr_nodes r = []")
    case False
    then show ?thesis using assms room r first by (auto simp: query_graphify_def graph_request_def searched_def)
  next
    case True
    obtain found calls' made' where f: "focused_search env (tl (retrieval_query_variants (ae_text env) (ws_resolved st)))
        (ws_tool_calls st + 1) ?made = Inr (found, calls', made')"
      using assms room r True by (auto simp: query_graphify_def graph_request_def Let_def split: sum.splits)
    have "ws_search st' = (case found of None \<Rightarrow> r | Some x \<Rightarrow> x)" "ws_calls st' = made'"
      using assms room r True f by (auto simp: query_graphify_def graph_request_def Let_def)
    moreover have "r \<in> run_results env made'"
      using focused_search_results [OF f] first run_results_append by blast
    ultimately show ?thesis using focused_search_results [OF f] by (auto simp: searched_def split: option.split)
  qed
qed

lemma expand_sourced:
  assumes "searched env st" "expand_graph_evidence env st = Inr st'"
  shows "sourced env st' \<and> ws_passages st' = ws_passages st \<and> retrieved env st' = retrieved env st"
proof -
  obtain ev0 x where ev0: "merge_evidence (ae_real env) (ae_limits env) [ws_search st] = Some (ev0, x)"
    using assms(2) by (auto simp: expand_graph_evidence_def split: option.splits)
  let ?ns = "py_take (int (max_tool_calls (ae_limits env)) - int (ws_tool_calls st)) (ev_nodes ev0)"
  obtain rs made where rs: "neighbor_results env ?ns (ws_calls st) = Inr (rs, made)"
    using assms(2) ev0 by (cases x) (auto simp: expand_graph_evidence_def Let_def split: sum.splits)
  obtain ev cs v ws where m: "merge_evidence (ae_real env) (ae_limits env) (ws_search st # rs) = Some (ev, cs, v, ws)"
    using assms(2) ev0 rs by (cases x) (auto simp: expand_graph_evidence_def Let_def split: option.splits)
  have "st' = st\<lparr>ws_evidence := ev, ws_citations := cs, ws_version := v,
      ws_warnings := unique (ws_warnings st @ ws), ws_tool_calls := ws_tool_calls st + length rs, ws_calls := made\<rparr>"
    using assms(2) ev0 rs m by (cases x) (simp add: expand_graph_evidence_def Let_def)
  then have st': "ws_evidence st' = ev" "ws_citations st' = cs" "ws_version st' = v" "ws_calls st' = made"
      "ws_passages st' = ws_passages st" "retrieved env st' = retrieved env st"
    by (simp_all add: retrieved_def)
  have "set (ws_search st # rs) \<subseteq> run_results env made"
    using assms(1) neighbor_results_results [OF rs] run_results_append by (fastforce simp: searched_def)
  then have "sourced env st'"
    unfolding sourced_def by (intro exI [of _ "ws_search st # rs"] exI [of _ cs] exI [of _ ws]) (simp add: m st')
  then show ?thesis by (simp add: st')
qed

lemma put_citations_subset: "set (fold put_citation cs xs) \<subseteq> set cs \<union> set xs"
proof (induction cs arbitrary: xs)
  case (Cons c cs)
  have "set (put_citation c xs) \<subseteq> insert c (set xs)" by (auto simp: put_citation_def)
  with Cons.IH [of "put_citation c xs"] show ?case by auto
qed simp

text \<open>The nodes after the merge leave what the answer is made from alone.\<close>

lemma sourced_frame:
  assumes "sourced env st" "ws_calls st' = ws_calls st" "ws_evidence st' = ws_evidence st"
    "ws_citations st' = ws_citations st" "ws_version st' = ws_version st" "ws_planned st' = ws_planned st"
    "ws_scope st' = ws_scope st"
  shows "sourced env st'"
  using assms by (simp add: sourced_def retrieved_def)

lemma sourcing_step:
  assumes "sourcing_inv env (Some n) st" "node_step env n st = Inr st'"
  shows "sourcing_inv env (next_node n st') st'"
proof (cases n)
  case PrepareClarification
  then show ?thesis using assms(2) merge_nothing
    by (auto simp: prepare_clarification_def sourced_def intro!: exI [of _ "[]"])
next
  case QueryGraphify
  then show ?thesis using query_searched assms(2) by simp
next
  case ScopeTextRetrieval
  then show ?thesis using assms by (auto simp: scope_text_retrieval_def searched_def split: sum.splits)
next
  case RetrieveSourcePassages
  then show ?thesis using assms
    by (simp add: retrieve_source_passages_def Let_def searched_def retrieved_def split: if_splits sum.splits option.splits) auto
next
  case ExpandGraphEvidence
  then show ?thesis using assms expand_sourced by fastforce
next
  case MergeEvidence
  then have st': "st' = st\<lparr>ws_citations := fold put_citation (ws_citations st @ map source_citation (ws_passages st)) []\<rparr>"
    and src: "sourced env st" "set (ws_passages st) \<subseteq> retrieved env st"
    using assms by (simp_all add: merge_graph_and_text_evidence_def)
  have same: "retrieved env st' = retrieved env st" by (simp add: st' retrieved_def)
  have "set (ws_citations st') \<subseteq> set (ws_citations st) \<union> source_citation ` set (ws_passages st)"
    using put_citations_subset [of "ws_citations st @ map source_citation (ws_passages st)" "[]"] by (simp add: st')
  with src have "sourced env st'" unfolding sourced_def same by (simp add: st') blast
  then show ?thesis using MergeEvidence by simp
next
  case PrepareContext
  then show ?thesis using assms sourced_frame [of env st st'] by (auto simp: prepare_context_def Let_def split: option.splits)
next
  case GenerateAnswer
  then show ?thesis using assms sourced_frame [of env st st']
    by (auto simp: generate_answer_def no_draft_def split: if_splits sum.splits)
next
  case ValidateGrounding
  then show ?thesis using assms sourced_frame [of env st st'] by (auto simp: validate_grounding_def no_draft_def split: if_splits)
next
  case FormatResponse
  then show ?thesis using assms sourced_frame [of env st st'] by (auto simp: format_response_def Let_def)
qed (use assms in auto)

text \<open>
  C22. Answers are grounded. An answer that the workflow marks as such is the output of the last call
  the run made to the model, its confidence is not insufficient, and it has at least one citation.
  The citation identifiers the model gave are those of the citations in the answer, and every one
  of these is evidence of the run: a citation of the merge of results that the graph client gave to
  the calls of this run, whose nodes, edges and paths are the evidence of the answer, or the
  citation of a passage that the retriever returned for its query and scope. Otherwise nothing is
  cited, and the text is the fixed one unless it is a clarification.
\<close>

theorem answers_grounded:
  "case run_workflow env interrupt question history of
     (us, Inl e) \<Rightarrow> invoke env interrupt question history = Inl e
   | (us, Inr st) \<Rightarrow>
       \<exists>a. ws_answer st = Some a \<and> invoke env interrupt question history = Inr a \<and>
       (case an_type a of
          AnswerType \<Rightarrow>
            an_confidence a \<noteq> Insufficient \<and> an_citations a \<noteq> [] \<and>
            (\<exists>made q ctx turns lang d. ws_model_calls st = made @ [CallGenerate q ctx turns lang] \<and>
               ae_generate env q ctx turns lang = Inr d \<and>
               an_answer a = numbered_citation_answer (ad_answer d) (an_citations a) (ws_language st) \<and>
               an_confidence a = ad_confidence d \<and>
               ct_id ` set (an_citations a) = set (ad_citation_ids d)) \<and>
            (\<exists>rs cs ws. set rs \<subseteq> run_results env (ws_calls st) \<and>
               merge_evidence (ae_real env) (ae_limits env) rs = Some (an_evidence a, cs, an_version a, ws) \<and>
               set (an_citations a) \<subseteq> set cs \<union> source_citation ` retrieved env st)
        | InsufficientType \<Rightarrow>
            an_confidence a = Insufficient \<and> an_citations a = [] \<and>
            an_answer a = numbered_citation_answer (insufficient_answer (ws_language st)) [] (ws_language st)
        | ClarificationType \<Rightarrow>
            an_confidence a = Insufficient \<and> an_citations a = [] \<and> an_evidence a = no_evidence)"
proof (cases "snd (run_workflow env interrupt question history)")
  case (Inl e)
  then show ?thesis by (cases "run_workflow env interrupt question history") (simp add: invoke_def)
next
  case (Inr st)
  then obtain us where run: "run_workflow env interrupt question history = (us, Inr st)"
    by (cases "run_workflow env interrupt question history") auto
  have "answered env st"
    using run_from_inv [of "grounding_inv env" env "Some ValidateRequest" "initial_state question history" interrupt us "Inr st"]
      grounding_step run by (simp add: run_workflow_def)
  moreover have src: "sourced env st"
    using run_from_inv [of "sourcing_inv env" env "Some ValidateRequest" "initial_state question history" interrupt us "Inr st"]
      sourcing_step run by (simp add: run_workflow_def)
  ultimately obtain a where st: "ws_answer st = Some a" and v: "validated env st"
    and a: "a = \<lparr>an_answer = numbered_citation_answer (ws_draft st)
          (filter (\<lambda>c. ct_id c \<in> set (ws_draft_ids st)) (ws_citations st)) (ws_language st),
        an_type = the (ws_response_type st), an_confidence = ws_confidence st, an_version = ws_version st,
        an_citations = filter (\<lambda>c. ct_id c \<in> set (ws_draft_ids st)) (ws_citations st),
        an_evidence = ws_evidence st, an_warnings = ws_warnings st\<rparr>"
    by (simp add: answered_def)
  have inv: "invoke env interrupt question history = Inr a" by (simp add: invoke_def run st)
  from v obtain t where t: "ws_response_type st = Some t" by (cases "ws_response_type st") (simp_all add: validated_def)
  show ?thesis
  proof (cases t)
    case AnswerType
    let ?cs = "filter (\<lambda>c. ct_id c \<in> set (ws_draft_ids st)) (ws_citations st)"
    have u: "drafted env st" "\<not> ungrounded env st" using v t AnswerType by (simp_all add: validated_def)
    then have ok: "ws_confidence st \<noteq> Insufficient" "ws_draft_ids st \<noteq> []"
        "set (ws_draft_ids st) \<subseteq> ct_id ` set (ws_citations st)"
      by (simp_all add: ungrounded_def)
    from u(1) ok(1) obtain made q ctx turns lang d where
      d: "ws_model_calls st = made @ [CallGenerate q ctx turns lang]" "ae_generate env q ctx turns lang = Inr d"
        "ws_draft st = ad_answer d" "ws_confidence st = ad_confidence d" "ws_draft_ids st = unique (ad_citation_ids d)"
      by (auto simp: drafted_def)
    have ids: "ct_id ` set ?cs = set (ws_draft_ids st)" using ok(3) by auto
    then have "?cs \<noteq> []" using ok(2) by (metis image_empty list.set(1) set_empty)
    moreover have "\<exists>rs cs ws. set rs \<subseteq> run_results env (ws_calls st) \<and>
        merge_evidence (ae_real env) (ae_limits env) rs = Some (ws_evidence st, cs, ws_version st, ws) \<and>
        set ?cs \<subseteq> set cs \<union> source_citation ` retrieved env st"
    proof -
      have "set ?cs \<subseteq> set (ws_citations st)" by auto
      with src show ?thesis unfolding sourced_def by blast
    qed
    moreover have "\<exists>made q ctx turns lang d'. ws_model_calls st = made @ [CallGenerate q ctx turns lang] \<and>
        ae_generate env q ctx turns lang = Inr d' \<and>
        numbered_citation_answer (ws_draft st) ?cs (ws_language st) =
          numbered_citation_answer (ad_answer d') ?cs (ws_language st) \<and>
        ws_confidence st = ad_confidence d' \<and> ct_id ` set ?cs = set (ad_citation_ids d')"
      by (intro exI [of _ made] exI [of _ q] exI [of _ ctx] exI [of _ turns] exI [of _ lang] exI [of _ d])
        (use ids in \<open>simp add: d\<close>)
    ultimately show ?thesis
      unfolding run prod.case sum.case
      by (intro exI [of _ a] conjI st inv) (simp only: a t AnswerType ok(1) answer.simps option.sel
        response_type.case simp_thms)
  qed (use run st inv v t a in \<open>auto simp: validated_def\<close>)
qed

section \<open>Bounded calls\<close>

text \<open>The calls made are counted, within the limit, and neighbours are asked for at the fixed depth.\<close>

definition counted :: "agent_env \<Rightarrow> workflow_state \<Rightarrow> bool" where
  "counted env st \<longleftrightarrow> length (ws_calls st) = ws_tool_calls st \<and>
     ws_tool_calls st \<le> max_tool_calls (ae_limits env) \<and>
     list_all (\<lambda>c. case c of CallSearch _ \<Rightarrow> True | CallNeighbors _ d \<Rightarrow> d = max_traversal_depth (ae_limits env)) (ws_calls st) \<and>
     length (filter (\<lambda>c. \<not> is_follow_up c) (ws_model_calls st)) = ws_iterations st \<and>
     ws_iterations st \<le> max_model_iterations (ae_limits env) \<and>
     length (filter is_follow_up (ws_model_calls st)) \<le> (if ws_history st = [] then 0 else 1)"

lemma focused_search_counted:
  "focused_search env qs calls made = Inr (found, calls', made') \<Longrightarrow> length made = calls \<Longrightarrow>
     calls \<le> max_tool_calls (ae_limits env) \<Longrightarrow>
     length made' = calls' \<and> calls' \<le> max_tool_calls (ae_limits env) \<and>
     (\<exists>ws. made' = made @ map CallSearch ws)"
proof (induction env qs calls made rule: focused_search.induct)
  case (1 env calls made)
  then show ?case by (auto intro: exI [of _ "[]"])
next
  case (2 env q qs calls made)
  show ?case
  proof (cases "max_tool_calls (ae_limits env) \<le> calls")
    case True
    then show ?thesis using "2.prems" by (auto intro: exI [of _ "[]"])
  next
    case False
    show ?thesis
    proof (cases "ae_graph env made (CallSearch q)")
      case (Inl e)
      then show ?thesis using "2.prems" False by (simp add: graph_request_def)
    next
      case (Inr retry)
      show ?thesis
      proof (cases "gr_nodes retry = []")
        case True
        have "focused_search env qs (calls + 1) (made @ [CallSearch q]) = Inr (found, calls', made')"
          using "2.prems"(1) False Inr True by (simp add: graph_request_def)
        from "2.IH" [OF False _ _ _ this] Inr True False "2.prems"(2)
        obtain ws where "length made' = calls'" "calls' \<le> max_tool_calls (ae_limits env)"
            "made' = (made @ [CallSearch q]) @ map CallSearch ws"
          by (auto simp: graph_request_def)
        then show ?thesis by (auto intro: exI [of _ "q # ws"])
      next
        case f: False
        then show ?thesis using "2.prems" False Inr by (auto simp: graph_request_def intro: exI [of _ "[q]"])
      qed
    qed
  qed
qed

lemma neighbor_results_counted:
  "neighbor_results env ns made = Inr (rs, made') \<Longrightarrow> length rs = length ns \<and>
     made' = made @ map (\<lambda>n. CallNeighbors (gn_id n) (max_traversal_depth (ae_limits env))) ns"
  by (induction env ns made arbitrary: rs made' rule: neighbor_results.induct)
     (fastforce simp: graph_request_def split: sum.splits)+

fun bounded_inv :: "agent_env \<Rightarrow> workflow_node option \<Rightarrow> workflow_state \<Rightarrow> bool" where
  "bounded_inv env (Some ValidateRequest) st = (ws_calls st = [] \<and> ws_model_calls st = [])"
| "bounded_inv env (Some ResolveFollowUp) st = (counted env st \<and> ws_model_calls st = [])"
| "bounded_inv env _ st = counted env st"

lemma bounded_inv_counted: "node \<noteq> Some ValidateRequest \<Longrightarrow> bounded_inv env node st \<Longrightarrow> counted env st"
  by (cases node; simp) (rename_tac n, case_tac n, simp_all)

lemma counted_bounded_inv:
  "node \<noteq> Some ValidateRequest \<Longrightarrow> node \<noteq> Some ResolveFollowUp \<Longrightarrow> bounded_inv env node st = counted env st"
  by (cases node; simp) (rename_tac n, case_tac n, simp_all)

lemma next_not_first: "next_node n st \<noteq> Some ValidateRequest"
  by (cases n) auto

lemma next_not_resolve: "n \<noteq> ValidateRequest \<Longrightarrow> next_node n st \<noteq> Some ResolveFollowUp"
  by (cases n) auto

lemma query_counted:
  assumes "counted env st" "query_graphify env st = Inr st'"
  shows "counted env st'"
proof -
  have room: "\<not> max_tool_calls (ae_limits env) \<le> ws_tool_calls st" using assms(2) by (auto simp: query_graphify_def)
  obtain r where r: "ae_graph env (ws_calls st) (CallSearch (ws_planned st)) = Inr r"
    using assms(2) room by (auto simp: query_graphify_def graph_request_def split: sum.splits)
  show ?thesis
  proof (cases "gr_nodes r = []")
    case False
    then show ?thesis using assms room r by (auto simp: query_graphify_def graph_request_def counted_def)
  next
    case True
    let ?made = "ws_calls st @ [CallSearch (ws_planned st)]"
    obtain found calls' made' where f: "focused_search env (tl (retrieval_query_variants (ae_text env) (ws_resolved st)))
        (ws_tool_calls st + 1) ?made = Inr (found, calls', made')"
      using assms(2) room r True by (auto simp: query_graphify_def graph_request_def Let_def split: sum.splits)
    have "length ?made = ws_tool_calls st + 1" "ws_tool_calls st + 1 \<le> max_tool_calls (ae_limits env)"
      using assms(1) room by (auto simp: counted_def)
    from focused_search_counted [OF f this] obtain ws where "length made' = calls'" "calls' \<le> max_tool_calls (ae_limits env)"
        "made' = ?made @ map CallSearch ws" by blast
    moreover have "ws_tool_calls st' = calls'" "ws_calls st' = made'" "ws_iterations st' = ws_iterations st"
        "ws_model_calls st' = ws_model_calls st" "ws_history st' = ws_history st"
      using assms(2) room r True f by (auto simp: query_graphify_def graph_request_def Let_def)
    ultimately show ?thesis using assms(1) by (auto simp: counted_def list_all_iff)
  qed
qed

lemma expand_counted:
  assumes "counted env st" "expand_graph_evidence env st = Inr st'"
  shows "counted env st'"
proof -
  obtain ev0 x where ev0: "merge_evidence (ae_real env) (ae_limits env) [ws_search st] = Some (ev0, x)"
    using assms(2) by (auto simp: expand_graph_evidence_def split: option.splits)
  let ?ns = "py_take (int (max_tool_calls (ae_limits env)) - int (ws_tool_calls st)) (ev_nodes ev0)"
  obtain rs made where rs: "neighbor_results env ?ns (ws_calls st) = Inr (rs, made)"
    using assms(2) ev0 by (cases x) (auto simp: expand_graph_evidence_def Let_def split: sum.splits)
  note n = neighbor_results_counted [OF rs]
  have "length ?ns \<le> max_tool_calls (ae_limits env) - ws_tool_calls st"
    using assms(1) by (auto simp: py_take_def counted_def)
  moreover have "ws_tool_calls st' = ws_tool_calls st + length rs" "ws_calls st' = made" "ws_iterations st' = ws_iterations st"
        "ws_model_calls st' = ws_model_calls st" "ws_history st' = ws_history st"
    using assms(2) ev0 rs by (cases x; auto simp: expand_graph_evidence_def Let_def split: option.splits)+
  ultimately show ?thesis using assms(1) n by (auto simp: counted_def list_all_iff)
qed

lemma call_frame:
  assumes "node_step env n st = Inr st'" "n \<notin> {ValidateRequest, ResolveFollowUp, QueryGraphify, ExpandGraphEvidence}"
  shows "ws_calls st' = ws_calls st \<and> ws_tool_calls st' = ws_tool_calls st \<and> ws_history st' = ws_history st \<and>
    (ws_iterations st' = ws_iterations st \<and> ws_model_calls st' = ws_model_calls st \<or>
     ws_iterations st < max_model_iterations (ae_limits env) \<and> ws_iterations st' = ws_iterations st + 1 \<and>
     (\<exists>q ctx turns lang. ws_model_calls st' = ws_model_calls st @ [CallGenerate q ctx turns lang]))"
proof (cases n)
  case PrepareClarification
  then show ?thesis using assms(1) by (auto simp: prepare_clarification_def)
next
  case ClassifyQuestion
  then show ?thesis using assms(1) by (auto simp: classify_question_def Let_def)
next
  case PlanGraphQuery
  then show ?thesis using assms(1) by (auto simp: plan_graph_query_def)
next
  case ScopeTextRetrieval
  then show ?thesis using assms(1) by (auto simp: scope_text_retrieval_def split: sum.splits)
next
  case RetrieveSourcePassages
  then show ?thesis using assms(1)
    by (simp add: retrieve_source_passages_def Let_def split: if_splits sum.splits option.splits) auto
next
  case MergeEvidence
  then show ?thesis using assms(1) by (auto simp: merge_graph_and_text_evidence_def)
next
  case PrepareContext
  then show ?thesis using assms(1) by (auto simp: prepare_context_def Let_def split: option.splits)
next
  case GenerateAnswer
  then show ?thesis using assms(1) by (auto simp: generate_answer_def no_draft_def split: if_splits sum.splits)
next
  case ValidateGrounding
  then show ?thesis using assms(1) by (auto simp: validate_grounding_def no_draft_def split: if_splits)
next
  case FormatResponse
  then show ?thesis using assms(1) by (auto simp: format_response_def Let_def)
qed (use assms in auto)

lemma resolve_counted:
  assumes "counted env st" "ws_model_calls st = []" "resolve_follow_up env st = Inr st'"
  shows "counted env st'"
proof (cases "ws_history st = []")
  case True
  then show ?thesis using assms by (auto simp: resolve_follow_up_def counted_def)
next
  case False
  then have "ws_calls st' = ws_calls st \<and> ws_tool_calls st' = ws_tool_calls st \<and> ws_history st' = ws_history st \<and>
      ws_iterations st' = ws_iterations st \<and>
      ws_model_calls st' = [CallFollowUp (ws_question st) (ws_history st) (ws_language st)]"
    using assms(2,3) by (auto simp: resolve_follow_up_def Let_def split: if_splits sum.splits)
  then show ?thesis using assms(1,2) False by (simp add: counted_def)
qed

lemma bounded_step:
  assumes "bounded_inv env (Some n) st" "node_step env n st = Inr st'"
  shows "bounded_inv env (next_node n st') st'"
proof (cases "n = ValidateRequest")
  case True
  then show ?thesis using assms by (auto simp: validate_request_def counted_def Let_def split: if_splits)
next
  case False
  then have c: "counted env st" using bounded_inv_counted [OF _ assms(1)] by simp
  consider "n = ResolveFollowUp" | "n = QueryGraphify" | "n = ExpandGraphEvidence"
    | "n \<notin> {ValidateRequest, ResolveFollowUp, QueryGraphify, ExpandGraphEvidence}"
    using False by auto
  then have "counted env st'"
  proof cases
    case 1
    then show ?thesis using assms c resolve_counted by simp
  next
    case 2
    then show ?thesis using assms(2) query_counted [OF c] by simp
  next
    case 3
    then show ?thesis using assms(2) expand_counted [OF c] by simp
  next
    case 4
    from call_frame [OF assms(2) 4] c show ?thesis
      by (elim conjE disjE exE) (simp_all add: counted_def)
  qed
  then show ?thesis using counted_bounded_inv [OF next_not_first next_not_resolve [OF False]] by simp
qed

text \<open>
  C23. The calls of a request are bounded. After every node of a run, and when it ends, the count of
  graph calls is the number of calls that the graph client answered, it is within the limit, and
  neighbours were only asked for at the configured depth. The count of model iterations is the
  number of answers that the model generated, and it is within its limit; the model was asked once
  more at most, to resolve a follow-up, and only for a request with history: this call is outside
  the count.
\<close>

theorem calls_bounded:
  "list_all (\<lambda>(n, st). length (ws_calls st) = ws_tool_calls st \<and>
       ws_tool_calls st \<le> max_tool_calls (ae_limits env) \<and>
       list_all (\<lambda>c. case c of CallSearch _ \<Rightarrow> True | CallNeighbors _ d \<Rightarrow> d = max_traversal_depth (ae_limits env)) (ws_calls st) \<and>
       length (filter (\<lambda>c. \<not> is_follow_up c) (ws_model_calls st)) = ws_iterations st \<and>
       ws_iterations st \<le> max_model_iterations (ae_limits env) \<and>
       length (filter is_follow_up (ws_model_calls st)) \<le> (if ws_history st = [] then 0 else 1))
     (fst (run_workflow env interrupt question history))"
proof -
  obtain us r where run: "run_workflow env interrupt question history = (us, r)" by fastforce
  have "bounded_inv env (Some ValidateRequest) (initial_state question history)" by (simp add: initial_state_def)
  then have "\<forall>(n, st')\<in>set us. bounded_inv env (next_node n st') st'"
    using run_from_inv [of "bounded_inv env" env "Some ValidateRequest" "initial_state question history" interrupt us r]
      bounded_step run by (simp add: run_workflow_def)
  then have "\<forall>(n, st')\<in>set us. counted env st'" using bounded_inv_counted next_not_first by blast
  then show ?thesis unfolding run fst_conv counted_def list_all_iff by (simp add: case_prod_unfold)
qed

section \<open>The stream\<close>

text \<open>Every code of \<open>_safe_error\<close> has a message.\<close>

lemma error_message_known:
  "error_message c \<noteq> None \<longleftrightarrow> c \<in> set [''request_timeout'', ''invalid_request'', ''mcp_timeout'', ''llm_unavailable'',
     ''llm_authentication_failed'', ''llm_quota_exceeded'', ''llm_model_access_failed'', ''llm_permission_denied'',
     ''llm_invalid_request'', ''llm_rate_limited'', ''invalid_model_response'', ''graphify_unavailable'', ''internal_error'']"
  unfolding error_message_def map_of_eq_None_iff by simp

lemma safe_error_message: "error_message (fst (safe_error e)) \<noteq> None"
proof (cases e)
  case (ModelUnavailable retryable kind)
  let ?table = "[(''authentication'', ''llm_authentication_failed''), (''quota'', ''llm_quota_exceeded''),
              (''model_access'', ''llm_model_access_failed''), (''permission'', ''llm_permission_denied''),
              (''invalid_request'', ''llm_invalid_request''), (''rate_limit'', ''llm_rate_limited'')]"
  show ?thesis
  proof (cases "map_of ?table kind")
    case None
    then have "fst (safe_error e) = ''llm_unavailable''" unfolding ModelUnavailable safe_error.simps fst_conv by simp
    then show ?thesis unfolding error_message_known by simp
  next
    case (Some code)
    then have "fst (safe_error e) = code" unfolding ModelUnavailable safe_error.simps fst_conv by simp
    moreover have "code \<in> set (map snd ?table)" using map_of_SomeD [OF Some] by force
    ultimately show ?thesis unfolding error_message_known by auto
  qed
qed (unfold error_message_known, simp_all)

definition terminal_event :: "agent_event \<Rightarrow> bool" where
  "terminal_event ev \<longleftrightarrow> (case ev of EvCompleted _ \<Rightarrow> True | EvFailed _ _ _ \<Rightarrow> True | _ \<Rightarrow> False)"

text \<open>The text that a client assembles from the deltas.\<close>

fun delta_text :: "agent_event list \<Rightarrow> ustring" where
  "delta_text [] = []"
| "delta_text (EvDelta d # es) = d @ delta_text es"
| "delta_text (_ # es) = delta_text es"

lemma delta_text_append [simp]: "delta_text (xs @ ys) = delta_text xs @ delta_text ys"
  by (induction xs rule: delta_text.induct) simp_all

lemma delta_text_chunks [simp]: "delta_text (map EvDelta (chunks xs)) = xs"
proof (induction xs rule: chunks.induct)
  case (1 xs)
  show ?case
  proof (cases "xs = []")
    case True
    then show ?thesis by (simp add: chunks.simps)
  next
    case False
    then show ?thesis using 1 by (simp add: chunks.simps [of xs])
  qed
qed

lemma delta_text_other: "(\<And>d. EvDelta d \<notin> set es) \<Longrightarrow> delta_text es = []"
  by (induction es rule: delta_text.induct) auto

lemma answer_events_text: "delta_text (answer_events a) = an_answer a"
  by (simp add: answer_events_def) (rule delta_text_other, auto)

lemma answer_events_terminal: "\<exists>pre. answer_events a = pre @ [EvCompleted a] \<and> (\<forall>ev\<in>set pre. \<not> terminal_event ev)"
  by (intro exI [of _ "map EvDelta (chunks (an_answer a)) @ map EvCitation (an_citations a)"])
     (auto simp: answer_events_def terminal_event_def)

lemma update_events_plain:
  "n \<noteq> FormatResponse \<Longrightarrow> ev \<in> set (update_events env (n, st)) \<Longrightarrow> \<not> terminal_event ev \<and> (\<forall>d. ev \<noteq> EvDelta d)"
  by (auto simp: update_events_def terminal_event_def split: if_splits)

text \<open>
  C24. A stream tells exactly how its run ended. If the workflow returns an answer, the stream ends
  with the deltas of its text, its citations and its completion, and nothing terminal comes before.
  Otherwise it ends with the failure that the exception maps to; before it nothing is terminal but a
  completion, and that only when the exception came after the last node.
\<close>

theorem stream_ends_once:
  "case invoke env interrupt question history of
     Inr a \<Rightarrow> \<exists>pre. stream env interrupt question history = pre @ answer_events a \<and>
       delta_text (stream env interrupt question history) = an_answer a \<and>
       list_all (\<lambda>ev. \<not> terminal_event ev) pre
   | Inl e \<Rightarrow> \<exists>pre m. stream env interrupt question history =
         pre @ [EvFailed (fst (safe_error e)) m (snd (safe_error e))] \<and>
       error_message (fst (safe_error e)) = Some m \<and>
       (list_all (\<lambda>ev. \<not> terminal_event ev) pre \<or>
        interrupt None = Some e \<and> (\<exists>pre' a. pre = pre' @ answer_events a \<and> list_all (\<lambda>ev. \<not> terminal_event ev) pre'))"
proof -
  obtain us r where run: "run_workflow env interrupt question history = (us, r)" by fastforce
  have plain: "list_all (\<lambda>ev. \<not> terminal_event ev) (EvStarted # concat (map (update_events env) vs)) \<and>
      delta_text (EvStarted # concat (map (update_events env) vs)) = []"
    if "\<forall>u\<in>set vs. fst u \<noteq> FormatResponse" for vs
  proof -
    have *: "\<not> terminal_event ev \<and> (\<forall>d. ev \<noteq> EvDelta d)" if "ev \<in> set (concat (map (update_events env) vs))" for ev
      using that \<open>\<forall>u\<in>set vs. fst u \<noteq> FormatResponse\<close> update_events_plain by fastforce
    then have "delta_text (concat (map (update_events env) vs)) = []" by (intro delta_text_other) blast
    then show ?thesis using * by (auto simp: list_all_iff terminal_event_def)
  qed
  have failure: "\<exists>m. failure_event e = [EvFailed (fst (safe_error e)) m (snd (safe_error e))] \<and>
      error_message (fst (safe_error e)) = Some m" for e
    using safe_error_message [of e] by (auto simp: failure_event_def split: prod.splits option.splits)
  have shape: "(\<exists>e. r = Inl e \<and> (\<forall>u\<in>set us. fst u \<noteq> FormatResponse)) \<or>
     (\<exists>us' st'. us = us' @ [(FormatResponse, st')] \<and> (\<forall>u\<in>set us'. fst u \<noteq> FormatResponse) \<and>
        ws_answer st' \<noteq> None \<and> r = (case interrupt None of None \<Rightarrow> Inr st' | Some e \<Rightarrow> Inl e))"
    using run_from_shape [of env interrupt "Some ValidateRequest"] run by (simp add: run_workflow_def)
  then show ?thesis
  proof (elim disjE exE conjE)
    fix e assume e: "r = Inl e" "\<forall>u\<in>set us. fst u \<noteq> FormatResponse"
    obtain m where "failure_event e = [EvFailed (fst (safe_error e)) m (snd (safe_error e))]"
        "error_message (fst (safe_error e)) = Some m" using failure by blast
    then show ?thesis using plain [OF e(2)] e(1)
      by (simp add: invoke_def stream_def run)
  next
    fix us' st' assume u: "us = us' @ [(FormatResponse, st')]" "\<forall>u\<in>set us'. fst u \<noteq> FormatResponse"
        "ws_answer st' \<noteq> None" "r = (case interrupt None of None \<Rightarrow> Inr st' | Some e \<Rightarrow> Inl e)"
    then obtain a where a: "ws_answer st' = Some a" by auto
    let ?pre = "EvStarted # concat (map (update_events env) us')"
    have events: "EvStarted # concat (map (update_events env) us) = ?pre @ answer_events a"
      by (simp add: u(1) update_events_def a)
    show ?thesis
    proof (cases "interrupt None")
      case None
      then have "invoke env interrupt question history = Inr a" "stream env interrupt question history = ?pre @ answer_events a"
        using u(4) a events by (simp_all add: invoke_def stream_def run)
      then show ?thesis using plain [OF u(2)] answer_events_text by simp
    next
      case (Some e)
      then obtain m where m: "failure_event e = [EvFailed (fst (safe_error e)) m (snd (safe_error e))]"
          "error_message (fst (safe_error e)) = Some m" using failure by blast
      have "invoke env interrupt question history = Inl e"
        "stream env interrupt question history = (?pre @ answer_events a) @ [EvFailed (fst (safe_error e)) m (snd (safe_error e))]"
        using u(4) Some events m(1) by (simp_all add: invoke_def stream_def run)
      note streams = this
      show ?thesis
        unfolding streams sum.case
        by (rule exI [of _ "?pre @ answer_events a"], rule exI [of _ m])
           (use Some m(2) plain [OF u(2)] in blast)
    qed
  qed
qed

end
