(* ===== verification/Plsql_Graph.thy ===== *)
theory Plsql_Graph
  imports Encodings Json "HOL-Library.Product_Lexorder" "HOL-Library.List_Lexorder" "HOL-Library.Char_ord"
begin

text \<open>
  The dependency graph of PL/SQL objects: the records of the analysis gateway
  (\<open>app/integrations/plsql/models.py\<close>), its errors, the identifiers of objects and edges, and the
  queries of the catalog (\<open>app/integrations/plsql/catalog.py\<close>) over a stored graph. A query is the
  list of rows that its text asks for: the matches of its pattern and conditions, in its order, cut
  at its limit; rows that the order does not tell apart come in the order of the store.
\<close>

section \<open>Vocabulary\<close>

datatype object_kind =
  KTable | KView | KPackage | KSequence | KTrigger | KIndex | KSynonym | KType | KProcedure | KFunction
| KAnonymousBlock

datatype relationship =
  Calls | Reads | Writes | ViewDependsOn | ForeignKey | TriggerOn | Triggers | Indexes | SynonymFor
| Declares | Contains

datatype resolution = Exact | Inferred | Ambiguous | Unresolved

datatype direction = Upstream | Downstream

datatype category = CallersCategory | CalleesCategory | ReadsCategory | WritesCategory | OtherCategory

fun kind_label :: "object_kind \<Rightarrow> string" where
  "kind_label KTable = ''Table''" | "kind_label KView = ''View''" | "kind_label KPackage = ''Package''"
| "kind_label KSequence = ''Sequence''" | "kind_label KTrigger = ''Trigger''" | "kind_label KIndex = ''Index''"
| "kind_label KSynonym = ''Synonym''" | "kind_label KType = ''Type''" | "kind_label KProcedure = ''Procedure''"
| "kind_label KFunction = ''Function''" | "kind_label KAnonymousBlock = ''AnonymousBlock''"

definition all_kinds :: "object_kind list" where
  "all_kinds = [KTable, KView, KPackage, KSequence, KTrigger, KIndex, KSynonym, KType, KProcedure, KFunction,
     KAnonymousBlock]"

fun kind_token :: "object_kind \<Rightarrow> string" where
  "kind_token KTable = ''TABLE''" | "kind_token KView = ''VIEW''" | "kind_token KPackage = ''PACKAGE''"
| "kind_token KSequence = ''SEQUENCE''" | "kind_token KTrigger = ''TRIGGER''" | "kind_token KIndex = ''INDEX''"
| "kind_token KSynonym = ''SYNONYM''" | "kind_token KType = ''TYPE''" | "kind_token KProcedure = ''PROCEDURE''"
| "kind_token KFunction = ''FUNCTION''" | "kind_token KAnonymousBlock = ''ANONYMOUS_BLOCK''"

definition kind_of_token :: "ustring \<Rightarrow> object_kind option" where
  "kind_of_token t = List.find (\<lambda>k. ascii (kind_token k) = t) all_kinds"

fun relationship_name :: "relationship \<Rightarrow> string" where
  "relationship_name Calls = ''CALLS''" | "relationship_name Reads = ''READS''"
| "relationship_name Writes = ''WRITES''" | "relationship_name ViewDependsOn = ''VIEW_DEPENDS_ON''"
| "relationship_name ForeignKey = ''FOREIGN_KEY''" | "relationship_name TriggerOn = ''TRIGGER_ON''"
| "relationship_name Triggers = ''TRIGGERS''" | "relationship_name Indexes = ''INDEXES''"
| "relationship_name SynonymFor = ''SYNONYM_FOR''" | "relationship_name Declares = ''DECLARES''"
| "relationship_name Contains = ''CONTAINS''"

definition path_relationships :: "relationship list" where
  "path_relationships = [Calls, Reads, Writes, ViewDependsOn, Triggers, ForeignKey]"

definition table_access_relationships :: "relationship list" where
  "table_access_relationships = [Reads, Writes, TriggerOn, ViewDependsOn, ForeignKey]"

definition trigger_aware :: "relationship list" where
  "trigger_aware = path_relationships @ [TriggerOn]"

definition relationship_of :: "string \<Rightarrow> relationship option" where
  "relationship_of s = List.find (\<lambda>r. relationship_name r = s) trigger_aware"

fun resolution_name :: "resolution \<Rightarrow> string" where
  "resolution_name Exact = ''EXACT''" | "resolution_name Inferred = ''INFERRED''"
| "resolution_name Ambiguous = ''AMBIGUOUS''" | "resolution_name Unresolved = ''UNRESOLVED''"

definition resolution_of :: "string \<Rightarrow> resolution option" where
  "resolution_of s = List.find (\<lambda>r. resolution_name r = s) [Exact, Inferred, Ambiguous, Unresolved]"

definition table_or_view :: "object_kind \<Rightarrow> bool" where
  "table_or_view k \<longleftrightarrow> k = KTable \<or> k = KView"

section \<open>Errors\<close>

text \<open>The errors of the gateway, and an exception of Python that nothing catches.\<close>

datatype plsql_error =
  NotConfigured | ObjectNotFound | Unavailable | QueryTimeout | LimitExceeded | ConfigurationError | Uncaught

fun problem_code :: "plsql_error \<Rightarrow> string" where
  "problem_code NotConfigured = ''analysis_not_configured''"
| "problem_code ObjectNotFound = ''analysis_not_found''"
| "problem_code Unavailable = ''analysis_unavailable''"
| "problem_code QueryTimeout = ''analysis_unavailable''"
| "problem_code LimitExceeded = ''analysis_limit_exceeded''"
| "problem_code ConfigurationError = ''analysis_unavailable''"
| "problem_code Uncaught = ''internal_error''"

section \<open>Records\<close>

record source_evidence =
  se_file :: ustring
  se_path :: ustring
  se_start_line :: "int option"
  se_start_column :: "int option"
  se_start_offset :: "int option"
  se_end_offset :: "int option"

record object_record =
  ob_id :: ustring
  ob_kind :: object_kind
  ob_name :: ustring
  ob_schema :: ustring
  ob_qualified :: ustring
  ob_project :: ustring
  ob_owner :: "ustring option"
  ob_signature :: "ustring option"
  ob_return_type :: "ustring option"
  ob_evidence :: "source_evidence option"

record object_reference =
  or_id :: ustring
  or_kind :: object_kind
  or_name :: ustring
  or_qualified :: ustring

record dependency =
  dp_id :: ustring
  dp_relationship :: relationship
  dp_resolution :: resolution
  dp_source :: object_reference
  dp_target :: object_reference
  dp_evidence :: "source_evidence option"
  dp_evidence_kind :: "ustring option"
  dp_derived :: "bool option"
  dp_events :: "ustring option"
  dp_via_table :: "object_reference option"

record 'a page =
  pg_items :: "'a list"
  pg_truncated :: bool
  pg_total :: nat

record path_record =
  pa_id :: ustring
  pa_steps :: "dependency list"
  pa_hops :: nat

record impact_item =
  im_id :: ustring
  im_dependent :: object_record
  im_distance :: nat
  im_paths :: "path_record list"

record impact_summary =
  is_direct :: nat
  is_indirect :: nat
  is_packages :: nat
  is_tables_modified :: nat

section \<open>Identifiers\<close>

definition b64e :: "ustring \<Rightarrow> ustring" where
  "b64e v = strip_padding (b64_encode (utf8_encode v))"

text \<open>\<open>None\<close> stands for the exceptions of decoding, which the callers catch.\<close>

definition b64d :: "ustring \<Rightarrow> ustring option" where
  "b64d v =
     (if \<exists>c\<in>set v. 128 \<le> c then None
      else case b64_decode False (put_padding v) of None \<Rightarrow> None | Some bs \<Rightarrow> utf8_decode bs)"

definition object_id :: "ustring \<Rightarrow> ustring \<Rightarrow> ustring" where
  "object_id project qualified = ascii ''plsql://'' @ project @ ascii ''/o/'' @ b64e qualified"

definition qualified_name_from_object_id :: "ustring \<Rightarrow> ustring option" where
  "qualified_name_from_object_id i =
     (case rsplit_once (ascii ''/o/'') i of None \<Rightarrow> None | Some (_, encoded) \<Rightarrow> b64d encoded)"

definition edge_payload :: "ustring \<Rightarrow> ustring \<Rightarrow> ustring \<Rightarrow> ustring" where
  "edge_payload relationship source target = relationship @ [31] @ source @ [31] @ target"

definition edge_id :: "ustring \<Rightarrow> ustring \<Rightarrow> ustring \<Rightarrow> ustring \<Rightarrow> ustring" where
  "edge_id project relationship source target =
     ascii ''edge://'' @ project @ ascii ''/e/'' @ b64e (edge_payload relationship source target)"

definition edge_parts :: "ustring \<Rightarrow> (ustring \<times> ustring \<times> ustring) option" where
  "edge_parts i =
     (case rsplit_once (ascii ''/e/'') i of
        None \<Rightarrow> None
      | Some (_, encoded) \<Rightarrow>
          (case b64d encoded of
             None \<Rightarrow> None
           | Some payload \<Rightarrow>
               (case split_char 31 payload of [r, s, t] \<Rightarrow> Some (r, s, t) | _ \<Rightarrow> None)))"

definition schema_of :: "ustring \<Rightarrow> ustring" where
  "schema_of qualified = hd (split_char 46 qualified)"

definition owner_of :: "ustring \<Rightarrow> ustring option" where
  "owner_of qualified =
     (let parts = split_char 46 qualified in if 3 \<le> length parts then Some (parts ! 1) else None)"

definition last_part :: "ustring \<Rightarrow> ustring" where
  "last_part qualified = last (split_char 46 qualified)"

text \<open>Identifiers decode to what they were made of.\<close>

lemma b64e_plain: "list_all scalar v \<Longrightarrow> c \<in> set (b64e v) \<Longrightarrow> c \<noteq> 47 \<and> c < 128"
  unfolding b64e_def
  using padding_restored(2) [of "utf8_encode v" c] utf8_encode_bytes b64_char_plain
  by (metis list_all_iff)

lemma b64d_b64e [simp]: "list_all scalar v \<Longrightarrow> b64d (b64e v) = Some v"
proof -
  assume v: "list_all scalar v"
  have "\<not> (\<exists>c\<in>set (b64e v). 128 \<le> c)" using b64e_plain [OF v] by fastforce
  moreover have "b64_decode False (put_padding (b64e v)) = Some (utf8_encode v)"
    unfolding b64e_def using v utf8_encode_bytes by (intro b64_round_trip) (auto simp: list_all_iff)
  ultimately show ?thesis using v by (simp add: b64d_def)
qed

lemma scalar_relationship: "list_all scalar (ascii (relationship_name r))" "31 \<notin> set (ascii (relationship_name r))"
  by (cases r; simp add: ascii_def scalar_def)+

lemma object_id_decodes:
  assumes "list_all scalar q"
  shows "qualified_name_from_object_id (object_id p q) = Some q"
proof -
  have sep: "ascii ''/o/'' = [47, 111, 47]" by (simp add: ascii_def)
  have "47 \<notin> set (b64e q)" using b64e_plain [OF assms] by blast
  then have "rsplit_once (ascii ''/o/'') (object_id p q) = Some (ascii ''plsql://'' @ p, b64e q)"
    using rsplit_once_last [of "b64e q" 111 "ascii ''plsql://'' @ p"] unfolding object_id_def sep by (simp only: append_assoc) simp
  then show ?thesis using assms by (simp add: qualified_name_from_object_id_def)
qed

lemma edge_id_decodes:
  assumes "list_all scalar s" "list_all scalar t" "31 \<notin> set s" "31 \<notin> set t"
  shows "edge_parts (edge_id p (ascii (relationship_name r)) s t) = Some (ascii (relationship_name r), s, t)"
proof -
  let ?payload = "edge_payload (ascii (relationship_name r)) s t"
  have scalar: "list_all scalar ?payload"
    using assms scalar_relationship(1) [of r] by (simp add: edge_payload_def scalar_def)
  have "split_char 31 ?payload = [ascii (relationship_name r), s, t]"
    using assms scalar_relationship(2) [of r] by (simp add: edge_payload_def split_char_join split_char_plain)
  moreover have "rsplit_once (ascii ''/e/'') (edge_id p (ascii (relationship_name r)) s t) = Some (ascii ''edge://'' @ p, b64e ?payload)"
  proof -
    have sep: "ascii ''/e/'' = [47, 101, 47]" by (simp add: ascii_def)
    have "47 \<notin> set (b64e ?payload)" using b64e_plain [OF scalar] by blast
    then show ?thesis
      using rsplit_once_last [of "b64e ?payload" 101 "ascii ''edge://'' @ p"] unfolding edge_id_def sep by (simp only: append_assoc) simp
  qed
  ultimately show ?thesis using scalar by (simp add: edge_parts_def)
qed

text \<open>
  C28. Identifiers are reversible. The identifier of an object decodes to its qualified name and the
  identifier of an edge to its relationship and the names of its ends, whatever project identifier
  they carry, for names of decoded text, of which those of an edge lack the separator.
\<close>

theorem identifiers_round_trip:
  assumes "list_all scalar qualified" "list_all scalar source" "list_all scalar target"
    "31 \<notin> set source" "31 \<notin> set target"
  shows "qualified_name_from_object_id (object_id project qualified) = Some qualified \<and>
    edge_parts (edge_id project (ascii (relationship_name r)) source target)
      = Some (ascii (relationship_name r), source, target)"
  using assms object_id_decodes edge_id_decodes by blast

lemma identifiers_round_trip_witness:
  "qualified_name_from_object_id (object_id (ascii ''p/o/q'') [72, 82, 46, 211]) = Some [72, 82, 46, 211] \<and>
   edge_parts (edge_id (ascii ''p/o/q'') (ascii (relationship_name Calls)) [72, 82] [46, 211])
     = Some (ascii (relationship_name Calls), [72, 82], [46, 211])"
  by (rule identifiers_round_trip) (simp_all add: scalar_def)

text \<open>Different names have different identifiers.\<close>

lemma object_id_inj: "list_all scalar q \<Longrightarrow> list_all scalar q' \<Longrightarrow> object_id p q = object_id p q' \<longleftrightarrow> q = q'"
  by (metis object_id_decodes option.inject)

definition all_relationships :: "relationship list" where
  "all_relationships = [Calls, Reads, Writes, ViewDependsOn, ForeignKey, TriggerOn, Triggers, Indexes, SynonymFor,
     Declares, Contains]"

lemma relationship_name_inj: "relationship_name r = relationship_name r' \<longleftrightarrow> r = r'"
proof -
  have "distinct (map relationship_name all_relationships)" by (simp add: all_relationships_def)
  moreover have "r \<in> set all_relationships" for r by (cases r) (simp_all add: all_relationships_def)
  ultimately show ?thesis by (metis distinct_map inj_on_eq_iff)
qed

lemma ascii_inj: "ascii a = ascii b \<longleftrightarrow> a = b"
proof
  assume "ascii a = ascii b"
  then show "a = b" unfolding ascii_def by (rule map_injective) (simp add: inj_def)
qed simp

lemma edge_id_inj:
  assumes "list_all scalar s" "list_all scalar t" "31 \<notin> set s" "31 \<notin> set t"
    "list_all scalar s'" "list_all scalar t'" "31 \<notin> set s'" "31 \<notin> set t'"
  shows "edge_id p (ascii (relationship_name r)) s t = edge_id p (ascii (relationship_name r')) s' t' \<longleftrightarrow>
    r = r' \<and> s = s' \<and> t = t'"
  using edge_id_decodes [OF assms(1-4), of p r] edge_id_decodes [OF assms(5-8), of p r']
  by (metis ascii_inj option.inject prod.inject relationship_name_inj)

end
