(* ===== verification/Plsql_Catalog.thy ===== *)
theory Plsql_Catalog
  imports Plsql_Graph
begin

text \<open>
  The stored graph and the queries of the catalog (\<open>app/integrations/plsql/catalog.py\<close>). A query is
  the list of rows that its text asks for: the matches of its pattern and conditions, in its order,
  cut at its limit. Rows that the order does not tell apart come in the order of the store. A null
  in a comparison excludes a match.
\<close>

section \<open>The store\<close>

text \<open>Property values of the extractor: texts, numbers without fraction and booleans.\<close>

datatype db_value = VText ustring | VInt int | VBool bool

record coordinates =
  co_file :: "db_value option"
  co_line :: "db_value option"
  co_column :: "db_value option"
  co_start :: "db_value option"
  co_end :: "db_value option"

text \<open>Objects, edges between objects by position, files, and the declarations of objects in files.\<close>

record db_node =
  dn_labels :: "string list"
  dn_project :: "ustring option"
  dn_name :: "ustring option"
  dn_qualified :: "ustring option"
  dn_coordinates :: coordinates

record db_edge =
  de_source :: nat
  de_target :: nat
  de_type :: string
  de_resolution :: "string option"
  de_coordinates :: coordinates
  de_derived :: "db_value option"
  de_events :: "db_value option"
  de_evidence_kind :: "db_value option"
  de_via_table :: "db_value option"

record db_file =
  df_project :: "ustring option"
  df_path :: "ustring option"
  df_id :: ustring

record db_declaration =
  dd_file :: nat
  dd_object :: nat
  dd_coordinates :: coordinates

record db_graph =
  dg_nodes :: "db_node list"
  dg_edges :: "db_edge list"
  dg_files :: "db_file list"
  dg_declarations :: "db_declaration list"

text \<open>A row of the edge queries.\<close>

record edge_row =
  er_source :: "ustring option"
  er_source_name :: "ustring option"
  er_source_labels :: "string list"
  er_target :: "ustring option"
  er_target_name :: "ustring option"
  er_target_labels :: "string list"
  er_type :: string
  er_resolution :: string
  er_coordinates :: coordinates
  er_derived :: "db_value option"
  er_events :: "db_value option"
  er_evidence_kind :: "db_value option"
  er_via_table :: "db_value option"

section \<open>Conditions\<close>

definition coalesce :: "ustring option \<Rightarrow> ustring" where
  "coalesce v = (case v of None \<Rightarrow> [] | Some s \<Rightarrow> s)"

definition text_contains :: "ustring \<Rightarrow> ustring \<Rightarrow> bool" where
  "text_contains hay needle \<longleftrightarrow> (\<exists>n\<in>set [0..<length hay + 1]. take (length needle) (drop n hay) = needle)"

definition text_starts :: "ustring \<Rightarrow> ustring \<Rightarrow> bool" where
  "text_starts s p \<longleftrightarrow> take (length p) s = p"

definition has_kind :: "string list \<Rightarrow> bool" where
  "has_kind labels \<longleftrightarrow> (\<exists>l\<in>set labels. l \<in> kind_label ` set all_kinds)"

definition kind_constraint :: "ustring option \<Rightarrow> string list \<Rightarrow> bool" where
  "kind_constraint qualified labels \<longleftrightarrow> qualified \<noteq> None \<and> has_kind labels"

definition name_search_clause :: "(ustring \<Rightarrow> ustring) \<Rightarrow> ustring \<Rightarrow> db_node \<Rightarrow> bool" where
  "name_search_clause lower needle n \<longleftrightarrow>
     needle = [] \<or> text_contains (lower (coalesce (dn_qualified n))) needle \<or>
     text_contains (lower (coalesce (dn_name n))) needle"

definition kind_filter :: "object_kind list \<Rightarrow> string list \<Rightarrow> bool" where
  "kind_filter kinds labels \<longleftrightarrow> kinds = [] \<or> (\<exists>l\<in>set labels. l \<in> kind_label ` set kinds)"

definition searchable :: "(ustring \<Rightarrow> ustring) \<Rightarrow> ustring \<Rightarrow> ustring \<Rightarrow> object_kind list \<Rightarrow> db_node \<Rightarrow> bool" where
  "searchable lower pid needle kinds n \<longleftrightarrow>
     dn_project n = Some pid \<and> kind_constraint (dn_qualified n) (dn_labels n) \<and>
     ''Synonym'' \<notin> set (dn_labels n) \<and> name_search_clause lower needle n \<and> kind_filter kinds (dn_labels n)"

section \<open>Objects\<close>

definition search_objects_rows :: "(ustring \<Rightarrow> ustring) \<Rightarrow> db_graph \<Rightarrow> ustring \<Rightarrow> ustring \<Rightarrow> object_kind list \<Rightarrow> nat \<Rightarrow> db_node list" where
  "search_objects_rows lower g pid needle kinds limit =
     take limit (sort_key (\<lambda>n. (lower (coalesce (dn_qualified n)), coalesce (dn_name n)))
       (filter (searchable lower pid needle kinds) (dg_nodes g)))"

definition count_search_objects :: "(ustring \<Rightarrow> ustring) \<Rightarrow> db_graph \<Rightarrow> ustring \<Rightarrow> ustring \<Rightarrow> object_kind list \<Rightarrow> nat" where
  "count_search_objects lower g pid needle kinds = length (filter (searchable lower pid needle kinds) (dg_nodes g))"

definition synonym_last :: "db_node list \<Rightarrow> db_node list" where
  "synonym_last ns = sort_key (\<lambda>n. if ''Synonym'' \<in> set (dn_labels n) then 1 else 0 :: nat) ns"

definition object_by_qualified_name :: "db_graph \<Rightarrow> ustring \<Rightarrow> ustring \<Rightarrow> db_node list" where
  "object_by_qualified_name g pid q =
     take 1 (synonym_last (filter (\<lambda>n. dn_project n = Some pid \<and> dn_qualified n = Some q) (dg_nodes g)))"

definition objects_by_qualified_names :: "db_graph \<Rightarrow> ustring \<Rightarrow> ustring list \<Rightarrow> db_node list" where
  "objects_by_qualified_names g pid qs =
     synonym_last (filter (\<lambda>n. dn_project n = Some pid \<and> dn_qualified n \<in> Some ` set qs) (dg_nodes g))"

text \<open>The order of property values: texts, booleans, numbers and then null.\<close>

fun value_rank :: "db_value option \<Rightarrow> nat \<times> int \<times> ustring" where
  "value_rank (Some (VText s)) = (0, 0, s)"
| "value_rank (Some (VBool b)) = (1, of_bool b, [])"
| "value_rank (Some (VInt n)) = (2, n, [])"
| "value_rank None = (3, 0, [])"

definition object_declaration :: "db_graph \<Rightarrow> ustring \<Rightarrow> ustring \<Rightarrow> (db_file \<times> coordinates) list" where
  "object_declaration g pid q =
     take 1 (sort_key (\<lambda>(f, c). (value_rank (co_start c), df_path f = None, coalesce (df_path f)))
       (map (\<lambda>d. (dg_files g ! dd_file d, dd_coordinates d))
         (filter (\<lambda>d. dn_project (dg_nodes g ! dd_object d) = Some pid \<and>
                      dn_qualified (dg_nodes g ! dd_object d) = Some q) (dg_declarations g))))"

definition source_files_rows :: "db_graph \<Rightarrow> ustring \<Rightarrow> db_file list" where
  "source_files_rows g pid = filter (\<lambda>f. df_project f = None \<or> df_project f = Some pid) (dg_files g)"

section \<open>Edges\<close>

definition row_of_edge :: "db_graph \<Rightarrow> db_edge \<Rightarrow> edge_row" where
  "row_of_edge g e =
     (let s = dg_nodes g ! de_source e; t = dg_nodes g ! de_target e in
      \<lparr>er_source = dn_qualified s, er_source_name = dn_name s, er_source_labels = dn_labels s,
       er_target = dn_qualified t, er_target_name = dn_name t, er_target_labels = dn_labels t,
       er_type = de_type e,
       er_resolution = (case de_resolution e of None \<Rightarrow> ''EXACT'' | Some r \<Rightarrow> r),
       er_coordinates = de_coordinates e, er_derived = de_derived e, er_events = de_events e,
       er_evidence_kind = de_evidence_kind e, er_via_table = de_via_table e\<rparr>)"

text \<open>The rows of the edges whose source is in the project.\<close>

definition project_rows :: "db_graph \<Rightarrow> ustring \<Rightarrow> edge_row list" where
  "project_rows g pid =
     map (row_of_edge g) (filter (\<lambda>e. dn_project (dg_nodes g ! de_source e) = Some pid) (dg_edges g))"

definition edge_order :: "(ustring \<Rightarrow> ustring) \<Rightarrow> edge_row list \<Rightarrow> edge_row list" where
  "edge_order lower rows =
     sort_key (\<lambda>r. (er_type r, lower (coalesce (er_source r)), lower (coalesce (er_target r)))) rows"

definition of_types :: "relationship list \<Rightarrow> edge_row \<Rightarrow> bool" where
  "of_types rels r \<longleftrightarrow> er_type r \<in> relationship_name ` set rels"

definition edge_validity :: "edge_row \<Rightarrow> bool" where
  "edge_validity r \<longleftrightarrow>
     er_resolution r \<in> resolution_name ` {Exact, Inferred, Ambiguous, Unresolved} \<and>
     kind_constraint (er_source r) (er_source_labels r) \<and> kind_constraint (er_target r) (er_target_labels r)"

definition calls_to :: "ustring \<Rightarrow> edge_row \<Rightarrow> bool" where
  "calls_to q r \<longleftrightarrow> er_type r = ''CALLS'' \<and> er_target r = Some q \<and> edge_validity r"

definition calls_from :: "ustring \<Rightarrow> edge_row \<Rightarrow> bool" where
  "calls_from q r \<longleftrightarrow> er_type r = ''CALLS'' \<and> er_source r = Some q \<and> edge_validity r"

definition own_name :: "ustring \<Rightarrow> ustring option \<Rightarrow> bool" where
  "own_name q v \<longleftrightarrow> (case v of None \<Rightarrow> False | Some n \<Rightarrow> n = q \<or> text_starts n (q @ [46]))"

definition table_access :: "ustring \<Rightarrow> edge_row \<Rightarrow> bool" where
  "table_access q r \<longleftrightarrow> of_types table_access_relationships r \<and>
     (own_name q (er_source r) \<and> (\<exists>l\<in>set (er_target_labels r). l \<in> {''Table'', ''View''}) \<or> own_name q (er_target r)) \<and>
     edge_validity r"

definition unresolved_edge :: "edge_row \<Rightarrow> bool" where
  "unresolved_edge r \<longleftrightarrow> of_types (Calls # table_access_relationships) r \<and>
     er_resolution r \<in> {''AMBIGUOUS'', ''UNRESOLVED''} \<and> edge_validity r"

text \<open>A list query and its count, with the same conditions.\<close>

definition edge_query :: "(ustring \<Rightarrow> ustring) \<Rightarrow> db_graph \<Rightarrow> ustring \<Rightarrow> (edge_row \<Rightarrow> bool) \<Rightarrow> nat \<Rightarrow> edge_row list" where
  "edge_query lower g pid P limit = take limit (edge_order lower (filter P (project_rows g pid)))"

definition edge_count :: "db_graph \<Rightarrow> ustring \<Rightarrow> (edge_row \<Rightarrow> bool) \<Rightarrow> nat" where
  "edge_count g pid P = length (filter P (project_rows g pid))"

definition edge_by_triple :: "db_graph \<Rightarrow> ustring \<Rightarrow> string \<Rightarrow> ustring \<Rightarrow> ustring \<Rightarrow> edge_row list" where
  "edge_by_triple g pid rel s t =
     take 2 (filter (\<lambda>r. er_type r = rel \<and> er_source r = Some s \<and> er_target r = Some t) (project_rows g pid))"

definition leaves_from :: "relationship list \<Rightarrow> ustring list \<Rightarrow> edge_row \<Rightarrow> bool" where
  "leaves_from rels sources r \<longleftrightarrow> of_types rels r \<and> er_source r \<in> Some ` set sources"

definition arrives_at :: "relationship list \<Rightarrow> ustring list \<Rightarrow> edge_row \<Rightarrow> bool" where
  "arrives_at rels targets r \<longleftrightarrow> of_types rels r \<and> er_target r \<in> Some ` set targets"

definition member_name :: "ustring \<Rightarrow> ustring option \<Rightarrow> bool" where
  "member_name prefix v \<longleftrightarrow> (case v of None \<Rightarrow> False | Some n \<Rightarrow> text_starts n prefix)"

definition member_endpoints :: "db_graph \<Rightarrow> ustring \<Rightarrow> ustring \<Rightarrow> nat \<Rightarrow> edge_row list" where
  "member_endpoints g pid prefix limit =
     take limit (filter (\<lambda>r. of_types (Calls # table_access_relationships) r \<and>
       (member_name prefix (er_source r) \<or> member_name prefix (er_target r))) (project_rows g pid))"

section \<open>Lemmas\<close>

lemma set_edge_order [simp]: "set (edge_order lower rows) = set rows"
  by (simp add: edge_order_def)

lemma length_edge_order [simp]: "length (edge_order lower rows) = length rows"
  by (simp add: edge_order_def)

text \<open>A query that returns fewer rows than its limit has returned all rows.\<close>

lemma edge_query_complete:
  "length (edge_query lower g pid P (n + 1)) \<le> n \<Longrightarrow>
     edge_query lower g pid P (n + 1) = edge_order lower (filter P (project_rows g pid))"
  by (simp add: edge_query_def)

lemma edge_query_set:
  "length (edge_query lower g pid P (n + 1)) \<le> n \<Longrightarrow>
     set (edge_query lower g pid P (n + 1)) = {r \<in> set (project_rows g pid). P r}"
  by (metis edge_query_complete set_edge_order set_filter)

end
