(* ===== verification/Plsql_Client.thy ===== *)
theory Plsql_Client
  imports Plsql_Catalog
begin

text \<open>
  The analysis client over the graph database (\<open>app/integrations/plsql/neo4j_client.py\<close>) and the
  access to source files (\<open>app/integrations/plsql/source.py\<close>): queries with the failures of the
  driver, the mapping of rows to records, the lookup of objects with its cache, and the lists of
  dependencies. The traversals are in \<open>Plsql_Traversal\<close>. The graph does not change while the client
  runs (it is loaded read-only); which query fails, and how, is the environment's choice. Operations
  are functions from the state of the client to a result or error and the new state.
\<close>

section \<open>Environment and state\<close>

datatype driver_failure =
  AuthFailure | ConfigurationFailure | ServiceUnavailable | SessionExpired | OtherFailure ustring | ClientTimeout

text \<open>The file system below the source root, by path components; links are resolved by it.\<close>

record source_files =
  sf_root :: "ustring list"
  sf_resolve :: "ustring list \<Rightarrow> ustring list option"
  sf_size :: "ustring list \<Rightarrow> nat option"
  sf_lines :: "ustring list \<Rightarrow> ustring list option"

record plsql_env =
  pe_graph :: db_graph
  pe_fault :: "nat \<Rightarrow> driver_failure option"
  pe_lower :: "ustring \<Rightarrow> ustring"
  pe_casefold :: "ustring \<Rightarrow> ustring"
  pe_digit :: "nat \<Rightarrow> nat option"
  pe_sha1 :: "ustring \<Rightarrow> ustring"
  pe_now :: "nat \<Rightarrow> int"
  pe_project :: ustring
  pe_max_rows :: int
  pe_max_hops :: int
  pe_max_traversal_edges :: int
  pe_source_root :: "source_files option"
  pe_max_source_bytes :: nat
  pe_cache_ttl :: int
  pe_cache_max :: nat

type_synonym impact_key = "ustring \<times> nat \<times> direction \<times> relationship list"

text \<open>\<open>cs_queries\<close> and \<open>cs_clock\<close> count the queries sent and the readings of the clock.\<close>

record client_state =
  cs_queries :: nat
  cs_clock :: nat
  cs_file_map :: "(ustring \<rightharpoonup> ustring) option"
  cs_objects :: "(ustring \<times> object_record option) list"
  cs_impact :: "(impact_key \<times> (int \<times> impact_item list \<times> impact_summary)) list"

definition fresh_client :: client_state where
  "fresh_client = \<lparr>cs_queries = 0, cs_clock = 0, cs_file_map = None, cs_objects = [], cs_impact = []\<rparr>"

type_synonym 'a act = "client_state \<Rightarrow> (plsql_error + 'a) \<times> client_state"

definition act_return :: "'a \<Rightarrow> 'a act" where
  "act_return x st = (Inr x, st)"

definition act_raise :: "plsql_error \<Rightarrow> 'a act" where
  "act_raise e st = (Inl e, st)"

definition act_bind :: "'a act \<Rightarrow> ('a \<Rightarrow> 'b act) \<Rightarrow> 'b act" where
  "act_bind m f st = (case m st of (Inl e, st') \<Rightarrow> (Inl e, st') | (Inr x, st') \<Rightarrow> f x st')"

definition act_lift :: "plsql_error + 'a \<Rightarrow> 'a act" where
  "act_lift r st = (r, st)"

text \<open>Bounds of a page: \<open>max(1, min(limit, self._max_rows))\<close>.\<close>

definition max_rows :: "plsql_env \<Rightarrow> int" where
  "max_rows env = max 1 (pe_max_rows env)"

definition bounded_limit :: "plsql_env \<Rightarrow> int \<Rightarrow> nat" where
  "bounded_limit env limit = nat (max 1 (min limit (max_rows env)))"

definition traversal_budget :: "plsql_env \<Rightarrow> nat" where
  "traversal_budget env = nat (max 1 (pe_max_traversal_edges env))"

definition bounded_hops :: "plsql_env \<Rightarrow> int \<Rightarrow> nat" where
  "bounded_hops env hops = nat (max 1 (min hops (max 1 (pe_max_hops env))))"

section \<open>Queries\<close>

definition map_driver_error :: "plsql_env \<Rightarrow> driver_failure \<Rightarrow> plsql_error" where
  "map_driver_error env f =
     (case f of
        AuthFailure \<Rightarrow> ConfigurationError
      | ConfigurationFailure \<Rightarrow> ConfigurationError
      | ServiceUnavailable \<Rightarrow> Unavailable
      | SessionExpired \<Rightarrow> Unavailable
      | OtherFailure code \<Rightarrow>
          if text_contains (pe_casefold env code) (ascii ''timeout'') \<or>
             text_contains (pe_casefold env code) (ascii ''terminated'') then QueryTimeout else Unavailable
      | ClientTimeout \<Rightarrow> QueryTimeout)"

text \<open>One query: its rows, or what the driver's failure is mapped to.\<close>

definition execute :: "plsql_env \<Rightarrow> 'a \<Rightarrow> 'a act" where
  "execute env rows st =
     (case pe_fault env (cs_queries st) of
        Some f \<Rightarrow> Inl (map_driver_error env f)
      | None \<Rightarrow> Inr rows, st\<lparr>cs_queries := cs_queries st + 1\<rparr>)"

section \<open>Files\<close>

definition file_entry :: "db_file \<Rightarrow> (ustring \<rightharpoonup> ustring) \<Rightarrow> (ustring \<rightharpoonup> ustring)" where
  "file_entry f m =
     (case df_path f of
        None \<Rightarrow> m
      | Some p \<Rightarrow> if p = [] \<or> df_id f = [] then m else m(df_id f \<mapsto> p, p \<mapsto> p))"

definition file_paths :: "plsql_env \<Rightarrow> (ustring \<rightharpoonup> ustring)" where
  "file_paths env = fold file_entry (source_files_rows (pe_graph env) (pe_project env)) Map.empty"

definition file_map :: "plsql_env \<Rightarrow> (ustring \<rightharpoonup> ustring) act" where
  "file_map env st =
     (case cs_file_map st of
        Some m \<Rightarrow> (Inr m, st)
      | None \<Rightarrow>
          act_bind (execute env (source_files_rows (pe_graph env) (pe_project env)))
            (\<lambda>rows st'. let m = fold file_entry rows Map.empty in (Inr m, st'\<lparr>cs_file_map := Some m\<rparr>)) st)"

text \<open>\<open>_resolve_path_sync\<close>: an identifier \<open>file://project\<close> without a path has no second component.\<close>

definition resolve_path :: "(ustring \<rightharpoonup> ustring) \<Rightarrow> ustring option \<Rightarrow> plsql_error + ustring option" where
  "resolve_path m file_id =
     (case file_id of
        None \<Rightarrow> Inr None
      | Some f \<Rightarrow>
          if f = [] then Inr None
          else case m f of
                 Some p \<Rightarrow> Inr (Some p)
               | None \<Rightarrow>
                   if text_starts f (ascii ''file://'')
                   then (case dropWhile (\<lambda>c. c \<noteq> 47) (drop 7 f) of
                           [] \<Rightarrow> Inl Uncaught
                         | _ # rest \<Rightarrow> Inr (Some rest))
                   else Inr None)"

section \<open>Values\<close>

fun value_text :: "db_value \<Rightarrow> ustring" where
  "value_text (VText s) = s"
| "value_text (VInt n) = int_digits n"
| "value_text (VBool b) = (if b then ascii ''True'' else ascii ''False'')"

definition str_or_none :: "db_value option \<Rightarrow> ustring option" where
  "str_or_none v = map_option value_text v"

text \<open>\<open>int(text)\<close>: blanks around it, a sign, digits with single underscores between them.\<close>

definition digits_value :: "(nat \<Rightarrow> nat option) \<Rightarrow> ustring \<Rightarrow> int option" where
  "digits_value digit s =
     (let parts = split_char 95 s in
      if [] \<in> set parts \<or> (\<exists>c\<in>set (concat parts). digit c = None) then None
      else Some (fold (\<lambda>c n. 10 * n + int (the (digit c))) (concat parts) 0))"

definition int_text :: "(nat \<Rightarrow> nat option) \<Rightarrow> ustring \<Rightarrow> int option" where
  "int_text digit s =
     (case strip_text s of
        [] \<Rightarrow> None
      | c # cs \<Rightarrow>
          if c = 45 then map_option uminus (digits_value digit cs)
          else if c = 43 then digits_value digit cs
          else digits_value digit (c # cs))"

definition int_or_none :: "plsql_env \<Rightarrow> db_value option \<Rightarrow> int option" where
  "int_or_none env v =
     (case v of Some (VInt n) \<Rightarrow> Some n | Some (VText s) \<Rightarrow> int_text (pe_digit env) s | _ \<Rightarrow> None)"

section \<open>Records from rows\<close>

definition evidence_of :: "plsql_env \<Rightarrow> (ustring \<rightharpoonup> ustring) \<Rightarrow> coordinates \<Rightarrow> plsql_error + source_evidence option" where
  "evidence_of env m co =
     (let file_id = str_or_none (co_file co) in
      case resolve_path m file_id of
        Inl e \<Rightarrow> Inl e
      | Inr path \<Rightarrow>
          Inr (case (file_id, path) of
             (Some f, Some p) \<Rightarrow>
               if f = [] \<or> p = [] then None
               else Some \<lparr>se_file = f, se_path = p, se_start_line = int_or_none env (co_line co),
                          se_start_column = int_or_none env (co_column co),
                          se_start_offset = int_or_none env (co_start co),
                          se_end_offset = int_or_none env (co_end co)\<rparr>
           | _ \<Rightarrow> None))"

definition kind_priority :: "object_kind list" where
  "kind_priority = [KProcedure, KFunction, KPackage, KTrigger, KTable, KView, KSequence, KIndex, KType,
     KAnonymousBlock, KSynonym]"

definition kind_from_labels :: "string list \<Rightarrow> object_kind option" where
  "kind_from_labels labels = List.find (\<lambda>k. kind_label k \<in> set labels) kind_priority"

text \<open>\<open>a or b\<close> for a text that may be missing.\<close>

definition text_or :: "ustring option \<Rightarrow> ustring \<Rightarrow> ustring" where
  "text_or v d = (case v of None \<Rightarrow> d | Some s \<Rightarrow> if s = [] then d else s)"

definition object_from_node :: "plsql_env \<Rightarrow> (ustring \<rightharpoonup> ustring) \<Rightarrow> db_node \<Rightarrow> plsql_error + object_record option" where
  "object_from_node env m n =
     (case (kind_from_labels (dn_labels n), dn_qualified n) of
        (Some kind, Some q) \<Rightarrow>
          if q = [] then Inr None
          else (case evidence_of env m (dn_coordinates n) of
                  Inl e \<Rightarrow> Inl e
                | Inr evidence \<Rightarrow>
                    Inr (Some \<lparr>ob_id = object_id (pe_project env) q, ob_kind = kind,
                      ob_name = text_or (dn_name n) (last_part q), ob_schema = schema_of q, ob_qualified = q,
                      ob_project = pe_project env, ob_owner = owner_of q,
                      ob_signature = None, ob_return_type = None, ob_evidence = evidence\<rparr>))
      | _ \<Rightarrow> Inr None)"

definition via_table_reference :: "plsql_env \<Rightarrow> db_value option \<Rightarrow> object_reference option" where
  "via_table_reference env raw =
     (case raw of
        Some (VText s) \<Rightarrow>
          if text_starts s (ascii ''plsql://'') then
            (case split_char 47 (drop 8 s) of
               [project, schema, token, name] \<Rightarrow>
                 (case kind_of_token token of
                    None \<Rightarrow> None
                  | Some kind \<Rightarrow>
                      if schema = [] \<or> name = [] then None
                      else Some \<lparr>or_id = object_id (pe_project env) (schema @ [46] @ name), or_kind = kind,
                                 or_name = name, or_qualified = schema @ [46] @ name\<rparr>)
             | _ \<Rightarrow> None)
          else None
      | _ \<Rightarrow> None)"

definition edge_end :: "plsql_env \<Rightarrow> ustring \<Rightarrow> object_kind \<Rightarrow> ustring option \<Rightarrow> object_reference" where
  "edge_end env q kind name =
     \<lparr>or_id = object_id (pe_project env) q, or_kind = kind, or_name = text_or name (last_part q), or_qualified = q\<rparr>"

definition dependency_from_row :: "plsql_env \<Rightarrow> (ustring \<rightharpoonup> ustring) \<Rightarrow> edge_row \<Rightarrow> plsql_error + dependency option" where
  "dependency_from_row env m r =
     (case (relationship_of (er_type r), resolution_of (if er_resolution r = [] then ''EXACT'' else er_resolution r),
            er_source r, er_target r, kind_from_labels (er_source_labels r), kind_from_labels (er_target_labels r)) of
        (Some rel, Some res, Some s, Some t, Some sk, Some tk) \<Rightarrow>
          if s = [] \<or> t = [] then Inr None
          else (case evidence_of env m (er_coordinates r) of
                  Inl e \<Rightarrow> Inl e
                | Inr evidence \<Rightarrow>
                    Inr (Some \<lparr>dp_id = edge_id (pe_project env) (ascii (relationship_name rel)) s t,
                      dp_relationship = rel, dp_resolution = res,
                      dp_source = edge_end env s sk (er_source_name r), dp_target = edge_end env t tk (er_target_name r),
                      dp_evidence = evidence, dp_evidence_kind = str_or_none (er_evidence_kind r),
                      dp_derived = (case er_derived r of Some (VBool b) \<Rightarrow> Some b | _ \<Rightarrow> None),
                      dp_events = str_or_none (er_events r),
                      dp_via_table = via_table_reference env (er_via_table r)\<rparr>))
      | _ \<Rightarrow> Inr None)"

text \<open>The records of rows; the first row that raises ends the request.\<close>

fun map_rows :: "('r \<Rightarrow> plsql_error + 'a option) \<Rightarrow> 'r list \<Rightarrow> plsql_error + 'a list" where
  "map_rows f [] = Inr []"
| "map_rows f (r # rs) =
     (case f r of
        Inl e \<Rightarrow> Inl e
      | Inr v \<Rightarrow>
          (case map_rows f rs of
             Inl e \<Rightarrow> Inl e
           | Inr xs \<Rightarrow> Inr (case v of None \<Rightarrow> xs | Some x \<Rightarrow> x # xs)))"

section \<open>Lists of dependencies\<close>

definition dependency_page :: "plsql_env \<Rightarrow> (edge_row \<Rightarrow> bool) \<Rightarrow> int \<Rightarrow> dependency page act" where
  "dependency_page env P limit =
     (let bounded = bounded_limit env limit in
      act_bind (file_map env) (\<lambda>m.
      act_bind (execute env (edge_query (pe_lower env) (pe_graph env) (pe_project env) P (bounded + 1))) (\<lambda>rows.
      act_bind (act_lift (map_rows (dependency_from_row env m) rows)) (\<lambda>items.
      act_bind (execute env (edge_count (pe_graph env) (pe_project env) P)) (\<lambda>total.
      act_return \<lparr>pg_items = take bounded items, pg_truncated = (bounded < length items), pg_total = total\<rparr>)))))"

section \<open>Objects\<close>

definition cache_object :: "ustring \<Rightarrow> object_record option \<Rightarrow> unit act" where
  "cache_object i v st = (Inr (), st\<lparr>cs_objects := (i, v) # cs_objects st\<rparr>)"

definition lookup_object :: "plsql_env \<Rightarrow> ustring \<Rightarrow> object_record option act" where
  "lookup_object env q =
     act_bind (execute env (object_by_qualified_name (pe_graph env) (pe_project env) q)) (\<lambda>rows.
       case rows of
         [] \<Rightarrow> act_return None
       | n # _ \<Rightarrow> act_bind (file_map env) (\<lambda>m. act_lift (object_from_node env m n)))"

definition get_object :: "plsql_env \<Rightarrow> ustring \<Rightarrow> object_record option act" where
  "get_object env i st =
     (case map_of (cs_objects st) i of
        Some r \<Rightarrow> (Inr r, st)
      | None \<Rightarrow>
          act_bind
            (case qualified_name_from_object_id i of None \<Rightarrow> act_return None | Some q \<Rightarrow> lookup_object env q)
            (\<lambda>r. act_bind (cache_object i r) (\<lambda>_. act_return r)) st)"

definition require_object :: "plsql_env \<Rightarrow> ustring \<Rightarrow> object_record act" where
  "require_object env i =
     act_bind (get_object env i) (\<lambda>r. case r of None \<Rightarrow> act_raise ObjectNotFound | Some x \<Rightarrow> act_return x)"

text \<open>The batched lookup, in chunks of 500 names; \<open>found.setdefault\<close> keeps the first record of a name.\<close>

definition first_record :: "object_record list \<Rightarrow> ustring \<Rightarrow> object_record option" where
  "first_record rs q = List.find (\<lambda>r. ob_qualified r = q) rs"

fun cache_all :: "plsql_env \<Rightarrow> object_record list \<Rightarrow> ustring list \<Rightarrow> unit act" where
  "cache_all env found [] = act_return ()"
| "cache_all env found (q # qs) =
     act_bind (cache_object (object_id (pe_project env) q) (first_record found q)) (\<lambda>_. cache_all env found qs)"

function lookup_chunks :: "plsql_env \<Rightarrow> (ustring \<rightharpoonup> ustring) \<Rightarrow> ustring list \<Rightarrow> (ustring \<times> object_record option) list act" where
  "lookup_chunks env m qs =
     (if qs = [] then act_return []
      else
        act_bind (execute env (objects_by_qualified_names (pe_graph env) (pe_project env) (take 500 qs))) (\<lambda>rows.
        act_bind (act_lift (map_rows (object_from_node env m) rows)) (\<lambda>found.
        act_bind (cache_all env found (take 500 qs)) (\<lambda>_.
        act_bind (lookup_chunks env m (drop 500 qs)) (\<lambda>rest.
        act_return (map (\<lambda>q. (q, first_record found q)) (take 500 qs) @ rest))))))"
  by pat_completeness auto
termination by (relation "measure (\<lambda>(env, m, qs). length qs)") auto

declare lookup_chunks.simps [simp del]

definition objects_by_name :: "plsql_env \<Rightarrow> ustring list \<Rightarrow> (ustring \<times> object_record option) list act" where
  "objects_by_name env qs st =
     (let names = unique qs;
          hit = (\<lambda>q. map_of (cs_objects st) (object_id (pe_project env) q));
          resolved = List.map_filter (\<lambda>q. map_option (\<lambda>r. (q, r)) (hit q)) names;
          missing = filter (\<lambda>q. hit q = None) names
      in if missing = [] then (Inr resolved, st)
         else act_bind (file_map env) (\<lambda>m. act_bind (lookup_chunks env m missing) (\<lambda>rest. act_return (resolved @ rest))) st)"

definition search_objects :: "plsql_env \<Rightarrow> ustring \<Rightarrow> object_kind list \<Rightarrow> int \<Rightarrow> object_record page act" where
  "search_objects env text kinds limit =
     (let bounded = bounded_limit env limit;
          needle = strip_text (pe_casefold env text);
          g = pe_graph env; pid = pe_project env in
      act_bind (execute env (search_objects_rows (pe_lower env) g pid needle kinds (bounded + 1))) (\<lambda>rows.
      act_bind (execute env (count_search_objects (pe_lower env) g pid needle kinds)) (\<lambda>total.
      act_bind (file_map env) (\<lambda>m.
      act_bind (act_lift (map_rows (object_from_node env m) (take bounded rows))) (\<lambda>items.
      act_return \<lparr>pg_items = items, pg_truncated = (bounded < total), pg_total = total\<rparr>)))))"

section \<open>The endpoints over lists\<close>

definition callers_of :: "plsql_env \<Rightarrow> ustring \<Rightarrow> int \<Rightarrow> dependency page act" where
  "callers_of env i limit =
     act_bind (require_object env i) (\<lambda>r. dependency_page env (calls_to (ob_qualified r)) limit)"

definition callees_of :: "plsql_env \<Rightarrow> ustring \<Rightarrow> int \<Rightarrow> dependency page act" where
  "callees_of env i limit =
     act_bind (require_object env i) (\<lambda>r. dependency_page env (calls_from (ob_qualified r)) limit)"

definition table_access_of :: "plsql_env \<Rightarrow> ustring \<Rightarrow> int \<Rightarrow> dependency page act" where
  "table_access_of env i limit =
     act_bind (require_object env i) (\<lambda>r. dependency_page env (table_access (ob_qualified r)) limit)"

definition unresolved_references :: "plsql_env \<Rightarrow> int \<Rightarrow> dependency page act" where
  "unresolved_references env limit = dependency_page env unresolved_edge limit"

fun first_mapped :: "('r \<Rightarrow> plsql_error + 'a option) \<Rightarrow> 'r list \<Rightarrow> plsql_error + 'a option" where
  "first_mapped f [] = Inr None"
| "first_mapped f (r # rs) =
     (case f r of Inl e \<Rightarrow> Inl e | Inr (Some x) \<Rightarrow> Inr (Some x) | Inr None \<Rightarrow> first_mapped f rs)"

definition relationship_evidence :: "plsql_env \<Rightarrow> ustring \<Rightarrow> dependency option act" where
  "relationship_evidence env i =
     (case edge_parts i of
        None \<Rightarrow> act_return None
      | Some (rel, s, t) \<Rightarrow>
          (case List.find (\<lambda>r. ascii (relationship_name r) = rel) trigger_aware of
             None \<Rightarrow> act_return None
           | Some r \<Rightarrow>
               act_bind (file_map env) (\<lambda>m.
               act_bind (execute env (edge_by_triple (pe_graph env) (pe_project env) (relationship_name r) s t)) (\<lambda>rows.
               act_lift (first_mapped (dependency_from_row env m) rows)))))"

record health_category =
  hc_count :: nat
  hc_items :: "dependency list"

record health_record =
  hr_total :: nat
  hr_unresolved :: health_category
  hr_ambiguous :: health_category
  hr_truncated :: bool

text \<open>The scope of a report: an object, or a package with its members.\<close>

definition in_scope :: "object_record option \<Rightarrow> dependency \<Rightarrow> bool" where
  "in_scope r e \<longleftrightarrow>
     (case r of
        None \<Rightarrow> True
      | Some x \<Rightarrow>
          or_qualified (dp_source e) = ob_qualified x \<or>
          ob_kind x = KPackage \<and> text_starts (or_qualified (dp_source e)) (ob_qualified x @ [46]))"

definition health_of :: "nat \<Rightarrow> (dependency \<Rightarrow> bool) \<Rightarrow> dependency list \<Rightarrow> health_record" where
  "health_of bounded scoped edges =
     (let unresolved = filter (\<lambda>e. dp_resolution e = Unresolved \<and> scoped e) edges;
          ambiguous = filter (\<lambda>e. dp_resolution e = Ambiguous \<and> scoped e) edges
      in \<lparr>hr_total = length unresolved + length ambiguous,
          hr_unresolved = \<lparr>hc_count = length unresolved, hc_items = take bounded unresolved\<rparr>,
          hr_ambiguous = \<lparr>hc_count = length ambiguous, hc_items = take bounded ambiguous\<rparr>,
          hr_truncated = (bounded < length unresolved \<or> bounded < length ambiguous)\<rparr>)"

definition health :: "plsql_env \<Rightarrow> ustring option \<Rightarrow> int \<Rightarrow> health_record act" where
  "health env i limit =
     act_bind (case i of None \<Rightarrow> act_return None | Some j \<Rightarrow> act_bind (require_object env j) (\<lambda>r. act_return (Some r))) (\<lambda>r.
     act_bind (unresolved_references env (max_rows env)) (\<lambda>edges.
     act_return (health_of (bounded_limit env limit) (in_scope r) (pg_items edges))))"

record dependency_summary =
  ds_counts :: "(category \<times> nat) list"
  ds_items :: "dependency list"
  ds_truncated :: bool
  ds_total :: nat

definition category_summary ::
  "nat \<Rightarrow> category \<Rightarrow> dependency page \<Rightarrow> dependency page \<Rightarrow> dependency page \<Rightarrow> dependency_summary" where
  "category_summary bounded cat callers callees access =
     (let reads = filter (\<lambda>e. dp_relationship e = Reads) (pg_items access);
          writes = filter (\<lambda>e. dp_relationship e = Writes) (pg_items access);
          other = filter (\<lambda>e. dp_relationship e \<notin> {Reads, Writes}) (pg_items access);
          selected = (case cat of CallersCategory \<Rightarrow> pg_items callers | CalleesCategory \<Rightarrow> pg_items callees
            | ReadsCategory \<Rightarrow> reads | WritesCategory \<Rightarrow> writes | OtherCategory \<Rightarrow> other)
      in \<lparr>ds_counts = [(CallersCategory, pg_total callers), (CalleesCategory, pg_total callees),
             (ReadsCategory, length reads), (WritesCategory, length writes), (OtherCategory, length other)],
          ds_items = take bounded selected, ds_truncated = (bounded < length selected), ds_total = length selected\<rparr>)"

definition dependencies_of :: "plsql_env \<Rightarrow> ustring \<Rightarrow> category \<Rightarrow> int \<Rightarrow> dependency_summary act" where
  "dependencies_of env i cat limit =
     act_bind (require_object env i) (\<lambda>_.
     act_bind (callers_of env i (max_rows env)) (\<lambda>callers.
     act_bind (callees_of env i (max_rows env)) (\<lambda>callees.
     act_bind (table_access_of env i (max_rows env)) (\<lambda>access.
     act_return (category_summary (bounded_limit env limit) cat callers callees access)))))"

section \<open>Source files\<close>

definition path_parts :: "ustring \<Rightarrow> ustring list" where
  "path_parts p = filter (\<lambda>w. w \<noteq> [] \<and> w \<noteq> [46]) (split_char 47 p)"

definition resolve_source_file :: "source_files \<Rightarrow> ustring \<Rightarrow> plsql_error + ustring list" where
  "resolve_source_file fs p =
     (if p = [] then Inl ObjectNotFound
      else if hd p = 47 \<or> [46, 46] \<in> set (path_parts p) then Inl ObjectNotFound
      else case sf_resolve fs (path_parts p) of
             None \<Rightarrow> Inl ObjectNotFound
           | Some resolved \<Rightarrow>
               if take (length (sf_root fs)) resolved = sf_root fs then Inr resolved else Inl ObjectNotFound)"

definition read_source_lines :: "source_files \<Rightarrow> ustring list \<Rightarrow> nat \<Rightarrow> plsql_error + ustring list" where
  "read_source_lines fs resolved max_bytes =
     (case sf_size fs resolved of
        None \<Rightarrow> Inl ObjectNotFound
      | Some bytes \<Rightarrow>
          if max_bytes < bytes then Inl LimitExceeded
          else case sf_lines fs resolved of None \<Rightarrow> Inl ObjectNotFound | Some ls \<Rightarrow> Inr ls)"

record source_record =
  sr_file :: ustring
  sr_path :: ustring
  sr_lines :: "ustring list"
  sr_highlight :: "(int \<times> int) option"

text \<open>\<open>max(start_line, end_line or start_line)\<close>: a zero counts as missing.\<close>

definition highlight :: "int option \<Rightarrow> int option \<Rightarrow> (int \<times> int) option" where
  "highlight start stop =
     (case start of
        None \<Rightarrow> None
      | Some a \<Rightarrow> Some (a, max a (case stop of None \<Rightarrow> a | Some b \<Rightarrow> if b = 0 then a else b)))"

definition load_source :: "plsql_env \<Rightarrow> ustring \<Rightarrow> ustring \<Rightarrow> int option \<Rightarrow> int option \<Rightarrow> plsql_error + source_record" where
  "load_source env file_id p start stop =
     (case pe_source_root env of
        None \<Rightarrow> Inl NotConfigured
      | Some fs \<Rightarrow>
          (case resolve_source_file fs p of
             Inl e \<Rightarrow> Inl e
           | Inr resolved \<Rightarrow>
               (case read_source_lines fs resolved (max 1 (pe_max_source_bytes env)) of
                  Inl e \<Rightarrow> Inl e
                | Inr ls \<Rightarrow> Inr \<lparr>sr_file = file_id, sr_path = p, sr_lines = ls, sr_highlight = highlight start stop\<rparr>)))"

definition object_source :: "plsql_env \<Rightarrow> ustring \<Rightarrow> source_record option act" where
  "object_source env i =
     act_bind (require_object env i) (\<lambda>r.
     act_bind (execute env (object_declaration (pe_graph env) (pe_project env) (ob_qualified r))) (\<lambda>rows.
       case rows of
         [] \<Rightarrow> act_return None
       | (f, co) # _ \<Rightarrow>
           if text_or (df_path f) [] = [] then act_return None
           else act_bind (act_lift (load_source env (df_id f) (text_or (df_path f) []) (int_or_none env (co_line co)) None))
                  (\<lambda>s. act_return (Some s))))"

definition file_source :: "plsql_env \<Rightarrow> ustring \<Rightarrow> int option \<Rightarrow> int option \<Rightarrow> source_record option act" where
  "file_source env file_id start stop =
     act_bind (file_map env) (\<lambda>m.
     act_bind (act_lift (resolve_path m (Some file_id))) (\<lambda>p.
       case p of
         None \<Rightarrow> act_return None
       | Some q \<Rightarrow> act_bind (act_lift (load_source env file_id q start stop)) (\<lambda>s. act_return (Some s))))"

text \<open>What is served was read inside the root and is not larger than the cap.\<close>

lemma load_source_confined:
  "load_source env f p a b = Inr s \<Longrightarrow>
     \<exists>fs resolved bytes. pe_source_root env = Some fs \<and> take (length (sf_root fs)) resolved = sf_root fs \<and>
       sf_resolve fs (path_parts p) = Some resolved \<and> [46, 46] \<notin> set (path_parts p) \<and>
       sf_size fs resolved = Some bytes \<and> bytes \<le> max 1 (pe_max_source_bytes env) \<and> sf_lines fs resolved = Some (sr_lines s)"
  by (auto simp: load_source_def resolve_source_file_def read_source_lines_def split: option.splits if_splits)

end
