(* ===== verification/Plsql_Traversal.thy ===== *)
theory Plsql_Traversal
  imports Plsql_Client
begin

text \<open>
  The traversals of the analysis client (\<open>find_paths\<close>, \<open>impact_of\<close> and \<open>overview_of\<close> of
  \<open>app/integrations/plsql/neo4j_client.py\<close>): both expand one frontier per round with one query, within
  the traversal budget. A dictionary of edges by identifier is the list of its values in order; a set
  of names is a list. Requests that run at the same time and share a traversal are one request here.
\<close>

section \<open>Edges by identifier\<close>

text \<open>The edges of a round that are not known yet, the first of each identifier.\<close>

fun new_edges :: "dependency list \<Rightarrow> dependency list \<Rightarrow> dependency list" where
  "new_edges known [] = []"
| "new_edges known (e # es) =
     (if dp_id e \<in> dp_id ` set known then new_edges known es else e # new_edges (known @ [e]) es)"

definition edge_by_id :: "dependency list \<Rightarrow> ustring \<Rightarrow> dependency option" where
  "edge_by_id known i = List.find (\<lambda>e. dp_id e = i) known"

definition source_name :: "dependency \<Rightarrow> ustring" where
  "source_name e = or_qualified (dp_source e)"

definition target_name :: "dependency \<Rightarrow> ustring" where
  "target_name e = or_qualified (dp_target e)"

text \<open>One round's query: it raises when the budget is used up or the rows exceed what is left.\<close>

definition fetch_round ::
  "plsql_env \<Rightarrow> (ustring \<rightharpoonup> ustring) \<Rightarrow> (edge_row \<Rightarrow> bool) \<Rightarrow> nat \<Rightarrow> dependency list act" where
  "fetch_round env m P used =
     (if traversal_budget env \<le> used then act_raise LimitExceeded
      else
        let remaining = traversal_budget env - used in
        act_bind (execute env (edge_query (pe_lower env) (pe_graph env) (pe_project env) P (remaining + 1))) (\<lambda>rows.
        if remaining < length rows then act_raise LimitExceeded
        else act_lift (map_rows (dependency_from_row env m) rows)))"

section \<open>Paths\<close>

type_synonym trail = "ustring \<times> ustring list \<times> ustring list"

text \<open>The edges that leave an object, and what they make of a trail: the object, the edges, the objects.\<close>

definition outgoing :: "dependency list \<Rightarrow> ustring \<Rightarrow> dependency list" where
  "outgoing fresh current = sort_key dp_id (filter (\<lambda>e. source_name e = current) fresh)"

definition fresh_steps :: "dependency list \<Rightarrow> trail \<Rightarrow> dependency list" where
  "fresh_steps fresh t = (case t of (current, ids, visited) \<Rightarrow>
     filter (\<lambda>e. target_name e \<notin> set visited) (outgoing fresh current))"

definition found_trails :: "ustring \<Rightarrow> dependency list \<Rightarrow> trail \<Rightarrow> ustring list list" where
  "found_trails target fresh t =
     map (\<lambda>e. fst (snd t) @ [dp_id e]) (filter (\<lambda>e. target_name e = target) (fresh_steps fresh t))"

definition longer_trails :: "ustring \<Rightarrow> dependency list \<Rightarrow> trail \<Rightarrow> trail list" where
  "longer_trails target fresh t =
     map (\<lambda>e. (target_name e, fst (snd t) @ [dp_id e], target_name e # snd (snd t)))
       (filter (\<lambda>e. target_name e \<noteq> target) (fresh_steps fresh t))"

primrec path_rounds ::
  "plsql_env \<Rightarrow> (ustring \<rightharpoonup> ustring) \<Rightarrow> ustring \<Rightarrow> nat \<Rightarrow> dependency list \<Rightarrow> ustring list list \<Rightarrow> trail list \<Rightarrow>
     (dependency list \<times> ustring list list) act"
where
  "path_rounds env m target 0 known found frontier = act_return (known, found)"
| "path_rounds env m target (Suc n) known found frontier =
     (let sources = sort (remdups (map fst frontier)) in
      if sources = [] then act_return (known, found)
      else
        act_bind (fetch_round env m (leaves_from path_relationships sources) (length known)) (\<lambda>es.
        let fresh = new_edges known es in
        path_rounds env m target n (known @ fresh)
          (found @ filter (\<lambda>t. t \<notin> set found) (unique (concat (map (found_trails target fresh) frontier))))
          (concat (map (longer_trails target fresh) frontier))))"

definition path_id :: "plsql_env \<Rightarrow> ustring list \<Rightarrow> ustring" where
  "path_id env ids = ascii ''path://'' @ pe_project env @ ascii ''/'' @ take 16 (pe_sha1 env (join_text [31] ids))"

text \<open>The records of a trail; every identifier of a trail is that of a known edge.\<close>

definition steps_of :: "dependency list \<Rightarrow> ustring list \<Rightarrow> dependency list" where
  "steps_of known ids = List.map_filter (edge_by_id known) ids"

definition path_record_of :: "plsql_env \<Rightarrow> dependency list \<Rightarrow> ustring list \<Rightarrow> path_record" where
  "path_record_of env known ids =
     \<lparr>pa_id = path_id env ids, pa_steps = steps_of known ids, pa_hops = length ids\<rparr>"

definition trail_order :: "dependency list \<Rightarrow> ustring list list \<Rightarrow> ustring list list" where
  "trail_order known found = sort_key (\<lambda>t. (length t, map target_name (steps_of known t), t)) found"

definition result_page :: "nat \<Rightarrow> nat \<Rightarrow> 'a list \<Rightarrow> 'a page" where
  "result_page offset bounded xs =
     \<lparr>pg_items = take bounded (drop offset xs), pg_truncated = (offset + bounded < length xs), pg_total = length xs\<rparr>"

definition all_paths :: "plsql_env \<Rightarrow> ustring \<Rightarrow> ustring \<Rightarrow> int \<Rightarrow> path_record list act" where
  "all_paths env from_id to_id max_hops =
     act_bind (require_object env from_id) (\<lambda>s.
     act_bind (require_object env to_id) (\<lambda>t.
     if ob_qualified s = ob_qualified t then act_return []
     else
       act_bind (file_map env) (\<lambda>m.
       act_bind (path_rounds env m (ob_qualified t) (bounded_hops env max_hops) [] []
                  [(ob_qualified s, [], [ob_qualified s])]) (\<lambda>(known, found).
       act_return (map (path_record_of env known) (trail_order known found))))))"

definition find_paths :: "plsql_env \<Rightarrow> ustring \<Rightarrow> ustring \<Rightarrow> int \<Rightarrow> int \<Rightarrow> int \<Rightarrow> path_record page act" where
  "find_paths env from_id to_id max_hops limit offset =
     act_bind (all_paths env from_id to_id max_hops) (\<lambda>records.
     act_return (result_page (nat (max 0 offset)) (bounded_limit env limit) records))"

section \<open>Impact\<close>

definition member_names :: "ustring \<Rightarrow> edge_row list \<Rightarrow> ustring list" where
  "member_names package rows =
     sort (remdups (filter (\<lambda>q. owner_of q = Some package)
       (concat (map (\<lambda>r. List.map_filter (\<lambda>v. v) [er_source r, er_target r]) rows))))"

definition impact_anchors :: "plsql_env \<Rightarrow> object_record \<Rightarrow> ustring list act" where
  "impact_anchors env changed =
     (if ob_kind changed \<noteq> KPackage then act_return [ob_qualified changed]
      else
        act_bind (execute env (member_endpoints (pe_graph env) (pe_project env) (ob_qualified changed @ [46])
                    (traversal_budget env + 1))) (\<lambda>rows.
        if traversal_budget env < length rows then act_raise LimitExceeded
        else
          let members = member_names (ob_name changed) rows in
          act_return (if members = [] then [ob_qualified changed] else members)))"

text \<open>The name that a round asks for and the one it reaches.\<close>

definition near_name :: "direction \<Rightarrow> dependency \<Rightarrow> ustring" where
  "near_name d e = (if d = Upstream then target_name e else source_name e)"

definition far_name :: "direction \<Rightarrow> dependency \<Rightarrow> ustring" where
  "far_name d e = (if d = Upstream then source_name e else target_name e)"

record impact_state =
  im_known :: "dependency list"
  im_reached :: "(ustring \<times> nat) list"
  im_parents :: "ustring \<Rightarrow> dependency list"
  im_expanded :: "ustring list"
  im_frontier :: "ustring list"

definition adjacent :: "direction \<Rightarrow> dependency list \<Rightarrow> dependency list \<Rightarrow> ustring \<Rightarrow> dependency list" where
  "adjacent d known es current =
     sort_key dp_id (List.map_filter (\<lambda>e. edge_by_id known (dp_id e)) (filter (\<lambda>e. near_name d e = current) es))"

text \<open>The body of the inner loop: an edge from an object of the frontier.\<close>

definition visit_edge :: "direction \<Rightarrow> nat \<Rightarrow> ustring \<Rightarrow> dependency \<Rightarrow> impact_state \<Rightarrow> impact_state" where
  "visit_edge d depth current e st =
     (let peer = far_name d e in
      if peer = current then st
      else case map_of (im_reached st) peer of
             None \<Rightarrow> st\<lparr>im_reached := im_reached st @ [(peer, depth)], im_parents := (im_parents st)(peer := [e]),
                        im_frontier := im_frontier st @ [peer]\<rparr>
           | Some k \<Rightarrow>
               if k = depth then st\<lparr>im_parents := (im_parents st)(peer := im_parents st peer @ [e])\<rparr> else st)"

definition visit_all :: "direction \<Rightarrow> nat \<Rightarrow> dependency list \<Rightarrow> ustring list \<Rightarrow> impact_state \<Rightarrow> impact_state" where
  "visit_all d depth es keys st =
     fold (\<lambda>current. fold (visit_edge d depth current) (adjacent d (im_known st) es current)) keys st"

definition touches :: "direction \<Rightarrow> relationship list \<Rightarrow> ustring list \<Rightarrow> edge_row \<Rightarrow> bool" where
  "touches d rels keys = (if d = Upstream then arrives_at rels keys else leaves_from rels keys)"

primrec impact_rounds ::
  "plsql_env \<Rightarrow> (ustring \<rightharpoonup> ustring) \<Rightarrow> direction \<Rightarrow> relationship list \<Rightarrow> nat \<Rightarrow> nat \<Rightarrow> impact_state \<Rightarrow> impact_state act"
where
  "impact_rounds env m d rels 0 depth st = act_return st"
| "impact_rounds env m d rels (Suc n) depth st =
     (let keys = filter (\<lambda>q. q \<notin> set (im_expanded st)) (im_frontier st) in
      if keys = [] then act_return st
      else
        act_bind (fetch_round env m (touches d rels keys) (length (im_known st))) (\<lambda>es.
        impact_rounds env m d rels n (depth + 1)
          (visit_all d depth es keys
            (st\<lparr>im_known := im_known st @ new_edges (im_known st) es, im_expanded := im_expanded st @ keys,
               im_frontier := []\<rparr>))))"

definition impact_start :: "ustring list \<Rightarrow> impact_state" where
  "impact_start anchors =
     \<lparr>im_known = [], im_reached = [], im_parents = (\<lambda>_. []), im_expanded = [], im_frontier = sort (remdups anchors)\<rparr>"

text \<open>
  \<open>routes_from\<close>: the shortest routes of an object, back along the parent edges to an anchor. The first
  argument bounds the recursion; without it the generator would not end on a cycle of parents.
\<close>

fun routes_from :: "nat \<Rightarrow> direction \<Rightarrow> ustring list \<Rightarrow> (ustring \<Rightarrow> dependency list) \<Rightarrow> ustring \<Rightarrow> ustring list list option" where
  "routes_from 0 d anchors parents peer = None"
| "routes_from (Suc n) d anchors parents peer =
     map_option concat (those (map (\<lambda>e.
       map_option (map (\<lambda>rest. if d = Upstream then dp_id e # rest else rest @ [dp_id e]))
         (if near_name d e \<in> set anchors then Some [[]] else routes_from n d anchors parents (near_name d e)))
       (parents peer)))"

definition package_of :: "object_record \<Rightarrow> (ustring \<times> ustring) option" where
  "package_of r =
     (case ob_owner r of
        Some owner \<Rightarrow> if owner \<noteq> [] then Some (ob_schema r, owner)
                      else if ob_kind r = KPackage then Some (ob_schema r, ob_name r) else None
      | None \<Rightarrow> if ob_kind r = KPackage then Some (ob_schema r, ob_name r) else None)"

definition modified_tables :: "dependency list \<Rightarrow> ustring list list \<Rightarrow> ustring list" where
  "modified_tables known trails =
     map (\<lambda>e. or_id (dp_target e))
       (filter (\<lambda>e. dp_relationship e = Writes \<and> table_or_view (or_kind (dp_target e)))
         (concat (map (steps_of known) trails)))"

definition impact_item_of ::
  "plsql_env \<Rightarrow> dependency list \<Rightarrow> object_record \<times> nat \<times> ustring list list \<Rightarrow> impact_item" where
  "impact_item_of env known x =
     (case x of (r, distance, trails) \<Rightarrow>
        \<lparr>im_id = ascii ''impact://'' @ pe_project env @ ascii ''/'' @ ob_id r @ ascii ''/d'' @ nat_digits distance,
         im_dependent = r, im_distance = distance,
         im_paths = map (path_record_of env known)
           (sort_key (\<lambda>t. (map target_name (steps_of known t), t)) trails)\<rparr>)"

definition impact_order :: "plsql_env \<Rightarrow> impact_item list \<Rightarrow> impact_item list" where
  "impact_order env items =
     sort_key (\<lambda>i. (im_distance i, pe_casefold env (ob_qualified (im_dependent i)), ob_id (im_dependent i))) items"

text \<open>The trails of the dependents, at most five of each, in the order in which they were reached.\<close>

definition trails_by_dependent ::
  "direction \<Rightarrow> ustring list \<Rightarrow> ustring \<Rightarrow> nat \<Rightarrow> impact_state \<Rightarrow> (ustring \<times> nat \<times> ustring list list) list option" where
  "trails_by_dependent d anchors changed fuel st =
     those (map (\<lambda>(peer, distance). map_option (\<lambda>rs. (peer, distance, take 5 rs)) (routes_from fuel d anchors (im_parents st) peer))
       (filter (\<lambda>(peer, distance). peer \<noteq> changed) (im_reached st)))"

definition impact_report ::
  "plsql_env \<Rightarrow> dependency list \<Rightarrow> (ustring \<times> nat \<times> ustring list list) list \<Rightarrow>
     (ustring \<times> object_record option) list \<Rightarrow> impact_item list \<times> impact_summary" where
  "impact_report env known trails objects =
     (let found = List.map_filter (\<lambda>(q, distance, ts).
            case map_of objects q of Some (Some r) \<Rightarrow> Some (r, distance, ts) | _ \<Rightarrow> None) trails;
          direct = length (filter (\<lambda>(r, distance, ts). distance = 1) found)
      in (impact_order env (map (impact_item_of env known) found),
          \<lparr>is_direct = direct, is_indirect = length found - direct,
           is_packages = card (set (List.map_filter (\<lambda>(r, distance, ts). package_of r) found)),
           is_tables_modified = card (set (concat (map (\<lambda>(r, distance, ts). modified_tables known ts) found)))\<rparr>))"

definition compute_impact ::
  "plsql_env \<Rightarrow> object_record \<Rightarrow> nat \<Rightarrow> direction \<Rightarrow> relationship list \<Rightarrow> (impact_item list \<times> impact_summary) act" where
  "compute_impact env changed hops d rels =
     act_bind (impact_anchors env changed) (\<lambda>anchors.
     act_bind (file_map env) (\<lambda>m.
     act_bind (impact_rounds env m d rels hops 1 (impact_start anchors)) (\<lambda>st.
     case trails_by_dependent d anchors (ob_qualified changed) hops st of
       None \<Rightarrow> act_raise Uncaught
     | Some trails \<Rightarrow>
         act_bind (objects_by_name env (map fst trails)) (\<lambda>objects.
         act_return (impact_report env (im_known st) trails objects)))))"

text \<open>The cache of finished traversals, least recently used first.\<close>

definition read_clock :: "plsql_env \<Rightarrow> int act" where
  "read_clock env st = (Inr (pe_now env (cs_clock st)), st\<lparr>cs_clock := cs_clock st + 1\<rparr>)"

definition cache_impact :: "plsql_env \<Rightarrow> impact_key \<Rightarrow> int \<times> impact_item list \<times> impact_summary \<Rightarrow> unit act" where
  "cache_impact env key entry st =
     (let entries = filter (\<lambda>x. fst x \<noteq> key) (cs_impact st) @ [(key, entry)]
      in (Inr (), st\<lparr>cs_impact := drop (length entries - max 1 (pe_cache_max env)) entries\<rparr>))"

definition drop_impact :: "impact_key \<Rightarrow> unit act" where
  "drop_impact key st = (Inr (), st\<lparr>cs_impact := filter (\<lambda>x. fst x \<noteq> key) (cs_impact st)\<rparr>)"

definition touch_impact :: "impact_key \<Rightarrow> int \<times> impact_item list \<times> impact_summary \<Rightarrow> unit act" where
  "touch_impact key entry st = (Inr (), st\<lparr>cs_impact := filter (\<lambda>x. fst x \<noteq> key) (cs_impact st) @ [(key, entry)]\<rparr>)"

definition refresh_impact ::
  "plsql_env \<Rightarrow> object_record \<Rightarrow> nat \<Rightarrow> direction \<Rightarrow> relationship list \<Rightarrow> impact_key \<Rightarrow> (impact_item list \<times> impact_summary) act" where
  "refresh_impact env changed hops d rels key =
     act_bind (drop_impact key) (\<lambda>_.
     act_bind (compute_impact env changed hops d rels) (\<lambda>r.
     act_bind (read_clock env) (\<lambda>now.
     act_bind (cache_impact env key (now + pe_cache_ttl env, r)) (\<lambda>_. act_return r))))"

definition impact_traversal ::
  "plsql_env \<Rightarrow> object_record \<Rightarrow> nat \<Rightarrow> direction \<Rightarrow> relationship list \<Rightarrow> (impact_item list \<times> impact_summary) act" where
  "impact_traversal env changed hops d rels st =
     (if pe_cache_ttl env \<le> 0 then compute_impact env changed hops d rels st
      else
        let key = (ob_id changed, hops, d, rels) in
        case map_of (cs_impact st) key of
          None \<Rightarrow> refresh_impact env changed hops d rels key st
        | Some (expires, r) \<Rightarrow>
            act_bind (read_clock env) (\<lambda>now.
              if now < expires then act_bind (touch_impact key (expires, r)) (\<lambda>_. act_return r)
              else refresh_impact env changed hops d rels key) st)"

definition impact_of ::
  "plsql_env \<Rightarrow> ustring \<Rightarrow> int \<Rightarrow> int \<Rightarrow> direction \<Rightarrow> relationship list option \<Rightarrow> int \<Rightarrow>
     (impact_item page \<times> impact_summary) act" where
  "impact_of env i max_hops limit d relationships offset =
     act_bind (require_object env i) (\<lambda>changed.
     act_bind (impact_traversal env changed (bounded_hops env max_hops) d
        (case relationships of None \<Rightarrow> path_relationships | Some rels \<Rightarrow> rels)) (\<lambda>(items, summary).
     act_return (result_page (nat (max 0 offset)) (bounded_limit env limit) items, summary)))"

section \<open>Overview\<close>

record overview_record =
  ov_object :: object_record
  ov_direct :: nat
  ov_indirect :: nat
  ov_callers :: nat
  ov_callees :: nat
  ov_tables :: nat
  ov_top_callers :: "object_record list"

definition anchor_edges :: "plsql_env \<Rightarrow> (ustring \<rightharpoonup> ustring) \<Rightarrow> (edge_row \<Rightarrow> bool) \<Rightarrow> dependency list act" where
  "anchor_edges env m P =
     act_bind (execute env (edge_query (pe_lower env) (pe_graph env) (pe_project env) P (traversal_budget env + 1))) (\<lambda>rows.
     if traversal_budget env < length rows then act_raise LimitExceeded
     else act_lift (map_rows (dependency_from_row env m) rows))"

fun get_objects :: "plsql_env \<Rightarrow> ustring list \<Rightarrow> object_record list act" where
  "get_objects env [] = act_return []"
| "get_objects env (i # is) =
     act_bind (get_object env i) (\<lambda>r.
     act_bind (get_objects env is) (\<lambda>rs. act_return (case r of None \<Rightarrow> rs | Some x \<Rightarrow> x # rs)))"

definition source_id :: "dependency \<Rightarrow> ustring" where
  "source_id e = or_id (dp_source e)"

definition target_id :: "dependency \<Rightarrow> ustring" where
  "target_id e = or_id (dp_target e)"

definition overview_of :: "plsql_env \<Rightarrow> ustring \<Rightarrow> int \<Rightarrow> int \<Rightarrow> overview_record act" where
  "overview_of env i max_hops limit =
     act_bind (require_object env i) (\<lambda>r.
     act_bind (impact_anchors env r) (\<lambda>anchors.
     act_bind (table_access_of env i (max_rows env)) (\<lambda>access.
     act_bind (impact_of env i max_hops (max_rows env) Upstream None 0) (\<lambda>(impact, _).
     act_bind (file_map env) (\<lambda>m.
     act_bind (anchor_edges env m (arrives_at path_relationships anchors)) (\<lambda>incoming.
     act_bind (anchor_edges env m (arrives_at [Calls] anchors)) (\<lambda>callers.
     act_bind (anchor_edges env m (leaves_from [Calls] anchors)) (\<lambda>callees.
     let caller_ids = unique (map source_id callers); callee_ids = unique (map target_id callees) in
     act_bind (get_objects env (py_take limit caller_ids)) (\<lambda>top.
     act_return
       \<lparr>ov_object = r, ov_direct = card (source_id ` set incoming),
        ov_indirect = pg_total impact - length incoming,
        ov_callers = length caller_ids, ov_callees = length callee_ids,
        ov_tables = card (target_id ` {e \<in> set (pg_items access). table_or_view (or_kind (dp_target e))}),
        ov_top_callers = top\<rparr>)))))))))"

end
