(* ===== verification/Plsql_Fixtures.thy ===== *)
theory Plsql_Fixtures
  imports Plsql_Traversal
begin

text \<open>
  The synthetic corpus of PL/SQL objects and their dependencies (\<open>app/integrations/plsql/fixtures.py\<close>).
  The project identifier and the case folding are those of the client's environment.
\<close>

section \<open>Texts\<close>

text \<open>\<open>text.replace(old, new)\<close>; the number counts the characters of a match that are still to be skipped.\<close>

fun replace_from :: "ustring \<Rightarrow> ustring \<Rightarrow> nat \<Rightarrow> ustring \<Rightarrow> ustring" where
  "replace_from old new n [] = []"
| "replace_from old new (Suc n) (c # cs) = replace_from old new n cs"
| "replace_from old new 0 (c # cs) =
     (if text_starts (c # cs) old then new @ replace_from old new (length old - 1) cs else c # replace_from old new 0 cs)"

definition plain_scheme :: "ustring \<Rightarrow> ustring" where
  "plain_scheme i = replace_from (ascii ''://'') (ascii ''/'') 0 i"

section \<open>Objects\<close>

definition file_of :: "ustring \<Rightarrow> ustring \<Rightarrow> ustring" where
  "file_of project path = ascii ''file://'' @ project @ [47] @ path"

definition fixture_record ::
  "ustring \<Rightarrow> object_kind \<Rightarrow> string \<Rightarrow> string option \<Rightarrow> string option \<Rightarrow> string option \<Rightarrow> string \<Rightarrow> int \<Rightarrow> object_record"
where
  "fixture_record project kind name owner signature return_type path line =
     (let schema = ascii ''HR'';
          parts = filter (\<lambda>w. w \<noteq> []) [schema, (case owner of None \<Rightarrow> [] | Some w \<Rightarrow> ascii w), ascii name];
          id_parts = (case owner of
              None \<Rightarrow> [project, schema, ascii (kind_token kind), ascii name]
            | Some w \<Rightarrow> [project, schema, ascii ''PACKAGE'', ascii w, ascii (kind_token kind), ascii name])
      in \<lparr>ob_id = ascii ''plsql://'' @ join_text [47] id_parts, ob_kind = kind, ob_name = ascii name, ob_schema = schema,
          ob_qualified = join_text [46] parts, ob_project = project, ob_owner = map_option ascii owner,
          ob_signature = map_option ascii signature, ob_return_type = map_option ascii return_type,
          ob_evidence = Some \<lparr>se_file = file_of project (ascii path), se_path = ascii path, se_start_line = Some line,
            se_start_column = Some 1, se_start_offset = None, se_end_offset = None\<rparr>\<rparr>)"

definition build_corpus :: "ustring \<Rightarrow> object_record list" where
  "build_corpus project =
    [fixture_record project KTable ''EMPLOYEES'' None None None ''hr/employees.sql'' 3,
     fixture_record project KTable ''DEPARTMENTS'' None None None ''hr/departments.sql'' 2,
     fixture_record project KView ''EMPLOYEE_DETAILS'' None None None ''hr/employee_details.sql'' 4,
     fixture_record project KPackage ''PKG_EMPLOYEE'' None None None ''hr/pkg_employee.pks'' 1,
     fixture_record project KProcedure ''CREATE_EMPLOYEE'' (Some ''PKG_EMPLOYEE'') (Some ''VARCHAR2,NUMBER'') None
       ''hr/pkg_employee.pkb'' 7,
     fixture_record project KFunction ''CALCULATE_BONUS'' (Some ''PKG_EMPLOYEE'') (Some ''NUMBER'') (Some ''NUMBER'')
       ''hr/pkg_employee.pkb'' 21,
     fixture_record project KPackage ''PKG_PAYROLL'' None None None ''hr/pkg_payroll.pks'' 1,
     fixture_record project KFunction ''CALCULATE_MORA'' (Some ''PKG_PAYROLL'') (Some ''VARCHAR2'') (Some ''NUMBER'')
       ''hr/pkg_payroll.pkb'' 9,
     fixture_record project KProcedure ''RUN_PAYROLL'' (Some ''PKG_PAYROLL'') None None ''hr/pkg_payroll.pkb'' 30,
     fixture_record project KProcedure ''ARCHIVE_EMPLOYEE'' None None None ''hr/archive_employee.sql'' 5,
     fixture_record project KFunction ''COUNT_EMPLOYEES'' None None (Some ''NUMBER'') ''hr/count_employees.sql'' 5,
     fixture_record project KTrigger ''TRG_EMPLOYEES_AUDIT'' None None None ''hr/trg_employees_audit.sql'' 2,
     fixture_record project KSynonym ''EMPLOYEE_ALIAS'' None None None ''hr/employee_alias.sql'' 1,
     fixture_record project KSequence ''EMPLOYEE_SEQ'' None None None ''hr/employee_seq.sql'' 1,
     fixture_record project KType ''EMPLOYEE_INFO'' None None None ''hr/employee_info.sql'' 1,
     fixture_record project KProcedure ''NOTIFY_HR_AUDIT'' None None None ''hr/notify_hr_audit.sql'' 5]"

section \<open>Edges\<close>

record edge_spec =
  sp_source :: string
  sp_target :: string
  sp_relationship :: relationship
  sp_resolution :: resolution
  sp_path :: string
  sp_line :: int
  sp_via_table :: "string option"
  sp_events :: "string option"
  sp_derived :: "bool option"
  sp_evidence_kind :: "string option"

text \<open>A literal edge leaves the fields of derived ones out.\<close>

definition literal_edge :: "string \<Rightarrow> string \<Rightarrow> relationship \<Rightarrow> resolution \<Rightarrow> string \<Rightarrow> int \<Rightarrow> edge_spec" where
  "literal_edge s t rel res path line =
     \<lparr>sp_source = s, sp_target = t, sp_relationship = rel, sp_resolution = res, sp_path = path, sp_line = line,
      sp_via_table = None, sp_events = None, sp_derived = None, sp_evidence_kind = None\<rparr>"

definition edge_specs :: "edge_spec list" where
  "edge_specs =
    [literal_edge ''HR.EMPLOYEES'' ''HR.DEPARTMENTS'' ForeignKey Exact ''hr/employees.sql'' 5,
     literal_edge ''HR.PKG_EMPLOYEE.CREATE_EMPLOYEE'' ''HR.EMPLOYEES'' Writes Exact ''hr/pkg_employee.pkb'' 12,
     literal_edge ''HR.PKG_EMPLOYEE.CREATE_EMPLOYEE'' ''HR.DEPARTMENTS'' Reads Exact ''hr/pkg_employee.pkb'' 15,
     literal_edge ''HR.PKG_EMPLOYEE.CALCULATE_BONUS'' ''HR.EMPLOYEES'' Reads Exact ''hr/pkg_employee.pkb'' 25,
     literal_edge ''HR.PKG_PAYROLL.CALCULATE_MORA'' ''HR.PKG_EMPLOYEE.CALCULATE_BONUS'' Calls Inferred ''hr/pkg_payroll.pkb'' 11,
     literal_edge ''HR.PKG_PAYROLL.CALCULATE_MORA'' ''HR.EMPLOYEES'' Reads Exact ''hr/pkg_payroll.pkb'' 13,
     literal_edge ''HR.PKG_PAYROLL.CALCULATE_MORA'' ''HR.COUNT_EMPLOYEES'' Calls Exact ''hr/pkg_payroll.pkb'' 16,
     literal_edge ''HR.PKG_PAYROLL.CALCULATE_MORA'' ''HR.PKG_LEGACY.RUN_UNKNOWN'' Calls Unresolved ''hr/pkg_payroll.pkb'' 40,
     literal_edge ''HR.PKG_PAYROLL.RUN_PAYROLL'' ''HR.PKG_PAYROLL.CALCULATE_MORA'' Calls Exact ''hr/pkg_payroll.pkb'' 34,
     literal_edge ''HR.PKG_PAYROLL.RUN_PAYROLL'' ''HR.DEPARTMENTS'' Writes Exact ''hr/pkg_payroll.pkb'' 36,
     literal_edge ''HR.ARCHIVE_EMPLOYEE'' ''HR.PKG_EMPLOYEE.CREATE_EMPLOYEE'' Calls Exact ''hr/archive_employee.sql'' 8,
     literal_edge ''HR.TRG_EMPLOYEES_AUDIT'' ''HR.EMPLOYEES'' TriggerOn Exact ''hr/trg_employees_audit.sql'' 4,
     literal_edge ''HR.EMPLOYEE_DETAILS'' ''HR.EMPLOYEES'' ViewDependsOn Exact ''hr/employee_details.sql'' 6,
     literal_edge ''HR.EMPLOYEE_DETAILS'' ''HR.DEPARTMENTS'' ViewDependsOn Exact ''hr/employee_details.sql'' 7,
     literal_edge ''HR.COUNT_EMPLOYEES'' ''HR.EMPLOYEES'' Reads Exact ''hr/count_employees.sql'' 6,
     literal_edge ''HR.ARCHIVE_EMPLOYEE'' ''HR.EMPLOYEE_DETAILS'' Reads Ambiguous ''hr/archive_employee.sql'' 9,
     (literal_edge ''HR.PKG_EMPLOYEE.CREATE_EMPLOYEE'' ''HR.NOTIFY_HR_AUDIT'' Triggers Inferred ''hr/trg_employees_audit.sql'' 4)
       \<lparr>sp_via_table := Some ''HR.EMPLOYEES'', sp_events := Some ''INSERT'', sp_derived := Some True,
        sp_evidence_kind := Some ''TriggerInvocation''\<rparr>]"

text \<open>The dictionary of the corpus by folded qualified name; a later record replaces an earlier one.\<close>

definition by_qualified :: "(ustring \<Rightarrow> ustring) \<Rightarrow> object_record list \<Rightarrow> ustring \<Rightarrow> object_record option" where
  "by_qualified casefold corpus q = map_of (rev (map (\<lambda>r. (casefold (ob_qualified r), r)) corpus)) (casefold q)"

definition reference_to :: "object_record \<Rightarrow> object_reference" where
  "reference_to r = \<lparr>or_id = ob_id r, or_kind = ob_kind r, or_name = ob_name r, or_qualified = ob_qualified r\<rparr>"

text \<open>The end of an edge that is no object of the corpus.\<close>

definition placeholder :: "ustring \<Rightarrow> ustring \<Rightarrow> object_reference" where
  "placeholder project q =
     \<lparr>or_id = ascii ''plsql://'' @ project @ [47] @ replace_from [46] [47] 0 q, or_kind = KProcedure,
      or_name = last_part q, or_qualified = q\<rparr>"

text \<open>One edge; a source outside of the corpus is a key that is missing.\<close>

definition fixture_edge ::
  "(ustring \<Rightarrow> ustring) \<Rightarrow> ustring \<Rightarrow> object_record list \<Rightarrow> edge_spec \<Rightarrow> plsql_error + dependency"
where
  "fixture_edge casefold project corpus sp =
     (case by_qualified casefold corpus (ascii (sp_source sp)) of
        None \<Rightarrow> Inl Uncaught
      | Some s \<Rightarrow>
          let t = (case by_qualified casefold corpus (ascii (sp_target sp)) of
                     Some r \<Rightarrow> reference_to r | None \<Rightarrow> placeholder project (ascii (sp_target sp)))
          in Inr \<lparr>dp_id = ascii ''edge://'' @ project @ [47] @ ascii (relationship_name (sp_relationship sp)) @ [47] @
                      plain_scheme (ob_id s) @ [47] @ plain_scheme (or_id t),
                  dp_relationship = sp_relationship sp, dp_resolution = sp_resolution sp,
                  dp_source = reference_to s, dp_target = t,
                  dp_evidence = Some \<lparr>se_file = file_of project (ascii (sp_path sp)), se_path = ascii (sp_path sp),
                    se_start_line = Some (sp_line sp), se_start_column = Some 1, se_start_offset = None,
                    se_end_offset = None\<rparr>,
                  dp_evidence_kind = map_option ascii (sp_evidence_kind sp), dp_derived = sp_derived sp,
                  dp_events = map_option ascii (sp_events sp),
                  dp_via_table = (case sp_via_table sp of
                      None \<Rightarrow> None
                    | Some q \<Rightarrow> map_option reference_to (by_qualified casefold corpus (ascii q)))\<rparr>)"

fun fixture_edges ::
  "(ustring \<Rightarrow> ustring) \<Rightarrow> ustring \<Rightarrow> object_record list \<Rightarrow> edge_spec list \<Rightarrow> plsql_error + dependency list"
where
  "fixture_edges casefold project corpus [] = Inr []"
| "fixture_edges casefold project corpus (sp # sps) =
     (case fixture_edge casefold project corpus sp of
        Inl e \<Rightarrow> Inl e
      | Inr x \<Rightarrow> (case fixture_edges casefold project corpus sps of Inl e \<Rightarrow> Inl e | Inr xs \<Rightarrow> Inr (x # xs)))"

definition build_edges :: "(ustring \<Rightarrow> ustring) \<Rightarrow> ustring \<Rightarrow> object_record list \<Rightarrow> plsql_error + dependency list" where
  "build_edges casefold project corpus = fixture_edges casefold project corpus edge_specs"

end
