(* ===== verification/Plsql_Synthetic.thy ===== *)
theory Plsql_Synthetic
  imports Plsql_Fixtures
begin

text \<open>
  The analysis client over the synthetic corpus (\<open>app/integrations/plsql/synthetic.py\<close>). It keeps the sorted
  corpus and edges it was made with and changes nothing, so its operations are functions; of the environment
  they use the project, the folding of texts, the digest, the row limit and the source files.
\<close>

section \<open>The client\<close>

record synthetic_client =
  sy_corpus :: "object_record list"
  sy_edges :: "dependency list"
  sy_files :: "(ustring \<times> ustring) list"

definition corpus_order :: "plsql_env \<Rightarrow> object_record list \<Rightarrow> object_record list" where
  "corpus_order env rs = sort_key (\<lambda>r. (pe_casefold env (ob_qualified r), ob_id r)) rs"

definition sorted_edges :: "plsql_env \<Rightarrow> dependency list \<Rightarrow> dependency list" where
  "sorted_edges env es =
     sort_key (\<lambda>e. (ascii (relationship_name (dp_relationship e)), pe_casefold env (source_name e),
       pe_casefold env (target_name e), dp_id e)) es"

definition evidence_files :: "source_evidence option list \<Rightarrow> (ustring \<times> ustring) list" where
  "evidence_files xs = List.map_filter (map_option (\<lambda>e. (se_file e, se_path e))) xs"

definition make_synthetic :: "plsql_env \<Rightarrow> plsql_error + synthetic_client" where
  "make_synthetic env =
     (let corpus = corpus_order env (build_corpus (pe_project env)) in
      case build_edges (pe_casefold env) (pe_project env) corpus of
        Inl e \<Rightarrow> Inl e
      | Inr es \<Rightarrow>
          let edges = sorted_edges env es in
          Inr \<lparr>sy_corpus = corpus, sy_edges = edges,
            sy_files = sort (remdups (evidence_files (map ob_evidence corpus) @ evidence_files (map dp_evidence edges)))\<rparr>)"

text \<open>The dictionaries by identifier; a later entry replaces an earlier one.\<close>

definition object_by_id :: "synthetic_client \<Rightarrow> ustring \<Rightarrow> object_record option" where
  "object_by_id sc i = map_of (rev (map (\<lambda>r. (ob_id r, r)) (sy_corpus sc))) i"

definition edge_by_key :: "synthetic_client \<Rightarrow> ustring \<Rightarrow> dependency option" where
  "edge_by_key sc i = map_of (rev (map (\<lambda>e. (dp_id e, e)) (sy_edges sc))) i"

definition file_by_id :: "synthetic_client \<Rightarrow> ustring \<Rightarrow> ustring option" where
  "file_by_id sc i = map_of (rev (sy_files sc)) i"

section \<open>Objects and lists of dependencies\<close>

definition matches_search :: "plsql_env \<Rightarrow> ustring \<Rightarrow> object_kind list option \<Rightarrow> object_record \<Rightarrow> bool" where
  "matches_search env query kinds r \<longleftrightarrow>
     (if ob_kind r = KSynonym then False
      else if (case kinds of None \<Rightarrow> False | Some ks \<Rightarrow> ob_kind r \<notin> set ks) then False
      else
        let needle = strip_text (pe_casefold env query) in
        needle = [] \<or> text_contains (pe_casefold env (ob_name r)) needle \<or>
          text_contains (pe_casefold env (ob_qualified r)) needle)"

definition synthetic_search ::
  "plsql_env \<Rightarrow> synthetic_client \<Rightarrow> ustring \<Rightarrow> object_kind list option \<Rightarrow> int \<Rightarrow> object_record page" where
  "synthetic_search env sc query kinds limit =
     (let bounded = bounded_limit env limit; found = filter (matches_search env query kinds) (sy_corpus sc)
      in \<lparr>pg_items = take bounded found, pg_truncated = (bounded < length found), pg_total = length found\<rparr>)"

definition edges_page :: "plsql_env \<Rightarrow> dependency list \<Rightarrow> int \<Rightarrow> dependency page" where
  "edges_page env edges limit =
     (let bounded = bounded_limit env limit
      in \<lparr>pg_items = take bounded edges, pg_truncated = (bounded < length edges), pg_total = length edges\<rparr>)"

text \<open>The record is the object, or a member of it when it is a package.\<close>

definition container_belongs :: "synthetic_client \<Rightarrow> object_record \<Rightarrow> ustring \<Rightarrow> bool" where
  "container_belongs sc r i \<longleftrightarrow>
     (if ob_id r = i then True
      else case ob_owner r of
             None \<Rightarrow> False
           | Some w \<Rightarrow>
               (case object_by_id sc i of
                  None \<Rightarrow> False
                | Some p \<Rightarrow> ob_kind p = KPackage \<and> w = ob_name p \<and> ob_schema r = ob_schema p))"

definition synthetic_callers :: "plsql_env \<Rightarrow> synthetic_client \<Rightarrow> ustring \<Rightarrow> int \<Rightarrow> dependency page" where
  "synthetic_callers env sc i limit =
     edges_page env (filter (\<lambda>e. dp_relationship e = Calls \<and> target_id e = i) (sy_edges sc)) limit"

definition synthetic_callees :: "plsql_env \<Rightarrow> synthetic_client \<Rightarrow> ustring \<Rightarrow> int \<Rightarrow> dependency page" where
  "synthetic_callees env sc i limit =
     edges_page env (filter (\<lambda>e. dp_relationship e = Calls \<and> source_id e = i) (sy_edges sc)) limit"

definition touches_table :: "synthetic_client \<Rightarrow> ustring \<Rightarrow> dependency \<Rightarrow> bool" where
  "touches_table sc i e \<longleftrightarrow>
     (if dp_relationship e \<notin> set table_access_relationships then False
      else case (object_by_id sc (source_id e), object_by_id sc (target_id e)) of
             (Some s, Some t) \<Rightarrow>
               container_belongs sc s i \<and> table_or_view (ob_kind t) \<or> container_belongs sc t i
           | _ \<Rightarrow> False)"

definition synthetic_table_access :: "plsql_env \<Rightarrow> synthetic_client \<Rightarrow> ustring \<Rightarrow> int \<Rightarrow> dependency page" where
  "synthetic_table_access env sc i limit = edges_page env (filter (touches_table sc i) (sy_edges sc)) limit"

definition synthetic_unresolved :: "plsql_env \<Rightarrow> synthetic_client \<Rightarrow> int \<Rightarrow> dependency page" where
  "synthetic_unresolved env sc limit =
     edges_page env (filter (\<lambda>e. dp_resolution e \<in> {Ambiguous, Unresolved}) (sy_edges sc)) limit"

definition scoped_edge :: "synthetic_client \<Rightarrow> ustring option \<Rightarrow> dependency \<Rightarrow> bool" where
  "scoped_edge sc i e \<longleftrightarrow>
     (case i of
        None \<Rightarrow> True
      | Some j \<Rightarrow> (case object_by_id sc (source_id e) of None \<Rightarrow> False | Some s \<Rightarrow> container_belongs sc s j))"

definition synthetic_health :: "plsql_env \<Rightarrow> synthetic_client \<Rightarrow> ustring option \<Rightarrow> int \<Rightarrow> health_record" where
  "synthetic_health env sc i limit =
     health_of (bounded_limit env limit) (scoped_edge sc i) (pg_items (synthetic_unresolved env sc (max_rows env)))"

definition synthetic_dependencies :: "plsql_env \<Rightarrow> synthetic_client \<Rightarrow> ustring \<Rightarrow> category \<Rightarrow> int \<Rightarrow> dependency_summary" where
  "synthetic_dependencies env sc i cat limit =
     category_summary (bounded_limit env limit) cat (synthetic_callers env sc i (max_rows env))
       (synthetic_callees env sc i (max_rows env)) (synthetic_table_access env sc i (max_rows env))"

section \<open>Paths\<close>

text \<open>
  The edges that leave an object, or that arrive at it for the impact upstream: of the relationships
  asked for and between objects of the corpus, by identifier.
\<close>

definition near_id :: "direction \<Rightarrow> dependency \<Rightarrow> ustring" where
  "near_id d e = (if d = Upstream then target_id e else source_id e)"

definition far_id :: "direction \<Rightarrow> dependency \<Rightarrow> ustring" where
  "far_id d e = (if d = Upstream then source_id e else target_id e)"

definition usable_edge :: "synthetic_client \<Rightarrow> relationship list \<Rightarrow> dependency \<Rightarrow> bool" where
  "usable_edge sc rels e \<longleftrightarrow>
     dp_relationship e \<in> set rels \<and> object_by_id sc (source_id e) \<noteq> None \<and> object_by_id sc (target_id e) \<noteq> None"

definition adjacency :: "synthetic_client \<Rightarrow> relationship list \<Rightarrow> direction \<Rightarrow> ustring \<Rightarrow> dependency list" where
  "adjacency sc rels d current = sort_key dp_id (filter (\<lambda>e. usable_edge sc rels e \<and> near_id d e = current) (sy_edges sc))"

definition trail_steps :: "synthetic_client \<Rightarrow> ustring list \<Rightarrow> dependency list" where
  "trail_steps sc ids = List.map_filter (edge_by_key sc) ids"

text \<open>\<open>walk\<close>: the number is the hops that are left, \<open>bounded_hops - len(trail)\<close>.\<close>

primrec walk_trails :: "synthetic_client \<Rightarrow> ustring \<Rightarrow> ustring \<Rightarrow> nat \<Rightarrow> ustring \<Rightarrow> ustring list \<Rightarrow> ustring list list" where
  "walk_trails sc from_id to_id 0 current trail =
     (if current = to_id then (if trail = [] then [] else [trail]) else [])"
| "walk_trails sc from_id to_id (Suc n) current trail =
     (if current = to_id then (if trail = [] then [] else [trail])
      else
        let visited = from_id # map target_id (trail_steps sc trail) in
        concat (map (\<lambda>e. if target_id e \<in> set visited then []
                          else walk_trails sc from_id to_id n (target_id e) (trail @ [dp_id e]))
          (adjacency sc path_relationships Downstream current)))"

definition synthetic_path :: "plsql_env \<Rightarrow> synthetic_client \<Rightarrow> ustring list \<Rightarrow> path_record" where
  "synthetic_path env sc ids =
     (let steps = trail_steps sc ids in \<lparr>pa_id = path_id env ids, pa_steps = steps, pa_hops = length steps\<rparr>)"

definition all_trails :: "synthetic_client \<Rightarrow> ustring \<Rightarrow> ustring \<Rightarrow> nat \<Rightarrow> ustring list list" where
  "all_trails sc from_id to_id hops =
     sort_key (\<lambda>t. (length t, from_id # map target_id (trail_steps sc t), t)) (remdups (walk_trails sc from_id to_id hops from_id []))"

definition synthetic_paths ::
  "plsql_env \<Rightarrow> synthetic_client \<Rightarrow> ustring \<Rightarrow> ustring \<Rightarrow> int \<Rightarrow> int \<Rightarrow> int \<Rightarrow> path_record page" where
  "synthetic_paths env sc from_id to_id max_hops limit offset =
     result_page (nat (max 0 offset)) (bounded_limit env limit)
       (map (synthetic_path env sc) (all_trails sc from_id to_id (nat (max 1 max_hops))))"

section \<open>Source\<close>

definition synthetic_object_source :: "plsql_env \<Rightarrow> synthetic_client \<Rightarrow> ustring \<Rightarrow> plsql_error + source_record option" where
  "synthetic_object_source env sc i =
     (case object_by_id sc i of
        None \<Rightarrow> Inr None
      | Some r \<Rightarrow>
          (case ob_evidence r of
             None \<Rightarrow> Inr None
           | Some e \<Rightarrow>
               (case load_source env (se_file e) (se_path e) (se_start_line e) None of Inl x \<Rightarrow> Inl x | Inr s \<Rightarrow> Inr (Some s))))"

definition synthetic_file_source ::
  "plsql_env \<Rightarrow> synthetic_client \<Rightarrow> ustring \<Rightarrow> int option \<Rightarrow> int option \<Rightarrow> plsql_error + source_record option" where
  "synthetic_file_source env sc i start stop =
     (case file_by_id sc i of
        None \<Rightarrow> Inr None
      | Some p \<Rightarrow> (case load_source env i p start stop of Inl x \<Rightarrow> Inl x | Inr s \<Rightarrow> Inr (Some s)))"

section \<open>Impact\<close>

definition anchors_by_id :: "synthetic_client \<Rightarrow> ustring \<Rightarrow> ustring list" where
  "anchors_by_id sc i =
     (case object_by_id sc i of
        None \<Rightarrow> []
      | Some r \<Rightarrow>
          if ob_kind r \<noteq> KPackage then [i]
          else sort (map ob_id (filter (\<lambda>c. ob_id c \<noteq> i \<and> container_belongs sc c i) (sy_corpus sc))))"

text \<open>
  \<open>visit\<close>: the peers it reaches, in its order, with the trail that led to each; the number is the hops
  that are left. \<open>trails_of\<close> are the trails of one peer, \<open>reached_peers\<close> the keys of the dictionary.
\<close>

definition forward_trail :: "direction \<Rightarrow> dependency list \<Rightarrow> ustring list" where
  "forward_trail d chain = map dp_id (if d = Upstream then rev chain else chain)"

primrec visit_trails ::
  "synthetic_client \<Rightarrow> relationship list \<Rightarrow> direction \<Rightarrow> nat \<Rightarrow> ustring \<Rightarrow> ustring list \<Rightarrow> dependency list \<Rightarrow>
     (ustring \<times> ustring list) list"
where
  "visit_trails sc rels d 0 current seen chain = []"
| "visit_trails sc rels d (Suc n) current seen chain =
     concat (map (\<lambda>e. let peer = far_id d e in
         if peer \<in> set seen then []
         else (peer, forward_trail d (chain @ [e])) # visit_trails sc rels d n peer (peer # seen) (chain @ [e]))
       (adjacency sc rels d current))"

definition impact_visits ::
  "synthetic_client \<Rightarrow> ustring \<Rightarrow> nat \<Rightarrow> relationship list \<Rightarrow> direction \<Rightarrow> (ustring \<times> ustring list) list" where
  "impact_visits sc i hops rels d = concat (map (\<lambda>a. visit_trails sc rels d hops a [a] []) (anchors_by_id sc i))"

definition reached_peers :: "(ustring \<times> ustring list) list \<Rightarrow> ustring list" where
  "reached_peers visits = unique (map fst visits)"

definition trails_of :: "(ustring \<times> ustring list) list \<Rightarrow> ustring \<Rightarrow> ustring list list" where
  "trails_of visits peer = remdups (map snd (filter (\<lambda>v. fst v = peer) visits))"

definition shortest_of :: "ustring list list \<Rightarrow> nat" where
  "shortest_of trails = Min (length ` set trails)"

definition visits_summary :: "synthetic_client \<Rightarrow> (ustring \<times> ustring list) list \<Rightarrow> impact_summary" where
  "visits_summary sc visits =
     (let peers = reached_peers visits;
          direct = length (filter (\<lambda>p. shortest_of (trails_of visits p) = 1) peers)
      in \<lparr>is_direct = direct, is_indirect = length peers - direct,
          is_packages = card (set (List.map_filter package_of (List.map_filter (object_by_id sc) peers))),
          is_tables_modified = card (set (map target_id (filter (\<lambda>e. dp_relationship e = Writes \<and> table_or_view (or_kind (dp_target e)))
             (concat (map (\<lambda>p. concat (map (trail_steps sc) (trails_of visits p))) peers)))))\<rparr>)"

definition synthetic_item :: "plsql_env \<Rightarrow> synthetic_client \<Rightarrow> (ustring \<times> ustring list) list \<Rightarrow> ustring \<Rightarrow> impact_item option" where
  "synthetic_item env sc visits peer =
     (case object_by_id sc peer of
        None \<Rightarrow> None
      | Some r \<Rightarrow>
          let trails = trails_of visits peer; n = shortest_of trails
          in Some \<lparr>im_id = ascii ''impact://'' @ pe_project env @ ascii ''/'' @ peer @ ascii ''/d'' @ nat_digits n,
                   im_dependent = r, im_distance = n,
                   im_paths = map (synthetic_path env sc)
                     (sort_key (\<lambda>t. (map target_id (trail_steps sc t), t)) (filter (\<lambda>t. length t = n) trails))\<rparr>)"

definition synthetic_items :: "plsql_env \<Rightarrow> synthetic_client \<Rightarrow> (ustring \<times> ustring list) list \<Rightarrow> impact_item list" where
  "synthetic_items env sc visits = impact_order env (List.map_filter (synthetic_item env sc visits) (reached_peers visits))"

definition synthetic_impact ::
  "plsql_env \<Rightarrow> synthetic_client \<Rightarrow> ustring \<Rightarrow> int \<Rightarrow> int \<Rightarrow> direction \<Rightarrow> relationship list option \<Rightarrow> int \<Rightarrow>
     impact_item page \<times> impact_summary"
where
  "synthetic_impact env sc i max_hops limit d relationships offset =
     (let rels = (case relationships of None \<Rightarrow> path_relationships | Some rs \<Rightarrow> rs);
          visits = impact_visits sc i (nat (max 1 max_hops)) rels d
      in (result_page (nat (max 0 offset)) (bounded_limit env limit) (synthetic_items env sc visits), visits_summary sc visits))"

section \<open>Overview\<close>

text \<open>An object that is not in the corpus is a key that is missing.\<close>

definition synthetic_overview :: "plsql_env \<Rightarrow> synthetic_client \<Rightarrow> ustring \<Rightarrow> int \<Rightarrow> int \<Rightarrow> plsql_error + overview_record" where
  "synthetic_overview env sc i max_hops limit =
     (case object_by_id sc i of
        None \<Rightarrow> Inl Uncaught
      | Some r \<Rightarrow>
          let anchors = set (anchors_by_id sc i);
              access = synthetic_table_access env sc i (max_rows env);
              impact = fst (synthetic_impact env sc i max_hops (max_rows env) Upstream None 0);
              direct = length (filter (\<lambda>e. dp_relationship e \<in> set path_relationships \<and> target_id e \<in> anchors \<and>
                object_by_id sc (source_id e) \<noteq> None) (sy_edges sc));
              callers = unique (map source_id (filter (\<lambda>e. dp_relationship e = Calls \<and> target_id e \<in> anchors) (sy_edges sc)));
              callees = unique (map target_id (filter (\<lambda>e. dp_relationship e = Calls \<and> source_id e \<in> anchors) (sy_edges sc)))
          in Inr \<lparr>ov_object = r, ov_direct = direct, ov_indirect = pg_total impact - direct, ov_callers = length callers,
                  ov_callees = length callees,
                  ov_tables = card (set (map target_id (filter (\<lambda>e. table_or_view (or_kind (dp_target e))) (pg_items access)))),
                  ov_top_callers = List.map_filter (object_by_id sc) (py_take limit callers)\<rparr>)"

end
