(* ===== verification/Plsql_Routes.thy ===== *)
theory Plsql_Routes
  imports Plsql_Synthetic Page_Cursors
begin

text \<open>
  The PL/SQL analysis routes (\<open>app/api/routes/plsql/router.py\<close>) over either analysis client: limits, cursors,
  lookups before a query, and the public models of the responses (\<open>app/models/plsql.py\<close>), whose bounds are
  checked when they are built. The framework has checked the query parameters and the role before a route runs.
\<close>

section \<open>Handlers\<close>

text \<open>What a route raises: an error of the gateway, an invalid request, or a response that its model refuses.\<close>

datatype route_error = Gateway plsql_error | BadCursor | InvalidResponse

type_synonym ('s, 'a) gateway = "'s \<Rightarrow> (plsql_error + 'a) \<times> 's"
type_synonym ('s, 'a) handler = "'s \<Rightarrow> (route_error + 'a) \<times> 's"

definition answer_with :: "'a \<Rightarrow> ('s, 'a) handler" where
  "answer_with x st = (Inr x, st)"

definition refuse :: "route_error \<Rightarrow> ('s, 'a) handler" where
  "refuse e st = (Inl e, st)"

definition then_do :: "('s, 'a) handler \<Rightarrow> ('a \<Rightarrow> ('s, 'b) handler) \<Rightarrow> ('s, 'b) handler" where
  "then_do m f st = (case m st of (Inl e, st') \<Rightarrow> (Inl e, st') | (Inr x, st') \<Rightarrow> f x st')"

definition call :: "('s, 'a) gateway \<Rightarrow> ('s, 'a) handler" where
  "call m st = (case m st of (Inl e, st') \<Rightarrow> (Inl (Gateway e), st') | (Inr x, st') \<Rightarrow> (Inr x, st'))"

text \<open>A response; \<open>None\<close> stands for a validation error of its model.\<close>

definition respond :: "'a option \<Rightarrow> ('s, 'a) handler" where
  "respond r = (case r of None \<Rightarrow> refuse InvalidResponse | Some x \<Rightarrow> answer_with x)"

section \<open>Clients\<close>

text \<open>The protocol \<open>AnalysisGraphClient\<close>.\<close>

record 's analysis_client =
  ac_search :: "ustring \<Rightarrow> object_kind list option \<Rightarrow> int \<Rightarrow> ('s, object_record page) gateway"
  ac_get :: "ustring \<Rightarrow> ('s, object_record option) gateway"
  ac_health :: "ustring option \<Rightarrow> int \<Rightarrow> ('s, health_record) gateway"
  ac_dependencies :: "ustring \<Rightarrow> category \<Rightarrow> int \<Rightarrow> ('s, dependency_summary) gateway"
  ac_overview :: "ustring \<Rightarrow> int \<Rightarrow> int \<Rightarrow> ('s, overview_record) gateway"
  ac_callers :: "ustring \<Rightarrow> int \<Rightarrow> ('s, dependency page) gateway"
  ac_callees :: "ustring \<Rightarrow> int \<Rightarrow> ('s, dependency page) gateway"
  ac_tables :: "ustring \<Rightarrow> int \<Rightarrow> ('s, dependency page) gateway"
  ac_unresolved :: "int \<Rightarrow> ('s, dependency page) gateway"
  ac_paths :: "ustring \<Rightarrow> ustring \<Rightarrow> int \<Rightarrow> int \<Rightarrow> int \<Rightarrow> ('s, path_record page) gateway"
  ac_evidence :: "ustring \<Rightarrow> ('s, dependency option) gateway"
  ac_object_source :: "ustring \<Rightarrow> ('s, source_record option) gateway"
  ac_file_source :: "ustring \<Rightarrow> int option \<Rightarrow> int option \<Rightarrow> ('s, source_record option) gateway"
  ac_impact :: "ustring \<Rightarrow> int \<Rightarrow> int \<Rightarrow> direction \<Rightarrow> relationship list option \<Rightarrow> int \<Rightarrow> ('s, impact_item page \<times> impact_summary) gateway"

definition neo4j_analysis :: "plsql_env \<Rightarrow> client_state analysis_client" where
  "neo4j_analysis env =
     \<lparr>ac_search = (\<lambda>q kinds limit. search_objects env q (case kinds of None \<Rightarrow> [] | Some ks \<Rightarrow> ks) limit),
      ac_get = get_object env, ac_health = health env, ac_dependencies = dependencies_of env,
      ac_overview = overview_of env, ac_callers = callers_of env, ac_callees = callees_of env,
      ac_tables = table_access_of env, ac_unresolved = unresolved_references env, ac_paths = find_paths env,
      ac_evidence = relationship_evidence env, ac_object_source = object_source env, ac_file_source = file_source env,
      ac_impact = impact_of env\<rparr>"

definition stateless :: "plsql_error + 'a \<Rightarrow> (unit, 'a) gateway" where
  "stateless r st = (r, st)"

definition synthetic_analysis :: "plsql_env \<Rightarrow> synthetic_client \<Rightarrow> unit analysis_client" where
  "synthetic_analysis env sc =
     \<lparr>ac_search = (\<lambda>q kinds limit. stateless (Inr (synthetic_search env sc q kinds limit))),
      ac_get = (\<lambda>i. stateless (Inr (object_by_id sc i))),
      ac_health = (\<lambda>i limit. stateless (Inr (synthetic_health env sc i limit))),
      ac_dependencies = (\<lambda>i cat limit. stateless (Inr (synthetic_dependencies env sc i cat limit))),
      ac_overview = (\<lambda>i hops limit. stateless (synthetic_overview env sc i hops limit)),
      ac_callers = (\<lambda>i limit. stateless (Inr (synthetic_callers env sc i limit))),
      ac_callees = (\<lambda>i limit. stateless (Inr (synthetic_callees env sc i limit))),
      ac_tables = (\<lambda>i limit. stateless (Inr (synthetic_table_access env sc i limit))),
      ac_unresolved = (\<lambda>limit. stateless (Inr (synthetic_unresolved env sc limit))),
      ac_paths = (\<lambda>s t hops limit offset. stateless (Inr (synthetic_paths env sc s t hops limit offset))),
      ac_evidence = (\<lambda>i. stateless (Inr (edge_by_key sc i))),
      ac_object_source = (\<lambda>i. stateless (synthetic_object_source env sc i)),
      ac_file_source = (\<lambda>i a b. stateless (synthetic_file_source env sc i a b)),
      ac_impact = (\<lambda>i hops limit d rels offset. stateless (Inr (synthetic_impact env sc i hops limit d rels offset)))\<rparr>"

text \<open>The client of the application state, which is missing when the feature is not configured.\<close>

definition with_analysis :: "'s analysis_client option \<Rightarrow> ('s analysis_client \<Rightarrow> ('s, 'a) handler) \<Rightarrow> ('s, 'a) handler" where
  "with_analysis client f = (case client of None \<Rightarrow> refuse (Gateway NotConfigured) | Some c \<Rightarrow> f c)"

section \<open>Public models\<close>

definition sized :: "nat \<Rightarrow> ustring \<Rightarrow> bool" where
  "sized n s \<longleftrightarrow> 1 \<le> length s \<and> length s \<le> n"

definition sized_opt :: "nat \<Rightarrow> ustring option \<Rightarrow> bool" where
  "sized_opt n v \<longleftrightarrow> (case v of None \<Rightarrow> True | Some s \<Rightarrow> length s \<le> n)"

definition checked :: "bool \<Rightarrow> 'a \<Rightarrow> 'a option" where
  "checked ok x = (if ok then Some x else None)"

definition render_all :: "('a \<Rightarrow> 'b option) \<Rightarrow> 'a list \<Rightarrow> 'b list option" where
  "render_all f xs = those (map f xs)"

record public_object =
  po_record :: object_record
  po_declaration :: "source_evidence option"

definition render_object :: "object_record \<Rightarrow> public_object option" where
  "render_object r =
     checked (sized 512 (ob_id r) \<and> sized 256 (ob_name r) \<and> sized 128 (ob_schema r) \<and> sized 512 (ob_qualified r) \<and>
         sized 128 (ob_project r) \<and> sized_opt 256 (ob_owner r) \<and> sized_opt 1024 (ob_signature r) \<and> sized_opt 128 (ob_return_type r))
       \<lparr>po_record = r, po_declaration = ob_evidence r\<rparr>"

record public_reference =
  pr_id :: ustring
  pr_kind :: object_kind
  pr_name :: ustring
  pr_schema :: ustring
  pr_qualified :: ustring

definition render_reference :: "object_reference \<Rightarrow> public_reference option" where
  "render_reference r =
     checked (sized 512 (or_id r) \<and> sized 256 (or_name r) \<and> sized 128 (schema_of (or_qualified r)) \<and> sized 512 (or_qualified r))
       \<lparr>pr_id = or_id r, pr_kind = or_kind r, pr_name = or_name r, pr_schema = schema_of (or_qualified r),
        pr_qualified = or_qualified r\<rparr>"

record public_dependency =
  pd_id :: ustring
  pd_relationship :: relationship
  pd_source :: public_reference
  pd_target :: public_reference
  pd_resolution :: resolution
  pd_evidence :: "source_evidence option"
  pd_evidence_kind :: "ustring option"
  pd_derived :: "bool option"
  pd_events :: "ustring option"
  pd_via_table :: "public_reference option"

text \<open>An optional reference is rendered when it is there.\<close>

definition render_optional :: "('a \<Rightarrow> 'b option) \<Rightarrow> 'a option \<Rightarrow> 'b option option" where
  "render_optional f v = (case v of None \<Rightarrow> Some None | Some x \<Rightarrow> map_option Some (f x))"

definition render_dependency :: "dependency \<Rightarrow> public_dependency option" where
  "render_dependency e =
     (case (render_optional render_reference (dp_via_table e), render_reference (dp_source e), render_reference (dp_target e)) of
        (Some via, Some s, Some t) \<Rightarrow>
          checked (sized 512 (dp_id e))
            \<lparr>pd_id = dp_id e, pd_relationship = dp_relationship e, pd_source = s, pd_target = t, pd_resolution = dp_resolution e,
             pd_evidence = dp_evidence e, pd_evidence_kind = dp_evidence_kind e, pd_derived = dp_derived e,
             pd_events = dp_events e, pd_via_table = via\<rparr>
      | _ \<Rightarrow> None)"

record public_path =
  pp_id :: ustring
  pp_nodes :: "public_reference list"
  pp_relationships :: "public_dependency list"
  pp_hops :: nat

text \<open>\<open>_path\<close> raises for a path without steps.\<close>

definition render_path :: "path_record \<Rightarrow> public_path option" where
  "render_path p =
     (case pa_steps p of
        [] \<Rightarrow> None
      | e # es \<Rightarrow>
          (case (render_all render_reference (dp_source e # map dp_target (pa_steps p)), render_all render_dependency (pa_steps p)) of
             (Some nodes, Some steps) \<Rightarrow>
               checked (sized 512 (pa_id p) \<and> 1 \<le> pa_hops p)
                 \<lparr>pp_id = pa_id p, pp_nodes = nodes, pp_relationships = steps, pp_hops = pa_hops p\<rparr>
           | _ \<Rightarrow> None))"

record public_impact =
  pi_id :: ustring
  pi_dependent :: public_reference
  pi_distance :: nat
  pi_paths :: "public_path list"

definition render_impact :: "impact_item \<Rightarrow> public_impact option" where
  "render_impact x =
     (case (render_reference (reference_to (im_dependent x)), render_all render_path (im_paths x)) of
        (Some r, Some ps) \<Rightarrow>
          checked (sized 512 (im_id x) \<and> 1 \<le> im_distance x)
            \<lparr>pi_id = im_id x, pi_dependent = r, pi_distance = im_distance x, pi_paths = ps\<rparr>
      | _ \<Rightarrow> None)"

definition render_source :: "source_record \<Rightarrow> source_record option" where
  "render_source s =
     checked (sized 512 (sr_file s) \<and> sized 512 (sr_path s) \<and>
         (case sr_highlight s of None \<Rightarrow> True | Some (a, b) \<Rightarrow> 1 \<le> a \<and> 1 \<le> b)) s"

text \<open>A list of results with its count.\<close>

definition render_page :: "('a \<Rightarrow> 'b option) \<Rightarrow> 'a page \<Rightarrow> 'b page option" where
  "render_page f p =
     map_option (\<lambda>items. \<lparr>pg_items = items, pg_truncated = pg_truncated p, pg_total = pg_total p\<rparr>) (render_all f (pg_items p))"

section \<open>Limits\<close>

definition default_page_size :: int where
  "default_page_size = 25"

text \<open>\<open>min(limit or default, settings.plsql_max_rows)\<close>.\<close>

definition capped :: "plsql_env \<Rightarrow> int option \<Rightarrow> int \<Rightarrow> int" where
  "capped env limit usual = min (case limit of None \<Rightarrow> usual | Some n \<Rightarrow> if n = 0 then usual else n) (pe_max_rows env)"

definition effective_limit :: "plsql_env \<Rightarrow> int option \<Rightarrow> int" where
  "effective_limit env limit = capped env limit (pe_max_rows env)"

definition effective_page_limit :: "plsql_env \<Rightarrow> int \<Rightarrow> int" where
  "effective_page_limit env limit = capped env (Some limit) default_page_size"

section \<open>Routes over lists\<close>

definition require_known :: "'s analysis_client \<Rightarrow> ustring \<Rightarrow> ('s, object_record) handler" where
  "require_known client i =
     then_do (call (ac_get client i)) (\<lambda>r. case r of None \<Rightarrow> refuse (Gateway ObjectNotFound) | Some x \<Rightarrow> answer_with x)"

definition get_objects_route :: "plsql_env \<Rightarrow> 's analysis_client \<Rightarrow> ustring \<Rightarrow> object_kind list option \<Rightarrow> int option \<Rightarrow> ('s, public_object page) handler" where
  "get_objects_route env client q kinds limit =
     then_do (call (ac_search client q kinds (effective_limit env limit))) (\<lambda>page. respond (render_page render_object page))"

definition get_object_route :: "'s analysis_client \<Rightarrow> ustring \<Rightarrow> ('s, public_object) handler" where
  "get_object_route client i = then_do (require_known client i) (\<lambda>r. respond (render_object r))"

record public_health =
  ph_total :: nat
  ph_unresolved :: "nat \<times> public_dependency list"
  ph_ambiguous :: "nat \<times> public_dependency list"
  ph_truncated :: bool

text \<open>The categories \<open>dynamic_sql\<close>, \<open>parse_errors\<close> and \<open>unsupported\<close> are empty in every report.\<close>

definition render_health :: "health_record \<Rightarrow> public_health option" where
  "render_health r =
     (case (render_all render_dependency (hc_items (hr_unresolved r)), render_all render_dependency (hc_items (hr_ambiguous r))) of
        (Some us, Some as) \<Rightarrow>
          Some \<lparr>ph_total = hr_total r, ph_unresolved = (hc_count (hr_unresolved r), us),
                ph_ambiguous = (hc_count (hr_ambiguous r), as), ph_truncated = hr_truncated r\<rparr>
      | _ \<Rightarrow> None)"

definition get_health_route :: "plsql_env \<Rightarrow> 's analysis_client \<Rightarrow> ustring option \<Rightarrow> int option \<Rightarrow> ('s, public_health) handler" where
  "get_health_route env client i limit =
     then_do (case i of None \<Rightarrow> answer_with () | Some j \<Rightarrow> then_do (require_known client j) (\<lambda>_. answer_with ())) (\<lambda>_.
     then_do (call (ac_health client i (effective_limit env limit))) (\<lambda>r. respond (render_health r)))"

definition get_dependencies_route ::
  "plsql_env \<Rightarrow> 's analysis_client \<Rightarrow> ustring \<Rightarrow> category \<Rightarrow> int option \<Rightarrow> ('s, (category \<times> nat) list \<times> public_dependency page) handler" where
  "get_dependencies_route env client i cat limit =
     then_do (require_known client i) (\<lambda>_.
     then_do (call (ac_dependencies client i cat (effective_limit env limit))) (\<lambda>d.
     respond (map_option (\<lambda>items. (ds_counts d, \<lparr>pg_items = items, pg_truncated = ds_truncated d, pg_total = ds_total d\<rparr>))
       (render_all render_dependency (ds_items d)))))"

record public_overview =
  pv_object :: public_reference
  pv_counts :: "nat \<times> nat \<times> nat \<times> nat \<times> nat"
  pv_top_callers :: "public_reference list"

definition get_overview_route :: "plsql_env \<Rightarrow> 's analysis_client \<Rightarrow> ustring \<Rightarrow> int option \<Rightarrow> ('s, public_overview) handler" where
  "get_overview_route env client i count =
     then_do (require_known client i) (\<lambda>r.
     then_do (call (ac_overview client i (pe_max_hops env) (capped env count 5))) (\<lambda>v.
     respond
       (case (render_reference (reference_to r), render_all (\<lambda>c. render_reference (reference_to c)) (ov_top_callers v)) of
          (Some obj, Some callers) \<Rightarrow>
            Some \<lparr>pv_object = obj, pv_counts = (ov_direct v, ov_indirect v, ov_callers v, ov_callees v, ov_tables v),
                  pv_top_callers = callers\<rparr>
        | _ \<Rightarrow> None)))"

definition listed_dependencies ::
  "plsql_env \<Rightarrow> 's analysis_client \<Rightarrow> (int \<Rightarrow> ('s, dependency page) gateway) \<Rightarrow> int option \<Rightarrow> ('s, public_dependency page) handler" where
  "listed_dependencies env client query limit =
     then_do (call (query (effective_limit env limit))) (\<lambda>page. respond (render_page render_dependency page))"

definition get_callers_route :: "plsql_env \<Rightarrow> 's analysis_client \<Rightarrow> ustring \<Rightarrow> int option \<Rightarrow> ('s, public_dependency page) handler" where
  "get_callers_route env client i limit =
     then_do (require_known client i) (\<lambda>_. listed_dependencies env client (ac_callers client i) limit)"

definition get_callees_route :: "plsql_env \<Rightarrow> 's analysis_client \<Rightarrow> ustring \<Rightarrow> int option \<Rightarrow> ('s, public_dependency page) handler" where
  "get_callees_route env client i limit =
     then_do (require_known client i) (\<lambda>_. listed_dependencies env client (ac_callees client i) limit)"

definition get_tables_route :: "plsql_env \<Rightarrow> 's analysis_client \<Rightarrow> ustring \<Rightarrow> int option \<Rightarrow> ('s, public_dependency page) handler" where
  "get_tables_route env client i limit =
     then_do (require_known client i) (\<lambda>_. listed_dependencies env client (ac_tables client i) limit)"

definition get_unresolved_route :: "plsql_env \<Rightarrow> 's analysis_client \<Rightarrow> int option \<Rightarrow> ('s, public_dependency page) handler" where
  "get_unresolved_route env client limit = listed_dependencies env client (ac_unresolved client) limit"

text \<open>A result that may be missing.\<close>

definition found_or_missing :: "'a option \<Rightarrow> ('a \<Rightarrow> 'b option) \<Rightarrow> ('s, 'b) handler" where
  "found_or_missing r render = (case r of None \<Rightarrow> refuse (Gateway ObjectNotFound) | Some x \<Rightarrow> respond (render x))"

definition get_evidence_route :: "'s analysis_client \<Rightarrow> ustring \<Rightarrow> ('s, public_dependency) handler" where
  "get_evidence_route client i = then_do (call (ac_evidence client i)) (\<lambda>e. found_or_missing e render_dependency)"

definition get_object_source_route :: "'s analysis_client \<Rightarrow> ustring \<Rightarrow> ('s, source_record) handler" where
  "get_object_source_route client i =
     then_do (require_known client i) (\<lambda>_. then_do (call (ac_object_source client i)) (\<lambda>s. found_or_missing s render_source))"

definition get_file_source_route :: "'s analysis_client \<Rightarrow> ustring \<Rightarrow> int option \<Rightarrow> int option \<Rightarrow> ('s, source_record) handler" where
  "get_file_source_route client i start stop =
     then_do (call (ac_file_source client i start stop)) (\<lambda>s. found_or_missing s render_source)"

section \<open>Paginated routes\<close>

record 'a cursor_page =
  cp_page :: "'a page"
  cp_next :: "ustring option"

text \<open>Both routes read the cursor, ask for the page at its offset and point to the one after it.\<close>

definition page_offset :: "ustring option \<Rightarrow> ustring \<Rightarrow> ('s, int) handler" where
  "page_offset cursor scope =
     (case decode_page_cursor cursor scope of None \<Rightarrow> refuse BadCursor | Some k \<Rightarrow> answer_with (int k))"

definition next_cursor :: "ustring \<Rightarrow> int \<Rightarrow> 'a page \<Rightarrow> ustring option" where
  "next_cursor scope offset page =
     (if pg_truncated page then Some (encode_page_cursor scope (nat offset + length (pg_items page))) else None)"

definition render_cursor_page :: "('a \<Rightarrow> 'b option) \<Rightarrow> ustring \<Rightarrow> int \<Rightarrow> 'a page \<Rightarrow> 'b cursor_page option" where
  "render_cursor_page render scope offset page =
     map_option (\<lambda>p. \<lparr>cp_page = p, cp_next = next_cursor scope offset page\<rparr>) (render_page render page)"

definition paths_scope :: "plsql_env \<Rightarrow> (nat list \<Rightarrow> ustring) \<Rightarrow> ustring \<Rightarrow> ustring \<Rightarrow> ustring" where
  "paths_scope env sha256 from_id to_id =
     pagination_scope sha256 (ascii ''paths'')
       [(ascii ''from_id'', JText from_id), (ascii ''to_id'', JText to_id), (ascii ''max_hops'', JInt (pe_max_hops env))]"

definition get_paths_route ::
  "plsql_env \<Rightarrow> (nat list \<Rightarrow> ustring) \<Rightarrow> 's analysis_client \<Rightarrow> ustring \<Rightarrow> ustring \<Rightarrow> int \<Rightarrow> ustring option \<Rightarrow>
     ('s, public_path cursor_page) handler"
where
  "get_paths_route env sha256 client from_id to_id limit cursor =
     then_do (require_known client from_id) (\<lambda>_.
     then_do (require_known client to_id) (\<lambda>_.
     let scope = paths_scope env sha256 from_id to_id in
     then_do (page_offset cursor scope) (\<lambda>offset.
     then_do (call (ac_paths client from_id to_id (pe_max_hops env) (effective_page_limit env limit) offset)) (\<lambda>page.
     respond (render_cursor_page render_path scope offset page)))))"

definition direction_name :: "direction \<Rightarrow> string" where
  "direction_name d = (if d = Upstream then ''upstream'' else ''downstream'')"

record impact_query =
  iq_direction :: direction
  iq_depth :: "int option"
  iq_relationship :: "relationship option"
  iq_direct_only :: bool
  iq_writes_only :: bool

definition chosen_relationships :: "impact_query \<Rightarrow> relationship list option" where
  "chosen_relationships q =
     (if iq_writes_only q then Some [Writes]
      else case iq_relationship q of Some r \<Rightarrow> Some [r] | None \<Rightarrow> None)"

definition impact_hops :: "plsql_env \<Rightarrow> impact_query \<Rightarrow> int" where
  "impact_hops env q =
     (if iq_direct_only q then 1
      else min (case iq_depth q of None \<Rightarrow> pe_max_hops env | Some n \<Rightarrow> if n = 0 then pe_max_hops env else n) (pe_max_hops env))"

definition impact_scope :: "plsql_env \<Rightarrow> (nat list \<Rightarrow> ustring) \<Rightarrow> ustring \<Rightarrow> impact_query \<Rightarrow> ustring" where
  "impact_scope env sha256 i q =
     pagination_scope sha256 (ascii ''impact'')
       [(ascii ''object_id'', JText i), (ascii ''max_hops'', JInt (impact_hops env q)),
        (ascii ''direction'', JText (ascii (direction_name (iq_direction q)))),
        (ascii ''relationships'', (case chosen_relationships q of
           None \<Rightarrow> JNull | Some rs \<Rightarrow> JList (map JText (sort (map (\<lambda>r. ascii (relationship_name r)) rs)))))]"

record public_impact_page =
  ip_object :: public_reference
  ip_items :: "public_impact cursor_page"
  ip_summary :: impact_summary

definition get_impact_route ::
  "plsql_env \<Rightarrow> (nat list \<Rightarrow> ustring) \<Rightarrow> 's analysis_client \<Rightarrow> ustring \<Rightarrow> impact_query \<Rightarrow> int \<Rightarrow> ustring option \<Rightarrow>
     ('s, public_impact_page) handler"
where
  "get_impact_route env sha256 client i q limit cursor =
     then_do (require_known client i) (\<lambda>r.
     let scope = impact_scope env sha256 i q in
     then_do (page_offset cursor scope) (\<lambda>offset.
     then_do (call (ac_impact client i (impact_hops env q) (effective_page_limit env limit) (iq_direction q)
                      (chosen_relationships q) offset)) (\<lambda>(page, summary).
     respond
       (case (render_reference (reference_to r), render_cursor_page render_impact scope offset page) of
          (Some obj, Some items) \<Rightarrow> Some \<lparr>ip_object = obj, ip_items = items, ip_summary = summary\<rparr>
        | _ \<Rightarrow> None))))"

end
