(* ===== verification/Plsql_Impact.thy ===== *)
theory Plsql_Impact
  imports Plsql_Traversal
begin

text \<open>
  The correctness of the impact traversal: what it reaches, and at which distance, is what a reference
  definition by walks over the edges of the graph says.
\<close>

section \<open>Results of queries\<close>

lemma act_bindE:
  assumes "act_bind m f st = (Inr y, st')"
  obtains x st1 where "m st = (Inr x, st1)" "f x st1 = (Inr y, st')"
  using assms by (auto simp: act_bind_def split: prod.splits sum.splits)

lemma map_rows_Inr:
  "map_rows f rs = Inr xs \<Longrightarrow>
     (\<forall>r\<in>set rs. \<exists>v. f r = Inr v) \<and> set xs = {x. \<exists>r\<in>set rs. f r = Inr (Some x)}"
proof (induction rs arbitrary: xs)
  case (Cons r rs)
  then obtain v ys where v: "f r = Inr v" "map_rows f rs = Inr ys" "xs = (case v of None \<Rightarrow> ys | Some x \<Rightarrow> x # ys)"
    by (auto split: sum.splits)
  then show ?case using Cons.IH [OF v(2)] by (cases v) auto
qed simp

text \<open>The file map is the one of the graph, from the cache or not.\<close>

definition files_cached :: "plsql_env \<Rightarrow> client_state \<Rightarrow> bool" where
  "files_cached env st \<longleftrightarrow> (case cs_file_map st of None \<Rightarrow> True | Some m \<Rightarrow> m = file_paths env)"

lemma execute_Inr:
  "execute env rows st = (Inr x, st') \<Longrightarrow> x = rows \<and> st' = st\<lparr>cs_queries := cs_queries st + 1\<rparr>"
  by (auto simp: execute_def split: option.splits)

lemma file_map_Inr:
  "file_map env st = (Inr m, st') \<Longrightarrow> files_cached env st \<Longrightarrow>
     m = file_paths env \<and> files_cached env st' \<and> cs_objects st' = cs_objects st \<and> cs_impact st' = cs_impact st"
  by (auto simp: file_map_def files_cached_def file_paths_def Let_def split: option.splits elim!: act_bindE dest!: execute_Inr)

lemma fetch_round_Inr:
  assumes "fetch_round env m P used st = (Inr es, st')"
  shows "st' = st\<lparr>cs_queries := cs_queries st + 1\<rparr> \<and>
    (\<forall>e. e \<in> set es \<longleftrightarrow> (\<exists>r\<in>set (project_rows (pe_graph env) (pe_project env)). P r \<and> dependency_from_row env m r = Inr (Some e))) \<and>
    used + length (filter P (project_rows (pe_graph env) (pe_project env))) \<le> traversal_budget env"
proof -
  let ?all = "filter P (project_rows (pe_graph env) (pe_project env))"
  let ?rest = "traversal_budget env - used"
  let ?rows = "edge_query (pe_lower env) (pe_graph env) (pe_project env) P (?rest + 1)"
  have used: "\<not> traversal_budget env \<le> used"
    using assms by (auto simp: fetch_round_def act_raise_def split: if_splits)
  from assms used have "act_bind (execute env ?rows) (\<lambda>rows. if ?rest < length rows then act_raise LimitExceeded
      else act_lift (map_rows (dependency_from_row env m) rows)) st = (Inr es, st')"
    by (simp add: fetch_round_def Let_def)
  then obtain st1 where st1: "st1 = st\<lparr>cs_queries := cs_queries st + 1\<rparr>"
      "(if ?rest < length ?rows then act_raise LimitExceeded else act_lift (map_rows (dependency_from_row env m) ?rows)) st1 = (Inr es, st')"
    by (elim act_bindE) (metis execute_Inr)
  then have few: "length ?rows \<le> ?rest" and es: "map_rows (dependency_from_row env m) ?rows = Inr es" "st' = st1"
    by (auto simp: act_raise_def act_lift_def split: if_splits)
  have set: "set ?rows = {r \<in> set (project_rows (pe_graph env) (pe_project env)). P r}"
    using few by (rule edge_query_set)
  have "length ?rows = length ?all"
    using few edge_query_complete [OF few] by simp
  then show ?thesis using map_rows_Inr [OF es(1)] st1(1) es(2) set few used by auto
qed

section \<open>The edges of the graph\<close>

text \<open>The edges of some types that map to records, and names of which identifiers can be made.\<close>

definition graph_edges :: "plsql_env \<Rightarrow> relationship list \<Rightarrow> dependency set" where
  "graph_edges env rels =
     {e. \<exists>r\<in>set (project_rows (pe_graph env) (pe_project env)).
           of_types rels r \<and> dependency_from_row env (file_paths env) r = Inr (Some e)}"

definition plain_name :: "ustring \<Rightarrow> bool" where
  "plain_name q \<longleftrightarrow> list_all scalar q \<and> 31 \<notin> set q"

definition plain_names :: "plsql_env \<Rightarrow> bool" where
  "plain_names env \<longleftrightarrow>
     list_all (\<lambda>n. case dn_qualified n of None \<Rightarrow> True | Some q \<Rightarrow> plain_name q) (dg_nodes (pe_graph env)) \<and>
     list_all (\<lambda>e. de_source e < length (dg_nodes (pe_graph env)) \<and> de_target e < length (dg_nodes (pe_graph env)))
       (dg_edges (pe_graph env))"

lemma dependency_row:
  assumes "dependency_from_row env m r = Inr (Some e)"
  shows "er_source r = Some (source_name e) \<and> er_target r = Some (target_name e) \<and>
    er_type r = relationship_name (dp_relationship e) \<and>
    dp_id e = edge_id (pe_project env) (ascii (relationship_name (dp_relationship e))) (source_name e) (target_name e)"
proof -
  have find: "relationship_of s = Some rel \<Longrightarrow> relationship_name rel = s" for s rel
    by (auto simp: relationship_of_def find_Some_iff)
  show ?thesis
    using assms
    by (auto simp: dependency_from_row_def source_name_def target_name_def edge_end_def split: option.splits if_splits sum.splits dest!: find)
qed

lemma row_names_plain:
  assumes "plain_names env" "r \<in> set (project_rows (pe_graph env) (pe_project env))"
  shows "er_source r = Some s \<Longrightarrow> plain_name s" "er_target r = Some t \<Longrightarrow> plain_name t"
proof -
  from assms(2) obtain x where x: "x \<in> set (dg_edges (pe_graph env))" "r = row_of_edge (pe_graph env) x"
    by (auto simp: project_rows_def)
  have ends: "de_source x < length (dg_nodes (pe_graph env))" "de_target x < length (dg_nodes (pe_graph env))"
    using x(1) assms(1) by (auto simp: plain_names_def list_all_iff)
  have node: "plain_name q" if "k < length (dg_nodes (pe_graph env))" "dn_qualified (dg_nodes (pe_graph env) ! k) = Some q" for k q
    using that assms(1) nth_mem [OF that(1)] unfolding plain_names_def list_all_iff by (metis option.simps(5))
  show "er_source r = Some s \<Longrightarrow> plain_name s" "er_target r = Some t \<Longrightarrow> plain_name t"
    using node ends x(2) by (simp_all add: row_of_edge_def Let_def)
qed

text \<open>Edges of one identifier are of one type and between the same names.\<close>

lemma same_id_same_ends:
  assumes "plain_names env" "e \<in> graph_edges env rels" "e' \<in> graph_edges env rels'" "dp_id e = dp_id e'"
  shows "source_name e = source_name e' \<and> target_name e = target_name e' \<and> dp_relationship e = dp_relationship e'"
proof -
  from assms(2) obtain r where r: "r \<in> set (project_rows (pe_graph env) (pe_project env))"
      "dependency_from_row env (file_paths env) r = Inr (Some e)" by (auto simp: graph_edges_def)
  from assms(3) obtain r' where r': "r' \<in> set (project_rows (pe_graph env) (pe_project env))"
      "dependency_from_row env (file_paths env) r' = Inr (Some e')" by (auto simp: graph_edges_def)
  note d = dependency_row [OF r(2)] and d' = dependency_row [OF r'(2)]
  have "plain_name (source_name e)" "plain_name (target_name e)" "plain_name (source_name e')" "plain_name (target_name e')"
    using row_names_plain [OF assms(1) r(1)] row_names_plain [OF assms(1) r'(1)] d d' by blast+
  then show ?thesis
    using assms(4) d d' edge_id_inj by (metis plain_name_def)
qed

lemma near_far_same:
  assumes "plain_names env" "e \<in> graph_edges env rels" "e' \<in> graph_edges env rels'" "dp_id e = dp_id e'"
  shows "near_name d e = near_name d e' \<and> far_name d e = far_name d e'"
  using same_id_same_ends [OF assms] by (simp add: near_name_def far_name_def)

section \<open>The register of edges\<close>

lemma new_edges_set: "set (new_edges known es) \<subseteq> set es"
  by (induction known es rule: new_edges.induct) auto

lemma new_edges_ids: "dp_id ` set (known @ new_edges known es) = dp_id ` set known \<union> dp_id ` set es"
proof (induction known es rule: new_edges.induct)
  case (2 known e es)
  show ?case
  proof (cases "dp_id e \<in> dp_id ` set known")
    case True
    then show ?thesis using 2(1) by auto
  next
    case False
    have "dp_id ` set (known @ new_edges known (e # es)) = dp_id ` set ((known @ [e]) @ new_edges (known @ [e]) es)"
      using False by simp
    then show ?thesis using 2(2) [OF False] by auto
  qed
qed simp

lemma new_edges_distinct: "distinct (map dp_id known) \<Longrightarrow> distinct (map dp_id (known @ new_edges known es))"
proof (induction known es rule: new_edges.induct)
  case (2 known e es)
  then show ?case by (cases "dp_id e \<in> dp_id ` set known") auto
qed simp

lemma edge_by_id_Some: "i \<in> dp_id ` set known \<Longrightarrow> \<exists>e\<in>set known. edge_by_id known i = Some e \<and> dp_id e = i"
  unfolding edge_by_id_def by (induction known) auto

section \<open>Walks\<close>

text \<open>
  The reference: \<open>level A R n\<close> is what walks of \<open>n\<close> steps reach from \<open>A\<close>; the distance of an object is
  the length of the shortest walk with at least one step.
\<close>

definition step_rel :: "direction \<Rightarrow> dependency set \<Rightarrow> (ustring \<times> ustring) set" where
  "step_rel d E = {(near_name d e, far_name d e) |e. e \<in> E \<and> near_name d e \<noteq> far_name d e}"

definition level :: "'a set \<Rightarrow> ('a \<times> 'a) set \<Rightarrow> nat \<Rightarrow> 'a set" where
  "level A R n = (R ^^ n) `` A"

definition shortest :: "'a set \<Rightarrow> ('a \<times> 'a) set \<Rightarrow> 'a \<Rightarrow> nat \<Rightarrow> bool" where
  "shortest A R v n \<longleftrightarrow> 1 \<le> n \<and> v \<in> level A R n \<and> (\<forall>m. 1 \<le> m \<longrightarrow> m < n \<longrightarrow> v \<notin> level A R m)"

lemma level_0 [simp]: "level A R 0 = A"
  by (auto simp: level_def)

lemma level_Suc: "level A R (Suc n) = R `` level A R n"
  by (auto simp: level_def)

lemma shortest_unique: "shortest A R v n \<Longrightarrow> shortest A R v m \<Longrightarrow> n = m"
  unfolding shortest_def by (metis nat_neq_iff)

lemma level_shortest: "v \<in> level A R n \<Longrightarrow> 1 \<le> n \<Longrightarrow> \<exists>m\<le>n. shortest A R v m"
proof (induction n rule: less_induct)
  case (less n)
  show ?case
  proof (cases "\<exists>m. 1 \<le> m \<and> m < n \<and> v \<in> level A R m")
    case True
    then obtain m where m: "1 \<le> m" "m < n" "v \<in> level A R m" by blast
    from less.IH [OF m(2,3,1)] m(2) show ?thesis by (meson le_trans less_imp_le)
  next
    case False
    then show ?thesis using less.prems by (auto simp: shortest_def)
  qed
qed

text \<open>The objects that a round expands: those reached by the round before, without the anchors.\<close>

definition round_keys :: "'a set \<Rightarrow> ('a \<times> 'a) set \<Rightarrow> nat \<Rightarrow> 'a set" where
  "round_keys A R k = (if k = 0 then A else {u. shortest A R u k} - A)"

lemma shortest_Suc:
  "shortest A R v (Suc k) \<longleftrightarrow>
     (\<exists>u\<in>round_keys A R k. (u, v) \<in> R) \<and> (\<forall>m\<le>k. \<not> shortest A R v m)"
proof
  assume v: "shortest A R v (Suc k)"
  then obtain u where u: "u \<in> level A R k" "(u, v) \<in> R" by (auto simp: shortest_def level_Suc)
  have none: "v \<notin> level A R (Suc m)" if "m < k" for m using v that by (simp add: shortest_def)
  have "u \<in> round_keys A R k"
  proof (cases "k = 0")
    case True
    then show ?thesis using u by (simp add: round_keys_def)
  next
    case False
    have "u \<notin> level A R m" if "m < k" for m using none [OF that] u(2) by (auto simp: level_Suc)
    moreover from this [of 0] False have "u \<notin> A" by simp
    ultimately show ?thesis using u(1) False by (simp add: round_keys_def shortest_def)
  qed
  moreover have "\<not> shortest A R v m" if "m \<le> k" for m using shortest_unique [OF v, of m] that by auto
  ultimately show "(\<exists>u\<in>round_keys A R k. (u, v) \<in> R) \<and> (\<forall>m\<le>k. \<not> shortest A R v m)" using u(2) by blast
next
  assume *: "(\<exists>u\<in>round_keys A R k. (u, v) \<in> R) \<and> (\<forall>m\<le>k. \<not> shortest A R v m)"
  then obtain u where u: "u \<in> round_keys A R k" "(u, v) \<in> R" by blast
  have "u \<in> level A R k" using u(1) by (auto simp: round_keys_def shortest_def split: if_splits)
  then have "v \<in> level A R (Suc k)" using u(2) by (auto simp: level_Suc)
  then obtain m where m: "m \<le> Suc k" "shortest A R v m" using level_shortest [of v A R "Suc k"] by auto
  with * have "m = Suc k" using le_Suc_eq by blast
  with m(2) show "shortest A R v (Suc k)" by simp
qed

lemma no_keys_no_more:
  assumes "round_keys A R k = {}" "k < n"
  shows "\<not> shortest A R v n"
  using assms(2)
proof (induction n arbitrary: v)
  case (Suc n)
  show ?case
  proof (cases "n = k")
    case True
    then show ?thesis using assms(1) by (simp add: shortest_Suc)
  next
    case False
    then have "\<not> shortest A R u n" for u using Suc by simp
    moreover have "n \<noteq> 0" using False Suc.prems by simp
    ultimately have "round_keys A R n = {}" by (simp add: round_keys_def)
    then show ?thesis by (simp add: shortest_Suc)
  qed
qed simp

section \<open>One round\<close>

text \<open>The two loops as one over pairs of an object and an edge.\<close>

definition visit_pairs :: "direction \<Rightarrow> nat \<Rightarrow> (ustring \<times> dependency) list \<Rightarrow> impact_state \<Rightarrow> impact_state" where
  "visit_pairs d depth ps st = fold (\<lambda>(c, e). visit_edge d depth c e) ps st"

definition round_pairs :: "direction \<Rightarrow> dependency list \<Rightarrow> dependency list \<Rightarrow> ustring list \<Rightarrow> (ustring \<times> dependency) list" where
  "round_pairs d known es keys = concat (map (\<lambda>c. map (Pair c) (adjacent d known es c)) keys)"

lemma visit_edge_known [simp]: "im_known (visit_edge d depth c e st) = im_known st"
  by (simp add: visit_edge_def Let_def split: option.split)

lemma visit_pairs_known [simp]: "im_known (visit_pairs d depth ps st) = im_known st"
  by (induction ps arbitrary: st) (auto simp: visit_pairs_def split: prod.split)

lemma visit_pairs_append: "visit_pairs d depth (ps @ qs) st = visit_pairs d depth qs (visit_pairs d depth ps st)"
  by (simp add: visit_pairs_def)

lemma visit_all_pairs: "visit_all d depth es keys st = visit_pairs d depth (round_pairs d (im_known st) es keys) st"
proof (induction keys arbitrary: st)
  case Nil
  then show ?case by (simp add: visit_all_def visit_pairs_def round_pairs_def)
next
  case (Cons c keys)
  have inner: "fold (visit_edge d depth c) xs st = visit_pairs d depth (map (Pair c) xs) st" for xs
    by (induction xs arbitrary: st) (simp_all add: visit_pairs_def)
  let ?st = "visit_pairs d depth (map (Pair c) (adjacent d (im_known st) es c)) st"
  have "visit_all d depth es (c # keys) st = visit_all d depth es keys ?st"
    by (simp add: visit_all_def inner)
  also have "\<dots> = visit_pairs d depth (round_pairs d (im_known st) es keys) ?st" by (simp add: Cons.IH)
  finally show ?case by (simp add: round_pairs_def visit_pairs_append)
qed

text \<open>What a round adds: the new objects with their depth, and the edges that reach them.\<close>

definition reaching :: "direction \<Rightarrow> (ustring \<times> dependency) list \<Rightarrow> ustring \<Rightarrow> dependency list" where
  "reaching d ps v = map snd (filter (\<lambda>(c, e). far_name d e = v \<and> v \<noteq> c) ps)"

lemma reaching_append: "reaching d (ps @ qs) v = reaching d ps v @ reaching d qs v"
  by (simp add: reaching_def)

lemma visit_pairs_result:
  assumes "\<forall>(v, n)\<in>set (im_reached st). n < depth"
  shows "\<exists>ns. distinct ns \<and> set ns = {v. v \<notin> fst ` set (im_reached st) \<and> reaching d ps v \<noteq> []} \<and>
    im_reached (visit_pairs d depth ps st) = im_reached st @ map (\<lambda>v. (v, depth)) ns \<and>
    im_frontier (visit_pairs d depth ps st) = im_frontier st @ ns \<and>
    im_expanded (visit_pairs d depth ps st) = im_expanded st \<and>
    (\<forall>v. im_parents (visit_pairs d depth ps st) v = (if v \<in> set ns then reaching d ps v else im_parents st v))"
proof (induction ps rule: rev_induct)
  case Nil
  then show ?case by (intro exI [of _ "[]"]) (simp add: visit_pairs_def reaching_def)
next
  case (snoc p ps)
  obtain c e where p: "p = (c, e)" by fastforce
  let ?st = "visit_pairs d depth ps st"
  obtain ns where ns: "distinct ns" "set ns = {v. v \<notin> fst ` set (im_reached st) \<and> reaching d ps v \<noteq> []}"
      "im_reached ?st = im_reached st @ map (\<lambda>v. (v, depth)) ns" "im_frontier ?st = im_frontier st @ ns"
      "im_expanded ?st = im_expanded st" "\<forall>v. im_parents ?st v = (if v \<in> set ns then reaching d ps v else im_parents st v)"
    using snoc by blast
  have step: "visit_pairs d depth (ps @ [p]) st = visit_edge d depth c e ?st"
    by (simp add: visit_pairs_append) (simp add: visit_pairs_def p)
  have one: "reaching d [p] v = (if far_name d e = v \<and> v \<noteq> c then [e] else [])" for v
    by (simp add: reaching_def p)
  let ?peer = "far_name d e"
  have old: "map_of (im_reached st) v = Some n \<Longrightarrow> n < depth" for v n
    using assms map_of_SomeD by fastforce
  have new: "map_of (map (\<lambda>v. (v, depth)) ns) v = (if v \<in> set ns then Some depth else None)" for v
    by (induction ns) auto
  have mem: "map_of (im_reached st) v = None \<longleftrightarrow> v \<notin> fst ` set (im_reached st)" for v
    by (simp add: map_of_eq_None_iff)
  consider (self) "?peer = c" | (seen) "?peer \<noteq> c" "?peer \<in> fst ` set (im_reached st)"
    | (again) "?peer \<noteq> c" "?peer \<notin> fst ` set (im_reached st)" "?peer \<in> set ns"
    | (first) "?peer \<noteq> c" "?peer \<notin> fst ` set (im_reached st)" "?peer \<notin> set ns" by blast
  then show ?case
  proof cases
    case self
    then have "reaching d (ps @ [p]) v = reaching d ps v" for v using one [of v] by (auto simp: reaching_append)
    then show ?thesis using ns self by (intro exI [of _ ns]) (simp add: step visit_edge_def Let_def)
  next
    case seen
    then obtain n where n: "map_of (im_reached st) ?peer = Some n" using mem [of ?peer] by blast
    then have "visit_edge d depth c e ?st = ?st"
      using seen old [OF n] by (simp add: visit_edge_def Let_def ns(3) map_add_def)
    moreover have "reaching d (ps @ [p]) v = reaching d ps v" if "v \<notin> fst ` set (im_reached st)" for v
      using one [of v] seen that by (auto simp: reaching_append)
    ultimately show ?thesis using ns by (intro exI [of _ ns]) (auto simp: step)
  next
    case again
    then have "map_of (im_reached ?st) ?peer = Some depth"
      using mem [of ?peer] new [of ?peer] by (simp add: ns(3) map_add_def)
    then have "visit_edge d depth c e ?st = ?st\<lparr>im_parents := (im_parents ?st)(?peer := im_parents ?st ?peer @ [e])\<rparr>"
      using again by (simp add: visit_edge_def Let_def)
    moreover have "reaching d (ps @ [p]) v = reaching d ps v @ (if v = ?peer then [e] else [])" for v
      using one [of v] again by (auto simp: reaching_append)
    ultimately show ?thesis using ns again by (intro exI [of _ ns]) (auto simp: step)
  next
    case first
    then have "map_of (im_reached ?st) ?peer = None"
      using mem [of ?peer] new [of ?peer] by (simp add: ns(3) map_add_def)
    then have "visit_edge d depth c e ?st = ?st\<lparr>im_reached := im_reached ?st @ [(?peer, depth)],
        im_parents := (im_parents ?st)(?peer := [e]), im_frontier := im_frontier ?st @ [?peer]\<rparr>"
      using first by (simp add: visit_edge_def Let_def)
    moreover have "reaching d (ps @ [p]) v = reaching d ps v @ (if v = ?peer then [e] else [])" for v
      using one [of v] first by (auto simp: reaching_append)
    moreover have "reaching d ps ?peer = []" using first ns(2) by auto
    ultimately show ?thesis using ns first by (intro exI [of _ "ns @ [?peer]"]) (auto simp: step)
  qed
qed

lemma adjacent_iff:
  assumes "plain_names env" "set known \<subseteq> graph_edges env rels" "dp_id ` set es \<subseteq> dp_id ` set known"
    "set es \<subseteq> graph_edges env rels"
  shows "e \<in> set (adjacent d known es c) \<longleftrightarrow>
    (\<exists>x\<in>set es. near_name d x = c \<and> edge_by_id known (dp_id x) = Some e)"
    and "e \<in> set (adjacent d known es c) \<Longrightarrow> e \<in> set known \<and> near_name d e = c"
    and "x \<in> set es \<Longrightarrow> near_name d x = c \<Longrightarrow> \<exists>e\<in>set (adjacent d known es c). far_name d e = far_name d x"
proof -
  have iff: "e \<in> set (adjacent d known es c) \<longleftrightarrow>
    (\<exists>x\<in>set es. near_name d x = c \<and> edge_by_id known (dp_id x) = Some e)" for e
    by (auto simp: adjacent_def map_filter_def image_iff)
  then show "e \<in> set (adjacent d known es c) \<longleftrightarrow>
    (\<exists>x\<in>set es. near_name d x = c \<and> edge_by_id known (dp_id x) = Some e)" .
  have registered: "\<exists>e\<in>set known. edge_by_id known (dp_id x) = Some e \<and> near_name d e = near_name d x \<and> far_name d e = far_name d x"
    if x: "x \<in> set es" for x
  proof -
    have "dp_id x \<in> dp_id ` set known" using x assms(3) by blast
    from edge_by_id_Some [OF this] obtain e where e: "e \<in> set known" "edge_by_id known (dp_id x) = Some e" "dp_id e = dp_id x"
      by blast
    have "e \<in> graph_edges env rels" "x \<in> graph_edges env rels" using e(1) x assms(2,4) by blast+
    then show ?thesis using e near_far_same [OF assms(1) _ _ e(3)] by blast
  qed
  show "e \<in> set (adjacent d known es c) \<Longrightarrow> e \<in> set known \<and> near_name d e = c"
    using registered unfolding iff by fastforce
  show "\<exists>e\<in>set (adjacent d known es c). far_name d e = far_name d x" if mem: "x \<in> set es" and near: "near_name d x = c"
  proof -
    obtain e where "e \<in> set known" "edge_by_id known (dp_id x) = Some e" "far_name d e = far_name d x"
      using registered [OF mem] by blast
    then show ?thesis using mem near unfolding Bex_def iff by blast
  qed
qed

section \<open>The rounds\<close>

definition impact_inv :: "dependency set \<Rightarrow> direction \<Rightarrow> ustring set \<Rightarrow> nat \<Rightarrow> impact_state \<Rightarrow> bool" where
  "impact_inv E d A k st \<longleftrightarrow>
     set (im_known st) \<subseteq> E \<and> distinct (map fst (im_reached st)) \<and>
     (\<forall>v n. (v, n) \<in> set (im_reached st) \<longleftrightarrow> shortest A (step_rel d E) v n \<and> n \<le> k) \<and>
     set (im_expanded st) = (if k = 0 then {} else A \<union> {v. \<exists>n<k. shortest A (step_rel d E) v n}) \<and>
     set (im_frontier st) = (if k = 0 then A else {v. shortest A (step_rel d E) v k}) \<and>
     (\<forall>v n. shortest A (step_rel d E) v n \<longrightarrow> n \<le> k \<longrightarrow> im_parents st v \<noteq> [] \<and>
        (\<forall>e\<in>set (im_parents st v). e \<in> set (im_known st) \<and> far_name d e = v \<and>
           near_name d e \<in> round_keys A (step_rel d E) (n - 1)))"

lemma impact_keys:
  assumes "impact_inv E d A k st"
  shows "set (filter (\<lambda>q. q \<notin> set (im_expanded st)) (im_frontier st)) = round_keys A (step_rel d E) k"
proof (cases "k = 0")
  case True
  then show ?thesis using assms by (simp add: impact_inv_def round_keys_def)
next
  case False
  have "set (im_expanded st) = (if k = 0 then {} else A \<union> {v. \<exists>n<k. shortest A (step_rel d E) v n})"
      "set (im_frontier st) = (if k = 0 then A else {v. shortest A (step_rel d E) v k})"
    using assms unfolding impact_inv_def by blast+
  then have ex: "set (im_expanded st) = A \<union> {v. \<exists>n<k. shortest A (step_rel d E) v n}"
      and fr: "set (im_frontier st) = {v. shortest A (step_rel d E) v k}"
    unfolding if_not_P [OF False] .
  have "\<not> (\<exists>n<k. shortest A (step_rel d E) v n)" if v: "shortest A (step_rel d E) v k" for v
    using shortest_unique [OF v] by auto
  then have "{v. shortest A (step_rel d E) v k} - (A \<union> {v. \<exists>n<k. shortest A (step_rel d E) v n}) =
      {v. shortest A (step_rel d E) v k} - A" by blast
  then show ?thesis using False unfolding round_keys_def set_filter fr ex by (simp add: set_diff_eq)
qed

lemma round_preserves:
  assumes inv: "impact_inv E d A k st" and names: "plain_names env" and E: "E = graph_edges env rels"
    and keys: "set keys = round_keys A (step_rel d E) k"
    and es: "\<forall>e. e \<in> set es \<longleftrightarrow> e \<in> E \<and> near_name d e \<in> set keys"
  shows "impact_inv E d A (Suc k)
    (visit_all d (Suc k) es keys
      (st\<lparr>im_known := im_known st @ new_edges (im_known st) es, im_expanded := im_expanded st @ keys, im_frontier := []\<rparr>))"
    (is "impact_inv E d A (Suc k) (visit_all d (Suc k) es keys ?st0)")
proof -
  let ?R = "step_rel d E"
  let ?known = "im_known st @ new_edges (im_known st) es"
  let ?ps = "round_pairs d ?known es keys"
  have esE: "set es \<subseteq> E" using es by blast
  have knownE: "set ?known \<subseteq> E"
    using inv esE new_edges_set [of "im_known st" es] by (auto simp: impact_inv_def)
  have ids: "dp_id ` set es \<subseteq> dp_id ` set ?known" using new_edges_ids [of "im_known st" es] by blast
  note adj = adjacent_iff [OF names knownE [unfolded E] ids esE [unfolded E]]
  have old: "\<forall>(v, n)\<in>set (im_reached st). n < Suc k" using inv by (auto simp: impact_inv_def)
  have reach_set: "e \<in> set (reaching d ?ps v) \<longleftrightarrow>
      (\<exists>c\<in>set keys. e \<in> set (adjacent d ?known es c) \<and> far_name d e = v \<and> v \<noteq> c)" for e v
    by (auto simp: reaching_def round_pairs_def image_iff)
  have reach: "reaching d ?ps v \<noteq> [] \<longleftrightarrow> (\<exists>u\<in>round_keys A ?R k. (u, v) \<in> ?R)" for v
  proof
    assume "reaching d ?ps v \<noteq> []"
    then obtain e c where e: "c \<in> set keys" "e \<in> set (adjacent d ?known es c)" "far_name d e = v" "v \<noteq> c"
      using reach_set by (metis list.set_intros(1) neq_Nil_conv)
    then have "e \<in> E" "near_name d e = c" using adj(2) knownE by blast+
    then have "(c, v) \<in> ?R" using e by (auto simp: step_rel_def)
    then show "\<exists>u\<in>round_keys A ?R k. (u, v) \<in> ?R" using e(1) keys by blast
  next
    assume "\<exists>u\<in>round_keys A ?R k. (u, v) \<in> ?R"
    then obtain u x where x: "u \<in> set keys" "x \<in> E" "near_name d x = u" "far_name d x = v" "u \<noteq> v"
      using keys by (auto simp: step_rel_def)
    then have "x \<in> set es" using es by blast
    from adj(3) [OF this x(3)] obtain e where "e \<in> set (adjacent d ?known es u)" "far_name d e = v" using x(4) by auto
    then have "e \<in> set (reaching d ?ps v)" using reach_set x(1,5) by blast
    then show "reaching d ?ps v \<noteq> []" by auto
  qed
  have seen: "v \<in> fst ` set (im_reached st) \<longleftrightarrow> (\<exists>m\<le>k. shortest A ?R v m)" for v
  proof -
    have "(v, n) \<in> set (im_reached st) \<longleftrightarrow> shortest A ?R v n \<and> n \<le> k" for n
      using inv unfolding impact_inv_def by presburger
    moreover have "v \<in> fst ` set (im_reached st) \<longleftrightarrow> (\<exists>n. (v, n) \<in> set (im_reached st))" by force
    ultimately show ?thesis by blast
  qed
  obtain ns where ns: "distinct ns" "set ns = {v. v \<notin> fst ` set (im_reached st) \<and> reaching d ?ps v \<noteq> []}"
      "im_reached (visit_pairs d (Suc k) ?ps ?st0) = im_reached st @ map (\<lambda>v. (v, Suc k)) ns"
      "im_frontier (visit_pairs d (Suc k) ?ps ?st0) = ns"
      "im_expanded (visit_pairs d (Suc k) ?ps ?st0) = im_expanded st @ keys"
      "\<forall>v. im_parents (visit_pairs d (Suc k) ?ps ?st0) v = (if v \<in> set ns then reaching d ?ps v else im_parents st v)"
    using visit_pairs_result [of ?st0 "Suc k" d ?ps] old by auto
  have new: "set ns = {v. shortest A ?R v (Suc k)}"
    unfolding ns(2) using reach seen by (auto simp: shortest_Suc)
  have st': "visit_all d (Suc k) es keys ?st0 = visit_pairs d (Suc k) ?ps ?st0" by (simp add: visit_all_pairs)
  have expanded: "set (im_expanded st @ keys) = A \<union> {v. \<exists>n<Suc k. shortest A ?R v n}"
  proof (cases "k = 0")
    case True
    have "\<not> shortest A ?R v 0" for v by (simp add: shortest_def)
    then show ?thesis using True inv keys by (simp add: impact_inv_def round_keys_def)
  next
    case False
    then show ?thesis using inv keys by (auto simp: impact_inv_def round_keys_def less_Suc_eq)
  qed
  have parents: "im_parents (visit_pairs d (Suc k) ?ps ?st0) v \<noteq> [] \<and>
      (\<forall>e\<in>set (im_parents (visit_pairs d (Suc k) ?ps ?st0) v). e \<in> set ?known \<and> far_name d e = v \<and>
         near_name d e \<in> round_keys A ?R (n - 1))"
    if v: "shortest A ?R v n" "n \<le> Suc k" for v n
  proof (cases "n = Suc k")
    case True
    then have mem: "v \<in> set ns" using v new by simp
    then have "reaching d ?ps v \<noteq> []" using ns(2) by blast
    moreover have "e \<in> set ?known \<and> far_name d e = v \<and> near_name d e \<in> round_keys A ?R k" if e: "e \<in> set (reaching d ?ps v)" for e
    proof -
      obtain c where c: "c \<in> set keys" "e \<in> set (adjacent d ?known es c)" "far_name d e = v"
        using e reach_set by blast
      then show ?thesis using adj(2) [OF c(2)] keys by blast
    qed
    ultimately show ?thesis using mem ns(6) True by simp
  next
    case False
    then have n: "n \<le> k" using v(2) by simp
    then have "v \<notin> set ns" using v(1) new shortest_unique [OF v(1), of "Suc k"] by auto
    then show ?thesis using ns(6) inv v(1) n by (simp add: impact_inv_def)
  qed
  have reached: "(v, n) \<in> set (im_reached st @ map (\<lambda>v. (v, Suc k)) ns) \<longleftrightarrow> shortest A ?R v n \<and> n \<le> Suc k" for v n
    using inv new by (auto simp: impact_inv_def le_Suc_eq)
  have distinct: "distinct (map fst (im_reached st @ map (\<lambda>v. (v, Suc k)) ns))"
    using inv ns(1,2) by (auto simp: impact_inv_def comp_def)
  show ?thesis
    unfolding impact_inv_def st'
    using knownE distinct reached expanded new parents by (simp add: ns(3,4,5))
qed

text \<open>What is left of the invariant when the rounds have ended.\<close>

definition impact_done :: "dependency set \<Rightarrow> direction \<Rightarrow> ustring set \<Rightarrow> nat \<Rightarrow> impact_state \<Rightarrow> bool" where
  "impact_done E d A k st \<longleftrightarrow>
     set (im_known st) \<subseteq> E \<and> distinct (map fst (im_reached st)) \<and>
     (\<forall>v n. (v, n) \<in> set (im_reached st) \<longleftrightarrow> shortest A (step_rel d E) v n \<and> n \<le> k) \<and>
     (\<forall>v n. shortest A (step_rel d E) v n \<longrightarrow> n \<le> k \<longrightarrow> im_parents st v \<noteq> [] \<and>
        (\<forall>e\<in>set (im_parents st v). e \<in> set (im_known st) \<and> far_name d e = v \<and>
           near_name d e \<in> round_keys A (step_rel d E) (n - 1)))"

lemma inv_done: "impact_inv E d A k st \<Longrightarrow> impact_done E d A k st"
  unfolding impact_inv_def impact_done_def by blast

lemma touches_edge:
  assumes "dependency_from_row env (file_paths env) r = Inr (Some e)"
  shows "touches d rels keys r \<longleftrightarrow> of_types rels r \<and> near_name d e \<in> set keys"
  using dependency_row [OF assms] by (auto simp: touches_def arrives_at_def leaves_from_def near_name_def)

lemma impact_rounds_result:
  assumes "plain_names env" "E = graph_edges env rels"
  shows "impact_rounds env (file_paths env) d rels n (Suc k) st cs = (Inr st', cs') \<Longrightarrow> impact_inv E d A k st \<Longrightarrow>
    impact_done E d A (k + n) st' \<and> (\<exists>q. cs' = cs\<lparr>cs_queries := q\<rparr>)"
proof (induction n arbitrary: k st cs)
  case 0
  then have "st' = st" "cs' = cs" by (simp_all add: act_return_def)
  then show ?case using inv_done [OF 0(2)] by (intro conjI exI [of _ "cs_queries cs"]) simp_all
next
  case (Suc n)
  let ?keys = "filter (\<lambda>q. q \<notin> set (im_expanded st)) (im_frontier st)"
  have keys: "set ?keys = round_keys A (step_rel d E) k" using Suc.prems(2) by (rule impact_keys)
  show ?case
  proof (cases "?keys = []")
    case True
    then have "st' = st" "cs' = cs" using Suc.prems(1) by (simp_all add: act_return_def)
    have none: "\<not> shortest A (step_rel d E) v m" if "k < m" for v m
      using keys True that by (intro no_keys_no_more [of _ _ k]) simp_all
    have bound: "shortest A (step_rel d E) v m \<and> m \<le> k \<longleftrightarrow> shortest A (step_rel d E) v m \<and> m \<le> k + Suc n" for v m
      using none [of m v] by (meson le_add1 le_trans not_le)
    have small: "shortest A (step_rel d E) v m \<Longrightarrow> m \<le> k" for v m using none [of m v] not_le by blast
    have "impact_done E d A k st" using Suc.prems(2) by (rule inv_done)
    then have "impact_done E d A (k + Suc n) st"
      unfolding impact_done_def bound [symmetric] using small by blast
    moreover have "cs = cs\<lparr>cs_queries := cs_queries cs\<rparr>" by simp
    ultimately show ?thesis using \<open>st' = st\<close> \<open>cs' = cs\<close> by blast
  next
    case False
    with Suc.prems(1) obtain es cs1 where
        es: "fetch_round env (file_paths env) (touches d rels ?keys) (length (im_known st)) cs = (Inr es, cs1)"
      and rest: "impact_rounds env (file_paths env) d rels n (Suc (Suc k))
          (visit_all d (Suc k) es ?keys
            (st\<lparr>im_known := im_known st @ new_edges (im_known st) es, im_expanded := im_expanded st @ ?keys,
               im_frontier := []\<rparr>)) cs1 = (Inr st', cs')"
      by (auto simp: Let_def elim!: act_bindE)
    note f = fetch_round_Inr [OF es]
    have "\<forall>e. e \<in> set es \<longleftrightarrow> e \<in> E \<and> near_name d e \<in> set ?keys"
      using f touches_edge unfolding assms(2) graph_edges_def mem_Collect_eq by meson
    from Suc.IH [OF rest round_preserves [OF Suc.prems(2) assms(1,2) keys this]]
    have "impact_done E d A (Suc k + n) st'" "\<exists>q. cs' = cs1\<lparr>cs_queries := q\<rparr>" by blast+
    then show ?thesis using f by auto
  qed
qed

lemma impact_start_inv: "impact_inv E d (set anchors) 0 (impact_start anchors)"
proof -
  have "shortest A R v n \<Longrightarrow> 0 < n" for A R n and v :: ustring by (simp add: shortest_def)
  then show ?thesis by (auto simp: impact_inv_def impact_start_def)
qed

section \<open>Routes\<close>

text \<open>A route from an object to an anchor: each edge reaches the object before it.\<close>

fun route :: "direction \<Rightarrow> dependency set \<Rightarrow> ustring set \<Rightarrow> ustring \<Rightarrow> ustring list \<Rightarrow> bool" where
  "route d E A v [] \<longleftrightarrow> v \<in> A"
| "route d E A v (i # is) \<longleftrightarrow> (\<exists>e\<in>E. dp_id e = i \<and> far_name d e = v \<and> route d E A (near_name d e) is)"

definition flow_order :: "direction \<Rightarrow> 'a list \<Rightarrow> 'a list" where
  "flow_order d xs = (if d = Upstream then xs else rev xs)"

lemma those_Some_iff: "(\<forall>x\<in>set xs. \<exists>y. f x = Some y) \<Longrightarrow> \<exists>ys. those (map f xs) = Some ys"
  by (induction xs) auto

lemma those_map_set: "those (map f xs) = Some ys \<Longrightarrow> set ys = {y. \<exists>x\<in>set xs. f x = Some y} \<and> length ys = length xs"
  by (induction xs arbitrary: ys) (auto split: option.splits)

lemma routes_from_result:
  assumes fin: "impact_done E d (set anchors) K st"
  shows "shortest (set anchors) (step_rel d E) v n \<Longrightarrow> n \<le> K \<Longrightarrow> n \<le> fuel \<Longrightarrow>
    \<exists>rs. routes_from fuel d anchors (im_parents st) v = Some rs \<and> rs \<noteq> [] \<and>
      (\<forall>ids\<in>set rs. length ids = n \<and> route d (set (im_known st)) (set anchors) v (flow_order d ids))"
proof (induction fuel arbitrary: v n)
  case 0
  then show ?case by (simp add: shortest_def)
next
  case (Suc fuel)
  let ?A = "set anchors" let ?R = "step_rel d E"
  have par: "im_parents st v \<noteq> []"
      "\<forall>e\<in>set (im_parents st v). e \<in> set (im_known st) \<and> far_name d e = v \<and> near_name d e \<in> round_keys ?A ?R (n - 1)"
    using fin Suc.prems(1,2) unfolding impact_done_def by blast+
  let ?put = "\<lambda>e rest. if d = Upstream then dp_id e # rest else rest @ [dp_id e]"
  let ?on = "\<lambda>e. map_option (map (?put e)) (if near_name d e \<in> ?A then Some [[]] else routes_from fuel d anchors (im_parents st) (near_name d e))"
  have each: "\<exists>rs. ?on e = Some rs \<and> rs \<noteq> [] \<and>
      (\<forall>ids\<in>set rs. length ids = n \<and> route d (set (im_known st)) ?A v (flow_order d ids))" if e: "e \<in> set (im_parents st v)" for e
  proof -
    have near: "near_name d e \<in> round_keys ?A ?R (n - 1)" and known: "e \<in> set (im_known st)" and far: "far_name d e = v"
      using par(2) e by blast+
    show ?thesis
    proof (cases "n = 1")
      case True
      then have "near_name d e \<in> ?A" using near by (simp add: round_keys_def)
      then show ?thesis using known far True by (auto simp: flow_order_def)
    next
      case False
      then have n: "n - 1 \<noteq> 0" "n = Suc (n - 1)" using Suc.prems(1) by (auto simp: shortest_def)
      then have "shortest ?A ?R (near_name d e) (n - 1)" "near_name d e \<notin> ?A" using near by (auto simp: round_keys_def)
      moreover have small: "n - 1 \<le> K" "n - 1 \<le> fuel" using Suc.prems(2,3) by simp_all
      moreover from Suc.IH [OF calculation(1) small] obtain rs where rs: "routes_from fuel d anchors (im_parents st) (near_name d e) = Some rs" "rs \<noteq> []"
          "\<forall>ids\<in>set rs. length ids = n - 1 \<and> route d (set (im_known st)) ?A (near_name d e) (flow_order d ids)"
        by blast
      moreover have "length (?put e ids) = n \<and> route d (set (im_known st)) ?A v (flow_order d (?put e ids))"
        if "ids \<in> set rs" for ids
        using rs(3) that known far n(2) by (auto simp: flow_order_def)
      ultimately show ?thesis by (intro exI [of _ "map (?put e) rs"]) auto
    qed
  qed
  then obtain ys where ys: "those (map ?on (im_parents st v)) = Some ys" using those_Some_iff [of "im_parents st v" ?on] by blast
  note ys_set = those_map_set [OF ys]
  have all: "y \<noteq> [] \<and> (\<forall>ids\<in>set y. length ids = n \<and> route d (set (im_known st)) ?A v (flow_order d ids))" if "y \<in> set ys" for y
  proof -
    obtain e where e: "e \<in> set (im_parents st v)" "?on e = Some y" using \<open>y \<in> set ys\<close> ys_set by blast
    show ?thesis using each [OF e(1)] unfolding e(2) option.inject by blast
  qed
  have "ys \<noteq> []" using ys_set par(1) by auto
  then have "concat ys \<noteq> []" using all by (cases ys) auto
  moreover have "\<forall>ids\<in>set (concat ys). length ids = n \<and> route d (set (im_known st)) ?A v (flow_order d ids)"
    using all by auto
  ultimately show ?case using ys by (intro exI [of _ "concat ys"]) simp
qed

end
