(* ===== verification/Plsql_Cache.thy ===== *)
theory Plsql_Cache
  imports Plsql_Impact
begin

text \<open>
  The object cache of the analysis client: every operation that looks objects up keeps the cache in
  agreement with the graph, so cached and fresh lookups give the same record for a name.
\<close>

section \<open>The record of a name\<close>

definition nodes_named :: "plsql_env \<Rightarrow> ustring \<Rightarrow> db_node list" where
  "nodes_named env q =
     synonym_last (filter (\<lambda>n. dn_project n = Some (pe_project env) \<and> dn_qualified n = Some q) (dg_nodes (pe_graph env)))"

definition mapped :: "plsql_env \<Rightarrow> db_node \<Rightarrow> object_record option" where
  "mapped env n = (case object_from_node env (file_paths env) n of Inr v \<Rightarrow> v | Inl _ \<Rightarrow> None)"

definition first_of :: "'a list \<Rightarrow> 'a option" where
  "first_of xs = (case xs of [] \<Rightarrow> None | x # _ \<Rightarrow> Some x)"

text \<open>The first node of a name that maps to a record, and names whose first node does.\<close>

definition record_of :: "plsql_env \<Rightarrow> ustring \<Rightarrow> object_record option" where
  "record_of env q = first_of (List.map_filter (mapped env) (nodes_named env q))"

definition resolvable :: "plsql_env \<Rightarrow> ustring \<Rightarrow> bool" where
  "resolvable env q \<longleftrightarrow> (case nodes_named env q of [] \<Rightarrow> False | n # _ \<Rightarrow> mapped env n \<noteq> None)"

text \<open>What a lookup of a name may answer.\<close>

definition answers :: "plsql_env \<Rightarrow> ustring \<Rightarrow> object_record option \<Rightarrow> bool" where
  "answers env q v \<longleftrightarrow> (case v of None \<Rightarrow> \<not> resolvable env q | Some r \<Rightarrow> record_of env q = Some r)"

definition entry_ok :: "plsql_env \<Rightarrow> ustring \<times> object_record option \<Rightarrow> bool" where
  "entry_ok env x \<longleftrightarrow>
     (case qualified_name_from_object_id (fst x) of None \<Rightarrow> snd x = None | Some q \<Rightarrow> answers env q (snd x))"

definition client_ok :: "plsql_env \<Rightarrow> client_state \<Rightarrow> bool" where
  "client_ok env st \<longleftrightarrow> files_cached env st \<and> list_all (entry_ok env) (cs_objects st)"

lemma object_from_node_name:
  "object_from_node env m n = Inr (Some r) \<Longrightarrow>
     dn_qualified n = Some (ob_qualified r) \<and> ob_id r = object_id (pe_project env) (ob_qualified r)"
  by (auto simp: object_from_node_def split: option.splits if_splits sum.splits)

lemma mapped_name: "mapped env n = Some r \<Longrightarrow> dn_qualified n = Some (ob_qualified r) \<and> ob_id r = object_id (pe_project env) (ob_qualified r)"
  using object_from_node_name by (auto simp: mapped_def split: sum.splits)

lemma map_filter_Cons: "List.map_filter f (x # xs) = (case f x of None \<Rightarrow> List.map_filter f xs | Some y \<Rightarrow> y # List.map_filter f xs)"
  by (simp add: map_filter_def split: option.split)

lemma map_filter_set: "set (List.map_filter f xs) = {y. \<exists>x\<in>set xs. f x = Some y}"
  by (induction xs) (auto simp: map_filter_Cons map_filter_def split: option.splits)

lemma record_of_name:
  assumes "record_of env q = Some r"
  shows "ob_qualified r = q \<and> ob_id r = object_id (pe_project env) q"
proof -
  have "r \<in> set (List.map_filter (mapped env) (nodes_named env q))"
    using assms by (auto simp: record_of_def first_of_def split: list.splits)
  then obtain n where "n \<in> set (nodes_named env q)" "mapped env n = Some r" by (auto simp: map_filter_set)
  then show ?thesis using mapped_name [of env n r] by (auto simp: nodes_named_def synonym_last_def)
qed

lemma resolvable_record: "resolvable env q \<Longrightarrow> \<exists>r. record_of env q = Some r"
  by (auto simp: resolvable_def record_of_def first_of_def map_filter_Cons split: list.splits option.splits)

lemma answers_record: "answers env q (record_of env q)"
  using resolvable_record by (fastforce simp: answers_def split: option.splits)

section \<open>One lookup\<close>

text \<open>What a lookup leaves alone.\<close>

definition only_files :: "plsql_env \<Rightarrow> client_state \<Rightarrow> client_state \<Rightarrow> bool" where
  "only_files env st st' \<longleftrightarrow>
     (files_cached env st \<longrightarrow> files_cached env st') \<and> cs_objects st' = cs_objects st \<and> cs_impact st' = cs_impact st"

lemma execute_only_files: "execute env rows st = (r, st') \<Longrightarrow> only_files env st st'"
  by (auto simp: execute_def only_files_def files_cached_def)

lemma execute_bind:
  assumes "act_bind (execute env rows) f st = (Inr y, st')"
  obtains st1 where "execute env rows st = (Inr rows, st1)" "f rows st1 = (Inr y, st')"
proof -
  from assms obtain x st1 where x: "execute env rows st = (Inr x, st1)" "f x st1 = (Inr y, st')" by (rule act_bindE)
  have "x = rows" using execute_Inr [OF x(1)] by simp
  with x that show ?thesis by blast
qed

lemma file_map_only_files:
  assumes "file_map env st = (Inr m, st')" "files_cached env st"
  shows "m = file_paths env \<and> only_files env st st'"
  using file_map_Inr [OF assms] by (simp add: only_files_def)

lemma only_files_trans: "only_files env a b \<Longrightarrow> only_files env b c \<Longrightarrow> only_files env a c"
  by (auto simp: only_files_def)

lemma lookup_object_ok:
  assumes "lookup_object env q st = (Inr v, st')" "files_cached env st"
  shows "answers env q v \<and> only_files env st st'"
proof -
  let ?ns = "nodes_named env q"
  have rows: "object_by_qualified_name (pe_graph env) (pe_project env) q = take 1 ?ns"
    by (simp add: object_by_qualified_name_def nodes_named_def)
  from assms(1) obtain st1 where st1: "execute env (take 1 ?ns) st = (Inr (take 1 ?ns), st1)"
      "(case take 1 ?ns of [] \<Rightarrow> act_return None
        | n # _ \<Rightarrow> act_bind (file_map env) (\<lambda>m. act_lift (object_from_node env m n))) st1 = (Inr v, st')"
    unfolding lookup_object_def rows by (rule execute_bind)
  have one: "only_files env st st1" using execute_only_files [OF st1(1)] .
  show ?thesis
  proof (cases ?ns)
    case Nil
    then show ?thesis using st1(2) one by (simp add: act_return_def answers_def resolvable_def)
  next
    case (Cons n ns)
    from st1(2) obtain m st2 where m: "file_map env st1 = (Inr m, st2)" "object_from_node env m n = Inr v" "st' = st2"
      by (auto simp: Cons act_lift_def elim!: act_bindE)
    have fm: "m = file_paths env \<and> only_files env st1 st2"
      using file_map_only_files [OF m(1)] one assms(2) by (simp add: only_files_def)
    then have v: "mapped env n = v" using m(2) by (simp add: mapped_def)
    then have "answers env q v"
      by (cases v) (simp_all add: answers_def resolvable_def record_of_def first_of_def Cons map_filter_Cons)
    then show ?thesis using only_files_trans [OF one] fm m(3) by blast
  qed
qed

lemma get_object_ok:
  assumes "get_object env i st = (Inr v, st')" "client_ok env st"
  shows "entry_ok env (i, v) \<and> client_ok env st' \<and> cs_impact st' = cs_impact st"
proof (cases "map_of (cs_objects st) i")
  case (Some r)
  then have "(i, r) \<in> set (cs_objects st)" by (rule map_of_SomeD)
  moreover have "v = r" "st' = st" using assms(1) Some by (simp_all add: get_object_def)
  ultimately show ?thesis using assms(2) by (auto simp: client_ok_def list_all_iff)
next
  case None
  let ?look = "case qualified_name_from_object_id i of None \<Rightarrow> act_return None | Some q \<Rightarrow> lookup_object env q"
  from assms(1) None obtain st1 where st1: "?look st = (Inr v, st1)" "st' = st1\<lparr>cs_objects := (i, v) # cs_objects st1\<rparr>"
    by (auto simp: get_object_def cache_object_def act_return_def elim!: act_bindE)
  have "entry_ok env (i, v) \<and> only_files env st st1"
  proof (cases "qualified_name_from_object_id i")
    case None
    then show ?thesis using st1(1) by (simp add: act_return_def entry_ok_def only_files_def)
  next
    case (Some q)
    then show ?thesis using st1(1) lookup_object_ok [of env q st v st1] assms(2) by (simp add: entry_ok_def client_ok_def)
  qed
  then show ?thesis using st1(2) assms(2) by (auto simp: client_ok_def only_files_def files_cached_def)
qed

lemma require_object_ok:
  assumes "require_object env i st = (Inr r, st')" "client_ok env st"
  shows "qualified_name_from_object_id i = Some (ob_qualified r) \<and> record_of env (ob_qualified r) = Some r \<and>
    client_ok env st' \<and> cs_impact st' = cs_impact st"
proof -
  from assms(1) obtain v st1 where v: "get_object env i st = (Inr v, st1)" "v = Some r" "st' = st1"
    by (auto simp: require_object_def act_raise_def act_return_def split: option.splits elim!: act_bindE)
  from get_object_ok [OF v(1) assms(2)] v(2,3) show ?thesis
    using record_of_name by (auto simp: entry_ok_def answers_def split: option.splits)
qed

section \<open>Batches\<close>

lemma map_rows_filter:
  "map_rows f rs = Inr xs \<Longrightarrow> xs = List.map_filter (\<lambda>r. case f r of Inr v \<Rightarrow> v | Inl _ \<Rightarrow> None) rs"
proof (induction rs arbitrary: xs)
  case Nil
  then show ?case by (simp add: map_filter_def)
next
  case (Cons r rs)
  then show ?case by (auto simp: map_filter_Cons split: sum.splits option.splits)
qed

lemma first_record_mapped:
  "first_record (List.map_filter (mapped env) ns) q =
     first_of (List.map_filter (mapped env) (filter (\<lambda>n. dn_qualified n = Some q) ns))"
proof (induction ns)
  case Nil
  then show ?case by (simp add: first_record_def first_of_def map_filter_def)
next
  case (Cons n ns)
  show ?case
  proof (cases "mapped env n")
    case None
    then show ?thesis using Cons by (simp add: map_filter_Cons)
  next
    case (Some r)
    then show ?thesis using Cons mapped_name [OF Some]
      by (auto simp: map_filter_Cons first_record_def first_of_def)
  qed
qed

lemma batch_record:
  assumes "map_rows (object_from_node env (file_paths env)) (objects_by_qualified_names (pe_graph env) (pe_project env) qs) = Inr found"
    "q \<in> set qs"
  shows "first_record found q = record_of env q"
proof -
  have found: "found = List.map_filter (mapped env) (objects_by_qualified_names (pe_graph env) (pe_project env) qs)"
    using map_rows_filter [OF assms(1)] by (simp add: mapped_def [abs_def])
  have "filter (\<lambda>n. dn_qualified n = Some q) (objects_by_qualified_names (pe_graph env) (pe_project env) qs) = nodes_named env q"
    using assms(2) unfolding objects_by_qualified_names_def nodes_named_def synonym_last_def filter_sort filter_filter
    by (intro arg_cong [where f = "sort_key _"] filter_cong) auto
  then show ?thesis by (simp add: found first_record_mapped record_of_def)
qed

lemma entry_ok_name: "list_all scalar q \<Longrightarrow> answers env q v \<Longrightarrow> entry_ok env (object_id (pe_project env) q, v)"
  by (simp add: entry_ok_def object_id_decodes)

lemma cache_all_ok:
  assumes "\<forall>q\<in>set qs. list_all scalar q \<and> answers env q (first_record found q)"
  shows "cache_all env found qs st = (Inr (), st') \<Longrightarrow> client_ok env st \<Longrightarrow>
    client_ok env st' \<and> cs_impact st' = cs_impact st"
  using assms
proof (induction qs arbitrary: st)
  case Nil
  then show ?case by (simp add: act_return_def)
next
  case (Cons q qs)
  let ?st = "st\<lparr>cs_objects := (object_id (pe_project env) q, first_record found q) # cs_objects st\<rparr>"
  have "cache_all env found qs ?st = (Inr (), st')"
    using Cons.prems(1) by (simp add: act_bind_def cache_object_def)
  moreover have "client_ok env ?st"
    using Cons.prems(2,3) entry_ok_name by (simp add: client_ok_def files_cached_def)
  ultimately show ?case using Cons.IH [of ?st] Cons.prems(3) by simp
qed

lemma lookup_chunks_ok:
  assumes "\<forall>q\<in>set qs. list_all scalar q"
  shows "lookup_chunks env (file_paths env) qs st = (Inr res, st') \<Longrightarrow> client_ok env st \<Longrightarrow>
    res = map (\<lambda>q. (q, record_of env q)) qs \<and> client_ok env st' \<and> cs_impact st' = cs_impact st"
  using assms
proof (induction qs arbitrary: st res st' rule: length_induct)
  case (1 qs)
  show ?case
  proof (cases "qs = []")
    case True
    then show ?thesis using "1.prems" by (simp add: lookup_chunks.simps [of _ _ "[]"] act_return_def)
  next
    case False
    let ?chunk = "take 500 qs"
    let ?rows = "objects_by_qualified_names (pe_graph env) (pe_project env) ?chunk"
    from "1.prems"(1) False obtain st1 found st2 rest st3 where
        e: "execute env ?rows st = (Inr ?rows, st1)"
      and found: "map_rows (object_from_node env (file_paths env)) ?rows = Inr found"
      and cached: "cache_all env found ?chunk st1 = (Inr (), st2)"
      and rest: "lookup_chunks env (file_paths env) (drop 500 qs) st2 = (Inr rest, st3)"
      and res: "res = map (\<lambda>q. (q, first_record found q)) ?chunk @ rest" "st' = st3"
      unfolding lookup_chunks.simps [of _ _ qs]
      by (auto simp: act_lift_def act_return_def elim!: act_bindE dest: execute_Inr) (metis execute_Inr)
    have rec: "first_record found q = record_of env q" if "q \<in> set ?chunk" for q
      using batch_record [OF found that] .
    have ok1: "client_ok env st1" "cs_impact st1 = cs_impact st"
      using execute_only_files [OF e] "1.prems"(2) by (auto simp: client_ok_def only_files_def)
    have "\<forall>q\<in>set ?chunk. list_all scalar q \<and> answers env q (first_record found q)"
      using "1.prems"(3) rec answers_record by (metis in_set_takeD)
    from cache_all_ok [OF this cached ok1(1)] have ok2: "client_ok env st2" "cs_impact st2 = cs_impact st1" by simp_all
    have "length (drop 500 qs) < length qs" using False by simp
    then have "rest = map (\<lambda>q. (q, record_of env q)) (drop 500 qs) \<and> client_ok env st3 \<and> cs_impact st3 = cs_impact st2"
      using "1.IH" [rule_format, OF _ rest ok2(1)] "1.prems"(3) by (blast dest: in_set_dropD)
    moreover have "map (\<lambda>q. (q, first_record found q)) ?chunk = map (\<lambda>q. (q, record_of env q)) ?chunk"
      by (rule map_cong [OF refl]) (simp add: rec)
    then have "map (\<lambda>q. (q, first_record found q)) ?chunk @ map (\<lambda>q. (q, record_of env q)) (drop 500 qs) =
        map (\<lambda>q. (q, record_of env q)) qs"
      by (metis append_take_drop_id map_append)
    ultimately show ?thesis using res ok1(2) ok2(2) by simp
  qed
qed

text \<open>Looking many names up answers each of them.\<close>

lemma objects_by_name_ok:
  assumes "objects_by_name env qs st = (Inr res, st')" "client_ok env st" "\<forall>q\<in>set qs. list_all scalar q"
  shows "(\<forall>q\<in>set qs. \<exists>v. map_of res q = Some v \<and> answers env q v) \<and> client_ok env st' \<and> cs_impact st' = cs_impact st"
proof -
  let ?hit = "\<lambda>q. map_of (cs_objects st) (object_id (pe_project env) q)"
  let ?resolved = "List.map_filter (\<lambda>q. map_option (\<lambda>r. (q, r)) (?hit q)) (unique qs)"
  let ?missing = "filter (\<lambda>q. ?hit q = None) (unique qs)"
  have hit: "answers env q v" if q: "q \<in> set qs" "?hit q = Some v" for q v
  proof -
    have "entry_ok env (object_id (pe_project env) q, v)"
      using map_of_SomeD [OF q(2)] assms(2) by (auto simp: client_ok_def list_all_iff)
    then show ?thesis using assms(3) q(1) by (simp add: entry_ok_def object_id_decodes)
  qed
  have resolved: "map_of (?resolved @ xs) q = (case ?hit q of Some v \<Rightarrow> if q \<in> set qs then Some v else map_of xs q | None \<Rightarrow> map_of xs q)" for xs q
  proof -
    have gen: "map_of (List.map_filter (\<lambda>q. map_option (\<lambda>r. (q, r)) (?hit q)) ys @ xs) q =
        (case ?hit q of Some v \<Rightarrow> if q \<in> set ys then Some v else map_of xs q | None \<Rightarrow> map_of xs q)" for ys
    proof (induction ys)
      case Nil
      then show ?case by (simp add: map_filter_def split: option.split)
    next
      case (Cons y ys)
      then show ?case by (cases "?hit y") (auto simp: map_filter_Cons split: option.splits)
    qed
    show ?thesis using gen [of "unique qs"] unfolding set_unique .
  qed
  show ?thesis
  proof (cases "?missing = []")
    case True
    then have res: "res = ?resolved" "st' = st"
      using assms(1) unfolding objects_by_name_def Let_def if_P [OF True] act_return_def by blast+
    have "\<exists>v. ?hit q = Some v" if "q \<in> set qs" for q
    proof -
      have "q \<notin> set ?missing" unfolding True by simp
      then show ?thesis using that by auto
    qed
    then show ?thesis using res resolved [of "[]"] hit assms(2) by fastforce
  next
    case False
    with assms(1) obtain m st1 rest where m: "file_map env st = (Inr m, st1)"
        "lookup_chunks env m ?missing st1 = (Inr rest, st')" "res = ?resolved @ rest"
      by (auto simp: objects_by_name_def Let_def act_return_def elim!: act_bindE)
    have fm: "m = file_paths env" "only_files env st st1"
      using file_map_only_files [OF m(1)] assms(2) by (simp_all add: client_ok_def)
    have ok1: "client_ok env st1" using fm(2) assms(2) by (auto simp: client_ok_def only_files_def)
    have scal: "\<forall>q\<in>set ?missing. list_all scalar q" using assms(3) by simp
    from lookup_chunks_ok [OF scal m(2) [unfolded fm(1)] ok1]
    have rest: "rest = map (\<lambda>q. (q, record_of env q)) ?missing" "client_ok env st'" "cs_impact st' = cs_impact st1" by simp_all
    have new: "map_of rest q = Some (record_of env q)" if "q \<in> set ?missing" for q
      using that unfolding rest(1) by (simp add: map_of_map_restrict)
    show ?thesis
    proof (intro conjI ballI)
      fix q assume q: "q \<in> set qs"
      show "\<exists>v. map_of res q = Some v \<and> answers env q v"
      proof (cases "?hit q")
        case None
        then show ?thesis using resolved [of rest q] new [of q] q m(3) answers_record by simp
      next
        case (Some v)
        then show ?thesis using resolved [of rest q] q m(3) hit by simp
      qed
    qed (use rest fm(2) in \<open>simp_all add: only_files_def\<close>)
  qed
qed

end
