(* ===== verification/Plsql_Report.thy ===== *)
theory Plsql_Report
  imports Plsql_Cache
begin

text \<open>
  The report of an impact request: the dependents it lists, their distances and paths, and the cache of
  finished traversals.
\<close>

section \<open>Anchors\<close>

text \<open>The objects from which the impact of a change spreads: a package stands for its members.\<close>

definition anchors_of :: "plsql_env \<Rightarrow> object_record \<Rightarrow> ustring list" where
  "anchors_of env changed =
     (if ob_kind changed \<noteq> KPackage then [ob_qualified changed]
      else
        let prefix = ob_qualified changed @ [46];
            rows = filter (\<lambda>r. of_types (Calls # table_access_relationships) r \<and>
              (member_name prefix (er_source r) \<or> member_name prefix (er_target r))) (project_rows (pe_graph env) (pe_project env));
            members = member_names (ob_name changed) rows
        in if members = [] then [ob_qualified changed] else members)"

lemma member_endpoints_complete:
  "length (member_endpoints g pid prefix (n + 1)) \<le> n \<Longrightarrow>
     member_endpoints g pid prefix (n + 1) =
       filter (\<lambda>r. of_types (Calls # table_access_relationships) r \<and>
         (member_name prefix (er_source r) \<or> member_name prefix (er_target r))) (project_rows g pid)"
  by (simp add: member_endpoints_def)

lemma only_files_refl: "only_files env st st"
  by (simp add: only_files_def)

lemma impact_anchors_Inr:
  assumes "impact_anchors env changed st = (Inr a, st')"
  shows "a = anchors_of env changed \<and> only_files env st st'"
proof (cases "ob_kind changed = KPackage")
  case False
  then show ?thesis using assms by (simp add: impact_anchors_def anchors_of_def act_return_def only_files_refl)
next
  case True
  let ?rows = "member_endpoints (pe_graph env) (pe_project env) (ob_qualified changed @ [46]) (traversal_budget env + 1)"
  have "act_bind (execute env ?rows) (\<lambda>rows. if traversal_budget env < length rows then act_raise LimitExceeded
      else let members = member_names (ob_name changed) rows in
        act_return (if members = [] then [ob_qualified changed] else members)) st = (Inr a, st')"
    using assms True by (simp add: impact_anchors_def)
  then obtain st1 where st1: "execute env ?rows st = (Inr ?rows, st1)"
      "(if traversal_budget env < length ?rows then act_raise LimitExceeded
        else let members = member_names (ob_name changed) ?rows in
          act_return (if members = [] then [ob_qualified changed] else members)) st1 = (Inr a, st')"
    by (rule execute_bind)
  then have few: "length ?rows \<le> traversal_budget env" by (auto simp: act_raise_def split: if_splits)
  have "a = anchors_of env changed" "st' = st1"
    using st1(2) few True unfolding Let_def act_return_def anchors_of_def member_endpoints_complete [OF few]
    by (simp_all add: if_not_P)
  then show ?thesis using execute_only_files [OF st1(1)] by simp
qed

section \<open>Paths of a dependent\<close>

text \<open>Edges that lead from an object to an anchor, each reaching the object before it.\<close>

fun leads :: "direction \<Rightarrow> ustring set \<Rightarrow> ustring \<Rightarrow> dependency list \<Rightarrow> bool" where
  "leads d A v [] \<longleftrightarrow> v \<in> A"
| "leads d A v (e # es) \<longleftrightarrow> far_name d e = v \<and> leads d A (near_name d e) es"

lemma steps_of_Cons: "steps_of known (i # is) = (case edge_by_id known i of None \<Rightarrow> steps_of known is | Some e \<Rightarrow> e # steps_of known is)"
  by (simp add: steps_of_def map_filter_Cons split: option.split)

lemma steps_of_rev: "steps_of known (rev ids) = rev (steps_of known ids)"
  by (simp add: steps_of_def List.map_filter_def rev_map rev_filter)

lemma steps_of_flow: "steps_of known (flow_order d ids) = flow_order d (steps_of known ids)"
  by (simp add: flow_order_def steps_of_rev)

lemma route_leads:
  assumes names: "plain_names env" and known: "set known \<subseteq> graph_edges env rels"
  shows "route d (set known) A v ids \<Longrightarrow>
    leads d A v (steps_of known ids) \<and> length (steps_of known ids) = length ids \<and> set (steps_of known ids) \<subseteq> graph_edges env rels"
proof (induction ids arbitrary: v)
  case Nil
  then show ?case by (simp add: steps_of_def List.map_filter_def)
next
  case (Cons i ids)
  then obtain e where e: "e \<in> set known" "dp_id e = i" "far_name d e = v" "route d (set known) A (near_name d e) ids" by auto
  then obtain e' where e': "e' \<in> set known" "edge_by_id known i = Some e'" "dp_id e' = i"
    using edge_by_id_Some [of i known] by blast
  have "near_name d e' = near_name d e \<and> far_name d e' = far_name d e"
    using near_far_same [OF names] e(1,2) e'(1,3) known by (metis subsetD)
  then show ?case using Cons.IH [OF e(4)] e(3) e' known by (auto simp: steps_of_Cons)
qed

lemma flow_order_simps [simp]: "length (flow_order d xs) = length xs" "set (flow_order d xs) = set xs"
  by (simp_all add: flow_order_def)

text \<open>What is said of one dependent of a report.\<close>

definition path_ok :: "dependency set \<Rightarrow> direction \<Rightarrow> ustring set \<Rightarrow> ustring \<Rightarrow> nat \<Rightarrow> path_record \<Rightarrow> bool" where
  "path_ok E d A v n p \<longleftrightarrow>
     pa_hops p = n \<and> length (pa_steps p) = n \<and> set (pa_steps p) \<subseteq> E \<and> leads d A v (flow_order d (pa_steps p))"

definition dependent_ok :: "plsql_env \<Rightarrow> dependency set \<Rightarrow> direction \<Rightarrow> ustring set \<Rightarrow> ustring \<Rightarrow> nat \<Rightarrow> impact_item \<Rightarrow> bool" where
  "dependent_ok env E d A changed hops i \<longleftrightarrow>
     shortest A (step_rel d E) (ob_qualified (im_dependent i)) (im_distance i) \<and> im_distance i \<le> hops \<and>
     ob_qualified (im_dependent i) \<noteq> changed \<and> record_of env (ob_qualified (im_dependent i)) = Some (im_dependent i) \<and>
     im_paths i \<noteq> [] \<and> length (im_paths i) \<le> 5 \<and>
     list_all (path_ok E d A (ob_qualified (im_dependent i)) (im_distance i)) (im_paths i)"

definition impact_ok ::
  "plsql_env \<Rightarrow> object_record \<Rightarrow> nat \<Rightarrow> direction \<Rightarrow> relationship list \<Rightarrow> impact_item list \<Rightarrow> impact_summary \<Rightarrow> bool" where
  "impact_ok env changed hops d rels items summary \<longleftrightarrow>
     (let E = graph_edges env rels; A = set (anchors_of env changed); names = map (\<lambda>i. ob_qualified (im_dependent i)) items in
      list_all (dependent_ok env E d A (ob_qualified changed) hops) items \<and>
      {q. resolvable env q \<and> q \<noteq> ob_qualified changed \<and> (\<exists>n\<le>hops. shortest A (step_rel d E) q n)} \<subseteq> set names \<and>
      distinct names \<and> sorted (map im_distance items) \<and>
      is_direct summary = length (filter (\<lambda>i. im_distance i = 1) items) \<and>
      is_indirect summary = length (filter (\<lambda>i. im_distance i \<noteq> 1) items))"

section \<open>Trails\<close>

definition trail_ok :: "dependency list \<Rightarrow> direction \<Rightarrow> ustring set \<Rightarrow> ustring \<times> nat \<times> ustring list list \<Rightarrow> bool" where
  "trail_ok known d A x \<longleftrightarrow> (case x of (q, n, ts) \<Rightarrow> ts \<noteq> [] \<and> length ts \<le> 5 \<and>
     (\<forall>t\<in>set ts. length t = n \<and> route d (set known) A q (flow_order d t)))"

lemma those_map_the: "those (map f xs) = Some ys \<Longrightarrow> ys = map (\<lambda>x. the (f x)) xs"
  by (induction xs arbitrary: ys) (auto split: option.splits)

lemma trails_result:
  assumes fin: "impact_done E d (set anchors) hops st"
  obtains trails where "trails_by_dependent d anchors changed hops st = Some trails"
    "map (\<lambda>(q, n, ts). (q, n)) trails = filter (\<lambda>(q, n). q \<noteq> changed) (im_reached st)"
    "list_all (trail_ok (im_known st) d (set anchors)) trails"
proof -
  let ?xs = "filter (\<lambda>(q, n). q \<noteq> changed) (im_reached st)"
  let ?f = "\<lambda>(q, n). map_option (\<lambda>rs. (q, n :: nat, take 5 rs)) (routes_from hops d anchors (im_parents st) q)"
  have each: "\<exists>ts. ?f x = Some (fst x, snd x, ts) \<and> trail_ok (im_known st) d (set anchors) (fst x, snd x, ts)" if x: "x \<in> set ?xs" for x
  proof -
    obtain q n where qn: "x = (q, n)" "(q, n) \<in> set (im_reached st)" using x by auto
    have "shortest (set anchors) (step_rel d E) q n \<and> n \<le> hops" using fin qn(2) unfolding impact_done_def by blast
    then obtain rs where rs: "routes_from hops d anchors (im_parents st) q = Some rs" "rs \<noteq> []"
        "\<forall>ids\<in>set rs. length ids = n \<and> route d (set (im_known st)) (set anchors) q (flow_order d ids)"
      using routes_from_result [OF fin] by blast
    have "trail_ok (im_known st) d (set anchors) (q, n, take 5 rs)"
      using rs(2,3) by (auto simp: trail_ok_def dest: in_set_takeD)
    then show ?thesis using rs(1) qn(1) by auto
  qed
  then obtain trails where trails: "those (map ?f ?xs) = Some trails" using those_Some_iff [of ?xs ?f] by blast
  note ys = those_map_the [OF trails]
  have item: "the (?f x) = (fst x, snd x, snd (snd (the (?f x)))) \<and> trail_ok (im_known st) d (set anchors) (the (?f x))"
    if "x \<in> set ?xs" for x
  proof -
    obtain ts where ts: "?f x = Some (fst x, snd x, ts)" "trail_ok (im_known st) d (set anchors) (fst x, snd x, ts)"
      using each [OF \<open>x \<in> set ?xs\<close>] by blast
    show ?thesis unfolding ts(1) option.sel using ts(2) by simp
  qed
  have "map (\<lambda>(q, n, ts). (q, n)) trails = map (\<lambda>x. x) ?xs"
    unfolding ys map_map
  proof (rule map_cong [OF refl])
    fix x assume "x \<in> set ?xs"
    from item [OF this] obtain ts where "the (?f x) = (fst x, snd x, ts)" by blast
    then show "((\<lambda>(q, n, ts). (q, n)) \<circ> (\<lambda>x. the (?f x))) x = x" by (simp only: comp_def case_prod_conv prod.collapse)
  qed
  moreover have "list_all (trail_ok (im_known st) d (set anchors)) trails"
    unfolding ys list_all_iff using item by (metis (no_types, lifting) imageE list.set_map)
  ultimately show ?thesis using that trails by (simp add: trails_by_dependent_def)
qed

section \<open>The report\<close>

definition found_of :: "(ustring \<times> object_record option) list \<Rightarrow> ustring \<times> nat \<times> ustring list list \<Rightarrow> (object_record \<times> nat \<times> ustring list list) option" where
  "found_of objects x = (case x of (q, n, ts) \<Rightarrow> (case map_of objects q of Some (Some r) \<Rightarrow> Some (r, n, ts) | _ \<Rightarrow> None))"

lemma impact_report_items:
  "impact_report env known trails objects = (items, summary) \<Longrightarrow>
     items = impact_order env (map (impact_item_of env known) (List.map_filter (found_of objects) trails)) \<and>
     is_direct summary = length (filter (\<lambda>(r, n, ts). n = 1) (List.map_filter (found_of objects) trails)) \<and>
     is_indirect summary = length (List.map_filter (found_of objects) trails) - is_direct summary"
  by (auto simp: impact_report_def Let_def found_of_def [abs_def])

lemma set_impact_order [simp]: "set (impact_order env xs) = set xs"
  by (simp add: impact_order_def)

lemma filter_length_order: "length (filter P (impact_order env xs)) = length (filter P xs)"
  by (simp add: impact_order_def filter_sort)

lemma impact_order_distinct: "distinct (map f (impact_order env xs)) = distinct (map f xs)"
  by (simp add: impact_order_def distinct_map)

lemma lex_fst: "x \<le> y \<Longrightarrow> fst x \<le> fst y" for x y :: "nat \<times> 'b::linorder"
  by (cases x; cases y) auto

lemma sorted_fst:
  fixes key :: "'a \<Rightarrow> nat \<times> 'b::linorder"
  assumes "sorted (map key xs)" "\<And>x. x \<in> set xs \<Longrightarrow> fst (key x) = f x"
  shows "sorted (map f xs)"
proof -
  have "sorted (map (\<lambda>x. fst (key x)) xs)"
    using assms(1) lex_fst unfolding sorted_map by (rule sorted_wrt_mono_rel [rotated])
  moreover have "map (\<lambda>x. fst (key x)) xs = map f xs" using assms(2) by (rule map_cong [OF refl])
  ultimately show ?thesis by simp
qed

lemma impact_order_sorted: "sorted (map im_distance (impact_order env xs))"
  by (rule sorted_fst [OF sorted_sort_key [of "\<lambda>i. (im_distance i, pe_casefold env (ob_qualified (im_dependent i)), ob_id (im_dependent i))"
        xs, folded impact_order_def]]) simp

lemma im_fields: "im_dependent (impact_item_of env known (r, n, ts)) = r" "im_distance (impact_item_of env known (r, n, ts)) = n"
  by (simp_all add: impact_item_of_def)

lemma im_projections: "im_dependent (impact_item_of env known x) = fst x" "im_distance (impact_item_of env known x) = fst (snd x)"
  by (cases x; simp add: impact_item_of_def)+

lemma impact_item_ok:
  assumes names: "plain_names env" and known: "set known \<subseteq> graph_edges env rels"
    and trail: "trail_ok known d A (q, n, ts)"
    and q: "record_of env q = Some r" "shortest A (step_rel d (graph_edges env rels)) q n" "n \<le> hops" "q \<noteq> changed"
  shows "dependent_ok env (graph_edges env rels) d A changed hops (impact_item_of env known (r, n, ts))"
proof -
  let ?i = "impact_item_of env known (r, n, ts)"
  have name: "ob_qualified r = q" using record_of_name [OF q(1)] by simp
  have paths: "im_paths ?i = map (path_record_of env known) (sort_key (\<lambda>t. (map target_name (steps_of known t), t)) ts)"
    by (simp add: impact_item_of_def)
  have "path_ok (graph_edges env rels) d A q n (path_record_of env known t)" if "t \<in> set ts" for t
  proof -
    have t: "length t = n" "route d (set known) A q (flow_order d t)" using trail that by (auto simp: trail_ok_def)
    from route_leads [OF names known t(2)] show ?thesis
      using t(1) by (simp add: path_ok_def path_record_of_def steps_of_flow)
  qed
  moreover have "ts \<noteq> []" "length ts \<le> 5" using trail by (simp_all add: trail_ok_def)
  moreover have "length (im_paths ?i) = length ts" by (simp add: paths)
  moreover from this have "im_paths ?i = [] \<longleftrightarrow> ts = []" by (metis length_0_conv)
  ultimately have "im_paths ?i \<noteq> [] \<and> length (im_paths ?i) \<le> 5 \<and> list_all (path_ok (graph_edges env rels) d A q n) (im_paths ?i)"
    unfolding list_all_iff paths by simp
  then show ?thesis unfolding dependent_ok_def im_fields name using q by blast
qed

lemma impact_report_ok:
  assumes names: "plain_names env" and E: "E = graph_edges env rels"
    and fin: "impact_done E d (set (anchors_of env changed)) hops st"
    and trails: "map (\<lambda>(q, n, ts). (q, n)) trails = filter (\<lambda>(q, n). q \<noteq> ob_qualified changed) (im_reached st)"
      "list_all (trail_ok (im_known st) d (set (anchors_of env changed))) trails"
    and objects: "\<forall>q\<in>fst ` set trails. \<exists>v. map_of objects q = Some v \<and> answers env q v"
    and report: "impact_report env (im_known st) trails objects = (items, summary)"
  shows "impact_ok env changed hops d rels items summary"
proof -
  let ?A = "set (anchors_of env changed)" let ?R = "step_rel d E"
  let ?found = "List.map_filter (found_of objects) trails"
  let ?name = "\<lambda>i. ob_qualified (im_dependent i)"
  note r = impact_report_items [OF report]
  have known: "set (im_known st) \<subseteq> graph_edges env rels" using fin E unfolding impact_done_def by blast
  have trail_iff: "(\<exists>ts. (q, n, ts) \<in> set trails) \<longleftrightarrow> shortest ?A ?R q n \<and> n \<le> hops \<and> q \<noteq> ob_qualified changed" for q n
  proof -
    have "(\<exists>ts. (q, n, ts) \<in> set trails) \<longleftrightarrow> (q, n) \<in> set (map (\<lambda>(q, n, ts). (q, n)) trails)" by force
    also have "\<dots> \<longleftrightarrow> (q, n) \<in> set (im_reached st) \<and> q \<noteq> ob_qualified changed" unfolding trails(1) by auto
    also have "\<dots> \<longleftrightarrow> (shortest ?A ?R q n \<and> n \<le> hops) \<and> q \<noteq> ob_qualified changed" using fin unfolding impact_done_def by blast
    finally show ?thesis by blast
  qed
  have resolved: "found_of objects (q, n, ts) = Some (r, n', ts') \<Longrightarrow> (q, n, ts) \<in> set trails \<Longrightarrow>
      n' = n \<and> ts' = ts \<and> record_of env q = Some r \<and> ob_qualified r = q" for q n ts r n' ts'
    using objects record_of_name by (fastforce simp: found_of_def answers_def split: option.splits)
  have all: "dependent_ok env E d ?A (ob_qualified changed) hops i" if mem: "i \<in> set items" for i
  proof -
    obtain q n ts r' where x: "(q, n, ts) \<in> set trails" "found_of objects (q, n, ts) = Some (r', n, ts)"
        "record_of env q = Some r'" "i = impact_item_of env (im_known st) (r', n, ts)"
    proof -
      have "i \<in> impact_item_of env (im_known st) ` set ?found" using mem r by simp
      then obtain z where z: "z \<in> set ?found" "i = impact_item_of env (im_known st) z" by blast
      then obtain x where x: "x \<in> set trails" "found_of objects x = Some z" by (auto simp: map_filter_set)
      obtain q n ts where q: "x = (q, n, ts)" by (cases x)
      obtain a b c where abc: "z = (a, b, c)" by (cases z)
      have "b = n \<and> c = ts \<and> record_of env q = Some a" using resolved x q abc by blast
      then show thesis using that x z q abc by blast
    qed
    have "trail_ok (im_known st) d ?A (q, n, ts)" using trails(2) x(1) by (auto simp: list_all_iff)
    moreover have "shortest ?A ?R q n \<and> n \<le> hops \<and> q \<noteq> ob_qualified changed" using trail_iff x(1) by blast
    ultimately show ?thesis using impact_item_ok [OF names known] x(3,4) E by blast
  qed
  have complete: "q \<in> ?name ` set items" if q: "resolvable env q" "q \<noteq> ob_qualified changed" "n \<le> hops" "shortest ?A ?R q n" for q n
  proof -
    obtain ts where ts: "(q, n, ts) \<in> set trails" using trail_iff q(2,3,4) by blast
    then obtain v where v: "map_of objects q = Some v" "answers env q v" using objects by force
    then obtain r' where r': "v = Some r'" "record_of env q = Some r'" using q(1) by (auto simp: answers_def split: option.splits)
    then have "found_of objects (q, n, ts) = Some (r', n, ts)" using v(1) by (simp add: found_of_def)
    then have "impact_item_of env (im_known st) (r', n, ts) \<in> set items" using r ts by (auto simp: map_filter_set)
    then show ?thesis using record_of_name [OF r'(2)] by (force simp: im_fields)
  qed
  have "distinct (map fst (filter (\<lambda>(q, n). q \<noteq> ob_qualified changed) (im_reached st)))"
    using fin by (simp add: impact_done_def distinct_map_filter)
  then have dist: "distinct (map fst trails)"
    unfolding trails(1) [symmetric] by (simp add: comp_def case_prod_unfold)
  have found_names: "distinct (map (\<lambda>x. ob_qualified (fst x)) (List.map_filter (found_of objects) ys)) \<and>
      set (map (\<lambda>x. ob_qualified (fst x)) (List.map_filter (found_of objects) ys)) \<subseteq> fst ` set ys"
    if "set ys \<subseteq> set trails" "distinct (map fst ys)" for ys
    using that
  proof (induction ys)
    case Nil
    then show ?case by (simp add: List.map_filter_def)
  next
    case (Cons y ys)
    obtain q n ts where y: "y = (q, n, ts)" by (cases y)
    have IH: "distinct (map (\<lambda>x. ob_qualified (fst x)) (List.map_filter (found_of objects) ys))"
        "set (map (\<lambda>x. ob_qualified (fst x)) (List.map_filter (found_of objects) ys)) \<subseteq> fst ` set ys"
      using Cons by auto
    show ?case
    proof (cases "found_of objects y")
      case None
      then show ?thesis using IH by (auto simp: map_filter_Cons)
    next
      case (Some z)
      then have "ob_qualified (fst z) = q" using resolved [of q n ts "fst z" "fst (snd z)" "snd (snd z)"] y Cons.prems(1) by simp
      moreover have "q \<notin> fst ` set ys" using Cons.prems(2) y by simp
      ultimately show ?thesis using IH Some y by (auto simp: map_filter_Cons)
    qed
  qed
  have "distinct (map (\<lambda>x. ob_qualified (fst x)) ?found)" using found_names [of trails] dist by blast
  then have "distinct (map ?name (map (impact_item_of env (im_known st)) ?found))"
    by (simp add: comp_def im_projections)
  then have distinct: "distinct (map ?name items)"
    unfolding conjunct1 [OF r] impact_order_distinct .
  have direct: "is_direct summary = length (filter (\<lambda>i. im_distance i = 1) items)"
    using r by (simp add: filter_length_order filter_map comp_def im_projections case_prod_unfold)
  have "length items = length ?found" using r by (simp add: impact_order_def)
  then have "is_indirect summary = length items - length (filter (\<lambda>i. im_distance i = 1) items)"
    using conjunct2 [OF conjunct2 [OF r]] unfolding direct by (simp only:)
  then have indirect: "is_indirect summary = length (filter (\<lambda>i. im_distance i \<noteq> 1) items)"
    using sum_length_filter_compl [of "\<lambda>i. im_distance i = 1" items] by presburger
  have sorted: "sorted (map im_distance items)" using r impact_order_sorted by blast
  have listed: "{q. resolvable env q \<and> q \<noteq> ob_qualified changed \<and> (\<exists>n\<le>hops. shortest ?A ?R q n)} \<subseteq> set (map ?name items)"
    using complete unfolding set_map by blast
  have deps: "list_all (dependent_ok env E d ?A (ob_qualified changed) hops) items" using all unfolding list_all_iff by blast
  show ?thesis
    unfolding impact_ok_def Let_def E [symmetric] by (intro conjI deps listed distinct sorted direct indirect)
qed

section \<open>Requests\<close>

lemma only_files_ok: "only_files env st st' \<Longrightarrow> client_ok env st \<Longrightarrow> client_ok env st' \<and> cs_impact st' = cs_impact st"
  by (simp add: only_files_def client_ok_def)

lemma reached_scalar:
  assumes "plain_names env" "shortest A (step_rel d (graph_edges env rels)) q n"
  shows "list_all scalar q"
proof -
  obtain k where "n = Suc k" using assms(2) by (cases n) (auto simp: shortest_def)
  then obtain u where "(u, q) \<in> step_rel d (graph_edges env rels)" using assms(2) by (auto simp: shortest_def level_Suc)
  then obtain e r where e: "q = far_name d e" "r \<in> set (project_rows (pe_graph env) (pe_project env))"
      "dependency_from_row env (file_paths env) r = Inr (Some e)"
    by (auto simp: step_rel_def graph_edges_def)
  show ?thesis
    using row_names_plain [OF assms(1) e(2)] dependency_row [OF e(3)] e(1) by (auto simp: far_name_def plain_name_def)
qed

lemma compute_impact_result:
  assumes run: "compute_impact env changed hops d rels st = (Inr (items, summary), st')"
    and ok: "client_ok env st" and names: "plain_names env"
  shows "impact_ok env changed hops d rels items summary \<and> client_ok env st' \<and> cs_impact st' = cs_impact st"
proof -
  let ?A = "anchors_of env changed" let ?E = "graph_edges env rels"
  from run obtain a st1 m st2 fin st3 where
      a: "impact_anchors env changed st = (Inr a, st1)" and m: "file_map env st1 = (Inr m, st2)"
    and rounds: "impact_rounds env m d rels hops 1 (impact_start a) st2 = (Inr fin, st3)"
    and rest: "(case trails_by_dependent d a (ob_qualified changed) hops fin of
       None \<Rightarrow> act_raise Uncaught
     | Some trails \<Rightarrow> act_bind (objects_by_name env (map fst trails)) (\<lambda>objects.
         act_return (impact_report env (im_known fin) trails objects))) st3 = (Inr (items, summary), st')"
    unfolding compute_impact_def by (elim act_bindE) blast
  have a': "a = ?A" and st1: "client_ok env st1" "cs_impact st1 = cs_impact st"
    using impact_anchors_Inr [OF a] only_files_ok [OF _ ok] by blast+
  have m': "m = file_paths env" and st2: "client_ok env st2" "cs_impact st2 = cs_impact st"
    using file_map_only_files [OF m] st1 only_files_ok [of env st1 st2] by (simp_all add: client_ok_def)
  have fin: "impact_done ?E d (set ?A) hops fin" and st3: "client_ok env st3" "cs_impact st3 = cs_impact st"
  proof -
    have "impact_rounds env (file_paths env) d rels hops (Suc 0) (impact_start ?A) st2 = (Inr fin, st3)"
      using rounds a' m' by simp
    from impact_rounds_result [OF names refl this impact_start_inv]
    show "impact_done ?E d (set ?A) hops fin" "client_ok env st3" "cs_impact st3 = cs_impact st"
      using st2 by (auto simp: client_ok_def files_cached_def)
  qed
  obtain trails where t: "trails_by_dependent d ?A (ob_qualified changed) hops fin = Some trails"
      "map (\<lambda>(q, n, ts). (q, n)) trails = filter (\<lambda>(q, n). q \<noteq> ob_qualified changed) (im_reached fin)"
      "list_all (trail_ok (im_known fin) d (set ?A)) trails"
    using trails_result [OF fin] by metis
  from rest obtain objects st4 where o: "objects_by_name env (map fst trails) st3 = (Inr objects, st4)"
      "impact_report env (im_known fin) trails objects = (items, summary)" "st' = st4"
    unfolding a' t(1) by (auto simp: act_return_def elim!: act_bindE)
  have "map fst (map (\<lambda>(q, n, ts). (q, n)) trails) = map fst trails" by (simp add: comp_def case_prod_unfold)
  then have "set (map fst trails) \<subseteq> fst ` set (im_reached fin)" unfolding t(2) by (metis filter_is_subset image_mono list.set_map)
  moreover have "list_all scalar q" if "q \<in> fst ` set (im_reached fin)" for q
  proof -
    obtain n where "(q, n) \<in> set (im_reached fin)" using \<open>q \<in> _\<close> by auto
    then have "shortest (set ?A) (step_rel d ?E) q n" using fin unfolding impact_done_def by blast
    then show ?thesis by (rule reached_scalar [OF names])
  qed
  ultimately have "\<forall>q\<in>set (map fst trails). list_all scalar q" by blast
  from objects_by_name_ok [OF o(1) st3(1) this]
  have objs: "\<forall>q\<in>fst ` set trails. \<exists>v. map_of objects q = Some v \<and> answers env q v"
    and st4: "client_ok env st4" "cs_impact st4 = cs_impact st" using st3(2) by simp_all
  show ?thesis using impact_report_ok [OF names refl fin t(2,3) objs o(2)] st4 o(3) by blast
qed

text \<open>The cache of finished traversals answers what the traversal itself would.\<close>

definition cached_ok :: "plsql_env \<Rightarrow> impact_key \<times> (int \<times> impact_item list \<times> impact_summary) \<Rightarrow> bool" where
  "cached_ok env x \<longleftrightarrow> (case x of ((i, hops, d, rels), (expires, items, summary)) \<Rightarrow>
     (case qualified_name_from_object_id i of None \<Rightarrow> False
      | Some q \<Rightarrow> (case record_of env q of None \<Rightarrow> False | Some changed \<Rightarrow> impact_ok env changed hops d rels items summary)))"

definition caches_ok :: "plsql_env \<Rightarrow> client_state \<Rightarrow> bool" where
  "caches_ok env st \<longleftrightarrow> client_ok env st \<and> list_all (cached_ok env) (cs_impact st)"

lemma list_all_filter: "list_all P xs \<Longrightarrow> list_all P (filter Q xs)"
  by (simp add: list_all_iff)

lemma list_all_drop: "list_all P xs \<Longrightarrow> list_all P (drop n xs)"
  by (auto simp: list_all_iff dest: in_set_dropD)

lemma client_ok_impact: "client_ok env (st\<lparr>cs_impact := x\<rparr>) = client_ok env st" "client_ok env (st\<lparr>cs_clock := c\<rparr>) = client_ok env st"
  by (simp_all add: client_ok_def files_cached_def)

lemma refresh_impact_result:
  assumes run: "refresh_impact env changed hops d rels (ob_id changed, hops, d, rels) st = (Inr (items, summary), st')"
    and ok: "caches_ok env st" and names: "plain_names env"
    and changed: "qualified_name_from_object_id (ob_id changed) = Some q" "record_of env q = Some changed"
  shows "impact_ok env changed hops d rels items summary \<and> caches_ok env st'"
proof -
  let ?key = "(ob_id changed, hops, d, rels)"
  let ?st1 = "st\<lparr>cs_impact := filter (\<lambda>x. fst x \<noteq> ?key) (cs_impact st)\<rparr>"
  from run obtain st2 now st3 where c: "compute_impact env changed hops d rels ?st1 = (Inr (items, summary), st2)"
      "read_clock env st2 = (Inr now, st3)"
      "cache_impact env ?key (now + pe_cache_ttl env, items, summary) st3 = (Inr (), st')"
    by (auto simp: refresh_impact_def drop_impact_def act_return_def elim!: act_bindE)
  have ok1: "client_ok env ?st1" "list_all (cached_ok env) (cs_impact ?st1)"
    using ok by (simp_all add: caches_ok_def client_ok_impact list_all_filter)
  from compute_impact_result [OF c(1) ok1(1) names]
  have r: "impact_ok env changed hops d rels items summary" "client_ok env st2" "cs_impact st2 = cs_impact ?st1" by blast+
  have st3: "client_ok env st3" "cs_impact st3 = cs_impact ?st1"
    using c(2) r(2,3) by (auto simp: read_clock_def client_ok_impact)
  have "cached_ok env (?key, (now + pe_cache_ttl env, items, summary))" using r(1) changed by (simp add: cached_ok_def)
  then have "list_all (cached_ok env) (cs_impact st')"
    using c(3) st3(2) ok1(2) by (auto simp: cache_impact_def Let_def intro!: list_all_drop list_all_filter)
  moreover have "client_ok env st'" using c(3) st3(1) by (auto simp: cache_impact_def Let_def client_ok_impact)
  ultimately show ?thesis using r(1) by (simp add: caches_ok_def)
qed

lemma impact_traversal_result:
  assumes run: "impact_traversal env changed hops d rels st = (Inr (items, summary), st')"
    and ok: "caches_ok env st" and names: "plain_names env"
    and changed: "qualified_name_from_object_id (ob_id changed) = Some q" "record_of env q = Some changed"
  shows "impact_ok env changed hops d rels items summary \<and> caches_ok env st'"
proof (cases "pe_cache_ttl env \<le> 0")
  case True
  then have "compute_impact env changed hops d rels st = (Inr (items, summary), st')" using run by (simp add: impact_traversal_def)
  from compute_impact_result [OF this _ names] ok show ?thesis by (simp add: caches_ok_def)
next
  case False
  let ?key = "(ob_id changed, hops, d, rels)"
  note refresh = refresh_impact_result [OF _ _ names changed]
  show ?thesis
  proof (cases "map_of (cs_impact st) ?key")
    case None
    then show ?thesis using run False refresh ok by (simp add: impact_traversal_def Let_def)
  next
    case (Some entry)
    obtain expires xs s where entry: "entry = (expires, xs, s)" by (cases entry)
    have hit: "cached_ok env (?key, entry)" using map_of_SomeD [OF Some] ok by (auto simp: caches_ok_def list_all_iff)
    have clock: "caches_ok env (st\<lparr>cs_clock := c\<rparr>)" for c using ok by (simp add: caches_ok_def client_ok_impact)
    let ?st1 = "st\<lparr>cs_clock := cs_clock st + 1\<rparr>"
    show ?thesis
    proof (cases "pe_now env (cs_clock st) < expires")
      case True
      then have e: "xs = items" "s = summary" "st' = ?st1\<lparr>cs_impact := filter (\<lambda>x. fst x \<noteq> ?key) (cs_impact st) @ [(?key, entry)]\<rparr>"
        using run False Some entry
        by (auto simp: impact_traversal_def Let_def act_bind_def read_clock_def touch_impact_def act_return_def)
      have "impact_ok env changed hops d rels items summary" using hit changed entry e(1,2) by (simp add: cached_ok_def)
      moreover have "list_all (cached_ok env) (cs_impact st')" using hit ok unfolding e(3) by (simp add: caches_ok_def list_all_filter)
      moreover have "client_ok env st'" using ok unfolding e(3) by (simp add: caches_ok_def client_ok_impact)
      ultimately show ?thesis by (simp add: caches_ok_def)
    next
      case fresh: False
      then have "refresh_impact env changed hops d rels ?key ?st1 = (Inr (items, summary), st')"
        using run False Some entry by (simp add: impact_traversal_def Let_def act_bind_def read_clock_def)
      from refresh [OF this clock] show ?thesis .
    qed
  qed
qed

end
