(* ===== verification/Plsql_Paths.thy ===== *)
theory Plsql_Paths
  imports Plsql_Report
begin

text \<open>
  What the path search finds: a reference definition of the trails of each round, and the walks of
  the graph that they are. An edge is followed only in the round that fetches it first, so the
  objects inside a path stand at their shortest distance from the source.
\<close>

section \<open>Walks of edges\<close>

fun walk :: "ustring \<Rightarrow> dependency list \<Rightarrow> ustring \<Rightarrow> bool" where
  "walk s [] v \<longleftrightarrow> s = v"
| "walk s (e # es) v \<longleftrightarrow> source_name e = s \<and> walk (target_name e) es v"

lemma walk_snoc: "walk s (es @ [e]) v \<longleftrightarrow> walk s es (source_name e) \<and> target_name e = v"
  by (induction es arbitrary: s) auto

lemma walk_append: "walk s (as @ bs) v \<longleftrightarrow> (\<exists>u. walk s as u \<and> walk u bs v)"
  by (induction as arbitrary: s) auto

text \<open>Steps that do not enter the target, and the distance along them.\<close>

definition step_avoiding :: "dependency set \<Rightarrow> ustring \<Rightarrow> (ustring \<times> ustring) set" where
  "step_avoiding E t = {(source_name e, target_name e) |e. e \<in> E \<and> target_name e \<noteq> t}"

definition nearest :: "dependency set \<Rightarrow> ustring \<Rightarrow> ustring \<Rightarrow> ustring \<Rightarrow> nat \<Rightarrow> bool" where
  "nearest E s t v n \<longleftrightarrow> v \<in> level {s} (step_avoiding E t) n \<and> (\<forall>m<n. v \<notin> level {s} (step_avoiding E t) m)"

lemma nearest_unique: "nearest E s t v n \<Longrightarrow> nearest E s t v m \<Longrightarrow> n = m"
  unfolding nearest_def by (metis nat_neq_iff)

lemma level_nearest: "v \<in> level {s} (step_avoiding E t) n \<Longrightarrow> \<exists>m\<le>n. nearest E s t v m"
  unfolding nearest_def using LeastI_ex [of "\<lambda>m. v \<in> level {s} (step_avoiding E t) m"]
    not_less_Least [of _ "\<lambda>m. v \<in> level {s} (step_avoiding E t) m"]
    Least_le [of "\<lambda>m. v \<in> level {s} (step_avoiding E t) m" n] by blast

lemma nearest_0: "nearest E s t v 0 \<longleftrightarrow> v = s"
  by (auto simp: nearest_def)

lemma nearest_not_target: "nearest E s t v n \<Longrightarrow> s \<noteq> t \<Longrightarrow> v \<noteq> t"
  by (cases n) (auto simp: nearest_def level_Suc step_avoiding_def)

lemma nearest_Suc:
  assumes "nearest E s t v (Suc k)"
  obtains e where "e \<in> E" "nearest E s t (source_name e) k" "target_name e = v" "v \<noteq> t"
proof -
  obtain e where e: "e \<in> E" "source_name e \<in> level {s} (step_avoiding E t) k" "target_name e = v" "v \<noteq> t"
    using assms by (auto simp: nearest_def level_Suc step_avoiding_def)
  obtain m where m: "m \<le> k" "nearest E s t (source_name e) m" using level_nearest [OF e(2)] by blast
  have "v \<in> level {s} (step_avoiding E t) (Suc m)"
    using m(2) e(1,3,4) by (auto simp: nearest_def level_Suc step_avoiding_def)
  then have "\<not> Suc m < Suc k" using assms by (auto simp: nearest_def)
  then have "m = k" using m(1) by simp
  then show thesis using that e m(2) by blast
qed

text \<open>Paths all of whose objects before the end stand at their distance from the source.\<close>

definition geodesic :: "dependency set \<Rightarrow> ustring \<Rightarrow> ustring \<Rightarrow> dependency list \<Rightarrow> bool" where
  "geodesic E s t es \<longleftrightarrow> set es \<subseteq> E \<and> (\<forall>i<length es. nearest E s t (source_name (es ! i)) i)"

lemma geodesic_snoc:
  "geodesic E s t (es @ [e]) \<longleftrightarrow> geodesic E s t es \<and> e \<in> E \<and> nearest E s t (source_name e) (length es)"
  by (auto simp: geodesic_def nth_append less_Suc_eq)

section \<open>The trails of a round\<close>

primrec trails :: "dependency set \<Rightarrow> ustring \<Rightarrow> ustring \<Rightarrow> nat \<Rightarrow> trail set" where
  "trails E s t 0 = {(s, [], [s])}"
| "trails E s t (Suc k) =
     {(target_name e, ids @ [dp_id e], target_name e # vs) |u ids vs e.
        (u, ids, vs) \<in> trails E s t k \<and> e \<in> E \<and> source_name e = u \<and> nearest E s t u k \<and>
        target_name e \<notin> set vs \<and> target_name e \<noteq> t}"

definition ending :: "dependency set \<Rightarrow> ustring \<Rightarrow> ustring \<Rightarrow> nat \<Rightarrow> ustring list set" where
  "ending E s t k =
     {ids @ [dp_id e] |u ids vs e. (u, ids, vs) \<in> trails E s t k \<and> e \<in> E \<and> source_name e = u \<and> nearest E s t u k \<and>
        target_name e \<notin> set vs \<and> target_name e = t}"

lemma trails_sound:
  "(v, ids, vs) \<in> trails E s t k \<Longrightarrow> s \<noteq> t \<Longrightarrow>
     \<exists>es. length es = k \<and> ids = map dp_id es \<and> geodesic E s t es \<and> walk s es v \<and> t \<notin> set vs \<and>
       vs = rev (s # map target_name es) \<and> v \<in> level {s} (step_avoiding E t) k"
proof (induction k arbitrary: v ids vs)
  case 0
  then show ?case by (intro exI [of _ "[]"]) (auto simp: geodesic_def)
next
  case (Suc k)
  from Suc.prems(1) obtain u ids' vs' e where e: "(u, ids', vs') \<in> trails E s t k" "e \<in> E" "source_name e = u"
      "nearest E s t u k" "target_name e \<noteq> t" "v = target_name e" "ids = ids' @ [dp_id e]" "vs = target_name e # vs'"
    by auto
  obtain es where es: "length es = k" "ids' = map dp_id es" "geodesic E s t es" "walk s es u" "t \<notin> set vs'"
      "vs' = rev (s # map target_name es)" "u \<in> level {s} (step_avoiding E t) k"
    using Suc.IH [OF e(1) Suc.prems(2)] by blast
  have "v \<in> level {s} (step_avoiding E t) (Suc k)" using es(7) e by (auto simp: level_Suc step_avoiding_def)
  moreover have "geodesic E s t (es @ [e])" using es(1,3) e by (simp add: geodesic_snoc)
  ultimately show ?case using es e by (intro exI [of _ "es @ [e]"]) (simp add: walk_snoc)
qed

lemma geodesic_visited:
  assumes "geodesic E s t es" "walk s es v" "x \<in> set (s # map target_name es)"
  shows "x = v \<or> (\<exists>j<length es. nearest E s t x j)"
  using assms
proof (induction es arbitrary: v rule: rev_induct)
  case Nil
  then show ?case by simp
next
  case (snoc e es)
  have g: "geodesic E s t es" "nearest E s t (source_name e) (length es)" and w: "walk s es (source_name e)" "target_name e = v"
    using snoc.prems(1,2) by (simp_all add: geodesic_snoc walk_snoc)
  show ?case
  proof (cases "x = v")
    case False
    then have "x \<in> set (s # map target_name es)" using snoc.prems(3) w(2) by auto
    from snoc.IH [OF g(1) w(1) this] show ?thesis using g(2) by (auto intro: less_SucI)
  qed simp
qed

lemma trails_complete:
  "geodesic E s t es \<Longrightarrow> walk s es v \<Longrightarrow> nearest E s t v (length es) \<Longrightarrow> s \<noteq> t \<Longrightarrow>
     (v, map dp_id es, rev (s # map target_name es)) \<in> trails E s t (length es)"
proof (induction es arbitrary: v rule: rev_induct)
  case Nil
  then show ?case by simp
next
  case (snoc e es)
  have g: "geodesic E s t es" "e \<in> E" "nearest E s t (source_name e) (length es)" and w: "walk s es (source_name e)" "target_name e = v"
    using snoc.prems(1,2) by (simp_all add: geodesic_snoc walk_snoc)
  have "v \<noteq> source_name e" using nearest_unique [OF snoc.prems(3)] g(3) by fastforce
  moreover have "\<not> nearest E s t v j" if "j < length es" for j
    using nearest_unique [OF snoc.prems(3), of j] that by auto
  ultimately have "v \<notin> set (s # map target_name es)" using geodesic_visited [OF g(1) w(1)] by blast
  moreover have "v \<noteq> t" using nearest_not_target [OF snoc.prems(3,4)] .
  ultimately show ?case using snoc.IH [OF g(1) w(1) g(3) snoc.prems(4)] g(2,3) w(2) by fastforce
qed

lemma ending_iff:
  assumes "s \<noteq> t"
  shows "ending E s t k = {map dp_id es |es. length es = Suc k \<and> geodesic E s t es \<and> walk s es t}"
proof (intro set_eqI iffI)
  fix ids assume "ids \<in> ending E s t k"
  then obtain u ids' vs e where e: "(u, ids', vs) \<in> trails E s t k" "e \<in> E" "source_name e = u" "nearest E s t u k"
      "target_name e = t" "ids = ids' @ [dp_id e]"
    by (auto simp: ending_def)
  obtain es where es: "length es = k" "ids' = map dp_id es" "geodesic E s t es" "walk s es u"
    using trails_sound [OF e(1) assms] by blast
  then show "ids \<in> {map dp_id es |es. length es = Suc k \<and> geodesic E s t es \<and> walk s es t}"
    using e by (intro CollectI exI [of _ "es @ [e]"]) (simp add: geodesic_snoc walk_snoc)
next
  fix ids assume "ids \<in> {map dp_id es |es. length es = Suc k \<and> geodesic E s t es \<and> walk s es t}"
  then obtain es where es: "ids = map dp_id es" "length es = Suc k" "geodesic E s t es" "walk s es t" by blast
  then obtain ds e where ds: "es = ds @ [e]" "length ds = k" by (cases es rule: rev_cases) auto
  have g: "geodesic E s t ds" "e \<in> E" "nearest E s t (source_name e) k" and w: "walk s ds (source_name e)" "target_name e = t"
    using es(3,4) ds by (simp_all add: geodesic_snoc walk_snoc)
  have "(source_name e, map dp_id ds, rev (s # map target_name ds)) \<in> trails E s t k"
    using trails_complete [OF g(1) w(1)] g(3) ds(2) assms by simp
  moreover from trails_sound [OF this assms] have "t \<notin> set (rev (s # map target_name ds))" by blast
  ultimately show "ids \<in> ending E s t k" using g w es(1) ds(1) unfolding ending_def by fastforce
qed

lemma nearest_trail:
  assumes "nearest E s t v k" "s \<noteq> t"
  shows "\<exists>ids vs. (v, ids, vs) \<in> trails E s t k"
  using assms(1)
proof (induction k arbitrary: v)
  case 0
  then show ?case by (simp add: nearest_0)
next
  case (Suc k)
  obtain e where e: "e \<in> E" "nearest E s t (source_name e) k" "target_name e = v" "v \<noteq> t"
    using nearest_Suc [OF Suc.prems] .
  obtain ids vs where t: "(source_name e, ids, vs) \<in> trails E s t k" using Suc.IH [OF e(2)] by blast
  obtain es where es: "length es = k" "geodesic E s t es" "walk s es (source_name e)" "vs = rev (s # map target_name es)"
    using trails_sound [OF t assms(2)] by blast
  have "v \<noteq> source_name e" using nearest_unique [OF Suc.prems] e(2) by fastforce
  moreover have "\<not> nearest E s t v j" if "j < k" for j using nearest_unique [OF Suc.prems, of j] that by auto
  ultimately have "v \<notin> set vs" using geodesic_visited [OF es(2,3)] es(1,4) by auto
  then show ?case using t e by fastforce
qed

section \<open>The rounds\<close>

lemma new_edges_fresh: "dp_id ` set (new_edges known es) \<inter> dp_id ` set known = {}"
proof (induction known es rule: new_edges.induct)
  case (2 known e es)
  show ?case
  proof (cases "dp_id e \<in> dp_id ` set known")
    case True
    then show ?thesis using 2(1) by simp
  next
    case False
    then show ?thesis using 2(2) [OF False] by auto
  qed
qed simp

lemma new_edges_new: "e \<in> set es \<Longrightarrow> dp_id e \<notin> dp_id ` set known \<Longrightarrow> dp_id e \<in> dp_id ` set (new_edges known es)"
  using new_edges_ids [of known es] by auto

definition paths_inv :: "dependency set \<Rightarrow> ustring \<Rightarrow> ustring \<Rightarrow> nat \<Rightarrow> dependency list \<Rightarrow> ustring list list \<Rightarrow> trail list \<Rightarrow> bool" where
  "paths_inv E s t k known found frontier \<longleftrightarrow>
     set known \<subseteq> E \<and> dp_id ` set known = dp_id ` {e \<in> E. \<exists>j<k. nearest E s t (source_name e) j} \<and>
     set found = (\<Union>j<k. ending E s t j) \<and> distinct found \<and> set frontier = trails E s t k"

text \<open>The new edges that leave an object of the frontier.\<close>

lemma fresh_edges:
  assumes names: "plain_names env" and E: "E = graph_edges env rels" and st: "s \<noteq> t"
    and inv: "paths_inv E s t k known found frontier"
    and es: "\<forall>e. e \<in> set es \<longleftrightarrow> e \<in> E \<and> source_name e \<in> fst ` set frontier"
    and u: "(u, ids, vs) \<in> set frontier"
  shows "{(dp_id e, target_name e) |e. e \<in> set (new_edges known es) \<and> source_name e = u} =
    {(dp_id e, target_name e) |e. e \<in> E \<and> source_name e = u \<and> nearest E s t u k}" (is "?L = ?R")
proof -
  have ids: "dp_id ` set known = dp_id ` {e \<in> E. \<exists>j<k. nearest E s t (source_name e) j}" and known: "set known \<subseteq> E"
    and front: "set frontier = trails E s t k" using inv unfolding paths_inv_def by blast+
  have freshE: "set (new_edges known es) \<subseteq> E" using new_edges_set [of known es] es by blast
  have same: "source_name e = source_name e' \<and> target_name e = target_name e'"
    if e: "e \<in> E" "e' \<in> E" "dp_id e = dp_id e'" for e e'
    using same_id_same_ends [OF names, of e rels e' rels] e E by blast
  have "u \<in> level {s} (step_avoiding E t) k" using trails_sound [OF u [unfolded front] st] by blast
  then obtain j where j: "j \<le> k" "nearest E s t u j" using level_nearest by blast
  have old: "dp_id e \<in> dp_id ` set known \<longleftrightarrow> j < k" if e: "e \<in> E" "source_name e = u" for e
  proof
    assume "dp_id e \<in> dp_id ` set known"
    then obtain e' i where e': "e' \<in> E" "dp_id e = dp_id e'" "i < k" "nearest E s t (source_name e') i" unfolding ids by blast
    then have "nearest E s t u i" using same [OF e(1) e'(1,2)] e(2) by simp
    then show "j < k" using nearest_unique [OF j(2)] e'(3) by simp
  next
    assume "j < k"
    then show "dp_id e \<in> dp_id ` set known" unfolding ids using e j(2) by blast
  qed
  have at: "nearest E s t u k \<longleftrightarrow> \<not> j < k" using j nearest_unique [OF j(2)] by (metis le_neq_implies_less nat_neq_iff)
  show ?thesis
  proof (intro subset_antisym subsetI)
    fix x assume "x \<in> ?L"
    then obtain e where e: "x = (dp_id e, target_name e)" "e \<in> set (new_edges known es)" "source_name e = u" by blast
    have "dp_id e \<notin> dp_id ` set known" using new_edges_fresh [of known es] e(2) by blast
    then show "x \<in> ?R" using old [of e] e freshE at by blast
  next
    fix x assume "x \<in> ?R"
    then obtain e where e: "x = (dp_id e, target_name e)" "e \<in> E" "source_name e = u" "nearest E s t u k" by blast
    have "e \<in> set es" using es e(2,3) u by force
    moreover have "dp_id e \<notin> dp_id ` set known" using old [OF e(2,3)] at e(4) by blast
    ultimately obtain e' where e': "e' \<in> set (new_edges known es)" "dp_id e' = dp_id e" using new_edges_new [of e es known] by auto
    have "source_name e' = u \<and> target_name e' = target_name e" using same [of e' e] e' freshE e(2,3) by blast
    then show "x \<in> ?L" using e' e(1) by (intro CollectI exI [of _ e']) simp
  qed
qed

lemma set_outgoing [simp]: "set (outgoing fresh u) = {e \<in> set fresh. source_name e = u}"
  by (auto simp: outgoing_def)

lemma longer_set: "set (longer_trails t fresh (u, ids, vs)) =
    {(q, ids @ [i], q # vs) |i q. (i, q) \<in> {(dp_id e, target_name e) |e. e \<in> set fresh \<and> source_name e = u} \<and> q \<notin> set vs \<and> q \<noteq> t}"
  by (auto simp: longer_trails_def fresh_steps_def)

lemma found_set: "set (found_trails t fresh (u, ids, vs)) =
    {ids @ [i] |i q. (i, q) \<in> {(dp_id e, target_name e) |e. e \<in> set fresh \<and> source_name e = u} \<and> q \<notin> set vs \<and> q = t}"
  by (auto simp: found_trails_def fresh_steps_def)

lemma paths_round:
  assumes names: "plain_names env" and E: "E = graph_edges env rels" and st: "s \<noteq> t"
    and inv: "paths_inv E s t k known found frontier"
    and es: "\<forall>e. e \<in> set es \<longleftrightarrow> e \<in> E \<and> source_name e \<in> fst ` set frontier"
  shows "paths_inv E s t (Suc k) (known @ new_edges known es)
    (found @ filter (\<lambda>x. x \<notin> set found) (unique (concat (map (found_trails t (new_edges known es)) frontier))))
    (concat (map (longer_trails t (new_edges known es)) frontier))"
proof -
  let ?fresh = "new_edges known es"
  have ids: "dp_id ` set known = dp_id ` {e \<in> E. \<exists>j<k. nearest E s t (source_name e) j}" and known: "set known \<subseteq> E"
    and front: "set frontier = trails E s t k" and found: "set found = (\<Union>j<k. ending E s t j)" "distinct found"
    using inv unfolding paths_inv_def by blast+
  note fresh = fresh_edges [OF names E st inv es]
  have "set (concat (map (longer_trails t ?fresh) frontier)) = (\<Union>x\<in>trails E s t k. set (longer_trails t ?fresh x))"
    by (simp add: front)
  also have "\<dots> = trails E s t (Suc k)"
  proof (intro set_eqI iffI)
    fix x assume "x \<in> (\<Union>x\<in>trails E s t k. set (longer_trails t ?fresh x))"
    then obtain u i vs where u: "(u, i, vs) \<in> trails E s t k" "x \<in> set (longer_trails t ?fresh (u, i, vs))" by auto
    from u(2) show "x \<in> trails E s t (Suc k)"
      unfolding longer_set fresh [OF u(1) [folded front]] using u(1) by auto
  next
    fix x assume "x \<in> trails E s t (Suc k)"
    then obtain u i vs e where e: "x = (target_name e, i @ [dp_id e], target_name e # vs)" "(u, i, vs) \<in> trails E s t k"
        "e \<in> E" "source_name e = u" "nearest E s t u k" "target_name e \<notin> set vs" "target_name e \<noteq> t" by auto
    have "x \<in> set (longer_trails t ?fresh (u, i, vs))"
      unfolding longer_set fresh [OF e(2) [folded front]] using e by blast
    then show "x \<in> (\<Union>x\<in>trails E s t k. set (longer_trails t ?fresh x))" using e(2) by blast
  qed
  finally have 1: "set (concat (map (longer_trails t ?fresh) frontier)) = trails E s t (Suc k)" .
  have "set (concat (map (found_trails t ?fresh) frontier)) = (\<Union>x\<in>trails E s t k. set (found_trails t ?fresh x))"
    by (simp add: front)
  also have "\<dots> = ending E s t k"
  proof (intro set_eqI iffI)
    fix x assume "x \<in> (\<Union>x\<in>trails E s t k. set (found_trails t ?fresh x))"
    then obtain u i vs where u: "(u, i, vs) \<in> trails E s t k" "x \<in> set (found_trails t ?fresh (u, i, vs))" by auto
    from u(2) show "x \<in> ending E s t k"
      unfolding found_set fresh [OF u(1) [folded front]] ending_def using u(1) by auto
  next
    fix x assume "x \<in> ending E s t k"
    then obtain u i vs e where e: "x = i @ [dp_id e]" "(u, i, vs) \<in> trails E s t k"
        "e \<in> E" "source_name e = u" "nearest E s t u k" "target_name e \<notin> set vs" "target_name e = t" by (auto simp: ending_def)
    have "x \<in> set (found_trails t ?fresh (u, i, vs))"
      unfolding found_set fresh [OF e(2) [folded front]] using e by blast
    then show "x \<in> (\<Union>x\<in>trails E s t k. set (found_trails t ?fresh x))" using e(2) by blast
  qed
  finally have 2: "set (concat (map (found_trails t ?fresh) frontier)) = ending E s t k" .
  have level: "v \<in> level {s} (step_avoiding E t) k" if "v \<in> fst ` trails E s t k" for v
  proof -
    obtain i vs where "(v, i, vs) \<in> trails E s t k" using \<open>v \<in> _\<close> by auto
    from trails_sound [OF this st] show ?thesis by blast
  qed
  have sources: "(\<exists>j<Suc k. nearest E s t v j) \<longleftrightarrow> (\<exists>j<k. nearest E s t v j) \<or> v \<in> fst ` trails E s t k" for v
  proof
    assume "\<exists>j<Suc k. nearest E s t v j"
    then show "(\<exists>j<k. nearest E s t v j) \<or> v \<in> fst ` trails E s t k"
      using nearest_trail [OF _ st, of E v k] unfolding less_Suc_eq by (metis fst_conv image_eqI)
  next
    assume "(\<exists>j<k. nearest E s t v j) \<or> v \<in> fst ` trails E s t k"
    then show "\<exists>j<Suc k. nearest E s t v j"
      using level_nearest [OF level [of v]] by (auto simp: less_Suc_eq_le intro: less_imp_le)
  qed
  have "{e \<in> E. \<exists>j<k. nearest E s t (source_name e) j} \<union> set es = {e \<in> E. \<exists>j<Suc k. nearest E s t (source_name e) j}"
    using es unfolding sources front by blast
  then have 3: "dp_id ` set (known @ ?fresh) = dp_id ` {e \<in> E. \<exists>j<Suc k. nearest E s t (source_name e) j}"
    unfolding new_edges_ids ids by (metis image_Un)
  have 4: "set (known @ ?fresh) \<subseteq> E" using known new_edges_set [of known es] es by auto
  show ?thesis
    unfolding paths_inv_def using 1 2 3 4 found by (auto simp: lessThan_Suc distinct_unique)
qed

lemma no_more_trails:
  assumes "trails E s t k = {}" "k \<le> j"
  shows "trails E s t j = {}"
  using assms(2) by (induction rule: dec_induct) (simp_all add: assms(1))

text \<open>When the search ends, in the last round or because no object is left to expand.\<close>

definition paths_done :: "dependency set \<Rightarrow> ustring \<Rightarrow> ustring \<Rightarrow> nat \<Rightarrow> dependency list \<Rightarrow> ustring list list \<Rightarrow> bool" where
  "paths_done E s t n known found \<longleftrightarrow>
     set known \<subseteq> E \<and> set found = (\<Union>j<n. ending E s t j) \<and> distinct found \<and>
     (\<Union>ids\<in>set found. set ids) \<subseteq> dp_id ` set known"

lemma paths_inv_done:
  assumes "paths_inv E s t k known found frontier" "s \<noteq> t"
  shows "paths_done E s t k known found"
proof -
  have ids: "dp_id ` set known = dp_id ` {e \<in> E. \<exists>j<k. nearest E s t (source_name e) j}" and known: "set known \<subseteq> E"
    and found: "set found = (\<Union>j<k. ending E s t j)" "distinct found"
    using assms(1) unfolding paths_inv_def by blast+
  have "i \<in> dp_id ` set known" if i: "x \<in> set found" "i \<in> set x" for x i
  proof -
    obtain j es where es: "j < k" "x = map dp_id es" "length es = Suc j" "geodesic E s t es"
      using i(1) unfolding found(1) ending_iff [OF assms(2)] by blast
    then obtain m where m: "m < length es" "i = dp_id (es ! m)" using i(2) by (auto simp: in_set_conv_nth)
    then have "es ! m \<in> E" "nearest E s t (source_name (es ! m)) m" "m < k"
      using es by (auto simp: geodesic_def subset_iff)
    then show ?thesis unfolding ids m(2) by blast
  qed
  then show ?thesis using known found unfolding paths_done_def by blast
qed

lemma path_rounds_result:
  assumes "plain_names env" "E = graph_edges env path_relationships" "s \<noteq> t"
  shows "path_rounds env (file_paths env) t n known found frontier cs = (Inr (known', found'), cs') \<Longrightarrow>
    paths_inv E s t k known found frontier \<Longrightarrow>
    paths_done E s t (k + n) known' found' \<and> (\<exists>q. cs' = cs\<lparr>cs_queries := q\<rparr>)"
proof (induction n arbitrary: k known found frontier cs)
  case 0
  then have "known' = known" "found' = found" "cs' = cs" by (simp_all add: act_return_def)
  then show ?case using paths_inv_done [OF 0(2) assms(3)] by (intro conjI exI [of _ "cs_queries cs"]) simp_all
next
  case (Suc n)
  let ?sources = "sort (remdups (map fst frontier))"
  have sources: "set ?sources = fst ` set frontier" by simp
  show ?case
  proof (cases "?sources = []")
    case True
    then have same: "known' = known" "found' = found" "cs' = cs" using Suc.prems(1) by (simp_all add: act_return_def)
    have "trails E s t k = {}" using True sources Suc.prems(2) unfolding paths_inv_def by (metis image_is_empty list.set(1))
    then have "ending E s t j = {}" if "k \<le> j" for j using no_more_trails [OF _ that] by (simp add: ending_def)
    then have "ending E s t j \<subseteq> (\<Union>j<k. ending E s t j)" for j by (cases "j < k") auto
    then have all: "(\<Union>j<k + Suc n. ending E s t j) = (\<Union>j<k. ending E s t j)"
      by (intro subset_antisym UN_least UN_mono) auto
    have "paths_done E s t (k + Suc n) known found"
      using paths_inv_done [OF Suc.prems(2) assms(3)] unfolding paths_done_def all .
    then show ?thesis using same by (intro conjI exI [of _ "cs_queries cs"]) simp_all
  next
    case False
    from Suc.prems(1) obtain es cs1 where
        es: "fetch_round env (file_paths env) (leaves_from path_relationships ?sources) (length known) cs = (Inr es, cs1)"
      and rest: "path_rounds env (file_paths env) t n (known @ new_edges known es)
          (found @ filter (\<lambda>x. x \<notin> set found) (unique (concat (map (found_trails t (new_edges known es)) frontier))))
          (concat (map (longer_trails t (new_edges known es)) frontier)) cs1 = (Inr (known', found'), cs')"
      unfolding path_rounds.simps Let_def if_not_P [OF False] by (rule act_bindE)
    note f = fetch_round_Inr [OF es]
    have "leaves_from path_relationships ?sources r \<longleftrightarrow> of_types path_relationships r \<and> source_name e \<in> fst ` set frontier"
      if "dependency_from_row env (file_paths env) r = Inr (Some e)" for r e
      using touches_edge [OF that, of Downstream path_relationships ?sources] sources by (simp add: touches_def near_name_def)
    then have "\<forall>e. e \<in> set es \<longleftrightarrow> e \<in> E \<and> source_name e \<in> fst ` set frontier"
      using f unfolding assms(2) graph_edges_def mem_Collect_eq by meson
    from Suc.IH [OF rest paths_round [OF assms Suc.prems(2) this]]
    have "paths_done E s t (Suc k + n) known' found'" "\<exists>q. cs' = cs1\<lparr>cs_queries := q\<rparr>" by blast+
    then show ?thesis using f by auto
  qed
qed

section \<open>The list of paths\<close>

lemma walk_level:
  "walk s es v \<Longrightarrow> set es \<subseteq> E \<Longrightarrow> t \<notin> target_name ` set es \<Longrightarrow> v \<in> level {s} (step_avoiding E t) (length es)"
proof (induction es arbitrary: v rule: rev_induct)
  case (snoc e es)
  then have "source_name e \<in> level {s} (step_avoiding E t) (length es)" "target_name e = v" "e \<in> E" "v \<noteq> t"
    by (auto simp: walk_snoc)
  then show ?case by (auto simp: level_Suc step_avoiding_def)
qed simp

text \<open>No walk to the target is shorter than every path that is found.\<close>

lemma walk_geodesic:
  assumes "s \<noteq> t"
  shows "walk s es t \<Longrightarrow> set es \<subseteq> E \<Longrightarrow> \<exists>ds. geodesic E s t ds \<and> walk s ds t \<and> length ds \<le> length es"
proof (induction es rule: length_induct)
  case (1 es)
  have "es \<noteq> []" using "1.prems"(1) assms by auto
  then obtain ds e where ds: "es = ds @ [e]" by (cases es rule: rev_cases) auto
  have w: "walk s ds (source_name e)" "target_name e = t" and e: "e \<in> E" "set ds \<subseteq> E"
    using "1.prems" ds by (simp_all add: walk_snoc)
  show ?case
  proof (cases "t \<in> target_name ` set ds")
    case True
    then obtain x xs ys where x: "ds = xs @ x # ys" "target_name x = t" by (metis imageE split_list)
    have "walk s (xs @ [x]) t"
    proof -
      obtain u where "walk s (xs @ [x]) u" using w(1) x(1) walk_append [of s "xs @ [x]" ys] by auto
      then show ?thesis using x(2) by (simp add: walk_snoc)
    qed
    moreover have "set (xs @ [x]) \<subseteq> E" "length (xs @ [x]) < length es" using e x ds by auto
    ultimately show ?thesis using "1.IH" by (meson le_trans less_imp_le)
  next
    case False
    obtain m where m: "m \<le> length ds" "nearest E s t (source_name e) m"
      using level_nearest [OF walk_level [OF w(1) e(2) False]] by blast
    obtain i vs where "(source_name e, i, vs) \<in> trails E s t m" using nearest_trail [OF m(2) assms] by blast
    from trails_sound [OF this assms] obtain gs where "length gs = m" "geodesic E s t gs" "walk s gs (source_name e)" by blast
    then have "geodesic E s t (gs @ [e]) \<and> walk s (gs @ [e]) t \<and> length (gs @ [e]) \<le> length es"
      using m e w ds by (simp add: geodesic_snoc walk_snoc)
    then show ?thesis by blast
  qed
qed

definition paths_ok :: "plsql_env \<Rightarrow> ustring \<Rightarrow> ustring \<Rightarrow> nat \<Rightarrow> path_record list \<Rightarrow> bool" where
  "paths_ok env s t hops records \<longleftrightarrow>
     (let E = graph_edges env path_relationships in
      list_all (\<lambda>p. geodesic E s t (pa_steps p) \<and> walk s (pa_steps p) t \<and> pa_steps p \<noteq> [] \<and>
        pa_hops p = length (pa_steps p) \<and> pa_hops p \<le> hops) records \<and>
      {map dp_id es |es. geodesic E s t es \<and> walk s es t \<and> length es \<le> hops} \<subseteq> (\<lambda>p. map dp_id (pa_steps p)) ` set records \<and>
      distinct (map (\<lambda>p. map dp_id (pa_steps p)) records) \<and> sorted (map pa_hops records))"

lemma steps_of_ids: "set ids \<subseteq> dp_id ` set known \<Longrightarrow> map dp_id (steps_of known ids) = ids \<and> set (steps_of known ids) \<subseteq> set known"
proof (induction ids)
  case Nil
  then show ?case by (simp add: steps_of_def List.map_filter_def)
next
  case (Cons i ids)
  then obtain e where "e \<in> set known" "edge_by_id known i = Some e" "dp_id e = i" using edge_by_id_Some [of i known] by auto
  then show ?case using Cons by (simp add: steps_of_Cons)
qed

lemma same_ids_path:
  assumes names: "plain_names env" and E: "E = graph_edges env rels"
  shows "map dp_id ds = map dp_id es \<Longrightarrow> set ds \<subseteq> E \<Longrightarrow> set es \<subseteq> E \<Longrightarrow> walk s ds v = walk s es v \<and> map source_name ds = map source_name es"
proof (induction ds arbitrary: es s)
  case (Cons d ds)
  then obtain e es' where es: "es = e # es'" by (cases es) auto
  have "source_name d = source_name e \<and> target_name d = target_name e"
    using same_id_same_ends [OF names, of d rels e rels] Cons.prems es E by auto
  then show ?case using Cons es by auto
qed simp

lemma same_ids_geodesic:
  assumes "map source_name ds = map source_name es" "set ds \<subseteq> E" "geodesic E s t es"
  shows "geodesic E s t ds"
proof -
  have "length ds = length es" using assms(1) by (rule map_eq_imp_length_eq)
  moreover have "source_name (ds ! i) = source_name (es ! i)" if "i < length ds" for i
    using assms(1) that calculation by (metis nth_map)
  ultimately show ?thesis using assms(2,3) by (simp add: geodesic_def)
qed

lemma paths_records:
  assumes names: "plain_names env" and st: "s \<noteq> t" and fin: "paths_done (graph_edges env path_relationships) s t n known found"
  shows "paths_ok env s t n (map (path_record_of env known) (trail_order known found))"
proof -
  let ?E = "graph_edges env path_relationships"
  let ?records = "map (path_record_of env known) (trail_order known found)"
  have known: "set known \<subseteq> ?E" and dist: "distinct found" and ids: "(\<Union>ids\<in>set found. set ids) \<subseteq> dp_id ` set known"
    and found: "set found = {map dp_id es |es. es \<noteq> [] \<and> length es \<le> n \<and> geodesic ?E s t es \<and> walk s es t}"
  proof -
    have "set found = (\<Union>j<n. {map dp_id es |es. length es = Suc j \<and> geodesic ?E s t es \<and> walk s es t})"
      using fin unfolding paths_done_def ending_iff [OF st] by blast
    also have "\<dots> = {map dp_id es |es. es \<noteq> [] \<and> length es \<le> n \<and> geodesic ?E s t es \<and> walk s es t}"
    proof (intro set_eqI iffI)
      fix x assume "x \<in> {map dp_id es |es. es \<noteq> [] \<and> length es \<le> n \<and> geodesic ?E s t es \<and> walk s es t}"
      then obtain es where es: "x = map dp_id es" "es \<noteq> []" "length es \<le> n" "geodesic ?E s t es" "walk s es t" by blast
      then have "length es = Suc (length es - 1)" "length es - 1 < n" by (cases es; simp)+
      then show "x \<in> (\<Union>j<n. {map dp_id es |es. length es = Suc j \<and> geodesic ?E s t es \<and> walk s es t})"
        using es by (intro UN_I [of "length es - 1"]) blast+
    next
      fix x assume "x \<in> (\<Union>j<n. {map dp_id es |es. length es = Suc j \<and> geodesic ?E s t es \<and> walk s es t})"
      then obtain j es where es: "j < n" "x = map dp_id es" "length es = Suc j" "geodesic ?E s t es" "walk s es t" by blast
      then have "es \<noteq> []" "length es \<le> n" by auto
      then show "x \<in> {map dp_id es |es. es \<noteq> [] \<and> length es \<le> n \<and> geodesic ?E s t es \<and> walk s es t}" using es by blast
    qed
    finally show "set found = {map dp_id es |es. es \<noteq> [] \<and> length es \<le> n \<and> geodesic ?E s t es \<and> walk s es t}" .
  qed (use fin in \<open>unfold paths_done_def, blast+\<close>)
  have steps: "map dp_id (steps_of known x) = x" "set (steps_of known x) \<subseteq> ?E" if "x \<in> set found" for x
  proof -
    have "set x \<subseteq> dp_id ` set known" using ids that by blast
    then show "map dp_id (steps_of known x) = x" "set (steps_of known x) \<subseteq> ?E" using steps_of_ids known by blast+
  qed
  have set: "set (trail_order known found) = set found" by (simp add: trail_order_def)
  have each: "geodesic ?E s t (pa_steps p) \<and> walk s (pa_steps p) t \<and> pa_steps p \<noteq> [] \<and> pa_hops p = length (pa_steps p) \<and> pa_hops p \<le> n"
    if mem: "p \<in> set ?records" for p
  proof -
    obtain x where x: "x \<in> set found" "p = path_record_of env known x" using mem set by auto
    obtain es where es: "x = map dp_id es" "es \<noteq> []" "length es \<le> n" "geodesic ?E s t es" "walk s es t" using x(1) found by blast
    let ?ds = "steps_of known x"
    have ds: "map dp_id ?ds = map dp_id es" "set ?ds \<subseteq> ?E" using steps [OF x(1)] es(1) by auto
    have "set es \<subseteq> ?E" using es(4) by (simp add: geodesic_def)
    note same = same_ids_path [OF names refl ds this]
    have "length ?ds = length es" using ds(1) by (rule map_eq_imp_length_eq)
    then show ?thesis using same same_ids_geodesic [of ?ds es ?E s t] ds(2) es x(2) by (auto simp: path_record_of_def)
  qed
  have all: "{map dp_id es |es. geodesic ?E s t es \<and> walk s es t \<and> length es \<le> n} \<subseteq> (\<lambda>p. map dp_id (pa_steps p)) ` set ?records"
  proof
    fix x assume "x \<in> {map dp_id es |es. geodesic ?E s t es \<and> walk s es t \<and> length es \<le> n}"
    moreover have "es \<noteq> []" if "walk s es t" for es using that st by auto
    ultimately have x: "x \<in> set found" unfolding found by blast
    then have "map dp_id (pa_steps (path_record_of env known x)) = x" using steps(1) by (simp add: path_record_of_def)
    then show "x \<in> (\<lambda>p. map dp_id (pa_steps p)) ` set ?records" using x set by force
  qed
  have "map (\<lambda>p. map dp_id (pa_steps p)) ?records = map (\<lambda>x. x) (trail_order known found)"
    unfolding map_map using steps(1) set by (intro map_cong) (auto simp: path_record_of_def)
  then have dist': "distinct (map (\<lambda>p. map dp_id (pa_steps p)) ?records)" using dist by (simp add: trail_order_def)
  have "sorted (map length (trail_order known found))"
    unfolding trail_order_def by (rule sorted_fst [OF sorted_sort_key]) simp
  then have "sorted (map pa_hops ?records)" by (simp add: comp_def path_record_of_def)
  then show ?thesis unfolding paths_ok_def Let_def list_all_iff using each all dist' by (intro conjI ballI) blast+
qed

text \<open>The search of a client whose caches are true.\<close>

lemma all_paths_result:
  assumes run: "all_paths env from_id to_id max_hops st = (Inr records, st')"
    and ok: "client_ok env st" and names: "plain_names env"
  shows "\<exists>s t. qualified_name_from_object_id from_id = Some s \<and> qualified_name_from_object_id to_id = Some t \<and>
    record_of env s \<noteq> None \<and> record_of env t \<noteq> None \<and>
    (if s = t then records = [] else paths_ok env s t (bounded_hops env max_hops) records) \<and> client_ok env st'"
proof -
  from run obtain a st1 b st2 where a: "require_object env from_id st = (Inr a, st1)" and b: "require_object env to_id st1 = (Inr b, st2)"
    and rest: "(if ob_qualified a = ob_qualified b then act_return []
       else act_bind (file_map env) (\<lambda>m.
         act_bind (path_rounds env m (ob_qualified b) (bounded_hops env max_hops) [] [] [(ob_qualified a, [], [ob_qualified a])]) (\<lambda>(known, found).
         act_return (map (path_record_of env known) (trail_order known found))))) st2 = (Inr records, st')"
    unfolding all_paths_def by (elim act_bindE) blast
  let ?s = "ob_qualified a" let ?t = "ob_qualified b"
  note a' = require_object_ok [OF a ok]
  then have b': "qualified_name_from_object_id to_id = Some ?t" "record_of env ?t = Some b" and st2: "client_ok env st2"
    using require_object_ok [OF b] by blast+
  show ?thesis
  proof (cases "?s = ?t")
    case True
    then have "records = []" "st' = st2" using rest by (simp_all add: act_return_def)
    then have "(if ?s = ?t then records = [] else paths_ok env ?s ?t (bounded_hops env max_hops) records) \<and> client_ok env st'"
      unfolding if_P [OF True] using st2 by blast
    moreover have "record_of env ?s \<noteq> None" "record_of env ?t \<noteq> None" using a' b'(2) by (metis option.distinct(1))+
    ultimately show ?thesis using a' b'(1) by blast
  next
    case False
    from rest obtain m st3 where m: "file_map env st2 = (Inr m, st3)"
      and rest2: "act_bind (path_rounds env m ?t (bounded_hops env max_hops) [] [] [(?s, [], [?s])]) (\<lambda>(known, found).
         act_return (map (path_record_of env known) (trail_order known found))) st3 = (Inr records, st')"
      unfolding if_not_P [OF False] by (rule act_bindE)
    then obtain known found st4 where p: "path_rounds env m ?t (bounded_hops env max_hops) [] [] [(?s, [], [?s])] st3 = (Inr (known, found), st4)"
        "records = map (path_record_of env known) (trail_order known found)" "st' = st4"
      by (auto simp: act_return_def elim!: act_bindE)
    have m': "m = file_paths env" and st3: "client_ok env st3"
      using file_map_only_files [OF m] st2 only_files_ok [of env st2 st3] by (simp_all add: client_ok_def)
    have "paths_inv (graph_edges env path_relationships) ?s ?t 0 [] [] [(?s, [], [?s])]" by (simp add: paths_inv_def)
    from path_rounds_result [OF names refl False p(1) [unfolded m'] this]
    have fin: "paths_done (graph_edges env path_relationships) ?s ?t (bounded_hops env max_hops) known found"
      and q: "\<exists>q. st4 = st3\<lparr>cs_queries := q\<rparr>" by simp_all
    have "client_ok env st4" using q st3 by (auto simp: client_ok_def files_cached_def)
    moreover have "paths_ok env ?s ?t (bounded_hops env max_hops) records"
      unfolding p(2) using paths_records [OF names False fin] .
    ultimately have "(if ?s = ?t then records = [] else paths_ok env ?s ?t (bounded_hops env max_hops) records) \<and> client_ok env st'"
      unfolding if_not_P [OF False] p(3) by blast
    moreover have "record_of env ?s \<noteq> None" "record_of env ?t \<noteq> None" using a' b'(2) by (metis option.distinct(1))+
    ultimately show ?thesis using a' b'(1) by blast
  qed
qed

end
