(* ===== verification/Plsql_Properties.thy ===== *)
theory Plsql_Properties
  imports Plsql_Paths
begin

text \<open>
  What the traversals of the analysis client guarantee, with a small graph of two procedures that call
  each other and the table that one of them writes.
\<close>

section \<open>A graph\<close>

definition no_coordinates :: coordinates where
  "no_coordinates = \<lparr>co_file = None, co_line = None, co_column = None, co_start = None, co_end = None\<rparr>"

definition sample_node :: "string \<Rightarrow> nat \<Rightarrow> db_node" where
  "sample_node label c = \<lparr>dn_labels = [label], dn_project = Some [112], dn_name = Some [c],
     dn_qualified = Some [65, 46, c], dn_coordinates = no_coordinates\<rparr>"

definition sample_edge :: "string \<Rightarrow> nat \<Rightarrow> nat \<Rightarrow> db_edge" where
  "sample_edge t i j = \<lparr>de_source = i, de_target = j, de_type = t, de_resolution = None,
     de_coordinates = no_coordinates, de_derived = None, de_events = None, de_evidence_kind = None,
     de_via_table = None\<rparr>"

definition sample_graph :: db_graph where
  "sample_graph = \<lparr>dg_nodes = [sample_node ''Procedure'' 80, sample_node ''Procedure'' 81, sample_node ''Table'' 84],
     dg_edges = [sample_edge ''CALLS'' 0 1, sample_edge ''CALLS'' 1 0, sample_edge ''WRITES'' 1 2],
     dg_files = [], dg_declarations = []\<rparr>"

definition sample_client :: plsql_env where
  "sample_client = \<lparr>pe_graph = sample_graph, pe_fault = (\<lambda>_. None), pe_lower = (\<lambda>s. s), pe_casefold = (\<lambda>s. s),
     pe_digit = (\<lambda>_. None), pe_sha1 = (\<lambda>s. s), pe_now = int, pe_project = [112], pe_max_rows = 50, pe_max_hops = 4,
     pe_max_traversal_edges = 20, pe_source_root = None, pe_max_source_bytes = 1000, pe_cache_ttl = 60,
     pe_cache_max = 2\<rparr>"

definition table_id :: ustring where
  "table_id = object_id [112] [65, 46, 84]"

section \<open>Impact\<close>

definition succeeds :: "plsql_error + 'a \<Rightarrow> bool" where
  "succeeds r \<longleftrightarrow> (case r of Inl _ \<Rightarrow> False | Inr _ \<Rightarrow> True)"

definition relationships_or_all :: "relationship list option \<Rightarrow> relationship list" where
  "relationships_or_all rels = (case rels of None \<Rightarrow> path_relationships | Some rs \<Rightarrow> rs)"

lemma record_plain: "plain_names env \<Longrightarrow> record_of env q = Some r \<Longrightarrow> plain_name q"
proof -
  assume names: "plain_names env" and "record_of env q = Some r"
  then have "nodes_named env q \<noteq> []" by (auto simp: record_of_def first_of_def List.map_filter_def)
  then obtain n where "n \<in> set (nodes_named env q)" by (cases "nodes_named env q") auto
  then have "n \<in> set (dg_nodes (pe_graph env))" "dn_qualified n = Some q" by (auto simp: nodes_named_def synonym_last_def)
  then show ?thesis using names by (auto simp: plain_names_def list_all_iff split: option.splits)
qed

lemma impact_of_result:
  assumes run: "impact_of env i max_hops limit d rels offset st = (Inr (page, summary), st')"
    and ok: "caches_ok env st" and names: "plain_names env"
  obtains changed items where "qualified_name_from_object_id i = Some (ob_qualified changed)"
    "record_of env (ob_qualified changed) = Some changed"
    "impact_ok env changed (bounded_hops env max_hops) d (relationships_or_all rels) items summary"
    "page = result_page (nat (max 0 offset)) (bounded_limit env limit) items" "caches_ok env st'"
proof -
  from run obtain changed st1 items where r: "require_object env i st = (Inr changed, st1)"
      "impact_traversal env changed (bounded_hops env max_hops) d (relationships_or_all rels) st1 = (Inr (items, summary), st')"
      "page = result_page (nat (max 0 offset)) (bounded_limit env limit) items"
    unfolding impact_of_def relationships_or_all_def [symmetric]
    by (auto simp: act_return_def elim!: act_bindE)
  from require_object_ok [OF r(1)] ok
  have o: "qualified_name_from_object_id i = Some (ob_qualified changed)"
      "record_of env (ob_qualified changed) = Some changed" "caches_ok env st1"
    by (simp_all add: caches_ok_def)
  have "ob_id changed = object_id (pe_project env) (ob_qualified changed)" using record_of_name [OF o(2)] by simp
  then have decoded: "qualified_name_from_object_id (ob_id changed) = Some (ob_qualified changed)"
    using record_plain [OF names o(2)] by (simp add: object_id_decodes plain_name_def)
  from impact_traversal_result [OF r(2) o(3) names decoded o(2)] show thesis using that o(1,2) r(3) by blast
qed

text \<open>
  C25. The impact of a change is exact. A request that answers lists a page of the dependents of the
  object it names. Each dependent is not the object itself; its distance is the length of a shortest
  walk over the edges of the asked types from the object, or from the members of a package, and at
  most the bounded number of hops; it has one to five paths, each of that many edges of the graph
  that lead to an anchor. No object that can be resolved and is within the hops is missing, none is
  listed twice, nearer ones come first, and the summary counts the direct and the indirect ones. This
  holds for answers from the cache, too, and the caches stay true.
\<close>

theorem impact_exact:
  assumes "impact_of env i max_hops limit d rels offset st = (Inr (page, summary), st')"
    "caches_ok env st" "plain_names env"
  shows "\<exists>changed items.
    qualified_name_from_object_id i = Some (ob_qualified changed) \<and> record_of env (ob_qualified changed) = Some changed \<and>
    impact_ok env changed (bounded_hops env max_hops) d (relationships_or_all rels) items summary \<and>
    page = result_page (nat (max 0 offset)) (bounded_limit env limit) items \<and> caches_ok env st'"
  using impact_of_result [OF assms] by metis

lemma sample_plain: "plain_names sample_client"
  by (simp add: plain_names_def sample_client_def sample_graph_def sample_node_def sample_edge_def plain_name_def scalar_def)

lemma fresh_caches: "caches_ok env fresh_client"
  by (simp add: caches_ok_def client_ok_def files_cached_def fresh_client_def)

lemma sample_impact: "\<exists>page summary st'.
    impact_of sample_client table_id 3 10 Upstream None 0 fresh_client = (Inr (page, summary), st')"
proof -
  have "succeeds (fst (impact_of sample_client table_id 3 10 Upstream None 0 fresh_client))" by code_simp
  then show ?thesis
    by (cases "impact_of sample_client table_id 3 10 Upstream None 0 fresh_client") (auto simp: succeeds_def split: sum.splits)
qed

lemma impact_exact_witness:
  "\<exists>page summary st' changed items.
    impact_of sample_client table_id 3 10 Upstream None 0 fresh_client = (Inr (page, summary), st') \<and>
    impact_ok sample_client changed (bounded_hops sample_client 3) Upstream (relationships_or_all None) items summary \<and>
    page = result_page (nat (max 0 0)) (bounded_limit sample_client 10) items"
  using sample_impact impact_exact [OF _ fresh_caches sample_plain] by meson

text \<open>
  C26. The reconstruction of routes ends. The generator follows the parents of an object back without
  bound; after the rounds of a traversal, whatever the cycles of the graph, it returns for every
  object reached, with recursion no deeper than the number of hops.
\<close>

theorem routes_end:
  assumes "impact_rounds env (file_paths env) d rels hops 1 (impact_start anchors) st = (Inr fin, st')" "plain_names env"
  shows "\<exists>trails. trails_by_dependent d anchors changed hops fin = Some trails"
proof -
  have "impact_rounds env (file_paths env) d rels hops (Suc 0) (impact_start anchors) st = (Inr fin, st')" using assms(1) by simp
  from impact_rounds_result [OF assms(2) refl this impact_start_inv]
  have "impact_done (graph_edges env rels) d (set anchors) hops fin" by simp
  then show ?thesis using trails_result by metis
qed

lemma sample_rounds: "\<exists>fin st'.
    impact_rounds sample_client (file_paths sample_client) Upstream path_relationships 4 1 (impact_start [[65, 46, 84]]) fresh_client
      = (Inr fin, st')"
proof -
  let ?r = "impact_rounds sample_client (file_paths sample_client) Upstream path_relationships 4 1 (impact_start [[65, 46, 84]]) fresh_client"
  have "succeeds (fst ?r)" by code_simp
  then show ?thesis by (cases ?r) (auto simp: succeeds_def split: sum.splits)
qed

lemma routes_end_witness:
  "\<exists>fin st' trails.
    impact_rounds sample_client (file_paths sample_client) Upstream path_relationships 4 1 (impact_start [[65, 46, 84]]) fresh_client
      = (Inr fin, st') \<and>
    trails_by_dependent Upstream [[65, 46, 84]] [65, 46, 84] 4 fin = Some trails"
  using sample_rounds routes_end [OF _ sample_plain] by meson

section \<open>Paths\<close>

lemma paths_ok_shortest:
  assumes "paths_ok env s t hops records" "s \<noteq> t"
  shows "{length es |es. set es \<subseteq> graph_edges env path_relationships \<and> walk s es t \<and> length es \<le> hops} \<subseteq>
    {n. \<exists>p\<in>set records. pa_hops p \<le> n}"
proof
  let ?E = "graph_edges env path_relationships"
  fix n assume "n \<in> {length es |es. set es \<subseteq> ?E \<and> walk s es t \<and> length es \<le> hops}"
  then obtain es where es: "n = length es" "set es \<subseteq> ?E" "walk s es t" "length es \<le> hops" by blast
  obtain ds where ds: "geodesic ?E s t ds" "walk s ds t" "length ds \<le> length es" using walk_geodesic [OF assms(2) es(3,2)] by blast
  have listed: "{map dp_id es |es. geodesic ?E s t es \<and> walk s es t \<and> length es \<le> hops} \<subseteq> (\<lambda>p. map dp_id (pa_steps p)) ` set records"
    and hops: "\<forall>p\<in>set records. pa_hops p = length (pa_steps p)"
    using assms(1) unfolding paths_ok_def Let_def list_all_iff by blast+
  have "length ds \<le> hops" using ds(3) es(4) by simp
  then have "map dp_id ds \<in> (\<lambda>p. map dp_id (pa_steps p)) ` set records" using ds(1,2) listed by blast
  then obtain p where p: "p \<in> set records" "map dp_id ds = map dp_id (pa_steps p)" by blast
  have "pa_hops p = length ds" using hops p(1) map_eq_imp_length_eq [OF p(2)] by simp
  then show "n \<in> {n. \<exists>p\<in>set records. pa_hops p \<le> n}" using p(1) ds(3) unfolding es(1) mem_Collect_eq by (metis (no_types))
qed

text \<open>
  C27. The path search is exact, and finds the shortest paths. A request that answers lists a page of
  paths over the edges of the graph from the one object to the other, without duplicates and shorter
  ones first. The paths are those of at most the bounded number of hops whose objects before the
  target stand at their shortest distance from the source; whenever a walk within the hops leads to
  the target, a path at most as long is listed. (Longer simple paths through an object that was
  reached earlier on another way are not listed.)
\<close>

theorem paths_exact:
  assumes "find_paths env from_id to_id max_hops limit offset st = (Inr page, st')" "client_ok env st" "plain_names env"
  shows "\<exists>s t records. qualified_name_from_object_id from_id = Some s \<and> qualified_name_from_object_id to_id = Some t \<and>
    page = result_page (nat (max 0 offset)) (bounded_limit env limit) records \<and>
    (if s = t then records = []
     else paths_ok env s t (bounded_hops env max_hops) records \<and>
       {length es |es. set es \<subseteq> graph_edges env path_relationships \<and> walk s es t \<and> length es \<le> bounded_hops env max_hops}
         \<subseteq> {n. \<exists>p\<in>set records. pa_hops p \<le> n})"
proof -
  from assms(1) obtain records st1 where r: "all_paths env from_id to_id max_hops st = (Inr records, st1)"
      "page = result_page (nat (max 0 offset)) (bounded_limit env limit) records"
    by (auto simp: find_paths_def act_return_def elim!: act_bindE)
  from all_paths_result [OF r(1) assms(2,3)] obtain s t where
      st: "qualified_name_from_object_id from_id = Some s" "qualified_name_from_object_id to_id = Some t"
      "if s = t then records = [] else paths_ok env s t (bounded_hops env max_hops) records" by blast
  have "if s = t then records = []
     else paths_ok env s t (bounded_hops env max_hops) records \<and>
       {length es |es. set es \<subseteq> graph_edges env path_relationships \<and> walk s es t \<and> length es \<le> bounded_hops env max_hops}
         \<subseteq> {n. \<exists>p\<in>set records. pa_hops p \<le> n}"
  proof (cases "s = t")
    case True
    with st(3) show ?thesis unfolding if_P [OF True] by blast
  next
    case False
    have "paths_ok env s t (bounded_hops env max_hops) records" using st(3) unfolding if_not_P [OF False] .
    from this paths_ok_shortest [OF this False] show ?thesis unfolding if_not_P [OF False] ..
  qed
  then show ?thesis using st(1,2) r(2) by blast
qed

lemma sample_paths: "\<exists>page st'.
    find_paths sample_client (object_id [112] [65, 46, 80]) table_id 3 10 0 fresh_client = (Inr page, st')"
proof -
  let ?r = "find_paths sample_client (object_id [112] [65, 46, 80]) table_id 3 10 0 fresh_client"
  have "succeeds (fst ?r)" by code_simp
  then show ?thesis by (cases ?r) (auto simp: succeeds_def split: sum.splits)
qed

lemma fresh_client_ok: "client_ok sample_client fresh_client"
  using fresh_caches by (simp add: caches_ok_def)

lemma paths_exact_witness:
  "\<exists>page st' s t records. find_paths sample_client (object_id [112] [65, 46, 80]) table_id 3 10 0 fresh_client = (Inr page, st') \<and>
    qualified_name_from_object_id table_id = Some t \<and>
    page = result_page (nat (max 0 0)) (bounded_limit sample_client 10) records \<and>
    (if s = t then records = []
     else paths_ok sample_client s t (bounded_hops sample_client 3) records \<and>
       {length es |es. set es \<subseteq> graph_edges sample_client path_relationships \<and> walk s es t \<and> length es \<le> bounded_hops sample_client 3}
         \<subseteq> {n. \<exists>p\<in>set records. pa_hops p \<le> n})"
  using sample_paths paths_exact [OF _ fresh_client_ok sample_plain] by meson

text \<open>
  A path that is lost: P calls Q and R, R calls Q, and Q writes T. Of the two paths from P to T only
  the one of two steps is listed, since the edge from Q is known when R reaches it.
\<close>

definition diamond_client :: plsql_env where
  "diamond_client = sample_client\<lparr>pe_graph :=
     \<lparr>dg_nodes = [sample_node ''Procedure'' 80, sample_node ''Procedure'' 81, sample_node ''Procedure'' 82, sample_node ''Table'' 84],
      dg_edges = [sample_edge ''CALLS'' 0 1, sample_edge ''CALLS'' 0 2, sample_edge ''CALLS'' 2 1, sample_edge ''WRITES'' 1 3],
      dg_files = [], dg_declarations = []\<rparr>\<rparr>"

lemma longer_path_lost:
  "map_sum (\<lambda>e. e) (\<lambda>p. map (\<lambda>x. map source_name (pa_steps x)) (pg_items p))
     (fst (find_paths diamond_client (object_id [112] [65, 46, 80]) table_id 4 10 0 fresh_client)) = Inr [[[65, 46, 80], [65, 46, 81]]]"
  by code_simp

section \<open>Source files\<close>

text \<open>
  Source files stay inside the root. Whatever path a file has in the graph and whatever links the
  file system resolves, the lines that are served were read from a file below the configured root, and
  no larger than the cap.
\<close>

theorem source_confined:
  assumes "file_source env file_id start stop st = (Inr (Some r), st')"
  shows "\<exists>fs resolved bytes. pe_source_root env = Some fs \<and> take (length (sf_root fs)) resolved = sf_root fs \<and>
    sf_resolve fs (path_parts (sr_path r)) = Some resolved \<and> sf_lines fs resolved = Some (sr_lines r) \<and>
    sf_size fs resolved = Some bytes \<and> bytes \<le> max 1 (pe_max_source_bytes env) \<and> sr_file r = file_id"
proof -
  from assms obtain q where q: "load_source env file_id q start stop = Inr r"
    by (auto simp: file_source_def act_return_def act_lift_def elim!: act_bindE split: option.splits)
  then have "sr_path r = q" "sr_file r = file_id"
    by (auto simp: load_source_def split: option.splits sum.splits)
  then show ?thesis using load_source_confined [OF q] by auto
qed

definition file_client :: plsql_env where
  "file_client = sample_client\<lparr>pe_source_root := Some \<lparr>sf_root = [[114]], sf_resolve = (\<lambda>p. Some ([114] # p)),
     sf_size = (\<lambda>_. Some 3), sf_lines = (\<lambda>_. Some [[120]])\<rparr>\<rparr>"

lemma sample_source:
  "\<exists>r st'. file_source file_client (ascii ''file://p/a'') None None fresh_client = (Inr (Some r), st')"
proof -
  let ?r = "file_source file_client (ascii ''file://p/a'') None None fresh_client"
  have "case fst ?r of Inr (Some _) \<Rightarrow> True | _ \<Rightarrow> False" by code_simp
  then show ?thesis by (cases ?r) (auto split: sum.splits option.splits)
qed

lemma source_confined_witness:
  "\<exists>r st' fs resolved. file_source file_client (ascii ''file://p/a'') None None fresh_client = (Inr (Some r), st') \<and>
    pe_source_root file_client = Some fs \<and> take (length (sf_root fs)) resolved = sf_root fs"
  using sample_source source_confined by meson

end
