(* ===== verification/Synthetic_Properties.thy ===== *)
theory Synthetic_Properties
  imports Plsql_Synthetic Plsql_Properties
begin

text \<open>
  What the synthetic client's searches return, against walks over the edges of its corpus: all simple paths
  between two objects, and the dependents of an object at their shortest distances with every shortest path.
\<close>

section \<open>Walks\<close>

text \<open>The edges lead from one object to another, against their direction for the impact upstream.\<close>

fun leads_to :: "direction \<Rightarrow> ustring \<Rightarrow> dependency list \<Rightarrow> ustring \<Rightarrow> bool" where
  "leads_to d s [] v \<longleftrightarrow> s = v"
| "leads_to d s (e # es) v \<longleftrightarrow> near_id d e = s \<and> leads_to d (far_id d e) es v"

definition corpus_edges :: "synthetic_client \<Rightarrow> relationship list \<Rightarrow> dependency set" where
  "corpus_edges sc rels = {e \<in> set (sy_edges sc). usable_edge sc rels e}"

text \<open>No object is passed twice.\<close>

definition simple_from :: "direction \<Rightarrow> ustring \<Rightarrow> dependency list \<Rightarrow> bool" where
  "simple_from d s es \<longleftrightarrow> distinct (s # map (far_id d) es)"

definition own_ids :: "synthetic_client \<Rightarrow> bool" where
  "own_ids sc \<longleftrightarrow> distinct (map dp_id (sy_edges sc))"

lemma leads_append: "leads_to d s (ds @ es) v \<longleftrightarrow> (\<exists>u. leads_to d s ds u \<and> leads_to d u es v)"
  by (induction ds arbitrary: s) auto

lemma leads_last: "leads_to d s es v \<Longrightarrow> last (s # map (far_id d) es) = v"
  by (induction es arbitrary: s) auto

lemma set_adjacency: "set (adjacency sc rels d s) = {e \<in> corpus_edges sc rels. near_id d e = s}"
  by (auto simp: adjacency_def corpus_edges_def)

lemma distinct_map_outer: "distinct (map f xs) \<Longrightarrow> distinct xs"
  by (simp add: distinct_map)

lemma edge_by_key_own: "own_ids sc \<Longrightarrow> e \<in> set (sy_edges sc) \<Longrightarrow> edge_by_key sc (dp_id e) = Some e"
  unfolding own_ids_def edge_by_key_def
  by (rule map_of_is_SomeI) (auto simp: distinct_map rev_map comp_def)

lemma trail_steps_own: "own_ids sc \<Longrightarrow> set es \<subseteq> set (sy_edges sc) \<Longrightarrow> trail_steps sc (map dp_id es) = es"
  by (induction es) (simp_all add: trail_steps_def List.map_filter_def edge_by_key_own)

lemma corpus_edges_sub: "corpus_edges sc rels \<subseteq> set (sy_edges sc)"
  by (auto simp: corpus_edges_def)

text \<open>A walk that is not simple can be shortened.\<close>

lemma simple_or_shorter:
  "leads_to d s es v \<Longrightarrow> simple_from d s es \<or> (\<exists>ds. leads_to d s ds v \<and> length ds < length es \<and> set ds \<subseteq> set es)"
proof (induction es arbitrary: s)
  case Nil
  then show ?case by (simp add: simple_from_def)
next
  case (Cons e es)
  then have e: "near_id d e = s" "leads_to d (far_id d e) es v" by simp_all
  from Cons.IH [OF e(2)] show ?case
  proof
    assume simple: "simple_from d (far_id d e) es"
    show ?thesis
    proof (cases "s \<in> set (map (far_id d) (e # es))")
      case True
      then obtain xs x ys where split: "e # es = xs @ x # ys" "far_id d x = s" by (metis (no_types, lifting) imageE set_map split_list)
      have "leads_to d s ys v" using Cons.prems split by (simp add: leads_append)
      moreover have "length ys < length (e # es)" "set ys \<subseteq> set (e # es)" unfolding split by auto
      ultimately show ?thesis by blast
    qed (use simple in \<open>simp add: simple_from_def\<close>)
  next
    assume "\<exists>ds. leads_to d (far_id d e) ds v \<and> length ds < length es \<and> set ds \<subseteq> set es"
    then obtain ds where "leads_to d (far_id d e) ds v" "length ds < length es" "set ds \<subseteq> set es" by blast
    then have "leads_to d s (e # ds) v \<and> length (e # ds) < length (e # es) \<and> set (e # ds) \<subseteq> set (e # es)" using e by auto
    then show ?thesis by blast
  qed
qed

section \<open>Paths\<close>

definition simple_paths :: "synthetic_client \<Rightarrow> ustring \<Rightarrow> ustring \<Rightarrow> nat \<Rightarrow> dependency list set" where
  "simple_paths sc s t hops =
     {es. es \<noteq> [] \<and> set es \<subseteq> corpus_edges sc path_relationships \<and> leads_to Downstream s es t \<and>
       simple_from Downstream s es \<and> length es \<le> hops}"

definition continuations :: "synthetic_client \<Rightarrow> ustring \<Rightarrow> ustring \<Rightarrow> nat \<Rightarrow> ustring \<Rightarrow> dependency list \<Rightarrow> dependency list set" where
  "continuations sc s t n cur pre =
     {es. set es \<subseteq> corpus_edges sc path_relationships \<and> leads_to Downstream cur es t \<and>
       simple_from Downstream s (pre @ es) \<and> length es \<le> n \<and> pre @ es \<noteq> []}"

lemma downstream_ids [simp]: "near_id Downstream e = source_id e" "far_id Downstream e = target_id e"
  by (simp_all add: near_id_def far_id_def)

lemma continuations_target:
  assumes "leads_to Downstream s pre t" "simple_from Downstream s pre"
  shows "continuations sc s t n t pre = (if pre = [] then {} else {[]})"
proof -
  have "es = []" if "leads_to Downstream t es t" "simple_from Downstream s (pre @ es)" for es
  proof (rule ccontr)
    assume "es \<noteq> []"
    then have "t \<in> set (map target_id es)" using leads_last [OF that(1)] by (metis (no_types, lifting) downstream_ids(2) last.simps last_in_set list.map_disc_iff map_eq_conv)
    moreover have "t \<in> set (s # map target_id pre)" using leads_last [OF assms(1)] by (metis (no_types, lifting) downstream_ids(2) last_in_set list.distinct(1) map_eq_conv)
    ultimately show False using that(2) by (auto simp: simple_from_def)
  qed
  then show ?thesis using assms(2) by (auto simp: continuations_def)
qed

lemma walk_trails_set:
  assumes own: "own_ids sc"
  shows "leads_to Downstream s pre cur \<Longrightarrow> simple_from Downstream s pre \<Longrightarrow> set pre \<subseteq> corpus_edges sc path_relationships \<Longrightarrow>
    set (walk_trails sc s t n cur (map dp_id pre)) = (\<lambda>es. map dp_id (pre @ es)) ` continuations sc s t n cur pre"
proof (induction n arbitrary: cur pre)
  case 0
  show ?case
  proof (cases "cur = t")
    case True
    then show ?thesis using continuations_target [OF 0(1) [unfolded True] 0(2)] by auto
  next
    case False
    then show ?thesis by (auto simp: continuations_def)
  qed
next
  case (Suc n)
  show ?case
  proof (cases "cur = t")
    case True
    then show ?thesis using continuations_target [OF Suc.prems(1) [unfolded True] Suc.prems(2)] by auto
  next
    case False
    let ?G = "corpus_edges sc path_relationships"
    have steps: "trail_steps sc (map dp_id pre) = pre"
      using own Suc.prems(3) corpus_edges_sub by (intro trail_steps_own) blast+
    have each: "set (walk_trails sc s t n (target_id e) (map dp_id pre @ [dp_id e])) =
        (\<lambda>es. map dp_id (pre @ es)) ` ((#) e ` continuations sc s t n (target_id e) (pre @ [e]))"
      if e: "e \<in> ?G" "source_id e = cur" "target_id e \<notin> set (s # map target_id pre)" for e
    proof -
      have "leads_to Downstream s (pre @ [e]) (target_id e)" "simple_from Downstream s (pre @ [e])" "set (pre @ [e]) \<subseteq> ?G"
        using e Suc.prems by (auto simp: leads_append simple_from_def)
      from Suc.IH [OF this] show ?thesis by (simp add: image_image)
    qed
    have cont: "continuations sc s t (Suc n) cur pre =
        (\<Union>e\<in>{e \<in> ?G. source_id e = cur \<and> target_id e \<notin> set (s # map target_id pre)}. (#) e ` continuations sc s t n (target_id e) (pre @ [e]))"
      (is "?l = ?r")
    proof (intro set_eqI iffI)
      fix es assume es: "es \<in> ?l"
      then obtain e es' where es': "es = e # es'" using False by (cases es) (auto simp: continuations_def)
      have "e \<in> ?G" "source_id e = cur" "target_id e \<notin> set (s # map target_id pre)" "es' \<in> continuations sc s t n (target_id e) (pre @ [e])"
        using es unfolding es' continuations_def simple_from_def by auto
      then show "es \<in> ?r" using es' by blast
    next
      fix es assume "es \<in> ?r"
      then obtain e es' where e: "e \<in> ?G" "source_id e = cur" "es = e # es'" "es' \<in> continuations sc s t n (target_id e) (pre @ [e])" by blast
      then show "es \<in> ?l" unfolding continuations_def by simp
    qed
    have "set (walk_trails sc s t (Suc n) cur (map dp_id pre)) =
        (\<Union>e\<in>{e \<in> ?G. source_id e = cur \<and> target_id e \<notin> set (s # map target_id pre)}.
          set (walk_trails sc s t n (target_id e) (map dp_id pre @ [dp_id e])))"
      using False by (auto simp: steps set_adjacency Let_def split: if_splits)
    also have "\<dots> = (\<lambda>es. map dp_id (pre @ es)) ` ?l" unfolding cont using each by (simp add: image_UN)
    finally show ?thesis .
  qed
qed

lemma all_trails_set:
  assumes "own_ids sc"
  shows "set (all_trails sc s t hops) = map dp_id ` simple_paths sc s t hops"
proof -
  have "continuations sc s t hops s [] = simple_paths sc s t hops"
    by (auto simp: continuations_def simple_paths_def)
  then show ?thesis
    using walk_trails_set [OF assms, of s "[]" s t hops] by (simp add: all_trails_def simple_from_def)
qed

lemma synthetic_path_own:
  "own_ids sc \<Longrightarrow> set es \<subseteq> corpus_edges sc rels \<Longrightarrow>
     synthetic_path env sc (map dp_id es) = \<lparr>pa_id = path_id env (map dp_id es), pa_steps = es, pa_hops = length es\<rparr>"
  using trail_steps_own [of sc es] corpus_edges_sub [of sc rels] by (simp add: synthetic_path_def)

text \<open>The paths of a search, in the order of their lengths.\<close>

definition found_paths :: "plsql_env \<Rightarrow> synthetic_client \<Rightarrow> ustring \<Rightarrow> ustring \<Rightarrow> int \<Rightarrow> path_record list" where
  "found_paths env sc s t max_hops = map (synthetic_path env sc) (all_trails sc s t (nat (max 1 max_hops)))"

lemma found_paths_exact:
  assumes own: "own_ids sc"
  shows "pa_steps ` set (found_paths env sc s t max_hops) = simple_paths sc s t (nat (max 1 max_hops)) \<and>
    distinct (map pa_steps (found_paths env sc s t max_hops)) \<and> sorted (map pa_hops (found_paths env sc s t max_hops)) \<and>
    (\<forall>p\<in>set (found_paths env sc s t max_hops). pa_hops p = length (pa_steps p))"
proof -
  let ?hops = "nat (max 1 max_hops)"
  note set = all_trails_set [OF own, of s t ?hops]
  have rec: "synthetic_path env sc (map dp_id es) = \<lparr>pa_id = path_id env (map dp_id es), pa_steps = es, pa_hops = length es\<rparr>"
    if "es \<in> simple_paths sc s t ?hops" for es
    using that by (intro synthetic_path_own [OF own, where rels = path_relationships]) (simp add: simple_paths_def)
  have each: "pa_steps ` set (found_paths env sc s t max_hops) = simple_paths sc s t ?hops"
    unfolding found_paths_def set_map set image_image using rec by (auto simp: image_def)
  have ids: "map dp_id (pa_steps (synthetic_path env sc x)) = x \<and> pa_hops (synthetic_path env sc x) = length x"
    if "x \<in> set (all_trails sc s t ?hops)" for x
    using that rec unfolding set by auto
  have "map (map dp_id \<circ> pa_steps \<circ> synthetic_path env sc) (all_trails sc s t ?hops) = map (\<lambda>x. x) (all_trails sc s t ?hops)"
    using ids by (intro map_cong) simp_all
  moreover have "distinct (all_trails sc s t ?hops)" by (simp add: all_trails_def)
  ultimately have "distinct (map (map dp_id) (map pa_steps (found_paths env sc s t max_hops)))"
    unfolding found_paths_def by (simp add: comp_assoc)
  then have "distinct (map pa_steps (found_paths env sc s t max_hops))" by (rule distinct_map_outer)
  moreover have "map pa_hops (found_paths env sc s t max_hops) = map length (all_trails sc s t ?hops)"
    unfolding found_paths_def using ids by simp
  moreover have "sorted (map length (all_trails sc s t ?hops))"
    unfolding all_trails_def by (rule sorted_fst [OF sorted_sort_key]) simp
  moreover have "\<forall>p\<in>set (found_paths env sc s t max_hops). pa_hops p = length (pa_steps p)"
    unfolding found_paths_def using rec set by auto
  ultimately show ?thesis using each by simp
qed

section \<open>Impact\<close>

definition simple_chains :: "synthetic_client \<Rightarrow> relationship list \<Rightarrow> direction \<Rightarrow> nat \<Rightarrow> ustring \<Rightarrow> ustring list \<Rightarrow> (ustring \<times> dependency list) set" where
  "simple_chains sc rels d n cur seen =
     {(v, es). es \<noteq> [] \<and> set es \<subseteq> corpus_edges sc rels \<and> leads_to d cur es v \<and> distinct (map (far_id d) es) \<and>
        set (map (far_id d) es) \<inter> set seen = {} \<and> length es \<le> n}"

lemma visit_trails_set:
  "set (visit_trails sc rels d n cur seen pre) =
     (\<lambda>(v, es). (v, forward_trail d (pre @ es))) ` simple_chains sc rels d n cur seen"
proof (induction n arbitrary: cur seen pre)
  case 0
  show ?case by (auto simp: simple_chains_def)
next
  case (Suc n)
  let ?G = "corpus_edges sc rels"
  let ?E = "{e \<in> ?G. near_id d e = cur \<and> far_id d e \<notin> set seen}"
  have chains: "simple_chains sc rels d (Suc n) cur seen =
      (\<Union>e\<in>?E. insert (far_id d e, [e]) ((\<lambda>(v, es). (v, e # es)) ` simple_chains sc rels d n (far_id d e) (far_id d e # seen)))"
    (is "?l = ?r")
  proof (intro set_eqI iffI)
    fix x assume x: "x \<in> ?l"
    then obtain v e es where ve: "x = (v, e # es)" by (cases x; cases "snd x") (auto simp: simple_chains_def)
    have e: "e \<in> ?E" using x unfolding ve simple_chains_def by auto
    show "x \<in> ?r"
    proof (cases "es = []")
      case True
      then show ?thesis using x e unfolding ve simple_chains_def by auto
    next
      case False
      then have "(v, es) \<in> simple_chains sc rels d n (far_id d e) (far_id d e # seen)"
        using x unfolding ve simple_chains_def by auto
      then show ?thesis using e unfolding ve by force
    qed
  next
    fix x assume "x \<in> ?r"
    then obtain e where e: "e \<in> ?E" "x = (far_id d e, [e]) \<or> (\<exists>v es. x = (v, e # es) \<and> (v, es) \<in> simple_chains sc rels d n (far_id d e) (far_id d e # seen))"
      by force
    from e(2) show "x \<in> ?l" using e(1) by (elim disjE exE) (auto simp: simple_chains_def)
  qed
  have each: "set ((far_id d e, forward_trail d (pre @ [e])) # visit_trails sc rels d n (far_id d e) (far_id d e # seen) (pre @ [e])) =
      (\<lambda>(v, es). (v, forward_trail d (pre @ es))) ` insert (far_id d e, [e]) ((\<lambda>(v, es). (v, e # es)) ` simple_chains sc rels d n (far_id d e) (far_id d e # seen))"
    for e
    by (simp add: Suc.IH image_image case_prod_beta)
  have "set (visit_trails sc rels d (Suc n) cur seen pre) =
      (\<Union>e\<in>?E. set ((far_id d e, forward_trail d (pre @ [e])) # visit_trails sc rels d n (far_id d e) (far_id d e # seen) (pre @ [e])))"
    by (auto simp: set_adjacency Let_def split: if_splits)
  also have "\<dots> = (\<lambda>(v, es). (v, forward_trail d (pre @ es))) ` ?l" unfolding chains each image_UN by (rule refl)
  finally show ?case .
qed

text \<open>The walks of one length that lead from another anchor to an object.\<close>

definition walks_to :: "synthetic_client \<Rightarrow> relationship list \<Rightarrow> direction \<Rightarrow> ustring set \<Rightarrow> ustring \<Rightarrow> nat \<Rightarrow> dependency list set" where
  "walks_to sc rels d A v n =
     {es. length es = n \<and> set es \<subseteq> corpus_edges sc rels \<and> (\<exists>a\<in>A. a \<noteq> v \<and> leads_to d a es v)}"

definition nearest_walks :: "synthetic_client \<Rightarrow> relationship list \<Rightarrow> direction \<Rightarrow> ustring set \<Rightarrow> ustring \<Rightarrow> nat \<Rightarrow> bool" where
  "nearest_walks sc rels d A v n \<longleftrightarrow> walks_to sc rels d A v n \<noteq> {} \<and> (\<forall>m<n. walks_to sc rels d A v m = {})"

definition chains_to :: "synthetic_client \<Rightarrow> ustring \<Rightarrow> nat \<Rightarrow> relationship list \<Rightarrow> direction \<Rightarrow> ustring \<Rightarrow> dependency list set" where
  "chains_to sc i hops rels d v =
     {es. es \<noteq> [] \<and> length es \<le> hops \<and> set es \<subseteq> corpus_edges sc rels \<and>
        (\<exists>a\<in>set (anchors_by_id sc i). leads_to d a es v \<and> simple_from d a es)}"

lemma visits_set:
  "set (impact_visits sc i hops rels d) = {(v, forward_trail d es) |v es. es \<in> chains_to sc i hops rels d v}"
proof -
  have "set (impact_visits sc i hops rels d) =
      (\<Union>a\<in>set (anchors_by_id sc i). (\<lambda>(v, es). (v, forward_trail d es)) ` simple_chains sc rels d hops a [a])"
    by (simp add: impact_visits_def visit_trails_set)
  also have "\<dots> = {(v, forward_trail d es) |v es. es \<in> chains_to sc i hops rels d v}"
    by (auto simp: simple_chains_def chains_to_def simple_from_def)
  finally show ?thesis .
qed

lemma simple_not_start: "leads_to d a es v \<Longrightarrow> simple_from d a es \<Longrightarrow> es \<noteq> [] \<Longrightarrow> a \<noteq> v"
  using leads_last [of d a es v] by (auto simp: simple_from_def) (metis (no_types, lifting) image_eqI last_in_set last_map)

lemma trails_of_set:
  "set (trails_of (impact_visits sc i hops rels d) v) = forward_trail d ` chains_to sc i hops rels d v"
proof -
  have "set (trails_of visits v) = {t. (v, t) \<in> set visits}" for visits by (force simp: trails_of_def)
  then show ?thesis by (auto simp: visits_set)
qed

lemma forward_length [simp]: "length (forward_trail d es) = length es"
  by (simp add: forward_trail_def)

lemma chains_walks: "es \<in> chains_to sc i hops rels d v \<Longrightarrow> es \<in> walks_to sc rels d (set (anchors_by_id sc i)) v (length es)"
  using simple_not_start by (fastforce simp: chains_to_def walks_to_def)

text \<open>Among the simple chains are all shortest walks.\<close>

lemma shortest_chains:
  assumes "nearest_walks sc rels d (set (anchors_by_id sc i)) v n" "n \<le> hops"
  shows "{es \<in> chains_to sc i hops rels d v. length es = n} = walks_to sc rels d (set (anchors_by_id sc i)) v n"
    and "\<forall>es\<in>chains_to sc i hops rels d v. n \<le> length es"
proof -
  let ?A = "set (anchors_by_id sc i)"
  show "\<forall>es\<in>chains_to sc i hops rels d v. n \<le> length es"
    using chains_walks assms(1) unfolding nearest_walks_def by (metis empty_iff not_le)
  have "es \<in> chains_to sc i hops rels d v" if es: "es \<in> walks_to sc rels d ?A v n" for es
  proof -
    obtain a where a: "a \<in> ?A" "a \<noteq> v" "leads_to d a es v" "length es = n" "set es \<subseteq> corpus_edges sc rels"
      using es by (auto simp: walks_to_def)
    have "False" if "leads_to d a ds v" "length ds < length es" "set ds \<subseteq> set es" for ds
    proof -
      have "ds \<in> walks_to sc rels d ?A v (length ds)" using a that by (auto simp: walks_to_def)
      then show False using assms(1) that(2) a(4) unfolding nearest_walks_def by blast
    qed
    with simple_or_shorter [OF a(3)] have "simple_from d a es" by blast
    moreover have "es \<noteq> []" using a(2,3) by auto
    ultimately show ?thesis using a assms(2) by (auto simp: chains_to_def)
  qed
  moreover have "es \<in> walks_to sc rels d ?A v n" if "es \<in> chains_to sc i hops rels d v" "length es = n" for es
    using chains_walks [OF that(1)] that(2) by simp
  moreover have "length es = n" if "es \<in> walks_to sc rels d ?A v n" for es using that by (simp add: walks_to_def)
  ultimately show "{es \<in> chains_to sc i hops rels d v. length es = n} = walks_to sc rels d ?A v n" by blast
qed

lemma nearest_walks_unique: "nearest_walks sc rels d A v n \<Longrightarrow> nearest_walks sc rels d A v m \<Longrightarrow> n = m"
  unfolding nearest_walks_def by (metis linorder_neqE_nat)

lemma chains_nearest:
  "chains_to sc i hops rels d v \<noteq> {} \<longleftrightarrow> (\<exists>n\<le>hops. nearest_walks sc rels d (set (anchors_by_id sc i)) v n)"
proof
  let ?W = "walks_to sc rels d (set (anchors_by_id sc i)) v"
  assume "chains_to sc i hops rels d v \<noteq> {}"
  then obtain es where es: "es \<in> chains_to sc i hops rels d v" by blast
  then have some: "?W (length es) \<noteq> {}" using chains_walks by blast
  then obtain n where n: "?W n \<noteq> {}" "\<forall>m<n. \<not> ?W m \<noteq> {}" using exists_least_iff [of "\<lambda>n. ?W n \<noteq> {}"] by blast
  then have "n \<le> length es" using some by (meson not_le)
  moreover have "length es \<le> hops" using es by (simp add: chains_to_def)
  ultimately show "\<exists>n\<le>hops. nearest_walks sc rels d (set (anchors_by_id sc i)) v n"
    using n unfolding nearest_walks_def by (meson le_trans)
next
  assume "\<exists>n\<le>hops. nearest_walks sc rels d (set (anchors_by_id sc i)) v n"
  then obtain n where n: "n \<le> hops" "nearest_walks sc rels d (set (anchors_by_id sc i)) v n" by blast
  then show "chains_to sc i hops rels d v \<noteq> {}" using shortest_chains(1) [OF n(2,1)] by (auto simp: nearest_walks_def)
qed

lemma shortest_of_nearest:
  assumes n: "nearest_walks sc rels d (set (anchors_by_id sc i)) v n" "n \<le> hops"
  shows "shortest_of (trails_of (impact_visits sc i hops rels d) v) = n"
proof -
  let ?C = "chains_to sc i hops rels d v"
  have set: "length ` set (trails_of (impact_visits sc i hops rels d) v) = length ` ?C"
    by (simp add: trails_of_set image_image)
  then have fin: "finite (length ` ?C)" unfolding set [symmetric] by (intro finite_imageI finite_set)
  obtain es where "es \<in> walks_to sc rels d (set (anchors_by_id sc i)) v n" using n(1) unfolding nearest_walks_def by blast
  then have "es \<in> ?C" "length es = n" unfolding shortest_chains(1) [OF n, symmetric] by simp_all
  then have "n \<in> length ` ?C" by blast
  moreover have "\<forall>m\<in>length ` ?C. n \<le> m" using shortest_chains(2) [OF n] by blast
  ultimately show ?thesis unfolding shortest_of_def set using fin by (intro Min_eqI) auto
qed

lemma object_by_id_id: "object_by_id sc i = Some r \<Longrightarrow> ob_id r = i"
  unfolding object_by_id_def by (drule map_of_SomeD) auto

lemma chain_object: "es \<in> chains_to sc i hops rels d v \<Longrightarrow> \<exists>r. object_by_id sc v = Some r"
proof -
  assume es: "es \<in> chains_to sc i hops rels d v"
  then obtain e where "e \<in> set es" "far_id d e = v"
    using leads_last [of d _ es v] by (auto simp: chains_to_def) (metis last_in_set last_map)
  then show ?thesis using es by (auto simp: chains_to_def corpus_edges_def usable_edge_def far_id_def split: if_splits)
qed

text \<open>The dependents of a report.\<close>

definition peers_of :: "synthetic_client \<Rightarrow> ustring \<Rightarrow> nat \<Rightarrow> relationship list \<Rightarrow> direction \<Rightarrow> (ustring \<times> nat) set" where
  "peers_of sc i hops rels d = {(v, n). n \<le> hops \<and> nearest_walks sc rels d (set (anchors_by_id sc i)) v n}"

lemma reached_nearest: "v \<in> set (reached_peers (impact_visits sc i hops rels d)) \<longleftrightarrow> (\<exists>n. (v, n) \<in> peers_of sc i hops rels d)"
proof -
  have "v \<in> set (reached_peers (impact_visits sc i hops rels d)) \<longleftrightarrow> chains_to sc i hops rels d v \<noteq> {}"
    by (force simp: reached_peers_def visits_set)
  then show ?thesis unfolding chains_nearest peers_of_def by blast
qed

definition item_ok :: "synthetic_client \<Rightarrow> ustring \<Rightarrow> relationship list \<Rightarrow> direction \<Rightarrow> impact_item \<Rightarrow> bool" where
  "item_ok sc i rels d x \<longleftrightarrow>
     object_by_id sc (ob_id (im_dependent x)) = Some (im_dependent x) \<and>
     pa_steps ` set (im_paths x) =
       (if d = Upstream then rev else id) ` walks_to sc rels d (set (anchors_by_id sc i)) (ob_id (im_dependent x)) (im_distance x) \<and>
     distinct (map pa_steps (im_paths x)) \<and> (\<forall>p\<in>set (im_paths x). pa_hops p = im_distance x)"

lemma synthetic_item_ok:
  assumes own: "own_ids sc" and peer: "(v, n) \<in> peers_of sc i hops rels d"
  obtains x where "synthetic_item env sc (impact_visits sc i hops rels d) v = Some x" "ob_id (im_dependent x) = v" "im_distance x = n"
    "item_ok sc i rels d x"
proof -
  let ?visits = "impact_visits sc i hops rels d"
  let ?turn = "if d = Upstream then rev else id"
  have n: "nearest_walks sc rels d (set (anchors_by_id sc i)) v n" "n \<le> hops" using peer by (simp_all add: peers_of_def)
  let ?W = "walks_to sc rels d (set (anchors_by_id sc i)) v n"
  have "chains_to sc i hops rels d v \<noteq> {}" using n chains_nearest by blast
  then obtain r where r: "object_by_id sc v = Some r" using chain_object by blast
  let ?ts = "sort_key (\<lambda>t. (map target_id (trail_steps sc t), t)) (filter (\<lambda>t. length t = n) (trails_of ?visits v))"
  have trails: "set ?ts = forward_trail d ` ?W"
    using shortest_chains(1) [OF n] unfolding set_sort set_filter trails_of_set by force
  have rec: "synthetic_path env sc (forward_trail d es) = \<lparr>pa_id = path_id env (forward_trail d es), pa_steps = ?turn es, pa_hops = n\<rparr>"
    if "es \<in> ?W" for es
  proof -
    have "set (?turn es) \<subseteq> corpus_edges sc rels" "length (?turn es) = n" using that by (auto simp: walks_to_def)
    moreover have "forward_trail d es = map dp_id (?turn es)" by (simp add: forward_trail_def)
    ultimately show ?thesis using synthetic_path_own [OF own, of "?turn es" rels env] by simp
  qed
  have dist: "distinct (map pa_steps (map (synthetic_path env sc) ?ts))"
  proof -
    have "map (map dp_id \<circ> (pa_steps \<circ> synthetic_path env sc)) ?ts = map (\<lambda>t. t) ?ts"
    proof (rule map_cong [OF refl])
      fix t assume "t \<in> set ?ts"
      then obtain es where es: "es \<in> ?W" "t = forward_trail d es" unfolding trails by blast
      show "(map dp_id \<circ> (pa_steps \<circ> synthetic_path env sc)) t = t" using rec [OF es(1)] by (simp add: es(2) forward_trail_def)
    qed
    then have "map (map dp_id) (map pa_steps (map (synthetic_path env sc) ?ts)) = ?ts" unfolding map_map list.map_id0 id_def by (simp only: comp_assoc list.map_ident)
    moreover have "distinct ?ts" by (simp add: trails_of_def)
    ultimately have "distinct (map (map dp_id) (map pa_steps (map (synthetic_path env sc) ?ts)))" by (simp only:)
    then show ?thesis by (rule distinct_map_outer)
  qed
  let ?x = "\<lparr>im_id = ascii ''impact://'' @ pe_project env @ ascii ''/'' @ v @ ascii ''/d'' @ nat_digits n,
      im_dependent = r, im_distance = n, im_paths = map (synthetic_path env sc) ?ts\<rparr>"
  have "synthetic_item env sc ?visits v = Some ?x"
    by (simp add: synthetic_item_def r shortest_of_nearest [OF n] Let_def)
  moreover have "pa_steps ` set (map (synthetic_path env sc) ?ts) = ?turn ` ?W"
    unfolding set_map trails image_image using rec by (simp cong: image_cong)
  moreover have "\<forall>p\<in>set (map (synthetic_path env sc) ?ts). pa_hops p = n"
    unfolding set_map trails using rec by auto
  ultimately show ?thesis using that [of ?x] r object_by_id_id [OF r] dist by (simp add: item_ok_def)
qed

lemma map_filter_total: "\<forall>x\<in>set xs. f x = Some (g x) \<Longrightarrow> List.map_filter f xs = map g xs"
  by (induction xs) (simp_all add: List.map_filter_def)

text \<open>The items of a report, before they are ordered.\<close>

lemma report_items:
  assumes own: "own_ids sc"
  obtains f where "synthetic_items env sc (impact_visits sc i hops rels d) = impact_order env (map f (reached_peers (impact_visits sc i hops rels d)))"
    "\<And>v n. (v, n) \<in> peers_of sc i hops rels d \<Longrightarrow>
       ob_id (im_dependent (f v)) = v \<and> im_distance (f v) = n \<and> item_ok sc i rels d (f v)"
proof
  let ?visits = "impact_visits sc i hops rels d"
  let ?f = "\<lambda>v. the (synthetic_item env sc ?visits v)"
  have some: "synthetic_item env sc ?visits v = Some (?f v)" if v: "v \<in> set (reached_peers ?visits)" for v
  proof -
    obtain n where "(v, n) \<in> peers_of sc i hops rels d" using v unfolding reached_nearest by blast
    from synthetic_item_ok [OF own this] show ?thesis by (metis option.sel)
  qed
  then show "synthetic_items env sc ?visits = impact_order env (map ?f (reached_peers ?visits))"
    unfolding synthetic_items_def by (subst map_filter_total [where g = ?f]) simp_all
  show "ob_id (im_dependent (?f v)) = v \<and> im_distance (?f v) = n \<and> item_ok sc i rels d (?f v)" if "(v, n) \<in> peers_of sc i hops rels d" for v n
    using synthetic_item_ok [OF own that, of env] by (metis option.sel)
qed

definition report_ok :: "synthetic_client \<Rightarrow> ustring \<Rightarrow> nat \<Rightarrow> relationship list \<Rightarrow> direction \<Rightarrow> impact_item list \<Rightarrow> impact_summary \<Rightarrow> bool" where
  "report_ok sc i hops rels d items summary \<longleftrightarrow>
     (\<lambda>x. (ob_id (im_dependent x), im_distance x)) ` set items = peers_of sc i hops rels d \<and>
     list_all (item_ok sc i rels d) items \<and> distinct (map (\<lambda>x. ob_id (im_dependent x)) items) \<and> sorted (map im_distance items) \<and>
     is_direct summary = length (filter (\<lambda>x. im_distance x = 1) items) \<and>
     is_indirect summary = length (filter (\<lambda>x. im_distance x \<noteq> 1) items)"

lemma report_exact:
  assumes own: "own_ids sc"
  shows "report_ok sc i hops rels d (synthetic_items env sc (impact_visits sc i hops rels d)) (visits_summary sc (impact_visits sc i hops rels d))"
proof -
  let ?visits = "impact_visits sc i hops rels d"
  let ?peers = "reached_peers ?visits"
  obtain f where items: "synthetic_items env sc ?visits = impact_order env (map f ?peers)"
    and f: "\<And>v n. (v, n) \<in> peers_of sc i hops rels d \<Longrightarrow>
       ob_id (im_dependent (f v)) = v \<and> im_distance (f v) = n \<and> item_ok sc i rels d (f v)"
    using report_items [OF own] by metis
  have peer: "\<exists>n. (v, n) \<in> peers_of sc i hops rels d \<and> ob_id (im_dependent (f v)) = v \<and> im_distance (f v) = n \<and>
      item_ok sc i rels d (f v) \<and> shortest_of (trails_of ?visits v) = n" if v: "v \<in> set ?peers" for v
  proof -
    obtain n where n: "(v, n) \<in> peers_of sc i hops rels d" using v unfolding reached_nearest by blast
    then show ?thesis using f [OF n] shortest_of_nearest [of sc rels d i v n hops] by (auto simp: peers_of_def)
  qed
  have ids: "map (\<lambda>x. ob_id (im_dependent x)) (map f ?peers) = ?peers"
  proof -
    have "map (\<lambda>v. ob_id (im_dependent (f v))) ?peers = map (\<lambda>v. v) ?peers" using peer by (intro map_cong) auto
    then show ?thesis by (simp add: comp_def)
  qed
  have pairs: "(\<lambda>x. (ob_id (im_dependent x), im_distance x)) ` f ` set ?peers = peers_of sc i hops rels d"
  proof (intro equalityI subsetI)
    fix x assume "x \<in> (\<lambda>x. (ob_id (im_dependent x), im_distance x)) ` f ` set ?peers"
    then show "x \<in> peers_of sc i hops rels d" using peer by auto
  next
    fix x assume x: "x \<in> peers_of sc i hops rels d"
    then obtain v n where v: "x = (v, n)" "v \<in> set ?peers" using reached_nearest by (cases x) blast
    then show "x \<in> (\<lambda>x. (ob_id (im_dependent x), im_distance x)) ` f ` set ?peers" using f [of v n] x by force
  qed
  have direct: "filter (\<lambda>p. shortest_of (trails_of ?visits p) = 1) ?peers = filter (\<lambda>p. im_distance (f p) = 1) ?peers"
    using peer by (intro filter_cong) auto
  have count: "length (filter P (impact_order env (map f ?peers))) = length (filter (\<lambda>p. P (f p)) ?peers)" for P
    by (simp add: filter_length_order filter_map comp_def)
  have "length ?peers = length (filter (\<lambda>p. im_distance (f p) = 1) ?peers) + length (filter (\<lambda>p. im_distance (f p) \<noteq> 1) ?peers)"
    using sum_length_filter_compl [of "\<lambda>p. im_distance (f p) = 1" ?peers] by simp
  moreover have "distinct ?peers" by (simp add: reached_peers_def distinct_unique)
  moreover have "list_all (item_ok sc i rels d) (map f ?peers)" using peer by (auto simp: list_all_iff)
  ultimately show ?thesis
    unfolding report_ok_def items using ids pairs
    by (simp add: impact_order_distinct impact_order_sorted list_all_iff visits_summary_def Let_def direct [unfolded One_nat_def] count)
qed

section \<open>The searches\<close>

text \<open>
  C32. The path search over the synthetic corpus is exhaustive: its pages are cut from one list with every
  simple path of the path relationships from one object to the other within the hops, each path once,
  shorter ones first, and nothing else. The identifiers of the edges tell them apart.
\<close>

theorem synthetic_paths_exact:
  assumes "own_ids sc"
  shows "\<exists>records. synthetic_paths env sc s t max_hops limit offset = result_page (nat (max 0 offset)) (bounded_limit env limit) records \<and>
    pa_steps ` set records = simple_paths sc s t (nat (max 1 max_hops)) \<and> distinct (map pa_steps records) \<and>
    sorted (map pa_hops records) \<and> list_all (\<lambda>p. pa_hops p = length (pa_steps p)) records"
  using found_paths_exact [OF assms, of env s t max_hops]
  by (intro exI [of _ "found_paths env sc s t max_hops"]) (simp add: synthetic_paths_def found_paths_def list_all_iff)

definition sample_object :: "nat \<Rightarrow> object_record" where
  "sample_object c = \<lparr>ob_id = [c], ob_kind = KFunction, ob_name = [c], ob_schema = [72], ob_qualified = [72, 46, c], ob_project = [112],
     ob_owner = None, ob_signature = None, ob_return_type = None, ob_evidence = None\<rparr>"

definition sample_call :: "nat \<Rightarrow> nat \<Rightarrow> dependency" where
  "sample_call a b = \<lparr>dp_id = [a, b], dp_relationship = Calls, dp_resolution = Exact, dp_source = reference_to (sample_object a),
     dp_target = reference_to (sample_object b), dp_evidence = None, dp_evidence_kind = None, dp_derived = None, dp_events = None,
     dp_via_table = None\<rparr>"

definition sample_synthetic :: synthetic_client where
  "sample_synthetic = \<lparr>sy_corpus = map sample_object [65, 66, 67], sy_edges = [sample_call 65 66, sample_call 65 67, sample_call 66 67,
     sample_call 67 65], sy_files = []\<rparr>"

lemma sample_own_ids: "own_ids sample_synthetic"
  by (simp add: own_ids_def sample_synthetic_def sample_call_def)

lemma synthetic_paths_exact_witness:
  "\<exists>records. synthetic_paths sample_client sample_synthetic [65] [67] 3 10 0 = result_page 0 (bounded_limit sample_client 10) records \<and>
     pa_steps ` set records = simple_paths sample_synthetic [65] [67] 3 \<and>
     [sample_call 65 66, sample_call 66 67] \<in> simple_paths sample_synthetic [65] [67] 3"
proof -
  have "[sample_call 65 66, sample_call 66 67] \<in> simple_paths sample_synthetic [65] [67] 3"
    by (simp add: simple_paths_def corpus_edges_def usable_edge_def object_by_id_def sample_synthetic_def sample_call_def sample_object_def
      reference_to_def path_relationships_def simple_from_def near_id_def far_id_def source_id_def target_id_def)
  moreover obtain records where "synthetic_paths sample_client sample_synthetic [65] [67] 3 10 0 = result_page 0 (bounded_limit sample_client 10) records"
      "pa_steps ` set records = simple_paths sample_synthetic [65] [67] 3"
    using synthetic_paths_exact [OF sample_own_ids, of sample_client "[65]" "[67]" 3 10 0] by auto
  ultimately show ?thesis by (intro exI [of _ records] conjI)
qed

text \<open>
  C33. The impact report over the synthetic corpus lists exactly the objects that a walk of at most the given
  hops joins to an anchor of the changed object, each once with its shortest distance and with every walk
  of that length as a path, nearer objects first; the summary counts those at distance one and the others.
\<close>

theorem synthetic_impact_exact:
  assumes "own_ids sc"
  shows "\<exists>items summary. synthetic_impact env sc i max_hops limit d relationships offset =
      (result_page (nat (max 0 offset)) (bounded_limit env limit) items, summary) \<and>
    report_ok sc i (nat (max 1 max_hops)) (relationships_or_all relationships) d items summary"
  using report_exact [OF assms, of i "nat (max 1 max_hops)" "relationships_or_all relationships" d env]
  unfolding synthetic_impact_def Let_def relationships_or_all_def by blast

lemma synthetic_impact_exact_witness:
  "\<exists>items summary. report_ok sample_synthetic [67] 2 path_relationships Upstream items summary \<and>
     ([66], 1) \<in> (\<lambda>x. (ob_id (im_dependent x), im_distance x)) ` set items"
proof -
  obtain items summary where r: "report_ok sample_synthetic [67] 2 path_relationships Upstream items summary"
    using synthetic_impact_exact [OF sample_own_ids, of sample_client "[67]" 2 10 Upstream None 0] by (auto simp: relationships_or_all_def)
  have anchor: "anchors_by_id sample_synthetic [67] = [[67]]"
    by (simp add: anchors_by_id_def object_by_id_def sample_synthetic_def sample_object_def)
  have "[sample_call 66 67] \<in> walks_to sample_synthetic path_relationships Upstream {[67]} [66] 1"
    by (simp add: walks_to_def corpus_edges_def usable_edge_def object_by_id_def sample_synthetic_def sample_call_def sample_object_def
      reference_to_def path_relationships_def near_id_def far_id_def source_id_def target_id_def)
  moreover have "walks_to sample_synthetic path_relationships Upstream {[67]} [66] 0 = {}" by (auto simp: walks_to_def)
  ultimately have "([66], 1) \<in> peers_of sample_synthetic [67] 2 path_relationships Upstream"
    by (auto simp: peers_of_def nearest_walks_def anchor)
  then show ?thesis using r unfolding report_ok_def by blast
qed

end
