(* ===== verification/Paging_Properties.thy ===== *)
theory Paging_Properties
  imports Plsql_Routes Synthetic_Properties
begin

text \<open>
  What a client of the paginated PL/SQL routes sees: cursors belong to one query, and following them from the
  first page on gives the whole result, each entry once, whatever happens to the caches between the requests.
\<close>

section \<open>Following the cursors\<close>

text \<open>Requests one page after the other, at most \<open>n\<close>; \<open>None\<close> when there is a further page.\<close>

fun follow :: "nat \<Rightarrow> (ustring option \<Rightarrow> ('s, 'b cursor_page) handler) \<Rightarrow> ustring option \<Rightarrow> ('s, 'b list option) handler" where
  "follow 0 get cursor = answer_with None"
| "follow (Suc n) get cursor =
     then_do (get cursor) (\<lambda>p.
       case cp_next p of
         None \<Rightarrow> answer_with (Some (pg_items (cp_page p)))
       | Some c \<Rightarrow> then_do (follow n get (Some c)) (\<lambda>r. answer_with (map_option ((@) (pg_items (cp_page p))) r)))"

lemma then_doE:
  assumes "then_do m f st = (Inr y, st')"
  obtains x st1 where "m st = (Inr x, st1)" "f x st1 = (Inr y, st')"
  using assms by (auto simp: then_do_def split: prod.splits sum.splits)

lemma callE: "call m st = (Inr x, st') \<Longrightarrow> m st = (Inr x, st')"
  by (auto simp: call_def split: prod.splits sum.splits)

lemma respondE: "respond r st = (Inr x, st') \<Longrightarrow> r = Some x \<and> st' = st"
  by (auto simp: respond_def refuse_def answer_with_def split: option.splits)

lemma answer_withE: "answer_with x st = (Inr y, st') \<Longrightarrow> y = x \<and> st' = st"
  by (simp add: answer_with_def)

lemma those_append: "those (xs @ ys) = (case those xs of None \<Rightarrow> None | Some a \<Rightarrow> map_option ((@) a) (those ys))"
proof (induction xs)
  case Nil
  show ?case by (cases "those ys") simp_all
next
  case (Cons x xs)
  then show ?case by (cases x; cases "those xs"; cases "those ys") simp_all
qed

lemma render_all_append:
  "render_all f (xs @ ys) = (case render_all f xs of None \<Rightarrow> None | Some a \<Rightarrow> map_option ((@) a) (render_all f ys))"
  unfolding render_all_def map_append those_append ..

text \<open>The contract of a paginated route over a fixed list of results.\<close>

locale cursor_listing =
  fixes invar :: "'s \<Rightarrow> bool"
    and get :: "ustring option \<Rightarrow> ('s, 'b cursor_page) handler"
    and scope :: ustring
    and render :: "'a \<Rightarrow> 'b option"
    and listing :: "'a list"
    and size :: nat
  assumes page: "invar st \<Longrightarrow> get cursor st = (Inr p, st') \<Longrightarrow>
      invar st' \<and> (\<exists>k. decode_page_cursor cursor scope = Some k \<and> render_cursor_page render scope (int k) (result_page k size listing) = Some p)"
    and size_pos: "0 < size"
begin

lemma one_page:
  assumes "invar st" "get cursor st = (Inr p, st')" "decode_page_cursor cursor scope = Some k"
  shows "invar st'" "render_all render (take size (drop k listing)) = Some (pg_items (cp_page p))"
    "cp_next p = (if k + size < length listing then Some (encode_page_cursor scope (k + size)) else None)"
    "pg_total (cp_page p) = length listing"
  using page [OF assms(1,2)] assms(3)
  by (auto simp: render_cursor_page_def render_page_def result_page_def next_cursor_def)

lemma follow_complete:
  assumes scope: "list_all scalar scope"
  shows "invar st \<Longrightarrow> follow n get cursor st = (Inr r, st') \<Longrightarrow> decode_page_cursor cursor scope = Some k \<Longrightarrow>
    invar st' \<and> (case r of None \<Rightarrow> n \<le> length listing - k | Some xs \<Rightarrow> render_all render (drop k listing) = Some xs)"
proof (induction n arbitrary: st cursor r k)
  case 0
  then show ?case by (simp add: answer_with_def)
next
  case (Suc n)
  from Suc.prems(2) obtain p st1 where p: "get cursor st = (Inr p, st1)"
    and rest: "(case cp_next p of None \<Rightarrow> answer_with (Some (pg_items (cp_page p)))
       | Some c \<Rightarrow> then_do (follow n get (Some c)) (\<lambda>r. answer_with (map_option ((@) (pg_items (cp_page p))) r))) st1 = (Inr r, st')"
    unfolding follow.simps by (rule then_doE)
  note this_page = one_page [OF Suc.prems(1) p Suc.prems(3)]
  show ?case
  proof (cases "k + size < length listing")
    case False
    then have "take size (drop k listing) = drop k listing" by simp
    moreover have "r = Some (pg_items (cp_page p))" "st' = st1" using rest this_page(3) False by (simp_all add: answer_with_def)
    ultimately show ?thesis using this_page(1,2) by simp
  next
    case True
    let ?c = "Some (encode_page_cursor scope (k + size))"
    from rest this_page(3) True obtain r' where r': "follow n get ?c st1 = (Inr r', st')" "r = map_option ((@) (pg_items (cp_page p))) r'"
      by (auto elim!: then_doE dest: answer_withE)
    have "decode_page_cursor ?c scope = Some (k + size)" using cursor_decodes [OF scope] by simp
    from Suc.IH [OF this_page(1) r'(1) this]
    have ih: "invar st'" "case r' of None \<Rightarrow> n \<le> length listing - (k + size) | Some xs \<Rightarrow> render_all render (drop (k + size) listing) = Some xs"
      by blast+
    have "drop k listing = take size (drop k listing) @ drop (k + size) listing" by (metis append_take_drop_id drop_drop add.commute)
    then have "render_all render (drop k listing) = map_option ((@) (pg_items (cp_page p))) (render_all render (drop (k + size) listing))"
      using render_all_append [of render "take size (drop k listing)" "drop (k + size) listing"] this_page(2) by simp
    then show ?thesis using ih r'(2) size_pos True by (cases r') auto
  qed
qed

lemma follow_all:
  assumes "list_all scalar scope" "invar st" "follow n get None st = (Inr r, st')" "length listing < n"
  shows "invar st' \<and> r = render_all render listing \<and> r \<noteq> None"
  using follow_complete [OF assms(1-3), of 0] assms(4) by (cases r) (auto simp: decode_page_cursor_def)

end

section \<open>The paths of the graph client\<close>

text \<open>The list that the pages of a path search are cut from: the search of a client whose queries do not fail.\<close>

definition faultless :: "plsql_env \<Rightarrow> plsql_env" where
  "faultless env = env\<lparr>pe_fault := \<lambda>_. None\<rparr>"

definition listed_paths :: "plsql_env \<Rightarrow> ustring \<Rightarrow> ustring \<Rightarrow> int \<Rightarrow> path_record list" where
  "listed_paths env from_id to_id max_hops =
     (case (qualified_name_from_object_id from_id, qualified_name_from_object_id to_id) of
        (Some s, Some t) \<Rightarrow>
          if s = t then []
          else (case fst (path_rounds (faultless env) (file_paths env) t (bounded_hops env max_hops) [] [] [(s, [], [s])] fresh_client) of
                  Inr (known, found) \<Rightarrow> map (path_record_of env known) (trail_order known found)
                | Inl _ \<Rightarrow> [])
      | _ \<Rightarrow> [])"

lemma faultless_simps [simp]:
  "pe_graph (faultless env) = pe_graph env" "pe_project (faultless env) = pe_project env" "pe_lower (faultless env) = pe_lower env"
  "pe_digit (faultless env) = pe_digit env" "pe_fault (faultless env) = (\<lambda>_. None)"
  "traversal_budget (faultless env) = traversal_budget env"
  by (simp_all add: faultless_def traversal_budget_def)

lemma faultless_rows: "dependency_from_row (faultless env) = dependency_from_row env"
proof -
  have ints: "int_or_none (faultless env) = int_or_none env" unfolding int_or_none_def [abs_def] faultless_simps ..
  have evidence: "evidence_of (faultless env) = evidence_of env" unfolding evidence_of_def [abs_def] ints ..
  have ends: "edge_end (faultless env) = edge_end env" unfolding edge_end_def [abs_def] faultless_simps ..
  have via: "via_table_reference (faultless env) = via_table_reference env" unfolding via_table_reference_def [abs_def] faultless_simps ..
  show ?thesis unfolding dependency_from_row_def [abs_def] faultless_simps evidence ends via ..
qed

lemma fetch_faultless:
  assumes "fetch_round env m P used st = (Inr es, st')"
  shows "\<exists>q. st' = st\<lparr>cs_queries := q\<rparr>" "\<exists>cs'. fetch_round (faultless env) m P used cs = (Inr es, cs')"
proof -
  let ?rows = "edge_query (pe_lower env) (pe_graph env) (pe_project env) P (traversal_budget env - used + 1)"
  have budget: "\<not> traversal_budget env \<le> used" using assms by (auto simp: fetch_round_def act_raise_def)
  from assms obtain st1 where e: "execute env ?rows st = (Inr ?rows, st1)"
    and rest: "(if traversal_budget env - used < length ?rows then act_raise LimitExceeded
      else act_lift (map_rows (dependency_from_row env m) ?rows)) st1 = (Inr es, st')"
    unfolding fetch_round_def Let_def if_not_P [OF budget] by (rule execute_bind)
  have rows: "\<not> traversal_budget env - used < length ?rows" "map_rows (dependency_from_row env m) ?rows = Inr es" "st' = st1"
    using rest by (auto simp: act_raise_def act_lift_def split: if_splits)
  show "\<exists>q. st' = st\<lparr>cs_queries := q\<rparr>" using execute_Inr [OF e] rows(3) by blast
  show "\<exists>cs'. fetch_round (faultless env) m P used cs = (Inr es, cs')"
    using budget rows(1,2) by (simp add: fetch_round_def Let_def act_bind_def execute_def faultless_rows act_lift_def)
qed

lemma path_rounds_faultless:
  "path_rounds env m t n known found frontier st = (Inr r, st') \<Longrightarrow>
     (\<exists>q. st' = st\<lparr>cs_queries := q\<rparr>) \<and> (\<exists>cs'. path_rounds (faultless env) m t n known found frontier cs = (Inr r, cs'))"
proof (induction n arbitrary: known found frontier st cs)
  case 0
  then show ?case by (auto simp: act_return_def intro: exI [of _ "cs_queries st"])
next
  case (Suc n)
  let ?sources = "sort (remdups (map fst frontier))"
  show ?case
  proof (cases "?sources = []")
    case True
    then show ?thesis using Suc.prems by (auto simp: act_return_def Let_def intro: exI [of _ "cs_queries st"])
  next
    case False
    let ?next = "\<lambda>env es. path_rounds env m t n (known @ new_edges known es)
      (found @ filter (\<lambda>t. t \<notin> set found) (unique (concat (map (found_trails t (new_edges known es)) frontier))))
      (concat (map (longer_trails t (new_edges known es)) frontier))"
    have step: "path_rounds e m t (Suc n) known found frontier =
        act_bind (fetch_round e m (leaves_from path_relationships ?sources) (length known)) (?next e)" for e
      using False by (simp add: Let_def)
    from Suc.prems obtain es st1 where es: "fetch_round env m (leaves_from path_relationships ?sources) (length known) st = (Inr es, st1)"
        "?next env es st1 = (Inr r, st')"
      unfolding step by (rule act_bindE)
    obtain q1 cs1 where q1: "st1 = st\<lparr>cs_queries := q1\<rparr>"
        "fetch_round (faultless env) m (leaves_from path_relationships ?sources) (length known) cs = (Inr es, cs1)"
      using fetch_faultless [OF es(1)] by blast
    from Suc.IH [OF es(2), of cs1] obtain q2 cs2 where "st' = st1\<lparr>cs_queries := q2\<rparr>" "?next (faultless env) es cs1 = (Inr r, cs2)" by blast
    then show ?thesis unfolding step using q1 by (auto simp: act_bind_def)
  qed
qed

lemma all_paths_listed:
  assumes run: "all_paths env from_id to_id max_hops st = (Inr records, st')" and ok: "client_ok env st"
  shows "records = listed_paths env from_id to_id max_hops \<and> client_ok env st'"
proof -
  from run obtain a st1 b st2 where a: "require_object env from_id st = (Inr a, st1)" and b: "require_object env to_id st1 = (Inr b, st2)"
    and rest: "(if ob_qualified a = ob_qualified b then act_return []
       else act_bind (file_map env) (\<lambda>m.
         act_bind (path_rounds env m (ob_qualified b) (bounded_hops env max_hops) [] [] [(ob_qualified a, [], [ob_qualified a])]) (\<lambda>(known, found).
         act_return (map (path_record_of env known) (trail_order known found))))) st2 = (Inr records, st')"
    unfolding all_paths_def by (elim act_bindE) blast
  note a' = require_object_ok [OF a ok]
  then have b': "qualified_name_from_object_id to_id = Some (ob_qualified b)" and st2: "client_ok env st2"
    using require_object_ok [OF b] by blast+
  have names: "qualified_name_from_object_id from_id = Some (ob_qualified a)" using a' by blast
  show ?thesis
  proof (cases "ob_qualified a = ob_qualified b")
    case True
    then show ?thesis using rest st2 names b' by (simp add: act_return_def listed_paths_def)
  next
    case False
    let ?rounds = "\<lambda>env m. path_rounds env m (ob_qualified b) (bounded_hops env max_hops) [] [] [(ob_qualified a, [], [ob_qualified a])]"
    from rest obtain m st3 where m: "file_map env st2 = (Inr m, st3)"
      and rest2: "act_bind (?rounds env m) (\<lambda>(known, found). act_return (map (path_record_of env known) (trail_order known found))) st3 = (Inr records, st')"
      unfolding if_not_P [OF False] by (rule act_bindE)
    from rest2 obtain known found st4 where p: "?rounds env m st3 = (Inr (known, found), st4)"
        "records = map (path_record_of env known) (trail_order known found)" "st' = st4"
      by (auto simp: act_return_def elim!: act_bindE)
    have m': "m = file_paths env" and st3: "client_ok env st3"
      using file_map_only_files [OF m] st2 only_files_ok [of env st2 st3] by (simp_all add: client_ok_def)
    obtain q cs' where q: "st4 = st3\<lparr>cs_queries := q\<rparr>"
        "path_rounds (faultless env) m (ob_qualified b) (bounded_hops env max_hops) [] [] [(ob_qualified a, [], [ob_qualified a])] fresh_client
          = (Inr (known, found), cs')"
      using path_rounds_faultless [OF p(1), of fresh_client] by blast
    have "listed_paths env from_id to_id max_hops = records"
      using False q(2) p(2) by (simp add: listed_paths_def names b' m')
    then show ?thesis using p(3) q(1) st3 by (simp add: client_ok_def files_cached_def)
  qed
qed

lemma require_known_ok:
  assumes "require_known (neo4j_analysis env) i st = (Inr r, st')" "client_ok env st"
  shows "client_ok env st'"
proof -
  from assms(1) obtain v st1 where "call (ac_get (neo4j_analysis env) i) st = (Inr v, st1)"
    and rest: "(case v of None \<Rightarrow> refuse (Gateway ObjectNotFound) | Some x \<Rightarrow> answer_with x) st1 = (Inr r, st')"
    unfolding require_known_def by (rule then_doE)
  then have "get_object env i st = (Inr v, st1)" by (auto simp: neo4j_analysis_def dest: callE)
  moreover have "st' = st1" using rest by (auto simp: refuse_def answer_with_def split: option.splits)
  ultimately show ?thesis using get_object_ok assms(2) by blast
qed

lemma paths_route_run:
  assumes "get_paths_route env sha256 client from_id to_id limit cursor st = (Inr p, st')"
  obtains a b st1 st2 k page where "require_known client from_id st = (Inr a, st1)" "require_known client to_id st1 = (Inr b, st2)"
    "decode_page_cursor cursor (paths_scope env sha256 from_id to_id) = Some k"
    "ac_paths client from_id to_id (pe_max_hops env) (effective_page_limit env limit) (int k) st2 = (Inr page, st')"
    "render_cursor_page render_path (paths_scope env sha256 from_id to_id) (int k) page = Some p"
  using assms unfolding get_paths_route_def Let_def
  by (elim then_doE) (auto simp: page_offset_def answer_with_def refuse_def dest!: callE respondE split: option.splits)

lemma neo4j_paths_page:
  assumes "client_ok env st" "get_paths_route env sha256 (neo4j_analysis env) from_id to_id limit cursor st = (Inr p, st')"
  shows "client_ok env st' \<and> (\<exists>k. decode_page_cursor cursor (paths_scope env sha256 from_id to_id) = Some k \<and>
    render_cursor_page render_path (paths_scope env sha256 from_id to_id) (int k)
      (result_page k (bounded_limit env (effective_page_limit env limit)) (listed_paths env from_id to_id (pe_max_hops env))) = Some p)"
proof -
  from assms(2) obtain a b st1 st2 k pg where run: "require_known (neo4j_analysis env) from_id st = (Inr a, st1)"
      "require_known (neo4j_analysis env) to_id st1 = (Inr b, st2)" "decode_page_cursor cursor (paths_scope env sha256 from_id to_id) = Some k"
      "find_paths env from_id to_id (pe_max_hops env) (effective_page_limit env limit) (int k) st2 = (Inr pg, st')"
      "render_cursor_page render_path (paths_scope env sha256 from_id to_id) (int k) pg = Some p"
    by (rule paths_route_run) (simp add: neo4j_analysis_def)
  have ok: "client_ok env st2" using require_known_ok run(1,2) assms(1) by blast
  from run(4) obtain records where r: "all_paths env from_id to_id (pe_max_hops env) st2 = (Inr records, st')"
      "pg = result_page k (bounded_limit env (effective_page_limit env limit)) records"
    by (auto simp: find_paths_def act_return_def elim!: act_bindE)
  from all_paths_listed [OF r(1) ok] r(2) run(3,5) show ?thesis by blast
qed

lemma bounded_limit_pos: "0 < bounded_limit env limit"
  by (simp add: bounded_limit_def)

interpretation neo4j: cursor_listing "client_ok env" "get_paths_route env sha256 (neo4j_analysis env) from_id to_id limit"
    "paths_scope env sha256 from_id to_id" render_path "listed_paths env from_id to_id (pe_max_hops env)"
    "bounded_limit env (effective_page_limit env limit)" for env sha256 from_id to_id limit
  by unfold_locales (use neo4j_paths_page bounded_limit_pos in blast)+

section \<open>The lists of the synthetic client\<close>

lemma synthetic_paths_page:
  assumes "get_paths_route env sha256 (synthetic_analysis env sc) from_id to_id limit cursor st = (Inr p, st')"
  shows "\<exists>k. decode_page_cursor cursor (paths_scope env sha256 from_id to_id) = Some k \<and>
    render_cursor_page render_path (paths_scope env sha256 from_id to_id) (int k)
      (result_page k (bounded_limit env (effective_page_limit env limit)) (found_paths env sc from_id to_id (pe_max_hops env))) = Some p"
  using assms by (rule paths_route_run) (auto simp: synthetic_analysis_def stateless_def synthetic_paths_def found_paths_def)

interpretation synthetic: cursor_listing "\<lambda>_. True" "get_paths_route env sha256 (synthetic_analysis env sc) from_id to_id limit"
    "paths_scope env sha256 from_id to_id" render_path "found_paths env sc from_id to_id (pe_max_hops env)"
    "bounded_limit env (effective_page_limit env limit)" for env sha256 sc from_id to_id limit
  by unfold_locales (use synthetic_paths_page bounded_limit_pos in blast)+

text \<open>The items of an impact report, page by page.\<close>

definition impact_pages ::
  "plsql_env \<Rightarrow> (nat list \<Rightarrow> ustring) \<Rightarrow> 's analysis_client \<Rightarrow> ustring \<Rightarrow> impact_query \<Rightarrow> int \<Rightarrow> ustring option \<Rightarrow>
     ('s, public_impact cursor_page) handler"
where
  "impact_pages env sha256 client i q limit cursor =
     then_do (get_impact_route env sha256 client i q limit cursor) (\<lambda>p. answer_with (ip_items p))"

definition listed_items :: "plsql_env \<Rightarrow> synthetic_client \<Rightarrow> ustring \<Rightarrow> impact_query \<Rightarrow> impact_item list" where
  "listed_items env sc i q =
     synthetic_items env sc (impact_visits sc i (nat (max 1 (impact_hops env q))) (relationships_or_all (chosen_relationships q)) (iq_direction q))"

lemma synthetic_impact_page:
  assumes "impact_pages env sha256 (synthetic_analysis env sc) i q limit cursor st = (Inr p, st')"
  shows "\<exists>k. decode_page_cursor cursor (impact_scope env sha256 i q) = Some k \<and>
    render_cursor_page render_impact (impact_scope env sha256 i q) (int k)
      (result_page k (bounded_limit env (effective_page_limit env limit)) (listed_items env sc i q)) = Some p"
  using assms unfolding impact_pages_def get_impact_route_def Let_def
  by (elim then_doE) (auto simp: page_offset_def answer_with_def refuse_def synthetic_analysis_def stateless_def synthetic_impact_def
    listed_items_def relationships_or_all_def Let_def dest!: callE respondE split: option.splits)

interpretation synthetic_impact: cursor_listing "\<lambda>_. True" "impact_pages env sha256 (synthetic_analysis env sc) i q limit"
    "impact_scope env sha256 i q" render_impact "listed_items env sc i q"
    "bounded_limit env (effective_page_limit env limit)" for env sha256 sc i q limit
  by unfold_locales (use synthetic_impact_page bounded_limit_pos in blast)+

section \<open>Properties\<close>

text \<open>
  C34. A cursor belongs to its query. It decodes to the offset it was made of when it comes back with the query
  it was given out for, and it is refused with every query of another digest.
\<close>

theorem cursors_bound:
  assumes "list_all scalar scope"
  shows "decode_page_cursor (Some (encode_page_cursor scope offset)) scope' = (if scope' = scope then Some offset else None)"
  by (rule cursor_decodes [OF assms])

lemma cursors_bound_witness:
  "decode_page_cursor (Some (encode_page_cursor [97, 49] 25)) [97, 49] = Some 25 \<and>
   decode_page_cursor (Some (encode_page_cursor [97, 49] 25)) [97, 50] = None"
  using cursors_bound [of "[97, 49]" 25] by (simp add: scalar_def)

lemma first_page:
  assumes "follow n get c st = (Inr r, st')" "0 < n"
  obtains p st1 where "get c st = (Inr p, st1)"
  using assms by (cases n) (auto elim!: then_doE)

text \<open>
  C35. The pages of the path route are exhaustive. When the cursors are followed from the first page to the
  last, the entries are exactly the paths of the search, rendered in its order, whatever the client's caches
  held at the start and whichever queries were needed in between; and there is a last page.
\<close>

theorem path_pages_exhaustive:
  assumes "\<forall>b. list_all scalar (sha256 b)" "client_ok env st" "plain_names env"
    "follow n (get_paths_route env sha256 (neo4j_analysis env) from_id to_id limit) None st = (Inr r, st')"
    "length (listed_paths env from_id to_id (pe_max_hops env)) < n"
  shows "\<exists>s t paths. qualified_name_from_object_id from_id = Some s \<and> qualified_name_from_object_id to_id = Some t \<and>
    (if s = t then paths = [] else paths_ok env s t (bounded_hops env (pe_max_hops env)) paths) \<and>
    r = render_all render_path paths \<and> r \<noteq> None"
proof -
  let ?paths = "listed_paths env from_id to_id (pe_max_hops env)"
  have "list_all scalar (paths_scope env sha256 from_id to_id)"
    using assms(1) by (simp add: paths_scope_def pagination_scope_def)
  note all = neo4j.follow_all [OF this assms(2,4,5)]
  obtain p st1 where p: "get_paths_route env sha256 (neo4j_analysis env) from_id to_id limit None st = (Inr p, st1)"
    using first_page [OF assms(4)] assms(5) by (metis gr_zeroI not_less_zero)
  then obtain st2 k pg where q: "client_ok env st2"
      "find_paths env from_id to_id (pe_max_hops env) (effective_page_limit env limit) k st2 = (Inr pg, st1)"
    by (rule paths_route_run) (use assms(2) require_known_ok in \<open>simp add: neo4j_analysis_def, metis\<close>)
  from q(2) obtain records st3 where records: "all_paths env from_id to_id (pe_max_hops env) st2 = (Inr records, st3)"
    by (auto simp: find_paths_def elim!: act_bindE)
  have "records = ?paths" using all_paths_listed [OF records q(1)] by simp
  then show ?thesis using all_paths_result [OF records q(1) assms(3)] all by metis
qed

lemma path_pages_exhaustive_witness:
  "\<exists>r st' paths. follow 5 (get_paths_route sample_client (\<lambda>_. [48]) (neo4j_analysis sample_client) (object_id [112] [65, 46, 80]) table_id 1)
     None fresh_client = (Inr r, st') \<and> r = render_all render_path paths \<and> r \<noteq> None"
proof -
  let ?run = "follow 5 (get_paths_route sample_client (\<lambda>_. [48]) (neo4j_analysis sample_client) (object_id [112] [65, 46, 80]) table_id 1)
     None fresh_client"
  have "(case fst ?run of Inl _ \<Rightarrow> False | Inr _ \<Rightarrow> True)" by code_simp
  then obtain r st' where run: "?run = (Inr r, st')" by (cases ?run) (auto split: sum.splits)
  have "length (listed_paths sample_client (object_id [112] [65, 46, 80]) table_id (pe_max_hops sample_client)) < 5" by code_simp
  moreover have "\<forall>b :: nat list. list_all scalar [48]" by (simp add: scalar_def)
  ultimately show ?thesis using path_pages_exhaustive [OF _ fresh_client_ok sample_plain run] run by blast
qed

text \<open>
  The pages of the impact route over the synthetic corpus are exhaustive: following the cursors gives every
  dependent of the report, rendered in its order, each on one page, and the number of requests is bounded by
  the number of dependents.
\<close>

theorem impact_pages_exhaustive:
  assumes "\<forall>b. list_all scalar (sha256 b)" "own_ids sc"
    "follow n (impact_pages env sha256 (synthetic_analysis env sc) i q limit) None st = (Inr r, st')"
    "length (listed_items env sc i q) < n"
  shows "\<exists>items summary. report_ok sc i (nat (max 1 (impact_hops env q))) (relationships_or_all (chosen_relationships q)) (iq_direction q) items summary \<and>
    r = render_all render_impact items \<and> r \<noteq> None"
proof -
  have "list_all scalar (impact_scope env sha256 i q)"
    using assms(1) by (simp add: impact_scope_def pagination_scope_def)
  from synthetic_impact.follow_all [OF this _ assms(3,4)] have "r = render_all render_impact (listed_items env sc i q)" "r \<noteq> None" by blast+
  then show ?thesis using report_exact [OF assms(2)] unfolding listed_items_def by blast
qed

definition sample_query :: impact_query where
  "sample_query = \<lparr>iq_direction = Upstream, iq_depth = None, iq_relationship = None, iq_direct_only = False, iq_writes_only = False\<rparr>"

lemma impact_pages_exhaustive_witness:
  "\<exists>r st' items. follow 4 (impact_pages sample_client (\<lambda>_. [48]) (synthetic_analysis sample_client sample_synthetic) [67] sample_query 1)
     None () = (Inr r, st') \<and> r = render_all render_impact items \<and> r \<noteq> None"
proof -
  let ?run = "follow 4 (impact_pages sample_client (\<lambda>_. [48]) (synthetic_analysis sample_client sample_synthetic) [67] sample_query 1) None ()"
  have "(case fst ?run of Inl _ \<Rightarrow> False | Inr _ \<Rightarrow> True)" by code_simp
  then obtain r st' where run: "?run = (Inr r, st')" by (cases ?run) (auto split: sum.splits)
  have "length (listed_items sample_client sample_synthetic [67] sample_query) < 4" by code_simp
  moreover have "\<forall>b :: nat list. list_all scalar [48]" by (simp add: scalar_def)
  ultimately show ?thesis using impact_pages_exhaustive [OF _ sample_own_ids run] run by blast
qed

text \<open>
  A page with an edge whose identifier exceeds the bound of the public model is refused as a whole; so is the
  request for the evidence of the edge itself.
\<close>

lemma long_edge_refused:
  assumes "e \<in> set (pg_items page)" "512 < length (dp_id e)"
  shows "render_page render_dependency page = None"
proof -
  have none: "render_dependency e = None"
    using assms(2) by (auto simp: render_dependency_def checked_def sized_def split: option.split)
  have "those (map f xs) = None" if "x \<in> set xs" "f x = None" for f :: "dependency \<Rightarrow> public_dependency option" and x xs
    using that by (induction xs) (auto split: option.split)
  with assms(1) none show ?thesis by (auto simp: render_page_def render_all_def)
qed

end
