(* ===== verification/Ingestion.thy ===== *)
theory Ingestion
  imports Build_Worker "HOL-Library.List_Lexorder" "HOL-Library.Char_ord"
begin

text \<open>
  The ingestion service (\<open>KnowledgeIngestionService\<close> of \<open>app/knowledge/service/ingestion.py\<close>): a run
  discovers the sources, lets Graphify build a graph in a staging directory, indexes the passages,
  publishes the version directory, switches the active link and writes the manifest; a rollback
  switches back to the previous version. The environment of a run holds the settings, what the sources
  and Graphify yield, and which of the file operations fail. A run holds the process lock, so it is one
  step for everyone else; the end of the process in the middle of a run is not modelled.
\<close>

section \<open>State\<close>

text \<open>What reading a \<open>graph.json\<close> finds; a graph is the numbers of its nodes and edges.\<close>

datatype artifact = NoFile | UnreadableGraph string | NoGraph | GraphFile nat nat

text \<open>The path \<open>active\<close>: a link is the parts of its target.\<close>

datatype active_link = NoActive | ActiveDirectory | ActiveLink "string list"

datatype run_status = RunRunning | RunCompleted | RunFailed

record document_entry =
  de_path :: string
  de_sha256 :: string
  de_bytes :: nat
  de_modified :: string
  de_media_type :: string
  de_profile :: string

record change_set =
  cg_added :: "string list"
  cg_changed :: "string list"
  cg_unchanged :: "string list"
  cg_removed :: "string list"

record last_ingestion =
  li_id :: string
  li_status :: run_status
  li_started :: time
  li_completed :: "time option"
  li_error :: "string option"

record manifest =
  mf_source :: "string option"
  mf_active :: "string option"
  mf_previous :: "string option"
  mf_graphify :: string
  mf_fingerprint :: "string option"
  mf_generated :: "time option"
  mf_documents :: "document_entry list"
  mf_changes :: change_set
  mf_last :: last_ingestion

text \<open>\<open>manifest()\<close> is \<open>None\<close> for a missing or unreadable file.\<close>

record ingestion_state =
  is_manifest :: "manifest option"
  is_active :: active_link
  is_versions :: "(string \<times> artifact) list"
  is_index :: "(string \<times> string) list"
  is_staging :: "string list"
  is_failed :: "string list"

definition empty_ingestion :: ingestion_state where
  "empty_ingestion = \<lparr>is_manifest = None, is_active = NoActive, is_versions = [], is_index = [], is_staging = [], is_failed = []\<rparr>"

section \<open>Environment\<close>

text \<open>\<open>SourceLimitError\<close>; \<open>SourceValidationError\<close> and \<open>OSError\<close>; \<open>UnicodeError\<close>; any other.\<close>

datatype exception_kind = LimitException | InputException | UnicodeException | OtherException

record py_exception =
  px_kind :: exception_kind
  px_type :: string
  px_text :: string

definition runtime_error :: "string \<Rightarrow> py_exception" where
  "runtime_error text = \<lparr>px_kind = OtherException, px_type = ''RuntimeError'', px_text = text\<rparr>"

text \<open>Why a step ends: an exception, or the cancellation of the task, which no handler takes.\<close>

datatype stop = Raised py_exception | Cancelled

record source_document =
  sd_path :: string
  sd_sha256 :: string
  sd_bytes :: nat
  sd_modified :: string
  sd_media_type :: string

record snapshot =
  sn_version :: string
  sn_documents :: "source_document list"

datatype graphify_run = GraphifyExit int string string artifact | GraphifyTimeout | GraphifyStopped stop

datatype manifest_write = FailureWrite | ReconcileWrite | UnchangedWrite | RunningWrite | CompletedWrite | FailedWrite | RollbackWrite

datatype io_point =
  WriteManifest manifest_write | SyncManifest manifest_write
| PrepareStaging | WriteSources | CopyGraph | WriteBuild | MovePublish | SyncVersions
| LinkActive | SyncActive | Relink | SyncRelink | ListVersions | PruneVersion string | PruneDirectory string | MoveFailed

record ingestion_env =
  ie_snapshot :: "stop + snapshot"
  ie_progress :: "string \<Rightarrow> stop option"
  ie_graphify :: graphify_run
  ie_normalize :: "string \<Rightarrow> string"
  ie_passages :: "py_exception + nat"
  ie_io :: "io_point \<Rightarrow> py_exception option"
  ie_package :: string
  ie_fingerprint :: string
  ie_keep :: nat
  ie_profile :: "string \<Rightarrow> string"
  ie_started :: time
  ie_completed :: time

type_synonym 'a ing = "ingestion_state \<Rightarrow> (stop + 'a) \<times> ingestion_state"

definition ing_return :: "'a \<Rightarrow> 'a ing" where
  "ing_return x st = (Inr x, st)"

definition ing_raise :: "py_exception \<Rightarrow> 'a ing" where
  "ing_raise e st = (Inl (Raised e), st)"

definition ing_bind :: "'a ing \<Rightarrow> ('a \<Rightarrow> 'b ing) \<Rightarrow> 'b ing" where
  "ing_bind m f st = (case m st of (Inl e, st') \<Rightarrow> (Inl e, st') | (Inr x, st') \<Rightarrow> f x st')"

definition ing_lift :: "stop + 'a \<Rightarrow> 'a ing" where
  "ing_lift r st = (r, st)"

definition ing_update :: "(ingestion_state \<Rightarrow> ingestion_state) \<Rightarrow> unit ing" where
  "ing_update f st = (Inr (), f st)"

text \<open>\<open>except Exception as exc\<close>.\<close>

definition ing_catch :: "'a ing \<Rightarrow> (py_exception \<Rightarrow> 'a ing) \<Rightarrow> 'a ing" where
  "ing_catch m h st = (case m st of (Inl (Raised e), st') \<Rightarrow> h e st' | r \<Rightarrow> r)"

definition io :: "ingestion_env \<Rightarrow> io_point \<Rightarrow> unit ing" where
  "io env p = (case ie_io env p of None \<Rightarrow> ing_return () | Some e \<Rightarrow> ing_raise e)"

definition report_progress :: "ingestion_env \<Rightarrow> string \<Rightarrow> unit ing" where
  "report_progress env phase = (case ie_progress env phase of None \<Rightarrow> ing_return () | Some s \<Rightarrow> ing_lift (Inl s))"

section \<open>Graphs and the active link\<close>

definition validate_artifact :: "artifact \<Rightarrow> py_exception + nat \<times> nat" where
  "validate_artifact a =
     (case a of
        NoFile \<Rightarrow> Inl (runtime_error ''graph_artifact_missing'')
      | UnreadableGraph t \<Rightarrow> Inl \<lparr>px_kind = InputException, px_type = t, px_text = t\<rparr>
      | NoGraph \<Rightarrow> Inl (runtime_error ''graph_artifact_invalid'')
      | GraphFile n m \<Rightarrow> if n = 0 then Inl (runtime_error ''graph_artifact_invalid'') else Inr (n, m))"

definition graph_at :: "ingestion_state \<Rightarrow> string \<Rightarrow> artifact" where
  "graph_at st v = (case map_of (is_versions st) v of None \<Rightarrow> NoFile | Some a \<Rightarrow> a)"

definition raise_or :: "py_exception + 'a \<Rightarrow> 'a ing" where
  "raise_or r = (case r of Inl e \<Rightarrow> ing_raise e | Inr x \<Rightarrow> ing_return x)"

definition alphanumeric :: "char \<Rightarrow> bool" where
  "alphanumeric c \<longleftrightarrow> (CHR ''a'' \<le> c \<and> c \<le> CHR ''z'') \<or> (CHR ''A'' \<le> c \<and> c \<le> CHR ''Z'') \<or> (CHR ''0'' \<le> c \<and> c \<le> CHR ''9'')"

text \<open>\<open>[A-Za-z0-9][A-Za-z0-9._-]{0,127}\<close>\<close>

definition version_name :: "string \<Rightarrow> bool" where
  "version_name v \<longleftrightarrow>
     (case v of [] \<Rightarrow> False
      | c # cs \<Rightarrow> alphanumeric c \<and> length cs \<le> 127 \<and> list_all (\<lambda>x. alphanumeric x \<or> x \<in> {CHR ''.'', CHR ''_'', CHR ''-''}) cs)"

text \<open>\<open>_active_target\<close>: the version that a valid link to a valid graph names.\<close>

definition active_target :: "ingestion_state \<Rightarrow> string option" where
  "active_target st =
     (case is_active st of
        ActiveLink [root, v] \<Rightarrow>
          if root = ''versions'' \<and> version_name v \<and> (case validate_artifact (graph_at st v) of Inl _ \<Rightarrow> False | Inr _ \<Rightarrow> True)
          then Some v else None
      | _ \<Rightarrow> None)"

definition activate :: "ingestion_env \<Rightarrow> string \<Rightarrow> unit ing" where
  "activate env v st =
     (case map_of (is_versions st) v of
        None \<Rightarrow> ing_raise \<lparr>px_kind = InputException, px_type = ''FileNotFoundError'', px_text = v\<rparr> st
      | Some a \<Rightarrow>
          ing_bind (raise_or (validate_artifact a)) (\<lambda>_.
          if is_active st = ActiveDirectory then ing_raise (runtime_error ''active_graph_path_invalid'')
          else
            ing_bind (io env LinkActive) (\<lambda>_.
            ing_bind (ing_update (\<lambda>s. s\<lparr>is_active := ActiveLink [''versions'', v]\<rparr>)) (\<lambda>_.
            io env SyncActive))) st)"

definition restore_active :: "ingestion_env \<Rightarrow> string option \<Rightarrow> unit ing" where
  "restore_active env target =
     ing_bind (io env Relink) (\<lambda>_.
     ing_bind (ing_update (\<lambda>s. s\<lparr>is_active := (case target of None \<Rightarrow> NoActive | Some v \<Rightarrow> ActiveLink [''versions'', v])\<rparr>)) (\<lambda>_.
     io env SyncRelink))"

section \<open>The manifest\<close>

text \<open>\<open>_write_manifest\<close> replaces the file and syncs the directory; either may raise.\<close>

definition write_manifest :: "ingestion_env \<Rightarrow> manifest_write \<Rightarrow> manifest \<Rightarrow> unit ing" where
  "write_manifest env w m =
     ing_bind (io env (WriteManifest w)) (\<lambda>_.
     ing_bind (ing_update (\<lambda>s. s\<lparr>is_manifest := Some m\<rparr>)) (\<lambda>_.
     io env (SyncManifest w)))"

definition no_changes :: change_set where
  "no_changes = \<lparr>cg_added = [], cg_changed = [], cg_unchanged = [], cg_removed = []\<rparr>"

text \<open>\<open>_change_set\<close>: a dictionary of paths keeps the last checksum of a path.\<close>

definition checksum_of :: "(string \<times> string) list \<Rightarrow> string \<Rightarrow> string option" where
  "checksum_of entries p = map_of (rev entries) p"

definition sorted_paths :: "(string \<Rightarrow> bool) \<Rightarrow> string list \<Rightarrow> string list" where
  "sorted_paths P ps = sort (remdups (filter P ps))"

definition change_set_of :: "snapshot \<Rightarrow> manifest option \<Rightarrow> change_set" where
  "change_set_of snap old =
     (let previous = (case old of None \<Rightarrow> [] | Some m \<Rightarrow> map (\<lambda>d. (de_path d, de_sha256 d)) (mf_documents m));
          current = map (\<lambda>d. (sd_path d, sd_sha256 d)) (sn_documents snap);
          was = checksum_of previous; is = checksum_of current
      in \<lparr>cg_added = sorted_paths (\<lambda>p. was p = None) (map fst current),
          cg_changed = sorted_paths (\<lambda>p. was p \<noteq> None \<and> is p \<noteq> was p) (map fst current),
          cg_unchanged = sorted_paths (\<lambda>p. was p \<noteq> None \<and> is p = was p) (map fst current),
          cg_removed = sorted_paths (\<lambda>p. is p = None) (map fst previous)\<rparr>)"

definition last_of :: "string \<Rightarrow> run_status \<Rightarrow> time \<Rightarrow> time option \<Rightarrow> string option \<Rightarrow> last_ingestion" where
  "last_of i status started completed error =
     \<lparr>li_id = i, li_status = status, li_started = started, li_completed = completed, li_error = error\<rparr>"

definition old_active :: "manifest option \<Rightarrow> string option" where
  "old_active old = (case old of None \<Rightarrow> None | Some m \<Rightarrow> mf_active m)"

text \<open>\<open>_manifest\<close>; \<open>active_version or previous\<close>: an empty text counts as none.\<close>

definition truthy :: "string option \<Rightarrow> bool" where
  "truthy v \<longleftrightarrow> v \<noteq> None \<and> v \<noteq> Some []"

definition manifest_of ::
  "ingestion_env \<Rightarrow> snapshot \<Rightarrow> string \<Rightarrow> run_status \<Rightarrow> time option \<Rightarrow> string option \<Rightarrow> manifest option \<Rightarrow> string option \<Rightarrow> manifest"
where
  "manifest_of env snap i status completed error old active_version =
     \<lparr>mf_source = Some (sn_version snap),
      mf_active = (if truthy active_version then active_version else old_active old),
      mf_previous = (if truthy active_version then old_active old else case old of None \<Rightarrow> None | Some m \<Rightarrow> mf_previous m),
      mf_graphify = ie_package env, mf_fingerprint = Some (ie_fingerprint env),
      mf_generated = (if truthy active_version \<and> completed \<noteq> None then completed
        else case old of None \<Rightarrow> None | Some m \<Rightarrow> mf_generated m),
      mf_documents = map (\<lambda>d. \<lparr>de_path = sd_path d, de_sha256 = sd_sha256 d, de_bytes = sd_bytes d,
        de_modified = sd_modified d, de_media_type = sd_media_type d, de_profile = ie_profile env (sd_path d)\<rparr>) (sn_documents snap),
      mf_changes = change_set_of snap old,
      mf_last = last_of i status (ie_started env) completed error\<rparr>"

definition source_error_code :: "py_exception \<Rightarrow> string" where
  "source_error_code e =
     (case px_kind e of LimitException \<Rightarrow> ''source_limit_exceeded'' | InputException \<Rightarrow> ''source_invalid''
      | UnicodeException \<Rightarrow> ''source_invalid'' | OtherException \<Rightarrow> ''source_discovery_failed'')"

definition source_failure_manifest :: "ingestion_env \<Rightarrow> string \<Rightarrow> py_exception \<Rightarrow> manifest option \<Rightarrow> manifest" where
  "source_failure_manifest env i e old =
     (let failed = last_of i RunFailed (ie_started env) (Some (ie_completed env)) (Some (source_error_code e)) in
      case old of
        Some m \<Rightarrow> m\<lparr>mf_last := failed\<rparr>
      | None \<Rightarrow> \<lparr>mf_source = None, mf_active = None, mf_previous = None, mf_graphify = ie_package env, mf_fingerprint = None,
          mf_generated = None, mf_documents = [], mf_changes = no_changes, mf_last = failed\<rparr>)"

section \<open>The source index\<close>

definition has_version :: "ingestion_state \<Rightarrow> string \<Rightarrow> string \<Rightarrow> bool" where
  "has_version st v fp \<longleftrightarrow> (v, fp) \<in> set (is_index st)"

text \<open>\<open>rebuild_version\<close> replaces the passages of a version; without passages there are no rows.\<close>

definition rebuild_version :: "ingestion_env \<Rightarrow> string \<Rightarrow> nat ing" where
  "rebuild_version env v =
     (case ie_passages env of
        Inl e \<Rightarrow> ing_raise e
      | Inr n \<Rightarrow>
          ing_bind (ing_update (\<lambda>s. s\<lparr>is_index := (if n = 0 then [] else [(v, ie_fingerprint env)]) @ filter (\<lambda>x. fst x \<noteq> v) (is_index s)\<rparr>))
            (\<lambda>_. ing_return n))"

section \<open>Graphify\<close>

definition take_last :: "nat \<Rightarrow> 'a list \<Rightarrow> 'a list" where
  "take_last n xs = drop (length xs - n) xs"

definition mentions :: "string list \<Rightarrow> string \<Rightarrow> bool" where
  "mentions needles text \<longleftrightarrow> list_ex (\<lambda>n. has_substring n text) needles"

definition classify_graphify_failure :: "ingestion_env \<Rightarrow> string \<Rightarrow> string \<Rightarrow> string" where
  "classify_graphify_failure env out err =
     (let normalized = ie_normalize env (take_last 32768 out @ [CHR 0x0A] @ take_last 32768 err) in
      if mentions [''invalid_api_key'', ''incorrect api key'', ''authenticationerror'', ''status code: 401'', ''error code: 401''] normalized
      then ''graphify_provider_authentication_failed''
      else if mentions [''api key''] normalized \<and> mentions [''missing'', ''not set'', ''required''] normalized
      then ''graphify_provider_credential_missing''
      else if mentions [''status code: 429'', ''error code: 429'', ''rate_limit''] normalized
      then ''graphify_provider_quota_or_rate_limit''
      else if mentions [''status code: 404'', ''error code: 404'', ''model_not_found''] normalized
      then ''graphify_provider_model_or_endpoint_not_found''
      else if mentions [''unsupportedprotocol''] normalized then ''graphify_provider_base_url_invalid''
      else if mentions [''timeout''] normalized then ''graphify_provider_timeout''
      else if mentions [''apiconnectionerror'', ''connection error'', ''name resolution''] normalized
      then ''graphify_provider_connection_failed''
      else ''graphify_build_failed'')"

definition run_graphify :: "ingestion_env \<Rightarrow> artifact ing" where
  "run_graphify env =
     (case ie_graphify env of
        GraphifyStopped s \<Rightarrow> ing_lift (Inl s)
      | GraphifyTimeout \<Rightarrow> ing_raise (runtime_error ''graphify_build_timeout'')
      | GraphifyExit code out err a \<Rightarrow>
          if code \<noteq> 0 then ing_raise (runtime_error (classify_graphify_failure env out err)) else ing_return a)"

definition known_codes :: "string list" where
  "known_codes =
     [''graphify_build_timeout'', ''graphify_build_failed'', ''graphify_provider_authentication_failed'',
      ''graphify_provider_credential_missing'', ''graphify_provider_quota_or_rate_limit'',
      ''graphify_provider_model_or_endpoint_not_found'', ''graphify_provider_base_url_invalid'',
      ''graphify_provider_timeout'', ''graphify_provider_connection_failed'', ''graph_artifact_missing'',
      ''graph_artifact_invalid'', ''graph_version_already_exists'', ''source_index_build_failed'']"

definition failure_code :: "py_exception \<Rightarrow> string" where
  "failure_code e = (if px_text e \<in> set known_codes then px_text e else px_type e)"

section \<open>A run\<close>

text \<open>
  \<open>_prune_versions\<close>: all but the greatest names are removed, one after the other. \<open>rmtree\<close> may fail
  before the graph of a version is gone or between that and the removal of its directory.
\<close>

definition surplus_versions :: "nat \<Rightarrow> (string \<times> artifact) list \<Rightarrow> string list" where
  "surplus_versions keep vs = drop keep (rev (sort (map fst vs)))"

fun remove_versions :: "ingestion_env \<Rightarrow> string list \<Rightarrow> unit ing" where
  "remove_versions env [] = ing_return ()"
| "remove_versions env (v # vs) =
     ing_bind (io env (PruneVersion v)) (\<lambda>_.
     ing_bind (ing_update (\<lambda>s. s\<lparr>is_versions := map (\<lambda>x. if fst x = v then (v, NoFile) else x) (is_versions s)\<rparr>)) (\<lambda>_.
     ing_bind (io env (PruneDirectory v)) (\<lambda>_.
     ing_bind (ing_update (\<lambda>s. s\<lparr>is_versions := filter (\<lambda>x. fst x \<noteq> v) (is_versions s)\<rparr>)) (\<lambda>_.
     remove_versions env vs))))"

definition prune_versions :: "ingestion_env \<Rightarrow> unit ing" where
  "prune_versions env =
     ing_bind (io env ListVersions) (\<lambda>_ st. remove_versions env (surplus_versions (ie_keep env) (is_versions st)) st)"

text \<open>The switch of the link and the manifest, with the link put back when the manifest fails.\<close>

definition switch_to :: "ingestion_env \<Rightarrow> string \<Rightarrow> manifest_write \<Rightarrow> manifest \<Rightarrow> unit ing" where
  "switch_to env v w m st =
     (let prior = active_target st in
      ing_bind (activate env v) (\<lambda>_.
      ing_catch (write_manifest env w m) (\<lambda>e.
        ing_bind (restore_active env prior) (\<lambda>_. ing_raise e))) st)"

definition publish_version :: "ingestion_env \<Rightarrow> string \<Rightarrow> artifact \<Rightarrow> unit ing" where
  "publish_version env v a =
     ing_bind (io env MovePublish) (\<lambda>_.
     ing_bind (ing_update (\<lambda>s. s\<lparr>is_versions := (v, a) # is_versions s\<rparr>)) (\<lambda>_.
     io env SyncVersions))"

definition build_graph :: "ingestion_env \<Rightarrow> string \<Rightarrow> snapshot \<Rightarrow> manifest option \<Rightarrow> unit ing" where
  "build_graph env i snap old =
     ing_bind (io env PrepareStaging) (\<lambda>_.
     ing_bind (ing_update (\<lambda>s. s\<lparr>is_staging := i # is_staging s\<rparr>)) (\<lambda>_.
     ing_bind (io env WriteSources) (\<lambda>_.
     ing_bind (report_progress env ''buildingGraph'') (\<lambda>_.
     ing_bind (run_graphify env) (\<lambda>a.
     ing_bind (raise_or (validate_artifact a)) (\<lambda>_.
     ing_bind (io env CopyGraph) (\<lambda>_.
     ing_bind (report_progress env ''indexing'') (\<lambda>_.
     ing_bind (ing_catch (rebuild_version env i) (\<lambda>_. ing_raise (runtime_error ''source_index_build_failed''))) (\<lambda>_.
     ing_bind (io env WriteBuild) (\<lambda>_ st.
     if map_of (is_versions st) i \<noteq> None then ing_raise (runtime_error ''graph_version_already_exists'') st
     else
       ing_bind (publish_version env i a) (\<lambda>_.
       ing_bind (switch_to env i CompletedWrite
          (manifest_of env snap i RunCompleted (Some (ie_completed env)) None old (Some i))) (\<lambda>_.
       ing_bind (prune_versions env) (\<lambda>_.
       ing_update (\<lambda>s. s\<lparr>is_staging := filter (\<lambda>x. x \<noteq> i) (is_staging s)\<rparr>)))) st))))))))))"

definition fail_run :: "ingestion_env \<Rightarrow> string \<Rightarrow> snapshot \<Rightarrow> manifest option \<Rightarrow> py_exception \<Rightarrow> unit ing" where
  "fail_run env i snap old e =
     ing_bind (io env MoveFailed) (\<lambda>_.
     ing_bind (ing_update (\<lambda>s. if i \<in> set (is_staging s)
        then s\<lparr>is_staging := filter (\<lambda>x. x \<noteq> i) (is_staging s), is_failed := i # is_failed s\<rparr> else s)) (\<lambda>_.
     write_manifest env FailedWrite
       (manifest_of env snap i RunFailed (Some (ie_completed env)) (Some (failure_code e)) old None)))"

definition up_to_date :: "ingestion_env \<Rightarrow> snapshot \<Rightarrow> ingestion_state \<Rightarrow> bool" where
  "up_to_date env snap st \<longleftrightarrow>
     (case is_manifest st of
        None \<Rightarrow> False
      | Some m \<Rightarrow> mf_source m = Some (sn_version snap) \<and> mf_graphify m = ie_package env \<and>
          mf_fingerprint m = Some (ie_fingerprint env) \<and> active_target st \<noteq> None)"

text \<open>\<open>str(old["activeGraphVersion"])\<close>\<close>

definition version_text :: "string option \<Rightarrow> string" where
  "version_text v = (case v of None \<Rightarrow> ''None'' | Some s \<Rightarrow> s)"

definition skip_run :: "ingestion_env \<Rightarrow> string \<Rightarrow> snapshot \<Rightarrow> manifest \<Rightarrow> unit ing" where
  "skip_run env i snap m st =
     (let v = version_text (mf_active m);
          unchanged = (manifest_of env snap i RunCompleted (Some (ie_completed env)) None (Some m) (Some v))
            \<lparr>mf_previous := mf_previous m, mf_generated := mf_generated m\<rparr>;
          failure = manifest_of env snap i RunFailed (Some (ie_completed env)) (Some ''source_index_build_failed'') (Some m) None
      in if has_version st v (ie_fingerprint env) then write_manifest env UnchangedWrite unchanged st
         else (case rebuild_version env v st of
                 (Inl (Raised _), st') \<Rightarrow> write_manifest env ReconcileWrite failure st'
               | (Inl Cancelled, st') \<Rightarrow> (Inl Cancelled, st')
               | (Inr _, st') \<Rightarrow> write_manifest env UnchangedWrite unchanged st'))"

definition execute_run :: "ingestion_env \<Rightarrow> string \<Rightarrow> bool \<Rightarrow> unit ing" where
  "execute_run env i force st =
     (let old = is_manifest st in
      ing_bind (report_progress env ''validating'') (\<lambda>_.
      case ie_snapshot env of
        Inl Cancelled \<Rightarrow> ing_lift (Inl Cancelled)
      | Inl (Raised e) \<Rightarrow> write_manifest env FailureWrite (source_failure_manifest env i e old)
      | Inr snap \<Rightarrow>
          ing_bind (report_progress env ''converting'') (\<lambda>_.
          if \<not> force \<and> up_to_date env snap st
          then skip_run env i snap (the old)
          else
            ing_bind (write_manifest env RunningWrite (manifest_of env snap i RunRunning None None old None)) (\<lambda>_.
            ing_catch (build_graph env i snap old) (fail_run env i snap old)))) st)"

section \<open>Operations\<close>

definition current_status :: "ingestion_state \<Rightarrow> run_status option" where
  "current_status st = map_option (\<lambda>m. li_status (mf_last m)) (is_manifest st)"

definition lock_conflict :: py_exception where
  "lock_conflict = runtime_error ''A knowledge ingestion or rollback is already running''"

text \<open>The flag says whether the process lock can be taken at once.\<close>

definition run_now :: "ingestion_env \<Rightarrow> bool \<Rightarrow> string \<Rightarrow> bool \<Rightarrow> string ing" where
  "run_now env lock i force =
     (if \<not> lock then ing_raise lock_conflict
      else ing_bind (execute_run env i force) (\<lambda>_ st.
             if current_status st = Some RunCompleted then ing_return i st
             else ing_raise (runtime_error ''Knowledge ingestion failed'') st))"

definition rollback :: "ingestion_env \<Rightarrow> bool \<Rightarrow> string ing" where
  "rollback env lock st =
     (if \<not> lock then ing_raise lock_conflict st
      else case is_manifest st of
        None \<Rightarrow> ing_raise (runtime_error ''No previous graph version is available'') st
      | Some m \<Rightarrow>
          if \<not> truthy (mf_previous m) then ing_raise (runtime_error ''No previous graph version is available'') st
          else
            let previous = the (mf_previous m) in
            ing_bind (raise_or (validate_artifact (graph_at st previous))) (\<lambda>_.
            ing_bind (switch_to env previous RollbackWrite
              (m\<lparr>mf_active := Some previous, mf_previous := mf_active m\<rparr>)) (\<lambda>_. ing_return previous)) st)"

datatype graph_health = GraphReady | GraphBuilding | GraphUnavailable

record graph_report =
  gr_status :: graph_health
  gr_version :: "string option"
  gr_package :: string
  gr_generated :: "time option"
  gr_documents :: nat

definition graph_status :: "ingestion_env \<Rightarrow> bool \<Rightarrow> ingestion_state \<Rightarrow> graph_report" where
  "graph_status env running st =
     (case (is_manifest st, active_target st) of
        (Some m, Some _) \<Rightarrow> \<lparr>gr_status = GraphReady, gr_version = mf_active m, gr_package = mf_graphify m,
          gr_generated = mf_generated m, gr_documents = length (mf_documents m)\<rparr>
      | _ \<Rightarrow> \<lparr>gr_status = (if running then GraphBuilding else GraphUnavailable), gr_version = None,
          gr_package = ie_package env, gr_generated = None, gr_documents = 0\<rparr>)"

text \<open>\<open>maybe_startup\<close>: whether a run is started; an unreadable source starts one.\<close>

definition valid_index :: "ingestion_env \<Rightarrow> ingestion_state \<Rightarrow> bool" where
  "valid_index env st \<longleftrightarrow>
     (case is_manifest st of
        None \<Rightarrow> False
      | Some m \<Rightarrow> truthy (mf_active m) \<and> has_version st (version_text (mf_active m)) (ie_fingerprint env))"

definition startup_needed :: "ingestion_env \<Rightarrow> bool \<Rightarrow> bool \<Rightarrow> ingestion_state \<Rightarrow> stop + bool" where
  "startup_needed env on_startup rebuild st =
     (if \<not> on_startup then Inr False
      else case ie_snapshot env of
        Inl (Raised e) \<Rightarrow> if px_kind e \<in> {LimitException, InputException} then Inr True else Inl (Raised e)
      | Inl Cancelled \<Rightarrow> Inl Cancelled
      | Inr snap \<Rightarrow> Inr (\<not> (up_to_date env snap st \<and> valid_index env st) \<or> rebuild))"

section \<open>The builder of the worker\<close>

text \<open>
  The branch of \<open>KnowledgeWorker._build\<close> that runs the service on the empty directories of a build, and
  its exceptions as the worker classifies them; of the exceptions for input only those of the file
  system leave a run, which are no \<open>ValueError\<close>.
\<close>

definition worker_ingest :: "ingestion_env \<Rightarrow> string \<Rightarrow> stop + string \<times> int" where
  "worker_ingest env i =
     (case run_now env True i True empty_ingestion of
        (Inl s, _) \<Rightarrow> Inl s
      | (Inr _, st) \<Rightarrow>
          if current_status st = Some RunFailed
          then Inl (Raised (runtime_error
                 (case is_manifest st of
                    None \<Rightarrow> ''graphify_build_failed''
                  | Some m \<Rightarrow> if truthy (li_error (mf_last m)) then the (li_error (mf_last m)) else ''graphify_build_failed'')))
          else let r = graph_status env False st in Inr (version_text (gr_version r), int (gr_documents r)))"

definition worker_exception_of :: "py_exception \<Rightarrow> worker_exception" where
  "worker_exception_of e = \<lparr>exc_message = px_text e, exc_value_error = (px_kind e \<in> {LimitException, UnicodeException})\<rparr>"

end
