(* ===== verification/Ingestion_Properties.thy ===== *)
theory Ingestion_Properties
  imports Ingestion
begin

text \<open>
  What runs and rollbacks guarantee of the published graph, by rules for sequences of steps that may
  stop: a rule names what holds before, after a result, and after a stop.
\<close>

section \<open>Rules\<close>

definition hoare ::
  "(ingestion_state \<Rightarrow> bool) \<Rightarrow> 'a ing \<Rightarrow> ('a \<Rightarrow> ingestion_state \<Rightarrow> bool) \<Rightarrow> (stop \<Rightarrow> ingestion_state \<Rightarrow> bool) \<Rightarrow> bool" where
  "hoare P m Q R \<longleftrightarrow> (\<forall>st. P st \<longrightarrow> (case m st of (Inr x, st') \<Rightarrow> Q x st' | (Inl s, st') \<Rightarrow> R s st'))"

named_theorems steps

lemma hoareD: "hoare P m Q R \<Longrightarrow> P st \<Longrightarrow> m st = (r, st') \<Longrightarrow> (case r of Inr x \<Rightarrow> Q x st' | Inl s \<Rightarrow> R s st')"
  unfolding hoare_def by (metis (mono_tags, lifting) case_prod_conv)

lemma hoare_bind: "hoare P m Q R \<Longrightarrow> (\<And>x. hoare (Q x) (f x) Q' R) \<Longrightarrow> hoare P (ing_bind m f) Q' R"
  unfolding hoare_def ing_bind_def by (fastforce split: prod.splits sum.splits)

lemma hoare_seq: "hoare P m (\<lambda>_. Q) R \<Longrightarrow> (\<And>x. hoare Q (f x) Q' R) \<Longrightarrow> hoare P (ing_bind m f) Q' R"
  by (rule hoare_bind)

lemma hoare_then:
  "hoare P m (\<lambda>_. Q) R' \<Longrightarrow> (\<And>s st. R' s st \<Longrightarrow> R s st) \<Longrightarrow> (\<And>x. hoare Q (f x) Q' R) \<Longrightarrow>
     hoare P (ing_bind m f) Q' R"
  unfolding hoare_def ing_bind_def by (fastforce split: prod.splits sum.splits)

lemma hoare_return [steps]: "hoare P (ing_return x) (\<lambda>_. P) R"
  by (simp add: hoare_def ing_return_def)

lemma hoare_raise [steps]: "hoare P (ing_raise e) Q (\<lambda>_. P)"
  by (simp add: hoare_def ing_raise_def)

lemma hoare_stop [steps]: "hoare P (ing_lift (Inl s)) Q (\<lambda>_. P)"
  by (simp add: hoare_def ing_lift_def)

lemma hoare_raise_or [steps]: "hoare P (raise_or r) (\<lambda>_. P) (\<lambda>_. P)"
  by (auto simp: raise_or_def intro: steps split: sum.split)

lemma hoare_io [steps]: "hoare P (io env p) (\<lambda>_. P) (\<lambda>_. P)"
  by (auto simp: io_def intro: steps split: option.split)

lemma hoare_progress [steps]: "hoare P (report_progress env phase) (\<lambda>_. P) (\<lambda>_. P)"
  by (auto simp: report_progress_def intro: steps split: option.split)

lemma hoare_update: "(\<And>st. P st \<Longrightarrow> Q (f st)) \<Longrightarrow> hoare P (ing_update f) (\<lambda>_. Q) R"
  by (simp add: hoare_def ing_update_def)

lemma hoare_catch:
  "hoare P m Q (\<lambda>s st. case s of Raised e \<Rightarrow> S e st | Cancelled \<Rightarrow> R Cancelled st) \<Longrightarrow> (\<And>e. hoare (S e) (h e) Q R) \<Longrightarrow>
     hoare P (ing_catch m h) Q R"
  unfolding hoare_def ing_catch_def by (fastforce split: prod.splits sum.splits stop.splits)

lemma hoare_weaken:
  "hoare P m Q R \<Longrightarrow> (\<And>st. P' st \<Longrightarrow> P st) \<Longrightarrow> (\<And>x st. Q x st \<Longrightarrow> Q' x st) \<Longrightarrow> (\<And>s st. R s st \<Longrightarrow> R' s st) \<Longrightarrow> hoare P' m Q' R'"
  unfolding hoare_def by (fastforce split: prod.splits sum.splits)

lemma hoare_if: "(b \<Longrightarrow> hoare P m Q R) \<Longrightarrow> (\<not> b \<Longrightarrow> hoare P n Q R) \<Longrightarrow> hoare P (if b then m else n) Q R"
  by simp

lemma hoare_cond: "hoare (\<lambda>st. P st \<and> b st) m Q R \<Longrightarrow> hoare (\<lambda>st. P st \<and> \<not> b st) n Q R \<Longrightarrow>
    hoare P (\<lambda>st. if b st then m st else n st) Q R"
  by (simp add: hoare_def)

lemma hoare_each: "(\<And>st0. P st0 \<Longrightarrow> hoare (\<lambda>st. st = st0) m Q R) \<Longrightarrow> hoare P m Q R"
  by (simp add: hoare_def)

lemma hoare_disj: "hoare P m Q R \<Longrightarrow> hoare P' m Q R \<Longrightarrow> hoare (\<lambda>st. P st \<or> P' st) m Q R"
  by (auto simp: hoare_def)

lemma hoare_state: "(\<And>st0. P st0 \<Longrightarrow> hoare (\<lambda>st. st = st0) (m st0) Q R) \<Longrightarrow> hoare P (\<lambda>st. m st st) Q R"
  by (auto simp: hoare_def)

section \<open>The published graph\<close>

definition old_previous :: "manifest option \<Rightarrow> string option" where
  "old_previous old = (case old of None \<Rightarrow> None | Some m \<Rightarrow> mf_previous m)"

definition published :: "ingestion_state \<Rightarrow> bool" where
  "published st \<longleftrightarrow> active_target st = old_active (is_manifest st) \<and>
     (case old_previous (is_manifest st) of None \<Rightarrow> True | Some v \<Rightarrow> version_name v)"

text \<open>A version name that is not used yet, and that sorts behind all others.\<close>

definition fresh_version :: "string \<Rightarrow> ingestion_state \<Rightarrow> bool" where
  "fresh_version i st \<longleftrightarrow> version_name i \<and> list_all (\<lambda>x. fst x < i) (is_versions st) \<and> is_active st \<noteq> ActiveLink [''versions'', i]"

text \<open>What a run keeps while nothing is switched.\<close>

definition calm :: "string \<Rightarrow> ingestion_state \<Rightarrow> ingestion_state \<Rightarrow> bool" where
  "calm i st0 st \<longleftrightarrow> active_target st = active_target st0 \<and> old_active (is_manifest st) = old_active (is_manifest st0) \<and>
     old_previous (is_manifest st) = old_previous (is_manifest st0) \<and> is_active st \<noteq> ActiveLink [''versions'', i] \<and>
     (\<forall>v. v \<noteq> i \<longrightarrow> graph_at st v = graph_at st0 v) \<and> list_all (\<lambda>x. fst x \<le> i) (is_versions st)"

definition switched :: "string \<Rightarrow> manifest \<Rightarrow> ingestion_state \<Rightarrow> bool" where
  "switched i m st \<longleftrightarrow> active_target st = Some i \<and> is_manifest st = Some m \<and>
     (\<exists>a vs. is_versions st = (i, a) # vs \<and> list_all (\<lambda>x. fst x < i) vs)"

text \<open>
  The link and the manifest on their own: the new version is linked or the one before with its graph
  intact, and the manifest names the versions as before or after the switch.
\<close>

definition on_version :: "string \<Rightarrow> ingestion_state \<Rightarrow> bool" where
  "on_version i st \<longleftrightarrow> active_target st = Some i \<and> (\<exists>a vs. is_versions st = (i, a) # vs \<and> list_all (\<lambda>x. fst x < i) vs)"

definition off_version :: "string \<Rightarrow> ingestion_state \<Rightarrow> ingestion_state \<Rightarrow> bool" where
  "off_version i st0 st \<longleftrightarrow> active_target st = active_target st0 \<and> is_active st \<noteq> ActiveLink [''versions'', i] \<and>
     (\<forall>v. v \<noteq> i \<longrightarrow> graph_at st v = graph_at st0 v)"

definition old_manifest :: "ingestion_state \<Rightarrow> ingestion_state \<Rightarrow> bool" where
  "old_manifest st0 st \<longleftrightarrow> old_active (is_manifest st) = old_active (is_manifest st0) \<and>
     old_previous (is_manifest st) = old_previous (is_manifest st0)"

definition new_manifest :: "string \<Rightarrow> ingestion_state \<Rightarrow> ingestion_state \<Rightarrow> bool" where
  "new_manifest i st0 st \<longleftrightarrow> old_active (is_manifest st) = Some i \<and> old_previous (is_manifest st) = old_active (is_manifest st0)"

text \<open>What a failure after the switch of the link leaves before and after it is recorded.\<close>

definition fails :: "ingestion_env \<Rightarrow> io_point \<Rightarrow> bool" where
  "fails env p \<longleftrightarrow> ie_io env p \<noteq> None"

definition prune_fails :: "ingestion_env \<Rightarrow> bool" where
  "prune_fails env \<longleftrightarrow> fails env ListVersions \<or> (\<exists>v. fails env (PruneVersion v) \<or> fails env (PruneDirectory v))"

definition torn :: "ingestion_env \<Rightarrow> string \<Rightarrow> ingestion_state \<Rightarrow> ingestion_state \<Rightarrow> bool" where
  "torn env i st0 st \<longleftrightarrow>
     on_version i st \<and> old_manifest st0 st \<and> (fails env SyncActive \<or> fails env Relink) \<or>
     on_version i st \<and> new_manifest i st0 st \<and> (fails env Relink \<or> prune_fails env) \<or>
     off_version i st0 st \<and> new_manifest i st0 st \<and> fails env (SyncManifest CompletedWrite)"

definition parted :: "ingestion_env \<Rightarrow> string \<Rightarrow> ingestion_state \<Rightarrow> ingestion_state \<Rightarrow> bool" where
  "parted env i st0 st \<longleftrightarrow>
     on_version i st \<and> old_manifest st0 st \<and> (fails env SyncActive \<or> fails env Relink \<or> prune_fails env)"

definition unrecorded :: "ingestion_env \<Rightarrow> string \<Rightarrow> ingestion_state \<Rightarrow> ingestion_state \<Rightarrow> bool" where
  "unrecorded env i st0 st \<longleftrightarrow> new_manifest i st0 st \<and>
     (on_version i st \<or> off_version i st0 st \<and> fails env (SyncManifest CompletedWrite) \<and>
        (fails env MoveFailed \<or> fails env (WriteManifest FailedWrite)))"

text \<open>How a build stops, and what a run keeps when nothing was switched.\<close>

definition stopped_run :: "ingestion_env \<Rightarrow> string \<Rightarrow> ingestion_state \<Rightarrow> stop \<Rightarrow> ingestion_state \<Rightarrow> bool" where
  "stopped_run env i st0 s st \<longleftrightarrow> calm i st0 st \<or> (\<exists>e. s = Raised e) \<and> torn env i st0 st"

definition kept :: "string \<Rightarrow> ingestion_state \<Rightarrow> ingestion_state \<Rightarrow> bool" where
  "kept i st0 st \<longleftrightarrow> off_version i st0 st \<and> old_manifest st0 st"

lemma active_target_cong:
  "is_active st = is_active st' \<Longrightarrow> (\<And>v. is_active st = ActiveLink [''versions'', v] \<Longrightarrow> graph_at st v = graph_at st' v) \<Longrightarrow>
     active_target st = active_target st'"
  unfolding active_target_def by (auto split: active_link.split list.split)

lemma active_target_link:
  "active_target st = Some v \<longleftrightarrow> is_active st = ActiveLink [''versions'', v] \<and> version_name v \<and>
     (\<exists>n. validate_artifact (graph_at st v) = Inr n)"
  unfolding active_target_def by (auto split: active_link.splits list.splits if_splits sum.splits)

lemma link_cong:
  assumes "is_active st' = is_active st" "is_versions st' = is_versions st"
  shows "active_target st' = active_target st" "graph_at st' v = graph_at st v"
    "on_version i st' = on_version i st" "off_version i st0 st' = off_version i st0 st"
proof -
  have g: "graph_at st' v = graph_at st v" for v using assms(2) by (simp add: graph_at_def)
  then show "graph_at st' v = graph_at st v" .
  show a: "active_target st' = active_target st" using assms(1) g by (intro active_target_cong) simp_all
  show "on_version i st' = on_version i st" "off_version i st0 st' = off_version i st0 st"
    using assms a g by (simp_all add: on_version_def off_version_def)
qed

lemma calm_kept: "calm i st0 st \<Longrightarrow> kept i st0 st"
  by (simp add: calm_def kept_def off_version_def old_manifest_def)

lemma switched_parts: "switched i m st \<longleftrightarrow> on_version i st \<and> is_manifest st = Some m"
  by (auto simp: switched_def on_version_def)

lemma calm_update:
  assumes "calm i st0 st" "is_active st' = is_active st" "is_versions st' = is_versions st"
    "old_active (is_manifest st') = old_active (is_manifest st)" "old_previous (is_manifest st') = old_previous (is_manifest st)"
  shows "calm i st0 st'"
proof -
  have g: "graph_at st' v = graph_at st v" for v using assms(3) by (simp add: graph_at_def)
  then have "active_target st' = active_target st" using assms(2) by (intro active_target_cong) simp_all
  then show ?thesis using assms g by (simp add: calm_def)
qed

lemma calm_refl: "fresh_version i st \<Longrightarrow> calm i st st"
  by (auto simp: calm_def fresh_version_def list_all_iff)

lemma hoare_write_manifest:
  assumes "old_active (Some m) = old_active (is_manifest st0)" "old_previous (Some m) = old_previous (is_manifest st0)"
  shows "hoare (calm i st0) (write_manifest env w m) (\<lambda>_ st. calm i st0 st \<and> is_manifest st = Some m) (\<lambda>_. calm i st0)"
proof -
  have "calm i st0 (st\<lparr>is_manifest := Some m\<rparr>)" if "calm i st0 st" for st
    by (rule calm_update [OF that]) (use that assms in \<open>simp_all add: calm_def\<close>)
  then have update: "hoare (calm i st0) (ing_update (\<lambda>s. s\<lparr>is_manifest := Some m\<rparr>)) (\<lambda>_ st. calm i st0 st \<and> is_manifest st = Some m) (\<lambda>_. calm i st0)"
    by (intro hoare_update) simp
  have sync: "hoare (\<lambda>st. calm i st0 st \<and> is_manifest st = Some m) (io env (SyncManifest w)) (\<lambda>_ st. calm i st0 st \<and> is_manifest st = Some m)
      (\<lambda>_. calm i st0)"
    by (rule hoare_weaken [OF hoare_io [of "\<lambda>st. calm i st0 st \<and> is_manifest st = Some m"]]) auto
  show ?thesis unfolding write_manifest_def by (rule hoare_seq [OF hoare_io hoare_seq [OF update sync]])
qed

lemma manifest_of_old:
  "old_active (Some (manifest_of env snap i status completed error old None)) = old_active old"
  "old_previous (Some (manifest_of env snap i status completed error old None)) = old_previous old"
  by (simp_all add: manifest_of_def old_active_def old_previous_def truthy_def split: option.split)

lemma source_failure_old:
  "old_active (Some (source_failure_manifest env i e old)) = old_active old"
  "old_previous (Some (source_failure_manifest env i e old)) = old_previous old"
  by (simp_all add: source_failure_manifest_def old_active_def old_previous_def Let_def split: option.split)

lemma manifest_status: "li_status (mf_last (manifest_of env snap i status completed error old v)) = status"
  by (simp add: manifest_of_def last_of_def)

lemma hoare_fail_run:
  "hoare (calm i st0) (fail_run env i snap (is_manifest st0) e)
     (\<lambda>_ st. calm i st0 st \<and> current_status st = Some RunFailed) (\<lambda>_. calm i st0)"
proof -
  let ?m = "manifest_of env snap i RunFailed (Some (ie_completed env)) (Some (failure_code e)) (is_manifest st0) None"
  have written: "hoare (calm i st0) (write_manifest env FailedWrite ?m) (\<lambda>_ st. calm i st0 st \<and> current_status st = Some RunFailed) (\<lambda>_. calm i st0)"
    by (rule hoare_weaken [OF hoare_write_manifest]) (auto simp: manifest_of_old current_status_def manifest_status)
  show ?thesis
    unfolding fail_run_def
    by (intro hoare_seq [where Q = "calm i st0"] steps hoare_update written) (auto intro: calm_update)
qed

text \<open>Recording a failure after the switch: the manifest goes back, the link does not.\<close>

lemma torn_failed:
  assumes "torn env i st0 st" "is_active st' = is_active st" "is_versions st' = is_versions st" "old_manifest st0 st'"
  shows "parted env i st0 st' \<or> kept i st0 st'"
  using assms(1,4) link_cong(3,4) [OF assms(2,3)] by (auto simp: torn_def parted_def kept_def)

lemma torn_kept:
  assumes "torn env i st0 st" "is_active st' = is_active st" "is_versions st' = is_versions st"
    "is_manifest st' = is_manifest st" "fails env MoveFailed \<or> fails env (WriteManifest FailedWrite)"
  shows "parted env i st0 st' \<or> unrecorded env i st0 st'"
  using assms(1,5) link_cong(3,4) [OF assms(2,3)]
  by (auto simp: torn_def parted_def unrecorded_def old_manifest_def new_manifest_def assms(4))

lemma hoare_fail_torn:
  "hoare (torn env i st0) (fail_run env i snap (is_manifest st0) e)
     (\<lambda>_ st. (parted env i st0 st \<or> kept i st0 st) \<and> current_status st = Some RunFailed)
     (\<lambda>_ st. parted env i st0 st \<or> kept i st0 st \<or> unrecorded env i st0 st)"
proof -
  let ?m = "manifest_of env snap i RunFailed (Some (ie_completed env)) (Some (failure_code e)) (is_manifest st0) None"
  have m: "old_manifest st0 (s\<lparr>is_manifest := Some ?m\<rparr>)" for s by (simp add: old_manifest_def manifest_of_old)
  have w: "parted env i st0 (s\<lparr>is_manifest := Some ?m\<rparr>) \<or> kept i st0 (s\<lparr>is_manifest := Some ?m\<rparr>)"
    if "torn env i st0 st" "is_active s = is_active st" "is_versions s = is_versions st" for s st
    using torn_failed [OF that(1), of "s\<lparr>is_manifest := Some ?m\<rparr>"] that(2,3) m by simp
  show ?thesis
    unfolding hoare_def
  proof (intro allI impI)
    fix st assume t: "torn env i st0 st"
    define s where "s = (if i \<in> set (is_staging st)
        then st\<lparr>is_staging := filter (\<lambda>x. x \<noteq> i) (is_staging st), is_failed := i # is_failed st\<rparr> else st)"
    have s: "is_active s = is_active st" "is_versions s = is_versions st" "is_manifest s = is_manifest st"
      by (simp_all add: s_def)
    have status: "current_status (s\<lparr>is_manifest := Some ?m\<rparr>) = Some RunFailed"
      by (simp add: current_status_def manifest_status)
    show "case fail_run env i snap (is_manifest st0) e st of
        (Inl x, st') \<Rightarrow> parted env i st0 st' \<or> kept i st0 st' \<or> unrecorded env i st0 st'
      | (Inr x, st') \<Rightarrow> (parted env i st0 st' \<or> kept i st0 st') \<and>
          current_status st' = Some RunFailed"
    proof (cases "fails env MoveFailed \<or> fails env (WriteManifest FailedWrite)")
      case True
      then show ?thesis
        using torn_kept [OF t refl refl refl] torn_kept [OF t s] w [OF t s(1,2)] status
        by (auto simp: fail_run_def write_manifest_def ing_bind_def io_def ing_raise_def ing_return_def ing_update_def
            s_def [symmetric] fails_def split: option.split)
    next
      case False
      then show ?thesis
        using w [OF t s(1,2)] status
        by (auto simp: fail_run_def write_manifest_def ing_bind_def io_def ing_raise_def ing_return_def ing_update_def
            s_def [symmetric] fails_def split: option.split)
    qed
  qed
qed

section \<open>The switch\<close>

lemma hoare_activate:
  assumes "version_name v"
  shows "hoare (\<lambda>st. st = st1) (activate env v)
    (\<lambda>_ st. st = st1\<lparr>is_active := ActiveLink [''versions'', v]\<rparr> \<and> (\<exists>n. validate_artifact (graph_at st1 v) = Inr n))
    (\<lambda>s st. (\<exists>e. s = Raised e) \<and> (st = st1 \<or> fails env SyncActive \<and> st = st1\<lparr>is_active := ActiveLink [''versions'', v]\<rparr> \<and>
       (\<exists>n. validate_artifact (graph_at st1 v) = Inr n)))"
  unfolding hoare_def activate_def
  by (auto simp: ing_bind_def raise_or_def ing_raise_def ing_return_def io_def ing_update_def graph_at_def fails_def
      split: option.splits sum.splits)

text \<open>
  Where a switch can stop: with nothing done or undone again, with the link switched alone, with both
  switched, or with the manifest switched alone.
\<close>

definition relinked :: "ingestion_state \<Rightarrow> active_link" where
  "relinked st = (case active_target st of None \<Rightarrow> NoActive | Some u \<Rightarrow> ActiveLink [''versions'', u])"

definition switch_stopped :: "ingestion_env \<Rightarrow> string \<Rightarrow> manifest_write \<Rightarrow> manifest \<Rightarrow> ingestion_state \<Rightarrow> ingestion_state \<Rightarrow> bool" where
  "switch_stopped env v w m st1 st \<longleftrightarrow>
     st = st1 \<or> st = st1\<lparr>is_active := relinked st1\<rparr> \<or>
     (\<exists>n. validate_artifact (graph_at st1 v) = Inr n) \<and>
       (st = st1\<lparr>is_active := ActiveLink [''versions'', v]\<rparr> \<and> (fails env SyncActive \<or> fails env Relink) \<or>
        st = st1\<lparr>is_active := ActiveLink [''versions'', v], is_manifest := Some m\<rparr> \<and> fails env Relink \<and> fails env (SyncManifest w)) \<or>
     st = st1\<lparr>is_active := relinked st1, is_manifest := Some m\<rparr> \<and> fails env (SyncManifest w)"

lemma hoare_switch:
  assumes v: "version_name v"
  shows "hoare (\<lambda>st. st = st1) (switch_to env v w m)
    (\<lambda>_ st. st = st1\<lparr>is_active := ActiveLink [''versions'', v], is_manifest := Some m\<rparr> \<and> (\<exists>n. validate_artifact (graph_at st1 v) = Inr n))
    (\<lambda>s st. (\<exists>e. s = Raised e) \<and> switch_stopped env v w m st1 st)"
proof -
  note act = hoare_activate [OF v, of st1 env]
  show ?thesis
    unfolding hoare_def
  proof (intro allI impI)
    fix st assume "st = st1"
    obtain r st2 where a: "activate env v st1 = (r, st2)" by (cases "activate env v st1")
    have a': "case r of Inr x \<Rightarrow> st2 = st1\<lparr>is_active := ActiveLink [''versions'', v]\<rparr> \<and> (\<exists>n. validate_artifact (graph_at st1 v) = Inr n)
        | Inl s \<Rightarrow> (\<exists>e. s = Raised e) \<and> (st2 = st1 \<or> fails env SyncActive \<and> st2 = st1\<lparr>is_active := ActiveLink [''versions'', v]\<rparr> \<and>
            (\<exists>n. validate_artifact (graph_at st1 v) = Inr n))"
      using hoareD [OF act refl a] .
    show "case switch_to env v w m st of
        (Inl s, st') \<Rightarrow> (\<exists>e. s = Raised e) \<and> switch_stopped env v w m st1 st'
      | (Inr x, st') \<Rightarrow> st' = st1\<lparr>is_active := ActiveLink [''versions'', v], is_manifest := Some m\<rparr> \<and> (\<exists>n. validate_artifact (graph_at st1 v) = Inr n)"
    proof (cases r)
      case (Inl s)
      then show ?thesis using a' unfolding \<open>st = st1\<close> switch_to_def Let_def ing_bind_def [of "activate env v"] a
        by (auto simp: switch_stopped_def)
    next
      case (Inr x)
      then show ?thesis using a' unfolding \<open>st = st1\<close> switch_to_def Let_def ing_bind_def [of "activate env v"] a
        by (auto simp: ing_catch_def write_manifest_def restore_active_def ing_bind_def ing_update_def relinked_def [symmetric]
          io_def ing_return_def ing_raise_def fails_def switch_stopped_def split: option.splits)
    qed
  qed
qed

section \<open>A build\<close>

definition unused :: "string \<Rightarrow> ingestion_state \<Rightarrow> bool" where
  "unused i st \<longleftrightarrow> map_of (is_versions st) i = None"

lemma below_names: "calm i st0 st \<Longrightarrow> unused i st \<Longrightarrow> list_all (\<lambda>x. fst x < i) (is_versions st)"
  unfolding calm_def unused_def list_all_iff map_of_eq_None_iff by (metis image_eqI order_le_imp_less_or_eq)

lemma calm_publish:
  assumes "calm i st0 st"
  shows "calm i st0 (st\<lparr>is_versions := (i, a) # is_versions st\<rparr>)"
proof -
  let ?st = "st\<lparr>is_versions := (i, a) # is_versions st\<rparr>"
  have g: "v \<noteq> i \<Longrightarrow> graph_at ?st v = graph_at st v" for v by (simp add: graph_at_def)
  have "active_target ?st = active_target st"
    using assms g by (intro active_target_cong) (auto simp: calm_def)
  then show ?thesis using assms g by (simp add: calm_def)
qed

lemma hoare_publish:
  "hoare (\<lambda>st. calm i st0 st \<and> unused i st) (publish_version env i a)
    (\<lambda>_ st. calm i st0 st \<and> (\<exists>vs. is_versions st = (i, a) # vs \<and> list_all (\<lambda>x. fst x < i) vs)) (\<lambda>_. calm i st0)"
  unfolding publish_version_def
  by (rule hoare_weaken [where R = "\<lambda>_. calm i st0" and Q = "\<lambda>_ st. calm i st0 st \<and> (\<exists>vs. is_versions st = (i, a) # vs \<and> list_all (\<lambda>x. fst x < i) vs)"
        and P = "\<lambda>st. calm i st0 st \<and> unused i st"])
    (auto simp: hoare_def ing_bind_def io_def ing_return_def ing_raise_def ing_update_def calm_publish below_names split: option.splits)

lemma restored_calm:
  assumes "calm i st0 st"
  shows "calm i st0 (st\<lparr>is_active := relinked st\<rparr>)"
proof (cases "active_target st")
  case None
  have "active_target (st\<lparr>is_active := NoActive\<rparr>) = None" by (simp add: active_target_def)
  then show ?thesis using assms None by (simp add: calm_def graph_at_def relinked_def)
next
  case (Some u)
  then have link: "is_active st = ActiveLink [''versions'', u]" using active_target_link by blast
  then have "st\<lparr>is_active := ActiveLink [''versions'', u]\<rparr> = st" by simp
  then show ?thesis using assms Some by (simp add: relinked_def)
qed

lemma switch_stopped_build:
  assumes st1: "calm i st0 st1" "is_versions st1 = (i, a) # vs" "list_all (\<lambda>x. fst x < i) vs"
    and v: "version_name i" and m: "old_active (Some m) = Some i" "old_previous (Some m) = old_active (is_manifest st0)"
    and s: "switch_stopped env i CompletedWrite m st1 st"
  shows "calm i st0 st \<or> torn env i st0 st"
proof -
  have on: "on_version i (st1\<lparr>is_active := ActiveLink [''versions'', i]\<rparr>)"
      "on_version i (st1\<lparr>is_active := ActiveLink [''versions'', i], is_manifest := Some m\<rparr>)"
    if "\<exists>n. validate_artifact (graph_at st1 i) = Inr n"
    using that st1(2,3) v by (auto simp: on_version_def active_target_link graph_at_def)
  have new: "new_manifest i st0 (s\<lparr>is_manifest := Some m\<rparr>)" for s using m by (simp add: new_manifest_def)
  have old: "old_manifest st0 (st1\<lparr>is_active := x\<rparr>)" for x using st1(1) by (simp add: calm_def old_manifest_def)
  have "off_version i st0 (st1\<lparr>is_active := relinked st1\<rparr>)" using calm_kept [OF restored_calm [OF st1(1)]] by (simp add: kept_def)
  then have off: "off_version i st0 (st1\<lparr>is_active := relinked st1, is_manifest := Some m\<rparr>)"
    using link_cong(4) [of "st1\<lparr>is_active := relinked st1, is_manifest := Some m\<rparr>" "st1\<lparr>is_active := relinked st1\<rparr>"] by simp
  consider "st = st1" | "st = st1\<lparr>is_active := relinked st1\<rparr>"
    | "\<exists>n. validate_artifact (graph_at st1 i) = Inr n" "st = st1\<lparr>is_active := ActiveLink [''versions'', i]\<rparr>"
        "fails env SyncActive \<or> fails env Relink"
    | "\<exists>n. validate_artifact (graph_at st1 i) = Inr n" "st = st1\<lparr>is_active := ActiveLink [''versions'', i], is_manifest := Some m\<rparr>"
        "fails env Relink"
    | "st = st1\<lparr>is_active := relinked st1, is_manifest := Some m\<rparr>" "fails env (SyncManifest CompletedWrite)"
    using s unfolding switch_stopped_def by blast
  then show ?thesis
  proof cases
    case 1
    then show ?thesis using st1(1) by simp
  next
    case 2
    then show ?thesis using restored_calm [OF st1(1)] by simp
  next
    case 3
    then show ?thesis using on(1) old by (simp add: torn_def)
  next
    case 4
    then show ?thesis using on(2) new by (simp add: torn_def)
  next
    case 5
    then show ?thesis using off new by (simp add: torn_def)
  qed
qed

lemma hoare_switch_build:
  assumes v: "version_name i" and m: "old_active (Some m) = Some i" "old_previous (Some m) = old_active (is_manifest st0)"
  shows "hoare (\<lambda>st. calm i st0 st \<and> (\<exists>vs. is_versions st = (i, a) # vs \<and> list_all (\<lambda>x. fst x < i) vs)) (switch_to env i CompletedWrite m)
    (\<lambda>_. switched i m) (stopped_run env i st0)"
proof (rule hoare_each)
  fix st1 assume st1: "calm i st0 st1 \<and> (\<exists>vs. is_versions st1 = (i, a) # vs \<and> list_all (\<lambda>x. fst x < i) vs)"
  have g: "graph_at (st1\<lparr>is_active := x, is_manifest := y\<rparr>) i = graph_at st1 i" for x y by (simp add: graph_at_def)
  show "hoare (\<lambda>st. st = st1) (switch_to env i CompletedWrite m) (\<lambda>_. switched i m) (stopped_run env i st0)"
  proof (rule hoare_weaken [OF hoare_switch [OF v]])
    fix st assume "st = st1\<lparr>is_active := ActiveLink [''versions'', i], is_manifest := Some m\<rparr> \<and> (\<exists>n. validate_artifact (graph_at st1 i) = Inr n)"
    then show "switched i m st" using v st1 g by (auto simp: switched_def active_target_link)
  next
    fix s st assume "(\<exists>e. s = Raised e) \<and> switch_stopped env i CompletedWrite m st1 st"
    then show "stopped_run env i st0 s st" using st1 switch_stopped_build [OF _ _ _ v m] by (fastforce simp: stopped_run_def)
  qed simp
qed

lemma surplus_fresh:
  assumes "1 \<le> keep" "list_all (\<lambda>x. fst x < i) vs"
  shows "i \<notin> set (surplus_versions keep ((i, a) # vs))"
proof -
  have below: "\<forall>x\<in>set (map fst vs). x < i" using assms(2) by (auto simp: list_all_iff)
  have "sort (map fst ((i, a) # vs)) = sort (map fst vs) @ [i]"
    using below by (simp add: sorted_insort_is_snoc order_less_imp_le)
  then have "surplus_versions keep ((i, a) # vs) = drop keep (i # rev (sort (map fst vs)))" by (simp add: surplus_versions_def)
  also have "\<dots> = drop (keep - 1) (rev (sort (map fst vs)))" using assms(1) by (cases keep) simp_all
  finally have "set (surplus_versions keep ((i, a) # vs)) \<subseteq> set (map fst vs)" by (auto dest: in_set_dropD)
  then show ?thesis using below by blast
qed

lemma switched_versions:
  assumes sw: "switched i m st" and keep: "\<And>a vs. is_versions st = (i, a) # vs \<Longrightarrow> list_all (\<lambda>x. fst x < i) vs \<Longrightarrow>
      \<exists>vs'. versions = (i, a) # vs' \<and> list_all (\<lambda>x. fst x < i) vs'"
  shows "switched i m (st\<lparr>is_versions := versions\<rparr>)"
proof -
  obtain a vs where vs: "is_versions st = (i, a) # vs" "list_all (\<lambda>x. fst x < i) vs" using sw by (auto simp: switched_def)
  obtain vs' where vs': "versions = (i, a) # vs'" "list_all (\<lambda>x. fst x < i) vs'" using keep [OF vs] by blast
  have "graph_at (st\<lparr>is_versions := versions\<rparr>) i = graph_at st i" using vs(1) vs'(1) by (simp add: graph_at_def)
  then have "active_target (st\<lparr>is_versions := versions\<rparr>) = Some i" using sw by (simp add: switched_def active_target_link)
  then show ?thesis using sw vs' by (simp add: switched_def)
qed

lemma switched_remove: "switched i m st \<Longrightarrow> v \<noteq> i \<Longrightarrow> switched i m (st\<lparr>is_versions := filter (\<lambda>x. fst x \<noteq> v) (is_versions st)\<rparr>)"
  by (erule switched_versions) (auto simp: list_all_iff)

lemma switched_empty:
  "switched i m st \<Longrightarrow> v \<noteq> i \<Longrightarrow>
     switched i m (st\<lparr>is_versions := map (\<lambda>x. if fst x = v then (v, NoFile) else x) (is_versions st)\<rparr>)"
  by (erule switched_versions) (auto simp: list_all_iff)

text \<open>Removing surplus versions may stop on the way; the switch stands.\<close>

definition prune_stopped :: "ingestion_env \<Rightarrow> string \<Rightarrow> manifest \<Rightarrow> stop \<Rightarrow> ingestion_state \<Rightarrow> bool" where
  "prune_stopped env i m s st \<longleftrightarrow> (\<exists>e. s = Raised e) \<and> switched i m st \<and> prune_fails env"

lemma hoare_prune_io:
  assumes "fails env p \<Longrightarrow> prune_fails env"
  shows "hoare (switched i m) (io env p) (\<lambda>_. switched i m) (prune_stopped env i m)"
  using assms by (auto simp: hoare_def io_def ing_return_def ing_raise_def prune_stopped_def fails_def split: option.split)

lemma hoare_remove: "i \<notin> set vs \<Longrightarrow>
    hoare (switched i m) (remove_versions env vs) (\<lambda>_. switched i m) (prune_stopped env i m)"
proof (induction vs)
  case Nil
  then show ?case by (simp add: steps)
next
  case (Cons v vs)
  have io: "hoare (switched i m) (io env (PruneVersion v)) (\<lambda>_. switched i m) (prune_stopped env i m)"
    "hoare (switched i m) (io env (PruneDirectory v)) (\<lambda>_. switched i m) (prune_stopped env i m)"
    by (rule hoare_prune_io, auto simp: prune_fails_def)+
  show ?case
    unfolding remove_versions.simps using Cons.prems
    by (intro hoare_seq [where Q = "switched i m"] io hoare_update Cons.IH) (auto intro: switched_remove switched_empty)
qed

lemma hoare_prune:
  assumes "1 \<le> ie_keep env"
  shows "hoare (switched i m) (prune_versions env) (\<lambda>_. switched i m) (prune_stopped env i m)"
proof -
  have "hoare (switched i m) (\<lambda>st. remove_versions env (surplus_versions (ie_keep env) (is_versions st)) st)
      (\<lambda>_. switched i m) (prune_stopped env i m)"
  proof (rule hoare_state [where m = "\<lambda>st. remove_versions env (surplus_versions (ie_keep env) (is_versions st))"])
    fix st0 assume sw: "switched i m st0"
    then have "i \<notin> set (surplus_versions (ie_keep env) (is_versions st0))"
      using surplus_fresh [OF assms] by (auto simp: switched_def)
    note removed = hoare_remove [OF this, of m env]
    show "hoare (\<lambda>st. st = st0) (remove_versions env (surplus_versions (ie_keep env) (is_versions st0))) (\<lambda>_. switched i m) (prune_stopped env i m)"
      by (rule hoare_weaken [OF removed]) (simp_all add: sw)
  qed
  then show ?thesis
    unfolding prune_versions_def by (intro hoare_seq [OF hoare_prune_io]) (auto simp: prune_fails_def)
qed

lemma calm_then:
  assumes "hoare (calm i st0) m (\<lambda>_. calm i st0) (\<lambda>_. calm i st0)" "\<And>x. hoare (calm i st0) (f x) Q (stopped_run env i st0)"
  shows "hoare (calm i st0) (ing_bind m f) Q (stopped_run env i st0)"
  by (rule hoare_then [OF assms(1) _ assms(2)]) (simp add: stopped_run_def)

lemma completed_manifest:
  assumes "version_name i"
  shows "old_active (Some (manifest_of env snap i status completed error old (Some i))) = Some i"
    "old_previous (Some (manifest_of env snap i status completed error old (Some i))) = old_active old"
  using assms by (auto simp: manifest_of_def old_active_def old_previous_def truthy_def version_name_def)

lemma hoare_finish:
  assumes keep: "1 \<le> ie_keep env" and v: "version_name i"
    and m: "old_active (Some m) = Some i" "old_previous (Some m) = old_active (is_manifest st0)"
  shows "hoare (switched i m) (ing_bind (prune_versions env) (\<lambda>_. ing_update (\<lambda>s. s\<lparr>is_staging := filter (\<lambda>x. x \<noteq> i) (is_staging s)\<rparr>)))
      (\<lambda>_. switched i m) (stopped_run env i st0)"
proof (rule hoare_then [OF hoare_prune [OF keep]])
  fix s st assume "prune_stopped env i m s st"
  then show "stopped_run env i st0 s st"
    using m by (auto simp: prune_stopped_def stopped_run_def torn_def switched_parts new_manifest_def)
next
  have "switched i m st \<Longrightarrow> switched i m (st\<lparr>is_staging := x\<rparr>)" for st x
    by (auto simp: switched_def active_target_link graph_at_def)
  then show "hoare (switched i m) (ing_update (\<lambda>s. s\<lparr>is_staging := filter (\<lambda>x. x \<noteq> i) (is_staging s)\<rparr>)) (\<lambda>_. switched i m) (stopped_run env i st0)"
    by (intro hoare_update)
qed

lemma hoare_build:
  assumes keep: "1 \<le> ie_keep env" and v: "version_name i"
  shows "hoare (calm i st0) (build_graph env i snap (is_manifest st0))
    (\<lambda>_. switched i (manifest_of env snap i RunCompleted (Some (ie_completed env)) None (is_manifest st0) (Some i)))
    (stopped_run env i st0)"
proof -
  let ?m = "manifest_of env snap i RunCompleted (Some (ie_completed env)) None (is_manifest st0) (Some i)"
  note m = completed_manifest [OF v, of env snap RunCompleted "Some (ie_completed env)" None "is_manifest st0"]
  have calm_simple: "calm i st0 st \<Longrightarrow> calm i st0 (st\<lparr>is_staging := x\<rparr>)" "calm i st0 st \<Longrightarrow> calm i st0 (st\<lparr>is_index := y\<rparr>)" for st x y
    by (erule calm_update; simp)+
  have run: "hoare (calm i st0) (run_graphify env) (\<lambda>_. calm i st0) (\<lambda>_. calm i st0)"
    unfolding run_graphify_def by (auto intro: steps split: graphify_run.split)
  have index: "hoare (calm i st0) (rebuild_version env i) (\<lambda>_. calm i st0) (\<lambda>_. calm i st0)"
  proof (cases "ie_passages env")
    case (Inr n)
    then show ?thesis
      unfolding rebuild_version_def by (simp only: sum.case) (intro hoare_seq [where Q = "calm i st0"] steps hoare_update calm_simple(2))
  qed (simp add: rebuild_version_def steps)
  have guarded: "hoare (calm i st0) (ing_catch (rebuild_version env i) (\<lambda>_. ing_raise (runtime_error ''source_index_build_failed'')))
      (\<lambda>_. calm i st0) (\<lambda>_. calm i st0)"
    by (rule hoare_catch [where S = "\<lambda>_. calm i st0"], rule hoare_weaken [OF index]) (auto split: stop.split intro: steps)
  let ?rest = "\<lambda>a. ing_bind (publish_version env i a) (\<lambda>_.
        ing_bind (switch_to env i CompletedWrite ?m) (\<lambda>_.
        ing_bind (prune_versions env) (\<lambda>_.
        ing_update (\<lambda>s. s\<lparr>is_staging := filter (\<lambda>x. x \<noteq> i) (is_staging s)\<rparr>))))"
  have final: "hoare (calm i st0) (\<lambda>st. if map_of (is_versions st) i \<noteq> None then ing_raise (runtime_error ''graph_version_already_exists'') st
      else ?rest a st) (\<lambda>_. switched i ?m) (stopped_run env i st0)" for a
  proof (rule hoare_cond)
    show "hoare (\<lambda>st. calm i st0 st \<and> map_of (is_versions st) i \<noteq> None) (ing_raise (runtime_error ''graph_version_already_exists''))
        (\<lambda>_. switched i ?m) (stopped_run env i st0)"
      by (rule hoare_weaken [OF hoare_raise [where P = "calm i st0"]]) (auto simp: stopped_run_def)
    have "hoare (\<lambda>st. calm i st0 st \<and> unused i st) (?rest a) (\<lambda>_. switched i ?m) (stopped_run env i st0)"
      by (rule hoare_then [OF hoare_publish], simp add: stopped_run_def)
        (rule hoare_bind [OF hoare_switch_build [OF v m] hoare_finish [OF keep v m]])
    then show "hoare (\<lambda>st. calm i st0 st \<and> \<not> map_of (is_versions st) i \<noteq> None) (?rest a) (\<lambda>_. switched i ?m) (stopped_run env i st0)"
      by (simp add: unused_def)
  qed
  show ?thesis
    unfolding build_graph_def
    by (intro calm_then steps hoare_update run guarded final calm_simple(1))
qed

section \<open>A run\<close>

lemma version_name_truthy: "version_name v \<Longrightarrow> truthy (Some v)"
  by (auto simp: version_name_def truthy_def)

lemma hoare_skip:
  assumes "published st0" "fresh_version i st0" "is_manifest st0 = Some m" "active_target st0 \<noteq> None"
  shows "hoare (calm i st0) (skip_run env i snap m)
    (\<lambda>_ st. calm i st0 st \<and> (current_status st = Some RunFailed \<or> current_status st = Some RunCompleted)) (\<lambda>_. calm i st0)"
proof -
  obtain v where v: "active_target st0 = Some v" using assms(4) by blast
  then have active: "mf_active m = Some v" "version_name v"
    using assms(1,3) active_target_link [of st0 v] by (simp_all add: published_def old_active_def)
  let ?unchanged = "(manifest_of env snap i RunCompleted (Some (ie_completed env)) None (Some m) (Some (version_text (mf_active m))))
    \<lparr>mf_previous := mf_previous m, mf_generated := mf_generated m\<rparr>"
  let ?failure = "manifest_of env snap i RunFailed (Some (ie_completed env)) (Some ''source_index_build_failed'') (Some m) None"
  have u: "old_active (Some ?unchanged) = old_active (is_manifest st0)" "old_previous (Some ?unchanged) = old_previous (is_manifest st0)"
    using active version_name_truthy [OF active(2)] assms(3) by (simp_all add: manifest_of_def old_active_def old_previous_def version_text_def)
  have written: "hoare (calm i st0) (write_manifest env UnchangedWrite ?unchanged)
      (\<lambda>_ st. calm i st0 st \<and> (current_status st = Some RunFailed \<or> current_status st = Some RunCompleted)) (\<lambda>_. calm i st0)"
    by (rule hoare_weaken [OF hoare_write_manifest [OF u]]) (auto simp: current_status_def manifest_of_def last_of_def)
  have fail: "hoare (calm i st0) (write_manifest env ReconcileWrite ?failure)
      (\<lambda>_ st. calm i st0 st \<and> (current_status st = Some RunFailed \<or> current_status st = Some RunCompleted)) (\<lambda>_. calm i st0)"
    by (rule hoare_weaken [OF hoare_write_manifest]) (auto simp: manifest_of_old assms(3) current_status_def manifest_status)
  have index: "hoare (calm i st0) (rebuild_version env w) (\<lambda>_. calm i st0) (\<lambda>s st. s \<noteq> Cancelled \<and> calm i st0 st)" for w
  proof -
    have "calm i st0 st \<Longrightarrow> calm i st0 (st\<lparr>is_index := y\<rparr>)" for st y by (erule calm_update; simp)
    then show ?thesis
      by (auto simp: hoare_def rebuild_version_def ing_raise_def ing_bind_def ing_update_def ing_return_def split: sum.split)
  qed
  show ?thesis
    unfolding hoare_def
  proof (intro allI impI)
    fix st assume c: "calm i st0 st"
    show "case skip_run env i snap m st of (Inl s, st') \<Rightarrow> calm i st0 st'
      | (Inr x, st') \<Rightarrow> calm i st0 st' \<and> (current_status st' = Some RunFailed \<or> current_status st' = Some RunCompleted)"
    proof (cases "has_version st (version_text (mf_active m)) (ie_fingerprint env)")
      case True
      then show ?thesis using written c by (simp add: skip_run_def Let_def hoare_def)
    next
      case False
      obtain r st1 where r: "rebuild_version env (version_text (mf_active m)) st = (r, st1)" by (cases "rebuild_version env (version_text (mf_active m)) st")
      note rr = hoareD [OF index c r]
      show ?thesis
        using False r rr written fail by (cases r) (auto simp: skip_run_def Let_def hoare_def split: stop.splits)
    qed
  qed
qed

lemma hoare_execute:
  assumes pub: "published st0" and fresh: "fresh_version i st0" and keep: "1 \<le> ie_keep env"
  shows "hoare (\<lambda>st. st = st0) (execute_run env i force)
    (\<lambda>_ st. (\<exists>snap. switched i (manifest_of env snap i RunCompleted (Some (ie_completed env)) None (is_manifest st0) (Some i)) st) \<or>
       (kept i st0 st \<or> parted env i st0 st) \<and> current_status st = Some RunFailed \<or>
       kept i st0 st \<and> \<not> force \<and> current_status st = Some RunCompleted)
    (\<lambda>_ st. kept i st0 st \<or> parted env i st0 st \<or> unrecorded env i st0 st)" (is "hoare _ _ ?Q ?R")
proof -
  let ?old = "is_manifest st0"
  have v: "version_name i" using fresh by (simp add: fresh_version_def)
  have failure: "hoare (calm i st0) (write_manifest env FailureWrite (source_failure_manifest env i e ?old)) ?Q ?R" for e
  proof (rule hoare_weaken [OF hoare_write_manifest])
    fix st assume "calm i st0 st \<and> is_manifest st = Some (source_failure_manifest env i e ?old)"
    then show "?Q x st" for x by (auto simp: current_status_def source_failure_manifest_def last_of_def Let_def calm_kept split: option.splits)
  qed (simp_all add: source_failure_old calm_kept)
  have build: "hoare (calm i st0) (ing_catch (build_graph env i snap ?old) (fail_run env i snap ?old)) ?Q ?R" for snap
  proof (rule hoare_catch [where S = "\<lambda>_ st. calm i st0 st \<or> torn env i st0 st"])
    show "hoare (calm i st0) (build_graph env i snap ?old) ?Q
        (\<lambda>s st. case s of Raised e \<Rightarrow> calm i st0 st \<or> torn env i st0 st | Cancelled \<Rightarrow> ?R Cancelled st)"
      by (rule hoare_weaken [OF hoare_build [OF keep v]]) (auto simp: stopped_run_def calm_kept split: stop.split)
    have "hoare (calm i st0) (fail_run env i snap ?old e) ?Q ?R" for e
      by (rule hoare_weaken [OF hoare_fail_run]) (auto simp: calm_kept)
    moreover have "hoare (torn env i st0) (fail_run env i snap ?old e) ?Q ?R" for e
      by (rule hoare_weaken [OF hoare_fail_torn]) auto
    ultimately show "hoare (\<lambda>st. calm i st0 st \<or> torn env i st0 st) (fail_run env i snap ?old e) ?Q ?R" for e
      by (rule hoare_disj)
  qed
  have running: "hoare (calm i st0) (ing_bind (write_manifest env RunningWrite (manifest_of env snap i RunRunning None None ?old None)) (\<lambda>_.
      ing_catch (build_graph env i snap ?old) (fail_run env i snap ?old))) ?Q ?R" for snap
    by (rule hoare_seq [OF _ build], rule hoare_weaken [OF hoare_write_manifest]) (auto simp: manifest_of_old calm_kept)
  have skip: "hoare (calm i st0) (skip_run env i snap (the ?old)) ?Q ?R" if nf: "\<not> force" and ut: "up_to_date env snap st0" for snap
  proof -
    obtain m where m: "?old = Some m" "active_target st0 \<noteq> None" using ut by (auto simp: up_to_date_def split: option.splits)
    show ?thesis unfolding m(1) option.sel by (rule hoare_weaken [OF hoare_skip [OF pub fresh m]]) (use nf in \<open>auto simp: calm_kept\<close>)
  qed
  have body: "hoare (calm i st0) (case ie_snapshot env of
        Inl Cancelled \<Rightarrow> ing_lift (Inl Cancelled)
      | Inl (Raised e) \<Rightarrow> write_manifest env FailureWrite (source_failure_manifest env i e ?old)
      | Inr snap \<Rightarrow>
          ing_bind (report_progress env ''converting'') (\<lambda>_.
          if \<not> force \<and> up_to_date env snap st0
          then skip_run env i snap (the ?old)
          else
            ing_bind (write_manifest env RunningWrite (manifest_of env snap i RunRunning None None ?old None)) (\<lambda>_.
            ing_catch (build_graph env i snap ?old) (fail_run env i snap ?old)))) ?Q ?R"
  proof (cases "ie_snapshot env")
    case (Inl s)
    then show ?thesis using failure by (cases s) (auto intro: hoare_weaken [OF hoare_stop [where P = "calm i st0"]] simp: calm_kept)
  next
    case (Inr snap)
    then show ?thesis using skip running by (auto intro!: hoare_then [OF hoare_progress] simp: calm_kept)
  qed
  have "hoare (calm i st0) (ing_bind (report_progress env ''validating'') (\<lambda>_. case ie_snapshot env of
        Inl Cancelled \<Rightarrow> ing_lift (Inl Cancelled)
      | Inl (Raised e) \<Rightarrow> write_manifest env FailureWrite (source_failure_manifest env i e ?old)
      | Inr snap \<Rightarrow>
          ing_bind (report_progress env ''converting'') (\<lambda>_.
          if \<not> force \<and> up_to_date env snap st0
          then skip_run env i snap (the ?old)
          else
            ing_bind (write_manifest env RunningWrite (manifest_of env snap i RunRunning None None ?old None)) (\<lambda>_.
            ing_catch (build_graph env i snap ?old) (fail_run env i snap ?old))))) ?Q ?R"
    by (rule hoare_then [OF hoare_progress _ body]) (simp add: calm_kept)
  then show ?thesis using calm_refl [OF fresh] by (simp add: hoare_def execute_run_def Let_def)
qed

section \<open>Properties\<close>

lemma published_kept: "kept i st st' \<Longrightarrow> published st \<Longrightarrow> published st'"
  by (simp add: kept_def off_version_def old_manifest_def published_def)

lemma published_new:
  assumes "on_version i st'" "new_manifest i st st'" "published st"
  shows "published st'"
proof -
  have "active_target st = Some u \<Longrightarrow> version_name u" for u using active_target_link by blast
  then have "case old_active (is_manifest st) of None \<Rightarrow> True | Some u \<Rightarrow> version_name u"
    using assms(3) by (auto simp: published_def split: option.split)
  then show ?thesis using assms by (simp add: published_def on_version_def new_manifest_def)
qed

lemma kept_graph:
  assumes "off_version i st st'" "fresh_version i st"
  shows "active_target st' = active_target st \<and> map_option (graph_at st') (active_target st) = map_option (graph_at st) (active_target st)"
proof -
  have "active_target st \<noteq> Some i" using assms(2) by (simp add: fresh_version_def active_target_link)
  then show ?thesis using assms(1) by (cases "active_target st") (auto simp: off_version_def)
qed


definition sample_run :: ingestion_env where
  "sample_run =
     \<lparr>ie_snapshot = Inr \<lparr>sn_version = ''s1'', sn_documents = [\<lparr>sd_path = ''a.md'', sd_sha256 = ''h1'', sd_bytes = 3,
        sd_modified = ''t'', sd_media_type = ''text/markdown''\<rparr>]\<rparr>,
      ie_progress = (\<lambda>_. None), ie_graphify = GraphifyExit 0 [] [] (GraphFile 2 1), ie_normalize = (\<lambda>s. s),
      ie_passages = Inr 1, ie_io = (\<lambda>_. None), ie_package = ''g'', ie_fingerprint = ''f'', ie_keep = 2,
      ie_profile = (\<lambda>_. ''default''), ie_started = 1, ie_completed = 2\<rparr>"

text \<open>The link is switched, and syncing its directory fails.\<close>

definition unsynced_run :: ingestion_env where
  "unsynced_run = sample_run\<lparr>ie_io := (\<lambda>p. if p = SyncActive then Some (runtime_error ''fsync'') else None)\<rparr>"

lemma empty_published: "published empty_ingestion"
  by (simp add: published_def empty_ingestion_def active_target_def old_active_def old_previous_def)

lemma empty_fresh: "fresh_version ''v1'' empty_ingestion"
  by code_simp


definition swapped :: "manifest \<Rightarrow> manifest" where
  "swapped m = m\<lparr>mf_active := mf_previous m, mf_previous := mf_active m\<rparr>"

text \<open>What a rollback that raises may have switched.\<close>

definition half_rolled :: "ingestion_env \<Rightarrow> ingestion_state \<Rightarrow> ingestion_state \<Rightarrow> bool" where
  "half_rolled env st st' \<longleftrightarrow>
     active_target st' = active_target st \<and> is_manifest st' = is_manifest st \<or>
     active_target st' = old_previous (is_manifest st) \<and> is_manifest st' = is_manifest st \<and> (fails env SyncActive \<or> fails env Relink) \<or>
     active_target st' = old_previous (is_manifest st) \<and> is_manifest st' = map_option swapped (is_manifest st) \<and>
       fails env Relink \<and> fails env (SyncManifest RollbackWrite) \<or>
     active_target st' = active_target st \<and> is_manifest st' = map_option swapped (is_manifest st) \<and> fails env (SyncManifest RollbackWrite)"

lemma relinked_target:
  "active_target (st\<lparr>is_active := relinked st\<rparr>) = active_target st"
  "active_target (st\<lparr>is_active := relinked st, is_manifest := m\<rparr>) = active_target st"
proof -
  show "active_target (st\<lparr>is_active := relinked st\<rparr>) = active_target st"
  proof (cases "active_target st")
    case None
    then show ?thesis by (simp add: active_target_def relinked_def)
  next
    case (Some u)
    then have "is_active st = ActiveLink [''versions'', u]" using active_target_link by blast
    then have "st\<lparr>is_active := ActiveLink [''versions'', u]\<rparr> = st" by simp
    then show ?thesis using Some by (simp add: relinked_def)
  qed
  then show "active_target (st\<lparr>is_active := relinked st, is_manifest := m\<rparr>) = active_target st"
    using link_cong(1) [of "st\<lparr>is_active := relinked st, is_manifest := m\<rparr>" "st\<lparr>is_active := relinked st\<rparr>"] by simp
qed

lemma switch_stopped_rollback:
  assumes "switch_stopped env v RollbackWrite (swapped m) st st'" "version_name v" "is_manifest st = Some m" "mf_previous m = Some v"
  shows "half_rolled env st st' \<and> is_versions st' = is_versions st"
proof -
  have "active_target (st\<lparr>is_active := ActiveLink [''versions'', v], is_manifest := x\<rparr>) = Some v"
    "active_target (st\<lparr>is_active := ActiveLink [''versions'', v]\<rparr>) = Some v"
    if "\<exists>n. validate_artifact (graph_at st v) = Inr n" for x
    using that assms(2) by (simp_all add: active_target_link graph_at_def)
  then show ?thesis
    using assms(1,3,4) relinked_target [where st = st] by (auto simp: switch_stopped_def half_rolled_def old_previous_def)
qed

lemma rollback_result:
  assumes run: "rollback env lock st = (r, st')" and pub: "published st"
  shows "is_versions st' = is_versions st \<and> (case r of
      Inr v \<Rightarrow> \<exists>m. is_manifest st = Some m \<and> mf_previous m = Some v \<and> active_target st' = Some v \<and> is_manifest st' = Some (swapped m)
    | Inl _ \<Rightarrow> half_rolled env st st')"
proof (cases "lock \<and> (\<exists>m. is_manifest st = Some m \<and> truthy (mf_previous m))")
  case False
  then have "r = Inl (Raised lock_conflict) \<and> st' = st \<or> r = Inl (Raised (runtime_error ''No previous graph version is available'')) \<and> st' = st"
    using run by (auto simp: rollback_def ing_raise_def split: if_splits option.splits)
  then show ?thesis by (auto simp: half_rolled_def)
next
  case True
  then obtain m v where m: "lock" "is_manifest st = Some m" "mf_previous m = Some v" "truthy (Some v)" by (auto simp: truthy_def)
  have name: "version_name v" using pub m(2,3) by (simp add: published_def old_previous_def)
  let ?Q = "\<lambda>x s. x = v \<and> s = st\<lparr>is_active := ActiveLink [''versions'', v], is_manifest := Some (swapped m)\<rparr> \<and> (\<exists>n. validate_artifact (graph_at st v) = Inr n)"
  let ?R = "\<lambda>_. switch_stopped env v RollbackWrite (swapped m) st"
  have "hoare (\<lambda>s. s = st) (ing_bind (switch_to env v RollbackWrite (swapped m)) (\<lambda>_. ing_return v)) ?Q ?R"
  proof (rule hoare_bind)
    show "hoare (\<lambda>s. s = st) (switch_to env v RollbackWrite (swapped m)) (\<lambda>_. ?Q v) ?R"
      by (rule hoare_weaken [OF hoare_switch [OF name]]) auto
  qed (simp add: hoare_def ing_return_def)
  then have "hoare (\<lambda>s. s = st) (ing_bind (raise_or (validate_artifact (graph_at st v))) (\<lambda>_.
      ing_bind (switch_to env v RollbackWrite (swapped m)) (\<lambda>_. ing_return v))) ?Q ?R"
    by (intro hoare_then [OF hoare_raise_or [of "\<lambda>s. s = st"]]) (simp add: switch_stopped_def)
  moreover have "ing_bind (raise_or (validate_artifact (graph_at st v))) (\<lambda>_.
      ing_bind (switch_to env v RollbackWrite (swapped m)) (\<lambda>_. ing_return v)) st = (r, st')"
    using run m by (simp add: rollback_def swapped_def)
  ultimately have fin: "case r of Inr x \<Rightarrow> ?Q x st' | Inl s \<Rightarrow> ?R s st'" by (rule hoareD [OF _ refl])
  show ?thesis
  proof (cases r)
    case (Inl s)
    then show ?thesis using fin switch_stopped_rollback [OF _ name m(2,3)] by simp
  next
    case (Inr x)
    then have st': "x = v" "st' = st\<lparr>is_active := ActiveLink [''versions'', v], is_manifest := Some (swapped m)\<rparr>"
        "\<exists>n. validate_artifact (graph_at st v) = Inr n" using fin by simp_all
    then have "active_target st' = Some v" using name by (simp add: active_target_link graph_at_def)
    then show ?thesis using Inr st'(1,2) m by simp
  qed
qed


definition two_versions :: ingestion_state where
  "two_versions = snd (execute_run sample_run ''v2'' True (snd (execute_run sample_run ''v1'' True empty_ingestion)))"

lemma two_published: "published two_versions"
  by code_simp


definition untroubled :: "ingestion_env \<Rightarrow> bool" where
  "untroubled env \<longleftrightarrow> (\<forall>p. ie_io env p = None) \<and> (\<forall>phase. ie_progress env phase = None)"

lemma untroubled_steps:
  assumes "untroubled env"
  shows "io env p = ing_return ()" "report_progress env phase = ing_return ()"
    "write_manifest env w m = ing_update (\<lambda>s. s\<lparr>is_manifest := Some m\<rparr>)"
  using assms by (auto simp: untroubled_def io_def report_progress_def write_manifest_def fun_eq_iff ing_bind_def ing_return_def ing_update_def)

lemma failed_build_state:
  assumes "untroubled env" "ie_snapshot env = Inr snap" "ie_graphify env = GraphifyExit code out err a" "code \<noteq> 0"
    "force \<or> \<not> up_to_date env snap st"
  shows "\<exists>error staging failed. execute_run env i force st = (Inr (), st\<lparr>is_staging := staging, is_failed := failed,
    is_manifest := Some (manifest_of env snap i RunFailed (Some (ie_completed env)) (Some error) (is_manifest st) None)\<rparr>)"
proof -
  have g: "run_graphify env = ing_raise (runtime_error (classify_graphify_failure env out err))"
    using assms(3,4) by (simp add: run_graphify_def)
  have cond: "\<not> (\<not> force \<and> up_to_date env snap st)" using assms(5) by blast
  show ?thesis
    unfolding execute_run_def Let_def assms(2) if_not_P [OF cond]
    by (auto simp: cond build_graph_def fail_run_def g untroubled_steps [OF assms(1)] ing_bind_def ing_return_def ing_update_def ing_raise_def ing_catch_def)
qed

text \<open>
  C31. A failed build is forgotten. When Graphify fails in a run whose files are written, the manifest
  takes over the version of the sources with the old graph. The next run of the same sources, not
  forced, is taken for up to date: it reports completion without building, and the graph of the sources
  before stays active under the version and the documents of the new ones.
\<close>

theorem failed_build_masked:
  assumes "execute_run env i force st = (r, st1)" "execute_run env' j False st1 = (r', st2)"
    and "published st" "active_target st = Some v"
    and "untroubled env" "ie_snapshot env = Inr snap" "ie_graphify env = GraphifyExit code out err a" "code \<noteq> 0"
      "force \<or> \<not> up_to_date env snap st"
    and "untroubled env'" "ie_snapshot env' = Inr snap" "ie_package env' = ie_package env" "ie_fingerprint env' = ie_fingerprint env"
      "ie_passages env' = Inr n"
  shows "current_status st1 = Some RunFailed \<and> current_status st2 = Some RunCompleted \<and>
    active_target st2 = Some v \<and> graph_at st2 v = graph_at st v \<and>
    map_option mf_source (is_manifest st2) = Some (Some (sn_version snap)) \<and>
    map_option (map de_sha256 \<circ> mf_documents) (is_manifest st2) = Some (map sd_sha256 (sn_documents snap))"
proof -
  obtain error staging failed where st1: "st1 = st\<lparr>is_staging := staging, is_failed := failed,
      is_manifest := Some (manifest_of env snap i RunFailed (Some (ie_completed env)) (Some error) (is_manifest st) None)\<rparr>"
    using failed_build_state [OF assms(5-9), of i] assms(1) by auto
  let ?m1 = "manifest_of env snap i RunFailed (Some (ie_completed env)) (Some error) (is_manifest st) None"
  have g1: "graph_at st1 u = graph_at st u" for u by (simp add: st1 graph_at_def)
  have act1: "active_target st1 = Some v" using assms(4) g1 by (simp add: active_target_link) (simp add: st1)
  have m1: "is_manifest st1 = Some ?m1" by (simp add: st1)
  have old: "mf_active ?m1 = Some v"
    using manifest_of_old(1) [of env snap i RunFailed "Some (ie_completed env)" "Some error" "is_manifest st"] assms(3,4)
    by (simp add: old_active_def published_def)
  have name: "truthy (Some v)" using assms(4) by (auto simp: active_target_link intro: version_name_truthy)
  have up: "up_to_date env' snap st1"
    using m1 act1 assms(12,13) by (simp add: up_to_date_def) (simp add: manifest_of_def)
  let ?m2 = "(manifest_of env' snap j RunCompleted (Some (ie_completed env')) None (Some ?m1) (Some v))\<lparr>mf_previous := mf_previous ?m1, mf_generated := mf_generated ?m1\<rparr>"
  have "\<exists>index. st2 = st1\<lparr>is_index := index, is_manifest := Some ?m2\<rparr>"
  proof (cases "has_version st1 v (ie_fingerprint env')")
    case True
    then have "st2 = st1\<lparr>is_manifest := Some ?m2\<rparr>"
      using assms(2) up m1 old assms(11)
      by (simp add: execute_run_def Let_def untroubled_steps [OF assms(10)] ing_bind_def ing_return_def ing_update_def skip_run_def version_text_def)
    then show ?thesis by (intro exI [of _ "is_index st1"]) simp
  next
    case False
    then show ?thesis
      using assms(2) up m1 old assms(11,14)
      by (auto simp: execute_run_def Let_def untroubled_steps [OF assms(10)] ing_bind_def ing_return_def ing_update_def skip_run_def
        version_text_def rebuild_version_def)
  qed
  then obtain index where st2: "st2 = st1\<lparr>is_index := index, is_manifest := Some ?m2\<rparr>" by blast
  have g2: "graph_at st2 u = graph_at st u" for u using g1 by (simp add: st2 graph_at_def)
  have "active_target st2 = Some v" using act1 g1 g2 by (simp add: active_target_link) (simp add: st2)
  then show ?thesis using g2 m1 by (simp add: st2 current_status_def manifest_status) (simp add: manifest_of_def comp_def last_of_def)
qed

definition failing_run :: ingestion_env where
  "failing_run = sample_run\<lparr>ie_snapshot := Inr \<lparr>sn_version = ''s2'', sn_documents = []\<rparr>, ie_graphify := GraphifyExit 1 [] [] NoFile\<rparr>"

definition one_version :: ingestion_state where
  "one_version = snd (execute_run sample_run ''v1'' True empty_ingestion)"

lemma failed_build_masked_witness:
  "\<exists>r st1 r' st2. execute_run failing_run ''v2'' False one_version = (r, st1) \<and> execute_run failing_run ''v3'' False st1 = (r', st2) \<and>
    current_status st1 = Some RunFailed \<and> current_status st2 = Some RunCompleted \<and> active_target st2 = Some ''v1''"
proof -
  obtain r st1 where 1: "execute_run failing_run ''v2'' False one_version = (r, st1)" by (cases "execute_run failing_run ''v2'' False one_version")
  obtain r' st2 where 2: "execute_run failing_run ''v3'' False st1 = (r', st2)" by (cases "execute_run failing_run ''v3'' False st1")
  have pub: "published one_version" and act: "active_target one_version = Some ''v1''" by code_simp+
  have calm: "untroubled failing_run" by (simp add: untroubled_def failing_run_def sample_run_def)
  have old: "False \<or> \<not> up_to_date failing_run \<lparr>sn_version = ''s2'', sn_documents = []\<rparr> one_version" by code_simp
  have env: "ie_snapshot failing_run = Inr \<lparr>sn_version = ''s2'', sn_documents = []\<rparr>" "ie_graphify failing_run = GraphifyExit 1 [] [] NoFile"
      "ie_passages failing_run = Inr 1"
    by (simp_all add: failing_run_def sample_run_def)
  from failed_build_masked [OF 1 2 pub act calm env(1,2) _ old calm env(1) refl refl env(3)] show ?thesis using 1 2 by simp
qed

lemma message_unclassified: "error_code (worker_exception_of (runtime_error ''Knowledge ingestion failed'')) = ''build_failed''"
  by code_simp

lemma empty_calm_incomplete: "active_target empty_ingestion = None"
  by (simp add: active_target_def empty_ingestion_def)

text \<open>
  The worker reports every failed ingestion as \<open>build_failed\<close>. When a run in the empty directories of
  a build returns, the worker gets the version and the number of documents if it completed. Otherwise
  \<open>run_now\<close> raises before the worker reads the error code that the run recorded, and the job fails with
  the general code, whatever went wrong.
\<close>

theorem worker_ingestion:
  assumes "execute_run env i True empty_ingestion = (Inr (), st)" "version_name i" "1 \<le> ie_keep env"
  shows "(case is_manifest st of
      None \<Rightarrow> False
    | Some m \<Rightarrow>
        if li_status (mf_last m) = RunCompleted then worker_ingest env i = Inr (i, int (length (mf_documents m)))
        else worker_ingest env i = Inl (Raised (runtime_error ''Knowledge ingestion failed''))) \<and>
    process_result db build (Inl (worker_exception_of (runtime_error ''Knowledge ingestion failed''))) now = fail_build db build ''build_failed'' now"
proof -
  have fresh: "fresh_version i empty_ingestion" using assms(2) by (simp add: fresh_version_def empty_ingestion_def)
  note result = hoareD [OF hoare_execute [OF empty_published fresh assms(3)] refl assms(1)]
  have "case is_manifest st of
      None \<Rightarrow> False
    | Some m \<Rightarrow>
        if li_status (mf_last m) = RunCompleted then worker_ingest env i = Inr (i, int (length (mf_documents m)))
        else worker_ingest env i = Inl (Raised (runtime_error ''Knowledge ingestion failed''))"
  proof (cases "\<exists>snap. switched i (manifest_of env snap i RunCompleted (Some (ie_completed env)) None (is_manifest empty_ingestion) (Some i)) st")
    case True
    then obtain snap where s: "is_manifest st = Some (manifest_of env snap i RunCompleted (Some (ie_completed env)) None (is_manifest empty_ingestion) (Some i))"
        "active_target st = Some i" by (auto simp: switched_def)
    then have "current_status st = Some RunCompleted" by (simp add: current_status_def manifest_status)
    then show ?thesis
      using s assms(1) version_name_truthy [OF assms(2)]
      by (simp add: worker_ingest_def run_now_def ing_bind_def ing_return_def manifest_status graph_status_def Let_def version_text_def)
        (simp add: manifest_of_def)
  next
    case False
    then have "current_status st = Some RunFailed" using result by auto
    then show ?thesis
      using assms(1)
      by (auto simp: current_status_def worker_ingest_def run_now_def ing_bind_def ing_raise_def split: option.split)
  qed
  moreover have "process_result db build (Inl (worker_exception_of (runtime_error ''Knowledge ingestion failed''))) now = fail_build db build ''build_failed'' now"
    by (simp add: process_result_def message_unclassified)
  ultimately show ?thesis by blast
qed

definition late_run :: ingestion_env where
  "late_run = sample_run\<lparr>ie_graphify := GraphifyTimeout\<rparr>"

lemma worker_ingestion_witness:
  "\<exists>st. execute_run late_run ''v1'' True empty_ingestion = (Inr (), st) \<and>
    map_option (\<lambda>m. li_error (mf_last m)) (is_manifest st) = Some (Some ''graphify_build_timeout'') \<and>
    worker_ingest late_run ''v1'' = Inl (Raised (runtime_error ''Knowledge ingestion failed''))"
proof -
  obtain r st where run: "execute_run late_run ''v1'' True empty_ingestion = (r, st)" by (cases "execute_run late_run ''v1'' True empty_ingestion")
  have "fst (execute_run late_run ''v1'' True empty_ingestion) = Inr ()" by code_simp
  then have r: "r = Inr ()" using run by simp
  have "map_option (\<lambda>m. (li_status (mf_last m), li_error (mf_last m))) (is_manifest (snd (execute_run late_run ''v1'' True empty_ingestion))) =
      Some (RunFailed, Some ''graphify_build_timeout'')" by code_simp
  then obtain m where m: "is_manifest st = Some m" "li_status (mf_last m) = RunFailed" "li_error (mf_last m) = Some ''graphify_build_timeout''"
    using run by auto
  have "version_name ''v1''" "1 \<le> ie_keep late_run"
    using empty_fresh by (simp_all add: late_run_def sample_run_def fresh_version_def)
  from worker_ingestion [OF run [unfolded r] this] show ?thesis using run r m by simp
qed

end
