(* ===== verification/Regex.thy ===== *)
theory Regex
  imports Text_Points
begin

text \<open>
  Regular expressions as the module \<open>re\<close> of the standard library matches them: by backtracking, the first
  alternative and the longest (or, for a lazy repetition, the shortest) repetition first. A pattern gives
  the list of all positions at which a match can end, the preferred one first, with the captured groups.
  A position is an index into the text.
\<close>

section \<open>Patterns\<close>

datatype pattern =
  PChar "nat \<Rightarrow> bool"
| PEmpty
| PSeq pattern pattern
| PAlt pattern pattern
| PStar bool pattern
| PGroup nat pattern
| PBegin
| PEnd
| PBoundary "nat \<Rightarrow> bool"
| PAfter "nat \<Rightarrow> bool"

type_synonym captures = "nat \<Rightarrow> (nat \<times> nat) option"

definition no_captures :: captures where
  "no_captures = (\<lambda>_. None)"

text \<open>At most \<open>n\<close> repetitions, none of them empty.\<close>

primrec repeats :: "bool \<Rightarrow> (nat \<Rightarrow> captures \<Rightarrow> (nat \<times> captures) list) \<Rightarrow> nat \<Rightarrow> nat \<Rightarrow> captures \<Rightarrow> (nat \<times> captures) list" where
  "repeats greedy m 0 i g = [(i, g)]"
| "repeats greedy m (Suc n) i g =
     (let more = concat (map (\<lambda>(j, h). if i < j then repeats greedy m n j h else []) (m i g))
      in if greedy then more @ [(i, g)] else (i, g) # more)"

text \<open>Whether the character at a position, if there is one, satisfies a condition.\<close>

definition char_at :: "ustring \<Rightarrow> nat \<Rightarrow> (nat \<Rightarrow> bool) \<Rightarrow> bool" where
  "char_at t i P \<longleftrightarrow> i < length t \<and> P (t ! i)"

definition char_before :: "ustring \<Rightarrow> nat \<Rightarrow> (nat \<Rightarrow> bool) \<Rightarrow> bool" where
  "char_before t i P \<longleftrightarrow> 0 < i \<and> char_at t (i - 1) P"

primrec ends :: "ustring \<Rightarrow> pattern \<Rightarrow> nat \<Rightarrow> captures \<Rightarrow> (nat \<times> captures) list" where
  "ends t (PChar P) = (\<lambda>i g. if char_at t i P then [(Suc i, g)] else [])"
| "ends t PEmpty = (\<lambda>i g. [(i, g)])"
| "ends t (PSeq p q) = (\<lambda>i g. concat (map (\<lambda>(j, h). ends t q j h) (ends t p i g)))"
| "ends t (PAlt p q) = (\<lambda>i g. ends t p i g @ ends t q i g)"
| "ends t (PStar greedy p) = (\<lambda>i g. repeats greedy (ends t p) (length t - i) i g)"
| "ends t (PGroup n p) = (\<lambda>i g. map (\<lambda>(j, h). (j, h(n := Some (i, j)))) (ends t p i g))"
| "ends t PBegin = (\<lambda>i g. if i = 0 then [(i, g)] else [])"
| "ends t PEnd = (\<lambda>i g. if i = length t \<or> Suc i = length t \<and> t ! i = 10 then [(i, g)] else [])"
| "ends t (PBoundary word) = (\<lambda>i g. if char_before t i word \<noteq> char_at t i word then [(i, g)] else [])"
| "ends t (PAfter P) = (\<lambda>i g. if char_before t i P then [(i, g)] else [])"

definition POpt :: "pattern \<Rightarrow> pattern" where
  "POpt p = PAlt p PEmpty"

definition PPlus :: "bool \<Rightarrow> pattern \<Rightarrow> pattern" where
  "PPlus greedy p = PSeq p (PStar greedy p)"

fun PText :: "ustring \<Rightarrow> pattern" where
  "PText [] = PEmpty"
| "PText (c # cs) = PSeq (PChar (\<lambda>x. x = c)) (PText cs)"

fun PSeqs :: "pattern list \<Rightarrow> pattern" where
  "PSeqs [] = PEmpty"
| "PSeqs [p] = p"
| "PSeqs (p # q # ps) = PSeq p (PSeqs (q # ps))"

section \<open>Matching\<close>

text \<open>\<open>pattern.match(text, i)\<close>: the end of the match and its groups.\<close>

definition match_at :: "pattern \<Rightarrow> ustring \<Rightarrow> nat \<Rightarrow> (nat \<times> captures) option" where
  "match_at p t i = (case ends t p i no_captures of [] \<Rightarrow> None | r # _ \<Rightarrow> Some r)"

text \<open>\<open>pattern.search_pattern(text, i)\<close>: the first start at which the pattern matches, at \<open>n\<close> starts at most.\<close>

primrec search_from :: "pattern \<Rightarrow> ustring \<Rightarrow> nat \<Rightarrow> nat \<Rightarrow> (nat \<times> nat \<times> captures) option" where
  "search_from p t 0 i = None"
| "search_from p t (Suc n) i =
     (case match_at p t i of Some (j, g) \<Rightarrow> Some (i, j, g) | None \<Rightarrow> search_from p t n (Suc i))"

definition search_pattern :: "pattern \<Rightarrow> ustring \<Rightarrow> nat \<Rightarrow> (nat \<times> nat \<times> captures) option" where
  "search_pattern p t i = search_from p t (Suc (length t) - i) i"

text \<open>The text of a group; \<open>None\<close> for a group that took no part in the match.\<close>

definition group_text :: "ustring \<Rightarrow> captures \<Rightarrow> nat \<Rightarrow> ustring option" where
  "group_text t g n = (case g n of None \<Rightarrow> None | Some (i, j) \<Rightarrow> Some (take (j - i) (drop i t)))"

text \<open>
  \<open>re.finditer(pattern, text)\<close>: the starts and ends of the matches, each search_pattern at the end of the match
  before, or behind it when it was empty.
\<close>

primrec matches_from :: "pattern \<Rightarrow> ustring \<Rightarrow> nat \<Rightarrow> nat \<Rightarrow> (nat \<times> nat \<times> captures) list" where
  "matches_from p t 0 i = []"
| "matches_from p t (Suc n) i =
     (case search_pattern p t i of
        None \<Rightarrow> []
      | Some (k, j, g) \<Rightarrow> (k, j, g) # matches_from p t n (if k < j then j else Suc j))"

definition matches :: "pattern \<Rightarrow> ustring \<Rightarrow> (nat \<times> nat \<times> captures) list" where
  "matches p t = matches_from p t (Suc (length t)) 0"

text \<open>\<open>re.split(pattern, text)\<close> for a pattern without groups.\<close>

fun split_at_matches :: "ustring \<Rightarrow> nat \<Rightarrow> (nat \<times> nat \<times> captures) list \<Rightarrow> ustring list" where
  "split_at_matches t i [] = [drop i t]"
| "split_at_matches t i ((k, j, g) # ms) = take (k - i) (drop i t) # split_at_matches t j ms"

definition split_pattern :: "pattern \<Rightarrow> ustring \<Rightarrow> ustring list" where
  "split_pattern p t = split_at_matches t 0 (matches p t)"

section \<open>Lemmas\<close>

text \<open>A match ends at or after its start, and within the text.\<close>

definition forward :: "ustring \<Rightarrow> (nat \<Rightarrow> captures \<Rightarrow> (nat \<times> captures) list) \<Rightarrow> bool" where
  "forward t m \<longleftrightarrow> (\<forall>i g j h. i \<le> length t \<longrightarrow> (j, h) \<in> set (m i g) \<longrightarrow> i \<le> j \<and> j \<le> length t)"

lemma forwardD: "forward t m \<Longrightarrow> (j, h) \<in> set (m i g) \<Longrightarrow> i \<le> length t \<Longrightarrow> i \<le> j \<and> j \<le> length t"
  unfolding forward_def by blast

lemma repeats_forward:
  "forward t m \<Longrightarrow> i \<le> length t \<Longrightarrow> (j, h) \<in> set (repeats greedy m n i g) \<Longrightarrow> i \<le> j \<and> j \<le> length t"
proof (induction n arbitrary: i g)
  case (Suc n)
  from Suc.prems(3) consider "j = i"
    | k h' where "(k, h') \<in> set (m i g)" "i < k" "(j, h) \<in> set (repeats greedy m n k h')"
    by (auto simp: Let_def split: if_splits)
  then show ?case
  proof cases
    case 2
    have "k \<le> length t" using forwardD [OF Suc.prems(1) 2(1) Suc.prems(2)] by simp
    from Suc.IH [OF Suc.prems(1) this 2(3)] 2(2) show ?thesis by simp
  qed (use Suc.prems(2) in simp)
qed simp

lemma ends_forward: "forward t (ends t p)"
proof (induction p)
  case (PSeq p q)
  show ?case unfolding forward_def
  proof (intro allI impI)
    fix i g j h assume i: "i \<le> length t" and "(j, h) \<in> set (ends t (PSeq p q) i g)"
    then obtain k h' where "(k, h') \<in> set (ends t p i g)" and q: "(j, h) \<in> set (ends t q k h')" by auto
    from forwardD [OF PSeq.IH(1) this(1) i] forwardD [OF PSeq.IH(2) q] show "i \<le> j \<and> j \<le> length t" by simp
  qed
next
  case (PStar greedy p)
  show ?case unfolding forward_def
  proof (intro allI impI)
    fix i g j h assume i: "i \<le> length t" and "(j, h) \<in> set (ends t (PStar greedy p) i g)"
    then have "(j, h) \<in> set (repeats greedy (ends t p) (length t - i) i g)" by simp
    from repeats_forward [OF PStar.IH i this] show "i \<le> j \<and> j \<le> length t" .
  qed
next
  case (PAlt p q)
  show ?case unfolding forward_def
  proof (intro allI impI)
    fix i g j h assume i: "i \<le> length t" and "(j, h) \<in> set (ends t (PAlt p q) i g)"
    then consider "(j, h) \<in> set (ends t p i g)" | "(j, h) \<in> set (ends t q i g)" by auto
    then show "i \<le> j \<and> j \<le> length t"
      using forwardD [OF PAlt.IH(1) _ i] forwardD [OF PAlt.IH(2) _ i] by cases
  qed
next
  case (PGroup n p)
  show ?case unfolding forward_def
  proof (intro allI impI)
    fix i g j h assume i: "i \<le> length t" and "(j, h) \<in> set (ends t (PGroup n p) i g)"
    then obtain h' where "(j, h') \<in> set (ends t p i g)" by auto
    from forwardD [OF PGroup.IH this i] show "i \<le> j \<and> j \<le> length t" .
  qed
qed (auto simp: forward_def char_at_def split: if_splits)

lemma match_at_forward:
  assumes "match_at p t i = Some (j, g)" "i \<le> length t"
  shows "i \<le> j \<and> j \<le> length t"
proof -
  have "(j, g) \<in> set (ends t p i no_captures)" using assms(1) by (cases "ends t p i no_captures") (simp_all add: match_at_def)
  from forwardD [OF ends_forward this assms(2)] show ?thesis .
qed

lemma search_from_bounds:
  "search_from p t n i = Some (k, j, g) \<Longrightarrow> i + n \<le> Suc (length t) \<Longrightarrow> i \<le> k \<and> k \<le> j \<and> j \<le> length t"
proof (induction n arbitrary: i)
  case (Suc n)
  show ?case
  proof (cases "match_at p t i")
    case None
    with Suc show ?thesis by fastforce
  next
    case (Some r)
    with Suc.prems have "k = i" "r = (j, g)" by (auto split: prod.splits)
    with match_at_forward [of p t i j g] Some Suc.prems show ?thesis by simp
  qed
qed simp

lemma search_bounds: "search_pattern p t i = Some (k, j, g) \<Longrightarrow> i \<le> k \<and> k \<le> j \<and> j \<le> length t"
  unfolding search_pattern_def
  by (cases "i \<le> Suc (length t)") (auto dest!: search_from_bounds split: if_splits)

lemma matches_from_sorted:
  "sorted (map (\<lambda>(k, j, g). j) (matches_from p t n i)) \<and>
   (\<forall>(k, j, g)\<in>set (matches_from p t n i). i \<le> j \<and> j \<le> length t)"
proof (induction n arbitrary: i)
  case (Suc n)
  show ?case
  proof (cases "search_pattern p t i")
    case (Some r)
    obtain k j g where r: "r = (k, j, g)" by (cases r)
    with Some have b: "i \<le> k \<and> k \<le> j \<and> j \<le> length t" using search_bounds by blast
    define i' where "i' = (if k < j then j else Suc j)"
    have "j \<le> i'" by (simp add: i'_def)
    with Suc [of i'] b show ?thesis
      by (fastforce simp: Some r simp flip: i'_def)
  qed simp
qed simp

lemma matches_sorted:
  "sorted (map (\<lambda>(k, j, g). j) (matches p t))" "(k, j, g) \<in> set (matches p t) \<Longrightarrow> j \<le> length t"
  using matches_from_sorted [where p = p and t = t and n = "Suc (length t)" and i = 0] unfolding matches_def by blast+

end
