(* ===== verification/Chunking.thy ===== *)
theory Chunking
  imports Regex Json
begin

text \<open>
  The structural chunks of a source document (\<open>app/knowledge/chunking.py\<close>) and the profiles that choose
  their sizes (\<open>app/knowledge/profiles.py\<close>): a text is cut at pages, headings and articles; a block that
  is too long for one leaf becomes parents of bounded size, and each parent overlapping leaves. The
  tokenizer, the digest and the tables of Unicode are parameters. A range holds a start and an end.
\<close>

section \<open>Profiles\<close>

datatype hard_boundary = PageBoundary | MarkdownHeading | LegalArticle

record document_profile =
  dp_boundaries :: "hard_boundary list"
  dp_leaf :: nat
  dp_parent :: nat
  dp_overlap :: nat
  dp_threshold :: "int \<times> nat"

text \<open>The threshold is a fraction n / 10 ^ d, with the smallest d.\<close>

definition valid_profile :: "document_profile \<Rightarrow> bool" where
  "valid_profile p \<longleftrightarrow>
     dp_boundaries p \<noteq> [] \<and> 64 \<le> dp_leaf p \<and> dp_leaf p \<le> 4095 \<and> 65 \<le> dp_parent p \<and> dp_parent p \<le> 4096 \<and>
     0 < fst (dp_threshold p) \<and> fst (dp_threshold p) < 10 ^ snd (dp_threshold p) \<and>
     dp_leaf p < dp_parent p \<and> dp_overlap p < dp_leaf p \<and> distinct (dp_boundaries p)"

record profile_rule =
  ru_glob :: ustring
  ru_profile :: ustring

record document_profiles =
  ps_default :: ustring
  ps_rules :: "profile_rule list"
  ps_profiles :: "(ustring \<times> document_profile) list"

text \<open>\<open>^[A-Za-z0-9][A-Za-z0-9._-]{0,63}$\<close>, all of it.\<close>

definition name_char :: "nat \<Rightarrow> bool" where
  "name_char c \<longleftrightarrow> 65 \<le> c \<and> c \<le> 90 \<or> 97 \<le> c \<and> c \<le> 122 \<or> 48 \<le> c \<and> c \<le> 57"

definition profile_name :: "ustring \<Rightarrow> bool" where
  "profile_name s \<longleftrightarrow>
     (case s of [] \<Rightarrow> False | c # cs \<Rightarrow> name_char c \<and> length cs \<le> 63 \<and> list_all (\<lambda>x. name_char x \<or> x \<in> {46, 95, 45}) cs)"

text \<open>\<open>value.split("/")\<close>.\<close>

fun split_slash :: "ustring \<Rightarrow> ustring list" where
  "split_slash [] = [[]]"
| "split_slash (c # cs) =
     (if c = 47 then [] # split_slash cs
      else case split_slash cs of [] \<Rightarrow> [[c]] | p # ps \<Rightarrow> (c # p) # ps)"

definition valid_rule :: "profile_rule \<Rightarrow> bool" where
  "valid_rule r \<longleftrightarrow>
     1 \<le> length (ru_glob r) \<and> length (ru_glob r) \<le> 512 \<and> profile_name (ru_profile r) \<and>
     take 1 (ru_glob r) \<noteq> [47] \<and> [46, 46] \<notin> set (split_slash (ru_glob r)) \<and> 92 \<notin> set (ru_glob r)"

definition valid_profiles :: "document_profiles \<Rightarrow> bool" where
  "valid_profiles ps \<longleftrightarrow>
     profile_name (ps_default ps) \<and> list_all (\<lambda>x. profile_name (fst x) \<and> valid_profile (snd x)) (ps_profiles ps) \<and>
     ps_default ps \<in> set (map fst (ps_profiles ps)) \<and>
     list_all (\<lambda>r. valid_rule r \<and> ru_profile r \<in> set (map fst (ps_profiles ps))) (ps_rules ps) \<and>
     distinct (map ru_glob (ps_rules ps))"

text \<open>\<open>PurePosixPath(path).match(glob)\<close> is the argument \<open>glob\<close>. A missing profile is a \<open>KeyError\<close>.\<close>

definition select_profile ::
  "(ustring \<Rightarrow> ustring \<Rightarrow> bool) \<Rightarrow> document_profiles \<Rightarrow> ustring \<Rightarrow> (ustring \<times> document_profile) option" where
  "select_profile glob ps path =
     (let name = (case List.find (\<lambda>r. glob path (ru_glob r)) (ps_rules ps) of
                    Some r \<Rightarrow> ru_profile r | None \<Rightarrow> ps_default ps)
      in map_option (Pair name) (map_of (ps_profiles ps) name))"

section \<open>The environment\<close>

record chunk_env =
  ce_encode :: "ustring \<Rightarrow> nat list"
  ce_offsets :: "nat list \<Rightarrow> ustring \<times> nat list"
  ce_digest :: "ustring \<Rightarrow> ustring"
  ce_digit :: "nat \<Rightarrow> bool"
  ce_word :: "nat \<Rightarrow> bool"
  ce_same :: "nat \<Rightarrow> nat \<Rightarrow> bool"
  ce_upper :: "ustring \<Rightarrow> ustring"

definition token_count :: "chunk_env \<Rightarrow> ustring \<Rightarrow> nat" where
  "token_count env t = length (ce_encode env t)"

definition text_slice :: "ustring \<Rightarrow> nat \<Rightarrow> nat \<Rightarrow> ustring" where
  "text_slice t a b = take (b - a) (drop a t)"

text \<open>\<open>not text.strip()\<close>.\<close>

definition blank :: "ustring \<Rightarrow> bool" where
  "blank t \<longleftrightarrow> strip_text t = []"

text \<open>Characters under \<open>IGNORECASE\<close>.\<close>

definition PCase :: "chunk_env \<Rightarrow> nat list \<Rightarrow> pattern" where
  "PCase env cs = PChar (\<lambda>x. list_ex (ce_same env x) cs)"

definition PCases :: "chunk_env \<Rightarrow> ustring \<Rightarrow> pattern" where
  "PCases env cs = PSeqs (map (\<lambda>c. PCase env [c]) cs)"

definition PSpaces :: pattern where
  "PSpaces = PPlus True (PChar is_space)"

definition article_pattern :: "chunk_env \<Rightarrow> pattern" where
  "article_pattern env =
     PSeqs [PBoundary (ce_word env), PCases env (ascii ''ART''), PCase env [73, 205], PCases env (ascii ''CULO''), PSpaces,
       PGroup 1 (PSeq (PPlus True (PChar (ce_digit env))) (POpt (PCase env [65..<91]))), PBoundary (ce_word env)]"

definition marker_pattern :: "chunk_env \<Rightarrow> pattern" where
  "marker_pattern env =
     PSeqs [PBegin, PStar True (PChar is_space),
       POpt (PSeq (PPlus True (PChar (\<lambda>c. c \<in> {35, 62, 42, 45}))) (PStar True (PChar is_space))),
       PStar True (PChar (\<lambda>c. c = 42)), PStar True (PChar is_space),
       PGroup 1 (PAlt (PSeq (PCase env [97..<123]) (PChar (\<lambda>c. c = 41)))
         (PAlt (PSeq (PPlus True (PChar (ce_digit env))) (PChar (\<lambda>c. c \<in> {46, 41})))
           (PSeqs [PCases env (ascii ''PAR''), PCase env [65, 193], PCases env (ascii ''GRAFO''),
             POpt (PSeq PSpaces (PPlus True (PChar (ce_digit env))))])))]"

definition heading_pattern :: pattern where
  "heading_pattern =
     (let hash = PChar (\<lambda>c. c = 35) in
      PSeqs [PBegin, PGroup 1 (PSeqs [hash, POpt (PSeq hash (POpt (PSeq hash (POpt (PSeq hash (POpt (PSeq hash (POpt hash))))))))]),
        PSpaces, PGroup 2 (PPlus False (PChar (\<lambda>c. c \<noteq> 10))), PStar True (PChar is_space), PEnd])"

section \<open>Blocks\<close>

record structural_block =
  sb_start :: nat
  sb_end :: nat
  sb_page :: "nat option"
  sb_section :: "ustring list"
  sb_article :: "ustring option"

text \<open>\<open>text.splitlines(keepends=True)\<close>.\<close>

definition line_break :: "nat \<Rightarrow> bool" where
  "line_break c \<longleftrightarrow> 10 \<le> c \<and> c \<le> 13 \<or> 28 \<le> c \<and> c \<le> 30 \<or> c = 133 \<or> c = 8232 \<or> c = 8233"

fun lines_keep :: "ustring \<Rightarrow> ustring list" where
  "lines_keep [] = []"
| "lines_keep (c # cs) =
     (if c = 13 \<and> take 1 cs = [10] then [13, 10] # lines_keep (drop 1 cs)
      else if line_break c then [c] # lines_keep cs
      else case lines_keep cs of [] \<Rightarrow> [[c]] | l # ls \<Rightarrow> (c # l) # ls)"

definition rstrip_breaks :: "ustring \<Rightarrow> ustring" where
  "rstrip_breaks l = rev (dropWhile (\<lambda>c. c \<in> {10, 13, 12}) (rev l))"

datatype block_event = PageEvent | HeadingEvent nat ustring | ArticleEvent ustring

definition line_events :: "chunk_env \<Rightarrow> hard_boundary list \<Rightarrow> ustring \<Rightarrow> block_event list" where
  "line_events env bs line =
     (let v = rstrip_breaks line in
      (case match_at heading_pattern v 0 of
         Some (_, g) \<Rightarrow>
           if MarkdownHeading \<in> set bs
           then [HeadingEvent (length (the (group_text v g 1))) (strip_text (the (group_text v g 2)))] else []
       | None \<Rightarrow> []) @
      (case search_pattern (article_pattern env) v 0 of
         Some (_, _, g) \<Rightarrow> if LegalArticle \<in> set bs then [ArticleEvent (ce_upper env (the (group_text v g 1)))] else []
       | None \<Rightarrow> []))"

text \<open>The events of all lines with the position of their line; those of the pages come first.\<close>

fun events_from :: "chunk_env \<Rightarrow> hard_boundary list \<Rightarrow> nat \<Rightarrow> ustring list \<Rightarrow> (nat \<times> block_event) list" where
  "events_from env bs i [] = []"
| "events_from env bs i (l # ls) = map (Pair i) (line_events env bs l) @ events_from env bs (i + length l) ls"

definition block_events :: "chunk_env \<Rightarrow> hard_boundary list \<Rightarrow> ustring \<Rightarrow> (nat \<times> block_event) list" where
  "block_events env bs t =
     (if PageBoundary \<in> set bs then map (\<lambda>(_, j, _). (j, PageEvent)) (matches (PChar (\<lambda>c. c = 12)) t) else []) @
     events_from env bs 0 (lines_keep t)"

record block_state =
  bs_start :: nat
  bs_page :: nat
  bs_headings :: "ustring list"
  bs_article :: "ustring option"
  bs_blocks :: "structural_block list"

definition flush_block :: "hard_boundary list \<Rightarrow> ustring \<Rightarrow> nat \<Rightarrow> block_state \<Rightarrow> block_state" where
  "flush_block bs t e st =
     (let block = \<lparr>sb_start = bs_start st, sb_end = e,
            sb_page = (if PageBoundary \<in> set bs then Some (bs_page st) else None),
            sb_section = bs_headings st, sb_article = bs_article st\<rparr>
      in st\<lparr>bs_blocks := bs_blocks st @ (if bs_start st < e \<and> \<not> blank (text_slice t (bs_start st) e) then [block] else []),
            bs_start := e\<rparr>)"

fun apply_event :: "block_event \<Rightarrow> block_state \<Rightarrow> block_state" where
  "apply_event PageEvent st = st\<lparr>bs_page := bs_page st + 1, bs_article := None\<rparr>"
| "apply_event (HeadingEvent d v) st = st\<lparr>bs_headings := take (d - 1) (bs_headings st) @ [v]\<rparr>"
| "apply_event (ArticleEvent v) st = st\<lparr>bs_article := Some v\<rparr>"

definition at_position :: "hard_boundary list \<Rightarrow> ustring \<Rightarrow> (nat \<times> block_event) list \<Rightarrow> nat \<Rightarrow> block_state \<Rightarrow> block_state" where
  "at_position bs t evs i st = fold (\<lambda>(j, e). apply_event e) (filter (\<lambda>(j, e). j = i) evs) (flush_block bs t i st)"

definition first_block_state :: block_state where
  "first_block_state = \<lparr>bs_start = 0, bs_page = 1, bs_headings = [], bs_article = None, bs_blocks = []\<rparr>"

definition structural_blocks :: "chunk_env \<Rightarrow> document_profile \<Rightarrow> ustring \<Rightarrow> structural_block list" where
  "structural_blocks env p t =
     (let bs = dp_boundaries p; evs = block_events env bs t
      in bs_blocks (flush_block bs t (length t)
           (fold (at_position bs t evs) (sort (remdups (map fst evs))) first_block_state)))"

section \<open>Ranges\<close>

type_synonym range = "nat \<times> nat"

text \<open>A decoded text other than the source raises \<open>ValueError\<close>.\<close>

datatype chunk_error = OffsetsNotPreserved

fun traverse :: "('a \<Rightarrow> 'e + 'b) \<Rightarrow> 'a list \<Rightarrow> 'e + 'b list" where
  "traverse f [] = Inr []"
| "traverse f (x # xs) =
     (case f x of Inl e \<Rightarrow> Inl e | Inr y \<Rightarrow> (case traverse f xs of Inl e \<Rightarrow> Inl e | Inr ys \<Rightarrow> Inr (y # ys)))"

text \<open>
  The starts and ends of the windows of tokens: \<open>range(0, n, step)\<close> up to the first window that reaches
  the end. The step of a valid profile is positive.
\<close>

function token_spans :: "nat \<Rightarrow> nat \<Rightarrow> nat \<Rightarrow> nat \<Rightarrow> range list" where
  "token_spans n limit step s =
     (if n \<le> s \<or> step = 0 then []
      else let e = min (s + limit) n in (s, e) # (if e = n then [] else token_spans n limit step (s + step)))"
  by pat_completeness auto
termination by (relation "measure (\<lambda>(n, limit, step, s). n - s)") auto

declare token_spans.simps [simp del]

definition token_windows :: "chunk_env \<Rightarrow> ustring \<Rightarrow> nat \<Rightarrow> nat \<Rightarrow> nat \<Rightarrow> chunk_error + range list" where
  "token_windows env t limit overlap base =
     (let tokens = ce_encode env t in
      if tokens = [] then Inr []
      else
        let (decoded, offsets) = ce_offsets env tokens in
        if decoded \<noteq> t then Inl OffsetsNotPreserved
        else Inr (map (\<lambda>(s, e). (base + offsets ! s, base + (if e < length offsets then offsets ! e else length t)))
               (token_spans (length tokens) limit (limit - overlap) 0)))"

fun zip_next :: "'a list \<Rightarrow> ('a \<times> 'a) list" where
  "zip_next (x # y # ys) = (x, y) # zip_next (y # ys)"
| "zip_next _ = []"

definition split_preserving :: "ustring \<Rightarrow> pattern \<Rightarrow> range \<Rightarrow> range list" where
  "split_preserving t p r =
     (let points = map (\<lambda>(_, j, _). fst r + j) (matches p (text_slice t (fst r) (snd r)))
      in filter (\<lambda>(a, b). a < b) (zip_next (fst r # points @ [snd r])))"

fun pack_from :: "chunk_env \<Rightarrow> ustring \<Rightarrow> nat \<Rightarrow> range option \<Rightarrow> range list \<Rightarrow> range list" where
  "pack_from env t limit None [] = []"
| "pack_from env t limit (Some c) [] = [c]"
| "pack_from env t limit None (p # ps) = pack_from env t limit (Some p) ps"
| "pack_from env t limit (Some c) (p # ps) =
     (if limit < token_count env (text_slice t (fst c) (snd p))
      then c # pack_from env t limit (Some p) ps
      else pack_from env t limit (Some (fst c, snd p)) ps)"

definition pack_ranges :: "chunk_env \<Rightarrow> ustring \<Rightarrow> nat \<Rightarrow> range list \<Rightarrow> range list" where
  "pack_ranges env t limit pieces = pack_from env t limit None pieces"

definition fits :: "chunk_env \<Rightarrow> ustring \<Rightarrow> nat \<Rightarrow> range \<Rightarrow> bool" where
  "fits env t limit r \<longleftrightarrow> token_count env (text_slice t (fst r) (snd r)) \<le> limit"

text \<open>\<open>\n\s*\n+\<close>, \<open>(?<=[.!?])\s+\<close>, \<open>\n+\<close> and \<open>\s+\<close>.\<close>

definition split_patterns :: "pattern list" where
  "split_patterns =
     [PSeqs [PChar (\<lambda>c. c = 10), PStar True (PChar is_space), PPlus True (PChar (\<lambda>c. c = 10))],
      PSeq (PAfter (\<lambda>c. c \<in> {46, 33, 63})) PSpaces,
      PPlus True (PChar (\<lambda>c. c = 10)),
      PSpaces]"

definition refine_ranges :: "chunk_env \<Rightarrow> ustring \<Rightarrow> nat \<Rightarrow> pattern \<Rightarrow> range list \<Rightarrow> range list" where
  "refine_ranges env t limit p rs =
     concat (map (\<lambda>r. if fits env t limit r then [r] else pack_ranges env t limit (split_preserving t p r)) rs)"

definition bounded_ranges :: "chunk_env \<Rightarrow> ustring \<Rightarrow> nat \<Rightarrow> chunk_error + range list" where
  "bounded_ranges env t limit =
     (case traverse (\<lambda>r. if fits env t limit r then Inr [r]
                         else token_windows env (text_slice t (fst r) (snd r)) limit 0 (fst r))
             (fold (refine_ranges env t limit) split_patterns [(0, length t)]) of
        Inl e \<Rightarrow> Inl e
      | Inr rss \<Rightarrow> Inr (filter (\<lambda>(a, b). \<not> blank (text_slice t a b)) (concat rss)))"

section \<open>Chunks\<close>

record chunk =
  ch_id :: ustring
  ch_text :: ustring
  ch_level :: nat
  ch_parent :: "ustring option"
  ch_children :: "ustring list"
  ch_tokens :: nat
  ch_start :: nat
  ch_end :: nat
  ch_start_line :: nat
  ch_end_line :: nat
  ch_page :: "nat option"
  ch_section :: "ustring list"
  ch_article :: "ustring option"
  ch_paragraph :: "ustring option"
  ch_standalone :: bool

definition chunk_identity :: "chunk_env \<Rightarrow> ustring \<Rightarrow> ustring \<Rightarrow> nat \<Rightarrow> nat \<Rightarrow> string \<Rightarrow> ustring" where
  "chunk_identity env document checksum a b kind =
     take 24 (ce_digest env (join_text [0] [document, checksum, nat_digits a, nat_digits b, ascii kind]))"

definition chunk_id :: "ustring \<Rightarrow> ustring" where
  "chunk_id identity = ascii ''source:'' @ identity"

definition newlines :: "ustring \<Rightarrow> nat \<Rightarrow> nat" where
  "newlines t e = length (filter (\<lambda>c. c = 10) (take e t))"

definition make_chunk ::
  "chunk_env \<Rightarrow> ustring \<Rightarrow> structural_block \<Rightarrow> range \<Rightarrow> ustring \<Rightarrow> nat \<Rightarrow> ustring option \<Rightarrow> ustring list \<Rightarrow> bool \<Rightarrow> chunk"
where
  "make_chunk env t block r i level parent children standalone =
     (let v = text_slice t (fst r) (snd r) in
      \<lparr>ch_id = i, ch_text = v, ch_level = level, ch_parent = parent, ch_children = children, ch_tokens = token_count env v,
       ch_start = fst r, ch_end = snd r, ch_start_line = newlines t (fst r) + 1,
       ch_end_line = newlines t (max (fst r) (snd r - 1)) + 1,
       ch_page = sb_page block, ch_section = sb_section block, ch_article = sb_article block,
       ch_paragraph = (case match_at (marker_pattern env) v 0 of
          Some (_, g) \<Rightarrow> Some (strip_text (the (group_text v g 1))) | None \<Rightarrow> None),
       ch_standalone = standalone\<rparr>)"

text \<open>A parent with its leaves.\<close>

definition parent_chunks ::
  "chunk_env \<Rightarrow> ustring \<Rightarrow> ustring \<Rightarrow> document_profile \<Rightarrow> ustring \<Rightarrow> structural_block \<Rightarrow> range \<Rightarrow> chunk_error + chunk list"
where
  "parent_chunks env document checksum p t block r =
     (case token_windows env (text_slice t (fst r) (snd r)) (dp_leaf p) (dp_overlap p) 0 of
        Inl e \<Rightarrow> Inl e
      | Inr windows \<Rightarrow>
          let parent = chunk_id (chunk_identity env document checksum (fst r) (snd r) ''parent'');
              leaves = map (\<lambda>(a, b).
                let l = (fst r + a, fst r + b) in
                make_chunk env t block l (chunk_id (chunk_identity env document checksum (fst l) (snd l) ''leaf-1''))
                  1 (Some parent) [] False) windows
          in Inr (make_chunk env t block r parent 0 None (map ch_id leaves) False # leaves))"

definition block_chunks ::
  "chunk_env \<Rightarrow> ustring \<Rightarrow> ustring \<Rightarrow> document_profile \<Rightarrow> ustring \<Rightarrow> structural_block \<Rightarrow> chunk_error + chunk list"
where
  "block_chunks env document checksum p t block =
     (let r = (sb_start block, sb_end block); v = text_slice t (sb_start block) (sb_end block) in
      if blank v then Inr []
      else if token_count env v \<le> dp_leaf p
      then Inr [make_chunk env t block r (chunk_id (chunk_identity env document checksum (fst r) (snd r) ''leaf-0'')) 0 None [] True]
      else case bounded_ranges env v (dp_parent p) of
        Inl e \<Rightarrow> Inl e
      | Inr rs \<Rightarrow>
          (case traverse (\<lambda>(a, b). parent_chunks env document checksum p t block (sb_start block + a, sb_start block + b)) rs of
             Inl e \<Rightarrow> Inl e | Inr css \<Rightarrow> Inr (concat css)))"

definition build_chunks ::
  "chunk_env \<Rightarrow> ustring \<Rightarrow> ustring \<Rightarrow> document_profile \<Rightarrow> ustring \<Rightarrow> chunk_error + chunk list"
where
  "build_chunks env document checksum p t =
     (case traverse (block_chunks env document checksum p t) (structural_blocks env p t) of
        Inl e \<Rightarrow> Inl e | Inr css \<Rightarrow> Inr (concat css))"

end
