(* ===== verification/Source_Index.thy ===== *)
theory Source_Index
  imports Chunking "HOL-Library.Product_Lexorder"
begin

text \<open>
  The index of source passages (\<open>app/knowledge/source_index.py\<close>) and the retriever over it
  (\<open>app/integrations/haystack/retriever.py\<close>). The database is a table of passages with the key of
  identifier and version, and the virtual table for the full-text search; its columns in JSON are lists
  here. The ranks of SQLite's full-text search and the two Haystack components are parameters. A score
  is an integer multiple of the smallest float.
\<close>

section \<open>The tables\<close>

record passage =
  pa_chunk :: chunk
  pa_document :: ustring
  pa_checksum :: ustring
  pa_version :: ustring
  pa_media_type :: ustring
  pa_profile :: ustring
  pa_fingerprint :: ustring
  pa_threshold :: "int \<times> nat"
  pa_score :: "int option"

abbreviation pa_id :: "passage \<Rightarrow> ustring" where
  "pa_id p \<equiv> ch_id (pa_chunk p)"

abbreviation pa_leaf :: "passage \<Rightarrow> bool" where
  "pa_leaf p \<equiv> ch_children (pa_chunk p) = []"

record fts_row =
  ft_text :: ustring
  ft_document :: ustring
  ft_article :: ustring
  ft_passage :: ustring
  ft_version :: ustring

record index_db =
  ix_rows :: "passage list"
  ix_fts :: "fts_row list"

definition empty_index :: index_db where
  "empty_index = \<lparr>ix_rows = [], ix_fts = []\<rparr>"

record source_text =
  so_path :: ustring
  so_content :: ustring
  so_sha256 :: ustring
  so_media_type :: ustring

section \<open>Building\<close>

datatype index_error = ChunkingFailed chunk_error | ProfileMissing | DuplicatePassage

record index_env =
  ie_chunks :: chunk_env
  ie_glob :: "ustring \<Rightarrow> ustring \<Rightarrow> bool"
  ie_rank :: "ustring \<Rightarrow> fts_row \<Rightarrow> int option"

definition document_passages ::
  "index_env \<Rightarrow> document_profiles \<Rightarrow> ustring \<Rightarrow> ustring \<Rightarrow> source_text \<Rightarrow> index_error + passage list"
where
  "document_passages env profiles fingerprint version d =
     (case select_profile (ie_glob env) profiles (so_path d) of
        None \<Rightarrow> Inl ProfileMissing
      | Some (name, profile) \<Rightarrow>
          (case build_chunks (ie_chunks env) (so_path d) (so_sha256 d) profile (so_content d) of
             Inl e \<Rightarrow> Inl (ChunkingFailed e)
           | Inr cs \<Rightarrow> Inr (map (\<lambda>c. \<lparr>pa_chunk = c, pa_document = so_path d, pa_checksum = so_sha256 d, pa_version = version,
                 pa_media_type = so_media_type d, pa_profile = name, pa_fingerprint = fingerprint,
                 pa_threshold = dp_threshold profile, pa_score = None\<rparr>) cs)))"

text \<open>\<open>executemany\<close> with the primary key.\<close>

fun insert_passages :: "passage list \<Rightarrow> passage list \<Rightarrow> index_error + passage list" where
  "insert_passages [] rows = Inr rows"
| "insert_passages (p # ps) rows =
     (if list_ex (\<lambda>r. pa_id r = pa_id p \<and> pa_version r = pa_version p) rows then Inl DuplicatePassage
      else insert_passages ps (rows @ [p]))"

definition fts_of :: "passage \<Rightarrow> fts_row" where
  "fts_of p = \<lparr>ft_text = ch_text (pa_chunk p), ft_document = pa_document p,
     ft_article = (case ch_article (pa_chunk p) of None \<Rightarrow> [] | Some a \<Rightarrow> a), ft_passage = pa_id p, ft_version = pa_version p\<rparr>"

text \<open>The database file of an earlier run, if there is one; the result is the number of leaves.\<close>

definition rebuild_index ::
  "index_env \<Rightarrow> document_profiles \<Rightarrow> ustring \<Rightarrow> ustring \<Rightarrow> source_text list \<Rightarrow> index_db option \<Rightarrow>
    (index_error + nat) \<times> index_db option"
where
  "rebuild_index env profiles fingerprint version docs file =
     (case traverse (document_passages env profiles fingerprint version) docs of
        Inl e \<Rightarrow> (Inl e, file)
      | Inr pss \<Rightarrow>
          let passages = concat pss; leaves = filter pa_leaf passages;
              db = (case file of None \<Rightarrow> empty_index | Some db \<Rightarrow> db)
          in case insert_passages passages (filter (\<lambda>r. pa_version r \<noteq> version) (ix_rows db)) of
               Inl e \<Rightarrow> (Inl e, Some db)
             | Inr rows \<Rightarrow>
                 (Inr (length leaves),
                  Some \<lparr>ix_rows = rows, ix_fts = filter (\<lambda>f. ft_version f \<noteq> version) (ix_fts db) @ map fts_of leaves\<rparr>))"

section \<open>Reading\<close>

definition index_has_version :: "index_db option \<Rightarrow> ustring \<Rightarrow> ustring option \<Rightarrow> bool" where
  "index_has_version file version fingerprint \<longleftrightarrow>
     (case file of
        None \<Rightarrow> False
      | Some db \<Rightarrow> list_ex (\<lambda>r. pa_version r = version \<and> (case fingerprint of None \<Rightarrow> True | Some f \<Rightarrow> pa_fingerprint r = f)) (ix_rows db))"

definition passage_in_scope :: "ustring \<Rightarrow> ustring list \<Rightarrow> ustring list \<Rightarrow> passage \<Rightarrow> bool" where
  "passage_in_scope version documents articles r \<longleftrightarrow>
     pa_version r = version \<and> pa_document r \<in> set documents \<and> pa_leaf r \<and>
     (articles = [] \<or> (case ch_article (pa_chunk r) of None \<Rightarrow> False | Some a \<Rightarrow> a \<in> set articles))"

definition scoped_passages :: "index_db option \<Rightarrow> ustring \<Rightarrow> ustring list \<Rightarrow> ustring list \<Rightarrow> nat \<Rightarrow> passage list" where
  "scoped_passages file version documents articles limit =
     (case file of
        None \<Rightarrow> []
      | Some db \<Rightarrow>
          if documents = [] then []
          else take limit (sort_key (\<lambda>r. (pa_document r, ch_start (pa_chunk r))) (filter (passage_in_scope version documents articles) (ix_rows db))))"

text \<open>\<open>re.findall(r"[\w]+", query)\<close>.\<close>

definition find_words :: "(nat \<Rightarrow> bool) \<Rightarrow> ustring \<Rightarrow> ustring list" where
  "find_words word q = map (\<lambda>(k, j, _). take (j - k) (drop k q)) (matches (PPlus True (PChar word)) q)"

definition match_query :: "ustring list \<Rightarrow> ustring" where
  "match_query tokens = join_text (ascii '' OR '') (map (\<lambda>w. 34 # w @ [34]) (take 32 tokens))"

definition search_passages ::
  "index_env \<Rightarrow> index_db option \<Rightarrow> ustring \<Rightarrow> ustring \<Rightarrow> ustring list \<Rightarrow> ustring list \<Rightarrow> nat \<Rightarrow> passage list"
where
  "search_passages env file query version documents articles limit =
     (let tokens = find_words (ce_word (ie_chunks env)) query in
      if tokens = [] then scoped_passages file version documents articles limit
      else case file of
        None \<Rightarrow> []
      | Some db \<Rightarrow>
          if documents = [] then []
          else
            let joined = concat (map (\<lambda>f. case ie_rank env (match_query tokens) f of
                    None \<Rightarrow> []
                  | Some rank \<Rightarrow> map (\<lambda>r. (rank, r)) (filter (\<lambda>r. pa_id r = ft_passage f \<and> pa_version r = ft_version f \<and>
                      passage_in_scope version documents articles r) (ix_rows db))) (ix_fts db))
            in map (\<lambda>(rank, r). r\<lparr>pa_score := Some (- rank)\<rparr>) (take limit (sort_key fst joined)))"

definition parent_passages :: "index_db option \<Rightarrow> ustring \<Rightarrow> ustring list \<Rightarrow> passage list" where
  "parent_passages file version ids =
     (case file of
        None \<Rightarrow> []
      | Some db \<Rightarrow> filter (\<lambda>r. pa_version r = version \<and> pa_id r \<in> set ids \<and> \<not> pa_leaf r) (ix_rows db))"

section \<open>The retriever\<close>

record retriever_env =
  re_index :: index_env
  re_nfkd :: "ustring \<Rightarrow> ustring"
  re_combining :: "nat \<Rightarrow> bool"
  re_lower :: "ustring \<Rightarrow> ustring"
  re_decimal :: "ustring \<Rightarrow> bool"
  re_bm25 :: "(ustring \<times> ustring) list \<Rightarrow> nat \<Rightarrow> ustring \<Rightarrow> (ustring \<times> int option) list"
  re_merge :: "int \<times> nat \<Rightarrow> passage list \<Rightarrow> passage list \<Rightarrow> ustring list"

definition fold_accents :: "retriever_env \<Rightarrow> ustring \<Rightarrow> ustring" where
  "fold_accents env s = filter (\<lambda>c. \<not> re_combining env c) (re_nfkd env s)"

definition question_stop_words :: "ustring list" where
  "question_stop_words = map ascii
     [''a'', ''al'', ''asigna'', ''asignar'', ''como'', ''cuando'', ''de'', ''del'', ''el'', ''en'', ''la'', ''las'', ''ley'', ''lo'',
      ''los'', ''que'', ''persona'', ''se'', ''segun'', ''su'', ''una'', ''un'', ''y'']"

definition has_prefix :: "ustring \<Rightarrow> ustring \<Rightarrow> bool" where
  "has_prefix p s \<longleftrightarrow> take (length p) s = p"

definition retrieval_query :: "retriever_env \<Rightarrow> ustring \<Rightarrow> ustring" where
  "retrieval_query env query =
     (let folded = re_lower env (fold_accents env query);
          terms = filter (\<lambda>w. w \<notin> set question_stop_words \<and> \<not> re_decimal env w)
            (find_words (ce_word (ie_chunks (re_index env))) folded);
          dead = has_prefix (ascii ''fallec'');
          terms = (if list_ex dead terms
            then filter (\<lambda>w. \<not> dead w) terms @ map ascii [''muerte'', ''sobrevivientes'', ''beneficiarios''] else terms);
          q = join_text [32] (unique terms)
      in if q = [] then folded else q)"

text \<open>The value of a key in a dictionary filled with the passages: the last of the key.\<close>

definition passage_of :: "passage list \<Rightarrow> ustring \<Rightarrow> passage option" where
  "passage_of ps i = map_of (rev (map (\<lambda>p. (pa_id p, p)) ps)) i"

definition best_score :: "passage list \<Rightarrow> ustring \<Rightarrow> int option" where
  "best_score hierarchical parent =
     (case List.map_filter (\<lambda>p. if ch_parent (pa_chunk p) = Some parent \<and> parent \<noteq> [] then pa_score p else None) hierarchical of
        [] \<Rightarrow> None | s # ss \<Rightarrow> Some (fold max ss s))"

definition merged_group ::
  "retriever_env \<Rightarrow> passage list \<Rightarrow> passage list \<Rightarrow> int \<times> nat \<Rightarrow> passage list"
where
  "merged_group env parents hierarchical threshold =
     (let group = filter (\<lambda>p. pa_threshold p = threshold \<and>
             (case ch_parent (pa_chunk p) of None \<Rightarrow> False | Some q \<Rightarrow> passage_of parents q \<noteq> None)) hierarchical;
          ids = map (\<lambda>p. ch_parent (pa_chunk p)) group
      in List.map_filter (\<lambda>i.
           case passage_of parents i of
             Some p \<Rightarrow> Some (p\<lparr>pa_score := best_score hierarchical i\<rparr>)
           | None \<Rightarrow> passage_of hierarchical i)
         (re_merge env threshold (filter (\<lambda>p. Some (pa_id p) \<in> set ids) parents) group))"

text \<open>Thresholds of distinct fractions; the code sorts them as numbers.\<close>

definition fraction_less :: "int \<times> nat \<Rightarrow> int \<times> nat \<Rightarrow> bool" where
  "fraction_less a b \<longleftrightarrow> fst a * 10 ^ snd b < fst b * 10 ^ snd a"

fun insert_fraction :: "int \<times> nat \<Rightarrow> (int \<times> nat) list \<Rightarrow> (int \<times> nat) list" where
  "insert_fraction x [] = [x]"
| "insert_fraction x (y # ys) = (if fraction_less y x then y # insert_fraction x ys else x # y # ys)"

definition thresholds :: "passage list \<Rightarrow> (int \<times> nat) list" where
  "thresholds ps = fold insert_fraction (unique (map pa_threshold ps)) []"

definition merged_passages :: "retriever_env \<Rightarrow> index_db option \<Rightarrow> ustring \<Rightarrow> passage list \<Rightarrow> passage list \<Rightarrow> passage list" where
  "merged_passages env file version standalone hierarchical =
     (let parent_ids = sort (unique (List.map_filter (\<lambda>p. case ch_parent (pa_chunk p) of Some q \<Rightarrow> if q = [] then None else Some q | None \<Rightarrow> None) hierarchical));
          parents = parent_passages file version parent_ids;
          unresolved = filter (\<lambda>p. case ch_parent (pa_chunk p) of None \<Rightarrow> True | Some q \<Rightarrow> passage_of parents q = None) hierarchical
      in standalone @ unresolved @ concat (map (merged_group env parents hierarchical) (thresholds hierarchical)))"

definition retrieve :: "retriever_env \<Rightarrow> index_db option \<Rightarrow> ustring \<Rightarrow> ustring \<Rightarrow> ustring list \<Rightarrow> ustring list \<Rightarrow> nat \<Rightarrow> passage list" where
  "retrieve env file version query documents articles top_k =
     (let lexical = retrieval_query env query;
          passages = search_passages (re_index env) file lexical version documents articles 100 in
      if passages = [] then []
      else
        let found = re_bm25 env (map (\<lambda>p. (pa_id p, ch_text (pa_chunk p) @ 10 # fold_accents env (ch_text (pa_chunk p)))) passages) top_k lexical;
            selected = List.map_filter (\<lambda>(i, s). map_option (\<lambda>p. p\<lparr>pa_score := s\<rparr>) (passage_of passages i)) found;
            standalone = filter (\<lambda>p. ch_standalone (pa_chunk p)) selected;
            hierarchical = filter (\<lambda>p. \<not> ch_standalone (pa_chunk p) \<and> ch_parent (pa_chunk p) \<noteq> None) selected
        in if hierarchical = [] then take top_k standalone
           else
             let combined = merged_passages env file version standalone hierarchical;
                 deduplicated = List.map_filter (passage_of combined) (unique (map pa_id combined))
             in take top_k (rev (sort_key (\<lambda>p. (pa_score p \<noteq> None, case pa_score p of None \<Rightarrow> 0 | Some s \<Rightarrow> s, pa_id p)) (rev deduplicated))))"

end
