(* ===== verification/Chunking_Properties.thy ===== *)
theory Chunking_Properties
  imports Chunking
begin

text \<open>
  The chunks of a document lose nothing of it: ranges are split, packed and cut into windows without gaps,
  so every character that is no space is in a leaf, and leaves and parents point at each other.
\<close>

section \<open>Ranges without gaps\<close>

fun chain :: "nat \<Rightarrow> range list \<Rightarrow> nat \<Rightarrow> bool" where
  "chain a [] b \<longleftrightarrow> a = b"
| "chain a (r # rs) b \<longleftrightarrow> fst r = a \<and> a < snd r \<and> chain (snd r) rs b"

lemma chain_le: "chain a rs b \<Longrightarrow> a \<le> b"
  by (induction a rs b rule: chain.induct) auto

lemma chain_append: "chain a (xs @ ys) b \<longleftrightarrow> (\<exists>m. chain a xs m \<and> chain m ys b)"
  by (induction xs arbitrary: a) auto

lemma chain_member: "chain a rs b \<Longrightarrow> r \<in> set rs \<Longrightarrow> a \<le> fst r \<and> fst r < snd r \<and> snd r \<le> b"
proof (induction a rs b rule: chain.induct)
  case (2 a r' rs b)
  from "2.prems" have c: "fst r' = a" "a < snd r'" "chain (snd r') rs b" by simp_all
  show ?case
  proof (cases "r = r'")
    case True
    with c chain_le [OF c(3)] show ?thesis by simp
  next
    case False
    with "2.prems"(2) have "r \<in> set rs" by simp
    from "2.IH" [OF c(3) this] c show ?thesis by simp
  qed
qed simp

definition within :: "nat \<Rightarrow> range \<Rightarrow> bool" where
  "within i r \<longleftrightarrow> fst r \<le> i \<and> i < snd r"

lemma chain_covers: "chain a rs b \<Longrightarrow> a \<le> i \<Longrightarrow> i < b \<Longrightarrow> \<exists>r\<in>set rs. within i r"
proof (induction a rs b rule: chain.induct)
  case (2 a r rs b)
  then show ?case by (cases "i < snd r") (auto simp: within_def)
qed simp

lemma zip_next_chain:
  "sorted xs \<Longrightarrow> xs \<noteq> [] \<Longrightarrow> chain (hd xs) (filter (\<lambda>(a, b). a < b) (zip_next xs)) (last xs)"
proof (induction xs rule: zip_next.induct)
  case (1 x y ys)
  then have "chain y (filter (\<lambda>(a, b). a < b) (zip_next (y # ys))) (last (y # ys))" "x \<le> y" by simp_all
  then show ?case by (cases "x < y") auto
qed simp_all

lemma length_slice: "b \<le> length t \<Longrightarrow> length (text_slice t a b) = b - a"
  by (simp add: text_slice_def)

lemma nth_slice: "a \<le> i \<Longrightarrow> i < b \<Longrightarrow> b \<le> length t \<Longrightarrow> text_slice t a b ! (i - a) = t ! i"
  by (simp add: text_slice_def)

lemma slice_slice: "b' \<le> b - a \<Longrightarrow> text_slice (text_slice t a b) a' b' = text_slice t (a + a') (a + b')"
  by (simp add: text_slice_def drop_take min_absorb1 diff_le_mono add.commute)

lemma not_blank:
  assumes "within i (a, b)" "b \<le> length t" "\<not> is_space (t ! i)"
  shows "\<not> blank (text_slice t a b)"
proof -
  from assms have "text_slice t a b ! (i - a) = t ! i" "i - a < length (text_slice t a b)"
    by (auto simp: within_def nth_slice length_slice)
  then have "t ! i \<in> set (text_slice t a b)" by (metis nth_mem)
  with assms(3) show ?thesis by (auto simp: blank_def strip_text_Nil)
qed

lemma split_chain:
  assumes "fst r < snd r" "snd r \<le> length t"
  shows "chain (fst r) (split_preserving t p r) (snd r)"
proof -
  let ?v = "text_slice t (fst r) (snd r)"
  let ?points = "map (\<lambda>(_, j, _). fst r + j) (matches p ?v)"
  have eq: "?points = map ((+) (fst r)) (map (\<lambda>(k, j, g). j) (matches p ?v))" by (simp add: split_def)
  have "sorted ?points" unfolding eq using matches_sorted(1) [of p ?v] by (simp add: sorted_map)
  moreover have "x \<le> snd r" if "x \<in> set ?points" for x
  proof -
    from that obtain k j g where m: "(k, j, g) \<in> set (matches p ?v)" "x = fst r + j" by auto
    from matches_sorted(2) [OF m(1)] m(2) assms show ?thesis by (simp add: length_slice)
  qed
  moreover have "fst r \<le> x" if "x \<in> set ?points" for x using that by auto
  ultimately have "sorted (fst r # ?points @ [snd r])" using assms(1) by (simp add: sorted_append)
  from zip_next_chain [OF this] show ?thesis by (simp add: split_preserving_def Let_def)
qed

lemma pack_chain: "chain a ps b \<Longrightarrow> chain a (pack_ranges env t limit ps) b"
proof -
  have step: "chain (fst c) (pack_from env t limit (Some c) ps) b" if "fst c < snd c" "chain (snd c) ps b" for c ps
    using that
  proof (induction ps arbitrary: c)
    case (Cons p ps)
    from Cons.prems have p: "fst p = snd c" "snd c < snd p" "chain (snd p) ps b" by simp_all
    show ?case
    proof (cases "limit < token_count env (text_slice t (fst c) (snd p))")
      case True
      with Cons.IH [of p] p Cons.prems show ?thesis by simp
    next
      case False
      with Cons.IH [of "(fst c, snd p)"] p Cons.prems show ?thesis by simp
    qed
  qed simp
  assume "chain a ps b"
  then show ?thesis using step unfolding pack_ranges_def by (cases ps) auto
qed

lemma refine_chain:
  "chain a rs b \<Longrightarrow> b \<le> length t \<Longrightarrow> chain a (refine_ranges env t limit p rs) b"
proof (induction a rs b rule: chain.induct)
  case (2 a r rs b)
  then have r: "fst r = a" "a < snd r" "chain (snd r) rs b" by simp_all
  with chain_le [OF r(3)] "2.prems"(2) have "chain a (if fits env t limit r then [r] else pack_ranges env t limit (split_preserving t p r)) (snd r)"
    using pack_chain [OF split_chain [of r t p]] by simp
  with "2.IH" [OF r(3) "2.prems"(2)] show ?case
    unfolding refine_ranges_def by (auto simp: chain_append)
qed (simp add: refine_ranges_def)

lemma refine_all_chain:
  "chain a rs b \<Longrightarrow> b \<le> length t \<Longrightarrow> chain a (fold (refine_ranges env t limit) ps rs) b"
  by (induction ps arbitrary: rs) (simp_all add: refine_chain)

section \<open>Windows\<close>

text \<open>
  What the tokenizer promises: decoding gives the text back, with the first character of every token; a
  text that is not empty has tokens.
\<close>

definition tokenizer_ok :: "chunk_env \<Rightarrow> bool" where
  "tokenizer_ok env \<longleftrightarrow>
     (\<forall>t. t \<noteq> [] \<longrightarrow> ce_encode env t \<noteq> []) \<and>
     (\<forall>t. let (decoded, offsets) = ce_offsets env (ce_encode env t) in
        decoded = t \<and> length offsets = length (ce_encode env t) \<and> sorted offsets \<and>
        (\<forall>j\<in>set offsets. j \<le> length t) \<and> take 1 offsets = take 1 (map (\<lambda>_. 0) offsets))"

definition offset_at :: "nat list \<Rightarrow> nat \<Rightarrow> nat \<Rightarrow> nat" where
  "offset_at offsets n e = (if e < length offsets then offsets ! e else n)"

lemma spans_cover:
  assumes "sorted offsets" "0 < step" "step \<le> limit" "s < length offsets" "offsets ! s \<le> i" "i < n"
  shows "\<exists>(x, y)\<in>set (token_spans (length offsets) limit step s). within i (offsets ! x, offset_at offsets n y)"
  using assms
proof (induction "length offsets" limit step s rule: token_spans.induct)
  case (1 limit step s)
  define e where "e = min (s + limit) (length offsets)"
  have spans: "token_spans (length offsets) limit step s =
      (s, e) # (if e = length offsets then [] else token_spans (length offsets) limit step (s + step))"
    using "1.prems" by (subst token_spans.simps) (simp add: Let_def e_def)
  show ?case
  proof (cases "i < offset_at offsets n e")
    case True
    with "1.prems"(5) show ?thesis unfolding spans by (simp add: within_def)
  next
    case False
    then have e: "e < length offsets" "offsets ! e \<le> i" using "1.prems"(6) by (simp_all add: offset_at_def split: if_splits)
    then have next': "s + step \<le> e" "s + step < length offsets" using "1.prems"(3) by (simp_all add: e_def)
    have "offsets ! (s + step) \<le> offsets ! e" using sorted_nth_mono [OF "1.prems"(1) next'(1) e(1)] .
    then have i: "offsets ! (s + step) \<le> i" using e(2) by simp
    have "\<not> (length offsets \<le> s \<or> step = 0)" "e \<noteq> length offsets" using "1.prems"(2,4) e(1) by simp_all
    from "1.hyps" [OF this(1) e_def this(2) "1.prems"(1-3) next'(2) i "1.prems"(6)] e(1) show ?thesis unfolding spans by simp
  qed
qed

lemma spans_bounded:
  "(x, y) \<in> set (token_spans n limit step s) \<Longrightarrow> s \<le> x \<and> x < n \<and> x \<le> y \<and> y \<le> n \<and> y - x \<le> limit"
proof (induction n limit step s rule: token_spans.induct)
  case (1 n limit step s)
  show ?case
  proof (cases "n \<le> s \<or> step = 0")
    case True
    with "1.prems" show ?thesis by (subst (asm) token_spans.simps) simp
  next
    case False
    define e where "e = min (s + limit) n"
    have spans: "token_spans n limit step s = (s, e) # (if e = n then [] else token_spans n limit step (s + step))"
      using False by (subst token_spans.simps) (simp add: Let_def e_def)
    show ?thesis
    proof (cases "(x, y) = (s, e)")
      case True
      with False show ?thesis by (auto simp: e_def)
    next
      case neq: False
      with "1.prems" have "e \<noteq> n" "(x, y) \<in> set (token_spans n limit step (s + step))" unfolding spans by (auto split: if_splits)
      from "1.IH" [OF False e_def this] show ?thesis by simp
    qed
  qed
qed

lemma spans_bounded_strict: "(x, y) \<in> set (token_spans n limit step s) \<Longrightarrow> 0 < limit \<Longrightarrow> x < y"
proof (induction n limit step s rule: token_spans.induct)
  case (1 n limit step s)
  show ?case
  proof (cases "n \<le> s \<or> step = 0")
    case True
    with "1.prems" show ?thesis by (subst (asm) token_spans.simps) simp
  next
    case False
    define e where "e = min (s + limit) n"
    have spans: "token_spans n limit step s = (s, e) # (if e = n then [] else token_spans n limit step (s + step))"
      using False by (subst token_spans.simps) (simp add: Let_def e_def)
    show ?thesis
    proof (cases "(x, y) = (s, e)")
      case True
      with False "1.prems"(2) show ?thesis by (auto simp: e_def)
    next
      case neq: False
      with "1.prems" have "e \<noteq> n" "(x, y) \<in> set (token_spans n limit step (s + step))" unfolding spans by (auto split: if_splits)
      from "1.IH" [OF False e_def this "1.prems"(2)] show ?thesis .
    qed
  qed
qed

text \<open>The windows of a text: total, within the text, without gaps, and of at most \<open>limit\<close> of its tokens.\<close>

definition token_span :: "chunk_env \<Rightarrow> ustring \<Rightarrow> nat \<Rightarrow> range \<Rightarrow> bool" where
  "token_span env t limit r \<longleftrightarrow>
     (\<exists>x y. x < y \<and> y \<le> token_count env t \<and> y - x \<le> limit \<and>
        (let offsets = snd (ce_offsets env (ce_encode env t)) in
         fst r = offsets ! x \<and> snd r = offset_at offsets (length t) y))"

lemma windows_result:
  assumes ok: "tokenizer_ok env" and "overlap < limit"
  obtains ws where "token_windows env t limit overlap base = Inr ws"
    "\<And>r. r \<in> set ws \<Longrightarrow> base \<le> fst r \<and> fst r \<le> snd r \<and> snd r \<le> base + length t"
    "\<And>i. i < length t \<Longrightarrow> \<exists>r\<in>set ws. within (base + i) r"
    "\<And>r. r \<in> set ws \<Longrightarrow> token_span env t limit (fst r - base, snd r - base)"
proof (cases "ce_encode env t = []")
  case True
  then have "t = []" using ok unfolding tokenizer_ok_def by blast
  with True that show ?thesis by (simp add: token_windows_def)
next
  case False
  obtain decoded offsets where o: "ce_offsets env (ce_encode env t) = (decoded, offsets)" by (cases "ce_offsets env (ce_encode env t)")
  let ?n = "length offsets"
  have tok: "decoded = t" "?n = token_count env t" "sorted offsets" "\<And>j. j \<in> set offsets \<Longrightarrow> j \<le> length t"
      "take 1 offsets = take 1 (map (\<lambda>_. 0) offsets)"
    using ok o unfolding tokenizer_ok_def token_count_def by (auto simp: Let_def dest!: spec [of _ t])
  have pos: "0 < ?n" using False tok(2) by (simp add: token_count_def)
  then have first: "offsets ! 0 = 0" using tok(5) by (cases offsets) simp_all
  let ?f = "\<lambda>(x, y). (base + offsets ! x, base + offset_at offsets (length t) y)"
  let ?ws = "map ?f (token_spans ?n limit (limit - overlap) 0)"
  have nth: "offsets ! x \<le> length t" if "x < ?n" for x using tok(4) nth_mem [OF that] by simp
  have result: "token_windows env t limit overlap base = Inr ?ws"
    using False o tok(1,2) by (simp add: token_windows_def token_count_def offset_at_def split_def Let_def)
  have mono: "offsets ! x \<le> offset_at offsets (length t) y" if "x \<le> y" "x < ?n" for x y
    using that nth [of x] sorted_nth_mono [OF tok(3) that(1)] by (simp add: offset_at_def)
  have range: "base \<le> fst r \<and> fst r \<le> snd r \<and> snd r \<le> base + length t \<and> token_span env t limit (fst r - base, snd r - base)"
    if r: "r \<in> set ?ws" for r
  proof -
    from r obtain x y where xy: "(x, y) \<in> set (token_spans ?n limit (limit - overlap) 0)" and "r = ?f (x, y)" by auto
    then have f: "fst r = base + offsets ! x" "snd r = base + offset_at offsets (length t) y" by simp_all
    from spans_bounded [OF xy] have b: "x < ?n" "x \<le> y" "y \<le> ?n" "y - x \<le> limit" by simp_all
    have "x < y" using spans_bounded_strict [OF xy] assms(2) by simp
    have "offset_at offsets (length t) y \<le> length t" using nth by (simp add: offset_at_def)
    moreover have "token_span env t limit (offsets ! x, offset_at offsets (length t) y)"
      unfolding token_span_def using \<open>x < y\<close> b(3,4) tok(2) o by (intro exI [of _ x] exI [of _ y]) simp
    ultimately show ?thesis using f mono [OF b(2,1)] by simp
  qed
  have cover: "\<exists>r\<in>set ?ws. within (base + i) r" if "i < length t" for i
  proof -
    have "0 < limit - overlap" "limit - overlap \<le> limit" "offsets ! 0 \<le> i" using assms(2) first by simp_all
    from spans_cover [OF tok(3) this(1,2) pos this(3) that] obtain x y
      where "(x, y) \<in> set (token_spans ?n limit (limit - overlap) 0)" "within i (offsets ! x, offset_at offsets (length t) y)" by blast
    then have "?f (x, y) \<in> set ?ws" "within (base + i) (?f (x, y))" by (force, simp add: within_def)
    then show ?thesis by blast
  qed
  show ?thesis using that [OF result] range cover by blast
qed

text \<open>Parents: total, within the text, and without gaps up to blanks.\<close>

lemma traverse_Inr:
  "(\<And>x. x \<in> set xs \<Longrightarrow> \<exists>y. f x = Inr y) \<Longrightarrow> \<exists>ys. traverse f xs = Inr ys"
  by (induction xs) (auto, fastforce)

lemma traverse_set: "traverse f xs = Inr ys \<Longrightarrow> set ys = {y. \<exists>x\<in>set xs. f x = Inr y}"
  by (induction xs arbitrary: ys) (auto split: sum.splits)

lemma bounded_result:
  assumes ok: "tokenizer_ok env" and "0 < limit" and "t \<noteq> []"
  obtains rs where "bounded_ranges env t limit = Inr rs"
    "\<And>r. r \<in> set rs \<Longrightarrow> fst r \<le> snd r \<and> snd r \<le> length t"
    "\<And>i. i < length t \<Longrightarrow> \<not> is_space (t ! i) \<Longrightarrow> \<exists>r\<in>set rs. within i r"
proof -
  let ?rs = "fold (refine_ranges env t limit) split_patterns [(0, length t)]"
  let ?f = "\<lambda>r. if fits env t limit r then Inr [r] else token_windows env (text_slice t (fst r) (snd r)) limit 0 (fst r)"
  have chain: "chain 0 ?rs (length t)" using assms(3) by (intro refine_all_chain) simp_all
  have window: "\<exists>ws. ?f r = Inr ws \<and> (\<forall>q\<in>set ws. fst q \<le> snd q \<and> snd q \<le> snd r) \<and>
      (\<forall>i. within i r \<longrightarrow> (\<exists>q\<in>set ws. within i q))" if r: "fst r \<le> snd r" "snd r \<le> length t" for r
  proof (cases "fits env t limit r")
    case True
    with r show ?thesis by auto
  next
    case False
    have len: "length (text_slice t (fst r) (snd r)) = snd r - fst r" using r by (simp add: length_slice)
    from windows_result [OF ok assms(2), of "text_slice t (fst r) (snd r)" "fst r"] obtain ws where
        ws: "token_windows env (text_slice t (fst r) (snd r)) limit 0 (fst r) = Inr ws"
      and b': "\<And>q. q \<in> set ws \<Longrightarrow> fst r \<le> fst q \<and> fst q \<le> snd q \<and> snd q \<le> fst r + (snd r - fst r)"
      and c: "\<And>i. i < snd r - fst r \<Longrightarrow> \<exists>q\<in>set ws. within (fst r + i) q"
      unfolding len by metis
    have b: "fst q \<le> snd q \<and> snd q \<le> snd r" if "q \<in> set ws" for q using b' [OF that] r(1) by simp
    have "\<exists>q\<in>set ws. within i q" if "within i r" for i
    proof -
      from that have "i - fst r < snd r - fst r" "fst r + (i - fst r) = i" by (auto simp: within_def)
      with c show ?thesis by metis
    qed
    with False ws b show ?thesis by simp
  qed
  have member: "fst r \<le> snd r \<and> snd r \<le> length t" if "r \<in> set ?rs" for r
    using chain_member [OF chain that] by simp
  have "\<exists>rss. traverse ?f ?rs = Inr rss" using window member by (intro traverse_Inr) blast
  then obtain rss where rss: "traverse ?f ?rs = Inr rss" ..
  note rss_set = traverse_set [OF rss]
  let ?out = "filter (\<lambda>(a, b). \<not> blank (text_slice t a b)) (concat rss)"
  show ?thesis
  proof (rule that [of ?out])
    show "bounded_ranges env t limit = Inr ?out" by (simp add: bounded_ranges_def rss)
    show "fst r \<le> snd r \<and> snd r \<le> length t" if out: "r \<in> set ?out" for r
    proof -
      from out obtain ws where "ws \<in> set rss" "r \<in> set ws" by auto
      moreover from this(1) obtain q where q: "q \<in> set ?rs" "?f q = Inr ws" unfolding rss_set by blast
      ultimately show ?thesis using window [of q] member [OF q(1)] by fastforce
    qed
    show "\<exists>r\<in>set ?out. within i r" if i: "i < length t" and "\<not> is_space (t ! i)" for i
    proof -
      from chain_covers [OF chain _ i] obtain q where q: "q \<in> set ?rs" "within i q" by auto
      from window [of q] member [OF q(1)] obtain ws where ws: "?f q = Inr ws" "\<forall>q'\<in>set ws. snd q' \<le> snd q"
          "\<exists>q'\<in>set ws. within i q'" using q(2) by blast
      then obtain r where r: "r \<in> set ws" "within i r" by blast
      have "ws \<in> set rss" unfolding rss_set using q(1) ws(1) by blast
      moreover have "\<not> blank (text_slice t (fst r) (snd r))"
        using not_blank [of i "fst r" "snd r" t] r ws(2) member [OF q(1)] that(2) by fastforce
      ultimately show ?thesis using r by force
    qed
  qed
qed

section \<open>Blocks\<close>

lemma concat_lines [simp]: "concat (lines_keep t) = t"
proof (induction t rule: lines_keep.induct)
  case (2 c cs)
  have "10 # drop (Suc 0) cs = cs" if "take (Suc 0) cs = [10]" using that by (cases cs) simp_all
  with 2 show ?case by (auto split: list.split)
qed simp

lemma events_position: "(j, e) \<in> set (events_from env bs i ls) \<Longrightarrow> j \<le> i + length (concat ls)"
  by (induction ls arbitrary: i) (fastforce)+

lemma event_position: "(j, e) \<in> set (block_events env bs t) \<Longrightarrow> j \<le> length t"
  using events_position [of j e env bs 0 "lines_keep t"] matches_sorted(2)
  unfolding block_events_def by (auto split: if_splits)

definition block_range :: "structural_block \<Rightarrow> range" where
  "block_range b = (sb_start b, sb_end b)"

definition blocks_ok :: "ustring \<Rightarrow> block_state \<Rightarrow> bool" where
  "blocks_ok t st \<longleftrightarrow>
     bs_start st \<le> length t \<and>
     (\<forall>b\<in>set (bs_blocks st). sb_start b \<le> sb_end b \<and> sb_end b \<le> bs_start st) \<and>
     (\<forall>i<bs_start st. \<not> is_space (t ! i) \<longrightarrow> (\<exists>b\<in>set (bs_blocks st). within i (block_range b)))"

lemma flush_ok:
  assumes "blocks_ok t st" "bs_start st \<le> e" "e \<le> length t"
  shows "blocks_ok t (flush_block bs t e st) \<and> bs_start (flush_block bs t e st) = e"
proof -
  have start: "bs_start (flush_block bs t e st) = e" by (simp add: flush_block_def Let_def)
  have old: "set (bs_blocks st) \<subseteq> set (bs_blocks (flush_block bs t e st))" by (auto simp: flush_block_def Let_def)
  have cover: "\<exists>b\<in>set (bs_blocks (flush_block bs t e st)). within i (block_range b)" if i: "i < e" "\<not> is_space (t ! i)" for i
  proof (cases "i < bs_start st")
    case True
    then show ?thesis using assms(1) i(2) old unfolding blocks_ok_def by blast
  next
    case False
    then have w: "within i (bs_start st, e)" using i(1) by (simp add: within_def)
    from not_blank [OF this assms(3) i(2)] False i(1)
    show ?thesis using w by (auto simp: flush_block_def Let_def block_range_def)
  qed
  have "sb_start b \<le> sb_end b \<and> sb_end b \<le> e" if "b \<in> set (bs_blocks (flush_block bs t e st))" for b
    using that assms(1,2) unfolding blocks_ok_def by (fastforce simp: flush_block_def Let_def split: if_splits)
  then show ?thesis using cover start assms(3) unfolding blocks_ok_def by simp
qed

lemma events_ok: "bs_start (apply_event e st) = bs_start st" "bs_blocks (apply_event e st) = bs_blocks st"
  by (cases e; simp)+

lemma fold_events_ok:
  "bs_start (fold (\<lambda>(j, e). apply_event e) es st) = bs_start st"
  "bs_blocks (fold (\<lambda>(j, e). apply_event e) es st) = bs_blocks st"
  by (induction es arbitrary: st) (simp_all add: events_ok split: prod.splits)

lemma at_position_ok:
  assumes "blocks_ok t st" "bs_start st \<le> i" "i \<le> length t"
  shows "blocks_ok t (at_position bs t evs i st) \<and> bs_start (at_position bs t evs i st) = i"
proof -
  let ?st = "flush_block bs t i st"
  have eq: "bs_start (at_position bs t evs i st) = bs_start ?st" "bs_blocks (at_position bs t evs i st) = bs_blocks ?st"
    by (simp_all add: at_position_def fold_events_ok)
  have "blocks_ok t (at_position bs t evs i st) \<longleftrightarrow> blocks_ok t ?st" unfolding blocks_ok_def eq ..
  with flush_ok [OF assms, of bs] eq(1) show ?thesis by simp
qed

lemma positions_ok:
  "sorted is \<Longrightarrow> \<forall>i\<in>set is. bs_start st \<le> i \<and> i \<le> length t \<Longrightarrow> blocks_ok t st \<Longrightarrow>
    blocks_ok t (fold (at_position bs t evs) is st)"
proof (induction "is" arbitrary: st)
  case (Cons i ns)
  then have "blocks_ok t (at_position bs t evs i st)" "bs_start (at_position bs t evs i st) = i"
    using at_position_ok [of t st i] by simp_all
  with Cons show ?case by simp
qed simp

lemma blocks_result:
  shows "\<And>b. b \<in> set (structural_blocks env p t) \<Longrightarrow> sb_start b \<le> sb_end b \<and> sb_end b \<le> length t"
    and "\<And>i. i < length t \<Longrightarrow> \<not> is_space (t ! i) \<Longrightarrow> \<exists>b\<in>set (structural_blocks env p t). within i (block_range b)"
proof -
  let ?bs = "dp_boundaries p"
  let ?evs = "block_events env ?bs t"
  let ?st = "fold (at_position ?bs t ?evs) (sort (remdups (map fst ?evs))) first_block_state"
  have "blocks_ok t first_block_state" "bs_start first_block_state = 0" by (simp_all add: blocks_ok_def first_block_state_def)
  moreover have "\<forall>i\<in>set (sort (remdups (map fst ?evs))). i \<le> length t" using event_position by fastforce
  ultimately have ok: "blocks_ok t ?st" by (intro positions_ok) simp_all
  have "bs_start ?st \<le> length t" using ok by (simp add: blocks_ok_def)
  from flush_ok [OF ok this, of ?bs] have result: "blocks_ok t (flush_block ?bs t (length t) ?st)"
      "bs_start (flush_block ?bs t (length t) ?st) = length t" by simp_all
  have blocks: "structural_blocks env p t = bs_blocks (flush_block ?bs t (length t) ?st)"
    by (simp add: structural_blocks_def Let_def)
  show "sb_start b \<le> sb_end b \<and> sb_end b \<le> length t" if "b \<in> set (structural_blocks env p t)" for b
    using that result unfolding blocks blocks_ok_def by metis
  show "\<exists>b\<in>set (structural_blocks env p t). within i (block_range b)" if "i < length t" "\<not> is_space (t ! i)" for i
    using that result unfolding blocks blocks_ok_def by metis
qed

section \<open>Chunks\<close>

text \<open>What holds of one chunk among all: its text, its size, and the links between parents and leaves.\<close>

definition linked :: "chunk_env \<Rightarrow> document_profile \<Rightarrow> chunk list \<Rightarrow> chunk \<Rightarrow> bool" where
  "linked env p cs c \<longleftrightarrow>
     (ch_standalone c \<longrightarrow> ch_parent c = None \<and> ch_children c = [] \<and> ch_tokens c \<le> dp_leaf p) \<and>
     (\<forall>q. ch_parent c = Some q \<longrightarrow>
        (\<exists>m\<in>set cs. ch_id m = q \<and> ch_id c \<in> set (ch_children m) \<and> ch_start m \<le> ch_start c \<and> ch_end c \<le> ch_end m \<and>
           ch_page m = ch_page c \<and> ch_section m = ch_section c \<and> ch_article m = ch_article c \<and>
           token_span env (ch_text m) (dp_leaf p) (ch_start c - ch_start m, ch_end c - ch_start m))) \<and>
     (\<forall>x\<in>set (ch_children c). \<exists>l\<in>set cs. ch_id l = x \<and> ch_parent l = Some (ch_id c) \<and> ch_children l = [])"

definition sliced :: "ustring \<Rightarrow> chunk \<Rightarrow> bool" where
  "sliced t c \<longleftrightarrow> ch_start c \<le> ch_end c \<and> ch_end c \<le> length t \<and> ch_text c = text_slice t (ch_start c) (ch_end c)"

definition in_leaf :: "chunk list \<Rightarrow> nat \<Rightarrow> bool" where
  "in_leaf cs i \<longleftrightarrow> (\<exists>c\<in>set cs. ch_children c = [] \<and> ch_start c \<le> i \<and> i < ch_end c)"

lemma linked_mono: "linked env p cs c \<Longrightarrow> set cs \<subseteq> set ds \<Longrightarrow> linked env p ds c"
  unfolding linked_def by blast

lemma in_leaf_mono: "in_leaf cs i \<Longrightarrow> set cs \<subseteq> set ds \<Longrightarrow> in_leaf ds i"
  unfolding in_leaf_def by blast

definition chunks_ok :: "chunk_env \<Rightarrow> document_profile \<Rightarrow> ustring \<Rightarrow> (nat \<Rightarrow> bool) \<Rightarrow> chunk_error + chunk list \<Rightarrow> bool" where
  "chunks_ok env p t P r \<longleftrightarrow>
     (\<exists>cs. r = Inr cs \<and> (\<forall>c\<in>set cs. sliced t c \<and> linked env p cs c) \<and> (\<forall>i. P i \<longrightarrow> in_leaf cs i))"

lemma chunks_ok_concat:
  assumes "\<And>x. x \<in> set xs \<Longrightarrow> chunks_ok env p t (P x) (f x)"
  shows "chunks_ok env p t (\<lambda>i. \<exists>x\<in>set xs. P x i)
    (case traverse f xs of Inl e \<Rightarrow> Inl e | Inr css \<Rightarrow> Inr (concat css))"
proof -
  have "\<exists>css. traverse f xs = Inr css" using assms unfolding chunks_ok_def by (intro traverse_Inr) blast
  then obtain css where css: "traverse f xs = Inr css" ..
  note members = traverse_set [OF css]
  have "sliced t c \<and> linked env p (concat css) c" if "c \<in> set (concat css)" for c
  proof -
    from that obtain cs where cs: "cs \<in> set css" "c \<in> set cs" by auto
    then obtain x where "x \<in> set xs" "f x = Inr cs" unfolding members by blast
    with assms cs(2) have "sliced t c" "linked env p cs c" unfolding chunks_ok_def by force+
    moreover have "set cs \<subseteq> set (concat css)" using cs(1) by auto
    ultimately show ?thesis using linked_mono by blast
  qed
  moreover have "in_leaf (concat css) i" if "x \<in> set xs" "P x i" for i x
  proof -
    from assms [OF that(1)] that(2) obtain cs where "f x = Inr cs" "in_leaf cs i" unfolding chunks_ok_def by blast
    moreover from this(1) that(1) have "set cs \<subseteq> set (concat css)" using members by fastforce
    ultimately show ?thesis using in_leaf_mono by blast
  qed
  ultimately show ?thesis unfolding chunks_ok_def css by auto
qed

lemma make_chunk_simps [simp]:
  "ch_id (make_chunk env t b r i l q cs s) = i" "ch_children (make_chunk env t b r i l q cs s) = cs"
  "ch_parent (make_chunk env t b r i l q cs s) = q" "ch_start (make_chunk env t b r i l q cs s) = fst r"
  "ch_end (make_chunk env t b r i l q cs s) = snd r" "ch_text (make_chunk env t b r i l q cs s) = text_slice t (fst r) (snd r)"
  "ch_standalone (make_chunk env t b r i l q cs s) = s"
  "ch_tokens (make_chunk env t b r i l q cs s) = token_count env (text_slice t (fst r) (snd r))"
  "ch_page (make_chunk env t b r i l q cs s) = sb_page b" "ch_section (make_chunk env t b r i l q cs s) = sb_section b"
  "ch_article (make_chunk env t b r i l q cs s) = sb_article b"
  by (simp_all add: make_chunk_def Let_def)

lemma parent_ok:
  assumes ok: "tokenizer_ok env" and "dp_overlap p < dp_leaf p" and r: "fst r \<le> snd r" "snd r \<le> length t"
  shows "chunks_ok env p t (\<lambda>i. within i r) (parent_chunks env document checksum p t block r)"
proof -
  let ?v = "text_slice t (fst r) (snd r)"
  have len: "length ?v = snd r - fst r" using r by (simp add: length_slice)
  from windows_result [OF ok assms(2), of ?v 0] obtain ws where
      ws: "token_windows env ?v (dp_leaf p) (dp_overlap p) 0 = Inr ws"
    and b: "\<And>q. q \<in> set ws \<Longrightarrow> fst q \<le> snd q \<and> snd q \<le> snd r - fst r"
    and c: "\<And>i. i < snd r - fst r \<Longrightarrow> \<exists>q\<in>set ws. within i q"
    and s: "\<And>q. q \<in> set ws \<Longrightarrow> token_span env ?v (dp_leaf p) q"
    unfolding len by (metis add_0 diff_zero prod.collapse)
  define parent where "parent = chunk_id (chunk_identity env document checksum (fst r) (snd r) ''parent'')"
  define leaf :: "range \<Rightarrow> chunk" where "leaf = (\<lambda>q. make_chunk env t block (fst r + fst q, fst r + snd q)
      (chunk_id (chunk_identity env document checksum (fst r + fst q) (fst r + snd q) ''leaf-1'')) 1 (Some parent) [] False)"
  define top where "top = make_chunk env t block r parent 0 None (map ch_id (map leaf ws)) False"
  have result: "parent_chunks env document checksum p t block r = Inr (top # map leaf ws)"
    unfolding parent_chunks_def by (simp add: ws top_def leaf_def parent_def split_def Let_def)
  have leaf_simps: "ch_parent (leaf q) = Some parent" "ch_children (leaf q) = []" "ch_start (leaf q) = fst r + fst q"
      "ch_end (leaf q) = fst r + snd q" "\<not> ch_standalone (leaf q)" "ch_text (leaf q) = text_slice t (fst r + fst q) (fst r + snd q)"
      "ch_page (leaf q) = sb_page block" "ch_section (leaf q) = sb_section block" "ch_article (leaf q) = sb_article block" for q
    by (simp_all add: leaf_def)
  have top_simps: "ch_id top = parent" "ch_children top = map (ch_id \<circ> leaf) ws" "ch_parent top = None" "ch_start top = fst r"
      "ch_end top = snd r" "ch_text top = ?v" "\<not> ch_standalone top"
      "ch_page top = sb_page block" "ch_section top = sb_section block" "ch_article top = sb_article block"
    by (simp_all add: top_def)
  have "linked env p (top # map leaf ws) top" unfolding linked_def using top_simps leaf_simps by auto
  moreover have "linked env p (top # map leaf ws) (leaf q)" if "q \<in> set ws" for q
  proof -
    have "fst r + snd q \<le> snd r" using b [OF that] r(1) by arith
    then show ?thesis unfolding linked_def using top_simps leaf_simps s [OF that] that by simp
  qed
  moreover have "sliced t top" using top_simps r by (simp add: sliced_def)
  moreover have "sliced t (leaf q)" if "q \<in> set ws" for q proof -
    have "fst r + snd q \<le> snd r" using b [OF that] r(1) by arith
    then show ?thesis using leaf_simps b [OF that] r by (simp add: sliced_def)
  qed
  moreover have "in_leaf (top # map leaf ws) i" if i: "within i r" for i
  proof -
    from i have "i - fst r < snd r - fst r" "fst r \<le> i" by (auto simp: within_def)
    from c [OF this(1)] this(2) obtain q where "q \<in> set ws" "fst r + fst q \<le> i" "i < fst r + snd q" by (auto simp: within_def)
    then show ?thesis unfolding in_leaf_def using leaf_simps by (intro bexI [of _ "leaf q"]) simp_all
  qed
  ultimately show ?thesis unfolding chunks_ok_def result by auto
qed

lemma block_ok:
  assumes ok: "tokenizer_ok env" and profile: "valid_profile p" and b: "sb_start block \<le> sb_end block" "sb_end block \<le> length t"
  shows "chunks_ok env p t (\<lambda>i. within i (block_range block) \<and> \<not> is_space (t ! i)) (block_chunks env document checksum p t block)"
proof -
  let ?v = "text_slice t (sb_start block) (sb_end block)"
  have len: "length ?v = sb_end block - sb_start block" using b by (simp add: length_slice)
  consider (blank) "blank ?v" | (leaf) "\<not> blank ?v" "token_count env ?v \<le> dp_leaf p" | (long) "\<not> blank ?v" "\<not> token_count env ?v \<le> dp_leaf p" by blast
  then show ?thesis
  proof cases
    case blank
    have "is_space (t ! i)" if "within i (block_range block)" for i
      using not_blank [OF that [unfolded block_range_def] b(2)] blank by blast
    with blank show ?thesis by (auto simp: block_chunks_def Let_def chunks_ok_def)
  next
    case leaf
    with b show ?thesis
      by (auto simp: block_chunks_def Let_def chunks_ok_def sliced_def linked_def in_leaf_def within_def block_range_def)
  next
    case long
    then have "?v \<noteq> []" by (auto simp: blank_def strip_text_def lstrip_def rstrip_def)
    have limit: "0 < dp_parent p" "dp_overlap p < dp_leaf p" using profile by (simp_all add: valid_profile_def)
    from bounded_result [OF ok limit(1) \<open>?v \<noteq> []\<close>] obtain rs where rs: "bounded_ranges env ?v (dp_parent p) = Inr rs"
      and inside: "\<And>r. r \<in> set rs \<Longrightarrow> fst r \<le> snd r \<and> snd r \<le> sb_end block - sb_start block"
      and cover: "\<And>i. i < sb_end block - sb_start block \<Longrightarrow> \<not> is_space (?v ! i) \<Longrightarrow> \<exists>r\<in>set rs. within i r"
      unfolding len by blast
    define shift where "shift r = (sb_start block + fst r, sb_start block + snd r)" for r :: range
    let ?f = "\<lambda>r. parent_chunks env document checksum p t block (shift r)"
    have eq: "block_chunks env document checksum p t block = (case traverse ?f rs of Inl e \<Rightarrow> Inl e | Inr css \<Rightarrow> Inr (concat css))"
      using long rs by (simp add: block_chunks_def shift_def split_def Let_def)
    have "chunks_ok env p t (\<lambda>i. \<exists>r\<in>set rs. within i (shift r)) (block_chunks env document checksum p t block)"
      unfolding eq
    proof (rule chunks_ok_concat)
      fix r assume "r \<in> set rs"
      with inside b have "fst (shift r) \<le> snd (shift r)" "snd (shift r) \<le> length t" by (fastforce simp: shift_def)+
      from parent_ok [OF ok limit(2) this] show "chunks_ok env p t (\<lambda>i. within i (shift r)) (?f r)" .
    qed
    moreover have "\<exists>r\<in>set rs. within i (shift r)" if i: "within i (block_range block)" "\<not> is_space (t ! i)" for i
    proof -
      from i(1) have w: "sb_start block \<le> i" "i < sb_end block" by (simp_all add: within_def block_range_def)
      then have "?v ! (i - sb_start block) = t ! i" "i - sb_start block < sb_end block - sb_start block" using b by (simp_all add: nth_slice)
      with cover [of "i - sb_start block"] i(2) obtain r where "r \<in> set rs" "within (i - sb_start block) r" by auto
      with w(1) show ?thesis by (intro bexI [of _ r]) (auto simp: within_def shift_def)
    qed
    ultimately show ?thesis unfolding chunks_ok_def by blast
  qed
qed

lemma build_ok:
  assumes "tokenizer_ok env" "valid_profile p"
  shows "chunks_ok env p t (\<lambda>i. i < length t \<and> \<not> is_space (t ! i)) (build_chunks env document checksum p t)"
proof -
  have "chunks_ok env p t (\<lambda>i. \<exists>b\<in>set (structural_blocks env p t). within i (block_range b) \<and> \<not> is_space (t ! i))
      (build_chunks env document checksum p t)"
    unfolding build_chunks_def by (rule chunks_ok_concat) (use block_ok [OF assms] blocks_result(1) in blast)
  then show ?thesis using blocks_result(2) unfolding chunks_ok_def by blast
qed

lemma blank_slice: "blank t \<Longrightarrow> blank (text_slice t a b)"
  by (auto simp: blank_def strip_text_Nil text_slice_def dest!: in_set_takeD in_set_dropD)

lemma block_not_blank:
  assumes "b \<in> set (structural_blocks env p t)"
  shows "\<not> blank (text_slice t (sb_start b) (sb_end b))"
proof -
  define inv where "inv st \<longleftrightarrow> (\<forall>b\<in>set (bs_blocks st). \<not> blank (text_slice t (sb_start b) (sb_end b)))" for st :: block_state
  have flush: "inv (flush_block bs t e st)" if "inv st" for bs e st
    using that by (auto simp: inv_def flush_block_def Let_def)
  have pos: "inv (at_position bs t evs i st)" if "inv st" for bs evs i st
    using flush [OF that] by (simp add: at_position_def inv_def fold_events_ok)
  have "inv (fold (at_position bs t evs) is st)" if "inv st" for bs evs "is" st
    using that by (induction "is" arbitrary: st) (simp_all add: pos)
  moreover have "inv first_block_state" by (simp add: inv_def first_block_state_def)
  ultimately have "inv (flush_block bs t e (fold (at_position bs t evs) is first_block_state))" for bs evs e "is"
    using flush by blast
  then have "\<forall>b\<in>set (structural_blocks env p t). \<not> blank (text_slice t (sb_start b) (sb_end b))"
    unfolding structural_blocks_def Let_def inv_def .
  then show ?thesis using assms by blast
qed

text \<open>A document of blanks has no chunks, any other has some.\<close>

lemma no_chunks:
  assumes "tokenizer_ok env" "valid_profile p" "build_chunks env document checksum p t = Inr cs"
  shows "cs = [] \<longleftrightarrow> blank t"
proof
  assume "cs = []"
  with build_ok [OF assms(1,2), of t document checksum] assms(3) have "is_space (t ! i)" if "i < length t" for i
    using that by (auto simp: chunks_ok_def in_leaf_def)
  then show "blank t" by (auto simp: blank_def strip_text_Nil in_set_conv_nth)
next
  assume "blank t"
  then have "structural_blocks env p t = []" using block_not_blank blank_slice by (metis list.set_intros(1) neq_Nil_conv)
  with assms(3) show "cs = []" by (simp add: build_chunks_def)
qed

section \<open>A tokenizer\<close>

text \<open>One token per character; classes of ASCII.\<close>

definition sample_env :: chunk_env where
  "sample_env = \<lparr>ce_encode = (\<lambda>t. t), ce_offsets = (\<lambda>ts. (ts, [0..<length ts])), ce_digest = (\<lambda>t. t),
     ce_digit = (\<lambda>c. 48 \<le> c \<and> c \<le> 57), ce_word = (\<lambda>c. name_char c \<or> c = 95),
     ce_same = (\<lambda>a b. a = b \<or> name_char a \<and> name_char b \<and> (a = b + 32 \<or> b = a + 32)),
     ce_upper = map (\<lambda>c. if 97 \<le> c \<and> c \<le> 122 then c - 32 else c)\<rparr>"

definition sample_profile :: document_profile where
  "sample_profile = \<lparr>dp_boundaries = [PageBoundary, MarkdownHeading, LegalArticle], dp_leaf = 64, dp_parent = 96, dp_overlap = 8,
     dp_threshold = (5, 1)\<rparr>"

lemma sample_tokenizer: "tokenizer_ok sample_env"
proof -
  have "take 1 [0..<length t] = take 1 (map (\<lambda>_. 0) [0..<length t])" for t :: ustring
    by (cases t) (simp_all add: upt_rec)
  then show ?thesis by (simp add: tokenizer_ok_def sample_env_def)
qed

lemma sample_profile_valid: "valid_profile sample_profile"
  by (simp add: sample_profile_def valid_profile_def)



end
