(* ===== verification/Source_Properties.thy ===== *)
theory Source_Properties
  imports Source_Index Chunking_Properties
begin

text \<open>
  What the index of source passages guarantees: rebuilding a version replaces exactly its passages, and
  retrieval stays within the version and the documents that were asked for.
\<close>

section \<open>Inserting\<close>

definition passage_key :: "passage \<Rightarrow> ustring \<times> ustring" where
  "passage_key p = (pa_id p, pa_version p)"

lemma insert_Inr:
  "insert_passages ps rows = Inr rows' \<Longrightarrow>
    rows' = rows @ ps \<and> distinct (map passage_key ps) \<and> passage_key ` set ps \<inter> passage_key ` set rows = {}"
proof (induction ps arbitrary: rows)
  case (Cons p ps)
  then have fresh: "\<forall>r\<in>set rows. passage_key r \<noteq> passage_key p"
      and rest: "insert_passages ps (rows @ [p]) = Inr rows'"
    by (auto simp: list_ex_iff passage_key_def split: if_splits)
  from Cons.IH [OF rest] have "rows' = rows @ p # ps" "distinct (map passage_key ps)"
      "passage_key ` set ps \<inter> passage_key ` set (rows @ [p]) = {}" by simp_all
  with fresh show ?case by (auto simp: image_iff)
qed simp

lemma insert_Inl: "insert_passages ps rows = Inl e \<Longrightarrow> e = DuplicatePassage"
  by (induction ps arbitrary: rows) (auto split: if_splits)

lemma insert_total:
  "distinct (map passage_key xs) \<Longrightarrow> passage_key ` set xs \<inter> passage_key ` set ys = {} \<Longrightarrow>
    \<exists>rows'. insert_passages xs ys = Inr rows'"
proof (induction xs arbitrary: ys)
  case (Cons x xs)
  then have "passage_key x \<notin> passage_key ` set ys" by auto
  then have "\<not> list_ex (\<lambda>r. pa_id r = pa_id x \<and> pa_version r = pa_version x) ys"
    by (auto simp: list_ex_iff passage_key_def image_iff)
  moreover have "passage_key ` set xs \<inter> passage_key ` set (ys @ [x]) = {}" using Cons.prems by auto
  ultimately show ?case using Cons by simp
qed simp

section \<open>The passages of a document\<close>

definition index_env_ok :: "index_env \<Rightarrow> document_profiles \<Rightarrow> bool" where
  "index_env_ok env profiles \<longleftrightarrow> tokenizer_ok (ie_chunks env) \<and> valid_profiles profiles"

lemma select_valid:
  assumes "valid_profiles ps"
  shows "\<exists>name profile. select_profile glob ps path = Some (name, profile) \<and> valid_profile profile"
proof -
  let ?name = "case List.find (\<lambda>r. glob path (ru_glob r)) (ps_rules ps) of Some r \<Rightarrow> ru_profile r | None \<Rightarrow> ps_default ps"
  have "?name \<in> set (map fst (ps_profiles ps))"
  proof (cases "List.find (\<lambda>r. glob path (ru_glob r)) (ps_rules ps)")
    case None
    with assms show ?thesis by (simp add: valid_profiles_def)
  next
    case (Some r)
    then have "r \<in> set (ps_rules ps)" by (metis find_Some_iff nth_mem)
    with assms Some show ?thesis by (simp add: valid_profiles_def list_all_iff)
  qed
  then obtain profile where p: "map_of (ps_profiles ps) ?name = Some profile" by (metis map_of_eq_None_iff not_None_eq set_map)
  from map_of_SomeD [OF this] assms have "valid_profile profile" by (auto simp: valid_profiles_def list_all_iff)
  with p show ?thesis by (simp add: select_profile_def Let_def)
qed

text \<open>A passage and those of its document: the links between leaves and parents.\<close>

definition has_parent :: "passage list \<Rightarrow> passage \<Rightarrow> bool" where
  "has_parent rows r \<longleftrightarrow>
     (\<forall>q. ch_parent (pa_chunk r) = Some q \<longrightarrow>
        (\<exists>m\<in>set rows. pa_id m = q \<and> pa_version m = pa_version r \<and> pa_document m = pa_document r \<and>
           ch_article (pa_chunk m) = ch_article (pa_chunk r) \<and> pa_id r \<in> set (ch_children (pa_chunk m))))"

lemma has_parent_mono: "has_parent rows r \<Longrightarrow> set rows \<subseteq> set rows' \<Longrightarrow> has_parent rows' r"
  unfolding has_parent_def by blast

lemma document_result:
  assumes "index_env_ok env profiles"
  shows "\<exists>ps. document_passages env profiles fp version d = Inr ps \<and>
    (\<forall>r\<in>set ps. pa_version r = version \<and> pa_fingerprint r = fp \<and> pa_document r = so_path d \<and> pa_score r = None \<and> has_parent ps r) \<and>
    (ps = [] \<longleftrightarrow> blank (so_content d))"
proof -
  have env: "tokenizer_ok (ie_chunks env)" "valid_profiles profiles" using assms by (simp_all add: index_env_ok_def)
  from select_valid [OF env(2)] obtain name profile
    where sel: "select_profile (ie_glob env) profiles (so_path d) = Some (name, profile)" and "valid_profile profile" by blast
  from build_ok [OF env(1) this(2)] obtain cs where
      cs: "build_chunks (ie_chunks env) (so_path d) (so_sha256 d) profile (so_content d) = Inr cs"
    and link: "\<And>c. c \<in> set cs \<Longrightarrow> linked (ie_chunks env) profile cs c" unfolding chunks_ok_def by blast
  let ?row = "\<lambda>c. \<lparr>pa_chunk = c, pa_document = so_path d, pa_checksum = so_sha256 d, pa_version = version,
    pa_media_type = so_media_type d, pa_profile = name, pa_fingerprint = fp, pa_threshold = dp_threshold profile, pa_score = None\<rparr>"
  have "has_parent (map ?row cs) (?row c)" if "c \<in> set cs" for c
    using link [OF that] unfolding has_parent_def linked_def by fastforce
  moreover have "document_passages env profiles fp version d = Inr (map ?row cs)" by (simp add: document_passages_def sel cs)
  moreover have "cs = [] \<longleftrightarrow> blank (so_content d)" by (rule no_chunks [OF env(1) \<open>valid_profile profile\<close> cs])
  ultimately show ?thesis by auto
qed

definition passages_of :: "index_env \<Rightarrow> document_profiles \<Rightarrow> ustring \<Rightarrow> ustring \<Rightarrow> source_text list \<Rightarrow> passage list" where
  "passages_of env profiles fp version docs =
     concat (map (\<lambda>d. case document_passages env profiles fp version d of Inl _ \<Rightarrow> [] | Inr ps \<Rightarrow> ps) docs)"

lemma traverse_eq: "traverse f xs = Inr ys \<Longrightarrow> map f xs = map Inr ys"
  by (induction xs arbitrary: ys) (auto split: sum.splits)

lemma documents_result:
  assumes "index_env_ok env profiles"
  shows "\<exists>pss. traverse (document_passages env profiles fp version) docs = Inr pss \<and> concat pss = passages_of env profiles fp version docs"
    and "r \<in> set (passages_of env profiles fp version docs) \<Longrightarrow>
      pa_version r = version \<and> pa_fingerprint r = fp \<and> pa_score r = None \<and> has_parent (passages_of env profiles fp version docs) r"
    and "passages_of env profiles fp version docs = [] \<longleftrightarrow> (\<forall>d\<in>set docs. blank (so_content d))"
proof -
  note doc = document_result [OF assms]
  have "\<exists>pss. traverse (document_passages env profiles fp version) docs = Inr pss" using doc by (intro traverse_Inr) blast
  then obtain pss where pss: "traverse (document_passages env profiles fp version) docs = Inr pss" ..
  have "map (\<lambda>d. case document_passages env profiles fp version d of Inl _ \<Rightarrow> [] | Inr ps \<Rightarrow> ps) docs = pss"
    using arg_cong [OF traverse_eq [OF pss], of "map (\<lambda>x. case x of Inl _ \<Rightarrow> [] | Inr ps \<Rightarrow> ps)"] by (simp add: comp_def)
  then show "\<exists>pss. traverse (document_passages env profiles fp version) docs = Inr pss \<and> concat pss = passages_of env profiles fp version docs"
    using pss by (simp add: passages_of_def)
  show "pa_version r = version \<and> pa_fingerprint r = fp \<and> pa_score r = None \<and> has_parent (passages_of env profiles fp version docs) r"
    if r: "r \<in> set (passages_of env profiles fp version docs)"
  proof -
    from r obtain d where d: "d \<in> set docs" "r \<in> set (case document_passages env profiles fp version d of Inl _ \<Rightarrow> [] | Inr ps \<Rightarrow> ps)"
      by (auto simp: passages_of_def)
    from doc [of fp version d] obtain ps where ps: "document_passages env profiles fp version d = Inr ps"
        "\<forall>r\<in>set ps. pa_version r = version \<and> pa_fingerprint r = fp \<and> pa_document r = so_path d \<and> pa_score r = None \<and> has_parent ps r" by blast
    have "set ps \<subseteq> set (passages_of env profiles fp version docs)"
      unfolding passages_of_def using d(1) ps(1) by force
    with has_parent_mono ps d(2) show ?thesis by auto
  qed
  have "(case document_passages env profiles fp version d of Inl _ \<Rightarrow> [] | Inr ps \<Rightarrow> ps) = [] \<longleftrightarrow> blank (so_content d)" for d
    using doc [of fp version d] by auto
  then show "passages_of env profiles fp version docs = [] \<longleftrightarrow> (\<forall>d\<in>set docs. blank (so_content d))"
    by (simp add: passages_of_def)
qed

section \<open>A small index\<close>

definition sample_index_env :: index_env where
  "sample_index_env = \<lparr>ie_chunks = sample_env, ie_glob = (\<lambda>path glob. path = glob), ie_rank = (\<lambda>q f. Some 0)\<rparr>"

definition sample_profiles :: document_profiles where
  "sample_profiles = \<lparr>ps_default = [103], ps_rules = [], ps_profiles = [([103], sample_profile)]\<rparr>"

definition sample_document :: source_text where
  "sample_document = \<lparr>so_path = [109], so_content = [65], so_sha256 = [115], so_media_type = [116]\<rparr>"

definition sample_retriever :: retriever_env where
  "sample_retriever = \<lparr>re_index = sample_index_env, re_nfkd = (\<lambda>t. t), re_combining = (\<lambda>c. False), re_lower = (\<lambda>t. t),
     re_decimal = (\<lambda>t. False), re_bm25 = (\<lambda>ds k q. map (\<lambda>d. (fst d, Some 1)) (take k ds)), re_merge = (\<lambda>t ps gs. map pa_id gs)\<rparr>"

lemma sample_index_ok: "index_env_ok sample_index_env sample_profiles"
  using sample_tokenizer sample_profile_valid
  by (simp add: index_env_ok_def sample_index_env_def valid_profiles_def sample_profiles_def profile_name_def name_char_def)

section \<open>Rebuilding\<close>

definition file_rows :: "index_db option \<Rightarrow> passage list" where
  "file_rows db_file = (case db_file of None \<Rightarrow> [] | Some db \<Rightarrow> ix_rows db)"

lemma index_rebuilt_rows:
  assumes "index_env_ok env profiles" "rebuild_index env profiles fp version docs db_file = (r, db_file')"
  shows "case r of
      Inl e \<Rightarrow> file_rows db_file' = file_rows db_file \<and> (\<exists>e. insert_passages (passages_of env profiles fp version docs)
        (filter (\<lambda>x. pa_version x \<noteq> version) (file_rows db_file)) = Inl e) \<and> e = DuplicatePassage
    | Inr n \<Rightarrow> file_rows db_file' = filter (\<lambda>x. pa_version x \<noteq> version) (file_rows db_file) @ passages_of env profiles fp version docs \<and>
        insert_passages (passages_of env profiles fp version docs) (filter (\<lambda>x. pa_version x \<noteq> version) (file_rows db_file)) = Inr (file_rows db_file') \<and>
        n = length (filter pa_leaf (passages_of env profiles fp version docs)) \<and> db_file' \<noteq> None"
proof -
  let ?ps = "passages_of env profiles fp version docs"
  let ?db = "case db_file of None \<Rightarrow> empty_index | Some db \<Rightarrow> db"
  from documents_result(1) [OF assms(1)] obtain pss
    where pss: "traverse (document_passages env profiles fp version) docs = Inr pss" "concat pss = ?ps" by blast
  have rows: "ix_rows ?db = file_rows db_file" by (simp add: file_rows_def empty_index_def split: option.split)
  show ?thesis
  proof (cases "insert_passages ?ps (filter (\<lambda>x. pa_version x \<noteq> version) (file_rows db_file))")
    case (Inl e)
    then have r: "r = Inl e" "db_file' = Some ?db" using assms(2) pss rows by (simp_all add: rebuild_index_def Let_def)
    then have "file_rows db_file' = file_rows db_file" using rows by (simp add: file_rows_def)
    with r insert_Inl [OF Inl] Inl show ?thesis by simp
  next
    case (Inr rows')
    then have "r = Inr (length (filter pa_leaf ?ps))" "file_rows db_file' = rows'" "db_file' \<noteq> None"
      using assms(2) pss rows by (simp_all add: rebuild_index_def Let_def file_rows_def) auto
    with Inr insert_Inr [OF Inr] show ?thesis by simp
  qed
qed


lemma sample_blocks:
  "structural_blocks sample_env sample_profile [65] =
     [\<lparr>sb_start = 0, sb_end = 1, sb_page = Some 1, sb_section = [], sb_article = None\<rparr>]"
proof -
  have events: "block_events sample_env (dp_boundaries sample_profile) [65] = []"
    by (simp add: block_events_def sample_profile_def matches_def search_pattern_def match_at_def char_at_def line_events_def
        heading_pattern_def article_pattern_def PCases_def PCase_def PSpaces_def PPlus_def POpt_def ascii_def
        rstrip_breaks_def sample_env_def name_char_def line_break_def Let_def)
  have "\<not> blank [65]" by (simp add: blank_def strip_text_def lstrip_def rstrip_def is_space_def)
  then show ?thesis
    unfolding structural_blocks_def events Let_def
    by (simp add: flush_block_def first_block_state_def sample_profile_def text_slice_def Let_def)
qed

lemma sample_chunks:
  "build_chunks sample_env [109] [115] sample_profile [65] =
     Inr [make_chunk sample_env [65] \<lparr>sb_start = 0, sb_end = 1, sb_page = Some 1, sb_section = [], sb_article = None\<rparr> (0, 1)
       (chunk_id (chunk_identity sample_env [109] [115] 0 1 ''leaf-0'')) 0 None [] True]"
proof -
  have "\<not> blank [65]" by (simp add: blank_def strip_text_def lstrip_def rstrip_def is_space_def)
  moreover have "token_count sample_env [65] \<le> dp_leaf sample_profile"
    by (simp add: token_count_def sample_env_def sample_profile_def)
  ultimately show ?thesis by (simp add: build_chunks_def sample_blocks block_chunks_def text_slice_def Let_def)
qed


section \<open>Histories\<close>

record rebuild_run =
  rr_profiles :: document_profiles
  rr_fingerprint :: ustring
  rr_version :: ustring
  rr_documents :: "source_text list"

definition rebuild_all :: "index_env \<Rightarrow> rebuild_run list \<Rightarrow> index_db option" where
  "rebuild_all env runs =
     fold (\<lambda>run db_file. snd (rebuild_index env (rr_profiles run) (rr_fingerprint run) (rr_version run) (rr_documents run) db_file)) runs None"

definition index_ok :: "passage list \<Rightarrow> bool" where
  "index_ok rows \<longleftrightarrow> distinct (map passage_key rows) \<and> (\<forall>r\<in>set rows. has_parent rows r)"

lemma rebuild_keeps:
  assumes "index_env_ok env profiles" "index_ok (file_rows db_file)"
  shows "index_ok (file_rows (snd (rebuild_index env profiles fp version docs db_file)))"
proof -
  let ?ps = "passages_of env profiles fp version docs"
  let ?old = "filter (\<lambda>x. pa_version x \<noteq> version) (file_rows db_file)"
  obtain r db_file' where run: "rebuild_index env profiles fp version docs db_file = (r, db_file')" by (cases "rebuild_index env profiles fp version docs db_file")
  note result = index_rebuilt_rows [OF assms(1) run]
  show ?thesis
  proof (cases r)
    case (Inl e)
    with result assms(2) run show ?thesis by simp
  next
    case (Inr n)
    with result have rows: "file_rows db_file' = ?old @ ?ps" "insert_passages ?ps ?old = Inr (?old @ ?ps)" by simp_all
    from insert_Inr [OF rows(2)] have keys: "distinct (map passage_key ?ps)" "passage_key ` set ?ps \<inter> passage_key ` set ?old = {}" by simp_all
    have "distinct (map passage_key ?old)" using assms(2) by (simp add: index_ok_def distinct_map_filter)
    with keys have "distinct (map passage_key (?old @ ?ps))" by auto
    moreover have "has_parent (?old @ ?ps) x" if "x \<in> set ?old" for x
      using assms(2) that unfolding index_ok_def has_parent_def by fastforce
    moreover have "has_parent (?old @ ?ps) x" if "x \<in> set ?ps" for x
      using documents_result(2) [OF assms(1) that] has_parent_mono by fastforce
    ultimately show ?thesis using rows(1) run by (auto simp: index_ok_def)
  qed
qed

lemma history_ok:
  assumes "\<forall>run\<in>set runs. index_env_ok env (rr_profiles run)"
  shows "index_ok (file_rows (rebuild_all env runs))"
proof -
  have "index_ok (file_rows (fold (\<lambda>run db_file. snd (rebuild_index env (rr_profiles run) (rr_fingerprint run) (rr_version run) (rr_documents run) db_file)) runs db_file))"
    if "index_ok (file_rows db_file)" "\<forall>run\<in>set runs. index_env_ok env (rr_profiles run)" for db_file
    using that by (induction runs arbitrary: db_file) (simp_all add: rebuild_keeps)
  then show ?thesis using assms by (simp add: rebuild_all_def index_ok_def file_rows_def)
qed

section \<open>Retrieval\<close>

definition confined :: "passage list \<Rightarrow> ustring \<Rightarrow> ustring list \<Rightarrow> ustring list \<Rightarrow> passage \<Rightarrow> bool" where
  "confined rows version documents articles r \<longleftrightarrow>
     (\<exists>x\<in>set rows. r = x\<lparr>pa_score := pa_score r\<rparr> \<and> pa_version x = version \<and> pa_document x \<in> set documents \<and>
        (articles = [] \<or> (\<exists>a\<in>set articles. ch_article (pa_chunk x) = Some a)))"

lemma confined_score: "confined rows version documents articles r \<Longrightarrow> confined rows version documents articles (r\<lparr>pa_score := s\<rparr>)"
  unfolding confined_def by (metis passage.surjective passage.update_convs(9) passage.select_convs(9))

lemma in_scope_confined: "x \<in> set rows \<Longrightarrow> passage_in_scope version documents articles x \<Longrightarrow> confined rows version documents articles x"
  unfolding confined_def passage_in_scope_def by (intro bexI [of _ x]) (auto split: option.splits)

lemma search_confined:
  assumes "r \<in> set (search_passages env db_file query version documents articles limit)"
  shows "confined (file_rows db_file) version documents articles r"
proof (cases db_file)
  case None
  with assms show ?thesis by (simp add: search_passages_def scoped_passages_def Let_def split: if_splits)
next
  case (Some db)
  from assms have "\<exists>x\<in>set (ix_rows db). passage_in_scope version documents articles x \<and> (r = x \<or> (\<exists>s. r = x\<lparr>pa_score := s\<rparr>))"
    by (auto simp: search_passages_def scoped_passages_def Let_def Some split: if_splits option.splits dest!: in_set_takeD)
  then show ?thesis using in_scope_confined confined_score Some by (auto simp: file_rows_def)
qed

lemma passage_of_Some: "passage_of ps i = Some p \<Longrightarrow> p \<in> set ps \<and> pa_id p = i"
  unfolding passage_of_def by (auto dest!: map_of_SomeD)

lemma map_filter_member: "y \<in> set (List.map_filter f xs) \<longleftrightarrow> (\<exists>x\<in>set xs. f x = Some y)"
  by (force simp: List.map_filter_def)

lemma parent_confined:
  assumes ok: "index_ok rows" and h: "confined rows version documents articles h" "ch_parent (pa_chunk h) = Some q"
    and p: "p \<in> set rows" "pa_version p = version" "pa_id p = q"
  shows "confined rows version documents articles p"
proof -
  from h(1) obtain x where x: "x \<in> set rows" "h = x\<lparr>pa_score := pa_score h\<rparr>" "pa_version x = version" "pa_document x \<in> set documents"
      "articles = [] \<or> (\<exists>a\<in>set articles. ch_article (pa_chunk x) = Some a)" unfolding confined_def by blast
  from x(2) have "pa_chunk h = pa_chunk x" by (metis passage.select_convs(1) passage.surjective passage.update_convs(9))
  with h(2) have "ch_parent (pa_chunk x) = Some q" by simp
  moreover have "has_parent rows x" using ok x(1) by (simp add: index_ok_def)
  ultimately obtain m where m: "m \<in> set rows" "pa_id m = q" "pa_version m = version" "pa_document m = pa_document x"
      "ch_article (pa_chunk m) = ch_article (pa_chunk x)" unfolding has_parent_def using x(3) by blast
  have "passage_key m = passage_key p" using m p by (simp add: passage_key_def)
  then have "m = p" using ok m(1) p(1) by (auto simp: index_ok_def distinct_map inj_on_def)
  with m x show ?thesis unfolding confined_def by (intro bexI [of _ p]) auto
qed

lemma merged_confined:
  assumes ok: "index_ok (file_rows db_file)"
    and s: "\<forall>r\<in>set standalone. confined (file_rows db_file) version documents articles r"
    and h: "\<forall>r\<in>set hierarchical. confined (file_rows db_file) version documents articles r"
    and r: "r \<in> set (merged_passages env db_file version standalone hierarchical)"
  shows "confined (file_rows db_file) version documents articles r"
proof -
  define ids where "ids = sort (unique (List.map_filter (\<lambda>p. case ch_parent (pa_chunk p) of Some q \<Rightarrow> if q = [] then None else Some q | None \<Rightarrow> None) hierarchical))"
  define parents where "parents = parent_passages db_file version ids"
  have parent: "confined (file_rows db_file) version documents articles p" if "p \<in> set parents" for p
  proof -
    from that have p: "p \<in> set (file_rows db_file)" "pa_version p = version" "pa_id p \<in> set ids"
      by (auto simp: parents_def parent_passages_def file_rows_def split: option.splits)
    from p(3) obtain x where "x \<in> set hierarchical" "ch_parent (pa_chunk x) = Some (pa_id p)"
      by (auto simp: ids_def map_filter_member split: option.splits if_splits)
    with parent_confined [OF ok _ _ p(1,2)] h show ?thesis by blast
  qed
  have group: "confined (file_rows db_file) version documents articles x" if "x \<in> set (merged_group env parents hierarchical t)" for x t
  proof -
    from that obtain i where i: "(case passage_of parents i of Some p \<Rightarrow> Some (p\<lparr>pa_score := best_score hierarchical i\<rparr>)
        | None \<Rightarrow> passage_of hierarchical i) = Some x" by (auto simp: merged_group_def map_filter_member Let_def)
    show ?thesis
    proof (cases "passage_of parents i")
      case None
      with i passage_of_Some h show ?thesis by fastforce
    next
      case (Some p)
      with i have "x = p\<lparr>pa_score := best_score hierarchical i\<rparr>" by simp
      moreover have "p \<in> set parents" using passage_of_Some [OF Some] by simp
      ultimately show ?thesis using confined_score [OF parent] by simp
    qed
  qed
  from r consider "r \<in> set standalone" | "r \<in> set hierarchical" | t where "r \<in> set (merged_group env parents hierarchical t)"
    unfolding merged_passages_def Let_def ids_def [symmetric] parents_def [symmetric] by auto
  then show ?thesis using s h group by cases auto
qed

lemma retrieve_confined:
  assumes ok: "index_ok (file_rows db_file)"
    and r: "r \<in> set (retrieve env db_file version query documents articles top_k)"
  shows "confined (file_rows db_file) version documents articles r"
proof -
  let ?ok = "confined (file_rows db_file) version documents articles"
  define passages where "passages = search_passages (re_index env) db_file (retrieval_query env query) version documents articles 100"
  define selected where "selected = List.map_filter (\<lambda>(i, s). map_option (\<lambda>p. p\<lparr>pa_score := s\<rparr>) (passage_of passages i))
    (re_bm25 env (map (\<lambda>p. (pa_id p, ch_text (pa_chunk p) @ 10 # fold_accents env (ch_text (pa_chunk p)))) passages) top_k (retrieval_query env query))"
  define standalone where "standalone = filter (\<lambda>p. ch_standalone (pa_chunk p)) selected"
  define hierarchical where "hierarchical = filter (\<lambda>p. \<not> ch_standalone (pa_chunk p) \<and> ch_parent (pa_chunk p) \<noteq> None) selected"
  define combined where "combined = merged_passages env db_file version standalone hierarchical"
  have "?ok p" if "p \<in> set passages" for p using that search_confined unfolding passages_def by blast
  then have sel: "?ok p" if "p \<in> set selected" for p
    using that passage_of_Some confined_score by (fastforce simp: selected_def map_filter_member)
  have comb: "?ok p" if "p \<in> set combined" for p
    using merged_confined [OF ok _ _ that [unfolded combined_def]] sel by (auto simp: standalone_def hierarchical_def)
  have "r \<in> set standalone \<or> r \<in> set combined"
  proof -
    from r have "r \<in> set (if passages = [] then [] else if hierarchical = [] then take top_k standalone else
        take top_k (rev (sort_key (\<lambda>p. (pa_score p \<noteq> None, case pa_score p of None \<Rightarrow> 0 | Some s \<Rightarrow> s, pa_id p))
          (rev (List.map_filter (passage_of combined) (unique (map pa_id combined)))))))"
      unfolding retrieve_def Let_def passages_def [symmetric] selected_def [symmetric] standalone_def [symmetric]
        hierarchical_def [symmetric] combined_def [symmetric] .
    then show ?thesis
      by (auto split: if_splits dest!: in_set_takeD simp: map_filter_member dest: passage_of_Some)
  qed
  then show ?thesis using sel comb by (auto simp: standalone_def)
qed

text \<open>
  C38. Retrieval stays within its scope. In an index that any sequence of rebuilds made, with any ranks
  of the full-text search and any answers of the Haystack components, the retriever returns at most
  \<open>top_k\<close> passages, and each is a row of the version and of one of the documents, and if articles were
  given of one of the articles; the merged parents are no exception.
\<close>

theorem retrieval_confined:
  assumes "\<forall>run\<in>set runs. index_env_ok (re_index env) (rr_profiles run)"
  shows "length (retrieve env (rebuild_all (re_index env) runs) version query documents articles top_k) \<le> top_k \<and>
    (\<forall>r\<in>set (retrieve env (rebuild_all (re_index env) runs) version query documents articles top_k).
      \<exists>x\<in>set (file_rows (rebuild_all (re_index env) runs)). r = x\<lparr>pa_score := pa_score r\<rparr> \<and> pa_version x = version \<and>
        pa_document x \<in> set documents \<and> (articles = [] \<or> (\<exists>a\<in>set articles. ch_article (pa_chunk x) = Some a)))"
proof -
  let ?store = "rebuild_all (re_index env) runs"
  have ok: "index_ok (file_rows ?store)" by (rule history_ok [OF assms])
  have "confined (file_rows ?store) version documents articles r"
    if "r \<in> set (retrieve env ?store version query documents articles top_k)" for r
    by (rule retrieve_confined [OF ok that])
  moreover have "length (retrieve env ?store version query documents articles top_k) \<le> top_k"
    by (simp add: retrieve_def Let_def)
  ultimately show ?thesis unfolding confined_def by blast
qed

definition sample_rebuild :: rebuild_run where
  "sample_rebuild = \<lparr>rr_profiles = sample_profiles, rr_fingerprint = [102], rr_version = [118], rr_documents = [sample_document]\<rparr>"

theorem retrieval_confined_witness:
  "pa_version ` set (retrieve sample_retriever (rebuild_all sample_index_env [sample_rebuild]) [118] [65] [[109]] [] 8) \<subseteq> {[118]}"
proof
  let ?found = "retrieve sample_retriever (rebuild_all sample_index_env [sample_rebuild]) [118] [65] [[109]] [] 8"
  have "\<forall>run\<in>set [sample_rebuild]. index_env_ok (re_index sample_retriever) (rr_profiles run)"
    using sample_index_ok by (simp add: sample_rebuild_def sample_retriever_def)
  note result = retrieval_confined [OF this, of "[118]" "[65]" "[[109]]" "[]" 8]
  fix v assume "v \<in> pa_version ` set ?found"
  then obtain r where r: "r \<in> set ?found" "v = pa_version r" by blast
  moreover have "re_index sample_retriever = sample_index_env" by (simp add: sample_retriever_def)
  ultimately obtain x where x: "r = x\<lparr>pa_score := pa_score r\<rparr>" "pa_version x = [118]" using result by auto
  have "pa_version (x\<lparr>pa_score := pa_score r\<rparr>) = pa_version x" by simp
  with x r(2) show "v \<in> {[118]}" by (metis singletonI)
qed

end
