(* ===== verification/Spec2Isabelle.thy ===== *)
theory Spec2Isabelle
  imports Retention Readiness Conversation_Properties Chat_Properties Agent_Properties Paging_Properties Ingestion_Properties Source_Properties
begin

text \<open>
  Verification of the API of the knowledge graph service (\<open>apps/api/app\<close>): project registry and build
  queue, knowledge ingestion, conversations, the agent that answers questions from graph evidence, and
  the console for PL/SQL dependencies.

  \<^bold>\<open>The program and the theories.\<close> Every theory opens with the files it models; definitions have the names
  of the functions they stand for.

  \<^item> \<open>Base\<close>, \<open>Text_Points\<close>, \<open>Json\<close>, \<open>Encodings\<close>: shared types (identifiers, times, outcomes), tables as lists
    of rows with WHERE clauses, Python strings as code points, JSON values, UTF-8 and base64.
  \<^item> Registry (\<open>projects/repository.py\<close>): the rows and the database (\<open>Project_Rows\<close>), memberships and
    access requests (\<open>Project_Access\<close>), projects, drafts and uploads (\<open>Project_Drafts\<close>), the build queue
    (\<open>Project_Builds\<close>). Its invariant \<open>db_inv\<close> is in \<open>Project_Invariant\<close>; the theories \<open>Access_Preserve\<close>,
    \<open>Draft_Preserve\<close> and \<open>Build_Preserve\<close> show that each operation keeps it; \<open>Registry_Steps\<close> and
    \<open>Build_Worker\<close> (\<open>projects/worker.py\<close>) make API and worker one transition system \<open>sys_step\<close>.
    \<open>Registry_Samples\<close> is a concrete run; \<open>Registry_Properties\<close> and \<open>Queue_Properties\<close> hold the theorems.
  \<^item> Uploads (\<open>projects/storage.py\<close>): \<open>Project_Storage\<close>, with temporary files and content-addressed blobs.
  \<^item> Ingestion (\<open>knowledge/service/ingestion.py\<close>): \<open>Ingestion\<close> and \<open>Ingestion_Properties\<close>; a run of the
    worker's builder may stop at every file operation.
  \<^item> Conversations (\<open>store/\<close>): messages and history (\<open>Conversation_Model\<close>), the interface of the stores
    (\<open>Conversation_Protocol\<close>), the process-local store (\<open>Conv_Memory\<close>) and the durable one (\<open>Conv_Sql\<close>).
    \<open>Conv_Refinement\<close> and \<open>Conv_Simulation\<close> relate the two; the request handler of \<open>api/router.py\<close> is in
    \<open>Conversation_Requests\<close>, as a client of the locale \<open>conversation_store\<close>, which both stores interpret.
  \<^item> Routes (\<open>api/routes/projects\<close>, \<open>api/errors.py\<close>, \<open>auth/\<close>, the Keycloak directory and the retention task
    of \<open>main.py\<close>): \<open>Project_Routes\<close>, \<open>Route_Properties\<close>, \<open>Api_Errors\<close>, \<open>Auth\<close>, \<open>Directory\<close>, \<open>Retention\<close>.
  \<^item> Agent (\<open>agent/workflow.py\<close>): \<open>Evidence\<close>, \<open>Agent_Text\<close>, \<open>Agent_Workflow\<close>, \<open>Agent_Properties\<close>.
  \<^item> PL/SQL console (\<open>integrations/plsql\<close>): records and identifiers (\<open>Plsql_Graph\<close>), the queries
    (\<open>Plsql_Catalog\<close>), the client (\<open>Plsql_Client\<close>, \<open>Plsql_Traversal\<close>), and the correctness of lookups, impact
    and paths (\<open>Plsql_Cache\<close>, \<open>Plsql_Impact\<close>, \<open>Plsql_Report\<close>, \<open>Plsql_Paths\<close>, \<open>Plsql_Properties\<close>).

  \<^bold>\<open>What is shown.\<close> The registry keeps its draft protocol, at most one build runs, every project keeps an
  owner, builds complete or fail without touching sealed content, and the routes refine the steps of the
  registry and keep tenants apart. Uploads are stored as announced. The two conversation stores agree on
  all calls, and a leased request leaves one answer. Answers of the agent are grounded in its
  evidence, its calls are bounded and each stream ends once. The traversals of the console find what
  reference definitions by walks say. A run of the ingestion switches the graph entirely or not at all.

  \<^bold>\<open>Conventions.\<close> Python integers are \<open>int\<close> or \<open>nat\<close> (Python's do not wrap); a raised exception is \<open>Inl\<close> and
  carries its class; a transaction that raises leaves its database as it was. Loops are structural over the
  lists they consume. Fuel is used where rounds are bounded by the code itself: \<open>impact_rounds\<close>, \<open>path_rounds\<close>
  and \<open>routes_from\<close> take the hops that are left, and the last is shown to reach an anchor within them; the
  run of the agent visits its nodes in the order of their rank, so its fuel, the number of nodes, is enough.

  \<^bold>\<open>Parameters.\<close> What is not code of the repository is an argument: digests, Unicode tables, the document
  converter, the JWT library, the identity provider, the graph database's failures, Graphify, the language
  model. Hypotheses about them say what their documentation says.

  \<^bold>\<open>Not modelled.\<close> Document conversion and the Haystack pipeline (third-party readers), prompts and settings
  (texts and environment variables), logging and telemetry, migrations, the web client, and the mock servers.
  Concurrency is that of transactions and of whole requests; a crash of the process is modelled in the
  build queue only.
\<close>

end
